(* ===== verification/Prelude.thy ===== *)
theory Prelude
  imports Main "HOL-Library.Word"
begin

text \<open>
  Shared vocabulary of the development: the machine-integer types of the C++ sources, the
  \<open>std::exception\<close> hierarchy as a datatype, results of member functions that may throw, the
  casts between signed integers, and the generic lemmas on fixed-size ring buffers that every
  queue and delay line of the program relies on.

  Unsigned integers that the code shifts, masks or lets wrap are words
  (\<open>uint32_t\<close> is \<open>u32\<close>); signed samples and intermediate products are \<open>int\<close>, and every
  narrowing conversion of the source (\<open>int16_t(x)\<close>, \<open>int32_t(x)\<close>) is written out as a cast.
\<close>

unbundle bit_operations_syntax

type_synonym u8 = "8 word"
type_synonym u16 = "16 word"
type_synonym u32 = "32 word"
type_synonym u64 = "64 word"

named_theorems cast_simps
named_theorems ring_simps
named_theorems range_defs

section \<open>Exceptions and results\<close>

text \<open>
  The exception classes of the standard library the program throws, with their message.
  \<open>UndefinedBehaviour\<close> marks an access the source performs without a bounds check
  (\<open>operator[]\<close> past the end of a view).
\<close>

datatype error =
    InvalidArgument string
  | OutOfRange string
  | LengthError string
  | OverflowError string
  | RuntimeError string
  | UndefinedBehaviour string

text \<open>
  A member function that may throw returns its result or its exception together with the
  object's state at that moment: mutations made before a \<open>throw\<close> are kept.
\<close>

type_synonym ('s, 'a) outcome = "(error + 'a) \<times> 's"

fun returns :: "('s, 'a) outcome \<Rightarrow> bool" where
  "returns (Inl e, s) = False"
| "returns (Inr a, s) = True"

definition is_ok :: "(error + 'a) \<Rightarrow> bool" where
  "is_ok r = (case r of Inl _ \<Rightarrow> False | Inr _ \<Rightarrow> True)"

lemma is_ok_simps [simp]: "is_ok (Inr a)" "\<not> is_ok (Inl e)"
  by (simp_all add: is_ok_def)

lemma is_ok_obtain: "is_ok r \<Longrightarrow> \<exists>a. r = Inr a"
  by (cases r) simp_all

section \<open>Signed machine integers\<close>

text \<open>Conversions to a narrower signed type keep the low bits, read as two's complement.\<close>

definition i16 :: "int \<Rightarrow> int" where
  "i16 x = signed_take_bit 15 x"

definition i32 :: "int \<Rightarrow> int" where
  "i32 x = signed_take_bit 31 x"

definition in_i16 :: "int \<Rightarrow> bool" where
  "in_i16 x \<longleftrightarrow> - 32768 \<le> x \<and> x \<le> 32767"

definition in_i32 :: "int \<Rightarrow> bool" where
  "in_i32 x \<longleftrightarrow> - 2147483648 \<le> x \<and> x \<le> 2147483647"

definition in_i64 :: "int \<Rightarrow> bool" where
  "in_i64 x \<longleftrightarrow> - 9223372036854775808 \<le> x \<and> x \<le> 9223372036854775807"

lemmas in_i_defs [range_defs] = in_i16_def in_i32_def in_i64_def

lemma signed_take_bit_id:
  assumes "- (2 ^ n) \<le> x" and "x < 2 ^ n"
  shows "signed_take_bit n (x :: int) = x"
  using assms by (simp add: signed_take_bit_int_eq_self_iff)

lemma i16_id [cast_simps]: "in_i16 x \<Longrightarrow> i16 x = x"
  unfolding i16_def in_i16_def by (rule signed_take_bit_id) simp_all

lemma i32_id [cast_simps]: "in_i32 x \<Longrightarrow> i32 x = x"
  unfolding i32_def in_i32_def by (rule signed_take_bit_id) simp_all

lemma in_i16_i16: "in_i16 (i16 x)"
  using signed_take_bit_int_greater_eq_minus_exp [of 15 x] signed_take_bit_int_less_exp [of 15 x]
  by (simp add: in_i16_def i16_def)

lemma in_i32_i32: "in_i32 (i32 x)"
  using signed_take_bit_int_greater_eq_minus_exp [of 31 x] signed_take_bit_int_less_exp [of 31 x]
  by (simp add: in_i32_def i32_def)

text \<open>The low half-word of a command word read as \<open>int16_t\<close>.\<close>

definition s16 :: "u16 \<Rightarrow> int" where
  "s16 w = sint w"

lemma in_i16_s16: "in_i16 (s16 w)"
  using sint_lt [of w] sint_ge [of w] by (simp add: s16_def in_i16_def)

lemma s16_of_int: "s16 (of_int x) = i16 x"
  by (simp add: s16_def i16_def sint_sbintrunc')

lemma s16_of_int_id [cast_simps]: "in_i16 x \<Longrightarrow> s16 (of_int x) = x"
  by (simp add: s16_of_int i16_id)

lemma bit_beyond: "LENGTH('a) \<le> k \<Longrightarrow> \<not> bit (w :: 'a::len word) k"
  by (meson bit_imp_le_length leD)

lemma unat_bounds:
  "unat (a :: u8) < 256" "unat (b :: u16) < 65536" "unat (c :: u32) < 4294967296"
  "unat (d :: u64) < 18446744073709551616"
  using unsigned_less [of a] unsigned_less [of b] unsigned_less [of c] unsigned_less [of d]
  by simp_all

lemma uint_bounds:
  "uint (a :: u8) < 256" "uint (b :: u16) < 65536" "uint (c :: u32) < 4294967296"
  "uint (d :: u64) < 18446744073709551616"
  using uint_lt2p [of a] uint_lt2p [of b] uint_lt2p [of c] uint_lt2p [of d]
  by simp_all

text \<open>\<open>std::clamp(v, lo, hi)\<close>.\<close>

definition clamp :: "'a::linorder \<Rightarrow> 'a \<Rightarrow> 'a \<Rightarrow> 'a" where
  "clamp v lo hi = (if v < lo then lo else if hi < v then hi else v)"

lemma clamp_bounds: "lo \<le> hi \<Longrightarrow> lo \<le> clamp v lo hi \<and> clamp v lo hi \<le> hi"
  by (auto simp: clamp_def)

lemma clamp_id: "lo \<le> v \<Longrightarrow> v \<le> hi \<Longrightarrow> clamp v lo hi = v"
  by (auto simp: clamp_def)

section \<open>Ring buffers\<close>

text \<open>
  The live contents of a fixed array used as a ring: \<open>n\<close> entries starting at index \<open>h\<close>.
\<close>

definition ring_list :: "'a list \<Rightarrow> nat \<Rightarrow> nat \<Rightarrow> 'a list" where
  "ring_list xs h n = map (\<lambda>i. xs ! ((h + i) mod length xs)) [0..<n]"

lemma length_ring_list [simp]: "length (ring_list xs h n) = n"
  by (simp add: ring_list_def)

lemma ring_list_empty [simp]: "ring_list xs h 0 = []"
  by (simp add: ring_list_def)

lemma ring_list_nth: "i < n \<Longrightarrow> ring_list xs h n ! i = xs ! ((h + i) mod length xs)"
  by (simp add: ring_list_def)

lemma ring_index_inj:
  assumes "i < c" and "j < c" and "(h + i) mod c = (h + j) mod (c :: nat)"
  shows "i = j"
  using assms
proof (induction i j rule: linorder_wlog)
  case (le a b)
  have "(h + b) mod c = (h + a) mod c" using le by simp
  then have "c dvd (h + b) - (h + a)" using le(1) by (simp add: mod_eq_dvd_iff_nat)
  then have "c dvd b - a" by simp
  moreover have "b - a < c" using le by simp
  ultimately have "b - a = 0" by (meson dvd_imp_le not_gr_zero leD)
  then show ?case using le(1) by simp
next
  case (sym a b)
  then show ?case by simp
qed

lemma mod_length_less: "n < length xs \<Longrightarrow> m mod length xs < length xs"
  by (rule mod_less_divisor) (rule le_less_trans [OF le0])

lemma ring_list_update_outside:
  assumes "n \<le> k" and "k < length xs"
  shows "ring_list (xs[(h + k) mod length xs := x]) h n = ring_list xs h n"
proof (rule nth_equalityI)
  fix i assume "i < length (ring_list (xs[(h + k) mod length xs := x]) h n)"
  then have i: "i < n" by simp
  then have "(h + i) mod length xs \<noteq> (h + k) mod length xs"
    using assms ring_index_inj [of i "length xs" k h] by auto
  then show "ring_list (xs[(h + k) mod length xs := x]) h n ! i = ring_list xs h n ! i"
    using i by (simp add: ring_list_nth)
qed simp

lemma ring_list_push [ring_simps]:
  assumes "n < length xs"
  shows "ring_list (xs[(h + n) mod length xs := x]) h (Suc n) = ring_list xs h n @ [x]"
proof -
  have "(h + n) mod length xs < length xs" using assms by (rule mod_length_less)
  then show ?thesis
    using ring_list_update_outside [of n n xs h x] assms by (simp add: ring_list_def)
qed

lemma ring_list_pop [ring_simps]:
  assumes "h < length xs"
  shows "ring_list xs h (Suc n) = xs ! h # ring_list xs ((h + 1) mod length xs) n"
proof -
  have "map (\<lambda>i. xs ! ((h + i) mod length xs)) [1..<Suc n] =
      map (\<lambda>i. xs ! ((Suc h mod length xs + i) mod length xs)) [0..<n]"
    by (rule nth_equalityI) (auto simp: mod_add_left_eq simp del: upt_Suc)
  then show ?thesis using assms by (simp add: ring_list_def upt_conv_Cons del: upt_Suc)
qed

lemma ring_list_replace [ring_simps]:
  assumes "k < n" and "n \<le> length xs"
  shows "ring_list (xs[(h + k) mod length xs := x]) h n = (ring_list xs h n)[k := x]"
proof (rule nth_equalityI)
  fix i assume "i < length (ring_list (xs[(h + k) mod length xs := x]) h n)"
  then have i: "i < n" by simp
  have "(h + i) mod length xs = (h + k) mod length xs \<longleftrightarrow> i = k"
    using i assms ring_index_inj [of i "length xs" k h] by auto
  moreover have "(h + i) mod length xs < length xs"
    using i assms by (intro mod_length_less [of i]) simp
  ultimately show "ring_list (xs[(h + k) mod length xs := x]) h n ! i = (ring_list xs h n)[k := x] ! i"
    using i assms by (cases "i = k") (simp_all add: ring_list_nth)
qed simp

lemma ring_predecessor:
  assumes "h < (c :: nat)"
  shows "((h + c - 1) mod c + 1) mod c = h"
proof (cases h)
  case 0
  then show ?thesis using assms by simp
next
  case (Suc h')
  then show ?thesis using assms by simp
qed

lemma ring_list_unshift [ring_simps]:
  assumes "h < length xs" and "n < length xs"
  defines "g \<equiv> (h + length xs - 1) mod length xs"
  shows "ring_list (xs[g := x]) g (Suc n) = x # ring_list xs h n"
proof -
  have g: "g < length xs" unfolding g_def using assms(1) by (rule mod_length_less)
  have next_g: "(g + 1) mod length xs = h"
    unfolding g_def using assms(1) by (rule ring_predecessor)
  have g_eq: "g = (h + (length xs - 1)) mod length xs"
    using assms(1) by (simp add: g_def Nat.add_diff_assoc)
  have "ring_list (xs[g := x]) h n = ring_list xs h n"
    unfolding g_eq using assms(1,2) by (intro ring_list_update_outside) auto
  then show ?thesis using g next_g by (simp add: ring_list_pop)
qed

text \<open>Overwriting the oldest entry of a full ring drops it and appends the new one.\<close>

lemma ring_list_rotate:
  assumes "h < length xs"
  shows "ring_list xs h (length xs) = xs ! h # tl (ring_list xs h (length xs))"
    and "ring_list (xs[h := x]) ((h + 1) mod length xs) (length xs) =
      tl (ring_list xs h (length xs)) @ [x]"
proof -
  let ?n = "length xs"
  have n: "0 < ?n" using assms by auto
  have full: "ring_list xs h ?n = xs ! h # ring_list xs ((h + 1) mod ?n) (?n - 1)"
    using ring_list_pop [OF assms, of "?n - 1"] n by simp
  then show "ring_list xs h ?n = xs ! h # tl (ring_list xs h ?n)" by simp
  have "h + 1 + (?n - 1) = h + ?n" using n by linarith
  then have "((h + 1) mod ?n + (?n - 1)) mod ?n = (h + ?n) mod ?n" by (simp only: mod_add_left_eq)
  then have wrap: "((h + 1) mod ?n + (?n - 1)) mod ?n = h" using assms by simp
  have "ring_list (xs[((h + 1) mod ?n + (?n - 1)) mod ?n := x]) ((h + 1) mod ?n) (Suc (?n - 1)) =
      ring_list xs ((h + 1) mod ?n) (?n - 1) @ [x]"
    using n by (intro ring_list_push) simp
  then show "ring_list (xs[h := x]) ((h + 1) mod ?n) ?n = tl (ring_list xs h ?n) @ [x]"
    unfolding wrap using full n by simp
qed

end
