(* ===== verification/Fixed_Point.thy ===== *)
theory Fixed_Point
  imports Prelude
begin

text \<open>
  The fixed-point primitives that the audio models of \<open>src/sim/harness/render\<close> share. Every
  model class carries its own private copy of these static members with the same body; they
  are modelled once here. The lemmas give each primitive its mathematical meaning: the
  arithmetic shift is division rounding to minus infinity, the signed-25 wrap and the
  saturation land in the mix range and are the identity there, and the diagnostic counters
  saturate instead of wrapping.
\<close>

section \<open>Primitives\<close>

text \<open>
  \<open>arithmetic_shift_right(int64_t value, unsigned bits)\<close>: the source computes the negative
  branch on \<open>uint64_t\<close>; with \<open>value\<close> an \<open>int64_t\<close> and \<open>bits\<close> below 64 no step of it wraps.
\<close>

definition arithmetic_shift_right :: "int \<Rightarrow> nat \<Rightarrow> int" where
  "arithmetic_shift_right value bits =
     (if 0 \<le> value then value div 2 ^ bits
      else - ((- (value + 1) + 1 + (2 ^ bits - 1)) div 2 ^ bits))"

definition mix25_min :: int where
  "mix25_min = - 16777216"

definition mix25_max :: int where
  "mix25_max = 16777215"

definition in_mix25 :: "int \<Rightarrow> bool" where
  "in_mix25 x \<longleftrightarrow> mix25_min \<le> x \<and> x \<le> mix25_max"

definition signed_mix25 :: "int \<Rightarrow> int" where
  "signed_mix25 value =
     (let bits = (of_int value :: u32) AND 0x01ffffff
      in if bits AND 0x01000000 \<noteq> 0 then i32 (uint bits - 2 ^ 25) else i32 (uint bits))"

text \<open>\<open>saturate_mix25(value, &saturated)\<close> returns the clipped value and the flag.\<close>

definition saturate_mix25 :: "int \<Rightarrow> int \<times> bool" where
  "saturate_mix25 value =
     (let minimum = - 16777216; maximum = 16777215;
          clipped = (value < minimum \<or> value > maximum)
      in (i32 (clamp value minimum maximum), clipped))"

definition sat_inc :: "u32 \<Rightarrow> u32 \<Rightarrow> u32" where
  "sat_inc value amount =
     (if amount > 0xffffffff - value then 0xffffffff else value + amount)"

text \<open>Unity gain is passed through exactly; every smaller gain is a Q1.15 product.\<close>

definition scale_q1_15 :: "int \<Rightarrow> u16 \<Rightarrow> int" where
  "scale_q1_15 sample gain =
     (if gain \<ge> 0x7fff then sample else arithmetic_shift_right (sample * uint gain) 15)"

section \<open>Meaning of the primitives\<close>

lemmas mix25_defs [range_defs] = in_mix25_def mix25_min_def mix25_max_def

text \<open>The shift is floor division, for both signs.\<close>

lemma neg_ceiling_div:
  assumes "0 < (b :: int)"
  shows "- ((- v + (b - 1)) div b) = v div b"
proof -
  define q r where "q = v div b" and "r = v mod b"
  have v: "v = b * q + r" by (simp add: q_def r_def)
  have r: "0 \<le> r" "r < b" using assms by (simp_all add: r_def)
  have "(- v + (b - 1)) div b = ((b - 1 - r) + b * (- q)) div b"
    by (simp add: v algebra_simps)
  also have "\<dots> = - q + (b - 1 - r) div b"
    using assms by (intro div_mult_self2) simp
  also have "(b - 1 - r) div b = 0"
    using r by (intro div_pos_pos_trivial) simp_all
  finally show ?thesis by (simp add: q_def)
qed

lemma arithmetic_shift_right_eq: "arithmetic_shift_right v bits = v div 2 ^ bits"
  using neg_ceiling_div [of "2 ^ bits" v]
  by (simp add: arithmetic_shift_right_def)

text \<open>The wrap to 25 bits is two's-complement truncation; mix values are unchanged.\<close>

lemma mix25_bits:
  "uint ((of_int v :: u32) AND 0x01ffffff) = take_bit 25 v"
  "((of_int v :: u32) AND 0x01ffffff) AND 0x01000000 \<noteq> 0 \<longleftrightarrow> bit v 24"
proof -
  have m: "(0x01ffffff :: u32) = mask 25" by (simp add: mask_eq_exp_minus_1)
  have e: "(0x01000000 :: u32) = 2 ^ 24" by simp
  have t: "(of_int v :: u32) AND 0x01ffffff = take_bit 25 (of_int v)"
    unfolding m by (rule take_bit_eq_mask [symmetric])
  show "uint ((of_int v :: u32) AND 0x01ffffff) = take_bit 25 v"
    unfolding t by (simp add: unsigned_take_bit_eq uint_word_of_int_eq take_bit_take_bit min_def)
  have "bit ((of_int v :: u32) AND 0x01ffffff) 24 \<longleftrightarrow> bit v 24"
    unfolding t by (simp add: bit_take_bit_iff bit_word_of_int_iff)
  then show "((of_int v :: u32) AND 0x01ffffff) AND 0x01000000 \<noteq> 0 \<longleftrightarrow> bit v 24"
    by (simp only: e and_exp_eq_0_iff_not_bit) simp
qed

lemma signed_mix25_eq: "signed_mix25 v = signed_take_bit 24 v"
proof -
  have r: "0 \<le> take_bit 25 v" by (rule take_bit_nonnegative)
  have "take_bit 25 v < 33554432" using take_bit_int_less_exp [of 25 v] by simp
  with r have "i32 (take_bit 25 v - 33554432) = take_bit 25 v - 33554432"
    and "i32 (take_bit 25 v) = take_bit 25 v"
    by (intro i32_id; unfold in_i32_def; linarith)+
  then show ?thesis
    by (simp add: signed_mix25_def Let_def mix25_bits signed_take_bit_eq_take_bit_minus)
qed

lemma in_mix25_signed_mix25 [simp]: "in_mix25 (signed_mix25 v)"
  using signed_take_bit_int_greater_eq_minus_exp [of 24 v] signed_take_bit_int_less_exp [of 24 v]
  by (simp add: signed_mix25_eq mix25_defs)

lemma signed_mix25_id [cast_simps]: "in_mix25 v \<Longrightarrow> signed_mix25 v = v"
  by (simp add: signed_mix25_eq mix25_defs signed_take_bit_id)

text \<open>Saturation clips to the mix range and reports exactly the values it changed.\<close>

lemma saturate_mix25_value: "fst (saturate_mix25 v) = clamp v mix25_min mix25_max"
proof -
  have "in_i32 (clamp v (- 16777216) 16777215)"
    by (auto simp: clamp_def in_i32_def)
  then show ?thesis by (simp add: saturate_mix25_def Let_def i32_id mix25_defs)
qed

lemma saturate_mix25_flag: "snd (saturate_mix25 v) \<longleftrightarrow> \<not> in_mix25 v"
  by (auto simp: saturate_mix25_def Let_def mix25_defs)

lemma in_mix25_saturate [simp]: "in_mix25 (fst (saturate_mix25 v))"
  by (auto simp: saturate_mix25_value clamp_def mix25_defs)

lemma saturate_mix25_id [cast_simps]: "in_mix25 v \<Longrightarrow> fst (saturate_mix25 v) = v"
  by (auto simp: saturate_mix25_value clamp_def mix25_defs)

lemma in_mix25_zero [simp]: "in_mix25 0"
  by (simp add: mix25_defs)

text \<open>Counters saturate: the unsigned value is the true sum cut off at the maximum.\<close>

lemma uint_sat_inc: "uint (sat_inc v a) = min 4294967295 (uint v + uint a)"
proof -
  have v: "uint v < 4294967296" and a: "uint a < 4294967296"
    using uint_lt2p [of v] uint_lt2p [of a] by simp_all
  have d: "uint ((0xffffffff :: u32) - v) = 4294967295 - uint v"
    unfolding uint_word_ariths using v uint_ge_0 [of v] by (simp, intro mod_pos_pos_trivial) linarith+
  have "a > 0xffffffff - v \<longleftrightarrow> uint a > 4294967295 - uint v"
    unfolding word_less_def d ..
  then show ?thesis
    using v a by (auto simp: sat_inc_def uint_word_ariths)
qed

lemma sat_inc_mono: "v \<le> sat_inc v a"
  using uint_lt2p [of v] by (simp add: word_le_def uint_sat_inc)

lemma sat_inc_zero [simp]: "sat_inc v 0 = v"
  by (simp add: sat_inc_def)

text \<open>A Q1.15 gain never amplifies, so a scaled mix value stays a mix value.\<close>

lemma scaled_div_bounds:
  fixes x g :: int
  assumes "0 \<le> g" and "g \<le> 2 ^ n" and "lo \<le> x" and "x \<le> hi" and "lo \<le> 0" and "0 \<le> hi"
  shows "lo \<le> (x * g) div 2 ^ n" and "(x * g) div 2 ^ n \<le> hi"
proof -
  have "lo * 2 ^ n \<le> lo * g" using assms(2,5) by (rule mult_left_mono_neg)
  also have "lo * g \<le> x * g" using assms(3,1) by (rule mult_right_mono)
  finally have "(lo * 2 ^ n) div 2 ^ n \<le> (x * g) div 2 ^ n" by (rule zdiv_mono1) simp
  then show "lo \<le> (x * g) div 2 ^ n" by simp
  have "x * g \<le> hi * g" using assms(4,1) by (rule mult_right_mono)
  also have "hi * g \<le> hi * 2 ^ n" using assms(2,6) by (rule mult_left_mono)
  finally have "(x * g) div 2 ^ n \<le> (hi * 2 ^ n) div 2 ^ n" by (rule zdiv_mono1) simp
  then show "(x * g) div 2 ^ n \<le> hi" by simp
qed

lemma in_mix25_scale: "in_mix25 x \<Longrightarrow> in_mix25 (scale_q1_15 x g)"
proof (cases "g \<ge> 0x7fff")
  case False
  assume x: "in_mix25 x"
  have "uint g \<le> 2 ^ 15" using False by (simp add: word_le_def)
  then show ?thesis
    using False x scaled_div_bounds [of "uint g" 15 mix25_min x mix25_max]
    by (simp add: scale_q1_15_def arithmetic_shift_right_eq mix25_defs)
qed (simp add: scale_q1_15_def)

lemma scale_q1_15_zero [simp]: "scale_q1_15 0 g = 0" "scale_q1_15 x 0 = 0"
  by (simp_all add: scale_q1_15_def arithmetic_shift_right_eq)

end
