(* ===== verification/Render_Types.thy ===== *)
theory Render_Types
  imports Complex_Main Fixed_Point
begin

text \<open>
  The shared data types of \<open>src/sim/harness/render/render_types.h\<close>: MIDI note events, the
  SoundFont region a voice plays, envelope and filter parameters, voice completions and the
  renderer's diagnostic counters. C++ \<open>int\<close> fields are \<open>int\<close>, unsigned fields are words, and
  a \<open>double\<close> the models only store or compare is a real number. Each record comes with the
  default member initialisers of its class.
\<close>

definition kNumVoices :: nat where
  "kNumVoices = 512"

definition kQ15Full :: int where
  "kQ15Full = 0x7fff"

definition kPhaseFracBits :: nat where
  "kPhaseFracBits = 8"

definition kPhaseFracMask :: u32 where
  "kPhaseFracMask = 0xff"

definition kPhaseFrameMask :: u32 where
  "kPhaseFrameMask = 0x00ffffff"

datatype note_event_type =
    EVENT_NOTE
  | EVENT_CONTROL
  | EVENT_PITCH_BEND
  | EVENT_CHANNEL_PRESSURE
  | EVENT_KEY_PRESSURE

record note_event =
  ev_time_seconds :: real
  ev_note :: int
  ev_on :: bool
  ev_velocity :: int
  ev_channel :: int
  ev_program :: int
  ev_bank :: int
  ev_type :: note_event_type
  ev_controller :: int
  ev_value :: int
  ev_pitch_bend :: int
  ev_sample :: int
  ev_phase_inc :: u32
  ev_region :: int
  ev_note_instance :: u64

definition default_note_event :: note_event where
  "default_note_event =
     \<lparr> ev_time_seconds = 0, ev_note = 0, ev_on = False, ev_velocity = 100, ev_channel = 0,
       ev_program = 0, ev_bank = 0, ev_type = EVENT_NOTE, ev_controller = 0, ev_value = 0,
       ev_pitch_bend = 0, ev_sample = 0, ev_phase_inc = 1, ev_region = 0,
       ev_note_instance = 0 \<rparr>"

record voice_completion =
  vc_voice :: u16
  vc_generation :: u16
  vc_reason :: u8

record sf2_modulator =
  mod_src :: u16
  mod_dest :: u16
  mod_amount :: int
  mod_amount_src :: u16
  mod_transform :: u16

record volume_envelope_params =
  delay_samples :: u32
  attack_samples :: u32
  hold_samples :: u32
  decay_samples :: u32
  sustain_cb_q12_20 :: u32
  release_samples :: u32

definition default_volume_envelope_params :: volume_envelope_params where
  "default_volume_envelope_params =
     \<lparr> delay_samples = 0, attack_samples = 0, hold_samples = 0, decay_samples = 0,
       sustain_cb_q12_20 = 0, release_samples = 0 \<rparr>"

record region =
  rg_key :: int
  rg_output_sample_rate :: int
  rg_program :: int
  rg_bank :: int
  rg_preset :: string
  rg_instrument :: string
  rg_sample_left :: string
  rg_sample_right :: string
  rg_stereo_source :: string
  rg_stereo :: bool
  rg_base_addr :: u32
  rg_base_addr_r :: u32
  rg_length :: u32
  rg_length_r :: u32
  rg_loop_start :: u32
  rg_loop_start_r :: u32
  rg_loop_end :: u32
  rg_loop_end_r :: u32
  rg_phase_inc :: u32
  rg_gain_l :: int
  rg_gain_r :: int
  rg_base_gain :: int
  rg_base_gain_l :: int
  rg_base_gain_r :: int
  rg_pan :: int
  rg_volume_envelope :: volume_envelope_params
  rg_filter_enable :: bool
  rg_filter_b0 :: int
  rg_filter_b1 :: int
  rg_filter_b2 :: int
  rg_filter_a1 :: int
  rg_filter_a2 :: int
  rg_loop_mode :: int
  rg_effective_velocity :: int
  rg_exclusive_class :: int
  rg_delay_ticks :: int
  rg_hold_ticks :: int
  rg_sustain_level :: int
  rg_attack_ticks :: int
  rg_decay_ticks :: int
  rg_release_ticks :: int
  rg_control_tick_samples :: int
  rg_initial_filter_fc :: int
  rg_initial_filter_q :: int
  rg_mod_lfo_delay_ticks :: int
  rg_mod_lfo_step :: u32
  rg_vib_lfo_delay_ticks :: int
  rg_vib_lfo_step :: u32
  rg_mod_lfo_to_pitch :: int
  rg_vib_lfo_to_pitch :: int
  rg_mod_env_to_pitch :: int
  rg_mod_lfo_to_filter_fc :: int
  rg_mod_env_to_filter_fc :: int
  rg_mod_lfo_to_volume :: int
  rg_mod_env_delay_ticks :: int
  rg_mod_env_hold_ticks :: int
  rg_mod_env_sustain_level :: int
  rg_mod_env_attack_ticks :: int
  rg_mod_env_decay_ticks :: int
  rg_mod_env_release_ticks :: int
  rg_mod_env_attack_sub_tick :: bool
  rg_mod_env_attack_step :: int
  rg_mod_env_decay_step :: int
  rg_mod_env_release_step :: int
  rg_modulators_by_destination :: "u16 \<rightharpoonup> sf2_modulator list"

definition default_region :: region where
  "default_region =
     \<lparr> rg_key = 0,
       rg_output_sample_rate = 48000,
       rg_program = 0,
       rg_bank = 0,
       rg_preset = '''',
       rg_instrument = '''',
       rg_sample_left = '''',
       rg_sample_right = '''',
       rg_stereo_source = ''mono'',
       rg_stereo = False,
       rg_base_addr = 0,
       rg_base_addr_r = 0,
       rg_length = 0,
       rg_length_r = 0,
       rg_loop_start = 0,
       rg_loop_start_r = 0,
       rg_loop_end = 0,
       rg_loop_end_r = 0,
       rg_phase_inc = 1,
       rg_gain_l = 0x4000,
       rg_gain_r = 0x4000,
       rg_base_gain = 0x4000,
       rg_base_gain_l = 0x4000,
       rg_base_gain_r = 0x4000,
       rg_pan = 0,
       rg_volume_envelope = default_volume_envelope_params,
       rg_filter_enable = False,
       rg_filter_b0 = 0x4000,
       rg_filter_b1 = 0,
       rg_filter_b2 = 0,
       rg_filter_a1 = 0,
       rg_filter_a2 = 0,
       rg_loop_mode = 0,
       rg_effective_velocity = - 1,
       rg_exclusive_class = 0,
       rg_delay_ticks = 0,
       rg_hold_ticks = 0,
       rg_sustain_level = kQ15Full,
       rg_attack_ticks = 1,
       rg_decay_ticks = 1,
       rg_release_ticks = 1,
       rg_control_tick_samples = 1,
       rg_initial_filter_fc = 13500,
       rg_initial_filter_q = 0,
       rg_mod_lfo_delay_ticks = 0,
       rg_mod_lfo_step = 0,
       rg_vib_lfo_delay_ticks = 0,
       rg_vib_lfo_step = 0,
       rg_mod_lfo_to_pitch = 0,
       rg_vib_lfo_to_pitch = 0,
       rg_mod_env_to_pitch = 0,
       rg_mod_lfo_to_filter_fc = 0,
       rg_mod_env_to_filter_fc = 0,
       rg_mod_lfo_to_volume = 0,
       rg_mod_env_delay_ticks = 0,
       rg_mod_env_hold_ticks = 0,
       rg_mod_env_sustain_level = kQ15Full,
       rg_mod_env_attack_ticks = 1,
       rg_mod_env_decay_ticks = 1,
       rg_mod_env_release_ticks = 1,
       rg_mod_env_attack_sub_tick = False,
       rg_mod_env_attack_step = kQ15Full,
       rg_mod_env_decay_step = kQ15Full,
       rg_mod_env_release_step = kQ15Full,
       rg_modulators_by_destination = Map.empty \<rparr>"

record filter_config =
  fc_enable :: bool
  fc_b0 :: int
  fc_b1 :: int
  fc_b2 :: int
  fc_a1 :: int
  fc_a2 :: int

definition default_filter_config :: filter_config where
  "default_filter_config =
     \<lparr> fc_enable = False, fc_b0 = 0x4000, fc_b1 = 0, fc_b2 = 0, fc_a1 = 0, fc_a2 = 0 \<rparr>"

record render_diagnostics =
  dg_detailed_enabled :: bool
  dg_frames :: u64
  dg_compressor_enabled :: bool
  dg_compressor_primed :: bool
  dg_compressor_active :: bool
  dg_compressor_delay_level :: u32
  dg_compressor_gain_reduction_cb_q12_20 :: u32
  dg_compressor_target_gain_reduction_cb_q12_20 :: u32
  dg_compressor_detector_peak :: u32
  dg_compressor_max_gain_reduction_cb_q12_20 :: u32
  dg_compressor_max_detector_peak :: u32
  dg_compressor_input_frame_count :: u32
  dg_compressor_output_frame_count :: u32
  dg_compressor_compressed_frame_count :: u32
  dg_compressor_saturation_count :: u32
  dg_filter_y_saturated_frames :: u64
  dg_filter_y_saturations :: u64
  dg_filter_state_saturated_frames :: u64
  dg_filter_state_saturations :: u64
  dg_contribution_saturated_frames :: u64
  dg_contribution_saturations :: u64
  dg_mix_saturated_frames :: u64
  dg_mix_saturations :: u64
  dg_max_abs_filter_y_input :: u64
  dg_max_abs_filter_state_input :: u64
  dg_max_abs_voice_contribution_input_l :: u64
  dg_max_abs_voice_contribution_input_r :: u64
  dg_max_abs_mix_input_l :: u64
  dg_max_abs_mix_input_r :: u64
  dg_voice_steals :: u64
  dg_max_voice_steal_score :: u64
  dg_max_voice_steal_level :: u32
  dg_max_voice_steal_gain_l :: u32
  dg_max_voice_steal_gain_r :: u32
  dg_max_voice_steal_voice :: int
  dg_max_voice_steal_tick :: u64
  dg_runtime_gain_updates :: u64
  dg_runtime_phase_updates :: u64
  dg_runtime_filter_updates :: u64
  dg_audible_envelope_updates :: u64
  dg_max_runtime_gain_jump_l :: u32
  dg_max_runtime_gain_jump_r :: u32
  dg_max_runtime_phase_inc_jump :: u32
  dg_max_runtime_filter_coeff_jump :: u32
  dg_max_audible_envelope_jump :: u32
  dg_max_audible_envelope_jump_voice :: int
  dg_max_audible_envelope_jump_frame :: u64
  dg_control_tick_count :: u64
  dg_control_tick_total_ns :: u64
  dg_control_tick_max_ns :: u64
  dg_control_modulator_evaluations :: u64
  dg_control_dirty_group_evaluations :: u64
  dg_control_emitted_commands :: u64
  dg_control_active_voices :: u32
  dg_control_max_active_voices :: u32

definition default_render_diagnostics :: render_diagnostics where
  "default_render_diagnostics =
     \<lparr> dg_detailed_enabled = False,
       dg_frames = 0,
       dg_compressor_enabled = False,
       dg_compressor_primed = False,
       dg_compressor_active = False,
       dg_compressor_delay_level = 0,
       dg_compressor_gain_reduction_cb_q12_20 = 0,
       dg_compressor_target_gain_reduction_cb_q12_20 = 0,
       dg_compressor_detector_peak = 0,
       dg_compressor_max_gain_reduction_cb_q12_20 = 0,
       dg_compressor_max_detector_peak = 0,
       dg_compressor_input_frame_count = 0,
       dg_compressor_output_frame_count = 0,
       dg_compressor_compressed_frame_count = 0,
       dg_compressor_saturation_count = 0,
       dg_filter_y_saturated_frames = 0,
       dg_filter_y_saturations = 0,
       dg_filter_state_saturated_frames = 0,
       dg_filter_state_saturations = 0,
       dg_contribution_saturated_frames = 0,
       dg_contribution_saturations = 0,
       dg_mix_saturated_frames = 0,
       dg_mix_saturations = 0,
       dg_max_abs_filter_y_input = 0,
       dg_max_abs_filter_state_input = 0,
       dg_max_abs_voice_contribution_input_l = 0,
       dg_max_abs_voice_contribution_input_r = 0,
       dg_max_abs_mix_input_l = 0,
       dg_max_abs_mix_input_r = 0,
       dg_voice_steals = 0,
       dg_max_voice_steal_score = 0,
       dg_max_voice_steal_level = 0,
       dg_max_voice_steal_gain_l = 0,
       dg_max_voice_steal_gain_r = 0,
       dg_max_voice_steal_voice = - 1,
       dg_max_voice_steal_tick = 0,
       dg_runtime_gain_updates = 0,
       dg_runtime_phase_updates = 0,
       dg_runtime_filter_updates = 0,
       dg_audible_envelope_updates = 0,
       dg_max_runtime_gain_jump_l = 0,
       dg_max_runtime_gain_jump_r = 0,
       dg_max_runtime_phase_inc_jump = 0,
       dg_max_runtime_filter_coeff_jump = 0,
       dg_max_audible_envelope_jump = 0,
       dg_max_audible_envelope_jump_voice = - 1,
       dg_max_audible_envelope_jump_frame = 0,
       dg_control_tick_count = 0,
       dg_control_tick_total_ns = 0,
       dg_control_tick_max_ns = 0,
       dg_control_modulator_evaluations = 0,
       dg_control_dirty_group_evaluations = 0,
       dg_control_emitted_commands = 0,
       dg_control_active_voices = 0,
       dg_control_max_active_voices = 0 \<rparr>"

definition clamp_q15 :: "int \<Rightarrow> int" where
  "clamp_q15 v =
     (if v \<le> 0 then 0 else if v \<ge> kQ15Full then kQ15Full else v)"

lemma clamp_q15_range: "0 \<le> clamp_q15 v \<and> clamp_q15 v \<le> 32767"
  by (simp add: clamp_q15_def kQ15Full_def)

lemma clamp_q15_id: "0 \<le> v \<Longrightarrow> v \<le> 32767 \<Longrightarrow> clamp_q15 v = v"
  by (simp add: clamp_q15_def kQ15Full_def)

lemma clamp_q15_idem [simp]: "clamp_q15 (clamp_q15 v) = clamp_q15 v"
  using clamp_q15_range [of v] by (simp add: clamp_q15_id)

lemma in_i16_clamp_q15: "in_i16 (clamp_q15 v)"
  using clamp_q15_range [of v] by (simp add: in_i16_def)

end
