(* ===== verification/Command_Control.thy ===== *)
theory Command_Control
  imports Render_Types
begin

text \<open>
  The command stream of \<open>src/sim/harness/control/command_control.{h,cpp}\<close>: fixed-size
  commands, the \<open>CommandWordSink\<close> interface, the frame-batched sink, the voice control that
  mirrors every voice and emits commands, and the audio control for the global effects.

  A sink is its \<open>write_command_words\<close> member, a function from the sink's state and the words
  to an \<open>outcome\<close>; classes that hold a reference to a sink carry that state as a field and take
  the function as an argument.
\<close>

type_synonym 's sink = "'s \<Rightarrow> u32 list \<Rightarrow> ('s, unit) outcome"

section \<open>Fixed-size commands\<close>

definition kMaxCommandWords :: nat where
  "kMaxCommandWords = 17"

text \<open>\<open>CommandWordView::at\<close> checks its index; \<open>operator[]\<close> does not.\<close>

definition view_at :: "u32 list \<Rightarrow> nat \<Rightarrow> error + u32" where
  "view_at words i =
     (if i \<ge> length words then Inl (OutOfRange ''command word index'') else Inr (words ! i))"

definition view_index :: "u32 list \<Rightarrow> nat \<Rightarrow> error + u32" where
  "view_index words i =
     (if i \<ge> length words then Inl (UndefinedBehaviour ''command word view'')
      else Inr (words ! i))"

record fixed_command =
  cmd_words :: "u32 list"
  cmd_length :: nat

definition empty_command :: fixed_command where
  "empty_command = \<lparr> cmd_words = replicate kMaxCommandWords 0, cmd_length = 0 \<rparr>"

definition push_back :: "fixed_command \<Rightarrow> u32 \<Rightarrow> error + fixed_command" where
  "push_back c word =
     (if cmd_length c \<ge> length (cmd_words c) then Inl (LengthError ''command exceeds 17 words'')
      else Inr (c\<lparr> cmd_words := (cmd_words c)[cmd_length c := word],
                   cmd_length := cmd_length c + 1 \<rparr>))"

fun push_words :: "fixed_command \<Rightarrow> u32 list \<Rightarrow> error + fixed_command" where
  "push_words c [] = Inr c"
| "push_words c (w # ws) =
     (case push_back c w of Inl e \<Rightarrow> Inl e | Inr c' \<Rightarrow> push_words c' ws)"

definition view :: "fixed_command \<Rightarrow> u32 list" where
  "view c = take (cmd_length c) (cmd_words c)"

definition command_wf :: "fixed_command \<Rightarrow> bool" where
  "command_wf c \<longleftrightarrow> length (cmd_words c) = kMaxCommandWords \<and> cmd_length c \<le> kMaxCommandWords"

section \<open>Command words\<close>

definition kDefineMono :: u8 where "kDefineMono = 0x10"
definition kRelease :: u8 where "kRelease = 0x14"
definition kStop :: u8 where "kStop = 0x15"
definition kGain :: u8 where "kGain = 0x16"
definition kFilter :: u8 where "kFilter = 0x17"
definition kPitch :: u8 where "kPitch = 0x18"
definition kCompressorConfig :: u8 where "kCompressorConfig = 0x20"
definition kMasterVolume :: u8 where "kMasterVolume = 0x21"
definition kChorusConfig :: u8 where "kChorusConfig = 0x22"
definition kReverbConfig :: u8 where "kReverbConfig = 0x23"
definition kEffectClear :: u8 where "kEffectClear = 0x24"

definition kSilenceCbQ12_20 :: u32 where
  "kSilenceCbQ12_20 = 1048576000"

definition pack_pair :: "int \<Rightarrow> int \<Rightarrow> u32" where
  "pack_pair high low =
     push_bit 16 (ucast (of_int high :: u16)) OR ucast (of_int low :: u16)"

definition ceil_step :: "u64 \<Rightarrow> u32 \<Rightarrow> u32" where
  "ceil_step distance duration =
     (if duration = 0 then 0
      else ucast (min 0xffffffff ((distance + ucast duration - 1) div ucast duration)))"

definition envelope_release_step :: "region \<Rightarrow> u32" where
  "envelope_release_step r =
     ceil_step (ucast kSilenceCbQ12_20) (release_samples (rg_volume_envelope r))"

text \<open>The header fields as every receiver extracts them.\<close>

definition word_opcode :: "u32 \<Rightarrow> u8" where
  "word_opcode w = ucast (drop_bit 24 w)"

definition word_voice :: "u32 \<Rightarrow> nat" where
  "word_voice w = unat (drop_bit 14 w AND 0x3ff)"

definition word_flags :: "u32 \<Rightarrow> u8" where
  "word_flags w = ucast (drop_bit 8 w AND 0x3f)"

definition word_payload :: "u32 \<Rightarrow> nat" where
  "word_payload w = unat (w AND 0xff)"

definition low_half :: "u32 \<Rightarrow> u16" where
  "low_half w = ucast (w AND 0xffff)"

definition high_half :: "u32 \<Rightarrow> u16" where
  "high_half w = ucast (drop_bit 16 w)"

section \<open>Fan-out\<close>

text \<open>\<open>CommandFanout\<close> writes to its two sinks in order; an exception of the first one skips
  the second.\<close>

definition fanout_write :: "'a sink \<Rightarrow> 'b sink \<Rightarrow> ('a \<times> 'b) sink" where
  "fanout_write first second st words =
     (case first (fst st) words of
        (Inl e, a) \<Rightarrow> (Inl e, (a, snd st))
      | (Inr _, a) \<Rightarrow>
          (case second (snd st) words of (r, b) \<Rightarrow> (r, (a, b))))"

section \<open>Frame-batched sink\<close>

definition kMaxControlActionsPerFrame :: nat where
  "kMaxControlActionsPerFrame = 16"

definition kFrameCommandQueueCapacity :: nat where
  "kFrameCommandQueueCapacity = 1024"

record pending_command =
  pc_command :: fixed_command
  pc_enqueue_frame :: u64

record 's frame_batched =
  fb_sink :: 's
  fb_max_actions :: nat
  fb_pending :: "pending_command list"
  fb_head :: nat
  fb_tail :: nat
  fb_count :: nat
  fb_max_pending :: nat
  fb_frame_index :: u64
  fb_enqueued :: u64
  fb_applied :: u64
  fb_max_deferred :: u64

definition frame_batched_new :: "'s \<Rightarrow> nat \<Rightarrow> error + 's frame_batched" where
  "frame_batched_new sink max_actions =
     (if max_actions = 0 then Inl (InvalidArgument ''frame action batch must be nonzero'')
      else Inr \<lparr> fb_sink = sink, fb_max_actions = max_actions,
             fb_pending = replicate kFrameCommandQueueCapacity
               \<lparr> pc_command = empty_command, pc_enqueue_frame = 0 \<rparr>,
             fb_head = 0, fb_tail = 0, fb_count = 0, fb_max_pending = 0,
             fb_frame_index = 0, fb_enqueued = 0, fb_applied = 0, fb_max_deferred = 0 \<rparr>)"

definition frame_batched_write :: "'s frame_batched sink" where
  "frame_batched_write s words =
     (if words = [] then (Inr (), s)
      else if length words > kMaxCommandWords
        then (Inl (LengthError ''frame-batched command exceeds 17 words''), s)
      else if fb_count s = length (fb_pending s)
        then (Inl (LengthError ''frame-batched command queue is full''), s)
      else case push_words empty_command words of
        Inl e \<Rightarrow> (Inl e, s)
      | Inr c \<Rightarrow>
          (Inr (), s\<lparr> fb_pending := (fb_pending s)[fb_tail s :=
                        \<lparr> pc_command = c, pc_enqueue_frame = fb_frame_index s \<rparr>],
                     fb_tail := (fb_tail s + 1) mod length (fb_pending s),
                     fb_count := fb_count s + 1,
                     fb_enqueued := fb_enqueued s + 1,
                     fb_max_pending := max (fb_max_pending s) (fb_count s + 1) \<rparr>))"

text \<open>The body of the loop in \<open>apply_frame\<close> up to the call of the inner sink.\<close>

definition frame_batched_take :: "'s frame_batched \<Rightarrow> u32 list \<times> 's frame_batched" where
  "frame_batched_take s =
     (let command = fb_pending s ! fb_head s in
      (view (pc_command command),
       s\<lparr> fb_head := (fb_head s + 1) mod length (fb_pending s),
          fb_count := fb_count s - 1,
          fb_max_deferred :=
            max (fb_max_deferred s) (fb_frame_index s - pc_enqueue_frame command) \<rparr>))"

function apply_frame_loop ::
    "'s sink \<Rightarrow> nat \<Rightarrow> 's frame_batched \<Rightarrow> ('s frame_batched, nat) outcome" where
  "apply_frame_loop write applied s =
     (if applied < fb_max_actions s \<and> fb_count s \<noteq> 0 then
        (case frame_batched_take s of (words, s1) \<Rightarrow>
           (case write (fb_sink s1) words of
              (Inl e, k) \<Rightarrow> (Inl e, s1\<lparr> fb_sink := k \<rparr>)
            | (Inr _, k) \<Rightarrow>
                apply_frame_loop write (applied + 1)
                  (s1\<lparr> fb_sink := k, fb_applied := fb_applied s1 + 1 \<rparr>)))
      else (Inr applied, s))"
  by pat_completeness auto
termination
  by (relation "measure (\<lambda>(write, applied, s). fb_count s)")
    (auto simp: frame_batched_take_def Let_def)

declare apply_frame_loop.simps [simp del]

definition apply_frame :: "'s sink \<Rightarrow> 's frame_batched \<Rightarrow> ('s frame_batched, nat) outcome" where
  "apply_frame write s =
     (case apply_frame_loop write 0 s of
        (Inl e, s') \<Rightarrow> (Inl e, s')
      | (Inr applied, s') \<Rightarrow>
          (Inr applied, s'\<lparr> fb_frame_index := fb_frame_index s' + 1 \<rparr>))"

section \<open>Voice control\<close>

record voice_mirror =
  vm_generation :: u16
  vm_active :: bool
  vm_released :: bool
  vm_gain_l :: int
  vm_gain_r :: int
  vm_phase_inc :: u32
  vm_filter :: filter_config

record 's voice_control =
  cv_sink :: 's
  cv_voices :: "voice_mirror list"

definition default_voice_mirror :: voice_mirror where
  "default_voice_mirror =
     \<lparr> vm_generation = 0, vm_active = False, vm_released = False, vm_gain_l = 0,
       vm_gain_r = 0, vm_phase_inc = 0, vm_filter = default_filter_config \<rparr>"

definition voice_control_new :: "'s \<Rightarrow> 's voice_control" where
  "voice_control_new sink =
     \<lparr> cv_sink = sink, cv_voices = replicate kNumVoices default_voice_mirror \<rparr>"

definition command_header :: "u8 \<Rightarrow> int \<Rightarrow> u8 \<Rightarrow> nat \<Rightarrow> u32" where
  "command_header opcode voice flags payload_size =
     push_bit 24 (ucast opcode) OR push_bit 14 (of_int (voice AND 0x3ff)) OR
     push_bit 8 (ucast flags) OR of_nat payload_size"

definition voice_emit ::
    "'s sink \<Rightarrow> u8 \<Rightarrow> int \<Rightarrow> u32 list \<Rightarrow> u8 \<Rightarrow> 's voice_control \<Rightarrow> ('s voice_control, unit) outcome"
where
  "voice_emit write opcode voice payload flags s =
     (if voice < 0 \<or> voice \<ge> int kNumVoices then (Inl (OutOfRange ''voice command slot''), s)
      else if flags > 0x3f then (Inl (OutOfRange ''voice command flags''), s)
      else case push_words empty_command
                  (command_header opcode voice flags (length payload) # payload) of
        Inl e \<Rightarrow> (Inl e, s)
      | Inr command \<Rightarrow>
          (case write (cv_sink s) (view command) of (r, k) \<Rightarrow> (r, s\<lparr> cv_sink := k \<rparr>)))"

text \<open>\<open>voices_.at(voice)\<close>: a negative index converts to a huge unsigned one and throws too.\<close>

definition mirror_at :: "'s voice_control \<Rightarrow> int \<Rightarrow> error + voice_mirror" where
  "mirror_at s voice =
     (if voice < 0 \<or> nat voice \<ge> length (cv_voices s) then Inl (OutOfRange ''array::at'')
      else Inr (cv_voices s ! nat voice))"

definition set_mirror :: "int \<Rightarrow> voice_mirror \<Rightarrow> 's voice_control \<Rightarrow> 's voice_control" where
  "set_mirror voice m s = s\<lparr> cv_voices := (cv_voices s)[nat voice := m] \<rparr>"

definition has_envelope :: "volume_envelope_params \<Rightarrow> bool" where
  "has_envelope env \<longleftrightarrow>
     delay_samples env \<noteq> 0 \<or> attack_samples env \<noteq> 0 \<or> hold_samples env \<noteq> 0 \<or>
     decay_samples env \<noteq> 0 \<or> sustain_cb_q12_20 env \<noteq> 0 \<or> release_samples env \<noteq> 0"

definition start_flags :: "region \<Rightarrow> u8" where
  "start_flags r =
     ((of_int (rg_loop_mode r) AND 3)
      OR (if rg_filter_enable r then 4 else 0))
      OR (if has_envelope (rg_volume_envelope r) then 8 else 0)"

text \<open>The payload words of a START command in the order they are pushed.\<close>

definition start_payload :: "u16 \<Rightarrow> u32 \<Rightarrow> region \<Rightarrow> u32 list" where
  "start_payload generation phase_inc r =
     (let env = rg_volume_envelope r;
          attack_step = ceil_step 0xffffffff (attack_samples env);
          decay_step = ceil_step (ucast (sustain_cb_q12_20 env)) (decay_samples env)
      in [ucast generation, rg_base_addr r, rg_length r]
         @ (if rg_loop_mode r \<noteq> 0 then [rg_loop_start r, rg_loop_end r] else [])
         @ [phase_inc, pack_pair (rg_gain_r r) (rg_gain_l r)]
         @ (if rg_filter_enable r then
              [pack_pair (rg_filter_b1 r) (rg_filter_b0 r),
               pack_pair (rg_filter_a1 r) (rg_filter_b2 r),
               ucast (of_int (rg_filter_a2 r) :: u16) OR 0x00010000]
            else [])
         @ (if has_envelope env then
              [delay_samples env, attack_step, hold_samples env, decay_step,
               sustain_cb_q12_20 env, envelope_release_step r]
            else []))"

definition start_voice ::
    "'s sink \<Rightarrow> int \<Rightarrow> u32 \<Rightarrow> region \<Rightarrow> 's voice_control \<Rightarrow> ('s voice_control, unit) outcome"
where
  "start_voice write voice phase_inc r s =
     (case mirror_at s voice of
        Inl e \<Rightarrow> (Inl e, s)
      | Inr m \<Rightarrow>
          (let g = vm_generation m + 1;
               m1 = m\<lparr> vm_generation := (if g = 0 then 1 else g) \<rparr>;
               s1 = set_mirror voice m1 s
           in if rg_stereo r then
                (Inl (InvalidArgument
                   ''voice-major command protocol requires one mono Region per voice''), s1)
              else case push_words empty_command (start_payload (vm_generation m1) phase_inc r) of
                Inl e \<Rightarrow> (Inl e, s1)
              | Inr payload \<Rightarrow>
                  (case voice_emit write kDefineMono voice (view payload) (start_flags r) s1 of
                     (Inl e, s2) \<Rightarrow> (Inl e, s2)
                   | (Inr _, s2) \<Rightarrow>
                       (Inr (), set_mirror voice
                          (m1\<lparr> vm_active := True, vm_released := False,
                               vm_gain_l := rg_gain_l r, vm_gain_r := rg_gain_r r,
                               vm_phase_inc := phase_inc,
                               vm_filter := \<lparr> fc_enable = rg_filter_enable r,
                                 fc_b0 = rg_filter_b0 r, fc_b1 = rg_filter_b1 r,
                                 fc_b2 = rg_filter_b2 r, fc_a1 = rg_filter_a1 r,
                                 fc_a2 = rg_filter_a2 r \<rparr> \<rparr>) s2))))"

definition build_voice_start_command ::
    "int \<Rightarrow> u16 \<Rightarrow> u32 \<Rightarrow> region \<Rightarrow> error + fixed_command" where
  "build_voice_start_command voice generation phase_inc r =
     (if voice < 0 \<or> voice \<ge> int kNumVoices \<or> rg_stereo r
        then Inl (OutOfRange ''invalid mono START command input'')
      else
        (let env = rg_volume_envelope r;
             payload_words = 5 + (if rg_loop_mode r \<noteq> 0 then 2 else 0)
               + (if rg_filter_enable r then 3 else 0)
               + (if has_envelope env then 6 else (0 :: u8))
         in push_words empty_command
              ((push_bit 24 (ucast kDefineMono) OR push_bit 14 (of_int voice) OR
                push_bit 8 (ucast (start_flags r)) OR ucast payload_words)
               # start_payload generation phase_inc r)))"

definition update_gain_phase ::
    "'s sink \<Rightarrow> int \<Rightarrow> int \<Rightarrow> int \<Rightarrow> u32 \<Rightarrow> 's voice_control \<Rightarrow> ('s voice_control, unit) outcome"
where
  "update_gain_phase write voice gain_l gain_r phase_inc s =
     (case mirror_at s voice of
        Inl e \<Rightarrow> (Inl e, s)
      | Inr m \<Rightarrow>
          (let next_gain_l = clamp_q15 gain_l; next_gain_r = clamp_q15 gain_r in
           if \<not> vm_active m then (Inr (), s)
           else if next_gain_l = vm_gain_l m \<and> next_gain_r = vm_gain_r m \<and>
                   phase_inc = vm_phase_inc m then (Inr (), s)
           else
             (case (if next_gain_l \<noteq> vm_gain_l m \<or> next_gain_r \<noteq> vm_gain_r m
                    then voice_emit write kGain voice
                           [ucast (vm_generation m), pack_pair next_gain_r next_gain_l] 0 s
                    else (Inr (), s)) of
                (Inl e, s1) \<Rightarrow> (Inl e, s1)
              | (Inr _, s1) \<Rightarrow>
                  (case (if phase_inc \<noteq> vm_phase_inc m
                         then voice_emit write kPitch voice [ucast (vm_generation m), phase_inc] 0 s1
                         else (Inr (), s1)) of
                     (Inl e, s2) \<Rightarrow> (Inl e, s2)
                   | (Inr _, s2) \<Rightarrow>
                       (Inr (), set_mirror voice
                          (m\<lparr> vm_gain_l := next_gain_l, vm_gain_r := next_gain_r,
                              vm_phase_inc := phase_inc \<rparr>) s2)))))"

definition update_filter ::
    "'s sink \<Rightarrow> int \<Rightarrow> filter_config \<Rightarrow> 's voice_control \<Rightarrow> ('s voice_control, unit) outcome"
where
  "update_filter write voice flt s =
     (case mirror_at s voice of
        Inl e \<Rightarrow> (Inl e, s)
      | Inr m \<Rightarrow>
          if \<not> vm_active m then (Inr (), s)
          else if fc_enable flt = fc_enable (vm_filter m) \<and>
                  fc_b0 flt = fc_b0 (vm_filter m) \<and> fc_b1 flt = fc_b1 (vm_filter m) \<and>
                  fc_b2 flt = fc_b2 (vm_filter m) \<and> fc_a1 flt = fc_a1 (vm_filter m) \<and>
                  fc_a2 flt = fc_a2 (vm_filter m) then (Inr (), s)
          else
            (case voice_emit write kFilter voice
                    [ucast (vm_generation m),
                     pack_pair (fc_b1 flt) (fc_b0 flt),
                     pack_pair (fc_a1 flt) (fc_b2 flt),
                     ucast (of_int (fc_a2 flt) :: u16) OR
                       (if fc_enable flt then 0x00010000 else 0)] 0 s of
               (Inl e, s1) \<Rightarrow> (Inl e, s1)
             | (Inr _, s1) \<Rightarrow> (Inr (), set_mirror voice (m\<lparr> vm_filter := flt \<rparr>) s1)))"

definition release_voice ::
    "'s sink \<Rightarrow> int \<Rightarrow> u32 \<Rightarrow> 's voice_control \<Rightarrow> ('s voice_control, unit) outcome" where
  "release_voice write voice release_step s =
     (case mirror_at s voice of
        Inl e \<Rightarrow> (Inl e, s)
      | Inr m \<Rightarrow>
          if \<not> vm_active m then (Inr (), s)
          else if vm_released m then (Inr (), s)
          else
            (case voice_emit write kRelease voice [ucast (vm_generation m), release_step] 0 s of
               (Inl e, s1) \<Rightarrow> (Inl e, s1)
             | (Inr _, s1) \<Rightarrow> (Inr (), set_mirror voice (m\<lparr> vm_released := True \<rparr>) s1)))"

definition stop_voice ::
    "'s sink \<Rightarrow> int \<Rightarrow> 's voice_control \<Rightarrow> ('s voice_control, unit) outcome" where
  "stop_voice write voice s =
     (case mirror_at s voice of
        Inl e \<Rightarrow> (Inl e, s)
      | Inr m \<Rightarrow>
          if \<not> vm_active m then (Inr (), s)
          else
            (case voice_emit write kStop voice [ucast (vm_generation m)] 0 s of
               (Inl e, s1) \<Rightarrow> (Inl e, s1)
             | (Inr _, s1) \<Rightarrow>
                 (Inr (), set_mirror voice (m\<lparr> vm_active := False, vm_released := False \<rparr>) s1)))"

section \<open>Audio control\<close>

record compressor_command_config =
  cc_enable :: bool
  cc_threshold_cb_q12_20 :: u32
  cc_ratio_slope_q0_16 :: u16
  cc_attack_step_cb_q12_20 :: u32
  cc_release_step_cb_q12_20 :: u32

definition default_compressor_command_config :: compressor_command_config where
  "default_compressor_command_config =
     \<lparr> cc_enable = False, cc_threshold_cb_q12_20 = 0, cc_ratio_slope_q0_16 = 0,
       cc_attack_step_cb_q12_20 = 0, cc_release_step_cb_q12_20 = 0 \<rparr>"

record chorus_command_config =
  hc_enable :: bool
  hc_base_delay_q16_8 :: u32
  hc_depth_q16_8 :: u32
  hc_lfo_phase_inc_q0_32 :: u32
  hc_input_send_q1_15 :: u16
  hc_return_gain_q1_15 :: u16
  hc_feedback_q1_15 :: int
  hc_stereo_phase_offset_q0_32 :: u32

record reverb_command_config =
  vc_enable :: bool
  vc_input_send_q1_15 :: u16
  vc_return_gain_q1_15 :: u16
  vc_damping_q1_15 :: u16
  vc_chorus_to_reverb_q1_15 :: u16
  vc_pre_delay_frames :: u16
  vc_feedback_gain_q1_15 :: "u16 list"

definition audio_emit :: "'s sink \<Rightarrow> u8 \<Rightarrow> u32 list \<Rightarrow> 's \<Rightarrow> ('s, unit) outcome" where
  "audio_emit write opcode payload s =
     (case push_words empty_command
             ((push_bit 24 (ucast opcode) OR of_nat (length payload)) # payload) of
        Inl e \<Rightarrow> (Inl e, s)
      | Inr command \<Rightarrow> write s (view command))"

definition configure_compressor ::
    "'s sink \<Rightarrow> compressor_command_config \<Rightarrow> 's \<Rightarrow> ('s, unit) outcome" where
  "configure_compressor write config s =
     (if cc_threshold_cb_q12_20 config > kSilenceCbQ12_20 \<or>
         cc_attack_step_cb_q12_20 config > kSilenceCbQ12_20 \<or>
         cc_release_step_cb_q12_20 config > kSilenceCbQ12_20
      then (Inl (OutOfRange ''compressor centibel field''), s)
      else audio_emit write kCompressorConfig
             [push_bit 1 (ucast (cc_ratio_slope_q0_16 config)) OR
                (if cc_enable config then 1 else 0),
              cc_threshold_cb_q12_20 config, cc_attack_step_cb_q12_20 config,
              cc_release_step_cb_q12_20 config] s)"

definition set_master_volume :: "'s sink \<Rightarrow> int \<Rightarrow> 's \<Rightarrow> ('s, unit) outcome" where
  "set_master_volume write gain_q1_15 s =
     audio_emit write kMasterVolume [ucast (of_int (clamp_q15 gain_q1_15) :: u16)] s"

definition configure_chorus ::
    "'s sink \<Rightarrow> chorus_command_config \<Rightarrow> 's \<Rightarrow> ('s, unit) outcome" where
  "configure_chorus write config s =
     (if hc_base_delay_q16_8 config > 0x00ffffff \<or> hc_depth_q16_8 config > 0x00ffffff \<or>
         hc_input_send_q1_15 config > 0x7fff \<or> hc_return_gain_q1_15 config > 0x7fff \<or>
         hc_feedback_q1_15 config < - 0x6000 \<or> hc_feedback_q1_15 config > 0x6000
      then (Inl (OutOfRange ''chorus command field''), s)
      else audio_emit write kChorusConfig
             [push_bit 16 (ucast (of_int (hc_feedback_q1_15 config) :: u16)) OR
                (if hc_enable config then 1 else 0),
              hc_base_delay_q16_8 config, hc_depth_q16_8 config,
              hc_lfo_phase_inc_q0_32 config,
              pack_pair (uint (hc_return_gain_q1_15 config)) (uint (hc_input_send_q1_15 config)),
              hc_stereo_phase_offset_q0_32 config] s)"

definition configure_reverb ::
    "'s sink \<Rightarrow> reverb_command_config \<Rightarrow> 's \<Rightarrow> ('s, unit) outcome" where
  "configure_reverb write config s =
     (let g = (\<lambda>i. uint (vc_feedback_gain_q1_15 config ! i)) in
      if vc_pre_delay_frames config > 0x7ff \<or> vc_input_send_q1_15 config > 0x7fff \<or>
         vc_return_gain_q1_15 config > 0x7fff \<or> vc_damping_q1_15 config > 0x7fff \<or>
         vc_chorus_to_reverb_q1_15 config > 0x7fff \<or>
         list_ex (\<lambda>gain. gain > 0x2d41) (vc_feedback_gain_q1_15 config)
      then (Inl (OutOfRange ''reverb command field''), s)
      else audio_emit write kReverbConfig
             [push_bit 1 (ucast (vc_pre_delay_frames config)) OR
                (if vc_enable config then 1 else 0),
              ucast (vc_input_send_q1_15 config), ucast (vc_return_gain_q1_15 config),
              ucast (vc_damping_q1_15 config), ucast (vc_chorus_to_reverb_q1_15 config),
              pack_pair (g 1) (g 0), pack_pair (g 3) (g 2), pack_pair (g 5) (g 4),
              pack_pair (g 7) (g 6)] s)"

definition clear_effects :: "'s sink \<Rightarrow> u8 \<Rightarrow> 's \<Rightarrow> ('s, unit) outcome" where
  "clear_effects write effect_mask s =
     (if effect_mask AND NOT 3 \<noteq> 0 \<or> effect_mask AND 3 = 0 then (Inl (OutOfRange ''effect clear mask''), s)
      else audio_emit write kEffectClear [ucast effect_mask] s)"

section \<open>Facts about commands\<close>

lemma command_wf_empty [simp]: "command_wf empty_command"
  by (simp add: command_wf_def empty_command_def)

lemma view_empty [simp]: "view empty_command = []" "cmd_length empty_command = 0"
  by (simp_all add: view_def empty_command_def)

lemma push_words_view:
  assumes "command_wf c" and "cmd_length c + length ws \<le> kMaxCommandWords"
  shows "\<exists>c'. push_words c ws = Inr c' \<and> command_wf c' \<and> view c' = view c @ ws"
  using assms
proof (induction ws arbitrary: c)
  case Nil
  then show ?case by simp
next
  case (Cons w ws)
  define d where
    "d = c\<lparr> cmd_words := (cmd_words c)[cmd_length c := w], cmd_length := cmd_length c + 1 \<rparr>"
  have push: "push_back c w = Inr d"
    using Cons.prems by (simp add: push_back_def d_def command_wf_def)
  have "command_wf d" "cmd_length d + length ws \<le> kMaxCommandWords"
    using Cons.prems by (simp_all add: d_def command_wf_def)
  moreover have "view d = view c @ [w]"
    using Cons.prems by (simp add: view_def d_def command_wf_def take_Suc_conv_app_nth)
  ultimately show ?case using Cons.IH [of d] push by auto
qed

lemma push_words_overflow:
  assumes "command_wf c" and "cmd_length c + length ws > kMaxCommandWords"
  shows "push_words c ws = Inl (LengthError ''command exceeds 17 words'')"
  using assms
proof (induction ws arbitrary: c)
  case Nil
  then show ?case by (simp add: command_wf_def)
next
  case (Cons w ws)
  show ?case
  proof (cases "cmd_length c < kMaxCommandWords")
    case True
    define d where
      "d = c\<lparr> cmd_words := (cmd_words c)[cmd_length c := w], cmd_length := cmd_length c + 1 \<rparr>"
    have "push_back c w = Inr d" "command_wf d" "cmd_length d = cmd_length c + 1"
      using Cons.prems True by (simp_all add: push_back_def d_def command_wf_def)
    then show ?thesis using Cons by simp
  next
    case False
    then show ?thesis using Cons.prems by (simp add: push_back_def command_wf_def)
  qed
qed

text \<open>Pushing words into a fresh command succeeds exactly when they fit.\<close>

lemma push_words_fresh:
  assumes "length ws \<le> kMaxCommandWords"
  obtains c where "push_words empty_command ws = Inr c" "command_wf c" "view c = ws"
  using push_words_view [of empty_command ws] assms by auto

lemma length_view: "command_wf c \<Longrightarrow> length (view c) = cmd_length c"
  by (simp add: view_def command_wf_def)

subsection \<open>Header fields\<close>

lemma header_bits:
  fixes op n :: u8 and v :: "10 word" and fl :: "6 word"
  defines "h \<equiv> push_bit 24 (ucast op) OR push_bit 14 (ucast v) OR push_bit 8 (ucast fl) OR ucast n :: u32"
  shows "(ucast (drop_bit 24 h) :: u8) = op"
    and "drop_bit 14 h AND 0x3ff = ucast v"
    and "drop_bit 8 h AND 0x3f = ucast fl"
    and "h AND 0xff = ucast n"
proof -
  have m: "(0x3ff :: u32) = mask 10" "(0x3f :: u32) = mask 6" "(0xff :: u32) = mask 8"
    by (simp_all add: mask_eq_exp_minus_1)
  show "(ucast (drop_bit 24 h) :: u8) = op"
    unfolding h_def by (rule bit_word_eqI) (auto simp: bit_simps bit_beyond)
  show "drop_bit 14 h AND 0x3ff = ucast v"
    unfolding h_def m
    by (rule bit_word_eqI) (auto simp: bit_simps bit_beyond dest: bit_imp_le_length)
  show "drop_bit 8 h AND 0x3f = ucast fl"
    unfolding h_def m
    by (rule bit_word_eqI) (auto simp: bit_simps bit_beyond dest: bit_imp_le_length)
  show "h AND 0xff = ucast n"
    unfolding h_def m
    by (rule bit_word_eqI) (auto simp: bit_simps bit_beyond dest: bit_imp_le_length)
qed

lemma header_narrow:
  assumes "0 \<le> voice" "voice < 1024" "flags \<le> (0x3f :: u8)" "n < 256"
  shows "command_header op voice flags n =
     push_bit 24 (ucast op) OR push_bit 14 (ucast (of_int voice :: 10 word)) OR
     push_bit 8 (ucast (ucast flags :: 6 word)) OR ucast (of_nat n :: u8)"
proof -
  have "(0x3ff :: int) = mask 10" by (simp add: mask_eq_exp_minus_1)
  then have "voice AND 0x3ff = take_bit 10 voice" by (simp only: take_bit_eq_mask)
  moreover have "take_bit 10 voice = voice"
    using assms(1,2) by (simp add: take_bit_int_eq_self_iff)
  moreover have "ucast (of_int voice :: 10 word) = (of_int voice :: u32)"
    using assms(1,2)
    by (simp add: word_uint_eq_iff unsigned_ucast_eq uint_word_of_int_eq take_bit_int_eq_self)
  moreover have "ucast (ucast flags :: 6 word) = (ucast flags :: u32)"
  proof -
    have "unat flags < 64" using assms(3) by (simp add: word_le_nat_alt)
    then show ?thesis
      by (simp add: word_unat_eq_iff unsigned_take_bit_eq unsigned_ucast_eq take_bit_nat_eq_self)
  qed
  moreover have "ucast (of_nat n :: u8) = (of_nat n :: u32)"
    using assms(4)
    by (simp add: word_unat_eq_iff unsigned_ucast_eq unat_of_nat take_bit_nat_eq_self)
  ultimately show ?thesis by (simp add: command_header_def)
qed

lemma header_fields:
  assumes "0 \<le> voice" "voice < 1024" "flags \<le> 0x3f" "n < 256"
  shows "word_opcode (command_header op voice flags n) = op"
    and "word_voice (command_header op voice flags n) = nat voice"
    and "word_flags (command_header op voice flags n) = flags"
    and "word_payload (command_header op voice flags n) = n"
proof -
  note h = header_narrow [OF assms]
  show "word_opcode (command_header op voice flags n) = op"
    unfolding word_opcode_def h by (rule header_bits(1))
  have "uint (ucast (of_int voice :: 10 word) :: u32) = voice"
    using assms(1,2) by (simp add: unsigned_ucast_eq uint_word_of_int_eq take_bit_int_eq_self)
  then have "unat (ucast (of_int voice :: 10 word) :: u32) = nat voice"
    by (metis nat_uint_eq)
  then show "word_voice (command_header op voice flags n) = nat voice"
    unfolding word_voice_def h header_bits(2) .
  have "unat flags < 64" using assms(3) by (simp add: word_le_nat_alt)
  then have "(ucast (ucast (ucast flags :: 6 word) :: u32) :: u8) = flags"
    by (simp add: word_unat_eq_iff unsigned_take_bit_eq unsigned_ucast_eq take_bit_nat_eq_self)
  then show "word_flags (command_header op voice flags n) = flags"
    unfolding word_flags_def h header_bits(3) .
  have "unat (ucast (of_nat n :: u8) :: u32) = n"
    using assms(4) by (simp add: unsigned_ucast_eq unat_of_nat take_bit_nat_eq_self)
  then show "word_payload (command_header op voice flags n) = n"
    unfolding word_payload_def h header_bits(4) .
qed

lemma audio_header:
  "push_bit 24 (ucast (op :: u8)) OR of_nat n = (command_header op 0 0 n :: u32)"
  by (simp add: command_header_def)

subsection \<open>Packed fields\<close>

lemma pack_pair_halves [simp]:
  "low_half (pack_pair h l) = of_int l" "high_half (pack_pair h l) = of_int h"
proof -
  have m: "(0xffff :: u32) = mask 16" by (simp add: mask_eq_exp_minus_1)
  show "low_half (pack_pair h l) = of_int l"
    unfolding low_half_def pack_pair_def m
    by (rule bit_word_eqI) (auto simp: bit_simps bit_beyond)
  show "high_half (pack_pair h l) = of_int h"
    unfolding high_half_def pack_pair_def
    by (rule bit_word_eqI) (auto simp: bit_simps bit_beyond)
qed

text \<open>
  \<open>ceil_step\<close> is the least per-sample step that covers the distance within the duration.
\<close>

lemma unat_ceil_step:
  assumes "duration \<noteq> 0" and "unat distance < 2 ^ 33"
  shows "unat (ceil_step distance duration) =
    min 4294967295 ((unat distance + unat duration - 1) div unat duration)"
proof -
  have d: "unat (ucast duration :: u64) = unat duration"
    using unat_bounds(3) [of duration]
    by (simp add: unsigned_ucast_eq take_bit_nat_eq_self)
  have pos: "0 < unat duration" and ub: "unat duration < 2 ^ 32"
    using assms(1) unat_bounds(3) [of duration] by (simp_all add: unat_gt_0)
  have sum: "unat (distance + ucast duration - 1) = unat distance + unat duration - 1"
    using assms(2) pos ub d
    by (subst unat_sub_if') (auto simp: word_le_nat_alt unat_word_ariths)
  define q where "q = (distance + ucast duration - 1) div ucast duration"
  have q: "unat q = (unat distance + unat duration - 1) div unat duration"
    by (simp add: q_def unat_div d sum)
  have "unat (min 0xffffffff q) = min 4294967295 (unat q)"
    by (simp add: min_def word_le_nat_alt)
  moreover have "unat (ucast (min 0xffffffff q) :: u32) = unat (min 0xffffffff q)"
  proof -
    have "unat (min 0xffffffff q) < 2 ^ 32"
      by (simp add: min_def word_le_nat_alt)
    then show ?thesis by (simp add: unsigned_ucast_eq take_bit_nat_eq_self)
  qed
  ultimately show ?thesis using assms(1) by (simp add: ceil_step_def q_def [symmetric] q)
qed

lemma length_start_payload:
  "length (start_payload g inc r) =
     5 + (if rg_loop_mode r \<noteq> 0 then 2 else 0) + (if rg_filter_enable r then 3 else 0)
       + (if has_envelope (rg_volume_envelope r) then 6 else 0)"
  by (simp add: start_payload_def Let_def)

lemma word_le_3_cases: "w \<le> (3 :: u8) \<Longrightarrow> w = 0 \<or> w = 1 \<or> w = 2 \<or> w = 3"
proof -
  assume "w \<le> 3"
  then have "unat w \<le> 3" by (simp add: word_le_nat_alt)
  then have "unat w = 0 \<or> unat w = 1 \<or> unat w = 2 \<or> unat w = 3" by arith
  then show ?thesis by (auto simp: word_unat_eq_iff)
qed

lemma start_flags_small: "start_flags r \<le> 0x3f"
  using word_le_3_cases [OF word_and_le1 [of "of_int (rg_loop_mode r)" 3]]
  by (auto simp: start_flags_def)

subsection \<open>Emission\<close>

text \<open>A well-formed command: its header announces its length, and the runtime voice commands
  carry the payload their receiver reads.\<close>

definition well_formed_command :: "u32 list \<Rightarrow> bool" where
  "well_formed_command ws \<longleftrightarrow>
     ws \<noteq> [] \<and> length ws = word_payload (hd ws) + 1 \<and> length ws \<le> kMaxCommandWords \<and>
     (word_opcode (hd ws) \<in> {0x14, 0x16, 0x18} \<longrightarrow> length ws = 3) \<and>
     (word_opcode (hd ws) = 0x15 \<longrightarrow> length ws = 2) \<and>
     (word_opcode (hd ws) = 0x17 \<longrightarrow> length ws = 5)"

definition voice_command :: "u8 \<Rightarrow> int \<Rightarrow> u8 \<Rightarrow> u32 list \<Rightarrow> u32 list" where
  "voice_command opcode voice flags payload =
     command_header opcode voice flags (length payload) # payload"

lemma voice_emit_eq:
  assumes "0 \<le> voice" "voice < int kNumVoices" "flags \<le> 0x3f" "length payload \<le> 16"
  shows "voice_emit write opcode voice payload flags s =
    (case write (cv_sink s) (voice_command opcode voice flags payload) of
       (r, k) \<Rightarrow> (r, s\<lparr> cv_sink := k \<rparr>))"
proof -
  obtain c where "push_words empty_command
      (command_header opcode voice flags (length payload) # payload) = Inr c"
    and "view c = command_header opcode voice flags (length payload) # payload"
    using push_words_fresh [of "command_header opcode voice flags (length payload) # payload"]
      assms(4) by (auto simp: kMaxCommandWords_def)
  then show ?thesis
    using assms(1,2) leD [OF assms(3)] by (simp add: voice_emit_def voice_command_def)
qed

lemma audio_emit_eq:
  assumes "length payload \<le> 16"
  shows "audio_emit write opcode payload s = write s (voice_command opcode 0 0 payload)"
proof -
  obtain c where "push_words empty_command (command_header opcode 0 0 (length payload) # payload) = Inr c"
    and "view c = command_header opcode 0 0 (length payload) # payload"
    using push_words_fresh [of "command_header opcode 0 0 (length payload) # payload"]
      assms by (auto simp: kMaxCommandWords_def)
  then show ?thesis by (simp add: audio_emit_def audio_header voice_command_def)
qed

lemma voice_command_fields:
  assumes "0 \<le> voice" "voice < int kNumVoices" "flags \<le> 0x3f" "length payload \<le> 16"
  shows "word_opcode (hd (voice_command opcode voice flags payload)) = opcode"
    and "word_voice (hd (voice_command opcode voice flags payload)) = nat voice"
    and "word_flags (hd (voice_command opcode voice flags payload)) = flags"
    and "word_payload (hd (voice_command opcode voice flags payload)) = length payload"
  using header_fields [of voice flags "length payload" opcode] assms
  by (simp_all add: voice_command_def kNumVoices_def)

lemma well_formed_voice_command:
  assumes "0 \<le> voice" "voice < int kNumVoices" "flags \<le> 0x3f" "length payload \<le> 16"
    and "opcode \<in> {0x14, 0x16, 0x18} \<Longrightarrow> length payload = 2"
    and "opcode = 0x15 \<Longrightarrow> length payload = 1"
    and "opcode = 0x17 \<Longrightarrow> length payload = 4"
  shows "well_formed_command (voice_command opcode voice flags payload)"
  using voice_command_fields [OF assms(1-4), of opcode] assms(4-7)
  by (auto simp: well_formed_command_def kMaxCommandWords_def) (auto simp: voice_command_def)

section \<open>The sink interface\<close>

text \<open>Writing a sequence of commands, stopping at the first exception.\<close>

fun write_all :: "'s sink \<Rightarrow> 's \<Rightarrow> u32 list list \<Rightarrow> ('s, unit) outcome" where
  "write_all write s [] = (Inr (), s)"
| "write_all write s (ws # wss) =
     (case write s ws of (Inl e, s') \<Rightarrow> (Inl e, s') | (Inr _, s') \<Rightarrow> write_all write s' wss)"

lemma write_all_append:
  "write_all write s (xs @ ys) =
     (case write_all write s xs of
        (Inl e, s') \<Rightarrow> (Inl e, s') | (Inr _, s') \<Rightarrow> write_all write s' ys)"
  by (induction xs arbitrary: s) (auto split: prod.splits sum.splits)

text \<open>
  What a client of \<open>CommandWordSink\<close> relies on: in a good state the sink takes every command
  of the stream it is meant for without an exception and stays good.
\<close>

locale command_sink =
  fixes wr :: "'s sink" and good :: "'s \<Rightarrow> bool" and accepts :: "u32 list \<Rightarrow> bool"
  assumes accept: "good s \<Longrightarrow> accepts ws \<Longrightarrow> \<exists>s'. wr s ws = (Inr (), s') \<and> good s'"
begin

lemma write_all_accepted:
  "good s \<Longrightarrow> list_all accepts wss \<Longrightarrow> \<exists>s'. write_all wr s wss = (Inr (), s') \<and> good s'"
proof (induction wss arbitrary: s)
  case Nil
  then show ?case by simp
next
  case (Cons ws wss)
  then obtain s1 where "wr s ws = (Inr (), s1)" "good s1" using accept by force
  then show ?case using Cons by simp
qed

lemma voice_emit_accepted:
  assumes "good (cv_sink s)" "0 \<le> voice" "voice < int kNumVoices" "flags \<le> 0x3f"
    "length payload \<le> 16" "accepts (voice_command opcode voice flags payload)"
  shows "\<exists>k. voice_emit wr opcode voice payload flags s = (Inr (), s\<lparr> cv_sink := k \<rparr>) \<and> good k"
  using accept [OF assms(1,6)] voice_emit_eq [OF assms(2-5), of wr opcode s] by auto

end

text \<open>Two accepting sinks behind a fan-out accept the same stream.\<close>

lemma fanout_accepts:
  assumes "command_sink first good1 accepts" and "command_sink second good2 accepts"
  shows "command_sink (fanout_write first second) (\<lambda>st. good1 (fst st) \<and> good2 (snd st)) accepts"
proof
  fix st :: "'a \<times> 'b" and ws
  assume g: "good1 (fst st) \<and> good2 (snd st)" and ok: "accepts ws"
  obtain a where a: "first (fst st) ws = (Inr (), a)" "good1 a"
    using command_sink.accept [OF assms(1)] g ok by blast
  obtain b where b: "second (snd st) ws = (Inr (), b)" "good2 b"
    using command_sink.accept [OF assms(2)] g ok by blast
  show "\<exists>s'. fanout_write first second st ws = (Inr (), s') \<and> good1 (fst s') \<and> good2 (snd s')"
    using a b by (simp add: fanout_write_def)
qed

text \<open>The sink that only records what it is sent.\<close>

definition log_sink :: "u32 list list sink" where
  "log_sink l ws = (Inr (), l @ [ws])"

lemma write_all_log [simp]: "write_all log_sink l wss = (Inr (), l @ wss)"
  by (induction wss arbitrary: l) (simp_all add: log_sink_def)

interpretation logs: command_sink log_sink "\<lambda>_. True" "\<lambda>_. True"
  by unfold_locales (simp add: log_sink_def)

end
