(* ===== verification/Voice_Protocol.thy ===== *)
theory Voice_Protocol
  imports Command_Control
begin

text \<open>
  The voice lifecycle protocol. \<open>CommandVoiceControl\<close> promises its sink a disciplined stream: a
  voice is started with a fresh nonzero generation, its updates, release and stop carry the
  generation of that start, a release comes at most once per start, and nothing is sent to an
  idle voice. The promise is an automaton over the words on the wire; the refinement shows that
  every sequence of control operations drives it from its initial state and that the mirrors are
  its state.
\<close>

section \<open>Operations and their abstract effect\<close>

datatype voice_op =
    Start int u32 region
  | GainPhase int int int u32
  | Filter int filter_config
  | Release int u32
  | Stop int

fun op_voice :: "voice_op \<Rightarrow> int" where
  "op_voice (Start v inc r) = v"
| "op_voice (GainPhase v l r inc) = v"
| "op_voice (Filter v f) = v"
| "op_voice (Release v st) = v"
| "op_voice (Stop v) = v"

fun op_mono :: "voice_op \<Rightarrow> bool" where
  "op_mono (Start v inc r) = (\<not> rg_stereo r)"
| "op_mono _ = True"

definition op_ok :: "voice_op \<Rightarrow> bool" where
  "op_ok op \<longleftrightarrow> 0 \<le> op_voice op \<and> op_voice op < int kNumVoices \<and> op_mono op"

fun exec_op :: "'s sink \<Rightarrow> voice_op \<Rightarrow> 's voice_control \<Rightarrow> ('s voice_control, unit) outcome" where
  "exec_op write (Start v inc r) = start_voice write v inc r"
| "exec_op write (GainPhase v l r inc) = update_gain_phase write v l r inc"
| "exec_op write (Filter v f) = update_filter write v f"
| "exec_op write (Release v st) = release_voice write v st"
| "exec_op write (Stop v) = stop_voice write v"

fun run_ops :: "'s sink \<Rightarrow> voice_op list \<Rightarrow> 's voice_control \<Rightarrow> ('s voice_control, unit) outcome" where
  "run_ops write [] s = (Inr (), s)"
| "run_ops write (op # ops) s =
     (case exec_op write op s of (Inl e, s') \<Rightarrow> (Inl e, s') | (Inr _, s') \<Rightarrow> run_ops write ops s')"

definition next_generation :: "u16 \<Rightarrow> u16" where
  "next_generation g = (if g + 1 = 0 then 1 else g + 1)"

text \<open>What an operation does to the mirror of its voice, and the commands it sends.\<close>

fun op_spec :: "voice_op \<Rightarrow> voice_mirror \<Rightarrow> voice_mirror \<times> u32 list list" where
  "op_spec (Start v inc r) m =
     (let g = next_generation (vm_generation m) in
      (m\<lparr> vm_generation := g, vm_active := True, vm_released := False, vm_gain_l := rg_gain_l r,
         vm_gain_r := rg_gain_r r, vm_phase_inc := inc,
         vm_filter := \<lparr> fc_enable = rg_filter_enable r, fc_b0 = rg_filter_b0 r,
           fc_b1 = rg_filter_b1 r, fc_b2 = rg_filter_b2 r, fc_a1 = rg_filter_a1 r,
           fc_a2 = rg_filter_a2 r \<rparr> \<rparr>,
       [voice_command kDefineMono v (start_flags r) (start_payload g inc r)]))"
| "op_spec (GainPhase v l r inc) m =
     (if \<not> vm_active m then (m, [])
      else (m\<lparr> vm_gain_l := clamp_q15 l, vm_gain_r := clamp_q15 r, vm_phase_inc := inc \<rparr>,
        (if clamp_q15 l \<noteq> vm_gain_l m \<or> clamp_q15 r \<noteq> vm_gain_r m
         then [voice_command kGain v 0
                 [ucast (vm_generation m), pack_pair (clamp_q15 r) (clamp_q15 l)]]
         else [])
        @ (if inc \<noteq> vm_phase_inc m
           then [voice_command kPitch v 0 [ucast (vm_generation m), inc]] else [])))"
| "op_spec (Filter v f) m =
     (if \<not> vm_active m \<or> f = vm_filter m then (m, [])
      else (m\<lparr> vm_filter := f \<rparr>,
        [voice_command kFilter v 0
           [ucast (vm_generation m), pack_pair (fc_b1 f) (fc_b0 f), pack_pair (fc_a1 f) (fc_b2 f),
            ucast (of_int (fc_a2 f) :: u16) OR (if fc_enable f then 0x00010000 else 0)]]))"
| "op_spec (Release v st) m =
     (if \<not> vm_active m \<or> vm_released m then (m, [])
      else (m\<lparr> vm_released := True \<rparr>,
        [voice_command kRelease v 0 [ucast (vm_generation m), st]]))"
| "op_spec (Stop v) m =
     (if \<not> vm_active m then (m, [])
      else (m\<lparr> vm_active := False, vm_released := False \<rparr>,
        [voice_command kStop v 0 [ucast (vm_generation m)]]))"

lemmas opcode_defs = kDefineMono_def kRelease_def kStop_def kGain_def kFilter_def kPitch_def

lemma op_spec_well_formed:
  assumes "op_ok op" "ws \<in> set (snd (op_spec op m))"
  shows "well_formed_command ws"
  using assms
  by (cases op)
    (auto simp: op_ok_def opcode_defs Let_def length_start_payload start_flags_small
      split: if_splits intro!: well_formed_voice_command)

section \<open>The operations refine their abstract effect on every accepting sink\<close>

definition op_after :: "voice_op \<Rightarrow> 's voice_control \<Rightarrow> 's \<Rightarrow> 's voice_control" where
  "op_after op s k =
     s\<lparr> cv_sink := k,
        cv_voices := (cv_voices s)[nat (op_voice op) :=
          fst (op_spec op (cv_voices s ! nat (op_voice op)))] \<rparr>"

definition op_emits :: "voice_op \<Rightarrow> 's voice_control \<Rightarrow> u32 list list" where
  "op_emits op s = snd (op_spec op (cv_voices s ! nat (op_voice op)))"

lemma mirror_at_ok:
  "0 \<le> v \<Longrightarrow> v < int kNumVoices \<Longrightarrow> length (cv_voices s) = kNumVoices \<Longrightarrow>
     mirror_at s v = Inr (cv_voices s ! nat v)"
  by (simp add: mirror_at_def)

lemma list_update_same [simp]: "i < length xs \<Longrightarrow> xs ! i = x \<Longrightarrow> xs[i := x] = xs"
  using list_update_id [of xs i] by simp

lemma filter_fields_eq:
  "fc_enable f = fc_enable g \<and> fc_b0 f = fc_b0 g \<and> fc_b1 f = fc_b1 g \<and> fc_b2 f = fc_b2 g \<and>
   fc_a1 f = fc_a1 g \<and> fc_a2 f = fc_a2 (g :: filter_config) \<longleftrightarrow> f = g"
  by (cases f; cases g) simp

context command_sink
begin

lemma emit_one:
  assumes "good (cv_sink s)" "0 \<le> v" "v < int kNumVoices" "flags \<le> 0x3f" "length payload \<le> 16"
    and "accepts (voice_command opc v flags payload)"
  obtains k where "voice_emit wr opc v payload flags s = (Inr (), s\<lparr> cv_sink := k \<rparr>)" "good k"
    "wr (cv_sink s) (voice_command opc v flags payload) = (Inr (), k)"
  using accept [OF assms(1,6)] voice_emit_eq [OF assms(2-5), of wr opc s] that by auto

lemma start_refines:
  assumes "good (cv_sink s)" "op_ok (Start v inc r)" "length (cv_voices s) = kNumVoices"
    "list_all accepts (op_emits (Start v inc r) s)"
  shows "\<exists>k. start_voice wr v inc r s = (Inr (), op_after (Start v inc r) s k) \<and> good k \<and>
    write_all wr (cv_sink s) (op_emits (Start v inc r) s) = (Inr (), k)"
proof -
  let ?m = "cv_voices s ! nat v"
  define g where "g = next_generation (vm_generation ?m)"
  define p where "p = start_payload g inc r"
  have v: "0 \<le> v" "v < int kNumVoices" "\<not> rg_stereo r" using assms(2) by (simp_all add: op_ok_def)
  have len: "length p \<le> 16" by (simp add: p_def length_start_payload)
  then obtain c where c: "push_words empty_command p = Inr c" "view c = p"
    using push_words_fresh [of p] by (auto simp: kMaxCommandWords_def)
  let ?s1 = "set_mirror v (?m\<lparr> vm_generation := g \<rparr>) s"
  have "accepts (voice_command kDefineMono v (start_flags r) p)" "good (cv_sink ?s1)"
    using assms(1,4) by (simp_all add: op_emits_def Let_def g_def p_def set_mirror_def)
  then obtain k where "voice_emit wr kDefineMono v p (start_flags r) ?s1 = (Inr (), ?s1\<lparr> cv_sink := k \<rparr>)"
    "good k" "wr (cv_sink ?s1) (voice_command kDefineMono v (start_flags r) p) = (Inr (), k)"
    using emit_one [OF _ v(1,2) start_flags_small len] by metis
  then show ?thesis
    using v c assms(3)
    by (simp add: start_voice_def mirror_at_ok Let_def next_generation_def [symmetric]
        g_def [symmetric] p_def [symmetric] op_after_def op_emits_def set_mirror_def)
qed

lemma stop_refines:
  assumes "good (cv_sink s)" "op_ok (Stop v)" "length (cv_voices s) = kNumVoices"
    "list_all accepts (op_emits (Stop v) s)"
  shows "\<exists>k. stop_voice wr v s = (Inr (), op_after (Stop v) s k) \<and> good k \<and>
    write_all wr (cv_sink s) (op_emits (Stop v) s) = (Inr (), k)"
proof (cases "vm_active (cv_voices s ! nat v)")
  case True
  have v: "0 \<le> v" "v < int kNumVoices" using assms(2) by (simp_all add: op_ok_def)
  let ?p = "[ucast (vm_generation (cv_voices s ! nat v))]"
  have "accepts (voice_command kStop v 0 ?p)"
    using assms(4) True by (simp add: op_emits_def)
  then obtain k where "voice_emit wr kStop v ?p 0 s = (Inr (), s\<lparr> cv_sink := k \<rparr>)" "good k"
    "wr (cv_sink s) (voice_command kStop v 0 ?p) = (Inr (), k)"
    using emit_one [OF assms(1) v, of 0 ?p kStop] by auto
  then show ?thesis
    using v assms(3) True
    by (simp add: stop_voice_def mirror_at_ok op_after_def op_emits_def set_mirror_def)
next
  case False
  then show ?thesis
    using assms by (simp add: stop_voice_def mirror_at_ok op_after_def op_emits_def op_ok_def)
qed

lemma release_refines:
  assumes "good (cv_sink s)" "op_ok (Release v st)" "length (cv_voices s) = kNumVoices"
    "list_all accepts (op_emits (Release v st) s)"
  shows "\<exists>k. release_voice wr v st s = (Inr (), op_after (Release v st) s k) \<and> good k \<and>
    write_all wr (cv_sink s) (op_emits (Release v st) s) = (Inr (), k)"
proof (cases "vm_active (cv_voices s ! nat v) \<and> \<not> vm_released (cv_voices s ! nat v)")
  case True
  have v: "0 \<le> v" "v < int kNumVoices" using assms(2) by (simp_all add: op_ok_def)
  let ?p = "[ucast (vm_generation (cv_voices s ! nat v)), st]"
  have "accepts (voice_command kRelease v 0 ?p)"
    using assms(4) True by (simp add: op_emits_def)
  then obtain k where "voice_emit wr kRelease v ?p 0 s = (Inr (), s\<lparr> cv_sink := k \<rparr>)" "good k"
    "wr (cv_sink s) (voice_command kRelease v 0 ?p) = (Inr (), k)"
    using emit_one [OF assms(1) v, of 0 ?p kRelease] by auto
  then show ?thesis
    using v assms(3) True
    by (simp add: release_voice_def mirror_at_ok op_after_def op_emits_def set_mirror_def)
next
  case False
  then show ?thesis
    using assms by (auto simp: release_voice_def mirror_at_ok op_after_def op_emits_def op_ok_def)
qed

lemma filter_refines:
  assumes "good (cv_sink s)" "op_ok (Filter v f)" "length (cv_voices s) = kNumVoices"
    "list_all accepts (op_emits (Filter v f) s)"
  shows "\<exists>k. update_filter wr v f s = (Inr (), op_after (Filter v f) s k) \<and> good k \<and>
    write_all wr (cv_sink s) (op_emits (Filter v f) s) = (Inr (), k)"
proof -
  let ?m = "cv_voices s ! nat v"
  have v: "0 \<le> v" "v < int kNumVoices" using assms(2) by (simp_all add: op_ok_def)
  show ?thesis
  proof (cases "vm_active ?m \<and> f \<noteq> vm_filter ?m")
    case True
    let ?p = "[ucast (vm_generation ?m), pack_pair (fc_b1 f) (fc_b0 f), pack_pair (fc_a1 f) (fc_b2 f),
      ucast (of_int (fc_a2 f) :: u16) OR (if fc_enable f then 0x00010000 else 0)]"
    have "accepts (voice_command kFilter v 0 ?p)"
      using assms(4) True by (simp add: op_emits_def)
    then obtain k where "voice_emit wr kFilter v ?p 0 s = (Inr (), s\<lparr> cv_sink := k \<rparr>)" "good k"
      "wr (cv_sink s) (voice_command kFilter v 0 ?p) = (Inr (), k)"
      using emit_one [OF assms(1) v, of 0 ?p kFilter] by auto
    then show ?thesis
      using v assms(3) True
      unfolding update_filter_def filter_fields_eq
      by (simp add: mirror_at_ok op_after_def op_emits_def set_mirror_def)
  next
    case False
    then show ?thesis
      using assms v unfolding update_filter_def filter_fields_eq
      by (auto simp: mirror_at_ok op_after_def op_emits_def)
  qed
qed

lemma gain_phase_refines:
  assumes "good (cv_sink s)" "op_ok (GainPhase v l r inc)" "length (cv_voices s) = kNumVoices"
    "list_all accepts (op_emits (GainPhase v l r inc) s)"
  shows "\<exists>k. update_gain_phase wr v l r inc s = (Inr (), op_after (GainPhase v l r inc) s k) \<and>
    good k \<and> write_all wr (cv_sink s) (op_emits (GainPhase v l r inc) s) = (Inr (), k)"
proof -
  let ?m = "cv_voices s ! nat v"
  have v: "0 \<le> v" "v < int kNumVoices" using assms(2) by (simp_all add: op_ok_def)
  let ?dg = "clamp_q15 l \<noteq> vm_gain_l ?m \<or> clamp_q15 r \<noteq> vm_gain_r ?m"
  let ?dp = "inc \<noteq> vm_phase_inc ?m"
  let ?pg = "[ucast (vm_generation ?m), pack_pair (clamp_q15 r) (clamp_q15 l)] :: u32 list"
  let ?pp = "[ucast (vm_generation ?m), inc] :: u32 list"
  consider (idle) "\<not> vm_active ?m \<or> \<not> ?dg \<and> \<not> ?dp" | (both) "vm_active ?m" ?dg ?dp
    | (gain) "vm_active ?m" ?dg "\<not> ?dp" | (pitch) "vm_active ?m" "\<not> ?dg" ?dp by blast
  then show ?thesis
  proof cases
    case idle
    then show ?thesis using assms(1,3) v
      by (auto simp: update_gain_phase_def mirror_at_ok Let_def op_after_def op_emits_def)
  next
    case both
    then have acc: "accepts (voice_command kGain v 0 ?pg)" "accepts (voice_command kPitch v 0 ?pp)"
      using assms(4) by (simp_all add: op_emits_def)
    obtain k1 where k1: "voice_emit wr kGain v ?pg 0 s = (Inr (), s\<lparr> cv_sink := k1 \<rparr>)" "good k1"
      "wr (cv_sink s) (voice_command kGain v 0 ?pg) = (Inr (), k1)"
      using emit_one [OF assms(1) v, of 0 ?pg kGain] acc(1) by auto
    obtain k2 where k2: "voice_emit wr kPitch v ?pp 0 (s\<lparr> cv_sink := k1 \<rparr>) = (Inr (), s\<lparr> cv_sink := k2 \<rparr>)"
      "good k2" "wr k1 (voice_command kPitch v 0 ?pp) = (Inr (), k2)"
      using emit_one [OF _ v, of "s\<lparr> cv_sink := k1 \<rparr>" 0 ?pp kPitch] acc(2) k1(2) by auto
    show ?thesis using both assms(3) v k1 k2
      by (auto simp: update_gain_phase_def mirror_at_ok Let_def op_after_def op_emits_def
          set_mirror_def)
  next
    case gain
    then have acc: "accepts (voice_command kGain v 0 ?pg)"
      using assms(4) by (simp add: op_emits_def)
    obtain k1 where k1: "voice_emit wr kGain v ?pg 0 s = (Inr (), s\<lparr> cv_sink := k1 \<rparr>)" "good k1"
      "wr (cv_sink s) (voice_command kGain v 0 ?pg) = (Inr (), k1)"
      using emit_one [OF assms(1) v, of 0 ?pg kGain] acc by auto
    show ?thesis using gain assms(3) v k1
      by (auto simp: update_gain_phase_def mirror_at_ok Let_def op_after_def op_emits_def
          set_mirror_def)
  next
    case pitch
    then have acc: "accepts (voice_command kPitch v 0 ?pp)"
      using assms(4) by (simp add: op_emits_def)
    obtain k1 where k1: "voice_emit wr kPitch v ?pp 0 s = (Inr (), s\<lparr> cv_sink := k1 \<rparr>)" "good k1"
      "wr (cv_sink s) (voice_command kPitch v 0 ?pp) = (Inr (), k1)"
      using emit_one [OF assms(1) v, of 0 ?pp kPitch] acc by auto
    show ?thesis using pitch assms(3) v k1
      by (auto simp: update_gain_phase_def mirror_at_ok Let_def op_after_def op_emits_def
          set_mirror_def)
  qed
qed

lemma exec_op_refines:
  assumes "good (cv_sink s)" "op_ok op" "length (cv_voices s) = kNumVoices"
    "list_all accepts (op_emits op s)"
  shows "\<exists>k. exec_op wr op s = (Inr (), op_after op s k) \<and> good k \<and>
    write_all wr (cv_sink s) (op_emits op s) = (Inr (), k)"
proof (cases op)
  case (Start v inc r)
  then show ?thesis using start_refines assms by simp
next
  case (GainPhase v l r inc)
  then show ?thesis using gain_phase_refines assms by simp
next
  case (Filter v f)
  then show ?thesis using filter_refines assms by simp
next
  case (Release v st)
  then show ?thesis using release_refines assms by simp
next
  case (Stop v)
  then show ?thesis using stop_refines assms by simp
qed

end

lemma next_generation_nonzero [simp]: "next_generation g \<noteq> 0"
  by (simp add: next_generation_def)

section \<open>The protocol automaton\<close>

datatype phase = Idle | Held | Released

type_synonym protocol = "nat \<Rightarrow> u16 \<times> phase"

definition protocol_step :: "protocol \<Rightarrow> u32 list \<Rightarrow> protocol option" where
  "protocol_step p ws =
     (let v = word_voice (hd ws); opcode = word_opcode (hd ws); g = low_half (ws ! 1);
          cur = fst (p v); ph = snd (p v)
      in if length ws < 2 \<or> v \<ge> kNumVoices then None
         else if opcode = 0x10 then
           (if g = next_generation cur \<and> g \<noteq> 0 then Some (p(v := (g, Held))) else None)
         else if g \<noteq> cur \<or> ph = Idle then None
         else if opcode = 0x14 then
           (if ph = Held then Some (p(v := (cur, Released))) else None)
         else if opcode = 0x15 then Some (p(v := (cur, Idle)))
         else if opcode = 0x16 \<or> opcode = 0x17 \<or> opcode = 0x18 then Some p
         else None)"

fun protocol_run :: "protocol \<Rightarrow> u32 list list \<Rightarrow> protocol option" where
  "protocol_run p [] = Some p"
| "protocol_run p (ws # wss) =
     (case protocol_step p ws of None \<Rightarrow> None | Some p' \<Rightarrow> protocol_run p' wss)"

lemma protocol_run_append:
  "protocol_run p (xs @ ys) =
     (case protocol_run p xs of None \<Rightarrow> None | Some p' \<Rightarrow> protocol_run p' ys)"
  by (induction xs arbitrary: p) (auto split: option.splits)

definition mirror_phase :: "voice_mirror \<Rightarrow> phase" where
  "mirror_phase m = (if \<not> vm_active m then Idle else if vm_released m then Released else Held)"

definition protocol_of :: "'s voice_control \<Rightarrow> protocol" where
  "protocol_of s v =
     (if v < length (cv_voices s)
      then (vm_generation (cv_voices s ! v), mirror_phase (cv_voices s ! v)) else (0, Idle))"

definition protocol_init :: protocol where
  "protocol_init = (\<lambda>v. (0, Idle))"

lemma protocol_of_new: "protocol_of (voice_control_new k) = protocol_init"
  by (rule ext) (simp add: protocol_of_def voice_control_new_def protocol_init_def
      default_voice_mirror_def mirror_phase_def)

lemma low_half_ucast [simp]: "low_half (ucast (g :: u16)) = g"
proof -
  have m: "(0xffff :: u32) = mask 16" by (simp add: mask_eq_exp_minus_1)
  show ?thesis
    unfolding low_half_def m by (rule bit_word_eqI) (auto simp: bit_simps bit_beyond)
qed

lemma protocol_step_command:
  assumes "0 \<le> v" "v < int kNumVoices" "flags \<le> 0x3f" "length payload < 16"
  shows "protocol_step p (voice_command opc v flags (ucast g # payload)) =
    (let cur = fst (p (nat v)); ph = snd (p (nat v)) in
     if opc = 0x10 then (if g = next_generation cur then Some (p(nat v := (g, Held))) else None)
     else if g \<noteq> cur \<or> ph = Idle then None
     else if opc = 0x14 then (if ph = Held then Some (p(nat v := (cur, Released))) else None)
     else if opc = 0x15 then Some (p(nat v := (cur, Idle)))
     else if opc = 0x16 \<or> opc = 0x17 \<or> opc = 0x18 then Some p
     else None)"
proof -
  have "voice_command opc v flags (ucast g # payload) ! 1 = ucast g"
    "2 \<le> length (voice_command opc v flags (ucast g # payload))"
    by (simp_all add: voice_command_def)
  then show ?thesis
    using voice_command_fields [of v flags "ucast g # payload" opc] assms
    by (auto simp: protocol_step_def Let_def)
qed

lemma protocol_of_after:
  assumes "0 \<le> op_voice op" "op_voice op < int kNumVoices" "length (cv_voices s) = kNumVoices"
  shows "protocol_of (op_after op s k) = (protocol_of s)(nat (op_voice op) :=
    (let m = fst (op_spec op (cv_voices s ! nat (op_voice op))) in (vm_generation m, mirror_phase m)))"
  using assms by (auto simp: protocol_of_def op_after_def Let_def nth_list_update fun_eq_iff)

lemma op_follows_protocol:
  assumes "op_ok op" "length (cv_voices s) = kNumVoices"
  shows "protocol_run (protocol_of s) (op_emits op s) = Some (protocol_of (op_after op s k))"
proof -
  let ?m = "cv_voices s ! nat (op_voice op)"
  have v: "0 \<le> op_voice op" "op_voice op < int kNumVoices" using assms(1) by (simp_all add: op_ok_def)
  have p: "protocol_of s (nat (op_voice op)) = (vm_generation ?m, mirror_phase ?m)"
    using v assms(2) by (simp add: protocol_of_def nat_less_iff)
  have same: "(protocol_of s)(nat (op_voice op) := (vm_generation ?m, mirror_phase ?m)) = protocol_of s"
    using p by (simp add: fun_upd_idem_iff)
  have "length (tl (start_payload g inc r)) < 16 \<and>
      start_payload g inc r = ucast g # tl (start_payload g inc r)" for g inc r
    using length_start_payload [of g inc r] by (simp add: start_payload_def Let_def)
  then have start: "protocol_step q (voice_command 0x10 v f (start_payload g inc r)) =
      (if g = next_generation (fst (q (nat v))) then Some (q(nat v := (g, Held))) else None)"
    if "0 \<le> v" "v < int kNumVoices" "f \<le> 0x3f" for q v f g inc r
    using protocol_step_command [OF that, where payload = "tl (start_payload g inc r)" and p = q and
        opc = "0x10" and g = g] by simp
  show ?thesis
    unfolding protocol_of_after [OF v assms(2)]
    using v p same
    by (cases op)
      (auto simp: op_emits_def Let_def opcode_defs start start_flags_small
        protocol_step_command mirror_phase_def)
qed

section \<open>Sessions\<close>

lemma op_after_simps [simp]:
  "length (cv_voices (op_after op s k)) = length (cv_voices s)" "cv_sink (op_after op s k) = k"
  by (simp_all add: op_after_def)

lemma run_ops_log:
  "list_all op_ok ops \<Longrightarrow> length (cv_voices s) = kNumVoices \<Longrightarrow>
     \<exists>s' wss. run_ops log_sink ops s = (Inr (), s') \<and> cv_sink s' = cv_sink s @ wss \<and>
       list_all well_formed_command wss \<and>
       protocol_run (protocol_of s) wss = Some (protocol_of s')"
proof (induction ops arbitrary: s)
  case Nil
  then show ?case by simp
next
  case (Cons op ops)
  then have op: "op_ok op" by simp
  obtain k where k: "exec_op log_sink op s = (Inr (), op_after op s k)"
    "write_all log_sink (cv_sink s) (op_emits op s) = (Inr (), k)"
    using logs.exec_op_refines [where s = s and op = op] op Cons.prems(2)
    by (auto simp: list_all_iff)
  obtain s' wss where rest: "run_ops log_sink ops (op_after op s k) = (Inr (), s')"
    "cv_sink s' = k @ wss" "list_all well_formed_command wss"
    "protocol_run (protocol_of (op_after op s k)) wss = Some (protocol_of s')"
    using Cons.IH [of "op_after op s k"] Cons.prems by auto
  have "list_all well_formed_command (op_emits op s)"
    using op_spec_well_formed [OF op] by (auto simp: list_all_iff op_emits_def)
  moreover have "protocol_run (protocol_of s) (op_emits op s @ wss) = Some (protocol_of s')"
    using op_follows_protocol [OF op Cons.prems(2), of k] rest(4) by (simp add: protocol_run_append)
  ultimately have "list_all well_formed_command (op_emits op s @ wss)" "cv_sink s' = cv_sink s @ op_emits op s @ wss"
    using rest(2,3) k(2) by simp_all
  then show ?case
    using k(1) rest(1) \<open>protocol_run (protocol_of s) (op_emits op s @ wss) = _\<close> by auto
qed

section \<open>The START command builder\<close>

lemma start_payload_header:
  assumes "0 \<le> v" "v < int kNumVoices"
  shows "push_bit 24 (ucast kDefineMono) OR push_bit 14 (of_int v) OR
      push_bit 8 (ucast (start_flags r)) OR
      ucast (5 + (if rg_loop_mode r \<noteq> 0 then 2 else 0) + (if rg_filter_enable r then 3 else 0)
        + (if has_envelope (rg_volume_envelope r) then 6 else (0 :: u8))) =
    (command_header kDefineMono v (start_flags r) (length (start_payload g inc r)) :: u32)"
proof -
  have "v AND 0x3ff = take_bit 10 v" by (simp add: take_bit_eq_mask mask_eq_exp_minus_1)
  also have "\<dots> = v" using assms by (intro take_bit_int_eq_self) (simp_all add: kNumVoices_def)
  finally show ?thesis by (simp add: command_header_def length_start_payload)
qed

lemma build_voice_start_command_eq:
  assumes "0 \<le> v" "v < int kNumVoices" "\<not> rg_stereo r"
  shows "\<exists>c. build_voice_start_command v g inc r = Inr c \<and>
    view c = voice_command kDefineMono v (start_flags r) (start_payload g inc r)"
proof -
  have "length (voice_command kDefineMono v (start_flags r) (start_payload g inc r)) \<le> kMaxCommandWords"
    by (simp add: voice_command_def length_start_payload kMaxCommandWords_def)
  then obtain c where "push_words empty_command
      (voice_command kDefineMono v (start_flags r) (start_payload g inc r)) = Inr c"
    "view c = voice_command kDefineMono v (start_flags r) (start_payload g inc r)"
    using push_words_fresh by metis
  then show ?thesis
    using assms start_payload_header [OF assms(1,2), of r g inc]
    by (simp add: build_voice_start_command_def Let_def voice_command_def del: push_words.simps)
qed

section \<open>Properties\<close>

text \<open>C1: Every sequence of voice operations on existing voices (with mono regions) completes, and
  the words it sends follow the lifecycle protocol from its initial state: fresh nonzero
  generation per START, at most one RELEASE per START, no command to an idle voice or with a
  stale generation. The protocol state reached is the one the voice mirrors hold.\<close>

theorem voice_control_follows_protocol:
  assumes "list_all op_ok ops"
  shows "\<exists>s'. run_ops log_sink ops (voice_control_new []) = (Inr (), s') \<and>
    list_all well_formed_command (cv_sink s') \<and>
    protocol_run protocol_init (cv_sink s') = Some (protocol_of s')"
proof -
  have "length (cv_voices (voice_control_new [])) = kNumVoices"
    by (simp add: voice_control_new_def)
  then obtain s' wss where "run_ops log_sink ops (voice_control_new []) = (Inr (), s')"
    "cv_sink s' = cv_sink (voice_control_new []) @ wss" "list_all well_formed_command wss"
    "protocol_run (protocol_of (voice_control_new ([] :: u32 list list))) wss = Some (protocol_of s')"
    using run_ops_log [OF assms, where s = "voice_control_new []"] by blast
  then show ?thesis unfolding protocol_of_new by (simp add: voice_control_new_def)
qed

definition example_ops :: "voice_op list" where
  "example_ops = [Start 3 256 default_region, GainPhase 3 100 200 300, Release 3 7, Release 3 7, Stop 3,
     Stop 3, Release 3 9, Start 3 256 default_region]"

theorem voice_control_follows_protocol_witness:
  "\<exists>s'. run_ops log_sink example_ops (voice_control_new []) = (Inr (), s') \<and>
    protocol_run protocol_init (cv_sink s') = Some (protocol_of s')"
proof -
  have "list_all op_ok example_ops"
    by (simp add: example_ops_def op_ok_def kNumVoices_def default_region_def)
  then show ?thesis using voice_control_follows_protocol by blast
qed

text \<open>\<open>start_voice\<close> and the stand-alone \<open>build_voice_start_command\<close> agree word for word: on
  any accepted START the words sent are those the builder makes for the new generation.\<close>

theorem start_voice_sends_built_command:
  assumes "0 \<le> v" "v < int kNumVoices" "\<not> rg_stereo r" "length (cv_voices s) = kNumVoices"
  shows "\<exists>s' c. start_voice log_sink v inc r s = (Inr (), s') \<and>
    build_voice_start_command v (vm_generation (cv_voices s' ! nat v)) inc r = Inr c \<and>
    cv_sink s' = cv_sink s @ [view c]"
proof -
  let ?g = "next_generation (vm_generation (cv_voices s ! nat v))"
  obtain k where k: "start_voice log_sink v inc r s = (Inr (), op_after (Start v inc r) s k)"
    "write_all log_sink (cv_sink s) (op_emits (Start v inc r) s) = (Inr (), k)"
    using logs.start_refines [where s = s and v = v and inc = inc and r = r] assms
    by (auto simp: op_ok_def list_all_iff)
  moreover have "vm_generation (cv_voices (op_after (Start v inc r) s k) ! nat v) = ?g"
    using assms by (simp add: op_after_def Let_def nat_less_iff)
  moreover obtain c where "build_voice_start_command v ?g inc r = Inr c"
    "view c = voice_command kDefineMono v (start_flags r) (start_payload ?g inc r)"
    using build_voice_start_command_eq [OF assms(1-3)] by blast
  ultimately show ?thesis by (auto simp: op_emits_def Let_def log_sink_def)
qed

theorem start_voice_sends_built_command_witness:
  "\<exists>s' c. start_voice log_sink 5 1024 default_region (voice_control_new []) = (Inr (), s') \<and>
    build_voice_start_command 5 (vm_generation (cv_voices s' ! nat 5)) 1024 default_region = Inr c \<and>
    cv_sink s' = [view c]"
  using start_voice_sends_built_command [of 5 default_region "voice_control_new []" 1024]
  by (simp add: voice_control_new_def kNumVoices_def default_region_def)

text \<open>An operation on a voice outside the array throws without a command and without touching
  any mirror, whatever the sink; a START of a stereo region throws without a command.\<close>

theorem voice_op_rejected:
  "(op_voice op < 0 \<or> int (length (cv_voices s)) \<le> op_voice op \<longrightarrow>
     exec_op write op s = (Inl (OutOfRange ''array::at''), s)) \<and>
   (rg_stereo r \<longrightarrow> (\<exists>e. fst (start_voice write v inc r s) = Inl e) \<and>
     cv_sink (snd (start_voice write v inc r s)) = cv_sink s)"
proof
  show "op_voice op < 0 \<or> int (length (cv_voices s)) \<le> op_voice op \<longrightarrow>
      exec_op write op s = (Inl (OutOfRange ''array::at''), s)"
    by (cases op) (auto simp: start_voice_def update_gain_phase_def update_filter_def
        release_voice_def stop_voice_def mirror_at_def nat_le_iff not_le)
  show "rg_stereo r \<longrightarrow> (\<exists>e. fst (start_voice write v inc r s) = Inl e) \<and>
      cv_sink (snd (start_voice write v inc r s)) = cv_sink s"
    by (auto simp: start_voice_def Let_def set_mirror_def split: sum.splits)
qed

theorem voice_op_rejected_witness:
  "exec_op log_sink (Stop 512) (voice_control_new []) =
     (Inl (OutOfRange ''array::at''), voice_control_new [])"
  using voice_op_rejected [of "Stop 512" "voice_control_new []" log_sink]
  by (simp add: voice_control_new_def kNumVoices_def)

end
