(* ===== verification/Bounded_Fifo.thy ===== *)
theory Bounded_Fifo
  imports Prelude
begin

text \<open>
  The contract of the program's bounded queues. A queue is used through \<open>put\<close>, which throws and
  leaves the queue alone when it is full, and \<open>pop\<close>, which yields nothing when it is empty;
  \<open>contents\<close> is the sequence the ring buffer stands for. The clients' facts are proved once
  here: a batch that fits goes in whole, draining gives it back in order, and a queue never
  grows beyond its capacity. The frame-batched sink and the two queues of the command scheduler
  are interpretations.
\<close>

fun put_all :: "('s \<Rightarrow> 'a \<Rightarrow> ('s, unit) outcome) \<Rightarrow> 's \<Rightarrow> 'a list \<Rightarrow> ('s, unit) outcome" where
  "put_all put s [] = (Inr (), s)"
| "put_all put s (x # xs) =
     (case put s x of (Inl e, s') \<Rightarrow> (Inl e, s') | (Inr _, s') \<Rightarrow> put_all put s' xs)"

fun pop_many :: "('s \<Rightarrow> ('a \<times> 's) option) \<Rightarrow> nat \<Rightarrow> 's \<Rightarrow> 'a list \<times> 's" where
  "pop_many pop 0 s = ([], s)"
| "pop_many pop (Suc n) s =
     (case pop s of
        None \<Rightarrow> ([], s)
      | Some (x, s') \<Rightarrow> (case pop_many pop n s' of (xs, s'') \<Rightarrow> (x # xs, s'')))"

locale bounded_fifo =
  fixes contents :: "'s \<Rightarrow> 'a list"
    and inv :: "'s \<Rightarrow> bool"
    and valid :: "'a \<Rightarrow> bool"
    and capacity :: nat
    and put :: "'s \<Rightarrow> 'a \<Rightarrow> ('s, unit) outcome"
    and pop :: "'s \<Rightarrow> ('a \<times> 's) option"
  assumes put_room: "inv s \<Longrightarrow> valid x \<Longrightarrow> length (contents s) < capacity \<Longrightarrow>
      \<exists>s'. put s x = (Inr (), s') \<and> inv s' \<and> contents s' = contents s @ [x]"
    and put_full: "inv s \<Longrightarrow> valid x \<Longrightarrow> length (contents s) = capacity \<Longrightarrow>
      \<exists>e. put s x = (Inl e, s)"
    and pop_none: "inv s \<Longrightarrow> contents s = [] \<Longrightarrow> pop s = None"
    and pop_some: "inv s \<Longrightarrow> contents s = x # xs \<Longrightarrow>
      \<exists>s'. pop s = Some (x, s') \<and> inv s' \<and> contents s' = xs"
    and bounded: "inv s \<Longrightarrow> length (contents s) \<le> capacity"
begin

lemma put_all_room:
  "inv s \<Longrightarrow> list_all valid xs \<Longrightarrow> length (contents s) + length xs \<le> capacity \<Longrightarrow>
     \<exists>s'. put_all put s xs = (Inr (), s') \<and> inv s' \<and> contents s' = contents s @ xs"
proof (induction xs arbitrary: s)
  case Nil
  then show ?case by simp
next
  case (Cons x xs)
  then obtain s1 where "put s x = (Inr (), s1)" "inv s1" "contents s1 = contents s @ [x]"
    using put_room [of s x] by auto
  then show ?case using Cons.IH [of s1] Cons.prems by auto
qed

lemma pop_many_in_order:
  "inv s \<Longrightarrow> \<exists>s'. pop_many pop n s = (take n (contents s), s') \<and> inv s' \<and>
     contents s' = drop n (contents s)"
proof (induction n arbitrary: s)
  case 0
  then show ?case by simp
next
  case (Suc n)
  show ?case
  proof (cases "contents s")
    case Nil
    then show ?thesis using Suc.prems pop_none by simp
  next
    case (Cons x xs)
    then obtain s1 where "pop s = Some (x, s1)" "inv s1" "contents s1 = xs"
      using Suc.prems pop_some by blast
    then show ?thesis using Suc.IH [of s1] Cons by auto
  qed
qed

text \<open>What goes into an empty queue comes out in the same order and leaves it empty.\<close>

lemma put_then_pop:
  assumes "inv s" "contents s = []" "list_all valid xs" "length xs \<le> capacity"
  shows "\<exists>s' s''. put_all put s xs = (Inr (), s') \<and>
           pop_many pop (length xs) s' = (xs, s'') \<and> inv s'' \<and> contents s'' = []"
proof -
  obtain s' where "put_all put s xs = (Inr (), s')" "inv s'" "contents s' = xs"
    using put_all_room [of s xs] assms by auto
  then show ?thesis using pop_many_in_order [of s' "length xs"] by auto
qed

end

text \<open>A queue whose consumer may hand the last element it took back to the front.\<close>

locale returning_fifo = bounded_fifo contents inv valid capacity put pop
  for contents :: "'s \<Rightarrow> 'a list" and inv and valid :: "'a \<Rightarrow> bool" and capacity and put
    and pop :: "'s \<Rightarrow> ('a \<times> 's) option" +
  fixes unpop :: "'a \<Rightarrow> 's \<Rightarrow> 's"
  assumes unpop_front: "inv s \<Longrightarrow> valid x \<Longrightarrow> length (contents s) < capacity \<Longrightarrow>
      inv (unpop x s) \<and> contents (unpop x s) = x # contents s"
begin

lemma pop_unpop:
  assumes "inv s" "list_all valid (contents s)" "pop s = Some (x, s')"
  shows "inv (unpop x s') \<and> contents (unpop x s') = contents s"
proof (cases "contents s")
  case Nil
  then show ?thesis using assms pop_none by simp
next
  case (Cons y ys)
  then obtain t where "pop s = Some (y, t)" "inv t" "contents t = ys"
    using assms(1) pop_some by blast
  moreover have "length ys < capacity" using bounded [OF assms(1)] Cons by simp
  ultimately show ?thesis using assms(2,3) Cons unpop_front by simp
qed

end

end
