(* ===== verification/Frame_Batch.thy ===== *)
theory Frame_Batch
  imports Command_Control Bounded_Fifo
begin

text \<open>
  Correctness of \<open>FrameBatchedCommandSink\<close> (\<open>command_control.{h,cpp}\<close>): the ring buffer is a
  bounded first-in-first-out queue, a frame hands the oldest commands to the inner sink in order
  and at most \<open>max_actions_per_frame\<close> of them, and over any schedule of writes and frames no
  command is lost, duplicated or reordered.
\<close>

section \<open>The frame-batched sink is a bounded first-in-first-out queue\<close>

definition fb_queue :: "'s frame_batched \<Rightarrow> u32 list list" where
  "fb_queue s = map (\<lambda>p. view (pc_command p)) (ring_list (fb_pending s) (fb_head s) (fb_count s))"

definition fb_ring :: "'s frame_batched \<Rightarrow> bool" where
  "fb_ring s \<longleftrightarrow>
     0 < fb_max_actions s \<and> length (fb_pending s) = kFrameCommandQueueCapacity \<and>
     fb_head s < kFrameCommandQueueCapacity \<and> fb_count s \<le> kFrameCommandQueueCapacity \<and>
     fb_tail s = (fb_head s + fb_count s) mod kFrameCommandQueueCapacity \<and>
     fb_count s \<le> fb_max_pending s \<and> fb_max_pending s \<le> kFrameCommandQueueCapacity"

text \<open>Between calls every command ever accepted has been applied or is still queued.\<close>

definition fb_inv :: "'s frame_batched \<Rightarrow> bool" where
  "fb_inv s \<longleftrightarrow> fb_ring s \<and> fb_enqueued s = fb_applied s + of_nat (fb_count s)"

lemma length_fb_queue [simp]: "length (fb_queue s) = fb_count s"
  by (simp add: fb_queue_def)

lemma frame_batched_new_inv:
  "frame_batched_new sink n = Inr s \<Longrightarrow> fb_inv s \<and> fb_queue s = [] \<and> fb_sink s = sink \<and>
     fb_max_actions s = n"
  by (auto simp: frame_batched_new_def fb_inv_def fb_ring_def fb_queue_def kFrameCommandQueueCapacity_def
      split: if_splits)

lemma frame_batched_write_queues:
  assumes "fb_ring s" "words \<noteq> []" "length words \<le> kMaxCommandWords"
    "fb_count s < kFrameCommandQueueCapacity"
  obtains s' where "frame_batched_write s words = (Inr (), s')" "fb_ring s'"
    "fb_inv s \<Longrightarrow> fb_inv s'"
    "fb_queue s' = fb_queue s @ [words]" "fb_sink s' = fb_sink s"
    "fb_max_actions s' = fb_max_actions s"
proof -
  obtain c where c: "push_words empty_command words = Inr c" "view c = words"
    using push_words_fresh [OF assms(3)] by metis
  let ?p = "\<lparr> pc_command = c, pc_enqueue_frame = fb_frame_index s \<rparr>"
  have push: "ring_list ((fb_pending s)[fb_tail s := ?p]) (fb_head s) (Suc (fb_count s)) =
      ring_list (fb_pending s) (fb_head s) (fb_count s) @ [?p]"
    using assms(1,4) ring_list_push [of "fb_count s" "fb_pending s" "fb_head s" ?p]
    by (simp add: fb_inv_def fb_ring_def)
  obtain s' where s': "frame_batched_write s words = (Inr (), s')"
    "s' = s\<lparr> fb_pending := (fb_pending s)[fb_tail s := ?p],
             fb_tail := (fb_tail s + 1) mod length (fb_pending s),
             fb_count := fb_count s + 1, fb_enqueued := fb_enqueued s + 1,
             fb_max_pending := max (fb_max_pending s) (fb_count s + 1) \<rparr>"
    using assms c by (simp add: frame_batched_write_def fb_inv_def fb_ring_def)
  have "fb_ring s'"
    using assms(1,4) s'(2) by (auto simp: fb_ring_def mod_simps kFrameCommandQueueCapacity_def)
  moreover from this have "fb_inv s \<Longrightarrow> fb_inv s'" using s'(2) by (simp add: fb_inv_def)
  moreover have "fb_queue s' = fb_queue s @ [words]"
    using push c(2) s'(2) by (simp add: fb_queue_def)
  ultimately show ?thesis using that s' by simp
qed

definition fb_pop :: "'s frame_batched \<Rightarrow> (u32 list \<times> 's frame_batched) option" where
  "fb_pop s = (if fb_count s = 0 then None else Some (frame_batched_take s))"

lemma frame_batched_take_queue:
  assumes "fb_ring s" "fb_count s \<noteq> 0"
  obtains ws s' where "frame_batched_take s = (ws, s')" "fb_queue s = ws # fb_queue s'" "fb_ring s'"
    "fb_count s = Suc (fb_count s')" "fb_sink s' = fb_sink s" "fb_max_actions s' = fb_max_actions s"
    "fb_frame_index s' = fb_frame_index s" "fb_enqueued s' = fb_enqueued s"
    "fb_applied s' = fb_applied s"
proof -
  obtain n where n: "fb_count s = Suc n" using assms(2) by (cases "fb_count s") auto
  obtain ws s' where t: "frame_batched_take s = (ws, s')" by fastforce
  have "ring_list (fb_pending s) (fb_head s) (Suc n) =
      fb_pending s ! fb_head s #
      ring_list (fb_pending s) ((fb_head s + 1) mod length (fb_pending s)) n"
    using assms(1) by (intro ring_list_pop) (simp add: fb_ring_def)
  then have "fb_queue s = ws # fb_queue s'"
    using t n by (auto simp: frame_batched_take_def Let_def fb_queue_def)
  moreover have "fb_ring s'"
    using t n assms(1)
    by (auto simp: frame_batched_take_def Let_def fb_ring_def mod_simps
        kFrameCommandQueueCapacity_def)
  ultimately show ?thesis
    using t n by (intro that [OF t]) (auto simp: frame_batched_take_def Let_def)
qed

interpretation fbq: bounded_fifo fb_queue fb_ring
  "\<lambda>ws. ws \<noteq> [] \<and> length ws \<le> kMaxCommandWords" kFrameCommandQueueCapacity
  frame_batched_write fb_pop
proof
  fix s :: "'a frame_batched" and x :: "u32 list"
  assume a: "fb_ring s" "x \<noteq> [] \<and> length x \<le> kMaxCommandWords"
  show "\<exists>s'. frame_batched_write s x = (Inr (), s') \<and> fb_ring s' \<and> fb_queue s' = fb_queue s @ [x]"
    if "length (fb_queue s) < kFrameCommandQueueCapacity"
    using frame_batched_write_queues [of s x] a that by auto
  show "\<exists>e. frame_batched_write s x = (Inl e, s)"
    if "length (fb_queue s) = kFrameCommandQueueCapacity"
    using a that by (auto simp: frame_batched_write_def fb_ring_def)
next
  fix s :: "'a frame_batched" and x xs
  assume a: "fb_ring s" "fb_queue s = x # xs"
  then have "length (fb_queue s) = Suc (length xs)" by simp
  then have "fb_count s \<noteq> 0" by simp
  then show "\<exists>s'. fb_pop s = Some (x, s') \<and> fb_ring s' \<and> fb_queue s' = xs"
    using frame_batched_take_queue [OF a(1)] a(2) by (auto simp: fb_pop_def)
next
  fix s :: "'a frame_batched"
  show "fb_queue s = [] \<Longrightarrow> fb_pop s = None"
    by (metis fb_pop_def length_0_conv length_fb_queue)
  show "fb_ring s \<Longrightarrow> length (fb_queue s) \<le> kFrameCommandQueueCapacity"
    by (simp add: fb_ring_def)
qed

section \<open>Applying a frame\<close>

text \<open>The loop hands the oldest commands to the inner sink, as \<open>write_all\<close> does.\<close>

lemma apply_frame_loop_delivers:
  assumes "fb_inv s" "applied \<le> fb_max_actions s"
    "write_all write (fb_sink s) (take (fb_max_actions s - applied) (fb_queue s)) = (Inr (), t)"
  shows "\<exists>s'. apply_frame_loop write applied s =
             (Inr (applied + min (fb_max_actions s - applied) (fb_count s)), s') \<and>
           fb_inv s' \<and> fb_sink s' = t \<and> fb_max_actions s' = fb_max_actions s \<and>
           fb_frame_index s' = fb_frame_index s \<and>
           fb_queue s' = drop (fb_max_actions s - applied) (fb_queue s)"
  using assms
proof (induction "fb_count s" arbitrary: s applied)
  case 0
  then have "fb_queue s = []" by (metis length_0_conv length_fb_queue)
  then show ?case using 0 by (simp add: apply_frame_loop.simps)
next
  case (Suc n)
  show ?case
  proof (cases "applied < fb_max_actions s")
    case False
    then show ?thesis using Suc.prems by (simp add: apply_frame_loop.simps)
  next
    case True
    have ring: "fb_ring s" and nz: "fb_count s \<noteq> 0"
      using Suc.prems(1) Suc.hyps(2) by (simp_all add: fb_inv_def)
    obtain ws s1 where take1: "frame_batched_take s = (ws, s1)" "fb_queue s = ws # fb_queue s1"
      "fb_ring s1" "fb_count s = Suc (fb_count s1)" "fb_sink s1 = fb_sink s"
      "fb_max_actions s1 = fb_max_actions s" "fb_frame_index s1 = fb_frame_index s"
      "fb_enqueued s1 = fb_enqueued s" "fb_applied s1 = fb_applied s"
      using frame_batched_take_queue [OF ring nz] by metis
    obtain d where d: "fb_max_actions s - applied = Suc d" using True by (cases "fb_max_actions s - applied") auto
    obtain k where k: "write (fb_sink s) ws = (Inr (), k)"
      "write_all write k (take d (fb_queue s1)) = (Inr (), t)"
      using Suc.prems(3) d take1(2) by (auto split: prod.splits sum.splits)
    define s2 where "s2 = s1\<lparr> fb_sink := k, fb_applied := fb_applied s1 + 1 \<rparr>"
    have q2: "fb_queue s2 = fb_queue s1" by (simp add: s2_def fb_queue_def)
    have "fb_inv s2"
      using take1 Suc.prems(1) by (simp add: s2_def fb_inv_def fb_ring_def)
    moreover have "apply_frame_loop write applied s = apply_frame_loop write (applied + 1) s2"
      using True nz take1(1,5) k(1) by (subst apply_frame_loop.simps) (simp add: s2_def)
    moreover have "n = fb_count s2" "fb_count s2 = fb_count s1" "fb_sink s2 = k" "fb_max_actions s2 - (applied + 1) = d"
      "fb_max_actions s2 = fb_max_actions s" "fb_frame_index s2 = fb_frame_index s"
      using Suc.hyps(2) take1 d by (simp_all add: s2_def)
    ultimately show ?thesis
      using Suc.hyps(1) [of s2 "applied + 1"] k(2) True q2 take1(2,4) d by auto
  qed
qed

lemma apply_frame_delivers:
  assumes "fb_inv s"
    "write_all write (fb_sink s) (take (fb_max_actions s) (fb_queue s)) = (Inr (), t)"
  shows "\<exists>s'. apply_frame write s = (Inr (min (fb_max_actions s) (fb_count s)), s') \<and>
           fb_inv s' \<and> fb_sink s' = t \<and> fb_max_actions s' = fb_max_actions s \<and>
           fb_frame_index s' = fb_frame_index s + 1 \<and>
           fb_queue s' = drop (fb_max_actions s) (fb_queue s)"
proof -
  obtain s' where s': "apply_frame_loop write 0 s = (Inr (min (fb_max_actions s) (fb_count s)), s')"
    "fb_inv s'" "fb_sink s' = t" "fb_max_actions s' = fb_max_actions s"
    "fb_frame_index s' = fb_frame_index s" "fb_queue s' = drop (fb_max_actions s) (fb_queue s)"
    using apply_frame_loop_delivers [of s 0 "write" t] assms by auto
  then show ?thesis
    by (auto simp: apply_frame_def fb_inv_def fb_ring_def fb_queue_def)
qed

section \<open>Schedules of writes and frames\<close>

text \<open>One frame of a session: the commands written during it, then \<open>apply_frame\<close>.\<close>

fun run_frames ::
    "'s sink \<Rightarrow> 's frame_batched \<Rightarrow> u32 list list list \<Rightarrow> ('s frame_batched, unit) outcome" where
  "run_frames write s [] = (Inr (), s)"
| "run_frames write s (batch # rest) =
     (case put_all frame_batched_write s batch of
        (Inl e, s1) \<Rightarrow> (Inl e, s1)
      | (Inr _, s1) \<Rightarrow>
          (case apply_frame write s1 of
             (Inl e, s2) \<Rightarrow> (Inl e, s2)
           | (Inr _, s2) \<Rightarrow> run_frames write s2 rest))"

definition batch_ok :: "u32 list list \<Rightarrow> bool" where
  "batch_ok batch \<longleftrightarrow> list_all (\<lambda>ws. ws \<noteq> [] \<and> length ws \<le> kMaxCommandWords) batch"

lemma put_all_batch:
  "fb_inv s \<Longrightarrow> batch_ok batch \<Longrightarrow> fb_count s + length batch \<le> kFrameCommandQueueCapacity \<Longrightarrow>
     \<exists>s'. put_all frame_batched_write s batch = (Inr (), s') \<and> fb_inv s' \<and>
       fb_queue s' = fb_queue s @ batch \<and> fb_sink s' = fb_sink s \<and>
       fb_max_actions s' = fb_max_actions s"
proof (induction batch arbitrary: s)
  case Nil
  then show ?case by simp
next
  case (Cons ws batch)
  obtain s1 where s1: "frame_batched_write s ws = (Inr (), s1)" "fb_inv s1"
    "fb_queue s1 = fb_queue s @ [ws]" "fb_sink s1 = fb_sink s" "fb_max_actions s1 = fb_max_actions s"
    using frame_batched_write_queues [of s ws] Cons.prems by (auto simp: fb_inv_def batch_ok_def)
  have "length (fb_queue s1) = Suc (fb_count s)" using s1(3) by simp
  then have "fb_count s1 = Suc (fb_count s)" by simp
  then show ?case using Cons.IH [of s1] Cons.prems s1 by (auto simp: batch_ok_def)
qed

text \<open>A full queue refuses the command: the writes of a batch that succeed as a whole fitted.\<close>

lemma frame_batched_write_full:
  assumes "fb_ring s" "fb_count s = kFrameCommandQueueCapacity" "ws \<noteq> []"
  shows "\<exists>e. frame_batched_write s ws = (Inl (LengthError e), s)"
  using assms by (auto simp: frame_batched_write_def fb_ring_def)

lemma put_all_batch_fits:
  "fb_inv s \<Longrightarrow> batch_ok batch \<Longrightarrow> put_all frame_batched_write s batch = (Inr (), s') \<Longrightarrow>
     fb_count s + length batch \<le> kFrameCommandQueueCapacity"
proof (induction batch arbitrary: s)
  case Nil
  then show ?case by (simp add: fb_inv_def fb_ring_def)
next
  case (Cons ws batch)
  have "fb_count s \<noteq> kFrameCommandQueueCapacity"
    using frame_batched_write_full [of s ws] Cons.prems by (auto simp: fb_inv_def batch_ok_def)
  then have "fb_count s < kFrameCommandQueueCapacity"
    using Cons.prems(1) by (simp add: fb_inv_def fb_ring_def)
  then obtain s1 where s1: "frame_batched_write s ws = (Inr (), s1)" "fb_inv s1"
    "fb_queue s1 = fb_queue s @ [ws]"
    using frame_batched_write_queues [of s ws] Cons.prems by (auto simp: fb_inv_def batch_ok_def)
  have "length (fb_queue s1) = Suc (fb_count s)" using s1(3) by simp
  then have "fb_count s1 = Suc (fb_count s)" by simp
  then show ?case using Cons.IH [of s1] Cons.prems s1 by (auto simp: batch_ok_def)
qed

lemma log_frame:
  assumes "fb_inv s"
  shows "\<exists>s'. apply_frame log_sink s = (Inr (min (fb_max_actions s) (fb_count s)), s') \<and>
     fb_inv s' \<and> fb_sink s' = fb_sink s @ take (fb_max_actions s) (fb_queue s) \<and>
     fb_max_actions s' = fb_max_actions s \<and> fb_queue s' = drop (fb_max_actions s) (fb_queue s)"
  using apply_frame_delivers [of s log_sink "fb_sink s @ take (fb_max_actions s) (fb_queue s)"]
    assms by auto

lemma run_frames_log:
  "fb_inv s \<Longrightarrow> list_all batch_ok batches \<Longrightarrow> run_frames log_sink s batches = (Inr (), s') \<Longrightarrow>
     fb_inv s' \<and> fb_sink s' @ fb_queue s' = fb_sink s @ fb_queue s @ concat batches \<and>
     length (fb_sink s') \<le> length (fb_sink s) + length batches * fb_max_actions s"
proof (induction batches arbitrary: s)
  case Nil
  then show ?case by simp
next
  case (Cons batch rest)
  obtain s1 where s1: "put_all frame_batched_write s batch = (Inr (), s1)"
    using Cons.prems(3) by (auto split: prod.splits sum.splits)
  then have "fb_count s + length batch \<le> kFrameCommandQueueCapacity"
    using put_all_batch_fits Cons.prems(1,2) by (metis list.pred_inject(2))
  then have p: "fb_inv s1" "fb_queue s1 = fb_queue s @ batch" "fb_sink s1 = fb_sink s"
    "fb_max_actions s1 = fb_max_actions s"
    using put_all_batch [of s batch] Cons.prems s1 by auto
  obtain s2 n where s2: "apply_frame log_sink s1 = (Inr n, s2)" "fb_inv s2"
    "fb_sink s2 = fb_sink s1 @ take (fb_max_actions s1) (fb_queue s1)"
    "fb_max_actions s2 = fb_max_actions s1" "fb_queue s2 = drop (fb_max_actions s1) (fb_queue s1)"
    using log_frame [OF p(1)] by blast
  have "run_frames log_sink s2 rest = (Inr (), s')" using Cons.prems(3) s1 s2(1) by simp
  moreover have "list_all batch_ok rest" using Cons.prems(2) by simp
  ultimately have "fb_inv s' \<and> fb_sink s' @ fb_queue s' = fb_sink s2 @ fb_queue s2 @ concat rest \<and>
     length (fb_sink s') \<le> length (fb_sink s2) + length rest * fb_max_actions s2"
    using Cons.IH s2(2) by blast
  moreover have "fb_sink s2 @ fb_queue s2 = fb_sink s @ fb_queue s @ batch"
    unfolding s2(3,5) append_assoc append_take_drop_id p(2,3) ..
  moreover have "length (fb_sink s2) \<le> length (fb_sink s) + fb_max_actions s"
    unfolding s2(3) p(3,4) by simp
  ultimately show ?case using s2(4) p(4)
    by (simp del: append_assoc add: append_assoc [symmetric])
qed

text \<open>When no frame brings more commands than a frame applies, no backlog builds up.\<close>

lemma run_frames_keeps_up:
  "fb_inv s \<Longrightarrow> fb_queue s = [] \<Longrightarrow> list_all batch_ok batches \<Longrightarrow>
     list_all (\<lambda>b. length b \<le> fb_max_actions s \<and> length b \<le> kFrameCommandQueueCapacity) batches \<Longrightarrow>
     \<exists>s'. run_frames log_sink s batches = (Inr (), s') \<and> fb_queue s' = [] \<and>
       fb_sink s' = fb_sink s @ concat batches"
proof (induction batches arbitrary: s)
  case Nil
  then show ?case by simp
next
  case (Cons batch rest)
  have "fb_count s = 0" using Cons.prems(2) by (metis length_fb_queue list.size(3))
  then obtain s1 where p: "put_all frame_batched_write s batch = (Inr (), s1)" "fb_inv s1"
    "fb_queue s1 = batch" "fb_sink s1 = fb_sink s" "fb_max_actions s1 = fb_max_actions s"
    using put_all_batch [of s batch] Cons.prems by auto
  obtain s2 n where s2: "apply_frame log_sink s1 = (Inr n, s2)" "fb_inv s2"
    "fb_sink s2 = fb_sink s1 @ take (fb_max_actions s1) (fb_queue s1)"
    "fb_max_actions s2 = fb_max_actions s1" "fb_queue s2 = drop (fb_max_actions s1) (fb_queue s1)"
    using log_frame [OF p(2)] by blast
  have "fb_queue s2 = []" "fb_sink s2 = fb_sink s @ batch" "fb_max_actions s2 = fb_max_actions s"
    using s2 p Cons.prems(4) by simp_all
  then obtain s' where "run_frames log_sink s2 rest = (Inr (), s')" "fb_queue s' = []"
    "fb_sink s' = (fb_sink s @ batch) @ concat rest"
    using Cons.IH [OF s2(2)] Cons.prems(3,4) by auto
  then show ?case using p(1) s2(1) by simp
qed

section \<open>Properties\<close>


lemma example_frames:
  "frame_batched_new [] 1 = Inr s \<Longrightarrow>
     \<exists>s'. run_frames log_sink s [[[0x15000001, 1]], [[0x15004001, 2]]] = (Inr (), s') \<and>
       fb_queue s' = [] \<and> fb_sink s' = [[0x15000001, 1], [0x15004001, 2]]"
  using run_frames_keeps_up [of s "[[[0x15000001, 1]], [[0x15004001, 2]]]"]
    frame_batched_new_inv [of "[]" 1 s]
  by (simp add: batch_ok_def kMaxCommandWords_def kFrameCommandQueueCapacity_def)


text \<open>If no frame brings more commands than one frame may apply, no write is ever refused,
  every command reaches the inner sink within the frame it was written in, and the queue is
  empty after every frame.\<close>

theorem frame_batched_keeps_up:
  assumes "frame_batched_new [] n = Inr s" and "list_all batch_ok batches"
    and "list_all (\<lambda>b. length b \<le> n \<and> length b \<le> kFrameCommandQueueCapacity) batches"
  shows "\<exists>s'. run_frames log_sink s batches = (Inr (), s') \<and> fb_queue s' = [] \<and>
    fb_sink s' = concat batches"
  using run_frames_keeps_up [of s batches] frame_batched_new_inv [OF assms(1)] assms(2,3) by simp

theorem frame_batched_keeps_up_witness:
  "\<exists>s s'. frame_batched_new [] 1 = Inr s \<and>
     run_frames log_sink s [[[0x15000001, 1]], [[0x15004001, 2]]] = (Inr (), s') \<and>
     fb_queue s' = [] \<and> fb_sink s' = [[0x15000001, 1], [0x15004001, 2]]"
proof -
  obtain s :: "u32 list list frame_batched" where s: "frame_batched_new [] 1 = Inr s"
    by (simp add: frame_batched_new_def)
  then show ?thesis
    using frame_batched_keeps_up [OF s, of "[[[0x15000001, 1]], [[0x15004001, 2]]]"]
    by (auto simp: batch_ok_def kMaxCommandWords_def kFrameCommandQueueCapacity_def)
qed

end
