(* ===== verification/Ch347_Transport.thy ===== *)
theory Ch347_Transport
  imports Command_Control
begin

text \<open>
  The SPI transport of \<open>src/host/ch347_transport.{h,cpp}\<close>: the choice of the SPI clock, the
  validation of a command transaction, its CRC-16 and its byte framing. The vendor library
  (\<open>third_party/ch347_linux\<close>) and the dynamic loader are parameters.

  The lemmas show that the table-driven CRC is the bitwise one, that it notices every corrupted
  byte, that validation accepts exactly the concatenations of complete commands that fit, and
  that the framing can be decoded again.
\<close>

section \<open>Clock selection\<close>

record clock_choice =
  clk_hz :: int
  clk_code :: u8

definition kClockChoices :: "clock_choice list" where
  "kClockChoices =
     [\<lparr> clk_hz = 60000000, clk_code = 0 \<rparr>, \<lparr> clk_hz = 30000000, clk_code = 1 \<rparr>,
      \<lparr> clk_hz = 15000000, clk_code = 2 \<rparr>, \<lparr> clk_hz = 7500000, clk_code = 3 \<rparr>,
      \<lparr> clk_hz = 3750000, clk_code = 4 \<rparr>, \<lparr> clk_hz = 1875000, clk_code = 5 \<rparr>,
      \<lparr> clk_hz = 937500, clk_code = 6 \<rparr>, \<lparr> clk_hz = 468750, clk_code = 7 \<rparr>]"

definition kMaxCommandPayloadWords :: nat where
  "kMaxCommandPayloadWords = 16"

definition kMaxCommandTransactionWords :: nat where
  "kMaxCommandTransactionWords = 63"

definition clock_choice_for_hz :: "int \<Rightarrow> error + clock_choice" where
  "clock_choice_for_hz requested_hz =
     (if requested_hz \<le> 0 then Inl (RuntimeError ''CH347 SPI clock must be positive'')
      else case find (\<lambda>choice. requested_hz \<ge> clk_hz choice) kClockChoices of
        Some choice \<Rightarrow> Inr choice
      | None \<Rightarrow> Inl (RuntimeError ''CH347 SPI clock request is below the 468750 Hz minimum''))"

definition selected_clock_hz :: "int \<Rightarrow> error + int" where
  "selected_clock_hz requested_hz = map_sum id clk_hz (clock_choice_for_hz requested_hz)"

section \<open>Transactions\<close>

text \<open>The loop of \<open>validate_command_transaction\<close> at a word offset.\<close>

function validate_loop :: "u32 list \<Rightarrow> nat \<Rightarrow> error + unit" where
  "validate_loop words offset =
     (if offset < length words then
        (let payload_words = word_payload (words ! offset) in
         if payload_words > kMaxCommandPayloadWords
         then Inl (InvalidArgument ''CH347 command header exceeds the current 16-word payload limit'')
         else
           (let command_words = payload_words + 1 in
            if command_words > length words - offset
            then Inl (InvalidArgument ''CH347 command transaction ends with an incomplete command'')
            else validate_loop words (offset + command_words)))
      else Inr ())"
  by pat_completeness auto
termination
  by (relation "measure (\<lambda>(words, offset). length words - offset)") auto

declare validate_loop.simps [simp del]

definition validate_command_transaction :: "u32 list \<Rightarrow> error + unit" where
  "validate_command_transaction words =
     (if words = [] then Inl (InvalidArgument ''CH347 command transaction must not be empty'')
      else if length words > kMaxCommandTransactionWords
      then Inl (InvalidArgument ''CH347 command transaction exceeds the 63-word transfer limit'')
      else validate_loop words 0)"

text \<open>One bit of the CRC with polynomial \<open>0x1021\<close>, and a byte's worth of them.\<close>

definition crc_bit :: "u16 \<Rightarrow> u16" where
  "crc_bit crc =
     (if crc AND 0x8000 \<noteq> 0 then push_bit 1 crc XOR 0x1021 else push_bit 1 crc)"

definition crc_bits8 :: "u16 \<Rightarrow> u16" where
  "crc_bits8 crc = (crc_bit ^^ 8) crc"

definition crc_table :: "u16 list" where
  "crc_table = map (\<lambda>i. crc_bits8 (push_bit 8 (of_nat i))) [0..<256]"

definition crc_update :: "u16 \<Rightarrow> u8 \<Rightarrow> u16" where
  "crc_update crc byte =
     push_bit 8 crc XOR crc_table ! unat (ucast (drop_bit 8 crc) XOR byte :: u8)"

definition crc_update_oracle :: "u16 \<Rightarrow> u8 \<Rightarrow> u16" where
  "crc_update_oracle crc byte = crc_bits8 (crc XOR push_bit 8 (ucast byte))"

text \<open>The bytes of a word as both the CRC and the framing visit them.\<close>

definition word_bytes :: "u32 \<Rightarrow> u8 list" where
  "word_bytes w = [ucast (drop_bit 24 w), ucast (drop_bit 16 w), ucast (drop_bit 8 w), ucast w]"

definition crc_over :: "(u16 \<Rightarrow> u8 \<Rightarrow> u16) \<Rightarrow> u32 list \<Rightarrow> u16" where
  "crc_over update words =
     foldl (\<lambda>crc w. foldl update crc (word_bytes w))
       (update 0xffff (of_nat (length words))) words"

definition command_transaction_crc16 :: "u32 list \<Rightarrow> error + u16" where
  "command_transaction_crc16 words =
     (case validate_command_transaction words of
        Inl e \<Rightarrow> Inl e | Inr _ \<Rightarrow> Inr (crc_over crc_update words))"

definition command_transaction_crc16_oracle :: "u32 list \<Rightarrow> error + u16" where
  "command_transaction_crc16_oracle words =
     (case validate_command_transaction words of
        Inl e \<Rightarrow> Inl e | Inr _ \<Rightarrow> Inr (crc_over crc_update_oracle words))"

record command_transaction =
  tx_bytes :: "u8 list"
  tx_length :: nat

definition tx_push :: "command_transaction \<Rightarrow> u8 \<Rightarrow> command_transaction" where
  "tx_push t byte =
     t\<lparr> tx_bytes := (tx_bytes t)[tx_length t := byte], tx_length := tx_length t + 1 \<rparr>"

definition encode_command_transaction :: "u32 list \<Rightarrow> error + command_transaction" where
  "encode_command_transaction words =
     (case command_transaction_crc16 words of
        Inl e \<Rightarrow> Inl e
      | Inr crc \<Rightarrow>
          (let t0 = \<lparr> tx_bytes = replicate 256 0, tx_length = 0 \<rparr>;
               t1 = tx_push (tx_push (tx_push (tx_push t0 0xa5) (of_nat (length words)))
                      (ucast (drop_bit 8 crc))) (ucast crc)
           in Inr (foldl (\<lambda>t w. foldl tx_push t (word_bytes w)) t1 words)))"

section \<open>Device access\<close>

record ch347_options =
  opt_library_path :: string
  opt_device_path :: string
  opt_chip_select_mask :: u8
  opt_spi_mode :: int
  opt_clock_hz :: int

record spi_config =
  spi_iMode :: u8
  spi_iClock :: u8
  spi_iByteOrder :: u8
  spi_iSpiWriteReadInterval :: u16
  spi_iSpiOutDefaultData :: u8
  spi_iChipSelect :: u32
  spi_CS1Polarity :: u8
  spi_CS2Polarity :: u8
  spi_iIsAutoDeativeCS :: u16
  spi_iActiveDelay :: u16
  spi_iDelayDeactive :: u32

text \<open>
  The entry points of the vendor library, each missing when the loader cannot resolve it. The
  write entry point threads the state \<open>'d\<close> of the device behind it.
\<close>

type_synonym 'd spi_write_fn = "'d \<Rightarrow> int \<Rightarrow> bool \<Rightarrow> u8 \<Rightarrow> nat \<Rightarrow> nat \<Rightarrow> u8 list \<Rightarrow> bool \<times> 'd"

record 'd ch347_api =
  api_open :: "(string \<Rightarrow> int) option"
  api_close :: "(int \<Rightarrow> bool) option"
  api_spi_init :: "(int \<Rightarrow> spi_config \<Rightarrow> bool) option"
  api_set_frequency :: "(int \<Rightarrow> u32 \<Rightarrow> bool) option"
  api_write :: "'d spi_write_fn option"

record 'd ch347_transport =
  tr_options :: ch347_options
  tr_configured_clock_hz :: int
  tr_library :: bool
  tr_fd :: int
  tr_opened :: bool
  tr_device :: 'd
  tr_write :: "'d spi_write_fn"

definition ch347_connect ::
    "(string \<Rightarrow> 'd ch347_api option) \<Rightarrow> 'd \<Rightarrow> ch347_options \<Rightarrow> error + 'd ch347_transport" where
  "ch347_connect dlopen device options =
     (if opt_spi_mode options \<noteq> 0
      then Inl (RuntimeError ''Smart Artix SPI bridge requires mode 0'')
      else case clock_choice_for_hz (opt_clock_hz options) of
        Inl e \<Rightarrow> Inl e
      | Inr clock \<Rightarrow>
          (case dlopen (opt_library_path options) of
             None \<Rightarrow> Inl (RuntimeError ''failed to load'')
           | Some api \<Rightarrow>
               (case (api_open api, api_close api, api_spi_init api, api_write api) of
                  (Some open_device, Some close_device, Some spi_init, Some spi_write) \<Rightarrow>
                    (let fd = open_device (opt_device_path options) in
                     if fd < 0 then Inl (RuntimeError ''CH347OpenDevice failed'')
                     else if \<not> spi_init fd
                           \<lparr> spi_iMode = 0, spi_iClock = clk_code clock, spi_iByteOrder = 1,
                             spi_iSpiWriteReadInterval = 0, spi_iSpiOutDefaultData = 0,
                             spi_iChipSelect = ucast (opt_chip_select_mask options),
                             spi_CS1Polarity = 0, spi_CS2Polarity = 0,
                             spi_iIsAutoDeativeCS = 1, spi_iActiveDelay = 0,
                             spi_iDelayDeactive = 0 \<rparr>
                     then Inl (RuntimeError ''CH347SPI_Init failed'')
                     else if (case api_set_frequency api of
                                None \<Rightarrow> False
                              | Some set_frequency \<Rightarrow> \<not> set_frequency fd (of_int (clk_hz clock)))
                     then Inl (RuntimeError ''CH347SPI_SetFrequency failed'')
                     else Inr \<lparr> tr_options = options, tr_configured_clock_hz = clk_hz clock,
                                tr_library = True, tr_fd = fd, tr_opened = True,
                                tr_device = device, tr_write = spi_write \<rparr>)
                | _ \<Rightarrow> Inl (RuntimeError ''failed to resolve''))))"

text \<open>\<open>close\<close>: the descriptor handed to the vendor's close call, if any, and whether the library
  is unloaded; a second call does neither.\<close>

definition ch347_close ::
    "'d ch347_transport \<Rightarrow> int option \<times> bool \<times> 'd ch347_transport" where
  "ch347_close t =
     (if tr_opened t then Some (tr_fd t) else None, tr_library t,
      t\<lparr> tr_opened := False, tr_library := False \<rparr>)"

text \<open>\<open>write_command_words\<close>: the bytes of a valid transaction go out in one vendor call.\<close>

definition ch347_write :: "'d ch347_transport sink" where
  "ch347_write t words =
     (case encode_command_transaction words of
        Inl e \<Rightarrow> (Inl e, t)
      | Inr tx \<Rightarrow>
          (case tr_write t (tr_device t) (tr_fd t) False (opt_chip_select_mask (tr_options t))
                  (tx_length tx) (tx_length tx) (tx_bytes tx) of
             (ok, d) \<Rightarrow>
               (if ok then Inr () else Inl (RuntimeError ''CH347SPI_Write failed''),
                t\<lparr> tr_device := d \<rparr>)))"

section \<open>Validation accepts exactly the complete commands that fit\<close>

text \<open>A command that the transport lets through: complete, with at most 16 payload words.\<close>

definition complete_command :: "u32 list \<Rightarrow> bool" where
  "complete_command c \<longleftrightarrow>
     c \<noteq> [] \<and> length c = word_payload (hd c) + 1 \<and> word_payload (hd c) \<le> kMaxCommandPayloadWords"

lemma validate_loop_complete:
  "list_all complete_command cs \<Longrightarrow> validate_loop (pre @ concat cs) (length pre) = Inr ()"
proof (induction cs arbitrary: pre)
  case Nil
  then show ?case by (simp add: validate_loop.simps)
next
  case (Cons c cs)
  then have c: "c \<noteq> []" "length c = word_payload (hd c) + 1"
    "word_payload (hd c) \<le> kMaxCommandPayloadWords" by (simp_all add: complete_command_def)
  have "(pre @ c @ concat cs) ! length pre = hd c" using c(1) by (simp add: nth_append hd_conv_nth)
  moreover have "validate_loop ((pre @ c) @ concat cs) (length (pre @ c)) = Inr ()"
    using Cons.IH [of "pre @ c"] Cons.prems by simp
  ultimately show ?case
    using c by (subst validate_loop.simps) (simp add: Let_def)
qed

lemma validate_loop_splits:
  "validate_loop words offset = Inr () \<Longrightarrow>
     \<exists>cs. list_all complete_command cs \<and> drop offset words = concat cs"
proof (induction words offset rule: validate_loop.induct)
  case (1 words offset)
  show ?case
  proof (cases "offset < length words")
    case False
    then show ?thesis by (intro exI [of _ "[]"]) simp
  next
    case True
    let ?p = "word_payload (words ! offset)"
    have p: "?p \<le> kMaxCommandPayloadWords" "?p + 1 \<le> length words - offset"
      "validate_loop words (offset + (?p + 1)) = Inr ()"
      using "1.prems" True by (simp_all add: validate_loop.simps [of words offset] Let_def split: if_splits)
    then obtain cs where cs: "list_all complete_command cs" "drop (offset + (?p + 1)) words = concat cs"
      using "1.IH" True by auto
    define c where "c = take (?p + 1) (drop offset words)"
    have "hd c = words ! offset" using True by (simp add: c_def hd_drop_conv_nth)
    moreover have "length c = ?p + 1" using p(2) by (simp add: c_def)
    ultimately have "complete_command c" using p(1) by (auto simp: complete_command_def)
    moreover have "drop offset words = c @ concat cs"
      unfolding cs(2) [symmetric] c_def by (metis append_take_drop_id drop_drop add.commute)
    ultimately show ?thesis using cs(1) by (intro exI [of _ "c # cs"]) simp
  qed
qed

lemma validate_iff:
  "validate_command_transaction words = Inr () \<longleftrightarrow>
     words \<noteq> [] \<and> length words \<le> kMaxCommandTransactionWords \<and>
     (\<exists>cs. list_all complete_command cs \<and> words = concat cs)"
  using validate_loop_splits [of words 0] validate_loop_complete [where pre = "[]"]
  by (auto simp: validate_command_transaction_def)

section \<open>The CRC\<close>

lemma word_xor_cancel:
  "(a :: 'a::len word) XOR c = b XOR c \<Longrightarrow> a = b" "c XOR a = c XOR (b :: 'a word) \<Longrightarrow> a = b"
  by (rule bit_word_eqI, metis bit_xor_iff)+

lemma crc_bit_eq: "crc_bit c = push_bit 1 c XOR (if bit c 15 then 0x1021 else 0)"
proof -
  have e: "(0x8000 :: u16) = 2 ^ 15" by simp
  have "c AND 0x8000 \<noteq> 0 \<longleftrightarrow> bit c 15"
    by (simp only: e and_exp_eq_0_iff_not_bit) simp
  then show ?thesis by (simp add: crc_bit_def)
qed

lemma crc_bit_xor: "crc_bit (a XOR b) = crc_bit a XOR crc_bit b"
  by (simp add: crc_bit_eq push_bit_xor bit_xor_iff xor.assoc xor.left_commute)

lemma crc_bit_pow_xor: "(crc_bit ^^ n) (a XOR b) = (crc_bit ^^ n) a XOR (crc_bit ^^ n) b"
  by (induction n) (simp_all add: crc_bit_xor)

text \<open>Eight steps on a value whose high byte is clear just shift it up.\<close>

lemma crc_bit_pow_low:
  assumes "n \<le> 8"
  shows "(crc_bit ^^ n) (ucast (b :: u8)) = push_bit n (ucast b)"
  using assms
proof (induction n)
  case (Suc n)
  then have "\<not> bit (push_bit n (ucast b) :: u16) 15"
    by (simp add: bit_simps bit_beyond)
  then show ?case using Suc by (simp add: crc_bit_eq push_bit_eq_mult mult.assoc mult.commute)
qed simp

lemma crc_split: "(crc :: u16) = push_bit 8 (ucast (ucast (drop_bit 8 crc) :: u8)) XOR ucast (ucast crc :: u8)"
  by (rule bit_word_eqI) (auto simp: bit_simps bit_beyond)

lemma push_ucast_crc: "push_bit 8 (ucast (ucast (crc :: u16) :: u8)) = push_bit 8 crc"
  by (rule bit_word_eqI) (auto simp: bit_simps bit_beyond)

text \<open>The table step is the bitwise step.\<close>

lemma crc_update_eq: "crc_update crc byte = crc_update_oracle crc byte"
proof -
  define hi :: u8 where "hi = ucast (drop_bit 8 crc)"
  define lo :: u8 where "lo = ucast crc"
  have crc: "crc = push_bit 8 (ucast hi) XOR ucast lo"
    unfolding hi_def lo_def by (rule crc_split)
  have "crc XOR push_bit 8 (ucast byte) = push_bit 8 (ucast (hi XOR byte)) XOR ucast lo"
    by (subst crc) (simp add: push_bit_xor xor.assoc xor.left_commute xor.commute
        unsigned_xor_eq)
  then have "crc_update_oracle crc byte =
      crc_bits8 (push_bit 8 (ucast (hi XOR byte))) XOR push_bit 8 (ucast lo)"
    unfolding crc_update_oracle_def crc_bits8_def
    by (simp only: crc_bit_pow_xor crc_bit_pow_low [of 8 lo, simplified])
  moreover have "push_bit 8 (ucast lo) = push_bit 8 crc"
    unfolding lo_def by (rule push_ucast_crc)
  moreover have "crc_table ! unat (hi XOR byte) = crc_bits8 (push_bit 8 (ucast (hi XOR byte)))"
    using unat_bounds(1) [of "hi XOR byte"] by (simp add: crc_table_def)
  ultimately show ?thesis
    by (simp add: crc_update_def hi_def [symmetric] xor.commute)
qed

lemma crc_update_fun_eq: "crc_update = crc_update_oracle"
  by (intro ext) (rule crc_update_eq)

text \<open>No step loses information: a bit step is injective, so is a byte step in both arguments.\<close>

lemma crc_bit_zero: "crc_bit z = 0 \<Longrightarrow> z = 0"
proof -
  assume z: "crc_bit z = 0"
  have "bit (crc_bit z) 0 = bit z 15"
    unfolding crc_bit_eq bit_xor_iff bit_push_bit_iff by (simp add: bit_0)
  with z have b: "\<not> bit z 15" by simp
  then have z1: "push_bit 1 z = 0" using z by (simp add: crc_bit_eq)
  have low: "\<not> bit z n" if "n < 15" for n
  proof -
    have "bit (push_bit 1 z) (Suc n) = bit z n"
      unfolding bit_push_bit_iff using that by simp
    then show ?thesis unfolding z1 by simp
  qed
  show "z = 0"
  proof (rule bit_word_eqI)
    fix n assume "n < LENGTH(16)"
    then have "n < 15 \<or> n = 15" by auto
    then show "bit z n = bit (0 :: u16) n" using b low by auto
  qed
qed

lemma crc_bit_inj: "crc_bit a = crc_bit b \<Longrightarrow> a = b"
proof -
  assume "crc_bit a = crc_bit b"
  then have "crc_bit (a XOR b) = 0" by (simp add: crc_bit_xor)
  then have "a XOR b = b XOR b" by (simp add: crc_bit_zero)
  then show "a = b" by (rule word_xor_cancel)
qed

lemma crc_bits8_inj: "crc_bits8 a = crc_bits8 b \<Longrightarrow> a = b"
proof -
  have "(crc_bit ^^ n) a = (crc_bit ^^ n) b \<Longrightarrow> a = b" for n a b
    by (induction n) (auto dest: crc_bit_inj)
  then show "crc_bits8 a = crc_bits8 b \<Longrightarrow> a = b" unfolding crc_bits8_def by blast
qed

lemma crc_step_inj:
  "crc_update_oracle a x = crc_update_oracle b x \<Longrightarrow> a = b"
  "crc_update_oracle a x = crc_update_oracle a y \<Longrightarrow> x = y"
proof -
  assume "crc_update_oracle a x = crc_update_oracle b x"
  then have "a XOR push_bit 8 (ucast x) = b XOR push_bit 8 (ucast x)"
    unfolding crc_update_oracle_def by (rule crc_bits8_inj)
  then show "a = b" by (rule word_xor_cancel)
next
  assume "crc_update_oracle a x = crc_update_oracle a y"
  then have "a XOR push_bit 8 (ucast x) = a XOR push_bit 8 (ucast y)"
    unfolding crc_update_oracle_def by (rule crc_bits8_inj)
  then have "push_bit 8 (ucast x) = (push_bit 8 (ucast y) :: u16)"
    by (rule word_xor_cancel)
  then have shifted: "bit (push_bit 8 (ucast x) :: u16) (n + 8) = bit (push_bit 8 (ucast y) :: u16) (n + 8)"
    for n by simp
  have "bit x n = bit y n" if "n < 8" for n
    using that shifted [of n] by (simp add: bit_simps)
  then show "x = y" by (intro bit_word_eqI) simp
qed

lemma crc_foldl_inj:
  "foldl crc_update_oracle a bs = foldl crc_update_oracle b bs \<Longrightarrow> a = b"
  by (induction bs arbitrary: a b) (auto dest: crc_step_inj(1))

lemma crc_foldl_one_byte:
  assumes "x \<noteq> y"
  shows "foldl crc_update_oracle c (as @ x # bs) \<noteq> foldl crc_update_oracle c (as @ y # bs)"
proof
  assume "foldl crc_update_oracle c (as @ x # bs) = foldl crc_update_oracle c (as @ y # bs)"
  then have "crc_update_oracle (foldl crc_update_oracle c as) x =
      crc_update_oracle (foldl crc_update_oracle c as) y"
    by (simp add: crc_foldl_inj)
  then show False using assms crc_step_inj(2) by blast
qed

lemma foldl_concat: "foldl (\<lambda>c w. foldl f c (g w)) c ws = foldl f c (concat (map g ws))"
  by (induction ws arbitrary: c) simp_all

lemma crc_over_bytes:
  "crc_over update words =
     foldl update (update 0xffff (of_nat (length words))) (concat (map word_bytes words))"
  unfolding crc_over_def by (rule foldl_concat)

section \<open>Framing\<close>

definition bytes_word :: "u8 list \<Rightarrow> u32" where
  "bytes_word bs =
     push_bit 24 (ucast (bs ! 0)) OR push_bit 16 (ucast (bs ! 1)) OR
     push_bit 8 (ucast (bs ! 2)) OR ucast (bs ! 3)"

text \<open>The receiving side: check the magic byte, the length and the checksum, then reassemble.\<close>

fun bytes_words :: "u8 list \<Rightarrow> u32 list" where
  "bytes_words (a # b # c # d # rest) = bytes_word [a, b, c, d] # bytes_words rest"
| "bytes_words _ = []"

definition decode_transaction :: "u8 list \<Rightarrow> u32 list option" where
  "decode_transaction bs =
     (if length bs < 4 \<or> bs ! 0 \<noteq> 0xa5 \<or> length bs \<noteq> 4 + 4 * unat (bs ! 1) then None
      else
        (let words = bytes_words (drop 4 bs);
             crc = crc_over crc_update_oracle words
         in if bs ! 2 = ucast (drop_bit 8 crc) \<and> bs ! 3 = ucast crc then Some words else None))"

lemma bytes_word_bytes [simp]: "bytes_word (word_bytes w) = w"
proof (rule bit_word_eqI)
  fix n assume "n < LENGTH(32)"
  consider "n < 8" | "8 \<le> n" "n < 16" | "16 \<le> n" "n < 24" | "24 \<le> n" by linarith
  then show "bit (bytes_word (word_bytes w)) n = bit w n"
    using \<open>n < LENGTH(32)\<close>
    by cases (auto simp: bytes_word_def word_bytes_def bit_simps bit_beyond)
qed

lemma bytes_words_concat: "bytes_words (concat (map word_bytes ws)) = ws"
proof (induction ws)
  case (Cons w ws)
  have "bytes_words (word_bytes w @ rest) = bytes_word (word_bytes w) # bytes_words rest" for rest
    by (simp add: word_bytes_def)
  then show ?case using Cons by simp
qed simp

lemma length_word_bytes [simp]: "length (word_bytes w) = 4"
  by (simp add: word_bytes_def)

lemma length_concat_word_bytes: "length (concat (map word_bytes ws)) = 4 * length ws"
  by (induction ws) simp_all

lemma tx_push_all:
  "length (tx_bytes t) = 256 \<Longrightarrow> tx_length t + length bs \<le> 256 \<Longrightarrow>
     length (tx_bytes (foldl tx_push t bs)) = 256 \<and>
     tx_length (foldl tx_push t bs) = tx_length t + length bs \<and>
     take (tx_length (foldl tx_push t bs)) (tx_bytes (foldl tx_push t bs)) =
       take (tx_length t) (tx_bytes t) @ bs"
proof (induction bs arbitrary: t)
  case (Cons b bs)
  have "take (Suc (tx_length t)) ((tx_bytes t)[tx_length t := b]) = take (tx_length t) (tx_bytes t) @ [b]"
    using Cons.prems by (simp add: take_Suc_conv_app_nth)
  then have "tx_length (tx_push t b) = Suc (tx_length t)" "length (tx_bytes (tx_push t b)) = 256"
    "take (Suc (tx_length t)) (tx_bytes (tx_push t b)) = take (tx_length t) (tx_bytes t) @ [b]"
    using Cons.prems by (simp_all add: tx_push_def)
  then show ?case using Cons.IH [of "tx_push t b"] Cons.prems by auto
qed simp

lemma encode_bytes:
  assumes "validate_command_transaction words = Inr ()"
  defines "crc \<equiv> crc_over crc_update words"
  shows "\<exists>tx. encode_command_transaction words = Inr tx \<and> tx_length tx = 4 + 4 * length words \<and>
    tx_length tx \<le> 256 \<and> length (tx_bytes tx) = 256 \<and>
    take (tx_length tx) (tx_bytes tx) =
      [0xa5, of_nat (length words), ucast (drop_bit 8 crc), ucast crc] @ concat (map word_bytes words)"
proof -
  let ?t0 = "\<lparr> tx_bytes = replicate 256 0, tx_length = 0 \<rparr>"
  let ?bs = "[0xa5, of_nat (length words), ucast (drop_bit 8 crc), ucast crc] @ concat (map word_bytes words)"
  have n: "length words \<le> 63"
    using assms(1) by (simp add: validate_iff kMaxCommandTransactionWords_def)
  have enc: "encode_command_transaction words = Inr (foldl tx_push ?t0 ?bs)"
    using assms(1) unfolding encode_command_transaction_def command_transaction_crc16_def crc_def
      foldl_concat [of tx_push word_bytes] by (simp add: Let_def)
  have len: "length ?bs = 4 + 4 * length words"
    by (simp only: length_append length_concat_word_bytes) simp
  then have "tx_length ?t0 + length ?bs \<le> 256" using n by simp
  moreover have "length (tx_bytes ?t0) = 256" by simp
  ultimately show ?thesis using tx_push_all [of ?t0 ?bs] enc len n by auto
qed

lemma decode_encoded:
  assumes "length words \<le> 63"
  defines "crc \<equiv> crc_over crc_update words"
  shows "decode_transaction ([0xa5, of_nat (length words), ucast (drop_bit 8 crc), ucast crc] @
    concat (map word_bytes words)) = Some words"
proof -
  have "unat (of_nat (length words) :: u8) = length words"
    using assms(1) by (simp add: unat_of_nat take_bit_nat_eq_self)
  then show ?thesis
    unfolding decode_transaction_def
    by (simp add: length_concat_word_bytes bytes_words_concat crc_def crc_update_fun_eq Let_def)
qed

section \<open>Properties\<close>

text \<open>The table-driven CRC-16 of a transaction equals the bitwise reference on every input,
  errors included.\<close>

theorem crc16_table_matches_oracle:
  "command_transaction_crc16 words = command_transaction_crc16_oracle words"
  unfolding command_transaction_crc16_def command_transaction_crc16_oracle_def crc_update_fun_eq ..

text \<open>A transaction is accepted exactly when it is a nonempty concatenation of complete
  commands (header plus announced payload, at most 16 words of it) of at most 63 words.\<close>

theorem validate_accepts_complete_commands:
  "validate_command_transaction words = Inr () \<longleftrightarrow>
     words \<noteq> [] \<and> length words \<le> 63 \<and>
     (\<exists>cs. list_all complete_command cs \<and> words = concat cs)"
  using validate_iff by (simp add: kMaxCommandTransactionWords_def)

text \<open>C3: A valid transaction is framed in 4 bytes plus 4 per word, never more than the 256-byte
  buffer, and a receiver that checks magic, length and CRC recovers exactly the words.\<close>

theorem encode_decode_roundtrip:
  assumes "validate_command_transaction words = Inr ()"
  shows "\<exists>tx. encode_command_transaction words = Inr tx \<and>
    tx_length tx = 4 + 4 * length words \<and> tx_length tx \<le> length (tx_bytes tx) \<and>
    decode_transaction (take (tx_length tx) (tx_bytes tx)) = Some words"
proof -
  have "length words \<le> 63"
    using assms by (simp add: validate_iff kMaxCommandTransactionWords_def)
  then show ?thesis using encode_bytes [OF assms] decode_encoded [of words] by auto
qed

lemma example_transaction: "validate_command_transaction [0x15000001, 7] = Inr ()"
  by (simp add: validate_command_transaction_def validate_loop.simps word_payload_def Let_def
      kMaxCommandTransactionWords_def kMaxCommandPayloadWords_def)

theorem encode_decode_roundtrip_witness:
  "\<exists>tx. encode_command_transaction [0x15000001, 7] = Inr tx \<and> tx_length tx = 12 \<and>
    decode_transaction (take (tx_length tx) (tx_bytes tx)) = Some [0x15000001, 7]"
  using encode_decode_roundtrip [OF example_transaction] by auto

text \<open>Two valid transactions that differ in exactly one payload byte have different CRCs, so
  the receiver detects every corruption confined to one byte.\<close>

theorem crc_detects_byte_error:
  assumes "command_transaction_crc16 ws = Inr c" and "command_transaction_crc16 ws' = Inr c'"
    and "length ws = length ws'" and "x \<noteq> y"
    and "concat (map word_bytes ws) = as @ x # bs" and "concat (map word_bytes ws') = as @ y # bs"
  shows "c \<noteq> c'"
proof -
  let ?i = "crc_update_oracle 0xffff (of_nat (length ws))"
  have "c = foldl crc_update_oracle ?i (as @ x # bs)" "c' = foldl crc_update_oracle ?i (as @ y # bs)"
    using assms(1,2,3,5,6)
    by (auto simp: command_transaction_crc16_def crc_update_fun_eq crc_over_bytes split: sum.splits)
  then show ?thesis using crc_foldl_one_byte [OF assms(4)] by blast
qed

lemma example_transaction2: "validate_command_transaction [0x15000001, 6] = Inr ()"
  by (simp add: validate_command_transaction_def validate_loop.simps word_payload_def Let_def
      kMaxCommandTransactionWords_def kMaxCommandPayloadWords_def)

theorem crc_detects_byte_error_witness:
  "\<exists>c c'. command_transaction_crc16 [0x15000001, 7] = Inr c \<and>
     command_transaction_crc16 [0x15000001, 6] = Inr c' \<and> c \<noteq> c'"
proof -
  obtain c c' where c: "command_transaction_crc16 [0x15000001, 7] = Inr c"
    "command_transaction_crc16 [0x15000001, 6] = Inr c'"
    using example_transaction example_transaction2 by (simp add: command_transaction_crc16_def)
  have "c \<noteq> c'"
    by (rule crc_detects_byte_error [OF c, of 7 6 "[0x15, 0, 0, 1, 0, 0, 0]" "[]"])
      (simp_all add: word_bytes_def)
  then show ?thesis using c by blast
qed

text \<open>The clock chosen is the fastest supported rate that does not exceed the request, and a
  request is refused exactly when it is below 468750 Hz.\<close>

theorem selected_clock_is_best:
  "(case selected_clock_hz hz of
      Inr c \<Rightarrow> c \<le> hz \<and> c \<in> clk_hz ` set kClockChoices \<and>
        (\<forall>d \<in> clk_hz ` set kClockChoices. d \<le> hz \<longrightarrow> d \<le> c)
    | Inl e \<Rightarrow> hz < 468750) \<and>
   (is_ok (selected_clock_hz hz) \<longleftrightarrow> 468750 \<le> hz)"
  by (auto simp: selected_clock_hz_def clock_choice_for_hz_def kClockChoices_def is_ok_def)

theorem selected_clock_is_best_witness:
  "selected_clock_hz 20000000 = Inr 15000000 \<and> 15000000 \<in> clk_hz ` set kClockChoices"
proof -
  have "selected_clock_hz 20000000 = Inr 15000000"
    by (simp add: selected_clock_hz_def clock_choice_for_hz_def kClockChoices_def)
  then show ?thesis using selected_clock_is_best [of 20000000] by simp
qed

end
