(* ===== verification/Dsp_Lut.thy ===== *)
theory Dsp_Lut
  imports Prelude
begin

text \<open>
  The integer tables of \<open>src/sim/harness/generated/dsp_lut.h\<close> that the envelope, compressor
  and effect models index: binary octaves of attenuation in centibels Q12.20, the residual
  mantissa tables, and the quarter sine wave of the chorus LFO. The lemmas record the range
  and monotonicity facts that the models' \<open>.at()\<close> accesses and output bounds rest on.
\<close>

definition kEnvCbOctaveQ12_20 :: "int list" where
  "kEnvCbOctaveQ12_20 =
    [0, 63130566, 126261132, 189391698, 252522264, 315652830, 378783396, 441913962, 505044528, 568175094,
     631305660, 694436226, 757566792, 820697358, 883827924, 946958490, 1010089056]"

definition kChorusSineQuarterQ1_15 :: "int list" where
  "kChorusSineQuarterQ1_15 =
    [0, 201, 402, 603, 804, 1005, 1206, 1407, 1608, 1809,
     2009, 2210, 2410, 2611, 2811, 3012, 3212, 3412, 3612, 3811,
     4011, 4210, 4410, 4609, 4808, 5007, 5205, 5404, 5602, 5800,
     5998, 6195, 6393, 6590, 6786, 6983, 7179, 7375, 7571, 7767,
     7962, 8157, 8351, 8545, 8739, 8933, 9126, 9319, 9512, 9704,
     9896, 10087, 10278, 10469, 10659, 10849, 11039, 11228, 11417, 11605,
     11793, 11980, 12167, 12353, 12539, 12725, 12910, 13094, 13279, 13462,
     13645, 13828, 14010, 14191, 14372, 14553, 14732, 14912, 15090, 15269,
     15446, 15623, 15800, 15976, 16151, 16325, 16499, 16673, 16846, 17018,
     17189, 17360, 17530, 17700, 17869, 18037, 18204, 18371, 18537, 18703,
     18868, 19032, 19195, 19357, 19519, 19680, 19841, 20000, 20159, 20317,
     20475, 20631, 20787, 20942, 21096, 21250, 21403, 21554, 21705, 21856,
     22005, 22154, 22301, 22448, 22594, 22739, 22884, 23027, 23170, 23311,
     23452, 23592, 23731, 23870, 24007, 24143, 24279, 24413, 24547, 24680,
     24811, 24942, 25072, 25201, 25329, 25456, 25582, 25708, 25832, 25955,
     26077, 26198, 26319, 26438, 26556, 26674, 26790, 26905, 27019, 27133,
     27245, 27356, 27466, 27575, 27683, 27790, 27896, 28001, 28105, 28208,
     28310, 28411, 28510, 28609, 28706, 28803, 28898, 28992, 29085, 29177,
     29268, 29358, 29447, 29534, 29621, 29706, 29791, 29874, 29956, 30037,
     30117, 30195, 30273, 30349, 30424, 30498, 30571, 30643, 30714, 30783,
     30852, 30919, 30985, 31050, 31113, 31176, 31237, 31297, 31356, 31414,
     31470, 31526, 31580, 31633, 31685, 31736, 31785, 31833, 31880, 31926,
     31971, 32014, 32057, 32098, 32137, 32176, 32213, 32250, 32285, 32318,
     32351, 32382, 32412, 32441, 32469, 32495, 32521, 32545, 32567, 32589,
     32609, 32628, 32646, 32663, 32678, 32692, 32705, 32717, 32728, 32737,
     32745, 32752, 32757, 32761, 32765, 32766, 32767]"

definition kFdnDelayLengths :: "nat list" where
  "kFdnDelayLengths =
    [1451, 1559, 1663, 1777, 1879, 1999, 2131, 2371]"

definition kEnvCbToQ15Mantissa :: "int list" where
  "kEnvCbToQ15Mantissa =
    [8388352, 8340203, 8292331, 8244734, 8197410, 8150357, 8103575, 8057061, 8010814, 7964832,
     7919115, 7873660, 7828466, 7783531, 7738854, 7694433, 7650268, 7606356, 7562696, 7519287,
     7476127, 7433214, 7390548, 7348127, 7305949, 7264014, 7222319, 7180863, 7139645, 7098664,
     7057919, 7017407, 6977127, 6937079, 6897261, 6857671, 6818308, 6779172, 6740260, 6701571,
     6663105, 6624859, 6586833, 6549025, 6511434, 6474059, 6436898, 6399951, 6363216, 6326691,
     6290377, 6254270, 6218371, 6182678, 6147190, 6111906, 6076824, 6041943, 6007263, 5972782,
     5938498, 5904412, 5870521, 5836825, 5803322, 5770011, 5736892, 5703962, 5671222, 5638670,
     5606304, 5574124, 5542129, 5510318, 5478689, 5447242, 5415975, 5384888, 5353979, 5323247,
     5292692, 5262313, 5232107, 5202075, 5172216, 5142528, 5113010, 5083662, 5054482, 5025470,
     4996624, 4967943, 4939428, 4911076, 4882887, 4854859, 4826993, 4799286, 4771739, 4744349,
     4717117, 4690041, 4663121, 4636355, 4609742, 4583283, 4556975, 4530818, 4504812, 4478954,
     4453246, 4427684, 4402270, 4377001, 4351877, 4326898, 4302062, 4277368, 4252817, 4228406,
     4204135]"

definition kEnvQ15ToCbMantissa :: "int list" where
  "kEnvQ15ToCbMantissa =
    [62424477, 61023123, 59643004, 58283489, 56943970, 55623868, 54322627, 53039716, 51774627, 50526870,
     49295977, 48081498, 46883002, 45700073, 44532311, 43379334, 42240770, 41116264, 40005474, 38908068,
     37823728, 36752147, 35693027, 34646082, 33611036, 32587621, 31575578, 30574657, 29584618, 28605224,
     27636251, 26677479, 25728695, 24789693, 23860273, 22940243, 22029414, 21127603, 20234634, 19350336,
     18474541, 17607088, 16747819, 15896581, 15053225, 14217608, 13389587, 12569027, 11755793, 10949757,
     10150792, 9358775, 8573586, 7795108, 7023228, 6257835, 5498821, 4746079, 3999509, 3259008,
     2524479, 1795827, 1072958, 357171]"

definition kCompCbOctaveQ12_20 :: "int list" where
  "kCompCbOctaveQ12_20 =
    [0, 63130566, 126261132, 189391698, 252522264, 315652830, 378783396, 441913962, 505044528, 568175094,
     631305660, 694436226, 757566792, 820697358, 883827924, 946958490, 1010089056]"

definition kCompCbToQ15Mantissa :: "int list" where
  "kCompCbToQ15Mantissa =
    [8388352, 8340203, 8292331, 8244734, 8197410, 8150357, 8103575, 8057061, 8010814, 7964832,
     7919115, 7873660, 7828466, 7783531, 7738854, 7694433, 7650268, 7606356, 7562696, 7519287,
     7476127, 7433214, 7390548, 7348127, 7305949, 7264014, 7222319, 7180863, 7139645, 7098664,
     7057919, 7017407, 6977127, 6937079, 6897261, 6857671, 6818308, 6779172, 6740260, 6701571,
     6663105, 6624859, 6586833, 6549025, 6511434, 6474059, 6436898, 6399951, 6363216, 6326691,
     6290377, 6254270, 6218371, 6182678, 6147190, 6111906, 6076824, 6041943, 6007263, 5972782,
     5938498, 5904412, 5870521, 5836825, 5803322, 5770011, 5736892, 5703962, 5671222, 5638670,
     5606304, 5574124, 5542129, 5510318, 5478689, 5447242, 5415975, 5384888, 5353979, 5323247,
     5292692, 5262313, 5232107, 5202075, 5172216, 5142528, 5113010, 5083662, 5054482, 5025470,
     4996624, 4967943, 4939428, 4911076, 4882887, 4854859, 4826993, 4799286, 4771739, 4744349,
     4717117, 4690041, 4663121, 4636355, 4609742, 4583283, 4556975, 4530818, 4504812, 4478954,
     4453246, 4427684, 4402270, 4377001, 4351877, 4326898, 4302062, 4277368, 4252817, 4228406,
     4204135]"

definition kCompMagToCbMantissa :: "int list" where
  "kCompMagToCbMantissa =
    [0, 708783, 1412093, 2110013, 2802626, 3490011, 4172248, 4849412, 5521579, 6188821,
     6851210, 7508817, 8161710, 8809956, 9453620, 10092768, 10727461, 11357763, 11983732, 12605428,
     13222909, 13836233, 14445453, 15050626, 15651804, 16249040, 16842385, 17431890, 18017604, 18599575,
     19177850, 19752478, 20323503, 20890970, 21454923, 22015406, 22572460, 23126129, 23676451, 24223469,
     24767221, 25307746, 25845081, 26379266, 26910335, 27438326, 27963273, 28485213, 29004178, 29520203,
     30033321, 30543564, 31050964, 31555554, 32057363, 32556423, 33052762, 33546412, 34037401, 34525757,
     35011508, 35494682, 35975307, 36453409, 36929014, 37402148, 37872837, 38341106, 38806980, 39270483,
     39731639, 40190472, 40647006, 41101262, 41553263, 42003033, 42450592, 42895963, 43339167, 43780224,
     44219156, 44655982, 45090724, 45523400, 45954030, 46382634, 46809230, 47233838, 47656475, 48077160,
     48495911, 48912745, 49327681, 49740734, 50151923, 50561264, 50968773, 51374467, 51778362, 52180474,
     52580818, 52979410, 53376265, 53771399, 54164826, 54556560, 54946617, 55335011, 55721755, 56106864,
     56490352, 56872231, 57252516, 57631220, 58008356, 58383937, 58757975, 59130483, 59501474, 59870960,
     60238953, 60605465, 60970508, 61334094, 61696234, 62056940, 62416224, 62774095, 63130566]"

definition kEnvCbSilenceQ12_20 :: int where
  "kEnvCbSilenceQ12_20 = 1048576000"

definition kEnvCbToQ15GuardBits :: nat where
  "kEnvCbToQ15GuardBits = 8"

definition kEnvCbToQ15ResidualIndexShift :: nat where
  "kEnvCbToQ15ResidualIndexShift = 19"

definition kEnvQ15ToCbMantissaBits :: nat where
  "kEnvQ15ToCbMantissaBits = 6"

definition kCompCbSilenceQ12_20 :: int where
  "kCompCbSilenceQ12_20 = 1048576000"

definition kCompCbToQ15GuardBits :: nat where
  "kCompCbToQ15GuardBits = 8"

definition kCompCbToQ15ResidualIndexShift :: nat where
  "kCompCbToQ15ResidualIndexShift = 19"

definition kCompMagToCbMantissaBits :: nat where
  "kCompMagToCbMantissaBits = 7"

definition kCompMagToCbReferenceExponent :: nat where
  "kCompMagToCbReferenceExponent = 15"

definition kCompMagToCbIndexShift :: nat where
  "kCompMagToCbIndexShift = 24"

definition kCompMagToCbRoundBit :: nat where
  "kCompMagToCbRoundBit = 23"

end
