(* ===== verification/Command_Scheduler.thy ===== *)
theory Command_Scheduler
  imports Ch347_Transport Bounded_Fifo
begin

text \<open>
  The asynchronous command scheduler of \<open>src/host/command_scheduler.{h,cpp}\<close>. Producers enqueue
  commands under a mutex: START, RELEASE and STOP go to a lifecycle queue, GAIN, PITCH and FILTER
  updates to one replaceable slot per voice and kind, everything else to a normal queue. A worker
  packs pending commands into transactions of at most 63 words and hands them to a transport,
  retrying a failed transaction until it is delivered or the scheduler stops.

  Every critical section of the code is one function here; the interleaving of producers and
  worker is the step relation of \<open>Scheduler_System\<close>. Time stamps are arguments.
\<close>

section \<open>Constants and state\<close>

definition kSchedulerLifecycleCapacity :: nat where
  "kSchedulerLifecycleCapacity = 2048"

definition kSchedulerNormalCapacity :: nat where
  "kSchedulerNormalCapacity = 512"

definition kMaxTransactionWords :: nat where
  "kMaxTransactionWords = 63"

record scheduler_stats =
  st_enqueued_commands :: u64
  st_emitted_commands :: u64
  st_emitted_transactions :: u64
  st_coalesced_updates :: u64
  st_dropped_replaceable_updates :: u64
  st_transport_errors :: u64
  st_abandoned_commands :: u64
  st_consecutive_transport_errors :: u32
  st_maximum_consecutive_transport_errors :: u32
  st_driver_total_ns :: u64
  st_driver_max_ns :: u64
  st_maximum_command_age_ns :: u64
  st_transaction_words_total :: u64
  st_maximum_transaction_words :: u32
  st_queue_high_water :: u32
  st_pending_commands :: u32

definition default_scheduler_stats :: scheduler_stats where
  "default_scheduler_stats =
     \<lparr> st_enqueued_commands = 0, st_emitted_commands = 0, st_emitted_transactions = 0,
       st_coalesced_updates = 0, st_dropped_replaceable_updates = 0, st_transport_errors = 0,
       st_abandoned_commands = 0, st_consecutive_transport_errors = 0,
       st_maximum_consecutive_transport_errors = 0, st_driver_total_ns = 0,
       st_driver_max_ns = 0, st_maximum_command_age_ns = 0, st_transaction_words_total = 0,
       st_maximum_transaction_words = 0, st_queue_high_water = 0, st_pending_commands = 0 \<rparr>"

record sched_command =
  sc_command :: fixed_command
  sc_enqueue_ns :: u64

record fixed_queue =
  fq_entries :: "sched_command list"
  fq_head :: nat
  fq_tail :: nat
  fq_count :: nat

record replaceable_command =
  rp_pending :: sched_command
  rp_generation :: u16
  rp_valid :: bool

record scheduler =
  sd_lifecycle :: fixed_queue
  sd_normal :: fixed_queue
  sd_replaceable :: "replaceable_command list list"
  sd_replaceable_count :: nat
  sd_replaceable_cursor :: nat
  sd_batch_depth :: nat
  sd_worker_busy :: bool
  sd_stopping :: bool
  sd_stopped :: bool
  sd_stats :: scheduler_stats

definition empty_sched_command :: sched_command where
  "empty_sched_command = \<lparr> sc_command = empty_command, sc_enqueue_ns = 0 \<rparr>"

definition fixed_queue_new :: "nat \<Rightarrow> fixed_queue" where
  "fixed_queue_new capacity =
     \<lparr> fq_entries = replicate capacity empty_sched_command, fq_head = 0, fq_tail = 0,
       fq_count = 0 \<rparr>"

definition scheduler_new :: scheduler where
  "scheduler_new =
     \<lparr> sd_lifecycle = fixed_queue_new kSchedulerLifecycleCapacity,
       sd_normal = fixed_queue_new kSchedulerNormalCapacity,
       sd_replaceable = replicate kNumVoices (replicate 3
         \<lparr> rp_pending = empty_sched_command, rp_generation = 0, rp_valid = False \<rparr>),
       sd_replaceable_count = 0, sd_replaceable_cursor = 0, sd_batch_depth = 0,
       sd_worker_busy = False, sd_stopping = False, sd_stopped = False,
       sd_stats = default_scheduler_stats \<rparr>"

section \<open>Classification of commands\<close>

definition lifecycle_opcode :: "u8 \<Rightarrow> bool" where
  "lifecycle_opcode opcode \<longleftrightarrow> opcode = 0x10 \<or> opcode = 0x14 \<or> opcode = 0x15"

definition replaceable_kind :: "u8 \<Rightarrow> int" where
  "replaceable_kind opcode =
     (if opcode = 0x16 then 0 else if opcode = 0x18 then 1 else if opcode = 0x17 then 2 else - 1)"

definition command_voice :: "u32 list \<Rightarrow> int" where
  "command_voice command = int (word_voice (command ! 0))"

definition command_generation :: "u32 list \<Rightarrow> u16" where
  "command_generation command = (if length command > 1 then ucast (command ! 1) else 0)"

definition copy_command :: "u64 \<Rightarrow> u32 list \<Rightarrow> error + sched_command" where
  "copy_command now command =
     (if command = [] \<or> length command > kMaxCommandWords
      then Inl (InvalidArgument ''scheduler received an invalid command length'')
      else case push_words empty_command command of
        Inl e \<Rightarrow> Inl e
      | Inr c \<Rightarrow> Inr \<lparr> sc_command = c, sc_enqueue_ns = now \<rparr>)"

section \<open>Queues\<close>

definition push_queue :: "string \<Rightarrow> fixed_queue \<Rightarrow> sched_command \<Rightarrow> (fixed_queue, unit) outcome" where
  "push_queue overflow_message q command =
     (if fq_count q = length (fq_entries q) then (Inl (OverflowError overflow_message), q)
      else (Inr (), q\<lparr> fq_entries := (fq_entries q)[fq_tail q := command],
                       fq_tail := (fq_tail q + 1) mod length (fq_entries q),
                       fq_count := fq_count q + 1 \<rparr>))"

definition pop_queue :: "fixed_queue \<Rightarrow> (sched_command \<times> fixed_queue) option" where
  "pop_queue q =
     (if fq_count q = 0 then None
      else Some (fq_entries q ! fq_head q,
                 q\<lparr> fq_head := (fq_head q + 1) mod length (fq_entries q),
                    fq_count := fq_count q - 1 \<rparr>))"

text \<open>The two queue branches of \<open>return_command_locked\<close>.\<close>

definition unpop_queue :: "sched_command \<Rightarrow> fixed_queue \<Rightarrow> fixed_queue" where
  "unpop_queue command q =
     (let head = (fq_head q + length (fq_entries q) - 1) mod length (fq_entries q)
      in q\<lparr> fq_head := head, fq_entries := (fq_entries q)[head := command],
            fq_count := fq_count q + 1 \<rparr>)"

section \<open>Producers\<close>

definition pending_count :: "scheduler \<Rightarrow> nat" where
  "pending_count s = fq_count (sd_lifecycle s) + fq_count (sd_normal s) + sd_replaceable_count s"

definition has_pending :: "scheduler \<Rightarrow> bool" where
  "has_pending s \<longleftrightarrow> pending_count s \<noteq> 0"

definition scheduler_idle :: "scheduler \<Rightarrow> bool" where
  "scheduler_idle s \<longleftrightarrow> \<not> sd_worker_busy s \<and> \<not> has_pending s"

definition begin_batch :: "scheduler \<Rightarrow> (scheduler, unit) outcome" where
  "begin_batch s =
     (if sd_stopping s then (Inl (RuntimeError ''command scheduler is stopping''), s)
      else (Inr (), s\<lparr> sd_batch_depth := sd_batch_depth s + 1 \<rparr>))"

definition end_batch :: "scheduler \<Rightarrow> scheduler" where
  "end_batch s =
     (if sd_batch_depth s = 0 then s else s\<lparr> sd_batch_depth := sd_batch_depth s - 1 \<rparr>)"

text \<open>Dropping the updates of a row of slots that \<open>hit\<close> selects, with the two counters.\<close>

definition drop_row :: "(replaceable_command \<Rightarrow> bool) \<Rightarrow> nat \<Rightarrow> scheduler \<Rightarrow> scheduler" where
  "drop_row hit voice s =
     (let row = sd_replaceable s ! voice; dropped = length (filter hit row) in
      s\<lparr> sd_replaceable := (sd_replaceable s)[voice :=
           map (\<lambda>update. if hit update then update\<lparr> rp_valid := False \<rparr> else update) row],
         sd_replaceable_count := sd_replaceable_count s - dropped,
         sd_stats := (sd_stats s)\<lparr> st_dropped_replaceable_updates :=
           st_dropped_replaceable_updates (sd_stats s) + of_nat dropped \<rparr> \<rparr>)"

definition invalidate_updates :: "int \<Rightarrow> u16 \<Rightarrow> bool \<Rightarrow> scheduler \<Rightarrow> scheduler" where
  "invalidate_updates voice generation all s =
     (if voice < 0 \<or> voice \<ge> int kNumVoices then s
      else drop_row (\<lambda>update. rp_valid update \<and> (all \<or> rp_generation update \<noteq> generation))
             (nat voice) s)"

definition clear_replaceable_updates :: "scheduler \<Rightarrow> scheduler" where
  "clear_replaceable_updates s = foldl (\<lambda>s voice. drop_row rp_valid voice s) s [0..<kNumVoices]"

definition store_update ::
    "int \<Rightarrow> int \<Rightarrow> sched_command \<Rightarrow> u16 \<Rightarrow> scheduler \<Rightarrow> bool \<times> scheduler" where
  "store_update voice kind pending generation s =
     (let slot = sd_replaceable s ! nat voice ! nat kind in
      (rp_valid slot,
       s\<lparr> sd_replaceable := (sd_replaceable s)[nat voice := (sd_replaceable s ! nat voice)[nat kind :=
            \<lparr> rp_pending = pending, rp_generation = generation, rp_valid = True \<rparr>]],
          sd_replaceable_count :=
            (if rp_valid slot then sd_replaceable_count s else sd_replaceable_count s + 1) \<rparr>))"

definition note_enqueued :: "scheduler \<Rightarrow> scheduler" where
  "note_enqueued s =
     (let depth = of_nat (pending_count s) in
      s\<lparr> sd_stats := (sd_stats s)\<lparr>
           st_enqueued_commands := st_enqueued_commands (sd_stats s) + 1,
           st_pending_commands := depth,
           st_queue_high_water := max (st_queue_high_water (sd_stats s)) depth \<rparr> \<rparr>)"

definition enqueue_one :: "u64 \<Rightarrow> u32 list \<Rightarrow> scheduler \<Rightarrow> (scheduler, unit) outcome" where
  "enqueue_one now command s =
     (let opcode = word_opcode (command ! 0);
          voice = command_voice command;
          generation = command_generation command
      in case copy_command now command of
           Inl e \<Rightarrow> (Inl e, s)
         | Inr pending \<Rightarrow>
             (let s1 = (if opcode = 0x10 then invalidate_updates voice generation False s else s);
                  s2 = (if opcode = 0x15 then invalidate_updates voice generation True s1 else s1);
                  kind = replaceable_kind opcode
              in if kind \<ge> 0 \<and> voice \<ge> 0 \<and> voice < int kNumVoices then
                   (case store_update voice kind pending generation s2 of (coalesced, s3) \<Rightarrow>
                      (Inr (), note_enqueued
                         (if coalesced
                          then s3\<lparr> sd_stats := (sd_stats s3)\<lparr> st_coalesced_updates :=
                                 st_coalesced_updates (sd_stats s3) + 1 \<rparr> \<rparr>
                          else s3)))
                 else if lifecycle_opcode opcode then
                   (case push_queue ''lifecycle command queue overflow'' (sd_lifecycle s2) pending of
                      (Inl e, q) \<Rightarrow> (Inl e, s2)
                    | (Inr _, q) \<Rightarrow> (Inr (), note_enqueued (s2\<lparr> sd_lifecycle := q \<rparr>)))
                 else
                   (case push_queue ''normal command queue overflow'' (sd_normal s2) pending of
                      (Inl e, q) \<Rightarrow> (Inl e, s2)
                    | (Inr _, q) \<Rightarrow> (Inr (), note_enqueued (s2\<lparr> sd_normal := q \<rparr>)))))"

function enqueue_loop :: "u64 \<Rightarrow> u32 list \<Rightarrow> nat \<Rightarrow> scheduler \<Rightarrow> (scheduler, unit) outcome" where
  "enqueue_loop now words offset s =
     (if offset < length words then
        (let command_words = word_payload (words ! offset) + 1 in
         if command_words > kMaxCommandWords \<or> command_words > length words - offset
         then (Inl (InvalidArgument ''scheduler received incomplete command words''), s)
         else
           (case enqueue_one now (take command_words (drop offset words)) s of
              (Inl e, s') \<Rightarrow> (Inl e, s')
            | (Inr _, s') \<Rightarrow> enqueue_loop now words (offset + command_words) s'))
      else (Inr (), s))"
  by pat_completeness auto
termination
  by (relation "measure (\<lambda>(now, words, offset, s). length words - offset)") auto

declare enqueue_loop.simps [simp del]

definition scheduler_write :: "u64 \<Rightarrow> u32 list \<Rightarrow> scheduler \<Rightarrow> (scheduler, unit) outcome" where
  "scheduler_write now words s =
     (if words = [] then (Inr (), s)
      else if sd_stopping s then (Inl (RuntimeError ''command scheduler is stopping''), s)
      else enqueue_loop now words 0 s)"

definition stats_snapshot :: "scheduler \<Rightarrow> scheduler_stats" where
  "stats_snapshot s = (sd_stats s)\<lparr> st_pending_commands := of_nat (pending_count s) \<rparr>"

definition request_stop :: "scheduler \<Rightarrow> scheduler" where
  "request_stop s =
     (if sd_stopped s then s else s\<lparr> sd_stopping := True, sd_batch_depth := 0 \<rparr>)"

section \<open>The worker\<close>

definition kSlotCount :: nat where
  "kSlotCount = kNumVoices * 3"

definition slot_at :: "scheduler \<Rightarrow> nat \<Rightarrow> replaceable_command" where
  "slot_at s flat = sd_replaceable s ! (flat div 3) ! (flat mod 3)"

definition take_next :: "scheduler \<Rightarrow> (sched_command \<times> scheduler) option" where
  "take_next s =
     (case pop_queue (sd_lifecycle s) of
        Some (c, q) \<Rightarrow> Some (c, s\<lparr> sd_lifecycle := q \<rparr>)
      | None \<Rightarrow>
          (case pop_queue (sd_normal s) of
             Some (c, q) \<Rightarrow> Some (c, s\<lparr> sd_normal := q \<rparr>)
           | None \<Rightarrow>
               (case find (\<lambda>flat. rp_valid (slot_at s flat))
                       (map (\<lambda>scanned. (sd_replaceable_cursor s + scanned) mod kSlotCount)
                         [0..<kSlotCount]) of
                  None \<Rightarrow> None
                | Some flat \<Rightarrow>
                    Some (rp_pending (slot_at s flat),
                      s\<lparr> sd_replaceable := (sd_replaceable s)[flat div 3 :=
                           (sd_replaceable s ! (flat div 3))[flat mod 3 :=
                             (slot_at s flat)\<lparr> rp_valid := False \<rparr>]],
                         sd_replaceable_count := sd_replaceable_count s - 1,
                         sd_replaceable_cursor := (flat + 1) mod kSlotCount \<rparr>))))"

definition return_command :: "sched_command \<Rightarrow> scheduler \<Rightarrow> scheduler" where
  "return_command command s =
     (let opcode = word_opcode (cmd_words (sc_command command) ! 0) in
      if lifecycle_opcode opcode then s\<lparr> sd_lifecycle := unpop_queue command (sd_lifecycle s) \<rparr>
      else
        (let kind = replaceable_kind opcode;
             voice = command_voice (view (sc_command command))
         in if kind \<ge> 0 \<and> voice \<ge> 0 \<and> voice < int kNumVoices
            then snd (store_update voice kind command
                        (command_generation (view (sc_command command))) s)
            else s\<lparr> sd_normal := unpop_queue command (sd_normal s) \<rparr>))"

text \<open>The transaction under construction: the commands taken, their words, the oldest stamp.\<close>

record transaction =
  tn_commands :: "sched_command list"
  tn_words :: "u32 list"
  tn_oldest_ns :: u64

definition empty_transaction :: transaction where
  "empty_transaction = \<lparr> tn_commands = [], tn_words = [], tn_oldest_ns = 0 \<rparr>"

definition tn_append :: "transaction \<Rightarrow> sched_command \<Rightarrow> transaction" where
  "tn_append t c =
     \<lparr> tn_commands = tn_commands t @ [c],
       tn_words = tn_words t @ view (sc_command c),
       tn_oldest_ns =
         (if tn_oldest_ns t = 0 \<or> sc_enqueue_ns c < tn_oldest_ns t then sc_enqueue_ns c
          else tn_oldest_ns t) \<rparr>"

text \<open>The packing loop with a bound on its iterations; \<open>pack_transaction\<close> gives it one more than
  the number of pending commands, which is never used up.\<close>

fun pack_loop :: "nat \<Rightarrow> scheduler \<Rightarrow> transaction \<Rightarrow> (scheduler \<times> transaction) option" where
  "pack_loop 0 s t = None"
| "pack_loop (Suc fuel) s t =
     (case take_next s of
        None \<Rightarrow> Some (s, t)
      | Some (c, s1) \<Rightarrow>
          if tn_words t \<noteq> [] \<and> length (tn_words t) + cmd_length (sc_command c) > kMaxTransactionWords
          then Some (return_command c s1, t)
          else
            (let t1 = tn_append t c in
             if length (tn_words t1) = kMaxTransactionWords then Some (s1, t1)
             else pack_loop fuel s1 t1))"

definition pack_transaction :: "scheduler \<Rightarrow> (scheduler \<times> transaction) option" where
  "pack_transaction s =
     (case pack_loop (pending_count s + 1) (s\<lparr> sd_worker_busy := True \<rparr>) empty_transaction of
        None \<Rightarrow> None
      | Some (s1, t) \<Rightarrow>
          Some (s1\<lparr> sd_stats := (sd_stats s1)\<lparr> st_pending_commands := of_nat (pending_count s1) \<rparr> \<rparr>,
                t))"

definition note_transport_error :: "u64 \<Rightarrow> scheduler \<Rightarrow> scheduler" where
  "note_transport_error elapsed s =
     (let st = sd_stats s; consecutive = st_consecutive_transport_errors st + 1 in
      s\<lparr> sd_stats := st\<lparr>
           st_transport_errors := st_transport_errors st + 1,
           st_consecutive_transport_errors := consecutive,
           st_maximum_consecutive_transport_errors :=
             max (st_maximum_consecutive_transport_errors st) consecutive,
           st_driver_total_ns := st_driver_total_ns st + elapsed,
           st_driver_max_ns := max (st_driver_max_ns st) elapsed \<rparr> \<rparr>)"

definition note_delivered :: "u64 \<Rightarrow> u64 \<Rightarrow> transaction \<Rightarrow> scheduler \<Rightarrow> scheduler" where
  "note_delivered driver_start now t s =
     (let st = sd_stats s; elapsed = now - driver_start in
      s\<lparr> sd_stats := st\<lparr>
           st_consecutive_transport_errors := 0,
           st_driver_total_ns := st_driver_total_ns st + elapsed,
           st_driver_max_ns := max (st_driver_max_ns st) elapsed,
           st_maximum_command_age_ns :=
             (if tn_oldest_ns t \<noteq> 0
              then max (st_maximum_command_age_ns st) (now - tn_oldest_ns t)
              else st_maximum_command_age_ns st),
           st_emitted_commands := st_emitted_commands st + of_nat (length (tn_commands t)),
           st_emitted_transactions := st_emitted_transactions st + 1,
           st_transaction_words_total :=
             st_transaction_words_total st + of_nat (length (tn_words t)),
           st_maximum_transaction_words :=
             max (st_maximum_transaction_words st) (of_nat (length (tn_words t))) \<rparr> \<rparr>)"

definition finish_transaction :: "bool \<Rightarrow> transaction \<Rightarrow> scheduler \<Rightarrow> scheduler" where
  "finish_transaction abandon t s =
     (let st = sd_stats s in
      s\<lparr> sd_stats := (if abandon
           then st\<lparr> st_abandoned_commands :=
                  st_abandoned_commands st + of_nat (length (tn_commands t)) \<rparr> else st),
         sd_worker_busy := False \<rparr>)"

section \<open>The dry-run transport\<close>

record dry_run_transport =
  dr_last_words :: "u32 list"
  dr_last_word_count :: nat
  dr_failures_remaining :: nat
  dr_transaction_count :: u64
  dr_word_count :: u64
  dr_maximum_transaction_words :: nat

definition dry_run_new :: dry_run_transport where
  "dry_run_new =
     \<lparr> dr_last_words = replicate kMaxTransactionWords 0, dr_last_word_count = 0,
       dr_failures_remaining = 0, dr_transaction_count = 0, dr_word_count = 0,
       dr_maximum_transaction_words = 0 \<rparr>"

definition dry_run_write :: "dry_run_transport sink" where
  "dry_run_write d words =
     (case validate_command_transaction words of
        Inl e \<Rightarrow> (Inl e, d)
      | Inr _ \<Rightarrow>
          if dr_failures_remaining d \<noteq> 0
          then (Inl (RuntimeError ''injected dry-run transport failure''),
                d\<lparr> dr_failures_remaining := dr_failures_remaining d - 1 \<rparr>)
          else (Inr (), d\<lparr> dr_last_word_count := length words,
                  dr_last_words := words @ drop (length words) (dr_last_words d),
                  dr_transaction_count := dr_transaction_count d + 1,
                  dr_word_count := dr_word_count d + of_nat (length words),
                  dr_maximum_transaction_words :=
                    max (dr_maximum_transaction_words d) (length words) \<rparr>))"

definition fail_next_transactions :: "nat \<Rightarrow> dry_run_transport \<Rightarrow> dry_run_transport" where
  "fail_next_transactions count d = d\<lparr> dr_failures_remaining := count \<rparr>"

lemma validated_length: "validate_command_transaction ws = Inr () \<Longrightarrow> length ws \<le> kMaxTransactionWords"
  by (simp add: validate_iff kMaxTransactionWords_def kMaxCommandTransactionWords_def)

interpretation dry_run: command_sink dry_run_write
  "\<lambda>d. dr_failures_remaining d = 0 \<and> length (dr_last_words d) = kMaxTransactionWords"
  "\<lambda>ws. validate_command_transaction ws = Inr ()"
  by unfold_locales (auto simp: dry_run_write_def dest: validated_length)

section \<open>The fixed queues are bounded queues\<close>

definition fq_contents :: "fixed_queue \<Rightarrow> sched_command list" where
  "fq_contents q = ring_list (fq_entries q) (fq_head q) (fq_count q)"

definition fq_inv :: "nat \<Rightarrow> fixed_queue \<Rightarrow> bool" where
  "fq_inv capacity q \<longleftrightarrow>
     length (fq_entries q) = capacity \<and> fq_head q < capacity \<and> fq_count q \<le> capacity \<and>
     fq_tail q = (fq_head q + fq_count q) mod capacity"

lemma length_fq_contents [simp]: "length (fq_contents q) = fq_count q"
  by (simp add: fq_contents_def)

lemma fixed_queue_new_inv: "0 < n \<Longrightarrow> fq_inv n (fixed_queue_new n) \<and> fq_contents (fixed_queue_new n) = []"
  by (simp add: fq_inv_def fixed_queue_new_def fq_contents_def)

lemma fixed_queue_fifo:
  "returning_fifo fq_contents (fq_inv n) (\<lambda>_. True) n (push_queue msg) pop_queue unpop_queue"
proof
  fix q x
  show "fq_inv n q \<Longrightarrow> length (fq_contents q) < n \<Longrightarrow>
      \<exists>q'. push_queue msg q x = (Inr (), q') \<and> fq_inv n q' \<and> fq_contents q' = fq_contents q @ [x]"
    by (auto simp: push_queue_def fq_inv_def fq_contents_def mod_simps ring_list_push)
  show "fq_inv n q \<Longrightarrow> length (fq_contents q) = n \<Longrightarrow> \<exists>e. push_queue msg q x = (Inl e, q)"
    by (simp add: push_queue_def fq_inv_def)
  show "fq_inv n q \<Longrightarrow> length (fq_contents q) \<le> n"
    by (simp add: fq_inv_def)
  show "fq_contents q = [] \<Longrightarrow> pop_queue q = None"
    by (metis length_0_conv length_fq_contents pop_queue_def)
next
  fix q x xs
  assume q: "fq_inv n q" "fq_contents q = x # xs"
  then obtain m where m: "fq_count q = Suc m" by (metis length_Cons length_fq_contents)
  have "fq_contents q = fq_entries q ! fq_head q #
      ring_list (fq_entries q) ((fq_head q + 1) mod n) m"
    using q(1) m ring_list_pop [of "fq_head q" "fq_entries q" m]
    by (simp add: fq_contents_def fq_inv_def)
  then show "\<exists>q'. pop_queue q = Some (x, q') \<and> fq_inv n q' \<and> fq_contents q' = xs"
    using q m by (auto simp: pop_queue_def fq_inv_def fq_contents_def mod_simps)
next
  fix q x
  assume q: "fq_inv n q" "length (fq_contents q) < n"
  have "((fq_head q + n - 1) mod n + Suc (fq_count q)) mod n = (fq_head q + fq_count q) mod n"
  proof -
    have "(fq_head q + n - 1) + Suc (fq_count q) = (fq_head q + fq_count q) + n"
      using q by (simp add: fq_inv_def)
    then show ?thesis by (metis mod_add_left_eq mod_add_self2)
  qed
  then show "fq_inv n (unpop_queue x q) \<and> fq_contents (unpop_queue x q) = x # fq_contents q"
    using q ring_list_unshift [of "fq_head q" "fq_entries q" "fq_count q" x]
    by (auto simp: unpop_queue_def fq_inv_def fq_contents_def Let_def)
qed

interpretation lifecycle_queue: returning_fifo fq_contents "fq_inv kSchedulerLifecycleCapacity"
  "\<lambda>_. True" kSchedulerLifecycleCapacity "push_queue ''lifecycle command queue overflow''"
  pop_queue unpop_queue
  by (rule fixed_queue_fifo)

interpretation normal_queue: returning_fifo fq_contents "fq_inv kSchedulerNormalCapacity"
  "\<lambda>_. True" kSchedulerNormalCapacity "push_queue ''normal command queue overflow''"
  pop_queue unpop_queue
  by (rule fixed_queue_fifo)

section \<open>Lanes and the scheduler invariant\<close>

datatype lane = LifecycleLane | NormalLane | SlotLane nat nat

definition command_lane :: "u32 list \<Rightarrow> lane" where
  "command_lane ws =
     (let opcode = word_opcode (ws ! 0); kind = replaceable_kind opcode in
      if lifecycle_opcode opcode then LifecycleLane
      else if kind \<ge> 0 \<and> command_voice ws < int kNumVoices
      then SlotLane (nat (command_voice ws)) (nat kind) else NormalLane)"

definition pending_ok :: "lane \<Rightarrow> sched_command \<Rightarrow> bool" where
  "pending_ok l c \<longleftrightarrow>
     command_wf (sc_command c) \<and> complete_command (view (sc_command c)) \<and>
     command_lane (view (sc_command c)) = l"

definition valid_count :: "replaceable_command list list \<Rightarrow> nat" where
  "valid_count rows = sum_list (map (\<lambda>row. sum_list (map (\<lambda>u. of_bool (rp_valid u)) row)) rows)"

definition sched_inv :: "scheduler \<Rightarrow> bool" where
  "sched_inv s \<longleftrightarrow>
     fq_inv kSchedulerLifecycleCapacity (sd_lifecycle s) \<and>
     fq_inv kSchedulerNormalCapacity (sd_normal s) \<and>
     length (sd_replaceable s) = kNumVoices \<and> (\<forall>v < kNumVoices. length (sd_replaceable s ! v) = 3) \<and>
     sd_replaceable_count s = valid_count (sd_replaceable s) \<and>
     sd_replaceable_cursor s < kSlotCount \<and>
     list_all (pending_ok LifecycleLane) (fq_contents (sd_lifecycle s)) \<and>
     list_all (pending_ok NormalLane) (fq_contents (sd_normal s)) \<and>
     (\<forall>v < kNumVoices. \<forall>k < 3. rp_valid (sd_replaceable s ! v ! k) \<longrightarrow>
        pending_ok (SlotLane v k) (rp_pending (sd_replaceable s ! v ! k)))"

lemma pending_count_alt:
  "pending_count s =
     length (fq_contents (sd_lifecycle s)) + length (fq_contents (sd_normal s)) + sd_replaceable_count s"
  by (simp add: pending_count_def)

lemma valid_count_update:
  assumes "v < length rows" "k < length (rows ! v)"
  shows "valid_count (rows[v := (rows ! v)[k := u]]) + of_bool (rp_valid (rows ! v ! k)) =
    valid_count rows + of_bool (rp_valid u)"
proof -
  let ?b = "\<lambda>u. of_bool (rp_valid u) :: nat"
  let ?f = "\<lambda>row. sum_list (map ?b row)"
  have row: "?f ((rows ! v)[k := u]) + ?b (rows ! v ! k) = ?f (rows ! v) + ?b u"
    using assms(2) sum_list_update [of k "map ?b (rows ! v)" "?b u"] member_le_sum_list [of "?b (rows ! v ! k)" "map ?b (rows ! v)"]
    by (simp add: map_update)
  have "?f (rows ! v) \<le> valid_count rows"
    unfolding valid_count_def using assms(1) by (intro member_le_sum_list) simp_all
  then show ?thesis
    using row assms(1) sum_list_update [of v "map ?f rows" "?f ((rows ! v)[k := u])"]
    by (simp add: valid_count_def map_update)
qed

lemma scheduler_new_inv: "sched_inv scheduler_new"
  using fixed_queue_new_inv [of kSchedulerLifecycleCapacity]
    fixed_queue_new_inv [of kSchedulerNormalCapacity]
  by (simp add: sched_inv_def scheduler_new_def kSchedulerLifecycleCapacity_def
      kSchedulerNormalCapacity_def kSlotCount_def kNumVoices_def valid_count_def
      sum_list_replicate numeral_3_eq_3 less_Suc_eq)

section \<open>The ledger\<close>

text \<open>
  Commands the scheduler has taken in and neither sent, abandoned, merged, dropped nor still
  holds: the commands in the worker's hands.
\<close>

definition ledger :: "scheduler \<Rightarrow> u64" where
  "ledger s =
     st_enqueued_commands (sd_stats s) - st_emitted_commands (sd_stats s)
     - st_abandoned_commands (sd_stats s) - st_coalesced_updates (sd_stats s)
     - st_dropped_replaceable_updates (sd_stats s) - of_nat (pending_count s)"

lemma valid_count_row:
  assumes "v < length rows"
  shows "valid_count (rows[v := row]) + sum_list (map (\<lambda>u. of_bool (rp_valid u)) (rows ! v)) =
    valid_count rows + sum_list (map (\<lambda>u. of_bool (rp_valid u)) row)"
proof -
  let ?f = "\<lambda>row. sum_list (map (\<lambda>u. of_bool (rp_valid u)) row) :: nat"
  have "?f (rows ! v) \<le> valid_count rows"
    unfolding valid_count_def using assms(1) by (intro member_le_sum_list) simp_all
  then show ?thesis
    using assms(1) sum_list_update [of v "map ?f rows" "?f row"]
    by (simp add: valid_count_def map_update)
qed

lemma dropped_row_count:
  assumes "\<And>u. hit u \<Longrightarrow> rp_valid u"
  shows "sum_list (map (\<lambda>u. of_bool (rp_valid u))
      (map (\<lambda>u. if hit u then u\<lparr> rp_valid := False \<rparr> else u) row)) + length (filter hit row) =
    sum_list (map (\<lambda>u. of_bool (rp_valid u) :: nat) row)"
  using assms by (induction row) auto

lemma drop_row_inv:
  assumes "sched_inv s" "v < kNumVoices" "\<And>u. hit u \<Longrightarrow> rp_valid u"
  shows "sched_inv (drop_row hit v s)" "ledger (drop_row hit v s) = ledger s"
proof -
  let ?row = "sd_replaceable s ! v"
  let ?row' = "map (\<lambda>u. if hit u then u\<lparr> rp_valid := False \<rparr> else u) ?row"
  have count: "valid_count ((sd_replaceable s)[v := ?row']) + length (filter hit ?row) =
      valid_count (sd_replaceable s)"
    using valid_count_row [of v "sd_replaceable s" ?row'] dropped_row_count [of hit ?row, OF assms(3)]
      assms(1,2) by (simp add: sched_inv_def)
  then have n: "sd_replaceable_count (drop_row hit v s) + length (filter hit ?row) = sd_replaceable_count s"
    using assms(1) by (simp add: drop_row_def Let_def sched_inv_def)
  then have "sd_replaceable_count (drop_row hit v s) = valid_count (sd_replaceable (drop_row hit v s))"
    using count assms(1) by (simp add: drop_row_def Let_def sched_inv_def)
  then show "sched_inv (drop_row hit v s)"
    using assms(1,2) unfolding sched_inv_def
    by (auto simp: drop_row_def Let_def nth_list_update)
  have "pending_count (drop_row hit v s) + length (filter hit ?row) = pending_count s"
    using n by (simp add: pending_count_def drop_row_def Let_def)
  then have "of_nat (pending_count s) =
      (of_nat (pending_count (drop_row hit v s)) + of_nat (length (filter hit ?row)) :: u64)"
    by (metis of_nat_add)
  then show "ledger (drop_row hit v s) = ledger s"
    by (simp add: ledger_def) (simp add: drop_row_def Let_def)
qed

lemma invalidate_updates_inv:
  assumes "sched_inv s"
  shows "sched_inv (invalidate_updates v g all s)" "ledger (invalidate_updates v g all s) = ledger s"
  using drop_row_inv [OF assms, of "nat v" "\<lambda>u. rp_valid u \<and> (all \<or> rp_generation u \<noteq> g)"]
  by (auto simp: invalidate_updates_def assms nat_less_iff)

lemma clear_replaceable_updates_inv:
  assumes "sched_inv s"
  shows "sched_inv (clear_replaceable_updates s)" "ledger (clear_replaceable_updates s) = ledger s"
proof -
  have "list_all (\<lambda>v. v < kNumVoices) vs \<Longrightarrow> sched_inv s \<Longrightarrow>
      sched_inv (foldl (\<lambda>s v. drop_row rp_valid v s) s vs) \<and>
      ledger (foldl (\<lambda>s v. drop_row rp_valid v s) s vs) = ledger s" for vs s
    by (induction vs arbitrary: s) (simp_all add: drop_row_inv)
  then show "sched_inv (clear_replaceable_updates s)" "ledger (clear_replaceable_updates s) = ledger s"
    using assms by (simp_all add: clear_replaceable_updates_def list_all_iff)
qed

lemma nested_update:
  assumes "v < length rows" "k < length (rows ! v)"
  shows "rows[v := (rows ! v)[k := u]] ! i ! j = (if i = v \<and> j = k then u else rows ! i ! j)"
    and "length (rows[v := (rows ! v)[k := u]] ! i) = length (rows ! i)"
  using assms by (auto simp: nth_list_update)

lemma store_update_inv:
  assumes "sched_inv s" "0 \<le> v" "v < int kNumVoices" "0 \<le> k" "k < 3"
    and "pending_ok (SlotLane (nat v) (nat k)) c" and "store_update v k c g s = (coalesced, s')"
  shows "sched_inv s'" "pending_count s' = pending_count s + of_bool (\<not> coalesced)"
    "sd_stats s' = sd_stats s"
proof -
  let ?u = "\<lparr> rp_pending = c, rp_generation = g, rp_valid = True \<rparr>"
  let ?rows = "sd_replaceable s"
  have b: "nat v < length ?rows" "nat k < length (?rows ! nat v)"
    using assms(1-5) by (auto simp: sched_inv_def)
  have s': "s' = s\<lparr> sd_replaceable := ?rows[nat v := (?rows ! nat v)[nat k := ?u]],
      sd_replaceable_count := sd_replaceable_count s + of_bool (\<not> coalesced) \<rparr>"
    and c: "coalesced = rp_valid (?rows ! nat v ! nat k)"
    using assms(7) by (auto simp: store_update_def Let_def)
  have "sd_replaceable_count s' = valid_count (sd_replaceable s')"
    using valid_count_update [OF b, of ?u] assms(1) c by (auto simp: s' sched_inv_def)
  then show "sched_inv s'"
    using assms(1,6) unfolding sched_inv_def s'
    by (auto simp: nested_update [OF b])
  show "pending_count s' = pending_count s + of_bool (\<not> coalesced)" "sd_stats s' = sd_stats s"
    by (simp_all add: s' pending_count_def)
qed

lemma note_enqueued_inv:
  assumes "sched_inv s"
  shows "sched_inv (note_enqueued s)" "ledger (note_enqueued s) = ledger s + 1"
  using assms by (simp_all add: note_enqueued_def sched_inv_def ledger_def pending_count_def Let_def)

text \<open>Enqueueing keeps the invariant on every branch, and the ledger balances.\<close>

lemma copy_command_complete:
  assumes "complete_command ws"
  obtains c where "copy_command now ws = Inr c" "view (sc_command c) = ws" "command_wf (sc_command c)"
    "pending_ok (command_lane ws) c"
proof -
  have len: "ws \<noteq> []" "length ws \<le> kMaxCommandWords"
    using assms by (simp_all add: complete_command_def kMaxCommandPayloadWords_def kMaxCommandWords_def)
  then obtain c where c: "push_words empty_command ws = Inr c" "command_wf c" "view c = ws"
    using push_words_fresh by blast
  then have "copy_command now ws = Inr \<lparr> sc_command = c, sc_enqueue_ns = now \<rparr>"
    using len by (simp add: copy_command_def)
  then show ?thesis using that c assms by (simp add: pending_ok_def)
qed

lemma replaceable_kind_range: "replaceable_kind op < 3" "- 1 \<le> replaceable_kind op"
  by (simp_all add: replaceable_kind_def)

lemma command_lane_slot:
  "0 \<le> replaceable_kind (word_opcode (ws ! 0)) \<Longrightarrow> command_voice ws < int kNumVoices \<Longrightarrow>
     command_lane ws = SlotLane (nat (command_voice ws)) (nat (replaceable_kind (word_opcode (ws ! 0))))"
  by (auto simp: command_lane_def Let_def lifecycle_opcode_def replaceable_kind_def split: if_splits)

lemma command_lane_queue:
  "lifecycle_opcode (word_opcode (ws ! 0)) \<Longrightarrow> command_lane ws = LifecycleLane"
  "\<not> (0 \<le> replaceable_kind (word_opcode (ws ! 0)) \<and> 0 \<le> command_voice ws \<and>
      command_voice ws < int kNumVoices) \<Longrightarrow>
   \<not> lifecycle_opcode (word_opcode (ws ! 0)) \<Longrightarrow> command_lane ws = NormalLane"
  by (auto simp: command_lane_def Let_def command_voice_def)

lemma sched_inv_push_lifecycle:
  assumes "sched_inv s" "pending_ok LifecycleLane c"
    "push_queue ''lifecycle command queue overflow'' (sd_lifecycle s) c = (Inr (), q)"
  shows "sched_inv (s\<lparr> sd_lifecycle := q \<rparr>)" "pending_count (s\<lparr> sd_lifecycle := q \<rparr>) = pending_count s + 1"
    "fq_contents q = fq_contents (sd_lifecycle s) @ [c]"
proof -
  have inv: "fq_inv kSchedulerLifecycleCapacity (sd_lifecycle s)" using assms(1) by (simp add: sched_inv_def)
  have "length (fq_contents (sd_lifecycle s)) \<noteq> kSchedulerLifecycleCapacity"
    using lifecycle_queue.put_full [OF inv, of c] assms(3) by auto
  then have "length (fq_contents (sd_lifecycle s)) < kSchedulerLifecycleCapacity"
    using lifecycle_queue.bounded [OF inv] by simp
  then have q: "fq_inv kSchedulerLifecycleCapacity q" "fq_contents q = fq_contents (sd_lifecycle s) @ [c]"
    using lifecycle_queue.put_room [OF inv, of c] assms(3) by auto
  then have "length (fq_contents q) = Suc (length (fq_contents (sd_lifecycle s)))" by simp
  then show "pending_count (s\<lparr> sd_lifecycle := q \<rparr>) = pending_count s + 1"
    by (simp add: pending_count_def)
  show "sched_inv (s\<lparr> sd_lifecycle := q \<rparr>)" using assms(1,2) q by (simp add: sched_inv_def)
  show "fq_contents q = fq_contents (sd_lifecycle s) @ [c]" by (rule q(2))
qed

lemma sched_inv_push_normal:
  assumes "sched_inv s" "pending_ok NormalLane c"
    "push_queue ''normal command queue overflow'' (sd_normal s) c = (Inr (), q)"
  shows "sched_inv (s\<lparr> sd_normal := q \<rparr>)" "pending_count (s\<lparr> sd_normal := q \<rparr>) = pending_count s + 1"
proof -
  have inv: "fq_inv kSchedulerNormalCapacity (sd_normal s)" using assms(1) by (simp add: sched_inv_def)
  have "length (fq_contents (sd_normal s)) \<noteq> kSchedulerNormalCapacity"
    using normal_queue.put_full [OF inv, of c] assms(3) by auto
  then have "length (fq_contents (sd_normal s)) < kSchedulerNormalCapacity"
    using normal_queue.bounded [OF inv] by simp
  then have q: "fq_inv kSchedulerNormalCapacity q" "fq_contents q = fq_contents (sd_normal s) @ [c]"
    using normal_queue.put_room [OF inv, of c] assms(3) by auto
  then have "length (fq_contents q) = Suc (length (fq_contents (sd_normal s)))" by simp
  then show "pending_count (s\<lparr> sd_normal := q \<rparr>) = pending_count s + 1"
    by (simp add: pending_count_def)
  show "sched_inv (s\<lparr> sd_normal := q \<rparr>)" using assms(1,2) q by (simp add: sched_inv_def)
qed

text \<open>The part of \<open>enqueue_one\<close> before the command is stored.\<close>

definition enqueue_invalidate :: "u32 list \<Rightarrow> scheduler \<Rightarrow> scheduler" where
  "enqueue_invalidate ws s =
     (let opcode = word_opcode (ws ! 0); voice = command_voice ws; g = command_generation ws;
          s1 = (if opcode = 0x10 then invalidate_updates voice g False s else s)
      in if opcode = 0x15 then invalidate_updates voice g True s1 else s1)"

lemma enqueue_invalidate_inv:
  assumes "sched_inv s"
  shows "sched_inv (enqueue_invalidate ws s)" "ledger (enqueue_invalidate ws s) = ledger s"
  using invalidate_updates_inv [OF assms]
  by (simp_all add: enqueue_invalidate_def Let_def assms)

lemma invalidate_updates_queues [simp]:
  "sd_lifecycle (invalidate_updates v g all s) = sd_lifecycle s"
  "sd_normal (invalidate_updates v g all s) = sd_normal s"
  by (simp_all add: invalidate_updates_def drop_row_def Let_def)

lemma enqueue_invalidate_queues [simp]:
  "sd_lifecycle (enqueue_invalidate ws s) = sd_lifecycle s"
  "sd_normal (enqueue_invalidate ws s) = sd_normal s"
  by (simp_all add: enqueue_invalidate_def Let_def)

lemma ledger_held:
  "sd_stats s' = sd_stats s \<Longrightarrow> pending_count s' = pending_count s + n \<Longrightarrow>
     ledger s' = ledger s - of_nat n"
  by (simp add: ledger_def)

definition count_coalesced :: "bool \<Rightarrow> scheduler \<Rightarrow> scheduler" where
  "count_coalesced coalesced s =
     (if coalesced
      then s\<lparr> sd_stats := (sd_stats s)\<lparr> st_coalesced_updates := st_coalesced_updates (sd_stats s) + 1 \<rparr> \<rparr>
      else s)"

lemma count_coalesced_ledger: "ledger (count_coalesced b s) = ledger s - of_bool b"
  by (simp add: count_coalesced_def ledger_def pending_count_def)

lemma push_queue_error:
  "push_queue msg q c = (Inl e, q') \<Longrightarrow> e = OverflowError msg \<and> fq_count q = length (fq_entries q)"
  by (auto simp: push_queue_def split: if_splits)

lemma enqueue_one_cases:
  assumes "complete_command ws" "enqueue_one now ws s = (r, s')"
  obtains
    (slot) c v k coalesced s3 where "command_lane ws = SlotLane v k" "v < kNumVoices" "k < 3"
      "view (sc_command c) = ws" "pending_ok (SlotLane v k) c" "r = Inr ()"
      "store_update (int v) (int k) c (command_generation ws) (enqueue_invalidate ws s) = (coalesced, s3)"
      "s' = note_enqueued (count_coalesced coalesced s3)"
  | (lifecycle) c q where "command_lane ws = LifecycleLane" "view (sc_command c) = ws"
      "pending_ok LifecycleLane c" "r = Inr ()"
      "push_queue ''lifecycle command queue overflow'' (sd_lifecycle s) c = (Inr (), q)"
      "s' = note_enqueued ((enqueue_invalidate ws s)\<lparr> sd_lifecycle := q \<rparr>)"
  | (normal) c q where "command_lane ws = NormalLane" "view (sc_command c) = ws"
      "pending_ok NormalLane c" "r = Inr ()"
      "push_queue ''normal command queue overflow'' (sd_normal s) c = (Inr (), q)"
      "s' = note_enqueued ((enqueue_invalidate ws s)\<lparr> sd_normal := q \<rparr>)"
  | (full) e where "r = Inl (OverflowError e)" "s' = enqueue_invalidate ws s"
      "command_lane ws = LifecycleLane \<and> fq_count (sd_lifecycle s) = length (fq_entries (sd_lifecycle s)) \<or>
       command_lane ws = NormalLane \<and> fq_count (sd_normal s) = length (fq_entries (sd_normal s))"
proof -
  obtain c where c: "copy_command now ws = Inr c" "view (sc_command c) = ws"
    "pending_ok (command_lane ws) c"
    using copy_command_complete [OF assms(1), of now] by metis
  let ?op = "word_opcode (ws ! 0)"
  let ?k = "replaceable_kind ?op"
  let ?v = "command_voice ws"
  let ?s2 = "enqueue_invalidate ws s"
  have v0: "0 \<le> ?v" by (simp add: command_voice_def)
  consider (s) "0 \<le> ?k" "?v < int kNumVoices" | (l) "\<not> (0 \<le> ?k \<and> ?v < int kNumVoices)" "lifecycle_opcode ?op"
    | (n) "\<not> (0 \<le> ?k \<and> ?v < int kNumVoices)" "\<not> lifecycle_opcode ?op" by blast
  then show ?thesis
  proof cases
    case s
    obtain b s3 where st: "store_update ?v ?k c (command_generation ws) ?s2 = (b, s3)" by fastforce
    have "s' = note_enqueued (count_coalesced b s3)" "r = Inr ()"
      using assms(2) c(1) s v0 st
      by (auto simp: enqueue_one_def Let_def enqueue_invalidate_def count_coalesced_def)
    then show ?thesis
      using slot [of "nat ?v" "nat ?k" c b s3] command_lane_slot [OF s] s v0 c(2,3) st
        replaceable_kind_range(1) [of ?op] by (auto simp: nat_less_iff)
  next
    case l
    obtain pr q where pq: "push_queue ''lifecycle command queue overflow'' (sd_lifecycle s) c = (pr, q)"
      by fastforce
    then have eq: "(r, s') = (case pr of Inl e \<Rightarrow> (Inl e, ?s2)
        | Inr _ \<Rightarrow> (Inr (), note_enqueued (?s2\<lparr> sd_lifecycle := q \<rparr>)))"
      using assms(2) c(1) l v0
      by (auto simp: enqueue_one_def Let_def enqueue_invalidate_def split: sum.splits)
    note lane = command_lane_queue(1) [OF l(2)]
    show ?thesis
    proof (cases pr)
      case (Inl e)
      have "e = OverflowError ''lifecycle command queue overflow''"
        "fq_count (sd_lifecycle s) = length (fq_entries (sd_lifecycle s))"
        using push_queue_error [OF pq [unfolded Inl]] by simp_all
      then show ?thesis using full eq Inl lane by simp
    next
      case (Inr u)
      then show ?thesis using lifecycle [of c q] eq pq c(2,3) lane by simp
    qed
  next
    case n
    obtain pr q where pq: "push_queue ''normal command queue overflow'' (sd_normal s) c = (pr, q)"
      by fastforce
    then have eq: "(r, s') = (case pr of Inl e \<Rightarrow> (Inl e, ?s2)
        | Inr _ \<Rightarrow> (Inr (), note_enqueued (?s2\<lparr> sd_normal := q \<rparr>)))"
      using assms(2) c(1) n v0
      by (auto simp: enqueue_one_def Let_def enqueue_invalidate_def split: sum.splits)
    have "command_lane ws = NormalLane" using command_lane_queue(2) n by blast
    note lane = this
    show ?thesis
    proof (cases pr)
      case (Inl e)
      have "e = OverflowError ''normal command queue overflow''"
        "fq_count (sd_normal s) = length (fq_entries (sd_normal s))"
        using push_queue_error [OF pq [unfolded Inl]] by simp_all
      then show ?thesis using full eq Inl lane by simp
    next
      case (Inr u)
      then show ?thesis using normal [of c q] eq pq c(2,3) lane by simp
    qed
  qed
qed

lemma enqueue_one_inv:
  assumes "sched_inv s" "complete_command ws" "enqueue_one now ws s = (r, s')"
  shows "sched_inv s'" "ledger s' = ledger s"
proof -
  note pre = enqueue_invalidate_inv [OF assms(1), of ws]
  from assms(2,3) have "sched_inv s' \<and> ledger s' = ledger s"
  proof (cases rule: enqueue_one_cases)
    case (slot c v k b s3)
    have si: "sched_inv s3" "pending_count s3 = pending_count (enqueue_invalidate ws s) + of_bool (\<not> b)"
      "sd_stats s3 = sd_stats (enqueue_invalidate ws s)"
      using store_update_inv [OF pre(1) _ _ _ _ _ slot(7)] slot(2,3,5) by simp_all
    have "sched_inv (count_coalesced b s3)" using si(1) by (simp add: count_coalesced_def sched_inv_def)
    moreover have "ledger (count_coalesced b s3) = ledger (enqueue_invalidate ws s) - 1"
      using ledger_held [OF si(3,2)] by (simp add: count_coalesced_ledger)
    ultimately show ?thesis using note_enqueued_inv slot(8) pre(2) by simp
  next
    case (lifecycle c q)
    have p: "push_queue ''lifecycle command queue overflow'' (sd_lifecycle (enqueue_invalidate ws s)) c = (Inr (), q)"
      using lifecycle(5) by simp
    note si = sched_inv_push_lifecycle [OF pre(1) lifecycle(3) p]
    show ?thesis using note_enqueued_inv [OF si(1)] ledger_held [OF _ si(2)] lifecycle(6) pre(2) by simp
  next
    case (normal c q)
    have p: "push_queue ''normal command queue overflow'' (sd_normal (enqueue_invalidate ws s)) c = (Inr (), q)"
      using normal(5) by simp
    note si = sched_inv_push_normal [OF pre(1) normal(3) p]
    show ?thesis using note_enqueued_inv [OF si(1)] ledger_held [OF _ si(2)] normal(6) pre(2) by simp
  next
    case (full e)
    then show ?thesis using pre by simp
  qed
  then show "sched_inv s'" "ledger s' = ledger s" by simp_all
qed

section \<open>A producer call\<close>

definition lifecycle_views :: "scheduler \<Rightarrow> u32 list list" where
  "lifecycle_views s = map (\<lambda>c. view (sc_command c)) (fq_contents (sd_lifecycle s))"

definition is_lifecycle :: "u32 list \<Rightarrow> bool" where
  "is_lifecycle ws \<longleftrightarrow> command_lane ws = LifecycleLane"

text \<open>What an operation on the queues leaves alone.\<close>

definition same_flags :: "scheduler \<Rightarrow> scheduler \<Rightarrow> bool" where
  "same_flags s s' \<longleftrightarrow>
     sd_batch_depth s' = sd_batch_depth s \<and> sd_worker_busy s' = sd_worker_busy s \<and>
     sd_stopping s' = sd_stopping s \<and> sd_stopped s' = sd_stopped s"

lemma same_flags_refl [simp]: "same_flags s s"
  by (simp add: same_flags_def)

lemma same_flags_trans: "same_flags a b \<Longrightarrow> same_flags b c \<Longrightarrow> same_flags a c"
  by (simp add: same_flags_def)

lemma same_flags_update [simp]:
  "same_flags a (s\<lparr> sd_lifecycle := q \<rparr>) = same_flags a s"
  "same_flags a (s\<lparr> sd_normal := q \<rparr>) = same_flags a s"
  "same_flags a (s\<lparr> sd_replaceable := rows \<rparr>) = same_flags a s"
  "same_flags a (s\<lparr> sd_replaceable_count := n \<rparr>) = same_flags a s"
  "same_flags a (s\<lparr> sd_replaceable_cursor := n \<rparr>) = same_flags a s"
  "same_flags a (s\<lparr> sd_stats := st \<rparr>) = same_flags a s"
  by (simp_all add: same_flags_def)

lemma enqueue_invalidate_flags: "same_flags s (enqueue_invalidate ws s)"
  by (simp add: enqueue_invalidate_def Let_def invalidate_updates_def drop_row_def same_flags_def)

lemma store_update_keeps:
  "store_update v k c g s = (b, s') \<Longrightarrow>
     sd_lifecycle s' = sd_lifecycle s \<and> sd_normal s' = sd_normal s \<and> same_flags s s'"
  by (auto simp: store_update_def Let_def same_flags_def)

lemma note_enqueued_keeps [simp]:
  "sd_lifecycle (note_enqueued s) = sd_lifecycle s" "sd_replaceable (note_enqueued s) = sd_replaceable s"
  "same_flags a (note_enqueued s) = same_flags a s"
  "pending_count (note_enqueued s) = pending_count s"
  by (simp_all add: note_enqueued_def Let_def same_flags_def pending_count_def)

lemma count_coalesced_keeps [simp]:
  "sd_lifecycle (count_coalesced b s) = sd_lifecycle s"
  "sd_replaceable (count_coalesced b s) = sd_replaceable s"
  "same_flags a (count_coalesced b s) = same_flags a s"
  by (simp_all add: count_coalesced_def same_flags_def)

lemma enqueue_one_appends:
  assumes "sched_inv s" "complete_command ws" "enqueue_one now ws s = (r, s')"
  shows "same_flags s s'"
    and "lifecycle_views s' = lifecycle_views s @ (if is_ok r \<and> is_lifecycle ws then [ws] else [])"
proof -
  from assms(2,3) have "same_flags s s' \<and> lifecycle_views s' =
      lifecycle_views s @ (if is_ok r \<and> is_lifecycle ws then [ws] else [])"
  proof (cases rule: enqueue_one_cases)
    case (slot c v k b s3)
    then show ?thesis
      using store_update_keeps [OF slot(7)] same_flags_trans [OF enqueue_invalidate_flags [of s ws], of s3]
      by (simp add: lifecycle_views_def is_lifecycle_def)
  next
    case (lifecycle c q)
    have "sched_inv (enqueue_invalidate ws s)" by (rule enqueue_invalidate_inv [OF assms(1)])
    then have "fq_contents q = fq_contents (sd_lifecycle s) @ [c]"
      using sched_inv_push_lifecycle(3) lifecycle(3,5) by (metis enqueue_invalidate_queues(1))
    then show ?thesis
      using lifecycle enqueue_invalidate_flags [of s ws]
      by (simp add: lifecycle_views_def is_lifecycle_def)
  next
    case (normal c q)
    then show ?thesis
      using enqueue_invalidate_flags [of s ws]
      by (simp add: lifecycle_views_def is_lifecycle_def)
  next
    case (full e)
    then show ?thesis using enqueue_invalidate_flags by (simp add: lifecycle_views_def)
  qed
  then show "same_flags s s'" "lifecycle_views s' =
      lifecycle_views s @ (if is_ok r \<and> is_lifecycle ws then [ws] else [])" by simp_all
qed

text \<open>The commands a call stores before it returns or throws.\<close>

function accepted_commands :: "u64 \<Rightarrow> u32 list \<Rightarrow> nat \<Rightarrow> scheduler \<Rightarrow> u32 list list" where
  "accepted_commands now words offset s =
     (if offset < length words then
        (let command_words = word_payload (words ! offset) + 1 in
         if command_words > kMaxCommandWords \<or> command_words > length words - offset then []
         else
           (case enqueue_one now (take command_words (drop offset words)) s of
              (Inl e, s') \<Rightarrow> []
            | (Inr _, s') \<Rightarrow> take command_words (drop offset words) #
                accepted_commands now words (offset + command_words) s'))
      else [])"
  by pat_completeness auto
termination
  by (relation "measure (\<lambda>(now, words, offset, s). length words - offset)") auto

declare accepted_commands.simps [simp del]

lemma complete_slice:
  assumes "offset < length words" "word_payload (words ! offset) + 1 \<le> kMaxCommandWords"
    "word_payload (words ! offset) + 1 \<le> length words - offset"
  shows "complete_command (take (word_payload (words ! offset) + 1) (drop offset words))"
proof -
  have "hd (take (word_payload (words ! offset) + 1) (drop offset words)) = words ! offset"
    using assms(1) by (simp add: hd_drop_conv_nth)
  then show ?thesis
    using assms unfolding complete_command_def
    by (auto simp: kMaxCommandWords_def kMaxCommandPayloadWords_def)
qed

lemma enqueue_loop_inv:
  assumes "sched_inv s" "enqueue_loop now words offset s = (r, s')"
  shows "sched_inv s' \<and> ledger s' = ledger s \<and> same_flags s s' \<and>
    lifecycle_views s' = lifecycle_views s @ filter is_lifecycle (accepted_commands now words offset s)"
  using assms
proof (induction now words offset s arbitrary: r s' rule: enqueue_loop.induct)
  case (1 now words offset s)
  let ?n = "word_payload (words ! offset) + 1"
  let ?ws = "take ?n (drop offset words)"
  show ?case
  proof (cases "offset < length words \<and> ?n \<le> kMaxCommandWords \<and> ?n \<le> length words - offset")
    case False
    then have "s' = s" "accepted_commands now words offset s = []"
      using "1.prems"(2)
      by (auto simp: enqueue_loop.simps [of now words offset s]
          accepted_commands.simps [of now words offset s] Let_def split: if_splits)
    then show ?thesis using "1.prems"(1) by simp
  next
    case True
    then have ok: "complete_command ?ws" using complete_slice by blast
    obtain r1 s1 where one: "enqueue_one now ?ws s = (r1, s1)" by fastforce
    note i1 = enqueue_one_inv [OF "1.prems"(1) ok one] enqueue_one_appends [OF "1.prems"(1) ok one]
    show ?thesis
    proof (cases r1)
      case (Inl e)
      then have "s' = s1" "accepted_commands now words offset s = []"
        using "1.prems"(2) True one Inl
        by (auto simp: enqueue_loop.simps [of now words offset s]
            accepted_commands.simps [of now words offset s] Let_def)
      then show ?thesis using i1 Inl by simp
    next
      case (Inr u)
      have rest: "enqueue_loop now words (offset + ?n) s1 = (r, s')"
        and acc: "accepted_commands now words offset s =
          ?ws # accepted_commands now words (offset + ?n) s1"
        using "1.prems"(2) True one Inr
        by (simp_all add: enqueue_loop.simps [of now words offset s]
            accepted_commands.simps [of now words offset s] Let_def)
      have "sched_inv s' \<and> ledger s' = ledger s1 \<and> same_flags s1 s' \<and>
        lifecycle_views s' = lifecycle_views s1 @
          filter is_lifecycle (accepted_commands now words (offset + ?n) s1)"
        using "1.IH" [OF _ refl _ one [symmetric] Inr i1(1) rest] True by auto
      then show ?thesis using i1 Inr acc same_flags_trans [OF i1(3)] by auto
    qed
  qed
qed

end
