(* ===== verification/Scheduler_System.thy ===== *)
theory Scheduler_System
  imports Command_Scheduler
begin

text \<open>
  The worker of the command scheduler and the system it forms with its producers and its
  transport. The first part shows that taking and returning commands keep the invariant and that
  a packed transaction is always valid for the transport; the second part is a step relation with
  one step per critical section (producer calls, batch guards, shutdown, the worker's wake-up and
  each of its delivery attempts), whose reachable states satisfy the safety properties.
\<close>

section \<open>Taking and returning a command\<close>

lemma valid_count_zero:
  assumes "valid_count rows = 0" "v < length rows" "k < length (rows ! v)"
  shows "\<not> rp_valid (rows ! v ! k)"
proof -
  have "sum_list (map (\<lambda>u. of_bool (rp_valid u) :: nat) (rows ! v)) = 0"
    using assms(1,2) by (auto simp: valid_count_def)
  then have "of_bool (rp_valid (rows ! v ! k)) = (0 :: nat)"
    using assms(3) by (metis (no_types, lifting) nth_map nth_mem sum_list_eq_0_iff length_map)
  then show ?thesis by simp
qed

lemma valid_count_pos:
  assumes "valid_count rows \<noteq> 0" "\<forall>v < length rows. length (rows ! v) = 3"
  shows "\<exists>flat < length rows * 3. rp_valid (rows ! (flat div 3) ! (flat mod 3))"
proof -
  obtain row where row: "row \<in> set rows" "sum_list (map (\<lambda>u. of_bool (rp_valid u) :: nat) row) \<noteq> 0"
    using assms(1) by (auto simp: valid_count_def)
  then obtain u where u: "u \<in> set row" "rp_valid u" by (auto split: if_splits)
  obtain v where v: "v < length rows" "row = rows ! v" using row(1) by (metis in_set_conv_nth)
  obtain k where k: "k < 3" "u = rows ! v ! k" using u(1) v assms(2) by (metis in_set_conv_nth)
  have "(3 * v + k) div 3 = v" "(3 * v + k) mod 3 = k" "3 * v + k < length rows * 3"
    using k(1) v(1) by simp_all
  then show ?thesis using u(2) k(2) by metis
qed

lemma slot_index:
  assumes "sched_inv s" "flat < kSlotCount"
  shows "flat div 3 < length (sd_replaceable s)" "flat mod 3 < length (sd_replaceable s ! (flat div 3))"
  using assms by (auto simp: sched_inv_def kSlotCount_def)

text \<open>The scan visits every slot, so it fails only when no update is pending.\<close>

lemma scan_covers:
  assumes "cursor < n" "flat < n"
  shows "flat \<in> set (map (\<lambda>i. (cursor + i) mod n) [0..<n])"
proof -
  have "(cursor + (flat + n - cursor) mod n) mod n = flat"
    using assms by (simp add: mod_add_right_eq)
  moreover have "(flat + n - cursor) mod n < n" using assms by simp
  ultimately show ?thesis by force
qed

lemma pop_lifecycle:
  assumes "sched_inv s"
  shows "pop_queue (sd_lifecycle s) = None \<and> fq_contents (sd_lifecycle s) = [] \<or>
    (\<exists>c q. pop_queue (sd_lifecycle s) = Some (c, q) \<and> fq_contents (sd_lifecycle s) = c # fq_contents q \<and>
       fq_inv kSchedulerLifecycleCapacity q)"
proof -
  have inv: "fq_inv kSchedulerLifecycleCapacity (sd_lifecycle s)" using assms by (simp add: sched_inv_def)
  show ?thesis
    using lifecycle_queue.pop_none [OF inv] lifecycle_queue.pop_some [OF inv]
    by (cases "fq_contents (sd_lifecycle s)") auto
qed

lemma pop_normal:
  assumes "sched_inv s"
  shows "pop_queue (sd_normal s) = None \<and> fq_contents (sd_normal s) = [] \<or>
    (\<exists>c q. pop_queue (sd_normal s) = Some (c, q) \<and> fq_contents (sd_normal s) = c # fq_contents q \<and>
       fq_inv kSchedulerNormalCapacity q)"
proof -
  have inv: "fq_inv kSchedulerNormalCapacity (sd_normal s)" using assms by (simp add: sched_inv_def)
  show ?thesis
    using normal_queue.pop_none [OF inv] normal_queue.pop_some [OF inv]
    by (cases "fq_contents (sd_normal s)") auto
qed

lemma take_next_cases:
  assumes "sched_inv s"
  obtains
    (lifecycle) c q where "take_next s = Some (c, s\<lparr> sd_lifecycle := q \<rparr>)"
      "fq_contents (sd_lifecycle s) = c # fq_contents q" "fq_inv kSchedulerLifecycleCapacity q"
  | (normal) c q where "take_next s = Some (c, s\<lparr> sd_normal := q \<rparr>)" "fq_contents (sd_lifecycle s) = []"
      "fq_contents (sd_normal s) = c # fq_contents q" "fq_inv kSchedulerNormalCapacity q"
  | (slot) flat where "flat < kSlotCount" "rp_valid (slot_at s flat)"
      "take_next s = Some (rp_pending (slot_at s flat),
         s\<lparr> sd_replaceable := (sd_replaceable s)[flat div 3 :=
              (sd_replaceable s ! (flat div 3))[flat mod 3 := (slot_at s flat)\<lparr> rp_valid := False \<rparr>]],
            sd_replaceable_count := sd_replaceable_count s - 1,
            sd_replaceable_cursor := (flat + 1) mod kSlotCount \<rparr>)"
      "fq_contents (sd_lifecycle s) = []" "fq_contents (sd_normal s) = []"
  | (none) "take_next s = None" "pending_count s = 0"
proof -
  let ?scan = "map (\<lambda>scanned. (sd_replaceable_cursor s + scanned) mod kSlotCount) [0..<kSlotCount]"
  have cur: "sd_replaceable_cursor s < kSlotCount" using assms by (simp add: sched_inv_def)
  show ?thesis
  proof (cases "pop_queue (sd_lifecycle s)")
    case (Some cq)
    then show ?thesis using pop_lifecycle [OF assms] lifecycle by (auto simp: take_next_def)
  next
    case l: None
    then have l0: "fq_contents (sd_lifecycle s) = []" using pop_lifecycle [OF assms] by auto
    show ?thesis
    proof (cases "pop_queue (sd_normal s)")
      case (Some cq)
      then show ?thesis using pop_normal [OF assms] normal l l0 by (auto simp: take_next_def)
    next
      case n: None
      then have n0: "fq_contents (sd_normal s) = []" using pop_normal [OF assms] by auto
      show ?thesis
      proof (cases "find (\<lambda>flat. rp_valid (slot_at s flat)) ?scan")
        case (Some flat)
        then have "flat < kSlotCount" "rp_valid (slot_at s flat)"
          using cur by (auto simp: find_Some_iff)
        then show ?thesis using slot [of flat] Some l n l0 n0 by (simp add: take_next_def)
      next
        case None
        then have "\<not> rp_valid (slot_at s flat)" if "flat < kSlotCount" for flat
          using scan_covers [OF cur that] unfolding find_None_iff by blast
        then have "valid_count (sd_replaceable s) = 0"
          using valid_count_pos [of "sd_replaceable s"] assms
          by (auto simp: sched_inv_def slot_at_def kSlotCount_def)
        then have "pending_count s = 0"
          using l0 n0 assms by (simp add: pending_count_alt sched_inv_def)
        then show ?thesis using none None l n by (simp add: take_next_def)
      qed
    qed
  qed
qed

text \<open>What taking a command does, and that returning it undoes it.\<close>

definition takes :: "sched_command \<Rightarrow> scheduler \<Rightarrow> scheduler \<Rightarrow> bool" where
  "takes c s s' \<longleftrightarrow>
     sched_inv s' \<and> pending_ok (command_lane (view (sc_command c))) c \<and>
     pending_count s = Suc (pending_count s') \<and> sd_stats s' = sd_stats s \<and> same_flags s s' \<and>
     lifecycle_views s = filter is_lifecycle [view (sc_command c)] @ lifecycle_views s'"

lemma pending_ok_lane: "pending_ok l c \<Longrightarrow> pending_ok (command_lane (view (sc_command c))) c"
  by (simp add: pending_ok_def)

lemma slot_taken_count:
  assumes "sched_inv s" "flat < kSlotCount" "rp_valid (slot_at s flat)"
  shows "valid_count ((sd_replaceable s)[flat div 3 := (sd_replaceable s ! (flat div 3))
      [flat mod 3 := (slot_at s flat)\<lparr> rp_valid := False \<rparr>]]) + 1 = sd_replaceable_count s"
  using valid_count_update [OF slot_index [OF assms(1,2)], of "(slot_at s flat)\<lparr> rp_valid := False \<rparr>"]
    assms(1,3) by (simp add: slot_at_def sched_inv_def)

lemma take_next_takes:
  assumes "sched_inv s" "take_next s = Some (c, s')"
  shows "takes c s s'"
  using assms(1)
proof (cases rule: take_next_cases)
  case (lifecycle c' q)
  then have c: "c' = c" "s' = s\<lparr> sd_lifecycle := q \<rparr>" using assms(2) by simp_all
  have "fq_count (sd_lifecycle s) = Suc (fq_count q)" using lifecycle(2) by (metis length_Cons length_fq_contents)
  moreover have "pending_ok LifecycleLane c" using assms(1) lifecycle(2) c by (simp add: sched_inv_def)
  ultimately show ?thesis
    using assms(1) lifecycle c
    by (auto simp: takes_def sched_inv_def pending_count_def lifecycle_views_def is_lifecycle_def
        pending_ok_def)
next
  case (normal c' q)
  then have c: "c' = c" "s' = s\<lparr> sd_normal := q \<rparr>" using assms(2) by simp_all
  have "fq_count (sd_normal s) = Suc (fq_count q)" using normal(3) by (metis length_Cons length_fq_contents)
  moreover have "pending_ok NormalLane c" using assms(1) normal(3) c by (simp add: sched_inv_def)
  ultimately show ?thesis
    using assms(1) normal c
    by (auto simp: takes_def sched_inv_def pending_count_def lifecycle_views_def is_lifecycle_def
        pending_ok_def)
next
  case (slot flat)
  have c: "c = rp_pending (slot_at s flat)" and s': "s' = s\<lparr> sd_replaceable := (sd_replaceable s)[flat div 3 :=
      (sd_replaceable s ! (flat div 3))[flat mod 3 := (slot_at s flat)\<lparr> rp_valid := False \<rparr>]],
      sd_replaceable_count := sd_replaceable_count s - 1,
      sd_replaceable_cursor := (flat + 1) mod kSlotCount \<rparr>"
    using slot(3) assms(2) by simp_all
  have ok: "pending_ok (SlotLane (flat div 3) (flat mod 3)) c"
    using assms(1) slot(1,2) c by (auto simp: sched_inv_def slot_at_def kSlotCount_def)
  have "sched_inv s'"
    using assms(1) slot_taken_count [OF assms(1) slot(1,2)]
    unfolding s' sched_inv_def
    by (auto simp: nested_update [OF slot_index [OF assms(1) slot(1)]] kSlotCount_def kNumVoices_def)
  moreover have "pending_count s = Suc (pending_count s')"
    using slot_taken_count [OF assms(1) slot(1,2)] by (simp add: s' pending_count_def)
  moreover have "\<not> is_lifecycle (view (sc_command c))"
    using ok by (simp add: pending_ok_def is_lifecycle_def)
  ultimately show ?thesis
    using slot(4) pending_ok_lane [OF ok] by (simp add: takes_def lifecycle_views_def s')
next
  case none
  then show ?thesis using assms(2) by simp
qed

lemma take_next_none: "sched_inv s \<Longrightarrow> take_next s = None \<longleftrightarrow> pending_count s = 0"
  using take_next_takes [of s] take_next_cases [of s "take_next s = None \<longleftrightarrow> pending_count s = 0"]
  by (auto simp: takes_def)

lemma view_first:
  "command_wf c \<Longrightarrow> view c \<noteq> [] \<Longrightarrow> cmd_words c ! 0 = view c ! 0"
  by (auto simp: view_def command_wf_def)

definition returns_to :: "scheduler \<Rightarrow> scheduler \<Rightarrow> bool" where
  "returns_to s s' \<longleftrightarrow>
     sched_inv s' \<and> pending_count s' = pending_count s \<and> sd_stats s' = sd_stats s \<and>
     same_flags s s' \<and> lifecycle_views s' = lifecycle_views s"

lemma return_slot:
  assumes "sched_inv s" "flat < kSlotCount" "rp_valid (slot_at s flat)"
  defines "c \<equiv> rp_pending (slot_at s flat)"
  assumes s': "s' = s\<lparr> sd_replaceable := (sd_replaceable s)[flat div 3 :=
      (sd_replaceable s ! (flat div 3))[flat mod 3 := (slot_at s flat)\<lparr> rp_valid := False \<rparr>]],
      sd_replaceable_count := sd_replaceable_count s - 1,
      sd_replaceable_cursor := (flat + 1) mod kSlotCount \<rparr>"
    and taken: "takes c s s'"
  shows "returns_to s (return_command c s')"
proof -
  let ?ws = "view (sc_command c)"
  let ?k = "replaceable_kind (word_opcode (?ws ! 0))"
  have ok: "pending_ok (SlotLane (flat div 3) (flat mod 3)) c"
    using assms(1-3) by (auto simp: sched_inv_def slot_at_def kSlotCount_def c_def)
  then have lane: "command_lane ?ws = SlotLane (flat div 3) (flat mod 3)" and ne: "?ws \<noteq> []"
    and wf: "command_wf (sc_command c)"
    by (simp_all add: pending_ok_def complete_command_def)
  have cond: "\<not> lifecycle_opcode (word_opcode (?ws ! 0))" "0 \<le> ?k" "command_voice ?ws < int kNumVoices"
    "nat (command_voice ?ws) = flat div 3" "nat ?k = flat mod 3"
    using lane by (auto simp: command_lane_def Let_def split: if_splits)
  have v0: "0 \<le> command_voice ?ws" by (simp add: command_voice_def)
  obtain b s'' where st: "store_update (command_voice ?ws) ?k c (command_generation ?ws) s' = (b, s'')"
    by fastforce
  have ret: "return_command c s' = s''"
    using cond v0 st view_first [OF wf ne] by (simp add: return_command_def Let_def)
  have "b = rp_valid (sd_replaceable s' ! (flat div 3) ! (flat mod 3))"
    using st cond by (auto simp: store_update_def Let_def)
  then have b: "\<not> b"
    by (simp add: s' nested_update [OF slot_index [OF assms(1,2)]])
  have "sched_inv s'" using taken by (simp add: takes_def)
  then have "sched_inv s''" "pending_count s'' = pending_count s' + 1" "sd_stats s'' = sd_stats s'"
    using store_update_inv [OF _ v0 cond(3,2) replaceable_kind_range(1) _ st] ok cond(4,5) b by simp_all
  moreover have "lifecycle_views s'' = lifecycle_views s'" "same_flags s' s''"
    using store_update_keeps [OF st] by (simp_all add: lifecycle_views_def)
  moreover have "lifecycle_views s' = lifecycle_views s" by (simp add: s' lifecycle_views_def)
  ultimately show ?thesis
    using taken same_flags_trans by (auto simp: returns_to_def takes_def ret)
qed

lemma return_after_take:
  assumes "sched_inv s" "take_next s = Some (c, s')"
  shows "returns_to s (return_command c s')"
  using assms(1)
proof (cases rule: take_next_cases)
  case (lifecycle c' q)
  then have c: "c' = c" "s' = s\<lparr> sd_lifecycle := q \<rparr>" using assms(2) by simp_all
  have ok: "pending_ok LifecycleLane c" using assms(1) lifecycle(2) c by (simp add: sched_inv_def)
  then have wf: "command_wf (sc_command c)" "view (sc_command c) \<noteq> []"
    and op: "lifecycle_opcode (word_opcode (view (sc_command c) ! 0))"
    by (auto simp: pending_ok_def complete_command_def command_lane_def Let_def split: if_splits)
  have "fq_count (sd_lifecycle s) = Suc (fq_count q)" using lifecycle(2) by (metis length_Cons length_fq_contents)
  then have "length (fq_contents q) < kSchedulerLifecycleCapacity"
    using assms(1) by (simp add: sched_inv_def fq_inv_def)
  then have u: "fq_inv kSchedulerLifecycleCapacity (unpop_queue c q)"
    "fq_contents (unpop_queue c q) = fq_contents (sd_lifecycle s)"
    using lifecycle_queue.unpop_front [OF lifecycle(3), of c] lifecycle(2) c by simp_all
  then have "fq_count (unpop_queue c q) = fq_count (sd_lifecycle s)" by (metis length_fq_contents)
  then show ?thesis
    using assms(1) u c op view_first [OF wf]
    by (simp add: return_command_def Let_def returns_to_def sched_inv_def pending_count_def
        lifecycle_views_def)
next
  case (normal c' q)
  then have c: "c' = c" "s' = s\<lparr> sd_normal := q \<rparr>" using assms(2) by simp_all
  have ok: "pending_ok NormalLane c" using assms(1) normal(3) c by (simp add: sched_inv_def)
  then have wf: "command_wf (sc_command c)" "view (sc_command c) \<noteq> []"
    and op: "\<not> lifecycle_opcode (word_opcode (view (sc_command c) ! 0))"
    "\<not> (0 \<le> replaceable_kind (word_opcode (view (sc_command c) ! 0)) \<and>
        command_voice (view (sc_command c)) < int kNumVoices)"
    by (auto simp: pending_ok_def complete_command_def command_lane_def Let_def split: if_splits)
  have "fq_count (sd_normal s) = Suc (fq_count q)" using normal(3) by (metis length_Cons length_fq_contents)
  then have "length (fq_contents q) < kSchedulerNormalCapacity"
    using assms(1) by (simp add: sched_inv_def fq_inv_def)
  then have u: "fq_inv kSchedulerNormalCapacity (unpop_queue c q)"
    "fq_contents (unpop_queue c q) = fq_contents (sd_normal s)"
    using normal_queue.unpop_front [OF normal(4), of c] normal(3) c by simp_all
  then have "fq_count (unpop_queue c q) = fq_count (sd_normal s)" by (metis length_fq_contents)
  then show ?thesis
    using assms(1) u c op view_first [OF wf]
    by (auto simp: return_command_def Let_def returns_to_def sched_inv_def pending_count_def
        lifecycle_views_def)
next
  case (slot flat)
  then show ?thesis using return_slot [OF assms(1) slot(1,2)] take_next_takes [OF assms] assms(2) by simp
next
  case none
  then show ?thesis using assms(2) by simp
qed

section \<open>Packing a transaction\<close>

definition tn_views :: "transaction \<Rightarrow> u32 list list" where
  "tn_views t = map (\<lambda>c. view (sc_command c)) (tn_commands t)"

definition tn_ok :: "transaction \<Rightarrow> bool" where
  "tn_ok t \<longleftrightarrow>
     tn_words t = concat (tn_views t) \<and> list_all complete_command (tn_views t) \<and>
     length (tn_words t) \<le> kMaxTransactionWords"

text \<open>The commands of \<open>t'\<close> beyond those of \<open>t\<close> came out of the scheduler.\<close>

definition packs :: "scheduler \<Rightarrow> transaction \<Rightarrow> scheduler \<Rightarrow> transaction \<Rightarrow> bool" where
  "packs s t s' t' \<longleftrightarrow>
     sched_inv s' \<and> tn_ok t' \<and> sd_stats s' = sd_stats s \<and> same_flags s s' \<and>
     length (tn_commands t') + pending_count s' = length (tn_commands t) + pending_count s \<and>
     filter is_lifecycle (tn_views t') @ lifecycle_views s' =
       filter is_lifecycle (tn_views t) @ lifecycle_views s \<and>
     length (tn_commands t) \<le> length (tn_commands t')"

lemma cmd_length_view: "command_wf c \<Longrightarrow> cmd_length c = length (view c)"
  by (simp add: command_wf_def view_def)

lemma tn_append_ok:
  assumes "tn_ok t" "pending_ok l c"
    "tn_words t = [] \<or> length (tn_words t) + cmd_length (sc_command c) \<le> kMaxTransactionWords"
  shows "tn_ok (tn_append t c)"
proof -
  have "cmd_length (sc_command c) = length (view (sc_command c))" "complete_command (view (sc_command c))"
    using assms(2) by (simp_all add: pending_ok_def cmd_length_view)
  moreover from this(2) have "length (view (sc_command c)) \<le> 17"
    by (simp add: complete_command_def kMaxCommandPayloadWords_def)
  ultimately have "length (tn_words t @ view (sc_command c)) \<le> kMaxTransactionWords"
    using assms(3) by (auto simp: kMaxTransactionWords_def)
  then show ?thesis
    using assms(1) \<open>complete_command _\<close> by (simp add: tn_ok_def tn_append_def tn_views_def)
qed

lemma packs_step:
  assumes "takes c s s1" "tn_ok (tn_append t c)"
  shows "packs s t s1 (tn_append t c)"
  using assms by (auto simp: packs_def takes_def tn_append_def tn_views_def)

lemma packs_trans: "packs s t s1 t1 \<Longrightarrow> packs s1 t1 s2 t2 \<Longrightarrow> packs s t s2 t2"
  unfolding packs_def using same_flags_trans by auto

lemma packs_returned: "returns_to s s' \<Longrightarrow> tn_ok t \<Longrightarrow> packs s t s' t"
  by (simp add: packs_def returns_to_def)

lemma pack_loop_packs:
  assumes "sched_inv s" "tn_ok t" "pending_count s < fuel"
  shows "\<exists>s' t'. pack_loop fuel s t = Some (s', t') \<and> packs s t s' t' \<and>
    (tn_words t = [] \<longrightarrow> pending_count s \<noteq> 0 \<longrightarrow> tn_commands t' \<noteq> [])"
  using assms
proof (induction fuel arbitrary: s t)
  case (Suc fuel)
  show ?case
  proof (cases "take_next s")
    case None
    then have "pending_count s = 0" using take_next_none [OF Suc.prems(1)] by simp
    then show ?thesis using None Suc.prems by (simp add: packs_def)
  next
    case (Some cs)
    obtain c s1 where cs: "cs = (c, s1)" by fastforce
    have taken: "takes c s s1" using take_next_takes [OF Suc.prems(1)] Some cs by simp
    show ?thesis
    proof (cases "tn_words t \<noteq> [] \<and> length (tn_words t) + cmd_length (sc_command c) > kMaxTransactionWords")
      case True
      then show ?thesis
        using Some cs packs_returned [OF return_after_take [OF Suc.prems(1)] Suc.prems(2)] by simp
    next
      case False
      have "pending_ok (command_lane (view (sc_command c))) c" using taken by (simp add: takes_def)
      then have t1: "tn_ok (tn_append t c)" using tn_append_ok [OF Suc.prems(2)] False by auto
      note step = packs_step [OF taken t1]
      have ne: "tn_commands (tn_append t c) \<noteq> []" by (simp add: tn_append_def)
      show ?thesis
      proof (cases "length (tn_words (tn_append t c)) = kMaxTransactionWords")
        case full: True
        then show ?thesis using Some cs False step ne by (auto simp: Let_def)
      next
        case notfull: False
        have "sched_inv s1" "pending_count s1 < fuel"
          using taken Suc.prems(3) by (simp_all add: takes_def)
        then obtain s' t' where r: "pack_loop fuel s1 (tn_append t c) = Some (s', t')"
          "packs s1 (tn_append t c) s' t'"
          using Suc.IH [OF _ t1] by blast
        have "tn_commands t' \<noteq> []"
          using r(2) ne by (auto simp: packs_def)
        then show ?thesis
          using Some cs False notfull r packs_trans [OF step r(2)] by (auto simp: Let_def)
      qed
    qed
  qed
qed simp

lemma tn_ok_empty: "tn_ok empty_transaction"
  by (simp add: tn_ok_def empty_transaction_def tn_views_def)

lemma tn_ok_valid:
  assumes "tn_ok t" "tn_commands t \<noteq> []"
  shows "validate_command_transaction (tn_words t) = Inr ()"
proof -
  have "concat (tn_views t) \<noteq> []"
    using assms by (cases "tn_commands t") (auto simp: tn_ok_def tn_views_def complete_command_def)
  then show ?thesis
    using assms(1) by (auto simp: validate_iff tn_ok_def kMaxTransactionWords_def
        kMaxCommandTransactionWords_def)
qed

lemma pack_transaction_packs:
  assumes "sched_inv s" "has_pending s"
  shows "\<exists>s' t. pack_transaction s = Some (s', t) \<and> sched_inv s' \<and> tn_ok t \<and> tn_commands t \<noteq> [] \<and>
    ledger s' = ledger s + of_nat (length (tn_commands t)) \<and>
    length (tn_commands t) + pending_count s' = pending_count s \<and>
    filter is_lifecycle (tn_views t) @ lifecycle_views s' = lifecycle_views s \<and>
    sd_stopping s' = sd_stopping s \<and> sd_stopped s' = sd_stopped s \<and>
    sd_batch_depth s' = sd_batch_depth s \<and> sd_worker_busy s'"
proof -
  let ?b = "s\<lparr> sd_worker_busy := True \<rparr>"
  have b: "sched_inv ?b" "pending_count ?b = pending_count s" "sd_stats ?b = sd_stats s"
    using assms(1) by (simp_all add: sched_inv_def pending_count_def)
  obtain s1 t where p: "pack_loop (pending_count s + 1) ?b empty_transaction = Some (s1, t)"
    "packs ?b empty_transaction s1 t" "tn_commands t \<noteq> []"
    using pack_loop_packs [OF b(1) tn_ok_empty, of "pending_count s + 1"] assms(2) b(2)
    by (auto simp: has_pending_def empty_transaction_def)
  let ?s' = "s1\<lparr> sd_stats := (sd_stats s1)\<lparr> st_pending_commands := of_nat (pending_count s1) \<rparr> \<rparr>"
  have count: "length (tn_commands t) + pending_count s1 = pending_count s"
    using p(2) b(2) by (simp add: packs_def empty_transaction_def)
  then have "of_nat (pending_count s) = (of_nat (length (tn_commands t)) + of_nat (pending_count s1) :: u64)"
    by (metis of_nat_add)
  moreover have same: "pending_count ?s' = pending_count s1" "sd_stats s1 = sd_stats s"
    using p(2) by (simp_all add: pending_count_def packs_def)
  ultimately have "ledger ?s' = ledger s + of_nat (length (tn_commands t))"
    unfolding ledger_def same(1) by simp
  moreover have "lifecycle_views ?b = lifecycle_views s" "lifecycle_views ?s' = lifecycle_views s1"
    by (simp_all add: lifecycle_views_def)
  moreover have "sched_inv ?s'" using p(2) by (simp add: packs_def sched_inv_def)
  ultimately show ?thesis
    using p count same b
    by (auto simp: pack_transaction_def packs_def tn_views_def empty_transaction_def same_flags_def)
qed

section \<open>The system\<close>

datatype worker_pc = Waiting | Sending transaction | Exited

text \<open>
  \<open>sy_accepted\<close> (the lifecycle commands ever stored) and \<open>sy_done\<close> (the transactions the worker
  is through with, each with whether it was delivered) are history variables.
\<close>

record 't system =
  sy_sched :: scheduler
  sy_transport :: 't
  sy_pc :: worker_pc
  sy_accepted :: "u32 list list"
  sy_done :: "(bool \<times> transaction) list"

definition system_new :: "'t \<Rightarrow> 't system" where
  "system_new transport =
     \<lparr> sy_sched = scheduler_new, sy_transport = transport, sy_pc = Waiting, sy_accepted = [],
       sy_done = [] \<rparr>"

text \<open>
  One turn of \<open>worker_main\<close>: the wake-up with the packing of a transaction, or one delivery
  attempt. The result is None while the worker waits or after it has exited.
\<close>

definition worker_step :: "'t sink \<Rightarrow> u64 \<Rightarrow> u64 \<Rightarrow> 't system \<Rightarrow> 't system option" where
  "worker_step write driver_start now y =
     (let s = sy_sched y in
      case sy_pc y of
        Waiting \<Rightarrow>
          if \<not> (sd_stopping s \<or> sd_batch_depth s = 0 \<and> has_pending s) then None
          else if sd_stopping s \<and> \<not> has_pending s
          then Some (y\<lparr> sy_sched := s\<lparr> sd_worker_busy := False \<rparr>, sy_pc := Exited \<rparr>)
          else if sd_batch_depth s \<noteq> 0 then None
          else
            (case pack_transaction s of
               None \<Rightarrow> None
             | Some (s1, t) \<Rightarrow> Some (y\<lparr> sy_sched := s1, sy_pc := Sending t \<rparr>))
      | Sending t \<Rightarrow>
          (case write (sy_transport y) (tn_words t) of
             (Inr _, k) \<Rightarrow>
               Some (y\<lparr> sy_sched := finish_transaction False t (note_delivered driver_start now t s),
                        sy_transport := k, sy_pc := Waiting, sy_done := sy_done y @ [(True, t)] \<rparr>)
           | (Inl e, k) \<Rightarrow>
               let s1 = note_transport_error (now - driver_start) s in
               if sd_stopping s
               then Some (y\<lparr> sy_sched := finish_transaction True t s1, sy_transport := k,
                             sy_pc := Waiting, sy_done := sy_done y @ [(False, t)] \<rparr>)
               else Some (y\<lparr> sy_sched := s1, sy_transport := k \<rparr>))
      | Exited \<Rightarrow> None)"

definition accepted_of_call :: "u64 \<Rightarrow> u32 list \<Rightarrow> scheduler \<Rightarrow> u32 list list" where
  "accepted_of_call now words s =
     (if words = [] \<or> sd_stopping s then [] else accepted_commands now words 0 s)"

inductive system_step :: "'t sink \<Rightarrow> 't system \<Rightarrow> 't system \<Rightarrow> bool" for wr where
  producer: "scheduler_write now words (sy_sched y) = (r, s') \<Longrightarrow>
      system_step wr y (y\<lparr> sy_sched := s', sy_accepted := sy_accepted y @
        filter is_lifecycle (accepted_of_call now words (sy_sched y)) \<rparr>)"
| batch: "begin_batch (sy_sched y) = (r, s') \<Longrightarrow> system_step wr y (y\<lparr> sy_sched := s' \<rparr>)"
| unbatch: "system_step wr y (y\<lparr> sy_sched := end_batch (sy_sched y) \<rparr>)"
| stop: "system_step wr y (y\<lparr> sy_sched := request_stop (sy_sched y) \<rparr>)"
| joined: "sy_pc y = Exited \<Longrightarrow>
      system_step wr y (y\<lparr> sy_sched := (sy_sched y)\<lparr> sd_stopped := True \<rparr> \<rparr>)"
| worker: "worker_step wr driver_start now y = Some y' \<Longrightarrow> system_step wr y y'"

inductive reachable_system :: "'t sink \<Rightarrow> 't \<Rightarrow> 't system \<Rightarrow> bool" for wr and transport where
  start: "reachable_system wr transport (system_new transport)"
| step: "reachable_system wr transport y \<Longrightarrow> system_step wr y y' \<Longrightarrow>
      reachable_system wr transport y'"

section \<open>The system invariant\<close>

definition in_hand :: "'t system \<Rightarrow> transaction list" where
  "in_hand y = (case sy_pc y of Sending t \<Rightarrow> [t] | _ \<Rightarrow> [])"

definition lifecycle_of :: "transaction \<Rightarrow> u32 list list" where
  "lifecycle_of t = filter is_lifecycle (tn_views t)"

definition system_inv :: "'t system \<Rightarrow> bool" where
  "system_inv y \<longleftrightarrow>
     sched_inv (sy_sched y) \<and>
     list_all (\<lambda>t. tn_ok t \<and> tn_commands t \<noteq> []) (in_hand y @ map snd (sy_done y)) \<and>
     ledger (sy_sched y) = of_nat (sum_list (map (\<lambda>t. length (tn_commands t)) (in_hand y))) \<and>
     concat (map lifecycle_of (map snd (sy_done y) @ in_hand y)) @ lifecycle_views (sy_sched y) =
       sy_accepted y"

lemma system_inv_sched:
  assumes "system_inv y" "sched_inv s'" "ledger s' = ledger (sy_sched y)"
    "lifecycle_views s' = lifecycle_views (sy_sched y) @ new"
  shows "system_inv (y\<lparr> sy_sched := s', sy_accepted := sy_accepted y @ new \<rparr>)"
  using assms by (auto simp: system_inv_def in_hand_def)

lemma system_inv_quiet:
  assumes "system_inv y" "sched_inv s'" "ledger s' = ledger (sy_sched y)"
    "lifecycle_views s' = lifecycle_views (sy_sched y)"
  shows "system_inv (y\<lparr> sy_sched := s' \<rparr>)"
  using assms by (auto simp: system_inv_def in_hand_def)

lemma control_inv:
  assumes "sched_inv s"
  shows "sched_inv (end_batch s)" "ledger (end_batch s) = ledger s"
    "lifecycle_views (end_batch s) = lifecycle_views s"
    "sched_inv (request_stop s)" "ledger (request_stop s) = ledger s"
    "lifecycle_views (request_stop s) = lifecycle_views s"
    "sched_inv (snd (begin_batch s))" "ledger (snd (begin_batch s)) = ledger s"
    "lifecycle_views (snd (begin_batch s)) = lifecycle_views s"
    "sched_inv (s\<lparr> sd_stopped := b \<rparr>)" "ledger (s\<lparr> sd_stopped := b \<rparr>) = ledger s"
    "lifecycle_views (s\<lparr> sd_stopped := b \<rparr>) = lifecycle_views s"
    "sched_inv (s\<lparr> sd_worker_busy := b \<rparr>)" "ledger (s\<lparr> sd_worker_busy := b \<rparr>) = ledger s"
    "lifecycle_views (s\<lparr> sd_worker_busy := b \<rparr>) = lifecycle_views s"
    "sched_inv (note_transport_error n s)" "ledger (note_transport_error n s) = ledger s"
    "lifecycle_views (note_transport_error n s) = lifecycle_views s"
  using assms
  by (simp_all add: end_batch_def request_stop_def begin_batch_def note_transport_error_def Let_def
      sched_inv_def ledger_def pending_count_def lifecycle_views_def)

lemma finish_inv:
  assumes "sched_inv s"
  shows "sched_inv (finish_transaction False t (note_delivered a b t s))"
    "ledger (finish_transaction False t (note_delivered a b t s)) = ledger s - of_nat (length (tn_commands t))"
    "lifecycle_views (finish_transaction False t (note_delivered a b t s)) = lifecycle_views s"
    "sched_inv (finish_transaction True t s)"
    "ledger (finish_transaction True t s) = ledger s - of_nat (length (tn_commands t))"
    "lifecycle_views (finish_transaction True t s) = lifecycle_views s"
  using assms
  by (simp_all add: finish_transaction_def note_delivered_def Let_def sched_inv_def ledger_def
      pending_count_def lifecycle_views_def)

lemma scheduler_write_inv:
  assumes "sched_inv s" "scheduler_write now words s = (r, s')"
  shows "sched_inv s'" "ledger s' = ledger s"
    "lifecycle_views s' = lifecycle_views s @ filter is_lifecycle (accepted_of_call now words s)"
    "same_flags s s'"
  using enqueue_loop_inv [OF assms(1), of now words 0] assms
  by (auto simp: scheduler_write_def accepted_of_call_def split: if_splits)

lemma worker_step_inv:
  assumes "system_inv y" "worker_step wr a b y = Some y'"
  shows "system_inv y'"
proof -
  have inv: "sched_inv (sy_sched y)" using assms(1) by (simp add: system_inv_def)
  show ?thesis
  proof (cases "sy_pc y")
    case Waiting
    consider (exit) "y' = y\<lparr> sy_sched := (sy_sched y)\<lparr> sd_worker_busy := False \<rparr>, sy_pc := Exited \<rparr>"
      | (pack) s1 t where "has_pending (sy_sched y)" "pack_transaction (sy_sched y) = Some (s1, t)"
          "y' = y\<lparr> sy_sched := s1, sy_pc := Sending t \<rparr>"
      using assms(2) Waiting by (auto simp: worker_step_def Let_def split: if_splits option.splits)
    then show ?thesis
    proof cases
      case exit
      then show ?thesis using assms(1) Waiting control_inv [OF inv]
        by (auto simp: system_inv_def in_hand_def)
    next
      case pack
      then show ?thesis
        using assms(1) Waiting pack_transaction_packs [OF inv pack(1)]
        by (auto simp: system_inv_def in_hand_def lifecycle_of_def)
    qed
  next
    case (Sending t)
    obtain r k where w: "wr (sy_transport y) (tn_words t) = (r, k)" by fastforce
    show ?thesis
    proof (cases r)
      case (Inr u)
      then show ?thesis
        using assms Sending w finish_inv [OF inv]
        by (auto simp: worker_step_def Let_def system_inv_def in_hand_def)
    next
      case (Inl e)
      then show ?thesis
        using assms Sending w finish_inv(4-6) [OF control_inv(16) [OF inv]] control_inv [OF inv]
        by (auto simp: worker_step_def Let_def system_inv_def in_hand_def split: if_splits)
    qed
  next
    case Exited
    then show ?thesis using assms(2) by (simp add: worker_step_def)
  qed
qed

lemma system_step_inv:
  assumes "system_step wr y y'" "system_inv y"
  shows "system_inv y'"
  using assms
proof (induction rule: system_step.induct)
  case (producer now words y r s')
  have "sched_inv (sy_sched y)" using producer(2) by (simp add: system_inv_def)
  then show ?case using scheduler_write_inv producer by (intro system_inv_sched) auto
next
  case (batch y r s')
  then have inv: "sched_inv (sy_sched y)" and s': "s' = snd (begin_batch (sy_sched y))"
    by (simp_all add: system_inv_def)
  show ?case unfolding s' using control_inv(7-9) [OF inv] batch(2) by (intro system_inv_quiet) auto
next
  case (unbatch y)
  then have inv: "sched_inv (sy_sched y)" by (simp add: system_inv_def)
  show ?case using control_inv [OF inv] unbatch by (intro system_inv_quiet) auto
next
  case (stop y)
  then have inv: "sched_inv (sy_sched y)" by (simp add: system_inv_def)
  show ?case using control_inv [OF inv] stop by (intro system_inv_quiet) auto
next
  case (joined y)
  then have inv: "sched_inv (sy_sched y)" by (simp add: system_inv_def)
  show ?case using control_inv [OF inv] joined by (intro system_inv_quiet) auto
next
  case (worker a b y y')
  then show ?case by (rule worker_step_inv [rotated])
qed

lemma system_new_inv: "system_inv (system_new k)"
  using scheduler_new_inv fixed_queue_new_inv [of kSchedulerLifecycleCapacity]
  by (simp add: system_inv_def system_new_def in_hand_def ledger_def pending_count_def
      lifecycle_views_def scheduler_new_def default_scheduler_stats_def fixed_queue_new_def
      kSchedulerLifecycleCapacity_def fq_contents_def)

lemma reachable_inv: "reachable_system wr k y \<Longrightarrow> system_inv y"
  by (induction rule: reachable_system.induct) (auto intro: system_new_inv system_step_inv)

section \<open>Progress\<close>

fun worker_run :: "'t sink \<Rightarrow> (u64 \<times> u64) list \<Rightarrow> 't system \<Rightarrow> 't system" where
  "worker_run write [] y = y"
| "worker_run write ((driver_start, now) # clocks) y =
     (case worker_step write driver_start now y of
        None \<Rightarrow> worker_run write clocks y
      | Some y' \<Rightarrow> worker_run write clocks y')"

text \<open>Turns the worker still needs when every delivery succeeds.\<close>

definition turns_left :: "'t system \<Rightarrow> nat" where
  "turns_left y = 2 * pending_count (sy_sched y) + length (in_hand y)"

definition running :: "'t system \<Rightarrow> bool" where
  "running y \<longleftrightarrow> \<not> sd_stopping (sy_sched y) \<and> sd_batch_depth (sy_sched y) = 0 \<and> sy_pc y \<noteq> Exited"

lemma finish_keeps:
  "pending_count (finish_transaction ab t (note_delivered a b t s)) = pending_count s"
  "sd_stopping (finish_transaction ab t (note_delivered a b t s)) = sd_stopping s"
  "sd_batch_depth (finish_transaction ab t (note_delivered a b t s)) = sd_batch_depth s"
  by (simp_all add: finish_transaction_def note_delivered_def Let_def pending_count_def)

lemma idle_step:
  assumes "running y" "turns_left y = 0"
  shows "worker_step wr a b y = None"
  using assms
  by (cases "sy_pc y") (auto simp: worker_step_def running_def turns_left_def in_hand_def
      has_pending_def Let_def)

lemma worker_run_idle: "running y \<Longrightarrow> turns_left y = 0 \<Longrightarrow> worker_run wr clocks y = y"
  by (induction wr clocks y rule: worker_run.induct) (simp_all add: idle_step)

locale transaction_transport = command_sink wr good "\<lambda>ws. validate_command_transaction ws = Inr ()"
  for wr :: "'t sink" and good :: "'t \<Rightarrow> bool"
begin

lemma working_step:
  assumes "system_inv y" "running y" "good (sy_transport y)" "turns_left y \<noteq> 0"
  shows "\<exists>y' ts. worker_step wr a b y = Some y' \<and> system_inv y' \<and> running y' \<and> good (sy_transport y') \<and>
    turns_left y' < turns_left y \<and> sy_done y' = sy_done y @ map (Pair True) ts \<and>
    sy_accepted y' = sy_accepted y"
proof (cases "sy_pc y")
  case Waiting
  then have p: "has_pending (sy_sched y)" "sched_inv (sy_sched y)"
    using assms(1,4) by (simp_all add: turns_left_def in_hand_def has_pending_def system_inv_def)
  obtain s1 t where pk: "pack_transaction (sy_sched y) = Some (s1, t)" "tn_commands t \<noteq> []"
    "length (tn_commands t) + pending_count s1 = pending_count (sy_sched y)"
    "sd_stopping s1 = sd_stopping (sy_sched y)" "sd_batch_depth s1 = sd_batch_depth (sy_sched y)"
    using pack_transaction_packs [OF p(2,1)] by blast
  let ?y' = "y\<lparr> sy_sched := s1, sy_pc := Sending t \<rparr>"
  have step: "worker_step wr a b y = Some ?y'"
    using Waiting p(1) assms(2) pk(1) by (simp add: worker_step_def running_def Let_def)
  have "Suc (pending_count s1) \<le> pending_count (sy_sched y)"
    using pk(2,3) by (cases "tn_commands t") auto
  then have "turns_left ?y' < turns_left y"
    using Waiting by (simp add: turns_left_def in_hand_def)
  moreover have "running ?y'" using assms(2) pk(4,5) by (simp add: running_def)
  ultimately show ?thesis
    using step worker_step_inv [OF assms(1) step] assms(3) by (intro exI [of _ ?y'] exI [of _ "[]"]) simp
next
  case (Sending t)
  have "validate_command_transaction (tn_words t) = Inr ()"
    using assms(1) Sending by (auto simp: system_inv_def in_hand_def intro: tn_ok_valid)
  then obtain k where k: "wr (sy_transport y) (tn_words t) = (Inr (), k)" "good k"
    using accept [OF assms(3)] by blast
  let ?y' = "y\<lparr> sy_sched := finish_transaction False t (note_delivered a b t (sy_sched y)),
      sy_transport := k, sy_pc := Waiting, sy_done := sy_done y @ [(True, t)] \<rparr>"
  have step: "worker_step wr a b y = Some ?y'"
    using Sending k(1) by (simp add: worker_step_def Let_def)
  moreover have "turns_left ?y' < turns_left y" "running ?y'"
    using assms(2) Sending by (simp_all add: turns_left_def in_hand_def running_def finish_keeps)
  ultimately show ?thesis
    using worker_step_inv [OF assms(1) step] k(2) by (intro exI [of _ ?y'] exI [of _ "[t]"]) simp
next
  case Exited
  then show ?thesis using assms(2) by (simp add: running_def)
qed

lemma drains:
  assumes "system_inv y" "running y" "good (sy_transport y)" "turns_left y \<le> length clocks"
  shows "\<exists>ts. system_inv (worker_run wr clocks y) \<and> turns_left (worker_run wr clocks y) = 0 \<and>
    sy_pc (worker_run wr clocks y) = Waiting \<and>
    sy_done (worker_run wr clocks y) = sy_done y @ map (Pair True) ts \<and>
    sy_accepted (worker_run wr clocks y) = sy_accepted y"
  using assms
proof (induction clocks arbitrary: y)
  case Nil
  then have "turns_left y = 0" by simp
  moreover from this have "sy_pc y = Waiting"
    using Nil(2) by (cases "sy_pc y") (auto simp: turns_left_def in_hand_def running_def)
  ultimately show ?case using Nil(1) by simp
next
  case (Cons cl clocks)
  obtain a b where cl: "cl = (a, b)" by fastforce
  show ?case
  proof (cases "turns_left y = 0")
    case True
    then have "worker_run wr (cl # clocks) y = y" using worker_run_idle Cons.prems(2) by blast
    moreover have "sy_pc y = Waiting"
      using True Cons.prems(2) by (cases "sy_pc y") (auto simp: turns_left_def in_hand_def running_def)
    ultimately show ?thesis using Cons.prems(1) True by simp
  next
    case False
    obtain y' ts where y': "worker_step wr a b y = Some y'" "system_inv y'" "running y'"
      "good (sy_transport y')" "turns_left y' < turns_left y"
      "sy_done y' = sy_done y @ map (Pair True) ts" "sy_accepted y' = sy_accepted y"
      using working_step [OF Cons.prems(1-3) False, of a b] by blast
    have "turns_left y' \<le> length clocks" using y'(5) Cons.prems(4) by simp
    from Cons.IH [OF y'(2-4) this] show ?thesis using y'(1,6,7) cl by (auto simp: map_append [symmetric] simp del: map_append)
  qed
qed

lemma step_keeps_good:
  assumes "system_inv y" "good (sy_transport y)" "system_step wr y y'"
  shows "good (sy_transport y')"
  using assms(3,1,2)
proof (induction rule: system_step.induct)
  case (worker a b y y')
  show ?case
  proof (cases "sy_pc y")
    case (Sending t)
    have "validate_command_transaction (tn_words t) = Inr ()"
      using worker(2) Sending by (auto simp: system_inv_def in_hand_def intro: tn_ok_valid)
    then obtain k where "wr (sy_transport y) (tn_words t) = (Inr (), k)" "good k"
      using accept [OF worker(3)] by blast
    then show ?thesis using worker(1) Sending by (auto simp: worker_step_def Let_def)
  qed (use worker in \<open>auto simp: worker_step_def Let_def split: if_splits option.splits\<close>)
qed auto

lemma reachable_good: "reachable_system wr k y \<Longrightarrow> good k \<Longrightarrow> good (sy_transport y)"
  by (induction rule: reachable_system.induct)
    (auto simp: system_new_def intro: step_keeps_good reachable_inv)

end

interpretation dry_run_transport: transaction_transport dry_run_write
  "\<lambda>d. dr_failures_remaining d = 0 \<and> length (dr_last_words d) = kMaxTransactionWords"
  by unfold_locales

section \<open>A concrete run\<close>

text \<open>One STOP command, written to a fresh scheduler over the dry-run transport and packed.\<close>

definition stop_words :: "u32 list" where
  "stop_words = [0x15000001, 7]"

lemma stop_words_complete: "complete_command stop_words" "command_lane stop_words = LifecycleLane"
  by (simp_all add: stop_words_def complete_command_def word_payload_def kMaxCommandPayloadWords_def
      command_lane_def word_opcode_def lifecycle_opcode_def Let_def)

lemma example_write:
  obtains s' where "scheduler_write 5 stop_words scheduler_new = (Inr (), s')"
    "accepted_of_call 5 stop_words scheduler_new = [stop_words]"
proof -
  obtain r s' where one: "enqueue_one 5 stop_words scheduler_new = (r, s')" by fastforce
  from stop_words_complete(1) one have r: "r = Inr ()"
    by (cases rule: enqueue_one_cases)
      (auto simp: stop_words_complete scheduler_new_def fixed_queue_new_def
        kSchedulerLifecycleCapacity_def)
  have pay: "word_payload (stop_words ! 0) + 1 = 2" "length stop_words = 2" "stop_words \<noteq> []"
    "take 2 stop_words = stop_words"
    by (simp_all add: stop_words_def word_payload_def)
  have nostop: "\<not> sd_stopping scheduler_new" by (simp add: scheduler_new_def)
  have end_loop: "enqueue_loop 5 stop_words 2 s' = (Inr (), s')" "accepted_commands 5 stop_words 2 s' = []"
    using pay by (simp_all add: enqueue_loop.simps accepted_commands.simps)
  have "scheduler_write 5 stop_words scheduler_new = (Inr (), s')"
    using one r pay nostop end_loop(1)
    by (simp add: scheduler_write_def enqueue_loop.simps [of 5 stop_words 0] kMaxCommandWords_def
        Let_def numeral_2_eq_2)
  moreover have "accepted_of_call 5 stop_words scheduler_new = [stop_words]"
    using one r pay nostop end_loop(2)
    by (simp add: accepted_of_call_def accepted_commands.simps [of 5 stop_words 0]
        kMaxCommandWords_def Let_def numeral_2_eq_2)
  ultimately show ?thesis using that by blast
qed

lemma example_queued:
  obtains y where "reachable_system dry_run_write dry_run_new y" "sy_pc y = Waiting" "running y"
    "sy_accepted y = [stop_words]" "has_pending (sy_sched y)" "sy_done y = []"
    "system_inv y"
proof -
  let ?init = "system_new dry_run_new"
  obtain s' where w: "scheduler_write 5 stop_words scheduler_new = (Inr (), s')"
    "accepted_of_call 5 stop_words scheduler_new = [stop_words]" by (rule example_write)
  let ?y = "?init\<lparr> sy_sched := s', sy_accepted := sy_accepted ?init @
      filter is_lifecycle (accepted_of_call 5 stop_words (sy_sched ?init)) \<rparr>"
  have w0: "scheduler_write 5 stop_words (sy_sched ?init) = (Inr (), s')"
    using w(1) by (simp add: system_new_def)
  have reach: "reachable_system dry_run_write dry_run_new ?y"
    by (rule reachable_system.step [OF reachable_system.start system_step.producer [OF w0]])
  have acc: "sy_accepted ?y = [stop_words]"
    using w(2) stop_words_complete(2) by (simp add: system_new_def is_lifecycle_def)
  note inv = scheduler_write_inv [OF scheduler_new_inv w(1)]
  have "lifecycle_views s' = [stop_words]"
    using inv(3) w(2) stop_words_complete(2)
    by (simp add: is_lifecycle_def lifecycle_views_def scheduler_new_def fixed_queue_new_def fq_contents_def)
  then have "length (lifecycle_views s') = 1" by simp
  then have "length (fq_contents (sd_lifecycle s')) = 1" by (simp only: lifecycle_views_def length_map)
  then have "has_pending s'" by (simp add: has_pending_def pending_count_def)
  moreover have "running ?y"
    using inv(4) by (simp add: running_def same_flags_def system_new_def scheduler_new_def)
  ultimately show ?thesis using that reach acc reachable_inv [OF reach] by (simp add: system_new_def)
qed

lemma example_sending:
  obtains y t where "reachable_system dry_run_write dry_run_new y" "sy_pc y = Sending t"
    "sy_accepted y = [stop_words]"
proof -
  obtain y where y: "reachable_system dry_run_write dry_run_new y" "sy_pc y = Waiting" "running y"
    "sy_accepted y = [stop_words]" "has_pending (sy_sched y)" "sy_done y = []" "system_inv y"
    by (rule example_queued)
  have "sched_inv (sy_sched y)" using y(7) by (simp add: system_inv_def)
  then obtain s1 t where pk: "pack_transaction (sy_sched y) = Some (s1, t)"
    using pack_transaction_packs [of "sy_sched y"] y(5) by blast
  let ?y' = "y\<lparr> sy_sched := s1, sy_pc := Sending t \<rparr>"
  have st: "worker_step dry_run_write 0 0 y = Some ?y'"
    using y(2,3,5) pk by (simp add: worker_step_def running_def Let_def)
  have r: "reachable_system dry_run_write dry_run_new ?y'"
    by (rule reachable_system.step [OF y(1) system_step.worker [OF st]])
  show ?thesis by (rule that [OF r]) (simp_all add: y(4))
qed

section \<open>Properties\<close>

text \<open>In every reachable state, whatever the producers do and however often the transport
  fails, the transaction the worker is about to hand to the transport passes
  \<open>validate_command_transaction\<close>: complete commands, at least one, at most 63 words.\<close>

theorem scheduler_sends_valid_transactions:
  assumes "reachable_system wr transport y" and "sy_pc y = Sending t"
  shows "validate_command_transaction (tn_words t) = Inr () \<and>
    tn_words t = concat (map (\<lambda>c. view (sc_command c)) (tn_commands t))"
proof -
  have "tn_ok t" "tn_commands t \<noteq> []"
    using reachable_inv [OF assms(1)] assms(2) by (simp_all add: system_inv_def in_hand_def)
  then show ?thesis using tn_ok_valid by (simp add: tn_ok_def tn_views_def)
qed

theorem scheduler_sends_valid_transactions_witness:
  "\<exists>y t. reachable_system dry_run_write dry_run_new y \<and> sy_pc y = Sending t \<and>
     validate_command_transaction (tn_words t) = Inr ()"
  using scheduler_sends_valid_transactions example_sending by metis

text \<open>C4: START, RELEASE and STOP commands are never lost, duplicated or reordered: at every
  moment the lifecycle commands of the finished transactions, of the one in the worker's hands
  and of the queue, in this order, are exactly those ever accepted.\<close>

theorem scheduler_lifecycle_in_order:
  assumes "reachable_system wr transport y"
  shows "concat (map (\<lambda>d. lifecycle_of (snd d)) (sy_done y)) @
      (case sy_pc y of Sending t \<Rightarrow> lifecycle_of t | _ \<Rightarrow> []) @ lifecycle_views (sy_sched y) =
    sy_accepted y"
  using reachable_inv [OF assms]
  by (auto simp: system_inv_def in_hand_def comp_def split: worker_pc.splits)

theorem scheduler_lifecycle_in_order_witness:
  "\<exists>y t. reachable_system dry_run_write dry_run_new y \<and> sy_pc y = Sending t \<and>
     concat (map (\<lambda>d. lifecycle_of (snd d)) (sy_done y)) @ lifecycle_of t @
       lifecycle_views (sy_sched y) = [stop_words]"
proof -
  obtain y t where y: "reachable_system dry_run_write dry_run_new y" "sy_pc y = Sending t"
    "sy_accepted y = [stop_words]" by (rule example_sending)
  then show ?thesis using scheduler_lifecycle_in_order [OF y(1)] by auto
qed

text \<open>The statistics account for every command: in 64-bit arithmetic, the commands enqueued
  are those emitted, abandoned, coalesced into a newer update, dropped as stale, still pending,
  or in the worker's hands.\<close>

theorem scheduler_accounts_for_commands:
  assumes "reachable_system wr transport y"
  shows "st_enqueued_commands (sd_stats (sy_sched y)) =
    st_emitted_commands (sd_stats (sy_sched y)) + st_abandoned_commands (sd_stats (sy_sched y)) +
    st_coalesced_updates (sd_stats (sy_sched y)) +
    st_dropped_replaceable_updates (sd_stats (sy_sched y)) + of_nat (pending_count (sy_sched y)) +
    (case sy_pc y of Sending t \<Rightarrow> of_nat (length (tn_commands t)) | _ \<Rightarrow> 0)"
proof -
  have "ledger (sy_sched y) = (case sy_pc y of Sending t \<Rightarrow> of_nat (length (tn_commands t)) | _ \<Rightarrow> 0)"
    using reachable_inv [OF assms]
    by (auto simp: system_inv_def in_hand_def split: worker_pc.splits)
  then show ?thesis unfolding ledger_def by (simp add: algebra_simps)
qed

theorem scheduler_accounts_for_commands_witness:
  "\<exists>y t. reachable_system dry_run_write dry_run_new y \<and> sy_pc y = Sending t \<and>
     st_enqueued_commands (sd_stats (sy_sched y)) =
       st_emitted_commands (sd_stats (sy_sched y)) + st_abandoned_commands (sd_stats (sy_sched y)) +
       st_coalesced_updates (sd_stats (sy_sched y)) +
       st_dropped_replaceable_updates (sd_stats (sy_sched y)) + of_nat (pending_count (sy_sched y)) +
       of_nat (length (tn_commands t))"
proof -
  obtain y t where y: "reachable_system dry_run_write dry_run_new y" "sy_pc y = Sending t"
    "sy_accepted y = [stop_words]" by (rule example_sending)
  then show ?thesis using scheduler_accounts_for_commands [OF y(1)] by auto
qed



lemma invalidated_row:
  assumes "sched_inv s" "0 \<le> v" "v < int kNumVoices"
  shows "list_all (\<lambda>u. rp_valid u \<longrightarrow> \<not> all \<and> rp_generation u = g)
      (sd_replaceable (invalidate_updates v g all s) ! nat v)"
    and "i \<noteq> nat v \<Longrightarrow> sd_replaceable (invalidate_updates v g all s) ! i = sd_replaceable s ! i"
proof -
  have "nat v < length (sd_replaceable s)" using assms by (auto simp: sched_inv_def)
  then show "list_all (\<lambda>u. rp_valid u \<longrightarrow> \<not> all \<and> rp_generation u = g)
      (sd_replaceable (invalidate_updates v g all s) ! nat v)"
    using assms(2,3) by (auto simp: invalidate_updates_def drop_row_def Let_def list_all_iff)
  show "i \<noteq> nat v \<Longrightarrow> sd_replaceable (invalidate_updates v g all s) ! i = sd_replaceable s ! i"
    by (auto simp: invalidate_updates_def drop_row_def Let_def)
qed

lemma lifecycle_slots:
  assumes "complete_command ws" "enqueue_one now ws s = (r, s')"
    "lifecycle_opcode (word_opcode (ws ! 0))"
  shows "sd_replaceable s' = sd_replaceable (enqueue_invalidate ws s)"
  using assms(1,2)
proof (cases rule: enqueue_one_cases)
  case (slot c v k b s3)
  then show ?thesis using command_lane_queue(1) [OF assms(3)] by simp
qed simp_all

text \<open>No stale parameter update survives a voice's restart or stop: after a START is
  processed every pending update of that voice carries the new generation, after a STOP none is
  pending, and the updates of the other voices are untouched.\<close>

theorem scheduler_discards_stale_updates:
  assumes "sched_inv s" and "complete_command ws" and "enqueue_one now ws s = (r, s')"
    and "word_voice (ws ! 0) < kNumVoices"
  shows "(word_opcode (ws ! 0) = 0x10 \<longrightarrow>
      list_all (\<lambda>u. rp_valid u \<longrightarrow> rp_generation u = command_generation ws)
        (sd_replaceable s' ! word_voice (ws ! 0))) \<and>
    (word_opcode (ws ! 0) = 0x15 \<longrightarrow>
      list_all (\<lambda>u. \<not> rp_valid u) (sd_replaceable s' ! word_voice (ws ! 0))) \<and>
    (word_opcode (ws ! 0) = 0x10 \<or> word_opcode (ws ! 0) = 0x15 \<longrightarrow>
      (\<forall>i. i \<noteq> word_voice (ws ! 0) \<longrightarrow> sd_replaceable s' ! i = sd_replaceable s ! i))"
proof -
  have v: "0 \<le> command_voice ws" "command_voice ws < int kNumVoices"
    "nat (command_voice ws) = word_voice (ws ! 0)"
    using assms(4) by (simp_all add: command_voice_def)
  note row = invalidated_row [OF assms(1) v(1,2)]
  show ?thesis
    using row(1) [of True "command_generation ws"] row(1) [of False "command_generation ws"] row(2)
      lifecycle_slots [OF assms(2,3)] v(3)
    by (auto simp: enqueue_invalidate_def Let_def lifecycle_opcode_def list_all_iff)
qed

theorem scheduler_discards_stale_updates_witness:
  "\<exists>r s'. enqueue_one 5 stop_words scheduler_new = (r, s') \<and>
     list_all (\<lambda>u. \<not> rp_valid u) (sd_replaceable s' ! 0)"
proof -
  obtain r s' where one: "enqueue_one 5 stop_words scheduler_new = (r, s')" by fastforce
  have f: "word_voice (stop_words ! 0) = 0" "word_opcode (stop_words ! 0) = 0x15"
    by (simp_all add: stop_words_def word_voice_def word_opcode_def)
  then show ?thesis
    using scheduler_discards_stale_updates [OF scheduler_new_inv stop_words_complete(1) one] one
    by (auto simp: kNumVoices_def)
qed

text \<open>A parameter update always succeeds, and the newest one wins: it occupies the single slot
  of its voice and kind, whatever was there, and no other slot changes.\<close>

theorem scheduler_keeps_newest_update:
  assumes "sched_inv s" and "complete_command ws" and "command_lane ws = SlotLane v k"
    and "enqueue_one now ws s = (r, s')"
  shows "r = Inr () \<and> rp_valid (sd_replaceable s' ! v ! k) \<and>
    view (sc_command (rp_pending (sd_replaceable s' ! v ! k))) = ws \<and>
    rp_generation (sd_replaceable s' ! v ! k) = command_generation ws \<and>
    (\<forall>i j. (i, j) \<noteq> (v, k) \<longrightarrow> sd_replaceable s' ! i ! j = sd_replaceable s ! i ! j)"
  using assms(2,4)
proof (cases rule: enqueue_one_cases)
  case (slot c v' k' b s3)
  then have vk: "v' = v" "k' = k" using assms(3) by simp_all
  have "\<not> lifecycle_opcode (word_opcode (ws ! 0))"
    using assms(3) command_lane_queue(1) [of ws] by auto
  then have inv: "enqueue_invalidate ws s = s"
    by (simp add: enqueue_invalidate_def Let_def lifecycle_opcode_def)
  have b: "v < length (sd_replaceable s)" "k < length (sd_replaceable s ! v)"
    using assms(1) slot(2,3) vk by (simp_all add: sched_inv_def)
  have "sd_replaceable s3 = (sd_replaceable s)[v := (sd_replaceable s ! v)[k :=
      \<lparr> rp_pending = c, rp_generation = command_generation ws, rp_valid = True \<rparr>]]"
    using slot(7) inv vk by (auto simp: store_update_def Let_def)
  then show ?thesis using slot(4,6,8) by (simp add: nested_update [OF b])
next
  case (full e)
  then show ?thesis using assms(3) by auto
qed (use assms(3) in simp_all)

theorem scheduler_keeps_newest_update_witness:
  "\<exists>s'. enqueue_one 5 [0x16008002, 1, 2] scheduler_new = (Inr (), s') \<and>
     view (sc_command (rp_pending (sd_replaceable s' ! 2 ! 0))) = [0x16008002, 1, 2]"
proof -
  obtain r s' where one: "enqueue_one 5 [0x16008002, 1, 2] scheduler_new = (r, s')" by fastforce
  have "complete_command [0x16008002, 1, 2]" "command_lane [0x16008002, 1, 2] = SlotLane 2 0"
    by (simp_all add: complete_command_def word_payload_def kMaxCommandPayloadWords_def
        command_lane_def word_opcode_def lifecycle_opcode_def replaceable_kind_def command_voice_def
        word_voice_def kNumVoices_def Let_def)
  then show ?thesis
    using scheduler_keeps_newest_update [OF scheduler_new_inv _ _ one] one by auto
qed

end
