(* ===== verification/Realtime_Midi.thy ===== *)
theory Realtime_Midi
  imports Render_Types Bounded_Fifo
begin

text \<open>
  Real-time MIDI input of \<open>src/host/realtime_midi.{h,cpp}\<close>: the byte-stream decoder with running
  status, the bounded event queue that reserves room for note-offs and coalesces controllers when
  it is full, and the playback of a parsed file against a monotonic clock.

  The decoder's state is an explicit record; \<open>feed\<close> returns the decoded event, if any. The
  floating-point product that converts seconds to nanoseconds is an argument of the playback
  constructor.
\<close>

section \<open>The stream decoder\<close>

record timestamped_event =
  te_timestamp_ns :: u64
  te_event :: note_event

record midi_decoder =
  md_program :: "int list"
  md_bank_msb :: "int list"
  md_bank_lsb :: "int list"
  md_running_status :: u8
  md_status :: u8
  md_data :: "u8 list"
  md_data_count :: nat
  md_expected_data :: nat
  md_system_bytes_remaining :: nat
  md_in_sysex :: bool

definition midi_decoder_new :: midi_decoder where
  "midi_decoder_new =
     \<lparr> md_program = replicate 16 0, md_bank_msb = replicate 16 0, md_bank_lsb = replicate 16 0,
       md_running_status = 0, md_status = 0, md_data = replicate 2 0, md_data_count = 0,
       md_expected_data = 0, md_system_bytes_remaining = 0, md_in_sysex = False \<rparr>"

definition data_byte_count :: "u8 \<Rightarrow> nat" where
  "data_byte_count status =
     (let kind = status AND 0xf0 in
      if kind = 0x80 \<or> kind = 0x90 \<or> kind = 0xa0 \<or> kind = 0xb0 \<or> kind = 0xe0 then 2
      else if kind = 0xc0 \<or> kind = 0xd0 then 1 else 0)"

definition midi_reset :: "midi_decoder \<Rightarrow> midi_decoder" where
  "midi_reset s =
     s\<lparr> md_program := replicate 16 0, md_bank_msb := replicate 16 0, md_bank_lsb := replicate 16 0,
        md_running_status := 0, md_status := 0, md_data_count := 0, md_expected_data := 0,
        md_system_bytes_remaining := 0, md_in_sysex := False \<rparr>"

definition finish_message :: "u64 \<Rightarrow> midi_decoder \<Rightarrow> timestamped_event option \<times> midi_decoder" where
  "finish_message timestamp_ns s =
     (let channel = unat (md_status s AND 0x0f);
          kind = md_status s AND 0xf0;
          d0 = md_data s ! 0; d1 = md_data s ! 1;
          event = default_note_event\<lparr> ev_channel := int channel,
                    ev_program := md_program s ! channel,
                    ev_bank := push_bit 7 (md_bank_msb s ! channel) OR md_bank_lsb s ! channel \<rparr>;
          emit = (\<lambda>e. Some \<lparr> te_timestamp_ns = timestamp_ns, te_event = e \<rparr>)
      in if kind = 0x80 \<or> kind = 0x90 then
           (let velocity = uint (d1 AND 0x7f) in
            (emit (event\<lparr> ev_type := EVENT_NOTE, ev_note := uint (d0 AND 0x7f),
                          ev_velocity := velocity, ev_on := (kind = 0x90 \<and> velocity \<noteq> 0) \<rparr>), s))
         else if kind = 0xa0 then
           (emit (event\<lparr> ev_type := EVENT_KEY_PRESSURE, ev_note := uint (d0 AND 0x7f),
                         ev_value := uint (d1 AND 0x7f) \<rparr>), s)
         else if kind = 0xb0 then
           (let controller = uint (d0 AND 0x7f); v = uint (d1 AND 0x7f);
                s1 = (if controller = 0 then s\<lparr> md_bank_msb := (md_bank_msb s)[channel := v] \<rparr> else s);
                s2 = (if controller = 32 then s1\<lparr> md_bank_lsb := (md_bank_lsb s1)[channel := v] \<rparr> else s1)
            in (emit (event\<lparr> ev_type := EVENT_CONTROL, ev_controller := controller, ev_value := v,
                  ev_bank := push_bit 7 (md_bank_msb s2 ! channel) OR md_bank_lsb s2 ! channel \<rparr>), s2))
         else if kind = 0xc0 then
           (None, s\<lparr> md_program := (md_program s)[channel := uint (d0 AND 0x7f)] \<rparr>)
         else if kind = 0xd0 then
           (emit (event\<lparr> ev_type := EVENT_CHANNEL_PRESSURE, ev_value := uint (d0 AND 0x7f) \<rparr>), s)
         else if kind = 0xe0 then
           (emit (event\<lparr> ev_type := EVENT_PITCH_BEND,
                         ev_pitch_bend := (push_bit 7 (uint d1) OR uint d0) - 8192 \<rparr>), s)
         else (None, s))"

definition feed :: "u8 \<Rightarrow> u64 \<Rightarrow> midi_decoder \<Rightarrow> timestamped_event option \<times> midi_decoder" where
  "feed byte timestamp_ns s =
     (if byte \<ge> 0xf8 then (None, s)
      else if md_in_sysex s then
        (None, if byte = 0xf7 then s\<lparr> md_in_sysex := False \<rparr> else s)
      else
        (let s1 = (if byte AND 0x80 \<noteq> 0 then s\<lparr> md_system_bytes_remaining := 0 \<rparr> else s) in
         if md_system_bytes_remaining s1 \<noteq> 0 then
           (None, s1\<lparr> md_system_bytes_remaining := md_system_bytes_remaining s1 - 1 \<rparr>)
         else if byte AND 0x80 \<noteq> 0 then
           (let s2 = s1\<lparr> md_data_count := 0 \<rparr> in
            if byte \<ge> 0x80 \<and> byte \<le> 0xef then
              (None, s2\<lparr> md_status := byte, md_running_status := byte,
                         md_expected_data := data_byte_count byte \<rparr>)
            else
              (let s3 = s2\<lparr> md_running_status := 0, md_status := 0, md_expected_data := 0 \<rparr> in
               (None,
                if byte = 0xf0 then s3\<lparr> md_in_sysex := True \<rparr>
                else if byte = 0xf1 \<or> byte = 0xf3 then s3\<lparr> md_system_bytes_remaining := 1 \<rparr>
                else if byte = 0xf2 then s3\<lparr> md_system_bytes_remaining := 2 \<rparr>
                else s3)))
         else if md_status s1 = 0 \<and> md_running_status s1 = 0 then (None, s1)
         else
           (let s2 = (if md_status s1 = 0
                      then s1\<lparr> md_status := md_running_status s1,
                               md_expected_data := data_byte_count (md_running_status s1) \<rparr>
                      else s1);
                s3 = (if md_data_count s2 < length (md_data s2)
                      then s2\<lparr> md_data := (md_data s2)[md_data_count s2 := byte],
                               md_data_count := md_data_count s2 + 1 \<rparr>
                      else s2)
            in if md_data_count s3 \<noteq> md_expected_data s3 then (None, s3)
               else
                 (case finish_message timestamp_ns s3 of (decoded, s4) \<Rightarrow>
                    (decoded, s4\<lparr> md_data_count := 0, md_status := md_running_status s4,
                                  md_expected_data := data_byte_count (md_running_status s4) \<rparr>)))))"

section \<open>The event queue\<close>

datatype push_result = kQueued | kCoalesced | kDropped | kLifecycleOverflow

definition kMidiCapacity :: nat where
  "kMidiCapacity = 2048"

definition kLifecycleReserve :: nat where
  "kLifecycleReserve = 256"

record midi_queue_stats =
  mq_enqueued :: u64
  mq_dequeued :: u64
  mq_coalesced :: u64
  mq_dropped_replaceable :: u64
  mq_dropped_note_on :: u64
  mq_lifecycle_overflows :: u64
  mq_high_water :: u32
  mq_depth :: u32

record midi_queue =
  mq_events :: "timestamped_event list"
  mq_head :: nat
  mq_tail :: nat
  mq_count :: nat
  mq_stats :: midi_queue_stats

definition midi_queue_new :: midi_queue where
  "midi_queue_new =
     \<lparr> mq_events = replicate kMidiCapacity \<lparr> te_timestamp_ns = 0, te_event = default_note_event \<rparr>,
       mq_head = 0, mq_tail = 0, mq_count = 0,
       mq_stats = \<lparr> mq_enqueued = 0, mq_dequeued = 0, mq_coalesced = 0, mq_dropped_replaceable = 0,
         mq_dropped_note_on = 0, mq_lifecycle_overflows = 0, mq_high_water = 0, mq_depth = 0 \<rparr> \<rparr>"

definition lifecycle_event :: "note_event \<Rightarrow> bool" where
  "lifecycle_event e =
     (if ev_type e = EVENT_NOTE then \<not> ev_on e
      else if ev_type e \<noteq> EVENT_CONTROL then False
      else ev_controller e = 120 \<or> ev_controller e = 123 \<or>
           (ev_controller e \<ge> 124 \<and> ev_controller e \<le> 127))"

definition replaceable_event :: "note_event \<Rightarrow> bool" where
  "replaceable_event e \<longleftrightarrow>
     ev_type e = EVENT_CONTROL \<or> ev_type e = EVENT_PITCH_BEND \<or>
     ev_type e = EVENT_CHANNEL_PRESSURE \<or> ev_type e = EVENT_KEY_PRESSURE"

definition same_replacement_key :: "note_event \<Rightarrow> note_event \<Rightarrow> bool" where
  "same_replacement_key l r =
     (if ev_type l \<noteq> ev_type r \<or> ev_channel l \<noteq> ev_channel r then False
      else if ev_type l = EVENT_CONTROL then ev_controller l = ev_controller r
      else if ev_type l = EVENT_KEY_PRESSURE then ev_note l = ev_note r
      else True)"

definition midi_push :: "timestamped_event \<Rightarrow> midi_queue \<Rightarrow> push_result \<times> midi_queue" where
  "midi_push event q =
     (let lifecycle = lifecycle_event (te_event event);
          normal_limit = kMidiCapacity - kLifecycleReserve;
          st = mq_stats q
      in if (\<not> lifecycle \<and> mq_count q \<ge> normal_limit) \<or> mq_count q = kMidiCapacity then
           if lifecycle then
             (kLifecycleOverflow,
              q\<lparr> mq_stats := st\<lparr> mq_lifecycle_overflows := mq_lifecycle_overflows st + 1 \<rparr> \<rparr>)
           else if replaceable_event (te_event event) then
             (case find (\<lambda>index. same_replacement_key (te_event (mq_events q ! index)) (te_event event))
                     (map (\<lambda>offset. (mq_head q + mq_count q - 1 - offset) mod kMidiCapacity)
                       [0..<mq_count q]) of
                Some index \<Rightarrow>
                  (kCoalesced, q\<lparr> mq_events := (mq_events q)[index := event],
                                  mq_stats := st\<lparr> mq_coalesced := mq_coalesced st + 1 \<rparr> \<rparr>)
              | None \<Rightarrow>
                  (kDropped, q\<lparr> mq_stats := st\<lparr> mq_dropped_replaceable :=
                                 mq_dropped_replaceable st + 1 \<rparr> \<rparr>))
           else
             (kDropped, q\<lparr> mq_stats := st\<lparr> mq_dropped_note_on := mq_dropped_note_on st + 1 \<rparr> \<rparr>)
         else
           (kQueued, q\<lparr> mq_events := (mq_events q)[mq_tail q := event],
                        mq_tail := (mq_tail q + 1) mod kMidiCapacity,
                        mq_count := mq_count q + 1,
                        mq_stats := st\<lparr> mq_enqueued := mq_enqueued st + 1,
                          mq_depth := of_nat (mq_count q + 1),
                          mq_high_water := max (mq_high_water st) (of_nat (mq_count q + 1)) \<rparr> \<rparr>))"

definition midi_pop :: "midi_queue \<Rightarrow> (timestamped_event \<times> midi_queue) option" where
  "midi_pop q =
     (if mq_count q = 0 then None
      else Some (mq_events q ! mq_head q,
        q\<lparr> mq_head := (mq_head q + 1) mod kMidiCapacity, mq_count := mq_count q - 1,
           mq_stats := (mq_stats q)\<lparr> mq_dequeued := mq_dequeued (mq_stats q) + 1,
             mq_depth := of_nat (mq_count q - 1) \<rparr> \<rparr>))"

definition midi_stats :: "midi_queue \<Rightarrow> midi_queue_stats" where
  "midi_stats q = (mq_stats q)\<lparr> mq_depth := of_nat (mq_count q) \<rparr>"

section \<open>File playback\<close>

record midi_playback =
  mp_events :: "timestamped_event list"
  mp_next_event :: nat
  mp_end_timestamp_ns :: u64
  mp_lifecycle_overflow :: bool

text \<open>
  The loop of the constructor over the remaining events. \<open>scale\<close> is the \<open>long double\<close> product
  \<open>time_seconds * 1e9\<close>; event times are real numbers, so the finiteness test always passes.
\<close>

fun playback_load ::
    "(real \<Rightarrow> real) \<Rightarrow> u64 \<Rightarrow> real \<Rightarrow> note_event list \<Rightarrow> midi_playback \<Rightarrow> error + midi_playback" where
  "playback_load scale start previous [] p = Inr p"
| "playback_load scale start previous (event # rest) p =
     (if ev_time_seconds event < 0
      then Inl (RuntimeError ''MIDI file event time must be finite and nonnegative'')
      else if mp_events p \<noteq> [] \<and> ev_time_seconds event < previous
      then Inl (RuntimeError ''MIDI file events must be ordered by time'')
      else
        (let delay_ns = scale (ev_time_seconds event);
             maximum_delay = min (real_of_int (18446744073709551615 - uint start)) 9223372036854775807
         in if delay_ns > maximum_delay
            then Inl (RuntimeError ''MIDI file duration exceeds monotonic clock range'')
            else
              (let timestamp_ns = start + of_int \<lfloor>delay_ns + 1 / 2\<rfloor> in
               playback_load scale start (ev_time_seconds event) rest
                 (p\<lparr> mp_events := mp_events p @
                       [\<lparr> te_timestamp_ns = timestamp_ns, te_event = event \<rparr>],
                     mp_end_timestamp_ns := timestamp_ns \<rparr>))))"

definition playback_new :: "(real \<Rightarrow> real) \<Rightarrow> note_event list \<Rightarrow> u64 \<Rightarrow> error + midi_playback" where
  "playback_new scale events start =
     playback_load scale start 0 events
       \<lparr> mp_events = [], mp_next_event = 0, mp_end_timestamp_ns = start,
         mp_lifecycle_overflow = False \<rparr>"

function enqueue_due_loop ::
    "u64 \<Rightarrow> nat \<Rightarrow> midi_queue \<Rightarrow> midi_playback \<Rightarrow> nat \<times> midi_queue \<times> midi_playback" where
  "enqueue_due_loop now_ns count q p =
     (if mp_next_event p < length (mp_events p) \<and>
         te_timestamp_ns (mp_events p ! mp_next_event p) \<le> now_ns then
        (case midi_push (mp_events p ! mp_next_event p) q of (result, q') \<Rightarrow>
           if result = kLifecycleOverflow then (count, q', p\<lparr> mp_lifecycle_overflow := True \<rparr>)
           else enqueue_due_loop now_ns (count + 1) q'
                  (p\<lparr> mp_next_event := mp_next_event p + 1 \<rparr>))
      else (count, q, p))"
  by pat_completeness auto
termination
  by (relation "measure (\<lambda>(now_ns, count, q, p). length (mp_events p) - mp_next_event p)") auto

declare enqueue_due_loop.simps [simp del]

definition enqueue_due :: "u64 \<Rightarrow> midi_queue \<Rightarrow> midi_playback \<Rightarrow> nat \<times> midi_queue \<times> midi_playback" where
  "enqueue_due now_ns q p = enqueue_due_loop now_ns 0 q p"

definition playback_finished :: "midi_playback \<Rightarrow> bool" where
  "playback_finished p \<longleftrightarrow> mp_next_event p = length (mp_events p)"

section \<open>Facts about the decoder\<close>

lemma high_nibble: "(w :: u8) AND 0xf0 = push_bit 4 (drop_bit 4 w)"
proof -
  have m: "(0xf0 :: u8) = NOT (mask 4)" by (simp add: mask_eq_exp_minus_1)
  show ?thesis unfolding m by (rule bit_word_eqI) (auto simp: bit_simps)
qed

lemma status_kinds:
  assumes "0x80 \<le> w" "w \<le> (0xef :: u8)"
  shows "w AND 0xf0 \<in> {0x80, 0x90, 0xa0, 0xb0, 0xc0, 0xd0, 0xe0}"
proof -
  have "unat (drop_bit 4 w) = unat w div 16" by (simp add: drop_bit_eq_div unat_div)
  moreover have "128 \<le> unat w" "unat w \<le> 239" using assms by (simp_all add: word_le_nat_alt)
  ultimately have "8 \<le> unat (drop_bit 4 w)" "unat (drop_bit 4 w) \<le> 14" by simp_all
  then have "unat (drop_bit 4 w) \<in> {8, 9, 10, 11, 12, 13, 14}" by auto
  then have "drop_bit 4 w \<in> {8, 9, 10, 11, 12, 13, 14}"
    by (auto simp: word_unat_eq_iff)
  then show ?thesis by (auto simp: high_nibble)
qed

lemma data_byte_count_status:
  "0x80 \<le> w \<Longrightarrow> w \<le> (0xef :: u8) \<Longrightarrow> data_byte_count w = 1 \<or> data_byte_count w = 2"
  using status_kinds [of w] by (auto simp: data_byte_count_def Let_def)

lemma status_bit: "(w :: u8) AND 0x80 \<noteq> 0 \<longleftrightarrow> 0x80 \<le> w"
proof -
  have e: "(0x80 :: u8) = 2 ^ 7" by simp
  have "bit w 7 \<longleftrightarrow> bit (uint w) 7" by (simp add: bit_uint_iff)
  also have "\<dots> \<longleftrightarrow> odd (uint w div 128)" by (simp add: bit_iff_odd)
  also have "\<dots> \<longleftrightarrow> 128 \<le> uint w"
  proof -
    have "uint w div 128 = 0 \<or> uint w div 128 = 1"
      using uint_bounds(1) [of w] uint_ge_0 [of w] by linarith
    then show ?thesis using uint_ge_0 [of w] by auto
  qed
  finally show ?thesis
    by (simp only: e and_exp_eq_0_iff_not_bit word_le_def) simp
qed

lemma low7_range: "0 \<le> uint ((w :: u8) AND 0x7f)" "uint ((w :: u8) AND 0x7f) \<le> 127"
proof -
  have "w AND 0x7f \<le> 0x7f" by (rule word_and_le1)
  then show "uint (w AND 0x7f) \<le> 127" by (simp add: word_le_def)
qed simp

lemma low_nibble: "unat ((w :: u8) AND 0x0f) < 16"
proof -
  have "w AND 0x0f \<le> 0x0f" by (rule word_and_le1)
  then show ?thesis by (simp add: word_le_nat_alt)
qed

lemma low_nibble_uint: "uint ((w :: u8) AND 0x0f) \<le> 15"
proof -
  have "w AND 0x0f \<le> 0x0f" by (rule word_and_le1)
  then show ?thesis by (simp add: word_le_def)
qed

lemma pair7_range:
  fixes a b :: int
  assumes "0 \<le> a" "a \<le> 127" "0 \<le> b" "b \<le> 127"
  shows "0 \<le> push_bit 7 a OR b" "push_bit 7 a OR b < 16384"
proof -
  show "0 \<le> push_bit 7 a OR b" using assms by (simp add: or_nonnegative_int_iff)
  have "push_bit 7 a OR b < 2 ^ 14"
    using assms by (intro OR_upper) (simp_all add: push_bit_eq_mult)
  then show "push_bit 7 a OR b < 16384" by simp
qed

definition byte7_list :: "int list \<Rightarrow> bool" where
  "byte7_list xs \<longleftrightarrow> length xs = 16 \<and> list_all (\<lambda>x. 0 \<le> x \<and> x \<le> 127) xs"

lemma byte7_list_nth: "byte7_list xs \<Longrightarrow> i < 16 \<Longrightarrow> 0 \<le> xs ! i \<and> xs ! i \<le> 127"
  by (simp add: byte7_list_def list_all_length)

lemma byte7_list_update: "byte7_list xs \<Longrightarrow> 0 \<le> v \<Longrightarrow> v \<le> 127 \<Longrightarrow> byte7_list (xs[i := v])"
  by (cases "i < length xs") (auto simp: byte7_list_def list_all_length nth_list_update)

definition decoder_inv :: "midi_decoder \<Rightarrow> bool" where
  "decoder_inv s \<longleftrightarrow>
     byte7_list (md_program s) \<and> byte7_list (md_bank_msb s) \<and> byte7_list (md_bank_lsb s) \<and>
     length (md_data s) = 2 \<and> list_all (\<lambda>b. b < 0x80) (md_data s) \<and>
     md_running_status s = md_status s \<and>
     (md_status s = 0 \<and> md_expected_data s = 0 \<and> md_data_count s = 0 \<or>
      0x80 \<le> md_status s \<and> md_status s \<le> 0xef \<and>
      md_expected_data s = data_byte_count (md_status s) \<and> md_data_count s < md_expected_data s)"

lemma midi_decoder_new_inv: "decoder_inv midi_decoder_new"
  by (simp add: decoder_inv_def midi_decoder_new_def byte7_list_def list_all_iff)

lemma midi_reset_inv: "decoder_inv s \<Longrightarrow> decoder_inv (midi_reset s)"
  by (simp add: decoder_inv_def midi_reset_def byte7_list_def list_all_iff)

text \<open>The MIDI ranges of every field of an event.\<close>

definition event_in_range :: "note_event \<Rightarrow> bool" where
  "event_in_range e \<longleftrightarrow>
     0 \<le> ev_channel e \<and> ev_channel e \<le> 15 \<and> 0 \<le> ev_program e \<and> ev_program e \<le> 127 \<and>
     0 \<le> ev_bank e \<and> ev_bank e < 16384 \<and> 0 \<le> ev_note e \<and> ev_note e \<le> 127 \<and>
     0 \<le> ev_velocity e \<and> ev_velocity e \<le> 127 \<and> 0 \<le> ev_controller e \<and> ev_controller e \<le> 127 \<and>
     0 \<le> ev_value e \<and> ev_value e \<le> 127 \<and> - 8192 \<le> ev_pitch_bend e \<and> ev_pitch_bend e \<le> 8191"

lemma data7: "length xs = 2 \<Longrightarrow> list_all (\<lambda>b. b < (0x80 :: u8)) xs \<Longrightarrow>
    uint (xs ! 0) \<le> 127 \<and> uint (xs ! 1) \<le> 127"
proof -
  assume a: "length xs = 2" "list_all (\<lambda>b. b < (0x80 :: u8)) xs"
  then have "xs ! 0 < 0x80" "xs ! 1 < 0x80" by (simp_all add: list_all_length)
  then show ?thesis by (simp add: word_less_def)
qed

text \<open>What \<open>finish_message\<close> may change and the range of what it emits.\<close>

lemma finish_message_range:
  assumes "byte7_list (md_program s)" "byte7_list (md_bank_msb s)" "byte7_list (md_bank_lsb s)"
    "length (md_data s) = 2" "list_all (\<lambda>b. b < 0x80) (md_data s)"
    "finish_message ts s = (decoded, s')"
  shows "byte7_list (md_program s')" "byte7_list (md_bank_msb s')" "byte7_list (md_bank_lsb s')"
    "md_data s' = md_data s" "md_running_status s' = md_running_status s"
    "md_in_sysex s' = md_in_sysex s"
    "md_system_bytes_remaining s' = md_system_bytes_remaining s"
    "\<And>e. decoded = Some e \<Longrightarrow> event_in_range (te_event e) \<and> te_timestamp_ns e = ts"
proof -
  let ?c = "unat (md_status s AND 0x0f)"
  have c: "?c < 16" by (rule low_nibble)
  have d: "uint (md_data s ! 0) \<le> 127" "uint (md_data s ! 1) \<le> 127"
    using data7 [OF assms(4,5)] by simp_all
  note lists = byte7_list_update [OF assms(1)] byte7_list_update [OF assms(2)]
    byte7_list_update [OF assms(3)]
  note nths = byte7_list_nth [OF assms(1) c] byte7_list_nth [OF assms(2) c] byte7_list_nth [OF assms(3) c]
  show "byte7_list (md_program s')" "byte7_list (md_bank_msb s')" "byte7_list (md_bank_lsb s')"
    "md_data s' = md_data s" "md_running_status s' = md_running_status s"
    "md_in_sysex s' = md_in_sysex s"
    "md_system_bytes_remaining s' = md_system_bytes_remaining s"
    using assms(1-3,6) lists low7_range
    by (auto simp: finish_message_def Let_def split: if_splits)
  let ?v = "uint (md_data s ! 1 AND 0x7f)"
  have bank: "0 \<le> push_bit 7 m OR l \<and> push_bit 7 m OR l < 16384"
    if "m = md_bank_msb s ! ?c \<or> m = (md_bank_msb s)[?c := ?v] ! ?c"
      "l = md_bank_lsb s ! ?c \<or> l = (md_bank_lsb s)[?c := ?v] ! ?c" for m l
    using that nths byte7_list_nth [OF lists(2) c] byte7_list_nth [OF lists(3) c] low7_range
    by (intro conjI pair7_range) auto
  have bend: "0 \<le> push_bit 7 (uint (md_data s ! 1)) OR uint (md_data s ! 0) \<and>
      push_bit 7 (uint (md_data s ! 1)) OR uint (md_data s ! 0) < 16384"
    using d by (intro conjI pair7_range) simp_all
  show "decoded = Some e \<Longrightarrow> event_in_range (te_event e) \<and> te_timestamp_ns e = ts" for e
    using assms(6) nths c bend bank [of "md_bank_msb s ! ?c" "md_bank_lsb s ! ?c"]
      bank [of "(md_bank_msb s)[?c := ?v] ! ?c" "md_bank_lsb s ! ?c"]
      bank [of "md_bank_msb s ! ?c" "(md_bank_lsb s)[?c := ?v] ! ?c"]
      low7_range [of "md_data s ! 0"] low7_range [of "md_data s ! 1"] low_nibble_uint [of "md_status s"]
    unfolding finish_message_def Let_def event_in_range_def default_note_event_def
    by (clarsimp split: if_splits)
qed

text \<open>A data byte while a channel message is open: stored, and the message is finished when complete.\<close>

definition store_byte :: "u8 \<Rightarrow> midi_decoder \<Rightarrow> midi_decoder" where
  "store_byte byte s =
     s\<lparr> md_data := (md_data s)[md_data_count s := byte], md_data_count := md_data_count s + 1 \<rparr>"

definition message_done :: "midi_decoder \<Rightarrow> midi_decoder" where
  "message_done s =
     s\<lparr> md_data_count := 0, md_status := md_running_status s,
        md_expected_data := data_byte_count (md_running_status s) \<rparr>"

lemma feed_data:
  assumes "decoder_inv s" "\<not> md_in_sysex s" "md_system_bytes_remaining s = 0" "byte < 0x80"
    "md_status s \<noteq> 0"
  shows "feed byte ts s =
    (if md_data_count s + 1 \<noteq> md_expected_data s then (None, store_byte byte s)
     else (case finish_message ts (store_byte byte s) of (d, s') \<Rightarrow> (d, message_done s')))"
proof -
  have "\<not> 0xf8 \<le> byte" "\<not> 0x80 \<le> byte" using assms(4) by (simp_all add: word_le_def word_less_def)
  moreover have "md_data_count s < length (md_data s)"
    using assms(1,5) data_byte_count_status [of "md_status s"] by (auto simp: decoder_inv_def)
  ultimately show ?thesis
    using assms(2,3,5) unfolding feed_def status_bit
    by (simp add: Let_def store_byte_def message_done_def split: prod.splits)
qed

lemma store_byte_range:
  assumes "decoder_inv s" "byte < 0x80"
  shows "list_all (\<lambda>b. b < 0x80) (md_data (store_byte byte s))" "length (md_data (store_byte byte s)) = 2"
  using assms
  by (cases "md_data_count s < length (md_data s)",
      auto simp: decoder_inv_def store_byte_def list_all_length nth_list_update)

lemma feed_data_inv:
  assumes "decoder_inv s" "\<not> md_in_sysex s" "md_system_bytes_remaining s = 0" "byte < 0x80"
    "md_status s \<noteq> 0" "feed byte ts s = (d, s')"
  shows "decoder_inv s' \<and> (\<forall>e. d = Some e \<longrightarrow> event_in_range (te_event e))"
proof (cases "md_data_count s + 1 \<noteq> md_expected_data s")
  case True
  then have "s' = store_byte byte s" "d = None" using feed_data [OF assms(1-5)] assms(6) by simp_all
  then show ?thesis
    using True assms(1,5) store_byte_range [OF assms(1,4)]
    by (auto simp: decoder_inv_def store_byte_def)
next
  case False
  obtain s1 where f: "finish_message ts (store_byte byte s) = (d, s1)" "s' = message_done s1"
    using feed_data [OF assms(1-5)] assms(6) False by (auto split: prod.splits)
  have lists: "byte7_list (md_program (store_byte byte s))" "byte7_list (md_bank_msb (store_byte byte s))"
    "byte7_list (md_bank_lsb (store_byte byte s))"
    using assms(1) by (simp_all add: decoder_inv_def store_byte_def)
  note r = finish_message_range [OF lists store_byte_range(2,1) [OF assms(1,4)] f(1)]
  have run: "md_running_status s1 = md_status s" "0x80 \<le> md_status s" "md_status s \<le> 0xef"
    using r(5) assms(1,5) by (auto simp: decoder_inv_def store_byte_def)
  have "decoder_inv s'"
    using r(1-4) run store_byte_range [OF assms(1,4)] data_byte_count_status [OF run(2,3)]
    unfolding f(2) by (auto simp: decoder_inv_def message_done_def)
  then show ?thesis using r(8) by blast
qed

lemma feed_inv:
  assumes "decoder_inv s" "feed byte ts s = (d, s')"
  shows "decoder_inv s' \<and> (\<forall>e. d = Some e \<longrightarrow> event_in_range (te_event e))"
proof -
  consider (realtime) "0xf8 \<le> byte" | (sysex) "byte < 0xf8" "md_in_sysex s"
    | (status) "byte < 0xf8" "\<not> md_in_sysex s" "0x80 \<le> byte"
    | (skip) "byte < 0x80" "\<not> md_in_sysex s" "md_system_bytes_remaining s \<noteq> 0 \<or> md_status s = 0"
    | (data) "byte < 0x80" "\<not> md_in_sysex s" "md_system_bytes_remaining s = 0" "md_status s \<noteq> 0"
    by (meson not_le)
  then show ?thesis
  proof cases
    case realtime
    then show ?thesis using assms by (auto simp: feed_def)
  next
    case sysex
    then show ?thesis using assms by (auto simp: feed_def decoder_inv_def split: if_splits)
  next
    case status
    have "0 < data_byte_count byte" if "byte \<le> 0xef" using data_byte_count_status [OF status(3) that] by auto
    then show ?thesis using assms status unfolding feed_def status_bit
      by (auto simp: decoder_inv_def Let_def not_le split: if_splits)
  next
    case skip
    then have "\<not> 0xf8 \<le> byte" "\<not> 0x80 \<le> byte" by (simp_all add: word_le_def word_less_def)
    then show ?thesis using assms skip unfolding feed_def status_bit
      by (auto simp: decoder_inv_def Let_def split: if_splits)
  next
    case data
    then show ?thesis using feed_data_inv [OF assms(1) _ _ _ _ assms(2)] by blast
  qed
qed

section \<open>Streams\<close>

fun feed_all :: "(u8 \<times> u64) list \<Rightarrow> midi_decoder \<Rightarrow> timestamped_event list \<times> midi_decoder" where
  "feed_all [] s = ([], s)"
| "feed_all ((byte, ts) # rest) s =
     (case feed byte ts s of (d, s1) \<Rightarrow>
        (case feed_all rest s1 of (es, s2) \<Rightarrow>
           ((case d of None \<Rightarrow> [] | Some e \<Rightarrow> [e]) @ es, s2)))"

lemma feed_all_inv:
  "decoder_inv s \<Longrightarrow> feed_all bs s = (es, s') \<Longrightarrow>
     decoder_inv s' \<and> list_all (\<lambda>e. event_in_range (te_event e)) es"
proof (induction bs arbitrary: s es)
  case Nil
  then show ?case by simp
next
  case (Cons b bs)
  obtain byte ts where b: "b = (byte, ts)" by fastforce
  obtain d s1 where f: "feed byte ts s = (d, s1)" by fastforce
  obtain es1 where r: "feed_all bs s1 = (es1, s')" "es = (case d of None \<Rightarrow> [] | Some e \<Rightarrow> [e]) @ es1"
    using Cons.prems(2) b f by (auto split: prod.splits)
  show ?case
    using feed_inv [OF Cons.prems(1) f] Cons.IH [OF _ r(1)] r(2) by (auto split: option.splits)
qed

lemma feed_realtime: "0xf8 \<le> byte \<Longrightarrow> feed byte ts s = (None, s)"
  by (simp add: feed_def)

lemma feed_all_realtime:
  "feed_all bs s = feed_all (filter (\<lambda>b. fst b < 0xf8) bs) s"
  by (induction bs s rule: feed_all.induct) (auto simp: feed_realtime not_less split: prod.splits)

text \<open>Feeding a status byte to a decoder outside a system-exclusive message opens that message.\<close>

definition opened :: "u8 \<Rightarrow> midi_decoder \<Rightarrow> midi_decoder" where
  "opened byte s =
     s\<lparr> md_system_bytes_remaining := 0, md_data_count := 0, md_status := byte,
        md_running_status := byte, md_expected_data := data_byte_count byte \<rparr>"

lemma feed_status:
  assumes "\<not> md_in_sysex s" "0x80 \<le> byte" "byte \<le> 0xef"
  shows "feed byte ts s = (None, opened byte s)"
proof -
  have "\<not> 0xf8 \<le> byte" using assms(3) by (simp add: word_le_def)
  then show ?thesis using assms unfolding feed_def status_bit by (simp add: Let_def opened_def)
qed

lemma opened_inv: "decoder_inv s \<Longrightarrow> 0x80 \<le> byte \<Longrightarrow> byte \<le> 0xef \<Longrightarrow> decoder_inv (opened byte s)"
  using data_byte_count_status [of byte] by (auto simp: decoder_inv_def opened_def)

text \<open>After a complete message the decoder is as if its status byte had just been received.\<close>

lemma feed_two_data:
  assumes "decoder_inv s" "\<not> md_in_sysex s" "0x80 \<le> st" "st \<le> 0xef" "data_byte_count st = 2"
    "d0 < 0x80" "d1 < 0x80"
  shows "feed_all [(d0, t0), (d1, t1)] (opened st s) =
    (case finish_message t1 ((opened st s)\<lparr> md_data := [d0, d1], md_data_count := 2 \<rparr>) of
       (e, s') \<Rightarrow> ((case e of None \<Rightarrow> [] | Some e \<Rightarrow> [e]), message_done s'))"
proof -
  let ?s = "opened st s"
  have inv: "decoder_inv ?s" using opened_inv assms by blast
  have st0: "st \<noteq> 0" using assms(3) by auto
  have f0: "feed d0 t0 ?s = (None, store_byte d0 ?s)"
    using feed_data [OF inv, of d0 t0] assms(2,5,6) st0 by (simp add: opened_def)
  have inv1: "decoder_inv (store_byte d0 ?s)"
    using feed_inv [OF inv f0] by simp
  have "length (md_data s) = 2" using assms(1) by (simp add: decoder_inv_def)
  then have two: "store_byte d1 (store_byte d0 ?s) = ?s\<lparr> md_data := [d0, d1], md_data_count := 2 \<rparr>"
    by (auto simp: store_byte_def opened_def length_Suc_conv numeral_2_eq_2)
  have "feed d1 t1 (store_byte d0 ?s) =
      (case finish_message t1 (store_byte d1 (store_byte d0 ?s)) of (d, s') \<Rightarrow> (d, message_done s'))"
    using feed_data [OF inv1, of d1 t1] assms(2,5,7) st0 by (simp add: opened_def store_byte_def)
  then show ?thesis using f0 two by (simp split: prod.splits)
qed

lemma feed_one_data:
  assumes "decoder_inv s" "\<not> md_in_sysex s" "0x80 \<le> st" "st \<le> 0xef" "data_byte_count st = 1"
    "d0 < 0x80"
  shows "feed_all [(d0, t0)] (opened st s) =
    (case finish_message t0 (store_byte d0 (opened st s)) of
       (e, s') \<Rightarrow> ((case e of None \<Rightarrow> [] | Some e \<Rightarrow> [e]), message_done s'))"
proof -
  have inv: "decoder_inv (opened st s)" using opened_inv assms by blast
  have "st \<noteq> 0" using assms(3) by auto
  then show ?thesis
    using feed_data [OF inv, of d0 t0] assms(2,5,6) by (simp add: opened_def split: prod.splits)
qed

section \<open>Messages\<close>

text \<open>The channel messages of the MIDI specification, their bytes, and the message an event reports.\<close>

datatype midi_message =
    MNoteOff nat nat nat
  | MNoteOn nat nat nat
  | MKeyPressure nat nat nat
  | MControl nat nat nat
  | MProgram nat nat
  | MChannelPressure nat nat
  | MPitchBend nat nat

fun message_ok :: "midi_message \<Rightarrow> bool" where
  "message_ok (MNoteOff ch n v) = (ch < 16 \<and> n < 128 \<and> v < 128)"
| "message_ok (MNoteOn ch n v) = (ch < 16 \<and> n < 128 \<and> 0 < v \<and> v < 128)"
| "message_ok (MKeyPressure ch n v) = (ch < 16 \<and> n < 128 \<and> v < 128)"
| "message_ok (MControl ch n v) = (ch < 16 \<and> n < 128 \<and> v < 128)"
| "message_ok (MProgram ch n) = (ch < 16 \<and> n < 128)"
| "message_ok (MChannelPressure ch v) = (ch < 16 \<and> v < 128)"
| "message_ok (MPitchBend ch v) = (ch < 16 \<and> v < 16384)"

fun message_status :: "midi_message \<Rightarrow> u8" where
  "message_status (MNoteOff ch n v) = 0x80 OR of_nat ch"
| "message_status (MNoteOn ch n v) = 0x90 OR of_nat ch"
| "message_status (MKeyPressure ch n v) = 0xa0 OR of_nat ch"
| "message_status (MControl ch n v) = 0xb0 OR of_nat ch"
| "message_status (MProgram ch n) = 0xc0 OR of_nat ch"
| "message_status (MChannelPressure ch v) = 0xd0 OR of_nat ch"
| "message_status (MPitchBend ch v) = 0xe0 OR of_nat ch"

fun message_data :: "midi_message \<Rightarrow> u8 list" where
  "message_data (MNoteOff ch n v) = [of_nat n, of_nat v]"
| "message_data (MNoteOn ch n v) = [of_nat n, of_nat v]"
| "message_data (MKeyPressure ch n v) = [of_nat n, of_nat v]"
| "message_data (MControl ch n v) = [of_nat n, of_nat v]"
| "message_data (MProgram ch n) = [of_nat n]"
| "message_data (MChannelPressure ch v) = [of_nat v]"
| "message_data (MPitchBend ch v) = [of_nat (v mod 128), of_nat (v div 128)]"

text \<open>A sender may leave out a status byte equal to the last one (running status).\<close>

fun encode_messages :: "u8 \<Rightarrow> midi_message list \<Rightarrow> u8 list" where
  "encode_messages prev [] = []"
| "encode_messages prev (m # ms) =
     (if message_status m = prev then [] else [message_status m]) @ message_data m @
     encode_messages (message_status m) ms"

definition event_message :: "note_event \<Rightarrow> midi_message" where
  "event_message e =
     (let ch = nat (ev_channel e) in
      case ev_type e of
        EVENT_NOTE \<Rightarrow> (if ev_on e then MNoteOn else MNoteOff) ch (nat (ev_note e)) (nat (ev_velocity e))
      | EVENT_KEY_PRESSURE \<Rightarrow> MKeyPressure ch (nat (ev_note e)) (nat (ev_value e))
      | EVENT_CONTROL \<Rightarrow> MControl ch (nat (ev_controller e)) (nat (ev_value e))
      | EVENT_CHANNEL_PRESSURE \<Rightarrow> MChannelPressure ch (nat (ev_value e))
      | EVENT_PITCH_BEND \<Rightarrow> MPitchBend ch (nat (ev_pitch_bend e + 8192)))"

definition is_program :: "midi_message \<Rightarrow> bool" where
  "is_program m \<longleftrightarrow> (case m of MProgram _ _ \<Rightarrow> True | _ \<Rightarrow> False)"

lemma small_nibble:
  assumes "c < 16"
  shows "(of_nat c :: u8) AND 0xf0 = 0" "unat ((of_nat c :: u8) AND 0x0f) = c"
proof -
  have u: "unat (of_nat c :: u8) = c" using assms by (simp add: unat_of_nat take_bit_nat_eq_self)
  have "unat (drop_bit 4 (of_nat c :: u8)) = 0" using assms u by (simp add: drop_bit_eq_div unat_div)
  then have "drop_bit 4 (of_nat c :: u8) = 0" by (simp only: unsigned_eq_0_iff)
  then show "(of_nat c :: u8) AND 0xf0 = 0" unfolding high_nibble by simp
  have m: "(0x0f :: u8) = mask 4" by (simp add: mask_eq_exp_minus_1)
  have "(of_nat c :: u8) AND 0x0f = take_bit 4 (of_nat c)" unfolding m by (rule take_bit_eq_mask [symmetric])
  moreover have "unat (take_bit 4 (of_nat c :: u8)) = c"
    using assms u by (simp add: unsigned_take_bit_eq take_bit_nat_eq_self)
  ultimately show "unat ((of_nat c :: u8) AND 0x0f) = c" by simp
qed

lemma status_nibbles:
  assumes "c < 16" "k AND 0xf0 = k" "k AND 0x0f = (0 :: u8)"
  shows "(k OR of_nat c) AND 0xf0 = k" "unat ((k OR of_nat c) AND 0x0f) = c"
proof -
  have "(k OR of_nat c) AND 0xf0 = (k AND 0xf0) OR (of_nat c AND 0xf0)"
    by (rule bit_word_eqI) (auto simp: bit_simps)
  then show "(k OR of_nat c) AND 0xf0 = k" using small_nibble(1) [OF assms(1)] assms(2) by simp
  have "(k OR of_nat c) AND 0x0f = (k AND 0x0f) OR (of_nat c AND 0x0f)"
    by (rule bit_word_eqI) (auto simp: bit_simps)
  then show "unat ((k OR of_nat c) AND 0x0f) = c" using small_nibble(2) [OF assms(1)] assms(3) by simp
qed

lemma data_nat:
  assumes "n < 128"
  shows "(of_nat n :: u8) < 0x80" "uint ((of_nat n :: u8) AND 0x7f) = int n" "uint (of_nat n :: u8) = int n"
proof -
  have u: "unat (of_nat n :: u8) = n" using assms by (simp add: unat_of_nat take_bit_nat_eq_self)
  then show "(of_nat n :: u8) < 0x80" using assms by (simp add: word_less_nat_alt)
  show "uint (of_nat n :: u8) = int n" using u by (simp add: uint_nat)
  have m: "(0x7f :: u8) = mask 7" by (simp add: mask_eq_exp_minus_1)
  have "(of_nat n :: u8) AND 0x7f = take_bit 7 (of_nat n)" unfolding m by (rule take_bit_eq_mask [symmetric])
  moreover have "unat (take_bit 7 (of_nat n :: u8)) = n"
    using assms u by (simp add: unsigned_take_bit_eq take_bit_nat_eq_self)
  ultimately show "uint ((of_nat n :: u8) AND 0x7f) = int n" by (simp add: uint_nat)
qed

definition ready :: "u8 \<Rightarrow> midi_decoder \<Rightarrow> bool" where
  "ready st s \<longleftrightarrow>
     decoder_inv s \<and> \<not> md_in_sysex s \<and> md_system_bytes_remaining s = 0 \<and> md_data_count s = 0 \<and>
     md_status s = st"

lemma ready_opened: "ready st s \<Longrightarrow> st \<noteq> 0 \<Longrightarrow> opened st s = s"
  by (auto simp: ready_def decoder_inv_def opened_def)

lemma opened_ready:
  "decoder_inv s \<Longrightarrow> \<not> md_in_sysex s \<Longrightarrow> 0x80 \<le> st \<Longrightarrow> st \<le> 0xef \<Longrightarrow> ready st (opened st s)"
  using opened_inv [of s st] by (simp add: ready_def opened_def)

lemma nat_below_16:
  "(c :: nat) < 16 \<Longrightarrow> c \<in> {0, 1, 2, 3, 4, 5, 6, 7, 8, 9, 10, 11, 12, 13, 14, 15}"
  by (simp, presburger)

lemma status_or_range:
  assumes "c < 16" "k \<in> {0x80, 0x90, 0xa0, 0xb0, 0xc0, 0xd0, 0xe0 :: u8}"
  shows "0x80 \<le> k OR of_nat c" "k OR of_nat c \<le> 0xef"
  using nat_below_16 [OF assms(1)] assms(2) by auto

lemma message_status_range:
  "message_ok m \<Longrightarrow> 0x80 \<le> message_status m" "message_ok m \<Longrightarrow> message_status m \<le> 0xef"
  using status_or_range by (cases m; simp)+

lemma message_status_kind:
  assumes "message_ok m"
  shows "data_byte_count (message_status m) = length (message_data m)"
  using assms by (cases m) (simp_all add: data_byte_count_def status_nibbles)

lemma message_data_bytes: "message_ok m \<Longrightarrow> list_all (\<lambda>b. b < 0x80) (message_data m)"
  by (cases m) (simp_all add: data_nat less_mult_imp_div_less)

lemma pair7_value:
  assumes "v < 16384"
  shows "push_bit 7 (int (v div 128)) OR int (v mod 128) = int v"
proof -
  have "push_bit 7 (int (v div 128)) AND int (v mod 128) = 0"
  proof (rule bit_eqI)
    fix n
    have "\<not> bit (int (v mod 128)) n" if "7 \<le> n"
    proof -
      have "int (v mod 128) = take_bit 7 (int v)" by (simp add: take_bit_eq_mod zmod_int)
      then show ?thesis using that by (simp add: bit_take_bit_iff)
    qed
    then show "bit (push_bit 7 (int (v div 128)) AND int (v mod 128)) n = bit 0 n"
      by (auto simp: bit_simps)
  qed
  then have "push_bit 7 (int (v div 128)) OR int (v mod 128) =
      push_bit 7 (int (v div 128)) + int (v mod 128)"
    by (simp add: disjunctive_add_eq_or)
  also have "\<dots> = int (v div 128 * 128) + int (v mod 128)" by (simp add: push_bit_eq_mult)
  also have "\<dots> = int v" by (simp only: of_nat_add [symmetric] div_mult_mod_eq)
  finally show ?thesis .
qed

text \<open>The event of a completed message reports that message.\<close>

lemma finish_reports:
  assumes "message_ok m" "md_status s = message_status m" "take (length (message_data m)) (md_data s) = message_data m"
    "length (md_data s) = 2" "finish_message ts s = (d, s')"
  shows "map_option (\<lambda>e. event_message (te_event e)) d = (if is_program m then None else Some m)"
    "md_status s' = md_status s"
proof -
  obtain a b where ab: "md_data s = [a, b]"
    using assms(4) by (auto simp: length_Suc_conv numeral_2_eq_2)
  have d: "md_data s ! 0 = hd (message_data m)"
    "length (message_data m) = 2 \<Longrightarrow> md_data s ! 1 = message_data m ! 1"
    using assms(3) ab by (cases m; auto)+
  show "md_status s' = md_status s"
    using assms(5) by (auto simp: finish_message_def Let_def split: if_splits)
  show "map_option (\<lambda>e. event_message (te_event e)) d = (if is_program m then None else Some m)"
    using assms(1,2,5) d
    by (cases m)
      (auto simp: finish_message_def Let_def status_nibbles data_nat event_message_def is_program_def
        default_note_event_def pair7_value less_mult_imp_div_less)
qed

lemma message_done_ready:
  assumes "decoder_inv (message_done s)" "\<not> md_in_sysex s" "md_system_bytes_remaining s = 0"
    "md_running_status s = st"
  shows "ready st (message_done s)"
  using assms by (simp add: ready_def message_done_def)

lemma message_decoded:
  assumes "message_ok m" "ready (message_status m) s"
  shows "\<exists>es s'. feed_all (map (\<lambda>b. (b, ts)) (message_data m)) s = (es, s') \<and>
    ready (message_status m) s' \<and>
    map (\<lambda>e. event_message (te_event e)) es = (if is_program m then [] else [m])"
proof -
  let ?st = "message_status m"
  note st = message_status_range [OF assms(1)] message_status_kind [OF assms(1)]
  have st0: "?st \<noteq> 0" using st(1) by auto
  have s: "decoder_inv s" "\<not> md_in_sysex s" "opened ?st s = s" "md_status s = ?st"
    "md_running_status s = ?st" "md_system_bytes_remaining s = 0" "length (md_data s) = 2"
    using assms(2) ready_opened [OF assms(2) st0] by (auto simp: ready_def decoder_inv_def)
  obtain es s' where f: "feed_all (map (\<lambda>b. (b, ts)) (message_data m)) s = (es, s')" by fastforce
  have inv': "decoder_inv s'" using feed_all_inv [OF s(1) f] by simp
  define s1 where "s1 = (if length (message_data m) = 2
    then s\<lparr> md_data := message_data m, md_data_count := 2 \<rparr> else store_byte (hd (message_data m)) s)"
  obtain d s2 where fin: "finish_message ts s1 = (d, s2)" by fastforce
  have "es = (case d of None \<Rightarrow> [] | Some e \<Rightarrow> [e]) \<and> s' = message_done s2"
  proof (cases "length (message_data m) = 2")
    case True
    then obtain d0 d1 where dd: "message_data m = [d0, d1]"
      by (auto simp: length_Suc_conv numeral_2_eq_2)
    then show ?thesis
      using feed_two_data [OF s(1,2) st(1,2), of d0 d1 ts ts] message_data_bytes [OF assms(1)] f fin st(3) True
      by (simp add: s1_def s(3) del: feed_all.simps)
  next
    case False
    then obtain d0 where dd: "message_data m = [d0]" by (cases m) auto
    then show ?thesis
      using feed_one_data [OF s(1,2) st(1,2), of d0 ts] message_data_bytes [OF assms(1)] f fin st(3) False
      by (simp add: s1_def s(3) del: feed_all.simps)
  qed
  moreover have s1: "md_status s1 = ?st" "md_running_status s1 = ?st" "\<not> md_in_sysex s1"
    "md_system_bytes_remaining s1 = 0" "length (md_data s1) = 2"
    "take (length (message_data m)) (md_data s1) = message_data m"
    using s assms(2) by (cases m; auto simp: s1_def store_byte_def ready_def length_Suc_conv numeral_2_eq_2)+
  moreover have "md_running_status s2 = md_running_status s1" "md_in_sysex s2 = md_in_sysex s1"
    "md_system_bytes_remaining s2 = md_system_bytes_remaining s1"
    using fin by (auto simp: finish_message_def Let_def split: if_splits)
  ultimately show ?thesis
    using finish_reports(1) [OF assms(1) s1(1,6,5) fin] inv' f message_done_ready [of s2 ?st]
    by (cases d) (auto split: if_splits)
qed

lemma feed_all_append:
  "feed_all (xs @ ys) s =
     (case feed_all xs s of (es, s1) \<Rightarrow> (case feed_all ys s1 of (fs, s2) \<Rightarrow> (es @ fs, s2)))"
  by (induction xs s rule: feed_all.induct) (auto split: prod.splits)

lemma stream_decoded:
  "list_all message_ok ms \<Longrightarrow> decoder_inv s \<Longrightarrow> \<not> md_in_sysex s \<Longrightarrow> prev = 0 \<or> ready prev s \<Longrightarrow>
     \<exists>es s'. feed_all (map (\<lambda>b. (b, ts)) (encode_messages prev ms)) s = (es, s') \<and>
       map (\<lambda>e. event_message (te_event e)) es = filter (\<lambda>m. \<not> is_program m) ms"
proof (induction ms arbitrary: prev s)
  case Nil
  then show ?case by simp
next
  case (Cons m ms)
  let ?st = "message_status m"
  have m: "message_ok m" using Cons.prems(1) by simp
  note st = message_status_range [OF m]
  have st0: "?st \<noteq> 0" using st(1) by auto
  define s0 where "s0 = (if ?st = prev then s else opened ?st s)"
  have pre: "feed_all (map (\<lambda>b. (b, ts)) (if ?st = prev then [] else [?st])) s = ([], s0)"
    using feed_status [OF Cons.prems(3) st] by (simp add: s0_def)
  have r0: "ready ?st s0"
    using Cons.prems(2-4) st0 opened_ready [OF Cons.prems(2,3) st] by (auto simp: s0_def)
  obtain es s1 where one: "feed_all (map (\<lambda>b. (b, ts)) (message_data m)) s0 = (es, s1)"
    "ready ?st s1" "map (\<lambda>e. event_message (te_event e)) es = (if is_program m then [] else [m])"
    using message_decoded [OF m r0] by blast
  have "decoder_inv s1" "\<not> md_in_sysex s1" using one(2) by (simp_all add: ready_def)
  then obtain fs s2 where rest:
    "feed_all (map (\<lambda>b. (b, ts)) (encode_messages ?st ms)) s1 = (fs, s2)"
    "map (\<lambda>e. event_message (te_event e)) fs = filter (\<lambda>m. \<not> is_program m) ms"
    using Cons.IH [of s1 ?st] one(2) Cons.prems(1) by auto
  have "feed_all (map (\<lambda>b. (b, ts)) (encode_messages prev (m # ms))) s = (es @ fs, s2)"
    using pre one(1) rest(1) by (simp only: encode_messages.simps map_append feed_all_append) simp
  then show ?case using one(3) rest(2) by simp
qed

section \<open>The queue refines a bounded sequence\<close>

definition mq_contents :: "midi_queue \<Rightarrow> timestamped_event list" where
  "mq_contents q = ring_list (mq_events q) (mq_head q) (mq_count q)"

definition mq_inv :: "midi_queue \<Rightarrow> bool" where
  "mq_inv q \<longleftrightarrow>
     length (mq_events q) = kMidiCapacity \<and> mq_head q < kMidiCapacity \<and> mq_count q \<le> kMidiCapacity \<and>
     mq_tail q = (mq_head q + mq_count q) mod kMidiCapacity"

lemma length_mq_contents [simp]: "length (mq_contents q) = mq_count q"
  by (simp add: mq_contents_def)

lemma midi_queue_new_inv: "mq_inv midi_queue_new" "mq_contents midi_queue_new = []"
  by (simp_all add: mq_inv_def midi_queue_new_def mq_contents_def kMidiCapacity_def)

text \<open>
  The abstract queue: a list with a limit of 1792 entries for ordinary events and 2048 for
  lifecycle events; beyond it an update replaces the newest queued one with the same key.
\<close>

definition spec_push ::
    "timestamped_event \<Rightarrow> timestamped_event list \<Rightarrow> push_result \<times> timestamped_event list" where
  "spec_push e l =
     (if lifecycle_event (te_event e) then
        (if length l < 2048 then (kQueued, l @ [e]) else (kLifecycleOverflow, l))
      else if length l < 1792 then (kQueued, l @ [e])
      else if replaceable_event (te_event e) then
        (case find (\<lambda>i. same_replacement_key (te_event (l ! i)) (te_event e)) (rev [0..<length l]) of
           Some i \<Rightarrow> (kCoalesced, l[i := e])
         | None \<Rightarrow> (kDropped, l))
      else (kDropped, l))"

lemma find_map_eq: "find P (map f xs) = map_option f (find (\<lambda>x. P (f x)) xs)"
  by (induction xs) auto

lemma find_cong_set: "(\<And>x. x \<in> set xs \<Longrightarrow> P x = Q x) \<Longrightarrow> find P xs = find Q xs"
  by (induction xs) auto

lemma backward_scan:
  "map (\<lambda>offset. (h + n - 1 - offset) mod c) [0..<n] = map (\<lambda>i. (h + i) mod c) (rev [0..<n :: nat])"
  by (rule nth_equalityI) (auto simp: rev_nth)

lemma midi_scan:
  "find (\<lambda>index. same_replacement_key (te_event (mq_events q ! index)) (te_event e))
     (map (\<lambda>offset. (mq_head q + mq_count q - 1 - offset) mod length (mq_events q)) [0..<mq_count q]) =
   map_option (\<lambda>i. (mq_head q + i) mod length (mq_events q))
     (find (\<lambda>i. same_replacement_key (te_event (mq_contents q ! i)) (te_event e))
       (rev [0..<mq_count q]))"
proof -
  have "find (\<lambda>i. same_replacement_key
        (te_event (mq_events q ! ((mq_head q + i) mod length (mq_events q)))) (te_event e))
      (rev [0..<mq_count q]) =
    find (\<lambda>i. same_replacement_key (te_event (mq_contents q ! i)) (te_event e)) (rev [0..<mq_count q])"
    by (rule find_cong_set) (simp add: mq_contents_def ring_list_nth)
  then show ?thesis unfolding backward_scan find_map_eq by simp
qed

lemma midi_push_refines:
  assumes "mq_inv q" "midi_push e q = (r, q')"
  shows "mq_inv q'" "spec_push e (mq_contents q) = (r, mq_contents q')"
proof -
  let ?n = "mq_count q"
  let ?find = "find (\<lambda>i. same_replacement_key (te_event (mq_contents q ! i)) (te_event e)) (rev [0..<?n])"
  have cap: "length (mq_events q) = kMidiCapacity" and n: "?n \<le> kMidiCapacity" and k: "kMidiCapacity = 2048"
    using assms(1) by (simp_all add: mq_inv_def kMidiCapacity_def)
  have lim: "2048 - kLifecycleReserve = 1792" by (simp add: kLifecycleReserve_def)
  have scan: "find (\<lambda>index. same_replacement_key (te_event (mq_events q ! index)) (te_event e))
      (map (\<lambda>offset. (mq_head q + ?n - 1 - offset) mod kMidiCapacity) [0..<?n]) =
      map_option (\<lambda>i. (mq_head q + i) mod kMidiCapacity) ?find"
    using midi_scan [of q e] cap by simp
  have "mq_inv q' \<and> spec_push e (mq_contents q) = (r, mq_contents q')"
  proof (cases "(\<not> lifecycle_event (te_event e) \<and> ?n \<ge> 1792) \<or> ?n = 2048")
    case False
    then have "?n < length (mq_events q)" using n cap k by auto
    then have "ring_list ((mq_events q)[mq_tail q := e]) (mq_head q) (Suc ?n) = mq_contents q @ [e]"
      using ring_list_push [of ?n "mq_events q" "mq_head q" e] assms(1) cap
      by (simp add: mq_inv_def mq_contents_def)
    moreover have "midi_push e q = (kQueued, q\<lparr> mq_events := (mq_events q)[mq_tail q := e],
        mq_tail := (mq_tail q + 1) mod kMidiCapacity, mq_count := ?n + 1,
        mq_stats := (mq_stats q)\<lparr> mq_enqueued := mq_enqueued (mq_stats q) + 1,
          mq_depth := of_nat (?n + 1),
          mq_high_water := max (mq_high_water (mq_stats q)) (of_nat (?n + 1)) \<rparr> \<rparr>)"
      using False unfolding midi_push_def Let_def lim k by auto
    ultimately have "r = kQueued" "mq_contents q' = mq_contents q @ [e]" "mq_inv q'"
      using assms \<open>?n < length (mq_events q)\<close>
      by (auto simp: mq_inv_def mq_contents_def mod_simps)
    then show ?thesis using False n k by (auto simp: spec_push_def)
  next
    case full: True
    show ?thesis
    proof (cases "\<not> lifecycle_event (te_event e) \<and> replaceable_event (te_event e) \<and> ?find \<noteq> None")
      case True
      then obtain i where i: "?find = Some i" by auto
      then have lt: "i < ?n" by (auto simp: find_Some_iff rev_nth)
      have "ring_list ((mq_events q)[(mq_head q + i) mod kMidiCapacity := e]) (mq_head q) ?n =
          (mq_contents q)[i := e]"
        using ring_list_replace [OF lt, of "mq_events q" "mq_head q" e] n cap by (simp add: mq_contents_def)
      moreover have "midi_push e q = (kCoalesced,
          q\<lparr> mq_events := (mq_events q)[(mq_head q + i) mod kMidiCapacity := e],
             mq_stats := (mq_stats q)\<lparr> mq_coalesced := mq_coalesced (mq_stats q) + 1 \<rparr> \<rparr>)"
        using full True i scan unfolding midi_push_def Let_def lim k by auto
      ultimately have "r = kCoalesced" "mq_contents q' = (mq_contents q)[i := e]" "mq_inv q'"
        using assms by (auto simp: mq_inv_def mq_contents_def)
      then show ?thesis using full True i k by (auto simp: spec_push_def)
    next
      case False
      have "\<exists>st. midi_push e q =
          (if lifecycle_event (te_event e) then kLifecycleOverflow else kDropped, q\<lparr> mq_stats := st \<rparr>)"
        using full False scan unfolding midi_push_def Let_def lim k by auto
      then have "r = (if lifecycle_event (te_event e) then kLifecycleOverflow else kDropped)"
        "mq_contents q' = mq_contents q" "mq_inv q'"
        using assms by (auto simp: mq_inv_def mq_contents_def)
      then show ?thesis using full False k by (auto simp: spec_push_def)
    qed
  qed
  then show "mq_inv q'" "spec_push e (mq_contents q) = (r, mq_contents q')" by simp_all
qed

lemma midi_pop_refines:
  assumes "mq_inv q"
  shows "mq_contents q = [] \<Longrightarrow> midi_pop q = None"
    "mq_contents q = e # es \<Longrightarrow> \<exists>q'. midi_pop q = Some (e, q') \<and> mq_inv q' \<and> mq_contents q' = es"
proof -
  show "mq_contents q = [] \<Longrightarrow> midi_pop q = None"
    by (metis length_0_conv length_mq_contents midi_pop_def)
  assume q: "mq_contents q = e # es"
  then obtain n where n: "mq_count q = Suc n" by (metis length_Cons length_mq_contents)
  have "mq_contents q = mq_events q ! mq_head q #
      ring_list (mq_events q) ((mq_head q + 1) mod kMidiCapacity) n"
    using assms n ring_list_pop [of "mq_head q" "mq_events q" n] by (simp add: mq_contents_def mq_inv_def)
  then show "\<exists>q'. midi_pop q = Some (e, q') \<and> mq_inv q' \<and> mq_contents q' = es"
    using assms q n by (auto simp: midi_pop_def mq_inv_def mq_contents_def mod_simps kMidiCapacity_def)
qed

text \<open>For lifecycle events alone the queue is a bounded first-in-first-out queue.\<close>

definition lifecycle_put :: "midi_queue \<Rightarrow> timestamped_event \<Rightarrow> (midi_queue, unit) outcome" where
  "lifecycle_put q e =
     (case midi_push e q of
        (kLifecycleOverflow, q') \<Rightarrow> (Inl (OverflowError ''lifecycle''), q)
      | (_, q') \<Rightarrow> (Inr (), q'))"

interpretation midi_fifo: bounded_fifo mq_contents mq_inv "\<lambda>e. lifecycle_event (te_event e)"
  kMidiCapacity lifecycle_put midi_pop
proof
  fix q and e :: timestamped_event
  assume a: "mq_inv q" "lifecycle_event (te_event e)"
  obtain r q' where p: "midi_push e q = (r, q')" by fastforce
  note r = midi_push_refines [OF a(1) p]
  show "\<exists>q'. lifecycle_put q e = (Inr (), q') \<and> mq_inv q' \<and> mq_contents q' = mq_contents q @ [e]"
    if "length (mq_contents q) < kMidiCapacity"
    using r p a that by (auto simp: spec_push_def lifecycle_put_def kMidiCapacity_def)
  show "\<exists>err. lifecycle_put q e = (Inl err, q)" if "length (mq_contents q) = kMidiCapacity"
    using r p a that by (auto simp: spec_push_def lifecycle_put_def kMidiCapacity_def)
next
  fix q
  show "mq_inv q \<Longrightarrow> length (mq_contents q) \<le> kMidiCapacity" by (simp add: mq_inv_def)
qed (use midi_pop_refines in blast)+

section \<open>Lifecycle events are safe\<close>

lemma same_key_lifecycle:
  "same_replacement_key a b \<Longrightarrow> replaceable_event b \<Longrightarrow> lifecycle_event a = lifecycle_event b"
  by (auto simp: same_replacement_key_def lifecycle_event_def replaceable_event_def split: if_splits)

definition is_release :: "timestamped_event \<Rightarrow> bool" where
  "is_release e = lifecycle_event (te_event e)"

lemma filter_update_neither:
  "\<not> P x \<Longrightarrow> \<not> P (xs ! i) \<Longrightarrow> filter P (xs[i := x]) = filter P xs"
  by (induction xs arbitrary: i) (auto split: nat.splits)

lemma spec_push_lifecycle:
  assumes "spec_push e l = (r, l')"
  shows "filter is_release l' = filter is_release l @ (if is_release e \<and> r = kQueued then [e] else [])"
    and "length (filter (\<lambda>x. \<not> is_release x) l) \<le> 1792 \<Longrightarrow>
         length (filter (\<lambda>x. \<not> is_release x) l') \<le> 1792"
    and "is_release e \<Longrightarrow> r = kQueued \<or> r = kLifecycleOverflow \<and> length l \<ge> 2048"
proof -
  have coal: "\<not> is_release e \<and> \<not> is_release (l ! i) \<and> length l' = length l \<and> i < length l"
    if "r = kCoalesced" "l' = l[i := e]"
      "find (\<lambda>i. same_replacement_key (te_event (l ! i)) (te_event e)) (rev [0..<length l]) = Some i"
      "\<not> lifecycle_event (te_event e)" "replaceable_event (te_event e)" for i
  proof -
    have "same_replacement_key (te_event (l ! i)) (te_event e)" "i < length l"
      using that(3) by (auto simp: find_Some_iff rev_nth)
    then show ?thesis using same_key_lifecycle that(2,4,5) by (auto simp: is_release_def)
  qed
  show "filter is_release l' = filter is_release l @ (if is_release e \<and> r = kQueued then [e] else [])"
    using assms coal filter_update_neither [of is_release e l]
    by (auto simp: spec_push_def is_release_def split: if_splits option.splits)
  show "length (filter (\<lambda>x. \<not> is_release x) l') \<le> 1792"
    if "length (filter (\<lambda>x. \<not> is_release x) l) \<le> 1792"
  proof (cases "r = kCoalesced")
    case True
    then obtain i where i: "l' = l[i := e]" "\<not> is_release e" "\<not> is_release (l ! i)" "i < length l"
      using assms coal by (auto simp: spec_push_def split: if_splits option.splits)
    have "length (filter (\<lambda>x. \<not> is_release x) l') = length l - length (filter is_release l')"
      using sum_length_filter_compl [of is_release l'] i(1) by simp
    also have "filter is_release l' = filter is_release l"
      using filter_update_neither [OF i(2,3)] i(1) by simp
    also have "length l - length (filter is_release l) = length (filter (\<lambda>x. \<not> is_release x) l)"
      using sum_length_filter_compl [of is_release l] by simp
    finally show ?thesis using that by simp
  next
    case False
    have "length (filter (\<lambda>x. \<not> lifecycle_event (te_event x)) l) \<le> length l" by (rule length_filter_le)
    then show ?thesis
      using False assms that
      by (auto simp: spec_push_def is_release_def simp del: length_filter_le
          split: if_splits option.splits)
  qed
  show "is_release e \<Longrightarrow> r = kQueued \<or> r = kLifecycleOverflow \<and> length l \<ge> 2048"
    using assms by (auto simp: spec_push_def is_release_def split: if_splits)
qed

text \<open>Queue operations in any order; pops from an empty queue do nothing.\<close>

datatype queue_op = Push timestamped_event | Pop

fun queue_run :: "queue_op list \<Rightarrow> midi_queue \<Rightarrow> push_result list \<times> timestamped_event list \<times> midi_queue" where
  "queue_run [] q = ([], [], q)"
| "queue_run (Push e # ops) q =
     (case midi_push e q of (r, q1) \<Rightarrow>
        (case queue_run ops q1 of (rs, es, q2) \<Rightarrow> (r # rs, es, q2)))"
| "queue_run (Pop # ops) q =
     (case midi_pop q of
        None \<Rightarrow> queue_run ops q
      | Some (e, q1) \<Rightarrow> (case queue_run ops q1 of (rs, es, q2) \<Rightarrow> (rs, e # es, q2)))"

definition queue_safe :: "midi_queue \<Rightarrow> bool" where
  "queue_safe q \<longleftrightarrow> mq_inv q \<and> length (filter (\<lambda>x. \<not> is_release x) (mq_contents q)) \<le> 1792"

fun pushed_releases :: "queue_op list \<Rightarrow> timestamped_event list" where
  "pushed_releases [] = []"
| "pushed_releases (Push e # ops) = (if is_release e then [e] else []) @ pushed_releases ops"
| "pushed_releases (Pop # ops) = pushed_releases ops"

lemma queue_run_releases:
  assumes "queue_safe q" "queue_run ops q = (rs, es, q')" "kLifecycleOverflow \<notin> set rs"
  shows "queue_safe q' \<and>
    filter is_release es @ filter is_release (mq_contents q') =
      filter is_release (mq_contents q) @ pushed_releases ops"
  using assms
proof (induction ops q arbitrary: rs es rule: queue_run.induct)
  case (1 q)
  then show ?case by simp
next
  case (2 e ops q)
  obtain r q1 where p: "midi_push e q = (r, q1)" by fastforce
  obtain rs1 where r: "queue_run ops q1 = (rs1, es, q')" "rs = r # rs1"
    using "2.prems"(2) p by (auto split: prod.splits)
  have inv: "mq_inv q" using "2.prems"(1) by (simp add: queue_safe_def)
  note ref = midi_push_refines [OF inv p]
  note life = spec_push_lifecycle [OF ref(2)]
  have "queue_safe q1" using ref(1) life(2) "2.prems"(1) by (simp add: queue_safe_def)
  then have "queue_safe q' \<and> filter is_release es @ filter is_release (mq_contents q') =
      filter is_release (mq_contents q1) @ pushed_releases ops"
    using "2.IH" [OF p [symmetric] _ r(1)] "2.prems"(3) r(2) by simp
  moreover have "is_release e \<Longrightarrow> r = kQueued" using life(3) "2.prems"(3) r(2) by auto
  ultimately show ?case using life(1) by auto
next
  case (3 ops q)
  have inv: "mq_inv q" using "3.prems"(1) by (simp add: queue_safe_def)
  show ?case
  proof (cases "mq_contents q")
    case Nil
    then have "midi_pop q = None" using midi_pop_refines(1) [OF inv] by simp
    then show ?thesis using "3.IH"(1) "3.prems" by simp
  next
    case (Cons e l)
    then obtain q1 where q1: "midi_pop q = Some (e, q1)" "mq_inv q1" "mq_contents q1 = l"
      using midi_pop_refines(2) [OF inv] by blast
    obtain es1 where r: "queue_run ops q1 = (rs, es1, q')" "es = e # es1"
      using "3.prems"(2) q1(1) by (auto split: prod.splits)
    have "queue_safe q1" using q1 Cons "3.prems"(1) by (auto simp: queue_safe_def split: if_splits)
    then have "queue_safe q' \<and> filter is_release es1 @ filter is_release (mq_contents q') =
        filter is_release (mq_contents q1) @ pushed_releases ops"
      using "3.IH"(2) [OF q1(1) refl _ r(1) "3.prems"(3)] by simp
    then show ?thesis using r(2) q1(3) Cons by auto
  qed
qed

section \<open>Playback\<close>

fun push_all :: "timestamped_event list \<Rightarrow> midi_queue \<Rightarrow> midi_queue" where
  "push_all [] q = q"
| "push_all (e # es) q = push_all es (snd (midi_push e q))"

lemma enqueue_due_loop_pushes:
  assumes "enqueue_due_loop now c q p = (c', q', p')" "\<not> mp_lifecycle_overflow p" "mp_next_event p \<le> length (mp_events p)"
  shows "mp_events p' = mp_events p \<and> c' + mp_next_event p = c + mp_next_event p' \<and>
    mp_next_event p \<le> mp_next_event p' \<and> mp_next_event p' \<le> length (mp_events p) \<and>
    (\<forall>i. mp_next_event p \<le> i \<longrightarrow> i < mp_next_event p' \<longrightarrow> te_timestamp_ns (mp_events p ! i) \<le> now) \<and>
    (\<not> mp_lifecycle_overflow p' \<longrightarrow>
       q' = push_all (drop (mp_next_event p) (take (mp_next_event p') (mp_events p))) q \<and>
       (mp_next_event p' < length (mp_events p) \<longrightarrow>
          now < te_timestamp_ns (mp_events p ! mp_next_event p')))"
  using assms
proof (induction now c q p rule: enqueue_due_loop.induct)
  case (1 now c q p)
  let ?n = "mp_next_event p"
  let ?e = "mp_events p ! ?n"
  show ?case
  proof (cases "?n < length (mp_events p) \<and> te_timestamp_ns ?e \<le> now")
    case False
    then have "enqueue_due_loop now c q p = (c, q, p)" by (subst enqueue_due_loop.simps) auto
    then have "c' = c" "q' = q" "p' = p" using "1.prems"(1) by simp_all
    then show ?thesis using False "1.prems"(3) by (auto simp: not_le)
  next
    case True
    obtain r q1 where p1: "midi_push ?e q = (r, q1)" by fastforce
    show ?thesis
    proof (cases "r = kLifecycleOverflow")
      case ov: True
      then show ?thesis
        using "1.prems" True p1 by (auto simp: enqueue_due_loop.simps [of now c q p])
    next
      case ok: False
      let ?p1 = "p\<lparr> mp_next_event := ?n + 1 \<rparr>"
      have rest: "enqueue_due_loop now (c + 1) q1 ?p1 = (c', q', p')"
        using "1.prems"(1) True p1 ok by (simp add: enqueue_due_loop.simps [of now c q p])
      note ih = "1.IH" [OF True p1 [symmetric] ok rest]
      have split: "drop ?n (take m (mp_events p)) = ?e # drop (Suc ?n) (take m (mp_events p))"
        if "Suc ?n \<le> m" "m \<le> length (mp_events p)" for m
        using that by (subst Cons_nth_drop_Suc [symmetric]) (auto simp: nth_take)
      show ?thesis
      proof (intro conjI allI impI)
        fix i assume "?n \<le> i" "i < mp_next_event p'"
        then show "te_timestamp_ns (mp_events p ! i) \<le> now"
          using ih True "1.prems"(2) by (cases "i = ?n") auto
      qed (use ih True "1.prems"(2) split [of "mp_next_event p'"] p1 in auto)
    qed
  qed
qed

lemma sorted_snoc:
  assumes "sorted xs" "xs \<noteq> [] \<Longrightarrow> last xs \<le> (x :: 'a::linorder)"
  shows "sorted (xs @ [x])"
proof -
  have "sorted xs \<Longrightarrow> y \<in> set xs \<Longrightarrow> y \<le> last xs" for y
    by (induction xs) (auto split: if_splits)
  then have "y \<le> x" if "y \<in> set xs" for y
    using that assms by (metis empty_iff empty_set order_trans)
  then show ?thesis using assms(1) by (simp add: sorted_append)
qed

lemma rounded_delay:
  fixes d :: real
  assumes "0 \<le> d" "d \<le> real_of_int (18446744073709551615 - uint start)"
  shows "uint (start + of_int \<lfloor>d + 1 / 2\<rfloor> :: u64) = uint start + \<lfloor>d + 1 / 2\<rfloor>" "0 \<le> \<lfloor>d + 1 / 2\<rfloor>"
proof -
  show lo: "0 \<le> \<lfloor>d + 1 / 2\<rfloor>" using assms(1) by simp
  have "\<lfloor>d + 1 / 2\<rfloor> \<le> 18446744073709551615 - uint start"
  proof -
    have "d + 1 / 2 < real_of_int (18446744073709551615 - uint start) + 1" using assms(2) by simp
    then show ?thesis by (simp add: floor_less_iff [symmetric] floor_le_iff)
  qed
  then show "uint (start + of_int \<lfloor>d + 1 / 2\<rfloor> :: u64) = uint start + \<lfloor>d + 1 / 2\<rfloor>"
    using lo uint_bounds(4) [of start] uint_ge_0 [of start]
    by (simp add: uint_word_ariths uint_word_of_int mod_add_right_eq)
qed

lemma playback_load_sorted:
  assumes "mono scale" "scale 0 = 0" "playback_load scale start prev events p = Inr p'"
    "sorted (map te_timestamp_ns (mp_events p))"
    "mp_events p \<noteq> [] \<Longrightarrow> 0 \<le> prev \<and> scale prev \<le> real_of_int (18446744073709551615 - uint start) \<and>
       te_timestamp_ns (last (mp_events p)) = start + of_int \<lfloor>scale prev + 1 / 2\<rfloor>"
  shows "sorted (map te_timestamp_ns (mp_events p')) \<and>
    map te_event (mp_events p') = map te_event (mp_events p) @ events \<and>
    mp_next_event p' = mp_next_event p \<and> mp_lifecycle_overflow p' = mp_lifecycle_overflow p"
  using assms(3-5)
proof (induction events arbitrary: prev p)
  case Nil
  then show ?case by simp
next
  case (Cons e events)
  let ?t = "ev_time_seconds e"
  let ?ts = "start + of_int \<lfloor>scale ?t + 1 / 2\<rfloor> :: u64"
  let ?p1 = "p\<lparr> mp_events := mp_events p @ [\<lparr> te_timestamp_ns = ?ts, te_event = e \<rparr>],
      mp_end_timestamp_ns := ?ts \<rparr>"
  have g: "0 \<le> ?t" "mp_events p = [] \<or> prev \<le> ?t"
    "scale ?t \<le> real_of_int (18446744073709551615 - uint start)"
    "playback_load scale start ?t events ?p1 = Inr p'"
    using Cons.prems(1) by (auto simp: Let_def split: if_splits)
  have nonneg: "0 \<le> scale ?t" using monoD [OF assms(1) g(1)] assms(2) by simp
  have "te_timestamp_ns (last (mp_events p)) \<le> ?ts" if ne: "mp_events p \<noteq> []"
  proof -
    have pr: "0 \<le> prev" "scale prev \<le> real_of_int (18446744073709551615 - uint start)"
      "te_timestamp_ns (last (mp_events p)) = start + of_int \<lfloor>scale prev + 1 / 2\<rfloor>"
      using Cons.prems(3) [OF ne] by simp_all
    have "0 \<le> scale prev" using monoD [OF assms(1) pr(1)] assms(2) by simp
    moreover have "scale prev \<le> scale ?t" using g(2) ne monoD [OF assms(1)] by blast
    then have "\<lfloor>scale prev + 1 / 2\<rfloor> \<le> \<lfloor>scale ?t + 1 / 2\<rfloor>" by (intro floor_mono) simp
    ultimately show ?thesis
      unfolding word_le_def pr(3) using rounded_delay(1) [OF _ pr(2)] rounded_delay(1) [OF nonneg g(3)] by simp
  qed
  then have "sorted (map te_timestamp_ns (mp_events ?p1))"
    using Cons.prems(2) sorted_snoc [of "map te_timestamp_ns (mp_events p)" ?ts]
    by (simp add: last_map)
  then show ?case
    using Cons.IH [OF g(4)] g(1,3) by auto
qed

section \<open>Properties\<close>



text \<open>Whatever bytes arrive, every decoded event has all its fields within the MIDI ranges
  (channel, program, 14-bit bank, 7-bit data, signed 14-bit bend) and the decoder never indexes
  outside its two-byte data buffer.\<close>

theorem midi_decoder_events_in_range:
  "list_all (\<lambda>e. event_in_range (te_event e)) (fst (feed_all bs midi_decoder_new)) \<and>
   decoder_inv (snd (feed_all bs midi_decoder_new))"
  using feed_all_inv [OF midi_decoder_new_inv, of bs] by (cases "feed_all bs midi_decoder_new") auto

text \<open>The ring buffer with its two limits and its in-place coalescing implements the abstract
  bounded sequence: \<open>push\<close> returns the abstract verdict and leaves the abstract contents.\<close>

theorem midi_queue_push_refines:
  assumes "mq_inv q" and "midi_push e q = (r, q')"
  shows "mq_inv q' \<and> spec_push e (mq_contents q) = (r, mq_contents q')"
  using midi_push_refines [OF assms] by simp

theorem midi_queue_push_refines_witness:
  "\<exists>r q'. midi_push \<lparr> te_timestamp_ns = 3, te_event = default_note_event \<rparr> midi_queue_new = (r, q') \<and>
     mq_inv q' \<and> spec_push \<lparr> te_timestamp_ns = 3, te_event = default_note_event \<rparr> [] = (r, mq_contents q')"
  using midi_queue_push_refines [OF midi_queue_new_inv(1)] midi_queue_new_inv(2) by (metis surj_pair)

text \<open>Note-offs and all-notes-off messages are never dropped, duplicated or reordered by the
  queue, in any sequence of pushes and pops, as long as no push reported a lifecycle overflow.\<close>

theorem midi_releases_in_order:
  assumes "queue_run ops midi_queue_new = (rs, es, q')" and "kLifecycleOverflow \<notin> set rs"
  shows "filter is_release es @ filter is_release (mq_contents q') = pushed_releases ops"
proof -
  have "queue_safe midi_queue_new" using midi_queue_new_inv by (simp add: queue_safe_def)
  then show ?thesis using queue_run_releases [OF _ assms] midi_queue_new_inv(2) by simp
qed

lemma example_queue_run:
  "\<exists>q. queue_run [Push \<lparr> te_timestamp_ns = 3, te_event = default_note_event \<rparr>] midi_queue_new = ([kQueued], [], q)"
  by (simp add: midi_push_def midi_queue_new_def kMidiCapacity_def kLifecycleReserve_def Let_def
      del: replicate.simps)

theorem midi_releases_in_order_witness:
  "\<exists>q. queue_run [Push \<lparr> te_timestamp_ns = 3, te_event = default_note_event \<rparr>] midi_queue_new = ([kQueued], [], q) \<and>
     filter is_release (mq_contents q) = [\<lparr> te_timestamp_ns = 3, te_event = default_note_event \<rparr>]"
proof -
  obtain q where q: "queue_run [Push \<lparr> te_timestamp_ns = 3, te_event = default_note_event \<rparr>] midi_queue_new =
      ([kQueued], [], q)" using example_queue_run by blast
  then show ?thesis
    using midi_releases_in_order [OF q]
    by (simp add: is_release_def lifecycle_event_def default_note_event_def)
qed

text \<open>The reserve works: after any sequence of operations, a note-off is refused only when at
  least 256 other note-offs or all-notes-off messages are already queued.\<close>

theorem midi_release_refused_only_when_reserve_full:
  assumes "queue_run ops midi_queue_new = (rs, es, q)" and "kLifecycleOverflow \<notin> set rs"
    and "midi_push e q = (kLifecycleOverflow, q')"
  shows "256 \<le> length (filter is_release (mq_contents q))"
proof -
  have "queue_safe midi_queue_new" using midi_queue_new_inv by (simp add: queue_safe_def)
  then have safe: "queue_safe q" using queue_run_releases [OF _ assms(1,2)] by simp
  then have "spec_push e (mq_contents q) = (kLifecycleOverflow, mq_contents q')"
    using midi_push_refines(2) [OF _ assms(3)] by (simp add: queue_safe_def)
  then have "2048 \<le> length (mq_contents q)"
    by (auto simp: spec_push_def split: if_splits option.splits)
  then show ?thesis
    using safe sum_length_filter_compl [of is_release "mq_contents q"] by (simp add: queue_safe_def)
qed

lemma queue_run_fills:
  "mq_inv q \<Longrightarrow> list_all is_release es \<Longrightarrow> length (mq_contents q) + length es \<le> 2048 \<Longrightarrow>
     \<exists>q'. queue_run (map Push es) q = (replicate (length es) kQueued, [], q') \<and> mq_inv q' \<and>
       mq_contents q' = mq_contents q @ es"
proof (induction es arbitrary: q)
  case Nil
  then show ?case by simp
next
  case (Cons e es)
  obtain r q1 where p: "midi_push e q = (r, q1)" by fastforce
  have "mq_inv q1" "r = kQueued" "mq_contents q1 = mq_contents q @ [e]"
    using midi_push_refines [OF Cons.prems(1) p] Cons.prems(2,3)
    by (auto simp: spec_push_def is_release_def)
  then show ?case using Cons.IH [of q1] Cons.prems p by auto
qed

theorem midi_release_refused_only_when_reserve_full_witness:
  "\<exists>ops rs es q e q'. queue_run ops midi_queue_new = (rs, es, q) \<and>
     midi_push e q = (kLifecycleOverflow, q') \<and> 256 \<le> length (filter is_release (mq_contents q))"
proof -
  let ?e = "\<lparr> te_timestamp_ns = 3, te_event = default_note_event \<rparr>"
  have rel: "is_release ?e" by (simp add: is_release_def lifecycle_event_def default_note_event_def)
  then obtain q where q: "queue_run (map Push (replicate 2048 ?e)) midi_queue_new = (replicate 2048 kQueued, [], q)"
    "mq_inv q" "mq_contents q = replicate 2048 ?e"
    using queue_run_fills [OF midi_queue_new_inv(1), of "replicate 2048 ?e"] midi_queue_new_inv(2)
    by (auto simp: list_all_iff)
  obtain r q' where p: "midi_push ?e q = (r, q')" by fastforce
  have "r = kLifecycleOverflow"
    using midi_push_refines(2) [OF q(2) p] rel q(3)
    by (auto simp: spec_push_def is_release_def)
  moreover have "kLifecycleOverflow \<notin> set (replicate 2048 kQueued)" by simp
  ultimately show ?thesis
    using midi_release_refused_only_when_reserve_full [OF q(1)] q(1) p by blast
qed

text \<open>Playback of a file delivers exactly the events that are due: given that the conversion of
  seconds to nanoseconds is monotone and maps 0 to 0, a call at time \<open>now\<close> pushes, in file order,
  all events stamped no later than \<open>now\<close> and no other, and wrap-around of the 64-bit clock never
  reorders them.\<close>

theorem playback_delivers_due_events:
  assumes "mono scale" and "scale 0 = 0" and "playback_new scale events start = Inr p"
    and "enqueue_due now q p = (n, q', p')" and "\<not> mp_lifecycle_overflow p'"
  shows "n = length (filter (\<lambda>e. te_timestamp_ns e \<le> now) (mp_events p)) \<and>
    q' = push_all (filter (\<lambda>e. te_timestamp_ns e \<le> now) (mp_events p)) q \<and>
    map te_event (mp_events p') = events"
proof -
  let ?l = "mp_events p"
  have p: "sorted (map te_timestamp_ns ?l)" "map te_event ?l = events" "mp_next_event p = 0"
    "\<not> mp_lifecycle_overflow p"
    using playback_load_sorted [OF assms(1,2) assms(3) [unfolded playback_new_def]] by auto
  have d: "mp_events p' = ?l" "n = mp_next_event p'" "mp_next_event p' \<le> length ?l"
    "\<And>i. i < n \<Longrightarrow> te_timestamp_ns (?l ! i) \<le> now" "q' = push_all (take n ?l) q"
    "n < length ?l \<Longrightarrow> now < te_timestamp_ns (?l ! n)"
    using enqueue_due_loop_pushes [OF assms(4) [unfolded enqueue_due_def] p(4)] p(3) assms(5) by auto
  have late: "now < te_timestamp_ns (?l ! i)" if "n \<le> i" "i < length ?l" for i
    using d(6) p(1) that sorted_nth_mono [of "map te_timestamp_ns ?l" n i] by auto
  have "filter (\<lambda>e. te_timestamp_ns e \<le> now) (take n ?l) = take n ?l"
    using d(4) by (intro filter_True) (auto simp: in_set_conv_nth)
  moreover have "filter (\<lambda>e. te_timestamp_ns e \<le> now) (drop n ?l) = []"
    using late by (intro filter_False) (auto simp: in_set_conv_nth not_le)
  ultimately have "filter (\<lambda>e. te_timestamp_ns e \<le> now) (take n ?l @ drop n ?l) = take n ?l"
    by (simp del: append_take_drop_id)
  then have "filter (\<lambda>e. te_timestamp_ns e \<le> now) ?l = take n ?l" by simp
  then show ?thesis using d p(2) by simp
qed

theorem playback_delivers_due_events_witness:
  "\<exists>p n q' p'. playback_new (\<lambda>t. t * 1000000000) [default_note_event] 10 = Inr p \<and>
     enqueue_due 20 midi_queue_new p = (n, q', p') \<and> n = 1"
proof -
  let ?s = "\<lambda>t :: real. t * 1000000000"
  have m: "mono ?s" "?s 0 = 0" by (auto simp: mono_def)
  let ?p = "\<lparr> mp_events = [\<lparr> te_timestamp_ns = 10, te_event = default_note_event \<rparr>], mp_next_event = 0,
      mp_end_timestamp_ns = 10, mp_lifecycle_overflow = False \<rparr>"
  have p: "playback_new ?s [default_note_event] 10 = Inr ?p"
    by (simp add: playback_new_def Let_def default_note_event_def)
  obtain n q' p' where e: "enqueue_due 20 midi_queue_new ?p = (n, q', p')" by (metis surj_pair)
  obtain r q1 where push: "midi_push \<lparr> te_timestamp_ns = 10, te_event = default_note_event \<rparr> midi_queue_new = (r, q1)"
    by fastforce
  have "r = kQueued"
    using midi_push_refines(2) [OF midi_queue_new_inv(1) push] midi_queue_new_inv(2)
    by (simp add: spec_push_def split: if_splits)
  then have "\<not> mp_lifecycle_overflow p'"
    using e push by (auto simp: enqueue_due_def enqueue_due_loop.simps)
  then have "n = 1" using playback_delivers_due_events [OF m p e] by simp
  then show ?thesis using p e by blast
qed

end
