(* ===== verification/Reference_Synth.thy ===== *)
theory Reference_Synth
  imports Command_Control Dsp_Lut
begin

text \<open>
  The reference synthesizer of \<open>src/sim/harness/render/reference_synth.{h,cpp}\<close>: 512 voices that
  read 16-bit samples with linear interpolation, an optional biquad filter, a logarithmic
  volume envelope and a pair of gains, mixed into a signed 25-bit pair of sums. The operations
  are \<open>write_command_words\<close> (the voice command decoder), \<open>render_mix\<close> (one audio frame of all
  voices, with the optional diagnostics), \<open>render_sample\<close> and \<open>take_voice_completions\<close>.

  Checked table accesses (\<open>.at()\<close>) and unchecked reads of command words can fail in the model,
  so the absence of such failures is a theorem, not an assumption.
\<close>

section \<open>State\<close>

datatype envelope_stage = kDelay | kAttack | kHold | kDecay | kSustain | kReleaseStage

record voice_config =
  vo_enable :: bool
  vo_valid :: bool
  vo_stereo :: bool
  vo_released :: bool
  vo_base_addr :: u32
  vo_base_addr_r :: u32
  vo_length :: u32
  vo_length_r :: u32
  vo_loop_start :: u32
  vo_loop_start_r :: u32
  vo_loop_end :: u32
  vo_loop_end_r :: u32
  vo_phase :: u32
  vo_phase_r :: u32
  vo_phase_inc :: u32
  vo_gain_l :: int
  vo_gain_r :: int
  vo_envelope :: int
  vo_filter_enable :: bool
  vo_filter_b0 :: int
  vo_filter_b1 :: int
  vo_filter_b2 :: int
  vo_filter_a1 :: int
  vo_filter_a2 :: int
  vo_filter_z1_l :: int
  vo_filter_z2_l :: int
  vo_filter_z1_r :: int
  vo_filter_z2_r :: int
  vo_loop_mode :: int
  vo_generation :: u16

definition default_voice_config :: voice_config where
  "default_voice_config =
     \<lparr> vo_enable = False, vo_valid = False, vo_stereo = False, vo_released = False,
       vo_base_addr = 0, vo_base_addr_r = 0, vo_length = 0, vo_length_r = 0,
       vo_loop_start = 0, vo_loop_start_r = 0, vo_loop_end = 0, vo_loop_end_r = 0,
       vo_phase = 0, vo_phase_r = 0, vo_phase_inc = 0, vo_gain_l = 0, vo_gain_r = 0,
       vo_envelope = 0, vo_filter_enable = False, vo_filter_b0 = 0x00004000,
       vo_filter_b1 = 0, vo_filter_b2 = 0, vo_filter_a1 = 0, vo_filter_a2 = 0,
       vo_filter_z1_l = 0, vo_filter_z2_l = 0, vo_filter_z1_r = 0, vo_filter_z2_r = 0,
       vo_loop_mode = 0, vo_generation = 0 \<rparr>"

record envelope_state =
  es_stage :: envelope_stage
  es_delay_samples :: u32
  es_attack_step :: u32
  es_hold_samples :: u32
  es_decay_step :: u32
  es_sustain_cb :: u32
  es_release_step :: u32
  es_elapsed :: u32
  es_attack_level :: u32
  es_attenuation_cb :: u32

definition default_envelope_state :: envelope_state where
  "default_envelope_state =
     \<lparr> es_stage = kDelay, es_delay_samples = 0, es_attack_step = 0, es_hold_samples = 0,
       es_decay_step = 0, es_sustain_cb = 0, es_release_step = 0, es_elapsed = 0,
       es_attack_level = 0, es_attenuation_cb = 0 \<rparr>"

text \<open>The sample memory and the optional diagnostics record are references the object holds.\<close>

record reference_synth =
  rs_memory :: "int list"
  rs_voices :: "voice_config list"
  rs_envelopes :: "envelope_state list"
  rs_completions :: "voice_completion list"
  rs_sample_counter :: u32
  rs_diagnostics :: "render_diagnostics option"

definition reference_synth_new :: "int list \<Rightarrow> render_diagnostics option \<Rightarrow> reference_synth" where
  "reference_synth_new memory diagnostics =
     \<lparr> rs_memory = memory, rs_voices = replicate kNumVoices default_voice_config,
       rs_envelopes = replicate kNumVoices default_envelope_state, rs_completions = [],
       rs_sample_counter = 0, rs_diagnostics = diagnostics \<rparr>"

section \<open>Level conversion\<close>

text \<open>\<open>std::array::at\<close>.\<close>

definition lut_at :: "'a list \<Rightarrow> nat \<Rightarrow> error + 'a" where
  "lut_at table i = (if i < length table then Inr (table ! i) else Inl (OutOfRange ''array::at''))"

text \<open>
  The octave is found by binary search, so the subtraction of its base never wraps and the
  unsigned values are read as integers.
\<close>

definition cb_octave :: "int \<Rightarrow> nat" where
  "cb_octave cb =
     (if cb \<ge> kEnvCbOctaveQ12_20 ! 16 then 16
      else
        (let o1 = (if cb \<ge> kEnvCbOctaveQ12_20 ! 8 then 8 else 0);
             o2 = (if cb \<ge> kEnvCbOctaveQ12_20 ! (o1 + 4) then o1 + 4 else o1);
             o3 = (if cb \<ge> kEnvCbOctaveQ12_20 ! (o2 + 2) then o2 + 2 else o2)
         in (if cb \<ge> kEnvCbOctaveQ12_20 ! (o3 + 1) then o3 + 1 else o3)))"

definition cb_to_q15 :: "u32 \<Rightarrow> error + int" where
  "cb_to_q15 cb_q12_20 =
     (if uint cb_q12_20 \<ge> kEnvCbSilenceQ12_20 then Inr 0
      else
        (let octave = cb_octave (uint cb_q12_20);
             residual = uint cb_q12_20 - kEnvCbOctaveQ12_20 ! octave;
             index = (residual + 2 ^ (kEnvCbToQ15ResidualIndexShift - 1)) div
                       2 ^ kEnvCbToQ15ResidualIndexShift
         in case lut_at kEnvCbToQ15Mantissa (nat index) of
              Inl e \<Rightarrow> Inl e
            | Inr mantissa \<Rightarrow>
                (let scaled = mantissa div 2 ^ octave
                 in Inr (i16 ((scaled + 2 ^ (kEnvCbToQ15GuardBits - 1)) div
                               2 ^ kEnvCbToQ15GuardBits)))))"

text \<open>The scan for the highest set bit of a 15-bit magnitude, from bit 14 downwards.\<close>

fun leading_zeros_from :: "nat \<Rightarrow> u32 \<Rightarrow> nat" where
  "leading_zeros_from 0 magnitude = (if bit magnitude 0 then 14 else 0)"
| "leading_zeros_from (Suc b) magnitude =
     (if bit magnitude (Suc b) then 14 - Suc b else leading_zeros_from b magnitude)"

definition q15_to_cb :: "int \<Rightarrow> error + u32" where
  "q15_to_cb level =
     (if level \<ge> 0x7fff then Inr 0
      else if level \<le> 0 then Inr (of_int kEnvCbSilenceQ12_20)
      else
        (let magnitude = (of_int level :: u32);
             leading_zeros = leading_zeros_from 14 magnitude;
             normalized = push_bit leading_zeros magnitude;
             index = drop_bit (14 - kEnvQ15ToCbMantissaBits) normalized
                       AND (push_bit kEnvQ15ToCbMantissaBits 1 - 1)
         in case lut_at kEnvCbOctaveQ12_20 leading_zeros of
              Inl e \<Rightarrow> Inl e
            | Inr base \<Rightarrow>
                (case lut_at kEnvQ15ToCbMantissa (unat index) of
                   Inl e \<Rightarrow> Inl e
                 | Inr fine \<Rightarrow> Inr (of_int base + of_int fine))))"

section \<open>Envelope\<close>

definition attack_level_q15 :: "envelope_state \<Rightarrow> int" where
  "attack_level_q15 e = i16 (uint (drop_bit 17 (es_attack_level e) AND 0x7fff))"

definition envelope_level :: "voice_config \<Rightarrow> envelope_state \<Rightarrow> error + int" where
  "envelope_level v e =
     (if \<not> vo_enable v \<or> es_stage e = kDelay then Inr 0
      else if es_stage e = kAttack then Inr (attack_level_q15 e)
      else if es_stage e = kHold then Inr 0x7fff
      else cb_to_q15 (es_attenuation_cb e))"

text \<open>The stage after a finished hold, and after a finished attack.\<close>

definition decay_or_sustain :: "envelope_state \<Rightarrow> envelope_stage" where
  "decay_or_sustain e =
     (if es_sustain_cb e \<noteq> 0 \<and> es_decay_step e \<noteq> 0 then kDecay else kSustain)"

definition enter_stage :: "envelope_stage \<Rightarrow> envelope_state \<Rightarrow> envelope_state" where
  "enter_stage stage e =
     (if stage = kSustain then e\<lparr> es_stage := stage, es_attenuation_cb := es_sustain_cb e \<rparr>
      else e\<lparr> es_stage := stage \<rparr>)"

definition attack_done :: "envelope_state \<Rightarrow> envelope_state" where
  "attack_done e =
     enter_stage (if es_hold_samples e \<noteq> 0 then kHold else decay_or_sustain e)
       (e\<lparr> es_attack_level := 0xffffffff \<rparr>)"

text \<open>The switch of \<open>advance_envelope\<close>, stage by stage.\<close>

definition advance_delay :: "envelope_state \<Rightarrow> envelope_state" where
  "advance_delay e =
     (let e1 = e\<lparr> es_elapsed := es_elapsed e + 1 \<rparr>
      in if es_elapsed e1 \<ge> es_delay_samples e1 then
           (let e2 = e1\<lparr> es_elapsed := 0, es_stage := kAttack \<rparr>
            in if es_attack_step e2 = 0 then attack_done e2 else e2)
         else e1)"

definition advance_attack :: "envelope_state \<Rightarrow> envelope_state" where
  "advance_attack e =
     (let next_level = (ucast (es_attack_level e) :: u64) + ucast (es_attack_step e)
      in if next_level \<ge> 0xffffffff then attack_done (e\<lparr> es_elapsed := 0 \<rparr>)
         else e\<lparr> es_attack_level := ucast next_level \<rparr>)"

definition advance_hold :: "envelope_state \<Rightarrow> envelope_state" where
  "advance_hold e =
     (let e1 = e\<lparr> es_elapsed := es_elapsed e + 1 \<rparr>
      in if es_elapsed e1 \<ge> es_hold_samples e1
         then enter_stage (decay_or_sustain e1) (e1\<lparr> es_elapsed := 0 \<rparr>)
         else e1)"

definition advance_decay :: "envelope_state \<Rightarrow> envelope_state" where
  "advance_decay e =
     (if es_attenuation_cb e < es_sustain_cb e then
        (let next_cb = (ucast (es_attenuation_cb e) :: u64) + ucast (es_decay_step e)
         in if next_cb \<ge> ucast (es_sustain_cb e)
            then e\<lparr> es_attenuation_cb := es_sustain_cb e, es_stage := kSustain \<rparr>
            else e\<lparr> es_attenuation_cb := ucast next_cb \<rparr>)
      else if es_attenuation_cb e > es_sustain_cb e then
        (let distance = es_attenuation_cb e - es_sustain_cb e
         in if distance \<le> es_decay_step e
            then e\<lparr> es_attenuation_cb := es_sustain_cb e, es_stage := kSustain \<rparr>
            else e\<lparr> es_attenuation_cb := es_attenuation_cb e - es_decay_step e \<rparr>)
      else e\<lparr> es_stage := kSustain \<rparr>)"

definition advance_release :: "voice_config \<Rightarrow> envelope_state \<Rightarrow> voice_config \<times> envelope_state" where
  "advance_release v e =
     (let next_cb = (ucast (es_attenuation_cb e) :: u64) + ucast (es_release_step e)
      in if next_cb \<ge> of_int kEnvCbSilenceQ12_20
         then (v\<lparr> vo_enable := False \<rparr>, e\<lparr> es_attenuation_cb := of_int kEnvCbSilenceQ12_20 \<rparr>)
         else (v, e\<lparr> es_attenuation_cb := ucast next_cb \<rparr>))"

definition advance_stage :: "voice_config \<Rightarrow> envelope_state \<Rightarrow> voice_config \<times> envelope_state" where
  "advance_stage v e =
     (case es_stage e of
        kDelay \<Rightarrow> (v, advance_delay e)
      | kAttack \<Rightarrow> (v, advance_attack e)
      | kHold \<Rightarrow> (v, advance_hold e)
      | kDecay \<Rightarrow> (v, advance_decay e)
      | kSustain \<Rightarrow> (v, e\<lparr> es_attenuation_cb := es_sustain_cb e \<rparr>)
      | kReleaseStage \<Rightarrow> advance_release v e)"

definition advance_envelope ::
    "voice_config \<Rightarrow> envelope_state \<Rightarrow> error + (voice_config \<times> envelope_state)" where
  "advance_envelope v e =
     (case advance_stage v e of (v1, e1) \<Rightarrow>
        (case envelope_level v1 e1 of
           Inl err \<Rightarrow> Inl err
         | Inr level \<Rightarrow> Inr (v1\<lparr> vo_envelope := level \<rparr>, e1)))"

section \<open>Command decoding\<close>

definition synth_voice_opcode :: "u8 \<Rightarrow> bool" where
  "synth_voice_opcode opcode \<longleftrightarrow> opcode = 0x10 \<or> (opcode \<ge> 0x13 \<and> opcode \<le> 0x18)"

definition expected_start_words :: "u8 \<Rightarrow> nat" where
  "expected_start_words flags =
     5 + (if flags AND 3 \<noteq> 0 then 2 else 0) + (if flags AND 4 \<noteq> 0 then 3 else 0)
       + (if flags AND 8 \<noteq> 0 then 6 else 0)"

text \<open>
  The voice of a START command. The guard of the caller makes the view exactly as long as
  \<open>expected_start_words\<close> announces, so all indices are in range.
\<close>

definition start_config :: "u8 \<Rightarrow> u32 list \<Rightarrow> voice_config" where
  "start_config flags words =
     (let has_loop = (flags AND 3 \<noteq> 0);
          has_filter = (flags AND 4 \<noteq> 0);
          len = words ! 3 AND kPhaseFrameMask;
          index = (if has_loop then 6 else 4);
          v = default_voice_config
            \<lparr> vo_enable := True, vo_released := False, vo_generation := ucast (words ! 1),
              vo_loop_mode := uint (flags AND 3), vo_base_addr := words ! 2, vo_length := len,
              vo_loop_start := (if has_loop then words ! 4 AND kPhaseFrameMask else 0),
              vo_loop_end := (if has_loop then words ! 5 AND kPhaseFrameMask else len),
              vo_phase := 0, vo_phase_inc := words ! index,
              vo_gain_l := s16 (low_half (words ! (index + 1))),
              vo_gain_r := s16 (high_half (words ! (index + 1))) \<rparr>;
          v1 = (if has_filter then
                  v\<lparr> vo_filter_b0 := s16 (low_half (words ! (index + 2))),
                     vo_filter_b1 := s16 (high_half (words ! (index + 2))),
                     vo_filter_b2 := s16 (low_half (words ! (index + 3))),
                     vo_filter_a1 := s16 (high_half (words ! (index + 3))),
                     vo_filter_a2 := s16 (low_half (words ! (index + 4))),
                     vo_filter_enable := (words ! (index + 4) AND 0x00010000 \<noteq> 0) \<rparr>
                else v)
      in v1\<lparr> vo_valid := vo_length v1 \<noteq> 0 \<and>
               (vo_loop_mode v1 = 0 \<or>
                vo_loop_start v1 < vo_loop_end v1 \<and> vo_loop_end v1 \<le> vo_length v1),
             vo_envelope := 0 \<rparr>)"

definition start_envelope :: "u8 \<Rightarrow> u32 list \<Rightarrow> envelope_state" where
  "start_envelope flags words =
     (let index = 6 + (if flags AND 3 \<noteq> 0 then 2 else 0) + (if flags AND 4 \<noteq> 0 then 3 else 0);
          e = (if flags AND 8 \<noteq> 0 then
                 default_envelope_state
                   \<lparr> es_delay_samples := words ! index AND 0x00ffffff,
                     es_attack_step := words ! (index + 1),
                     es_hold_samples := words ! (index + 2) AND 0x00ffffff,
                     es_decay_step := words ! (index + 3),
                     es_sustain_cb := words ! (index + 4),
                     es_release_step := words ! (index + 5) \<rparr>
               else default_envelope_state);
          e1 = e\<lparr> es_stage := (if es_delay_samples e \<noteq> 0 then kDelay else kAttack) \<rparr>
      in if es_delay_samples e1 = 0 \<and> es_attack_step e1 = 0 then attack_done e1 else e1)"

definition synth_put :: "nat \<Rightarrow> voice_config \<Rightarrow> envelope_state \<Rightarrow> reference_synth \<Rightarrow> reference_synth" where
  "synth_put voice v e s =
     s\<lparr> rs_voices := (rs_voices s)[voice := v], rs_envelopes := (rs_envelopes s)[voice := e] \<rparr>"

definition synth_start :: "nat \<Rightarrow> u8 \<Rightarrow> u32 list \<Rightarrow> reference_synth \<Rightarrow> reference_synth" where
  "synth_start voice flags words s =
     (if \<not> vo_valid (start_config flags words) then s
      else synth_put voice (start_config flags words) (start_envelope flags words) s)"

text \<open>Opcode \<open>0x13\<close> replaces the envelope parameters of a sounding voice.\<close>

definition update_envelope :: "u32 list \<Rightarrow> envelope_state \<Rightarrow> envelope_state" where
  "update_envelope words e =
     (let e0 = e\<lparr> es_delay_samples := words ! 2 AND 0x00ffffff, es_attack_step := words ! 3,
                  es_hold_samples := words ! 4 AND 0x00ffffff, es_decay_step := words ! 5,
                  es_sustain_cb := words ! 6, es_release_step := words ! 7 \<rparr>;
          e1 = (if es_stage e0 = kDelay \<and> es_elapsed e0 \<ge> es_delay_samples e0
                then e0\<lparr> es_stage := kAttack \<rparr> else e0);
          e2 = (if es_stage e1 = kHold \<and> es_elapsed e1 \<ge> es_hold_samples e1
                then e1\<lparr> es_stage := decay_or_sustain e1 \<rparr> else e1)
      in if es_stage e2 = kSustain then
           (if es_decay_step e2 \<noteq> 0 then e2\<lparr> es_stage := kDecay \<rparr>
            else e2\<lparr> es_attenuation_cb := es_sustain_cb e2 \<rparr>)
         else e2)"

text \<open>Opcode \<open>0x14\<close>: where the release starts from, by stage.\<close>

definition release_attenuation :: "envelope_state \<Rightarrow> error + u32" where
  "release_attenuation e =
     (if es_release_step e = 0 then Inr (of_int kEnvCbSilenceQ12_20)
      else case es_stage e of
        kAttack \<Rightarrow> q15_to_cb (attack_level_q15 e)
      | kHold \<Rightarrow> Inr 0
      | kDelay \<Rightarrow> Inr (of_int kEnvCbSilenceQ12_20)
      | _ \<Rightarrow> Inr (es_attenuation_cb e))"

definition push_completion :: "nat \<Rightarrow> voice_config \<Rightarrow> u8 \<Rightarrow> reference_synth \<Rightarrow> reference_synth" where
  "push_completion voice v reason s =
     s\<lparr> rs_completions := rs_completions s @
          [\<lparr> vc_voice = of_nat voice, vc_generation = vo_generation v, vc_reason = reason \<rparr>] \<rparr>"

definition synth_release :: "nat \<Rightarrow> u32 \<Rightarrow> reference_synth \<Rightarrow> (reference_synth, unit) outcome" where
  "synth_release voice step s =
     (let v = rs_voices s ! voice;
          e = (rs_envelopes s ! voice)\<lparr> es_release_step := step \<rparr>
      in case release_attenuation e of
           Inl err \<Rightarrow> (Inl err, synth_put voice v e s)
         | Inr cb \<Rightarrow>
             (let e1 = e\<lparr> es_attenuation_cb := cb, es_elapsed := 0, es_stage := kReleaseStage \<rparr>;
                  v1 = v\<lparr> vo_released := True \<rparr>
              in (Inr (),
                  if step = 0
                  then push_completion voice v1 2 (synth_put voice (v1\<lparr> vo_enable := False \<rparr>) e1 s)
                  else synth_put voice v1 e1 s)))"

definition synth_update_voice ::
    "nat \<Rightarrow> (voice_config \<Rightarrow> voice_config) \<Rightarrow> reference_synth \<Rightarrow> reference_synth" where
  "synth_update_voice voice f s =
     s\<lparr> rs_voices := (rs_voices s)[voice := f (rs_voices s ! voice)] \<rparr>"

text \<open>
  The commands to a sounding voice. Only the length announced by the header is checked before
  \<open>words[2]\<close>, \<open>words[3]\<close> and \<open>words[4]\<close> are read; a read past the view is undefined.
\<close>

definition synth_runtime_command ::
    "u8 \<Rightarrow> nat \<Rightarrow> nat \<Rightarrow> u32 list \<Rightarrow> reference_synth \<Rightarrow> (reference_synth, unit) outcome" where
  "synth_runtime_command opcode payload_words voice words s =
     (if opcode = 0x13 \<and> payload_words = 7 then
        (Inr (), s\<lparr> rs_envelopes :=
           (rs_envelopes s)[voice := update_envelope words (rs_envelopes s ! voice)] \<rparr>)
      else if opcode = 0x14 then
        (case view_index words 2 of Inl e \<Rightarrow> (Inl e, s) | Inr step \<Rightarrow> synth_release voice step s)
      else if opcode = 0x15 then
        (Inr (), push_completion voice (rs_voices s ! voice) 1
                   (synth_update_voice voice (\<lambda>v. v\<lparr> vo_enable := False \<rparr>) s))
      else if opcode = 0x16 then
        (case view_index words 2 of
           Inl e \<Rightarrow> (Inl e, s)
         | Inr w \<Rightarrow> (Inr (), synth_update_voice voice
             (\<lambda>v. v\<lparr> vo_gain_l := s16 (low_half w), vo_gain_r := s16 (high_half w) \<rparr>) s))
      else if opcode = 0x17 then
        (case view_index words 2 of
           Inl e \<Rightarrow> (Inl e, s)
         | Inr w2 \<Rightarrow>
             (case view_index words 3 of
                Inl e \<Rightarrow> (Inl e, s)
              | Inr w3 \<Rightarrow>
                  (case view_index words 4 of
                     Inl e \<Rightarrow> (Inl e, s)
                   | Inr w4 \<Rightarrow> (Inr (), synth_update_voice voice
                       (\<lambda>v. v\<lparr> vo_filter_b0 := s16 (low_half w2),
                               vo_filter_b1 := s16 (high_half w2),
                               vo_filter_b2 := s16 (low_half w3),
                               vo_filter_a1 := s16 (high_half w3),
                               vo_filter_a2 := s16 (low_half w4),
                               vo_filter_enable := (w4 AND 0x00010000 \<noteq> 0) \<rparr>) s))))
      else if opcode = 0x18 then
        (case view_index words 2 of
           Inl e \<Rightarrow> (Inl e, s)
         | Inr w \<Rightarrow> (Inr (), synth_update_voice voice (\<lambda>v. v\<lparr> vo_phase_inc := w \<rparr>) s))
      else (Inr (), s))"

definition synth_write :: "reference_synth sink" where
  "synth_write s words =
     (if words = [] then (Inr (), s)
      else
        (let opcode = word_opcode (words ! 0);
             payload_words = word_payload (words ! 0);
             flags = word_flags (words ! 0);
             voice = (if synth_voice_opcode opcode then word_voice (words ! 0) else 0)
         in if voice \<ge> kNumVoices \<or> length words \<noteq> payload_words + 1 then (Inr (), s)
            else if opcode = 0x10 \<and> flags AND 0x30 = 0 \<and> flags AND 3 \<noteq> 3 \<and>
                    payload_words = expected_start_words flags
            then (Inr (), synth_start voice flags words s)
            else
              (let v = rs_voices s ! voice
               in if \<not> vo_enable v \<or> payload_words = 0 \<or> vo_generation v \<noteq> ucast (words ! 1)
                  then (Inr (), s)
                  else synth_runtime_command opcode payload_words voice words s)))"

section \<open>Sample arithmetic\<close>

definition abs_magnitude :: "int \<Rightarrow> u64" where
  "abs_magnitude v = (if v < 0 then of_int (- (v + 1)) + 1 else of_int v)"

definition read_word :: "int list \<Rightarrow> u32 \<Rightarrow> int" where
  "read_word memory address =
     (if unat address < length memory then memory ! unat address else 0)"

definition interpolate :: "int \<Rightarrow> int \<Rightarrow> u32 \<Rightarrow> int" where
  "interpolate sample_0 sample_1 fraction =
     (let difference = sample_1 - sample_0;
          product = difference * uint fraction;
          scaled_difference = i32 (product div 2 ^ kPhaseFracBits)
      in i16 (sample_0 + scaled_difference))"

text \<open>The saturations return the clipped value and the flag.\<close>

definition saturate :: "int \<Rightarrow> int \<times> bool" where
  "saturate v =
     (if v > 32767 then (32767, True) else if v < - 32768 then (- 32768, True) else (i16 v, False))"

definition saturate_i20 :: "int \<Rightarrow> int \<times> bool" where
  "saturate_i20 v =
     (let kMax = 2 ^ 19 - 1; kMin = - (2 ^ 19)
      in if v > kMax then (i32 kMax, True) else if v < kMin then (i32 kMin, True)
         else (i32 v, False))"

definition saturate_filter_state :: "int \<Rightarrow> int \<times> bool" where
  "saturate_filter_state v =
     (let kMax = 2 ^ 33 - 1; kMin = - (2 ^ 33)
      in if v > kMax then (kMax, True) else if v < kMin then (kMin, True) else (v, False))"

definition apply_gain :: "int \<Rightarrow> int \<Rightarrow> int \<times> bool" where
  "apply_gain sample gain = saturate (i32 ((sample * gain) div 2 ^ 15))"

text \<open>The contribution of a voice, its flag and the value before saturation.\<close>

definition apply_output_gain :: "int \<Rightarrow> int \<Rightarrow> int \<Rightarrow> int \<times> bool \<times> int" where
  "apply_output_gain sample gain envelope =
     (let v = (if envelope = 0x7fff then i32 ((sample * gain) div 2 ^ 15)
               else i32 ((sample * gain * envelope) div 2 ^ 30))
      in (fst (saturate v), snd (saturate v), v))"

record biquad_result =
  bq_y :: int
  bq_z1 :: int
  bq_z2 :: int
  bq_y_saturated :: bool
  bq_state_saturated :: bool
  bq_y_input :: int
  bq_state_input :: u64

definition biquad :: "int \<Rightarrow> int \<Rightarrow> int \<Rightarrow> voice_config \<Rightarrow> biquad_result" where
  "biquad sample z1 z2 v =
     (let y_q14 = vo_filter_b0 v * sample + z1;
          y_shift = y_q14 div 2 ^ 14;
          y = fst (saturate_i20 y_shift);
          next_z1 = vo_filter_b1 v * sample - vo_filter_a1 v * y + z2;
          next_z2 = vo_filter_b2 v * sample - vo_filter_a2 v * y
      in \<lparr> bq_y = y, bq_z1 = fst (saturate_filter_state next_z1),
           bq_z2 = fst (saturate_filter_state next_z2),
           bq_y_saturated = snd (saturate_i20 y_shift),
           bq_state_saturated = snd (saturate_filter_state next_z1) \<or>
             snd (saturate_filter_state next_z2),
           bq_y_input = y_shift,
           bq_state_input = max (abs_magnitude next_z1) (abs_magnitude next_z2) \<rparr>)"

section \<open>Rendering\<close>

definition loop_active :: "voice_config \<Rightarrow> bool" where
  "loop_active v \<longleftrightarrow> vo_loop_mode v = 1 \<or> vo_loop_mode v = 2 \<and> \<not> vo_released v"

definition channel_done :: "voice_config \<Rightarrow> u32 \<Rightarrow> u32 \<Rightarrow> bool" where
  "channel_done v phase len \<longleftrightarrow>
     (vo_loop_mode v = 0 \<or> \<not> loop_active v) \<and> drop_bit kPhaseFracBits phase \<ge> len"

definition voice_done :: "voice_config \<Rightarrow> bool" where
  "voice_done v \<longleftrightarrow> channel_done v (vo_phase v) (vo_length v) \<and>
     (\<not> vo_stereo v \<or> channel_done v (vo_phase_r v) (vo_length_r v))"

text \<open>The pair of frames one channel reads; both channels run the same code.\<close>

definition channel_frames :: "voice_config \<Rightarrow> u32 \<Rightarrow> u32 \<Rightarrow> u32 \<Rightarrow> u32 \<Rightarrow> u32 \<times> u32" where
  "channel_frames v phase len loop_start loop_end =
     (let finished = channel_done v phase len;
          frame_0 = (if finished then len - 1
                     else drop_bit kPhaseFracBits phase AND kPhaseFrameMask);
          frame_1 = (if \<not> finished \<and> loop_active v
                     then (if frame_0 + 1 \<ge> loop_end then loop_start else frame_0 + 1)
                     else if \<not> finished
                     then (if frame_0 + 1 \<ge> len then frame_0 else frame_0 + 1)
                     else frame_0)
      in (frame_0, frame_1))"

definition next_phase :: "voice_config \<Rightarrow> u32 \<Rightarrow> u32 \<Rightarrow> u32 \<Rightarrow> u32" where
  "next_phase v phase loop_start loop_end =
     (let phase_sum = (ucast phase :: u64) + ucast (vo_phase_inc v);
          loop_end_phase = push_bit kPhaseFracBits (ucast loop_end :: u64);
          loop_length_phase = push_bit kPhaseFracBits (loop_end - loop_start)
      in if loop_active v \<and> phase_sum \<ge> loop_end_phase
         then ucast phase_sum - loop_length_phase else ucast phase_sum)"

text \<open>The two interpolated samples of a voice at its current phase.\<close>

definition voice_samples :: "int list \<Rightarrow> voice_config \<Rightarrow> int \<times> int" where
  "voice_samples memory v =
     (let (frame_0, frame_1) =
            channel_frames v (vo_phase v) (vo_length v) (vo_loop_start v) (vo_loop_end v);
          (frame_r0, frame_r1) =
            (if vo_stereo v
             then channel_frames v (vo_phase_r v) (vo_length_r v) (vo_loop_start_r v) (vo_loop_end_r v)
             else (frame_0, frame_1));
          fraction = vo_phase v AND kPhaseFracMask;
          raw_l0 = read_word memory (vo_base_addr v + frame_0);
          raw_l1 = read_word memory (vo_base_addr v + frame_1);
          raw_r0 = (if vo_stereo v then read_word memory (vo_base_addr_r v + frame_r0) else raw_l0);
          raw_r1 = (if vo_stereo v then read_word memory (vo_base_addr_r v + frame_r1) else raw_l1)
      in (interpolate raw_l0 raw_l1 fraction, interpolate raw_r0 raw_r1 fraction))"

definition advance_phase :: "voice_config \<Rightarrow> voice_config" where
  "advance_phase v =
     v\<lparr> vo_phase := next_phase v (vo_phase v) (vo_loop_start v) (vo_loop_end v),
        vo_phase_r := (if vo_stereo v
          then next_phase v (vo_phase_r v) (vo_loop_start_r v) (vo_loop_end_r v)
          else vo_phase_r v) \<rparr>"

text \<open>The accumulators and counters that \<open>render_mix\<close> keeps on its stack.\<close>

record mix_frame =
  mx_accum_l :: int
  mx_accum_r :: int
  mx_filter_y_saturated :: bool
  mx_filter_state_saturated :: bool
  mx_contribution_saturated :: bool
  mx_filter_y_saturations :: u64
  mx_filter_state_saturations :: u64
  mx_contribution_saturations :: u64

definition mix_frame_new :: mix_frame where
  "mix_frame_new =
     \<lparr> mx_accum_l = 0, mx_accum_r = 0, mx_filter_y_saturated = False,
       mx_filter_state_saturated = False, mx_contribution_saturated = False,
       mx_filter_y_saturations = 0, mx_filter_state_saturations = 0,
       mx_contribution_saturations = 0 \<rparr>"

definition detailed :: "reference_synth \<Rightarrow> bool" where
  "detailed s = (case rs_diagnostics s of None \<Rightarrow> False | Some d \<Rightarrow> dg_detailed_enabled d)"

definition with_diagnostics ::
    "(render_diagnostics \<Rightarrow> render_diagnostics) \<Rightarrow> reference_synth \<Rightarrow> reference_synth" where
  "with_diagnostics f s =
     (if detailed s then s\<lparr> rs_diagnostics := map_option f (rs_diagnostics s) \<rparr> else s)"

definition note_envelope_jump ::
    "nat \<Rightarrow> int \<Rightarrow> int \<Rightarrow> render_diagnostics \<Rightarrow> render_diagnostics" where
  "note_envelope_jump voice envelope_before envelope d =
     (if envelope = envelope_before then d
      else
        (let d1 = d\<lparr> dg_audible_envelope_updates := dg_audible_envelope_updates d + 1 \<rparr>;
             jump = (of_int \<bar>envelope - envelope_before\<bar> :: u32)
         in if jump > dg_max_audible_envelope_jump d1
            then d1\<lparr> dg_max_audible_envelope_jump := jump,
                     dg_max_audible_envelope_jump_voice := int voice,
                     dg_max_audible_envelope_jump_frame := dg_frames d1 \<rparr>
            else d1))"

definition note_filter_inputs ::
    "biquad_result \<Rightarrow> biquad_result \<Rightarrow> render_diagnostics \<Rightarrow> render_diagnostics" where
  "note_filter_inputs l r d =
     d\<lparr> dg_max_abs_filter_y_input :=
          max (max (dg_max_abs_filter_y_input d) (abs_magnitude (bq_y_input l)))
            (abs_magnitude (bq_y_input r)),
        dg_max_abs_filter_state_input :=
          max (max (dg_max_abs_filter_state_input d) (bq_state_input l)) (bq_state_input r) \<rparr>"

definition note_contribution_inputs :: "int \<Rightarrow> int \<Rightarrow> render_diagnostics \<Rightarrow> render_diagnostics" where
  "note_contribution_inputs l r d =
     d\<lparr> dg_max_abs_voice_contribution_input_l :=
          max (dg_max_abs_voice_contribution_input_l d) (abs_magnitude l),
        dg_max_abs_voice_contribution_input_r :=
          max (dg_max_abs_voice_contribution_input_r d) (abs_magnitude r) \<rparr>"

text \<open>A disabled filter passes its input through and leaves its state.\<close>

definition filter_channel :: "voice_config \<Rightarrow> int \<Rightarrow> int \<Rightarrow> int \<Rightarrow> biquad_result" where
  "filter_channel v sample z1 z2 =
     (if vo_filter_enable v then biquad sample z1 z2 v
      else \<lparr> bq_y = sample, bq_z1 = z1, bq_z2 = z2, bq_y_saturated = False,
             bq_state_saturated = False, bq_y_input = 0, bq_state_input = 0 \<rparr>)"

definition count2 :: "bool \<Rightarrow> bool \<Rightarrow> u64" where
  "count2 a b = (if a then 1 else 0) + (if b then 1 else 0)"

definition mix_contribution ::
    "bool \<Rightarrow> biquad_result \<Rightarrow> biquad_result \<Rightarrow> int \<times> bool \<times> int \<Rightarrow> int \<times> bool \<times> int \<Rightarrow>
      mix_frame \<Rightarrow> mix_frame" where
  "mix_contribution detail fl fr cl cr m =
     (let m1 = m\<lparr> mx_accum_l := mx_accum_l m + fst cl, mx_accum_r := mx_accum_r m + fst cr \<rparr>
      in if \<not> detail then m1
         else m1\<lparr> mx_filter_y_saturated :=
                    mx_filter_y_saturated m1 \<or> bq_y_saturated fl \<or> bq_y_saturated fr,
                  mx_filter_state_saturated :=
                    mx_filter_state_saturated m1 \<or> bq_state_saturated fl \<or> bq_state_saturated fr,
                  mx_contribution_saturated :=
                    mx_contribution_saturated m1 \<or> fst (snd cl) \<or> fst (snd cr),
                  mx_filter_y_saturations := mx_filter_y_saturations m1 +
                    count2 (bq_y_saturated fl) (bq_y_saturated fr),
                  mx_filter_state_saturations := mx_filter_state_saturations m1 +
                    count2 (bq_state_saturated fl) (bq_state_saturated fr),
                  mx_contribution_saturations := mx_contribution_saturations m1 +
                    count2 (fst (snd cl)) (fst (snd cr)) \<rparr>)"

text \<open>The part of the loop body after the phase advanced: read, filter, scale and accumulate.
  \<open>v0\<close> is the voice before its phase advanced.\<close>

definition sound_voice ::
    "nat \<Rightarrow> voice_config \<Rightarrow> mix_frame \<times> reference_synth \<Rightarrow> mix_frame \<times> reference_synth" where
  "sound_voice voice v0 ms =
     (let (m, s) = ms;
          v = rs_voices s ! voice;
          (interp_l, interp_r) = voice_samples (rs_memory s) v0;
          fl = filter_channel v interp_l (vo_filter_z1_l v) (vo_filter_z2_l v);
          fr = filter_channel v interp_r (vo_filter_z1_r v) (vo_filter_z2_r v);
          v1 = v\<lparr> vo_filter_z1_l := bq_z1 fl, vo_filter_z2_l := bq_z2 fl,
                  vo_filter_z1_r := bq_z1 fr, vo_filter_z2_r := bq_z2 fr \<rparr>;
          cl = apply_output_gain (bq_y fl) (vo_gain_l v) (vo_envelope v);
          cr = apply_output_gain (bq_y fr) (vo_gain_r v) (vo_envelope v);
          s1 = s\<lparr> rs_voices := (rs_voices s)[voice := v1] \<rparr>;
          s2 = (if vo_filter_enable v then with_diagnostics (note_filter_inputs fl fr) s1 else s1)
      in (mix_contribution (detailed s) fl fr cl cr m,
          with_diagnostics (note_contribution_inputs (snd (snd cl)) (snd (snd cr))) s2))"

text \<open>One iteration of the voice loop.\<close>

definition render_voice ::
    "nat \<Rightarrow> mix_frame \<times> reference_synth \<Rightarrow> error + (mix_frame \<times> reference_synth)" where
  "render_voice voice ms =
     (let (m, s) = ms;
          v = rs_voices s ! voice;
          e = rs_envelopes s ! voice
      in case (if vo_enable v then advance_envelope v e else Inr (v, e)) of
           Inl err \<Rightarrow> Inl err
         | Inr (v1, e1) \<Rightarrow>
             (let s1 = with_diagnostics
                    (note_envelope_jump voice (vo_envelope v) (vo_envelope v1))
                    (synth_put voice v1 e1 s);
                  v2 = (if voice_done v1 then v1\<lparr> vo_enable := False \<rparr> else v1);
                  s2 = s1\<lparr> rs_voices := (rs_voices s1)[voice := v2] \<rparr>;
                  s3 = (if vo_enable v \<and> \<not> vo_enable v2
                        then push_completion voice v2 0 s2 else s2)
              in if \<not> vo_enable v2 \<or> \<not> vo_valid v2 then Inr (m, s3)
                 else
                   (let s4 = s3\<lparr> rs_voices := (rs_voices s3)[voice := advance_phase v2] \<rparr>
                    in if es_stage e1 = kDelay then Inr (m, s4)
                       else Inr (sound_voice voice v2 (m, s4)))))"

fun render_voices ::
    "nat list \<Rightarrow> mix_frame \<times> reference_synth \<Rightarrow> error + (mix_frame \<times> reference_synth)" where
  "render_voices [] ms = Inr ms"
| "render_voices (voice # rest) ms =
     (case render_voice voice ms of Inl e \<Rightarrow> Inl e | Inr ms' \<Rightarrow> render_voices rest ms')"

definition note_mix_frame :: "mix_frame \<Rightarrow> render_diagnostics \<Rightarrow> render_diagnostics" where
  "note_mix_frame m d =
     (let mix_l_saturated = snd (saturate (mx_accum_l m));
          mix_r_saturated = snd (saturate (mx_accum_r m));
          inc = (\<lambda>c b. if b then c + 1 else c)
      in if \<not> dg_detailed_enabled d then d\<lparr> dg_frames := dg_frames d + 1 \<rparr>
         else d\<lparr> dg_max_abs_mix_input_l := max (dg_max_abs_mix_input_l d) (abs_magnitude (mx_accum_l m)),
                 dg_max_abs_mix_input_r := max (dg_max_abs_mix_input_r d) (abs_magnitude (mx_accum_r m)),
                 dg_frames := dg_frames d + 1,
                 dg_filter_y_saturated_frames :=
                   inc (dg_filter_y_saturated_frames d) (mx_filter_y_saturated m),
                 dg_filter_y_saturations := dg_filter_y_saturations d + mx_filter_y_saturations m,
                 dg_filter_state_saturated_frames :=
                   inc (dg_filter_state_saturated_frames d) (mx_filter_state_saturated m),
                 dg_filter_state_saturations :=
                   dg_filter_state_saturations d + mx_filter_state_saturations m,
                 dg_contribution_saturated_frames :=
                   inc (dg_contribution_saturated_frames d) (mx_contribution_saturated m),
                 dg_contribution_saturations :=
                   dg_contribution_saturations d + mx_contribution_saturations m,
                 dg_mix_saturated_frames :=
                   inc (dg_mix_saturated_frames d) (mix_l_saturated \<or> mix_r_saturated),
                 dg_mix_saturations :=
                   dg_mix_saturations d + count2 mix_l_saturated mix_r_saturated \<rparr>)"

definition render_mix :: "reference_synth \<Rightarrow> error + ((int \<times> int) \<times> reference_synth)" where
  "render_mix s =
     (case render_voices [0..<length (rs_voices s)] (mix_frame_new, s) of
        Inl e \<Rightarrow> Inl e
      | Inr (m, s1) \<Rightarrow>
          Inr ((mx_accum_l m, mx_accum_r m),
               s1\<lparr> rs_diagnostics := map_option (note_mix_frame m) (rs_diagnostics s1),
                   rs_sample_counter := rs_sample_counter s1 + 1 \<rparr>))"

definition render_sample :: "reference_synth \<Rightarrow> error + ((int \<times> int) \<times> reference_synth)" where
  "render_sample s =
     (case render_mix s of
        Inl e \<Rightarrow> Inl e
      | Inr ((l, r), s1) \<Rightarrow> Inr ((fst (saturate l), fst (saturate r)), s1))"

definition take_voice_completions :: "reference_synth \<Rightarrow> voice_completion list \<times> reference_synth" where
  "take_voice_completions s = (rs_completions s, s\<lparr> rs_completions := [] \<rparr>)"

section \<open>Level conversion is total\<close>

lemma octave_table:
  "length kEnvCbOctaveQ12_20 = 17"
  "kEnvCbOctaveQ12_20 = map (\<lambda>i. 63130566 * int i) [0..<17]"
  by (simp_all add: kEnvCbOctaveQ12_20_def upt_rec)

lemma octave_nth: "i \<le> 16 \<Longrightarrow> kEnvCbOctaveQ12_20 ! i = 63130566 * int i"
  by (simp add: octave_table(2) del: upt.simps)

lemma mantissa_table:
  "length kEnvCbToQ15Mantissa = 121" "sorted (rev kEnvCbToQ15Mantissa)"
  "kEnvCbToQ15Mantissa ! 0 = 8388352" "kEnvCbToQ15Mantissa ! 120 = 4204135"
  by code_simp+

lemma mantissa_antimono:
  assumes "i \<le> j" and "j \<le> 120"
  shows "kEnvCbToQ15Mantissa ! j \<le> kEnvCbToQ15Mantissa ! i"
proof -
  have "rev kEnvCbToQ15Mantissa ! (120 - j) \<le> rev kEnvCbToQ15Mantissa ! (120 - i)"
    using assms by (intro sorted_nth_mono [OF mantissa_table(2)]) (simp_all add: mantissa_table(1))
  then show ?thesis using assms by (simp add: rev_nth mantissa_table(1))
qed

lemma mantissa_range:
  assumes "i \<le> 120"
  shows "4204135 \<le> kEnvCbToQ15Mantissa ! i" "kEnvCbToQ15Mantissa ! i \<le> 8388352"
  using mantissa_antimono [of i 120] mantissa_antimono [of 0 i] assms mantissa_table(3,4) by auto

text \<open>The binary search computes the quotient by the octave width.\<close>

lemma cb_octave_eq:
  assumes "0 \<le> cb" and "cb < 1048576000"
  shows "cb_octave cb = nat (cb div 63130566)" and "cb div 63130566 \<le> 16"
proof -
  show "cb div 63130566 \<le> 16" using zdiv_mono1 [of cb 1048575999 63130566] assms by simp
  have "63130566 * int (cb_octave cb) \<le> cb \<and> cb < 63130566 * (int (cb_octave cb) + 1)"
    using assms by (simp add: cb_octave_def Let_def octave_nth)
  then have "cb div 63130566 = int (cb_octave cb)"
    by (intro int_div_pos_eq [of cb 63130566 "int (cb_octave cb)" "cb - 63130566 * int (cb_octave cb)"]) auto
  then show "cb_octave cb = nat (cb div 63130566)" by simp
qed

text \<open>The level as a total function of the attenuation.\<close>

definition cb_index :: "int \<Rightarrow> nat" where
  "cb_index cb = nat ((cb mod 63130566 + 262144) div 524288)"

definition cb_level :: "int \<Rightarrow> int" where
  "cb_level cb =
     (if cb \<ge> 1048576000 then 0
      else (kEnvCbToQ15Mantissa ! cb_index cb div 2 ^ nat (cb div 63130566) + 128) div 256)"

lemma cb_index_le: "cb_index cb \<le> 120"
proof -
  have "cb mod 63130566 \<le> 63130565" using pos_mod_bound [of 63130566 cb] by simp
  then have "(cb mod 63130566 + 262144) div 524288 \<le> (63130565 + 262144) div 524288"
    by (intro zdiv_mono1) simp_all
  then show ?thesis by (simp add: cb_index_def)
qed

lemma div_exp_bounds:
  assumes "0 \<le> (m :: int)"
  shows "0 \<le> m div 2 ^ k" "m div 2 ^ k \<le> m"
proof -
  show "0 \<le> m div 2 ^ k" using assms by (simp add: pos_imp_zdiv_nonneg_iff)
  have "m div 2 ^ k \<le> m div 1" using assms by (intro zdiv_mono2) simp_all
  then show "m div 2 ^ k \<le> m" by simp
qed

lemma cb_level_range: "0 \<le> cb_level cb" "cb_level cb \<le> 32767"
proof -
  let ?m = "kEnvCbToQ15Mantissa ! cb_index cb" and ?k = "nat (cb div 63130566)"
  have m: "0 \<le> ?m" "?m \<le> 8388352" using mantissa_range [OF cb_index_le, of cb] by simp_all
  have b: "0 \<le> ?m div 2 ^ ?k" "?m div 2 ^ ?k \<le> 8388352"
    using div_exp_bounds [OF m(1), of ?k] m(2) by simp_all
  have "(?m div 2 ^ ?k + 128) div 256 \<le> 8388480 div 256" using b by (intro zdiv_mono1) simp_all
  then show "cb_level cb \<le> 32767" by (simp add: cb_level_def)
  show "0 \<le> cb_level cb" using b by (simp add: cb_level_def pos_imp_zdiv_nonneg_iff)
qed

lemma cb_to_q15_eq: "cb_to_q15 cb = Inr (cb_level (uint cb))"
proof (cases "uint cb \<ge> 1048576000")
  case True
  then show ?thesis by (simp add: cb_to_q15_def cb_level_def kEnvCbSilenceQ12_20_def)
next
  case False
  then have c: "uint cb < 1048576000" by simp
  note o = cb_octave_eq [OF uint_ge_0 c]
  have q: "0 \<le> uint cb div 63130566" by (simp add: pos_imp_zdiv_nonneg_iff)
  then have "kEnvCbOctaveQ12_20 ! nat (uint cb div 63130566) = 63130566 * (uint cb div 63130566)"
    using o(2) octave_nth [of "nat (uint cb div 63130566)"] by simp
  then have r: "uint cb - kEnvCbOctaveQ12_20 ! nat (uint cb div 63130566) = uint cb mod 63130566"
    by (simp add: minus_mult_div_eq_mod)
  have "in_i16 (cb_level (uint cb))" using cb_level_range [of "uint cb"] by (simp add: in_i16_def)
  then have "i16 (cb_level (uint cb)) = cb_level (uint cb)" by (rule i16_id)
  then show ?thesis
    using c cb_index_le [of "uint cb"]
    by (simp add: cb_to_q15_def cb_level_def o(1) r Let_def kEnvCbSilenceQ12_20_def lut_at_def
        mantissa_table(1) kEnvCbToQ15ResidualIndexShift_def kEnvCbToQ15GuardBits_def
        flip: cb_index_def)
qed

lemma leading_zeros_le: "leading_zeros_from b m \<le> 14"
  by (induction b) auto

lemma q15_to_cb_total: "\<exists>cb. q15_to_cb level = Inr cb"
proof -
  have "unat (x AND (push_bit 6 1 - 1) :: u32) < 64" for x
  proof -
    have "x AND (push_bit 6 1 - 1) \<le> (63 :: u32)" by (simp add: word_and_le1)
    then show ?thesis using unat_mono word_le_nat_alt [of "x AND (push_bit 6 1 - 1)" 63] by simp
  qed
  moreover have "length kEnvQ15ToCbMantissa = 64" by code_simp
  ultimately show ?thesis
    using leading_zeros_le [of 14 "of_int level"]
    by (auto simp: q15_to_cb_def Let_def lut_at_def octave_table(1) kEnvQ15ToCbMantissaBits_def
        intro: le_less_trans)
qed

lemma release_attenuation_total: "\<exists>cb. release_attenuation e = Inr cb"
  using q15_to_cb_total by (auto simp: release_attenuation_def split: envelope_stage.split)

text \<open>More attenuation never gives a higher level, also across octave boundaries.\<close>

lemma halved_mantissa:
  assumes "i \<le> 120" and "j \<le> 120" and "a < b"
  shows "kEnvCbToQ15Mantissa ! j div 2 ^ b \<le> kEnvCbToQ15Mantissa ! i div 2 ^ a"
proof -
  have m: "0 \<le> kEnvCbToQ15Mantissa ! j" using mantissa_range(1) [OF assms(2)] by simp
  have "kEnvCbToQ15Mantissa ! j div 2 ^ b \<le> kEnvCbToQ15Mantissa ! j div 2 ^ Suc a"
    using m assms(3) by (intro zdiv_mono2 power_increasing) simp_all
  also have "\<dots> = (kEnvCbToQ15Mantissa ! j div 2) div 2 ^ a"
    by (simp add: zdiv_zmult2_eq)
  also have "\<dots> \<le> 4204135 div 2 ^ a"
    using mantissa_range(2) [OF assms(2)] by (intro zdiv_mono1) simp_all
  also have "\<dots> \<le> kEnvCbToQ15Mantissa ! i div 2 ^ a"
    using mantissa_range(1) [OF assms(1)] by (intro zdiv_mono1) simp_all
  finally show ?thesis .
qed

lemma cb_level_antimono:
  assumes "0 \<le> c" and "c \<le> d"
  shows "cb_level d \<le> cb_level c"
proof (cases "d \<ge> 1048576000")
  case True
  then show ?thesis using cb_level_range(1) [of c] by (simp add: cb_level_def)
next
  case False
  have q: "c div 63130566 \<le> d div 63130566" using assms(2) by (intro zdiv_mono1) simp_all
  have "kEnvCbToQ15Mantissa ! cb_index d div 2 ^ nat (d div 63130566) \<le>
    kEnvCbToQ15Mantissa ! cb_index c div 2 ^ nat (c div 63130566)"
  proof (cases "c div 63130566 = d div 63130566")
    case True
    then have "c mod 63130566 \<le> d mod 63130566"
      using assms(2) mult_div_mod_eq [of 63130566 c] mult_div_mod_eq [of 63130566 d] by linarith
    then have "cb_index c \<le> cb_index d"
      unfolding cb_index_def by (intro nat_mono zdiv_mono1) simp_all
    then show ?thesis
      using True mantissa_antimono [OF _ cb_index_le] by (simp add: zdiv_mono1)
  next
    case neq: False
    then have "nat (c div 63130566) < nat (d div 63130566)"
      using q assms(1) pos_imp_zdiv_nonneg_iff [of 63130566 c] by simp
    then show ?thesis by (intro halved_mantissa cb_index_le)
  qed
  then show ?thesis using False assms(2) by (auto simp: cb_level_def intro: zdiv_mono1)
qed

end
