(* ===== verification/Synth_Rendering.thy ===== *)
theory Synth_Rendering
  imports Reference_Synth
begin

text \<open>
  What a rendered frame is. A per-voice reference function \<open>tick\<close> gives the successor of one
  voice and its contribution to the mix; \<open>render_mix\<close> is shown to apply it to all voices
  independently, to return the sums of the contributions, to report exactly the voices that
  fell silent, and never to throw. Bounds, exactness of the fixed-point arithmetic, the reads
  inside the sample and the completion of released voices follow from properties of \<open>tick\<close>.
\<close>

section \<open>The reference frame\<close>

definition level_spec :: "voice_config \<Rightarrow> envelope_state \<Rightarrow> int" where
  "level_spec v e =
     (if \<not> vo_enable v \<or> es_stage e = kDelay then 0
      else if es_stage e = kAttack then attack_level_q15 e
      else if es_stage e = kHold then 32767
      else cb_level (uint (es_attenuation_cb e)))"

definition envelope_tick :: "voice_config \<Rightarrow> envelope_state \<Rightarrow> voice_config \<times> envelope_state" where
  "envelope_tick v e =
     (case advance_stage v e of (v1, e1) \<Rightarrow> (v1\<lparr> vo_envelope := level_spec v1 e1 \<rparr>, e1))"

lemma advance_envelope_eq: "advance_envelope v e = Inr (envelope_tick v e)"
  by (auto simp: advance_envelope_def envelope_tick_def envelope_level_def level_spec_def
      cb_to_q15_eq split: prod.split)

type_synonym voice_state = "voice_config \<times> envelope_state"

text \<open>A voice after its envelope advanced and its end was noticed.\<close>

definition settle :: "voice_state \<Rightarrow> voice_state" where
  "settle x =
     (let (v, e) = x;
          (v1, e1) = (if vo_enable v then envelope_tick v e else (v, e))
      in (if voice_done v1 then v1\<lparr> vo_enable := False \<rparr> else v1, e1))"

definition sounding :: "voice_state \<Rightarrow> bool" where
  "sounding x \<longleftrightarrow> vo_enable (fst x) \<and> vo_valid (fst x)"

definition filtered_l :: "int list \<Rightarrow> voice_config \<Rightarrow> biquad_result" where
  "filtered_l mem v = filter_channel v (fst (voice_samples mem v)) (vo_filter_z1_l v) (vo_filter_z2_l v)"

definition filtered_r :: "int list \<Rightarrow> voice_config \<Rightarrow> biquad_result" where
  "filtered_r mem v = filter_channel v (snd (voice_samples mem v)) (vo_filter_z1_r v) (vo_filter_z2_r v)"

definition tick :: "int list \<Rightarrow> voice_state \<Rightarrow> voice_state" where
  "tick mem x =
     (let (v, e) = settle x
      in if \<not> sounding (v, e) then (v, e)
         else if es_stage e = kDelay then (advance_phase v, e)
         else ((advance_phase v)
           \<lparr> vo_filter_z1_l := bq_z1 (filtered_l mem v), vo_filter_z2_l := bq_z2 (filtered_l mem v),
             vo_filter_z1_r := bq_z1 (filtered_r mem v), vo_filter_z2_r := bq_z2 (filtered_r mem v) \<rparr>, e))"

definition audible :: "voice_state \<Rightarrow> bool" where
  "audible x \<longleftrightarrow> sounding (settle x) \<and> es_stage (snd (settle x)) \<noteq> kDelay"

definition contribution :: "int list \<Rightarrow> voice_state \<Rightarrow> int \<times> int" where
  "contribution mem x =
     (let v = fst (settle x)
      in if audible x
         then (fst (apply_output_gain (bq_y (filtered_l mem v)) (vo_gain_l v) (vo_envelope v)),
               fst (apply_output_gain (bq_y (filtered_r mem v)) (vo_gain_r v) (vo_envelope v)))
         else (0, 0))"

definition ended :: "nat \<Rightarrow> voice_state \<Rightarrow> voice_completion list" where
  "ended i x =
     (if vo_enable (fst x) \<and> \<not> vo_enable (fst (settle x))
      then [\<lparr> vc_voice = of_nat i, vc_generation = vo_generation (fst x), vc_reason = 0 \<rparr>] else [])"

definition voice_states :: "reference_synth \<Rightarrow> voice_state list" where
  "voice_states s = zip (rs_voices s) (rs_envelopes s)"

definition synth_shape :: "reference_synth \<Rightarrow> bool" where
  "synth_shape s \<longleftrightarrow> length (rs_voices s) = kNumVoices \<and> length (rs_envelopes s) = kNumVoices"

section \<open>One voice of the loop\<close>

lemma detailed_update [simp]:
  "detailed (s\<lparr> rs_voices := vs \<rparr>) = detailed s"
  "detailed (s\<lparr> rs_envelopes := es \<rparr>) = detailed s"
  "detailed (s\<lparr> rs_completions := cs \<rparr>) = detailed s"
  by (simp_all add: detailed_def)

lemma with_diagnostics_keeps [simp]:
  "rs_voices (with_diagnostics f s) = rs_voices s"
  "rs_envelopes (with_diagnostics f s) = rs_envelopes s"
  "rs_memory (with_diagnostics f s) = rs_memory s"
  "rs_completions (with_diagnostics f s) = rs_completions s"
  by (simp_all add: with_diagnostics_def)

lemma mix_contribution_sums [simp]:
  "mx_accum_l (mix_contribution d fl fr cl cr m) = mx_accum_l m + fst cl"
  "mx_accum_r (mix_contribution d fl fr cl cr m) = mx_accum_r m + fst cr"
  by (simp_all add: mix_contribution_def Let_def)

lemma advance_phase_keeps [simp]:
  "vo_enable (advance_phase v) = vo_enable v" "vo_valid (advance_phase v) = vo_valid v"
  "vo_generation (advance_phase v) = vo_generation v" "vo_envelope (advance_phase v) = vo_envelope v"
  "vo_filter_enable (advance_phase v) = vo_filter_enable v"
  "vo_gain_l (advance_phase v) = vo_gain_l v" "vo_gain_r (advance_phase v) = vo_gain_r v"
  "vo_filter_z1_l (advance_phase v) = vo_filter_z1_l v"
  "vo_filter_z2_l (advance_phase v) = vo_filter_z2_l v"
  "vo_filter_z1_r (advance_phase v) = vo_filter_z1_r v"
  "vo_filter_z2_r (advance_phase v) = vo_filter_z2_r v"
  "filter_channel (advance_phase v) = filter_channel v"
  by (simp_all add: advance_phase_def filter_channel_def biquad_def Let_def fun_eq_iff)

lemma sound_voice_effect:
  fixes m :: mix_frame
  assumes "i < length (rs_voices s)" and "rs_voices s ! i = advance_phase v"
  defines "r \<equiv> sound_voice i v (m, s)"
  shows "rs_voices (snd r) = (rs_voices s)[i := (advance_phase v)
           \<lparr> vo_filter_z1_l := bq_z1 (filtered_l (rs_memory s) v),
             vo_filter_z2_l := bq_z2 (filtered_l (rs_memory s) v),
             vo_filter_z1_r := bq_z1 (filtered_r (rs_memory s) v),
             vo_filter_z2_r := bq_z2 (filtered_r (rs_memory s) v) \<rparr>]"
    and "rs_envelopes (snd r) = rs_envelopes s" and "rs_memory (snd r) = rs_memory s"
    and "rs_completions (snd r) = rs_completions s"
    and "mx_accum_l (fst r) = mx_accum_l m +
      fst (apply_output_gain (bq_y (filtered_l (rs_memory s) v)) (vo_gain_l v) (vo_envelope v))"
    and "mx_accum_r (fst r) = mx_accum_r m +
      fst (apply_output_gain (bq_y (filtered_r (rs_memory s) v)) (vo_gain_r v) (vo_envelope v))"
  unfolding r_def
  by (simp_all add: sound_voice_def Let_def assms filtered_l_def filtered_r_def case_prod_beta)

text \<open>The frame of one voice, as an update of the machine.\<close>

definition voice_frame :: "nat \<Rightarrow> mix_frame \<times> reference_synth \<Rightarrow> mix_frame \<times> reference_synth \<Rightarrow> bool" where
  "voice_frame i ms ms' \<longleftrightarrow>
     (let (m, s) = ms; (m', s') = ms'; x = (rs_voices s ! i, rs_envelopes s ! i); mem = rs_memory s
      in rs_voices s' = (rs_voices s)[i := fst (tick mem x)] \<and>
         rs_envelopes s' = (rs_envelopes s)[i := snd (tick mem x)] \<and>
         rs_memory s' = mem \<and>
         rs_completions s' = rs_completions s @ ended i x \<and>
         mx_accum_l m' = mx_accum_l m + fst (contribution mem x) \<and>
         mx_accum_r m' = mx_accum_r m + snd (contribution mem x))"

lemma advance_stage_keeps:
  assumes "advance_stage v e = (v1, e1)"
  shows "vo_generation v1 = vo_generation v" "vo_valid v1 = vo_valid v"
  using assms
  by (auto simp: advance_stage_def advance_release_def Let_def split: envelope_stage.splits if_splits)

lemma envelope_tick_keeps:
  assumes "envelope_tick v e = (v1, e1)"
  shows "vo_generation v1 = vo_generation v" "vo_valid v1 = vo_valid v"
  using assms advance_stage_keeps by (auto simp: envelope_tick_def split: prod.splits)

lemma settled_voice:
  assumes "(if vo_enable v then advance_envelope v e else Inr (v, e)) = Inr (v1, e1)"
  shows "settle (v, e) = (if voice_done v1 then v1\<lparr> vo_enable := False \<rparr> else v1, e1)"
    and "vo_generation v1 = vo_generation v"
  using assms envelope_tick_keeps(1) by (auto simp: settle_def advance_envelope_eq split: if_splits)

lemma render_voice_frame:
  assumes "i < length (rs_voices s)" and "i < length (rs_envelopes s)"
  shows "\<exists>ms'. render_voice i (m, s) = Inr ms' \<and> voice_frame i (m, s) ms'"
proof -
  let ?v = "rs_voices s ! i" and ?e = "rs_envelopes s ! i"
  obtain v1 e1 where "(if vo_enable ?v then envelope_tick ?v ?e else (?v, ?e)) = (v1, e1)"
    by fastforce
  then have adv: "(if vo_enable ?v then advance_envelope ?v ?e else Inr (?v, ?e)) = Inr (v1, e1)"
    by (auto simp: advance_envelope_eq split: if_splits)
  define v2 where "v2 = (if voice_done v1 then v1\<lparr> vo_enable := False \<rparr> else v1)"
  note st = settled_voice [OF adv, folded v2_def]
  have gen: "vo_generation v2 = vo_generation ?v" using st(2) by (simp add: v2_def)
  define s3 where "s3 = (let s1 = with_diagnostics (note_envelope_jump i (vo_envelope ?v) (vo_envelope v1))
          (synth_put i v1 e1 s); s2 = s1\<lparr> rs_voices := (rs_voices s1)[i := v2] \<rparr>
     in if vo_enable ?v \<and> \<not> vo_enable v2 then push_completion i v2 0 s2 else s2)"
  have s3: "rs_voices s3 = (rs_voices s)[i := v2]" "rs_envelopes s3 = (rs_envelopes s)[i := e1]"
    "rs_memory s3 = rs_memory s" "rs_completions s3 = rs_completions s @ ended i (?v, ?e)"
    by (simp_all add: s3_def Let_def synth_put_def push_completion_def ended_def st gen)
  define s4 where "s4 = s3\<lparr> rs_voices := (rs_voices s3)[i := advance_phase v2] \<rparr>"
  have s4: "i < length (rs_voices s4)" "rs_voices s4 ! i = advance_phase v2"
    "rs_voices s4 = (rs_voices s)[i := advance_phase v2]" "rs_memory s4 = rs_memory s"
    "rs_envelopes s4 = (rs_envelopes s)[i := e1]"
    "rs_completions s4 = rs_completions s @ ended i (?v, ?e)"
    using assms(1) by (simp_all add: s4_def s3)
  obtain a b where ab: "sound_voice i v2 (m, s4) = (a, b)" by fastforce
  note sound = sound_voice_effect [OF s4(1,2), of m, unfolded ab fst_conv snd_conv]
  have r: "render_voice i (m, s) = (if \<not> vo_enable v2 \<or> \<not> vo_valid v2 then Inr (m, s3)
      else if es_stage e1 = kDelay then Inr (m, s4) else Inr (sound_voice i v2 (m, s4)))"
    using adv by (simp add: render_voice_def Let_def v2_def s3_def s4_def)
  show ?thesis
    using r s3 s4(3-6) sound st(1) ab
    by (auto simp: voice_frame_def tick_def contribution_def audible_def sounding_def Let_def)
qed

section \<open>The whole frame\<close>

lemma voice_states_nth:
  "i < length (rs_voices s) \<Longrightarrow> i < length (rs_envelopes s) \<Longrightarrow>
     voice_states s ! i = (rs_voices s ! i, rs_envelopes s ! i)"
  by (simp add: voice_states_def)

lemma length_voice_states: "synth_shape s \<Longrightarrow> length (voice_states s) = kNumVoices"
  by (simp add: voice_states_def synth_shape_def)

lemma voice_frame_states:
  assumes "voice_frame i (m, s) (m', s')" and "synth_shape s" and "i < kNumVoices"
  shows "voice_states s' = (voice_states s)[i := tick (rs_memory s) (voice_states s ! i)]"
    and "synth_shape s'" and "rs_memory s' = rs_memory s"
    and "rs_completions s' = rs_completions s @ ended i (voice_states s ! i)"
    and "mx_accum_l m' = mx_accum_l m + fst (contribution (rs_memory s) (voice_states s ! i))"
    and "mx_accum_r m' = mx_accum_r m + snd (contribution (rs_memory s) (voice_states s ! i))"
  using assms by (auto simp: voice_frame_def Let_def voice_states_def synth_shape_def update_zip)

definition frame_from :: "nat \<Rightarrow> mix_frame \<times> reference_synth \<Rightarrow> mix_frame \<times> reference_synth \<Rightarrow> bool" where
  "frame_from k ms ms' \<longleftrightarrow>
     (let (m, s) = ms; (m', s') = ms'; xs = voice_states s; mem = rs_memory s
      in synth_shape s' \<and> rs_memory s' = mem \<and>
         voice_states s' = take k xs @ map (tick mem) (drop k xs) \<and>
         rs_completions s' = rs_completions s @
           concat (map (\<lambda>i. ended i (xs ! i)) [k..<kNumVoices]) \<and>
         mx_accum_l m' = mx_accum_l m + (\<Sum>x\<leftarrow>drop k xs. fst (contribution mem x)) \<and>
         mx_accum_r m' = mx_accum_r m + (\<Sum>x\<leftarrow>drop k xs. snd (contribution mem x)))"

lemma frame_from_step:
  assumes "voice_frame k (m, s) (m1, s1)" and "frame_from (Suc k) (m1, s1) ms'"
    and "synth_shape s" and "k < kNumVoices"
  shows "frame_from k (m, s) ms'"
proof -
  note v = voice_frame_states [OF assms(1,3,4)]
  have k: "k < length (voice_states s)" using assms(3,4) by (simp add: length_voice_states)
  have tl: "drop k (voice_states s) = voice_states s ! k # drop (Suc k) (voice_states s)"
    using k by (rule Cons_nth_drop_Suc [symmetric])
  have tk: "take (Suc k) (voice_states s1) = take k (voice_states s) @ [tick (rs_memory s) (voice_states s ! k)]"
    using k by (simp add: v(1) take_Suc_conv_app_nth)
  have dr: "drop (Suc k) (voice_states s1) = drop (Suc k) (voice_states s)"
    by (simp add: v(1))
  have eq: "map (\<lambda>i. ended i (voice_states s1 ! i)) [Suc k..<kNumVoices] =
      map (\<lambda>i. ended i (voice_states s ! i)) [Suc k..<kNumVoices]"
    by (rule map_cong) (auto simp: v(1))
  have con: "concat (map (\<lambda>i. ended i (voice_states s ! i)) [k..<kNumVoices]) =
      ended k (voice_states s ! k) @ concat (map (\<lambda>i. ended i (voice_states s1 ! i)) [Suc k..<kNumVoices])"
    using assms(4) by (simp add: upt_conv_Cons eq del: upt_Suc)
  show ?thesis
    using assms(2) v(3-6) by (auto simp: frame_from_def Let_def tl tk dr con)
qed

lemma render_voices_frame:
  assumes "k \<le> kNumVoices" and "synth_shape s"
  shows "\<exists>ms'. render_voices [k..<kNumVoices] (m, s) = Inr ms' \<and> frame_from k (m, s) ms'"
  using assms
proof (induction "kNumVoices - k" arbitrary: k m s)
  case 0
  then show ?case by (simp add: frame_from_def length_voice_states)
next
  case (Suc n)
  then have k: "k < kNumVoices" and n: "n = kNumVoices - Suc k" by simp_all
  obtain m1 s1 where r: "render_voice k (m, s) = Inr (m1, s1)" "voice_frame k (m, s) (m1, s1)"
    using render_voice_frame [of k s m] Suc.prems(2) k by (auto simp: synth_shape_def)
  have "synth_shape s1" using voice_frame_states(2) [OF r(2) Suc.prems(2) k] .
  then obtain ms' where "render_voices [Suc k..<kNumVoices] (m1, s1) = Inr ms'"
    "frame_from (Suc k) (m1, s1) ms'" using Suc.hyps(1) [OF n, of s1 m1] k by auto
  then show ?case
    using r frame_from_step [OF r(2) _ Suc.prems(2) k] k by (simp add: upt_conv_Cons del: upt_Suc)
qed

definition mix_sums :: "reference_synth \<Rightarrow> int \<times> int" where
  "mix_sums s =
     (\<Sum>x\<leftarrow>voice_states s. fst (contribution (rs_memory s) x),
      \<Sum>x\<leftarrow>voice_states s. snd (contribution (rs_memory s) x))"

definition frame_completions :: "reference_synth \<Rightarrow> voice_completion list" where
  "frame_completions s = concat (map (\<lambda>i. ended i (voice_states s ! i)) [0..<kNumVoices])"

lemma render_mix_frame:
  assumes "synth_shape s"
  shows "\<exists>s'. render_mix s = Inr (mix_sums s, s') \<and> synth_shape s' \<and>
    rs_memory s' = rs_memory s \<and> voice_states s' = map (tick (rs_memory s)) (voice_states s) \<and>
    rs_completions s' = rs_completions s @ frame_completions s"
proof -
  obtain m' s' where "render_voices [0..<kNumVoices] (mix_frame_new, s) = Inr (m', s')"
    "frame_from 0 (mix_frame_new, s) (m', s')"
    using render_voices_frame [OF le0 assms, of mix_frame_new] by force
  then show ?thesis
    using assms by (simp add: render_mix_def synth_shape_def frame_from_def mix_frame_new_def
        mix_sums_def frame_completions_def voice_states_def Let_def)
qed

section \<open>Ranges and exactness\<close>

lemma saturate_eq: "fst (saturate v) = clamp v (- 32768) 32767"
  by (auto simp: saturate_def clamp_def i16_id in_i16_def)

lemma in_i16_saturate [simp]: "in_i16 (fst (saturate v))"
  by (auto simp: saturate_eq clamp_def in_i16_def)

lemma in_i16_contribution:
  "in_i16 (fst (contribution mem x))" "in_i16 (snd (contribution mem x))"
  by (simp_all add: contribution_def Let_def apply_output_gain_def in_i16_def [of 0])

lemma sum_list_in_i16:
  assumes "\<And>x. in_i16 (f x)"
  shows "- 32768 * int (length xs) \<le> (\<Sum>x\<leftarrow>xs. f x) \<and> (\<Sum>x\<leftarrow>xs. f x) \<le> 32767 * int (length xs)"
proof (induction xs)
  case (Cons a xs)
  then show ?case using assms [of a] by (simp add: in_i16_def)
qed simp

lemma mix_sums_range:
  assumes "synth_shape s"
  shows "in_mix25 (fst (mix_sums s))" "in_mix25 (snd (mix_sums s))"
  using sum_list_in_i16 [of "\<lambda>x. fst (contribution (rs_memory s) x)" "voice_states s"]
    sum_list_in_i16 [of "\<lambda>x. snd (contribution (rs_memory s) x)" "voice_states s"]
  by (simp_all add: mix_sums_def in_i16_contribution length_voice_states [OF assms] kNumVoices_def
      mix25_defs)

definition in_state34 :: "int \<Rightarrow> bool" where
  "in_state34 z \<longleftrightarrow> - 8589934592 \<le> z \<and> z \<le> 8589934591"

definition in_i20 :: "int \<Rightarrow> bool" where
  "in_i20 y \<longleftrightarrow> - 524288 \<le> y \<and> y \<le> 524287"

lemma saturate_i20_eq: "fst (saturate_i20 v) = clamp v (- 524288) 524287"
  by (auto simp: saturate_i20_def clamp_def i32_id in_i32_def)

lemma in_i20_saturate: "in_i20 (fst (saturate_i20 v))"
  by (auto simp: saturate_i20_eq clamp_def in_i20_def)

lemma in_state34_saturate: "in_state34 (fst (saturate_filter_state v))"
  by (auto simp: saturate_filter_state_def Let_def in_state34_def)

definition voice_ok :: "voice_config \<Rightarrow> bool" where
  "voice_ok v \<longleftrightarrow>
     list_all in_i16 [vo_gain_l v, vo_gain_r v, vo_filter_b0 v, vo_filter_b1 v, vo_filter_b2 v,
       vo_filter_a1 v, vo_filter_a2 v] \<and> 0 \<le> vo_envelope v \<and> vo_envelope v \<le> 32767 \<and>
     list_all in_state34 [vo_filter_z1_l v, vo_filter_z2_l v, vo_filter_z1_r v, vo_filter_z2_r v]"

text \<open>Interpolation is exact and stays between its two samples.\<close>

lemma interpolate_between:
  assumes "in_i16 a" and "in_i16 b" and "f \<le> 0xff"
  shows "interpolate a b f = a + ((b - a) * uint f) div 256"
    and "min a b \<le> interpolate a b f" and "interpolate a b f \<le> max a b"
proof -
  have f: "0 \<le> uint f" "uint f \<le> 256" using assms(3) by (simp_all add: word_le_def)
  let ?d = "((b - a) * uint f) div 256"
  have d: "min 0 (b - a) \<le> ?d" "?d \<le> max 0 (b - a)"
    using scaled_div_bounds [of "uint f" 8 "min 0 (b - a)" "b - a" "max 0 (b - a)"] f by simp_all
  have ad: "min a b \<le> a + ?d" "a + ?d \<le> max a b" using d by (simp_all add: min_def max_def split: if_splits)
  have "in_i32 ?d" "in_i16 (a + ?d)"
    using assms(1,2) d ad by (auto simp: in_i16_def in_i32_def min_def max_def split: if_splits)
  then show eq: "interpolate a b f = a + ?d"
    by (simp add: interpolate_def Let_def kPhaseFracBits_def i32_id i16_id)
  show "min a b \<le> interpolate a b f" "interpolate a b f \<le> max a b" using ad by (simp_all add: eq)
qed

lemma in_i16_read_word: "list_all in_i16 mem \<Longrightarrow> in_i16 (read_word mem a)"
  by (auto simp: read_word_def list_all_length in_i16_def)

lemma in_i16_interpolate: "in_i16 (interpolate a b f)"
  by (simp add: interpolate_def Let_def in_i16_i16)

lemma in_i16_voice_samples:
  "in_i16 (fst (voice_samples mem v))" "in_i16 (snd (voice_samples mem v))"
  by (simp_all add: voice_samples_def Let_def case_prod_beta in_i16_interpolate)

text \<open>The two stored samples a channel interpolates between.\<close>

definition sample_frames :: "voice_config \<Rightarrow> u32 \<times> u32" where
  "sample_frames v = channel_frames v (vo_phase v) (vo_length v) (vo_loop_start v) (vo_loop_end v)"

definition sample_pair :: "int list \<Rightarrow> voice_config \<Rightarrow> int \<times> int" where
  "sample_pair mem v =
     (read_word mem (vo_base_addr v + fst (sample_frames v)),
      read_word mem (vo_base_addr v + snd (sample_frames v)))"

lemma voice_sample_between:
  assumes "list_all in_i16 mem"
  shows "min (fst (sample_pair mem v)) (snd (sample_pair mem v)) \<le> fst (voice_samples mem v)"
    and "fst (voice_samples mem v) \<le> max (fst (sample_pair mem v)) (snd (sample_pair mem v))"
proof -
  have "vo_phase v AND kPhaseFracMask \<le> 0xff"
    unfolding kPhaseFracMask_def by (rule word_and_le1)
  note b = interpolate_between [OF in_i16_read_word in_i16_read_word this, OF assms assms]
  show "min (fst (sample_pair mem v)) (snd (sample_pair mem v)) \<le> fst (voice_samples mem v)"
    "fst (voice_samples mem v) \<le> max (fst (sample_pair mem v)) (snd (sample_pair mem v))"
    unfolding voice_samples_def sample_pair_def sample_frames_def Let_def case_prod_beta fst_conv snd_conv
    by (rule b(2), rule b(3))
qed

lemma filter_channel_ok:
  assumes "in_i16 x" and "in_state34 z1" and "in_state34 z2"
  shows "in_i20 (bq_y (filter_channel v x z1 z2))" "in_state34 (bq_z1 (filter_channel v x z1 z2))"
    "in_state34 (bq_z2 (filter_channel v x z1 z2))"
  using assms in_i20_saturate in_state34_saturate
  by (auto simp: filter_channel_def biquad_def Let_def in_i16_def in_i20_def)

text \<open>Products of bounded factors.\<close>

lemma abs_product_le: "\<bar>x\<bar> \<le> a \<Longrightarrow> \<bar>y\<bar> \<le> b \<Longrightarrow> \<bar>x * y\<bar> \<le> a * (b :: int)"
  by (simp add: abs_mult mult_mono)

lemma in_i16_abs: "in_i16 x \<Longrightarrow> \<bar>x\<bar> \<le> 32768"
  by (auto simp: in_i16_def)

lemma in_i20_abs: "in_i20 x \<Longrightarrow> \<bar>x\<bar> \<le> 524288"
  by (auto simp: in_i20_def)

lemma div_exp_abs:
  fixes x m :: int
  assumes "\<bar>x\<bar> \<le> m * 2 ^ k"
  shows "- m \<le> x div 2 ^ k" "x div 2 ^ k \<le> m"
proof -
  have "((- m) * 2 ^ k) div 2 ^ k \<le> x div 2 ^ k" using assms by (intro zdiv_mono1) auto
  then show "- m \<le> x div 2 ^ k"
    by (subst (asm) nonzero_mult_div_cancel_right) simp_all
  have "x div 2 ^ k \<le> (m * 2 ^ k) div 2 ^ k" using assms by (intro zdiv_mono1) auto
  then show "x div 2 ^ k \<le> m" by simp
qed

lemma output_gain_exact:
  assumes "in_i20 y" and "in_i16 g" and "0 \<le> n" and "n \<le> 32767"
  shows "fst (apply_output_gain y g n) =
    clamp (if n = 32767 then (y * g) div 2 ^ 15 else (y * g * n) div 2 ^ 30) (- 32768) 32767"
proof -
  have yg: "\<bar>y * g\<bar> \<le> 524288 * 32768"
    using abs_product_le [OF in_i20_abs [OF assms(1)] in_i16_abs [OF assms(2)]] .
  then have ygn: "\<bar>y * g * n\<bar> \<le> 524288 * 32768 * 32768"
    using abs_product_le [OF yg, of n 32768] assms(3,4) by simp
  have "in_i32 ((y * g) div 2 ^ 15)" "in_i32 ((y * g * n) div 2 ^ 30)"
    using div_exp_abs [of "y * g" 524288 15] div_exp_abs [of "y * g * n" 524288 30] yg ygn
    by (simp_all add: in_i32_def)
  then show ?thesis by (simp add: apply_output_gain_def Let_def saturate_eq i32_id)
qed

lemma filter_step_fits:
  assumes "voice_ok v" and "in_i16 x" and "in_state34 z1" and "in_state34 z2"
  defines "y \<equiv> bq_y (biquad x z1 z2 v)"
  shows "in_i64 (vo_filter_b0 v * x + z1)"
    and "in_i64 (vo_filter_b1 v * x - vo_filter_a1 v * y + z2)"
    and "in_i64 (vo_filter_b2 v * x - vo_filter_a2 v * y)"
proof -
  have y: "\<bar>y\<bar> \<le> 524288" using in_i20_saturate in_i20_abs by (simp add: y_def biquad_def Let_def)
  have x: "\<bar>x\<bar> \<le> 32768" using assms(2) by (rule in_i16_abs)
  have c: "\<bar>vo_filter_b0 v\<bar> \<le> 32768" "\<bar>vo_filter_b1 v\<bar> \<le> 32768" "\<bar>vo_filter_b2 v\<bar> \<le> 32768"
    "\<bar>vo_filter_a1 v\<bar> \<le> 32768" "\<bar>vo_filter_a2 v\<bar> \<le> 32768"
    using assms(1) by (simp_all add: voice_ok_def in_i16_abs)
  note p = abs_product_le [OF c(1) x] abs_product_le [OF c(2) x] abs_product_le [OF c(3) x]
    abs_product_le [OF c(4) y] abs_product_le [OF c(5) y]
  show "in_i64 (vo_filter_b0 v * x + z1)"
    "in_i64 (vo_filter_b1 v * x - vo_filter_a1 v * y + z2)"
    "in_i64 (vo_filter_b2 v * x - vo_filter_a2 v * y)"
    using p assms(3,4) unfolding in_i64_def in_state34_def abs_le_iff by simp_all
qed

section \<open>Reachable states\<close>

definition synth_ok :: "reference_synth \<Rightarrow> bool" where
  "synth_ok s \<longleftrightarrow> synth_shape s \<and> list_all in_i16 (rs_memory s) \<and> list_all voice_ok (rs_voices s)"

text \<open>The envelope stages touch nothing of the voice but its enable flag.\<close>

lemma advance_stage_voice:
  assumes "advance_stage v e = (v1, e1)"
  shows "v1 = v \<or> v1 = v\<lparr> vo_enable := False \<rparr>"
  using assms
  by (auto simp: advance_stage_def advance_release_def Let_def split: envelope_stage.splits if_splits)

lemma attack_level_range: "0 \<le> attack_level_q15 e" "attack_level_q15 e \<le> 32767"
proof -
  let ?w = "drop_bit 17 (es_attack_level e) AND 0x7fff"
  have "?w \<le> 0x7fff" by (rule word_and_le1)
  then have w: "0 \<le> uint ?w" "uint ?w \<le> 32767" by (simp_all add: word_le_def)
  then have "in_i16 (uint ?w)" unfolding in_i16_def by linarith
  then show "0 \<le> attack_level_q15 e" "attack_level_q15 e \<le> 32767"
    using w by (simp_all add: attack_level_q15_def i16_id)
qed

lemma level_spec_range: "0 \<le> level_spec v e" "level_spec v e \<le> 32767"
  by (simp_all add: level_spec_def attack_level_range cb_level_range)

lemma settle_voice:
  "\<exists>n b. fst (settle (v, e)) = v\<lparr> vo_envelope := n, vo_enable := b \<rparr> \<and>
     (n = vo_envelope v \<or> 0 \<le> n \<and> n \<le> 32767) \<and> (b \<longrightarrow> vo_enable v)"
proof -
  obtain v1 e1 where a: "advance_stage v e = (v1, e1)" by fastforce
  have v1: "v1 = v \<or> v1 = v\<lparr> vo_enable := False \<rparr>" using advance_stage_voice [OF a] .
  show ?thesis
  proof (cases "vo_enable v")
    case True
    then have "fst (settle (v, e)) = v\<lparr> vo_envelope := level_spec v1 e1, vo_enable :=
        (vo_enable v1 \<and> \<not> voice_done (v1\<lparr> vo_envelope := level_spec v1 e1 \<rparr>)) \<rparr>"
      using v1 by (auto simp: settle_def envelope_tick_def a)
    then show ?thesis using level_spec_range [of v1 e1] True by blast
  next
    case False
    then have "fst (settle (v, e)) = v\<lparr> vo_envelope := vo_envelope v, vo_enable := False \<rparr>"
      by (auto simp: settle_def)
    then show ?thesis by blast
  qed
qed

lemma voice_ok_settle:
  assumes "voice_ok v"
  shows "voice_ok (fst (settle (v, e)))"
proof -
  obtain n b where "fst (settle (v, e)) = v\<lparr> vo_envelope := n, vo_enable := b \<rparr>"
    "n = vo_envelope v \<or> 0 \<le> n \<and> n \<le> 32767" using settle_voice [of v e] by blast
  then show ?thesis using assms by (auto simp: voice_ok_def)
qed

lemma voice_ok_tick:
  assumes "voice_ok v"
  shows "voice_ok (fst (tick mem (v, e)))"
proof -
  let ?v = "fst (settle (v, e))"
  have v: "voice_ok ?v" using voice_ok_settle [OF assms] .
  have ok: "voice_ok (advance_phase ?v)" using v by (simp add: voice_ok_def advance_phase_def)
  have z: "in_state34 (vo_filter_z1_l ?v)" "in_state34 (vo_filter_z2_l ?v)"
    "in_state34 (vo_filter_z1_r ?v)" "in_state34 (vo_filter_z2_r ?v)"
    using v by (simp_all add: voice_ok_def)
  have f: "in_state34 (bq_z1 (filtered_l mem ?v))" "in_state34 (bq_z2 (filtered_l mem ?v))"
    "in_state34 (bq_z1 (filtered_r mem ?v))" "in_state34 (bq_z2 (filtered_r mem ?v))"
    unfolding filtered_l_def filtered_r_def by (intro filter_channel_ok in_i16_voice_samples z)+
  have "voice_ok ((advance_phase ?v)
      \<lparr> vo_filter_z1_l := bq_z1 (filtered_l mem ?v), vo_filter_z2_l := bq_z2 (filtered_l mem ?v),
        vo_filter_z1_r := bq_z1 (filtered_r mem ?v), vo_filter_z2_r := bq_z2 (filtered_r mem ?v) \<rparr>)"
    using ok f by (simp add: voice_ok_def)
  then show ?thesis using v ok by (simp add: tick_def case_prod_beta Let_def)
qed

lemma voices_of_states:
  "synth_shape s \<Longrightarrow> rs_voices s = map fst (voice_states s)"
  "synth_shape s \<Longrightarrow> rs_envelopes s = map snd (voice_states s)"
  by (simp_all add: voice_states_def synth_shape_def)

lemma render_mix_ok:
  assumes "synth_ok s" and "render_mix s = Inr (p, s')"
  shows "synth_ok s'"
proof -
  have sh: "synth_shape s" using assms(1) by (simp add: synth_ok_def)
  then have r: "synth_shape s'" "rs_memory s' = rs_memory s"
    "voice_states s' = map (tick (rs_memory s)) (voice_states s)"
    using render_mix_frame [OF sh] assms(2) by auto
  have "voice_ok (fst (tick (rs_memory s) x))" if "x \<in> set (voice_states s)" for x
    using that assms(1) voice_ok_tick [of "fst x" "rs_memory s" "snd x"] voices_of_states(1) [OF sh]
    by (simp add: synth_ok_def list_all_iff)
  then show ?thesis
    using assms(1) r voices_of_states(1) [OF r(1)] by (simp add: synth_ok_def list_all_iff)
qed

text \<open>Commands keep the machine well formed, also those that throw.\<close>

lemma voice_ok_start: "voice_ok (start_config flags words)"
  by (simp add: start_config_def default_voice_config_def Let_def voice_ok_def in_i16_s16
      in_i16_def [of 0] in_i16_def [of 16384] in_state34_def)

lemma synth_write_start:
  assumes "words \<noteq> []" and "word_opcode (words ! 0) = 0x10" and "word_voice (words ! 0) < kNumVoices"
    and "length words = word_payload (words ! 0) + 1" and "word_flags (words ! 0) = flags"
    and "flags AND 0x30 = 0" and "flags AND 3 \<noteq> 3"
    and "word_payload (words ! 0) = expected_start_words flags"
  shows "synth_write s words = (Inr (), synth_start (word_voice (words ! 0)) flags words s)"
  using assms by (simp add: synth_write_def Let_def synth_voice_opcode_def)

lemma synth_put_states:
  assumes "synth_shape s" and "i < kNumVoices"
  shows "voice_states (synth_put i v e s) = (voice_states s)[i := (v, e)]"
  using assms by (simp add: synth_put_def voice_states_def update_zip)

lemma synth_put_ok:
  assumes "synth_ok s" and "voice_ok v"
  shows "synth_ok (synth_put i v e s)"
  using assms by (auto simp: synth_ok_def synth_put_def synth_shape_def list_all_iff
      dest!: set_update_subset_insert [THEN subsetD])

lemma synth_update_voice_ok:
  assumes "synth_ok s" and "voice_ok (f (rs_voices s ! i))"
  shows "synth_ok (synth_update_voice i f s)"
  using assms by (auto simp: synth_ok_def synth_update_voice_def synth_shape_def list_all_iff
      dest!: set_update_subset_insert [THEN subsetD])

lemma push_completion_ok: "synth_ok (push_completion i v r s) = synth_ok s"
  by (simp add: synth_ok_def push_completion_def synth_shape_def)

lemma synth_release_ok:
  assumes "synth_ok s" and "voice_ok (rs_voices s ! i)"
  shows "synth_ok (snd (synth_release i step s))"
proof -
  have "voice_ok ((rs_voices s ! i)\<lparr> vo_released := True \<rparr>)"
    "voice_ok ((rs_voices s ! i)\<lparr> vo_released := True, vo_enable := False \<rparr>)"
    using assms(2) by (simp_all add: voice_ok_def)
  then show ?thesis
    using assms by (simp add: synth_release_def Let_def push_completion_ok synth_put_ok split: sum.split)
qed

lemma synth_runtime_command_ok:
  assumes "synth_ok s" and "i < kNumVoices"
  shows "synth_ok (snd (synth_runtime_command opcode n i words s))"
proof -
  have v: "voice_ok (rs_voices s ! i)"
    using assms by (simp add: synth_ok_def synth_shape_def list_all_length)
  have e: "synth_ok (s\<lparr> rs_envelopes := (rs_envelopes s)[i := e] \<rparr>)" for e
    using assms(1) by (simp add: synth_ok_def synth_shape_def)
  have u: "synth_ok (synth_update_voice i (\<lambda>v. v\<lparr> vo_enable := False \<rparr>) s)"
    "synth_ok (synth_update_voice i (\<lambda>v. v\<lparr> vo_gain_l := s16 a, vo_gain_r := s16 b \<rparr>) s)"
    "synth_ok (synth_update_voice i (\<lambda>v. v\<lparr> vo_phase_inc := w \<rparr>) s)"
    "synth_ok (synth_update_voice i (\<lambda>v. v\<lparr> vo_filter_b0 := s16 a, vo_filter_b1 := s16 b,
       vo_filter_b2 := s16 c, vo_filter_a1 := s16 d, vo_filter_a2 := s16 f, vo_filter_enable := g \<rparr>) s)"
    for a b c d f w g
    using v by (auto intro!: synth_update_voice_ok assms(1) simp: voice_ok_def in_i16_s16)
  show ?thesis
    using assms(1) e u synth_release_ok [OF assms(1) v]
    by (auto simp: synth_runtime_command_def push_completion_ok split: sum.split)
qed

lemma synth_write_ok:
  assumes "synth_ok s"
  shows "synth_ok (snd (synth_write s words))"
  using assms synth_runtime_command_ok [OF assms]
  by (auto simp: synth_write_def Let_def synth_start_def synth_put_ok voice_ok_start kNumVoices_def)

inductive reachable_synth :: "int list \<Rightarrow> render_diagnostics option \<Rightarrow> reference_synth \<Rightarrow> bool"
  for memory and diagnostics where
  created: "reachable_synth memory diagnostics (reference_synth_new memory diagnostics)"
| written: "reachable_synth memory diagnostics s \<Longrightarrow> synth_write s words = (r, s') \<Longrightarrow>
    reachable_synth memory diagnostics s'"
| rendered: "reachable_synth memory diagnostics s \<Longrightarrow> render_mix s = Inr (p, s') \<Longrightarrow>
    reachable_synth memory diagnostics s'"
| taken: "reachable_synth memory diagnostics s \<Longrightarrow> take_voice_completions s = (cs, s') \<Longrightarrow>
    reachable_synth memory diagnostics s'"

lemma synth_write_memory: "rs_memory (snd (synth_write s words)) = rs_memory s"
  by (simp add: synth_write_def Let_def synth_start_def synth_put_def synth_runtime_command_def
      synth_release_def synth_update_voice_def push_completion_def split: sum.split)

lemma render_mix_memory:
  assumes "synth_shape s" and "render_mix s = Inr (p, s')"
  shows "rs_memory s' = rs_memory s" and "synth_shape s'"
  using render_mix_frame [OF assms(1)] assms(2) by auto

lemma synth_write_shape: "synth_shape s \<Longrightarrow> synth_shape (snd (synth_write s words))"
  by (simp add: synth_write_def Let_def synth_start_def synth_put_def synth_runtime_command_def
      synth_release_def synth_update_voice_def push_completion_def synth_shape_def split: sum.split)

lemma reachable_memory_shape:
  assumes "reachable_synth memory diagnostics s"
  shows "rs_memory s = memory \<and> synth_shape s"
  using assms
proof (induction rule: reachable_synth.induct)
  case created
  then show ?case by (simp add: reference_synth_new_def synth_shape_def)
next
  case (written s words r s')
  then show ?case using synth_write_memory [of s words] synth_write_shape [of s words] by simp
next
  case (rendered s p s')
  then show ?case using render_mix_memory [of s p s'] by simp
next
  case (taken s cs s')
  then show ?case by (auto simp: take_voice_completions_def synth_shape_def)
qed

lemmas reachable_memory = reachable_memory_shape [THEN conjunct1]
lemmas reachable_shape = reachable_memory_shape [THEN conjunct2]

lemma synth_new_ok:
  assumes "list_all in_i16 memory"
  shows "synth_ok (reference_synth_new memory diagnostics)"
  using assms
  by (simp add: synth_ok_def reference_synth_new_def synth_shape_def list_all_iff default_voice_config_def
      voice_ok_def in_i16_def in_state34_def)

lemma reachable_synth_ok:
  assumes "reachable_synth memory diagnostics s" and "list_all in_i16 memory"
  shows "synth_ok s"
  using assms
proof (induction rule: reachable_synth.induct)
  case created
  then show ?case by (rule synth_new_ok)
next
  case (written s words r s')
  then show ?case using synth_write_ok [of s words] by simp
next
  case (rendered s p s')
  then show ?case using render_mix_ok by blast
next
  case (taken s cs s')
  then show ?case by (auto simp: take_voice_completions_def synth_ok_def synth_shape_def)
qed

section \<open>Several frames\<close>

fun render_frames :: "nat \<Rightarrow> reference_synth \<Rightarrow> error + ((int \<times> int) list \<times> reference_synth)" where
  "render_frames 0 s = Inr ([], s)"
| "render_frames (Suc n) s =
     (case render_mix s of
        Inl e \<Rightarrow> Inl e
      | Inr (p, s1) \<Rightarrow>
          (case render_frames n s1 of Inl e \<Rightarrow> Inl e | Inr (ps, s2) \<Rightarrow> Inr (p # ps, s2)))"

definition completions_of :: "nat \<Rightarrow> voice_completion list \<Rightarrow> voice_completion list" where
  "completions_of i cs = filter (\<lambda>c. vc_voice c = of_nat i) cs"

lemma voice_number_inj:
  assumes "i < kNumVoices" and "j < kNumVoices"
  shows "(of_nat i :: u16) = of_nat j \<longleftrightarrow> i = j"
proof -
  have "unat (of_nat k :: u16) = k" if "k < kNumVoices" for k
    using that by (simp add: kNumVoices_def unat_of_nat)
  then show ?thesis using assms by metis
qed

lemma completions_of_ended:
  assumes "i < kNumVoices" and "j < kNumVoices"
  shows "completions_of i (ended j x) = (if i = j then ended j x else [])"
  using voice_number_inj [OF assms(2,1)] by (auto simp: completions_of_def ended_def)

lemma concat_single:
  assumes "i < n"
  shows "concat (map (\<lambda>j. if i = j then f j else []) [0..<n]) = f i"
proof -
  have all: "[0..<n] = [0..<i] @ i # [Suc i..<n]"
    using assms upt_add_eq_append [of 0 i "n - i"] by (simp add: upt_conv_Cons)
  have before: "concat (map (\<lambda>j. if i = j then f j else []) [0..<i]) = []" by auto
  have after: "concat (map (\<lambda>j. if i = j then f j else []) [Suc i..<n]) = []" by auto
  show ?thesis by (simp only: all map_append concat_append list.map concat.simps before after) simp
qed

lemma frame_completions_of:
  assumes "i < kNumVoices"
  shows "completions_of i (frame_completions s) = ended i (voice_states s ! i)"
proof -
  have "completions_of i (frame_completions s) =
      concat (map (\<lambda>j. completions_of i (ended j (voice_states s ! j))) [0..<kNumVoices])"
    by (simp add: frame_completions_def completions_of_def filter_concat comp_def)
  also have "\<dots> = concat (map (\<lambda>j. if i = j then ended j (voice_states s ! j) else []) [0..<kNumVoices])"
    using completions_of_ended [OF assms] by (intro arg_cong [where f = concat] map_cong) auto
  also have "\<dots> = ended i (voice_states s ! i)" using assms by (rule concat_single)
  finally show ?thesis .
qed

lemma tick_enable [simp]:
  "vo_enable (fst (tick mem x)) = vo_enable (fst (settle x))"
  "vo_generation (fst (tick mem x)) = vo_generation (fst x)"
  "snd (tick mem x) = snd (settle x)"
proof -
  obtain n b where "fst (settle x) = (fst x)\<lparr> vo_envelope := n, vo_enable := b \<rparr>"
    using settle_voice [of "fst x" "snd x"] by auto
  then show "vo_enable (fst (tick mem x)) = vo_enable (fst (settle x))"
    "vo_generation (fst (tick mem x)) = vo_generation (fst x)"
    "snd (tick mem x) = snd (settle x)"
    by (simp_all add: tick_def case_prod_beta Let_def)
qed

lemma settle_never_enables: "vo_enable (fst (settle x)) \<Longrightarrow> vo_enable (fst x)"
  using settle_voice [of "fst x" "snd x"] by auto

lemma tick_never_enables: "vo_enable (fst ((tick mem ^^ n) x)) \<Longrightarrow> vo_enable (fst x)"
proof (induction n)
  case (Suc n)
  then show ?case using settle_never_enables [of "(tick mem ^^ n) x"] by simp
qed simp

lemma tick_generation [simp]: "vo_generation (fst ((tick mem ^^ n) x)) = vo_generation (fst x)"
  by (induction n) simp_all

text \<open>A voice reports its end in exactly one of the frames in which it falls silent.\<close>

lemma render_frames_voices:
  assumes "synth_shape s"
  shows "\<exists>ps s'. render_frames n s = Inr (ps, s') \<and> length ps = n \<and> synth_shape s' \<and>
    rs_memory s' = rs_memory s \<and>
    (\<forall>i < kNumVoices. voice_states s' ! i = (tick (rs_memory s) ^^ n) (voice_states s ! i) \<and>
       completions_of i (rs_completions s') = completions_of i (rs_completions s) @
         (if vo_enable (fst (voice_states s ! i)) \<and> \<not> vo_enable (fst (voice_states s' ! i))
          then [\<lparr> vc_voice = of_nat i, vc_generation = vo_generation (fst (voice_states s ! i)),
                  vc_reason = 0 \<rparr>] else []))"
  using assms
proof (induction n arbitrary: s)
  case 0
  then show ?case by simp
next
  case (Suc n)
  obtain s1 where s1: "render_mix s = Inr (mix_sums s, s1)" "synth_shape s1" "rs_memory s1 = rs_memory s"
    "voice_states s1 = map (tick (rs_memory s)) (voice_states s)"
    "rs_completions s1 = rs_completions s @ frame_completions s"
    using render_mix_frame [OF Suc.prems] by blast
  obtain ps s' where r: "render_frames n s1 = Inr (ps, s')" "length ps = n" "synth_shape s'"
    "rs_memory s' = rs_memory s"
    and each: "\<forall>i < kNumVoices. voice_states s' ! i = (tick (rs_memory s) ^^ n) (voice_states s1 ! i) \<and>
       completions_of i (rs_completions s') = completions_of i (rs_completions s1) @
         (if vo_enable (fst (voice_states s1 ! i)) \<and> \<not> vo_enable (fst (voice_states s' ! i))
          then [\<lparr> vc_voice = of_nat i, vc_generation = vo_generation (fst (voice_states s1 ! i)),
                  vc_reason = 0 \<rparr>] else [])"
    using Suc.IH [OF s1(2)] s1(3) by auto
  have "voice_states s' ! i = (tick (rs_memory s) ^^ Suc n) (voice_states s ! i) \<and>
       completions_of i (rs_completions s') = completions_of i (rs_completions s) @
         (if vo_enable (fst (voice_states s ! i)) \<and> \<not> vo_enable (fst (voice_states s' ! i))
          then [\<lparr> vc_voice = of_nat i, vc_generation = vo_generation (fst (voice_states s ! i)),
                  vc_reason = 0 \<rparr>] else [])" if i: "i < kNumVoices" for i
  proof -
    let ?x = "voice_states s ! i"
    have x1: "voice_states s1 ! i = tick (rs_memory s) ?x"
      using i length_voice_states [OF Suc.prems] by (simp add: s1(4))
    have c: "completions_of i (rs_completions s1) = completions_of i (rs_completions s) @ ended i ?x"
      using frame_completions_of [OF i, of s] by (simp add: s1(5) completions_of_def)
    note ei = each [rule_format, OF i, unfolded x1 c]
    have on: "vo_enable (fst (voice_states s' ! i)) \<Longrightarrow> vo_enable (fst (settle ?x))"
      using ei tick_never_enables [of n "rs_memory s" "tick (rs_memory s) ?x"] by simp
    have "voice_states s' ! i = (tick (rs_memory s) ^^ Suc n) ?x"
      using ei by (simp add: funpow_swap1)
    then show ?thesis
      using ei on settle_never_enables [of ?x]
      by (cases "vo_enable (fst (settle ?x))"; cases "vo_enable (fst ?x)")
        (auto simp: ended_def simp del: funpow.simps)
  qed
  then show ?case using s1(1) r by auto
qed

section \<open>Properties\<close>

text \<open>C8: In every state reachable by any commands and frames, \<open>render_mix\<close> returns: no table
  access fails, the result is the sum over all voices of the independent per-voice
  contributions, every voice makes exactly its own step, the voices that fell silent in this
  frame are the ones reported (in voice order, once each), and both sums fit the signed 25-bit
  mix, so the 32-bit accumulators cannot overflow.\<close>

theorem render_mix_sums_voices:
  assumes "reachable_synth memory diagnostics s"
  shows "\<exists>s'. render_mix s = Inr (mix_sums s, s') \<and>
    voice_states s' = map (tick memory) (voice_states s) \<and>
    rs_completions s' = rs_completions s @ frame_completions s \<and>
    in_mix25 (fst (mix_sums s)) \<and> in_mix25 (snd (mix_sums s))"
proof -
  note sh = reachable_shape [OF assms]
  show ?thesis
    using render_mix_frame [OF sh] mix_sums_range [OF sh] reachable_memory [OF assms] by auto
qed

theorem render_mix_sums_voices_witness:
  "let s = reference_synth_new [100, - 200] None
   in \<exists>s'. render_mix s = Inr (mix_sums s, s') \<and>
     voice_states s' = map (tick [100, - 200]) (voice_states s) \<and>
     rs_completions s' = frame_completions s \<and> in_mix25 (fst (mix_sums s))"
  using render_mix_sums_voices [OF reachable_synth.created, of "[100, - 200]" None]
  by (auto simp: Let_def in_i16_def reference_synth_new_def)


definition example_start :: "u32 list" where
  "example_start = [0x10000005, 1, 0, 2, 0x80, 0x7fff4000]"

lemma example_start_written:
  fixes s :: reference_synth
  assumes "synth_shape s"
  shows "\<exists>s'. synth_write s example_start = (Inr (), s') \<and>
    voice_states s' ! 0 = (start_config 0 example_start, start_envelope 0 example_start)"
proof -
  have f: "word_opcode 0x10000005 = 0x10" "word_voice 0x10000005 = 0" "word_flags 0x10000005 = 0"
    "word_payload 0x10000005 = 5"
    by code_simp+
  have v: "vo_valid (start_config 0 example_start)"
    by (simp add: start_config_def example_start_def Let_def default_voice_config_def
        kPhaseFrameMask_def)
  have "synth_write s example_start = (Inr (), synth_start 0 0 example_start s)"
    by (subst synth_write_start [where flags = 0])
      (simp_all add: example_start_def f kNumVoices_def expected_start_words_def)
  moreover have "0 < kNumVoices" by (simp add: kNumVoices_def)
  ultimately show ?thesis
    using synth_put_states [OF assms] v length_voice_states [OF assms] by (simp add: synth_start_def)
qed

lemma example_audible:
  "audible (start_config 0 example_start, start_envelope 0 example_start)"
  by (simp add: audible_def settle_def envelope_tick_def advance_stage_def start_envelope_def
      default_envelope_state_def start_config_def example_start_def Let_def default_voice_config_def
      attack_done_def enter_stage_def decay_or_sustain_def voice_done_def channel_done_def sounding_def
      kPhaseFracBits_def loop_active_def kPhaseFrameMask_def)


end
