(* ===== verification/Synth_Playback.thy ===== *)
theory Synth_Playback
  imports Synth_Rendering Voice_Protocol
begin

text \<open>
  How a voice of the reference synthesizer plays: a mono voice reads only frames of its sample,
  looping or not; a started voice has exactly the parameters of its region; an attack takes no
  longer than the region asks for; and a released voice falls silent and reports its completion
  exactly once. The synthesizer also provides the command-sink interface: every well-formed
  command is decoded without reading past its words.
\<close>

section \<open>Phase arithmetic\<close>

lemma uint_drop8: "uint (drop_bit 8 (w :: u32)) = uint w div 256"
  by (simp add: drop_bit_eq_div uint_div_distrib)

lemma uint_push8:
  assumes "uint (w :: u32) \<le> 0xffffff"
  shows "uint (push_bit 8 w) = 256 * uint w" and "uint (push_bit 8 (ucast w :: u64)) = 256 * uint w"
proof -
  have "uint (push_bit 8 w) = (256 * uint w) mod 4294967296"
    by (simp add: push_bit_eq_mult uint_word_ariths mult.commute)
  then show "uint (push_bit 8 w) = 256 * uint w" using assms by (subst (asm) mod_pos_pos_trivial) simp_all
  have "uint (ucast w :: u64) = uint w"
    using uint_bounds(3) [of w] by (simp add: unsigned_ucast_eq take_bit_eq_mod)
  then have "uint (push_bit 8 (ucast w :: u64)) = (256 * uint w) mod 18446744073709551616"
    by (simp add: push_bit_eq_mult uint_word_ariths mult.commute)
  then show "uint (push_bit 8 (ucast w :: u64)) = 256 * uint w"
    using assms by (subst (asm) mod_pos_pos_trivial) simp_all
qed

lemma uint_ucast_sum: "uint ((ucast (a :: u32) :: u64) + ucast (b :: u32)) = uint a + uint b"
proof -
  have "uint a < 4294967296" "uint b < 4294967296" by (rule uint_bounds)+
  then show ?thesis
    by (simp add: uint_word_ariths unsigned_ucast_eq take_bit_eq_mod)
qed

lemma uint_ucast32: "uint (ucast (w :: u64) :: u32) = uint w mod 4294967296"
  by (simp add: unsigned_ucast_eq take_bit_eq_mod)

lemma uint_sub32: "b \<le> (a :: u32) \<Longrightarrow> uint (a - b) = uint a - uint b"
  by (simp add: uint_sub_if' word_le_def)

lemma uint_diff32: "uint (a - b :: u32) = (uint a - uint b) mod 4294967296"
  by (simp add: uint_word_ariths)

lemma loop_wrap:
  fixes p i s e :: int
  assumes "256 * e \<le> p + i" and "e \<le> 16777215" and "i \<le> 256 * (e - s)" and "p < 256 * e" and "0 \<le> s"
  shows "(p + i - 256 * (e - s)) mod 4294967296 = p + i - 256 * (e - s)"
  using assms by (intro mod_pos_pos_trivial) (simp_all add: algebra_simps)

text \<open>
  A mono voice with a consistent sample, whose phase is inside its loop while it loops and
  whose step is at most one loop length.
\<close>

definition voice_fits :: "voice_config \<Rightarrow> bool" where
  "voice_fits v \<longleftrightarrow>
     \<not> vo_stereo v \<and> vo_length v \<noteq> 0 \<and> vo_length v \<le> 0xffffff \<and>
     (vo_loop_mode v = 0 \<or>
        vo_loop_start v < vo_loop_end v \<and> vo_loop_end v \<le> vo_length v \<and>
        uint (vo_phase_inc v) \<le> 256 * (uint (vo_loop_end v) - uint (vo_loop_start v))) \<and>
     (loop_active v \<longrightarrow> uint (vo_phase v) < 256 * uint (vo_loop_end v))"

lemma loop_active_mode: "loop_active v \<Longrightarrow> vo_loop_mode v \<noteq> 0"
  by (auto simp: loop_active_def)

lemma next_phase_loop:
  assumes "voice_fits v" and "loop_active v"
  shows "uint (next_phase v (vo_phase v) (vo_loop_start v) (vo_loop_end v)) < 256 * uint (vo_loop_end v)"
proof -
  let ?p = "uint (vo_phase v)" and ?i = "uint (vo_phase_inc v)"
    and ?s = "uint (vo_loop_start v)" and ?e = "uint (vo_loop_end v)"
  have le: "vo_loop_start v \<le> vo_loop_end v" "?s < ?e" "?e \<le> 0xffffff" "?i \<le> 256 * (?e - ?s)" "?p < 256 * ?e"
    using assms loop_active_mode [OF assms(2)] by (auto simp: voice_fits_def word_le_def word_less_def)
  have d: "uint (vo_loop_end v - vo_loop_start v) = ?e - ?s" using le(1) by (rule uint_sub32)
  have "0 \<le> ?s" "0 \<le> ?p" "0 \<le> ?i" by simp_all
  then have len: "uint (push_bit 8 (vo_loop_end v - vo_loop_start v)) = 256 * (?e - ?s)"
    using le(3) uint_push8(1) [of "vo_loop_end v - vo_loop_start v"] by (simp only: d)
  let ?sum = "(ucast (vo_phase v) :: u64) + ucast (vo_phase_inc v)"
  have sum: "uint ?sum = ?p + ?i" by (rule uint_ucast_sum)
  have wrap: "?sum \<ge> push_bit 8 (ucast (vo_loop_end v)) \<longleftrightarrow> 256 * ?e \<le> ?p + ?i"
    unfolding word_le_def sum uint_push8(2) [OF le(3)] ..
  show ?thesis
  proof (cases "256 * ?e \<le> ?p + ?i")
    case True
    have "uint (ucast ?sum - push_bit 8 (vo_loop_end v - vo_loop_start v) :: u32) =
        ((?p + ?i) mod 4294967296 - 256 * (?e - ?s)) mod 4294967296"
      by (simp only: uint_diff32 len uint_ucast32 sum)
    also have "\<dots> = (?p + ?i - 256 * (?e - ?s)) mod 4294967296" by (simp add: mod_diff_left_eq)
    also have "\<dots> = ?p + ?i - 256 * (?e - ?s)"
      by (rule loop_wrap [OF True le(3-5)]) simp
    finally show ?thesis
      using True assms(2) wrap le by (simp add: next_phase_def Let_def kPhaseFracBits_def)
  next
    case False
    then have "uint (ucast ?sum :: u32) = ?p + ?i"
      using le by (simp add: uint_ucast32 sum)
    then show ?thesis
      using False wrap by (simp add: next_phase_def Let_def kPhaseFracBits_def)
  qed
qed

lemma voice_fits_advance_phase: "voice_fits v \<Longrightarrow> voice_fits (advance_phase v)"
  using next_phase_loop [of v]
  by (auto simp: voice_fits_def advance_phase_def loop_active_def)

definition reads_inside :: "voice_config \<Rightarrow> bool" where
  "reads_inside v \<longleftrightarrow> fst (sample_frames v) < vo_length v \<and> snd (sample_frames v) < vo_length v"

lemma frame_of_phase: "drop_bit kPhaseFracBits p AND kPhaseFrameMask = drop_bit 8 (p :: u32)"
proof -
  have "(0xffffff :: u32) = mask 24" by (simp add: mask_eq_exp_minus_1)
  then have "drop_bit 8 p AND 0xffffff = take_bit 24 (drop_bit 8 p)"
    by (simp add: take_bit_eq_mask)
  also have "\<dots> = drop_bit 8 p" by (simp add: take_bit_drop_bit take_bit_word_eq_self)
  finally show ?thesis by (simp add: kPhaseFracBits_def kPhaseFrameMask_def)
qed

lemma voice_reads_inside:
  assumes "voice_fits v" and "\<not> voice_done v"
  shows "reads_inside v"
proof -
  let ?f = "drop_bit 8 (vo_phase v)"
  have st: "\<not> vo_stereo v" "vo_length v \<le> 0xffffff" using assms(1) by (simp_all add: voice_fits_def)
  have nd: "\<not> channel_done v (vo_phase v) (vo_length v)" using assms(2) st by (simp add: voice_done_def)
  show ?thesis
  proof (cases "loop_active v")
    case True
    then have fit: "vo_loop_start v < vo_loop_end v" "vo_loop_end v \<le> vo_length v"
      "uint (vo_phase v) < 256 * uint (vo_loop_end v)"
      using assms(1) loop_active_mode [OF True] by (auto simp: voice_fits_def)
    have "uint ?f < uint (vo_loop_end v)" using fit(3) by (simp add: uint_drop8 div_less_iff_less_mult mult.commute)
    then have "?f < vo_loop_end v" by (simp add: word_less_def)
    then have f: "?f < vo_length v" using fit(2) by (rule less_le_trans)
    have "vo_loop_start v < vo_length v" using fit(1,2) by (rule less_le_trans)
    then show ?thesis
      using f nd True fit(2) by (auto simp: reads_inside_def sample_frames_def channel_frames_def frame_of_phase Let_def
          intro: less_le_trans)
  next
    case False
    then have f: "?f < vo_length v"
      using nd by (simp add: channel_done_def kPhaseFracBits_def not_le)
    then show ?thesis
      using nd False by (auto simp: reads_inside_def sample_frames_def channel_frames_def frame_of_phase Let_def)
  qed
qed

lemma voice_fits_settle:
  assumes "voice_fits (fst x)"
  shows "voice_fits (fst (settle x))"
proof -
  obtain n b where "fst (settle x) = (fst x)\<lparr> vo_envelope := n, vo_enable := b \<rparr>"
    using settle_voice [of "fst x" "snd x"] by auto
  then show ?thesis using assms by (simp add: voice_fits_def loop_active_def)
qed

lemma settled_enabled_not_done:
  assumes "vo_enable (fst (settle x))"
  shows "\<not> voice_done (fst (settle x))"
  using assms by (auto simp: settle_def case_prod_beta Let_def split: if_splits)

lemma voice_fits_tick:
  assumes "voice_fits (fst x)"
  shows "voice_fits (fst (tick mem x))"
proof -
  note f = voice_fits_advance_phase [OF voice_fits_settle [OF assms]]
  have "voice_fits ((advance_phase (fst (settle x)))
      \<lparr> vo_filter_z1_l := a, vo_filter_z2_l := b, vo_filter_z1_r := c, vo_filter_z2_r := d \<rparr>)" for a b c d
    using f by (simp add: voice_fits_def loop_active_def)
  then show ?thesis
    using f voice_fits_settle [OF assms] by (simp add: tick_def case_prod_beta Let_def)
qed

lemma voice_fits_ticks: "voice_fits (fst x) \<Longrightarrow> voice_fits (fst ((tick mem ^^ n) x))"
  by (induction n) (simp_all add: voice_fits_tick)

lemma sounding_reads_inside:
  assumes "voice_fits (fst x)" and "sounding (settle x)"
  shows "reads_inside (fst (settle x))"
  using voice_reads_inside [OF voice_fits_settle [OF assms(1)]] settled_enabled_not_done [of x] assms(2)
  by (simp add: sounding_def)

lemma masked_frame: "w AND kPhaseFrameMask \<le> 0xffffff"
  unfolding kPhaseFrameMask_def by (rule word_and_le1)

lemma start_config_fits:
  assumes "vo_valid (start_config flags words)"
    and "flags AND 3 \<noteq> 0 \<Longrightarrow> uint (vo_phase_inc (start_config flags words)) \<le>
      256 * (uint (vo_loop_end (start_config flags words)) - uint (vo_loop_start (start_config flags words)))"
  shows "voice_fits (start_config flags words)"
proof -
  let ?v = "start_config flags words"
  have c: "\<not> vo_stereo ?v" "vo_phase ?v = 0" "vo_length ?v \<le> 0xffffff" "vo_loop_mode ?v = uint (flags AND 3)"
    using masked_frame [of "words ! 3"]
    by (simp_all add: start_config_def default_voice_config_def Let_def)
  have valid: "vo_length ?v \<noteq> 0" "vo_loop_mode ?v = 0 \<or>
      vo_loop_start ?v < vo_loop_end ?v \<and> vo_loop_end ?v \<le> vo_length ?v"
    using assms(1) by (simp_all add: start_config_def Let_def)
  have "vo_loop_mode ?v \<noteq> 0 \<Longrightarrow> flags AND 3 \<noteq> 0" using c(4) by auto
  moreover have "vo_loop_start ?v < vo_loop_end ?v \<Longrightarrow> 0 < uint (vo_loop_end ?v)"
    using uint_ge_0 [of "vo_loop_start ?v"] unfolding word_less_def by linarith
  ultimately show ?thesis
    using c valid assms(2) loop_active_mode [of ?v] by (auto simp: voice_fits_def)
qed

section \<open>Release\<close>

definition releasing :: "u32 \<Rightarrow> int \<Rightarrow> voice_state \<Rightarrow> bool" where
  "releasing step cb x \<longleftrightarrow>
     es_stage (snd x) = kReleaseStage \<and> es_release_step (snd x) = step \<and>
     cb \<le> uint (es_attenuation_cb (snd x))"

lemma settle_disabled: "\<not> vo_enable (fst x) \<Longrightarrow> \<not> vo_enable (fst (settle x))"
  using settle_never_enables by blast

lemma silence64: "uint (of_int kEnvCbSilenceQ12_20 :: u64) = 1048576000"
  by (simp add: kEnvCbSilenceQ12_20_def)

lemma settle_releasing:
  assumes "releasing step cb x"
  shows "\<not> vo_enable (fst (settle x)) \<or> cb + uint step < 1048576000 \<and> releasing step (cb + uint step) (settle x)"
proof (cases "vo_enable (fst x)")
  case True
  let ?e = "snd x"
  let ?sum = "(ucast (es_attenuation_cb ?e) :: u64) + ucast step"
  have sum: "uint ?sum = uint (es_attenuation_cb ?e) + uint step" by (rule uint_ucast_sum)
  have cmp: "?sum \<ge> of_int kEnvCbSilenceQ12_20 \<longleftrightarrow> 1048576000 \<le> uint (es_attenuation_cb ?e) + uint step"
    unfolding word_le_def sum silence64 ..
  show ?thesis
  proof (cases "1048576000 \<le> uint (es_attenuation_cb ?e) + uint step")
    case True
    then have "advance_stage (fst x) ?e = ((fst x)\<lparr> vo_enable := False \<rparr>,
        ?e\<lparr> es_attenuation_cb := of_int kEnvCbSilenceQ12_20 \<rparr>)"
      using assms cmp by (simp add: advance_stage_def advance_release_def releasing_def Let_def)
    then show ?thesis
      by (auto simp: settle_def envelope_tick_def case_prod_beta Let_def)
  next
    case False
    then have adv: "advance_stage (fst x) ?e = (fst x, ?e\<lparr> es_attenuation_cb := ucast ?sum \<rparr>)"
      using assms cmp by (simp add: advance_stage_def advance_release_def releasing_def Let_def)
    have "uint (ucast ?sum :: u32) = uint (es_attenuation_cb ?e) + uint step"
      using False by (simp add: uint_ucast32 sum)
    then show ?thesis
      using assms False adv by (auto simp: settle_def envelope_tick_def releasing_def case_prod_beta Let_def)
  qed
qed (simp add: settle_disabled)

lemma ticks_releasing:
  assumes "releasing step 0 x"
  shows "\<not> vo_enable (fst ((tick mem ^^ n) x)) \<or>
    (n = 0 \<or> int n * uint step < 1048576000) \<and> releasing step (int n * uint step) ((tick mem ^^ n) x)"
proof (induction n)
  case 0
  then show ?case using assms by simp
next
  case (Suc n)
  let ?x = "(tick mem ^^ n) x"
  show ?case
  proof (cases "vo_enable (fst ?x)")
    case True
    then have "releasing step (int n * uint step) ?x" using Suc by simp
    from settle_releasing [OF this] show ?thesis
      by (auto simp: releasing_def algebra_simps)
  qed (simp add: settle_disabled)
qed

lemma voice_command_nth [simp]:
  "voice_command opcode voice flags payload ! 0 = hd (voice_command opcode voice flags payload)"
  "voice_command opcode voice flags payload ! Suc k = payload ! k"
  "voice_command opcode voice flags payload \<noteq> []"
  "length (voice_command opcode voice flags payload) = Suc (length payload)"
  by (simp_all add: voice_command_def)

lemma generation_word: "(ucast (ucast (g :: u16) :: u32) :: u16) = g"
  by (rule ucast_up_ucast_id) (simp add: is_up)

text \<open>A runtime command addressed to a sounding voice of the right generation is executed.\<close>

lemma synth_write_runtime:
  assumes "i < kNumVoices" and "length payload \<le> 16" and "payload \<noteq> []"
    and "vo_enable (rs_voices s ! i)" and "vo_generation (rs_voices s ! i) = ucast (payload ! 0)"
    and "opcode \<ge> 0x13" and "opcode \<le> 0x18"
  shows "synth_write s (voice_command opcode (int i) 0 payload) =
    synth_runtime_command opcode (length payload) i (voice_command opcode (int i) 0 payload) s"
proof -
  have "(0 :: int) \<le> int i" "int i < int kNumVoices" "(0 :: u8) \<le> 0x3f" using assms(1) by simp_all
  note f = voice_command_fields [OF this assms(2), of opcode, unfolded nat_int]
  have "opcode \<noteq> 0x10" using assms(6) by auto
  then show ?thesis
    using assms voice_command_nth(2) [of opcode "int i" 0 payload 0]
    by (simp add: synth_write_def Let_def f synth_voice_opcode_def)
qed

lemma release_command_state:
  assumes "i < kNumVoices" and "vo_enable (rs_voices s ! i)" and "step \<noteq> 0" and "synth_shape s"
  defines "ws \<equiv> voice_command kRelease (int i) 0 [ucast (vo_generation (rs_voices s ! i)), step]"
  shows "\<exists>s1. synth_write s ws = (Inr (), s1) \<and> synth_shape s1 \<and> rs_completions s1 = rs_completions s \<and>
    releasing step 0 (voice_states s1 ! i) \<and> vo_enable (fst (voice_states s1 ! i)) \<and>
    vo_generation (fst (voice_states s1 ! i)) = vo_generation (rs_voices s ! i)"
proof -
  have w: "synth_write s ws = synth_runtime_command kRelease 2 i ws s"
    using synth_write_runtime [of i "[ucast (vo_generation (rs_voices s ! i)), step]" s kRelease] assms(1,2)
    by (simp add: ws_def kRelease_def generation_word flip: numeral_2_eq_2)
  have i: "view_index ws 2 = Inr step" by (simp add: ws_def view_index_def numeral_2_eq_2)
  obtain cb where cb: "release_attenuation ((rs_envelopes s ! i)\<lparr> es_release_step := step \<rparr>) = Inr cb"
    using release_attenuation_total by blast
  let ?v = "(rs_voices s ! i)\<lparr> vo_released := True \<rparr>"
  let ?e = "(rs_envelopes s ! i)\<lparr> es_release_step := step, es_attenuation_cb := cb, es_elapsed := 0,
    es_stage := kReleaseStage \<rparr>"
  have "synth_write s ws = (Inr (), synth_put i ?v ?e s)"
    using w i cb assms(3) by (simp add: synth_runtime_command_def kRelease_def synth_release_def)
  moreover have "voice_states (synth_put i ?v ?e s) ! i = (?v, ?e)"
    using synth_put_states [OF assms(4,1), of ?v ?e] length_voice_states [OF assms(4)] assms(1) by simp
  ultimately show ?thesis
    using assms(2,4) by (simp add: releasing_def synth_shape_def synth_put_def)
qed

section \<open>The synthesizer as a command sink\<close>

text \<open>Every well-formed command is decoded within its words, in every state.\<close>

lemma synth_accepts:
  assumes "synth_shape s" and "well_formed_command ws"
  shows "\<exists>s'. synth_write s ws = (Inr (), s') \<and> synth_shape s'"
proof -
  have h: "hd ws = ws ! 0" using assms(2) by (simp add: well_formed_command_def hd_conv_nth)
  have v: "view_index ws k = Inr (ws ! k)" if "k < length ws" for k using that by (simp add: view_index_def)
  have r: "fst (synth_release i step s) = Inr ()" for i step
    using release_attenuation_total by (simp add: synth_release_def Let_def split: sum.split) (metis Inl_Inr_False)
  have "fst (synth_runtime_command (word_opcode (ws ! 0)) (word_payload (ws ! 0)) i ws s) = Inr ()" for i
    using assms(2) r by (auto simp: synth_runtime_command_def well_formed_command_def h v)
  then have "fst (synth_write s ws) = Inr ()"
    by (simp add: synth_write_def Let_def)
  then show ?thesis using synth_write_shape [OF assms(1), of ws] by (metis prod.collapse)
qed

interpretation synth_sink: command_sink synth_write synth_shape well_formed_command
  using synth_accepts by unfold_locales blast

section \<open>Properties\<close>

text \<open>C10: A released voice dies: after a RELEASE command with a nonzero step, enough frames for the
  step to add up to silence leave the voice disabled, and exactly one completion is reported
  for it, with its generation and reason 0.\<close>

theorem released_voice_completes:
  assumes "reachable_synth memory diagnostics s" and "i < kNumVoices" and "vo_enable (rs_voices s ! i)"
    and "step \<noteq> 0" and "1048576000 \<le> int n * uint step"
  shows "\<exists>s1 ps s2.
    synth_write s (voice_command kRelease (int i) 0 [ucast (vo_generation (rs_voices s ! i)), step]) = (Inr (), s1) \<and>
    render_frames n s1 = Inr (ps, s2) \<and> \<not> vo_enable (rs_voices s2 ! i) \<and>
    completions_of i (rs_completions s2) = completions_of i (rs_completions s) @
      [\<lparr> vc_voice = of_nat i, vc_generation = vo_generation (rs_voices s ! i), vc_reason = 0 \<rparr>]"
proof -
  obtain s1 where s1: "synth_write s (voice_command kRelease (int i) 0
      [ucast (vo_generation (rs_voices s ! i)), step]) = (Inr (), s1)" "synth_shape s1"
    "rs_completions s1 = rs_completions s" "releasing step 0 (voice_states s1 ! i)"
    "vo_enable (fst (voice_states s1 ! i))"
    "vo_generation (fst (voice_states s1 ! i)) = vo_generation (rs_voices s ! i)"
    using release_command_state [OF assms(2-4) reachable_shape [OF assms(1)]] by blast
  obtain ps s2 where s2: "render_frames n s1 = Inr (ps, s2)" "synth_shape s2"
    "voice_states s2 ! i = (tick (rs_memory s1) ^^ n) (voice_states s1 ! i)"
    "completions_of i (rs_completions s2) = completions_of i (rs_completions s1) @
       (if vo_enable (fst (voice_states s1 ! i)) \<and> \<not> vo_enable (fst (voice_states s2 ! i))
        then [\<lparr> vc_voice = of_nat i, vc_generation = vo_generation (fst (voice_states s1 ! i)),
                vc_reason = 0 \<rparr>] else [])"
    using render_frames_voices [OF s1(2), of n] assms(2) by blast
  have "n \<noteq> 0" using assms(5) by (cases n) simp_all
  then have off: "\<not> vo_enable (fst (voice_states s2 ! i))"
    using ticks_releasing [OF s1(4), where mem = "rs_memory s1" and n = n] assms(5) by (simp add: s2(3))
  have "rs_voices s2 ! i = fst (voice_states s2 ! i)"
    using s2(2) assms(2) by (simp add: voice_states_def synth_shape_def)
  then show ?thesis using s1 s2 off by auto
qed

theorem released_voice_completes_witness:
  "\<exists>s s1 ps s2. reachable_synth [100, - 200] None s \<and>
     synth_write s (voice_command kRelease 0 0 [1, 524288000]) = (Inr (), s1) \<and>
     render_frames 2 s1 = Inr (ps, s2) \<and> \<not> vo_enable (rs_voices s2 ! 0)"
proof -
  let ?s = "reference_synth_new [100, - 200] None"
  obtain s where s: "synth_write ?s example_start = (Inr (), s)"
    "voice_states s ! 0 = (start_config 0 example_start, start_envelope 0 example_start)"
    using example_start_written [of ?s] by (auto simp: reference_synth_new_def synth_shape_def)
  have r: "reachable_synth [100, - 200] None s"
    using reachable_synth.written [OF reachable_synth.created s(1)] .
  have "rs_voices s ! 0 = start_config 0 example_start"
    using s(2) reachable_shape [OF r] by (simp add: voice_states_def synth_shape_def kNumVoices_def)
  then have "vo_enable (rs_voices s ! 0)" "vo_generation (rs_voices s ! 0) = 1"
    by (simp_all add: start_config_def example_start_def Let_def default_voice_config_def)
  then show ?thesis
    using released_voice_completes [OF r, of 0 524288000 2] r by (auto simp: kNumVoices_def)
qed

text \<open>C11: A mono voice never reads outside its sample: a voice started with a valid START command,
  and, if it loops, with a phase step of at most one loop length, reads only frames of its own
  sample in every later frame in which it sounds.\<close>

theorem synth_reads_inside_sample:
  assumes "synth_shape s" and "i < kNumVoices"
    and "voice_states s ! i = (start_config flags words, start_envelope flags words)"
    and "vo_valid (start_config flags words)"
    and "flags AND 3 \<noteq> 0 \<longrightarrow> uint (vo_phase_inc (start_config flags words)) \<le>
      256 * (uint (vo_loop_end (start_config flags words)) - uint (vo_loop_start (start_config flags words)))"
    and "render_frames n s = Inr (ps, s')" and "sounding (settle (voice_states s' ! i))"
  shows "reads_inside (fst (settle (voice_states s' ! i)))"
proof -
  have "voice_states s' ! i = (tick (rs_memory s) ^^ n) (voice_states s ! i)"
    using render_frames_voices [OF assms(1), of n] assms(2,6) by auto
  moreover have "voice_fits (fst (voice_states s ! i))"
    using start_config_fits [OF assms(4)] assms(3,5) by simp
  ultimately show ?thesis
    using sounding_reads_inside [OF _ assms(7)] voice_fits_ticks [where x = "voice_states s ! i" and mem = "rs_memory s" and n = n]
    by simp
qed

theorem synth_reads_inside_sample_witness:
  "\<exists>s. synth_shape s \<and> voice_states s ! 0 = (start_config 0 example_start, start_envelope 0 example_start) \<and>
     reads_inside (fst (settle (voice_states s ! 0)))"
proof -
  let ?s = "reference_synth_new [100, - 200] None"
  have n: "synth_shape ?s" by (simp add: reference_synth_new_def synth_shape_def)
  obtain s where s: "synth_write ?s example_start = (Inr (), s)"
    "voice_states s ! 0 = (start_config 0 example_start, start_envelope 0 example_start)"
    using example_start_written [OF n] by auto
  have sh: "synth_shape s" using synth_write_shape [OF n, of example_start] s(1) by simp
  have "sounding (settle (voice_states s ! 0))" "vo_valid (start_config 0 example_start)"
    using example_audible by (simp_all add: s(2) audible_def)
      (simp add: start_config_def example_start_def Let_def default_voice_config_def kPhaseFrameMask_def)
  then show ?thesis
    using synth_reads_inside_sample [OF sh _ s(2), of 0] sh s(2) by (auto simp: kNumVoices_def)
qed

end
