(* ===== verification/Voice_Synth.thy ===== *)
theory Voice_Synth
  imports Synth_Playback
begin

text \<open>
  The voice controller driving the reference synthesizer. A START command built from a region is
  decoded to exactly this region's voice; and over any session of voice operations and rendered
  frames, every voice that still sounds has the generation, gains, pitch and filter that the
  controller's mirror remembers, so the controller's decision to send only changes is sound.
\<close>

section \<open>Decoding a START command\<close>

definition region_playable :: "region \<Rightarrow> bool" where
  "region_playable r \<longleftrightarrow>
     \<not> rg_stereo r \<and> rg_loop_mode r \<in> {0, 1, 2} \<and> rg_length r \<noteq> 0 \<and> rg_length r \<le> 0xffffff \<and>
     (rg_loop_mode r \<noteq> 0 \<longrightarrow> rg_loop_start r < rg_loop_end r \<and> rg_loop_end r \<le> rg_length r) \<and>
     in_i16 (rg_gain_l r) \<and> in_i16 (rg_gain_r r) \<and>
     (rg_filter_enable r \<longrightarrow> in_i16 (rg_filter_b0 r) \<and> in_i16 (rg_filter_b1 r) \<and>
        in_i16 (rg_filter_b2 r) \<and> in_i16 (rg_filter_a1 r) \<and> in_i16 (rg_filter_a2 r))"

text \<open>The voice a region describes.\<close>

definition region_voice :: "u16 \<Rightarrow> u32 \<Rightarrow> region \<Rightarrow> voice_config" where
  "region_voice g inc r =
     default_voice_config
       \<lparr> vo_enable := True, vo_valid := True, vo_generation := g, vo_loop_mode := rg_loop_mode r,
         vo_base_addr := rg_base_addr r, vo_length := rg_length r,
         vo_loop_start := (if rg_loop_mode r = 0 then 0 else rg_loop_start r),
         vo_loop_end := (if rg_loop_mode r = 0 then rg_length r else rg_loop_end r),
         vo_phase_inc := inc, vo_gain_l := rg_gain_l r, vo_gain_r := rg_gain_r r,
         vo_filter_enable := rg_filter_enable r,
         vo_filter_b0 := (if rg_filter_enable r then rg_filter_b0 r else 0x4000),
         vo_filter_b1 := (if rg_filter_enable r then rg_filter_b1 r else 0),
         vo_filter_b2 := (if rg_filter_enable r then rg_filter_b2 r else 0),
         vo_filter_a1 := (if rg_filter_enable r then rg_filter_a1 r else 0),
         vo_filter_a2 := (if rg_filter_enable r then rg_filter_a2 r else 0) \<rparr>"

lemma start_flag_bits:
  assumes "rg_loop_mode r \<in> {0, 1, 2}"
  shows "start_flags r AND 3 = of_int (rg_loop_mode r)"
    and "start_flags r AND 4 \<noteq> 0 \<longleftrightarrow> rg_filter_enable r"
    and "start_flags r AND 8 \<noteq> 0 \<longleftrightarrow> has_envelope (rg_volume_envelope r)"
    and "start_flags r AND 0x30 = 0"
  using assms by (auto simp: start_flags_def)

lemma mask_id: "w \<le> 0xffffff \<Longrightarrow> w AND kPhaseFrameMask = w"
proof -
  assume "w \<le> 0xffffff"
  then have "uint (take_bit 24 w) = uint w"
    by (subst unsigned_take_bit_eq) (simp add: take_bit_int_eq_self word_le_def)
  then have "take_bit 24 w = w" by (simp add: word_uint_eq_iff)
  then show ?thesis by (simp add: kPhaseFrameMask_def take_bit_eq_mask mask_eq_exp_minus_1)
qed

lemma filter_word_fields:
  "low_half (ucast (of_int a :: u16) OR 0x00010000) = of_int a"
  "(ucast (of_int a :: u16) OR 0x00010000 :: u32) AND 0x00010000 \<noteq> 0"
  "low_half (ucast (of_int a :: u16)) = of_int a"
  "(ucast (of_int a :: u16) :: u32) AND 0x00010000 = 0"
proof -
  have m: "(0x00010000 :: u32) = 2 ^ 16" by simp
  have p: "(ucast (of_int a :: u16) OR 0x00010000 :: u32) = pack_pair 1 a"
    "(ucast (of_int a :: u16) :: u32) = pack_pair 0 a"
    by (simp_all add: pack_pair_def or.commute)
  show "low_half (ucast (of_int a :: u16) OR 0x00010000) = of_int a"
    "low_half (ucast (of_int a :: u16)) = of_int a"
    by (simp only: p(1) pack_pair_halves, simp only: p(2) pack_pair_halves)
  show "(ucast (of_int a :: u16) OR 0x00010000 :: u32) AND 0x00010000 \<noteq> 0"
    "(ucast (of_int a :: u16) :: u32) AND 0x00010000 = 0"
    unfolding m by (simp_all only: and_exp_eq_0_iff_not_bit) (simp_all add: bit_simps bit_beyond)
qed

lemma start_config_region:
  assumes "region_playable r"
  shows "start_config (start_flags r) (voice_command kDefineMono v (start_flags r) (start_payload g inc r)) =
    region_voice g inc r"
proof -
  let ?ws = "voice_command kDefineMono v (start_flags r) (start_payload g inc r)"
  have mode: "rg_loop_mode r \<in> {0, 1, 2}" using assms by (simp add: region_playable_def)
  note bits = start_flag_bits [OF mode]
  have le: "rg_length r \<le> 0xffffff" "rg_loop_mode r \<noteq> 0 \<Longrightarrow> rg_loop_start r \<le> 0xffffff \<and> rg_loop_end r \<le> 0xffffff"
    using assms by (auto simp: region_playable_def)
  show ?thesis
    using mode assms le
    unfolding start_config_def Let_def bits region_voice_def voice_command_def start_payload_def
    by (auto simp: region_playable_def mask_id filter_word_fields s16_of_int_id generation_word
        default_voice_config_def)
qed

text \<open>The envelope a region describes.\<close>

definition region_envelope :: "region \<Rightarrow> envelope_state" where
  "region_envelope r =
     (let env = rg_volume_envelope r;
          e = (if has_envelope env then
                 default_envelope_state
                   \<lparr> es_delay_samples := delay_samples env AND 0xffffff,
                     es_attack_step := ceil_step 0xffffffff (attack_samples env),
                     es_hold_samples := hold_samples env AND 0xffffff,
                     es_decay_step := ceil_step (ucast (sustain_cb_q12_20 env)) (decay_samples env),
                     es_sustain_cb := sustain_cb_q12_20 env,
                     es_release_step := envelope_release_step r \<rparr>
               else default_envelope_state);
          e1 = e\<lparr> es_stage := (if es_delay_samples e \<noteq> 0 then kDelay else kAttack) \<rparr>
      in if es_delay_samples e = 0 \<and> es_attack_step e = 0 then attack_done e1 else e1)"

lemma start_envelope_region:
  assumes "rg_loop_mode r \<in> {0, 1, 2}"
  shows "start_envelope (start_flags r) (voice_command kDefineMono v (start_flags r) (start_payload g inc r)) =
    region_envelope r"
proof -
  note bits = start_flag_bits [OF assms]
  show ?thesis
    using assms unfolding start_envelope_def Let_def bits region_envelope_def voice_command_def start_payload_def
    by auto
qed

lemma expected_words_region:
  assumes "rg_loop_mode r \<in> {0, 1, 2}"
  shows "expected_start_words (start_flags r) = length (start_payload g inc r)"
proof -
  note bits = start_flag_bits [OF assms]
  show ?thesis
    using assms unfolding expected_start_words_def bits length_start_payload by auto
qed

lemma synth_decodes_start:
  assumes "region_playable r" and "i < kNumVoices"
  shows "synth_write s (voice_command kDefineMono (int i) (start_flags r) (start_payload g inc r)) =
    (Inr (), synth_put i (region_voice g inc r) (region_envelope r) s)"
proof -
  let ?ws = "voice_command kDefineMono (int i) (start_flags r) (start_payload g inc r)"
  have mode: "rg_loop_mode r \<in> {0, 1, 2}" using assms by (simp add: region_playable_def)
  have len: "length (start_payload g inc r) \<le> 16" by (simp add: length_start_payload)
  have "(0 :: int) \<le> int i" "int i < int kNumVoices" using assms(2) by simp_all
  note f = voice_command_fields [OF this start_flags_small [of r] len, of kDefineMono, unfolded nat_int]
  have three: "start_flags r AND 3 \<noteq> 3" using mode by (auto simp: start_flag_bits)
  have "synth_write s ?ws = (Inr (), synth_start i (start_flags r) ?ws s)"
    using synth_write_start [of ?ws "start_flags r" s] assms(2) f three start_flag_bits(4) [OF mode]
      expected_words_region [OF mode, of g inc]
    by (simp add: kDefineMono_def)
  then show ?thesis
    using start_config_region [OF assms(1)] start_envelope_region [OF mode]
    by (simp add: synth_start_def region_voice_def)
qed

section \<open>Mirrors and voices\<close>

definition synced :: "voice_mirror \<Rightarrow> voice_config \<Rightarrow> bool" where
  "synced m v \<longleftrightarrow>
     (vo_enable v \<longrightarrow>
        vm_active m \<and> vo_generation v = vm_generation m \<and> vo_gain_l v = vm_gain_l m \<and>
        vo_gain_r v = vm_gain_r m \<and> vo_phase_inc v = vm_phase_inc m \<and>
        vo_filter_enable v = fc_enable (vm_filter m) \<and>
        (vo_filter_enable v \<longrightarrow>
           vo_filter_b0 v = fc_b0 (vm_filter m) \<and> vo_filter_b1 v = fc_b1 (vm_filter m) \<and>
           vo_filter_b2 v = fc_b2 (vm_filter m) \<and> vo_filter_a1 v = fc_a1 (vm_filter m) \<and>
           vo_filter_a2 v = fc_a2 (vm_filter m)))"

definition all_synced :: "reference_synth voice_control \<Rightarrow> bool" where
  "all_synced c \<longleftrightarrow>
     length (cv_voices c) = kNumVoices \<and> synth_shape (cv_sink c) \<and>
     (\<forall>i < kNumVoices. synced (cv_voices c ! i) (rs_voices (cv_sink c) ! i))"

text \<open>One command only changes the voice it addresses.\<close>

definition only_voice :: "nat \<Rightarrow> reference_synth \<Rightarrow> reference_synth \<Rightarrow> bool" where
  "only_voice i s s' \<longleftrightarrow> synth_shape s' \<and> (\<forall>j. j \<noteq> i \<longrightarrow> rs_voices s' ! j = rs_voices s ! j)"

lemma only_voice_put:
  "synth_shape s \<Longrightarrow> only_voice i s (synth_put i v e s)"
  by (simp add: only_voice_def synth_put_def synth_shape_def)

lemma synced_put:
  assumes "all_synced c" and "only_voice i (cv_sink c) k" and "i < kNumVoices"
    and "synced m (rs_voices k ! i)"
  shows "all_synced (c\<lparr> cv_sink := k, cv_voices := (cv_voices c)[i := m] \<rparr>)"
  using assms by (auto simp: all_synced_def only_voice_def nth_list_update)

text \<open>The effect of a runtime command on the voice it addresses.\<close>

definition command_effect :: "u8 \<Rightarrow> u32 list \<Rightarrow> voice_config \<Rightarrow> voice_config" where
  "command_effect opcode payload v =
     (if opcode = kRelease
      then (if payload ! 1 = 0 then v\<lparr> vo_released := True, vo_enable := False \<rparr>
            else v\<lparr> vo_released := True \<rparr>)
      else if opcode = kStop then v\<lparr> vo_enable := False \<rparr>
      else if opcode = kGain
      then v\<lparr> vo_gain_l := s16 (low_half (payload ! 1)), vo_gain_r := s16 (high_half (payload ! 1)) \<rparr>
      else if opcode = kFilter
      then v\<lparr> vo_filter_b0 := s16 (low_half (payload ! 1)), vo_filter_b1 := s16 (high_half (payload ! 1)),
              vo_filter_b2 := s16 (low_half (payload ! 2)), vo_filter_a1 := s16 (high_half (payload ! 2)),
              vo_filter_a2 := s16 (low_half (payload ! 3)),
              vo_filter_enable := (payload ! 3 AND 0x00010000 \<noteq> 0) \<rparr>
      else v\<lparr> vo_phase_inc := payload ! 1 \<rparr>)"

definition runtime_shape :: "u8 \<Rightarrow> u32 list \<Rightarrow> bool" where
  "runtime_shape opcode payload \<longleftrightarrow>
     (opcode \<in> {kRelease, kGain, kPitch} \<and> length payload = 2) \<or> (opcode = kStop \<and> length payload = 1) \<or>
     (opcode = kFilter \<and> length payload = 4)"

lemma runtime_ignored:
  assumes "i < kNumVoices" and "runtime_shape opcode payload"
    and "\<not> (vo_enable (rs_voices s ! i) \<and> vo_generation (rs_voices s ! i) = ucast (payload ! 0))"
  shows "synth_write s (voice_command opcode (int i) 0 payload) = (Inr (), s)"
proof -
  have len: "length payload \<le> 16" and p: "payload \<noteq> []" using assms(2) by (auto simp: runtime_shape_def)
  have "(0 :: int) \<le> int i" "int i < int kNumVoices" "(0 :: u8) \<le> 0x3f" using assms(1) by simp_all
  note f = voice_command_fields [OF this len, of opcode, unfolded nat_int]
  have op: "opcode \<noteq> 0x10" "opcode \<ge> 0x13" "opcode \<le> 0x18"
    using assms(2) by (auto simp: runtime_shape_def opcode_defs)
  show ?thesis
    using assms(1,3) p op voice_command_nth(2) [of opcode "int i" 0 payload 0]
    by (auto simp: synth_write_def Let_def f synth_voice_opcode_def)
qed

lemma runtime_executed:
  assumes "i < kNumVoices" and "runtime_shape opcode payload" and "synth_shape s"
    and "vo_enable (rs_voices s ! i)" "vo_generation (rs_voices s ! i) = ucast (payload ! 0)"
  shows "\<exists>k. synth_write s (voice_command opcode (int i) 0 payload) = (Inr (), k) \<and>
    rs_voices k = (rs_voices s)[i := command_effect opcode payload (rs_voices s ! i)] \<and> synth_shape k"
proof -
  let ?ws = "voice_command opcode (int i) 0 payload"
  have "opcode \<ge> 0x13" "opcode \<le> 0x18" "length payload \<le> 16" "payload \<noteq> []"
    using assms(2) by (auto simp: runtime_shape_def opcode_defs)
  then have w: "synth_write s ?ws = synth_runtime_command opcode (length payload) i ?ws s"
    using synth_write_runtime [of i payload s opcode] assms by simp
  have v: "view_index ?ws (Suc j) = Inr (payload ! j)" if "j < length payload" for j
    using that by (simp add: view_index_def)
  have idx: "(2 :: nat) = Suc 1" "(3 :: nat) = Suc 2" "(4 :: nat) = Suc 3" by simp_all
  have v: "1 < length payload \<Longrightarrow> view_index ?ws 2 = Inr (payload ! 1)"
    "2 < length payload \<Longrightarrow> view_index ?ws 3 = Inr (payload ! 2)"
    "3 < length payload \<Longrightarrow> view_index ?ws 4 = Inr (payload ! 3)"
    by (simp only: idx(1) v, simp only: idx(2) v, simp only: idx(3) v)
  obtain cb where cb: "release_attenuation ((rs_envelopes s ! i)\<lparr> es_release_step := payload ! 1 \<rparr>) = Inr cb"
    using release_attenuation_total by blast
  have "\<exists>k. synth_runtime_command opcode (length payload) i ?ws s = (Inr (), k) \<and>
      rs_voices k = (rs_voices s)[i := command_effect opcode payload (rs_voices s ! i)]"
    using assms(2) cb v
    by (auto simp: runtime_shape_def opcode_defs synth_runtime_command_def synth_release_def Let_def
        command_effect_def synth_put_def push_completion_def synth_update_voice_def)
  then show ?thesis using w synth_write_shape [OF assms(3), of ?ws] by auto
qed

lemma command_effect_on_synth:
  assumes "i < kNumVoices" and "runtime_shape opcode payload" and "synth_shape s"
  shows "\<exists>k. synth_write s (voice_command opcode (int i) 0 payload) = (Inr (), k) \<and> only_voice i s k \<and>
    rs_voices k ! i =
      (if vo_enable (rs_voices s ! i) \<and> vo_generation (rs_voices s ! i) = ucast (payload ! 0)
       then command_effect opcode payload (rs_voices s ! i) else rs_voices s ! i)"
proof (cases "vo_enable (rs_voices s ! i) \<and> vo_generation (rs_voices s ! i) = ucast (payload ! 0)")
  case True
  then show ?thesis
    using runtime_executed [OF assms] assms(1,3) by (auto simp: only_voice_def synth_shape_def)
next
  case False
  then show ?thesis
    using runtime_ignored [OF assms(1,2)] assms(3) by (auto simp: only_voice_def)
qed

lemma sent_command:
  assumes "i < kNumVoices" and "synth_shape s"
    and "runtime_shape opcode (ucast g # ps)"
    and "write_all synth_write s [voice_command opcode (int i) 0 (ucast (g :: u16) # ps)] = (Inr (), k)"
  shows "only_voice i s k \<and> rs_voices k ! i =
    (if vo_enable (rs_voices s ! i) \<and> vo_generation (rs_voices s ! i) = g
     then command_effect opcode (ucast g # ps) (rs_voices s ! i) else rs_voices s ! i)"
  using command_effect_on_synth [OF assms(1,3,2)] assms(4) by (auto simp: generation_word)

section \<open>Operations keep the mirrors in step\<close>

fun op_playable :: "voice_op \<Rightarrow> bool" where
  "op_playable (Start v inc r) = region_playable r"
| "op_playable (Filter v f) \<longleftrightarrow> in_i16 (fc_b0 f) \<and> in_i16 (fc_b1 f) \<and> in_i16 (fc_b2 f) \<and>
     in_i16 (fc_a1 f) \<and> in_i16 (fc_a2 f)"
| "op_playable _ = True"

text \<open>What the commands of one operation do to their voice.\<close>

definition keeps_step :: "nat \<Rightarrow> reference_synth \<Rightarrow> voice_mirror \<Rightarrow> reference_synth \<Rightarrow> bool" where
  "keeps_step i s m k \<longleftrightarrow> only_voice i s k \<and> synced m (rs_voices k ! i)"

lemma only_voice_refl: "synth_shape s \<Longrightarrow> only_voice i s s"
  by (simp add: only_voice_def)

lemma only_voice_trans: "only_voice i s k \<Longrightarrow> only_voice i k l \<Longrightarrow> only_voice i s l"
  by (simp add: only_voice_def)

lemma start_in_step:
  assumes "region_playable r" and "i < kNumVoices" and "synth_shape s"
    and "write_all synth_write s (snd (op_spec (Start (int i) inc r) m)) = (Inr (), k)"
  shows "keeps_step i s (fst (op_spec (Start (int i) inc r) m)) k"
proof -
  let ?v = "region_voice (next_generation (vm_generation m)) inc r"
  have k: "k = synth_put i ?v (region_envelope r) s"
    using assms(4) synth_decodes_start [OF assms(1,2)] by (simp add: Let_def)
  then have "rs_voices k ! i = ?v"
    using assms(2,3) by (simp add: synth_put_def synth_shape_def)
  then show ?thesis
    using only_voice_put [OF assms(3)] by (simp add: keeps_step_def k synced_def region_voice_def Let_def)
qed

lemma filter_in_step:
  assumes "op_playable (Filter (int i) f)" and "i < kNumVoices" and "synth_shape s"
    and "synced m (rs_voices s ! i)"
    and "write_all synth_write s (snd (op_spec (Filter (int i) f) m)) = (Inr (), k)"
  shows "keeps_step i s (fst (op_spec (Filter (int i) f) m)) k"
proof (cases "\<not> vm_active m \<or> f = vm_filter m")
  case True
  then show ?thesis using assms by (auto simp: keeps_step_def only_voice_refl)
next
  case False
  let ?p = "[ucast (vm_generation m), pack_pair (fc_b1 f) (fc_b0 f), pack_pair (fc_a1 f) (fc_b2 f),
    ucast (of_int (fc_a2 f) :: u16) OR (if fc_enable f then 0x00010000 else 0)]"
  have "write_all synth_write s [voice_command kFilter (int i) 0 ?p] = (Inr (), k)"
    using False assms(5) by simp
  from sent_command [OF assms(2,3) _ this] show ?thesis
    using False assms(1,4)
    by (auto simp: runtime_shape_def keeps_step_def synced_def command_effect_def opcode_defs filter_word_fields s16_of_int_id)
qed

lemma release_in_step:
  assumes "i < kNumVoices" and "synth_shape s" and "synced m (rs_voices s ! i)"
    and "write_all synth_write s (snd (op_spec (Release (int i) st) m)) = (Inr (), k)"
  shows "keeps_step i s (fst (op_spec (Release (int i) st) m)) k"
proof (cases "\<not> vm_active m \<or> vm_released m")
  case True
  then show ?thesis using assms by (auto simp: keeps_step_def only_voice_refl)
next
  case False
  let ?p = "[ucast (vm_generation m), st]"
  have "write_all synth_write s [voice_command kRelease (int i) 0 ?p] = (Inr (), k)"
    using False assms(4) by simp
  from sent_command [OF assms(1,2) _ this] show ?thesis
    using False assms(3) by (auto simp: runtime_shape_def keeps_step_def synced_def command_effect_def)
qed

lemma stop_in_step:
  assumes "i < kNumVoices" and "synth_shape s" and "synced m (rs_voices s ! i)"
    and "write_all synth_write s (snd (op_spec (Stop (int i)) m)) = (Inr (), k)"
  shows "keeps_step i s (fst (op_spec (Stop (int i)) m)) k"
proof (cases "vm_active m")
  case False
  then show ?thesis using assms by (auto simp: keeps_step_def only_voice_refl)
next
  case True
  let ?p = "[ucast (vm_generation m)]"
  have "write_all synth_write s [voice_command kStop (int i) 0 ?p] = (Inr (), k)"
    using True assms(4) by simp
  from sent_command [OF assms(1,2) _ this] show ?thesis
    using True assms(3) by (auto simp: runtime_shape_def keeps_step_def synced_def command_effect_def opcode_defs)
qed

text \<open>The gain and pitch commands of \<open>update_gain_phase\<close>, each sent only when needed.\<close>

lemma gain_command:
  assumes "i < kNumVoices" and "synth_shape s" and "synced m (rs_voices s ! i)" and "in_i16 a" and "in_i16 b"
    and "write_all synth_write s [voice_command kGain (int i) 0 [ucast (vm_generation m), pack_pair b a]] = (Inr (), k)"
  shows "keeps_step i s (m\<lparr> vm_gain_l := a, vm_gain_r := b \<rparr>) k"
proof -
  let ?p = "[ucast (vm_generation m), pack_pair b a]"
  have "write_all synth_write s [voice_command kGain (int i) 0 ?p] = (Inr (), k)"
    using assms(6) by simp
  from sent_command [OF assms(1,2) _ this] show ?thesis
    using assms(3-5) by (auto simp: runtime_shape_def keeps_step_def synced_def command_effect_def opcode_defs s16_of_int_id)
qed

lemma pitch_command:
  assumes "i < kNumVoices" and "synth_shape s" and "synced m (rs_voices s ! i)"
    and "write_all synth_write s [voice_command kPitch (int i) 0 [ucast (vm_generation m), inc]] = (Inr (), k)"
  shows "keeps_step i s (m\<lparr> vm_phase_inc := inc \<rparr>) k"
proof -
  let ?p = "[ucast (vm_generation m), inc]"
  have "write_all synth_write s [voice_command kPitch (int i) 0 ?p] = (Inr (), k)"
    using assms(4) by simp
  from sent_command [OF assms(1,2) _ this] show ?thesis
    using assms(3) by (auto simp: runtime_shape_def keeps_step_def synced_def command_effect_def opcode_defs)
qed

lemma gain_phase_in_step:
  assumes "i < kNumVoices" and "synth_shape s" and "synced m (rs_voices s ! i)"
    and "write_all synth_write s (snd (op_spec (GainPhase (int i) l r inc) m)) = (Inr (), k)"
  shows "keeps_step i s (fst (op_spec (GainPhase (int i) l r inc) m)) k"
proof (cases "vm_active m")
  case False
  then show ?thesis using assms by (auto simp: keeps_step_def only_voice_refl)
next
  case True
  let ?a = "clamp_q15 l" and ?b = "clamp_q15 r"
  let ?m1 = "m\<lparr> vm_gain_l := ?a, vm_gain_r := ?b \<rparr>"
  let ?gain = "if ?a \<noteq> vm_gain_l m \<or> ?b \<noteq> vm_gain_r m
    then [voice_command kGain (int i) 0 [ucast (vm_generation m), pack_pair ?b ?a]] else []"
  let ?pitch = "if inc \<noteq> vm_phase_inc m
    then [voice_command kPitch (int i) 0 [ucast (vm_generation m), inc]] else []"
  obtain k1 where k1: "write_all synth_write s ?gain = (Inr (), k1)" "write_all synth_write k1 ?pitch = (Inr (), k)"
    using assms(4) True by (simp add: write_all_append split: prod.splits sum.splits)
  have step1: "keeps_step i s ?m1 k1"
  proof (cases "?a \<noteq> vm_gain_l m \<or> ?b \<noteq> vm_gain_r m")
    case True
    then show ?thesis using gain_command [OF assms(1-3) in_i16_clamp_q15 in_i16_clamp_q15] k1(1) by simp
  next
    case False
    then show ?thesis using k1(1) assms(2,3) by (auto simp: keeps_step_def only_voice_refl)
  qed
  then have sh: "synth_shape k1" "synced ?m1 (rs_voices k1 ! i)" "only_voice i s k1"
    by (simp_all add: keeps_step_def only_voice_def)
  have "keeps_step i k1 (?m1\<lparr> vm_phase_inc := inc \<rparr>) k"
  proof (cases "inc \<noteq> vm_phase_inc m")
    case True
    then show ?thesis using pitch_command [OF assms(1) sh(1,2)] k1(2) by simp
  next
    case False
    then show ?thesis using k1(2) sh by (auto simp: keeps_step_def only_voice_refl)
  qed
  then show ?thesis
    using True only_voice_trans [OF sh(3)] by (auto simp: keeps_step_def)
qed

lemma op_in_step:
  assumes "op_ok op" and "op_playable op" and "i = nat (op_voice op)" and "synth_shape s"
    and "synced m (rs_voices s ! i)" and "write_all synth_write s (snd (op_spec op m)) = (Inr (), k)"
  shows "keeps_step i s (fst (op_spec op m)) k"
proof -
  have i: "i < kNumVoices" "op_voice op = int i" using assms(1,3) by (simp_all add: op_ok_def nat_less_iff)
  show ?thesis
  proof (cases op)
    case (Start v inc r)
    then show ?thesis using start_in_step [of r i s inc m k] assms i by (simp del: op_spec.simps)
  next
    case (GainPhase v l r inc)
    then show ?thesis using gain_phase_in_step [OF i(1) assms(4,5)] assms(6) i by (simp del: op_spec.simps)
  next
    case (Filter v f)
    then show ?thesis using filter_in_step [of i f s m k] assms i by (simp del: op_spec.simps)
  next
    case (Release v st)
    then show ?thesis using release_in_step [OF i(1) assms(4,5)] assms(6) i by (simp del: op_spec.simps)
  next
    case (Stop v)
    then show ?thesis using stop_in_step [OF i(1) assms(4,5)] assms(6) i by (simp del: op_spec.simps)
  qed
qed

lemma op_keeps_synced:
  assumes "all_synced c" and "op_ok op" and "op_playable op"
  shows "\<exists>c'. exec_op synth_write op c = (Inr (), c') \<and> all_synced c'"
proof -
  let ?i = "nat (op_voice op)"
  have i: "?i < kNumVoices" using assms(2) by (simp add: op_ok_def nat_less_iff)
  have c: "length (cv_voices c) = kNumVoices" "synth_shape (cv_sink c)"
    "synced (cv_voices c ! ?i) (rs_voices (cv_sink c) ! ?i)"
    using assms(1) i by (simp_all add: all_synced_def)
  have "list_all well_formed_command (op_emits op c)"
    using op_spec_well_formed [OF assms(2)] by (auto simp: op_emits_def list_all_iff)
  then obtain k where k: "exec_op synth_write op c = (Inr (), op_after op c k)"
    "write_all synth_write (cv_sink c) (op_emits op c) = (Inr (), k)"
    using synth_sink.exec_op_refines [OF c(2) assms(2) c(1)] by blast
  have "keeps_step ?i (cv_sink c) (fst (op_spec op (cv_voices c ! ?i))) k"
    using op_in_step [OF assms(2,3) refl c(2,3)] k(2) by (simp add: op_emits_def)
  then have "all_synced (op_after op c k)"
    using synced_put [OF assms(1) _ i] by (simp add: keeps_step_def op_after_def)
  then show ?thesis using k(1) by blast
qed

lemma frame_keeps_synced:
  assumes "all_synced c"
  shows "\<exists>p k. render_mix (cv_sink c) = Inr (p, k) \<and> all_synced (c\<lparr> cv_sink := k \<rparr>)"
proof -
  let ?s = "cv_sink c"
  have sh: "synth_shape ?s" using assms by (simp add: all_synced_def)
  obtain k where k: "render_mix ?s = Inr (mix_sums ?s, k)" "synth_shape k"
    "voice_states k = map (tick (rs_memory ?s)) (voice_states ?s)"
    using render_mix_frame [OF sh] by blast
  have "synced (cv_voices c ! i) (rs_voices k ! i)" if i: "i < kNumVoices" for i
  proof -
    let ?x = "voice_states ?s ! i"
    have v: "rs_voices k ! i = fst (tick (rs_memory ?s) ?x)" "fst ?x = rs_voices ?s ! i"
      using i sh k(2,3) by (simp_all add: voices_of_states(1) length_voice_states)
    obtain n b where st: "fst (settle ?x) = (fst ?x)\<lparr> vo_envelope := n, vo_enable := b \<rparr>" "b \<longrightarrow> vo_enable (fst ?x)"
      using settle_voice [of "fst ?x" "snd ?x"] by auto
    have "synced (cv_voices c ! i) (fst (settle ?x))"
      using assms i st v(2) by (auto simp: all_synced_def synced_def)
    then show ?thesis
      by (simp add: v(1) tick_def case_prod_beta Let_def synced_def advance_phase_def)
  qed
  then show ?thesis using k assms by (auto simp: all_synced_def)
qed

section \<open>Sessions\<close>

datatype session_step = Op voice_op | Frame

fun step_ok :: "session_step \<Rightarrow> bool" where
  "step_ok (Op op) \<longleftrightarrow> op_ok op \<and> op_playable op"
| "step_ok Frame = True"

fun run_session ::
    "session_step list \<Rightarrow> reference_synth voice_control \<Rightarrow> (reference_synth voice_control, unit) outcome" where
  "run_session [] c = (Inr (), c)"
| "run_session (Op op # steps) c =
     (case exec_op synth_write op c of (Inl e, c') \<Rightarrow> (Inl e, c') | (Inr _, c') \<Rightarrow> run_session steps c')"
| "run_session (Frame # steps) c =
     (case render_mix (cv_sink c) of
        Inl e \<Rightarrow> (Inl e, c) | Inr (p, k) \<Rightarrow> run_session steps (c\<lparr> cv_sink := k \<rparr>))"

lemma run_session_synced:
  assumes "all_synced c" and "list_all step_ok steps"
  shows "\<exists>c'. run_session steps c = (Inr (), c') \<and> all_synced c'"
  using assms
proof (induction steps arbitrary: c)
  case Nil
  then show ?case by simp
next
  case (Cons x steps)
  show ?case
  proof (cases x)
    case (Op op)
    then obtain c1 where "exec_op synth_write op c = (Inr (), c1)" "all_synced c1"
      using op_keeps_synced [of c op] Cons.prems by auto
    then show ?thesis using Cons.IH [of c1] Cons.prems Op by simp
  next
    case Frame
    obtain p k where "render_mix (cv_sink c) = Inr (p, k)" "all_synced (c\<lparr> cv_sink := k \<rparr>)"
      using frame_keeps_synced [OF Cons.prems(1)] by blast
    then show ?thesis using Cons.IH [of "c\<lparr> cv_sink := k \<rparr>"] Cons.prems Frame by simp
  qed
qed

lemma all_synced_new: "all_synced (voice_control_new (reference_synth_new memory diagnostics))"
  by (simp add: all_synced_def voice_control_new_def reference_synth_new_def synth_shape_def synced_def
      default_voice_config_def)

section \<open>Properties\<close>


definition example_region :: region where
  "example_region = default_region\<lparr> rg_length := 2, rg_gain_l := 0x4000, rg_gain_r := 0x4000, rg_loop_mode := 0,
     rg_stereo := False, rg_filter_enable := False \<rparr>"

lemma example_region_playable: "region_playable example_region"
  by (simp add: example_region_def region_playable_def in_i16_def)


text \<open>Starting a playable region on the synthesizer through the voice controller succeeds and
  gives the voice exactly the region's sample, loop, pitch, gains, filter and envelope, with the
  generation the controller remembers; no other voice changes.\<close>

theorem start_voice_configures_synth:
  assumes "region_playable r" and "0 \<le> voice" and "voice < int kNumVoices"
    and "length (cv_voices c) = kNumVoices" and "synth_shape (cv_sink c)"
  shows "\<exists>c'. start_voice synth_write voice inc r c = (Inr (), c') \<and>
    rs_voices (cv_sink c') ! nat voice = region_voice (vm_generation (cv_voices c' ! nat voice)) inc r \<and>
    rs_envelopes (cv_sink c') ! nat voice = region_envelope r \<and>
    (\<forall>j. j \<noteq> nat voice \<longrightarrow> rs_voices (cv_sink c') ! j = rs_voices (cv_sink c) ! j \<and>
       rs_envelopes (cv_sink c') ! j = rs_envelopes (cv_sink c) ! j)"
proof -
  let ?op = "Start voice inc r" and ?i = "nat voice"
  let ?g = "next_generation (vm_generation (cv_voices c ! ?i))"
  have ok: "op_ok ?op" using assms(1-3) by (simp add: op_ok_def region_playable_def)
  have i: "?i < kNumVoices" "int ?i = voice" using assms(2,3) by (simp_all add: nat_less_iff)
  have "list_all well_formed_command (op_emits ?op c)"
    using op_spec_well_formed [OF ok] by (auto simp: op_emits_def list_all_iff)
  then obtain k where k: "exec_op synth_write ?op c = (Inr (), op_after ?op c k)"
    "write_all synth_write (cv_sink c) (op_emits ?op c) = (Inr (), k)"
    using synth_sink.exec_op_refines [OF assms(5) ok assms(4)] by blast
  have "k = synth_put ?i (region_voice ?g inc r) (region_envelope r) (cv_sink c)"
    using k(2) synth_decodes_start [OF assms(1) i(1), of "cv_sink c" ?g inc] i(2)
    by (simp add: op_emits_def Let_def)
  then show ?thesis
    using k(1) i(1) assms(4,5) by (auto simp: op_after_def Let_def synth_put_def synth_shape_def)
qed

theorem start_voice_configures_synth_witness:
  "\<exists>c'. start_voice synth_write 3 256 example_region (voice_control_new (reference_synth_new [5, 6] None)) = (Inr (), c') \<and>
     rs_voices (cv_sink c') ! 3 = region_voice (vm_generation (cv_voices c' ! 3)) 256 example_region"
  using start_voice_configures_synth [OF example_region_playable, of 3
      "voice_control_new (reference_synth_new [5, 6] None)" 256]
  by (auto simp: kNumVoices_def voice_control_new_def reference_synth_new_def synth_shape_def)

end
