(* ===== verification/Delay_Line.thy ===== *)
theory Delay_Line
  imports Prelude
begin

text \<open>
  What the delay lines of the effects have in common. The chorus history, the reverb pre-delay
  and the eight lines of the feedback delay network are arrays written round and round at a
  pointer, with an age that counts the entries written since the last clear; entries older
  than the age are never looked at. \<open>ring_past\<close> reads such an array as the list of the entries
  written, newest first; \<open>delayed\<close> reads a signal a number of frames ago, zero before its start.
\<close>

definition ring_past :: "'a list \<Rightarrow> nat \<Rightarrow> nat \<Rightarrow> 'a list" where
  "ring_past xs p n = map (\<lambda>d. xs ! ((p + length xs - d) mod length xs)) [1..<Suc n]"

definition delayed :: "'a \<Rightarrow> 'a list \<Rightarrow> nat \<Rightarrow> 'a" where
  "delayed z ws d = (if d \<le> length ws then ws ! (d - 1) else z)"

lemma length_ring_past [simp]: "length (ring_past xs p n) = n"
  by (simp add: ring_past_def)

lemma ring_past_0 [simp]: "ring_past xs p 0 = []"
  by (simp add: ring_past_def)

lemma ring_past_nth:
  "1 \<le> d \<Longrightarrow> d \<le> n \<Longrightarrow> ring_past xs p n ! (d - 1) = xs ! ((p + length xs - d) mod length xs)"
  using nth_upt [of 1 "d - 1" "Suc n"] by (simp add: ring_past_def del: upt_Suc)

lemma ring_past_read:
  assumes "1 \<le> d"
  shows "delayed z (ring_past xs p n) d = (if d \<le> n then xs ! ((p + length xs - d) mod length xs) else z)"
  using assms ring_past_nth [of d n xs p] by (simp add: delayed_def)

lemma delayed_take: "1 \<le> d \<Longrightarrow> d \<le> n \<Longrightarrow> delayed z (take n ws) d = delayed z ws d"
  by (auto simp: delayed_def)

lemma delayed_Nil: "1 \<le> d \<Longrightarrow> delayed z [] d = z"
  by (simp add: delayed_def)

lemma delayed_in: "1 \<le> d \<Longrightarrow> delayed z ws d \<in> insert z (set ws)"
  by (auto simp: delayed_def)

lemma ring_back_index:
  assumes "p < (c :: nat)" and "1 \<le> d" and "d < c"
  shows "((p + 1) mod c + c - (d + 1)) mod c = (p + c - d) mod c" and "(p + c - d) mod c \<noteq> p"
proof -
  show "(p + c - d) mod c \<noteq> p"
  proof (cases "d \<le> p")
    case True
    then have "(p + c - d) mod c = p - d" using assms by (simp add: mod_if)
    then show ?thesis using assms True by simp
  next
    case False
    then show ?thesis using assms by simp
  qed
  show "((p + 1) mod c + c - (d + 1)) mod c = (p + c - d) mod c"
  proof (cases "p + 1 = c")
    case True
    then have "p + c - d = c - (d + 1) + c" using assms by simp
    moreover have "(c - (d + 1) + c) mod c = (c - (d + 1)) mod c" by (rule mod_add_self2)
    ultimately show ?thesis using True by simp
  next
    case False
    then show ?thesis using assms by simp
  qed
qed

text \<open>Writing a frame and moving the pointer on puts the frame in front of the past.\<close>

lemma ring_past_push:
  assumes "p < length xs" and "n \<le> length xs"
  shows "ring_past (xs[p := x]) ((p + 1) mod length xs) (min (n + 1) (length xs)) =
    take (length xs) (x # ring_past xs p n)"
proof (rule nth_equalityI)
  let ?c = "length xs"
  show "length (ring_past (xs[p := x]) ((p + 1) mod ?c) (min (n + 1) ?c)) =
      length (take ?c (x # ring_past xs p n))" by simp
  fix i assume "i < length (ring_past (xs[p := x]) ((p + 1) mod ?c) (min (n + 1) ?c))"
  then have i: "i < min (n + 1) ?c" by simp
  have read: "ring_past (xs[p := x]) ((p + 1) mod ?c) (min (n + 1) ?c) ! i =
      (xs[p := x]) ! (((p + 1) mod ?c + ?c - (i + 1)) mod ?c)"
    using ring_past_nth [of "i + 1" "min (n + 1) ?c" "xs[p := x]"] i by simp
  show "ring_past (xs[p := x]) ((p + 1) mod ?c) (min (n + 1) ?c) ! i = take ?c (x # ring_past xs p n) ! i"
  proof (cases i)
    case 0
    have "((p + 1) mod ?c + ?c - 1) mod ?c = p"
      using assms(1) by (cases "p + 1 = ?c") auto
    then show ?thesis using 0 assms(1) i read by simp
  next
    case (Suc j)
    then have "(xs[p := x]) ! (((p + 1) mod ?c + ?c - (i + 1)) mod ?c) = xs ! ((p + ?c - i) mod ?c)"
      using ring_back_index [OF assms(1), of i] i by (simp add: nth_list_update)
    moreover have "take ?c (x # ring_past xs p n) ! i = ring_past xs p n ! (i - 1)" using Suc i by simp
    ultimately show ?thesis using ring_past_nth [of i n xs p] Suc i read by simp
  qed
qed

text \<open>An array that stands for the last \<open>length xs\<close> entries of an unbounded past.\<close>

definition holds_past :: "'a list \<Rightarrow> nat \<Rightarrow> nat \<Rightarrow> 'a list \<Rightarrow> bool" where
  "holds_past xs p n ws \<longleftrightarrow> p < length xs \<and> n = min (length ws) (length xs) \<and> ring_past xs p n = take (length xs) ws"

lemma holds_past_new: "xs \<noteq> [] \<Longrightarrow> holds_past xs 0 0 []"
  by (simp add: holds_past_def)

lemma holds_past_push:
  assumes "holds_past xs p n ws"
  shows "holds_past (xs[p := x]) ((p + 1) mod length xs) (min (n + 1) (length xs)) (x # ws)"
proof -
  have p: "p < length xs" "n = min (length ws) (length xs)" "ring_past xs p n = take (length xs) ws"
    using assms unfolding holds_past_def by blast+
  then have "take (length xs) (x # ring_past xs p n) = take (length xs) (x # ws)"
    by (cases "length xs") (simp_all add: min_def)
  moreover have "n \<le> length xs" using p(2) by simp
  moreover have "(p + 1) mod length xs < length xs" using p(1) by (rule mod_length_less)
  ultimately show ?thesis using ring_past_push [OF p(1), of n x] p(2) by (auto simp: holds_past_def)
qed

lemma holds_past_read:
  assumes "holds_past xs p n ws" and "1 \<le> d" and "d \<le> length xs"
  shows "(if d \<le> n then xs ! ((p + length xs - d) mod length xs) else z) = delayed z ws d"
proof -
  have "delayed z (ring_past xs p n) d = delayed z ws d"
    using assms delayed_take [OF assms(2,3), of z ws] unfolding holds_past_def by metis
  then show ?thesis using ring_past_read [OF assms(2), of z xs p n] by simp
qed

text \<open>A line read at its own pointer before the write is the signal a whole length ago.\<close>

lemma holds_past_oldest:
  assumes "holds_past xs p n ws"
  shows "(if n < length xs then z else xs ! p) = delayed z ws (length xs)"
proof -
  have "1 \<le> length xs" "n \<le> length xs" "p < length xs" using assms by (auto simp: holds_past_def)
  then show ?thesis using holds_past_read [OF assms, of "length xs" z] by (simp split: if_splits)
qed

section \<open>Power-of-two rings\<close>

text \<open>Masking with \<open>size - 1\<close> is the remainder by a power of two.\<close>

lemma power_of_two_test:
  assumes "0 < c" and "c AND (c - 1) = (0 :: nat)"
  shows "\<exists>k. c = 2 ^ k"
  using assms
proof (induction c rule: less_induct)
  case (less c)
  have rec: "c AND (c - 1) = of_bool (odd c \<and> odd (c - 1)) + 2 * ((c div 2) AND ((c - 1) div 2))"
    by (rule and_rec)
  show ?case
  proof (cases "odd c")
    case True
    then have "(c - 1) div 2 = c div 2" by presburger
    then have "2 * (c div 2) = 0" using rec less.prems by simp
    then have "c = 1" using True by presburger
    then show ?thesis by (metis power_0)
  next
    case False
    then have "(c - 1) div 2 = c div 2 - 1" "0 < c div 2" "c div 2 < c" using less.prems by presburger+
    moreover from this have "(c div 2) AND (c div 2 - 1) = 0" using rec less.prems by simp
    ultimately obtain k where "c div 2 = 2 ^ k" using less.IH by blast
    then have "c = 2 ^ Suc k" using False dvd_mult_div_cancel [of 2 c] by simp
    then show ?thesis by blast
  qed
qed

lemma mask_index:
  assumes "k < 64"
  shows "unat (x AND (of_nat (2 ^ k) - 1) :: u64) = unat x mod 2 ^ k"
proof -
  have "x AND (of_nat (2 ^ k) - 1) = take_bit k x" by (simp add: take_bit_eq_mask mask_eq_exp_minus_1)
  then show ?thesis by (simp only: unsigned_take_bit_eq) (simp add: take_bit_eq_mod)
qed

lemma mask_index_back:
  assumes "k < 63" and "p < 2 ^ k" and "d \<le> 2 ^ k"
  shows "unat ((of_nat p - of_nat d) AND (of_nat (2 ^ k) - 1) :: u64) = (p + 2 ^ k - d) mod 2 ^ k"
proof -
  have pow: "(2 :: nat) ^ k < 2 ^ 63" using assms(1) by (rule power_strict_increasing) simp
  have "unat (of_nat p - of_nat d :: u64) mod 2 ^ k = (p + 2 ^ k - d) mod 2 ^ k"
  proof (cases "d \<le> p")
    case True
    then have "(of_nat p - of_nat d :: u64) = of_nat (p - d)" by simp
    moreover have "p - d < 2 ^ 64" using assms(2) pow by simp
    ultimately have "unat (of_nat p - of_nat d :: u64) = p - d" by (simp add: unat_of_nat)
    moreover have "p + 2 ^ k - d = (p - d) + 2 ^ k" using True by simp
    ultimately show ?thesis by simp
  next
    case False
    define e where "e = d - p"
    have e: "0 < e" "e \<le> 2 ^ k" "d = p + e" using False assms(3) by (simp_all add: e_def)
    have "(of_nat p - of_nat d :: u64) = of_nat (2 ^ 64 - e)"
      using e pow by (simp add: of_nat_diff)
    moreover have "2 ^ 64 - e < (2 :: nat) ^ 64" using e by simp
    ultimately have u: "unat (of_nat p - of_nat d :: u64) = 2 ^ 64 - e" by (simp add: unat_of_nat)
    have "(2 :: nat) ^ 64 = 2 ^ k * 2 ^ (64 - k)" using assms(1) by (simp flip: power_add)
    also have "\<dots> = 2 ^ k + (2 ^ (64 - k) - 1) * 2 ^ k" by (simp add: algebra_simps)
    finally have "2 ^ 64 - e = (2 ^ k - e) + (2 ^ (64 - k) - 1) * 2 ^ k" using e by simp
    then have "(2 ^ 64 - e) mod 2 ^ k = (2 ^ k - e) mod 2 ^ k" by (simp only: mod_mult_self1)
    moreover have "p + 2 ^ k - d = 2 ^ k - e" using e by simp
    ultimately show ?thesis using u by simp
  qed
  then show ?thesis using mask_index [of k] assms(1) by simp
qed

end
