(* ===== verification/Stereo_Chorus.thy ===== *)
theory Stereo_Chorus
  imports Delay_Line Fixed_Point Dsp_Lut
begin

text \<open>
  The stereo chorus of \<open>src/sim/harness/render/stereo_chorus_model.{h,cpp}\<close>: a power-of-two
  history of stereo frames read at two delays that a sine oscillator modulates, with linear
  interpolation and feedback. The lemmas show that the clamped configuration keeps every
  read between one frame and the capacity, that the values stay in the signed 25-bit mix, and
  that the masked ring implements an unbounded past.
\<close>

section \<open>State\<close>

record chorus_config =
  kx_enable :: bool
  kx_base_delay_q16_8 :: u32
  kx_depth_q16_8 :: u32
  kx_lfo_phase_inc_q0_32 :: u32
  kx_input_send_q1_15 :: u16
  kx_return_gain_q1_15 :: u16
  kx_feedback_q1_15 :: int
  kx_stereo_phase_offset_q0_32 :: u32

definition default_chorus_config :: chorus_config where
  "default_chorus_config =
     \<lparr> kx_enable = False, kx_base_delay_q16_8 = push_bit 8 1, kx_depth_q16_8 = 0,
       kx_lfo_phase_inc_q0_32 = 0, kx_input_send_q1_15 = 0x7fff, kx_return_gain_q1_15 = 0,
       kx_feedback_q1_15 = 0, kx_stereo_phase_offset_q0_32 = 0x40000000 \<rparr>"

record chorus =
  ch_history :: "(int \<times> int) list"
  ch_write_ptr :: nat
  ch_history_age :: nat
  ch_lfo_phase :: u32
  ch_config :: chorus_config
  ch_config_clamped :: bool
  ch_saturation_count :: u32

definition kChorusFeedbackLimitQ1_15 :: int where
  "kChorusFeedbackLimitQ1_15 = 0x6000"

definition chorus_reset :: "chorus \<Rightarrow> chorus" where
  "chorus_reset c =
     c\<lparr> ch_write_ptr := 0, ch_history_age := 0, ch_lfo_phase := 0, ch_config := default_chorus_config,
        ch_config_clamped := False, ch_saturation_count := 0 \<rparr>"

definition chorus_clear :: "chorus \<Rightarrow> chorus" where
  "chorus_clear c =
     c\<lparr> ch_write_ptr := 0, ch_history_age := 0, ch_lfo_phase := 0,
        ch_config_clamped := False, ch_saturation_count := 0 \<rparr>"

definition chorus_new :: "nat \<Rightarrow> error + chorus" where
  "chorus_new delay_capacity =
     (if delay_capacity < 4 \<or> delay_capacity AND (delay_capacity - 1) \<noteq> 0
      then Inl (InvalidArgument ''chorus delay capacity must be a power of two >= 4'')
      else Inr (chorus_reset
        \<lparr> ch_history = replicate delay_capacity (0, 0), ch_write_ptr = 0, ch_history_age = 0,
          ch_lfo_phase = 0, ch_config = default_chorus_config, ch_config_clamped = False,
          ch_saturation_count = 0 \<rparr>))"

definition chorus_set_config :: "chorus_config \<Rightarrow> chorus \<Rightarrow> chorus" where
  "chorus_set_config config c = c\<lparr> ch_config := config \<rparr>"

section \<open>Oscillator, configuration and taps\<close>

definition sine_q15 :: "u32 \<Rightarrow> int" where
  "sine_q15 phase =
     (let position = drop_bit 22 phase;
          quadrant = drop_bit 8 position;
          offset = position AND 0xff;
          index = (if quadrant AND 1 \<noteq> 0 then 256 - offset else offset);
          magnitude = i16 (kChorusSineQuarterQ1_15 ! unat index)
      in if quadrant \<ge> 2 then i16 (- magnitude) else magnitude)"

definition chorus_effective_config :: "chorus \<Rightarrow> chorus_config \<times> chorus" where
  "chorus_effective_config c =
     (let config = ch_config c;
          maximum = of_nat (push_bit 8 (length (ch_history c) - 2)) :: u32;
          base = clamp (kx_base_delay_q16_8 config) (push_bit 8 1) maximum;
          depth_limit = min (base - push_bit 8 1) (maximum - base);
          depth = min (kx_depth_q16_8 config) depth_limit;
          feedback = i16 (clamp (kx_feedback_q1_15 config) (- kChorusFeedbackLimitQ1_15) kChorusFeedbackLimitQ1_15);
          send = min (kx_input_send_q1_15 config) 0x7fff;
          result = config\<lparr> kx_base_delay_q16_8 := base, kx_depth_q16_8 := depth,
            kx_feedback_q1_15 := feedback, kx_input_send_q1_15 := send \<rparr>
      in (result,
          if kx_enable result \<and>
             (kx_base_delay_q16_8 config \<noteq> base \<or> kx_depth_q16_8 config \<noteq> depth \<or>
              kx_feedback_q1_15 config \<noteq> feedback \<or> kx_input_send_q1_15 config \<noteq> send)
          then c\<lparr> ch_config_clamped := True \<rparr> else c))"

text \<open>The history is read at \<open>(write_ptr_ - distance) & (size - 1)\<close>, in \<open>size_t\<close> arithmetic.\<close>

definition chorus_sample :: "chorus \<Rightarrow> bool \<Rightarrow> nat \<Rightarrow> int" where
  "chorus_sample c right distance =
     (if distance > ch_history_age c then 0
      else
        (let address = unat ((of_nat (ch_write_ptr c) - of_nat distance) AND
               (of_nat (length (ch_history c)) - 1) :: u64)
         in if right then snd (ch_history c ! address) else fst (ch_history c ! address)))"

definition tap :: "u32 \<Rightarrow> bool \<Rightarrow> chorus \<Rightarrow> int" where
  "tap delay_q16_8 right c =
     (let integer_delay = unat (drop_bit 8 delay_q16_8);
          fraction = uint (delay_q16_8 AND 0xff);
          newer = chorus_sample c right integer_delay;
          older = chorus_sample c right (integer_delay + 1)
      in i32 (newer + arithmetic_shift_right ((older - newer) * fraction) 8))"

definition input_scaled :: "chorus_config \<Rightarrow> int \<Rightarrow> int" where
  "input_scaled config sample =
     (if kx_input_send_q1_15 config = 0x7fff then sample
      else arithmetic_shift_right (sample * uint (kx_input_send_q1_15 config)) 15)"

definition chorus_delay :: "chorus_config \<Rightarrow> u32 \<Rightarrow> u32" where
  "chorus_delay config phase =
     of_int (uint (kx_base_delay_q16_8 config) +
             arithmetic_shift_right (uint (kx_depth_q16_8 config) * sine_q15 phase) 15)"

definition chorus_process :: "int \<Rightarrow> int \<Rightarrow> chorus \<Rightarrow> (int \<times> int) \<times> chorus" where
  "chorus_process left_in right_in c0 =
     (let (config, c) = chorus_effective_config c0;
          left = signed_mix25 left_in; right = signed_mix25 right_in;
          wet_l = tap (chorus_delay config (ch_lfo_phase c)) False c;
          wet_r = tap (chorus_delay config (ch_lfo_phase c + kx_stereo_phase_offset_q0_32 config)) True c;
          feedback_l = arithmetic_shift_right (wet_l * kx_feedback_q1_15 config) 15;
          feedback_r = arithmetic_shift_right (wet_r * kx_feedback_q1_15 config) 15;
          (stored_l, saturated_l) = saturate_mix25 (input_scaled config left + feedback_l);
          (stored_r, saturated_r) = saturate_mix25 (input_scaled config right + feedback_r)
      in (if kx_enable config then (wet_l, wet_r) else (0, 0),
          c\<lparr> ch_history := (ch_history c)[ch_write_ptr c := (stored_l, stored_r)],
             ch_saturation_count := sat_inc (ch_saturation_count c) (of_bool saturated_l + of_bool saturated_r),
             ch_write_ptr := unat ((of_nat (ch_write_ptr c) + 1) AND (of_nat (length (ch_history c)) - 1) :: u64),
             ch_history_age := min (ch_history_age c + 1) (length (ch_history c)),
             ch_lfo_phase := ch_lfo_phase c + kx_lfo_phase_inc_q0_32 config \<rparr>))"

section \<open>The oscillator\<close>

lemma sine_table: "length kChorusSineQuarterQ1_15 = 257" "list_all (\<lambda>x. 0 \<le> x \<and> x \<le> 32767) kChorusSineQuarterQ1_15"
  by code_simp+

lemma sine_table_range: "i \<le> 256 \<Longrightarrow> 0 \<le> kChorusSineQuarterQ1_15 ! i \<and> kChorusSineQuarterQ1_15 ! i \<le> 32767"
  using sine_table by (simp add: list_all_length)

lemma sine_index_le: "unat (if b then 256 - (p AND 0xff) else p AND 0xff :: u32) \<le> 256"
proof -
  have "p AND 0xff \<le> 0xff" by (rule word_and_le1)
  then show ?thesis by (simp split: if_split) unat_arith
qed

lemma sine_q15_range: "- 32767 \<le> sine_q15 phase \<and> sine_q15 phase \<le> 32767"
proof -
  define i where "i = unat (if drop_bit 8 (drop_bit 22 phase) AND 1 \<noteq> 0
    then 256 - (drop_bit 22 phase AND 0xff) else drop_bit 22 phase AND 0xff)"
  define m where "m = kChorusSineQuarterQ1_15 ! i"
  have "i \<le> 256" unfolding i_def by (rule sine_index_le)
  then have m: "0 \<le> m" "m \<le> 32767" using sine_table_range [of i] by (simp_all add: m_def)
  then have "i16 m = m" "i16 (- m) = - m" by (simp_all add: i16_id in_i16_def)
  then have "sine_q15 phase = (if drop_bit 8 (drop_bit 22 phase) \<ge> 2 then - m else m)"
    by (simp only: sine_q15_def Let_def i_def [symmetric] m_def [symmetric])
  then show ?thesis using m by simp
qed

section \<open>The clamped configuration\<close>

definition mix_frames :: "(int \<times> int) list \<Rightarrow> bool" where
  "mix_frames = list_all (\<lambda>f. in_mix25 (fst f) \<and> in_mix25 (snd f))"

definition chorus_inv :: "chorus \<Rightarrow> bool" where
  "chorus_inv c \<longleftrightarrow>
     4 \<le> length (ch_history c) \<and> length (ch_history c) \<le> 2 ^ 24 \<and>
     length (ch_history c) AND (length (ch_history c) - 1) = 0 \<and>
     ch_write_ptr c < length (ch_history c) \<and> ch_history_age c \<le> length (ch_history c) \<and>
     mix_frames (ch_history c)"

text \<open>What the clamping guarantees, as integers: \<open>n\<close> is the capacity of the history.\<close>

definition chorus_config_ok :: "nat \<Rightarrow> chorus_config \<Rightarrow> bool" where
  "chorus_config_ok n config \<longleftrightarrow>
     256 + uint (kx_depth_q16_8 config) \<le> uint (kx_base_delay_q16_8 config) \<and>
     uint (kx_base_delay_q16_8 config) + uint (kx_depth_q16_8 config) \<le> 256 * (int n - 2) \<and>
     \<bar>kx_feedback_q1_15 config\<bar> \<le> 0x6000 \<and> kx_input_send_q1_15 config \<le> 0x7fff"

lemma chorus_maximum:
  assumes "4 \<le> n" and "n \<le> 2 ^ 24"
  shows "uint (of_nat (push_bit 8 (n - 2)) :: u32) = 256 * (int n - 2)"
proof -
  have "push_bit 8 (n - 2) = 256 * (n - 2)" by (simp add: push_bit_eq_mult)
  moreover have "256 * (n - 2) < 2 ^ 32" using assms by simp
  ultimately have "push_bit 8 (n - 2) mod 2 ^ LENGTH(32) = 256 * (n - 2)" by simp
  then have "unat (of_nat (push_bit 8 (n - 2)) :: u32) = 256 * (n - 2)" by (simp only: unat_of_nat)
  then have "int (unat (of_nat (push_bit 8 (n - 2)) :: u32)) = 256 * (int n - 2)" using assms by (simp only: of_nat_diff) simp
  then show ?thesis by (simp only: uint_nat)
qed

lemma clamp_word: "uint (clamp v lo hi) = clamp (uint v) (uint lo) (uint hi)"
  by (simp add: clamp_def word_less_def)

lemma min_word: "uint (min v w) = min (uint v) (uint w)"
  by (simp add: min_def word_le_def)

lemma uint_minus_le: "w \<le> (v :: u32) \<Longrightarrow> uint (v - w) = uint v - uint w"
  by (simp add: uint_minus_simple_alt)

lemma clamped_depth:
  fixes b m d :: int
  assumes "256 \<le> b" and "b \<le> m"
  shows "256 + min d (min (b - 256) (m - b)) \<le> b" and "b + min d (min (b - 256) (m - b)) \<le> m"
  using assms by linarith+

lemma chorus_effective_config_ok:
  assumes "chorus_inv c" and "chorus_effective_config c = (config, c')"
  shows "chorus_config_ok (length (ch_history c)) config"
proof -
  let ?n = "length (ch_history c)" and ?k = "ch_config c"
  define m :: u32 where "m = of_nat (push_bit 8 (?n - 2))"
  define b where "b = clamp (kx_base_delay_q16_8 ?k) (push_bit 8 1) m"
  have n: "4 \<le> ?n" "?n \<le> 2 ^ 24" using assms(1) by (simp_all add: chorus_inv_def)
  have m: "uint m = 256 * (int ?n - 2)" unfolding m_def using n by (rule chorus_maximum)
  have one: "uint (push_bit 8 1 :: u32) = 256" by simp
  have "256 \<le> uint m" using m n(1) by simp
  then have b: "256 \<le> uint b" "uint b \<le> uint m"
    using clamp_bounds [of 256 "uint m" "uint (kx_base_delay_q16_8 ?k)"] unfolding b_def clamp_word one by blast+
  then have sub: "uint (b - push_bit 8 1) = uint b - 256" "uint (m - b) = uint m - uint b"
    using uint_minus_le [of "push_bit 8 1" b] uint_minus_le [of b m] one unfolding word_le_def by simp_all
  have config: "kx_base_delay_q16_8 config = b"
    "kx_depth_q16_8 config = min (kx_depth_q16_8 ?k) (min (b - push_bit 8 1) (m - b))"
    "kx_feedback_q1_15 config = i16 (clamp (kx_feedback_q1_15 ?k) (- 0x6000) 0x6000)"
    "kx_input_send_q1_15 config = min (kx_input_send_q1_15 ?k) 0x7fff"
    using assms(2) by (auto simp: chorus_effective_config_def Let_def b_def m_def kChorusFeedbackLimitQ1_15_def)
  have depth: "uint (kx_depth_q16_8 config) = min (uint (kx_depth_q16_8 ?k)) (min (uint b - 256) (uint m - uint b))"
    unfolding config(2) min_word sub ..
  have fb: "\<bar>clamp (kx_feedback_q1_15 ?k) (- 0x6000) 0x6000\<bar> \<le> 0x6000" by (auto simp: clamp_def)
  then have "i16 (clamp (kx_feedback_q1_15 ?k) (- 0x6000) 0x6000) = clamp (kx_feedback_q1_15 ?k) (- 0x6000) 0x6000"
    by (intro i16_id) (simp add: in_i16_def abs_le_iff)
  then show ?thesis
    using clamped_depth [OF b, of "uint (kx_depth_q16_8 ?k)"] fb config(1,3,4) depth m
    by (simp add: chorus_config_ok_def)
qed

lemma chorus_effective_config_keeps:
  assumes "chorus_effective_config c = (config, c')"
  shows "ch_history c' = ch_history c" "ch_write_ptr c' = ch_write_ptr c" "ch_history_age c' = ch_history_age c"
    "ch_lfo_phase c' = ch_lfo_phase c" "ch_config c' = ch_config c" "kx_enable config = kx_enable (ch_config c)"
    "kx_lfo_phase_inc_q0_32 config = kx_lfo_phase_inc_q0_32 (ch_config c)"
  using assms by (auto simp: chorus_effective_config_def Let_def split: if_splits)

text \<open>The modulated delay stays between one frame and the capacity less two.\<close>

lemma modulation_bounds:
  fixes d s :: int
  assumes "0 \<le> d" and "- 32767 \<le> s" and "s \<le> 32767"
  shows "- d \<le> (d * s) div 2 ^ 15" and "(d * s) div 2 ^ 15 \<le> d"
proof -
  have "d * (- 32768) \<le> d * s" "d * s \<le> d * 32768" using assms by (intro mult_left_mono; simp)+
  then have "(- d * 2 ^ 15) div 2 ^ 15 \<le> (d * s) div 2 ^ 15" "(d * s) div 2 ^ 15 \<le> (d * 2 ^ 15) div 2 ^ 15"
    by (intro zdiv_mono1; simp)+
  then show "- d \<le> (d * s) div 2 ^ 15" "(d * s) div 2 ^ 15 \<le> d" by simp_all
qed

definition spec_delay :: "chorus_config \<Rightarrow> u32 \<Rightarrow> int" where
  "spec_delay config phase =
     uint (kx_base_delay_q16_8 config) + (uint (kx_depth_q16_8 config) * sine_q15 phase) div 2 ^ 15"

lemma chorus_delay_bounds:
  assumes "chorus_config_ok n config" and "n \<le> 2 ^ 24"
  shows "256 \<le> spec_delay config phase" and "spec_delay config phase \<le> 256 * (int n - 2)"
    and "uint (chorus_delay config phase) = spec_delay config phase"
proof -
  let ?d = "uint (kx_depth_q16_8 config)"
  note s = sine_q15_range [of phase]
  have m: "- ?d \<le> (?d * sine_q15 phase) div 2 ^ 15" "(?d * sine_q15 phase) div 2 ^ 15 \<le> ?d"
    using modulation_bounds [of ?d "sine_q15 phase"] s by simp_all
  then show lo: "256 \<le> spec_delay config phase" and hi: "spec_delay config phase \<le> 256 * (int n - 2)"
    using assms(1) unfolding chorus_config_ok_def spec_delay_def by linarith+
  have "spec_delay config phase < 2 ^ 32" using hi assms(2) by simp
  then have "uint (of_int (spec_delay config phase) :: u32) = spec_delay config phase"
    using lo by (simp add: uint_word_of_int)
  then show "uint (chorus_delay config phase) = spec_delay config phase"
    by (simp add: chorus_delay_def spec_delay_def arithmetic_shift_right_eq)
qed

section \<open>Specification: an unbounded past\<close>

text \<open>
  The chorus as signal processing: the frames stored so far, newest first, without end, and the
  phase of the oscillator.
\<close>

definition side :: "bool \<Rightarrow> int \<times> int \<Rightarrow> int" where
  "side right f = (if right then snd f else fst f)"

definition spec_tap :: "(int \<times> int) list \<Rightarrow> bool \<Rightarrow> int \<Rightarrow> int" where
  "spec_tap ws right delay =
     (let newer = side right (delayed (0, 0) ws (nat (delay div 256)));
          older = side right (delayed (0, 0) ws (nat (delay div 256) + 1))
      in newer + ((older - newer) * (delay mod 256)) div 256)"

definition spec_chorus ::
    "chorus_config \<Rightarrow> (int \<times> int) list \<times> u32 \<Rightarrow> int \<times> int \<Rightarrow> (int \<times> int) \<times> (int \<times> int) list \<times> u32" where
  "spec_chorus config s f =
     (let (ws, phase) = s;
          wet_l = spec_tap ws False (spec_delay config phase);
          wet_r = spec_tap ws True (spec_delay config (phase + kx_stereo_phase_offset_q0_32 config));
          stored = (\<lambda>x wet. clamp (scale_q1_15 (signed_mix25 x) (kx_input_send_q1_15 config) +
            (wet * kx_feedback_q1_15 config) div 2 ^ 15) mix25_min mix25_max)
      in (if kx_enable config then (wet_l, wet_r) else (0, 0),
          ((stored (fst f) wet_l, stored (snd f) wet_r) # ws, phase + kx_lfo_phase_inc_q0_32 config)))"

definition chorus_holds :: "chorus \<Rightarrow> (int \<times> int) list \<times> u32 \<Rightarrow> bool" where
  "chorus_holds c s \<longleftrightarrow>
     holds_past (ch_history c) (ch_write_ptr c) (ch_history_age c) (fst s) \<and> ch_lfo_phase c = snd s"

lemma chorus_capacity:
  assumes "chorus_inv c"
  obtains k where "length (ch_history c) = 2 ^ k" and "k < 63"
proof -
  have "0 < length (ch_history c)" "length (ch_history c) AND (length (ch_history c) - 1) = 0"
    using assms unfolding chorus_inv_def by linarith+
  then obtain k where k: "length (ch_history c) = 2 ^ k" using power_of_two_test by blast
  then have "(2 :: nat) ^ k \<le> 2 ^ 24" using assms by (simp add: chorus_inv_def)
  then have "k \<le> 24" by (rule power_le_imp_le_exp [rotated]) simp
  then show ?thesis using that k by simp
qed

lemma chorus_sample_eq:
  assumes "chorus_inv c" and "chorus_holds c (ws, phase)" and "1 \<le> d" and "d \<le> length (ch_history c)"
  shows "chorus_sample c right d = side right (delayed (0, 0) ws d)"
proof -
  let ?n = "length (ch_history c)"
  obtain k where k: "?n = 2 ^ k" "k < 63" using chorus_capacity [OF assms(1)] .
  have "unat ((of_nat (ch_write_ptr c) - of_nat d) AND (of_nat ?n - 1) :: u64) = (ch_write_ptr c + ?n - d) mod ?n"
    unfolding k(1) using k assms(1,4) by (intro mask_index_back) (simp_all add: chorus_inv_def)
  then show ?thesis
    using holds_past_read [of "ch_history c" "ch_write_ptr c" "ch_history_age c" ws d "(0, 0)"] assms
    by (auto simp: chorus_sample_def Let_def chorus_holds_def side_def)
qed

lemma low_byte: "uint (w AND 0xff :: u32) = uint w mod 256"
proof -
  have "w AND 0xff = take_bit 8 w" by (simp add: take_bit_eq_mask mask_eq_exp_minus_1)
  then show ?thesis by (simp only: unsigned_take_bit_eq) (simp add: take_bit_eq_mod)
qed

lemma high_bytes: "unat (drop_bit 8 w :: u32) = nat (uint w div 256)"
proof -
  have "unat (drop_bit 8 w) = unat w div 256" unfolding unat_drop_bit_eq by (simp add: drop_bit_eq_div)
  then show ?thesis by (simp add: nat_div_distrib)
qed

text \<open>Interpolation stays between its two samples.\<close>

lemma interpolation_bounds:
  fixes a b f :: int
  assumes "lo \<le> a" "a \<le> hi" "lo \<le> b" "b \<le> hi" "0 \<le> f" "f < 256"
  shows "lo \<le> a + ((b - a) * f) div 256" and "a + ((b - a) * f) div 256 \<le> hi"
  using scaled_div_bounds [of f 8 "min (b - a) 0" "b - a" "max (b - a) 0"] assms by auto

lemma mix_frames_read:
  assumes "mix_frames ws" and "1 \<le> d"
  shows "in_mix25 (side right (delayed (0, 0) ws d))"
  using delayed_in [OF assms(2), of "(0, 0)" ws] assms(1) by (auto simp: mix_frames_def list_all_iff side_def)

lemma spec_tap_mix25:
  assumes "mix_frames ws" and "256 \<le> delay"
  shows "in_mix25 (spec_tap ws right delay)"
proof -
  have "1 \<le> delay div 256" using zdiv_mono1 [OF assms(2), of 256] by simp
  then have "1 \<le> nat (delay div 256)" by simp
  then show ?thesis
    using mix_frames_read [OF assms(1), of "nat (delay div 256)" right]
      mix_frames_read [OF assms(1), of "nat (delay div 256) + 1" right]
      interpolation_bounds [of mix25_min _ mix25_max _ "delay mod 256"]
    by (simp add: spec_tap_def Let_def in_mix25_def)
qed

lemma tap_eq:
  assumes "chorus_inv c" and "chorus_holds c (ws, phase)" and "mix_frames ws"
    and "256 \<le> uint delay" and "uint delay \<le> 256 * (int (length (ch_history c)) - 2)"
  shows "tap delay right c = spec_tap ws right (uint delay)"
proof -
  let ?n = "length (ch_history c)" and ?d = "nat (uint delay div 256)"
  have q: "1 \<le> uint delay div 256" "uint delay div 256 \<le> int ?n - 2"
    using zdiv_mono1 [OF assms(4), of 256] zdiv_mono1 [OF assms(5), of 256] by simp_all
  then have d: "1 \<le> ?d" "?d + 1 \<le> ?n" by linarith+
  have in_range: "in_i32 (spec_tap ws right (uint delay))"
    using spec_tap_mix25 [OF assms(3,4), of right] by (simp add: mix25_defs in_i32_def)
  have "tap delay right c = i32 (spec_tap ws right (uint delay))"
    using chorus_sample_eq [OF assms(1,2), of ?d right] chorus_sample_eq [OF assms(1,2), of "?d + 1" right] d
    by (simp add: tap_def spec_tap_def Let_def high_bytes low_byte arithmetic_shift_right_eq)
  then show ?thesis using in_range by (simp add: i32_id)
qed

lemma chorus_input_scaled:
  assumes "kx_input_send_q1_15 config \<le> 0x7fff"
  shows "input_scaled config x = scale_q1_15 x (kx_input_send_q1_15 config)"
  using assms by (auto simp: input_scaled_def scale_q1_15_def)

text \<open>One frame of the code is one frame of the specification.\<close>

lemma chorus_process_spec:
  assumes "chorus_inv c" and "chorus_holds c s" and "mix_frames (fst s)"
  defines "config \<equiv> fst (chorus_effective_config c)"
  shows "fst (chorus_process l r c) = fst (spec_chorus config s (l, r))"
    and "chorus_holds (snd (chorus_process l r c)) (snd (spec_chorus config s (l, r)))"
    and "mix_frames (fst (snd (spec_chorus config s (l, r))))"
    and "chorus_inv (snd (chorus_process l r c))"
    and "ch_config (snd (chorus_process l r c)) = ch_config c"
    and "length (ch_history (snd (chorus_process l r c))) = length (ch_history c)"
proof -
  obtain ws phase where s: "s = (ws, phase)" by (cases s)
  obtain c1 where c1: "chorus_effective_config c = (config, c1)" unfolding config_def by (cases "chorus_effective_config c") simp
  note kept = chorus_effective_config_keeps [OF c1]
  have inv1: "chorus_inv c1" using assms(1) kept by (simp add: chorus_inv_def)
  have holds1: "chorus_holds c1 (ws, phase)" using assms(2) kept s by (simp add: chorus_holds_def)
  have ws: "mix_frames ws" using assms(3) s by simp
  let ?n = "length (ch_history c)"
  have n: "?n \<le> 2 ^ 24" using assms(1) by (simp add: chorus_inv_def)
  have ok: "chorus_config_ok ?n config" using chorus_effective_config_ok [OF assms(1) c1] .
  have tap: "tap (chorus_delay config ph) right c1 = spec_tap ws right (spec_delay config ph)" for ph right
    using tap_eq [OF inv1 holds1 ws, of "chorus_delay config ph" right] chorus_delay_bounds [OF ok n, of ph] kept(1) by simp
  have wp: "unat ((of_nat (ch_write_ptr c) + 1) AND (of_nat ?n - 1) :: u64) = (ch_write_ptr c + 1) mod ?n"
  proof -
    obtain k where k: "?n = 2 ^ k" "k < 63" using chorus_capacity [OF assms(1)] .
    have "ch_write_ptr c + 1 < 2 ^ 64" using assms(1) by (simp add: chorus_inv_def)
    then have "unat (of_nat (ch_write_ptr c + 1) :: u64) = ch_write_ptr c + 1" by (simp only: unat_of_nat) simp
    then show ?thesis using mask_index [of k "of_nat (ch_write_ptr c + 1)"] k by (simp add: ac_simps)
  qed
  let ?wl = "spec_tap ws False (spec_delay config phase)"
  let ?wr = "spec_tap ws True (spec_delay config (phase + kx_stereo_phase_offset_q0_32 config))"
  let ?st = "\<lambda>x wet. scale_q1_15 (signed_mix25 x) (kx_input_send_q1_15 config) + (wet * kx_feedback_q1_15 config) div 2 ^ 15"
  let ?pair = "(fst (saturate_mix25 (?st l ?wl)), fst (saturate_mix25 (?st r ?wr)))"
  have phase: "ch_lfo_phase c = phase" using assms(2) s by (simp add: chorus_holds_def)
  have send: "kx_input_send_q1_15 config \<le> 0x7fff" using ok by (simp add: chorus_config_ok_def)
  have process: "fst (chorus_process l r c) = (if kx_enable config then (?wl, ?wr) else (0, 0))"
    "ch_history (snd (chorus_process l r c)) = (ch_history c)[ch_write_ptr c := ?pair]"
    "ch_write_ptr (snd (chorus_process l r c)) = (ch_write_ptr c + 1) mod ?n"
    "ch_history_age (snd (chorus_process l r c)) = min (ch_history_age c + 1) ?n"
    "ch_lfo_phase (snd (chorus_process l r c)) = phase + kx_lfo_phase_inc_q0_32 config"
    "ch_config (snd (chorus_process l r c)) = ch_config c"
    by (simp_all add: chorus_process_def c1 Let_def case_prod_beta tap kept wp phase
        chorus_input_scaled [OF send] arithmetic_shift_right_eq [where bits = 15])
  have spec: "spec_chorus config s (l, r) =
      (if kx_enable config then (?wl, ?wr) else (0, 0), (?pair # ws, phase + kx_lfo_phase_inc_q0_32 config))"
    by (simp add: spec_chorus_def s Let_def saturate_mix25_value)
  show "fst (chorus_process l r c) = fst (spec_chorus config s (l, r))" by (simp add: process spec)
  have "holds_past (ch_history c) (ch_write_ptr c) (ch_history_age c) ws" using holds1 kept by (simp add: chorus_holds_def)
  then show "chorus_holds (snd (chorus_process l r c)) (snd (spec_chorus config s (l, r)))"
    using holds_past_push [of "ch_history c" "ch_write_ptr c" "ch_history_age c" ws ?pair]
    by (simp add: chorus_holds_def process spec)
  show "mix_frames (fst (snd (spec_chorus config s (l, r))))" using ws by (simp add: spec mix_frames_def)
  have "mix_frames ((ch_history c)[ch_write_ptr c := ?pair])"
    using assms(1) by (auto simp: chorus_inv_def mix_frames_def list_all_iff dest!: set_update_subset_insert [THEN subsetD])
  moreover have "0 < ?n" using assms(1) by (auto simp: chorus_inv_def)
  ultimately show "chorus_inv (snd (chorus_process l r c))"
    using assms(1) by (simp add: chorus_inv_def process)
  show "ch_config (snd (chorus_process l r c)) = ch_config c" by (rule process)
  show "length (ch_history (snd (chorus_process l r c))) = ?n" by (simp add: process)
qed

section \<open>Streams\<close>

fun chorus_run :: "(int \<times> int) list \<Rightarrow> chorus \<Rightarrow> (int \<times> int) list \<times> chorus" where
  "chorus_run [] c = ([], c)"
| "chorus_run (f # fs) c =
     (let (out, c1) = chorus_process (fst f) (snd f) c; (outs, c2) = chorus_run fs c1 in (out # outs, c2))"

fun spec_chorus_run :: "chorus_config \<Rightarrow> (int \<times> int) list \<times> u32 \<Rightarrow> (int \<times> int) list \<Rightarrow> (int \<times> int) list" where
  "spec_chorus_run config s [] = []"
| "spec_chorus_run config s (f # fs) =
     (let (out, s1) = spec_chorus config s f in out # spec_chorus_run config s1 fs)"

inductive reachable_chorus :: "chorus \<Rightarrow> bool" where
  new: "chorus_new n = Inr c \<Longrightarrow> n \<le> 2 ^ 24 \<Longrightarrow> reachable_chorus c"
| reset: "reachable_chorus c \<Longrightarrow> reachable_chorus (chorus_reset c)"
| clear: "reachable_chorus c \<Longrightarrow> reachable_chorus (chorus_clear c)"
| configured: "reachable_chorus c \<Longrightarrow> reachable_chorus (chorus_set_config config c)"
| frame: "reachable_chorus c \<Longrightarrow> reachable_chorus (snd (chorus_process l r c))"

lemma chorus_inv_simps [simp]:
  "chorus_inv c \<Longrightarrow> chorus_inv (chorus_reset c)" "chorus_inv c \<Longrightarrow> chorus_inv (chorus_clear c)"
  "chorus_inv (chorus_set_config config c) = chorus_inv c"
  by (auto simp: chorus_inv_def chorus_reset_def chorus_clear_def chorus_set_config_def)

lemma chorus_new_inv: "chorus_new n = Inr c \<Longrightarrow> n \<le> 2 ^ 24 \<Longrightarrow> chorus_inv c \<and> length (ch_history c) = n"
  by (auto simp: chorus_new_def chorus_reset_def chorus_inv_def mix_frames_def list_all_iff split: if_splits)

text \<open>Every state of a chorus holds some past: the ring is always a window on a list of frames.\<close>

lemma chorus_inv_holds:
  assumes "chorus_inv c"
  shows "chorus_holds c (ring_past (ch_history c) (ch_write_ptr c) (ch_history_age c), ch_lfo_phase c)"
    and "mix_frames (ring_past (ch_history c) (ch_write_ptr c) (ch_history_age c))"
proof -
  show "chorus_holds c (ring_past (ch_history c) (ch_write_ptr c) (ch_history_age c), ch_lfo_phase c)"
    using assms by (simp add: chorus_holds_def holds_past_def chorus_inv_def)
  have "0 < length (ch_history c)" using assms by (auto simp: chorus_inv_def)
  then show "mix_frames (ring_past (ch_history c) (ch_write_ptr c) (ch_history_age c))"
    using assms by (auto simp: chorus_inv_def mix_frames_def list_all_iff ring_past_def)
qed

lemma chorus_process_inv: "chorus_inv c \<Longrightarrow> chorus_inv (snd (chorus_process l r c))"
  using chorus_process_spec(4) chorus_inv_holds by (metis fst_conv)

lemma chorus_process_mix25:
  assumes "chorus_inv c"
  shows "in_mix25 (fst (fst (chorus_process l r c)))" "in_mix25 (snd (fst (chorus_process l r c)))"
proof -
  let ?ws = "ring_past (ch_history c) (ch_write_ptr c) (ch_history_age c)"
  obtain config c1 where c1: "chorus_effective_config c = (config, c1)" by fastforce
  have "chorus_config_ok (length (ch_history c)) config" "length (ch_history c) \<le> 2 ^ 24"
    using chorus_effective_config_ok [OF assms c1] assms by (simp_all add: chorus_inv_def)
  then have "in_mix25 (spec_tap ?ws right (spec_delay config ph))" for right ph
    using chorus_delay_bounds(1) spec_tap_mix25 [OF chorus_inv_holds(2) [OF assms]] by blast
  then have "in_mix25 (fst (fst (spec_chorus config (?ws, ch_lfo_phase c) (l, r))))"
    "in_mix25 (snd (fst (spec_chorus config (?ws, ch_lfo_phase c) (l, r))))"
    by (simp_all add: spec_chorus_def Let_def)
  then show "in_mix25 (fst (fst (chorus_process l r c)))" "in_mix25 (snd (fst (chorus_process l r c)))"
    using chorus_process_spec(1) [OF assms chorus_inv_holds(1) [OF assms]] chorus_inv_holds(2) [OF assms] c1 by simp_all
qed

lemma reachable_chorus_inv: "reachable_chorus c \<Longrightarrow> chorus_inv c"
  by (induction rule: reachable_chorus.induct) (auto simp: chorus_process_inv dest: chorus_new_inv)

lemma effective_config_cong:
  "ch_config c = ch_config d \<Longrightarrow> length (ch_history c) = length (ch_history d) \<Longrightarrow>
     fst (chorus_effective_config c) = fst (chorus_effective_config d)"
  by (simp add: chorus_effective_config_def Let_def)

lemma chorus_run_spec:
  assumes "chorus_inv c" and "chorus_holds c s" and "mix_frames (fst s)"
  shows "fst (chorus_run fs c) = spec_chorus_run (fst (chorus_effective_config c)) s fs"
  using assms
proof (induction fs arbitrary: c s)
  case Nil
  then show ?case by simp
next
  case (Cons f fs)
  note step = chorus_process_spec [OF Cons.prems, of "fst f" "snd f"]
  have "fst (chorus_effective_config (snd (chorus_process (fst f) (snd f) c))) = fst (chorus_effective_config c)"
    using step(5,6) by (rule effective_config_cong)
  then show ?case
    using Cons.IH [OF step(4,2,3)] step(1) by (simp add: Let_def case_prod_beta)
qed

text \<open>C13: The chorus is the delay effect it stands for, and clearing it forgets everything. In every
  reachable state, after \<open>clear()\<close> the frames returned for any input are those of the
  specification that starts with an empty past and phase zero: two interpolated taps at the
  oscillator's delays of the unbounded list of stored frames, silence before its beginning.
  Nothing stored before the clear is ever heard, although the ring buffer keeps it.\<close>

theorem cleared_chorus_implements_delay:
  assumes "reachable_chorus c"
  shows "fst (chorus_run fs (chorus_clear c)) = spec_chorus_run (fst (chorus_effective_config c)) ([], 0) fs"
proof -
  have inv: "chorus_inv c" using assms by (rule reachable_chorus_inv)
  have "ch_history c \<noteq> []" using inv by (auto simp: chorus_inv_def)
  then have "chorus_holds (chorus_clear c) ([], 0)"
    by (simp add: chorus_holds_def chorus_clear_def holds_past_new)
  moreover have "fst (chorus_effective_config (chorus_clear c)) = fst (chorus_effective_config c)"
    by (rule effective_config_cong) (simp_all add: chorus_clear_def)
  ultimately show ?thesis using chorus_run_spec [of "chorus_clear c" "([], 0)" fs] inv by (simp add: mix_frames_def)
qed

text \<open>The witness: a four-frame chorus with a fixed delay of one and a half frames, after a noisy past.\<close>

definition demo_chorus :: chorus where
  "demo_chorus = snd (chorus_process 9000 (- 9000) (chorus_set_config
     (default_chorus_config\<lparr> kx_enable := True, kx_base_delay_q16_8 := 0x180, kx_depth_q16_8 := 0 \<rparr>)
     (chorus_reset \<lparr> ch_history = replicate 4 (0, 0), ch_write_ptr = 0, ch_history_age = 0,
          ch_lfo_phase = 0, ch_config = default_chorus_config, ch_config_clamped = False,
          ch_saturation_count = 0 \<rparr>)))"

lemma demo_chorus_reachable: "reachable_chorus demo_chorus"
  unfolding demo_chorus_def
proof (intro reachable_chorus.frame reachable_chorus.configured, rule reachable_chorus.new [where n = 4])
  show "(4 :: nat) \<le> 2 ^ 24" by simp
qed code_simp

theorem cleared_chorus_implements_delay_witness:
  "fst (chorus_run [(100, -100), (200, 0), (0, 0)] (chorus_clear demo_chorus)) = [(0, 0), (50, -50), (150, -50)]"
proof -
  have "spec_chorus_run (fst (chorus_effective_config demo_chorus)) ([], 0) [(100, -100), (200, 0), (0, 0)] =
      [(0, 0), (50, -50), (150, -50)]" by code_simp
  then show ?thesis
    using cleared_chorus_implements_delay [OF demo_chorus_reachable, of "[(100, -100), (200, 0), (0, 0)]"] by simp
qed

end
