(* ===== verification/Fdn_Reverb.thy ===== *)
theory Fdn_Reverb
  imports Stereo_Chorus
begin

text \<open>
  The feedback delay network of \<open>src/sim/harness/render/fdn_reverb_model.{h,cpp}\<close>: a pre-delay,
  eight delay lines with a damping filter each, mixed by an eight-point Hadamard butterfly and
  fed back through per-line gains. The lemmas give the butterfly its matrix, show that the
  clamped feedback never gains energy, and that the rings implement unbounded delay lines.
\<close>

section \<open>State\<close>

record reverb_config =
  kv_enable :: bool
  kv_input_send_q1_15 :: u16
  kv_return_gain_q1_15 :: u16
  kv_damping_q1_15 :: u16
  kv_chorus_to_reverb_q1_15 :: u16
  kv_pre_delay_frames :: u16
  kv_feedback_gain_q1_15 :: "u16 list"

definition default_reverb_config :: reverb_config where
  "default_reverb_config =
     \<lparr> kv_enable = False, kv_input_send_q1_15 = 0x7fff, kv_return_gain_q1_15 = 0,
       kv_damping_q1_15 = 0, kv_chorus_to_reverb_q1_15 = 0, kv_pre_delay_frames = 0,
       kv_feedback_gain_q1_15 = replicate 8 0 \<rparr>"

record fdn =
  fd_lines :: "int list list"
  fd_pointers :: "nat list"
  fd_ages :: "nat list"
  fd_damping_state :: "int list"
  fd_pre_delay :: "(int \<times> int) list"
  fd_pre_delay_ptr :: nat
  fd_pre_delay_age :: nat
  fd_config :: reverb_config
  fd_config_clamped :: bool
  fd_saturation_count :: u32

definition kReverbFeedbackLimitQ1_15 :: u16 where
  "kReverbFeedbackLimitQ1_15 = 0x2d41"

definition kStateDeadband :: int where
  "kStateDeadband = 32"

definition fdn_reset :: "fdn \<Rightarrow> fdn" where
  "fdn_reset r =
     r\<lparr> fd_pointers := replicate 8 0, fd_ages := replicate 8 0, fd_damping_state := replicate 8 0,
        fd_pre_delay_ptr := 0, fd_pre_delay_age := 0, fd_config := default_reverb_config,
        fd_config_clamped := False, fd_saturation_count := 0 \<rparr>"

definition fdn_clear :: "fdn \<Rightarrow> fdn" where
  "fdn_clear r =
     r\<lparr> fd_pointers := replicate 8 0, fd_ages := replicate 8 0, fd_damping_state := replicate 8 0,
        fd_pre_delay_ptr := 0, fd_pre_delay_age := 0,
        fd_config_clamped := False, fd_saturation_count := 0 \<rparr>"

definition fdn_new :: "nat list \<Rightarrow> nat \<Rightarrow> error + fdn" where
  "fdn_new line_lengths pre_delay_capacity =
     (let lengths = (if line_lengths = [] then kFdnDelayLengths else line_lengths)
      in if length lengths \<noteq> 8 \<or> pre_delay_capacity < 1
         then Inl (InvalidArgument ''FDN requires eight nonempty lines and pre-delay storage'')
         else if list_ex (\<lambda>n. n = 0) lengths
         then Inl (InvalidArgument ''FDN line length must be positive'')
         else Inr (fdn_reset
           \<lparr> fd_lines = map (\<lambda>n. replicate n 0) lengths, fd_pointers = replicate 8 0, fd_ages = replicate 8 0,
             fd_damping_state = replicate 8 0, fd_pre_delay = replicate pre_delay_capacity (0, 0),
             fd_pre_delay_ptr = 0, fd_pre_delay_age = 0, fd_config = default_reverb_config,
             fd_config_clamped = False, fd_saturation_count = 0 \<rparr>))"

definition fdn_set_config :: "reverb_config \<Rightarrow> fdn \<Rightarrow> fdn" where
  "fdn_set_config config r = r\<lparr> fd_config := config \<rparr>"

definition valid_line_mask :: "fdn \<Rightarrow> u8" where
  "valid_line_mask r =
     foldl (\<lambda>m line. if fd_ages r ! line = length (fd_lines r ! line) then m OR push_bit line 1 else m) 0 [0..<8]"

section \<open>Arithmetic\<close>

definition symmetric_round_shift_15 :: "int \<Rightarrow> int" where
  "symmetric_round_shift_15 v =
     (if v \<ge> 0 then (v + 2 ^ 14) div 2 ^ 15 else - ((- v + 2 ^ 14) div 2 ^ 15))"

definition apply_state_deadband :: "int \<Rightarrow> int" where
  "apply_state_deadband v = (if v \<ge> - kStateDeadband \<and> v \<le> kStateDeadband then 0 else v)"

text \<open>The three passes of the butterfly.\<close>

definition hadamard_pairs :: "int list \<Rightarrow> int list" where
  "hadamard_pairs x = concat (map (\<lambda>i. [x ! i + x ! (i + 1), x ! i - x ! (i + 1)]) [0, 2, 4, 6])"

definition hadamard_quads :: "int list \<Rightarrow> int list" where
  "hadamard_quads a =
     concat (map (\<lambda>k. [a ! k + a ! (k + 2), a ! (k + 1) + a ! (k + 3), a ! k - a ! (k + 2), a ! (k + 1) - a ! (k + 3)])
       [0, 4])"

definition hadamard :: "int list \<Rightarrow> int list" where
  "hadamard x =
     (let b = hadamard_quads (hadamard_pairs x)
      in map (\<lambda>i. b ! i + b ! (i + 4)) [0..<4] @ map (\<lambda>i. b ! i - b ! (i + 4)) [0..<4])"

definition fdn_effective_config :: "fdn \<Rightarrow> reverb_config \<times> fdn" where
  "fdn_effective_config r =
     (let config = fd_config r;
          damping = min (kv_damping_q1_15 config) 0x7fff;
          pre_delay = of_nat (min (unat (kv_pre_delay_frames config)) (length (fd_pre_delay r) - 1)) :: u16;
          gains = map (\<lambda>gain. min gain kReverbFeedbackLimitQ1_15) (kv_feedback_gain_q1_15 config)
      in (config\<lparr> kv_damping_q1_15 := damping, kv_pre_delay_frames := pre_delay, kv_feedback_gain_q1_15 := gains \<rparr>,
          if kv_damping_q1_15 config \<noteq> damping \<or> kv_pre_delay_frames config \<noteq> pre_delay \<or>
             gains \<noteq> kv_feedback_gain_q1_15 config
          then r\<lparr> fd_config_clamped := True \<rparr> else r))"

section \<open>Processing a frame\<close>

definition pre_delayed :: "reverb_config \<Rightarrow> int \<times> int \<Rightarrow> fdn \<Rightarrow> int \<times> int" where
  "pre_delayed config f r =
     (if kv_pre_delay_frames config \<noteq> 0 then
        (let distance = unat (kv_pre_delay_frames config)
         in if distance \<le> fd_pre_delay_age r
            then fd_pre_delay r ! ((fd_pre_delay_ptr r + length (fd_pre_delay r) - distance) mod length (fd_pre_delay r))
            else (0, 0))
      else f)"

definition damped_line :: "reverb_config \<Rightarrow> fdn \<Rightarrow> nat \<Rightarrow> int" where
  "damped_line config r line =
     (let rd = (if fd_ages r ! line < length (fd_lines r ! line) then 0
                else fd_lines r ! line ! (fd_pointers r ! line))
      in apply_state_deadband (i32 (rd +
           symmetric_round_shift_15 ((fd_damping_state r ! line - rd) * uint (kv_damping_q1_15 config)))))"

definition line_input :: "reverb_config \<Rightarrow> int \<times> int \<Rightarrow> int list \<Rightarrow> nat \<Rightarrow> int" where
  "line_input config inp transformed line =
     arithmetic_shift_right (fst inp + (if line AND 1 \<noteq> 0 then - snd inp else snd inp)) 1 +
     symmetric_round_shift_15 (transformed ! line * uint (kv_feedback_gain_q1_15 config ! line))"

definition write_line :: "reverb_config \<Rightarrow> int \<times> int \<Rightarrow> int list \<Rightarrow> nat \<Rightarrow> fdn \<Rightarrow> fdn" where
  "write_line config inp transformed line r =
     (let (stored, saturated) = saturate_mix25 (line_input config inp transformed line);
          size = length (fd_lines r ! line)
      in r\<lparr> fd_lines := (fd_lines r)[line := (fd_lines r ! line)[fd_pointers r ! line := apply_state_deadband stored]],
            fd_saturation_count := sat_inc (fd_saturation_count r) (if saturated then 1 else 0),
            fd_pointers := (fd_pointers r)[line := (fd_pointers r ! line + 1) mod size],
            fd_ages := (fd_ages r)[line := min (fd_ages r ! line + 1) size] \<rparr>)"

definition sign_l :: "nat \<Rightarrow> int" where
  "sign_l line = (if odd (line div 2) then - 1 else 1)"

definition sign_r :: "nat \<Rightarrow> int" where
  "sign_r line = (if line = 1 \<or> line = 2 \<or> line = 5 \<or> line = 6 then - 1 else 1)"

definition fdn_process :: "int \<Rightarrow> int \<Rightarrow> fdn \<Rightarrow> (int \<times> int) \<times> fdn" where
  "fdn_process left_in right_in r0 =
     (let (config, r) = fdn_effective_config r0;
          f = (signed_mix25 left_in, signed_mix25 right_in);
          inp = pre_delayed config f r;
          damped = map (damped_line config r) [0..<8];
          r1 = r\<lparr> fd_pre_delay := (fd_pre_delay r)[fd_pre_delay_ptr r := f],
                  fd_pre_delay_ptr := (fd_pre_delay_ptr r + 1) mod length (fd_pre_delay r),
                  fd_pre_delay_age := min (fd_pre_delay_age r + 1) (length (fd_pre_delay r)),
                  fd_damping_state := damped \<rparr>;
          r2 = fold (write_line config inp (hadamard damped)) [0..<8] r1;
          wet_l = (\<Sum>line\<leftarrow>[0..<8]. sign_l line * damped ! line);
          wet_r = (\<Sum>line\<leftarrow>[0..<8]. sign_r line * damped ! line)
      in (if kv_enable config
          then (fst (saturate_mix25 (arithmetic_shift_right wet_l 3)), fst (saturate_mix25 (arithmetic_shift_right wet_r 3)))
          else (0, 0), r2))"

section \<open>The butterfly is the Walsh matrix\<close>

text \<open>The sign of entry \<open>(i, j)\<close>: the parity of the bits \<open>i\<close> and \<open>j\<close> share.\<close>

definition walsh :: "nat \<Rightarrow> nat \<Rightarrow> int" where
  "walsh i j = (if odd (i mod 2 * (j mod 2) + i div 2 mod 2 * (j div 2 mod 2) + i div 4 mod 2 * (j div 4 mod 2)) then - 1 else 1)"

lemma length_hadamard [simp]: "length (hadamard x) = 8"
  by (simp add: hadamard_def Let_def)

lemma eight: "length x = 8 \<Longrightarrow> \<exists>a b c d e f g h. x = [a, b, c, d, e, f, g, h]"
  by (auto simp: length_Suc_conv eval_nat_numeral)

lemma hadamard_explicit:
  "hadamard [a, b, c, d, e, f, g, h] =
    [a + b + (c + d) + (e + f + (g + h)), a - b + (c - d) + (e - f + (g - h)),
     a + b - (c + d) + (e + f - (g + h)), a - b - (c - d) + (e - f - (g - h)),
     a + b + (c + d) - (e + f + (g + h)), a - b + (c - d) - (e - f + (g - h)),
     a + b - (c + d) - (e + f - (g + h)), a - b - (c - d) - (e - f - (g - h))]"
  by (simp add: hadamard_def hadamard_quads_def hadamard_pairs_def Let_def eval_nat_numeral upt_rec)

lemma upt_8: "[0..<8] = [0, 1, 2, 3, 4, 5, 6, 7 :: nat]"
  by (simp add: upt_rec)

lemma hadamard_matrix:
  assumes "length x = 8"
  shows "hadamard x = map (\<lambda>i. \<Sum>j\<leftarrow>[0..<8]. walsh i j * x ! j) [0..<8]"
proof -
  obtain a b c d e f g h where x: "x = [a, b, c, d, e, f, g, h]" using eight [OF assms] by blast
  show ?thesis by (simp add: x hadamard_explicit upt_8 walsh_def algebra_simps)
qed

definition energy :: "int list \<Rightarrow> int" where
  "energy x = (\<Sum>v\<leftarrow>x. v ^ 2)"

lemma hadamard_energy:
  assumes "length x = 8"
  shows "energy (hadamard x) = 8 * energy x"
proof -
  obtain a b c d e f g h where x: "x = [a, b, c, d, e, f, g, h]" using eight [OF assms] by blast
  show ?thesis by (simp add: x hadamard_explicit energy_def power2_eq_square algebra_simps)
qed

text \<open>A gain of at most \<open>0x2d41\<close> (just below \<open>1 / sqrt 8\<close>) undoes the energy the butterfly adds.\<close>

lemma weighted_energy:
  assumes "length gs = length ts" and "list_all (\<lambda>g. 0 \<le> g \<and> g \<le> G) (gs :: int list)"
  shows "energy (map2 (*) ts gs) \<le> G ^ 2 * energy ts"
  using assms
proof (induction ts gs rule: list_induct2')
  case (4 t ts g gs)
  have "g ^ 2 \<le> G ^ 2" using 4 by (intro power_mono) simp_all
  then have "(t * g) ^ 2 \<le> G ^ 2 * t ^ 2" by (simp add: power_mult_distrib mult.commute mult_right_mono)
  then show ?case using 4 by (simp add: energy_def distrib_left)
qed (simp_all add: energy_def)

lemma energy_nonneg: "0 \<le> energy x"
  by (auto simp: energy_def intro!: sum_list_nonneg)

lemma gain_limit: "list_all (\<lambda>g. 0 \<le> g \<and> g \<le> 11585) (map uint (kv_feedback_gain_q1_15 (fst (fdn_effective_config r))))"
  by (auto simp: fdn_effective_config_def Let_def list_all_iff kReverbFeedbackLimitQ1_15_def min_word)

lemma symmetric_round_bounds:
  assumes "0 \<le> d" and "d \<le> 32768"
  shows "min v 0 \<le> symmetric_round_shift_15 (v * d)" and "symmetric_round_shift_15 (v * d) \<le> max v 0"
proof -
  have up: "0 \<le> (x * d + 2 ^ 14) div 2 ^ 15" "(x * d + 2 ^ 14) div 2 ^ 15 \<le> x" if "0 \<le> x" for x :: int
  proof -
    have "x * d \<le> x * 32768" using assms that by (intro mult_left_mono)
    then have "(x * d + 2 ^ 14) div 2 ^ 15 \<le> (2 ^ 14 + x * 2 ^ 15) div 2 ^ 15" by (intro zdiv_mono1) simp_all
    also have "\<dots> = x + 2 ^ 14 div 2 ^ 15" by (rule div_mult_self1) simp
    finally show "(x * d + 2 ^ 14) div 2 ^ 15 \<le> x" by simp
    show "0 \<le> (x * d + 2 ^ 14) div 2 ^ 15" using assms that by (simp add: pos_imp_zdiv_nonneg_iff)
  qed
  have "min v 0 \<le> symmetric_round_shift_15 (v * d) \<and> symmetric_round_shift_15 (v * d) \<le> max v 0"
  proof (cases "0 \<le> v")
    case True
    then have "0 \<le> v * d" using assms by simp
    then show ?thesis using up [OF True] True by (simp add: symmetric_round_shift_15_def)
  next
    case False
    show ?thesis
    proof (cases "v * d = 0")
      case True
      then have "symmetric_round_shift_15 (v * d) = 0" by (simp only:) (simp add: symmetric_round_shift_15_def)
      then show ?thesis by simp
    next
      case nz: False
      then have "v * d < 0" using False assms by (simp add: mult_less_0_iff)
      then show ?thesis using up [of "- v"] False by (simp add: symmetric_round_shift_15_def)
    qed
  qed
  then show "min v 0 \<le> symmetric_round_shift_15 (v * d)" "symmetric_round_shift_15 (v * d) \<le> max v 0" by blast+
qed

lemma deadband_mix25: "in_mix25 v \<Longrightarrow> in_mix25 (apply_state_deadband v)"
  by (simp add: apply_state_deadband_def)

section \<open>Specification: unbounded delay lines\<close>

record spec_reverb =
  sr_pre :: "(int \<times> int) list"
  sr_lines :: "int list list"
  sr_damping :: "int list"

definition spec_damped :: "nat list \<Rightarrow> reverb_config \<Rightarrow> spec_reverb \<Rightarrow> int list" where
  "spec_damped lens config s =
     map (\<lambda>i. let rd = delayed 0 (sr_lines s ! i) (lens ! i)
       in apply_state_deadband (rd + symmetric_round_shift_15 ((sr_damping s ! i - rd) * uint (kv_damping_q1_15 config))))
       [0..<8]"

definition spec_input :: "reverb_config \<Rightarrow> int \<times> int \<Rightarrow> spec_reverb \<Rightarrow> int \<times> int" where
  "spec_input config f s =
     (if kv_pre_delay_frames config = 0 then f else delayed (0, 0) (sr_pre s) (unat (kv_pre_delay_frames config)))"

definition spec_fdn ::
    "nat list \<Rightarrow> reverb_config \<Rightarrow> spec_reverb \<Rightarrow> int \<times> int \<Rightarrow> (int \<times> int) \<times> spec_reverb" where
  "spec_fdn lens config s f =
     (let fr = (signed_mix25 (fst f), signed_mix25 (snd f));
          inp = spec_input config fr s;
          damped = spec_damped lens config s;
          stored = (\<lambda>i. apply_state_deadband (clamp ((fst inp + (if odd i then - snd inp else snd inp)) div 2 +
            symmetric_round_shift_15 ((\<Sum>j\<leftarrow>[0..<8]. walsh i j * damped ! j) * uint (kv_feedback_gain_q1_15 config ! i)))
              mix25_min mix25_max));
          wet = (\<lambda>sign. clamp ((\<Sum>i\<leftarrow>[0..<8]. sign i * damped ! i) div 8) mix25_min mix25_max)
      in (if kv_enable config then (wet sign_l, wet sign_r) else (0, 0),
          \<lparr> sr_pre = fr # sr_pre s, sr_lines = map (\<lambda>i. stored i # sr_lines s ! i) [0..<8], sr_damping = damped \<rparr>))"

definition fdn_inv :: "fdn \<Rightarrow> bool" where
  "fdn_inv r \<longleftrightarrow>
     length (fd_lines r) = 8 \<and> length (fd_pointers r) = 8 \<and> length (fd_ages r) = 8 \<and>
     length (fd_damping_state r) = 8 \<and> list_all in_mix25 (fd_damping_state r) \<and>
     (\<forall>i<8. fd_pointers r ! i < length (fd_lines r ! i) \<and> fd_ages r ! i \<le> length (fd_lines r ! i) \<and>
        list_all in_mix25 (fd_lines r ! i)) \<and>
     fd_pre_delay_ptr r < length (fd_pre_delay r) \<and> fd_pre_delay_age r \<le> length (fd_pre_delay r) \<and>
     mix_frames (fd_pre_delay r)"

definition fdn_holds :: "fdn \<Rightarrow> spec_reverb \<Rightarrow> bool" where
  "fdn_holds r s \<longleftrightarrow>
     holds_past (fd_pre_delay r) (fd_pre_delay_ptr r) (fd_pre_delay_age r) (sr_pre s) \<and>
     (\<forall>i<8. holds_past (fd_lines r ! i) (fd_pointers r ! i) (fd_ages r ! i) (sr_lines s ! i)) \<and>
     fd_damping_state r = sr_damping s"

definition line_lengths :: "fdn \<Rightarrow> nat list" where
  "line_lengths r = map length (fd_lines r)"

text \<open>The loop that writes the lines touches each line once.\<close>

definition line_value :: "reverb_config \<Rightarrow> int \<times> int \<Rightarrow> int list \<Rightarrow> nat \<Rightarrow> int" where
  "line_value config inp tr i = apply_state_deadband (fst (saturate_mix25 (line_input config inp tr i)))"

lemma write_lines_fold:
  fixes r :: fdn and config :: reverb_config and inp :: "int \<times> int" and tr :: "int list" and k :: nat
  assumes "length (fd_lines r) = 8" "length (fd_pointers r) = 8" "length (fd_ages r) = 8" and "k \<le> 8"
  defines "r' \<equiv> fold (write_line config inp tr) [0..<k] r"
  shows "length (fd_lines r') = 8 \<and> length (fd_pointers r') = 8 \<and> length (fd_ages r') = 8 \<and>
    (\<forall>i<8. fd_lines r' ! i = (if i < k then (fd_lines r ! i)[fd_pointers r ! i := line_value config inp tr i] else fd_lines r ! i) \<and>
       fd_pointers r' ! i = (if i < k then (fd_pointers r ! i + 1) mod length (fd_lines r ! i) else fd_pointers r ! i) \<and>
       fd_ages r' ! i = (if i < k then min (fd_ages r ! i + 1) (length (fd_lines r ! i)) else fd_ages r ! i)) \<and>
    fd_damping_state r' = fd_damping_state r \<and> fd_pre_delay r' = fd_pre_delay r \<and>
    fd_pre_delay_ptr r' = fd_pre_delay_ptr r \<and> fd_pre_delay_age r' = fd_pre_delay_age r \<and>
    fd_config r' = fd_config r"
  using assms(4) unfolding r'_def
proof (induction k)
  case 0
  then show ?case using assms(1-3) by simp
next
  case (Suc k)
  then show ?case
    by (auto simp: write_line_def Let_def case_prod_beta line_value_def nth_list_update less_Suc_eq)
qed

lemma fdn_effective_config_keeps:
  assumes "fdn_effective_config r = (config, r')"
  shows "fd_lines r' = fd_lines r" "fd_pointers r' = fd_pointers r" "fd_ages r' = fd_ages r"
    "fd_damping_state r' = fd_damping_state r" "fd_pre_delay r' = fd_pre_delay r"
    "fd_pre_delay_ptr r' = fd_pre_delay_ptr r" "fd_pre_delay_age r' = fd_pre_delay_age r" "fd_config r' = fd_config r"
  using assms by (auto simp: fdn_effective_config_def Let_def split: if_splits)

lemma fdn_effective_config_bounds:
  assumes "fdn_effective_config r = (config, r')" and "fd_pre_delay r \<noteq> []"
  shows "uint (kv_damping_q1_15 config) \<le> 32767" and "unat (kv_pre_delay_frames config) < length (fd_pre_delay r)"
proof -
  show "uint (kv_damping_q1_15 config) \<le> 32767"
    using assms(1) by (auto simp: fdn_effective_config_def Let_def min_word)
  let ?m = "min (unat (kv_pre_delay_frames (fd_config r))) (length (fd_pre_delay r) - 1)"
  have "?m < 65536" using unat_bounds(2) [of "kv_pre_delay_frames (fd_config r)"] by simp
  then have "unat (of_nat ?m :: u16) = ?m" by (simp only: unat_of_nat) simp
  moreover have "kv_pre_delay_frames config = of_nat ?m"
    using assms(1) by (auto simp: fdn_effective_config_def Let_def)
  moreover have "?m < length (fd_pre_delay r)" using assms(2) by (simp add: min_less_iff_disj)
  ultimately show "unat (kv_pre_delay_frames config) < length (fd_pre_delay r)" by simp
qed

lemma between_sum:
  fixes a b m lo hi :: int
  assumes "lo \<le> a" "a \<le> hi" "lo \<le> b" "b \<le> hi" "min (b - a) 0 \<le> m" "m \<le> max (b - a) 0"
  shows "lo \<le> a + m" "a + m \<le> hi"
  using assms by linarith+

text \<open>The damping filter stays between the line's output and its own state.\<close>

lemma damping_mix25:
  assumes "in_mix25 rd" and "in_mix25 st" and "0 \<le> d" and "d \<le> 32767"
  shows "in_mix25 (rd + symmetric_round_shift_15 ((st - rd) * d))"
  using between_sum [of mix25_min rd mix25_max st "symmetric_round_shift_15 ((st - rd) * d)"]
    symmetric_round_bounds [of d "st - rd"] assms by (simp add: in_mix25_def)

lemma damped_line_eq:
  assumes "fdn_inv r" and "fdn_holds r s" and "uint (kv_damping_q1_15 config) \<le> 32767" and "i < 8"
  shows "damped_line config r i = spec_damped (line_lengths r) config s ! i" and "in_mix25 (damped_line config r i)"
proof -
  let ?rd = "if fd_ages r ! i < length (fd_lines r ! i) then 0 else fd_lines r ! i ! (fd_pointers r ! i)"
  let ?v = "?rd + symmetric_round_shift_15 ((fd_damping_state r ! i - ?rd) * uint (kv_damping_q1_15 config))"
  have rd: "?rd = delayed 0 (sr_lines s ! i) (length (fd_lines r ! i))"
    using assms(2,4) by (intro holds_past_oldest) (simp add: fdn_holds_def)
  have "in_mix25 ?rd" using assms(1,4) by (auto simp: fdn_inv_def list_all_length)
  moreover have "in_mix25 (fd_damping_state r ! i)" using assms(1,4) by (simp add: fdn_inv_def list_all_length)
  ultimately have v: "in_mix25 ?v" using damping_mix25 assms(3) by simp
  then have "i32 ?v = ?v" by (intro i32_id) (simp add: mix25_defs in_i32_def)
  then have eq: "damped_line config r i = apply_state_deadband ?v" by (simp only: damped_line_def Let_def)
  then show "in_mix25 (damped_line config r i)" using v by (simp only: deadband_mix25)
  show "damped_line config r i = spec_damped (line_lengths r) config s ! i"
    using assms(1,2,4) unfolding eq rd
    by (simp add: spec_damped_def Let_def line_lengths_def fdn_inv_def fdn_holds_def)
qed

lemma damped_lines_eq:
  assumes "fdn_inv r" and "fdn_holds r s" and "uint (kv_damping_q1_15 config) \<le> 32767"
  shows "map (damped_line config r) [0..<8] = spec_damped (line_lengths r) config s"
    and "list_all in_mix25 (spec_damped (line_lengths r) config s)"
proof -
  show eq: "map (damped_line config r) [0..<8] = spec_damped (line_lengths r) config s"
    using damped_line_eq(1) [OF assms] by (intro nth_equalityI) (simp_all add: spec_damped_def)
  show "list_all in_mix25 (spec_damped (line_lengths r) config s)"
    unfolding eq [symmetric] using damped_line_eq(2) [OF assms] by (simp add: list_all_iff)
qed

lemma pre_delayed_eq:
  assumes "fdn_holds r s" and "unat (kv_pre_delay_frames config) < length (fd_pre_delay r)"
  shows "pre_delayed config f r = spec_input config f s"
proof (cases "kv_pre_delay_frames config = 0")
  case False
  then have "1 \<le> unat (kv_pre_delay_frames config)" by (simp add: Suc_le_eq unat_gt_0)
  then show ?thesis
    using holds_past_read [of "fd_pre_delay r" "fd_pre_delay_ptr r" "fd_pre_delay_age r" "sr_pre s"
        "unat (kv_pre_delay_frames config)" "(0, 0)"] assms False
    by (simp add: pre_delayed_def spec_input_def Let_def fdn_holds_def)
qed (simp add: pre_delayed_def spec_input_def)

lemma line_value_eq:
  assumes "i < 8" and "length damped = 8"
  shows "line_value config inp (hadamard damped) i = apply_state_deadband (clamp
      ((fst inp + (if odd i then - snd inp else snd inp)) div 2 +
       symmetric_round_shift_15 ((\<Sum>j\<leftarrow>[0..<8]. walsh i j * damped ! j) * uint (kv_feedback_gain_q1_15 config ! i)))
      mix25_min mix25_max)"
proof -
  have "hadamard damped ! i = (\<Sum>j\<leftarrow>[0..<8]. walsh i j * damped ! j)"
    using assms(1) by (simp add: hadamard_matrix [OF assms(2)])
  moreover have "(i AND 1 \<noteq> 0) = odd i" by (simp add: and_one_eq odd_iff_mod_2_eq_one)
  ultimately show ?thesis
    by (simp only: line_value_def line_input_def saturate_mix25_value arithmetic_shift_right_eq power_one_right)
qed

lemma line_value_mix25: "in_mix25 (line_value config inp tr i)"
  by (simp add: line_value_def deadband_mix25)

lemma spec_fdn_eq:
  fixes l rt :: int
  assumes "length (spec_damped lens config s) = 8"
  defines "damped \<equiv> spec_damped lens config s" and "fr \<equiv> (signed_mix25 l, signed_mix25 rt)"
  shows "spec_fdn lens config s (l, rt) =
      (if kv_enable config
       then (fst (saturate_mix25 (arithmetic_shift_right (\<Sum>line\<leftarrow>[0..<8]. sign_l line * damped ! line) 3)),
             fst (saturate_mix25 (arithmetic_shift_right (\<Sum>line\<leftarrow>[0..<8]. sign_r line * damped ! line) 3)))
       else (0, 0),
       \<lparr> sr_pre = fr # sr_pre s,
         sr_lines = map (\<lambda>i. line_value config (spec_input config fr s) (hadamard damped) i # sr_lines s ! i) [0..<8],
         sr_damping = damped \<rparr>)"
proof -
  let ?inp = "spec_input config fr s"
  have "map (\<lambda>i. line_value config ?inp (hadamard damped) i # sr_lines s ! i) [0..<8] = map (\<lambda>i. apply_state_deadband (clamp
      ((fst ?inp + (if odd i then - snd ?inp else snd ?inp)) div 2 +
       symmetric_round_shift_15 ((\<Sum>j\<leftarrow>[0..<8]. walsh i j * damped ! j) * uint (kv_feedback_gain_q1_15 config ! i)))
      mix25_min mix25_max) # sr_lines s ! i) [0..<8]"
    using assms(1) by (intro map_cong refl) (simp add: line_value_eq flip: damped_def)
  then show ?thesis
    by (simp add: spec_fdn_def Let_def saturate_mix25_value arithmetic_shift_right_eq flip: damped_def fr_def)
qed

text \<open>What a frame does to the state, field by field.\<close>

lemma fdn_process_effect:
  fixes l rt :: int
  assumes "fdn_inv r" and "fdn_holds r s"
  defines "config \<equiv> fst (fdn_effective_config r)" and "r' \<equiv> snd (fdn_process l rt r)"
    and "fr \<equiv> (signed_mix25 l, signed_mix25 rt)"
  defines "damped \<equiv> spec_damped (line_lengths r) config s"
  defines "v \<equiv> line_value config (spec_input config fr s) (hadamard damped)"
  shows "fst (fdn_process l rt r) = fst (spec_fdn (line_lengths r) config s (l, rt))"
    and "length (fd_lines r') = 8" and "length (fd_pointers r') = 8" and "length (fd_ages r') = 8"
    and "\<And>i. i < 8 \<Longrightarrow> fd_lines r' ! i = (fd_lines r ! i)[fd_pointers r ! i := v i]"
    and "\<And>i. i < 8 \<Longrightarrow> fd_pointers r' ! i = (fd_pointers r ! i + 1) mod length (fd_lines r ! i)"
    and "\<And>i. i < 8 \<Longrightarrow> fd_ages r' ! i = min (fd_ages r ! i + 1) (length (fd_lines r ! i))"
    and "fd_damping_state r' = damped" and "fd_pre_delay r' = (fd_pre_delay r)[fd_pre_delay_ptr r := fr]"
    and "fd_pre_delay_ptr r' = (fd_pre_delay_ptr r + 1) mod length (fd_pre_delay r)"
    and "fd_pre_delay_age r' = min (fd_pre_delay_age r + 1) (length (fd_pre_delay r))"
    and "fd_config r' = fd_config r" and "list_all in_mix25 damped" and "length damped = 8"
proof -
  obtain r1 where r1: "fdn_effective_config r = (config, r1)" unfolding config_def by (cases "fdn_effective_config r") simp
  note kept = fdn_effective_config_keeps [OF r1]
  have inv1: "fdn_inv r1" using assms(1) kept by (simp add: fdn_inv_def)
  have holds1: "fdn_holds r1 s" using assms(2) kept by (simp add: fdn_holds_def)
  have lens: "line_lengths r1 = line_lengths r" by (simp add: line_lengths_def kept)
  have pre: "fd_pre_delay r \<noteq> []" using assms(1) by (auto simp: fdn_inv_def)
  note bounds = fdn_effective_config_bounds [OF r1 pre]
  have damped: "map (damped_line config r1) [0..<8] = damped" "list_all in_mix25 damped"
    using damped_lines_eq [OF inv1 holds1 bounds(1)] by (simp_all add: lens damped_def)
  show "list_all in_mix25 damped" by (rule damped(2))
  show len: "length damped = 8" by (simp add: damped_def spec_damped_def)
  have inp: "pre_delayed config fr r1 = spec_input config fr s"
    using pre_delayed_eq [OF holds1] bounds(2) by (simp add: kept)
  define q where "q = r1\<lparr> fd_pre_delay := (fd_pre_delay r1)[fd_pre_delay_ptr r1 := fr],
      fd_pre_delay_ptr := (fd_pre_delay_ptr r1 + 1) mod length (fd_pre_delay r1),
      fd_pre_delay_age := min (fd_pre_delay_age r1 + 1) (length (fd_pre_delay r1)),
      fd_damping_state := damped \<rparr>"
  have process: "fdn_process l rt r = (fst (spec_fdn (line_lengths r) config s (l, rt)),
      fold (write_line config (spec_input config fr s) (hadamard damped)) [0..<8] q)"
    using spec_fdn_eq [of "line_lengths r" config s l rt] len
    by (simp only: fdn_process_def r1 prod.case Let_def damped(1) inp q_def [symmetric] fr_def [symmetric]
        damped_def [symmetric] fst_conv)
  then show "fst (fdn_process l rt r) = fst (spec_fdn (line_lengths r) config s (l, rt))" by (simp only: fst_conv)
  have q: "length (fd_lines q) = 8" "length (fd_pointers q) = 8" "length (fd_ages q) = 8"
    using assms(1) by (simp_all add: q_def kept fdn_inv_def)
  have r': "r' = fold (write_line config (spec_input config fr s) (hadamard damped)) [0..<8] q"
    by (simp only: r'_def process snd_conv)
  note fields = write_lines_fold [OF q, of 8 config "spec_input config fr s" "hadamard damped", folded r' v_def]
  show "length (fd_lines r') = 8" "length (fd_pointers r') = 8" "length (fd_ages r') = 8"
    "\<And>i. i < 8 \<Longrightarrow> fd_lines r' ! i = (fd_lines r ! i)[fd_pointers r ! i := v i]"
    "\<And>i. i < 8 \<Longrightarrow> fd_pointers r' ! i = (fd_pointers r ! i + 1) mod length (fd_lines r ! i)"
    "\<And>i. i < 8 \<Longrightarrow> fd_ages r' ! i = min (fd_ages r ! i + 1) (length (fd_lines r ! i))"
    "fd_damping_state r' = damped" "fd_pre_delay r' = (fd_pre_delay r)[fd_pre_delay_ptr r := fr]"
    "fd_pre_delay_ptr r' = (fd_pre_delay_ptr r + 1) mod length (fd_pre_delay r)"
    "fd_pre_delay_age r' = min (fd_pre_delay_age r + 1) (length (fd_pre_delay r))"
    "fd_config r' = fd_config r"
    using fields by (simp_all add: q_def kept)
qed

text \<open>One frame of the code is one frame of the specification, and keeps the invariant.\<close>

lemma fdn_process_spec:
  assumes "fdn_inv r" and "fdn_holds r s"
  shows "fdn_holds (snd (fdn_process l rt r)) (snd (spec_fdn (line_lengths r) (fst (fdn_effective_config r)) s (l, rt)))"
    and "fdn_inv (snd (fdn_process l rt r))"
    and "line_lengths (snd (fdn_process l rt r)) = line_lengths r"
    and "length (fd_pre_delay (snd (fdn_process l rt r))) = length (fd_pre_delay r)"
proof -
  note effect = fdn_process_effect [OF assms]
  let ?config = "fst (fdn_effective_config r)" and ?r' = "snd (fdn_process l rt r)"
  let ?fr = "(signed_mix25 l, signed_mix25 rt)"
  let ?v = "line_value ?config (spec_input ?config ?fr s) (hadamard (spec_damped (line_lengths r) ?config s))"
  have "holds_past (fd_lines ?r' ! i) (fd_pointers ?r' ! i) (fd_ages ?r' ! i) (?v i # sr_lines s ! i)" if "i < 8" for i
    using holds_past_push [of "fd_lines r ! i" "fd_pointers r ! i" "fd_ages r ! i" "sr_lines s ! i" "?v i"] assms(2) that
    by (simp add: effect(5-7) fdn_holds_def)
  moreover have "holds_past (fd_pre_delay ?r') (fd_pre_delay_ptr ?r') (fd_pre_delay_age ?r') (?fr # sr_pre s)"
    using holds_past_push [of "fd_pre_delay r" "fd_pre_delay_ptr r" "fd_pre_delay_age r" "sr_pre s" ?fr] assms(2)
    by (simp add: effect(9-11) fdn_holds_def)
  ultimately show "fdn_holds ?r' (snd (spec_fdn (line_lengths r) ?config s (l, rt)))"
    using spec_fdn_eq [OF effect(14), where l = l and rt = rt] by (simp add: fdn_holds_def effect(8))
  have "list_all in_mix25 (fd_lines ?r' ! i)" if "i < 8" for i
    using assms(1) that line_value_mix25 [of ?config "spec_input ?config ?fr s" _ i]
    by (auto simp: effect(5) fdn_inv_def list_all_iff dest!: set_update_subset_insert [THEN subsetD])
  moreover have "mix_frames (fd_pre_delay ?r')"
    using assms(1) by (auto simp: effect(9) fdn_inv_def mix_frames_def list_all_iff dest!: set_update_subset_insert [THEN subsetD])
  moreover have "0 < length (fd_lines r ! i)" if "i < 8" for i using assms(1) that by (fastforce simp: fdn_inv_def)
  moreover have "fd_pre_delay r \<noteq> []" using assms(1) by (auto simp: fdn_inv_def)
  ultimately show "fdn_inv ?r'" by (simp add: fdn_inv_def effect(2-11,13,14))
  show "line_lengths ?r' = line_lengths r"
    using assms(1) by (intro nth_equalityI) (simp_all add: line_lengths_def effect(2,5) fdn_inv_def)
  show "length (fd_pre_delay ?r') = length (fd_pre_delay r)" by (simp add: effect(9))
qed

section \<open>Streams\<close>

fun fdn_run :: "(int \<times> int) list \<Rightarrow> fdn \<Rightarrow> (int \<times> int) list \<times> fdn" where
  "fdn_run [] r = ([], r)"
| "fdn_run (f # fs) r =
     (let (out, r1) = fdn_process (fst f) (snd f) r; (outs, r2) = fdn_run fs r1 in (out # outs, r2))"

fun spec_fdn_run :: "nat list \<Rightarrow> reverb_config \<Rightarrow> spec_reverb \<Rightarrow> (int \<times> int) list \<Rightarrow> (int \<times> int) list" where
  "spec_fdn_run lens config s [] = []"
| "spec_fdn_run lens config s (f # fs) =
     (let (out, s1) = spec_fdn lens config s f in out # spec_fdn_run lens config s1 fs)"

definition silent_reverb :: spec_reverb where
  "silent_reverb = \<lparr> sr_pre = [], sr_lines = replicate 8 [], sr_damping = replicate 8 0 \<rparr>"

inductive reachable_fdn :: "fdn \<Rightarrow> bool" where
  new: "fdn_new lens n = Inr r \<Longrightarrow> reachable_fdn r"
| reset: "reachable_fdn r \<Longrightarrow> reachable_fdn (fdn_reset r)"
| clear: "reachable_fdn r \<Longrightarrow> reachable_fdn (fdn_clear r)"
| configured: "reachable_fdn r \<Longrightarrow> length (kv_feedback_gain_q1_15 config) = 8 \<Longrightarrow> reachable_fdn (fdn_set_config config r)"
| frame: "reachable_fdn r \<Longrightarrow> reachable_fdn (snd (fdn_process l rt r))"

lemma nth_replicate_8: "i < 8 \<Longrightarrow> replicate 8 x ! i = x"
  by simp

lemma fdn_new_inv:
  assumes "fdn_new lens n = Inr r"
  shows "fdn_inv r"
proof -
  define ls where "ls = (if lens = [] then kFdnDelayLengths else lens)"
  have ok: "length ls = 8" "1 \<le> n" "list_all (\<lambda>n. 0 < n) ls" and lines: "fd_lines r = map (\<lambda>n. replicate n 0) ls"
    and rest: "fd_pointers r = replicate 8 0" "fd_ages r = replicate 8 0" "fd_damping_state r = replicate 8 0"
    "fd_pre_delay r = replicate n (0, 0)" "fd_pre_delay_ptr r = 0" "fd_pre_delay_age r = 0"
    using assms by (auto simp: fdn_new_def Let_def fdn_reset_def list_all_iff list_ex_iff simp flip: ls_def split: if_splits) (metis gr0I)
  have "0 < ls ! i \<and> fd_lines r ! i = replicate (ls ! i) 0" if "i < 8" for i
    using that ok(1,3) by (simp add: lines list_all_length)
  then show ?thesis using ok by (simp add: fdn_inv_def lines rest list_all_iff mix_frames_def)
qed

lemma fdn_clear_inv: "fdn_inv r \<Longrightarrow> fdn_inv (fdn_clear r)" "fdn_inv r \<Longrightarrow> fdn_inv (fdn_reset r)"
  by (force simp: fdn_inv_def fdn_clear_def fdn_reset_def list_all_iff)+

lemma fdn_set_config_inv: "fdn_inv (fdn_set_config config r) = fdn_inv r"
  by (simp add: fdn_inv_def fdn_set_config_def)

definition fdn_past :: "fdn \<Rightarrow> spec_reverb" where
  "fdn_past r = \<lparr> sr_pre = ring_past (fd_pre_delay r) (fd_pre_delay_ptr r) (fd_pre_delay_age r),
     sr_lines = map (\<lambda>i. ring_past (fd_lines r ! i) (fd_pointers r ! i) (fd_ages r ! i)) [0..<8],
     sr_damping = fd_damping_state r \<rparr>"

lemma fdn_inv_holds: "fdn_inv r \<Longrightarrow> fdn_holds r (fdn_past r)"
  by (simp add: fdn_holds_def fdn_past_def holds_past_def fdn_inv_def)

lemma fdn_process_inv: "fdn_inv r \<Longrightarrow> fdn_inv (snd (fdn_process l rt r))"
  using fdn_process_spec(2) fdn_inv_holds by blast

lemma fdn_process_mix25:
  assumes "fdn_inv r"
  shows "in_mix25 (fst (fst (fdn_process l rt r)))" "in_mix25 (snd (fst (fdn_process l rt r)))"
  using fdn_process_effect(1,14) [OF assms fdn_inv_holds [OF assms]] by (simp_all add: spec_fdn_eq)

lemma reachable_fdn_inv: "reachable_fdn r \<Longrightarrow> fdn_inv r \<and> length (kv_feedback_gain_q1_15 (fd_config r)) = 8"
proof (induction rule: reachable_fdn.induct)
  case (new lens n r)
  then have "length (kv_feedback_gain_q1_15 (fd_config r)) = 8"
    by (auto simp: fdn_new_def fdn_reset_def Let_def default_reverb_config_def split: if_splits)
  then show ?case using fdn_new_inv [OF new] by simp
next
  case (frame r l rt)
  then show ?case using fdn_process_inv fdn_process_effect(12) [OF _ fdn_inv_holds] by simp
qed (simp_all add: fdn_clear_inv fdn_set_config_inv, simp_all add: fdn_reset_def fdn_clear_def fdn_set_config_def default_reverb_config_def)

lemma fdn_effective_config_cong:
  "fd_config r = fd_config q \<Longrightarrow> length (fd_pre_delay r) = length (fd_pre_delay q) \<Longrightarrow>
     fst (fdn_effective_config r) = fst (fdn_effective_config q)"
  by (simp add: fdn_effective_config_def Let_def)

lemma fdn_run_spec:
  assumes "fdn_inv r" and "fdn_holds r s"
  shows "fst (fdn_run fs r) = spec_fdn_run (line_lengths r) (fst (fdn_effective_config r)) s fs"
  using assms
proof (induction fs arbitrary: r s)
  case Nil
  then show ?case by simp
next
  case (Cons f fs)
  note step = fdn_process_spec [OF Cons.prems, of "fst f" "snd f"]
  have "fst (fdn_effective_config (snd (fdn_process (fst f) (snd f) r))) = fst (fdn_effective_config r)"
    using fdn_process_effect(12) [OF Cons.prems] step(4) by (rule fdn_effective_config_cong)
  then show ?case
    using Cons.IH [OF step(2,1)] step(3) fdn_process_effect(1) [OF Cons.prems, of "fst f" "snd f"]
    by (simp add: Let_def case_prod_beta)
qed

text \<open>C12: The reverb is the feedback delay network it stands for, and clearing it forgets everything. In
  every reachable state, after \<open>clear()\<close> the frames returned for any input are those of the
  specification with eight unbounded delay lines, a Walsh matrix between them and silence
  everywhere: nothing the rings still store from before the clear is ever heard.\<close>

theorem cleared_reverb_implements_fdn:
  assumes "reachable_fdn r"
  shows "fst (fdn_run fs (fdn_clear r)) =
    spec_fdn_run (line_lengths r) (fst (fdn_effective_config r)) silent_reverb fs"
proof -
  have inv: "fdn_inv r" using reachable_fdn_inv [OF assms] by simp
  have "fd_pre_delay r \<noteq> []" "\<And>i. i < 8 \<Longrightarrow> fd_lines r ! i \<noteq> []" using inv by (fastforce simp: fdn_inv_def)+
  then have "fdn_holds (fdn_clear r) silent_reverb"
    by (simp add: fdn_holds_def fdn_clear_def silent_reverb_def holds_past_new)
  moreover have "fst (fdn_effective_config (fdn_clear r)) = fst (fdn_effective_config r)"
    by (rule fdn_effective_config_cong) (simp_all add: fdn_clear_def)
  moreover have "line_lengths (fdn_clear r) = line_lengths r" by (simp add: line_lengths_def fdn_clear_def)
  ultimately show ?thesis using fdn_run_spec [of "fdn_clear r" silent_reverb fs] fdn_clear_inv(1) [OF inv] by simp
qed

text \<open>The witness: a network of lines of one and two frames, after a loud frame.\<close>

definition demo_config :: reverb_config where
  "demo_config = default_reverb_config\<lparr> kv_enable := True, kv_feedback_gain_q1_15 := replicate 8 0x2000 \<rparr>"

definition demo_lens :: "nat list" where
  "demo_lens = [1, 1, 2, 2, 1, 1, 2, 2]"

definition demo_idle :: fdn where
  "demo_idle = \<lparr> fd_lines = map (\<lambda>n. replicate n 0) demo_lens, fd_pointers = replicate 8 0,
     fd_ages = replicate 8 0, fd_damping_state = replicate 8 0, fd_pre_delay = replicate 1 (0, 0),
     fd_pre_delay_ptr = 0, fd_pre_delay_age = 0, fd_config = default_reverb_config,
     fd_config_clamped = False, fd_saturation_count = 0 \<rparr>"

definition demo_reverb :: fdn where
  "demo_reverb = snd (fdn_process 90000 5000 (fdn_set_config demo_config demo_idle))"

lemma demo_idle_reachable: "reachable_fdn demo_idle" "reachable_fdn (fdn_set_config demo_config demo_idle)"
proof -
  have "fdn_new demo_lens 1 = Inr demo_idle" by code_simp
  then show "reachable_fdn demo_idle" by (rule reachable_fdn.new)
  then show "reachable_fdn (fdn_set_config demo_config demo_idle)"
    by (rule reachable_fdn.configured) (simp add: demo_config_def)
qed

lemma demo_reverb_reachable: "reachable_fdn demo_reverb"
  unfolding demo_reverb_def by (rule reachable_fdn.frame) (rule demo_idle_reachable)

lemma demo_spec: "line_lengths demo_reverb = demo_lens" "fst (fdn_effective_config demo_reverb) = demo_config"
proof -
  let ?r = "fdn_set_config demo_config demo_idle"
  have inv: "fdn_inv ?r" using reachable_fdn_inv [OF demo_idle_reachable(2)] by simp
  note step = fdn_process_spec [OF inv fdn_inv_holds [OF inv], of 90000 5000]
  have "line_lengths ?r = demo_lens" by code_simp
  then show "line_lengths demo_reverb = demo_lens" using step(3) by (simp only: demo_reverb_def)
  have "fst (fdn_effective_config demo_reverb) = fst (fdn_effective_config ?r)"
    unfolding demo_reverb_def using fdn_process_effect(12) [OF inv fdn_inv_holds [OF inv]] step(4)
    by (rule fdn_effective_config_cong)
  also have "\<dots> = demo_config" by code_simp
  finally show "fst (fdn_effective_config demo_reverb) = demo_config" .
qed

definition demo_frame1 :: spec_reverb where
  "demo_frame1 = \<lparr> sr_pre = [(8000, 0)], sr_lines = replicate 8 [4000], sr_damping = replicate 8 0 \<rparr>"

lemma demo_damped:
  "spec_damped demo_lens demo_config silent_reverb = replicate 8 0"
  "spec_damped demo_lens demo_config demo_frame1 = [4000, 4000, 0, 0, 4000, 4000, 0, 0]"
  by code_simp+

lemma demo_wet:
  "(\<Sum>line\<leftarrow>[0..<8]. sign line * replicate 8 0 ! line) = (0 :: int)"
  "(\<Sum>line\<leftarrow>[0..<8]. sign_l line * [4000, 4000, 0, 0, 4000, 4000, 0, 0] ! line) = 16000"
  "(\<Sum>line\<leftarrow>[0..<8]. sign_r line * [4000, 4000, 0, 0, 4000, 4000, 0, 0] ! line) = 0"
  by (simp_all add: upt_8 sign_l_def sign_r_def)

lemma demo_stored:
  "map (\<lambda>i. line_value demo_config (8000, 0) (hadamard (replicate 8 0)) i # replicate 8 [] ! i) [0..<8] = replicate 8 [4000]"
  by code_simp

lemma demo_step1: "spec_fdn demo_lens demo_config silent_reverb (8000, 0) = ((0, 0), demo_frame1)"
proof -
  have mix: "signed_mix25 8000 = 8000" "signed_mix25 0 = 0" by code_simp+
  have inp: "spec_input demo_config (8000, 0) silent_reverb = (8000, 0)" by code_simp
  have wet: "fst (saturate_mix25 (arithmetic_shift_right 0 3)) = 0" by code_simp
  have lines: "sr_lines silent_reverb = replicate 8 []" "sr_pre silent_reverb = []" by (simp_all add: silent_reverb_def)
  show ?thesis
    using spec_fdn_eq [of demo_lens demo_config silent_reverb 8000 0] demo_stored
    by (simp only: demo_damped demo_wet(1) mix inp wet lines length_replicate demo_frame1_def if_cancel)
qed

lemma demo_step2: "fst (spec_fdn demo_lens demo_config demo_frame1 (0, 0)) = (2000, 0)"
proof -
  have len: "length (spec_damped demo_lens demo_config demo_frame1) = 8" by (simp add: demo_damped)
  have "fst (saturate_mix25 (arithmetic_shift_right 0 3)) = 0" "fst (saturate_mix25 (arithmetic_shift_right 16000 3)) = 2000"
    "kv_enable demo_config" by code_simp+
  then show ?thesis unfolding spec_fdn_eq [OF len] by (simp only: demo_damped demo_wet fst_conv if_True)
qed

theorem cleared_reverb_implements_fdn_witness:
  "fst (fdn_run [(8000, 0), (0, 0)] (fdn_clear demo_reverb)) = [(0, 0), (2000, 0)]"
proof -
  have "spec_fdn_run demo_lens demo_config silent_reverb [(8000, 0), (0, 0)] = [(0, 0), (2000, 0)]"
    using demo_step2 by (simp add: demo_step1 case_prod_beta)
  then show ?thesis
    using cleared_reverb_implements_fdn [OF demo_reverb_reachable, of "[(8000, 0), (0, 0)]"] by (simp only: demo_spec)
qed

text \<open>The reverb's feedback never gains energy. In every reachable state the butterfly applied to
  any eight line outputs is the Walsh matrix, it multiplies their energy by exactly eight, and the
  effective feedback gains are all so small that the gained signals in Q1.15 carry no more energy
  than the line outputs.\<close>

theorem reverb_feedback_never_gains:
  assumes "reachable_fdn r" and "length x = 8"
  shows "hadamard x = map (\<lambda>i. \<Sum>j\<leftarrow>[0..<8]. walsh i j * x ! j) [0..<8] \<and>
    energy (hadamard x) = 8 * energy x \<and>
    energy (map2 (\<lambda>t g. t * uint g) (hadamard x) (kv_feedback_gain_q1_15 (fst (fdn_effective_config r)))) \<le>
      2 ^ 30 * energy x"
proof (intro conjI)
  let ?gs = "kv_feedback_gain_q1_15 (fst (fdn_effective_config r))"
  have len: "length ?gs = 8" using reachable_fdn_inv [OF assms(1)] by (simp add: fdn_effective_config_def Let_def)
  have gs: "map2 (\<lambda>t g. t * uint g) (hadamard x) ?gs = map2 (*) (hadamard x) (map uint ?gs)"
    by (simp add: zip_map2 case_prod_beta)
  have "energy (map2 (\<lambda>t g. t * uint g) (hadamard x) ?gs) \<le> 11585 ^ 2 * energy (hadamard x)"
    unfolding gs by (rule weighted_energy [OF _ gain_limit]) (simp add: len)
  also have "\<dots> \<le> 2 ^ 30 * energy x" using energy_nonneg [of x] by (simp add: hadamard_energy [OF assms(2)])
  finally show "energy (map2 (\<lambda>t g. t * uint g) (hadamard x) ?gs) \<le> 2 ^ 30 * energy x" .
qed (rule hadamard_matrix [OF assms(2)], rule hadamard_energy [OF assms(2)])

theorem reverb_feedback_never_gains_witness:
  "energy (map2 (\<lambda>t g. t * uint g) (hadamard [1, 2, 3, 4, 5, 6, 7, 8])
     (kv_feedback_gain_q1_15 (fst (fdn_effective_config demo_reverb)))) \<le> 2 ^ 30 * energy [1, 2, 3, 4, 5, 6, 7, 8]"
  using reverb_feedback_never_gains [OF demo_reverb_reachable, of "[1, 2, 3, 4, 5, 6, 7, 8]"] by fastforce

end
