(* ===== verification/Lookahead_Compressor.thy ===== *)
theory Lookahead_Compressor
  imports Reference_Synth
begin

text \<open>
  The look-ahead compressor of \<open>src/sim/harness/render/lookahead_compressor_model.{h,cpp}\<close>: a
  ring-buffer delay line of stereo mix frames, a peak detector with a table-driven logarithm, a
  gain computer with attack and release slew limits, and the output stage with master volume
  and 16-bit saturation. Checked table accesses can fail in the model.
\<close>

section \<open>State\<close>

record compressor =
  cp_delay_line :: "(int \<times> int) list"
  cp_delay_ptr :: nat
  cp_delay_level :: nat
  cp_config :: compressor_command_config
  cp_master_volume :: int
  cp_gain_reduction :: u32
  cp_target_gain_reduction :: u32
  cp_detector_peak :: u32
  cp_max_gain_reduction :: u32
  cp_max_detector_peak :: u32
  cp_input_frame_count :: u32
  cp_output_frame_count :: u32
  cp_compressed_frame_count :: u32
  cp_saturation_count :: u32
  cp_diagnostics :: "render_diagnostics option"

definition compressor_primed :: "compressor \<Rightarrow> bool" where
  "compressor_primed c \<longleftrightarrow> cp_delay_level c = length (cp_delay_line c)"

definition sync_diagnostics :: "compressor \<Rightarrow> compressor" where
  "sync_diagnostics c =
     c\<lparr> cp_diagnostics := map_option (\<lambda>d. d
       \<lparr> dg_compressor_enabled := cc_enable (cp_config c),
         dg_compressor_primed := compressor_primed c,
         dg_compressor_active := cc_enable (cp_config c) \<and> cp_gain_reduction c \<noteq> 0,
         dg_compressor_delay_level := of_nat (cp_delay_level c),
         dg_compressor_gain_reduction_cb_q12_20 := cp_gain_reduction c,
         dg_compressor_target_gain_reduction_cb_q12_20 := cp_target_gain_reduction c,
         dg_compressor_detector_peak := cp_detector_peak c,
         dg_compressor_max_gain_reduction_cb_q12_20 := cp_max_gain_reduction c,
         dg_compressor_max_detector_peak := cp_max_detector_peak c,
         dg_compressor_input_frame_count := cp_input_frame_count c,
         dg_compressor_output_frame_count := cp_output_frame_count c,
         dg_compressor_compressed_frame_count := cp_compressed_frame_count c,
         dg_compressor_saturation_count := cp_saturation_count c \<rparr>) (cp_diagnostics c) \<rparr>"

definition compressor_reset :: "compressor \<Rightarrow> compressor" where
  "compressor_reset c =
     sync_diagnostics (c
       \<lparr> cp_delay_line := map (\<lambda>_. (0, 0)) (cp_delay_line c), cp_delay_ptr := 0, cp_delay_level := 0,
         cp_config := default_compressor_command_config, cp_master_volume := 0x7fff,
         cp_gain_reduction := 0, cp_target_gain_reduction := 0, cp_detector_peak := 0,
         cp_max_gain_reduction := 0, cp_max_detector_peak := 0, cp_input_frame_count := 0,
         cp_output_frame_count := 0, cp_compressed_frame_count := 0, cp_saturation_count := 0 \<rparr>)"

definition compressor_new :: "nat \<Rightarrow> render_diagnostics option \<Rightarrow> error + compressor" where
  "compressor_new lookahead_frames diagnostics =
     (if lookahead_frames = 0
      then Inl (InvalidArgument ''look-ahead frame count must be positive'')
      else Inr (compressor_reset
        \<lparr> cp_delay_line = replicate lookahead_frames (0, 0), cp_delay_ptr = 0, cp_delay_level = 0,
          cp_config = default_compressor_command_config, cp_master_volume = 0x7fff,
          cp_gain_reduction = 0, cp_target_gain_reduction = 0, cp_detector_peak = 0,
          cp_max_gain_reduction = 0, cp_max_detector_peak = 0, cp_input_frame_count = 0,
          cp_output_frame_count = 0, cp_compressed_frame_count = 0, cp_saturation_count = 0,
          cp_diagnostics = diagnostics \<rparr>))"

section \<open>Commands\<close>

text \<open>Global commands carry zero in the two middle bytes of their header.\<close>

definition global_header :: "u32 \<Rightarrow> bool" where
  "global_header w \<longleftrightarrow> (ucast (drop_bit 16 w) :: u8) = 0 \<and> (ucast (drop_bit 8 w) :: u8) = 0"

definition compressor_write :: "compressor sink" where
  "compressor_write c words =
     (if words = [] then (Inr (), c)
      else
        (let opcode = word_opcode (words ! 0); payload_words = word_payload (words ! 0)
         in if \<not> global_header (words ! 0) \<or> length words \<noteq> payload_words + 1 then (Inr (), c)
            else if opcode = kCompressorConfig \<and> payload_words = 4 then
              (if words ! 1 AND 0xfffe0000 \<noteq> 0 \<or> words ! 2 > of_int kCompCbSilenceQ12_20 \<or>
                  words ! 3 > of_int kCompCbSilenceQ12_20 \<or> words ! 4 > of_int kCompCbSilenceQ12_20
               then (Inr (), c)
               else (Inr (), sync_diagnostics (c\<lparr> cp_config :=
                 \<lparr> cc_enable = (words ! 1 AND 1 \<noteq> 0), cc_threshold_cb_q12_20 = words ! 2,
                   cc_ratio_slope_q0_16 = ucast (drop_bit 1 (words ! 1) AND 0xffff),
                   cc_attack_step_cb_q12_20 = words ! 3, cc_release_step_cb_q12_20 = words ! 4 \<rparr> \<rparr>)))
            else if opcode = kMasterVolume \<and> payload_words = 1 \<and> words ! 1 AND 0xffff8000 = 0
            then (Inr (), sync_diagnostics (c\<lparr> cp_master_volume := s16 (ucast (words ! 1)) \<rparr>))
            else (Inr (), sync_diagnostics c)))"

section \<open>Detector and gain\<close>

definition magnitude :: "int \<Rightarrow> u32" where
  "magnitude v = (if v < 0 then of_int (- v) else of_int v)"

text \<open>The scan for the highest set bit, from bit 23 downwards; 0 when none of them is set.\<close>

fun peak_exponent_from :: "nat \<Rightarrow> u32 \<Rightarrow> nat" where
  "peak_exponent_from 0 peak = 0"
| "peak_exponent_from (Suc b) peak = (if bit peak (Suc b) then Suc b else peak_exponent_from b peak)"

definition level_cb_q12_20 :: "u32 \<Rightarrow> error + int" where
  "level_cb_q12_20 peak =
     (let exponent = peak_exponent_from 23 peak;
          normalized = push_bit (31 - exponent) peak;
          index = (drop_bit kCompMagToCbIndexShift normalized AND (push_bit kCompMagToCbMantissaBits 1 - 1))
                  + (drop_bit kCompMagToCbRoundBit normalized AND 1)
      in case lut_at kCompMagToCbMantissa (unat index) of
           Inl e \<Rightarrow> Inl e
         | Inr mantissa \<Rightarrow>
             if exponent \<ge> kCompMagToCbReferenceExponent
             then (case lut_at kCompCbOctaveQ12_20 (exponent - kCompMagToCbReferenceExponent) of
                     Inl e \<Rightarrow> Inl e | Inr base \<Rightarrow> Inr (base + mantissa))
             else (case lut_at kCompCbOctaveQ12_20 (kCompMagToCbReferenceExponent - exponent) of
                     Inl e \<Rightarrow> Inl e | Inr base \<Rightarrow> Inr (- base + mantissa)))"

definition gain_octave :: "int \<Rightarrow> nat" where
  "gain_octave cb =
     (if cb \<ge> kCompCbOctaveQ12_20 ! 16 then 16
      else
        (let o1 = (if cb \<ge> kCompCbOctaveQ12_20 ! 8 then 8 else 0);
             o2 = (if cb \<ge> kCompCbOctaveQ12_20 ! (o1 + 4) then o1 + 4 else o1);
             o3 = (if cb \<ge> kCompCbOctaveQ12_20 ! (o2 + 2) then o2 + 2 else o2)
         in (if cb \<ge> kCompCbOctaveQ12_20 ! (o3 + 1) then o3 + 1 else o3)))"

definition gain_from_cb :: "u32 \<Rightarrow> error + int" where
  "gain_from_cb cb =
     (if uint cb \<ge> kCompCbSilenceQ12_20 then Inr 0
      else
        (let octave = gain_octave (uint cb);
             residual = uint cb - kCompCbOctaveQ12_20 ! octave;
             index = (residual + 2 ^ (kCompCbToQ15ResidualIndexShift - 1)) div
                       2 ^ kCompCbToQ15ResidualIndexShift
         in case lut_at kCompCbToQ15Mantissa (nat index) of
              Inl e \<Rightarrow> Inl e
            | Inr mantissa \<Rightarrow>
                (let shifted = mantissa div 2 ^ octave
                 in Inr (i16 ((shifted + 2 ^ (kCompCbToQ15GuardBits - 1)) div
                               2 ^ kCompCbToQ15GuardBits)))))"

definition saturate_pcm :: "int \<Rightarrow> int" where
  "saturate_pcm v = (if v > 32767 then 32767 else if v < - 32768 then - 32768 else i16 v)"

definition target_reduction :: "compressor_command_config \<Rightarrow> u32 \<Rightarrow> error + u32" where
  "target_reduction config peak =
     (if cc_enable config \<and> peak \<noteq> 0 then
        (case level_cb_q12_20 peak of
           Inl e \<Rightarrow> Inl e
         | Inr level \<Rightarrow>
             (let over = level + uint (cc_threshold_cb_q12_20 config)
              in if over > 0
                 then Inr (ucast (drop_bit 16 ((of_int over :: u64) * ucast (cc_ratio_slope_q0_16 config))))
                 else Inr 0))
      else Inr 0)"

definition slew_gain_reduction :: "compressor_command_config \<Rightarrow> u32 \<Rightarrow> u32 \<Rightarrow> u32" where
  "slew_gain_reduction config target reduction =
     (if \<not> cc_enable config then 0
      else if target > reduction then
        (let distance = target - reduction
         in if cc_attack_step_cb_q12_20 config = 0 \<or> distance \<le> cc_attack_step_cb_q12_20 config
            then target else reduction + cc_attack_step_cb_q12_20 config)
      else if target < reduction then
        (let distance = reduction - target
         in if cc_release_step_cb_q12_20 config = 0 \<or> distance \<le> cc_release_step_cb_q12_20 config
            then target else reduction - cc_release_step_cb_q12_20 config)
      else reduction)"

section \<open>Processing a frame\<close>

text \<open>The scaling of the delayed frame, by the four cases of the source.\<close>

definition scale_output :: "compressor \<Rightarrow> int \<Rightarrow> error + int" where
  "scale_output c sample =
     (let bypass = (\<not> cc_enable (cp_config c) \<or> cp_gain_reduction c = 0);
          volume = cp_master_volume c
      in if bypass \<and> volume = 0x7fff then Inr sample
         else if bypass then Inr (arithmetic_shift_right (sample * volume) 15)
         else case gain_from_cb (cp_gain_reduction c) of
           Inl e \<Rightarrow> Inl e
         | Inr gain \<Rightarrow>
             if volume = 0x7fff then Inr (arithmetic_shift_right (sample * gain) 15)
             else Inr (arithmetic_shift_right (sample * gain * volume) 30))"

definition out_of_pcm :: "int \<Rightarrow> u32" where
  "out_of_pcm v = (if v > 32767 \<or> v < - 32768 then 1 else 0)"

definition compressor_intake :: "int \<Rightarrow> int \<Rightarrow> compressor \<Rightarrow> compressor" where
  "compressor_intake mix_l mix_r c =
     (let peak = max (magnitude mix_l) (magnitude mix_r)
      in c\<lparr> cp_delay_line := (cp_delay_line c)[cp_delay_ptr c := (mix_l, mix_r)],
            cp_delay_ptr := (cp_delay_ptr c + 1) mod length (cp_delay_line c),
            cp_delay_level := (if compressor_primed c then cp_delay_level c else cp_delay_level c + 1),
            cp_detector_peak := peak,
            cp_max_detector_peak := max (cp_max_detector_peak c) peak,
            cp_input_frame_count := sat_inc (cp_input_frame_count c) 1 \<rparr>)"

definition compressor_gain :: "u32 \<Rightarrow> compressor \<Rightarrow> compressor" where
  "compressor_gain target c =
     (let reduction = slew_gain_reduction (cp_config c) target (cp_gain_reduction c)
      in c\<lparr> cp_target_gain_reduction := target, cp_gain_reduction := reduction,
            cp_max_gain_reduction := max (cp_max_gain_reduction c) reduction \<rparr>)"

definition compressor_emit :: "int \<Rightarrow> int \<Rightarrow> compressor \<Rightarrow> compressor" where
  "compressor_emit scaled_l scaled_r c =
     c\<lparr> cp_output_frame_count := sat_inc (cp_output_frame_count c) 1,
        cp_compressed_frame_count :=
          (if cc_enable (cp_config c) \<and> cp_gain_reduction c \<noteq> 0
           then sat_inc (cp_compressed_frame_count c) 1 else cp_compressed_frame_count c),
        cp_saturation_count :=
          sat_inc (cp_saturation_count c) (out_of_pcm scaled_l + out_of_pcm scaled_r) \<rparr>"

definition compressor_process ::
    "int \<Rightarrow> int \<Rightarrow> compressor \<Rightarrow> error + ((int \<times> int) option \<times> compressor)" where
  "compressor_process mix_l mix_r c =
     (let ml = signed_mix25 mix_l; mr = signed_mix25 mix_r;
          delayed = cp_delay_line c ! cp_delay_ptr c;
          delayed_valid = compressor_primed c;
          c1 = compressor_intake ml mr c
      in case target_reduction (cp_config c) (cp_detector_peak c1) of
           Inl e \<Rightarrow> Inl e
         | Inr target \<Rightarrow>
             (let c2 = compressor_gain target c1
              in if \<not> delayed_valid then Inr (None, sync_diagnostics c2)
                 else case scale_output c2 (fst delayed) of
                   Inl e \<Rightarrow> Inl e
                 | Inr scaled_l \<Rightarrow>
                     (case scale_output c2 (snd delayed) of
                        Inl e \<Rightarrow> Inl e
                      | Inr scaled_r \<Rightarrow>
                          Inr (Some (saturate_pcm scaled_l, saturate_pcm scaled_r),
                               sync_diagnostics (compressor_emit scaled_l scaled_r c2)))))"

section \<open>The tables\<close>

lemma compressor_tables:
  "kCompCbOctaveQ12_20 = kEnvCbOctaveQ12_20" "kCompCbToQ15Mantissa = kEnvCbToQ15Mantissa"
  by (simp_all add: kCompCbOctaveQ12_20_def kEnvCbOctaveQ12_20_def kCompCbToQ15Mantissa_def
      kEnvCbToQ15Mantissa_def)

text \<open>The gain computer uses the same conversion as the envelope generator.\<close>

lemma gain_octave_eq: "gain_octave = cb_octave"
  by (simp only: fun_eq_iff gain_octave_def cb_octave_def compressor_tables simp_thms)

lemma gain_from_cb_eq: "gain_from_cb cb = cb_to_q15 cb"
  unfolding gain_from_cb_def cb_to_q15_def gain_octave_eq compressor_tables kCompCbSilenceQ12_20_def
    kEnvCbSilenceQ12_20_def kCompCbToQ15ResidualIndexShift_def kEnvCbToQ15ResidualIndexShift_def
    kCompCbToQ15GuardBits_def kEnvCbToQ15GuardBits_def ..

lemma level_table:
  "length kCompMagToCbMantissa = 129" "sorted kCompMagToCbMantissa"
  "kCompMagToCbMantissa ! 0 = 0" "kCompMagToCbMantissa ! 128 = 63130566"
  by code_simp+

lemma level_table_mono: "i \<le> j \<Longrightarrow> j \<le> 128 \<Longrightarrow> kCompMagToCbMantissa ! i \<le> kCompMagToCbMantissa ! j"
  using level_table(1,2) by (simp add: sorted_nth_mono)

lemma level_table_range: "i \<le> 128 \<Longrightarrow> 0 \<le> kCompMagToCbMantissa ! i \<and> kCompMagToCbMantissa ! i \<le> 63130566"
  using level_table_mono [of 0 i] level_table_mono [of i 128] level_table(3,4) by simp

section \<open>The level detector\<close>

lemma peak_exponent_le: "peak_exponent_from b p \<le> b"
  by (induction b) (auto intro: le_SucI)

definition level_index :: "u32 \<Rightarrow> nat" where
  "level_index p =
     (let n = push_bit (31 - peak_exponent_from 23 p) p
      in unat ((drop_bit 24 n AND 127) + (drop_bit 23 n AND 1)))"

lemma unat_and_le: "unat (x AND y :: u32) \<le> unat y"
  using word_and_le1 [of x y] by (simp add: word_le_nat_alt)

lemma level_index_sum:
  "level_index p = (let n = push_bit (31 - peak_exponent_from 23 p) p
     in unat (drop_bit 24 n AND 127) + unat (drop_bit 23 n AND 1))"
proof -
  have "unat ((drop_bit 24 n AND 127) + (drop_bit 23 n AND 1)) =
      unat (drop_bit 24 n AND 127) + unat (drop_bit 23 n AND 1)" for n :: u32
    using unat_and_le [of "drop_bit 24 n" 127] unat_and_le [of "drop_bit 23 n" 1]
    by (subst unat_word_ariths) simp
  then show ?thesis by (simp add: level_index_def Let_def)
qed

lemma level_index_le: "level_index p \<le> 128"
  using unat_and_le [of "drop_bit 24 (push_bit (31 - peak_exponent_from 23 p) p)" 127]
    unat_and_le [of "drop_bit 23 (push_bit (31 - peak_exponent_from 23 p) p)" 1]
  by (simp add: level_index_sum Let_def)

text \<open>The level as a total function: octaves above or below full scale plus the fine part.\<close>

definition peak_level :: "u32 \<Rightarrow> int" where
  "peak_level p = 63130566 * (int (peak_exponent_from 23 p) - 15) + kCompMagToCbMantissa ! level_index p"

lemma level_cb_eq: "level_cb_q12_20 p = Inr (peak_level p)"
proof -
  let ?e = "peak_exponent_from 23 p"
  have e: "?e \<le> 23" by (rule peak_exponent_le)
  have m: "lut_at kCompMagToCbMantissa (level_index p) = Inr (kCompMagToCbMantissa ! level_index p)"
    using level_index_le [of p] by (simp add: lut_at_def level_table(1))
  have o: "lut_at kCompCbOctaveQ12_20 i = Inr (63130566 * int i)" if "i \<le> 16" for i
    using that octave_nth [OF that] by (simp add: lut_at_def compressor_tables octave_table(1))
  have "level_cb_q12_20 p =
      (case lut_at kCompMagToCbMantissa (level_index p) of
         Inl err \<Rightarrow> Inl err
       | Inr mantissa \<Rightarrow>
           if ?e \<ge> 15
           then (case lut_at kCompCbOctaveQ12_20 (?e - 15) of Inl err \<Rightarrow> Inl err | Inr base \<Rightarrow> Inr (base + mantissa))
           else (case lut_at kCompCbOctaveQ12_20 (15 - ?e) of Inl err \<Rightarrow> Inl err | Inr base \<Rightarrow> Inr (- base + mantissa)))"
    unfolding level_cb_q12_20_def level_index_def Let_def kCompMagToCbIndexShift_def
      kCompMagToCbMantissaBits_def kCompMagToCbRoundBit_def kCompMagToCbReferenceExponent_def by simp
  also have "\<dots> = Inr (peak_level p)"
    using e o [of "?e - 15"] o [of "15 - ?e"] by (simp add: m peak_level_def of_nat_diff)
  finally show ?thesis .
qed

lemma target_reduction_total: "\<exists>r. target_reduction config p = Inr r"
  by (simp add: target_reduction_def level_cb_eq Let_def)

text \<open>The exponent is the position of the highest set bit, for peaks below full scale.\<close>

lemma bit_unat: "bit p n \<longleftrightarrow> odd (unat (p :: u32) div 2 ^ n)"
proof -
  have "bit p n \<longleftrightarrow> bit (unat p) n" by (auto simp: bit_unsigned_iff bit_imp_le_length)
  then show ?thesis by (simp add: bit_iff_odd)
qed

lemma peak_exponent_bounds:
  assumes "0 < unat p" and "unat p < 2 ^ Suc b"
  shows "2 ^ peak_exponent_from b p \<le> unat p \<and> unat p < 2 ^ Suc (peak_exponent_from b p)"
  using assms
proof (induction b)
  case 0
  then show ?case by simp
next
  case (Suc b)
  show ?case
  proof (cases "bit p (Suc b)")
    case True
    then have "unat p div 2 ^ Suc b \<noteq> 0" by (metis bit_unat even_zero)
    then have "2 ^ Suc b \<le> unat p" by (simp only: div_eq_0_iff not_less) simp
    then show ?thesis using True Suc.prems by simp
  next
    case False
    have "unat p div 2 ^ Suc b < 2" using Suc.prems(2) by (simp add: div_less_iff_less_mult)
    moreover have "even (unat p div 2 ^ Suc b)" using False by (simp only: bit_unat not_not)
    moreover have "m = 0" if "m < 2" "even m" for m :: nat using that less_2_cases by fastforce
    ultimately have "unat p div 2 ^ Suc b = 0" by blast
    then have "unat p < 2 ^ Suc b" by (simp only: div_eq_0_iff) simp
    then show ?thesis using False Suc by simp
  qed
qed

section \<open>The delay line\<close>

definition compressor_inv :: "compressor \<Rightarrow> bool" where
  "compressor_inv c \<longleftrightarrow>
     cp_delay_line c \<noteq> [] \<and> cp_delay_ptr c < length (cp_delay_line c) \<and>
     cp_delay_level c \<le> length (cp_delay_line c) \<and>
     (\<not> compressor_primed c \<longrightarrow> cp_delay_ptr c = cp_delay_level c) \<and>
     list_all (\<lambda>f. in_mix25 (fst f) \<and> in_mix25 (snd f)) (cp_delay_line c) \<and>
     0 \<le> cp_master_volume c \<and> cp_master_volume c \<le> 32767"

text \<open>The frames in the line, oldest first.\<close>

definition delay_contents :: "compressor \<Rightarrow> (int \<times> int) list" where
  "delay_contents c =
     ring_list (cp_delay_line c) (if compressor_primed c then cp_delay_ptr c else 0) (cp_delay_level c)"

lemma sync_diagnostics_keeps [simp]:
  "cp_delay_line (sync_diagnostics c) = cp_delay_line c"
  "cp_delay_ptr (sync_diagnostics c) = cp_delay_ptr c"
  "cp_delay_level (sync_diagnostics c) = cp_delay_level c"
  "cp_config (sync_diagnostics c) = cp_config c"
  "cp_master_volume (sync_diagnostics c) = cp_master_volume c"
  "cp_gain_reduction (sync_diagnostics c) = cp_gain_reduction c"
  "compressor_primed (sync_diagnostics c) = compressor_primed c"
  by (simp_all add: sync_diagnostics_def compressor_primed_def)

lemma compressor_stage_keeps [simp]:
  "cp_delay_line (compressor_gain t c) = cp_delay_line c" "cp_delay_ptr (compressor_gain t c) = cp_delay_ptr c"
  "cp_delay_level (compressor_gain t c) = cp_delay_level c" "cp_config (compressor_gain t c) = cp_config c"
  "cp_master_volume (compressor_gain t c) = cp_master_volume c"
  "cp_delay_line (compressor_emit a b c) = cp_delay_line c" "cp_delay_ptr (compressor_emit a b c) = cp_delay_ptr c"
  "cp_delay_level (compressor_emit a b c) = cp_delay_level c" "cp_config (compressor_emit a b c) = cp_config c"
  "cp_master_volume (compressor_emit a b c) = cp_master_volume c"
  "cp_gain_reduction (compressor_emit a b c) = cp_gain_reduction c"
  by (simp_all add: compressor_gain_def compressor_emit_def Let_def)

lemma compressor_intake_keeps [simp]:
  "cp_config (compressor_intake l r c) = cp_config c" "cp_master_volume (compressor_intake l r c) = cp_master_volume c"
  "cp_gain_reduction (compressor_intake l r c) = cp_gain_reduction c"
  by (simp_all add: compressor_intake_def Let_def)

lemma delay_contents_cong:
  "cp_delay_line c = cp_delay_line d \<Longrightarrow> cp_delay_ptr c = cp_delay_ptr d \<Longrightarrow> cp_delay_level c = cp_delay_level d \<Longrightarrow>
     delay_contents c = delay_contents d"
  by (simp add: delay_contents_def compressor_primed_def)

lemma intake_contents:
  assumes "compressor_inv c"
  shows "delay_contents (compressor_intake l r c) =
      (if compressor_primed c then tl (delay_contents c) else delay_contents c) @ [(l, r)]"
    and "compressor_primed c \<Longrightarrow> cp_delay_line c ! cp_delay_ptr c = hd (delay_contents c)"
proof -
  let ?xs = "cp_delay_line c" and ?p = "cp_delay_ptr c" and ?n = "length (cp_delay_line c)"
  have p: "?p < ?n" "0 < ?n" using assms by (auto simp: compressor_inv_def)
  note rotate = ring_list_rotate [OF p(1)]
  show "compressor_primed c \<Longrightarrow> ?xs ! ?p = hd (delay_contents c)"
    using rotate(1) by (simp add: delay_contents_def compressor_primed_def) (metis list.sel(1))
  show "delay_contents (compressor_intake l r c) =
      (if compressor_primed c then tl (delay_contents c) else delay_contents c) @ [(l, r)]"
  proof (cases "compressor_primed c")
    case True
    then show ?thesis
      using rotate(2) [of "(l, r)"] by (simp add: delay_contents_def compressor_intake_def compressor_primed_def Let_def)
  next
    case False
    then have eq: "?p = cp_delay_level c" "cp_delay_level c < ?n"
      using assms by (auto simp: compressor_inv_def compressor_primed_def)
    have push: "ring_list (?xs[?p := (l, r)]) 0 (Suc ?p) = ring_list ?xs 0 ?p @ [(l, r)]"
      using ring_list_push [of ?p ?xs 0 "(l, r)"] p by simp
    show ?thesis
    proof (cases "Suc ?p = ?n")
      case True
      then show ?thesis
        using False eq push by (simp add: delay_contents_def compressor_intake_def compressor_primed_def Let_def)
    next
      case less: False
      then show ?thesis
        using False eq push by (simp add: delay_contents_def compressor_intake_def compressor_primed_def Let_def)
    qed
  qed
qed

lemma intake_inv:
  assumes "compressor_inv c" and "in_mix25 l" and "in_mix25 r"
  shows "compressor_inv (compressor_intake l r c)"
proof -
  have "(cp_delay_ptr c + 1) mod length (cp_delay_line c) < length (cp_delay_line c)"
    using assms(1) by (simp add: compressor_inv_def)
  moreover have "list_all (\<lambda>f. in_mix25 (fst f) \<and> in_mix25 (snd f)) ((cp_delay_line c)[cp_delay_ptr c := (l, r)])"
    using assms by (auto simp: compressor_inv_def list_all_iff dest!: set_update_subset_insert [THEN subsetD])
  moreover have "(cp_delay_ptr c + 1) mod length (cp_delay_line c) = cp_delay_level c + 1"
    if "\<not> compressor_primed c" "cp_delay_level c + 1 \<noteq> length (cp_delay_line c)"
    using that assms(1) by (auto simp: compressor_inv_def compressor_primed_def)
  ultimately show ?thesis
    using assms(1) by (auto simp: compressor_inv_def compressor_intake_def compressor_primed_def Let_def)
qed

text \<open>The gain applied to the delayed frame; it never exceeds unity.\<close>

definition output_scale :: "compressor \<Rightarrow> int \<Rightarrow> int" where
  "output_scale c x =
     (let bypass = (\<not> cc_enable (cp_config c) \<or> cp_gain_reduction c = 0);
          gain = cb_level (uint (cp_gain_reduction c)); volume = cp_master_volume c
      in if bypass \<and> volume = 32767 then x
         else if bypass then (x * volume) div 2 ^ 15
         else if volume = 32767 then (x * gain) div 2 ^ 15
         else (x * (gain * volume)) div 2 ^ 30)"

lemma scale_output_eq: "scale_output c x = Inr (output_scale c x)"
  by (simp add: scale_output_def output_scale_def Let_def gain_from_cb_eq cb_to_q15_eq
      arithmetic_shift_right_eq mult.assoc)

lemma output_scale_bounds:
  assumes "0 \<le> cp_master_volume c" and "cp_master_volume c \<le> 32767"
  shows "min x 0 \<le> output_scale c x" and "output_scale c x \<le> max x 0"
proof -
  let ?g = "cb_level (uint (cp_gain_reduction c))" and ?v = "cp_master_volume c"
  have g: "0 \<le> ?g" "?g \<le> 2 ^ 15" using cb_level_range [of "uint (cp_gain_reduction c)"] by simp_all
  have v: "0 \<le> ?v" "?v \<le> 2 ^ 15" using assms by simp_all
  have "?g * ?v \<le> 2 ^ 15 * 2 ^ 15" using g v by (intro mult_mono) simp_all
  then have gv: "0 \<le> ?g * ?v" "?g * ?v \<le> 2 ^ 30" using g v by (simp_all add: power_add)
  define between where "between y \<longleftrightarrow> min x 0 \<le> y \<and> y \<le> max x 0" for y
  have b: "between ((x * k) div 2 ^ n)" if "0 \<le> k" "k \<le> 2 ^ n" for k n
    unfolding between_def using scaled_div_bounds [OF that, of "min x 0" x "max x 0"] by simp
  have "between x" by (simp add: between_def)
  then have "between (output_scale c x)"
    using b [OF v] b [OF g] b [OF gv] by (auto simp: output_scale_def Let_def)
  then show "min x 0 \<le> output_scale c x" "output_scale c x \<le> max x 0"
    by (simp_all add: between_def)
qed

lemma saturate_pcm_eq: "saturate_pcm v = clamp v (- 32768) 32767"
  by (auto simp: saturate_pcm_def clamp_def i16_id in_i16_def)

lemma saturate_pcm_bounds:
  assumes "min x 0 \<le> v" and "v \<le> max x 0"
  shows "in_i16 (saturate_pcm v) \<and> min x 0 \<le> saturate_pcm v \<and> saturate_pcm v \<le> max x 0"
  using assms by (auto simp: saturate_pcm_eq clamp_def in_i16_def min_def max_def split: if_splits)

text \<open>A whole frame: what is returned and what is kept.\<close>

definition frame_target :: "int \<Rightarrow> int \<Rightarrow> compressor \<Rightarrow> u32" where
  "frame_target mix_l mix_r c =
     (case target_reduction (cp_config c) (max (magnitude (signed_mix25 mix_l)) (magnitude (signed_mix25 mix_r))) of
        Inl e \<Rightarrow> 0 | Inr t \<Rightarrow> t)"

lemma compressor_process_eq:
  assumes "compressor_inv c"
  shows "\<exists>c'. compressor_process mix_l mix_r c =
      Inr (if compressor_primed c
           then Some (saturate_pcm (output_scale c' (fst (hd (delay_contents c)))),
                      saturate_pcm (output_scale c' (snd (hd (delay_contents c))))) else None, c') \<and>
    compressor_inv c' \<and> cp_config c' = cp_config c \<and> cp_master_volume c' = cp_master_volume c \<and>
    cp_target_gain_reduction c' = frame_target mix_l mix_r c \<and>
    cp_gain_reduction c' = slew_gain_reduction (cp_config c) (frame_target mix_l mix_r c) (cp_gain_reduction c) \<and>
    length (cp_delay_line c') = length (cp_delay_line c) \<and>
    delay_contents c' = (if compressor_primed c then tl (delay_contents c) else delay_contents c) @
      [(signed_mix25 mix_l, signed_mix25 mix_r)]"
proof -
  let ?l = "signed_mix25 mix_l" and ?r = "signed_mix25 mix_r"
  let ?c1 = "compressor_intake ?l ?r c"
  obtain t where t: "target_reduction (cp_config c) (cp_detector_peak ?c1) = Inr t"
    using target_reduction_total by blast
  then have ft: "frame_target mix_l mix_r c = t"
    by (simp add: frame_target_def compressor_intake_def Let_def)
  let ?c2 = "compressor_gain t ?c1"
  let ?d = "hd (delay_contents c)"
  have d: "compressor_primed c \<Longrightarrow> cp_delay_line c ! cp_delay_ptr c = ?d" using intake_contents(2) [OF assms] .
  have scale: "output_scale (sync_diagnostics (compressor_emit a b ?c2)) = output_scale ?c2" for a b
    by (simp add: output_scale_def fun_eq_iff)
  define c' where "c' = (if compressor_primed c
    then sync_diagnostics (compressor_emit (output_scale ?c2 (fst ?d)) (output_scale ?c2 (snd ?d)) ?c2)
    else sync_diagnostics ?c2)"
  have kept: "cp_delay_line c' = cp_delay_line ?c1" "cp_delay_ptr c' = cp_delay_ptr ?c1"
    "cp_delay_level c' = cp_delay_level ?c1" "cp_config c' = cp_config c"
    "cp_master_volume c' = cp_master_volume c"
    "cp_gain_reduction c' = slew_gain_reduction (cp_config c) t (cp_gain_reduction c)"
    "cp_target_gain_reduction c' = t"
    by (simp_all add: c'_def compressor_gain_def compressor_emit_def sync_diagnostics_def Let_def)
  have "compressor_inv c'"
    using intake_inv [OF assms, of ?l ?r] kept by (simp add: compressor_inv_def compressor_primed_def)
  moreover have "delay_contents c' = delay_contents ?c1" by (rule delay_contents_cong) (simp_all add: kept)
  moreover have "compressor_process mix_l mix_r c =
      Inr (if compressor_primed c then Some (saturate_pcm (output_scale c' (fst ?d)),
             saturate_pcm (output_scale c' (snd ?d))) else None, c')"
    using t d by (simp add: compressor_process_def Let_def scale_output_eq c'_def scale)
  moreover have "length (cp_delay_line c') = length (cp_delay_line c)"
    by (simp add: kept compressor_intake_def Let_def)
  ultimately show ?thesis using kept ft intake_contents(1) [OF assms, of ?l ?r] by metis
qed

section \<open>Streams of frames\<close>

fun compressor_run ::
    "(int \<times> int) list \<Rightarrow> compressor \<Rightarrow> error + ((int \<times> int) option list \<times> compressor)" where
  "compressor_run [] c = Inr ([], c)"
| "compressor_run (f # fs) c =
     (case compressor_process (fst f) (snd f) c of
        Inl e \<Rightarrow> Inl e
      | Inr (out, c1) \<Rightarrow>
          (case compressor_run fs c1 of Inl e \<Rightarrow> Inl e | Inr (outs, c2) \<Rightarrow> Inr (out # outs, c2)))"

definition wrap_frame :: "int \<times> int \<Rightarrow> int \<times> int" where
  "wrap_frame f = (signed_mix25 (fst f), signed_mix25 (snd f))"

definition pcm_frame :: "int \<times> int \<Rightarrow> int \<times> int" where
  "pcm_frame f = (saturate_pcm (fst f), saturate_pcm (snd f))"

lemma length_delay_contents: "length (delay_contents c) = cp_delay_level c"
  by (simp add: delay_contents_def)

lemma length_contents_le: "compressor_inv c \<Longrightarrow> length (delay_contents c) \<le> length (cp_delay_line c)"
  by (simp add: length_delay_contents compressor_inv_def)

lemma compressor_run_bypass:
  assumes "compressor_inv c" and "\<not> cc_enable (cp_config c)" and "cp_master_volume c = 32767"
  shows "\<exists>c'. compressor_run fs c =
    Inr (take (length fs)
           (replicate (length (cp_delay_line c) - length (delay_contents c)) None @
            map (\<lambda>f. Some (pcm_frame f)) (delay_contents c @ map wrap_frame fs)), c')"
  using assms
proof (induction fs arbitrary: c)
  case Nil
  then show ?case by simp
next
  case (Cons f fs)
  let ?n = "length (cp_delay_line c)"
  obtain c1 where c1: "compressor_process (fst f) (snd f) c =
      Inr (if compressor_primed c
           then Some (saturate_pcm (output_scale c1 (fst (hd (delay_contents c)))),
                      saturate_pcm (output_scale c1 (snd (hd (delay_contents c))))) else None, c1)"
    "compressor_inv c1" "cp_config c1 = cp_config c" "cp_master_volume c1 = cp_master_volume c"
    "length (cp_delay_line c1) = ?n"
    "delay_contents c1 = (if compressor_primed c then tl (delay_contents c) else delay_contents c) @ [wrap_frame f]"
    using compressor_process_eq [OF Cons.prems(1), of "fst f" "snd f"] by (auto simp: wrap_frame_def)
  obtain c2 where c2: "compressor_run fs c1 = Inr (take (length fs)
       (replicate (?n - length (delay_contents c1)) None @
        map (\<lambda>f. Some (pcm_frame f)) (delay_contents c1 @ map wrap_frame fs)), c2)"
    using Cons.IH [OF c1(2)] c1 Cons.prems by auto
  have pass: "output_scale c1 x = x" for x
    using Cons.prems c1 by (simp add: output_scale_def)
  have n: "0 < ?n" using Cons.prems(1) by (simp add: compressor_inv_def)
  show ?case
  proof (cases "compressor_primed c")
    case True
    then obtain d ds where d: "delay_contents c = d # ds"
      using n by (cases "delay_contents c") (auto simp: length_delay_contents [symmetric] compressor_primed_def)
    then have "length (delay_contents c) = ?n" using True length_delay_contents [of c] by (simp add: compressor_primed_def)
    then show ?thesis using True c1(1,6) c2 d by (simp add: pcm_frame_def pass)
  next
    case False
    then have less: "length (delay_contents c) < ?n"
      using Cons.prems(1) by (auto simp: length_delay_contents compressor_primed_def compressor_inv_def)
    define k where "k = ?n - Suc (length (delay_contents c))"
    have "?n - length (delay_contents c) = Suc k" using less by (simp add: k_def)
    moreover from this have "?n - length (delay_contents c1) = k"
      using False c1(6) by (simp only: length_append if_False) simp
    ultimately show ?thesis using False c1(1,6) c2 by simp
  qed
qed

lemma compressor_new_inv:
  assumes "compressor_new n d = Inr c"
  shows "compressor_inv c" "cp_delay_level c = 0" "length (cp_delay_line c) = n"
    "\<not> cc_enable (cp_config c)" "cp_master_volume c = 32767"
  using assms
  by (auto simp: compressor_new_def compressor_reset_def compressor_inv_def compressor_primed_def
      default_compressor_command_config_def list_all_iff split: if_splits)

text \<open>Commands keep the invariant and never throw.\<close>

lemma not_low_bits: "NOT 0x7fff = (0xffff8000 :: u32)"
  by code_simp

lemma master_volume_range:
  assumes "w AND 0xffff8000 = (0 :: u32)"
  shows "0 \<le> s16 (ucast w)" "s16 (ucast w) \<le> 32767"
proof -
  have "w = (w AND m) OR (w AND NOT m)" for m by (rule bit_word_eqI) (auto simp: bit_simps)
  from this [of "0x7fff"] have "w = w AND 0x7fff"
    using assms [folded not_low_bits] by (simp only: or.right_neutral)
  then have w: "w \<le> 0x7fff" using word_and_le1 [of w "0x7fff"] by simp
  have ucast: "(ucast w :: u16) = of_int (uint w)" by (metis of_int_uint ucast_eq)
  have "in_i16 (uint w)"
    using w order_trans [OF _ uint_ge_0 [of w], of "- 32768"] by (simp add: in_i16_def word_le_def)
  then have "s16 (ucast w) = uint w" unfolding ucast by (rule s16_of_int_id)
  then show "0 \<le> s16 (ucast w)" "s16 (ucast w) \<le> 32767" using w by (simp_all add: word_le_def)
qed

lemma compressor_inv_sync [simp]: "compressor_inv (sync_diagnostics c) = compressor_inv c"
  by (simp add: compressor_inv_def)

lemma compressor_write_inv:
  assumes "compressor_inv c"
  shows "\<exists>c'. compressor_write c words = (Inr (), c') \<and> compressor_inv c'"
  using assms master_volume_range [of "words ! 1"]
  by (auto simp: compressor_write_def Let_def compressor_inv_def compressor_primed_def)

interpretation compressor_sink: command_sink compressor_write compressor_inv "\<lambda>_. True"
  using compressor_write_inv by unfold_locales blast

section \<open>Monotone levels\<close>

lemma unat_push_bit:
  fixes p :: u32
  assumes "unat p * 2 ^ k < 2 ^ 32"
  shows "unat (push_bit k p) = unat p * 2 ^ k"
proof -
  have "unat (push_bit k p) = take_bit LENGTH(32) (push_bit k (unat p))" by (rule unsigned_push_bit_eq)
  also have "push_bit k (unat p) = unat p * 2 ^ k" by (simp only: push_bit_eq_mult)
  finally show ?thesis using assms by (simp add: take_bit_nat_eq_self)
qed

lemma unat_drop_take:
  fixes n :: u32
  shows "unat (take_bit j (drop_bit k n)) = unat n div 2 ^ k mod 2 ^ j"
proof -
  have "unat (take_bit j (drop_bit k n)) = take_bit j (drop_bit k (unat n))"
    using unsigned_less [of n, where ?'a = nat]
    by (simp only: unsigned_take_bit_eq unsigned_drop_bit_eq take_bit_nat_eq_self)
  then show ?thesis by (simp only: take_bit_eq_mod drop_bit_eq_div)
qed

lemma normalized_peak:
  assumes "0 < unat p" and "unat p < 2 ^ 24"
  shows "unat (push_bit (31 - peak_exponent_from 23 p) p :: u32) = unat p * 2 ^ (31 - peak_exponent_from 23 p)"
    and "2 ^ 31 \<le> unat p * 2 ^ (31 - peak_exponent_from 23 p)"
    and "unat p * 2 ^ (31 - peak_exponent_from 23 p) < 2 ^ 32"
proof -
  let ?e = "peak_exponent_from 23 p"
  have e: "?e \<le> 23" by (rule peak_exponent_le)
  have b: "2 ^ ?e \<le> unat p" "unat p < 2 ^ Suc ?e" using peak_exponent_bounds [of p 23] assms by simp_all
  have "(2 :: nat) ^ 31 = 2 ^ ?e * 2 ^ (31 - ?e)" using e by (simp flip: power_add)
  also have "\<dots> \<le> unat p * 2 ^ (31 - ?e)" using b(1) by (rule mult_le_mono1)
  finally show "2 ^ 31 \<le> unat p * 2 ^ (31 - ?e)" .
  have "unat p * 2 ^ (31 - ?e) < 2 ^ Suc ?e * 2 ^ (31 - ?e)" using b(2) by (rule mult_less_mono1) simp
  also have "(2 :: nat) ^ Suc ?e * 2 ^ (31 - ?e) = 2 ^ 32" using e by (simp flip: power_add)
  finally show lt: "unat p * 2 ^ (31 - ?e) < 2 ^ 32" .
  show "unat (push_bit (31 - ?e) p :: u32) = unat p * 2 ^ (31 - ?e)"
    using lt by (simp only: unat_push_bit)
qed

text \<open>Within an octave the table index is the position rounded to the nearest 128th.\<close>

lemma half_up: "m div 2 + m mod 2 = (m + 1) div (2 :: nat)"
  by presburger

lemma level_index_eq:
  assumes "0 < unat p" and "unat p < 2 ^ 24"
  shows "level_index p = ((unat p * 2 ^ (31 - peak_exponent_from 23 p)) div 2 ^ 23 + 1) div 2 - 128"
proof -
  define n :: u32 where "n = push_bit (31 - peak_exponent_from 23 p) p"
  define m where "m = unat n div 2 ^ 23"
  have un: "unat n = unat p * 2 ^ (31 - peak_exponent_from 23 p)" "2 ^ 31 \<le> unat n" "unat n < 2 ^ 32"
    using normalized_peak [OF assms] by (simp_all only: n_def)
  have m: "256 \<le> m" "m < 512"
    using div_le_mono [OF un(2), of "2 ^ 23"] un(3) by (simp_all add: m_def div_less_iff_less_mult)
  have hi: "unat (drop_bit 24 n AND 127 :: u32) = m div 2 mod 128"
  proof -
    have "drop_bit 24 n AND 127 = take_bit 7 (drop_bit 24 n)" by (simp only: take_bit_eq_mask mask_eq_exp_minus_1) simp
    then have "unat (drop_bit 24 n AND 127) = unat n div 2 ^ 24 mod 128"
      by (simp only: unat_drop_take) simp
    moreover have "unat n div 2 ^ 24 = m div 2" by (simp add: m_def div_mult2_eq [symmetric])
    ultimately show ?thesis by simp
  qed
  have lo: "unat (drop_bit 23 n AND 1 :: u32) = m mod 2"
  proof -
    have "drop_bit 23 n AND 1 = take_bit 1 (drop_bit 23 n)" by (simp only: take_bit_eq_mask mask_eq_exp_minus_1) simp
    then show ?thesis by (simp only: unat_drop_take m_def) simp
  qed
  have "m div 2 mod 128 = m div 2 - 128" using m by (simp add: mod_if)
  then have "level_index p = m div 2 + m mod 2 - 128"
    using hi lo m by (simp add: level_index_sum Let_def flip: n_def)
  then show ?thesis using un(1) by (simp only: half_up m_def)
qed

lemma peak_exponent_mono:
  assumes "0 < unat p" and "unat p \<le> unat q" and "unat q < 2 ^ 24"
  shows "peak_exponent_from 23 p \<le> peak_exponent_from 23 q"
proof -
  have "2 ^ peak_exponent_from 23 p \<le> unat p" "unat q < 2 ^ Suc (peak_exponent_from 23 q)"
    using peak_exponent_bounds [of p 23] peak_exponent_bounds [of q 23] assms by simp_all
  then have "(2 :: nat) ^ peak_exponent_from 23 p < 2 ^ Suc (peak_exponent_from 23 q)" using assms(2) by linarith
  then show ?thesis by (simp only: power_strict_increasing_iff less_Suc_eq_le one_less_numeral_iff semiring_norm)
qed

lemma peak_level_mono:
  assumes "0 < unat p" and "unat p \<le> unat q" and "unat q < 2 ^ 24"
  shows "peak_level p \<le> peak_level q"
proof (cases "peak_exponent_from 23 p = peak_exponent_from 23 q")
  case True
  have "level_index p \<le> level_index q"
    using assms level_index_eq [of p] level_index_eq [of q]
    by (simp only: True) (intro diff_le_mono div_le_mono add_le_mono mult_le_mono, simp_all)
  then show ?thesis
    using True level_table_mono [of "level_index p" "level_index q"] level_index_le [of q] by (simp add: peak_level_def)
next
  case False
  then have "int (peak_exponent_from 23 p) + 1 \<le> int (peak_exponent_from 23 q)" using peak_exponent_mono [OF assms] by simp
  moreover have "kCompMagToCbMantissa ! level_index p \<le> 63130566" "0 \<le> kCompMagToCbMantissa ! level_index q"
    using level_table_range level_index_le by blast+
  moreover have "63130566 * (a - 15) + m \<le> 63130566 * (b - 15) + n"
    if "a + 1 \<le> b" "m \<le> 63130566" "0 \<le> n" for a b m n :: int
    using that mult_left_mono [OF that(1), of 63130566] by (simp add: right_diff_distrib distrib_left)
  ultimately show ?thesis unfolding peak_level_def by blast
qed

section \<open>Properties\<close>

text \<open>The states a compressor goes through.\<close>

inductive reachable_compressor :: "compressor \<Rightarrow> bool" where
  new: "compressor_new n d = Inr c \<Longrightarrow> reachable_compressor c"
| reset: "reachable_compressor c \<Longrightarrow> reachable_compressor (compressor_reset c)"
| wr: "reachable_compressor c \<Longrightarrow> compressor_write c words = (r, c') \<Longrightarrow> reachable_compressor c'"
| frame: "reachable_compressor c \<Longrightarrow> compressor_process l r c = Inr (out, c') \<Longrightarrow> reachable_compressor c'"

lemma compressor_reset_inv: "compressor_inv c \<Longrightarrow> compressor_inv (compressor_reset c)"
  by (auto simp: compressor_reset_def compressor_inv_def compressor_primed_def list_all_iff mix25_defs)

lemma reachable_compressor_inv: "reachable_compressor c \<Longrightarrow> compressor_inv c"
proof (induction rule: reachable_compressor.induct)
  case (new n d c)
  then show ?case by (rule compressor_new_inv)
next
  case (reset c)
  then show ?case by (simp add: compressor_reset_inv)
next
  case (wr c words r c')
  then show ?case using compressor_write_inv [of c words] by auto
next
  case (frame c l r out c')
  then show ?case using compressor_process_eq [of c l r] by auto
qed

lemma slew_bounds:
  "cc_enable k \<Longrightarrow> min g t \<le> slew_gain_reduction k t g \<and> slew_gain_reduction k t g \<le> max g t"
proof -
  have up: "g \<le> g + a" "g + a \<le> t" if "g < t" "\<not> t - g \<le> a" for a :: u32
    using that by unat_arith+
  have down: "g - a \<le> g" "t \<le> g - a" if "t < g" "\<not> g - t \<le> a" for a :: u32
    using that by unat_arith+
  assume "cc_enable k"
  then show ?thesis using up down by (auto simp: slew_gain_reduction_def Let_def min_def max_def)
qed

text \<open>A bypassed compressor is a pure delay. A compressor built with a look-ahead of \<open>n > 0\<close>
  frames and left unconfigured returns no frame for the first \<open>n\<close> inputs and from then on exactly
  the inputs in order, each wrapped to the signed 25-bit mix and saturated to 16 bits.\<close>

theorem compressor_bypass_is_pure_delay:
  assumes "0 < n"
  shows "\<exists>c c'. compressor_new n d = Inr c \<and>
    compressor_run fs c =
      Inr (take (length fs) (replicate n None @ map (\<lambda>f. Some (pcm_frame (wrap_frame f))) fs), c')"
proof -
  obtain c where c: "compressor_new n d = Inr c" using assms by (simp add: compressor_new_def)
  note new = compressor_new_inv [OF c]
  have "delay_contents c = []" using length_delay_contents [of c] new(2) by simp
  then show ?thesis
    using compressor_run_bypass [OF new(1,4,5), of fs] c new(3) by (auto simp: comp_def)
qed

theorem compressor_bypass_is_pure_delay_witness:
  "\<exists>c c'. compressor_new 2 None = Inr c \<and>
    compressor_run [(5, -7), (40000, 33554431), (1, 2), (3, 4)] c =
      Inr ([None, None, Some (5, -7), Some (32767, -1)], c')"
proof -
  have "pcm_frame (wrap_frame (5, -7)) = (5, -7)" by code_simp
  moreover have "pcm_frame (wrap_frame (40000, 33554431)) = (32767, -1)" by code_simp
  moreover have "replicate 2 None = [None, None :: (int \<times> int) option]" by (simp add: numeral_2_eq_2)
  ultimately show ?thesis
    using compressor_bypass_is_pure_delay [of 2 None "[(5, -7), (40000, 33554431), (1, 2), (3, 4)]"] by simp
qed

definition no_louder :: "int \<Rightarrow> int \<Rightarrow> bool" where
  "no_louder y x \<longleftrightarrow> in_i16 y \<and> min x 0 \<le> y \<and> y \<le> max x 0"

lemma slew_steps:
  assumes "cc_enable k"
  shows "cc_attack_step_cb_q12_20 k \<noteq> 0 \<and> g < slew_gain_reduction k t g \<Longrightarrow>
      slew_gain_reduction k t g - g \<le> cc_attack_step_cb_q12_20 k"
    and "cc_release_step_cb_q12_20 k \<noteq> 0 \<and> slew_gain_reduction k t g < g \<Longrightarrow>
      g - slew_gain_reduction k t g \<le> cc_release_step_cb_q12_20 k"
proof -
  have down: "\<not> g < g - a" if "t < g" "\<not> g - t \<le> a" for a :: u32 using that by unat_arith
  have up: "\<not> g + a < g" if "g < t" "\<not> t - g \<le> a" for a :: u32 using that by unat_arith
  show "cc_attack_step_cb_q12_20 k \<noteq> 0 \<and> g < slew_gain_reduction k t g \<Longrightarrow>
      slew_gain_reduction k t g - g \<le> cc_attack_step_cb_q12_20 k"
    using assms down by (auto simp: slew_gain_reduction_def Let_def split: if_splits)
  show "cc_release_step_cb_q12_20 k \<noteq> 0 \<and> slew_gain_reduction k t g < g \<Longrightarrow>
      g - slew_gain_reduction k t g \<le> cc_release_step_cb_q12_20 k"
    using assms up by (auto simp: slew_gain_reduction_def Let_def split: if_splits)
qed

text \<open>C14: The compressor never amplifies. In every reachable state a frame is processed without
  error; the frame returned is a pair of 16-bit samples, each between zero and the sample that
  entered the line \<open>n\<close> frames before, and whatever the line holds moves on by one frame. The gain
  reduction moves towards the measured target without passing it, by at most the attack step
  when it rises and the release step when it falls (a zero step meaning at once).\<close>

theorem compressor_never_amplifies:
  assumes "reachable_compressor c"
  shows "\<exists>out c'. compressor_process mix_l mix_r c = Inr (out, c') \<and>
    (out = None \<longleftrightarrow> \<not> compressor_primed c) \<and>
    (\<forall>l r. out = Some (l, r) \<longrightarrow>
       no_louder l (fst (hd (delay_contents c))) \<and> no_louder r (snd (hd (delay_contents c)))) \<and>
    delay_contents c' = (if compressor_primed c then tl (delay_contents c) else delay_contents c) @
      [wrap_frame (mix_l, mix_r)] \<and>
    (if cc_enable (cp_config c)
     then min (cp_gain_reduction c) (cp_target_gain_reduction c') \<le> cp_gain_reduction c' \<and>
          cp_gain_reduction c' \<le> max (cp_gain_reduction c) (cp_target_gain_reduction c') \<and>
          (cc_attack_step_cb_q12_20 (cp_config c) \<noteq> 0 \<and> cp_gain_reduction c < cp_gain_reduction c' \<longrightarrow>
            cp_gain_reduction c' - cp_gain_reduction c \<le> cc_attack_step_cb_q12_20 (cp_config c)) \<and>
          (cc_release_step_cb_q12_20 (cp_config c) \<noteq> 0 \<and> cp_gain_reduction c' < cp_gain_reduction c \<longrightarrow>
            cp_gain_reduction c - cp_gain_reduction c' \<le> cc_release_step_cb_q12_20 (cp_config c))
     else cp_gain_reduction c' = 0)"
proof -
  obtain c' where c': "compressor_process mix_l mix_r c =
      Inr (if compressor_primed c
           then Some (saturate_pcm (output_scale c' (fst (hd (delay_contents c)))),
                      saturate_pcm (output_scale c' (snd (hd (delay_contents c))))) else None, c')"
    "compressor_inv c'" "cp_config c' = cp_config c" "cp_target_gain_reduction c' = frame_target mix_l mix_r c"
    "cp_gain_reduction c' = slew_gain_reduction (cp_config c) (frame_target mix_l mix_r c) (cp_gain_reduction c)"
    "delay_contents c' = (if compressor_primed c then tl (delay_contents c) else delay_contents c) @
      [(signed_mix25 mix_l, signed_mix25 mix_r)]"
    using compressor_process_eq [OF reachable_compressor_inv [OF assms], of mix_l mix_r] by auto
  have loud: "no_louder (saturate_pcm (output_scale c' x)) x" for x
    using c'(2) output_scale_bounds [of c' x] saturate_pcm_bounds [of x "output_scale c' x"]
    by (simp add: no_louder_def compressor_inv_def)
  have slew: "if cc_enable (cp_config c)
     then min (cp_gain_reduction c) (cp_target_gain_reduction c') \<le> cp_gain_reduction c' \<and>
          cp_gain_reduction c' \<le> max (cp_gain_reduction c) (cp_target_gain_reduction c') \<and>
          (cc_attack_step_cb_q12_20 (cp_config c) \<noteq> 0 \<and> cp_gain_reduction c < cp_gain_reduction c' \<longrightarrow>
            cp_gain_reduction c' - cp_gain_reduction c \<le> cc_attack_step_cb_q12_20 (cp_config c)) \<and>
          (cc_release_step_cb_q12_20 (cp_config c) \<noteq> 0 \<and> cp_gain_reduction c' < cp_gain_reduction c \<longrightarrow>
            cp_gain_reduction c - cp_gain_reduction c' \<le> cc_release_step_cb_q12_20 (cp_config c))
     else cp_gain_reduction c' = 0"
    unfolding c'(4,5) using slew_bounds [of "cp_config c"] slew_steps [of "cp_config c"]
    by (simp add: slew_gain_reduction_def [of "cp_config c"])
  show ?thesis
    by (intro exI conjI, rule c'(1), simp, use loud in simp, simp add: c'(6) wrap_frame_def, rule slew)
qed

theorem compressor_never_amplifies_witness:
  "\<exists>c out c'. compressor_process 1000 (-2000) c = Inr (out, c') \<and>
     delay_contents c' = [(1000, -2000)] \<and> out = None \<and> cp_gain_reduction c' = 0"
proof -
  obtain c where c: "compressor_new 4 None = Inr c" by (simp add: compressor_new_def)
  note new = compressor_new_inv [OF c]
  have "delay_contents c = []" "\<not> compressor_primed c"
    using length_delay_contents [of c] new(2,3) by (simp_all add: compressor_primed_def)
  moreover have "wrap_frame (1000, -2000) = (1000, -2000)" by code_simp
  ultimately show ?thesis
    using compressor_never_amplifies [OF reachable_compressor.new [OF c], of 1000 "-2000"] new(4) by auto
qed

text \<open>The magnitude \<open>2 ^ 24\<close>, which the mix value \<open>- 2 ^ 24\<close> has, lies outside the detector's bit
  scan: the loudest peak of all is measured as the quietest.\<close>

lemma full_scale_negative_peak_is_silent:
  "in_mix25 (- 16777216)" "magnitude (signed_mix25 (- 16777216)) = 2 ^ 24"
  "level_cb_q12_20 (2 ^ 24) = level_cb_q12_20 1" "level_cb_q12_20 1 = Inr (- 946958490)"
     apply code_simp
    apply code_simp
   apply code_simp
  apply code_simp
  done

text \<open>The level detector is monotone: for nonzero peaks below full scale (\<open>2 ^ 24\<close>) it returns
  a level, and a louder peak never measures as a lower level. The bound is sharp: the full-scale peak
  \<open>2 ^ 24\<close> itself measures as the quietest of all.\<close>

theorem level_detector_monotone:
  assumes "0 < peak" and "peak \<le> peak'" and "peak' < 2 ^ 24"
  shows "\<exists>level level'. level_cb_q12_20 peak = Inr level \<and> level_cb_q12_20 peak' = Inr level' \<and>
    level \<le> level' \<and> - 946958490 \<le> level \<and> level' \<le> 568175094 \<and>
    level_cb_q12_20 (2 ^ 24) = Inr (- 946958490)"
proof -
  have "unat (2 ^ 24 :: u32) = 2 ^ 24" by simp
  then have u: "0 < unat peak" "unat peak \<le> unat peak'" "unat peak' < 2 ^ 24"
    using assms unfolding word_less_nat_alt word_le_nat_alt by simp_all
  have "peak_exponent_from 23 peak' \<le> 23" by (rule peak_exponent_le)
  then have hi: "peak_level peak' \<le> 568175094"
    using level_table_range [OF level_index_le [of peak']] by (simp add: peak_level_def)
  have lo: "- 946958490 \<le> peak_level peak"
    using level_table_range [OF level_index_le [of peak]] by (simp add: peak_level_def)
  have "level_cb_q12_20 (2 ^ 24) = Inr (- 946958490)" unfolding full_scale_negative_peak_is_silent(3,4) ..
  then show ?thesis using peak_level_mono [OF u] hi lo by (simp add: level_cb_eq)
qed

theorem level_detector_monotone_witness:
  "\<exists>level level'. level_cb_q12_20 1000 = Inr level \<and> level_cb_q12_20 0xffffff = Inr level' \<and> level \<le> level'"
  using level_detector_monotone [of "1000" "0xffffff"] by auto

end
