(* ===== verification/Global_Effects.thy ===== *)
theory Global_Effects
  imports Fdn_Reverb Lookahead_Compressor
begin

text \<open>
  The effect return mixer (\<open>effect_return_mixer_model.{h,cpp}\<close>) and the global effects chain
  (\<open>global_effects_model.{h,cpp}\<close>) of \<open>src/sim/harness/render\<close>: the command sink that configures
  and clears chorus and reverb, the signal path dry - chorus - reverb - mixer, and the enable
  overrides of a preset. The lemmas show that disabled effects are transparent, that every
  output is a mix value, and that the audio control's commands configure the models exactly.
\<close>

section \<open>Return mixer\<close>

record effect_mixer =
  mx_saturation_count :: u32
  mx_config_clamped :: bool

definition mixer_clear :: "effect_mixer \<Rightarrow> effect_mixer" where
  "mixer_clear m = m\<lparr> mx_config_clamped := False, mx_saturation_count := 0 \<rparr>"

definition add_saturation_events :: "u32 \<Rightarrow> effect_mixer \<Rightarrow> effect_mixer" where
  "add_saturation_events amount m =
     m\<lparr> mx_saturation_count :=
          (if amount > 0xffffffff - mx_saturation_count m then 0xffffffff else mx_saturation_count m + amount) \<rparr>"

definition route_reverb ::
    "int \<times> int \<Rightarrow> int \<times> int \<Rightarrow> reverb_config \<Rightarrow> bool \<Rightarrow> effect_mixer \<Rightarrow> (int \<times> int) \<times> effect_mixer" where
  "route_reverb dry chorus_wet config commit m =
     (let m1 = (if commit \<and> (kv_input_send_q1_15 config > 0x7fff \<or> kv_chorus_to_reverb_q1_15 config > 0x7fff)
                then m\<lparr> mx_config_clamped := True \<rparr> else m);
          d = (signed_mix25 (fst dry), signed_mix25 (snd dry));
          w = (signed_mix25 (fst chorus_wet), signed_mix25 (snd chorus_wet));
          (left, saturated_l) = saturate_mix25 (scale_q1_15 (fst d) (kv_input_send_q1_15 config) +
            scale_q1_15 (fst w) (kv_chorus_to_reverb_q1_15 config));
          (right, saturated_r) = saturate_mix25 (scale_q1_15 (snd d) (kv_input_send_q1_15 config) +
            scale_q1_15 (snd w) (kv_chorus_to_reverb_q1_15 config))
      in ((left, right),
          if commit then add_saturation_events (of_bool saturated_l + of_bool saturated_r) m1 else m1))"

definition mix_returns ::
    "int \<times> int \<Rightarrow> int \<times> int \<Rightarrow> int \<times> int \<Rightarrow> chorus_config \<Rightarrow> reverb_config \<Rightarrow> effect_mixer \<Rightarrow> (int \<times> int) \<times> effect_mixer" where
  "mix_returns dry chorus_wet reverb_wet cconfig rconfig m =
     (let m1 = (if kx_return_gain_q1_15 cconfig > 0x7fff \<or> kv_return_gain_q1_15 rconfig > 0x7fff
                then m\<lparr> mx_config_clamped := True \<rparr> else m);
          d = (signed_mix25 (fst dry), signed_mix25 (snd dry));
          c = (signed_mix25 (fst chorus_wet), signed_mix25 (snd chorus_wet));
          v = (signed_mix25 (fst reverb_wet), signed_mix25 (snd reverb_wet));
          (left, saturated_l) = saturate_mix25 (fst d + scale_q1_15 (fst c) (kx_return_gain_q1_15 cconfig) +
            scale_q1_15 (fst v) (kv_return_gain_q1_15 rconfig));
          (right, saturated_r) = saturate_mix25 (snd d + scale_q1_15 (snd c) (kx_return_gain_q1_15 cconfig) +
            scale_q1_15 (snd v) (kv_return_gain_q1_15 rconfig))
      in ((left, right), add_saturation_events (of_bool saturated_l + of_bool saturated_r) m1))"

section \<open>The chain\<close>

record global_effects =
  ge_chorus :: chorus
  ge_reverb :: fdn
  ge_mixer :: effect_mixer
  ge_chorus_config :: chorus_config
  ge_reverb_config :: reverb_config

definition effects_reset :: "global_effects \<Rightarrow> global_effects" where
  "effects_reset g =
     g\<lparr> ge_chorus := chorus_set_config default_chorus_config (chorus_reset (ge_chorus g)),
        ge_reverb := fdn_set_config default_reverb_config (fdn_reset (ge_reverb g)),
        ge_mixer := mixer_clear (ge_mixer g),
        ge_chorus_config := default_chorus_config, ge_reverb_config := default_reverb_config \<rparr>"

text \<open>The chorus and the pre-delay are built with their default capacity of 2048 frames.\<close>

definition effects_new :: "nat list \<Rightarrow> error + global_effects" where
  "effects_new reverb_line_lengths =
     (case chorus_new 2048 of
        Inl e \<Rightarrow> Inl e
      | Inr chorus \<Rightarrow>
          (case fdn_new reverb_line_lengths 2048 of
             Inl e \<Rightarrow> Inl e
           | Inr reverb \<Rightarrow> Inr (effects_reset
               \<lparr> ge_chorus = chorus, ge_reverb = reverb,
                 ge_mixer = \<lparr> mx_saturation_count = 0, mx_config_clamped = False \<rparr>,
                 ge_chorus_config = default_chorus_config, ge_reverb_config = default_reverb_config \<rparr>)))"

definition decode_chorus_config :: "u32 list \<Rightarrow> chorus_config" where
  "decode_chorus_config words =
     \<lparr> kx_enable = (words ! 1 AND 1 \<noteq> 0), kx_base_delay_q16_8 = words ! 2, kx_depth_q16_8 = words ! 3,
       kx_lfo_phase_inc_q0_32 = words ! 4, kx_input_send_q1_15 = ucast (words ! 5),
       kx_return_gain_q1_15 = ucast (drop_bit 16 (words ! 5)),
       kx_feedback_q1_15 = s16 (ucast (drop_bit 16 (words ! 1))),
       kx_stereo_phase_offset_q0_32 = words ! 6 \<rparr>"

definition decode_reverb_config :: "u32 list \<Rightarrow> reverb_config" where
  "decode_reverb_config words =
     \<lparr> kv_enable = (words ! 1 AND 1 \<noteq> 0), kv_input_send_q1_15 = ucast (words ! 2),
       kv_return_gain_q1_15 = ucast (words ! 3), kv_damping_q1_15 = ucast (words ! 4),
       kv_chorus_to_reverb_q1_15 = ucast (words ! 5), kv_pre_delay_frames = ucast (drop_bit 1 (words ! 1)),
       kv_feedback_gain_q1_15 =
         concat (map (\<lambda>p. [ucast (words ! (6 + p)), ucast (drop_bit 16 (words ! (6 + p)))]) [0..<4]) \<rparr>"

definition effects_write :: "global_effects sink" where
  "effects_write g words =
     (if words = [] then (Inr (), g)
      else
        (let opcode = word_opcode (words ! 0); payload_words = word_payload (words ! 0)
         in if \<not> global_header (words ! 0) \<or> length words \<noteq> payload_words + 1 then (Inr (), g)
            else if opcode = kChorusConfig \<and> payload_words = 6 then
              (Inr (), g\<lparr> ge_chorus_config := decode_chorus_config words,
                          ge_chorus := chorus_set_config (decode_chorus_config words) (ge_chorus g) \<rparr>)
            else if opcode = kReverbConfig \<and> payload_words = 9 then
              (Inr (), g\<lparr> ge_reverb_config := decode_reverb_config words,
                          ge_reverb := fdn_set_config (decode_reverb_config words) (ge_reverb g) \<rparr>)
            else if opcode = kEffectClear \<and> payload_words = 1 \<and>
                    words ! 1 AND NOT 3 = 0 \<and> words ! 1 AND 3 \<noteq> 0 then
              (let g1 = (if words ! 1 AND 1 \<noteq> 0 then g\<lparr> ge_chorus := chorus_clear (ge_chorus g) \<rparr> else g)
               in (Inr (), if words ! 1 AND 2 \<noteq> 0 then g1\<lparr> ge_reverb := fdn_clear (ge_reverb g1) \<rparr> else g1))
            else (Inr (), g)))"

definition effects_process :: "int \<Rightarrow> int \<Rightarrow> global_effects \<Rightarrow> (int \<times> int) \<times> global_effects" where
  "effects_process dry_l dry_r g =
     (let (chorus_wet, chorus) = chorus_process dry_l dry_r (ge_chorus g);
          (reverb_input, m1) = route_reverb (dry_l, dry_r) chorus_wet (ge_reverb_config g) True (ge_mixer g);
          (reverb_wet, reverb) = fdn_process (fst reverb_input) (snd reverb_input) (ge_reverb g);
          (out, m2) = mix_returns (dry_l, dry_r) chorus_wet reverb_wet (ge_chorus_config g) (ge_reverb_config g) m1
      in (out, g\<lparr> ge_chorus := chorus, ge_reverb := reverb, ge_mixer := m2 \<rparr>))"

definition effects_config_clamped :: "global_effects \<Rightarrow> bool" where
  "effects_config_clamped g \<longleftrightarrow>
     ch_config_clamped (ge_chorus g) \<or> fd_config_clamped (ge_reverb g) \<or> mx_config_clamped (ge_mixer g)"

section \<open>Preset overrides\<close>

record effects_preset =
  gp_chorus :: chorus_command_config
  gp_reverb :: reverb_command_config
  gp_reverb_line_lengths :: "nat list"

definition enable_override :: "string \<Rightarrow> bool \<Rightarrow> string \<Rightarrow> error + bool" where
  "enable_override setting enable effect_name =
     (if setting = ''auto'' then Inr enable
      else if setting = ''off'' then Inr False
      else if setting = ''on'' then
        (if enable then Inr enable
         else Inl (InvalidArgument (effect_name @
           '' cannot be enabled because the selected preset has no '' @ effect_name @ '' parameters'')))
      else Inl (InvalidArgument (''invalid '' @ effect_name @ '' enable override (expected auto, on, or off)'')))"

definition apply_global_effect_enable_overrides ::
    "string \<Rightarrow> string \<Rightarrow> effects_preset \<Rightarrow> (effects_preset, unit) outcome" where
  "apply_global_effect_enable_overrides chorus_enable reverb_enable p =
     (case enable_override chorus_enable (hc_enable (gp_chorus p)) ''chorus'' of
        Inl e \<Rightarrow> (Inl e, p)
      | Inr c \<Rightarrow>
          (let p1 = p\<lparr> gp_chorus := (gp_chorus p)\<lparr> hc_enable := c \<rparr> \<rparr>
           in case enable_override reverb_enable (vc_enable (gp_reverb p1)) ''reverb'' of
                Inl e \<Rightarrow> (Inl e, p1)
              | Inr v \<Rightarrow> (Inr (), p1\<lparr> gp_reverb := (gp_reverb p1)\<lparr> vc_enable := v \<rparr> \<rparr>)))"

section \<open>Invariant\<close>

definition effects_inv :: "global_effects \<Rightarrow> bool" where
  "effects_inv g \<longleftrightarrow>
     chorus_inv (ge_chorus g) \<and> fdn_inv (ge_reverb g) \<and>
     ch_config (ge_chorus g) = ge_chorus_config g \<and> fd_config (ge_reverb g) = ge_reverb_config g \<and>
     length (kv_feedback_gain_q1_15 (ge_reverb_config g)) = 8"

lemma decode_reverb_gains [simp]: "length (kv_feedback_gain_q1_15 (decode_reverb_config words)) = 8"
  by (simp add: decode_reverb_config_def upt_rec)

lemma config_simps [simp]:
  "ch_config (chorus_set_config k c) = k" "fd_config (fdn_set_config v r) = v"
  "ch_config (chorus_clear c) = ch_config c" "fd_config (fdn_clear r) = fd_config r"
  by (simp_all add: chorus_set_config_def fdn_set_config_def chorus_clear_def fdn_clear_def)

lemma effects_reset_inv:
  "chorus_inv (ge_chorus g) \<Longrightarrow> fdn_inv (ge_reverb g) \<Longrightarrow> effects_inv (effects_reset g)"
  by (simp add: effects_inv_def effects_reset_def fdn_set_config_inv fdn_clear_inv default_reverb_config_def)

lemma effects_new_inv: "effects_new lens = Inr g \<Longrightarrow> effects_inv g"
  by (auto simp: effects_new_def intro!: effects_reset_inv dest: chorus_new_inv fdn_new_inv split: sum.splits)

lemma effects_write_inv:
  assumes "effects_inv g"
  shows "\<exists>g'. effects_write g words = (Inr (), g') \<and> effects_inv g'"
  using assms by (auto simp: effects_write_def effects_inv_def Let_def fdn_set_config_inv fdn_clear_inv)

interpretation effects_sink: command_sink effects_write effects_inv "\<lambda>_. True"
  using effects_write_inv by unfold_locales blast

lemma mix_returns_mix25:
  "in_mix25 (fst (fst (mix_returns d c v k w m)))" "in_mix25 (snd (fst (mix_returns d c v k w m)))"
  by (simp_all add: mix_returns_def Let_def case_prod_beta)

lemma chorus_process_config: "chorus_inv c \<Longrightarrow> ch_config (snd (chorus_process l r c)) = ch_config c"
  using chorus_process_spec(5) chorus_inv_holds by (metis fst_conv)

lemma effects_process_inv: "effects_inv g \<Longrightarrow> effects_inv (snd (effects_process l r g))"
  using fdn_process_effect(12) [OF _ fdn_inv_holds]
  by (simp add: effects_inv_def effects_process_def Let_def case_prod_beta chorus_process_inv fdn_process_inv
      chorus_process_config)

inductive reachable_effects :: "global_effects \<Rightarrow> bool" where
  new: "effects_new lens = Inr g \<Longrightarrow> reachable_effects g"
| reset: "reachable_effects g \<Longrightarrow> reachable_effects (effects_reset g)"
| wr: "reachable_effects g \<Longrightarrow> effects_write g words = (r, g') \<Longrightarrow> reachable_effects g'"
| frame: "reachable_effects g \<Longrightarrow> reachable_effects (snd (effects_process l r g))"

lemma reachable_effects_inv: "reachable_effects g \<Longrightarrow> effects_inv g"
proof (induction rule: reachable_effects.induct)
  case (new lens g)
  then show ?case by (rule effects_new_inv)
next
  case (reset g)
  then show ?case by (simp add: effects_reset_inv effects_inv_def [of g])
next
  case (wr g words r g')
  then show ?case using effects_write_inv [of g words] by auto
next
  case (frame g l r)
  then show ?case by (simp add: effects_process_inv)
qed

section \<open>Commands of the audio control\<close>

lemma audio_header_global:
  assumes "n < 256"
  shows "global_header (command_header op 0 0 n)" "word_opcode (command_header op 0 0 n) = op"
    "word_payload (command_header op 0 0 n) = n"
proof -
  have n: "k < 8" if "bit n k" for k
  proof -
    from that have "2 ^ k \<le> n" by (metis bit_iff_odd div_less even_zero not_less)
    then have "(2 :: nat) ^ k < 2 ^ 8" using assms by simp
    then show "k < 8" by (rule power_less_imp_less_exp [rotated]) simp
  qed
  have "(ucast (drop_bit 16 (push_bit 24 (ucast op) OR of_nat n :: u32)) :: u8) = 0"
    "(ucast (drop_bit 8 (push_bit 24 (ucast op) OR of_nat n :: u32)) :: u8) = 0"
    by (rule bit_word_eqI; auto simp: bit_simps dest!: n)+
  then show "global_header (command_header op 0 0 n)" by (simp only: global_header_def audio_header simp_thms)
  show "word_opcode (command_header op 0 0 n) = op" "word_payload (command_header op 0 0 n) = n"
    using header_fields [of 0 0 n op] assms by simp_all
qed

text \<open>How a global command is seen by its receivers.\<close>

lemma audio_command_fields:
  assumes "length p < 256"
  shows "voice_command op 0 0 p \<noteq> []" "global_header (voice_command op 0 0 p ! 0)"
    "word_opcode (voice_command op 0 0 p ! 0) = op" "word_payload (voice_command op 0 0 p ! 0) = length p"
    "length (voice_command op 0 0 p) = length p + 1" "voice_command op 0 0 p ! Suc i = p ! i"
  using audio_header_global [OF assms, of op] by (simp_all add: voice_command_def)

lemma effects_write_config:
  "length p = 6 \<Longrightarrow> effects_write g (voice_command kChorusConfig 0 0 p) =
     (Inr (), g\<lparr> ge_chorus_config := decode_chorus_config (voice_command kChorusConfig 0 0 p),
        ge_chorus := chorus_set_config (decode_chorus_config (voice_command kChorusConfig 0 0 p)) (ge_chorus g) \<rparr>)"
  "length p = 9 \<Longrightarrow> effects_write g (voice_command kReverbConfig 0 0 p) =
     (Inr (), g\<lparr> ge_reverb_config := decode_reverb_config (voice_command kReverbConfig 0 0 p),
        ge_reverb := fdn_set_config (decode_reverb_config (voice_command kReverbConfig 0 0 p)) (ge_reverb g) \<rparr>)"
  by (simp_all add: effects_write_def Let_def audio_command_fields kReverbConfig_def kChorusConfig_def)

lemma packed_fields:
  "(ucast (pack_pair h l) :: u16) = of_int l" "(ucast (drop_bit 16 (pack_pair h l)) :: u16) = of_int h"
  unfolding pack_pair_def by (rule bit_word_eqI; auto simp: bit_simps bit_beyond)+

lemma flagged_half:
  "((push_bit 16 (ucast (x :: u16)) OR (if e then 1 else 0)) AND 1 \<noteq> (0 :: u32)) = e"
  "(ucast (drop_bit 16 (push_bit 16 (ucast (x :: u16)) OR (if e then 1 else 0) :: u32)) :: u16) = x"
proof -
  have "(push_bit 16 (ucast x) OR (if e then 1 else 0)) AND (1 :: u32) = (if e then 1 else 0)"
    by (rule bit_word_eqI) (auto simp: bit_simps)
  then show "((push_bit 16 (ucast x) OR (if e then 1 else 0)) AND 1 \<noteq> (0 :: u32)) = e" by simp
  show "(ucast (drop_bit 16 (push_bit 16 (ucast x) OR (if e then 1 else 0) :: u32)) :: u16) = x"
    by (rule bit_word_eqI) (auto simp: bit_simps bit_beyond)
qed

lemma flagged_field:
  "((push_bit 1 (ucast (x :: u16)) OR (if e then 1 else 0)) AND 1 \<noteq> (0 :: u32)) = e"
  "(ucast (drop_bit 1 (push_bit 1 (ucast (x :: u16)) OR (if e then 1 else 0) :: u32)) :: u16) = x"
proof -
  have "(push_bit 1 (ucast x) OR (if e then 1 else 0)) AND (1 :: u32) = (if e then 1 else 0)"
    by (rule bit_word_eqI) (auto simp: bit_simps simp del: One_nat_def push_bit_Suc)
  then show "((push_bit 1 (ucast x) OR (if e then 1 else 0)) AND 1 \<noteq> (0 :: u32)) = e" by simp
  show "(ucast (drop_bit 1 (push_bit 1 (ucast x) OR (if e then 1 else 0) :: u32)) :: u16) = x"
    by (rule bit_word_eqI) (auto simp: bit_simps bit_beyond simp del: One_nat_def push_bit_Suc)
qed

lemma ucast_u16_u32 [simp]: "(ucast (ucast (x :: u16) :: u32) :: u16) = x"
  by (rule bit_word_eqI) (auto simp: bit_simps)

text \<open>The configuration a command carries, field by field.\<close>

definition chorus_config_of :: "chorus_command_config \<Rightarrow> chorus_config" where
  "chorus_config_of k =
     \<lparr> kx_enable = hc_enable k, kx_base_delay_q16_8 = hc_base_delay_q16_8 k, kx_depth_q16_8 = hc_depth_q16_8 k,
       kx_lfo_phase_inc_q0_32 = hc_lfo_phase_inc_q0_32 k, kx_input_send_q1_15 = hc_input_send_q1_15 k,
       kx_return_gain_q1_15 = hc_return_gain_q1_15 k, kx_feedback_q1_15 = hc_feedback_q1_15 k,
       kx_stereo_phase_offset_q0_32 = hc_stereo_phase_offset_q0_32 k \<rparr>"

definition reverb_config_of :: "reverb_command_config \<Rightarrow> reverb_config" where
  "reverb_config_of k =
     \<lparr> kv_enable = vc_enable k, kv_input_send_q1_15 = vc_input_send_q1_15 k,
       kv_return_gain_q1_15 = vc_return_gain_q1_15 k, kv_damping_q1_15 = vc_damping_q1_15 k,
       kv_chorus_to_reverb_q1_15 = vc_chorus_to_reverb_q1_15 k, kv_pre_delay_frames = vc_pre_delay_frames k,
       kv_feedback_gain_q1_15 = vc_feedback_gain_q1_15 k \<rparr>"

definition chorus_command_ok :: "chorus_command_config \<Rightarrow> bool" where
  "chorus_command_ok k \<longleftrightarrow>
     hc_base_delay_q16_8 k \<le> 0x00ffffff \<and> hc_depth_q16_8 k \<le> 0x00ffffff \<and>
     hc_input_send_q1_15 k \<le> 0x7fff \<and> hc_return_gain_q1_15 k \<le> 0x7fff \<and> \<bar>hc_feedback_q1_15 k\<bar> \<le> 0x6000"

definition reverb_command_ok :: "reverb_command_config \<Rightarrow> bool" where
  "reverb_command_ok k \<longleftrightarrow>
     vc_pre_delay_frames k \<le> 0x7ff \<and> vc_input_send_q1_15 k \<le> 0x7fff \<and> vc_return_gain_q1_15 k \<le> 0x7fff \<and>
     vc_damping_q1_15 k \<le> 0x7fff \<and> vc_chorus_to_reverb_q1_15 k \<le> 0x7fff \<and>
     list_all (\<lambda>gain. gain \<le> 0x2d41) (vc_feedback_gain_q1_15 k)"

lemma command_guards:
  "(hc_base_delay_q16_8 k > 0x00ffffff \<or> hc_depth_q16_8 k > 0x00ffffff \<or> hc_input_send_q1_15 k > 0x7fff \<or>
    hc_return_gain_q1_15 k > 0x7fff \<or> hc_feedback_q1_15 k < - 0x6000 \<or> hc_feedback_q1_15 k > 0x6000) =
     (\<not> chorus_command_ok k)"
  "(vc_pre_delay_frames v > 0x7ff \<or> vc_input_send_q1_15 v > 0x7fff \<or> vc_return_gain_q1_15 v > 0x7fff \<or>
    vc_damping_q1_15 v > 0x7fff \<or> vc_chorus_to_reverb_q1_15 v > 0x7fff \<or>
    list_ex (\<lambda>gain. gain > 0x2d41) (vc_feedback_gain_q1_15 v)) = (\<not> reverb_command_ok v)"
proof -
  have "x < - 0x6000 \<or> x > 0x6000 \<longleftrightarrow> \<not> \<bar>x\<bar> \<le> 0x6000" for x :: int by linarith
  then show "(hc_base_delay_q16_8 k > 0x00ffffff \<or> hc_depth_q16_8 k > 0x00ffffff \<or> hc_input_send_q1_15 k > 0x7fff \<or>
    hc_return_gain_q1_15 k > 0x7fff \<or> hc_feedback_q1_15 k < - 0x6000 \<or> hc_feedback_q1_15 k > 0x6000) =
     (\<not> chorus_command_ok k)"
    by (simp only: chorus_command_ok_def de_Morgan_conj not_le)
  show "(vc_pre_delay_frames v > 0x7ff \<or> vc_input_send_q1_15 v > 0x7fff \<or> vc_return_gain_q1_15 v > 0x7fff \<or>
    vc_damping_q1_15 v > 0x7fff \<or> vc_chorus_to_reverb_q1_15 v > 0x7fff \<or>
    list_ex (\<lambda>gain. gain > 0x2d41) (vc_feedback_gain_q1_15 v)) = (\<not> reverb_command_ok v)"
    by (simp only: reverb_command_ok_def de_Morgan_conj not_le Ball_set [symmetric] Bex_set [symmetric] bex_simps ball_simps not_all)
qed

lemma configure_chorus_eq:
  "configure_chorus effects_write k g =
     (if chorus_command_ok k
      then (Inr (), g\<lparr> ge_chorus_config := chorus_config_of k,
                       ge_chorus := chorus_set_config (chorus_config_of k) (ge_chorus g) \<rparr>)
      else (Inl (OutOfRange ''chorus command field''), g))"
proof (cases "chorus_command_ok k")
  case True
  define w :: u32 where "w = push_bit 16 (ucast (of_int (hc_feedback_q1_15 k) :: u16)) OR (if hc_enable k then 1 else 0)"
  have w: "(w AND 1 \<noteq> 0) = hc_enable k" "(ucast (drop_bit 16 w) :: u16) = of_int (hc_feedback_q1_15 k)"
    unfolding w_def by (rule flagged_half)+
  let ?p = "[w,
    hc_base_delay_q16_8 k, hc_depth_q16_8 k, hc_lfo_phase_inc_q0_32 k,
    pack_pair (uint (hc_return_gain_q1_15 k)) (uint (hc_input_send_q1_15 k)), hc_stereo_phase_offset_q0_32 k]"
  have fb: "s16 (of_int (hc_feedback_q1_15 k)) = hc_feedback_q1_15 k"
    using True by (intro s16_of_int_id) (simp add: chorus_command_ok_def in_i16_def abs_le_iff)
  have "configure_chorus effects_write k g = effects_write g (voice_command kChorusConfig 0 0 ?p)"
    using True unfolding configure_chorus_def command_guards w_def [symmetric] by (simp add: audio_emit_eq)
  also have "\<dots> = (Inr (), g\<lparr> ge_chorus_config := decode_chorus_config (voice_command kChorusConfig 0 0 ?p),
      ge_chorus := chorus_set_config (decode_chorus_config (voice_command kChorusConfig 0 0 ?p)) (ge_chorus g) \<rparr>)"
    by (rule effects_write_config) simp
  also have "decode_chorus_config (voice_command kChorusConfig 0 0 ?p) = chorus_config_of k"
    by (simp add: decode_chorus_config_def voice_command_def chorus_config_of_def packed_fields w [simplified] fb)
  finally show ?thesis using True by simp
next
  case False
  then show ?thesis unfolding configure_chorus_def command_guards by simp
qed

lemma configure_reverb_eq:
  assumes "length (vc_feedback_gain_q1_15 k) = 8"
  shows "configure_reverb effects_write k g =
     (if reverb_command_ok k
      then (Inr (), g\<lparr> ge_reverb_config := reverb_config_of k,
                       ge_reverb := fdn_set_config (reverb_config_of k) (ge_reverb g) \<rparr>)
      else (Inl (OutOfRange ''reverb command field''), g))"
proof (cases "reverb_command_ok k")
  case True
  let ?g = "\<lambda>i. uint (vc_feedback_gain_q1_15 k ! i)"
  define w :: u32 where "w = push_bit 1 (ucast (vc_pre_delay_frames k)) OR (if vc_enable k then 1 else 0)"
  have w: "(w AND 1 \<noteq> 0) = vc_enable k" "(ucast (drop_bit 1 w) :: u16) = vc_pre_delay_frames k"
    unfolding w_def by (rule flagged_field)+
  let ?p = "[w,
    ucast (vc_input_send_q1_15 k), ucast (vc_return_gain_q1_15 k), ucast (vc_damping_q1_15 k),
    ucast (vc_chorus_to_reverb_q1_15 k), pack_pair (?g 1) (?g 0), pack_pair (?g 3) (?g 2), pack_pair (?g 5) (?g 4),
    pack_pair (?g 7) (?g 6)]"
  obtain a b c d e f h i where gs: "vc_feedback_gain_q1_15 k = [a, b, c, d, e, f, h, i]"
    using assms by (auto simp: length_Suc_conv eval_nat_numeral)
  have up4: "[0..<4] = [0, 1, 2, 3 :: nat]" by (simp add: upt_rec)
  have "configure_reverb effects_write k g = effects_write g (voice_command kReverbConfig 0 0 ?p)"
    using True unfolding configure_reverb_def Let_def command_guards w_def [symmetric] by (simp add: audio_emit_eq)
  also have "\<dots> = (Inr (), g\<lparr> ge_reverb_config := decode_reverb_config (voice_command kReverbConfig 0 0 ?p),
      ge_reverb := fdn_set_config (decode_reverb_config (voice_command kReverbConfig 0 0 ?p)) (ge_reverb g) \<rparr>)"
    by (rule effects_write_config) simp
  also have "decode_reverb_config (voice_command kReverbConfig 0 0 ?p) = reverb_config_of k"
    by (simp add: decode_reverb_config_def voice_command_def reverb_config_of_def packed_fields gs up4 w [simplified])
  finally show ?thesis using True by simp
next
  case False
  then show ?thesis unfolding configure_reverb_def Let_def command_guards by simp
qed

lemma compressor_field:
  fixes x :: u16 and e :: bool
  defines "w \<equiv> push_bit 1 (ucast x) OR (if e then 1 else 0) :: u32"
  shows "w AND 0xfffe0000 = 0" "(w AND 1 \<noteq> 0) = e" "(ucast (drop_bit 1 w AND 0xffff) :: u16) = x"
proof -
  have m: "(0xfffe0000 :: u32) = push_bit 17 (mask 15)" by (simp add: mask_eq_exp_minus_1)
  have m': "(0xffff :: u32) = mask 16" by (simp add: mask_eq_exp_minus_1)
  show "w AND 0xfffe0000 = 0"
    unfolding m w_def by (rule bit_word_eqI) (auto simp: bit_simps bit_beyond simp del: One_nat_def push_bit_Suc)
  show "(w AND 1 \<noteq> 0) = e" unfolding w_def by (rule flagged_field)
  show "(ucast (drop_bit 1 w AND 0xffff) :: u16) = x"
    unfolding m' w_def by (rule bit_word_eqI) (auto simp: bit_simps bit_beyond simp del: One_nat_def push_bit_Suc)
qed

lemma configure_compressor_eq:
  assumes "cc_threshold_cb_q12_20 k \<le> kSilenceCbQ12_20" "cc_attack_step_cb_q12_20 k \<le> kSilenceCbQ12_20"
    "cc_release_step_cb_q12_20 k \<le> kSilenceCbQ12_20"
  shows "configure_compressor compressor_write k c = (Inr (), sync_diagnostics (c\<lparr> cp_config := k \<rparr>))"
proof -
  define w :: u32 where "w = push_bit 1 (ucast (cc_ratio_slope_q0_16 k)) OR (if cc_enable k then 1 else 0)"
  note w = compressor_field [of "cc_ratio_slope_q0_16 k" "cc_enable k", folded w_def]
  let ?p = "[w, cc_threshold_cb_q12_20 k, cc_attack_step_cb_q12_20 k, cc_release_step_cb_q12_20 k]"
  have "configure_compressor compressor_write k c = compressor_write c (voice_command kCompressorConfig 0 0 ?p)"
    using assms unfolding configure_compressor_def w_def [symmetric] by (simp add: audio_emit_eq leD)
  moreover have "compressor_write c (voice_command kCompressorConfig 0 0 ?p) =
      (Inr (), sync_diagnostics (c\<lparr> cp_config := \<lparr> cc_enable = cc_enable k, cc_threshold_cb_q12_20 = cc_threshold_cb_q12_20 k,
         cc_ratio_slope_q0_16 = cc_ratio_slope_q0_16 k, cc_attack_step_cb_q12_20 = cc_attack_step_cb_q12_20 k,
         cc_release_step_cb_q12_20 = cc_release_step_cb_q12_20 k \<rparr> \<rparr>))"
  proof -
    let ?v = "voice_command kCompressorConfig 0 0 ?p"
    have at: "?v ! 1 = w" "?v ! 2 = cc_threshold_cb_q12_20 k" "?v ! 3 = cc_attack_step_cb_q12_20 k"
      "?v ! 4 = cc_release_step_cb_q12_20 k" by (simp_all add: voice_command_def)
    have hd: "?v \<noteq> []" "global_header (?v ! 0)" "word_opcode (?v ! 0) = kCompressorConfig" "word_payload (?v ! 0) = 4"
      "length ?v = 5" using audio_command_fields [of ?p kCompressorConfig] by simp_all
    have "\<not> (w AND 0xfffe0000 \<noteq> 0 \<or> cc_threshold_cb_q12_20 k > of_int kCompCbSilenceQ12_20 \<or>
        cc_attack_step_cb_q12_20 k > of_int kCompCbSilenceQ12_20 \<or> cc_release_step_cb_q12_20 k > of_int kCompCbSilenceQ12_20)"
      using assms w(1) by (simp add: kCompCbSilenceQ12_20_def kSilenceCbQ12_20_def not_less)
    then show ?thesis unfolding compressor_write_def Let_def at hd(3,4,5) using hd(1,2) w(2,3) by simp
  qed
  ultimately show ?thesis by (cases k) simp
qed

lemma set_master_volume_eq:
  "set_master_volume compressor_write gain c =
     (Inr (), sync_diagnostics (c\<lparr> cp_master_volume := clamp gain 0 32767 \<rparr>))"
proof -
  define v where "v = clamp_q15 gain"
  have v: "v = clamp gain 0 32767" "0 \<le> v" "v \<le> 32767"
    by (auto simp: v_def clamp_q15_def clamp_def kQ15Full_def)
  let ?w = "ucast (of_int v :: u16) :: u32"
  have u: "uint ?w = v" using v by (simp add: unsigned_ucast_eq uint_word_of_int_eq take_bit_int_eq_self)
  have low: "?w AND 0xffff8000 = 0"
  proof -
    have high: "\<not> bit v k" if "15 \<le> k" for k
      using v that bit_take_bit_iff [of 15 v k] by (simp add: take_bit_int_eq_self)
    have m: "(0xffff8000 :: u32) = push_bit 15 (mask 17)" by (simp add: mask_eq_exp_minus_1)
    show ?thesis unfolding m by (intro bit_word_eqI) (auto simp: bit_simps high)
  qed
  have s: "s16 (ucast ?w) = v" using v by (simp add: s16_of_int_id in_i16_def)
  let ?c = "voice_command kMasterVolume 0 0 [?w]"
  have at: "?c ! 1 = ?w" by (simp add: voice_command_def)
  have hd: "?c \<noteq> []" "global_header (?c ! 0)" "word_opcode (?c ! 0) = kMasterVolume" "word_payload (?c ! 0) = 1"
    "length ?c = 2" using audio_command_fields [of "[?w]" kMasterVolume] by simp_all
  have "set_master_volume compressor_write gain c = compressor_write c ?c"
    unfolding set_master_volume_def v_def [symmetric] by (simp add: audio_emit_eq)
  also have "\<dots> = (Inr (), sync_diagnostics (c\<lparr> cp_master_volume := v \<rparr>))"
    unfolding compressor_write_def Let_def at hd(3,4,5) s using hd(1,2) low
    by (simp add: kMasterVolume_def kCompressorConfig_def)
  finally show ?thesis by (simp only: v(1))
qed

section \<open>Properties\<close>

text \<open>C15: The audio control configures the output chain exactly. Whatever state the effects and the
  compressor are in: a chorus, reverb or compressor configuration within its ranges arrives in
  the model field for field and changes nothing else but the compressor's diagnostics; a chorus or
  reverb configuration outside its ranges throws and sends nothing; the master volume arrives
  clamped to 0..32767.\<close>

theorem audio_commands_configure_models:
  assumes "length (vc_feedback_gain_q1_15 v) = 8"
  shows "configure_chorus effects_write k g =
      (if chorus_command_ok k
       then (Inr (), g\<lparr> ge_chorus_config := chorus_config_of k,
                        ge_chorus := chorus_set_config (chorus_config_of k) (ge_chorus g) \<rparr>)
       else (Inl (OutOfRange ''chorus command field''), g)) \<and>
    configure_reverb effects_write v g =
      (if reverb_command_ok v
       then (Inr (), g\<lparr> ge_reverb_config := reverb_config_of v,
                        ge_reverb := fdn_set_config (reverb_config_of v) (ge_reverb g) \<rparr>)
       else (Inl (OutOfRange ''reverb command field''), g)) \<and>
    (cc_threshold_cb_q12_20 q \<le> kSilenceCbQ12_20 \<and> cc_attack_step_cb_q12_20 q \<le> kSilenceCbQ12_20 \<and>
       cc_release_step_cb_q12_20 q \<le> kSilenceCbQ12_20 \<longrightarrow>
     configure_compressor compressor_write q c = (Inr (), sync_diagnostics (c\<lparr> cp_config := q \<rparr>))) \<and>
    set_master_volume compressor_write gain c =
      (Inr (), sync_diagnostics (c\<lparr> cp_master_volume := clamp gain 0 32767 \<rparr>))"
  using configure_chorus_eq configure_reverb_eq [OF assms] configure_compressor_eq set_master_volume_eq by blast

theorem audio_commands_configure_models_witness:
  "configure_reverb effects_write \<lparr> vc_enable = True, vc_input_send_q1_15 = 3, vc_return_gain_q1_15 = 4,
      vc_damping_q1_15 = 5, vc_chorus_to_reverb_q1_15 = 6, vc_pre_delay_frames = 0x801,
      vc_feedback_gain_q1_15 = replicate 8 7 \<rparr> undefined = (Inl (OutOfRange ''reverb command field''), undefined) \<and>
   configure_compressor compressor_write default_compressor_command_config undefined =
     (Inr (), sync_diagnostics (undefined\<lparr> cp_config := default_compressor_command_config \<rparr>))"
proof -
  let ?v = "\<lparr> vc_enable = True, vc_input_send_q1_15 = 3, vc_return_gain_q1_15 = 4,
      vc_damping_q1_15 = 5, vc_chorus_to_reverb_q1_15 = 6, vc_pre_delay_frames = 0x801,
      vc_feedback_gain_q1_15 = replicate 8 7 \<rparr> :: reverb_command_config"
  have "\<not> reverb_command_ok ?v" by (simp add: reverb_command_ok_def)
  moreover have "cc_threshold_cb_q12_20 default_compressor_command_config \<le> kSilenceCbQ12_20"
    "cc_attack_step_cb_q12_20 default_compressor_command_config \<le> kSilenceCbQ12_20"
    "cc_release_step_cb_q12_20 default_compressor_command_config \<le> kSilenceCbQ12_20"
    by (simp_all add: default_compressor_command_config_def)
  ultimately show ?thesis
    using audio_commands_configure_models [of ?v _ undefined default_compressor_command_config undefined] by simp
qed

lemma disabled_chorus_silent:
  assumes "chorus_inv c" and "\<not> kx_enable (ch_config c)"
  shows "fst (chorus_process l r c) = (0, 0)"
proof -
  obtain config c1 where c1: "chorus_effective_config c = (config, c1)" by fastforce
  then have "\<not> kx_enable config" using chorus_effective_config_keeps(6) [OF c1] assms(2) by simp
  then show ?thesis
    using chorus_process_spec(1) [OF assms(1) chorus_inv_holds(1) [OF assms(1)]] chorus_inv_holds(2) [OF assms(1)] c1
    by (simp add: spec_chorus_def Let_def)
qed

lemma disabled_reverb_silent: "\<not> kv_enable (fd_config r) \<Longrightarrow> fst (fdn_process l rt r) = (0, 0)"
  by (simp add: fdn_process_def fdn_effective_config_def Let_def)

lemma add_no_saturation [simp]: "mx_saturation_count (add_saturation_events 0 m) = mx_saturation_count m"
  by (simp add: add_saturation_events_def)

lemma silent_returns:
  "fst (mix_returns (l, r) (0, 0) (0, 0) k v m) = (signed_mix25 l, signed_mix25 r)"
  "mx_saturation_count (snd (mix_returns (l, r) (0, 0) (0, 0) k v m)) = mx_saturation_count m"
  "mx_saturation_count (snd (route_reverb (l, r) (0, 0) v True m)) = mx_saturation_count m"
  by (simp_all add: mix_returns_def route_reverb_def Let_def case_prod_beta signed_mix25_id saturate_mix25_id
      saturate_mix25_flag in_mix25_scale)

text \<open>The effects chain stays in the mix and is transparent when its effects are off. In every
  reachable state a frame yields two signed 25-bit mix values; when neither chorus nor reverb is
  enabled they are exactly the dry inputs, whatever the delay lines still hold and whatever gains
  are configured, and the mixer counts no saturation.\<close>

theorem effects_transparent_when_disabled:
  assumes "reachable_effects g"
  shows "in_mix25 (fst (fst (effects_process l r g))) \<and> in_mix25 (snd (fst (effects_process l r g))) \<and>
    (\<not> kx_enable (ge_chorus_config g) \<and> \<not> kv_enable (ge_reverb_config g) \<longrightarrow>
       fst (effects_process l r g) = (signed_mix25 l, signed_mix25 r) \<and>
       mx_saturation_count (ge_mixer (snd (effects_process l r g))) = mx_saturation_count (ge_mixer g))"
proof -
  have inv: "effects_inv g" using assms by (rule reachable_effects_inv)
  have "fst (effects_process l r g) = (signed_mix25 l, signed_mix25 r) \<and>
       mx_saturation_count (ge_mixer (snd (effects_process l r g))) = mx_saturation_count (ge_mixer g)"
    if "\<not> kx_enable (ge_chorus_config g)" "\<not> kv_enable (ge_reverb_config g)"
  proof -
    have "fst (chorus_process l r (ge_chorus g)) = (0, 0)" "fst (fdn_process x y (ge_reverb g)) = (0, 0)" for x y
      using inv that by (simp_all add: effects_inv_def disabled_chorus_silent disabled_reverb_silent)
    then show ?thesis by (simp add: effects_process_def Let_def case_prod_beta silent_returns)
  qed
  then show ?thesis by (simp add: effects_process_def Let_def case_prod_beta mix_returns_mix25)
qed

theorem effects_transparent_when_disabled_witness:
  "\<exists>g. effects_new [] = Inr g \<and> fst (effects_process 123456 (-7) g) = (123456, -7)"
proof -
  have "chorus_new 2048 = Inr (chorus_reset
        \<lparr> ch_history = replicate 2048 (0, 0), ch_write_ptr = 0, ch_history_age = 0,
          ch_lfo_phase = 0, ch_config = default_chorus_config, ch_config_clamped = False,
          ch_saturation_count = 0 \<rparr>)" by (simp add: chorus_new_def)
  moreover obtain r where "fdn_new [] 2048 = Inr r" by (simp add: fdn_new_def kFdnDelayLengths_def Let_def)
  ultimately obtain g where g: "effects_new [] = Inr g" by (simp add: effects_new_def)
  then have "\<not> kx_enable (ge_chorus_config g) \<and> \<not> kv_enable (ge_reverb_config g)"
    by (auto simp: effects_new_def effects_reset_def default_chorus_config_def default_reverb_config_def split: sum.splits)
  moreover have "signed_mix25 123456 = 123456" "signed_mix25 (-7) = -7" by code_simp+
  ultimately show ?thesis
    using effects_transparent_when_disabled [OF reachable_effects.new [OF g], of 123456 "-7"] g by auto
qed

end
