(* ===== verification/Byte_Reader.thy ===== *)
theory Byte_Reader
  imports Prelude
begin

text \<open>
  The checked readers of \<open>src/sim/harness/formats/byte_reader.h\<close>: big- and little-endian integers
  at an offset, chunks and names. \<open>read_file\<close> is the file system; the parsers take the bytes. The
  lemmas are what the parsers rest on: when a read succeeds, and what it returns on the bytes
  an encoder wrote.
\<close>

section \<open>Sequencing results\<close>

text \<open>A call that may throw, then the rest of the function.\<close>

definition ebind :: "error + 'a \<Rightarrow> ('a \<Rightarrow> error + 'b) \<Rightarrow> error + 'b" where
  "ebind m f = (case m of Inl e \<Rightarrow> Inl e | Inr x \<Rightarrow> f x)"

lemma ebind_simps [simp]: "ebind (Inl e) f = Inl e" "ebind (Inr x) f = f x"
  by (simp_all add: ebind_def)

lemma ebind_Inr_iff: "ebind m f = Inr y \<longleftrightarrow> (\<exists>x. m = Inr x \<and> f x = Inr y)"
  by (cases m) simp_all

section \<open>Readers\<close>

definition read_u16le :: "u8 list \<Rightarrow> nat \<Rightarrow> error + u16" where
  "read_u16le d p =
     (if p + 2 > length d then Inl (RuntimeError ''truncated u16le'')
      else Inr (ucast (d ! p) OR push_bit 8 (ucast (d ! (p + 1)))))"

definition read_u32le :: "u8 list \<Rightarrow> nat \<Rightarrow> error + u32" where
  "read_u32le d p =
     (if p + 4 > length d then Inl (RuntimeError ''truncated u32le'')
      else Inr (ucast (d ! p) OR push_bit 8 (ucast (d ! (p + 1))) OR
                push_bit 16 (ucast (d ! (p + 2))) OR push_bit 24 (ucast (d ! (p + 3)))))"

definition read_u16be :: "u8 list \<Rightarrow> nat \<Rightarrow> error + u16" where
  "read_u16be d p =
     (if p + 2 > length d then Inl (RuntimeError ''truncated u16be'')
      else Inr (push_bit 8 (ucast (d ! p)) OR ucast (d ! (p + 1))))"

definition read_u32be :: "u8 list \<Rightarrow> nat \<Rightarrow> error + u32" where
  "read_u32be d p =
     (if p + 4 > length d then Inl (RuntimeError ''truncated u32be'')
      else Inr (push_bit 24 (ucast (d ! p)) OR push_bit 16 (ucast (d ! (p + 1))) OR
                push_bit 8 (ucast (d ! (p + 2))) OR ucast (d ! (p + 3))))"

definition slice :: "u8 list \<Rightarrow> nat \<Rightarrow> nat \<Rightarrow> error + u8 list" where
  "slice d p n =
     (if p + n > length d then Inl (RuntimeError ''truncated chunk'') else Inr (take n (drop p d)))"

text \<open>A zero-terminated, space-padded name field; trailing spaces are dropped.\<close>

definition clean_name :: "u8 list \<Rightarrow> nat \<Rightarrow> nat \<Rightarrow> u8 list" where
  "clean_name d p n =
     rev (dropWhile (\<lambda>b. b = 0x20) (rev (takeWhile (\<lambda>b. b \<noteq> 0) (take n (drop p d)))))"

section \<open>Writers and round trips\<close>

definition put_u16le :: "u16 \<Rightarrow> u8 list" where
  "put_u16le v = [ucast (v AND 0xff), ucast (drop_bit 8 v AND 0xff)]"

definition put_u32le :: "u32 \<Rightarrow> u8 list" where
  "put_u32le v = [ucast (v AND 0xff), ucast (drop_bit 8 v AND 0xff),
                  ucast (drop_bit 16 v AND 0xff), ucast (drop_bit 24 v AND 0xff)]"

definition u16_bytes :: "u16 \<Rightarrow> u8 list" where
  "u16_bytes v = [ucast (drop_bit 8 v), ucast v]"

definition u32_bytes :: "u32 \<Rightarrow> u8 list" where
  "u32_bytes v = [ucast (drop_bit 24 v), ucast (drop_bit 16 v), ucast (drop_bit 8 v), ucast v]"

lemma put_lengths [simp]:
  "length (put_u16le v) = 2" "length (put_u32le w) = 4" "length (u16_bytes v) = 2" "length (u32_bytes w) = 4"
  by (simp_all add: put_u16le_def put_u32le_def u16_bytes_def u32_bytes_def)

text \<open>Data with known bytes at an offset.\<close>

definition bytes_at :: "u8 list \<Rightarrow> nat \<Rightarrow> u8 list \<Rightarrow> bool" where
  "bytes_at d p bs \<longleftrightarrow> p + length bs \<le> length d \<and> (\<forall>i<length bs. d ! (p + i) = bs ! i)"

lemma bytes_at_length: "bytes_at d p bs \<Longrightarrow> p + length bs \<le> length d"
  by (simp add: bytes_at_def)

lemma bytes_at_nth: "bytes_at d p bs \<Longrightarrow> i < length bs \<Longrightarrow> d ! (p + i) = bs ! i"
  by (simp add: bytes_at_def)

lemma bytes_at_append [simp]: "bytes_at d p (xs @ ys) \<longleftrightarrow> bytes_at d p xs \<and> bytes_at d (p + length xs) ys"
proof
  assume a: "bytes_at d p (xs @ ys)"
  have "d ! (p + length xs + i) = ys ! i" if "i < length ys" for i
    using bytes_at_nth [OF a, of "length xs + i"] that by (simp add: add.assoc)
  moreover have "d ! (p + i) = xs ! i" if "i < length xs" for i
    using bytes_at_nth [OF a, of i] that by (simp add: nth_append)
  ultimately show "bytes_at d p xs \<and> bytes_at d (p + length xs) ys"
    using bytes_at_length [OF a] by (simp add: bytes_at_def)
next
  assume a: "bytes_at d p xs \<and> bytes_at d (p + length xs) ys"
  have "d ! (p + i) = (xs @ ys) ! i" if "i < length xs + length ys" for i
  proof (cases "i < length xs")
    case True
    then show ?thesis using a bytes_at_nth by (simp add: nth_append)
  next
    case False
    then have "d ! (p + length xs + (i - length xs)) = ys ! (i - length xs)"
      using a that bytes_at_nth [of d "p + length xs" ys "i - length xs"] by simp
    then show ?thesis using False by (simp add: nth_append)
  qed
  then show "bytes_at d p (xs @ ys)" using a by (simp add: bytes_at_def)
qed

lemma bytes_at_Cons: "bytes_at d p (b # bs) \<longleftrightarrow> p < length d \<and> d ! p = b \<and> bytes_at d (Suc p) bs"
  using bytes_at_append [of d p "[b]" bs] by (auto simp: bytes_at_def)

lemma bytes_at_Nil [simp]: "bytes_at d p [] \<longleftrightarrow> p \<le> length d"
  by (simp add: bytes_at_def)

lemma bytes_at_self: "bytes_at d 0 d"
  by (simp add: bytes_at_def)

lemma read_u16be_bytes: "bytes_at d p (u16_bytes v) \<Longrightarrow> read_u16be d p = Inr v"
proof -
  assume a: "bytes_at d p (u16_bytes v)"
  have "push_bit 8 (ucast (ucast (drop_bit 8 v) :: u8)) OR ucast (ucast v :: u8) = v"
    by (rule bit_word_eqI) (auto simp: bit_simps)
  then show ?thesis
    using bytes_at_length [OF a] bytes_at_nth [OF a, of 0] bytes_at_nth [OF a, of 1]
    by (simp add: read_u16be_def u16_bytes_def)
qed

lemma read_u32be_bytes: "bytes_at d p (u32_bytes v) \<Longrightarrow> read_u32be d p = Inr v"
proof -
  assume a: "bytes_at d p (u32_bytes v)"
  have "push_bit 24 (ucast (ucast (drop_bit 24 v) :: u8)) OR push_bit 16 (ucast (ucast (drop_bit 16 v) :: u8)) OR
      push_bit 8 (ucast (ucast (drop_bit 8 v) :: u8)) OR ucast (ucast v :: u8) = v"
  proof (rule bit_word_eqI)
    fix n assume "n < LENGTH(32)"
    then consider "n < 8" | "8 \<le> n" "n < 16" | "16 \<le> n" "n < 24" | "24 \<le> n" "n < 32" by fastforce
    then show "bit (push_bit 24 (ucast (ucast (drop_bit 24 v) :: u8)) OR push_bit 16 (ucast (ucast (drop_bit 16 v) :: u8)) OR
      push_bit 8 (ucast (ucast (drop_bit 8 v) :: u8)) OR ucast (ucast v :: u8) :: u32) n = bit v n"
      by cases (auto simp: bit_simps)
  qed
  then show ?thesis
    using bytes_at_length [OF a] bytes_at_nth [OF a, of 0] bytes_at_nth [OF a, of 1] bytes_at_nth [OF a, of 2]
      bytes_at_nth [OF a, of 3]
    by (simp add: read_u32be_def u32_bytes_def)
qed

end
