(* ===== verification/Midi_File.thy ===== *)
theory Midi_File
  imports Byte_Reader Realtime_Midi "HOL-Library.Product_Lexorder"
begin

text \<open>
  The standard MIDI file parser of \<open>src/sim/harness/formats/midi_parser.cpp\<close>: header checks, the
  track loop with delta times and running status, meta and system-exclusive events, the merge of
  the tracks, program and bank tracking, and the walk along the tempo map. The bytes of the file
  are an argument; the track loop is a partial function in the option type, so that a loop that
  never ends would be \<open>None\<close>. Ticks are converted to seconds in \<open>double\<close> arithmetic in the source:
  the expression \<open>seconds + double(ticks) * double(tempo) / double(division) / 1000000.0\<close> is
  the argument \<open>add_ticks\<close>.
\<close>

section \<open>Reading track bytes\<close>

definition require_track_bytes :: "nat \<Rightarrow> nat \<Rightarrow> nat \<Rightarrow> string \<Rightarrow> error + unit" where
  "require_track_bytes pos fin count what =
     (if count > fin \<or> pos > fin - count then Inl (RuntimeError (''truncated MIDI '' @ what)) else Inr ())"

definition read_data_byte :: "u8 list \<Rightarrow> nat \<Rightarrow> nat \<Rightarrow> string \<Rightarrow> error + (u8 \<times> nat)" where
  "read_data_byte data pos fin what =
     ebind (require_track_bytes pos fin 1 what) (\<lambda>_.
       if data ! pos AND 0x80 \<noteq> 0 then Inl (RuntimeError (''invalid MIDI data byte in '' @ what))
       else Inr (data ! pos, pos + 1))"

fun read_varlen_loop :: "nat \<Rightarrow> u32 \<Rightarrow> u8 list \<Rightarrow> nat \<Rightarrow> nat \<Rightarrow> error + (u32 \<times> nat)" where
  "read_varlen_loop 0 v data pos fin = Inl (RuntimeError ''MIDI varlen exceeds 4 bytes'')"
| "read_varlen_loop (Suc i) v data pos fin =
     ebind (require_track_bytes pos fin 1 ''varlen'') (\<lambda>_.
       let b = data ! pos; v' = push_bit 7 v OR ucast (b AND 0x7f)
       in if b AND 0x80 = 0 then Inr (v', pos + 1) else read_varlen_loop i v' data (pos + 1) fin)"

definition read_varlen :: "u8 list \<Rightarrow> nat \<Rightarrow> nat \<Rightarrow> error + (u32 \<times> nat)" where
  "read_varlen data pos fin = read_varlen_loop 4 0 data pos fin"

section \<open>Events\<close>

datatype raw_kind = RkNote | RkControl | RkProgram | RkKeyPressure | RkPitchBend | RkChannelPressure

record raw_event =
  re_tick :: u32
  re_order :: u32
  re_kind :: raw_kind
  re_channel :: nat
  re_a :: int
  re_b :: int
  re_note_on_status :: bool

definition event_data_bytes :: "u8 \<Rightarrow> nat" where
  "event_data_bytes status_type =
     (if status_type = 0x80 \<or> status_type = 0x90 \<or> status_type = 0xa0 \<or> status_type = 0xb0 \<or> status_type = 0xe0
      then 2 else if status_type = 0xc0 \<or> status_type = 0xd0 then 1 else 0)"

definition raw_kind_of :: "u8 \<Rightarrow> raw_kind" where
  "raw_kind_of type =
     (if type = 0xb0 then RkControl else if type = 0xc0 then RkProgram
      else if type = 0xa0 then RkKeyPressure else if type = 0xe0 then RkPitchBend
      else if type = 0xd0 then RkChannelPressure else RkNote)"

record tempo_event =
  te_tick :: u32
  te_tempo :: u32
  te_order :: u32

record tick_event =
  tk_tick :: u32
  tk_order :: u32
  tk_event :: note_event

section \<open>The track loop\<close>

text \<open>The parser's variables during a track; a \<open>running_status\<close> of \<open>-1\<close> is \<open>None\<close>.\<close>

record track_state =
  ts_pos :: nat
  ts_tick :: u32
  ts_running_status :: "u8 option"
  ts_saw_end_of_track :: bool
  ts_raw_events :: "raw_event list"
  ts_tempos :: "tempo_event list"
  ts_event_order :: u32

definition meta_event :: "u8 list \<Rightarrow> nat \<Rightarrow> track_state \<Rightarrow> error + track_state" where
  "meta_event data fin st =
     ebind (require_track_bytes (ts_pos st) fin 1 ''meta event'') (\<lambda>_.
       let meta = data ! ts_pos st
       in ebind (read_varlen data (ts_pos st + 1) fin) (\<lambda>(len, pos).
          ebind (require_track_bytes pos fin (unat len) ''meta payload'') (\<lambda>_.
          ebind (if meta = 0x2f then
                   (if len \<noteq> 0 then Inl (RuntimeError ''MIDI End of Track must have zero length'')
                    else if pos \<noteq> fin then Inl (RuntimeError ''MIDI End of Track must be the final track event'')
                    else Inr (st\<lparr> ts_saw_end_of_track := True \<rparr>))
                 else if meta = 0x51 \<and> len = 3 then
                   Inr (st\<lparr> ts_tempos := ts_tempos st @
                     [\<lparr> te_tick = ts_tick st,
                        te_tempo = push_bit 16 (ucast (data ! pos)) OR push_bit 8 (ucast (data ! (pos + 1))) OR
                          ucast (data ! (pos + 2)),
                        te_order = ts_event_order st \<rparr>] \<rparr>)
                 else Inr st)
            (\<lambda>st1. Inr (st1\<lparr> ts_event_order := ts_event_order st1 + 1, ts_pos := pos + unat len \<rparr>)))))"

definition sysex_event :: "u8 list \<Rightarrow> nat \<Rightarrow> track_state \<Rightarrow> error + track_state" where
  "sysex_event data fin st =
     ebind (read_varlen data (ts_pos st) fin) (\<lambda>(len, pos).
       ebind (require_track_bytes pos fin (unat len) ''sysex payload'') (\<lambda>_.
         Inr (st\<lparr> ts_event_order := ts_event_order st + 1, ts_pos := pos + unat len \<rparr>)))"

definition channel_event :: "u8 list \<Rightarrow> nat \<Rightarrow> u8 \<Rightarrow> track_state \<Rightarrow> error + track_state" where
  "channel_event data fin status st =
     (let type = status AND 0xf0; ch = status AND 0x0f; data_bytes = event_data_bytes type
      in if data_bytes = 0 then Inl (RuntimeError ''unsupported MIDI status'')
         else ebind (read_data_byte data (ts_pos st) fin ''channel event'') (\<lambda>(a, pos1).
              ebind (if data_bytes = 2 then read_data_byte data pos1 fin ''channel event'' else Inr (0, pos1)) (\<lambda>(b, pos2).
                Inr (st\<lparr> ts_raw_events := ts_raw_events st @
                       [\<lparr> re_tick = ts_tick st, re_order = ts_event_order st, re_kind = raw_kind_of type,
                          re_channel = unat ch, re_a = uint a, re_b = uint b, re_note_on_status = (type = 0x90) \<rparr>],
                     ts_event_order := ts_event_order st + 1, ts_pos := pos2 \<rparr>))))"

text \<open>The status byte, or the running status when it is omitted.\<close>

definition event_status :: "u8 list \<Rightarrow> track_state \<Rightarrow> error + (u8 \<times> track_state)" where
  "event_status data st =
     (let status = data ! ts_pos st
      in if status AND 0x80 \<noteq> 0
         then Inr (status, st\<lparr> ts_pos := ts_pos st + 1,
                ts_running_status := (if status \<ge> 0x80 \<and> status \<le> 0xef then Some status else None) \<rparr>)
         else case ts_running_status st of
                Some running \<Rightarrow> Inr (running, st)
              | None \<Rightarrow> Inl (RuntimeError ''MIDI running status without previous status''))"

definition track_event :: "u8 list \<Rightarrow> nat \<Rightarrow> track_state \<Rightarrow> error + track_state" where
  "track_event data fin st =
     ebind (read_varlen data (ts_pos st) fin) (\<lambda>(delta, pos).
       if delta > 0xffffffff - ts_tick st then Inl (RuntimeError ''MIDI tick overflow'')
       else ebind (require_track_bytes pos fin 1 ''event'') (\<lambda>_.
            ebind (event_status data (st\<lparr> ts_pos := pos, ts_tick := ts_tick st + delta \<rparr>)) (\<lambda>(status, st1).
              if status = 0xff then meta_event data fin st1
              else if status = 0xf0 \<or> status = 0xf7 then sysex_event data fin st1
              else channel_event data fin status st1)))"

partial_function (option) parse_track :: "u8 list \<Rightarrow> nat \<Rightarrow> track_state \<Rightarrow> (error + track_state) option" where
  "parse_track data fin st =
     (if ts_pos st < fin
      then (case track_event data fin st of Inl e \<Rightarrow> Some (Inl e) | Inr st1 \<Rightarrow> parse_track data fin st1)
      else Some (Inr st))"

declare parse_track.simps [code]

definition chunk_id :: "u8 list \<Rightarrow> nat \<Rightarrow> u8 list \<Rightarrow> bool" where
  "chunk_id data pos tag \<longleftrightarrow> take 4 (drop pos data) = tag"

definition mthd :: "u8 list" where "mthd = [0x4d, 0x54, 0x68, 0x64]"
definition mtrk :: "u8 list" where "mtrk = [0x4d, 0x54, 0x72, 0x6b]"

fun parse_tracks :: "nat \<Rightarrow> u8 list \<Rightarrow> track_state \<Rightarrow> (error + track_state) option" where
  "parse_tracks 0 data st = Some (Inr st)"
| "parse_tracks (Suc n) data st =
     (if ts_pos st + 8 > length data \<or> \<not> chunk_id data (ts_pos st) mtrk
      then Some (Inl (RuntimeError ''missing MTrk chunk''))
      else case read_u32be data (ts_pos st + 4) of
             Inl e \<Rightarrow> Some (Inl e)
           | Inr track_size \<Rightarrow>
               (let pos = ts_pos st + 8; fin = pos + unat track_size
                in if unat track_size > length data - pos then Some (Inl (RuntimeError ''truncated MIDI track''))
                   else case parse_track data fin (st\<lparr> ts_pos := pos, ts_tick := 0,
                               ts_running_status := None, ts_saw_end_of_track := False \<rparr>) of
                          None \<Rightarrow> None
                        | Some (Inl e) \<Rightarrow> Some (Inl e)
                        | Some (Inr st1) \<Rightarrow>
                            if \<not> ts_saw_end_of_track st1
                            then Some (Inl (RuntimeError ''MIDI track is missing End of Track''))
                            else parse_tracks n data (st1\<lparr> ts_pos := fin \<rparr>)))"

section \<open>The file\<close>

definition parse_header :: "u8 list \<Rightarrow> error + (u16 \<times> u16 \<times> nat)" where
  "parse_header data =
     (if length data < 14 \<or> \<not> chunk_id data 0 mthd then Inl (RuntimeError ''not a standard MIDI file'')
      else ebind (read_u32be data 4) (\<lambda>header_len.
        if header_len < 6 \<or> 8 + unat header_len > length data then Inl (RuntimeError ''truncated MIDI header'')
        else ebind (read_u16be data 8) (\<lambda>fmt.
             ebind (read_u16be data 10) (\<lambda>track_count.
             ebind (read_u16be data 12) (\<lambda>division.
               if fmt > 2 then Inl (RuntimeError ''unsupported MIDI file format'')
               else if fmt = 0 \<and> track_count \<noteq> 1 then Inl (RuntimeError ''format 0 MIDI must contain one track'')
               else if fmt = 2 then Inl (RuntimeError ''format 2 MIDI is not supported'')
               else if track_count = 0 then Inl (RuntimeError ''MIDI file contains no tracks'')
               else if division AND 0x8000 \<noteq> 0 then Inl (RuntimeError ''SMPTE time division is not supported'')
               else if division = 0 then Inl (RuntimeError ''MIDI PPQ division must be nonzero'')
               else Inr (track_count, division, 8 + unat header_len))))))"

definition initial_track_state :: "nat \<Rightarrow> track_state" where
  "initial_track_state pos =
     \<lparr> ts_pos = pos, ts_tick = 0, ts_running_status = None, ts_saw_end_of_track = False, ts_raw_events = [],
       ts_tempos = [\<lparr> te_tick = 0, te_tempo = 500000, te_order = 0 \<rparr>], ts_event_order = 1 \<rparr>"

text \<open>
  \<open>std::sort\<close> by tick and order: the orders of the events of a file are distinct (short of
  \<open>2^32\<close> events), so the comparison leaves only one sorted sequence.
\<close>

definition sort_raw_events :: "raw_event list \<Rightarrow> raw_event list" where
  "sort_raw_events = sort_key (\<lambda>e. (re_tick e, re_order e))"

definition sort_tempos :: "tempo_event list \<Rightarrow> tempo_event list" where
  "sort_tempos = sort_key (\<lambda>e. (te_tick e, te_order e))"

definition sort_tick_events :: "tick_event list \<Rightarrow> tick_event list" where
  "sort_tick_events = sort_key (\<lambda>e. (tk_tick e, tk_order e))"

section \<open>Programs and banks\<close>

record channel_map =
  cm_program :: "int list"
  cm_bank_msb :: "int list"
  cm_bank_lsb :: "int list"

definition initial_channel_map :: channel_map where
  "initial_channel_map =
     \<lparr> cm_program = replicate 16 0, cm_bank_msb = replicate 16 0, cm_bank_lsb = replicate 16 0 \<rparr>"

definition channel_bank :: "channel_map \<Rightarrow> nat \<Rightarrow> int" where
  "channel_bank m ch = push_bit 7 (cm_bank_msb m ! ch) OR cm_bank_lsb m ! ch"

definition convert_event :: "raw_event \<Rightarrow> channel_map \<Rightarrow> note_event option \<times> channel_map" where
  "convert_event raw m =
     (let ch = re_channel raw;
          ev = default_note_event\<lparr> ev_channel := int ch, ev_program := cm_program m ! ch, ev_bank := channel_bank m ch \<rparr>
      in case re_kind raw of
           RkNote \<Rightarrow>
             (Some (ev\<lparr> ev_type := EVENT_NOTE, ev_note := re_a raw,
                        ev_on := re_note_on_status raw \<and> re_b raw \<noteq> 0, ev_velocity := re_b raw \<rparr>), m)
         | RkControl \<Rightarrow>
             (let m1 = (if re_a raw = 0 then m\<lparr> cm_bank_msb := (cm_bank_msb m)[ch := re_b raw] \<rparr>
                        else if re_a raw = 32 then m\<lparr> cm_bank_lsb := (cm_bank_lsb m)[ch := re_b raw] \<rparr> else m)
              in (Some (ev\<lparr> ev_type := EVENT_CONTROL, ev_bank := channel_bank m1 ch,
                            ev_controller := re_a raw AND 0x7f, ev_value := re_b raw AND 0x7f \<rparr>), m1))
         | RkProgram \<Rightarrow> (None, m\<lparr> cm_program := (cm_program m)[ch := re_a raw] \<rparr>)
         | RkKeyPressure \<Rightarrow>
             (Some (ev\<lparr> ev_type := EVENT_KEY_PRESSURE, ev_note := re_a raw AND 0x7f, ev_value := re_b raw AND 0x7f \<rparr>), m)
         | RkPitchBend \<Rightarrow>
             (Some (ev\<lparr> ev_type := EVENT_PITCH_BEND,
                        ev_pitch_bend := (push_bit 7 (re_b raw AND 0x7f) OR (re_a raw AND 0x7f)) - 8192 \<rparr>), m)
         | RkChannelPressure \<Rightarrow>
             (Some (ev\<lparr> ev_type := EVENT_CHANNEL_PRESSURE, ev_value := re_a raw AND 0x7f \<rparr>), m))"

fun convert_events :: "raw_event list \<Rightarrow> channel_map \<Rightarrow> tick_event list" where
  "convert_events [] m = []"
| "convert_events (raw # raws) m =
     (case convert_event raw m of
        (None, m1) \<Rightarrow> convert_events raws m1
      | (Some ev, m1) \<Rightarrow>
          \<lparr> tk_tick = re_tick raw, tk_order = re_order raw, tk_event = ev \<rparr> # convert_events raws m1)"

section \<open>The tempo map\<close>

text \<open>The remaining tempo events, \<open>last_tick\<close>, \<open>last_seconds\<close> and the tempo in force.\<close>

type_synonym tempo_walk = "tempo_event list \<times> u32 \<times> real \<times> u32"

fun advance_tempo ::
    "(real \<Rightarrow> u32 \<Rightarrow> u32 \<Rightarrow> u16 \<Rightarrow> real) \<Rightarrow> u16 \<Rightarrow> u32 \<Rightarrow> tempo_event list \<Rightarrow> u32 \<Rightarrow> real \<Rightarrow> u32 \<Rightarrow> tempo_walk" where
  "advance_tempo add_ticks division tick [] last_tick seconds tempo = ([], last_tick, seconds, tempo)"
| "advance_tempo add_ticks division tick (t # ts) last_tick seconds tempo =
     (if te_tick t \<le> tick
      then advance_tempo add_ticks division tick ts (te_tick t)
             (add_ticks seconds (te_tick t - last_tick) tempo division) (te_tempo t)
      else (t # ts, last_tick, seconds, tempo))"

fun place_events ::
    "(real \<Rightarrow> u32 \<Rightarrow> u32 \<Rightarrow> u16 \<Rightarrow> real) \<Rightarrow> u16 \<Rightarrow> tick_event list \<Rightarrow> tempo_walk \<Rightarrow> note_event list" where
  "place_events add_ticks division [] w = []"
| "place_events add_ticks division (te # tes) (ts, last_tick, seconds, tempo) =
     (let (ts1, last1, seconds1, tempo1) = advance_tempo add_ticks division (tk_tick te) ts last_tick seconds tempo
      in (tk_event te)\<lparr> ev_time_seconds := add_ticks seconds1 (tk_tick te - last1) tempo1 division \<rparr>
         # place_events add_ticks division tes (ts1, last1, seconds1, tempo1))"

definition place_on_tempo_map ::
    "(real \<Rightarrow> u32 \<Rightarrow> u32 \<Rightarrow> u16 \<Rightarrow> real) \<Rightarrow> u16 \<Rightarrow> tempo_event list \<Rightarrow> tick_event list \<Rightarrow> note_event list" where
  "place_on_tempo_map add_ticks division tempos tick_events =
     (case tempos of
        [] \<Rightarrow> []
      | t # ts \<Rightarrow> place_events add_ticks division tick_events (ts, 0, 0, te_tempo t))"

definition parse_midi ::
    "(real \<Rightarrow> u32 \<Rightarrow> u32 \<Rightarrow> u16 \<Rightarrow> real) \<Rightarrow> u8 list \<Rightarrow> (error + note_event list) option" where
  "parse_midi add_ticks data =
     (case parse_header data of
        Inl e \<Rightarrow> Some (Inl e)
      | Inr (track_count, division, pos) \<Rightarrow>
          (case parse_tracks (unat track_count) data (initial_track_state pos) of
             None \<Rightarrow> None
           | Some (Inl e) \<Rightarrow> Some (Inl e)
           | Some (Inr st) \<Rightarrow>
               (let tempos = sort_tempos (ts_tempos st);
                    tick_events = sort_tick_events
                      (convert_events (sort_raw_events (ts_raw_events st)) initial_channel_map)
                in Some (Inr (place_on_tempo_map add_ticks division tempos tick_events)))))"

section \<open>The loop ends\<close>

lemma require_track_bytes_ok: "require_track_bytes pos fin count what = Inr x \<longleftrightarrow> pos + count \<le> fin"
  by (auto simp: require_track_bytes_def split: if_splits)

lemma read_data_byte_ok:
  "read_data_byte data pos fin what = Inr (b, pos') \<Longrightarrow> pos' = pos + 1 \<and> pos + 1 \<le> fin \<and> b = data ! pos \<and> b AND 0x80 = 0"
  by (auto simp: read_data_byte_def ebind_Inr_iff require_track_bytes_ok split: if_splits)

lemma read_varlen_loop_progress:
  "read_varlen_loop i v data pos fin = Inr (w, pos') \<Longrightarrow> pos < pos' \<and> pos' \<le> fin"
  by (induction i arbitrary: v pos)
     (fastforce simp: ebind_Inr_iff require_track_bytes_ok Let_def split: if_splits)+

lemma read_varlen_progress: "read_varlen data pos fin = Inr (w, pos') \<Longrightarrow> pos < pos' \<and> pos' \<le> fin"
  unfolding read_varlen_def by (rule read_varlen_loop_progress)

lemma event_status_pos: "event_status data st = Inr (s, st1) \<Longrightarrow> ts_pos st \<le> ts_pos st1"
  by (auto simp: event_status_def Let_def split: if_splits option.splits)

lemma meta_event_pos: "meta_event data fin st = Inr st1 \<Longrightarrow> ts_pos st < ts_pos st1 \<and> ts_pos st1 \<le> fin"
  by (auto simp: meta_event_def Let_def ebind_Inr_iff require_track_bytes_ok dest!: read_varlen_progress split: if_splits)

lemma sysex_event_pos: "sysex_event data fin st = Inr st1 \<Longrightarrow> ts_pos st < ts_pos st1 \<and> ts_pos st1 \<le> fin"
  by (auto simp: sysex_event_def ebind_Inr_iff require_track_bytes_ok dest!: read_varlen_progress)

lemma channel_event_pos: "channel_event data fin s st = Inr st1 \<Longrightarrow> ts_pos st < ts_pos st1 \<and> ts_pos st1 \<le> fin"
  by (auto simp: channel_event_def Let_def ebind_Inr_iff dest!: read_data_byte_ok split: if_splits)

lemma track_event_pos:
  assumes "track_event data fin st = Inr st1"
  shows "ts_pos st + 2 \<le> ts_pos st1 \<and> ts_pos st1 \<le> fin"
proof -
  obtain delta pos s st0 where v: "read_varlen data (ts_pos st) fin = Inr (delta, pos)"
    and s: "event_status data (st\<lparr> ts_pos := pos, ts_tick := ts_tick st + delta \<rparr>) = Inr (s, st0)"
    and e: "meta_event data fin st0 = Inr st1 \<or> sysex_event data fin st0 = Inr st1 \<or> channel_event data fin s st0 = Inr st1"
    using assms by (auto simp: track_event_def ebind_Inr_iff split: if_splits prod.splits)
  have "ts_pos st < pos" "pos \<le> ts_pos st0" using read_varlen_progress [OF v] event_status_pos [OF s] by simp_all
  moreover have "ts_pos st0 < ts_pos st1 \<and> ts_pos st1 \<le> fin"
    using e meta_event_pos sysex_event_pos channel_event_pos by blast
  ultimately show ?thesis by simp
qed

lemma parse_track_returns: "\<exists>r. parse_track data fin st = Some r"
proof (induction "fin - ts_pos st" arbitrary: st rule: less_induct)
  case less
  show ?case
  proof (cases "ts_pos st < fin \<and> (\<exists>st1. track_event data fin st = Inr st1)")
    case True
    then obtain st1 where st1: "track_event data fin st = Inr st1" "ts_pos st < fin" by blast
    then have "fin - ts_pos st1 < fin - ts_pos st" using track_event_pos [OF st1(1)] st1(2) by linarith
    then show ?thesis using less st1 by (subst parse_track.simps) simp
  next
    case False
    then show ?thesis by (subst parse_track.simps) (cases "track_event data fin st"; simp)
  qed
qed

lemma option_result_cases:
  "\<exists>r. m = Some r \<Longrightarrow> (\<And>x. \<exists>r. k x = Some r) \<Longrightarrow>
     \<exists>r. (case m of None \<Rightarrow> None | Some (Inl e) \<Rightarrow> Some (Inl e) | Some (Inr x) \<Rightarrow> k x) = Some r"
  by (auto split: sum.splits)

lemma parse_tracks_returns: "\<exists>r. parse_tracks n data st = Some r"
proof (induction n arbitrary: st)
  case (Suc n)
  have "\<exists>r. (case parse_track data fin st0 of None \<Rightarrow> None | Some (Inl e) \<Rightarrow> Some (Inl e)
      | Some (Inr st1) \<Rightarrow> if \<not> ts_saw_end_of_track st1 then Some (Inl e')
          else parse_tracks n data (st1\<lparr> ts_pos := fin \<rparr>)) = Some r" for fin st0 e'
    using parse_track_returns by (rule option_result_cases) (simp add: Suc)
  then show ?case by (cases "read_u32be data (ts_pos st + 4)") (simp_all add: Let_def)
qed simp

section \<open>Well-typed events\<close>

definition raw_ok :: "raw_event \<Rightarrow> bool" where
  "raw_ok e \<longleftrightarrow> re_channel e < 16 \<and> 0 \<le> re_a e \<and> re_a e \<le> 127 \<and> 0 \<le> re_b e \<and> re_b e \<le> 127"

lemma data_byte_range: "b AND 0x80 = 0 \<Longrightarrow> uint (b :: u8) \<le> 127"
  using status_bit [of b] by (simp add: word_le_def)

text \<open>A property kept by every event of a track holds at its end.\<close>

lemma parse_track_invariant:
  assumes step: "\<And>st st1. P st \<Longrightarrow> track_event data fin st = Inr st1 \<Longrightarrow> P st1"
    and "P st" and "parse_track data fin st = Some (Inr st')"
  shows "P st'"
  using assms(2,3)
proof (induction "fin - ts_pos st" arbitrary: st rule: less_induct)
  case less
  show ?case
  proof (cases "ts_pos st < fin")
    case True
    then obtain st1 where st1: "track_event data fin st = Inr st1" "parse_track data fin st1 = Some (Inr st')"
      using less.prems(2) by (subst (asm) parse_track.simps) (auto split: sum.splits)
    moreover have "fin - ts_pos st1 < fin - ts_pos st" using track_event_pos [OF st1(1)] True by linarith
    ultimately show ?thesis using less.hyps step [OF less.prems(1)] by blast
  next
    case False
    then show ?thesis using less.prems by (subst (asm) parse_track.simps) simp
  qed
qed

lemma channel_event_raw:
  assumes "channel_event data fin s st = Inr st1"
  shows "\<exists>e. ts_raw_events st1 = ts_raw_events st @ [e] \<and> raw_ok e"
proof -
  have "s AND 0x0f \<le> 0x0f" by (rule word_and_le1)
  then have "unat (s AND 0x0f) < 16" by (simp add: word_le_nat_alt)
  then show ?thesis
    using assms
    by (auto simp: channel_event_def Let_def ebind_Inr_iff raw_ok_def dest!: read_data_byte_ok data_byte_range split: if_splits)
qed

lemma track_event_raw_events:
  assumes "track_event data fin st = Inr st1"
  shows "ts_raw_events st1 = ts_raw_events st \<or> (\<exists>e. ts_raw_events st1 = ts_raw_events st @ [e] \<and> raw_ok e)"
proof -
  obtain pos tick s st0 where s: "event_status data (st\<lparr> ts_pos := pos, ts_tick := tick \<rparr>) = Inr (s, st0)"
    and e: "meta_event data fin st0 = Inr st1 \<or> sysex_event data fin st0 = Inr st1 \<or> channel_event data fin s st0 = Inr st1"
    using assms(1) by (auto simp: track_event_def ebind_Inr_iff split: if_splits prod.splits)
  have "ts_raw_events st0 = ts_raw_events st"
    using s by (auto simp: event_status_def Let_def split: if_splits option.splits)
  moreover have "meta_event data fin st0 = Inr st1 \<Longrightarrow> ts_raw_events st1 = ts_raw_events st0"
    by (auto simp: meta_event_def Let_def ebind_Inr_iff split: if_splits prod.splits)
  moreover have "sysex_event data fin st0 = Inr st1 \<Longrightarrow> ts_raw_events st1 = ts_raw_events st0"
    by (auto simp: sysex_event_def ebind_Inr_iff split: prod.splits)
  ultimately show ?thesis using e channel_event_raw [of data fin s st0 st1] by auto
qed

lemma track_event_raw:
  "track_event data fin st = Inr st1 \<Longrightarrow> list_all raw_ok (ts_raw_events st) \<Longrightarrow> list_all raw_ok (ts_raw_events st1)"
  using track_event_raw_events by fastforce

lemma parse_tracks_SucE:
  assumes "parse_tracks (Suc n) data st = Some (Inr st')"
  obtains w st1 where "ts_pos st + 8 + unat (w :: u32) \<le> length data"
    and "parse_track data (ts_pos st + 8 + unat w) (st\<lparr> ts_pos := ts_pos st + 8, ts_tick := 0,
      ts_running_status := None, ts_saw_end_of_track := False \<rparr>) = Some (Inr st1)"
    and "parse_tracks n data (st1\<lparr> ts_pos := ts_pos st + 8 + unat w \<rparr>) = Some (Inr st')"
proof -
  obtain w st1 where w: "\<not> length data < ts_pos st + 8" "\<not> unat (w :: u32) > length data - (ts_pos st + 8)"
    and "parse_track data (ts_pos st + 8 + unat w) (st\<lparr> ts_pos := ts_pos st + 8, ts_tick := 0,
      ts_running_status := None, ts_saw_end_of_track := False \<rparr>) = Some (Inr st1)"
    and "parse_tracks n data (st1\<lparr> ts_pos := ts_pos st + 8 + unat w \<rparr>) = Some (Inr st')"
    using assms by (auto simp: Let_def split: if_splits sum.splits option.splits)
  moreover have "ts_pos st + 8 + unat w \<le> length data" using w by linarith
  ultimately show ?thesis using that by blast
qed

lemma parse_tracks_raw:
  assumes "parse_tracks n data st = Some (Inr st')" and "list_all raw_ok (ts_raw_events st)"
  shows "list_all raw_ok (ts_raw_events st')"
  using assms
proof (induction n arbitrary: st)
  case (Suc n)
  obtain w st1 where st1: "parse_track data (ts_pos st + 8 + unat (w :: u32)) (st\<lparr> ts_pos := ts_pos st + 8, ts_tick := 0,
      ts_running_status := None, ts_saw_end_of_track := False \<rparr>) = Some (Inr st1)"
    and rest: "parse_tracks n data (st1\<lparr> ts_pos := ts_pos st + 8 + unat w \<rparr>) = Some (Inr st')"
    using parse_tracks_SucE [OF Suc.prems(1)] by blast
  have "list_all raw_ok (ts_raw_events st1)"
    using parse_track_invariant [of "\<lambda>st. list_all raw_ok (ts_raw_events st)", OF track_event_raw _ st1] Suc.prems(2) by simp
  then show ?case using Suc.IH [OF rest] by simp
qed simp

definition channel_map_ok :: "channel_map \<Rightarrow> bool" where
  "channel_map_ok m \<longleftrightarrow> byte7_list (cm_program m) \<and> byte7_list (cm_bank_msb m) \<and> byte7_list (cm_bank_lsb m)"

lemma initial_channel_map_ok: "channel_map_ok initial_channel_map"
  by (simp add: channel_map_ok_def initial_channel_map_def byte7_list_def list_all_iff)

lemma channel_bank_range:
  "channel_map_ok m \<Longrightarrow> ch < 16 \<Longrightarrow> 0 \<le> channel_bank m ch \<and> channel_bank m ch < 16384"
  using pair7_range [of "cm_bank_msb m ! ch" "cm_bank_lsb m ! ch"] byte7_list_nth
  by (simp add: channel_map_ok_def channel_bank_def)

lemma and_7f: "0 \<le> x \<Longrightarrow> x \<le> 127 \<Longrightarrow> x AND 127 = (x :: int)"
proof -
  assume a: "0 \<le> x" "x \<le> 127"
  have "x AND 127 = take_bit 7 x" by (simp add: take_bit_eq_mask mask_eq_exp_minus_1)
  then show ?thesis using a by (simp add: take_bit_int_eq_self)
qed

lemma convert_event_ok:
  assumes "raw_ok raw" and "channel_map_ok m" and "convert_event raw m = (r, m1)"
  shows "channel_map_ok m1" and "r = Some ev \<Longrightarrow> event_in_range ev"
proof -
  let ?ch = "re_channel raw"
  have ch: "?ch < 16" and a: "0 \<le> re_a raw" "re_a raw \<le> 127" and b: "0 \<le> re_b raw" "re_b raw \<le> 127"
    using assms(1) by (simp_all add: raw_ok_def)
  show m1: "channel_map_ok m1"
    using assms(2,3) a b byte7_list_update
    by (auto simp: convert_event_def Let_def channel_map_ok_def split: raw_kind.splits if_splits)
  have prog: "0 \<le> cm_program m ! ?ch \<and> cm_program m ! ?ch \<le> 127"
    using assms(2) ch byte7_list_nth by (simp add: channel_map_ok_def)
  note bank = channel_bank_range [OF assms(2) ch] channel_bank_range [OF m1 ch]
  note bend = pair7_range [OF b a]
  assume "r = Some ev"
  then show "event_in_range ev"
    using assms(3) ch a b prog bank bend
    by (auto simp: convert_event_def Let_def event_in_range_def default_note_event_def and_7f
        split: raw_kind.splits)
qed

lemma convert_events_ok:
  "list_all raw_ok raws \<Longrightarrow> channel_map_ok m \<Longrightarrow> list_all (\<lambda>e. event_in_range (tk_event e)) (convert_events raws m)"
proof (induction raws arbitrary: m)
  case (Cons raw raws)
  then show ?case
    using convert_event_ok [of raw m] by (cases "convert_event raw m") (auto split: option.splits)
qed simp

lemma place_events_map:
  "map (\<lambda>e. e\<lparr> ev_time_seconds := 0 \<rparr>) (place_events add_ticks division tes w) =
     map (\<lambda>e. (tk_event e)\<lparr> ev_time_seconds := 0 \<rparr>) tes"
  by (induction add_ticks division tes w rule: place_events.induct) (auto simp: Let_def split: prod.splits)

lemma event_in_range_time [simp]: "event_in_range (e\<lparr> ev_time_seconds := t \<rparr>) = event_in_range e"
  by (simp add: event_in_range_def)

lemma place_events_range:
  "list_all (\<lambda>e. event_in_range (tk_event e)) tes \<Longrightarrow> list_all event_in_range (place_events add_ticks division tes w)"
  by (induction add_ticks division tes w rule: place_events.induct) (auto simp: Let_def split: prod.splits)

lemma place_on_tempo_map_range:
  "list_all (\<lambda>e. event_in_range (tk_event e)) tes \<Longrightarrow>
     list_all event_in_range (place_on_tempo_map add_ticks division tempos tes)"
  by (simp add: place_on_tempo_map_def place_events_range split: list.splits)

section \<open>Times along the tempo map\<close>

text \<open>
  What the conversion is required to do: adding ticks never goes back in time, and more ticks are
  never earlier. Rounding to the nearest \<open>double\<close> is monotone, so the source's expression has
  both properties.
\<close>

definition ticks_monotone :: "(real \<Rightarrow> u32 \<Rightarrow> u32 \<Rightarrow> u16 \<Rightarrow> real) \<Rightarrow> bool" where
  "ticks_monotone add_ticks \<longleftrightarrow>
     (\<forall>s d t v. s \<le> add_ticks s d t v) \<and> (\<forall>s d d' t v. d \<le> d' \<longrightarrow> add_ticks s d t v \<le> add_ticks s d' t v)"

lemma ticks_monotoneD:
  assumes "ticks_monotone add_ticks"
  shows "s \<le> add_ticks s d t v" and "d \<le> d' \<Longrightarrow> add_ticks s d t v \<le> add_ticks s d' t v"
  using assms by (auto simp: ticks_monotone_def)

lemma word_sub_mono: "a \<le> b \<Longrightarrow> b \<le> c \<Longrightarrow> b - a \<le> c - (a :: u32)"
  by unat_arith

lemma advance_tempo_later:
  assumes "ticks_monotone add_ticks"
    and "advance_tempo add_ticks division tick ts since sec tempo = (ts1, since1, sec1, tempo1)"
    and "since \<le> tick" and "sorted (map te_tick ts)"
  shows "sec \<le> sec1 \<and> since1 \<le> tick \<and> (\<forall>t\<in>set ts1. tick < te_tick t) \<and> sorted (map te_tick ts1)"
  using assms(2-)
proof (induction ts arbitrary: since sec tempo)
  case (Cons t ts)
  show ?case
  proof (cases "te_tick t \<le> tick")
    case True
    then have "add_ticks sec (te_tick t - since) tempo division \<le> sec1 \<and> since1 \<le> tick \<and>
        (\<forall>t\<in>set ts1. tick < te_tick t) \<and> sorted (map te_tick ts1)"
      using Cons.IH [of "te_tick t" "add_ticks sec (te_tick t - since) tempo division" "te_tempo t"] Cons.prems by simp
    then show ?thesis using ticks_monotoneD(1) [OF assms(1), of sec "te_tick t - since" tempo division] by linarith
  next
    case False
    then have "ts1 = t # ts" "since1 = since" "sec1 = sec" "tick < te_tick t" using Cons.prems(1) by auto
    then show ?thesis using Cons.prems(2,3) by auto
  qed
qed simp

text \<open>An event is never placed before an earlier one, whatever tempo changes lie between.\<close>

lemma advance_tempo_order:
  assumes "ticks_monotone add_ticks"
    and "advance_tempo add_ticks division tick ts since sec tempo = (ts1, since1, sec1, tempo1)"
    and "since \<le> tick0" and "tick0 \<le> tick" and "sorted (map te_tick ts)" and "\<forall>t\<in>set ts. tick0 < te_tick t"
  shows "add_ticks sec (tick0 - since) tempo division \<le> add_ticks sec1 (tick - since1) tempo1 division"
proof (cases "\<exists>t ts'. ts = t # ts' \<and> te_tick t \<le> tick")
  case True
  then obtain t ts' where t: "ts = t # ts'" "te_tick t \<le> tick" by blast
  note add = ticks_monotoneD [OF assms(1)]
  let ?sec = "add_ticks sec (te_tick t - since) tempo division"
  have "add_ticks sec (tick0 - since) tempo division \<le> ?sec"
    using assms(3,6) t by (intro add(2) word_sub_mono) auto
  also have "?sec \<le> sec1"
    using advance_tempo_later [OF assms(1), of division tick ts' "te_tick t" ?sec "te_tempo t"] assms(2,5) t by simp
  also have "sec1 \<le> add_ticks sec1 (tick - since1) tempo1 division" by (rule add(1))
  finally show ?thesis .
next
  case False
  then have "ts1 = ts \<and> since1 = since \<and> sec1 = sec \<and> tempo1 = tempo" using assms(2) by (cases ts) auto
  then show ?thesis using ticks_monotoneD(2) [OF assms(1) word_sub_mono [OF assms(3,4)]] by simp
qed

lemma place_events_order:
  assumes "ticks_monotone add_ticks" and "sorted (map tk_tick tes)" and "\<forall>e\<in>set tes. tick0 \<le> tk_tick e"
    and "since \<le> tick0" and "sorted (map te_tick ts)" and "\<forall>t\<in>set ts. tick0 < te_tick t"
  shows "sorted (add_ticks sec (tick0 - since) tempo division #
    map ev_time_seconds (place_events add_ticks division tes (ts, since, sec, tempo)))"
  using assms(2-)
proof (induction tes arbitrary: tick0 ts since sec tempo)
  case (Cons e tes)
  obtain ts1 since1 sec1 tempo1 where adv:
    "advance_tempo add_ticks division (tk_tick e) ts since sec tempo = (ts1, since1, sec1, tempo1)"
    by (metis prod_cases4)
  have le: "tick0 \<le> tk_tick e" "since \<le> tk_tick e" using Cons.prems by auto
  note later = advance_tempo_later [OF assms(1) adv le(2) Cons.prems(4)]
  have "sorted (add_ticks sec1 (tk_tick e - since1) tempo1 division #
      map ev_time_seconds (place_events add_ticks division tes (ts1, since1, sec1, tempo1)))"
    using later Cons.prems(1) by (intro Cons.IH) auto
  moreover have "add_ticks sec (tick0 - since) tempo division \<le> add_ticks sec1 (tk_tick e - since1) tempo1 division"
    by (rule advance_tempo_order [OF assms(1) adv Cons.prems(3) le(1) Cons.prems(4,5)])
  ultimately show ?case using adv by auto
qed simp

lemma place_on_tempo_map_order:
  assumes "ticks_monotone add_ticks" and "sorted (map tk_tick tes)" and "sorted (map te_tick tempos)"
  shows "sorted (0 # map ev_time_seconds (place_on_tempo_map add_ticks division tempos tes))"
proof (cases "tempos = [] \<or> tes = []")
  case True
  then show ?thesis by (auto simp: place_on_tempo_map_def split: list.splits)
next
  case False
  then obtain t ts e tes' where eq: "tempos = t # ts" "tes = e # tes'" by (meson neq_Nil_conv)
  obtain ts1 since1 sec1 tempo1 where adv:
    "advance_tempo add_ticks division (tk_tick e) ts 0 0 (te_tempo t) = (ts1, since1, sec1, tempo1)"
    by (metis prod_cases4)
  have later: "0 \<le> sec1 \<and> since1 \<le> tk_tick e \<and> (\<forall>t\<in>set ts1. tk_tick e < te_tick t) \<and> sorted (map te_tick ts1)"
    using advance_tempo_later [OF assms(1) adv] assms(3) eq by simp
  have "sorted (add_ticks sec1 (tk_tick e - since1) tempo1 division #
      map ev_time_seconds (place_events add_ticks division tes' (ts1, since1, sec1, tempo1)))"
    using later assms(2) eq by (intro place_events_order [OF assms(1)]) auto
  moreover have "0 \<le> add_ticks sec1 (tk_tick e - since1) tempo1 division"
    using later ticks_monotoneD(1) [OF assms(1)] order_trans by blast
  ultimately show ?thesis using adv eq by (auto simp: place_on_tempo_map_def)
qed

lemma sorted_first: "sorted (map (\<lambda>e. (f e :: u32, g e :: u32)) xs) \<Longrightarrow> sorted (map f xs)"
  by (induction xs) (auto simp: less_eq_prod_def)

section \<open>Bytes and events\<close>

lemma raw_events_counted:
  assumes "track_event data fin st = Inr st1" and "2 * length (ts_raw_events st) \<le> ts_pos st"
  shows "2 * length (ts_raw_events st1) \<le> ts_pos st1"
proof -
  have "length (ts_raw_events st1) \<le> length (ts_raw_events st) + 1"
    using track_event_raw_events [OF assms(1)] by auto
  then show ?thesis using track_event_pos [OF assms(1)] assms(2) by linarith
qed

lemma parse_tracks_counted:
  assumes "parse_tracks n data st = Some (Inr st')" and "2 * length (ts_raw_events st) \<le> ts_pos st"
    and "ts_pos st \<le> length data"
  shows "2 * length (ts_raw_events st') \<le> length data"
  using assms
proof (induction n arbitrary: st)
  case (Suc n)
  obtain w st1 where fin: "ts_pos st + 8 + unat (w :: u32) \<le> length data"
    and st1: "parse_track data (ts_pos st + 8 + unat w) (st\<lparr> ts_pos := ts_pos st + 8, ts_tick := 0,
      ts_running_status := None, ts_saw_end_of_track := False \<rparr>) = Some (Inr st1)"
    and rest: "parse_tracks n data (st1\<lparr> ts_pos := ts_pos st + 8 + unat w \<rparr>) = Some (Inr st')"
    using parse_tracks_SucE [OF Suc.prems(1)] by blast
  let ?P = "\<lambda>s. 2 * length (ts_raw_events s) \<le> ts_pos s \<and> ts_pos s \<le> ts_pos st + 8 + unat w"
  have "?P st1"
    using parse_track_invariant [of ?P, OF _ _ st1] raw_events_counted track_event_pos Suc.prems(2) by fastforce
  then show ?case using Suc.IH [OF rest] fin by simp
qed simp

lemma convert_events_length: "length (convert_events raws m) \<le> length raws"
proof (induction raws arbitrary: m)
  case (Cons raw raws)
  then show ?case by (cases "convert_event raw m") (auto intro: le_SucI split: option.splits)
qed simp

lemma place_events_length [simp]: "length (place_events add_ticks division tes w) = length tes"
  using arg_cong [OF place_events_map [of add_ticks division tes w], of length] by simp

lemma place_on_tempo_map_length: "length (place_on_tempo_map add_ticks division tempos tes) \<le> length tes"
  by (simp add: place_on_tempo_map_def split: list.splits)

lemma parse_header_pos:
  assumes "parse_header data = Inr (n, v, pos)"
  shows "pos \<le> length data"
  using assms by (auto simp: parse_header_def ebind_Inr_iff split: if_splits)

lemma parse_midi_cases:
  assumes "parse_midi add_ticks data = Some (Inr events)"
  obtains n v pos st where "parse_header data = Inr (n, v, pos)"
    and "parse_tracks (unat n) data (initial_track_state pos) = Some (Inr st)"
    and "events = place_on_tempo_map add_ticks v (sort_tempos (ts_tempos st))
      (sort_tick_events (convert_events (sort_raw_events (ts_raw_events st)) initial_channel_map))"
  using assms by (auto simp: parse_midi_def Let_def split: sum.splits prod.splits option.splits)

section \<open>Properties\<close>

text \<open>C17: The MIDI file parser always returns. On every sequence of bytes, however malformed, the
  track loops end, and the parser returns an error or a list of events; it never returns more than
  one event for two bytes of the file.\<close>

theorem parse_midi_terminates:
  "\<exists>r. parse_midi add_ticks data = Some r \<and> (case r of Inl e \<Rightarrow> True | Inr events \<Rightarrow> 2 * length events \<le> length data)"
proof -
  have "\<exists>r. parse_midi add_ticks data = Some r"
  proof (cases "parse_header data")
    case (Inr h)
    obtain n v pos where h: "h = (n, v, pos)" by (cases h)
    obtain r where "parse_tracks (unat n) data (initial_track_state pos) = Some r" using parse_tracks_returns by blast
    then show ?thesis using Inr h by (cases r) (simp_all add: parse_midi_def Let_def)
  qed (simp add: parse_midi_def)
  then obtain r where r: "parse_midi add_ticks data = Some r" by blast
  have "2 * length events \<le> length data" if events: "r = Inr events" for events
  proof -
    obtain n v pos st where st: "parse_header data = Inr (n, v, pos)"
        "parse_tracks (unat n) data (initial_track_state pos) = Some (Inr st)"
      and ev: "events = place_on_tempo_map add_ticks v (sort_tempos (ts_tempos st))
        (sort_tick_events (convert_events (sort_raw_events (ts_raw_events st)) initial_channel_map))"
      using parse_midi_cases r events by metis
    have "2 * length (ts_raw_events st) \<le> length data"
      using parse_tracks_counted [OF st(2)] parse_header_pos [OF st(1)] by (simp add: initial_track_state_def)
    moreover have "length events \<le> length (ts_raw_events st)"
      unfolding ev sort_raw_events_def sort_tick_events_def
      by (rule order_trans [OF place_on_tempo_map_length]) (simp, rule order_trans [OF convert_events_length], simp)
    ultimately show ?thesis by linarith
  qed
  then show ?thesis using r by (auto split: sum.splits)
qed

text \<open>Every event the parser returns is well typed: channel, program, bank, note, velocity,
  controller, value and pitch bend lie in their MIDI ranges, so that every array the players index
  with them is large enough.\<close>

theorem parse_midi_events_in_range:
  assumes "parse_midi add_ticks data = Some (Inr events)"
  shows "list_all event_in_range events"
proof -
  obtain n v pos st where h: "parse_header data = Inr (n, v, pos)"
    and st: "parse_tracks (unat n) data (initial_track_state pos) = Some (Inr st)"
    and ev: "events = place_on_tempo_map add_ticks v (sort_tempos (ts_tempos st))
      (sort_tick_events (convert_events (sort_raw_events (ts_raw_events st)) initial_channel_map))"
    using parse_midi_cases [OF assms] .
  have "list_all raw_ok (ts_raw_events st)"
    using parse_tracks_raw [OF st] by (simp add: initial_track_state_def)
  then have "list_all raw_ok (sort_raw_events (ts_raw_events st))" by (simp add: sort_raw_events_def list_all_iff)
  then have "list_all (\<lambda>e. event_in_range (tk_event e))
      (convert_events (sort_raw_events (ts_raw_events st)) initial_channel_map)"
    by (rule convert_events_ok) (rule initial_channel_map_ok)
  then show ?thesis
    unfolding ev by (intro place_on_tempo_map_range) (simp add: sort_tick_events_def list_all_iff)
qed

text \<open>
  A small file: format 0, 480 ticks per quarter note, one track that sets the tempo to 250000
  microseconds, selects program 5 on channel 2, plays a note for 480 ticks with running status
  and ends.
\<close>

definition demo_midi :: "u8 list" where
  "demo_midi =
     [0x4d, 0x54, 0x68, 0x64, 0, 0, 0, 6, 0, 0, 0, 1, 1, 0xe0,
      0x4d, 0x54, 0x72, 0x6b, 0, 0, 0, 22,
      0, 0xff, 0x51, 3, 0x03, 0xd0, 0x90,
      0, 0xc2, 5,
      0, 0x92, 60, 100,
      0x83, 0x60, 60, 0,
      0, 0xff, 0x2f, 0]"

definition exact_ticks :: "real \<Rightarrow> u32 \<Rightarrow> u32 \<Rightarrow> u16 \<Rightarrow> real" where
  "exact_ticks s d tempo division =
     s + real_of_int (uint d * uint tempo) / real_of_int (uint division) / 1000000"

lemma exact_ticks_monotone: "ticks_monotone exact_ticks"
proof -
  have nonneg: "0 \<le> real_of_int x / real_of_int v / 1000000" if "0 \<le> x" "0 \<le> v" for x v :: int
    using that by simp
  have mono: "real_of_int x / real_of_int v / 1000000 \<le> real_of_int y / real_of_int v / 1000000"
    if "x \<le> y" "0 \<le> v" for x y v :: int
    using that by (intro divide_right_mono) simp_all
  have le: "uint d * uint tempo \<le> uint d' * uint tempo" if "d \<le> d'" for d d' tempo :: u32
    using that by (intro mult_right_mono) (simp_all add: word_le_def)
  show ?thesis unfolding ticks_monotone_def exact_ticks_def
  proof (intro conjI allI impI)
    fix s and d t :: u32 and v :: u16
    show "s \<le> s + real_of_int (uint d * uint t) / real_of_int (uint v) / 1000000"
      using nonneg [of "uint d * uint t" "uint v"] by (simp only: le_add_same_cancel1) simp
  next
    fix s and d d' t :: u32 and v :: u16 assume "d \<le> d'"
    then show "s + real_of_int (uint d * uint t) / real_of_int (uint v) / 1000000 \<le>
        s + real_of_int (uint d' * uint t) / real_of_int (uint v) / 1000000"
      using mono [OF le, of d d' "uint v" t] by (simp only: add_le_cancel_left) simp
  qed
qed

lemma demo_header: "parse_header demo_midi = Inr (1, 480, 14)"
  by code_simp

definition demo_end :: track_state where
  "demo_end =
     \<lparr> ts_pos = 44, ts_tick = 480, ts_running_status = None, ts_saw_end_of_track = True,
       ts_raw_events =
         [\<lparr> re_tick = 0, re_order = 2, re_kind = RkProgram, re_channel = 2, re_a = 5, re_b = 0, re_note_on_status = False \<rparr>,
          \<lparr> re_tick = 0, re_order = 3, re_kind = RkNote, re_channel = 2, re_a = 60, re_b = 100, re_note_on_status = True \<rparr>,
          \<lparr> re_tick = 480, re_order = 4, re_kind = RkNote, re_channel = 2, re_a = 60, re_b = 0, re_note_on_status = True \<rparr>],
       ts_tempos = [\<lparr> te_tick = 0, te_tempo = 500000, te_order = 0 \<rparr>, \<lparr> te_tick = 0, te_tempo = 250000, te_order = 1 \<rparr>],
       ts_event_order = 6 \<rparr>"

lemma demo_tracks: "parse_tracks 1 demo_midi (initial_track_state 14) = Some (Inr demo_end)"
  by code_simp

definition demo_note :: "real \<Rightarrow> bool \<Rightarrow> int \<Rightarrow> note_event" where
  "demo_note t on velocity = default_note_event\<lparr> ev_time_seconds := t, ev_note := 60, ev_on := on,
     ev_velocity := velocity, ev_channel := 2, ev_program := 5 \<rparr>"

lemma demo_sorted:
  "sort_tempos (ts_tempos demo_end) = ts_tempos demo_end"
  "sort_raw_events (ts_raw_events demo_end) = ts_raw_events demo_end"
  by (simp_all add: sort_tempos_def sort_raw_events_def demo_end_def less_eq_prod_def)

lemma demo_converted:
  "sort_tick_events (convert_events (ts_raw_events demo_end) initial_channel_map) =
     [\<lparr> tk_tick = 0, tk_order = 3, tk_event = demo_note 0 True 100 \<rparr>,
      \<lparr> tk_tick = 480, tk_order = 4, tk_event = demo_note 0 False 0 \<rparr>]"
  by (simp add: demo_end_def convert_event_def Let_def initial_channel_map_def sort_tick_events_def
      demo_note_def default_note_event_def channel_bank_def less_eq_prod_def nth_list_update)

lemma demo_parsed: "parse_midi exact_ticks demo_midi = Some (Inr [demo_note 0 True 100, demo_note (1 / 4) False 0])"
proof -
  have tempos: "ts_tempos demo_end =
      [\<lparr> te_tick = 0, te_tempo = 500000, te_order = 0 \<rparr>, \<lparr> te_tick = 0, te_tempo = 250000, te_order = 1 \<rparr>]"
    by (simp add: demo_end_def)
  have "place_on_tempo_map exact_ticks 480 (ts_tempos demo_end)
      [\<lparr> tk_tick = 0, tk_order = 3, tk_event = demo_note 0 True 100 \<rparr>,
       \<lparr> tk_tick = 480, tk_order = 4, tk_event = demo_note 0 False 0 \<rparr>] =
      [demo_note 0 True 100, demo_note (1 / 4) False 0]"
    unfolding tempos by (simp add: place_on_tempo_map_def exact_ticks_def demo_note_def)
  then show ?thesis
    using demo_tracks by (simp add: parse_midi_def demo_header demo_sorted demo_converted Let_def)
qed

theorem parse_midi_events_in_range_witness:
  "list_all event_in_range [demo_note 0 True 100, demo_note (1 / 4) False 0]"
  using parse_midi_events_in_range [OF demo_parsed] .

lemma playback_load_ordered:
  assumes "sorted (prev # map ev_time_seconds events)" and "0 \<le> prev"
    and "\<forall>e\<in>set events. scale (ev_time_seconds e) \<le> min (real_of_int (18446744073709551615 - uint start)) 9223372036854775807"
  shows "\<exists>p'. playback_load scale start prev events p = Inr p' \<and> map te_event (mp_events p') = map te_event (mp_events p) @ events"
  using assms
proof (induction events arbitrary: prev p)
  case (Cons e events)
  let ?p = "p\<lparr> mp_events := mp_events p @ [\<lparr> te_timestamp_ns = start + of_int \<lfloor>scale (ev_time_seconds e) + 1 / 2\<rfloor>, te_event = e \<rparr>],
    mp_end_timestamp_ns := start + of_int \<lfloor>scale (ev_time_seconds e) + 1 / 2\<rfloor> \<rparr>"
  have "\<exists>p'. playback_load scale start (ev_time_seconds e) events ?p = Inr p' \<and>
      map te_event (mp_events p') = map te_event (mp_events ?p) @ events"
    using Cons.prems by (intro Cons.IH) auto
  moreover have "\<not> ev_time_seconds e < 0" "\<not> ev_time_seconds e < prev"
    "\<not> scale (ev_time_seconds e) > min (real_of_int (18446744073709551615 - uint start)) 9223372036854775807"
    using Cons.prems by (auto simp: not_less)
  ultimately show ?case by (simp only: playback_load.simps if_False simp_thms Let_def) simp
qed simp

text \<open>C16: A parsed file plays. Provided that the conversion of ticks to seconds is monotone, the events
  come out with nonnegative, nondecreasing times, across every tempo change and however the tracks
  interleave; so the playback of \<open>realtime_midi.cpp\<close>, which refuses negative or unordered
  times, accepts every parsed file whose times fit its clock, and plays exactly these events.\<close>

theorem parsed_file_plays:
  assumes "ticks_monotone add_ticks" and "parse_midi add_ticks data = Some (Inr events)"
  shows "sorted (0 # map ev_time_seconds events) \<and>
    ((\<forall>e\<in>set events. scale (ev_time_seconds e) \<le> min (real_of_int (18446744073709551615 - uint start)) 9223372036854775807) \<longrightarrow>
     (\<exists>p. playback_new scale events start = Inr p \<and> map te_event (mp_events p) = events))"
proof -
  obtain n v pos st where h: "parse_header data = Inr (n, v, pos)"
    and st: "parse_tracks (unat n) data (initial_track_state pos) = Some (Inr st)"
    and ev: "events = place_on_tempo_map add_ticks v (sort_tempos (ts_tempos st))
      (sort_tick_events (convert_events (sort_raw_events (ts_raw_events st)) initial_channel_map))"
    using parse_midi_cases [OF assms(2)] .
  have order: "sorted (0 # map ev_time_seconds events)"
    unfolding ev sort_tempos_def sort_tick_events_def
    by (intro place_on_tempo_map_order [OF assms(1)] sorted_first [OF sorted_sort_key])
  then show ?thesis
    using playback_load_ordered [of 0 events scale start "\<lparr> mp_events = [], mp_next_event = 0,
      mp_end_timestamp_ns = start, mp_lifecycle_overflow = False \<rparr>"]
    by (auto simp: playback_new_def)
qed

theorem parsed_file_plays_witness:
  "sorted (map ev_time_seconds [demo_note 0 True 100, demo_note (1 / 4) False 0]) \<and>
   (\<exists>p. playback_new (\<lambda>t. t * 1000000000) [demo_note 0 True 100, demo_note (1 / 4) False 0] 5 = Inr p)"
  using parsed_file_plays [OF exact_ticks_monotone demo_parsed, of "\<lambda>t. t * 1000000000" 5]
  by (simp add: demo_note_def) blast

end
