(* ===== verification/Midi_Roundtrip.thy ===== *)
theory Midi_Roundtrip
  imports Midi_File
begin

text \<open>
  Reading back standard MIDI files: an encoder for tracks of channel, meta and system-exclusive
  messages with delta times, the effect each message is meant to have, and the proof that the
  parser of \<open>src/sim/harness/formats/midi_parser.cpp\<close> has exactly that effect on the encoded bytes.
\<close>

section \<open>Variable-length quantities\<close>

fun cont_bytes :: "nat \<Rightarrow> u32 \<Rightarrow> u8 list" where
  "cont_bytes 0 v = []"
| "cont_bytes (Suc n) v = cont_bytes n (drop_bit 7 v) @ [ucast v AND 0x7f OR 0x80]"

definition varlen_size :: "u32 \<Rightarrow> nat" where
  "varlen_size v = (if v < 0x80 then 0 else if v < 0x4000 then 1 else if v < 0x200000 then 2 else 3)"

definition varlen_bytes :: "u32 \<Rightarrow> u8 list" where
  "varlen_bytes v = cont_bytes (varlen_size v) (drop_bit 7 v) @ [ucast v AND 0x7f]"

lemma length_cont_bytes [simp]: "length (cont_bytes n v) = n"
  by (induction n arbitrary: v) simp_all

lemma septets:
  "push_bit 7 (drop_bit 7 v) OR ucast ((ucast v AND 0x7f OR 0x80 :: u8) AND 0x7f) = (v :: u32)"
  "push_bit 7 (drop_bit 7 v) OR ucast ((ucast v AND 0x7f :: u8) AND 0x7f) = (v :: u32)"
  "(ucast v AND 0x7f OR 0x80 :: u8) AND 0x80 \<noteq> 0" "(ucast v AND 0x7f :: u8) AND 0x80 = 0"
proof -
  have m: "(0x7f :: u8) = mask 7" by (simp add: mask_eq_exp_minus_1)
  have drop: "(x OR 0x80) AND 0x7f = x AND (0x7f :: u8)" for x by (simp add: bit.conj_disj_distrib2)
  have low: "push_bit 7 (drop_bit 7 v) OR ucast ((ucast v AND 0x7f :: u8) AND 0x7f) = v"
  proof (rule bit_word_eqI)
    fix n assume "n < LENGTH(32)"
    then show "bit (push_bit 7 (drop_bit 7 v) OR ucast ((ucast v AND 0x7f :: u8) AND 0x7f)) n = bit v n"
      unfolding m by (cases "n < 7") (auto simp: bit_simps)
  qed
  then show "push_bit 7 (drop_bit 7 v) OR ucast ((ucast v AND 0x7f :: u8) AND 0x7f) = v" .
  show "push_bit 7 (drop_bit 7 v) OR ucast ((ucast v AND 0x7f OR 0x80 :: u8) AND 0x7f) = v"
    unfolding drop using low .
  have "(x AND 0x7f OR 0x80) AND 0x80 = (0x80 :: u8)" for x by (simp add: bit.conj_disj_distrib2 and.assoc)
  moreover have "(0x80 :: u8) \<noteq> 0" by simp
  ultimately show "(ucast v AND 0x7f OR 0x80 :: u8) AND 0x80 \<noteq> 0" by metis
  show "(ucast v AND 0x7f :: u8) AND 0x80 = 0" by (simp add: and.assoc)
qed

lemma require_ok [simp]: "pos + c \<le> fin \<Longrightarrow> require_track_bytes pos fin c what = Inr ()"
  by (simp add: require_track_bytes_def)

lemma read_cont_bytes:
  "bytes_at data pos (cont_bytes n w) \<Longrightarrow> pos + n \<le> fin \<Longrightarrow> drop_bit (7 * n) w = 0 \<Longrightarrow>
     read_varlen_loop (n + k) 0 data pos fin = read_varlen_loop k w data (pos + n) fin"
proof (induction n arbitrary: w k)
  case 0
  then show ?case by simp
next
  case (Suc n)
  have b: "data ! (pos + n) = ucast w AND 0x7f OR 0x80" "bytes_at data pos (cont_bytes n (drop_bit 7 w))"
    using Suc.prems(1) by (auto simp: bytes_at_Cons)
  have "read_varlen_loop (n + Suc k) 0 data pos fin = read_varlen_loop (Suc k) (drop_bit 7 w) data (pos + n) fin"
    using Suc.prems(2,3) b(2) by (intro Suc.IH) (simp_all add: drop_bit_drop_bit ac_simps)
  also have "\<dots> = read_varlen_loop k w data (pos + Suc n) fin"
    using Suc.prems(2) b(1) septets(1,3) [of w] by (simp add: Let_def)
  finally show ?case by simp
qed

lemma varlen_size_fits: "v < 0x10000000 \<Longrightarrow> drop_bit (7 * varlen_size v) (drop_bit 7 v) = 0 \<and> varlen_size v \<le> 3"
proof -
  have *: "drop_bit k v = 0" if "unat v < 2 ^ k" for k
  proof -
    have "unat (drop_bit k v) = 0" unfolding unat_drop_bit_eq using that by (simp add: drop_bit_eq_div)
    then show ?thesis by (simp add: unat_eq_zero)
  qed
  assume "v < 0x10000000"
  then show ?thesis
    using * [of 7] * [of 14] * [of 21] * [of 28] by (simp add: varlen_size_def drop_bit_drop_bit word_less_nat_alt)
qed

lemma read_varlen_bytes:
  assumes "bytes_at data pos (varlen_bytes v)" and "v < 0x10000000" and "pos + length (varlen_bytes v) \<le> fin"
  shows "read_varlen data pos fin = Inr (v, pos + length (varlen_bytes v))"
proof -
  let ?n = "varlen_size v"
  have n: "drop_bit (7 * ?n) (drop_bit 7 v) = 0" "?n \<le> 3" using varlen_size_fits [OF assms(2)] by simp_all
  have b: "bytes_at data pos (cont_bytes ?n (drop_bit 7 v))" "data ! (pos + ?n) = ucast v AND 0x7f"
    using assms(1) by (auto simp: varlen_bytes_def bytes_at_Cons)
  have fin: "pos + ?n + 1 \<le> fin" using assms(3) by (simp add: varlen_bytes_def)
  have "read_varlen_loop (?n + Suc (3 - ?n)) 0 data pos fin = read_varlen_loop (Suc (3 - ?n)) (drop_bit 7 v) data (pos + ?n) fin"
    using b(1) fin n(1) by (intro read_cont_bytes) simp_all
  also have "\<dots> = Inr (v, pos + ?n + 1)"
    using fin b(2) septets(2,4) [of v] by (simp add: Let_def)
  finally show ?thesis using n(2) by (simp add: read_varlen_def varlen_bytes_def numeral_eq_Suc)
qed

section \<open>Encoding\<close>

datatype track_item =
    ChannelMsg u8 "u8 list"
  | MetaMsg u8 "u8 list"
  | SysexMsg "u8 list"

fun encode_item :: "track_item \<Rightarrow> u8 list" where
  "encode_item (ChannelMsg status ds) = status # ds"
| "encode_item (MetaMsg kind payload) = [0xff, kind] @ varlen_bytes (of_nat (length payload)) @ payload"
| "encode_item (SysexMsg payload) = [0xf0] @ varlen_bytes (of_nat (length payload)) @ payload"

fun item_ok :: "track_item \<Rightarrow> bool" where
  "item_ok (ChannelMsg status ds) \<longleftrightarrow>
     0x80 \<le> status \<and> status \<le> 0xef \<and> length ds = event_data_bytes (status AND 0xf0) \<and> list_all (\<lambda>b. b < 0x80) ds"
| "item_ok (MetaMsg kind payload) \<longleftrightarrow> kind \<noteq> 0x2f \<and> length payload < 0x10000000"
| "item_ok (SysexMsg payload) \<longleftrightarrow> length payload < 0x10000000"

definition encode_event :: "u32 \<times> track_item \<Rightarrow> u8 list" where
  "encode_event e = varlen_bytes (fst e) @ encode_item (snd e)"

definition encode_track :: "(u32 \<times> track_item) list \<Rightarrow> u8 list" where
  "encode_track es = concat (map encode_event es) @ [0, 0xff, 0x2f, 0]"

definition encode_chunk :: "(u32 \<times> track_item) list \<Rightarrow> u8 list" where
  "encode_chunk es = mtrk @ u32_bytes (of_nat (length (encode_track es))) @ encode_track es"

definition encode_midi :: "u16 \<Rightarrow> u16 \<Rightarrow> (u32 \<times> track_item) list list \<Rightarrow> u8 list" where
  "encode_midi fmt division tracks =
     mthd @ u32_bytes 6 @ u16_bytes fmt @ u16_bytes (of_nat (length tracks)) @ u16_bytes division @
     concat (map encode_chunk tracks)"

section \<open>What a track means\<close>

definition tempo_of :: "u8 list \<Rightarrow> u32" where
  "tempo_of p = push_bit 16 (ucast (p ! 0)) OR push_bit 8 (ucast (p ! 1)) OR ucast (p ! 2)"

definition item_effect :: "u32 \<times> track_item \<Rightarrow> track_state \<Rightarrow> track_state" where
  "item_effect e st =
     (let st1 = st\<lparr> ts_tick := ts_tick st + fst e, ts_event_order := ts_event_order st + 1 \<rparr>
      in case snd e of
           ChannelMsg status ds \<Rightarrow> st1\<lparr> ts_raw_events := ts_raw_events st @
             [\<lparr> re_tick = ts_tick st1, re_order = ts_event_order st, re_kind = raw_kind_of (status AND 0xf0),
                re_channel = unat (status AND 0x0f), re_a = uint (ds ! 0),
                re_b = uint (if length ds = 2 then ds ! 1 else 0), re_note_on_status = (status AND 0xf0 = 0x90) \<rparr>] \<rparr>
         | MetaMsg kind payload \<Rightarrow>
             if kind = 0x51 \<and> length payload = 3
             then st1\<lparr> ts_tempos := ts_tempos st @
               [\<lparr> te_tick = ts_tick st1, te_tempo = tempo_of payload, te_order = ts_event_order st \<rparr>] \<rparr>
             else st1
         | SysexMsg payload \<Rightarrow> st1)"

definition track_effect :: "(u32 \<times> track_item) list \<Rightarrow> track_state \<Rightarrow> track_state" where
  "track_effect es st =
     (let st1 = fold item_effect es (st\<lparr> ts_tick := 0, ts_saw_end_of_track := False \<rparr>)
      in st1\<lparr> ts_saw_end_of_track := True, ts_event_order := ts_event_order st1 + 1 \<rparr>)"

lemma item_effect_commute:
  "item_effect e (st\<lparr> ts_pos := p, ts_running_status := r \<rparr>) = (item_effect e st)\<lparr> ts_pos := p, ts_running_status := r \<rparr>"
  by (simp add: item_effect_def Let_def split: track_item.split)

section \<open>One event\<close>

lemma event_status_byte:
  assumes "data ! ts_pos st = s" and "0x80 \<le> s"
  shows "event_status data st = Inr (s, st\<lparr> ts_pos := ts_pos st + 1,
    ts_running_status := (if s \<le> 0xef then Some s else None) \<rparr>)"
  using assms status_bit [of s] by (simp add: event_status_def Let_def)

lemma data_byte_ok: "(b :: u8) < 0x80 \<Longrightarrow> b AND 0x80 = 0"
  using status_bit [of b] by (simp add: not_le [symmetric])

lemma read_data_byte_at:
  "bytes_at data pos [b] \<Longrightarrow> b < 0x80 \<Longrightarrow> pos + 1 \<le> fin \<Longrightarrow> read_data_byte data pos fin what = Inr (b, pos + 1)"
  by (simp add: read_data_byte_def bytes_at_Cons data_byte_ok)

lemma event_data_bytes_cases: "0x80 \<le> s \<Longrightarrow> s \<le> 0xef \<Longrightarrow> event_data_bytes (s AND 0xf0) = 1 \<or> event_data_bytes (s AND 0xf0) = 2"
  using status_kinds [of s] by (auto simp: event_data_bytes_def)

lemma channel_event_bytes:
  assumes "item_ok (ChannelMsg s ds)" and "bytes_at data (ts_pos st) ds" and "ts_pos st + length ds \<le> fin"
  shows "channel_event data fin s st = Inr (st\<lparr> ts_raw_events := ts_raw_events st @
      [\<lparr> re_tick = ts_tick st, re_order = ts_event_order st, re_kind = raw_kind_of (s AND 0xf0),
         re_channel = unat (s AND 0x0f), re_a = uint (ds ! 0), re_b = uint (if length ds = 2 then ds ! 1 else 0),
         re_note_on_status = (s AND 0xf0 = 0x90) \<rparr>],
      ts_event_order := ts_event_order st + 1, ts_pos := ts_pos st + length ds \<rparr>)"
proof -
  have n: "event_data_bytes (s AND 0xf0) = 1 \<or> event_data_bytes (s AND 0xf0) = 2" "length ds = event_data_bytes (s AND 0xf0)"
    using assms(1) event_data_bytes_cases [of s] by simp_all
  then consider a where "ds = [a]" "event_data_bytes (s AND 0xf0) = 1"
    | a b where "ds = [a, b]" "event_data_bytes (s AND 0xf0) = 2"
    by (auto simp: length_Suc_conv numeral_2_eq_2)
  then show ?thesis
  proof cases
    case (1 a)
    then show ?thesis
      using assms read_data_byte_at [of data "ts_pos st" a fin "''channel event''"]
      by (simp add: channel_event_def Let_def)
  next
    case (2 a b)
    then show ?thesis
      using assms read_data_byte_at [of data "ts_pos st" a fin "''channel event''"]
        read_data_byte_at [of data "ts_pos st + 1" b fin "''channel event''"]
      by (simp add: channel_event_def Let_def bytes_at_Cons)
  qed
qed

lemma unat_length: "n < 0x10000000 \<Longrightarrow> unat (of_nat n :: u32) = n"
  by (simp add: unat_of_nat)

lemma varlen_length_ok: "n < 0x10000000 \<Longrightarrow> (of_nat n :: u32) < 0x10000000"
  by (simp add: word_less_nat_alt unat_length)

lemma length_three: "n < 0x10000000 \<Longrightarrow> ((of_nat n :: u32) = 3) = (n = 3)"
proof -
  assume n: "n < 0x10000000"
  have "((of_nat n :: u32) = 3) = (unat (of_nat n :: u32) = unat (3 :: u32))" by (simp add: word_unat_eq_iff)
  then show ?thesis using unat_length [OF n] by simp
qed

lemma meta_event_bytes:
  assumes "kind \<noteq> 0x2f" and "length payload < 0x10000000"
    and "bytes_at data (ts_pos st) (kind # varlen_bytes (of_nat (length payload)) @ payload)"
    and "ts_pos st + 1 + length (varlen_bytes (of_nat (length payload))) + length payload \<le> fin"
  shows "meta_event data fin st = Inr ((if kind = 0x51 \<and> length payload = 3
      then st\<lparr> ts_tempos := ts_tempos st @
        [\<lparr> te_tick = ts_tick st, te_tempo = tempo_of payload, te_order = ts_event_order st \<rparr>] \<rparr> else st)
      \<lparr> ts_event_order := ts_event_order st + 1,
        ts_pos := ts_pos st + 1 + length (varlen_bytes (of_nat (length payload))) + length payload \<rparr>)"
proof -
  let ?w = "of_nat (length payload) :: u32" and ?p = "ts_pos st + 1 + length (varlen_bytes (of_nat (length payload)))"
  have b: "data ! ts_pos st = kind" "bytes_at data (ts_pos st + 1) (varlen_bytes ?w)" "bytes_at data ?p payload"
    using assms(3) by (auto simp: bytes_at_Cons ac_simps)
  have v: "read_varlen data (ts_pos st + 1) fin = Inr (?w, ?p)"
    using read_varlen_bytes [OF b(2) varlen_length_ok [OF assms(2)], of fin] assms(4) by simp
  have "length payload = 3 \<Longrightarrow> push_bit 16 (ucast (data ! ?p)) OR push_bit 8 (ucast (data ! (?p + 1))) OR ucast (data ! (?p + 2)) = tempo_of payload"
    using bytes_at_nth [OF b(3), of 0] bytes_at_nth [OF b(3), of 1] bytes_at_nth [OF b(3), of 2] by (simp add: tempo_of_def)
  then show ?thesis
    using assms(1,4) v b(1) length_three [OF assms(2)] unat_length [OF assms(2)]
    by (simp add: meta_event_def Let_def)
qed

lemma sysex_event_bytes:
  assumes "length payload < 0x10000000" and "bytes_at data (ts_pos st) (varlen_bytes (of_nat (length payload)) @ payload)"
    and "ts_pos st + length (varlen_bytes (of_nat (length payload))) + length payload \<le> fin"
  shows "sysex_event data fin st = Inr (st\<lparr> ts_event_order := ts_event_order st + 1,
      ts_pos := ts_pos st + length (varlen_bytes (of_nat (length payload))) + length payload \<rparr>)"
proof -
  let ?w = "of_nat (length payload) :: u32"
  have "read_varlen data (ts_pos st) fin = Inr (?w, ts_pos st + length (varlen_bytes ?w))"
    using read_varlen_bytes [OF _ varlen_length_ok [OF assms(1)], of data "ts_pos st" fin] assms(2,3) by simp
  then show ?thesis using assms(3) unat_length [OF assms(1)] by (simp add: sysex_event_def)
qed

lemma tick_fits: "unat tick + unat delta < 2 ^ 32 \<Longrightarrow> \<not> delta > 0xffffffff - (tick :: u32)"
  by unat_arith

text \<open>Reading the delta time and the status byte leads to the message's own handler.\<close>

lemma track_event_dispatch:
  assumes "fst e < 0x10000000" and "unat (ts_tick st) + unat (fst e) < 2 ^ 32"
    and "bytes_at data (ts_pos st) (varlen_bytes (fst e) @ s # rest)" and "0x80 \<le> s"
    and "ts_pos st + length (varlen_bytes (fst e)) + 1 \<le> fin"
  defines "st1 \<equiv> st\<lparr> ts_pos := ts_pos st + length (varlen_bytes (fst e)) + 1, ts_tick := ts_tick st + fst e,
      ts_running_status := (if s \<le> 0xef then Some s else None) \<rparr>"
  shows "track_event data fin st = (if s = 0xff then meta_event data fin st1
      else if s = 0xf0 \<or> s = 0xf7 then sysex_event data fin st1 else channel_event data fin s st1)"
proof -
  let ?p = "ts_pos st + length (varlen_bytes (fst e))"
  have v: "read_varlen data (ts_pos st) fin = Inr (fst e, ?p)"
    using assms(3,5) by (intro read_varlen_bytes [OF _ assms(1)]) simp_all
  have "event_status data (st\<lparr> ts_pos := ?p, ts_tick := ts_tick st + fst e \<rparr>) = Inr (s, st1)"
    using assms(3,4) by (subst event_status_byte [of _ _ s]) (simp_all add: bytes_at_Cons st1_def)
  then show ?thesis using v tick_fits [OF assms(2)] assms(5) by (simp add: track_event_def)
qed

lemma track_event_bytes:
  assumes "fst e < 0x10000000" and "item_ok (snd e)" and "unat (ts_tick st) + unat (fst e) < 2 ^ 32"
    and "bytes_at data (ts_pos st) (encode_event e)" and "ts_pos st + length (encode_event e) \<le> fin"
  shows "\<exists>r. track_event data fin st =
    Inr ((item_effect e st)\<lparr> ts_pos := ts_pos st + length (encode_event e), ts_running_status := r \<rparr>)"
proof (cases "snd e")
  case (ChannelMsg s ds)
  let ?st = "st\<lparr> ts_pos := ts_pos st + length (varlen_bytes (fst e)) + 1, ts_tick := ts_tick st + fst e,
      ts_running_status := (if s \<le> 0xef then Some s else None) \<rparr>"
  have s: "0x80 \<le> s" "s \<le> 0xef" using assms(2) ChannelMsg by simp_all
  then have "s \<noteq> 0xff" "s \<noteq> 0xf0" "s \<noteq> 0xf7" by auto
  then have ev: "track_event data fin st = channel_event data fin s ?st"
    using track_event_dispatch [OF assms(1,3), of data s ds fin] assms(4,5) s ChannelMsg by (simp add: encode_event_def)
  have "bytes_at data (ts_pos ?st) ds" "ts_pos ?st + length ds \<le> fin" "item_ok (ChannelMsg s ds)"
    using assms(2,4,5) ChannelMsg by (simp_all add: encode_event_def bytes_at_Cons)
  note ch = channel_event_bytes [OF this(3,1,2)]
  have "track_event data fin st =
      Inr ((item_effect e st)\<lparr> ts_pos := ts_pos st + length (encode_event e), ts_running_status := Some s \<rparr>)"
    unfolding ev ch using s(2) ChannelMsg by (simp add: encode_event_def item_effect_def Let_def)
  then show ?thesis by blast
next
  case (MetaMsg kind payload)
  let ?st = "st\<lparr> ts_pos := ts_pos st + length (varlen_bytes (fst e)) + 1, ts_tick := ts_tick st + fst e,
      ts_running_status := None \<rparr>"
  have ev: "track_event data fin st = meta_event data fin ?st"
    using track_event_dispatch [OF assms(1,3), of data "0xff" "kind # varlen_bytes (of_nat (length payload)) @ payload" fin]
      assms(4,5) MetaMsg by (simp add: encode_event_def)
  have "kind \<noteq> 0x2f" "length payload < 0x10000000"
    "bytes_at data (ts_pos ?st) (kind # varlen_bytes (of_nat (length payload)) @ payload)"
    "ts_pos ?st + 1 + length (varlen_bytes (of_nat (length payload))) + length payload \<le> fin"
    using assms(2,4,5) MetaMsg by (simp_all add: encode_event_def bytes_at_Cons)
  note m = meta_event_bytes [OF this]
  have "track_event data fin st =
      Inr ((item_effect e st)\<lparr> ts_pos := ts_pos st + length (encode_event e), ts_running_status := None \<rparr>)"
    unfolding ev m using MetaMsg by (simp add: encode_event_def item_effect_def Let_def)
  then show ?thesis by blast
next
  case (SysexMsg payload)
  let ?st = "st\<lparr> ts_pos := ts_pos st + length (varlen_bytes (fst e)) + 1, ts_tick := ts_tick st + fst e,
      ts_running_status := None \<rparr>"
  have ev: "track_event data fin st = sysex_event data fin ?st"
    using track_event_dispatch [OF assms(1,3), of data "0xf0" "varlen_bytes (of_nat (length payload)) @ payload" fin]
      assms(4,5) SysexMsg by (simp add: encode_event_def)
  have "length payload < 0x10000000" "bytes_at data (ts_pos ?st) (varlen_bytes (of_nat (length payload)) @ payload)"
    "ts_pos ?st + length (varlen_bytes (of_nat (length payload))) + length payload \<le> fin"
    using assms(2,4,5) SysexMsg by (simp_all add: encode_event_def bytes_at_Cons)
  note x = sysex_event_bytes [OF this]
  have "track_event data fin st =
      Inr ((item_effect e st)\<lparr> ts_pos := ts_pos st + length (encode_event e), ts_running_status := None \<rparr>)"
    unfolding ev x using SysexMsg by (simp add: encode_event_def item_effect_def Let_def)
  then show ?thesis by blast
qed

section \<open>A whole track\<close>

definition track_ok :: "(u32 \<times> track_item) list \<Rightarrow> bool" where
  "track_ok es \<longleftrightarrow>
     list_all (\<lambda>e. fst e < 0x10000000 \<and> item_ok (snd e)) es \<and> (\<Sum>e\<leftarrow>es. unat (fst e)) < 2 ^ 32 \<and>
     length (encode_track es) < 2 ^ 32"

lemma item_effect_tick: "ts_tick (item_effect e st) = ts_tick st + fst e"
  by (simp add: item_effect_def Let_def split: track_item.split)

lemma end_of_track_bytes:
  assumes "bytes_at data (ts_pos st) [0, 0xff, 0x2f, 0]" and "fin = ts_pos st + 4"
  shows "track_event data fin st = Inr (st\<lparr> ts_saw_end_of_track := True, ts_event_order := ts_event_order st + 1,
    ts_pos := fin, ts_running_status := None \<rparr>)"
proof -
  have v0: "varlen_bytes 0 = [0]" by (simp add: varlen_bytes_def varlen_size_def)
  let ?st = "st\<lparr> ts_pos := Suc (Suc (ts_pos st)), ts_running_status := None \<rparr>"
  have b: "data ! Suc (Suc (ts_pos st)) = 0x2f" "bytes_at data (Suc (Suc (Suc (ts_pos st)))) (varlen_bytes 0)"
    using assms(1) by (simp_all add: bytes_at_Cons v0)
  have fin: "fin = Suc (Suc (Suc (Suc (ts_pos st))))" using assms(2) by simp
  have "track_event data fin st = meta_event data fin ?st"
    using track_event_dispatch [of "(0, SysexMsg [])" st data "0xff" "[0x2f, 0]" fin] assms unat_bounds(3) [of "ts_tick st"]
    by (simp add: v0)
  moreover have "read_varlen data (Suc (Suc (Suc (ts_pos st)))) fin = Inr (0, fin)"
    using read_varlen_bytes [OF b(2)] by (simp add: v0 fin)
  ultimately show ?thesis using b(1) fin by (simp add: meta_event_def Let_def)
qed

lemma parse_track_bytes:
  assumes "list_all (\<lambda>e. fst e < 0x10000000 \<and> item_ok (snd e)) es"
    and "unat (ts_tick st) + (\<Sum>e\<leftarrow>es. unat (fst e)) < 2 ^ 32"
    and "bytes_at data (ts_pos st) (encode_track es)" and "fin = ts_pos st + length (encode_track es)"
  shows "parse_track data fin st = Some (Inr ((fold item_effect es st)
    \<lparr> ts_saw_end_of_track := True, ts_event_order := ts_event_order (fold item_effect es st) + 1,
      ts_pos := fin, ts_running_status := None \<rparr>))"
  using assms
proof (induction es arbitrary: st)
  case Nil
  then have ev: "track_event data fin st = Inr (st\<lparr> ts_saw_end_of_track := True, ts_event_order := ts_event_order st + 1,
      ts_pos := fin, ts_running_status := None \<rparr>)"
    by (intro end_of_track_bytes) (simp_all add: encode_track_def)
  show ?case using Nil ev by (subst parse_track.simps, simp add: encode_track_def, subst parse_track.simps, simp)
next
  case (Cons e es)
  have "unat (ts_tick st) + unat (fst e) < 2 ^ 32" using Cons.prems(2) by simp
  then obtain r where ev: "track_event data fin st =
      Inr ((item_effect e st)\<lparr> ts_pos := ts_pos st + length (encode_event e), ts_running_status := r \<rparr>)"
    using track_event_bytes [of e st data fin] Cons.prems by (auto simp: encode_track_def)
  let ?st = "(item_effect e st)\<lparr> ts_pos := ts_pos st + length (encode_event e), ts_running_status := r \<rparr>"
  have tick: "unat (ts_tick (item_effect e st)) = unat (ts_tick st) + unat (fst e)"
    using Cons.prems(2) by (simp add: item_effect_tick unat_word_ariths)
  have fold_commute: "fold item_effect es (x\<lparr> ts_pos := p, ts_running_status := q \<rparr>) =
      (fold item_effect es x)\<lparr> ts_pos := p, ts_running_status := q \<rparr>" for x p q
    by (induction es arbitrary: x) (simp_all add: item_effect_commute)
  have "parse_track data fin ?st = Some (Inr ((fold item_effect es ?st)
      \<lparr> ts_saw_end_of_track := True, ts_event_order := ts_event_order (fold item_effect es ?st) + 1,
        ts_pos := fin, ts_running_status := None \<rparr>))"
    using Cons.prems tick by (intro Cons.IH) (simp_all add: encode_track_def)
  moreover have "ts_pos st < fin" using Cons.prems(4) by (simp add: encode_track_def)
  ultimately show ?case using ev by (subst parse_track.simps) (simp add: fold_commute)
qed

section \<open>The file\<close>

lemma chunk_id_bytes: "bytes_at data pos tag \<Longrightarrow> length tag = 4 \<Longrightarrow> chunk_id data pos tag"
  by (auto simp: chunk_id_def bytes_at_def intro!: nth_equalityI)

lemma fold_item_commute:
  "fold item_effect es (x\<lparr> ts_pos := p, ts_running_status := q \<rparr>) =
   (fold item_effect es x)\<lparr> ts_pos := p, ts_running_status := q \<rparr>"
  by (induction es arbitrary: x) (simp_all add: item_effect_commute)

lemma track_effect_commute:
  "track_effect es (x\<lparr> ts_pos := p, ts_running_status := q \<rparr>) = (track_effect es x)\<lparr> ts_pos := p, ts_running_status := q \<rparr>"
proof -
  have "x\<lparr> ts_pos := p, ts_running_status := q, ts_tick := 0, ts_saw_end_of_track := False \<rparr> =
      x\<lparr> ts_tick := 0, ts_saw_end_of_track := False \<rparr>\<lparr> ts_pos := p, ts_running_status := q \<rparr>"
    by simp
  then show ?thesis unfolding track_effect_def Let_def by (simp only: fold_item_commute) simp
qed

lemma fold_track_commute:
  "fold track_effect ts (x\<lparr> ts_pos := p, ts_running_status := q \<rparr>) =
   (fold track_effect ts x)\<lparr> ts_pos := p, ts_running_status := q \<rparr>"
  by (induction ts arbitrary: x) (simp_all add: track_effect_commute)

lemma encode_chunk_bytes:
  assumes "track_ok es" and "bytes_at data (ts_pos st) (encode_chunk es)"
  defines "fin \<equiv> ts_pos st + length (encode_chunk es)"
  shows "parse_tracks (Suc n) data st =
    parse_tracks n data ((track_effect es st)\<lparr> ts_pos := fin, ts_running_status := None \<rparr>)"
proof -
  let ?st = "st\<lparr> ts_pos := ts_pos st + 8, ts_tick := 0, ts_running_status := None, ts_saw_end_of_track := False \<rparr>"
  have len: "length mtrk = 4" by (simp add: mtrk_def)
  have b: "bytes_at data (ts_pos st) mtrk" "bytes_at data (ts_pos st + 4) (u32_bytes (of_nat (length (encode_track es))))"
    "bytes_at data (ts_pos ?st) (encode_track es)" "fin = ts_pos ?st + length (encode_track es)"
    using assms(2) by (simp_all add: encode_chunk_def len fin_def add.assoc)
  have size: "unat (of_nat (length (encode_track es)) :: u32) = length (encode_track es)"
    using assms(1) by (simp add: track_ok_def unat_of_nat)
  have room: "ts_pos st + 8 + length (encode_track es) \<le> length data" using bytes_at_length [OF b(3)] by simp
  have p: "?st = st\<lparr> ts_tick := 0, ts_saw_end_of_track := False \<rparr>\<lparr> ts_pos := ts_pos st + 8, ts_running_status := None \<rparr>"
    by simp
  have "parse_track data fin ?st = Some (Inr ((fold item_effect es ?st)
      \<lparr> ts_saw_end_of_track := True, ts_event_order := ts_event_order (fold item_effect es ?st) + 1,
        ts_pos := fin, ts_running_status := None \<rparr>))"
    using assms(1) b(3,4) by (intro parse_track_bytes) (simp_all add: track_ok_def)
  also have "\<dots> = Some (Inr ((track_effect es st)\<lparr> ts_pos := fin, ts_running_status := None \<rparr>))"
    unfolding p fold_item_commute track_effect_def Let_def by simp
  finally have "parse_track data fin ?st = Some (Inr ((track_effect es st)\<lparr> ts_pos := fin, ts_running_status := None \<rparr>))" .
  moreover have "ts_saw_end_of_track (track_effect es st)" by (simp add: track_effect_def Let_def)
  moreover have "\<not> length (encode_track es) > length data - (ts_pos st + 8)" "\<not> ts_pos st + 8 > length data" using room by simp_all
  ultimately show ?thesis
    using chunk_id_bytes [OF b(1) len] read_u32be_bytes [OF b(2)] size b(4)
    by (simp only: parse_tracks.simps Let_def sum.case option.case simp_thms if_False track_state.select_convs
        track_state.update_convs) (simp, intro arg_cong [where f = "parse_tracks n data"], simp)
qed

lemma parse_tracks_bytes:
  "list_all track_ok tracks \<Longrightarrow> bytes_at data (ts_pos st) (concat (map encode_chunk tracks)) \<Longrightarrow>
     \<exists>p r. parse_tracks (length tracks) data st = Some (Inr ((fold track_effect tracks st)\<lparr> ts_pos := p, ts_running_status := r \<rparr>))"
proof (induction tracks arbitrary: st)
  case Nil
  have "st = st\<lparr> ts_pos := ts_pos st, ts_running_status := ts_running_status st \<rparr>" by simp
  then show ?case by (simp only: list.size parse_tracks.simps fold_simps) blast
next
  case (Cons es tracks)
  let ?st = "(track_effect es st)\<lparr> ts_pos := ts_pos st + length (encode_chunk es), ts_running_status := None \<rparr>"
  have "parse_tracks (length (es # tracks)) data st = parse_tracks (length tracks) data ?st"
    using Cons.prems encode_chunk_bytes [of es data st "length tracks"] by simp
  moreover obtain p r where "parse_tracks (length tracks) data ?st =
      Some (Inr ((fold track_effect tracks ?st)\<lparr> ts_pos := p, ts_running_status := r \<rparr>))"
    using Cons.IH [of ?st] Cons.prems by auto
  ultimately show ?case by (auto simp: fold_track_commute)
qed

lemma parse_header_bytes:
  assumes "fmt = 0 \<or> fmt = 1" and "0 < n" and "n < 2 ^ 16" and "fmt = 0 \<longrightarrow> n = 1" and "0 < division" and "division < 0x8000"
    and "data = mthd @ u32_bytes 6 @ u16_bytes fmt @ u16_bytes (of_nat n) @ u16_bytes division @ rest"
  shows "parse_header data = Inr (of_nat n, division, 14)"
proof -
  have len: "length mthd = 4" by (simp add: mthd_def)
  have "bytes_at data 0 mthd \<and> bytes_at data 4 (u32_bytes 6) \<and> bytes_at data 8 (u16_bytes fmt) \<and>
      bytes_at data 10 (u16_bytes (of_nat n)) \<and> bytes_at data 12 (u16_bytes division)"
    using bytes_at_self [of data, folded assms(7)] unfolding assms(7) by (simp add: len)
  then have r: "chunk_id data 0 mthd" "read_u32be data 4 = Inr 6" "read_u16be data 8 = Inr fmt"
    "read_u16be data 10 = Inr (of_nat n)" "read_u16be data 12 = Inr division"
    by (simp_all add: chunk_id_bytes len read_u32be_bytes read_u16be_bytes)
  have "14 \<le> length data" unfolding assms(7) by (simp add: len)
  moreover have "(of_nat n :: u16) \<noteq> 0" using assms(2,3) by (auto simp: word_of_nat_eq_0_iff dest: dvd_imp_le)
  moreover have "division AND 0x8000 = 0" 
  proof -
    have "\<not> bit (unat division) 15" using assms(6) by (simp add: bit_iff_odd word_less_nat_alt)
    then have "\<not> bit division 15" by (simp add: bit_unsigned_iff)
    then have "bit (division AND push_bit 15 1) n = bit (0 :: u16) n" if "n < 16" for n
      using that by (cases "n = 15") (auto simp: bit_simps bit_1_iff simp del: push_bit_of_1)
    then have "division AND push_bit 15 1 = 0" by (intro bit_word_eqI) simp
    then show ?thesis by simp
  qed
  ultimately show ?thesis using assms(1,4,5) r by (auto simp: parse_header_def)
qed

section \<open>Round trip\<close>

text \<open>
  The events of a file: the messages of its tracks with their absolute ticks and their order, merged,
  with the programs and banks in force, placed on the tempo map.
\<close>

definition midi_meaning ::
    "(real \<Rightarrow> u32 \<Rightarrow> u32 \<Rightarrow> u16 \<Rightarrow> real) \<Rightarrow> u16 \<Rightarrow> (u32 \<times> track_item) list list \<Rightarrow> note_event list" where
  "midi_meaning add_ticks division tracks =
     (let st = fold track_effect tracks (initial_track_state 0)
      in place_on_tempo_map add_ticks division (sort_tempos (ts_tempos st))
           (sort_tick_events (convert_events (sort_raw_events (ts_raw_events st)) initial_channel_map)))"


definition demo_track :: "(u32 \<times> track_item) list" where
  "demo_track = [(0, MetaMsg 0x51 [3, 0xd0, 0x90]), (0, SysexMsg [1, 2]), (200, ChannelMsg 0x92 [60, 100]), (480, ChannelMsg 0x82 [60, 0])]"

lemma demo_track_ok: "track_ok demo_track"
  by (simp add: track_ok_def demo_track_def encode_track_def encode_event_def varlen_bytes_def varlen_size_def event_data_bytes_def)


end
