(* ===== verification/Fpga_Spi_Transport.thy ===== *)
theory Fpga_Spi_Transport
  imports Ch347_Transport
begin

text \<open>
  The firmware's side of the SPI link, \<open>src/mcu/fpga_spi_transport.c\<close>: command frames, register
  reads and writes with polling, the session reset, and the voice completions read back from the
  FPGA. The board's SPI functions are parameters: \<open>write\<close> sends bytes, \<open>exchange\<close> sends
  bytes and receives as many; both return zero on success and thread the state \<open>'d\<close> of what is
  behind the wire. Null pointers have no counterpart: the parameters are always present. A
  function that stores its result through a pointer and returns zero gives \<open>Some\<close> result, one
  that returns \<open>-1\<close> gives \<open>None\<close>.

  The lemmas show that the firmware frames commands byte for byte as the host's transport does,
  that a register read waits out busy and corrupted answers, and that completions are accepted
  exactly when they are the encoding of the batch returned.
\<close>

section \<open>Checksums and byte order\<close>

type_synonym 'd write_fn = "'d \<Rightarrow> u8 list \<Rightarrow> int \<times> 'd"
type_synonym 'd exchange_fn = "'d \<Rightarrow> u8 list \<Rightarrow> int \<times> u8 list \<times> 'd"

definition FPGA_SPI_MAX_COMMAND_WORDS :: nat where "FPGA_SPI_MAX_COMMAND_WORDS = 63"
definition FPGA_SPI_MAX_FRAME_BYTES :: nat where
  "FPGA_SPI_MAX_FRAME_BYTES = 4 + 4 * FPGA_SPI_MAX_COMMAND_WORDS"
definition FPGA_SPI_COMPLETION_ITEMS :: nat where "FPGA_SPI_COMPLETION_ITEMS = 16"
definition FPGA_SPI_COMPLETION_FRAME_BYTES :: nat where "FPGA_SPI_COMPLETION_FRAME_BYTES = 93"

definition crc16_shift :: "u16 \<Rightarrow> u16" where
  "crc16_shift crc = (if crc AND 0x8000 \<noteq> 0 then push_bit 1 crc XOR 0x1021 else push_bit 1 crc)"

definition crc16_byte :: "u16 \<Rightarrow> u8 \<Rightarrow> u16" where
  "crc16_byte crc byte = (crc16_shift ^^ 8) (crc XOR push_bit 8 (ucast byte))"

definition crc32_shift :: "u32 \<Rightarrow> u32" where
  "crc32_shift crc = (if crc AND 1 \<noteq> 0 then drop_bit 1 crc XOR 0xedb88320 else drop_bit 1 crc)"

definition crc32_bytes :: "u8 list \<Rightarrow> u32" where
  "crc32_bytes bytes =
     foldl (\<lambda>crc byte. (crc32_shift ^^ 8) (crc XOR ucast byte)) 0xffffffff bytes XOR 0xffffffff"

definition read_be32 :: "u8 list \<Rightarrow> nat \<Rightarrow> u32" where
  "read_be32 bytes p =
     push_bit 24 (ucast (bytes ! p)) OR push_bit 16 (ucast (bytes ! (p + 1))) OR
     push_bit 8 (ucast (bytes ! (p + 2))) OR ucast (bytes ! (p + 3))"

definition read_be16 :: "u8 list \<Rightarrow> nat \<Rightarrow> u16" where
  "read_be16 bytes p = push_bit 8 (ucast (bytes ! p)) OR ucast (bytes ! (p + 1))"

definition write_be32 :: "u8 list \<Rightarrow> nat \<Rightarrow> u32 \<Rightarrow> u8 list" where
  "write_be32 bytes p v =
     bytes[p := ucast (drop_bit 24 v), p + 1 := ucast (drop_bit 16 v), p + 2 := ucast (drop_bit 8 v), p + 3 := ucast v]"

section \<open>Registers\<close>

datatype register_operation = REGISTER_READ | REGISTER_WRITE

definition operation_code :: "register_operation \<Rightarrow> u8" where
  "operation_code operation = (case operation of REGISTER_READ \<Rightarrow> 0 | REGISTER_WRITE \<Rightarrow> 1)"

definition REGISTER_RESPONSE_OK :: u8 where "REGISTER_RESPONSE_OK = 0"
definition REGISTER_RESPONSE_BUSY :: u8 where "REGISTER_RESPONSE_BUSY = 2"

definition register_request :: "register_operation \<Rightarrow> u16 \<Rightarrow> u32 \<Rightarrow> u8 list" where
  "register_request operation address write_data =
     (let request = [0x5a, operation_code operation, ucast (drop_bit 8 address), ucast address] @ replicate 8 0;
          request1 = (if operation = REGISTER_WRITE then write_be32 request 4 write_data else request)
      in write_be32 request1 8 (crc32_bytes (take 8 request1)))"

text \<open>The polling loop, with the attempts left.\<close>

fun register_fetch :: "'d exchange_fn \<Rightarrow> nat \<Rightarrow> register_operation \<Rightarrow> u16 \<Rightarrow> 'd \<Rightarrow> u32 option \<times> 'd" where
  "register_fetch exchange 0 operation address d = (None, d)"
| "register_fetch exchange (Suc attempts) operation address d =
     (case exchange d (0x5b # replicate 15 0) of
        (result, rx, d1) \<Rightarrow>
          if result \<noteq> 0 then (None, d1)
          else if read_be32 rx 12 \<noteq> crc32_bytes (take 8 (drop 4 rx))
          then register_fetch exchange attempts operation address d1
          else if rx ! 4 = REGISTER_RESPONSE_BUSY then register_fetch exchange attempts operation address d1
          else if rx ! 4 \<noteq> REGISTER_RESPONSE_OK \<or> rx ! 5 \<noteq> operation_code operation \<or>
                  rx ! 6 \<noteq> ucast (drop_bit 8 address) \<or> rx ! 7 \<noteq> ucast address
          then (None, d1)
          else if operation = REGISTER_READ then (Some (read_be32 rx 8), d1)
          else if read_be32 rx 8 \<noteq> 0 then (None, d1)
          else (Some 0, d1))"

definition register_transaction ::
    "'d write_fn \<Rightarrow> 'd exchange_fn \<Rightarrow> register_operation \<Rightarrow> u16 \<Rightarrow> u32 \<Rightarrow> nat \<Rightarrow> 'd \<Rightarrow> u32 option \<times> 'd" where
  "register_transaction wr exchange operation address write_data fetch_limit d =
     (if fetch_limit = 0 then (None, d)
      else case wr d (register_request operation address write_data) of
             (result, d1) \<Rightarrow>
               if result \<noteq> 0 then (None, d1) else register_fetch exchange fetch_limit operation address d1)"

definition fpga_spi_read_register ::
    "'d write_fn \<Rightarrow> 'd exchange_fn \<Rightarrow> u16 \<Rightarrow> nat \<Rightarrow> 'd \<Rightarrow> u32 option \<times> 'd" where
  "fpga_spi_read_register wr exchange address fetch_limit d =
     register_transaction wr exchange REGISTER_READ address 0 fetch_limit d"

definition fpga_spi_write_register ::
    "'d write_fn \<Rightarrow> 'd exchange_fn \<Rightarrow> u16 \<Rightarrow> u32 \<Rightarrow> nat \<Rightarrow> 'd \<Rightarrow> u32 option \<times> 'd" where
  "fpga_spi_write_register wr exchange address data fetch_limit d =
     register_transaction wr exchange REGISTER_WRITE address data fetch_limit d"

section \<open>Commands\<close>

text \<open>The scan for complete commands; the index is an \<open>uint8_t\<close> that stays within \<open>word_count\<close>.\<close>

function commands_complete :: "u32 list \<Rightarrow> nat \<Rightarrow> bool" where
  "commands_complete words command_index =
     (if command_index < length words then
        (let payload_words = unat (ucast (words ! command_index) :: u8);
             remaining = length words - command_index - 1
         in if payload_words > remaining then False
            else commands_complete words (command_index + payload_words + 1))
      else True)"
  by pat_completeness auto
termination
  by (relation "measure (\<lambda>(words, i). length words - i)") auto

declare commands_complete.simps [simp del]

text \<open>The bytes of the words go to the frame and into the checksum.\<close>

definition append_byte :: "u8 list \<times> u16 \<Rightarrow> u8 \<Rightarrow> u8 list \<times> u16" where
  "append_byte fc byte = (fst fc @ [byte], crc16_byte (snd fc) byte)"

definition append_word :: "u8 list \<times> u16 \<Rightarrow> u32 \<Rightarrow> u8 list \<times> u16" where
  "append_word fc word = foldl (\<lambda>fc s. append_byte fc (ucast (drop_bit s word))) fc [24, 16, 8, 0]"

definition fpga_spi_send_commands :: "'d write_fn \<Rightarrow> u32 list \<Rightarrow> 'd \<Rightarrow> int \<times> 'd" where
  "fpga_spi_send_commands wr words d =
     (if words = [] \<or> length words > FPGA_SPI_MAX_COMMAND_WORDS then (-1, d)
      else if \<not> commands_complete words 0 then (-1, d)
      else (let (body, crc) = foldl append_word ([], crc16_byte 0xffff (of_nat (length words))) words
            in wr d ([0xa5, of_nat (length words), ucast (drop_bit 8 crc), ucast crc] @ body)))"

definition fpga_spi_flush :: "'d write_fn \<Rightarrow> 'd \<Rightarrow> int \<times> 'd" where
  "fpga_spi_flush wr d = wr d [0xa6, 0, 0xaa, 0xd7]"

section \<open>Session reset\<close>

fun reset_poll ::
    "'d write_fn \<Rightarrow> 'd exchange_fn \<Rightarrow> nat \<Rightarrow> u16 \<Rightarrow> u32 \<Rightarrow> nat \<Rightarrow> 'd \<Rightarrow> u32 option \<times> 'd" where
  "reset_poll wr exchange 0 epoch_address previous_epoch fetch_limit d = (None, d)"
| "reset_poll wr exchange (Suc attempts) epoch_address previous_epoch fetch_limit d =
     (case fpga_spi_read_register wr exchange epoch_address fetch_limit d of
        (Some observed_epoch, d1) \<Rightarrow>
          if observed_epoch \<noteq> previous_epoch then (Some observed_epoch, d1)
          else reset_poll wr exchange attempts epoch_address previous_epoch fetch_limit d1
      | (None, d1) \<Rightarrow> reset_poll wr exchange attempts epoch_address previous_epoch fetch_limit d1)"

definition fpga_spi_reset_session ::
    "'d write_fn \<Rightarrow> 'd exchange_fn \<Rightarrow> u16 \<Rightarrow> nat \<Rightarrow> nat \<Rightarrow> 'd \<Rightarrow> u32 option \<times> 'd" where
  "fpga_spi_reset_session wr exchange epoch_address poll_limit fetch_limit d =
     (if poll_limit = 0 \<or> fetch_limit = 0 then (None, d)
      else case fpga_spi_read_register wr exchange epoch_address fetch_limit d of
             (None, d1) \<Rightarrow> (None, d1)
           | (Some previous_epoch, d1) \<Rightarrow>
               (case wr d1 [0xa7, 0, 0x99, 0xe6] of
                  (result, d2) \<Rightarrow>
                    if result \<noteq> 0 then (None, d2)
                    else reset_poll wr exchange poll_limit epoch_address previous_epoch fetch_limit d2))"

section \<open>Completions\<close>

record completion_item =
  ci_generation :: u16
  ci_voice :: u16
  ci_reason :: u8

record completion_batch =
  cb_session_epoch :: u32
  cb_write_sequence :: u16
  cb_start_sequence :: u16
  cb_count :: u8
  cb_overflow :: u8
  cb_items :: "completion_item list"

definition completion_request :: "u16 \<Rightarrow> u8 list" where
  "completion_request sequence =
     (let tx = [0x5d, ucast (drop_bit 8 sequence), ucast sequence];
          request_crc = foldl crc16_byte 0xffff tx
      in tx @ [ucast (drop_bit 8 request_crc), ucast request_crc] @ replicate (FPGA_SPI_COMPLETION_FRAME_BYTES - 5) 0)"

text \<open>One packed item: generation, voice and reason, every other bit clear.\<close>

definition read_item :: "u32 \<Rightarrow> completion_item option" where
  "read_item packed =
     (if packed AND 0x4f \<noteq> 0 \<or> (drop_bit 4 packed AND 0x3) > 2 then None
      else Some \<lparr> ci_generation = ucast (drop_bit 16 packed),
                  ci_voice = ucast (drop_bit 7 packed AND 0x1ff),
                  ci_reason = ucast (drop_bit 4 packed AND 0x3) \<rparr>)"

text \<open>The item loop from \<open>item\<close> on; items past the count must be zero.\<close>

function read_items :: "u8 list \<Rightarrow> nat \<Rightarrow> nat \<Rightarrow> completion_item list option" where
  "read_items rx count item =
     (if item < FPGA_SPI_COMPLETION_ITEMS then
        (let packed = read_be32 rx (25 + item * 4)
         in if item \<ge> count then (if packed \<noteq> 0 then None else read_items rx count (item + 1))
            else case read_item packed of
                   None \<Rightarrow> None
                 | Some i \<Rightarrow> map_option (\<lambda>is. i # is) (read_items rx count (item + 1)))
      else Some [])"
  by pat_completeness auto
termination
  by (relation "measure (\<lambda>(rx, count, item). FPGA_SPI_COMPLETION_ITEMS - item)") auto

declare read_items.simps [simp del]

definition expected_count :: "u16 \<Rightarrow> u16 \<Rightarrow> u8" where
  "expected_count write_sequence sequence =
     (let available = write_sequence - sequence
      in if available > of_nat FPGA_SPI_COMPLETION_ITEMS then of_nat FPGA_SPI_COMPLETION_ITEMS else ucast available)"

definition parse_completions :: "u16 \<Rightarrow> u8 list \<Rightarrow> completion_batch option" where
  "parse_completions sequence rx =
     (if read_be32 rx 89 \<noteq> crc32_bytes (take (89 - 13) (drop 13 rx)) then None
      else if rx ! 13 \<noteq> 0 \<or> rx ! 14 \<noteq> 1 \<or> rx ! 15 AND 0xfe \<noteq> 0 \<or>
              rx ! 16 > of_nat FPGA_SPI_COMPLETION_ITEMS then None
      else
        (let write_sequence = read_be16 rx 21; start_sequence = read_be16 rx 23
         in if start_sequence \<noteq> sequence \<or> rx ! 16 \<noteq> expected_count write_sequence sequence then None
            else map_option (\<lambda>items.
                   \<lparr> cb_session_epoch = read_be32 rx 17, cb_write_sequence = write_sequence,
                     cb_start_sequence = start_sequence, cb_count = rx ! 16,
                     cb_overflow = rx ! 15 AND 1, cb_items = items \<rparr>)
                 (read_items rx (unat (rx ! 16)) 0)))"

definition fpga_spi_read_completions :: "'d exchange_fn \<Rightarrow> u16 \<Rightarrow> 'd \<Rightarrow> completion_batch option \<times> 'd" where
  "fpga_spi_read_completions exchange sequence d =
     (case exchange d (completion_request sequence) of
        (result, rx, d1) \<Rightarrow> if result \<noteq> 0 then (None, d1) else (parse_completions sequence rx, d1))"

text \<open>The retrying read: the batch, the number of failed attempts, and the state left.\<close>

fun completions_attempts ::
    "'d exchange_fn \<Rightarrow> u16 \<Rightarrow> nat \<Rightarrow> nat \<Rightarrow> 'd \<Rightarrow> completion_batch option \<times> nat \<times> 'd" where
  "completions_attempts exchange sequence 0 failed_attempts d = (None, failed_attempts, d)"
| "completions_attempts exchange sequence (Suc attempts) failed_attempts d =
     (case fpga_spi_read_completions exchange sequence d of
        (Some batch, d1) \<Rightarrow> (Some batch, failed_attempts, d1)
      | (None, d1) \<Rightarrow> completions_attempts exchange sequence attempts (failed_attempts + 1) d1)"

definition fpga_spi_read_completions_retry ::
    "'d exchange_fn \<Rightarrow> u16 \<Rightarrow> nat \<Rightarrow> 'd \<Rightarrow> completion_batch option \<times> nat \<times> 'd" where
  "fpga_spi_read_completions_retry exchange sequence attempt_limit d =
     completions_attempts exchange sequence attempt_limit 0 d"

section \<open>Frames\<close>

lemma crc16_shift_eq: "crc16_shift = crc_bit"
  by (intro ext) (simp add: crc16_shift_def crc_bit_def)

lemma crc16_byte_eq: "crc16_byte = crc_update_oracle"
  by (intro ext) (simp add: crc16_byte_def crc_update_oracle_def crc_bits8_def crc16_shift_eq)

lemma append_word_eq: "append_word (bs, c) w = (bs @ word_bytes w, foldl crc16_byte c (word_bytes w))"
  by (simp add: append_word_def append_byte_def word_bytes_def)

lemma append_words_eq:
  "foldl append_word (bs, c) ws = (bs @ concat (map word_bytes ws), foldl crc16_byte c (concat (map word_bytes ws)))"
  by (induction ws arbitrary: bs c) (simp_all add: append_word_eq)

lemma payload_byte: "unat (ucast (w :: u32) :: u8) = word_payload w"
proof -
  have "w AND 0xff = take_bit 8 w" by (simp add: take_bit_eq_mask mask_eq_exp_minus_1)
  then show ?thesis unfolding word_payload_def by (simp add: unsigned_ucast_eq unsigned_take_bit_eq)
qed

text \<open>A command on the wire is complete when its header announces the words that follow.\<close>

definition wire_command :: "u32 list \<Rightarrow> bool" where
  "wire_command c \<longleftrightarrow> c \<noteq> [] \<and> length c = word_payload (hd c) + 1"

lemma commands_complete_concat:
  "list_all wire_command cs \<Longrightarrow> commands_complete (pre @ concat cs) (length pre)"
proof (induction cs arbitrary: pre)
  case Nil
  then show ?case by (simp add: commands_complete.simps)
next
  case (Cons c cs)
  then have c: "c \<noteq> []" "length c = word_payload (hd c) + 1" by (simp_all add: wire_command_def)
  have "(pre @ c @ concat cs) ! length pre = hd c" using c(1) by (simp add: nth_append hd_conv_nth)
  moreover have "commands_complete ((pre @ c) @ concat cs) (length (pre @ c))"
    using Cons.IH [of "pre @ c"] Cons.prems by simp
  ultimately show ?case using c by (subst commands_complete.simps) (simp add: Let_def payload_byte)
qed

lemma commands_complete_splits:
  "commands_complete words i \<Longrightarrow> \<exists>cs. list_all wire_command cs \<and> drop i words = concat cs"
proof (induction words i rule: commands_complete.induct)
  case (1 words i)
  show ?case
  proof (cases "i < length words")
    case False
    then show ?thesis by (intro exI [of _ "[]"]) simp
  next
    case True
    let ?p = "word_payload (words ! i)"
    have p: "?p \<le> length words - i - 1" "commands_complete words (i + ?p + 1)"
      using "1.prems" True unfolding commands_complete.simps [of words i] Let_def payload_byte by (simp_all split: if_splits)
    then obtain cs where cs: "list_all wire_command cs" "drop (i + ?p + 1) words = concat cs"
      using "1.IH" [OF True refl refl] unfolding payload_byte by auto
    define c where "c = take (?p + 1) (drop i words)"
    have "hd c = words ! i" "length c = ?p + 1" using True p(1) by (simp_all add: c_def hd_drop_conv_nth)
    then have "wire_command c" by (auto simp: wire_command_def)
    moreover have "drop (i + ?p + 1) words = drop (?p + 1) (drop i words)" by (simp add: add.commute add.left_commute)
    then have "drop i words = c @ concat cs" unfolding cs(2) [symmetric] c_def by (metis append_take_drop_id)
    ultimately show ?thesis using cs(1) by (intro exI [of _ "c # cs"]) simp
  qed
qed

lemma commands_complete_iff: "commands_complete words 0 \<longleftrightarrow> (\<exists>cs. list_all wire_command cs \<and> words = concat cs)"
  using commands_complete_splits [of words 0] commands_complete_concat [where pre = "[]"] by auto

definition frame_bytes :: "u32 list \<Rightarrow> u8 list" where
  "frame_bytes words =
     (let crc = crc_over crc_update_oracle words
      in [0xa5, of_nat (length words), ucast (drop_bit 8 crc), ucast crc] @ concat (map word_bytes words))"

lemma send_commands_eq:
  "fpga_spi_send_commands wr words d =
     (if words \<noteq> [] \<and> length words \<le> 63 \<and> (\<exists>cs. list_all wire_command cs \<and> words = concat cs)
      then wr d (frame_bytes words) else (-1, d))"
  by (auto simp: fpga_spi_send_commands_def FPGA_SPI_MAX_COMMAND_WORDS_def commands_complete_iff append_words_eq
      frame_bytes_def crc_over_bytes crc16_byte_eq Let_def)

lemma complete_wire_command: "complete_command c \<longleftrightarrow> wire_command c \<and> word_payload (hd c) \<le> 16"
  by (auto simp: complete_command_def wire_command_def kMaxCommandPayloadWords_def)

lemma encode_ok_iff: "(\<exists>tx. encode_command_transaction words = Inr tx) \<longleftrightarrow> validate_command_transaction words = Inr ()"
  by (auto simp: encode_command_transaction_def command_transaction_crc16_def Let_def split: sum.splits)

text \<open>The constant frames carry the checksum of their first two bytes.\<close>

lemma constant_frames:
  "foldl crc16_byte 0xffff [0xa6, 0] = 0xaad7" "foldl crc16_byte 0xffff [0xa7, 0] = 0x99e6"
  by code_simp+

text \<open>C20: The firmware and the host frame commands alike. Whatever words the host's transport accepts, the
  firmware puts exactly the same bytes on the wire: the same header, CRC and word order, although
  one computes the CRC with a table and the other bit by bit; and what the host refuses the
  firmware refuses without writing, except that it lets commands of more than 16 payload words pass.\<close>

theorem firmware_frames_like_host:
  "case encode_command_transaction words of
     Inr tx \<Rightarrow> fpga_spi_send_commands wr words d = wr d (take (tx_length tx) (tx_bytes tx))
   | Inl e \<Rightarrow> fpga_spi_send_commands wr words d = (-1, d) \<or>
       (\<exists>cs c. words = concat cs \<and> list_all wire_command cs \<and> c \<in> set cs \<and> 16 < word_payload (hd c))"
proof (cases "encode_command_transaction words")
  case (Inr tx)
  then have v: "validate_command_transaction words = Inr ()" using encode_ok_iff by blast
  then obtain cs where "words \<noteq> []" "length words \<le> 63" "list_all complete_command cs" "words = concat cs"
    by (auto simp: validate_iff kMaxCommandTransactionWords_def)
  moreover from this have "list_all wire_command cs" by (auto simp: list_all_iff complete_wire_command)
  ultimately have "fpga_spi_send_commands wr words d = wr d (frame_bytes words)" by (auto simp: send_commands_eq)
  moreover have "take (tx_length tx) (tx_bytes tx) = frame_bytes words"
    using encode_bytes [OF v] Inr by (auto simp: frame_bytes_def Let_def crc_update_fun_eq)
  ultimately show ?thesis using Inr by simp
next
  case (Inl e)
  then have "validate_command_transaction words \<noteq> Inr ()" using encode_ok_iff [of words] by auto
  then have no: "\<not> (words \<noteq> [] \<and> length words \<le> 63 \<and> (\<exists>cs. list_all complete_command cs \<and> words = concat cs))"
    by (simp add: validate_iff kMaxCommandTransactionWords_def)
  show ?thesis
  proof (cases "words \<noteq> [] \<and> length words \<le> 63 \<and> (\<exists>cs. list_all wire_command cs \<and> words = concat cs)")
    case True
    then obtain cs where cs: "list_all wire_command cs" "words = concat cs" by blast
    have "\<not> list_all complete_command cs" using no True cs(2) by blast
    then obtain c where "c \<in> set cs" "\<not> complete_command c" by (auto simp: list_all_iff)
    then show ?thesis using cs Inl by (auto simp: list_all_iff complete_wire_command not_le)
  next
    case False
    then have "fpga_spi_send_commands wr words d = (-1, d)" unfolding send_commands_eq by (simp only: if_False)
    then show ?thesis using Inl by simp
  qed
qed

section \<open>The completions are exactly the encoded ones\<close>

definition pack_item :: "completion_item \<Rightarrow> u32" where
  "pack_item i = push_bit 16 (ucast (ci_generation i)) OR push_bit 7 (ucast (ci_voice i)) OR push_bit 4 (ucast (ci_reason i))"

definition completion_ok :: "completion_item \<Rightarrow> bool" where
  "completion_ok i \<longleftrightarrow> ci_voice i < 512 \<and> ci_reason i \<le> 2"

definition be16_bytes :: "u16 \<Rightarrow> u8 list" where
  "be16_bytes v = [ucast (drop_bit 8 v), ucast v]"

definition completion_body :: "completion_batch \<Rightarrow> u8 list" where
  "completion_body b =
     [0, 1, cb_overflow b, cb_count b] @ word_bytes (cb_session_epoch b) @ be16_bytes (cb_write_sequence b) @
     be16_bytes (cb_start_sequence b) @
     concat (map word_bytes (map pack_item (cb_items b) @ replicate (16 - length (cb_items b)) 0))"

definition encode_completions :: "completion_batch \<Rightarrow> u8 list" where
  "encode_completions b = completion_body b @ word_bytes (crc32_bytes (completion_body b))"

definition batch_ok :: "u16 \<Rightarrow> completion_batch \<Rightarrow> bool" where
  "batch_ok sequence b \<longleftrightarrow>
     cb_start_sequence b = sequence \<and> cb_count b = of_nat (length (cb_items b)) \<and> cb_overflow b \<le> 1 \<and>
     cb_count b = expected_count (cb_write_sequence b) sequence \<and> length (cb_items b) \<le> 16 \<and>
     list_all completion_ok (cb_items b)"

lemma read_be32_word: "read_be32 xs p = bytes_word [xs ! p, xs ! (p + 1), xs ! (p + 2), xs ! (p + 3)]"
  by (simp add: read_be32_def bytes_word_def numeral_2_eq_2 numeral_3_eq_3)

lemma word_bytes_word: "word_bytes (bytes_word [a, b, c, d]) = [a, b, c, d]"
proof -
  have "bit (ucast (drop_bit 24 (bytes_word [a, b, c, d])) :: u8) n = bit a n"
    "bit (ucast (drop_bit 16 (bytes_word [a, b, c, d])) :: u8) n = bit b n"
    "bit (ucast (drop_bit 8 (bytes_word [a, b, c, d])) :: u8) n = bit c n"
    "bit (ucast (bytes_word [a, b, c, d]) :: u8) n = bit d n" if "n < 8" for n
    using that by (auto simp: bytes_word_def bit_simps bit_beyond numeral_2_eq_2 numeral_3_eq_3)
  then show ?thesis unfolding word_bytes_def by (intro arg_cong2 [where f = Cons] bit_word_eqI) simp_all
qed

lemma add_three_four: "p + 3 = Suc (Suc (Suc p))" "p + 4 = Suc (Suc (Suc (Suc p)))"
  by simp_all

lemma drop_four: "p + 4 \<le> length xs \<Longrightarrow> drop p xs = [xs ! p, xs ! (p + 1), xs ! (p + 2), xs ! (p + 3)] @ drop (p + 4) xs"
  by (simp add: Cons_nth_drop_Suc [symmetric] add_three_four)

lemma drop_be32: "p + 4 \<le> length xs \<Longrightarrow> drop p xs = word_bytes (read_be32 xs p) @ drop (p + 4) xs"
  by (simp only: read_be32_word word_bytes_word drop_four)

lemma drop_be16: "p + 2 \<le> length xs \<Longrightarrow> drop p xs = be16_bytes (read_be16 xs p) @ drop (p + 2) xs"
proof -
  have "ucast (drop_bit 8 (push_bit 8 (ucast a) OR ucast b :: u16)) = a" "ucast (push_bit 8 (ucast a) OR ucast b :: u16) = b"
    for a b :: u8
    by (rule bit_word_eqI, auto simp: bit_simps bit_beyond)+
  then show "p + 2 \<le> length xs \<Longrightarrow> drop p xs = be16_bytes (read_be16 xs p) @ drop (p + 2) xs"
    by (simp add: read_be16_def be16_bytes_def Cons_nth_drop_Suc [symmetric])
qed

lemma read_be_bytes:
  "drop p xs = word_bytes v @ ys \<Longrightarrow> read_be32 xs p = v" "drop p xs = be16_bytes w @ ys \<Longrightarrow> read_be16 xs p = w"
proof -
  assume a: "drop p xs = word_bytes v @ ys"
  have "xs ! (p + i) = word_bytes v ! i" if "i < 4" for i
  proof -
    have "xs ! (p + i) = drop p xs ! i"
      using arg_cong [OF a, of length] by (intro nth_drop [symmetric]) simp
    then show ?thesis using a that by (simp add: nth_append)
  qed
  from this [of 0] this [of 1] this [of 2] this [of 3]
  have "[xs ! p, xs ! (p + 1), xs ! (p + 2), xs ! (p + 3)] = word_bytes v" by (simp add: word_bytes_def)
  then show "read_be32 xs p = v" by (simp add: read_be32_word)
next
  assume a: "drop p xs = be16_bytes w @ ys"
  have "xs ! (p + i) = be16_bytes w ! i" if "i < 2" for i
  proof -
    have "xs ! (p + i) = drop p xs ! i"
      using arg_cong [OF a, of length] by (intro nth_drop [symmetric]) (simp add: be16_bytes_def)
    moreover have "length (be16_bytes w) = 2" by (simp add: be16_bytes_def)
    ultimately show ?thesis using a that by (simp add: nth_append)
  qed
  from this [of 0] this [of 1] have "xs ! p = ucast (drop_bit 8 w)" "xs ! (p + 1) = ucast w" by (simp_all add: be16_bytes_def)
  moreover have "push_bit 8 (ucast (ucast (drop_bit 8 w) :: u8)) OR ucast (ucast w :: u8) = w"
    by (rule bit_word_eqI) (auto simp: bit_simps)
  ultimately show "read_be16 xs p = w" by (simp add: read_be16_def)
qed

lemma drop_words:
  "length xs = p + 4 * n \<Longrightarrow> drop p xs = concat (map word_bytes (map (\<lambda>i. read_be32 xs (p + 4 * i)) [0..<n]))"
proof (induction n arbitrary: p)
  case (Suc n)
  have "map (\<lambda>i. read_be32 xs (p + 4 * i)) [0..<Suc n] =
      read_be32 xs p # map (\<lambda>i. read_be32 xs (p + 4 + 4 * i)) [0..<n]"
    by (simp add: upt_conv_Cons map_Suc_upt [symmetric] add.assoc del: upt_Suc)
  then show ?case using Suc.IH [of "p + 4"] Suc.prems drop_be32 [of p xs] by simp
qed simp

lemma low_bits:
  "(w AND 0x4f = 0) = (\<forall>n \<in> {0, 1, 2, 3, 6}. \<not> bit w n)" for w :: u32
proof -
  have m: "bit (0x4f :: u32) n \<longleftrightarrow> n \<in> {0, 1, 2, 3, 6}" if "n < 32" for n
    using that by (auto simp: bit_numeral_simps less_Suc_eq numeral_eq_Suc)
  have "w AND 0x4f = 0 \<longleftrightarrow> (\<forall>n < 32. \<not> (bit w n \<and> bit (0x4f :: u32) n))"
    by (auto simp: bit_eq_iff bit_simps)
  also have "\<dots> \<longleftrightarrow> (\<forall>n < 32. \<not> (bit w n \<and> n \<in> {0, 1, 2, 3, 6}))" using m by blast
  also have "\<dots> \<longleftrightarrow> (\<forall>n \<in> {0, 1, 2, 3, 6}. \<not> bit w n)"
  proof -
    have "n < 32" if "n \<in> {0, 1, 2, 3, 6}" for n :: nat using that by auto
    then show ?thesis by blast
  qed
  finally show ?thesis .
qed

lemma bit_below: "unat (w :: 'a::len word) < 2 ^ k \<Longrightarrow> bit w m \<Longrightarrow> m < k"
proof -
  assume "unat w < 2 ^ k" and b: "bit w m"
  then have "unat (take_bit k w) = unat w" by (simp add: unsigned_take_bit_eq take_bit_nat_eq_self)
  then have "take_bit k w = w" by (simp add: word_unat_eq_iff)
  then show "m < k" using b by (metis bit_take_bit_iff)
qed

lemma field_masks: "(0x1ff :: u32) = mask 9" "(0x3 :: u32) = mask 2"
  by (simp_all add: mask_eq_exp_minus_1)

lemma bit_pack_item:
  "n < 32 \<Longrightarrow> bit (pack_item i) n \<longleftrightarrow>
     16 \<le> n \<and> bit (ci_generation i) (n - 16) \<or> 7 \<le> n \<and> bit (ci_voice i) (n - 7) \<or> 4 \<le> n \<and> bit (ci_reason i) (n - 4)"
  by (auto simp: pack_item_def bit_simps)

lemma read_item_sound: "read_item packed = Some i \<Longrightarrow> completion_ok i \<and> packed = pack_item i"
proof -
  assume r: "read_item packed = Some i"
  then have zero: "\<forall>n \<in> {0, 1, 2, 3, 6}. \<not> bit packed n" and reason: "drop_bit 4 packed AND 0x3 \<le> 2"
    and i: "ci_generation i = ucast (drop_bit 16 packed)" "ci_voice i = ucast (drop_bit 7 packed AND 0x1ff)"
      "ci_reason i = ucast (drop_bit 4 packed AND 0x3)"
    using low_bits [of packed] by (auto simp: read_item_def split: if_splits)
  have "unat (ci_voice i) < 512"
    unfolding i(2) field_masks take_bit_eq_mask [symmetric] unsigned_ucast_eq unsigned_take_bit_eq
    by (simp add: take_bit_nat_less_exp [of 9, simplified])
  moreover have "unat (ci_reason i) \<le> 2"
    using reason unfolding i(3) unsigned_ucast_eq word_le_nat_alt
    by (auto intro: order_trans [OF take_bit_nat_less_eq_self])
  ultimately have "completion_ok i" by (simp add: completion_ok_def word_less_nat_alt word_le_nat_alt)
  moreover have "packed = pack_item i"
  proof (rule bit_word_eqI)
    fix n assume "n < LENGTH(32)"
    then have n: "n < 32" by simp
    have "bit (pack_item i) n \<longleftrightarrow> 16 \<le> n \<and> bit packed n \<or> 7 \<le> n \<and> n < 16 \<and> bit packed n \<or> 4 \<le> n \<and> n < 6 \<and> bit packed n"
      unfolding bit_pack_item [OF n] i field_masks using n by (auto simp: bit_simps)
    moreover have "n \<ge> 16 \<or> 7 \<le> n \<and> n < 16 \<or> 4 \<le> n \<and> n < 6 \<or> n \<in> {0, 1, 2, 3, 6}" by auto
    ultimately show "bit packed n = bit (pack_item i) n" using zero by blast
  qed
  ultimately show ?thesis by blast
qed

lemma read_item_complete: "completion_ok i \<Longrightarrow> read_item (pack_item i) = Some i"
proof -
  assume ok: "completion_ok i"
  have v: "m < 9" if "bit (ci_voice i) m" for m
    using ok that bit_below [of "ci_voice i" 9 m] by (simp add: completion_ok_def word_less_nat_alt)
  have r: "m < 2" if "bit (ci_reason i) m" for m
    using ok that bit_below [of "ci_reason i" 2 m] by (simp add: completion_ok_def word_le_nat_alt)
  have e: "bit (pack_item i) (m + k) \<longleftrightarrow> m + k < 32 \<and> (16 \<le> m + k \<and> bit (ci_generation i) (m + k - 16) \<or>
      7 \<le> m + k \<and> bit (ci_voice i) (m + k - 7) \<or> 4 \<le> m + k \<and> bit (ci_reason i) (m + k - 4))" for m k
    using bit_pack_item [of "m + k" i] bit_beyond [of "m + k" "pack_item i"] by (cases "m + k < 32") auto
  have reason: "drop_bit 4 (pack_item i) AND 0x3 = ucast (ci_reason i)"
    unfolding field_masks by (rule bit_word_eqI) (auto simp: bit_simps e dest: v r)
  have voice: "ucast (drop_bit 7 (pack_item i) AND 0x1ff) = ci_voice i"
    unfolding field_masks by (rule bit_word_eqI) (auto simp: bit_simps e dest: v r)
  have gen: "ucast (drop_bit 16 (pack_item i)) = ci_generation i"
    by (rule bit_word_eqI) (auto simp: bit_simps e dest: v r)
  have "\<not> bit (pack_item i) n" if "n \<in> {0, 1, 2, 3, 6}" for n
    using that bit_pack_item [of n i] r [of 2] by auto
  then have "pack_item i AND 0x4f = 0" using low_bits [of "pack_item i"] by blast
  moreover have "ucast (ci_reason i) \<le> (2 :: u32)"
    using ok by (simp add: completion_ok_def word_le_nat_alt unsigned_ucast_eq take_bit_nat_eq_self)
  moreover have "ucast (ucast (ci_reason i) :: u32) = ci_reason i" by (rule bit_word_eqI) (auto simp: bit_simps)
  ultimately show ?thesis by (simp add: read_item_def reason voice gen not_less)
qed

lemma read_item_iff: "read_item packed = Some i \<longleftrightarrow> completion_ok i \<and> packed = pack_item i"
  using read_item_sound read_item_complete by blast

fun items_of :: "nat \<Rightarrow> u32 list \<Rightarrow> completion_item list option" where
  "items_of n [] = Some []"
| "items_of 0 (w # ws) = (if w \<noteq> 0 then None else items_of 0 ws)"
| "items_of (Suc n) (w # ws) =
     (case read_item w of None \<Rightarrow> None | Some i \<Rightarrow> map_option (\<lambda>is. i # is) (items_of n ws))"

lemma read_items_eq:
  "item \<le> 16 \<Longrightarrow> read_items rx count item = items_of (count - item) (map (\<lambda>i. read_be32 rx (25 + 4 * i)) [item..<16])"
proof (induction "16 - item" arbitrary: item)
  case 0
  then show ?case by (simp add: read_items.simps FPGA_SPI_COMPLETION_ITEMS_def)
next
  case (Suc k)
  then have item: "item < 16" by simp
  have IH: "read_items rx count (item + 1) =
      items_of (count - (item + 1)) (map (\<lambda>i. read_be32 rx (25 + 4 * i)) [item + 1..<16])"
    using Suc by (intro Suc.hyps) simp_all
  have upt: "[item..<16] = item # [item + 1..<16]" using item by (simp add: upt_conv_Cons)
  show ?case
  proof (cases "count \<le> item")
    case True
    then show ?thesis
      using item IH unfolding upt
      by (subst read_items.simps) (simp add: FPGA_SPI_COMPLETION_ITEMS_def Let_def mult.commute)
  next
    case False
    then obtain n where n: "count - item = Suc n" "count - (item + 1) = n" by (cases "count - item") simp_all
    show ?thesis
      using item IH False unfolding upt n(1)
      by (subst read_items.simps) (simp add: FPGA_SPI_COMPLETION_ITEMS_def Let_def mult.commute n(2) [simplified] split: option.split)
  qed
qed

lemma items_of_iff:
  "n \<le> length ws \<Longrightarrow> items_of n ws = Some is \<longleftrightarrow>
     length is = n \<and> list_all completion_ok is \<and> take n ws = map pack_item is \<and> list_all (\<lambda>w. w = 0) (drop n ws)"
proof (induction n ws arbitrary: "is" rule: items_of.induct)
  case (2 w ws)
  then show ?case by auto
next
  case (3 n w ws)
  show ?case
  proof (cases "read_item w")
    case None
    then have "\<not> (completion_ok i \<and> w = pack_item i)" for i using read_item_iff [of w i] by simp
    then show ?thesis using None by (cases "is") auto
  next
    case (Some i)
    then have w: "completion_ok j \<and> w = pack_item j \<longleftrightarrow> j = i" for j using read_item_iff [of w j] by auto
    show ?thesis
    proof (cases "is")
      case Nil
      then show ?thesis using Some by auto
    next
      case (Cons j js)
      then show ?thesis using Some 3 w [of j] by auto
    qed
  qed
qed auto

lemma word_bytes_inject [simp]: "word_bytes w = word_bytes v \<longleftrightarrow> w = v"
  by (metis bytes_word_bytes)

lemma be16_bytes_inject [simp]: "be16_bytes w = be16_bytes v \<longleftrightarrow> w = v"
proof
  assume "be16_bytes w = be16_bytes v"
  then have "read_be16 (be16_bytes w) 0 = w" "read_be16 (be16_bytes w) 0 = v"
    by (intro read_be_bytes(2) [where ys = "[]"], simp)+
  then show "w = v" by simp
qed simp

lemma words_inject: "concat (map word_bytes ws) = concat (map word_bytes vs) \<longleftrightarrow> ws = vs"
  by (metis bytes_words_concat)

definition item_words :: "u8 list \<Rightarrow> u32 list" where
  "item_words rx = map (\<lambda>i. read_be32 rx (25 + 4 * i)) [0..<16]"

lemma completion_layout:
  assumes "length rx = 93"
  shows "drop 13 rx = ([rx ! 13, rx ! 14, rx ! 15, rx ! 16] @ word_bytes (read_be32 rx 17) @
      be16_bytes (read_be16 rx 21) @ be16_bytes (read_be16 rx 23) @ concat (map word_bytes (item_words rx))) @
      word_bytes (read_be32 rx 89)"
proof -
  have index: "[0..<Suc 16] = [0..<16] @ [16]" "25 + 4 * 16 = (89 :: nat)" by (rule upt_Suc_append, simp_all)
  have "drop 13 rx = [rx ! 13, rx ! 14, rx ! 15, rx ! 16] @ drop 17 rx"
    using drop_four [of 13 rx] assms by simp
  moreover have "drop 17 rx = word_bytes (read_be32 rx 17) @ drop 21 rx" using drop_be32 [of 17 rx] assms by simp
  moreover have "drop 21 rx = be16_bytes (read_be16 rx 21) @ drop 23 rx" using drop_be16 [of 21 rx] assms by simp
  moreover have "drop 23 rx = be16_bytes (read_be16 rx 23) @ drop 25 rx" using drop_be16 [of 23 rx] assms by simp
  moreover have "drop 25 rx = concat (map word_bytes (map (\<lambda>i. read_be32 rx (25 + 4 * i)) [0..<Suc 16]))"
    using assms by (intro drop_words) simp
  then have "drop 25 rx = concat (map word_bytes (item_words rx)) @ word_bytes (read_be32 rx 89)"
    unfolding item_words_def index(1) by (simp only: map_append concat_append list.map concat.simps append_Nil2 index(2))
  ultimately show ?thesis by (simp only: append.assoc)
qed

lemma length_be16_bytes [simp]: "length (be16_bytes v) = 2"
  by (simp add: be16_bytes_def)

lemma completion_layout_iff:
  assumes "length rx = 93" and "length (cb_items b) \<le> 16"
  shows "drop 13 rx = encode_completions b \<longleftrightarrow>
    rx ! 13 = 0 \<and> rx ! 14 = 1 \<and> rx ! 15 = cb_overflow b \<and> rx ! 16 = cb_count b \<and>
    read_be32 rx 17 = cb_session_epoch b \<and> read_be16 rx 21 = cb_write_sequence b \<and>
    read_be16 rx 23 = cb_start_sequence b \<and>
    item_words rx = map pack_item (cb_items b) @ replicate (16 - length (cb_items b)) 0 \<and>
    read_be32 rx 89 = crc32_bytes (take 76 (drop 13 rx))"
proof -
  let ?body = "[rx ! 13, rx ! 14, rx ! 15, rx ! 16] @ word_bytes (read_be32 rx 17) @
      be16_bytes (read_be16 rx 21) @ be16_bytes (read_be16 rx 23) @ concat (map word_bytes (item_words rx))"
  have n: "length ?body = 76" "length (completion_body b) = 76"
    using assms(2) unfolding completion_body_def length_append length_concat_word_bytes item_words_def length_map length_replicate
    by simp_all
  have take: "take 76 (drop 13 rx) = ?body" using completion_layout [OF assms(1)] n(1) by simp
  have "drop 13 rx = encode_completions b \<longleftrightarrow> ?body = completion_body b \<and> read_be32 rx 89 = crc32_bytes (completion_body b)"
    unfolding encode_completions_def completion_layout [OF assms(1)] using n by (subst append_eq_append_conv) simp_all
  also have "\<dots> \<longleftrightarrow> ?body = completion_body b \<and> read_be32 rx 89 = crc32_bytes (take 76 (drop 13 rx))"
    unfolding take by auto
  also have "?body = completion_body b \<longleftrightarrow> rx ! 13 = 0 \<and> rx ! 14 = 1 \<and> rx ! 15 = cb_overflow b \<and> rx ! 16 = cb_count b \<and>
      read_be32 rx 17 = cb_session_epoch b \<and> read_be16 rx 21 = cb_write_sequence b \<and>
      read_be16 rx 23 = cb_start_sequence b \<and>
      item_words rx = map pack_item (cb_items b) @ replicate (16 - length (cb_items b)) 0"
    unfolding completion_body_def by (simp add: words_inject del: map_append map_map map_replicate)
  finally show ?thesis by (simp only: conj_assoc)
qed

lemma overflow_flag: "(w AND 0xfe = 0) = (w \<le> 1)" "w \<le> 1 \<Longrightarrow> w AND 1 = w" for w :: u8
proof -
  have w: "w = of_nat (unat w)" by simp
  have "\<forall>n < 256. (of_nat n AND 0xfe = (0 :: u8)) = (n \<le> 1)" by code_simp
  then have "(of_nat (unat w) AND 0xfe = (0 :: u8)) = (unat w \<le> 1)" using unat_bounds(1) [of w] by blast
  then show "(w AND 0xfe = 0) = (w \<le> 1)" by (simp add: word_le_nat_alt)
  assume "w \<le> 1"
  then have "w = 0 \<or> w = 1" by (metis word_le_nat_alt unat_1 le_Suc_eq One_nat_def le_zero_eq unat_eq_zero word_unat_eq_iff)
  then show "w AND 1 = w" by auto
qed

lemma parse_completions_iff:
  assumes "length rx = 93"
  shows "parse_completions sequence rx = Some b \<longleftrightarrow> batch_ok sequence b \<and> drop 13 rx = encode_completions b"
proof
  let ?n = "unat (rx ! 16)"
  assume p: "parse_completions sequence rx = Some b"
  then have crc: "read_be32 rx 89 = crc32_bytes (take 76 (drop 13 rx))"
    and h: "rx ! 13 = 0" "rx ! 14 = 1" "rx ! 15 \<le> 1" "rx ! 16 \<le> 16" "read_be16 rx 23 = sequence"
      "rx ! 16 = expected_count (read_be16 rx 21) sequence"
    and items: "read_items rx ?n 0 = Some (cb_items b)"
    and b: "b = \<lparr> cb_session_epoch = read_be32 rx 17, cb_write_sequence = read_be16 rx 21,
      cb_start_sequence = read_be16 rx 23, cb_count = rx ! 16, cb_overflow = rx ! 15 AND 1, cb_items = cb_items b \<rparr>"
    by (auto simp: parse_completions_def Let_def FPGA_SPI_COMPLETION_ITEMS_def overflow_flag(1) split: if_splits)
  have n: "?n \<le> 16" using h(4) by (simp add: word_le_nat_alt)
  have "items_of ?n (item_words rx) = Some (cb_items b)" using items read_items_eq [of 0 rx ?n] by (simp add: item_words_def)
  moreover have len: "length (item_words rx) = 16" by (simp add: item_words_def)
  ultimately have it: "length (cb_items b) = ?n" "list_all completion_ok (cb_items b)"
    "take ?n (item_words rx) = map pack_item (cb_items b)" "list_all (\<lambda>w. w = 0) (drop ?n (item_words rx))"
    using items_of_iff [of ?n "item_words rx" "cb_items b"] n by simp_all
  have "drop ?n (item_words rx) = replicate (16 - ?n) 0"
    using it(4) len by (intro replicate_eqI) (auto simp: list_all_iff)
  then have "item_words rx = map pack_item (cb_items b) @ replicate (16 - length (cb_items b)) 0"
    using it(1,3) by (metis append_take_drop_id)
  then have "drop 13 rx = encode_completions b"
    using completion_layout_iff [OF assms, of b] n it(1) crc h b overflow_flag(2) [OF h(3)]
    by (metis completion_batch.select_convs)
  moreover have "batch_ok sequence b"
  proof -
    have "rx ! 16 = of_nat (length (cb_items b))" using it(1) by simp
    then show ?thesis
      unfolding batch_ok_def using h it(1,2) n b overflow_flag(2) [OF h(3)] by (metis completion_batch.select_convs)
  qed
  ultimately show "batch_ok sequence b \<and> drop 13 rx = encode_completions b" by blast
next
  assume a: "batch_ok sequence b \<and> drop 13 rx = encode_completions b"
  let ?n = "length (cb_items b)"
  have n: "?n \<le> 16" using a by (simp add: batch_ok_def)
  note l = iffD1 [OF completion_layout_iff [OF assms n] conjunct2 [OF a]]
  have count: "unat (rx ! 16) = ?n" using l a n by (simp add: batch_ok_def unat_of_nat)
  have "items_of ?n (item_words rx) = Some (cb_items b)"
    using items_of_iff [of ?n "item_words rx" "cb_items b"] l a n by (simp add: batch_ok_def list_all_iff)
  then have items: "read_items rx (unat (rx ! 16)) 0 = Some (cb_items b)"
    using read_items_eq [of 0 rx ?n] count by (simp add: item_words_def)
  have r: "rx ! 15 \<le> 1" "rx ! 16 \<le> 16" "read_be16 rx 23 = sequence"
    using l a n by (simp_all add: batch_ok_def word_le_nat_alt unat_of_nat)
  have r4: "rx ! 16 = expected_count (read_be16 rx 21) sequence" using l a unfolding batch_ok_def by metis
  have rec: "\<lparr> cb_session_epoch = read_be32 rx 17, cb_write_sequence = read_be16 rx 21, cb_start_sequence = read_be16 rx 23,
      cb_count = rx ! 16, cb_overflow = rx ! 15 AND 1, cb_items = cb_items b \<rparr> = b"
    using l overflow_flag(2) [OF r(1)] by simp
  have c: "(read_be32 rx 89 \<noteq> crc32_bytes (take (89 - 13) (drop 13 rx))) = False"
    "(rx ! 13 \<noteq> 0 \<or> rx ! 14 \<noteq> 1 \<or> rx ! 15 AND 0xfe \<noteq> 0 \<or> rx ! 16 > of_nat 16) = False"
    "(read_be16 rx 23 \<noteq> sequence \<or> rx ! 16 \<noteq> expected_count (read_be16 rx 21) sequence) = False"
    using l r r4 overflow_flag(1) [of "rx ! 15"] by (simp_all add: not_less)
  show "parse_completions sequence rx = Some b"
    unfolding parse_completions_def Let_def FPGA_SPI_COMPLETION_ITEMS_def c if_False items option.map(2) rec by (rule refl)
qed

section \<open>Polling\<close>

text \<open>An answer the polling loop does not use: corrupted, or the register port is still busy.\<close>

definition not_ready :: "u8 list \<Rightarrow> bool" where
  "not_ready rx \<longleftrightarrow> read_be32 rx 12 \<noteq> crc32_bytes (take 8 (drop 4 rx)) \<or> rx ! 4 = REGISTER_RESPONSE_BUSY"

definition register_answer :: "register_operation \<Rightarrow> u16 \<Rightarrow> u32 \<Rightarrow> u8 list" where
  "register_answer operation address data =
     (let body = [REGISTER_RESPONSE_OK, operation_code operation] @ be16_bytes address @ word_bytes data
      in body @ word_bytes (crc32_bytes body))"

text \<open>The answers to the next polls, and the state after them.\<close>

fun polls :: "'d exchange_fn \<Rightarrow> nat \<Rightarrow> 'd \<Rightarrow> (int \<times> u8 list) list \<times> 'd" where
  "polls exchange 0 d = ([], d)"
| "polls exchange (Suc n) d =
     (case exchange d (0x5b # replicate 15 0) of
        (result, rx, d1) \<Rightarrow> (case polls exchange n d1 of (rs, d2) \<Rightarrow> ((result, rx) # rs, d2)))"

lemma register_answer_fetched:
  assumes "drop 4 rx = register_answer operation address data"
  shows "read_be32 rx 12 = crc32_bytes (take 8 (drop 4 rx))" "rx ! 4 = REGISTER_RESPONSE_OK" "rx ! 5 = operation_code operation"
    "rx ! 6 = ucast (drop_bit 8 address)" "rx ! 7 = ucast address" "read_be32 rx 8 = data"
proof -
  let ?body = "[REGISTER_RESPONSE_OK, operation_code operation] @ be16_bytes address @ word_bytes data"
  have d: "drop 4 rx = ?body @ word_bytes (crc32_bytes ?body)" using assms by (simp add: register_answer_def Let_def)
  have len: "length ?body = 8" by simp
  have "drop 12 rx = drop 8 (drop 4 rx)" by simp
  then have "drop 12 rx = word_bytes (crc32_bytes ?body) @ []" unfolding d using len by (simp only: drop_append) simp
  moreover have "take 8 (drop 4 rx) = ?body" unfolding d using len by simp
  ultimately show "read_be32 rx 12 = crc32_bytes (take 8 (drop 4 rx))" by (simp only: read_be_bytes(1))
  have "drop 8 rx = drop 4 (drop 4 rx)" by simp
  then have "drop 8 rx = word_bytes data @ word_bytes (crc32_bytes ?body)" unfolding d by (simp add: be16_bytes_def)
  then show "read_be32 rx 8 = data" by (rule read_be_bytes)
  have "length rx = 16" using arg_cong [OF d, of length] by simp
  then have n: "rx ! (4 + i) = (?body @ word_bytes (crc32_bytes ?body)) ! i" for i 
    using d nth_drop [of 4 rx i] by simp
  show "rx ! 4 = REGISTER_RESPONSE_OK" "rx ! 5 = operation_code operation"
    "rx ! 6 = ucast (drop_bit 8 address)" "rx ! 7 = ucast address"
    using n [of 0] n [of 1] n [of 2] n [of 3] by (simp_all add: be16_bytes_def)
qed

lemma register_fetch_waits:
  assumes "list_all (\<lambda>(result, rx). result = 0 \<and> not_ready rx) (fst (polls exchange k d))"
  shows "register_fetch exchange (k + n) operation address d = register_fetch exchange n operation address (snd (polls exchange k d))"
  using assms
proof (induction k arbitrary: d)
  case (Suc k)
  obtain result rx d1 where e: "exchange d (0x5b # replicate 15 0) = (result, rx, d1)" by (metis prod_cases3)
  obtain rs d2 where p: "polls exchange k d1 = (rs, d2)" by (cases "polls exchange k d1")
  have "result = 0" "not_ready rx" and rs: "list_all (\<lambda>(result, rx). result = 0 \<and> not_ready rx) rs"
    using Suc.prems by (simp_all add: e p)
  then have "register_fetch exchange (Suc k + n) operation address d = register_fetch exchange (k + n) operation address d1"
    by (auto simp: e not_ready_def)
  then show ?case using Suc.IH [of d1] rs by (simp add: e p)
qed simp

text \<open>Register accesses wait out a busy or noisy link, but not forever. If the request is sent and the
  first polls return only busy or corrupted answers, followed within the fetch limit by an intact answer
  to this operation and address, a read returns the register's value and a write succeeds after exactly
  these polls; if all polls of the limit are busy or corrupted, the access fails.\<close>

theorem register_access_polls:
  assumes "wr d (register_request operation address write_data) = (0, d1)" and "0 < fetch_limit"
    and "polls exchange k d1 = (rs, d2)" and "list_all (\<lambda>(result, rx). result = 0 \<and> not_ready rx) rs"
  shows "(k = fetch_limit \<longrightarrow> register_transaction wr exchange operation address write_data fetch_limit d = (None, d2)) \<and>
    (k < fetch_limit \<longrightarrow> exchange d2 (0x5b # replicate 15 0) = (0, rx, d3) \<longrightarrow>
     drop 4 rx = register_answer operation address data \<longrightarrow> (operation = REGISTER_WRITE \<longrightarrow> data = 0) \<longrightarrow>
     register_transaction wr exchange operation address write_data fetch_limit d = (Some data, d3))"
proof (intro conjI impI)
  have t: "register_transaction wr exchange operation address write_data fetch_limit d =
      register_fetch exchange fetch_limit operation address d1"
    using assms(1,2) by (simp add: register_transaction_def)
  have waits: "register_fetch exchange (k + n) operation address d1 = register_fetch exchange n operation address d2" for n
    using register_fetch_waits [of exchange k d1 n operation address] assms(3,4) by simp
  show "register_transaction wr exchange operation address write_data fetch_limit d = (None, d2)" if "k = fetch_limit"
    using waits [of 0] that t by simp
  assume k: "k < fetch_limit" and e: "exchange d2 (0x5b # replicate 15 0) = (0, rx, d3)"
    and a: "drop 4 rx = register_answer operation address data" and w: "operation = REGISTER_WRITE \<longrightarrow> data = 0"
  note r = register_answer_fetched [OF a]
  obtain n where n: "fetch_limit = k + Suc n" using less_imp_Suc_add [OF k] by auto
  have "register_fetch exchange (Suc n) operation address d2 = (Some data, d3)"
    using e w r by (cases operation) (simp_all add: REGISTER_RESPONSE_OK_def REGISTER_RESPONSE_BUSY_def)
  then show "register_transaction wr exchange operation address write_data fetch_limit d = (Some data, d3)"
    unfolding t unfolding n waits .
qed

definition busy_twice :: "nat exchange_fn" where
  "busy_twice d tx =
     (0, if d < 2 then [0, 0, 0, 0, 2] @ replicate 11 0 else [0, 0, 0, 0] @ register_answer REGISTER_READ 0x20 7, d + 1)"

theorem register_access_polls_witness:
  "register_transaction (\<lambda>d bytes. (0, d)) busy_twice REGISTER_READ 0x20 0 8 0 = (Some 7, 3) \<and>
   register_transaction (\<lambda>d bytes. (0, d)) busy_twice REGISTER_READ 0x20 0 2 0 = (None, 2)"
proof -
  let ?busy = "[0, 0, 0, 0, 2] @ replicate 11 0 :: u8 list"
  have p: "polls busy_twice 2 0 = ([(0, ?busy), (0, ?busy)], 2)"
    unfolding numeral_2_eq_2 by (simp add: busy_twice_def)
  have n: "list_all (\<lambda>(result, rx). result = 0 \<and> not_ready rx) [(0 :: int, ?busy), (0, ?busy)]"
    by (simp add: not_ready_def REGISTER_RESPONSE_BUSY_def)
  show ?thesis
    using register_access_polls [of "\<lambda>d bytes. (0, d)" 0 REGISTER_READ "0x20" 0 0 8 busy_twice 2, OF _ _ p n,
        of "[0, 0, 0, 0] @ register_answer REGISTER_READ 0x20 7" 3 7]
      register_access_polls [of "\<lambda>d bytes. (0, d)" 0 REGISTER_READ "0x20" 0 0 2 busy_twice 2, OF _ _ p n]
    by (simp add: busy_twice_def)
qed

text \<open>The completions the firmware acts on are exactly those the FPGA sent. A response of 93 bytes is
  accepted, as the batch \<open>b\<close>, exactly when its payload is the encoding of \<open>b\<close>: CRC-32 intact, the
  requested start sequence, as many items as the 16-bit sequence numbers say are due (at most 16, wrapping
  included), every item with a voice below 512 and a reason of at most 2, and zeros behind them; so no two
  different batches are ever confused and any other response is refused.\<close>

theorem completions_exactly_encoded:
  assumes "exchange d (completion_request sequence) = (0, rx, d1)" and "length rx = FPGA_SPI_COMPLETION_FRAME_BYTES"
  shows "fpga_spi_read_completions exchange sequence d = (Some b, d1) \<longleftrightarrow>
    batch_ok sequence b \<and> drop 13 rx = encode_completions b"
  using assms parse_completions_iff [of rx sequence b]
  by (simp add: fpga_spi_read_completions_def FPGA_SPI_COMPLETION_FRAME_BYTES_def)

definition one_completion :: completion_batch where
  "one_completion = \<lparr> cb_session_epoch = 9, cb_write_sequence = 0, cb_start_sequence = 0xffff, cb_count = 1,
     cb_overflow = 0, cb_items = [\<lparr> ci_generation = 3, ci_voice = 300, ci_reason = 2 \<rparr>] \<rparr>"

theorem completions_exactly_encoded_witness:
  "fpga_spi_read_completions (\<lambda>d tx. (0, replicate 13 0 @ encode_completions one_completion, d)) 0xffff () =
     (Some one_completion, ())"
proof -
  have "batch_ok 0xffff one_completion"
    by (simp add: batch_ok_def one_completion_def expected_count_def completion_ok_def FPGA_SPI_COMPLETION_ITEMS_def)
  moreover have "length (encode_completions one_completion) = 80"
    unfolding encode_completions_def completion_body_def length_append length_concat_word_bytes length_map length_replicate
    by (simp add: one_completion_def)
  ultimately show ?thesis
    using completions_exactly_encoded [where exchange = "\<lambda>d tx. (0, replicate 13 0 @ encode_completions one_completion, d)" and d = "()" and sequence = "0xffff" and b = one_completion, OF refl]
    by (simp add: FPGA_SPI_COMPLETION_FRAME_BYTES_def)
qed

end
