(* ===== verification/Firmware_Commands.thy ===== *)
theory Firmware_Commands
  imports Fpga_Spi_Transport
begin

text \<open>
  The firmware's command path from \<open>src/mcu\<close>: \<open>command_batch.c\<close> collects commands,
  \<open>fpga_spi_transport.c\<close> frames a batch, \<open>spi_dma_queue.c\<close> holds the frames and
  \<open>rp2040_spi_dma_transport.c\<close> feeds them to the DMA engine, one frame per completion interrupt.
  The DMA engine and the pins are not modelled beyond the list of frames they were started with; an
  interrupt is a step of its own, and while the enqueue function polls a full queue the number of
  interrupts that arrive before its timeout is an argument.

  The locale states what a batch relies on of the function that sends it; its lemma is that commands
  leave in the order they were accepted, whatever fails. It is interpreted on the DMA path.
\<close>

section \<open>Batches of commands\<close>

record command_batch =
  ba_words :: "u32 list"
  ba_word_count :: nat

definition command_batch_init :: "command_batch \<Rightarrow> command_batch" where
  "command_batch_init batch = batch\<lparr> ba_word_count := 0 \<rparr>"

definition command_batch_flush :: "('s \<Rightarrow> u32 list \<Rightarrow> int \<times> 's) \<Rightarrow> command_batch \<Rightarrow> 's \<Rightarrow> int \<times> command_batch \<times> 's" where
  "command_batch_flush send batch s =
     (if ba_word_count batch = 0 then (0, batch, s)
      else case send s (take (ba_word_count batch) (ba_words batch)) of
             (result, s1) \<Rightarrow>
               if result \<noteq> 0 then (result, batch, s1) else (0, batch\<lparr> ba_word_count := 0 \<rparr>, s1))"

definition batch_push :: "command_batch \<Rightarrow> u32 \<Rightarrow> command_batch" where
  "batch_push batch word =
     batch\<lparr> ba_words := (ba_words batch)[ba_word_count batch := word], ba_word_count := ba_word_count batch + 1 \<rparr>"

definition command_batch_append ::
    "('s \<Rightarrow> u32 list \<Rightarrow> int \<times> 's) \<Rightarrow> command_batch \<Rightarrow> u32 list \<Rightarrow> 's \<Rightarrow> int \<times> command_batch \<times> 's" where
  "command_batch_append send batch words s =
     (if words = [] \<or> length words > FPGA_SPI_MAX_COMMAND_WORDS \<or>
         unat (ucast (words ! 0 AND 0xff) :: u8) + 1 \<noteq> length words then (-1, batch, s)
      else
        (let (result, batch1, s1) =
           (if ba_word_count batch + length words > FPGA_SPI_MAX_COMMAND_WORDS
            then command_batch_flush send batch s else (0, batch, s))
         in if result \<noteq> 0 then (-1, batch1, s1) else (0, foldl batch_push batch1 words, s1)))"

section \<open>The queue of frames\<close>

definition SPI_DMA_QUEUE_CAPACITY :: nat where "SPI_DMA_QUEUE_CAPACITY = 16"

record spi_dma_queue =
  dq_frames :: "u8 list list"
  dq_lengths :: "nat list"
  dq_read_index :: nat
  dq_write_index :: nat
  dq_count :: nat
  dq_high_water :: nat
  dq_overflow_count :: u32

definition spi_dma_queue_init :: spi_dma_queue where
  "spi_dma_queue_init =
     \<lparr> dq_frames = replicate SPI_DMA_QUEUE_CAPACITY (replicate FPGA_SPI_MAX_FRAME_BYTES 0),
       dq_lengths = replicate SPI_DMA_QUEUE_CAPACITY 0, dq_read_index = 0, dq_write_index = 0, dq_count = 0,
       dq_high_water = 0, dq_overflow_count = 0 \<rparr>"

definition spi_dma_queue_push :: "spi_dma_queue \<Rightarrow> u8 list \<Rightarrow> bool \<times> spi_dma_queue" where
  "spi_dma_queue_push q bytes =
     (if bytes = [] \<or> length bytes > FPGA_SPI_MAX_FRAME_BYTES then (False, q)
      else if dq_count q = SPI_DMA_QUEUE_CAPACITY
      then (False, q\<lparr> dq_overflow_count := dq_overflow_count q + 1 \<rparr>)
      else (True,
        q\<lparr> dq_frames := (dq_frames q)[dq_write_index q :=
               bytes @ drop (length bytes) (dq_frames q ! dq_write_index q)],
           dq_lengths := (dq_lengths q)[dq_write_index q := length bytes],
           dq_write_index := (dq_write_index q + 1) mod SPI_DMA_QUEUE_CAPACITY,
           dq_count := dq_count q + 1,
           dq_high_water := (if dq_count q + 1 > dq_high_water q then dq_count q + 1 else dq_high_water q) \<rparr>))"

definition spi_dma_queue_front :: "spi_dma_queue \<Rightarrow> (u8 list \<times> nat) option" where
  "spi_dma_queue_front q =
     (if dq_count q = 0 then None else Some (dq_frames q ! dq_read_index q, dq_lengths q ! dq_read_index q))"

definition spi_dma_queue_pop :: "spi_dma_queue \<Rightarrow> spi_dma_queue" where
  "spi_dma_queue_pop q =
     (if dq_count q = 0 then q
      else q\<lparr> dq_read_index := (dq_read_index q + 1) mod SPI_DMA_QUEUE_CAPACITY, dq_count := dq_count q - 1 \<rparr>)"

section \<open>The DMA transport\<close>

text \<open>\<open>dm_wire\<close> are the frames the DMA engine was started with, in order.\<close>

record dma_transport =
  dm_queue :: spi_dma_queue
  dm_active :: bool
  dm_wire :: "u8 list list"
  dm_write_transactions :: u32
  dm_transferred_bytes :: u32
  dm_error_count :: u32
  dm_enqueue_timeout_count :: u32

definition rp2040_spi_dma_init :: dma_transport where
  "rp2040_spi_dma_init =
     \<lparr> dm_queue = spi_dma_queue_init, dm_active = False, dm_wire = [], dm_write_transactions = 0,
       dm_transferred_bytes = 0, dm_error_count = 0, dm_enqueue_timeout_count = 0 \<rparr>"

definition start_next_frame :: "dma_transport \<Rightarrow> dma_transport" where
  "start_next_frame t =
     (case spi_dma_queue_front (dm_queue t) of
        None \<Rightarrow> t
      | Some (bytes, byte_count) \<Rightarrow> t\<lparr> dm_active := True, dm_wire := dm_wire t @ [take byte_count bytes] \<rparr>)"

definition dma_irq_handler :: "dma_transport \<Rightarrow> dma_transport" where
  "dma_irq_handler t =
     start_next_frame (t\<lparr> dm_queue := spi_dma_queue_pop (dm_queue t), dm_active := False \<rparr>)"

text \<open>The polling loop of the enqueue function: \<open>irqs\<close> interrupts arrive before the timeout.\<close>

fun enqueue_poll :: "nat \<Rightarrow> dma_transport \<Rightarrow> u8 list \<Rightarrow> int \<times> dma_transport" where
  "enqueue_poll irqs t bytes =
     (if dq_count (dm_queue t) \<noteq> SPI_DMA_QUEUE_CAPACITY
      then (case spi_dma_queue_push (dm_queue t) bytes of
              (queued, q) \<Rightarrow>
                (let t1 = t\<lparr> dm_queue := q \<rparr>;
                     t2 = (if queued \<and> \<not> dm_active t1 then start_next_frame t1 else t1)
                 in if queued
                    then (0, t2\<lparr> dm_write_transactions := dm_write_transactions t2 + 1,
                                 dm_transferred_bytes := dm_transferred_bytes t2 + of_nat (length bytes) \<rparr>)
                    else (-1, t2\<lparr> dm_enqueue_timeout_count := dm_enqueue_timeout_count t2 + 1,
                                  dm_error_count := dm_error_count t2 + 1 \<rparr>)))
      else case irqs of
             0 \<Rightarrow> (-1, t\<lparr> dm_enqueue_timeout_count := dm_enqueue_timeout_count t + 1,
                          dm_error_count := dm_error_count t + 1 \<rparr>)
           | Suc n \<Rightarrow> enqueue_poll n (dma_irq_handler t) bytes)"

declare enqueue_poll.simps [simp del]

definition platform_spi_enqueue :: "nat \<Rightarrow> nat \<Rightarrow> dma_transport \<Rightarrow> u8 list \<Rightarrow> int \<times> dma_transport" where
  "platform_spi_enqueue core irqs t bytes =
     (if bytes = [] \<or> length bytes > FPGA_SPI_MAX_FRAME_BYTES \<or> core \<noteq> 1 then (-1, t)
      else enqueue_poll irqs t bytes)"

definition rp2040_spi_dma_idle :: "dma_transport \<Rightarrow> bool" where
  "rp2040_spi_dma_idle t \<longleftrightarrow> \<not> dm_active t \<and> dq_count (dm_queue t) = 0"

text \<open>\<open>app_send_command_words\<close> of \<open>synth_controller.c\<close>: a batch becomes one queued frame.\<close>

definition app_send_command_words :: "nat \<Rightarrow> nat \<Rightarrow> dma_transport \<Rightarrow> u32 list \<Rightarrow> int \<times> dma_transport" where
  "app_send_command_words core irqs t words = fpga_spi_send_commands (platform_spi_enqueue core irqs) words t"

section \<open>What a batch relies on\<close>

definition batch_pending :: "command_batch \<Rightarrow> u32 list" where
  "batch_pending batch = take (ba_word_count batch) (ba_words batch)"

definition batch_inv :: "command_batch \<Rightarrow> bool" where
  "batch_inv batch \<longleftrightarrow> length (ba_words batch) = 63 \<and> ba_word_count batch \<le> 63"

lemma batch_push_all:
  "length (ba_words batch) = 63 \<Longrightarrow> ba_word_count batch + length ws \<le> 63 \<Longrightarrow>
     batch_inv (foldl batch_push batch ws) \<and> batch_pending (foldl batch_push batch ws) = batch_pending batch @ ws"
proof (induction ws arbitrary: batch)
  case (Cons w ws)
  have "batch_pending (batch_push batch w) = batch_pending batch @ [w]"
    using Cons.prems by (simp add: batch_pending_def batch_push_def take_Suc_conv_app_nth)
  then show ?case using Cons.IH [of "batch_push batch w"] Cons.prems by (simp add: batch_push_def)
qed (simp add: batch_inv_def batch_pending_def)

text \<open>A sender reports zero when it has taken the words, and leaves what was sent alone otherwise.\<close>

locale command_link =
  fixes send :: "'s \<Rightarrow> u32 list \<Rightarrow> int \<times> 's"
    and sent :: "'s \<Rightarrow> u32 list list"
    and inv :: "'s \<Rightarrow> bool"
  assumes send_result: "inv s \<Longrightarrow> send s ws = (r, s') \<Longrightarrow> inv s' \<and> sent s' = (if r = 0 then sent s @ [ws] else sent s)"
begin

lemma flush_keeps_order:
  assumes "batch_inv batch" and "inv s" and "command_batch_flush send batch s = (r, batch', s')"
  shows "batch_inv batch' \<and> inv s' \<and> concat (sent s') @ batch_pending batch' = concat (sent s) @ batch_pending batch \<and>
    (r = 0 \<longrightarrow> ba_word_count batch' = 0)"
proof (cases "ba_word_count batch = 0")
  case False
  obtain r1 s1 where s: "send s (batch_pending batch) = (r1, s1)" by (cases "send s (batch_pending batch)")
  show ?thesis
    using send_result [OF assms(2) s] assms(1,3) False s
    by (auto simp: command_batch_flush_def batch_pending_def batch_inv_def split: if_splits)
qed (use assms in \<open>simp add: command_batch_flush_def\<close>)

lemma append_keeps_order:
  assumes "batch_inv batch" and "inv s" and "command_batch_append send batch ws s = (r, batch', s')"
  shows "batch_inv batch' \<and> inv s' \<and>
    concat (sent s') @ batch_pending batch' = concat (sent s) @ batch_pending batch @ (if r = 0 then ws else []) \<and>
    (r = 0 \<longrightarrow> wire_command ws \<and> length ws \<le> 63)"
proof (cases "ws = [] \<or> length ws > 63 \<or> unat (ucast (ws ! 0 AND 0xff) :: u8) + 1 \<noteq> length ws")
  case True
  then show ?thesis using assms unfolding command_batch_append_def FPGA_SPI_MAX_COMMAND_WORDS_def by auto
next
  case False
  let ?m = "if ba_word_count batch + length ws > 63 then command_batch_flush send batch s else (0, batch, s)"
  obtain r1 b1 s1 where m: "?m = (r1, b1, s1)" by (metis prod_cases3)
  have eq: "command_batch_append send batch ws s =
      (if r1 \<noteq> 0 then (-1, b1, s1) else (0, foldl batch_push b1 ws, s1))"
    using False m unfolding command_batch_append_def FPGA_SPI_MAX_COMMAND_WORDS_def by simp
  have m1: "batch_inv b1 \<and> inv s1 \<and> concat (sent s1) @ batch_pending b1 = concat (sent s) @ batch_pending batch \<and>
      (r1 = 0 \<longrightarrow> ba_word_count b1 + length ws \<le> 63)"
  proof (cases "ba_word_count batch + length ws > 63")
    case True
    then show ?thesis using flush_keeps_order [OF assms(1,2), of r1 b1 s1] m False by auto
  next
    case fits: False
    then show ?thesis using m assms(1,2) by auto
  qed
  have "wire_command ws \<and> length ws \<le> 63"
    using False by (auto simp: wire_command_def hd_conv_nth payload_byte [of "ws ! 0 AND 0xff"] word_payload_def and.assoc)
  then show ?thesis using eq m1 assms(3) batch_push_all [of b1 ws] by (auto simp: batch_inv_def split: if_splits)
qed

end

section \<open>The DMA path is such a link\<close>

definition dq_slots :: "spi_dma_queue \<Rightarrow> u8 list list" where
  "dq_slots q = map (\<lambda>i. take (dq_lengths q ! i) (dq_frames q ! i)) [0..<16]"

definition dq_contents :: "spi_dma_queue \<Rightarrow> u8 list list" where
  "dq_contents q = ring_list (dq_slots q) (dq_read_index q) (dq_count q)"

definition dq_inv :: "spi_dma_queue \<Rightarrow> bool" where
  "dq_inv q \<longleftrightarrow> length (dq_frames q) = 16 \<and> length (dq_lengths q) = 16 \<and> dq_read_index q < 16 \<and> dq_count q \<le> 16 \<and>
     dq_write_index q = (dq_read_index q + dq_count q) mod 16"

lemma length_dq_slots [simp]: "length (dq_slots q) = 16"
  by (simp add: dq_slots_def)

lemma spi_dma_queue_push_contents:
  assumes "dq_inv q" and "bytes \<noteq> []" and "length bytes \<le> 256" and "dq_count q < 16"
  shows "\<exists>q'. spi_dma_queue_push q bytes = (True, q') \<and> dq_inv q' \<and> dq_contents q' = dq_contents q @ [bytes]"
proof -
  obtain q' where q: "spi_dma_queue_push q bytes = (True, q')"
    using assms by (simp add: spi_dma_queue_push_def FPGA_SPI_MAX_FRAME_BYTES_def FPGA_SPI_MAX_COMMAND_WORDS_def SPI_DMA_QUEUE_CAPACITY_def)
  then have q': "dq_frames q' = (dq_frames q)[dq_write_index q := bytes @ drop (length bytes) (dq_frames q ! dq_write_index q)]"
    "dq_lengths q' = (dq_lengths q)[dq_write_index q := length bytes]" "dq_read_index q' = dq_read_index q"
    "dq_count q' = Suc (dq_count q)" "dq_write_index q' = (dq_write_index q + 1) mod 16"
    by (auto simp: spi_dma_queue_push_def SPI_DMA_QUEUE_CAPACITY_def split: if_splits)
  have slots: "dq_slots q' = (dq_slots q)[(dq_read_index q + dq_count q) mod length (dq_slots q) := bytes]"
    by (rule nth_equalityI) (use assms(1) in \<open>auto simp: dq_slots_def q' dq_inv_def nth_list_update\<close>)
  have "dq_contents q' = dq_contents q @ [bytes]"
    unfolding dq_contents_def slots q'(3,4) using assms(4) by (intro ring_list_push) simp
  moreover have "dq_inv q'" using assms(1,4) by (simp add: dq_inv_def q' mod_Suc_eq)
  ultimately show ?thesis using q by blast
qed

lemma spi_dma_queue_pop_contents:
  assumes "dq_inv q"
  shows "dq_inv (spi_dma_queue_pop q) \<and> dq_contents (spi_dma_queue_pop q) = tl (dq_contents q)"
proof (cases "dq_count q")
  case 0
  then show ?thesis using assms by (simp add: spi_dma_queue_pop_def dq_contents_def)
next
  case (Suc n)
  have "dq_contents q = dq_slots q ! dq_read_index q # ring_list (dq_slots q) ((dq_read_index q + 1) mod 16) n"
    using assms Suc ring_list_pop [of "dq_read_index q" "dq_slots q" n] by (simp add: dq_contents_def dq_inv_def)
  then show ?thesis
    using assms Suc by (simp add: spi_dma_queue_pop_def dq_inv_def dq_contents_def dq_slots_def SPI_DMA_QUEUE_CAPACITY_def mod_simps)
qed

lemma spi_dma_queue_front_contents:
  assumes "dq_inv q"
  shows "case spi_dma_queue_front q of None \<Rightarrow> dq_contents q = [] | Some (bytes, n) \<Rightarrow> \<exists>rest. dq_contents q = take n bytes # rest"
proof (cases "dq_count q")
  case (Suc n)
  then show ?thesis
    using assms ring_list_pop [of "dq_read_index q" "dq_slots q" n]
    by (simp add: spi_dma_queue_front_def dq_contents_def dq_inv_def dq_slots_def)
qed (simp add: spi_dma_queue_front_def dq_contents_def)

text \<open>The frames handed to the transport: those the DMA engine was started with and those waiting.\<close>

definition dma_frames :: "dma_transport \<Rightarrow> u8 list list" where
  "dma_frames t = dm_wire t @ tl (dq_contents (dm_queue t))"

definition dma_inv :: "dma_transport \<Rightarrow> bool" where
  "dma_inv t \<longleftrightarrow> dq_inv (dm_queue t) \<and> (dm_active t \<longleftrightarrow> dq_contents (dm_queue t) \<noteq> [])"

lemma start_next_frame_frames:
  assumes "dq_inv (dm_queue t)" and "\<not> dm_active t"
  shows "dma_inv (start_next_frame t) \<and> dm_queue (start_next_frame t) = dm_queue t \<and>
    dma_frames (start_next_frame t) = dm_wire t @ dq_contents (dm_queue t)"
  using assms spi_dma_queue_front_contents [OF assms(1)]
  by (auto simp: start_next_frame_def dma_inv_def dma_frames_def split: option.splits)

lemma dma_irq_frames:
  assumes "dma_inv t"
  shows "dma_inv (dma_irq_handler t) \<and> dma_frames (dma_irq_handler t) = dma_frames t \<and>
    dq_contents (dm_queue (dma_irq_handler t)) = tl (dq_contents (dm_queue t))"
proof -
  let ?t = "t\<lparr> dm_queue := spi_dma_queue_pop (dm_queue t), dm_active := False \<rparr>"
  have pop: "dq_inv (dm_queue ?t)" "dq_contents (dm_queue ?t) = tl (dq_contents (dm_queue t))"
    using assms spi_dma_queue_pop_contents [of "dm_queue t"] by (simp_all add: dma_inv_def)
  show ?thesis using start_next_frame_frames [OF pop(1)] pop(2) by (simp add: dma_irq_handler_def dma_frames_def [of t])
qed

lemma enqueue_room:
  assumes "dma_inv t" and "dq_count (dm_queue t) \<noteq> 16" and "bytes \<noteq> []" and "length bytes \<le> 256"
    and "enqueue_poll irqs t bytes = (r, t')"
  shows "r = 0 \<and> dma_inv t' \<and> dma_frames t' = dma_frames t @ [bytes]"
proof -
  have "dq_count (dm_queue t) < 16" using assms(1,2) by (simp add: dma_inv_def dq_inv_def)
  then obtain q where q: "spi_dma_queue_push (dm_queue t) bytes = (True, q)" "dq_inv q"
    "dq_contents q = dq_contents (dm_queue t) @ [bytes]"
    using spi_dma_queue_push_contents [of "dm_queue t" bytes] assms by (auto simp: dma_inv_def)
  let ?t = "if \<not> dm_active t then start_next_frame (t\<lparr> dm_queue := q \<rparr>) else t\<lparr> dm_queue := q \<rparr>"
  have t': "r = 0" "dm_queue t' = dm_queue ?t" "dm_wire t' = dm_wire ?t" "dm_active t' = dm_active ?t"
    using assms(2,5) q(1) by (auto simp: enqueue_poll.simps [of irqs] SPI_DMA_QUEUE_CAPACITY_def Let_def)
  have "dma_inv ?t \<and> dma_frames ?t = dma_frames t @ [bytes]"
  proof (cases "dm_active t")
    case True
    then show ?thesis using q assms(1) by (cases "dq_contents (dm_queue t)") (auto simp: dma_inv_def dma_frames_def)
  next
    case False
    then show ?thesis
      using start_next_frame_frames [of "t\<lparr> dm_queue := q \<rparr>"] q assms(1) by (auto simp: dma_inv_def dma_frames_def)
  qed
  then show ?thesis using t' by (auto simp: dma_inv_def dma_frames_def)
qed

lemma enqueue_poll_frames:
  assumes "dma_inv t" and "bytes \<noteq> []" and "length bytes \<le> 256" and "enqueue_poll irqs t bytes = (r, t')"
  shows "dma_inv t' \<and> dma_frames t' = (if r = 0 then dma_frames t @ [bytes] else dma_frames t)"
  using assms(1,4)
proof (induction irqs arbitrary: t)
  case (0 t)
  show ?case
  proof (cases "dq_count (dm_queue t) = 16")
    case True
    then show ?thesis using 0 by (auto simp: enqueue_poll.simps [of 0] SPI_DMA_QUEUE_CAPACITY_def dma_inv_def dma_frames_def)
  next
    case False
    then show ?thesis using enqueue_room [OF 0(1) _ assms(2,3)] 0 by simp
  qed
next
  case (Suc n t)
  show ?case
  proof (cases "dq_count (dm_queue t) = 16")
    case True
    then show ?thesis using Suc.IH [of "dma_irq_handler t"] dma_irq_frames [OF Suc.prems(1)] Suc.prems(2)
      by (simp add: enqueue_poll.simps [of "Suc n"] SPI_DMA_QUEUE_CAPACITY_def)
  next
    case False
    then show ?thesis using enqueue_room [OF Suc.prems(1) _ assms(2,3)] Suc.prems by simp
  qed
qed

text \<open>Every frame handed to the transport is a transaction; the words it carries.\<close>

definition dma_link_inv :: "dma_transport \<Rightarrow> bool" where
  "dma_link_inv t \<longleftrightarrow> dma_inv t \<and> list_all (\<lambda>f. \<exists>ws. f = frame_bytes ws \<and> length ws \<le> 63) (dma_frames t)"

definition dma_sent :: "dma_transport \<Rightarrow> u32 list list" where
  "dma_sent t = map (\<lambda>f. the (decode_transaction f)) (dma_frames t)"

lemma decode_frame_bytes: "length ws \<le> 63 \<Longrightarrow> decode_transaction (frame_bytes ws) = Some ws"
  using decode_encoded [of ws] by (simp add: frame_bytes_def Let_def crc_update_fun_eq)

lemma length_frame_bytes: "length (frame_bytes ws) = 4 + 4 * length ws"
  unfolding frame_bytes_def Let_def length_append length_concat_word_bytes by simp

interpretation dma: command_link "app_send_command_words core irqs" dma_sent dma_link_inv for core irqs
proof
  fix t ws r t'
  assume inv: "dma_link_inv t" and s: "app_send_command_words core irqs t ws = (r, t')"
  show "dma_link_inv t' \<and> dma_sent t' = (if r = 0 then dma_sent t @ [ws] else dma_sent t)"
  proof (cases "ws \<noteq> [] \<and> length ws \<le> 63 \<and> (\<exists>cs. list_all wire_command cs \<and> ws = concat cs) \<and> core = 1")
    case True
    then have f: "frame_bytes ws \<noteq> []" "length (frame_bytes ws) \<le> 256" "length ws \<le> 63"
      using length_frame_bytes [of ws] by auto
    then have "app_send_command_words core irqs t ws = enqueue_poll irqs t (frame_bytes ws)"
      using True by (auto simp: app_send_command_words_def send_commands_eq platform_spi_enqueue_def
          FPGA_SPI_MAX_FRAME_BYTES_def FPGA_SPI_MAX_COMMAND_WORDS_def)
    then have e: "enqueue_poll irqs t (frame_bytes ws) = (r, t')" using s by simp
    show ?thesis
      using enqueue_poll_frames [OF _ f(1,2) e] f(3) inv
      by (auto simp: dma_link_inv_def dma_sent_def decode_frame_bytes)
  next
    case False
    then have "app_send_command_words core irqs t ws = (-1, t)"
      by (auto simp: app_send_command_words_def send_commands_eq platform_spi_enqueue_def)
    then show ?thesis using inv s by simp
  qed
qed

section \<open>The path as a whole\<close>

text \<open>A command arriving, a flush, an interrupt; the number of interrupts during a wait comes with each.\<close>

datatype path_event = PathCommand "u32 list" nat | PathFlush nat | PathInterrupt

record command_path =
  cp_batch :: command_batch
  cp_dma :: dma_transport
  cp_accepted :: "u32 list list"

definition command_path_new :: command_path where
  "command_path_new =
     \<lparr> cp_batch = \<lparr> ba_words = replicate 63 0, ba_word_count = 0 \<rparr>, cp_dma = rp2040_spi_dma_init, cp_accepted = [] \<rparr>"

fun path_step :: "path_event \<Rightarrow> command_path \<Rightarrow> command_path" where
  "path_step (PathCommand words irqs) p =
     (case command_batch_append (app_send_command_words 1 irqs) (cp_batch p) words (cp_dma p) of
        (r, b, t) \<Rightarrow> p\<lparr> cp_batch := b, cp_dma := t,
                       cp_accepted := (if r = 0 then cp_accepted p @ [words] else cp_accepted p) \<rparr>)"
| "path_step (PathFlush irqs) p =
     (case command_batch_flush (app_send_command_words 1 irqs) (cp_batch p) (cp_dma p) of
        (r, b, t) \<Rightarrow> p\<lparr> cp_batch := b, cp_dma := t \<rparr>)"
| "path_step PathInterrupt p = p\<lparr> cp_dma := dma_irq_handler (cp_dma p) \<rparr>"

definition path_inv :: "command_path \<Rightarrow> bool" where
  "path_inv p \<longleftrightarrow> batch_inv (cp_batch p) \<and> dma_link_inv (cp_dma p) \<and> list_all wire_command (cp_accepted p) \<and>
     concat (dma_sent (cp_dma p)) @ batch_pending (cp_batch p) = concat (cp_accepted p)"

lemma dma_irq_link: "dma_link_inv t \<Longrightarrow> dma_link_inv (dma_irq_handler t) \<and> dma_sent (dma_irq_handler t) = dma_sent t"
  using dma_irq_frames [of t] by (simp add: dma_link_inv_def dma_sent_def)

lemma path_step_inv: "path_inv p \<Longrightarrow> path_inv (path_step e p)"
proof (induction e p rule: path_step.induct)
  case (1 words irqs p)
  obtain r b t where a: "command_batch_append (app_send_command_words 1 irqs) (cp_batch p) words (cp_dma p) = (r, b, t)"
    by (metis prod_cases3)
  then show ?case using dma.append_keeps_order [OF _ _ a] "1.prems" by (auto simp: path_inv_def)
next
  case (2 irqs p)
  obtain r b t where a: "command_batch_flush (app_send_command_words 1 irqs) (cp_batch p) (cp_dma p) = (r, b, t)"
    by (metis prod_cases3)
  then show ?case using dma.flush_keeps_order [OF _ _ a] "2.prems" by (auto simp: path_inv_def)
next
  case (3 p)
  then show ?case using dma_irq_link [of "cp_dma p"] by (simp add: path_inv_def)
qed

lemma path_new_inv: "path_inv command_path_new"
  by (simp add: path_inv_def command_path_new_def batch_inv_def dma_link_inv_def dma_inv_def dq_inv_def rp2040_spi_dma_init_def
      spi_dma_queue_init_def SPI_DMA_QUEUE_CAPACITY_def dq_contents_def dma_frames_def dma_sent_def batch_pending_def)

lemma path_run_inv: "path_inv p \<Longrightarrow> path_inv (fold path_step es p)"
  by (induction es arbitrary: p) (simp_all add: path_step_inv)

lemma dma_irqs_drain:
  "dma_inv t \<Longrightarrow> dma_inv ((dma_irq_handler ^^ n) t) \<and> dma_frames ((dma_irq_handler ^^ n) t) = dma_frames t \<and>
     dq_contents (dm_queue ((dma_irq_handler ^^ n) t)) = drop n (dq_contents (dm_queue t))"
  by (induction n) (simp_all add: dma_irq_frames drop_Suc drop_tl)

text \<open>C19: The firmware's commands reach the FPGA in the order they were accepted. Over any sequence of
  commands, flushes and interrupts, with any number of timeouts, the words carried by the frames the DMA
  engine was started with, then by the frames queued behind them, then the words of the batch, are exactly
  the words of the accepted commands, none lost, repeated or reordered; every frame is an intact
  transaction of complete commands; and sixteen more interrupts send every queued frame and leave the
  transport idle.\<close>

theorem firmware_commands_in_order:
  "let p = fold path_step es command_path_new; t = cp_dma p
   in concat (map (\<lambda>f. the (decode_transaction f)) (dma_frames t)) @ batch_pending (cp_batch p) = concat (cp_accepted p) \<and>
     list_all (\<lambda>f. \<exists>ws. decode_transaction f = Some ws \<and> f = frame_bytes ws) (dma_frames t) \<and>
     list_all wire_command (cp_accepted p) \<and>
     dm_wire ((dma_irq_handler ^^ 16) t) = dma_frames t \<and> rp2040_spi_dma_idle ((dma_irq_handler ^^ 16) t)"
proof -
  let ?p = "fold path_step es command_path_new"
  let ?t = "cp_dma ?p" and ?t16 = "(dma_irq_handler ^^ 16) (cp_dma ?p)"
  have inv: "path_inv ?p" by (rule path_run_inv [OF path_new_inv])
  have t: "dma_inv ?t" "list_all (\<lambda>f. \<exists>ws. f = frame_bytes ws \<and> length ws \<le> 63) (dma_frames ?t)"
    using inv by (simp_all add: path_inv_def dma_link_inv_def)
  have "list_all (\<lambda>f. \<exists>ws. decode_transaction f = Some ws \<and> f = frame_bytes ws) (dma_frames ?t)"
    using t(2) decode_frame_bytes by (fastforce simp: list_all_iff)
  moreover have "length (dq_contents (dm_queue ?t)) \<le> 16" using t(1) by (simp add: dma_inv_def dq_inv_def dq_contents_def)
  then have d: "dma_inv ?t16" "dma_frames ?t16 = dma_frames ?t" "dq_contents (dm_queue ?t16) = []"
    using dma_irqs_drain [OF t(1), of 16] by simp_all
  then have "dm_wire ?t16 = dma_frames ?t" by (metis append_Nil2 dma_frames_def list.sel(2))
  moreover have "length (dq_contents (dm_queue ?t16)) = dq_count (dm_queue ?t16)" by (simp add: dq_contents_def)
  then have "rp2040_spi_dma_idle ?t16" using d(1,3) by (simp add: rp2040_spi_dma_idle_def dma_inv_def)
  ultimately show ?thesis using inv by (simp add: path_inv_def dma_sent_def Let_def)
qed

end
