(* ===== verification/Msf2_Lut.thy ===== *)
theory Msf2_Lut
  imports Prelude
begin

text \<open>
  The integer tables of \<open>src/mcu/generated/msf2_lut.h\<close> that the firmware's SoundFont runtime indexes:
  the fractional powers of two, the quarter sine wave, and the sixteen curves of the modulation sources.
\<close>

definition MSF2_LUT_SAMPLE_RATE :: u32 where "MSF2_LUT_SAMPLE_RATE = 48000"

definition msf2_lut_exp2_fraction_q32 :: "u32 list" where
  "msf2_lut_exp2_fraction_q32 =
    [0, 11644838, 23321248, 35029316, 46769127, 58540769, 70344327, 82179887, 94047537, 105947364,
     117879454, 129843895, 141840775, 153870182, 165932204, 178026930, 190154448, 202314846, 214508215,
     226734644, 238994221, 251287038, 263613184, 275972749, 288365825, 300792502, 313252871, 325747023,
     338275051, 350837045, 363433098, 376063303, 388727752, 401426537, 414159753, 426927491, 439729847,
     452566913, 465438784, 478345555, 491287319, 504264171, 517276208, 530323524, 543406214, 556524376,
     569678104, 582867496, 596092647, 609353656, 622650619, 635983634, 649352798, 662758210, 676199967,
     689678169, 703192914, 716744301, 730332430, 743957399, 757619310, 771318262, 785054356, 798827692,
     812638371, 826486495, 840372165, 854295483, 868256550, 882255470, 896292345, 910367278, 924480372,
     938631730, 952821456, 967049655, 981316430, 995621887, 1009966129, 1024349263, 1038771393,
     1053232626, 1067733067, 1082272822, 1096851999, 1111470705, 1126129045, 1140827128, 1155565062,
     1170342954, 1185160914, 1200019049, 1214917468, 1229856281, 1244835597, 1259855527, 1274916179,
     1290017665, 1305160096, 1320343582, 1335568234, 1350834164, 1366141485, 1381490308, 1396880746,
     1412312911, 1427786918, 1443302879, 1458860907, 1474461118, 1490103625, 1505788544, 1521515989,
     1537286075, 1553098918, 1568954634, 1584853339, 1600795150, 1616780183, 1632808557, 1648880388,
     1664995794, 1681154893, 1697357804, 1713604645, 1729895537, 1746230597, 1762609946, 1779033704,
     1795501991, 1812014929, 1828572637, 1845175238, 1861822854, 1878515605, 1895253615, 1912037007,
     1928865903, 1945740426, 1962660701, 1979626852, 1996639003, 2013697278, 2030801803, 2047952703,
     2065150103, 2082394131, 2099684912, 2117022573, 2134407241, 2151839044, 2169318109, 2186844565,
     2204418540, 2222040162, 2239709562, 2257426868, 2275192211, 2293005721, 2310867528, 2328777763,
     2346736557, 2364744043, 2382800353, 2400905617, 2419059971, 2437263545, 2455516475, 2473818893,
     2492170934, 2510572733, 2529024423, 2547526142, 2566078024, 2584680205, 2603332821, 2622036010,
     2640789909, 2659594654, 2678450384, 2697357238, 2716315353, 2735324869, 2754385924, 2773498660,
     2792663215, 2811879731, 2831148348, 2850469208, 2869842451, 2889268221, 2908746660, 2928277910,
     2947862114, 2967499417, 2987189962, 3006933893, 3026731355, 3046582494, 3066487455, 3086446384,
     3106459426, 3126526730, 3146648442, 3166824709, 3187055679, 3207341501, 3227682324, 3248078296,
     3268529568, 3289036288, 3309598608, 3330216677, 3350890649, 3371620672, 3392406901, 3413249487,
     3434148583, 3455104342, 3476116918, 3497186464, 3518313137, 3539497089, 3560738477, 3582037456,
     3603394182, 3624808813, 3646281504, 3667812414, 3689401700, 3711049520, 3732756034, 3754521400,
     3776345778, 3798229327, 3820172209, 3842174585, 3864236614, 3886358460, 3908540285, 3930782250,
     3953084520, 3975447257, 3997870626, 4020354790, 4042899915, 4065506167, 4088173710, 4110902711,
     4133693337, 4156545754, 4179460130, 4202436634, 4225475433, 4248576697, 4271740595]"

definition msf2_lut_pan_quarter_sine_q30 :: "u32 list" where
  "msf2_lut_pan_quarter_sine_q30 =
    [0, 6588356, 13176464, 19764076, 26350943, 32936819, 39521455, 46104602, 52686014, 59265442,
     65842639, 72417357, 78989349, 85558366, 92124163, 98686491, 105245103, 111799753, 118350194,
     124896179, 131437462, 137973796, 144504935, 151030634, 157550647, 164064728, 170572633, 177074115,
     183568930, 190056834, 196537583, 203010932, 209476638, 215934457, 222384147, 228825464, 235258165,
     241682010, 248096755, 254502159, 260897982, 267283981, 273659918, 280025552, 286380643, 292724951,
     299058239, 305380268, 311690799, 317989595, 324276419, 330551034, 336813204, 343062693, 349299266,
     355522689, 361732726, 367929144, 374111709, 380280190, 386434353, 392573967, 398698801, 404808624,
     410903207, 416982319, 423045732, 429093217, 435124548, 441139496, 447137835, 453119340, 459083786,
     465030947, 470960600, 476872522, 482766489, 488642281, 494499676, 500338453, 506158392, 511959275,
     517740883, 523502998, 529245404, 534967884, 540670223, 546352205, 552013618, 557654248, 563273883,
     568872310, 574449320, 580004702, 585538248, 591049748, 596538995, 602005783, 607449906, 612871159,
     618269338, 623644239, 628995660, 634323400, 639627258, 644907034, 650162530, 655393548, 660599890,
     665781362, 670937767, 676068911, 681174602, 686254647, 691308855, 696337036, 701339000, 706314559,
     711263525, 716185713, 721080937, 725949013, 730789757, 735602987, 740388522, 745146182, 749875788,
     754577161, 759250125, 763894504, 768510122, 773096806, 777654384, 782182683, 786681534, 791150767,
     795590213, 799999706, 804379079, 808728167, 813046808, 817334838, 821592095, 825818421, 830013654,
     834177638, 838310216, 842411232, 846480531, 850517961, 854523370, 858496606, 862437520, 866345964,
     870221790, 874064853, 877875009, 881652112, 885396022, 889106597, 892783698, 896427186, 900036924,
     903612776, 907154608, 910662286, 914135678, 917574653, 920979082, 924348837, 927683790, 930983817,
     934248793, 937478595, 940673101, 943832191, 946955747, 950043650, 953095785, 956112036, 959092290,
     962036435, 964944360, 967815955, 970651112, 973449725, 976211688, 978936898, 981625251, 984276646,
     986890984, 989468165, 992008094, 994510675, 996975812, 999403415, 1001793390, 1004145648,
     1006460100, 1008736660, 1010975242, 1013175761, 1015338134, 1017462281, 1019548121, 1021595575,
     1023604567, 1025575020, 1027506862, 1029400018, 1031254418, 1033069992, 1034846671, 1036584389,
     1038283080, 1039942680, 1041563127, 1043144360, 1044686319, 1046188946, 1047652185, 1049075980,
     1050460278, 1051805027, 1053110176, 1054375676, 1055601479, 1056787540, 1057933813, 1059040255,
     1060106826, 1061133483, 1062120190, 1063066909, 1063973603, 1064840240, 1065666786, 1066453210,
     1067199483, 1067905576, 1068571464, 1069197120, 1069782521, 1070327646, 1070832474, 1071296985,
     1071721163, 1072104991, 1072448455, 1072751542, 1073014240, 1073236540, 1073418433, 1073559913,
     1073660973, 1073721611, 1073741824]"

definition msf2_lut_source_curve_q16 :: "int list list" where
  "msf2_lut_source_curve_q16 =
    [[0, 512, 1024, 1536, 2048, 2560, 3072, 3584, 4096, 4608, 5120, 5632, 6144, 6656, 7168, 7680, 8192,
      8704, 9216, 9728, 10240, 10752, 11264, 11776, 12288, 12800, 13312, 13824, 14336, 14848, 15360,
      15872, 16384, 16896, 17408, 17920, 18432, 18944, 19456, 19968, 20480, 20992, 21504, 22016, 22528,
      23040, 23552, 24064, 24576, 25088, 25600, 26112, 26624, 27136, 27648, 28160, 28672, 29184, 29696,
      30208, 30720, 31232, 31744, 32256, 32768, 33280, 33792, 34304, 34816, 35328, 35840, 36352, 36864,
      37376, 37888, 38400, 38912, 39424, 39936, 40448, 40960, 41472, 41984, 42496, 43008, 43520, 44032,
      44544, 45056, 45568, 46080, 46592, 47104, 47616, 48128, 48640, 49152, 49664, 50176, 50688, 51200,
      51712, 52224, 52736, 53248, 53760, 54272, 54784, 55296, 55808, 56320, 56832, 57344, 57856, 58368,
      58880, 59392, 59904, 60416, 60928, 61440, 61952, 62464, 62976, 63488, 64000, 64512, 65024],
     [0, 94, 188, 283, 380, 476, 574, 672, 772, 872, 973, 1074, 1177, 1281, 1385, 1491, 1597, 1704, 1813,
      1922, 2032, 2144, 2256, 2369, 2484, 2600, 2717, 2835, 2954, 3074, 3196, 3319, 3443, 3568, 3695,
      3823, 3953, 4084, 4217, 4351, 4486, 4623, 4762, 4902, 5044, 5188, 5334, 5481, 5630, 5781, 5934,
      6089, 6246, 6405, 6567, 6730, 6896, 7064, 7235, 7408, 7584, 7762, 7943, 8127, 8314, 8504, 8696,
      8892, 9092, 9295, 9501, 9711, 9924, 10142, 10364, 10590, 10820, 11055, 11294, 11539, 11788, 12043,
      12304, 12571, 12843, 13122, 13408, 13701, 14001, 14309, 14626, 14950, 15285, 15628, 15982, 16347,
      16724, 17113, 17515, 17931, 18362, 18810, 19275, 19759, 20264, 20791, 21342, 21921, 22529, 23171,
      23848, 24567, 25333, 26151, 27030, 27979, 29011, 30141, 31391, 32787, 34371, 36199, 38361, 41008,
      44419, 49228, 57448, 65024],
     [0, 8088, 16308, 21117, 24528, 27175, 29337, 31165, 32749, 34145, 35395, 36525, 37557, 38506, 39385,
      40203, 40969, 41688, 42365, 43007, 43615, 44194, 44745, 45272, 45777, 46261, 46726, 47174, 47605,
      48021, 48423, 48812, 49189, 49554, 49908, 50251, 50586, 50910, 51227, 51535, 51835, 52128, 52414,
      52693, 52965, 53232, 53493, 53748, 53997, 54242, 54481, 54716, 54946, 55172, 55394, 55612, 55825,
      56035, 56241, 56444, 56644, 56840, 57032, 57222, 57409, 57593, 57774, 57952, 58128, 58301, 58472,
      58640, 58806, 58969, 59131, 59290, 59447, 59602, 59755, 59906, 60055, 60202, 60348, 60492, 60634,
      60774, 60913, 61050, 61185, 61319, 61452, 61583, 61713, 61841, 61968, 62093, 62217, 62340, 62462,
      62582, 62701, 62819, 62936, 63052, 63167, 63280, 63392, 63504, 63614, 63723, 63832, 63939, 64045,
      64151, 64255, 64359, 64462, 64563, 64664, 64764, 64864, 64962, 65024, 65024, 65024, 65024, 65024,
      65024],
     [0, 0, 0, 0, 0, 0, 0, 0, 0, 0, 0, 0, 0, 0, 0, 0, 0, 0, 0, 0, 0, 0, 0, 0, 0, 0, 0, 0, 0, 0, 0, 0, 0,
      0, 0, 0, 0, 0, 0, 0, 0, 0, 0, 0, 0, 0, 0, 0, 0, 0, 0, 0, 0, 0, 0, 0, 0, 0, 0, 0, 0, 0, 0, 0, 65536,
      65536, 65536, 65536, 65536, 65536, 65536, 65536, 65536, 65536, 65536, 65536, 65536, 65536, 65536,
      65536, 65536, 65536, 65536, 65536, 65536, 65536, 65536, 65536, 65536, 65536, 65536, 65536, 65536,
      65536, 65536, 65536, 65536, 65536, 65536, 65536, 65536, 65536, 65536, 65536, 65536, 65536, 65536,
      65536, 65536, 65536, 65536, 65536, 65536, 65536, 65536, 65536, 65536, 65536, 65536, 65536, 65536,
      65536, 65536, 65536, 65536, 65536, 65536, 65536],
     [- 65536, - 64512, - 63488, - 62464, - 61440, - 60416, - 59392, - 58368, - 57344, - 56320, - 55296,
      - 54272, - 53248, - 52224, - 51200, - 50176, - 49152, - 48128, - 47104, - 46080, - 45056, - 44032,
      - 43008, - 41984, - 40960, - 39936, - 38912, - 37888, - 36864, - 35840, - 34816, - 33792, - 32768,
      - 31744, - 30720, - 29696, - 28672, - 27648, - 26624, - 25600, - 24576, - 23552, - 22528, - 21504,
      - 20480, - 19456, - 18432, - 17408, - 16384, - 15360, - 14336, - 13312, - 12288, - 11264, - 10240,
      - 9216, - 8192, - 7168, - 6144, - 5120, - 4096, - 3072, - 2048, - 1024, 0, 1024, 2048, 3072, 4096,
      5120, 6144, 7168, 8192, 9216, 10240, 11264, 12288, 13312, 14336, 15360, 16384, 17408, 18432, 19456,
      20480, 21504, 22528, 23552, 24576, 25600, 26624, 27648, 28672, 29696, 30720, 31744, 32768, 33792,
      34816, 35840, 36864, 37888, 38912, 39936, 40960, 41984, 43008, 44032, 45056, 46080, 47104, 48128,
      49152, 50176, 51200, 52224, 53248, 54272, 55296, 56320, 57344, 58368, 59392, 60416, 61440, 62464,
      63488, 64512],
     [- 65536, - 57448, - 44419, - 38361, - 34371, - 31391, - 29011, - 27030, - 25333, - 23848, - 22529,
      - 21342, - 20264, - 19275, - 18362, - 17515, - 16724, - 15982, - 15285, - 14626, - 14001, - 13408,
      - 12843, - 12304, - 11788, - 11294, - 10820, - 10364, - 9924, - 9501, - 9092, - 8696, - 8314,
      - 7943, - 7584, - 7235, - 6896, - 6567, - 6246, - 5934, - 5630, - 5334, - 5044, - 4762, - 4486,
      - 4217, - 3953, - 3695, - 3443, - 3196, - 2954, - 2717, - 2484, - 2256, - 2032, - 1813, - 1597,
      - 1385, - 1177, - 973, - 772, - 574, - 380, - 188, 0, 188, 380, 574, 772, 973, 1177, 1385, 1597,
      1813, 2032, 2256, 2484, 2717, 2954, 3196, 3443, 3695, 3953, 4217, 4486, 4762, 5044, 5334, 5630,
      5934, 6246, 6567, 6896, 7235, 7584, 7943, 8314, 8696, 9092, 9501, 9924, 10364, 10820, 11294, 11788,
      12304, 12843, 13408, 14001, 14626, 15285, 15982, 16724, 17515, 18362, 19275, 20264, 21342, 22529,
      23848, 25333, 27030, 29011, 31391, 34371, 38361, 44419, 57448],
     [- 65536, - 65442, - 65253, - 65060, - 64864, - 64664, - 64462, - 64255, - 64045, - 63832, - 63614,
      - 63392, - 63167, - 62936, - 62701, - 62462, - 62217, - 61968, - 61713, - 61452, - 61185, - 60913,
      - 60634, - 60348, - 60055, - 59755, - 59447, - 59131, - 58806, - 58472, - 58128, - 57774, - 57409,
      - 57032, - 56644, - 56241, - 55825, - 55394, - 54946, - 54481, - 53997, - 53493, - 52965, - 52414,
      - 51835, - 51227, - 50586, - 49908, - 49189, - 48423, - 47605, - 46726, - 45777, - 44745, - 43615,
      - 42365, - 40969, - 39385, - 37557, - 35395, - 32749, - 29337, - 24528, - 16308, 0, 16308, 24528,
      29337, 32749, 35395, 37557, 39385, 40969, 42365, 43615, 44745, 45777, 46726, 47605, 48423, 49189,
      49908, 50586, 51227, 51835, 52414, 52965, 53493, 53997, 54481, 54946, 55394, 55825, 56241, 56644,
      57032, 57409, 57774, 58128, 58472, 58806, 59131, 59447, 59755, 60055, 60348, 60634, 60913, 61185,
      61452, 61713, 61968, 62217, 62462, 62701, 62936, 63167, 63392, 63614, 63832, 64045, 64255, 64462,
      64664, 64864, 65024, 65024, 65024],
     [- 65536, - 65536, - 65536, - 65536, - 65536, - 65536, - 65536, - 65536, - 65536, - 65536, - 65536,
      - 65536, - 65536, - 65536, - 65536, - 65536, - 65536, - 65536, - 65536, - 65536, - 65536, - 65536,
      - 65536, - 65536, - 65536, - 65536, - 65536, - 65536, - 65536, - 65536, - 65536, - 65536, - 65536,
      - 65536, - 65536, - 65536, - 65536, - 65536, - 65536, - 65536, - 65536, - 65536, - 65536, - 65536,
      - 65536, - 65536, - 65536, - 65536, - 65536, - 65536, - 65536, - 65536, - 65536, - 65536, - 65536,
      - 65536, - 65536, - 65536, - 65536, - 65536, - 65536, - 65536, - 65536, - 65536, 65536, 65536,
      65536, 65536, 65536, 65536, 65536, 65536, 65536, 65536, 65536, 65536, 65536, 65536, 65536, 65536,
      65536, 65536, 65536, 65536, 65536, 65536, 65536, 65536, 65536, 65536, 65536, 65536, 65536, 65536,
      65536, 65536, 65536, 65536, 65536, 65536, 65536, 65536, 65536, 65536, 65536, 65536, 65536, 65536,
      65536, 65536, 65536, 65536, 65536, 65536, 65536, 65536, 65536, 65536, 65536, 65536, 65536, 65536,
      65536, 65536, 65536, 65536, 65536, 65536],
     [65024, 64512, 64000, 63488, 62976, 62464, 61952, 61440, 60928, 60416, 59904, 59392, 58880, 58368,
      57856, 57344, 56832, 56320, 55808, 55296, 54784, 54272, 53760, 53248, 52736, 52224, 51712, 51200,
      50688, 50176, 49664, 49152, 48640, 48128, 47616, 47104, 46592, 46080, 45568, 45056, 44544, 44032,
      43520, 43008, 42496, 41984, 41472, 40960, 40448, 39936, 39424, 38912, 38400, 37888, 37376, 36864,
      36352, 35840, 35328, 34816, 34304, 33792, 33280, 32768, 32256, 31744, 31232, 30720, 30208, 29696,
      29184, 28672, 28160, 27648, 27136, 26624, 26112, 25600, 25088, 24576, 24064, 23552, 23040, 22528,
      22016, 21504, 20992, 20480, 19968, 19456, 18944, 18432, 17920, 17408, 16896, 16384, 15872, 15360,
      14848, 14336, 13824, 13312, 12800, 12288, 11776, 11264, 10752, 10240, 9728, 9216, 8704, 8192, 7680,
      7168, 6656, 6144, 5632, 5120, 4608, 4096, 3584, 3072, 2560, 2048, 1536, 1024, 512, 0],
     [65024, 57448, 49228, 44419, 41008, 38361, 36199, 34371, 32787, 31391, 30141, 29011, 27979, 27030,
      26151, 25333, 24567, 23848, 23171, 22529, 21921, 21342, 20791, 20264, 19759, 19275, 18810, 18362,
      17931, 17515, 17113, 16724, 16347, 15982, 15628, 15285, 14950, 14626, 14309, 14001, 13701, 13408,
      13122, 12843, 12571, 12304, 12043, 11788, 11539, 11294, 11055, 10820, 10590, 10364, 10142, 9924,
      9711, 9501, 9295, 9092, 8892, 8696, 8504, 8314, 8127, 7943, 7762, 7584, 7408, 7235, 7064, 6896,
      6730, 6567, 6405, 6246, 6089, 5934, 5781, 5630, 5481, 5334, 5188, 5044, 4902, 4762, 4623, 4486,
      4351, 4217, 4084, 3953, 3823, 3695, 3568, 3443, 3319, 3196, 3074, 2954, 2835, 2717, 2600, 2484,
      2369, 2256, 2144, 2032, 1922, 1813, 1704, 1597, 1491, 1385, 1281, 1177, 1074, 973, 872, 772, 672,
      574, 476, 380, 283, 188, 94, 0],
     [65024, 65024, 65024, 65024, 65024, 65024, 64962, 64864, 64764, 64664, 64563, 64462, 64359, 64255,
      64151, 64045, 63939, 63832, 63723, 63614, 63504, 63392, 63280, 63167, 63052, 62936, 62819, 62701,
      62582, 62462, 62340, 62217, 62093, 61968, 61841, 61713, 61583, 61452, 61319, 61185, 61050, 60913,
      60774, 60634, 60492, 60348, 60202, 60055, 59906, 59755, 59602, 59447, 59290, 59131, 58969, 58806,
      58640, 58472, 58301, 58128, 57952, 57774, 57593, 57409, 57222, 57032, 56840, 56644, 56444, 56241,
      56035, 55825, 55612, 55394, 55172, 54946, 54716, 54481, 54242, 53997, 53748, 53493, 53232, 52965,
      52693, 52414, 52128, 51835, 51535, 51227, 50910, 50586, 50251, 49908, 49554, 49189, 48812, 48423,
      48021, 47605, 47174, 46726, 46261, 45777, 45272, 44745, 44194, 43615, 43007, 42365, 41688, 40969,
      40203, 39385, 38506, 37557, 36525, 35395, 34145, 32749, 31165, 29337, 27175, 24528, 21117, 16308,
      8088, 0],
     [65536, 65536, 65536, 65536, 65536, 65536, 65536, 65536, 65536, 65536, 65536, 65536, 65536, 65536,
      65536, 65536, 65536, 65536, 65536, 65536, 65536, 65536, 65536, 65536, 65536, 65536, 65536, 65536,
      65536, 65536, 65536, 65536, 65536, 65536, 65536, 65536, 65536, 65536, 65536, 65536, 65536, 65536,
      65536, 65536, 65536, 65536, 65536, 65536, 65536, 65536, 65536, 65536, 65536, 65536, 65536, 65536,
      65536, 65536, 65536, 65536, 65536, 65536, 65536, 65536, 0, 0, 0, 0, 0, 0, 0, 0, 0, 0, 0, 0, 0, 0,
      0, 0, 0, 0, 0, 0, 0, 0, 0, 0, 0, 0, 0, 0, 0, 0, 0, 0, 0, 0, 0, 0, 0, 0, 0, 0, 0, 0, 0, 0, 0, 0, 0,
      0, 0, 0, 0, 0, 0, 0, 0, 0, 0, 0, 0, 0, 0, 0, 0, 0],
     [64512, 63488, 62464, 61440, 60416, 59392, 58368, 57344, 56320, 55296, 54272, 53248, 52224, 51200,
      50176, 49152, 48128, 47104, 46080, 45056, 44032, 43008, 41984, 40960, 39936, 38912, 37888, 36864,
      35840, 34816, 33792, 32768, 31744, 30720, 29696, 28672, 27648, 26624, 25600, 24576, 23552, 22528,
      21504, 20480, 19456, 18432, 17408, 16384, 15360, 14336, 13312, 12288, 11264, 10240, 9216, 8192,
      7168, 6144, 5120, 4096, 3072, 2048, 1024, 0, - 1024, - 2048, - 3072, - 4096, - 5120, - 6144,
      - 7168, - 8192, - 9216, - 10240, - 11264, - 12288, - 13312, - 14336, - 15360, - 16384, - 17408,
      - 18432, - 19456, - 20480, - 21504, - 22528, - 23552, - 24576, - 25600, - 26624, - 27648, - 28672,
      - 29696, - 30720, - 31744, - 32768, - 33792, - 34816, - 35840, - 36864, - 37888, - 38912, - 39936,
      - 40960, - 41984, - 43008, - 44032, - 45056, - 46080, - 47104, - 48128, - 49152, - 50176, - 51200,
      - 52224, - 53248, - 54272, - 55296, - 56320, - 57344, - 58368, - 59392, - 60416, - 61440, - 62464,
      - 63488, - 64512, - 65536],
     [57448, 44419, 38361, 34371, 31391, 29011, 27030, 25333, 23848, 22529, 21342, 20264, 19275, 18362,
      17515, 16724, 15982, 15285, 14626, 14001, 13408, 12843, 12304, 11788, 11294, 10820, 10364, 9924,
      9501, 9092, 8696, 8314, 7943, 7584, 7235, 6896, 6567, 6246, 5934, 5630, 5334, 5044, 4762, 4486,
      4217, 3953, 3695, 3443, 3196, 2954, 2717, 2484, 2256, 2032, 1813, 1597, 1385, 1177, 973, 772, 574,
      380, 188, 0, - 188, - 380, - 574, - 772, - 973, - 1177, - 1385, - 1597, - 1813, - 2032, - 2256,
      - 2484, - 2717, - 2954, - 3196, - 3443, - 3695, - 3953, - 4217, - 4486, - 4762, - 5044, - 5334,
      - 5630, - 5934, - 6246, - 6567, - 6896, - 7235, - 7584, - 7943, - 8314, - 8696, - 9092, - 9501,
      - 9924, - 10364, - 10820, - 11294, - 11788, - 12304, - 12843, - 13408, - 14001, - 14626, - 15285,
      - 15982, - 16724, - 17515, - 18362, - 19275, - 20264, - 21342, - 22529, - 23848, - 25333, - 27030,
      - 29011, - 31391, - 34371, - 38361, - 44419, - 57448, - 65536],
     [65024, 65024, 65024, 64864, 64664, 64462, 64255, 64045, 63832, 63614, 63392, 63167, 62936, 62701,
      62462, 62217, 61968, 61713, 61452, 61185, 60913, 60634, 60348, 60055, 59755, 59447, 59131, 58806,
      58472, 58128, 57774, 57409, 57032, 56644, 56241, 55825, 55394, 54946, 54481, 53997, 53493, 52965,
      52414, 51835, 51227, 50586, 49908, 49189, 48423, 47605, 46726, 45777, 44745, 43615, 42365, 40969,
      39385, 37557, 35395, 32749, 29337, 24528, 16308, 0, - 16308, - 24528, - 29337, - 32749, - 35395,
      - 37557, - 39385, - 40969, - 42365, - 43615, - 44745, - 45777, - 46726, - 47605, - 48423, - 49189,
      - 49908, - 50586, - 51227, - 51835, - 52414, - 52965, - 53493, - 53997, - 54481, - 54946, - 55394,
      - 55825, - 56241, - 56644, - 57032, - 57409, - 57774, - 58128, - 58472, - 58806, - 59131, - 59447,
      - 59755, - 60055, - 60348, - 60634, - 60913, - 61185, - 61452, - 61713, - 61968, - 62217, - 62462,
      - 62701, - 62936, - 63167, - 63392, - 63614, - 63832, - 64045, - 64255, - 64462, - 64664, - 64864,
      - 65060, - 65253, - 65442, - 65536],
     [65536, 65536, 65536, 65536, 65536, 65536, 65536, 65536, 65536, 65536, 65536, 65536, 65536, 65536,
      65536, 65536, 65536, 65536, 65536, 65536, 65536, 65536, 65536, 65536, 65536, 65536, 65536, 65536,
      65536, 65536, 65536, 65536, 65536, 65536, 65536, 65536, 65536, 65536, 65536, 65536, 65536, 65536,
      65536, 65536, 65536, 65536, 65536, 65536, 65536, 65536, 65536, 65536, 65536, 65536, 65536, 65536,
      65536, 65536, 65536, 65536, 65536, 65536, 65536, 65536, - 65536, - 65536, - 65536, - 65536,
      - 65536, - 65536, - 65536, - 65536, - 65536, - 65536, - 65536, - 65536, - 65536, - 65536, - 65536,
      - 65536, - 65536, - 65536, - 65536, - 65536, - 65536, - 65536, - 65536, - 65536, - 65536, - 65536,
      - 65536, - 65536, - 65536, - 65536, - 65536, - 65536, - 65536, - 65536, - 65536, - 65536, - 65536,
      - 65536, - 65536, - 65536, - 65536, - 65536, - 65536, - 65536, - 65536, - 65536, - 65536, - 65536,
      - 65536, - 65536, - 65536, - 65536, - 65536, - 65536, - 65536, - 65536, - 65536, - 65536, - 65536,
      - 65536, - 65536, - 65536, - 65536, - 65536]]"

end
