(* ===== verification/Msf2_Math.thy ===== *)
theory Msf2_Math
  imports Msf2_Lut "HOL-Library.Signed_Division"
begin

text \<open>
  The integer arithmetic of \<open>src/mcu/msf2.c\<close>: powers of two by table and interpolation, time cents,
  panning and filter coefficients without floating point. Unsigned quantities are words of their width;
  \<open>int64_t\<close> and \<open>int32_t\<close> intermediate values are integers, with \<open>sdiv\<close> and \<open>smod\<close> for the division that
  truncates towards zero and the narrowing casts written out.

  The first result is the claim of a comment in the source: the division-free scaling used at control
  rate agrees with the general routine used when a note starts.
\<close>

section \<open>Helpers\<close>

definition signed_amount :: "u16 \<Rightarrow> int" where
  "signed_amount v = s16 v"

definition has_generator :: "u64 \<Rightarrow> nat \<Rightarrow> bool" where
  "has_generator presence oper \<longleftrightarrow> presence AND push_bit oper 1 \<noteq> 0"

definition clamp_i32 :: "int \<Rightarrow> int \<Rightarrow> int \<Rightarrow> int" where
  "clamp_i32 v low high = (if v < low then low else if v > high then high else v)"

section \<open>Powers of two\<close>

text \<open>The integer and fractional part of a Q24 exponent: division truncates, then the fraction is made positive.\<close>

definition exp2_split :: "int \<Rightarrow> int \<times> int" where
  "exp2_split exponent_q24 =
     (let octave = exponent_q24 sdiv 2 ^ 24; fraction = exponent_q24 smod 2 ^ 24
      in if fraction < 0 then (octave - 1, fraction + 2 ^ 24) else (octave, fraction))"

text \<open>The Q32 ratio of a fraction, interpolated between two entries of the table.\<close>

definition exp2_ratio :: "int \<Rightarrow> u64" where
  "exp2_ratio fraction =
     (let table_index = nat (drop_bit 16 fraction);
          interpolation = of_int (fraction AND 0xffff);
          lower = push_bit 32 1 OR ucast (msf2_lut_exp2_fraction_q32 ! table_index);
          upper = (if table_index = 255 then push_bit 32 2
                   else push_bit 32 1 OR ucast (msf2_lut_exp2_fraction_q32 ! (table_index + 1)))
      in lower + drop_bit 16 ((upper - lower) * interpolation + 0x8000))"

text \<open>Doubling quotient and residual once per octave; \<open>None\<close> when the quotient leaves 32 bits.\<close>

fun scale_up :: "nat \<Rightarrow> u64 \<Rightarrow> u64 \<Rightarrow> u64 \<Rightarrow> (u64 \<times> u64) option" where
  "scale_up 0 denominator qt residual = Some (qt, residual)"
| "scale_up (Suc n) denominator qt residual =
     (if qt > 0xffffffff div 2 then None
      else (let q = qt * 2; r = residual * 2
            in if r \<ge> denominator then scale_up n denominator (q + 1) (r - denominator) else scale_up n denominator q r))"

definition scale_down :: "nat \<Rightarrow> u64 \<Rightarrow> u64" where
  "scale_down shift qt =
     (if shift \<ge> 63 then 0
      else (let lower = qt AND (push_bit shift 1 - 1); q = drop_bit shift qt
            in if lower \<ge> push_bit (shift - 1) 1 then q + 1 else q))"

definition clamp_quotient :: "u32 \<Rightarrow> u64 \<Rightarrow> u32" where
  "clamp_quotient minimum qt =
     (if qt < ucast minimum then minimum else if qt > 0xffffffff then 0xffffffff else ucast qt)"

text \<open>The octave is applied by doubling or by a rounded right shift.\<close>

definition apply_octave :: "int \<Rightarrow> u64 \<Rightarrow> u64 \<Rightarrow> u64 \<Rightarrow> u32 \<Rightarrow> u32" where
  "apply_octave octave denominator qt residual minimum =
     (if octave \<ge> 0
      then (if octave \<ge> 63 then 0xffffffff
            else (case scale_up (nat octave) denominator qt residual of
                    None \<Rightarrow> 0xffffffff
                  | Some (q, r) \<Rightarrow> clamp_quotient minimum (if r * 2 \<ge> denominator then q + 1 else q)))
      else clamp_quotient minimum (scale_down (unat (of_int (- octave) :: u32)) qt))"

definition ratio_scaled_q24 :: "u64 \<Rightarrow> u32 \<Rightarrow> int \<Rightarrow> u32 \<Rightarrow> u32" where
  "ratio_scaled_q24 multiplier divisor exponent_q24 minimum =
     (case exp2_split exponent_q24 of
        (octave, fraction) \<Rightarrow>
          (let denominator = push_bit 32 1 * ucast divisor; ratio = exp2_ratio fraction
           in if multiplier \<noteq> 0 \<and> ratio > 0xffffffffffffffff div multiplier then 0xffffffff
              else (let numerator = multiplier * ratio
                    in apply_octave octave denominator (numerator div denominator) (numerator mod denominator) minimum)))"

definition scale_u32_by_exp2_q24 :: "u32 \<Rightarrow> int \<Rightarrow> u32 \<Rightarrow> u32" where
  "scale_u32_by_exp2_q24 multiplier exponent_q24 minimum =
     (case exp2_split exponent_q24 of
        (octave, fraction) \<Rightarrow>
          (let ratio = exp2_ratio fraction;
               fraction_product = ucast multiplier * ucast (ucast (ratio - push_bit 32 1) :: u32);
               qt = ucast multiplier + drop_bit 32 fraction_product;
               residual = ucast (ucast fraction_product :: u32)
           in if qt > 0xffffffff then 0xffffffff
              else apply_octave octave (push_bit 32 1) qt residual minimum))"

section \<open>Time, positions and panning\<close>

definition cents_exponent_q24 :: "int \<Rightarrow> int" where
  "cents_exponent_q24 cents = (cents * 2 ^ 24) sdiv 1200"

definition timecent_samples :: "int \<Rightarrow> bool \<Rightarrow> int \<Rightarrow> u32 \<Rightarrow> u32" where
  "timecent_samples timecents present maximum cap =
     (let tc = (if present then timecents else - 12000)
      in if tc \<le> - 32768 then 0
         else (let v = ratio_scaled_q24 (ucast MSF2_LUT_SAMPLE_RATE) 1
                         (cents_exponent_q24 (clamp_i32 tc (- 12000) maximum)) 1
               in if v > cap then cap else v))"

definition clamp_position :: "int \<Rightarrow> u32 \<Rightarrow> u32 \<Rightarrow> u32" where
  "clamp_position v low high = (if v < uint low then low else if v > uint high then high else of_int v)"

definition pan_sine_q30 :: "u32 \<Rightarrow> u32" where
  "pan_sine_q30 position =
     (let scaled = position * 256; index = scaled div 1000; fraction = scaled mod 1000
      in if index \<ge> 256 then msf2_lut_pan_quarter_sine_q30 ! 256
         else (let lower = msf2_lut_pan_quarter_sine_q30 ! unat index;
                   upper = msf2_lut_pan_quarter_sine_q30 ! (unat index + 1)
               in lower + ucast ((ucast (upper - lower) * ucast fraction + 500 :: u64) div 1000)))"

definition quarter_sine_index_q16 :: "u32 \<Rightarrow> u32" where
  "quarter_sine_index_q16 index_q16 =
     (let index = drop_bit 16 index_q16; fraction = index_q16 AND 0xffff
      in if index \<ge> 256 then msf2_lut_pan_quarter_sine_q30 ! 256
         else (let lower = msf2_lut_pan_quarter_sine_q30 ! unat index;
                   upper = msf2_lut_pan_quarter_sine_q30 ! (unat index + 1)
               in lower + ucast (drop_bit 16 (ucast (upper - lower) * ucast fraction + 0x8000 :: u64))))"

definition sine_index_q16 :: "u32 \<Rightarrow> u32" where
  "sine_index_q16 index_q16 =
     (let half_turn = push_bit 16 512; i = (if index_q16 > half_turn then half_turn else index_q16)
      in if i \<le> push_bit 16 256 then quarter_sine_index_q16 i else quarter_sine_index_q16 (half_turn - i))"

definition cosine_index_q16 :: "u32 \<Rightarrow> int" where
  "cosine_index_q16 index_q16 =
     (let quarter_turn = push_bit 16 256
      in if index_q16 \<le> quarter_turn then sint (quarter_sine_index_q16 (quarter_turn - index_q16))
         else - sint (quarter_sine_index_q16 (index_q16 - quarter_turn)))"

section \<open>Filter coefficients\<close>

definition round_shift_signed :: "int \<Rightarrow> nat \<Rightarrow> int" where
  "round_shift_signed v shift =
     (let bias = 2 ^ (shift - 1)
      in if v \<ge> 0 then i32 ((v + bias) div 2 ^ shift) else - i32 ((- v + bias) div 2 ^ shift))"

record filter_coefficients =
  fq_b0 :: int
  fq_b1 :: int
  fq_b2 :: int
  fq_a1 :: int
  fq_a2 :: int

definition filter_coefficients_from_cos_alpha :: "int \<Rightarrow> int \<Rightarrow> filter_coefficients" where
  "filter_coefficients_from_cos_alpha cos_q30 alpha_q30 =
     (let a0_q30 = push_bit 30 1 + of_int alpha_q30 :: u64;
          inverse_a0_q30 = sint ((push_bit 60 1 + a0_q30 div 2) div a0_q30);
          one_minus_cos = 2 ^ 30 - cos_q30;
          calculated_b0 = i16 (round_shift_signed (one_minus_cos * inverse_a0_q30) 47)
      in \<lparr> fq_b0 = calculated_b0,
           fq_b1 = i16 (round_shift_signed (one_minus_cos * inverse_a0_q30) 46),
           fq_b2 = calculated_b0,
           fq_a1 = i16 (round_shift_signed (- cos_q30 * inverse_a0_q30) 45),
           fq_a2 = i16 (round_shift_signed ((2 ^ 30 - alpha_q30) * inverse_a0_q30) 46) \<rparr>)"

definition ceil_divide :: "u64 \<Rightarrow> u32 \<Rightarrow> u32" where
  "ceil_divide numerator denominator =
     (if denominator = 0 then 0
      else (let n = (numerator + ucast denominator - 1) div ucast denominator
            in if n > 0xffffffff then 0xffffffff else ucast n))"

definition msf2_pack_pair :: "int \<Rightarrow> int \<Rightarrow> u32" where
  "msf2_pack_pair high low = push_bit 16 (ucast (of_int high :: u16)) OR ucast (of_int low :: u16)"

section \<open>The two scaling routines agree\<close>

lemma exp2_split_floor: "exp2_split e = (e div 2 ^ 24, e mod 2 ^ 24)"
proof (cases "e \<ge> 0")
  case False
  obtain n where n: "e = - int n" "0 < n" using False by (metis int_cases neg_0_le_iff_le not_less of_nat_0_less_iff of_nat_0_le_iff)
  have d: "e sdiv 2 ^ 24 = - (int n div 2 ^ 24)" "e smod 2 ^ 24 = - (int n mod 2 ^ 24)"
    using n by (simp_all add: signed_divide_int_def signed_modulo_int_def minus_mult_div_eq_mod)
  show ?thesis
  proof (cases "int n mod 2 ^ 24 = 0")
    case True
    then show ?thesis using d n by (simp add: exp2_split_def zdiv_zminus1_eq_if zmod_zminus1_eq_if)
  next
    case False
    moreover have "0 \<le> int n mod 2 ^ 24" by simp
    ultimately have "0 < int n mod 2 ^ 24" by linarith
    then show ?thesis using d n False by (simp add: exp2_split_def zdiv_zminus1_eq_if zmod_zminus1_eq_if)
  qed
qed (simp add: exp2_split_def signed_divide_int_def signed_modulo_int_def minus_mult_div_eq_mod sgn_if Let_def not_less)

text \<open>Neighbouring entries are far enough apart that interpolation never rounds up to the next entry.\<close>

lemma exp2_table: "length msf2_lut_exp2_fraction_q32 = 256"
  by (simp add: msf2_lut_exp2_fraction_q32_def)

lemma exp2_gaps:
  "list_all (\<lambda>(a, b). unat a + 32769 \<le> unat b) (zip msf2_lut_exp2_fraction_q32 (tl msf2_lut_exp2_fraction_q32))"
  by (simp add: msf2_lut_exp2_fraction_q32_def)

lemma exp2_last: "unat (msf2_lut_exp2_fraction_q32 ! 255) + 32769 \<le> 2 ^ 32"
  by (simp add: msf2_lut_exp2_fraction_q32_def)

lemma exp2_next:
  assumes "i < 255"
  shows "unat (msf2_lut_exp2_fraction_q32 ! i) + 32769 \<le> unat (msf2_lut_exp2_fraction_q32 ! (i + 1))"
  using exp2_gaps assms by (simp add: list_all_length exp2_table nth_tl)

lemma unat_up64 [simp]: "unat (ucast x :: u64) = unat x" for x :: u32
  using unat_bounds(3) [of x] by (simp add: unsigned_ucast_eq take_bit_nat_eq_self)

lemma unat_low32: "unat (ucast (ucast w :: u32) :: u64) = unat w mod 2 ^ 32" for w :: u64
  by (simp only: unat_up64 unsigned_ucast_eq take_bit_eq_mod unat_mod_distrib) (use unat_bounds(4) [of w] in simp)

lemma unat_drop_div: "unat (drop_bit n w) = unat w div 2 ^ n" for w :: u64
  by (subst unat_drop_bit_eq) (simp only: drop_bit_eq_div)

lemma bit_2_32: "bit (2 ^ 32 :: u64) n \<longleftrightarrow> n = 32"
  by (auto simp only: bit_exp_iff possible_bit_word) simp

lemma one_or_fraction: "unat (push_bit 32 1 OR ucast x :: u64) = 2 ^ 32 + unat x" for x :: u32
proof -
  have "2 ^ 32 AND (ucast x :: u64) = 0"
    by (rule bit_word_eqI) (simp only: bit_and_iff bit_2_32, use bit_beyond [where w = x] in \<open>auto simp: bit_ucast_iff\<close>)
  then have "2 ^ 32 OR (ucast x :: u64) = 2 ^ 32 + ucast x" by (simp only: disjunctive_add_eq_or)
  moreover have "unat (2 ^ 32 + ucast x :: u64) = 2 ^ 32 + unat x"
    using unat_bounds(3) [of x] by (subst unat_add_lem [THEN iffD1]) simp_all
  moreover have "push_bit 32 (1 :: u64) = 2 ^ 32" by (simp add: push_bit_eq_mult)
  ultimately show ?thesis by (simp only:)
qed

lemma unat_low_bits: "0 \<le> f \<Longrightarrow> unat (of_int (f AND 0xffff) :: u64) = nat (f mod 65536)"
proof -
  assume "0 \<le> f"
  have "f AND 0xffff = f mod 65536" using take_bit_eq_mask [of 16 f] by (simp add: take_bit_eq_mod mask_eq_exp_minus_1)
  moreover have "of_int (f mod 65536) = (of_nat (nat (f mod 65536)) :: u64)" by simp
  moreover have "nat (f mod 65536) < 65536" by (simp add: nat_less_iff)
  ultimately show ?thesis by (simp only: unat_of_nat) simp
qed

definition exp2_lower :: "nat \<Rightarrow> nat" where "exp2_lower i = 2 ^ 32 + unat (msf2_lut_exp2_fraction_q32 ! i)"
definition exp2_upper :: "nat \<Rightarrow> nat" where "exp2_upper i = (if i = 255 then 2 ^ 33 else exp2_lower (i + 1))"

lemma exp2_bounds: "i < 256 \<Longrightarrow> 2 ^ 32 \<le> exp2_lower i \<and> exp2_lower i + 32769 \<le> exp2_upper i \<and> exp2_upper i \<le> 2 ^ 33"
  using exp2_next [of i] exp2_last unat_bounds(3) [of "msf2_lut_exp2_fraction_q32 ! (i + 1)"]
  by (auto simp: exp2_lower_def exp2_upper_def)

lemma unat_exp2_ratio:
  assumes "0 \<le> f" and "f < 2 ^ 24"
  defines "i \<equiv> nat (f div 65536)" and "t \<equiv> nat (f mod 65536)"
  shows "unat (exp2_ratio f) = exp2_lower i + ((exp2_upper i - exp2_lower i) * t + 32768) div 65536"
proof -
  have i: "i < 256" and t: "t < 65536" using assms by (auto simp: nat_less_iff)
  note b = exp2_bounds [OF i]
  let ?lo = "push_bit 32 1 OR ucast (msf2_lut_exp2_fraction_q32 ! i) :: u64"
  let ?up = "(if i = 255 then push_bit 32 2 else push_bit 32 1 OR ucast (msf2_lut_exp2_fraction_q32 ! (i + 1))) :: u64"
  have lo: "unat ?lo = exp2_lower i" by (simp only: one_or_fraction exp2_lower_def)
  have up: "unat ?up = exp2_upper i" by (simp only: exp2_upper_def exp2_lower_def one_or_fraction split: if_split) simp
  have diff: "unat (?up - ?lo) = exp2_upper i - exp2_lower i"
    using b lo up by (subst unat_sub) (simp_all add: word_le_nat_alt)
  have tw: "unat (of_int (f AND 0xffff) :: u64) = t" using unat_low_bits [OF assms(1)] by (simp only: t_def)
  have small: "(exp2_upper i - exp2_lower i) * t + 32768 < 2 ^ 63"
  proof -
    have "(exp2_upper i - exp2_lower i) * t \<le> 2 ^ 33 * 65535" using b t by (intro mult_le_mono) auto
    then show ?thesis by simp
  qed
  have prod: "unat ((?up - ?lo) * of_int (f AND 0xffff)) = (exp2_upper i - exp2_lower i) * t"
    using small diff tw by (subst unat_mult_lem [THEN iffD1]) simp_all
  have "unat ((?up - ?lo) * of_int (f AND 0xffff) + 0x8000) = (exp2_upper i - exp2_lower i) * t + 32768"
    using small prod by (subst unat_add_lem [THEN iffD1]) simp_all
  then have step: "unat (drop_bit 16 ((?up - ?lo) * of_int (f AND 0xffff) + 0x8000)) =
      ((exp2_upper i - exp2_lower i) * t + 32768) div 65536"
    by (simp only: unat_drop_div) simp
  have "((exp2_upper i - exp2_lower i) * t + 32768) div 65536 < 2 ^ 48" using small by (simp add: less_mult_imp_div_less)
  then have "unat (?lo + drop_bit 16 ((?up - ?lo) * of_int (f AND 0xffff) + 0x8000)) =
      exp2_lower i + ((exp2_upper i - exp2_lower i) * t + 32768) div 65536"
    using b by (subst unat_add_lem [THEN iffD1]) (simp_all only: lo step, simp)
  moreover have "nat (drop_bit 16 f) = i" by (simp add: i_def drop_bit_eq_div)
  ultimately show ?thesis by (simp only: exp2_ratio_def Let_def)
qed

lemma exp2_ratio_range:
  assumes "0 \<le> f" and "f < 2 ^ 24"
  shows "2 ^ 32 \<le> unat (exp2_ratio f)" "unat (exp2_ratio f) < 2 ^ 33"
proof -
  define i t where "i = nat (f div 65536)" and "t = nat (f mod 65536)"
  have i: "i < 256" and t: "t < 65536" using assms by (auto simp: i_def t_def nat_less_iff)
  note b = exp2_bounds [OF i]
  have eq: "unat (exp2_ratio f) = exp2_lower i + ((exp2_upper i - exp2_lower i) * t + 32768) div 65536"
    using unat_exp2_ratio [OF assms] by (simp add: i_def t_def)
  show "2 ^ 32 \<le> unat (exp2_ratio f)" using b eq by simp
  let ?d = "exp2_upper i - exp2_lower i"
  have "?d * t + 32768 < ?d * t + ?d" using b by linarith
  also have "\<dots> \<le> ?d * 65536" using t by (metis Suc_leI mult_Suc_right mult_le_mono2 add.commute)
  finally have "(?d * t + 32768) div 65536 < ?d" by (simp add: less_mult_imp_div_less)
  then show "unat (exp2_ratio f) < 2 ^ 33" using b eq by linarith
qed

text \<open>Splitting off the leading one of the ratio, a 32 by 32 bit product gives quotient and remainder by \<open>2 ^ 32\<close>.\<close>

lemma split_product:
  fixes m :: u32
  assumes "0 \<le> f" and "f < 2 ^ 24"
  defines "p \<equiv> ucast m * ucast (ucast (exp2_ratio f - push_bit 32 1) :: u32) :: u64" and "r \<equiv> unat (exp2_ratio f)"
  shows "unat (ucast m + drop_bit 32 p) = unat m * r div 2 ^ 32" and "unat (ucast (ucast p :: u32) :: u64) = unat m * r mod 2 ^ 32"
proof -
  have r: "2 ^ 32 \<le> r" "r < 2 ^ 33" using exp2_ratio_range [OF assms(1,2)] by (simp_all add: r_def)
  let ?ratio = "exp2_ratio f" and ?m = "ucast m :: u64" and ?den = "push_bit 32 1 :: u64"
  have m: "unat ?m = unat m" "unat m < 2 ^ 32" using unat_bounds(3) [of m] by simp_all
  have "unat (?ratio - ?den) = r - 2 ^ 32"
    using r by (subst unat_sub) (simp_all add: word_le_nat_alt r_def push_bit_eq_mult)
  then have frac: "unat (ucast (ucast (?ratio - ?den) :: u32) :: u64) = r - 2 ^ 32" using r by (simp only: unat_low32) simp
  have "unat m * (r - 2 ^ 32) < 2 ^ 32 * 2 ^ 32" using m(2) r by (intro mult_strict_mono) auto
  then have p: "unat p = unat m * (r - 2 ^ 32)"
    unfolding p_def by (subst unat_mult_lem [THEN iffD1]) (simp_all only: frac m(1), simp)
  have sum: "unat m * r = unat m * 2 ^ 32 + unat m * (r - 2 ^ 32)"
    using r(1) by (simp only: distrib_left [symmetric]) simp
  have "unat p div 2 ^ 32 < 2 ^ 32" using unat_bounds(4) [of p] by (simp add: less_mult_imp_div_less)
  then show "unat (?m + drop_bit 32 p) = unat m * r div 2 ^ 32"
    using m by (subst unat_add_lem [THEN iffD1]) (simp_all only: unat_drop_div p sum, simp_all)
  show "unat (ucast (ucast p :: u32) :: u64) = unat m * r mod 2 ^ 32" by (simp only: unat_low32 p sum) simp
qed

lemma exceeds_quotient: "m \<noteq> 0 \<and> x > 0xffffffffffffffff div m \<longleftrightarrow> 2 ^ 64 \<le> unat m * unat x" for m x :: u64
proof (cases "m = 0")
  case False
  have "x > 0xffffffffffffffff div m \<longleftrightarrow> (2 ^ 64 - 1) div unat m < unat x"
    by (simp only: word_less_nat_alt unat_div_distrib) simp
  also have "\<dots> \<longleftrightarrow> 2 ^ 64 - 1 < unat x * unat m" using False by (intro div_less_iff_less_mult) (simp add: unat_gt_0)
  finally show ?thesis using False by (auto simp: mult.commute)
qed simp

text \<open>The division-free scaling the firmware uses for every control update returns, for every 32-bit
  multiplier, every exponent and every minimum, exactly what the general routine with 64-bit division
  returns, saturation included.\<close>

theorem exp2_scalings_agree: "scale_u32_by_exp2_q24 m e minimum = ratio_scaled_q24 (ucast m) 1 e minimum"
proof -
  define f where "f = e mod 2 ^ 24"
  let ?ratio = "exp2_ratio f" and ?m = "ucast m :: u64" and ?den = "push_bit 32 1 :: u64"
  let ?p = "?m * ucast (ucast (?ratio - ?den) :: u32)"
  have den: "unat ?den = 2 ^ 32" "?den * ucast (1 :: u32) = ?den" by (simp_all add: push_bit_eq_mult)
  have "0 \<le> f" "f < 2 ^ 24" by (simp_all add: f_def)
  note split = split_product [OF this, of m]
  note over = exceeds_quotient [of ?m ?ratio, unfolded unat_up64]
  have high: "?m + drop_bit 32 ?p > 0xffffffff \<longleftrightarrow> 2 ^ 64 \<le> unat m * unat ?ratio"
    by (simp only: word_less_nat_alt split) (simp add: less_eq_div_iff_mult_less_eq flip: Suc_le_eq)
  show ?thesis
  proof (cases "2 ^ 64 \<le> unat m * unat ?ratio")
    case True
    then show ?thesis using high over
      by (simp only: scale_u32_by_exp2_q24_def ratio_scaled_q24_def exp2_split_floor prod.case Let_def f_def [symmetric] if_True)
  next
    case False
    then have n: "unat (?m * ?ratio) = unat m * unat ?ratio" by (subst unat_mult_lem [THEN iffD1]) simp_all
    have "?m * ?ratio div ?den = ?m + drop_bit 32 ?p" by (simp only: word_unat_eq_iff unat_div_distrib n split den)
    moreover have "?m * ?ratio mod ?den = ucast (ucast ?p :: u32)" by (simp only: word_unat_eq_iff unat_mod_distrib n split den)
    ultimately show ?thesis using high over False
      by (simp only: scale_u32_by_exp2_q24_def ratio_scaled_q24_def exp2_split_floor prod.case Let_def f_def [symmetric] if_False den(2))
  qed
qed

end
