(* ===== verification/Msf2_View.thy ===== *)
theory Msf2_View
  imports Msf2_Math "HOL-Library.Monad_Syntax"
begin

text \<open>
  The MSF2 image in flash, first part of \<open>src/mcu/msf2.c\<close>: the validation of an image and the access to
  its presets, zones, generators and samples. The image is a list of bytes, a pointer into it is an offset,
  and every byte read is an option: \<open>None\<close> is a read past the end of the image or through a null pointer,
  which the C code does not check. A function that returns an \<open>msf2_result\<close> other than \<open>MSF2_OK\<close> gives
  \<open>Inl\<close> of it. Null arguments have no counterpart.

  The lemmas show that validation never reads outside the image, and what an accepted image guarantees:
  every record the runtime asks for exists, its bytes lie inside the image, and references between
  records stay inside their sections.
\<close>

section \<open>Reading\<close>

definition byte_at :: "u8 list \<Rightarrow> nat \<Rightarrow> u8 option" where
  "byte_at d p = (if p < length d then Some (d ! p) else None)"

definition read_u16 :: "u8 list \<Rightarrow> nat \<Rightarrow> u16 option" where
  "read_u16 d p = do { a \<leftarrow> byte_at d p; b \<leftarrow> byte_at d (p + 1); Some (ucast a OR push_bit 8 (ucast b)) }"

definition read_u32 :: "u8 list \<Rightarrow> nat \<Rightarrow> u32 option" where
  "read_u32 d p =
     do { a \<leftarrow> byte_at d p; b \<leftarrow> byte_at d (p + 1); c \<leftarrow> byte_at d (p + 2); e \<leftarrow> byte_at d (p + 3);
          Some (ucast a OR push_bit 8 (ucast b) OR push_bit 16 (ucast c) OR push_bit 24 (ucast e)) }"

definition read_u64 :: "u8 list \<Rightarrow> nat \<Rightarrow> u64 option" where
  "read_u64 d p = do { a \<leftarrow> read_u32 d p; b \<leftarrow> read_u32 d (p + 4); Some (ucast a OR push_bit 32 (ucast b)) }"

definition image_crc_shift :: "u32 \<Rightarrow> u32" where
  "image_crc_shift crc = drop_bit 1 crc XOR (if crc AND 1 \<noteq> 0 then 0xedb88320 else 0)"

text \<open>The checksum reads its own field, bytes 36 to 39, as zero.\<close>

definition crc32_image :: "u8 list \<Rightarrow> u32" where
  "crc32_image d =
     foldl (\<lambda>crc i. (image_crc_shift ^^ 8) (crc XOR (if i \<ge> 36 \<and> i < 40 then 0 else ucast (d ! i)))) 0xffffffff
       [0..<length d] XOR 0xffffffff"

lemma clear_lowest_less: "v \<noteq> 0 \<Longrightarrow> unat (v AND (v - 1)) < unat v" for v :: u64
proof -
  assume "v \<noteq> 0"
  then have "unat (v - 1) < unat v" using unat_gt_0 [of v] by (simp add: unat_minus_one)
  moreover have "unat (v AND (v - 1)) \<le> unat (v - 1)" by (simp add: word_and_le1 flip: word_le_nat_alt)
  ultimately show ?thesis by simp
qed

function popcount64 :: "u64 \<Rightarrow> nat" where
  "popcount64 v = (if v = 0 then 0 else Suc (popcount64 (v AND (v - 1))))"
  by pat_completeness auto
termination by (relation "measure unat") (simp_all add: clear_lowest_less)

declare popcount64.simps [simp del]

definition range_fits :: "u32 \<Rightarrow> u32 \<Rightarrow> u32 \<Rightarrow> bool" where
  "range_fits first count tot \<longleftrightarrow> first \<le> tot \<and> count \<le> tot - first"

section \<open>Views and records\<close>

datatype msf2_result = MSF2_OK | MSF2_ERR_ARGUMENT | MSF2_ERR_HEADER | MSF2_ERR_PROFILE | MSF2_ERR_CRC
  | MSF2_ERR_DIRECTORY | MSF2_ERR_RECORD | MSF2_ERR_CAPACITY | MSF2_ERR_SINK | MSF2_ERR_STATE

record msf2_section_view =
  sv_data :: nat
  sv_count :: u32
  sv_stride :: u32

record msf2_view =
  vw_data :: "u8 list"
  vw_sections :: "msf2_section_view list"
  vw_source_size_bytes :: u64
  vw_source_crc32 :: u32
  vw_sample_word_offset :: u32
  vw_sample_word_count :: u32
  vw_selection_crc32 :: u32

record msf2_preset =
  pr_program :: u16
  pr_bank :: u16
  pr_first_zone :: u32
  pr_zone_count :: u32

record msf2_zone =
  zn_key_low :: u8
  zn_key_high :: u8
  zn_velocity_low :: u8
  zn_velocity_high :: u8
  zn_first_generator :: u32
  zn_generator_count :: u16
  zn_sample_index :: u16
  zn_generator_presence :: u64

record msf2_sample =
  sa_start :: u32
  sa_end :: u32
  sa_loop_start :: u32
  sa_loop_end :: u32
  sa_sample_rate :: u32
  sa_original_pitch :: u8
  sa_pitch_correction :: int

definition MSF2_HEADER_SIZE :: nat where "MSF2_HEADER_SIZE = 96"
definition MSF2_DIRECTORY_OFFSET :: nat where "MSF2_DIRECTORY_OFFSET = 96"
definition MSF2_SECTION_COUNT :: nat where "MSF2_SECTION_COUNT = 7"
definition MSF2_DIRECTORY_ENTRY_SIZE :: nat where "MSF2_DIRECTORY_ENTRY_SIZE = 16"
definition MSF2_PROFILE_CRC32 :: u32 where "MSF2_PROFILE_CRC32 = 0xa7695a6c"
definition MSF2_SAMPLE_RATE :: u32 where "MSF2_SAMPLE_RATE = 48000"
definition MSF2_CONTROL_TICK_SAMPLES :: u32 where "MSF2_CONTROL_TICK_SAMPLES = 48"
definition MSF2_VALID_DEPENDENCIES :: u16 where "MSF2_VALID_DEPENDENCIES = 0x001f"
definition MSF2_MAX_LAYERS :: nat where "MSF2_MAX_LAYERS = 4"
definition MSF2_GENERATOR_COUNT :: nat where "MSF2_GENERATOR_COUNT = 61"

definition section_at :: "msf2_view \<Rightarrow> nat \<Rightarrow> msf2_section_view" where
  "section_at view s = vw_sections view ! s"

definition section_count :: "msf2_view \<Rightarrow> nat \<Rightarrow> u32" where
  "section_count view s = sv_count (section_at view s)"

text \<open>The address of a record, \<open>None\<close> for the null pointer.\<close>

definition record_at :: "msf2_view \<Rightarrow> nat \<Rightarrow> u32 \<Rightarrow> nat option" where
  "record_at view s index =
     (if s \<ge> MSF2_SECTION_COUNT then None
      else if index \<ge> section_count view s then None
      else Some (sv_data (section_at view s) + unat index * unat (sv_stride (section_at view s))))"

definition source_dependencies :: "u16 \<Rightarrow> u16" where
  "source_dependencies source =
     (if source = 0 then 0
      else if source AND 0x0080 \<noteq> 0 then 0x0002
      else
        (let index = source AND 0x007f
         in if index = 2 \<or> index = 3 then 0x0001
            else if index = 10 \<or> index = 13 then 0x0008
            else if index = 14 then 0x0004
            else if index = 16 then 0x0010
            else 0))"

definition destination_matches :: "u16 \<Rightarrow> u8 \<Rightarrow> bool" where
  "destination_matches destination family \<longleftrightarrow>
     (if family = 0 then destination = 13 \<or> destination = 17 \<or> destination = 48
      else if family = 1 then destination = 0 \<or> destination = 5 \<or> destination = 6 \<or> destination = 7
      else destination = 8 \<or> destination = 10 \<or> destination = 11)"

definition msf2_preset_count :: "msf2_view \<Rightarrow> u32" where
  "msf2_preset_count view = section_count view 0"

definition msf2_zone_count :: "msf2_view \<Rightarrow> u32" where
  "msf2_zone_count view = section_count view 1"

definition msf2_get_preset :: "msf2_view \<Rightarrow> u32 \<Rightarrow> (msf2_result + msf2_preset) option" where
  "msf2_get_preset view index =
     (case record_at view 0 index of
        None \<Rightarrow> Some (Inl MSF2_ERR_ARGUMENT)
      | Some p \<Rightarrow>
          do { program \<leftarrow> read_u16 (vw_data view) p; bank \<leftarrow> read_u16 (vw_data view) (p + 2);
               first_zone \<leftarrow> read_u32 (vw_data view) (p + 4); zone_count \<leftarrow> read_u32 (vw_data view) (p + 8);
               Some (Inr \<lparr> pr_program = program, pr_bank = bank, pr_first_zone = first_zone, pr_zone_count = zone_count \<rparr>) })"

definition msf2_get_zone :: "msf2_view \<Rightarrow> u32 \<Rightarrow> (msf2_result + msf2_zone) option" where
  "msf2_get_zone view index =
     (case record_at view 1 index of
        None \<Rightarrow> Some (Inl MSF2_ERR_ARGUMENT)
      | Some p \<Rightarrow>
          do { key_low \<leftarrow> byte_at (vw_data view) p; key_high \<leftarrow> byte_at (vw_data view) (p + 1);
               velocity_low \<leftarrow> byte_at (vw_data view) (p + 2); velocity_high \<leftarrow> byte_at (vw_data view) (p + 3);
               first_generator \<leftarrow> read_u32 (vw_data view) (p + 4); generator_count \<leftarrow> read_u16 (vw_data view) (p + 8);
               sample_index \<leftarrow> read_u16 (vw_data view) (p + 10); presence \<leftarrow> read_u64 (vw_data view) (p + 12);
               Some (Inr \<lparr> zn_key_low = key_low, zn_key_high = key_high, zn_velocity_low = velocity_low,
                 zn_velocity_high = velocity_high, zn_first_generator = first_generator, zn_generator_count = generator_count,
                 zn_sample_index = sample_index, zn_generator_presence = presence \<rparr>) })"

definition msf2_get_sample :: "msf2_view \<Rightarrow> u32 \<Rightarrow> (msf2_result + msf2_sample) option" where
  "msf2_get_sample view index =
     (case record_at view 3 index of
        None \<Rightarrow> Some (Inl MSF2_ERR_ARGUMENT)
      | Some p \<Rightarrow>
          do { start \<leftarrow> read_u32 (vw_data view) p; stop \<leftarrow> read_u32 (vw_data view) (p + 4);
               loop_start \<leftarrow> read_u32 (vw_data view) (p + 8); loop_end \<leftarrow> read_u32 (vw_data view) (p + 12);
               sample_rate \<leftarrow> read_u32 (vw_data view) (p + 16); original_pitch \<leftarrow> byte_at (vw_data view) (p + 20);
               pitch_correction \<leftarrow> byte_at (vw_data view) (p + 21);
               Some (Inr \<lparr> sa_start = start, sa_end = stop, sa_loop_start = loop_start, sa_loop_end = loop_end,
                 sa_sample_rate = sample_rate, sa_original_pitch = original_pitch,
                 sa_pitch_correction = sint pitch_correction \<rparr>) })"

section \<open>Validation\<close>

text \<open>A loop that stops with an error at the first index whose check fails.\<close>

fun check_each :: "(nat \<Rightarrow> (msf2_result + unit) option) \<Rightarrow> nat list \<Rightarrow> (msf2_result + unit) option" where
  "check_each f [] = Some (Inr ())"
| "check_each f (i # is) =
     do { r \<leftarrow> f i; case r of Inl e \<Rightarrow> Some (Inl e) | Inr u \<Rightarrow> check_each f is }"

definition require :: "msf2_result \<Rightarrow> bool \<Rightarrow> (msf2_result + unit) option" where
  "require e ok = Some (if ok then Inr () else Inl e)"

text \<open>One check after the other.\<close>

definition check_then :: "(msf2_result + unit) option \<Rightarrow> (msf2_result + 'a) option \<Rightarrow> (msf2_result + 'a) option" where
  "check_then a b = do { r \<leftarrow> a; case r of Inl e \<Rightarrow> Some (Inl e) | Inr u \<Rightarrow> b }"

definition section_strides :: "u32 list" where
  "section_strides = [12, 20, 2, 22, 3, 12, 12]"

definition directory_entry :: "u8 list \<Rightarrow> nat \<Rightarrow> nat \<Rightarrow> (msf2_result + msf2_section_view) option" where
  "directory_entry d index previous_end =
     (let entry = MSF2_DIRECTORY_OFFSET + index * MSF2_DIRECTORY_ENTRY_SIZE
      in do { offset \<leftarrow> read_u32 d (entry + 4); count \<leftarrow> read_u32 d (entry + 8); stride \<leftarrow> read_u32 d (entry + 12);
              kind \<leftarrow> read_u16 d entry; version \<leftarrow> read_u16 d (entry + 2);
              let stop = unat offset + unat count * unat stride;
              if unat kind \<noteq> index + 1 \<or> version \<noteq> 1 \<or> stride \<noteq> section_strides ! index \<or> offset AND 3 \<noteq> 0 \<or>
                 unat offset < previous_end \<or> stop > length d
              then Some (Inl MSF2_ERR_DIRECTORY)
              else Some (Inr \<lparr> sv_data = unat offset, sv_count = count, sv_stride = stride \<rparr>) })"

fun directory_entries :: "u8 list \<Rightarrow> nat list \<Rightarrow> nat \<Rightarrow> (msf2_result + msf2_section_view list) option" where
  "directory_entries d [] previous_end = Some (Inr [])"
| "directory_entries d (index # is) previous_end =
     do { r \<leftarrow> directory_entry d index previous_end;
          case r of
            Inl e \<Rightarrow> Some (Inl e)
          | Inr sv \<Rightarrow>
              do { rest \<leftarrow> directory_entries d is (sv_data sv + unat (sv_count sv) * unat (sv_stride sv));
                   case rest of Inl e \<Rightarrow> Some (Inl e) | Inr svs \<Rightarrow> Some (Inr (sv # svs)) } }"

definition check_preset :: "msf2_view \<Rightarrow> nat \<Rightarrow> (msf2_result + unit) option" where
  "check_preset view index =
     do { r \<leftarrow> msf2_get_preset view (of_nat index);
          case r of
            Inl e \<Rightarrow> None
          | Inr preset \<Rightarrow>
              require MSF2_ERR_RECORD
                (\<not> (pr_program preset > 127 \<or> pr_bank preset > 16383 \<or>
                    \<not> range_fits (pr_first_zone preset) (pr_zone_count preset) (section_count view 1))) }"

definition valid_presence :: u64 where
  "valid_presence =
     (push_bit 61 1 - 1) AND NOT (push_bit 43 1) AND NOT (push_bit 44 1) AND NOT (push_bit 53 1)"

definition check_zone :: "msf2_view \<Rightarrow> nat \<Rightarrow> (msf2_result + unit) option" where
  "check_zone view index =
     do { r \<leftarrow> msf2_get_zone view (of_nat index);
          case r of
            Inl e \<Rightarrow> None
          | Inr zone \<Rightarrow>
              require MSF2_ERR_RECORD
                (\<not> (zn_key_low zone > zn_key_high zone \<or> zn_key_high zone > 127 \<or>
                    zn_velocity_low zone > zn_velocity_high zone \<or> zn_velocity_high zone > 127 \<or>
                    unat (zn_generator_count zone) > MSF2_GENERATOR_COUNT \<or>
                    ucast (zn_sample_index zone) \<ge> section_count view 3 \<or>
                    zn_generator_presence zone AND NOT valid_presence \<noteq> 0 \<or>
                    popcount64 (zn_generator_presence zone) \<noteq> unat (zn_generator_count zone) \<or>
                    \<not> range_fits (zn_first_generator zone) (ucast (zn_generator_count zone)) (section_count view 2))) }"

definition check_sample :: "msf2_view \<Rightarrow> nat \<Rightarrow> (msf2_result + unit) option" where
  "check_sample view index =
     do { r \<leftarrow> msf2_get_sample view (of_nat index);
          case r of
            Inl e \<Rightarrow> None
          | Inr sample \<Rightarrow>
              require MSF2_ERR_RECORD
                (\<not> (sa_start sample > sa_end sample \<or> sa_end sample > vw_sample_word_count view \<or>
                    sa_loop_start sample < sa_start sample \<or> sa_loop_start sample > sa_loop_end sample \<or>
                    sa_loop_end sample > sa_end sample \<or> sa_sample_rate sample = 0)) }"

definition check_reference :: "msf2_view \<Rightarrow> nat \<Rightarrow> nat \<Rightarrow> (msf2_result + unit) option" where
  "check_reference view refs family =
     do { r \<leftarrow> byte_at (vw_data view) (refs + family);
          require MSF2_ERR_RECORD (\<not> (r \<noteq> 0xff \<and> ucast r \<ge> section_count view 5)) }"

definition check_references :: "msf2_view \<Rightarrow> nat \<Rightarrow> (msf2_result + unit) option" where
  "check_references view index =
     do { refs \<leftarrow> record_at view 4 (of_nat index); check_each (check_reference view refs) [0..<3] }"

text \<open>The terms of a program: their dependencies are checked one by one and collected.\<close>

fun check_terms :: "msf2_view \<Rightarrow> u32 \<Rightarrow> u16 \<Rightarrow> u8 \<Rightarrow> nat list \<Rightarrow> u16 \<Rightarrow> (msf2_result + u16) option" where
  "check_terms view first note_count family [] observed_or = Some (Inr observed_or)"
| "check_terms view first note_count family (local # ls) observed_or =
     do { term \<leftarrow> record_at view 6 (first + of_nat local);
          dependencies \<leftarrow> read_u16 (vw_data view) (term + 10);
          source \<leftarrow> read_u16 (vw_data view) term;
          amount_source \<leftarrow> read_u16 (vw_data view) (term + 6);
          destination \<leftarrow> read_u16 (vw_data view) (term + 2);
          transform \<leftarrow> read_u16 (vw_data view) (term + 8);
          let calculated = source_dependencies source OR source_dependencies amount_source;
          if \<not> destination_matches destination family \<or> (transform \<noteq> 0 \<and> transform \<noteq> 2) \<or> dependencies \<noteq> calculated \<or>
             (local < unat note_count \<and> dependencies AND NOT 0x0001 \<noteq> 0)
          then Some (Inl MSF2_ERR_RECORD)
          else check_terms view first note_count family ls (observed_or OR dependencies) }"

definition check_program :: "msf2_view \<Rightarrow> nat \<Rightarrow> (msf2_result + unit) option" where
  "check_program view index =
     do { program \<leftarrow> record_at view 5 (of_nat index);
          first \<leftarrow> read_u32 (vw_data view) program;
          count \<leftarrow> read_u16 (vw_data view) (program + 4);
          note_count \<leftarrow> read_u16 (vw_data view) (program + 6);
          expected_or \<leftarrow> read_u16 (vw_data view) (program + 8);
          family \<leftarrow> byte_at (vw_data view) (program + 10);
          reserved \<leftarrow> byte_at (vw_data view) (program + 11);
          if family > 2 \<or> reserved \<noteq> 0 \<or> note_count > count \<or> expected_or AND NOT MSF2_VALID_DEPENDENCIES \<noteq> 0 \<or>
             \<not> range_fits first (ucast count) (section_count view 6)
          then Some (Inl MSF2_ERR_RECORD)
          else do { r \<leftarrow> check_terms view first note_count family [0..<unat count] 0;
                    case r of Inl e \<Rightarrow> Some (Inl e)
                    | Inr observed_or \<Rightarrow> require MSF2_ERR_RECORD (observed_or = expected_or) } }"

definition check_records :: "msf2_view \<Rightarrow> (msf2_result + unit) option" where
  "check_records view =
     (let count = (\<lambda>s. unat (section_count view s))
      in check_then (check_each (check_preset view) [0..<count 0])
        (check_then (check_each (check_zone view) [0..<count 1])
          (check_then (check_each (check_sample view) [0..<count 3])
            (check_then (check_each (check_references view) [0..<count 4])
              (check_each (check_program view) [0..<count 5])))))"

text \<open>The signature and the fixed fields of the header.\<close>

definition check_signature :: "u8 list \<Rightarrow> (msf2_result + unit) option" where
  "check_signature d =
     do { a \<leftarrow> byte_at d 0; b \<leftarrow> byte_at d 1; c \<leftarrow> byte_at d 2; e \<leftarrow> byte_at d 3;
          version \<leftarrow> read_u16 d 4; header_size \<leftarrow> read_u16 d 6; image_size \<leftarrow> read_u32 d 8;
          require MSF2_ERR_HEADER
            (\<not> (a \<noteq> 0x4d \<or> b \<noteq> 0x53 \<or> c \<noteq> 0x46 \<or> e \<noteq> 0x32 \<or> version \<noteq> 2 \<or>
                unat header_size \<noteq> MSF2_HEADER_SIZE \<or> unat image_size \<noteq> length d)) }"

definition check_profile :: "u8 list \<Rightarrow> (msf2_result + unit) option" where
  "check_profile d =
     do { flags \<leftarrow> read_u32 d 12; rate \<leftarrow> read_u32 d 16; tick \<leftarrow> read_u32 d 20; profile \<leftarrow> read_u32 d 56;
          require MSF2_ERR_PROFILE
            (\<not> (flags \<noteq> 0 \<or> rate \<noteq> MSF2_SAMPLE_RATE \<or> tick \<noteq> MSF2_CONTROL_TICK_SAMPLES \<or> profile \<noteq> MSF2_PROFILE_CRC32)) }"

definition check_crc :: "u8 list \<Rightarrow> (msf2_result + unit) option" where
  "check_crc d = do { crc \<leftarrow> read_u32 d 36; require MSF2_ERR_CRC (crc = crc32_image d) }"

definition check_directory :: "u8 list \<Rightarrow> (msf2_result + unit) option" where
  "check_directory d =
     do { offset \<leftarrow> read_u32 d 40; count \<leftarrow> read_u16 d 44; version \<leftarrow> read_u32 d 60;
          require MSF2_ERR_DIRECTORY
            (\<not> (unat offset \<noteq> MSF2_DIRECTORY_OFFSET \<or> unat count \<noteq> MSF2_SECTION_COUNT \<or> version \<noteq> 1 \<or>
                length d < MSF2_DIRECTORY_OFFSET + MSF2_SECTION_COUNT * MSF2_DIRECTORY_ENTRY_SIZE)) }"

definition check_sections :: "u8 list \<Rightarrow> msf2_view \<Rightarrow> (msf2_result + unit) option" where
  "check_sections d view =
     do { preset_count \<leftarrow> read_u32 d 68;
          require MSF2_ERR_RECORD
            (\<not> (preset_count \<noteq> section_count view 0 \<or> section_count view 4 \<noteq> section_count view 1)) }"

definition msf2_view_init :: "u8 list \<Rightarrow> (msf2_result + msf2_view) option" where
  "msf2_view_init d =
     (if length d < MSF2_HEADER_SIZE then Some (Inl MSF2_ERR_HEADER)
      else
        check_then (check_signature d) (check_then (check_profile d) (check_then (check_crc d) (check_then (check_directory d)
          (do { source_size \<leftarrow> read_u64 d 24; source_crc \<leftarrow> read_u32 d 32; word_offset \<leftarrow> read_u32 d 48;
                word_count \<leftarrow> read_u32 d 52; selection_crc \<leftarrow> read_u32 d 64;
                if (unat word_offset + unat word_count) * 2 > unat source_size then Some (Inl MSF2_ERR_RECORD)
                else do { entries \<leftarrow> directory_entries d [0..<MSF2_SECTION_COUNT]
                                      (MSF2_HEADER_SIZE + MSF2_SECTION_COUNT * MSF2_DIRECTORY_ENTRY_SIZE);
                          case entries of
                            Inl e \<Rightarrow> Some (Inl e)
                          | Inr sections \<Rightarrow>
                              (let view = \<lparr> vw_data = d, vw_sections = sections, vw_source_size_bytes = source_size,
                                    vw_source_crc32 = source_crc, vw_sample_word_offset = word_offset,
                                    vw_sample_word_count = word_count, vw_selection_crc32 = selection_crc \<rparr>
                               in check_then (check_sections d view) (check_then (check_records view) (Some (Inr view)))) } })))))"

section \<open>Lookup\<close>

fun find_preset_loop :: "msf2_view \<Rightarrow> u16 \<Rightarrow> u16 \<Rightarrow> nat list \<Rightarrow> int option" where
  "find_preset_loop view program bank [] = Some (- 1)"
| "find_preset_loop view program bank (index # is) =
     do { r \<leftarrow> msf2_get_preset view (of_nat index);
          case r of
            Inl e \<Rightarrow> Some (- 1)
          | Inr preset \<Rightarrow>
              if pr_program preset = program \<and> pr_bank preset = bank then Some (i32 (int index))
              else find_preset_loop view program bank is }"

definition msf2_find_preset :: "msf2_view \<Rightarrow> u16 \<Rightarrow> u16 \<Rightarrow> int option" where
  "msf2_find_preset view program bank =
     (if program > 127 \<or> bank > 16383 then Some (- 1)
      else find_preset_loop view program bank [0..<unat (section_count view 0)])"

fun collect_loop :: "msf2_view \<Rightarrow> u32 \<Rightarrow> u8 \<Rightarrow> u8 \<Rightarrow> nat list \<Rightarrow> u32 list \<Rightarrow> (msf2_result + u32 list) option" where
  "collect_loop view first_zone key velocity [] layers = Some (Inr layers)"
| "collect_loop view first_zone key velocity (local # ls) layers =
     (let index = first_zone + of_nat local
      in do { r \<leftarrow> msf2_get_zone view index;
              case r of
                Inl e \<Rightarrow> Some (Inl e)
              | Inr zone \<Rightarrow>
                  if key < zn_key_low zone \<or> key > zn_key_high zone \<or> velocity < zn_velocity_low zone \<or>
                     velocity > zn_velocity_high zone
                  then collect_loop view first_zone key velocity ls layers
                  else if length layers = MSF2_MAX_LAYERS then Some (Inl MSF2_ERR_CAPACITY)
                  else collect_loop view first_zone key velocity ls (layers @ [index]) })"

definition msf2_collect_layers :: "msf2_view \<Rightarrow> u32 \<Rightarrow> u8 \<Rightarrow> u8 \<Rightarrow> (msf2_result + u32 list) option" where
  "msf2_collect_layers view preset_index key velocity =
     (if key > 127 \<or> velocity > 127 then Some (Inl MSF2_ERR_ARGUMENT)
      else do { r \<leftarrow> msf2_get_preset view preset_index;
                case r of
                  Inl e \<Rightarrow> Some (Inl MSF2_ERR_ARGUMENT)
                | Inr preset \<Rightarrow>
                    collect_loop view (pr_first_zone preset) key velocity [0..<unat (pr_zone_count preset)] [] })"

fun decode_loop :: "msf2_view \<Rightarrow> msf2_zone \<Rightarrow> nat list \<Rightarrow> u32 \<Rightarrow> u16 list \<Rightarrow> u16 list option" where
  "decode_loop view zone [] amount_index amounts = Some amounts"
| "decode_loop view zone (oper # os) amount_index amounts =
     (if zn_generator_presence zone AND push_bit oper 1 = 0 then decode_loop view zone os amount_index amounts
      else do { p \<leftarrow> record_at view 2 (zn_first_generator zone + amount_index);
                amount \<leftarrow> read_u16 (vw_data view) p;
                decode_loop view zone os (amount_index + 1) (amounts[oper := amount]) })"

definition msf2_decode_generators :: "msf2_view \<Rightarrow> u32 \<Rightarrow> (msf2_result + u16 list \<times> u64) option" where
  "msf2_decode_generators view zone_index =
     do { r \<leftarrow> msf2_get_zone view zone_index;
          case r of
            Inl e \<Rightarrow> Some (Inl MSF2_ERR_ARGUMENT)
          | Inr zone \<Rightarrow>
              do { amounts \<leftarrow> decode_loop view zone [0..<MSF2_GENERATOR_COUNT] 0 (replicate MSF2_GENERATOR_COUNT 0);
                   Some (Inr (amounts, zn_generator_presence zone)) } }"

section \<open>Reads inside the image\<close>

lemma byte_at_eq: "byte_at d p = (if p + 1 \<le> length d then Some (d ! p) else None)"
  by (simp add: byte_at_def)

definition u16_at :: "u8 list \<Rightarrow> nat \<Rightarrow> u16" where
  "u16_at d p = ucast (d ! p) OR push_bit 8 (ucast (d ! (p + 1)))"

definition u32_at :: "u8 list \<Rightarrow> nat \<Rightarrow> u32" where
  "u32_at d p = ucast (d ! p) OR push_bit 8 (ucast (d ! (p + 1))) OR push_bit 16 (ucast (d ! (p + 2))) OR
     push_bit 24 (ucast (d ! (p + 3)))"

definition u64_at :: "u8 list \<Rightarrow> nat \<Rightarrow> u64" where
  "u64_at d p = ucast (u32_at d p) OR push_bit 32 (ucast (u32_at d (p + 4)))"

lemma read_u16_eq: "read_u16 d p = (if p + 2 \<le> length d then Some (u16_at d p) else None)"
  by (simp add: read_u16_def byte_at_def u16_at_def)

lemma read_u32_eq: "read_u32 d p = (if p + 4 \<le> length d then Some (u32_at d p) else None)"
  by (auto simp: read_u32_def byte_at_def u32_at_def)

lemma read_u64_eq: "read_u64 d p = (if p + 8 \<le> length d then Some (u64_at d p) else None)"
  by (simp add: read_u64_def read_u32_eq u64_at_def)

lemmas reads_eq = byte_at_eq read_u16_eq read_u32_eq read_u64_eq

text \<open>A section whose records lie inside the image and have the size the code expects.\<close>

definition section_ok :: "msf2_view \<Rightarrow> nat \<Rightarrow> bool" where
  "section_ok view s \<longleftrightarrow> s < MSF2_SECTION_COUNT \<and> sv_stride (section_at view s) = section_strides ! s \<and>
     sv_data (section_at view s) + unat (section_count view s) * unat (section_strides ! s) \<le> length (vw_data view)"

lemma record_inside:
  assumes "section_ok view s" and "index < section_count view s"
  obtains p where "record_at view s index = Some p" and "p + unat (section_strides ! s) \<le> length (vw_data view)"
proof -
  have "unat index < unat (section_count view s)" using assms(2) by (simp add: word_less_nat_alt)
  then have "unat index * unat (section_strides ! s) + unat (section_strides ! s) \<le>
      unat (section_count view s) * unat (section_strides ! s)"
    by (metis Suc_leI mult_Suc mult_le_mono1 add.commute)
  then show ?thesis using that assms by (simp add: record_at_def section_ok_def not_le)
qed

lemma section_strides_simps [simp]:
  "section_strides ! 0 = 12" "section_strides ! 1 = 20" "section_strides ! Suc 0 = 20" "section_strides ! 2 = 2" "section_strides ! 3 = 22"
  "section_strides ! 4 = 3" "section_strides ! 5 = 12" "section_strides ! 6 = 12"
  by (simp_all add: section_strides_def)

lemma record_null: "index \<ge> section_count view s \<Longrightarrow> record_at view s index = None"
  by (simp add: record_at_def)

text \<open>Every record of such a section can be read; other indices are refused.\<close>

lemma get_preset_total:
  assumes "section_ok view 0"
  shows "\<exists>x. msf2_get_preset view index = Some (if index < section_count view 0 then Inr x else Inl MSF2_ERR_ARGUMENT)"
proof (cases "index < section_count view 0")
  case True
  then obtain p where "record_at view 0 index = Some p" "p + 12 \<le> length (vw_data view)"
    using record_inside [OF assms] by auto
  then show ?thesis using True by (simp add: msf2_get_preset_def reads_eq)
qed (simp add: msf2_get_preset_def record_null not_less)

lemma get_zone_total:
  assumes "section_ok view 1"
  shows "\<exists>x. msf2_get_zone view index = Some (if index < section_count view 1 then Inr x else Inl MSF2_ERR_ARGUMENT)"
proof (cases "index < section_count view 1")
  case True
  then obtain p where "record_at view 1 index = Some p" "p + 20 \<le> length (vw_data view)"
    using record_inside [OF assms] by auto
  then show ?thesis using True by (simp add: msf2_get_zone_def reads_eq)
qed (simp add: msf2_get_zone_def record_null not_less)

lemma get_sample_total:
  assumes "section_ok view 3"
  shows "\<exists>x. msf2_get_sample view index = Some (if index < section_count view 3 then Inr x else Inl MSF2_ERR_ARGUMENT)"
proof (cases "index < section_count view 3")
  case True
  then obtain p where "record_at view 3 index = Some p" "p + 22 \<le> length (vw_data view)"
    using record_inside [OF assms] by auto
  then show ?thesis using True by (simp add: msf2_get_sample_def reads_eq)
qed (simp add: msf2_get_sample_def record_null not_less)

section \<open>Computations that never fault\<close>

definition defined :: "'a option \<Rightarrow> bool" where
  "defined x \<longleftrightarrow> x \<noteq> None"

lemma defined_simps [simp]: "defined (Some x)" "\<not> defined None"
  by (simp_all add: defined_def)

lemma defined_bind: "defined a \<Longrightarrow> (\<And>x. a = Some x \<Longrightarrow> defined (f x)) \<Longrightarrow> defined (a \<bind> f)"
  by (cases a) (simp_all add: defined_def)

lemma defined_case_sum:
  "(\<And>e. r = Inl e \<Longrightarrow> defined (f e)) \<Longrightarrow> (\<And>x. r = Inr x \<Longrightarrow> defined (g x)) \<Longrightarrow> defined (case r of Inl e \<Rightarrow> f e | Inr x \<Rightarrow> g x)"
  by (cases r) simp_all

lemma defined_if: "(b \<Longrightarrow> defined x) \<Longrightarrow> (\<not> b \<Longrightarrow> defined y) \<Longrightarrow> defined (if b then x else y)"
  by simp

lemma defined_obtain: "defined a \<Longrightarrow> (\<And>x. a = Some x \<Longrightarrow> P) \<Longrightarrow> P"
  by (auto simp: defined_def)

lemma case_sum_ok: "(case r of Inl e \<Rightarrow> Some (Inl e) | Inr x \<Rightarrow> f x) = Some (Inr y) \<longleftrightarrow> (\<exists>x. r = Inr x \<and> f x = Some (Inr y))"
  by (cases r) simp_all

lemmas definedI = defined_bind defined_case_sum defined_if

lemma reads_defined:
  "p + 1 \<le> length d \<Longrightarrow> defined (byte_at d p)" "p + 2 \<le> length d \<Longrightarrow> defined (read_u16 d p)"
  "p + 4 \<le> length d \<Longrightarrow> defined (read_u32 d p)" "p + 8 \<le> length d \<Longrightarrow> defined (read_u64 d p)"
  by (simp_all add: reads_eq)

section \<open>Validation never reads outside the image\<close>

lemma check_each_total: "(\<And>i. i \<in> set is \<Longrightarrow> defined (f i)) \<Longrightarrow> defined (check_each f is)"
  by (induction "is") (auto intro!: definedI)

lemma check_each_ok: "check_each f is = Some (Inr ()) \<longleftrightarrow> (\<forall>i\<in>set is. f i = Some (Inr ()))"
proof (induction "is")
  case (Cons i "is")
  then show ?case by (cases "f i") (auto split: sum.splits)
qed simp

lemma check_then_total: "defined a \<Longrightarrow> (a = Some (Inr ()) \<Longrightarrow> defined b) \<Longrightarrow> defined (check_then a b)"
  by (auto simp: check_then_def intro!: definedI)

lemma check_then_ok: "check_then a b = Some (Inr x) \<longleftrightarrow> a = Some (Inr ()) \<and> b = Some (Inr x)"
  by (cases a) (auto simp: check_then_def split: sum.splits)

lemma require_simps [simp]: "defined (require e ok)" "require e ok = Some (Inr ()) \<longleftrightarrow> ok"
  by (simp_all add: require_def)

lemma of_nat_below: "i < unat n \<Longrightarrow> of_nat i < (n :: u32)"
  using unat_bounds(3) [of n] by (simp add: word_less_nat_alt unat_of_nat)

lemma range_fits_less:
  assumes "range_fits first count tot" and "k < unat count"
  shows "first + of_nat k < tot" and "unat (first + of_nat k) = unat first + k"
proof -
  have f: "unat first \<le> unat tot" using assms(1) by (simp add: range_fits_def word_le_nat_alt)
  have "unat count \<le> unat (tot - first)" using assms(1) by (simp add: range_fits_def word_le_nat_alt)
  also have "\<dots> = unat tot - unat first" using assms(1) by (intro unat_sub) (simp add: range_fits_def)
  finally have b: "unat first + k < unat tot" using assms(2) f by linarith
  then show u: "unat (first + of_nat k) = unat first + k"
    using unat_bounds(3) [of tot] by (simp add: unat_word_ariths(1) unat_of_nat)
  then show "first + of_nat k < tot" using b by (simp add: word_less_nat_alt)
qed

definition sections_ok :: "msf2_view \<Rightarrow> bool" where
  "sections_ok view \<longleftrightarrow> (\<forall>s < 7. section_ok view s)"

lemma sections_okD: "sections_ok view \<Longrightarrow> s < 7 \<Longrightarrow> section_ok view s"
  by (simp add: sections_ok_def)

lemma check_preset_total: "sections_ok view \<Longrightarrow> i < unat (section_count view 0) \<Longrightarrow> defined (check_preset view i)"
  using get_preset_total [OF sections_okD, of view "of_nat i"] of_nat_below [of i "section_count view 0"]
  by (auto simp: check_preset_def intro!: definedI)

lemma check_zone_total: "sections_ok view \<Longrightarrow> i < unat (section_count view 1) \<Longrightarrow> defined (check_zone view i)"
  using get_zone_total [OF sections_okD, of view "of_nat i"] of_nat_below [of i "section_count view 1"]
  by (auto simp: check_zone_def intro!: definedI)

lemma check_sample_total: "sections_ok view \<Longrightarrow> i < unat (section_count view 3) \<Longrightarrow> defined (check_sample view i)"
  using get_sample_total [OF sections_okD, of view "of_nat i"] of_nat_below [of i "section_count view 3"]
  by (auto simp: check_sample_def intro!: definedI)

lemma check_references_total:
  assumes "sections_ok view" and "i < unat (section_count view 4)"
  shows "defined (check_references view i)"
proof -
  obtain p where p: "record_at view 4 (of_nat i) = Some p" "p + 3 \<le> length (vw_data view)"
    using record_inside [OF sections_okD [OF assms(1)], of 4 "of_nat i"] of_nat_below [OF assms(2)] by auto
  have "defined (check_each (check_reference view p) [0..<3])"
    using p(2) by (intro check_each_total) (simp add: check_reference_def reads_eq)
  then show ?thesis by (simp add: check_references_def p(1))
qed

lemma check_terms_total:
  assumes "sections_ok view" and "range_fits first count (section_count view 6)" and "set ls \<subseteq> {..<unat count}"
  shows "defined (check_terms view first note_count family ls observed)"
  using assms(3)
proof (induction ls arbitrary: observed)
  case (Cons l ls)
  have "first + of_nat l < section_count view 6" using range_fits_less(1) [OF assms(2)] Cons.prems by simp
  then obtain p where p: "record_at view 6 (first + of_nat l) = Some p" "p + 12 \<le> length (vw_data view)"
    using record_inside [OF sections_okD [OF assms(1)], of 6] by auto
  then show ?case using Cons by (simp add: reads_eq Let_def)
qed simp

lemma check_program_total:
  assumes "sections_ok view" and "i < unat (section_count view 5)"
  shows "defined (check_program view i)"
proof -
  obtain p where p: "record_at view 5 (of_nat i) = Some p" "p + 12 \<le> length (vw_data view)"
    using record_inside [OF sections_okD [OF assms(1)], of 5 "of_nat i"] of_nat_below [OF assms(2)] by auto
  have c: "unat (ucast c :: u32) = unat c" for c :: u16
    using unat_bounds(2) [of c] by (simp add: unsigned_ucast_eq take_bit_nat_eq_self)
  have "defined (check_terms view f n fam [0..<unat c] 0)" if "range_fits f (ucast c) (section_count view 6)" for f n fam and c :: u16
    using check_terms_total [OF assms(1) that] by (simp add: c lessThan_atLeast0)
  then show ?thesis using p by (auto simp: check_program_def reads_eq intro!: definedI)
qed

lemma check_records_total: "sections_ok view \<Longrightarrow> defined (check_records view)"
  unfolding check_records_def Let_def
  by (intro check_then_total check_each_total)
    (simp_all add: check_preset_total check_zone_total check_sample_total check_references_total check_program_total)

lemma directory_entries_total:
  assumes "208 \<le> length d" and "set is \<subseteq> {..<7}"
  shows "defined (directory_entries d is previous)"
  using assms(2)
proof (induction "is" arbitrary: previous)
  case (Cons i "is")
  have e: "defined (directory_entry d i previous)"
    using assms(1) Cons.prems by (auto simp: directory_entry_def reads_eq MSF2_DIRECTORY_OFFSET_def MSF2_DIRECTORY_ENTRY_SIZE_def Let_def)
  then show ?case using Cons by (auto intro!: definedI)
qed simp

lemma directory_entries_ok:
  assumes "directory_entries d is previous = Some (Inr svs)"
  shows "length svs = length is \<and> (\<forall>k < length is. sv_stride (svs ! k) = section_strides ! (is ! k) \<and>
    sv_data (svs ! k) + unat (sv_count (svs ! k)) * unat (sv_stride (svs ! k)) \<le> length d)"
  using assms
proof (induction "is" arbitrary: previous svs)
  case (Cons i "is")
  obtain sv where sv: "directory_entry d i previous = Some (Inr sv)"
    using Cons.prems by (cases "directory_entry d i previous") (auto split: sum.splits)
  then obtain rest where rest: "directory_entries d is (sv_data sv + unat (sv_count sv) * unat (sv_stride sv)) = Some (Inr rest)"
      "svs = sv # rest"
    using Cons.prems by (auto split: sum.splits option.splits bind_splits)
  have "sv_stride sv = section_strides ! i \<and> sv_data sv + unat (sv_count sv) * unat (sv_stride sv) \<le> length d"
    using sv by (auto simp: directory_entry_def reads_eq Let_def split: if_splits)
  then show ?case using Cons.IH [OF rest(1)] rest(2) by (auto simp: less_Suc_eq_0_disj)
qed simp

lemma header_checks_total:
  assumes "96 \<le> length d"
  shows "defined (check_signature d)" "defined (check_profile d)" "defined (check_crc d)" "defined (check_directory d)"
    "defined (check_sections d view)"
  using assms by (simp_all add: check_signature_def check_profile_def check_crc_def check_directory_def check_sections_def reads_eq)

lemma check_directory_size: "check_directory d = Some (Inr ()) \<Longrightarrow> 208 \<le> length d"
  by (auto simp: check_directory_def reads_eq MSF2_DIRECTORY_OFFSET_def MSF2_SECTION_COUNT_def MSF2_DIRECTORY_ENTRY_SIZE_def
      split: if_splits)

lemma check_signature_size: "check_signature d = Some (Inr ()) \<Longrightarrow> length d < 2 ^ 32"
  using unat_bounds(3) [of "u32_at d 8"] by (auto simp: check_signature_def reads_eq split: if_splits)

lemma sections_from_directory:
  assumes "directory_entries d [0..<MSF2_SECTION_COUNT] previous = Some (Inr svs)" and "vw_data view = d" and "vw_sections view = svs"
  shows "sections_ok view"
  using directory_entries_ok [OF assms(1)] assms(2,3)
  by (auto simp: sections_ok_def section_ok_def section_at_def section_count_def MSF2_SECTION_COUNT_def)

text \<open>What validation establishes.\<close>

definition image_ok :: "msf2_view \<Rightarrow> bool" where
  "image_ok view \<longleftrightarrow> length (vw_data view) < 2 ^ 32 \<and> sections_ok view \<and> section_count view 4 = section_count view 1 \<and>
     check_records view = Some (Inr ())"

lemma view_init_total: "defined (msf2_view_init d)"
proof (cases "length d < 96")
  case False
  then show ?thesis
    by (auto simp: msf2_view_init_def MSF2_HEADER_SIZE_def reads_eq Let_def
        intro!: check_then_total header_checks_total definedI directory_entries_total check_records_total
        dest: check_directory_size intro: sections_from_directory)
      (auto simp: MSF2_SECTION_COUNT_def)
qed (simp add: msf2_view_init_def MSF2_HEADER_SIZE_def)

lemma view_init_ok:
  assumes "msf2_view_init d = Some (Inr view)"
  shows "image_ok view \<and> vw_data view = d"
proof -
  have big: "\<not> length d < 96" using assms by (auto simp: msf2_view_init_def MSF2_HEADER_SIZE_def)
  then have checked: "check_signature d = Some (Inr ())"
    using assms by (simp add: msf2_view_init_def MSF2_HEADER_SIZE_def check_then_ok)
  obtain previous svs where e: "directory_entries d [0..<MSF2_SECTION_COUNT] previous = Some (Inr svs)"
      "vw_data view = d" "vw_sections view = svs" "check_sections d view = Some (Inr ())" "check_records view = Some (Inr ())"
    using assms big
    by (auto simp: msf2_view_init_def MSF2_HEADER_SIZE_def check_then_ok reads_eq Let_def bind_eq_Some_conv case_sum_ok split: if_splits)
  then show ?thesis
    using sections_from_directory [OF e(1-3)] check_signature_size [OF checked] big
    by (simp add: image_ok_def check_sections_def reads_eq)
qed

section \<open>What an accepted image guarantees\<close>

lemma image_okD:
  assumes "image_ok view"
  shows "sections_ok view" "section_ok view 0" "section_ok view 1" "section_ok view 2" "section_ok view 3" "section_ok view 4"
    "section_ok view 5" "section_ok view 6" "section_count view 4 = section_count view 1"
  using assms by (simp_all add: image_ok_def sections_ok_def)

lemma records_checked:
  assumes "image_ok view"
  shows "i < unat (section_count view 0) \<Longrightarrow> check_preset view i = Some (Inr ())"
    "i < unat (section_count view 1) \<Longrightarrow> check_zone view i = Some (Inr ())"
    "i < unat (section_count view 3) \<Longrightarrow> check_sample view i = Some (Inr ())"
    "i < unat (section_count view 4) \<Longrightarrow> check_references view i = Some (Inr ())"
    "i < unat (section_count view 5) \<Longrightarrow> check_program view i = Some (Inr ())"
  using assms by (auto simp: image_ok_def check_records_def check_then_ok check_each_ok Let_def)

lemma valid_preset:
  assumes "image_ok view" and "index < section_count view 0"
  obtains preset where "msf2_get_preset view index = Some (Inr preset)"
    and "range_fits (pr_first_zone preset) (pr_zone_count preset) (section_count view 1)"
proof -
  obtain preset where p: "msf2_get_preset view index = Some (Inr preset)"
    using get_preset_total [OF image_okD(2) [OF assms(1)], of index] assms(2) by auto
  have "check_preset view (unat index) = Some (Inr ())"
    using records_checked(1) [OF assms(1), of "unat index"] assms(2) by (simp add: word_less_nat_alt)
  then show ?thesis using that [OF p] p by (simp add: check_preset_def)
qed

definition zone_ok :: "msf2_view \<Rightarrow> msf2_zone \<Rightarrow> bool" where
  "zone_ok view zone \<longleftrightarrow> zn_key_low zone \<le> zn_key_high zone \<and> zn_key_high zone \<le> 127 \<and>
     zn_velocity_low zone \<le> zn_velocity_high zone \<and> zn_velocity_high zone \<le> 127 \<and>
     ucast (zn_sample_index zone) < section_count view 3 \<and>
     popcount64 (zn_generator_presence zone) = unat (zn_generator_count zone) \<and>
     range_fits (zn_first_generator zone) (ucast (zn_generator_count zone)) (section_count view 2)"

lemma valid_zone:
  assumes "image_ok view" and "index < section_count view 1"
  obtains zone where "msf2_get_zone view index = Some (Inr zone)" and "zone_ok view zone"
proof -
  obtain zone where z: "msf2_get_zone view index = Some (Inr zone)"
    using get_zone_total [OF image_okD(3) [OF assms(1)], of index] assms(2) by auto
  have "check_zone view (unat index) = Some (Inr ())"
    using records_checked(2) [OF assms(1), of "unat index"] assms(2) by (simp add: word_less_nat_alt)
  then show ?thesis using that [OF z] z by (simp add: check_zone_def zone_ok_def not_less not_le)
qed

definition sample_ok :: "msf2_view \<Rightarrow> msf2_sample \<Rightarrow> bool" where
  "sample_ok view sample \<longleftrightarrow> sa_start sample \<le> sa_end sample \<and> sa_end sample \<le> vw_sample_word_count view \<and>
     sa_start sample \<le> sa_loop_start sample \<and> sa_loop_start sample \<le> sa_loop_end sample \<and>
     sa_loop_end sample \<le> sa_end sample \<and> sa_sample_rate sample \<noteq> 0"

lemma valid_sample:
  assumes "image_ok view" and "index < section_count view 3"
  obtains sample where "msf2_get_sample view index = Some (Inr sample)" and "sample_ok view sample"
proof -
  obtain sample where s: "msf2_get_sample view index = Some (Inr sample)"
    using get_sample_total [OF image_okD(5) [OF assms(1)], of index] assms(2) by auto
  have "check_sample view (unat index) = Some (Inr ())"
    using records_checked(3) [OF assms(1), of "unat index"] assms(2) by (simp add: word_less_nat_alt)
  then show ?thesis using that [OF s] s by (simp add: check_sample_def sample_ok_def not_less)
qed

text \<open>The modulation programs a zone refers to, and their terms, exist.\<close>

definition program_ok :: "msf2_view \<Rightarrow> u8 \<Rightarrow> bool" where
  "program_ok view r \<longleftrightarrow> r \<noteq> 0xff \<longrightarrow>
     (\<exists>p. record_at view 5 (ucast r) = Some p \<and> p + 12 \<le> length (vw_data view) \<and>
        unat (u16_at (vw_data view) (p + 6)) \<le> unat (u16_at (vw_data view) (p + 4)) \<and>
        range_fits (u32_at (vw_data view) p) (ucast (u16_at (vw_data view) (p + 4))) (section_count view 6))"

lemma valid_program:
  assumes "image_ok view" and "ucast r < section_count view 5"
  shows "program_ok view r"
proof -
  obtain p where p: "record_at view 5 (ucast r) = Some p" "p + 12 \<le> length (vw_data view)"
    using record_inside [OF image_okD(7) [OF assms(1)] assms(2)] by auto
  have "check_program view (unat (ucast r :: u32)) = Some (Inr ())"
    using records_checked(5) [OF assms(1), of "unat (ucast r :: u32)"] assms(2) by (simp add: word_less_nat_alt)
  then show ?thesis
    using p by (auto simp: check_program_def program_ok_def reads_eq word_le_nat_alt word_less_nat_alt split: if_splits)
qed

lemma valid_references:
  assumes "image_ok view" and "index < section_count view 1"
  obtains p where "record_at view 4 index = Some p" and "p + 3 \<le> length (vw_data view)"
    and "\<And>k. k < 3 \<Longrightarrow> program_ok view (vw_data view ! (p + k))"
proof -
  have i: "index < section_count view 4" using assms image_okD(9) by simp
  obtain p where p: "record_at view 4 index = Some p" "p + 3 \<le> length (vw_data view)"
    using record_inside [OF image_okD(6) [OF assms(1)] i] by auto
  have "check_references view (unat index) = Some (Inr ())"
    using records_checked(4) [OF assms(1), of "unat index"] i by (simp add: word_less_nat_alt)
  then have "check_reference view p k = Some (Inr ())" if "k < 3" for k
    using that p by (simp add: check_references_def check_each_ok)
  then have "program_ok view (vw_data view ! (p + k))" if "k < 3" for k
    using that p valid_program [OF assms(1), of "vw_data view ! (p + k)"]
    by (force simp: check_reference_def reads_eq program_ok_def not_le)
  then show ?thesis using that [OF p] by blast
qed

section \<open>Lookups in an accepted image\<close>

lemma bits_double: "{i. bit (2 * n) i} = Suc ` {i. bit n i}" "{i. bit (Suc (2 * n)) i} = insert 0 (Suc ` {i. bit n i})" for n :: nat
proof -
  have "bit (2 * n) i \<longleftrightarrow> (\<exists>j. i = Suc j \<and> bit n j)" for i by (cases i) (simp_all add: bit_0 bit_Suc)
  then show "{i. bit (2 * n) i} = Suc ` {i. bit n i}" by auto
  have "bit (Suc (2 * n)) i \<longleftrightarrow> i = 0 \<or> (\<exists>j. i = Suc j \<and> bit n j)" for i by (cases i) (simp_all add: bit_0 bit_Suc)
  then show "{i. bit (Suc (2 * n)) i} = insert 0 (Suc ` {i. bit n i})" by auto
qed

lemma finite_bits: "finite {i. bit n i}" for n :: nat
  by (induction n rule: nat_bit_induct) (simp_all add: bits_double)

lemma card_clear_lowest: "0 < n \<Longrightarrow> card {i. bit n i} = Suc (card {i. bit (n AND (n - 1)) i})" for n :: nat
proof (induction n rule: nat_bit_induct)
  case (even n)
  have "2 * n - 1 = Suc (2 * (n - 1))" using even.hyps by simp
  then have "2 * n AND (2 * n - 1) = 2 * (n AND (n - 1))" by (simp add: and_rec [of "2 * n"])
  then show ?case using even by (simp only: bits_double card_image [OF inj_Suc])
next
  case (odd n)
  have "Suc (2 * n) AND 2 * n = 2 * n" by (simp add: and_rec [of "Suc (2 * n)"])
  moreover have "card (insert 0 (Suc ` {i. bit n i})) = Suc (card {i. bit n i})"
    using finite_bits [of n] by (simp add: card_image)
  ultimately show ?case by (simp add: bits_double card_image)
qed simp

lemma bit_unat64: "bit (unat v) i \<longleftrightarrow> bit v i" for v :: u64
  by (simp add: bit_unsigned_iff)

lemma popcount64_card: "popcount64 v = card {i. bit v i}"
proof (induction v rule: popcount64.induct)
  case (1 v)
  show ?case
  proof (cases "v = 0")
    case False
    have "unat (v AND (v - 1)) = unat v AND (unat v - 1)" using False by (simp add: unsigned_and_eq unat_minus_one)
    then have "{i. bit (v AND (v - 1)) i} = {i. bit (unat v AND (unat v - 1)) i}" by (simp only: bit_unat64 [symmetric])
    moreover have "{i. bit v i} = {i. bit (unat v) i}" by (simp only: bit_unat64)
    ultimately show ?thesis
      using 1 False card_clear_lowest [of "unat v"] by (subst popcount64.simps) (simp add: unat_gt_0)
  qed (simp add: popcount64.simps)
qed

lemma present_below_popcount: "length (filter (bit v) [0..<n]) \<le> popcount64 v"
proof -
  have "length (filter (bit v) [0..<n]) = card (set (filter (bit v) [0..<n]))" by (metis distinct_card distinct_filter distinct_upt)
  also have "\<dots> \<le> card {i. bit v i}"
    using finite_bits [of "unat v"] by (intro card_mono) (auto simp: bit_unat64)
  finally show ?thesis by (simp only: popcount64_card)
qed

lemma has_bit: "v AND push_bit n 1 = 0 \<longleftrightarrow> \<not> bit v n" for v :: u64
  by (simp add: push_bit_eq_mult and_exp_eq_0_iff_not_bit)

lemma decode_loop_total:
  assumes "image_ok view" and "zone_ok view zone"
    and "unat k + length (filter (bit (zn_generator_presence zone)) os) \<le> unat (zn_generator_count zone)"
  shows "\<exists>xs. decode_loop view zone os k amounts = Some xs \<and> length xs = length amounts"
  using assms(3)
proof (induction os arbitrary: k amounts)
  case (Cons oper os)
  show ?case
  proof (cases "bit (zn_generator_presence zone) oper")
    case True
    have c: "unat (ucast (zn_generator_count zone) :: u32) = unat (zn_generator_count zone)"
      using unat_bounds(2) [of "zn_generator_count zone"] by (simp add: unsigned_ucast_eq take_bit_nat_eq_self)
    have k: "unat k < unat (zn_generator_count zone)" using Cons.prems True by simp
    then have "zn_first_generator zone + of_nat (unat k) < section_count view 2"
      using assms(2) c by (intro range_fits_less(1) [where count = "ucast (zn_generator_count zone)"]) (simp_all add: zone_ok_def)
    then obtain p where "record_at view 2 (zn_first_generator zone + k) = Some p" "p + 2 \<le> length (vw_data view)"
      using record_inside [OF image_okD(4) [OF assms(1)]] by auto
    moreover have "unat (k + 1) = Suc (unat k)"
      using k unat_bounds(2) [of "zn_generator_count zone"] by (simp add: unat_word_ariths(1))
    ultimately show ?thesis
      using Cons.IH [of "k + 1" "amounts[oper := u16_at (vw_data view) p]"] Cons.prems True by (simp add: and_exp_eq_0_iff_not_bit reads_eq)
  qed (use Cons in \<open>simp add: and_exp_eq_0_iff_not_bit\<close>)
qed simp

lemma decode_generators_total:
  assumes "image_ok view" and "index < section_count view 1"
  shows "\<exists>amounts presence. msf2_decode_generators view index = Some (Inr (amounts, presence)) \<and> length amounts = 61"
proof -
  obtain zone where z: "msf2_get_zone view index = Some (Inr zone)" "zone_ok view zone" using valid_zone [OF assms] .
  have "length (filter (bit (zn_generator_presence zone)) [0..<61]) \<le> unat (zn_generator_count zone)"
    using present_below_popcount [of "zn_generator_presence zone" 61] z(2) by (simp add: zone_ok_def)
  then show ?thesis
    using decode_loop_total [OF assms(1) z(2), of 0 "[0..<61]" "replicate 61 0"] z(1)
    by (auto simp: msf2_decode_generators_def MSF2_GENERATOR_COUNT_def)
qed

lemma find_preset_loop_total: "image_ok view \<Longrightarrow> defined (find_preset_loop view program bank is)"
proof (induction "is")
  case (Cons i "is")
  obtain x where "msf2_get_preset view (of_nat i) = Some x"
    using get_preset_total [OF image_okD(2) [OF Cons.prems], of "of_nat i"] by auto
  then show ?case using Cons by (auto intro!: definedI)
qed simp

lemma find_preset_loop_range:
  "find_preset_loop view program bank is = Some r \<Longrightarrow> set is \<subseteq> {..<n} \<Longrightarrow> n \<le> 2 ^ 31 \<Longrightarrow> r = - 1 \<or> 0 \<le> r \<and> nat r < n"
proof (induction "is")
  case (Cons i "is")
  have "i32 (int i) = int i" using Cons.prems by (intro i32_id) (simp add: in_i32_def)
  moreover obtain x where "msf2_get_preset view (of_nat i) = Some x"
    using Cons.prems(1) by (auto simp: bind_eq_Some_conv)
  ultimately show ?case using Cons by (cases x) (auto split: if_splits)
qed simp

lemma preset_count_small: "image_ok view \<Longrightarrow> unat (section_count view 0) \<le> 2 ^ 31"
proof -
  assume ok: "image_ok view"
  then have "unat (section_count view 0) * 12 \<le> length (vw_data view)" using image_okD(2) [OF ok] by (simp add: section_ok_def)
  then show ?thesis using ok by (simp add: image_ok_def)
qed

lemma find_preset_total:
  assumes "image_ok view"
  obtains r where "msf2_find_preset view program bank = Some r" and "r = - 1 \<or> 0 \<le> r \<and> of_int r < section_count view 0"
proof -
  have "defined (msf2_find_preset view program bank)"
    using find_preset_loop_total [OF assms] by (simp add: msf2_find_preset_def)
  then obtain r where r: "msf2_find_preset view program bank = Some r" by (rule defined_obtain)
  have "r = - 1 \<or> 0 \<le> r \<and> nat r < unat (section_count view 0)"
    using r find_preset_loop_range [of view program bank "[0..<unat (section_count view 0)]" r] preset_count_small [OF assms]
    by (auto simp: msf2_find_preset_def lessThan_atLeast0 split: if_splits)
  then have "r = - 1 \<or> 0 \<le> r \<and> of_int r < section_count view 0"
    using of_nat_below [of "nat r" "section_count view 0"] by (metis of_int_of_nat_eq int_nat_eq)
  then show ?thesis using that [OF r] by blast
qed

text \<open>The layers of a note: at most four zones of the preset, each covering the key and the velocity.\<close>

definition layer_ok :: "msf2_view \<Rightarrow> u8 \<Rightarrow> u8 \<Rightarrow> u32 \<Rightarrow> bool" where
  "layer_ok view key velocity index \<longleftrightarrow> index < section_count view 1 \<and>
     (\<exists>zone. msf2_get_zone view index = Some (Inr zone) \<and> zn_key_low zone \<le> key \<and> key \<le> zn_key_high zone \<and>
        zn_velocity_low zone \<le> velocity \<and> velocity \<le> zn_velocity_high zone)"

lemma collect_loop_total:
  assumes "image_ok view" and "range_fits first count (section_count view 1)"
    and "set ls \<subseteq> {..<unat count}" and "list_all (layer_ok view key velocity) layers" and "length layers \<le> 4"
  shows "collect_loop view first key velocity ls layers = Some (Inl MSF2_ERR_CAPACITY) \<or>
    (\<exists>layers'. collect_loop view first key velocity ls layers = Some (Inr layers') \<and>
       list_all (layer_ok view key velocity) layers' \<and> length layers' \<le> 4)"
  using assms(3-5)
proof (induction ls arbitrary: layers)
  case (Cons l ls)
  have z: "first + of_nat l < section_count view 1" using range_fits_less(1) [OF assms(2)] Cons.prems(1) by simp
  then obtain zone where g: "msf2_get_zone view (first + of_nat l) = Some (Inr zone)" using valid_zone [OF assms(1)] by blast
  show ?case
  proof (cases "zn_key_low zone \<le> key \<and> key \<le> zn_key_high zone \<and> zn_velocity_low zone \<le> velocity \<and> velocity \<le> zn_velocity_high zone \<and>
      length layers \<noteq> 4")
    case True
    then have "layer_ok view key velocity (first + of_nat l)" using z g by (auto simp: layer_ok_def)
    then show ?thesis
      using True Cons.prems g Cons.IH [of "layers @ [first + of_nat l]"] by (simp add: Let_def MSF2_MAX_LAYERS_def leD)
  qed (use Cons g in \<open>auto simp: Let_def MSF2_MAX_LAYERS_def not_less\<close>)
qed simp

lemma collect_layers_total:
  assumes "image_ok view" and "key \<le> 127" and "velocity \<le> 127" and "index < section_count view 0"
  shows "msf2_collect_layers view index key velocity = Some (Inl MSF2_ERR_CAPACITY) \<or>
    (\<exists>layers. msf2_collect_layers view index key velocity = Some (Inr layers) \<and>
       list_all (layer_ok view key velocity) layers \<and> length layers \<le> 4)"
proof -
  obtain preset where "msf2_get_preset view index = Some (Inr preset)"
    "range_fits (pr_first_zone preset) (pr_zone_count preset) (section_count view 1)"
    using valid_preset [OF assms(1,4)] .
  then show ?thesis
    using collect_loop_total [OF assms(1), of "pr_first_zone preset" "pr_zone_count preset" "[0..<unat (pr_zone_count preset)]" key velocity "[]"] assms(2,3)
    by (simp add: msf2_collect_layers_def lessThan_atLeast0 not_less)
qed

end
