(* ===== verification/Msf2_Demo.thy ===== *)
theory Msf2_Demo
  imports Msf2_View
begin

text \<open>An image with one preset of one zone, whose attenuation follows the velocity.\<close>

definition demo_with :: "u8 \<Rightarrow> u8 \<Rightarrow> u8 \<Rightarrow> u8 \<Rightarrow> u8 list" where
  "demo_with c0 c1 c2 c3 =
    [77, 83, 70, 50, 2, 0, 96, 0, 40, 1, 0, 0, 0, 0, 0, 0, 128, 187, 0, 0, 48, 0, 0, 0, 160, 15, 0, 0, 0,
     0, 0, 0, 52, 18, 0, 0, c0, c1, c2, c3, 96, 0, 0, 0, 7, 0, 0, 0, 100, 0, 0, 0, 232, 3, 0, 0, 108, 90,
     105, 167, 1, 0, 0, 0, 119, 0, 0, 0, 1, 0, 0, 0, 0, 0, 0, 0, 0, 0, 0, 0, 0, 0, 0, 0, 0, 0, 0, 0, 0,
     0, 0, 0, 0, 0, 0, 0, 1, 0, 1, 0, 208, 0, 0, 0, 1, 0, 0, 0, 12, 0, 0, 0, 2, 0, 1, 0, 220, 0, 0, 0, 1,
     0, 0, 0, 20, 0, 0, 0, 3, 0, 1, 0, 240, 0, 0, 0, 1, 0, 0, 0, 2, 0, 0, 0, 4, 0, 1, 0, 244, 0, 0, 0, 1,
     0, 0, 0, 22, 0, 0, 0, 5, 0, 1, 0, 12, 1, 0, 0, 1, 0, 0, 0, 3, 0, 0, 0, 6, 0, 1, 0, 16, 1, 0, 0, 1,
     0, 0, 0, 12, 0, 0, 0, 7, 0, 1, 0, 28, 1, 0, 0, 1, 0, 0, 0, 12, 0, 0, 0, 0, 0, 0, 0, 0, 0, 0, 0, 1,
     0, 0, 0, 0, 127, 0, 127, 0, 0, 0, 0, 1, 0, 0, 0, 0, 0, 0, 0, 0, 0, 1, 0, 100, 0, 0, 0, 0, 0, 0, 0,
     232, 3, 0, 0, 100, 0, 0, 0, 132, 3, 0, 0, 128, 187, 0, 0, 60, 0, 0, 0, 0, 255, 255, 0, 0, 0, 0, 0,
     1, 0, 1, 0, 1, 0, 0, 0, 2, 5, 48, 0, 192, 3, 0, 0, 0, 0, 1, 0]"

definition demo_image :: "u8 list" where
  "demo_image =
     (let c = crc32_image (demo_with 0 0 0 0)
      in demo_with (ucast c) (ucast (drop_bit 8 c)) (ucast (drop_bit 16 c)) (ucast (drop_bit 24 c)))"

lemma crc32_image_cong:
  assumes "length d = length e" and "\<And>i. i < length e \<Longrightarrow> i < 36 \<or> 40 \<le> i \<Longrightarrow> d ! i = e ! i"
  shows "crc32_image d = crc32_image e"
  unfolding crc32_image_def assms(1) using assms(2) by (intro arg_cong2 [where f = "(XOR)"] foldl_cong) auto

lemma length_demo: "length (demo_with a b c e) = 296"
  by (simp add: demo_with_def)

lemma demo_take: "take 36 (demo_with a b c e) = take 36 (demo_with a' b' c' e')" "drop 40 (demo_with a b c e) = drop 40 (demo_with a' b' c' e')"
  by (simp_all add: demo_with_def)

lemma demo_crc_same: "crc32_image (demo_with a b c e) = crc32_image (demo_with 0 0 0 0)"
proof (rule crc32_image_cong)
  fix i assume i: "i < length (demo_with 0 0 0 0)" "i < 36 \<or> 40 \<le> i"
  show "demo_with a b c e ! i = demo_with 0 0 0 0 ! i"
  proof (cases "i < 36")
    case True
    then have "take 36 (demo_with a b c e) ! i = take 36 (demo_with 0 0 0 0) ! i" by (intro arg_cong [where f = "\<lambda>xs. xs ! i"] demo_take(1))
    then show ?thesis using True by simp
  next
    case False
    then have "drop 40 (demo_with a b c e) ! (i - 40) = drop 40 (demo_with 0 0 0 0) ! (i - 40)" by (intro arg_cong [where f = "\<lambda>xs. xs ! (i - 40)"] demo_take(2))
    then show ?thesis using False i by (simp add: length_demo)
  qed
qed (simp add: length_demo)

lemmas layout_constants = MSF2_HEADER_SIZE_def MSF2_DIRECTORY_OFFSET_def MSF2_SECTION_COUNT_def MSF2_DIRECTORY_ENTRY_SIZE_def
  MSF2_PROFILE_CRC32_def MSF2_SAMPLE_RATE_def MSF2_CONTROL_TICK_SAMPLES_def MSF2_VALID_DEPENDENCIES_def MSF2_GENERATOR_COUNT_def

lemma demo_profile: "check_signature (demo_with a b c e) = Some (Inr ())" "check_profile (demo_with a b c e) = Some (Inr ())"
  "check_directory (demo_with a b c e) = Some (Inr ())"
  by (simp_all add: check_signature_def check_profile_def check_directory_def reads_eq length_demo layout_constants)
   (simp_all add: demo_with_def u16_at_def u32_at_def)

definition demo_sections :: "msf2_section_view list" where
  "demo_sections =
    [\<lparr> sv_data = 208, sv_count = 1, sv_stride = 12 \<rparr>, \<lparr> sv_data = 220, sv_count = 1, sv_stride = 20 \<rparr>,
     \<lparr> sv_data = 240, sv_count = 1, sv_stride = 2 \<rparr>, \<lparr> sv_data = 244, sv_count = 1, sv_stride = 22 \<rparr>,
     \<lparr> sv_data = 268, sv_count = 1, sv_stride = 3 \<rparr>, \<lparr> sv_data = 272, sv_count = 1, sv_stride = 12 \<rparr>,
     \<lparr> sv_data = 284, sv_count = 1, sv_stride = 12 \<rparr>]"

lemma upt_7: "[0..<7] = [0, 1, 2, 3, 4, 5, 6 :: nat]"
  by (simp add: upt_rec)

lemma upt_3: "[0..<3] = [0, 1, 2 :: nat]"
  by (simp add: upt_rec)

lemma demo_words:
  "u16_at (demo_with a b c e) 96 = 1"
  "u16_at (demo_with a b c e) 98 = 1"
  "u16_at (demo_with a b c e) 112 = 2"
  "u16_at (demo_with a b c e) 114 = 1"
  "u16_at (demo_with a b c e) 128 = 3"
  "u16_at (demo_with a b c e) 130 = 1"
  "u16_at (demo_with a b c e) 144 = 4"
  "u16_at (demo_with a b c e) 146 = 1"
  "u16_at (demo_with a b c e) 160 = 5"
  "u16_at (demo_with a b c e) 162 = 1"
  "u16_at (demo_with a b c e) 176 = 6"
  "u16_at (demo_with a b c e) 178 = 1"
  "u16_at (demo_with a b c e) 192 = 7"
  "u16_at (demo_with a b c e) 194 = 1"
  "u16_at (demo_with a b c e) 208 = 0"
  "u16_at (demo_with a b c e) 210 = 0"
  "u16_at (demo_with a b c e) 228 = 1"
  "u16_at (demo_with a b c e) 230 = 0"
  "u16_at (demo_with a b c e) 240 = 100"
  "u16_at (demo_with a b c e) 276 = 1"
  "u16_at (demo_with a b c e) 278 = 1"
  "u16_at (demo_with a b c e) 280 = 1"
  "u16_at (demo_with a b c e) 284 = 1282"
  "u16_at (demo_with a b c e) 286 = 48"
  "u16_at (demo_with a b c e) 288 = 960"
  "u16_at (demo_with a b c e) 290 = 0"
  "u16_at (demo_with a b c e) 292 = 0"
  "u16_at (demo_with a b c e) 294 = 1"
  "u32_at (demo_with a b c e) 100 = 208"
  "u32_at (demo_with a b c e) 104 = 1"
  "u32_at (demo_with a b c e) 108 = 12"
  "u32_at (demo_with a b c e) 116 = 220"
  "u32_at (demo_with a b c e) 120 = 1"
  "u32_at (demo_with a b c e) 124 = 20"
  "u32_at (demo_with a b c e) 132 = 240"
  "u32_at (demo_with a b c e) 136 = 1"
  "u32_at (demo_with a b c e) 140 = 2"
  "u32_at (demo_with a b c e) 148 = 244"
  "u32_at (demo_with a b c e) 152 = 1"
  "u32_at (demo_with a b c e) 156 = 22"
  "u32_at (demo_with a b c e) 164 = 268"
  "u32_at (demo_with a b c e) 168 = 1"
  "u32_at (demo_with a b c e) 172 = 3"
  "u32_at (demo_with a b c e) 180 = 272"
  "u32_at (demo_with a b c e) 184 = 1"
  "u32_at (demo_with a b c e) 188 = 12"
  "u32_at (demo_with a b c e) 196 = 284"
  "u32_at (demo_with a b c e) 200 = 1"
  "u32_at (demo_with a b c e) 204 = 12"
  "u32_at (demo_with a b c e) 32 = 4660"
  "u32_at (demo_with a b c e) 48 = 100"
  "u32_at (demo_with a b c e) 52 = 1000"
  "u32_at (demo_with a b c e) 64 = 119"
  "u32_at (demo_with a b c e) 68 = 1"
  "u32_at (demo_with a b c e) 24 = 4000"
  "u32_at (demo_with a b c e) 28 = 0"
  "u32_at (demo_with a b c e) 212 = 0"
  "u32_at (demo_with a b c e) 216 = 1"
  "u32_at (demo_with a b c e) 224 = 0"
  "u32_at (demo_with a b c e) 232 = 0"
  "u32_at (demo_with a b c e) 236 = 65536"
  "u32_at (demo_with a b c e) 244 = 0"
  "u32_at (demo_with a b c e) 248 = 1000"
  "u32_at (demo_with a b c e) 252 = 100"
  "u32_at (demo_with a b c e) 256 = 900"
  "u32_at (demo_with a b c e) 260 = 48000"
  "u32_at (demo_with a b c e) 272 = 0"
  by (simp_all add: demo_with_def u16_at_def u32_at_def)

lemma demo_bytes:
  "demo_with a b c e ! 220 = 0"
  "demo_with a b c e ! 221 = 127"
  "demo_with a b c e ! 222 = 0"
  "demo_with a b c e ! 223 = 127"
  "demo_with a b c e ! 264 = 60"
  "demo_with a b c e ! 265 = 0"
  "demo_with a b c e ! 268 = 0"
  "demo_with a b c e ! 269 = 255"
  "demo_with a b c e ! 270 = 255"
  "demo_with a b c e ! 282 = 0"
  "demo_with a b c e ! 283 = 0"
  by (simp_all add: demo_with_def)

lemma demo_directory: "directory_entries (demo_with a b c e) [0..<MSF2_SECTION_COUNT] 208 = Some (Inr demo_sections)"
  unfolding layout_constants(3) upt_7
  by (simp add: directory_entry_def reads_eq length_demo MSF2_DIRECTORY_OFFSET_def MSF2_DIRECTORY_ENTRY_SIZE_def Let_def demo_words demo_sections_def)

definition demo_view :: "u8 list \<Rightarrow> msf2_view" where
  "demo_view d = \<lparr> vw_data = d, vw_sections = demo_sections, vw_source_size_bytes = 4000, vw_source_crc32 = 0x1234,
     vw_sample_word_offset = 100, vw_sample_word_count = 1000, vw_selection_crc32 = 0x77 \<rparr>"

lemma demo_sections_at:
  "sv_count (section_at (demo_view d) 0) = 1" "sv_count (section_at (demo_view d) (Suc 0)) = 1" "sv_count (section_at (demo_view d) 2) = 1"
  "sv_count (section_at (demo_view d) 3) = 1" "sv_count (section_at (demo_view d) 4) = 1" "sv_count (section_at (demo_view d) 5) = 1"
  "sv_count (section_at (demo_view d) 6) = 1"
  "record_at (demo_view d) 0 0 = Some 208" "record_at (demo_view d) (Suc 0) 0 = Some 220" "record_at (demo_view d) 2 0 = Some 240"
  "record_at (demo_view d) 3 0 = Some 244" "record_at (demo_view d) 4 0 = Some 268" "record_at (demo_view d) 5 0 = Some 272"
  "record_at (demo_view d) 6 0 = Some 284" "vw_data (demo_view d) = d"
  by (simp_all add: demo_view_def section_at_def section_count_def demo_sections_def record_at_def MSF2_SECTION_COUNT_def)

lemma demo_preset: "msf2_get_preset (demo_view (demo_with a b c e)) 0 =
    Some (Inr \<lparr> pr_program = 0, pr_bank = 0, pr_first_zone = 0, pr_zone_count = 1 \<rparr>)"
  by (simp add: msf2_get_preset_def demo_sections_at reads_eq length_demo demo_words)

definition demo_zone :: msf2_zone where
  "demo_zone = \<lparr> zn_key_low = 0, zn_key_high = 127, zn_velocity_low = 0, zn_velocity_high = 127, zn_first_generator = 0,
     zn_generator_count = 1, zn_sample_index = 0, zn_generator_presence = 0x1000000000000 \<rparr>"

lemma demo_get_zone: "msf2_get_zone (demo_view (demo_with a b c e)) 0 = Some (Inr demo_zone)"
  by (simp add: msf2_get_zone_def demo_sections_at reads_eq length_demo demo_words demo_bytes u64_at_def demo_zone_def)

definition demo_sample :: msf2_sample where
  "demo_sample = \<lparr> sa_start = 0, sa_end = 1000, sa_loop_start = 100, sa_loop_end = 900, sa_sample_rate = 48000,
     sa_original_pitch = 60, sa_pitch_correction = 0 \<rparr>"

lemma demo_get_sample: "msf2_get_sample (demo_view (demo_with a b c e)) 0 = Some (Inr demo_sample)"
  by (simp add: msf2_get_sample_def demo_sections_at reads_eq length_demo demo_words demo_bytes demo_sample_def)

lemma demo_popcount: "popcount64 0x1000000000000 = 1"
  by (simp add: popcount64.simps)

lemma demo_records: "check_records (demo_view (demo_with a b c e)) = Some (Inr ())"
proof -
  let ?v = "demo_view (demo_with a b c e)"
  have "check_preset ?v 0 = Some (Inr ())"
    by (simp add: check_preset_def demo_preset range_fits_def section_count_def demo_sections_at)
  moreover have "check_zone ?v 0 = Some (Inr ())"
    by (simp add: check_zone_def demo_get_zone demo_zone_def range_fits_def section_count_def demo_sections_at demo_popcount
        MSF2_GENERATOR_COUNT_def valid_presence_def)
  moreover have "check_sample ?v 0 = Some (Inr ())"
    by (simp add: check_sample_def demo_get_sample demo_sample_def) (simp add: demo_view_def)
  moreover have "check_references ?v 0 = Some (Inr ())"
    unfolding check_references_def upt_3
    by (simp add: check_reference_def demo_sections_at section_count_def reads_eq length_demo demo_bytes require_def)
  moreover have "check_program ?v 0 = Some (Inr ())"
    by (simp add: check_program_def demo_sections_at section_count_def reads_eq length_demo demo_bytes demo_words range_fits_def
        MSF2_VALID_DEPENDENCIES_def destination_matches_def source_dependencies_def)
  ultimately show ?thesis by (simp add: check_records_def check_then_ok check_each_ok section_count_def demo_sections_at Let_def)
qed

lemma join_bytes:
  "ucast (ucast v :: u8) OR push_bit 8 (ucast (ucast (drop_bit 8 v) :: u8)) OR push_bit 16 (ucast (ucast (drop_bit 16 v) :: u8)) OR
     push_bit 24 (ucast (ucast (drop_bit 24 v) :: u8)) = v" for v :: u32
proof (rule bit_word_eqI)
  fix n assume "n < LENGTH(32)"
  then consider "n < 8" | "8 \<le> n" "n < 16" | "16 \<le> n" "n < 24" | "24 \<le> n" "n < 32" by force
  then show "bit (ucast (ucast v :: u8) OR push_bit 8 (ucast (ucast (drop_bit 8 v) :: u8)) OR
      push_bit 16 (ucast (ucast (drop_bit 16 v) :: u8)) OR push_bit 24 (ucast (ucast (drop_bit 24 v) :: u8)) :: u32) n = bit v n"
    by cases (auto simp: bit_simps)
qed

lemma demo_accepted: "msf2_view_init demo_image = Some (Inr (demo_view demo_image))"
proof -
  define a b c e where "a = (ucast (crc32_image (demo_with 0 0 0 0)) :: u8)"
    and "b = (ucast (drop_bit 8 (crc32_image (demo_with 0 0 0 0))) :: u8)"
    and "c = (ucast (drop_bit 16 (crc32_image (demo_with 0 0 0 0))) :: u8)"
    and "e = (ucast (drop_bit 24 (crc32_image (demo_with 0 0 0 0))) :: u8)"
  have d: "demo_image = demo_with a b c e" by (simp add: demo_image_def Let_def a_def b_def c_def e_def)
  have "u32_at (demo_with a b c e) 36 = ucast a OR push_bit 8 (ucast b) OR push_bit 16 (ucast c) OR push_bit 24 (ucast e)"
    by (simp add: demo_with_def u32_at_def)
  then have "u32_at (demo_with a b c e) 36 = crc32_image (demo_with 0 0 0 0)"
    by (simp only: join_bytes a_def b_def c_def e_def)
  then have "check_crc (demo_with a b c e) = Some (Inr ())" by (simp add: check_crc_def reads_eq length_demo demo_crc_same [of a b c e])
  moreover have "check_sections (demo_with a b c e) (demo_view (demo_with a b c e)) = Some (Inr ())"
    by (simp add: check_sections_def reads_eq length_demo demo_words section_count_def demo_sections_at)
  moreover have "MSF2_HEADER_SIZE + MSF2_SECTION_COUNT * MSF2_DIRECTORY_ENTRY_SIZE = 208" "\<not> 296 < MSF2_HEADER_SIZE"
    by (simp_all add: layout_constants)
  ultimately show ?thesis
    unfolding d msf2_view_init_def
    by (simp add: check_then_def demo_profile demo_directory demo_records reads_eq length_demo demo_words u64_at_def Let_def
        demo_view_def [symmetric])
qed

end
