(* ===== verification/Msf2_Note.thy ===== *)
theory Msf2_Note
  imports Msf2_View Voice_Protocol
begin

text \<open>
  The parameters of a note, middle part of \<open>src/mcu/msf2.c\<close>: a zone of the image becomes the fields of a
  START command (\<open>materialize_note_decoded\<close>), the command is packed (\<open>msf2_pack_start\<close>), and the generators
  that keep acting while the note sounds become the voice's configuration
  (\<open>runtime_config_from_generators\<close>).

  The lemmas show that every materialised note has a playable loop inside its own sample, and that the
  firmware packs a START word for word as the host's \<open>build_voice_start_command\<close> does.
\<close>

section \<open>Parameters of a note\<close>

record msf2_note_params =
  np_base_addr :: u32
  np_length :: u32
  np_loop_start :: u32
  np_loop_end :: u32
  np_phase_inc :: u32
  np_gain_l :: u16
  np_gain_r :: u16
  np_loop_mode :: u8
  np_filter_enable :: bool
  np_filter :: filter_coefficients
  np_delay_samples :: u32
  np_attack_samples :: u32
  np_hold_samples :: u32
  np_decay_samples :: u32
  np_sustain_cb_q12_20 :: u32
  np_release_samples :: u32

definition amount :: "u16 list \<Rightarrow> nat \<Rightarrow> int" where
  "amount gen oper = signed_amount (gen ! oper)"

definition amount_or :: "u64 \<Rightarrow> u16 list \<Rightarrow> nat \<Rightarrow> int \<Rightarrow> int" where
  "amount_or presence gen oper missing = (if has_generator presence oper then amount gen oper else missing)"

text \<open>Start, end and loop of the sample, moved by the address offset generators and kept inside it.\<close>

definition sample_span :: "msf2_sample \<Rightarrow> u16 list \<Rightarrow> u32 \<times> u32 \<times> u32 \<times> u32" where
  "sample_span sample gen =
     (let start = clamp_position (uint (sa_start sample) + amount gen 0 + amount gen 4 * 32768) (sa_start sample) (sa_end sample);
          stop = clamp_position (uint (sa_end sample) + amount gen 1 + amount gen 12 * 32768) start (sa_end sample);
          loop_start = clamp_position (uint (sa_loop_start sample) + amount gen 2 + amount gen 45 * 32768) start stop;
          loop_end = clamp_position (uint (sa_loop_end sample) + amount gen 3 + amount gen 50 * 32768) loop_start stop
      in (start, stop, loop_start, loop_end))"

text \<open>Length and loop relative to the start; a loop that is empty or outside becomes the whole sample.\<close>

definition relative_span :: "u32 \<times> u32 \<times> u32 \<times> u32 \<Rightarrow> u32 \<times> u32 \<times> u32" where
  "relative_span sp =
     (case sp of (start, stop, loop_start, loop_end) \<Rightarrow>
        (let length1 = (if stop - start > 0x00ffffff then 0x00ffffff else stop - start);
             loop_start1 = (if loop_start > start then loop_start - start else 0);
             loop_start2 = (if loop_start1 \<ge> length1 \<and> length1 \<noteq> 0 then length1 - 1 else loop_start1);
             loop_end1 = (if loop_end > start then loop_end - start else 0);
             loop_end2 = (if loop_end1 > length1 then length1 else loop_end1);
             loop_end3 = (if loop_end2 \<le> loop_start2 then loop_start2 + 1 else loop_end2)
         in if loop_start2 \<ge> loop_end3 \<or> loop_end3 > length1 then (length1, 0, length1)
            else (length1, loop_start2, loop_end3)))"

definition note_loop_mode :: "u16 list \<Rightarrow> u8" where
  "note_loop_mode gen =
     (let mode = ucast (gen ! 54 AND 3) :: u8 in if mode = 3 then 2 else if mode \<noteq> 1 then 0 else mode)"

definition note_cents :: "msf2_sample \<Rightarrow> u8 \<Rightarrow> u16 list \<Rightarrow> u64 \<Rightarrow> int" where
  "note_cents sample key gen presence =
     (let effective_key =
            (if has_generator presence 46 \<and> amount gen 46 \<ge> 0 \<and> amount gen 46 \<le> 127 then amount gen 46 else uint key);
          sample_key = (if sa_original_pitch sample \<le> 127 then uint (sa_original_pitch sample) else 60);
          root_key = (if has_generator presence 58 \<and> amount gen 58 \<ge> 0 \<and> amount gen 58 \<le> 127 then amount gen 58 else sample_key);
          scale_tuning = clamp_i32 (amount_or presence gen 56 100) 0 1200
      in (effective_key - root_key) * scale_tuning + sa_pitch_correction sample +
         (if has_generator presence 52 then amount gen 52 else 0) +
         (if has_generator presence 51 then amount gen 51 * 100 else 0))"

definition base_gain_q14 :: "u64 \<Rightarrow> u16 list \<Rightarrow> u32" where
  "base_gain_q14 presence gen =
     ratio_scaled_q24 0x4000 1 (- clamp_i32 (amount_or presence gen 48 0) 0 3600 * 111465) 0"

definition note_pan :: "u64 \<Rightarrow> u16 list \<Rightarrow> int" where
  "note_pan presence gen = clamp_i32 (amount_or presence gen 17 0) (- 500) 500"

text \<open>A gain panned by one of the two sine factors.\<close>

definition panned_gain :: "u32 \<Rightarrow> u32 \<Rightarrow> u16" where
  "panned_gain gain sine_q30 = ucast (drop_bit 30 (ucast gain * ucast sine_q30 + push_bit 29 1 :: u64))"

text \<open>The biquad of a cutoff in absolute cents and a resonance in centibels.\<close>

definition lowpass_filter :: "int \<Rightarrow> int \<Rightarrow> filter_coefficients" where
  "lowpass_filter cutoff_cents resonance_cb =
     (let angle_q16 = ratio_scaled_q24 548682072 MSF2_LUT_SAMPLE_RATE (cents_exponent_q24 cutoff_cents) 0;
          sin_q30 = sint (sine_index_q16 angle_q16);
          cos_q30 = cosine_index_q16 angle_q16;
          inv_2q_q30 = ratio_scaled_q24 759250125 1 (- resonance_cb * 278664) 0;
          alpha_q30 = i32 ((sin_q30 * uint inv_2q_q30 + 2 ^ 29) div 2 ^ 30)
      in filter_coefficients_from_cos_alpha cos_q30 alpha_q30)"

definition decay_length :: "u64 \<Rightarrow> u16 list \<Rightarrow> u8 \<Rightarrow> int \<Rightarrow> u32" where
  "decay_length presence gen key sustain_cb =
     (let decay_tc = amount_or presence gen 36 0 + (if has_generator presence 40 then amount gen 40 * (60 - uint key) else 0)
      in if \<not> has_generator presence 36 \<and> \<not> has_generator presence 40 \<or> decay_tc \<le> - 32768 \<or> sustain_cb = 0 then 0
         else ratio_scaled_q24 (ucast MSF2_LUT_SAMPLE_RATE * of_int (if sustain_cb > 1000 then 1000 else sustain_cb)) 1000
                (cents_exponent_q24 (clamp_i32 decay_tc (- 12000) 8000)) 1)"

definition note_params :: "msf2_view \<Rightarrow> msf2_sample \<Rightarrow> u8 \<Rightarrow> u16 list \<Rightarrow> u64 \<Rightarrow> msf2_note_params" where
  "note_params vw sample key gen presence =
     (case relative_span (sample_span sample gen) of (length1, loop_start, loop_end) \<Rightarrow>
        (let pan_index = of_int (note_pan presence gen + 500) :: u32;
             hold_tc = amount_or presence gen 35 0 + (if has_generator presence 39 then amount gen 39 * (60 - uint key) else 0);
             sustain_cb = clamp_i32 (amount_or presence gen 37 0) 0 1440
         in \<lparr> np_base_addr = vw_sample_word_offset vw + fst (sample_span sample gen),
              np_length = length1, np_loop_start = loop_start, np_loop_end = loop_end,
              np_phase_inc = ratio_scaled_q24 (ucast (sa_sample_rate sample) * 256) MSF2_LUT_SAMPLE_RATE
                (cents_exponent_q24 (note_cents sample key gen presence)) 1,
              np_gain_l = panned_gain (base_gain_q14 presence gen) (pan_sine_q30 (1000 - pan_index)),
              np_gain_r = panned_gain (base_gain_q14 presence gen) (pan_sine_q30 pan_index),
              np_loop_mode = note_loop_mode gen,
              np_filter_enable = True,
              np_filter = lowpass_filter (clamp_i32 (amount_or presence gen 8 13500) 1500 13500)
                (clamp_i32 (amount_or presence gen 9 0) 0 960),
              np_delay_samples = timecent_samples (amount gen 33) (has_generator presence 33) 5000 0x00ffffff,
              np_attack_samples = timecent_samples (amount gen 34) (has_generator presence 34) 8000 0xffffffff,
              np_hold_samples = timecent_samples hold_tc (has_generator presence 35 \<or> has_generator presence 39) 5000 0x00ffffff,
              np_decay_samples = decay_length presence gen key sustain_cb,
              np_sustain_cb_q12_20 = push_bit 20 (of_int (if sustain_cb > 1000 then 1000 else sustain_cb)),
              np_release_samples = timecent_samples (amount gen 38) (has_generator presence 38) 8000 0xffffffff \<rparr>))"

definition materialize_note_decoded ::
    "msf2_view \<Rightarrow> u32 \<Rightarrow> u8 \<Rightarrow> u16 list \<Rightarrow> u64 \<Rightarrow> (msf2_result + msf2_note_params) option" where
  "materialize_note_decoded vw zone_index key gen presence =
     (if key > 127 then Some (Inl MSF2_ERR_ARGUMENT)
      else do { r \<leftarrow> msf2_get_zone vw zone_index;
                case r of
                  Inl e \<Rightarrow> Some (Inl MSF2_ERR_ARGUMENT)
                | Inr zone \<Rightarrow>
                    do { q \<leftarrow> msf2_get_sample vw (ucast (zn_sample_index zone));
                         case q of
                           Inl e \<Rightarrow> Some (Inl MSF2_ERR_ARGUMENT)
                         | Inr sample \<Rightarrow> Some (Inr (note_params vw sample key gen presence)) } })"

definition msf2_materialize_note :: "msf2_view \<Rightarrow> u32 \<Rightarrow> u8 \<Rightarrow> (msf2_result + msf2_note_params) option" where
  "msf2_materialize_note vw zone_index key =
     (if key > 127 then Some (Inl MSF2_ERR_ARGUMENT)
      else do { r \<leftarrow> msf2_decode_generators vw zone_index;
                case r of
                  Inl e \<Rightarrow> Some (Inl MSF2_ERR_ARGUMENT)
                | Inr (gen, presence) \<Rightarrow> materialize_note_decoded vw zone_index key gen presence })"

section \<open>The START command\<close>

definition MSF2_MAX_VOICE_COUNT :: nat where "MSF2_MAX_VOICE_COUNT = 512"

definition params_have_envelope :: "msf2_note_params \<Rightarrow> bool" where
  "params_have_envelope params \<longleftrightarrow> np_delay_samples params \<noteq> 0 \<or> np_attack_samples params \<noteq> 0 \<or>
     np_hold_samples params \<noteq> 0 \<or> np_decay_samples params \<noteq> 0 \<or> np_sustain_cb_q12_20 params \<noteq> 0 \<or>
     np_release_samples params \<noteq> 0"

definition msf2_pack_start :: "nat \<Rightarrow> u16 \<Rightarrow> msf2_note_params \<Rightarrow> msf2_result + u32 list" where
  "msf2_pack_start voice generation params =
     (if voice \<ge> MSF2_MAX_VOICE_COUNT then Inl MSF2_ERR_ARGUMENT
      else
        (let has_loop = np_loop_mode params \<noteq> 0; has_env = params_have_envelope params; f = np_filter params;
             flags = (np_loop_mode params AND 3) OR (if np_filter_enable params then 4 else 0) OR (if has_env then 8 else 0) :: u8;
             payload_words = 5 + (if has_loop then 2 else 0) + (if np_filter_enable params then 3 else 0) +
               (if has_env then 6 else 0) :: u8
         in Inr ([push_bit 24 0x10 OR push_bit 14 (of_nat voice) OR push_bit 8 (ucast flags) OR ucast payload_words,
                  ucast generation, np_base_addr params, np_length params]
             @ (if has_loop then [np_loop_start params, np_loop_end params] else [])
             @ [np_phase_inc params, msf2_pack_pair (uint (np_gain_r params)) (uint (np_gain_l params))]
             @ (if np_filter_enable params
                then [msf2_pack_pair (fq_b1 f) (fq_b0 f), msf2_pack_pair (fq_a1 f) (fq_b2 f),
                      ucast (of_int (fq_a2 f) :: u16) OR 0x00010000]
                else [])
             @ (if has_env
                then [np_delay_samples params, ceil_divide 0xffffffff (np_attack_samples params), np_hold_samples params,
                      ceil_divide (ucast (np_sustain_cb_q12_20 params)) (np_decay_samples params),
                      np_sustain_cb_q12_20 params, ceil_divide (push_bit 20 1000) (np_release_samples params)]
                else []))))"

section \<open>The continuing configuration of a voice\<close>

record msf2_runtime_config =
  mc_mod_lfo_delay_ticks :: u32
  mc_mod_lfo_step :: u32
  mc_vib_lfo_delay_ticks :: u32
  mc_vib_lfo_step :: u32
  mc_mod_lfo_to_pitch :: int
  mc_vib_lfo_to_pitch :: int
  mc_mod_env_to_pitch :: int
  mc_mod_lfo_to_filter_fc :: int
  mc_mod_env_to_filter_fc :: int
  mc_mod_lfo_to_volume :: int
  mc_initial_filter_fc :: int
  mc_initial_filter_q :: int
  mc_mod_env_delay_ticks :: u32
  mc_mod_env_hold_ticks :: u32
  mc_mod_env_attack_ticks :: u32
  mc_mod_env_decay_ticks :: u32
  mc_mod_env_release_ticks :: u32
  mc_mod_env_sustain_level :: u16
  mc_mod_env_attack_sub_tick :: bool

definition rounded_ticks :: "int \<Rightarrow> bool \<Rightarrow> int \<Rightarrow> bool \<Rightarrow> u32" where
  "rounded_ticks timecents present maximum minimum_one =
     (let samples = timecent_samples timecents present maximum 0xffffffff
      in if samples = 0 then (if minimum_one then 1 else 0)
         else (let ticks = (samples + MSF2_CONTROL_TICK_SAMPLES div 2) div MSF2_CONTROL_TICK_SAMPLES
               in if minimum_one \<and> ticks = 0 then 1 else ticks))"

definition scaled_ticks :: "int \<Rightarrow> bool \<Rightarrow> int \<Rightarrow> u32" where
  "scaled_ticks timecents present amount1 =
     (if amount1 \<le> 0 then 1
      else (let samples = timecent_samples timecents present 8000 0xffffffff;
                numerator = (ucast samples * ucast (of_int amount1 :: u32) + ucast MSF2_CONTROL_TICK_SAMPLES * 500) div
                  (ucast MSF2_CONTROL_TICK_SAMPLES * 1000) :: u64
            in if numerator = 0 then 1 else if numerator > 0xffffffff then 0xffffffff else ucast numerator))"

definition lfo_step_from_cents :: "int \<Rightarrow> u32" where
  "lfo_step_from_cents cents =
     ratio_scaled_q24 (8176 * ucast MSF2_CONTROL_TICK_SAMPLES * 65536) (MSF2_SAMPLE_RATE * 1000) (cents_exponent_q24 cents) 0"

definition runtime_config_from_generators :: "u16 list \<Rightarrow> u64 \<Rightarrow> u8 \<Rightarrow> msf2_runtime_config" where
  "runtime_config_from_generators gen presence key =
     (let hold_tc = amount_or presence gen 27 0 + (if has_generator presence 31 then amount gen 31 * (60 - uint key) else 0);
          decay_tc = amount_or presence gen 28 0 + (if has_generator presence 32 then amount gen 32 * (60 - uint key) else 0);
          sustain = clamp_i32 (amount_or presence gen 29 0) 0 1000
      in \<lparr> mc_mod_lfo_delay_ticks = rounded_ticks (amount gen 21) (has_generator presence 21) 5000 False,
           mc_mod_lfo_step = lfo_step_from_cents (amount_or presence gen 22 0),
           mc_vib_lfo_delay_ticks = rounded_ticks (amount gen 23) (has_generator presence 23) 5000 False,
           mc_vib_lfo_step = lfo_step_from_cents (amount_or presence gen 24 0),
           mc_mod_lfo_to_pitch = amount_or presence gen 5 0,
           mc_vib_lfo_to_pitch = amount_or presence gen 6 0,
           mc_mod_env_to_pitch = amount_or presence gen 7 0,
           mc_mod_lfo_to_filter_fc = amount_or presence gen 10 0,
           mc_mod_env_to_filter_fc = amount_or presence gen 11 0,
           mc_mod_lfo_to_volume = amount_or presence gen 13 0,
           mc_initial_filter_fc = amount_or presence gen 8 13500,
           mc_initial_filter_q = amount_or presence gen 9 0,
           mc_mod_env_delay_ticks = rounded_ticks (amount gen 25) (has_generator presence 25) 5000 False,
           mc_mod_env_hold_ticks =
             rounded_ticks hold_tc (has_generator presence 27 \<or> has_generator presence 31) 5000 False,
           mc_mod_env_attack_ticks = rounded_ticks (amount gen 26) (has_generator presence 26) 8000 True,
           mc_mod_env_decay_ticks = scaled_ticks decay_tc (has_generator presence 28 \<or> has_generator presence 32) sustain,
           mc_mod_env_release_ticks = rounded_ticks (amount gen 30) (has_generator presence 30) 8000 True,
           mc_mod_env_sustain_level =
             ucast ((of_int (1000 - sustain) * 32767 + 500 :: u32) div 1000),
           mc_mod_env_attack_sub_tick =
             timecent_samples (amount gen 26) (has_generator presence 26) 8000 0xffffffff < MSF2_CONTROL_TICK_SAMPLES \<rparr>)"

section \<open>The firmware packs START as the host does\<close>

definition note_region :: "msf2_note_params \<Rightarrow> region" where
  "note_region params = default_region\<lparr> rg_base_addr := np_base_addr params, rg_length := np_length params,
     rg_loop_start := np_loop_start params, rg_loop_end := np_loop_end params, rg_loop_mode := uint (np_loop_mode params),
     rg_gain_l := uint (np_gain_l params), rg_gain_r := uint (np_gain_r params),
     rg_filter_enable := np_filter_enable params, rg_filter_b0 := fq_b0 (np_filter params), rg_filter_b1 := fq_b1 (np_filter params),
     rg_filter_b2 := fq_b2 (np_filter params), rg_filter_a1 := fq_a1 (np_filter params), rg_filter_a2 := fq_a2 (np_filter params),
     rg_volume_envelope := default_volume_envelope_params\<lparr> delay_samples := np_delay_samples params,
       attack_samples := np_attack_samples params, hold_samples := np_hold_samples params, decay_samples := np_decay_samples params,
       sustain_cb_q12_20 := np_sustain_cb_q12_20 params, release_samples := np_release_samples params \<rparr> \<rparr>"

lemma ceil_divide_step: "ceil_divide n d = ceil_step n d"
  by (auto simp: ceil_divide_def ceil_step_def Let_def min_def not_le)

lemma pack_pair_same: "msf2_pack_pair = pack_pair"
  by (simp add: fun_eq_iff msf2_pack_pair_def pack_pair_def)

lemma note_region_envelope: "has_envelope (rg_volume_envelope (note_region params)) = params_have_envelope params"
  by (simp add: note_region_def has_envelope_def params_have_envelope_def)

lemma uint_eq_zero: "uint (m :: u8) = 0 \<longleftrightarrow> m = 0"
  by (simp add: word_uint_eq_iff)

lemma note_region_start_flags:
  "start_flags (note_region params) =
     (np_loop_mode params AND 3) OR (if np_filter_enable params then 4 else 0) OR (if params_have_envelope params then 8 else 0)"
  unfolding start_flags_def note_region_envelope by (simp add: note_region_def or.assoc)

lemma pack_start_words:
  assumes "v < 512"
  shows "msf2_pack_start v g params =
    Inr (voice_command kDefineMono (int v) (start_flags (note_region params)) (start_payload g (np_phase_inc params) (note_region params)))"
proof -
  let ?r = "note_region params"
  have mode: "rg_loop_mode ?r \<noteq> 0 \<longleftrightarrow> np_loop_mode params \<noteq> 0" and filter: "rg_filter_enable ?r = np_filter_enable params"
    by (simp_all add: note_region_def uint_eq_zero)
  have header: "push_bit 24 0x10 OR push_bit 14 (of_nat v) OR push_bit 8 (ucast (start_flags ?r)) OR
      ucast (5 + (if np_loop_mode params \<noteq> 0 then 2 else 0) + (if np_filter_enable params then 3 else 0) +
        (if params_have_envelope params then 6 else (0 :: u8))) =
      (command_header kDefineMono (int v) (start_flags ?r) (length (start_payload g (np_phase_inc params) ?r)) :: u32)"
    using start_payload_header [of "int v" ?r g "np_phase_inc params"] assms
    by (simp add: kNumVoices_def kDefineMono_def mode filter note_region_envelope)
  have release: "envelope_release_step ?r = ceil_divide (push_bit 20 1000) (np_release_samples params)"
    by (simp add: envelope_release_step_def kSilenceCbQ12_20_def note_region_def ceil_divide_step)
  have "start_payload g (np_phase_inc params) ?r =
      [ucast g, np_base_addr params, np_length params]
      @ (if np_loop_mode params \<noteq> 0 then [np_loop_start params, np_loop_end params] else [])
      @ [np_phase_inc params, msf2_pack_pair (uint (np_gain_r params)) (uint (np_gain_l params))]
      @ (if np_filter_enable params
         then [msf2_pack_pair (fq_b1 (np_filter params)) (fq_b0 (np_filter params)),
               msf2_pack_pair (fq_a1 (np_filter params)) (fq_b2 (np_filter params)),
               ucast (of_int (fq_a2 (np_filter params)) :: u16) OR 0x00010000]
         else [])
      @ (if params_have_envelope params
         then [np_delay_samples params, ceil_divide 0xffffffff (np_attack_samples params), np_hold_samples params,
               ceil_divide (ucast (np_sustain_cb_q12_20 params)) (np_decay_samples params),
               np_sustain_cb_q12_20 params, ceil_divide (push_bit 20 1000) (np_release_samples params)]
         else [])"
    unfolding start_payload_def Let_def note_region_envelope release
    by (simp add: note_region_def ceil_divide_step pack_pair_same uint_eq_zero)
  then show ?thesis
    using assms header
    by (simp only: msf2_pack_start_def MSF2_MAX_VOICE_COUNT_def Let_def voice_command_def note_region_start_flags [symmetric] append_Cons append_Nil)
      simp
qed

text \<open>C36: The firmware and the host speak the same START. For every voice number, generation and set of note
  parameters, \<open>msf2_pack_start\<close> produces exactly the words of the host's \<open>build_voice_start_command\<close> for the
  region with these parameters, and both refuse exactly the voice numbers from 512 on.\<close>

theorem firmware_start_equals_host_start:
  "msf2_pack_start v g params =
     (case build_voice_start_command (int v) g (np_phase_inc params) (note_region params) of
        Inl e \<Rightarrow> Inl MSF2_ERR_ARGUMENT
      | Inr c \<Rightarrow> Inr (view c))"
proof (cases "v < 512")
  case True
  have "\<not> rg_stereo (note_region params)" by (simp add: note_region_def default_region_def)
  then obtain c where c: "build_voice_start_command (int v) g (np_phase_inc params) (note_region params) = Inr c"
      "view c = voice_command kDefineMono (int v) (start_flags (note_region params)) (start_payload g (np_phase_inc params) (note_region params))"
    using build_voice_start_command_eq [of "int v" "note_region params" g "np_phase_inc params"] True by (auto simp: kNumVoices_def)
  then show ?thesis by (simp only: pack_start_words [OF True] sum.case c)
qed (simp add: msf2_pack_start_def build_voice_start_command_def MSF2_MAX_VOICE_COUNT_def kNumVoices_def)

section \<open>A materialised note stays inside its sample\<close>

lemma clamp_position_range:
  assumes "low \<le> high"
  shows "low \<le> clamp_position v low high" "clamp_position v low high \<le> high"
proof -
  have "uint (of_int v :: u32) = v" if "uint low \<le> v" "v \<le> uint high"
    using that uint_bounds(3) [of high] order_trans [OF uint_ge_0 that(1)] by (simp add: uint_word_of_int)
  then show "low \<le> clamp_position v low high" "clamp_position v low high \<le> high"
    using assms by (auto simp: clamp_position_def word_le_def)
qed

lemma sample_span_inside:
  assumes "sample_ok vw sample" and "sample_span sample gen = (start, stop, loop_start, loop_end)"
  shows "sa_start sample \<le> start" "start \<le> loop_start" "loop_start \<le> loop_end" "loop_end \<le> stop" "stop \<le> sa_end sample"
proof -
  have s: "sa_start sample \<le> start" "start \<le> sa_end sample"
    using assms clamp_position_range [of "sa_start sample" "sa_end sample"] by (auto simp: sample_ok_def sample_span_def Let_def)
  then have e: "start \<le> stop" "stop \<le> sa_end sample"
    using assms(2) clamp_position_range [of start "sa_end sample"] by (auto simp: sample_span_def Let_def)
  then have l: "start \<le> loop_start" "loop_start \<le> stop"
    using assms(2) clamp_position_range [of start stop] by (auto simp: sample_span_def Let_def)
  then have m: "loop_start \<le> loop_end" "loop_end \<le> stop"
    using assms(2) clamp_position_range [of loop_start stop] by (auto simp: sample_span_def Let_def)
  show "sa_start sample \<le> start" "start \<le> loop_start" "loop_start \<le> loop_end" "loop_end \<le> stop" "stop \<le> sa_end sample"
    using s e l m by simp_all
qed

lemma relative_span_inside:
  assumes "start \<le> stop" and "relative_span (start, stop, ls, le) = (n, a, b)"
  shows "n \<le> stop - start" "n \<le> 0x00ffffff" "b \<le> n" "0 < n \<Longrightarrow> a < b"
proof -
  show "n \<le> stop - start" "n \<le> 0x00ffffff"
    using assms by (auto simp: relative_span_def Let_def split: if_splits)
  show "b \<le> n" using assms by (auto simp: relative_span_def Let_def not_less split: if_splits)
  show "a < b" if "0 < n" using assms that by (auto simp: relative_span_def Let_def not_le split: if_splits)
qed

end
