(* ===== verification/Msf2_Playable.thy ===== *)
theory Msf2_Playable
  imports Msf2_Demo Msf2_Note
begin

text \<open>What validation of an image promises to its readers: presets and layers are found without a read outside the
  image, and every note that a zone describes plays inside the sample of the zone.\<close>

section \<open>Validation and lookup\<close>

text \<open>C35: Validation protects every lookup. The validation of any byte sequence whatever completes without reading
  outside it. Over an accepted image the search for a preset completes; when it finds one, the search for the layers of
  a key and a velocity reports that they are more than four, or finds at most four zones that cover the key and the
  velocity and whose generators decode.\<close>

theorem validation_protects_lookups:
  "msf2_view_init d \<noteq> None \<and>
   (msf2_view_init d = Some (Inr vw) \<and> key \<le> 127 \<and> velocity \<le> 127 \<longrightarrow>
     (\<exists>preset. msf2_find_preset vw program bank = Some preset \<and>
       (preset = - 1 \<or> msf2_collect_layers vw (of_int preset) key velocity = Some (Inl MSF2_ERR_CAPACITY) \<or>
         (\<exists>layers. msf2_collect_layers vw (of_int preset) key velocity = Some (Inr layers) \<and> length layers \<le> 4 \<and>
            list_all (\<lambda>zone. layer_ok vw key velocity zone \<and>
              (\<exists>amounts presence. msf2_decode_generators vw zone = Some (Inr (amounts, presence)) \<and> length amounts = 61)) layers))))"
proof (intro conjI impI)
  show "msf2_view_init d \<noteq> None" using view_init_total [of d] by (simp add: defined_def)
next
  assume a: "msf2_view_init d = Some (Inr vw) \<and> key \<le> 127 \<and> velocity \<le> 127"
  then have image: "image_ok vw" using view_init_ok by blast
  obtain preset where preset: "msf2_find_preset vw program bank = Some preset" "preset = - 1 \<or> 0 \<le> preset \<and> of_int preset < section_count vw 0"
    using find_preset_total [OF image] .
  have "list_all (\<lambda>zone. layer_ok vw key velocity zone \<and>
      (\<exists>amounts presence. msf2_decode_generators vw zone = Some (Inr (amounts, presence)) \<and> length amounts = 61)) layers"
    if "list_all (layer_ok vw key velocity) layers" for layers
    using that decode_generators_total [OF image] by (auto simp: list_all_iff layer_ok_def)
  then show "\<exists>preset. msf2_find_preset vw program bank = Some preset \<and>
       (preset = - 1 \<or> msf2_collect_layers vw (of_int preset) key velocity = Some (Inl MSF2_ERR_CAPACITY) \<or>
         (\<exists>layers. msf2_collect_layers vw (of_int preset) key velocity = Some (Inr layers) \<and> length layers \<le> 4 \<and>
            list_all (\<lambda>zone. layer_ok vw key velocity zone \<and>
              (\<exists>amounts presence. msf2_decode_generators vw zone = Some (Inr (amounts, presence)) \<and> length amounts = 61)) layers))"
    using collect_layers_total [OF image, of key velocity "of_int preset"] a preset by blast
qed

theorem validation_protects_lookups_witness:
  "\<exists>preset. msf2_find_preset (demo_view demo_image) 0 0 = Some preset \<and>
     (preset = - 1 \<or> msf2_collect_layers (demo_view demo_image) (of_int preset) 60 100 \<noteq> None)"
  using validation_protects_lookups [of demo_image "demo_view demo_image" 60 100 0 0] demo_accepted by auto

section \<open>The sample of a note\<close>

lemma view_init_words:
  assumes "msf2_view_init d = Some (Inr vw)"
  shows "(unat (vw_sample_word_offset vw) + unat (vw_sample_word_count vw)) * 2 \<le> unat (vw_source_size_bytes vw)"
proof -
  have big: "\<not> length d < 96" using assms by (auto simp: msf2_view_init_def MSF2_HEADER_SIZE_def)
  then show ?thesis
    using assms
    by (auto simp: msf2_view_init_def MSF2_HEADER_SIZE_def check_then_ok reads_eq Let_def bind_eq_Some_conv case_sum_ok not_less split: if_splits)
qed

lemma note_params_inside:
  assumes "sample_ok vw sample" and "params = note_params vw sample key gen presence"
    and "unat (vw_sample_word_offset vw) + unat (vw_sample_word_count vw) < 2 ^ 32"
  shows "unat (vw_sample_word_offset vw) + unat (sa_start sample) \<le> unat (np_base_addr params)"
    "unat (np_base_addr params) + unat (np_length params) \<le> unat (vw_sample_word_offset vw) + unat (sa_end sample)"
    "np_length params \<le> 0x00ffffff" "np_loop_end params \<le> np_length params" "0 < np_length params \<Longrightarrow> np_loop_start params < np_loop_end params"
proof -
  obtain start stop ls le where sp: "sample_span sample gen = (start, stop, ls, le)" by (cases "sample_span sample gen")
  obtain n a b where rs: "relative_span (start, stop, ls, le) = (n, a, b)" by (cases "relative_span (start, stop, ls, le)")
  note s = sample_span_inside [OF assms(1) sp]
  have order: "start \<le> stop" using s by simp
  note r = relative_span_inside [OF order rs]
  have p: "np_base_addr params = vw_sample_word_offset vw + start" "np_length params = n" "np_loop_start params = a" "np_loop_end params = b"
    by (simp_all add: assms(2) note_params_def sp rs Let_def)
  have end1: "unat (sa_end sample) \<le> unat (vw_sample_word_count vw)" using assms(1) by (simp add: sample_ok_def word_le_nat_alt)
  have u: "unat (sa_start sample) \<le> unat start" "unat start \<le> unat stop" "unat stop \<le> unat (sa_end sample)"
    using s order by (simp_all add: word_le_nat_alt)
  have base: "unat (np_base_addr params) = unat (vw_sample_word_offset vw) + unat start"
    using u end1 assms(3) by (simp add: p(1) unat_word_ariths(1))
  have "unat n \<le> unat stop - unat start" using r(1) unat_sub [OF order] by (simp add: word_le_nat_alt)
  then show "unat (np_base_addr params) + unat (np_length params) \<le> unat (vw_sample_word_offset vw) + unat (sa_end sample)"
    using u by (simp add: base p(2))
  show "unat (vw_sample_word_offset vw) + unat (sa_start sample) \<le> unat (np_base_addr params)" using u(1) by (simp add: base)
  show "np_length params \<le> 0x00ffffff" "np_loop_end params \<le> np_length params" using r(2,3) by (simp_all add: p)
  show "np_loop_start params < np_loop_end params" if "0 < np_length params" using r(4) that by (simp add: p)
qed

text \<open>C34: Every note plays inside its sample. For an accepted image whose source fits in 32 bits of bytes, every zone
  and every key, the note materialises, and its parameters address only samples of the zone's sample record, which lie
  inside the sample words the image declares: first and last word are in range without wrap-around, the length fits the
  24 bits of the command, and a note that is not empty has a loop that is not empty and ends inside it.\<close>

theorem note_plays_inside_its_sample:
  assumes "msf2_view_init d = Some (Inr vw)" and "vw_source_size_bytes vw \<le> 0xffffffff" and "zone < section_count vw 1" and "key \<le> 127"
  shows "\<exists>params z sample. msf2_materialize_note vw zone key = Some (Inr params) \<and> msf2_get_zone vw zone = Some (Inr z) \<and>
     msf2_get_sample vw (ucast (zn_sample_index z)) = Some (Inr sample) \<and>
     unat (vw_sample_word_offset vw) + unat (sa_start sample) \<le> unat (np_base_addr params) \<and>
     unat (np_base_addr params) + unat (np_length params) \<le> unat (vw_sample_word_offset vw) + unat (sa_end sample) \<and>
     sa_end sample \<le> vw_sample_word_count vw \<and> np_length params \<le> 0x00ffffff \<and> np_loop_end params \<le> np_length params \<and>
     (0 < np_length params \<longrightarrow> np_loop_start params < np_loop_end params)"
proof -
  have image: "image_ok vw" using view_init_ok [OF assms(1)] by simp
  obtain z where z: "msf2_get_zone vw zone = Some (Inr z)" "zone_ok vw z" using valid_zone [OF image assms(3)] .
  obtain sample where s: "msf2_get_sample vw (ucast (zn_sample_index z)) = Some (Inr sample)" "sample_ok vw sample"
    using valid_sample [OF image] z(2) by (auto simp: zone_ok_def)
  obtain gen presence where g: "msf2_decode_generators vw zone = Some (Inr (gen, presence))"
    using decode_generators_total [OF image assms(3)] by blast
  have "unat (vw_source_size_bytes vw) < 2 ^ 32" using assms(2) by (simp add: word_le_nat_alt)
  then have words: "unat (vw_sample_word_offset vw) + unat (vw_sample_word_count vw) < 2 ^ 32" using view_init_words [OF assms(1)] by simp
  let ?p = "note_params vw sample key gen presence"
  have "msf2_materialize_note vw zone key = Some (Inr ?p)"
    using assms(4) z(1) s(1) g by (simp add: msf2_materialize_note_def materialize_note_decoded_def not_less)
  moreover have "sa_end sample \<le> vw_sample_word_count vw" using s(2) by (simp add: sample_ok_def)
  ultimately show ?thesis
    using note_params_inside [OF s(2) refl words, of key gen presence] z(1) s(1) by blast
qed

theorem note_plays_inside_its_sample_witness:
  "\<exists>params. msf2_materialize_note (demo_view demo_image) 0 60 = Some (Inr params) \<and>
     unat (np_base_addr params) + unat (np_length params) \<le> unat (vw_sample_word_offset (demo_view demo_image)) + unat (sa_end demo_sample)"
proof -
  have "section_count (demo_view demo_image) 1 = 1" by (simp add: section_count_def demo_sections_at)
  moreover have "vw_source_size_bytes (demo_view demo_image) \<le> 0xffffffff" by (simp add: demo_view_def)
  moreover have "msf2_get_zone (demo_view demo_image) 0 = Some (Inr demo_zone)" "msf2_get_sample (demo_view demo_image) 0 = Some (Inr demo_sample)"
    by (simp_all add: demo_image_def Let_def demo_get_zone demo_get_sample)
  ultimately show ?thesis
    using note_plays_inside_its_sample [OF demo_accepted, of 0 60] by (auto simp: demo_zone_def)
qed

end
