(* ===== verification/Msf2_Runtime.thy ===== *)
theory Msf2_Runtime
  imports Msf2_Note
begin

text \<open>
  The state of the firmware's SoundFont runtime and its inner operations, from \<open>src/mcu/msf2.c\<close>: channels,
  voices and the allocator; the evaluation of the modulation programs; the refresh of a voice, which sends
  what has changed; and the fold of elapsed time over the modulation envelope and the LFOs.

  The command sink is a parameter with its own state: zero is success. An operation returns its
  \<open>msf2_result\<close> with the runtime as it is at that moment, and where it reads the image or the source curves
  the whole is an option, \<open>None\<close> being a read out of bounds. Arrays of voices, channels and list positions
  are lists indexed by natural numbers; the invariant of the allocator keeps every index in range.
\<close>

section \<open>State\<close>

definition MSF2_CHANNEL_COUNT :: nat where "MSF2_CHANNEL_COUNT = 16"
definition MSF2_MIDI_VALUE_COUNT :: nat where "MSF2_MIDI_VALUE_COUNT = 128"
definition MSF2_CONTROL_GROUP_GAIN :: u8 where "MSF2_CONTROL_GROUP_GAIN = 1"
definition MSF2_CONTROL_GROUP_PITCH :: u8 where "MSF2_CONTROL_GROUP_PITCH = 2"
definition MSF2_CONTROL_GROUP_FILTER :: u8 where "MSF2_CONTROL_GROUP_FILTER = 4"
definition MSF2_CONTROL_GROUP_ALL :: u8 where "MSF2_CONTROL_GROUP_ALL = 7"
definition MSF2_MOD_ONE :: int where "MSF2_MOD_ONE = 65536"

datatype msf2_voice_stage = MSF2_VOICE_FREE | MSF2_VOICE_ACTIVE | MSF2_VOICE_SUSTAIN_HELD | MSF2_VOICE_RELEASED

text \<open>The stage of a modulation envelope; a voice that was never started has none.\<close>

datatype msf2_env_stage = MSF2_ENV_NONE | MSF2_ENV_DELAY | MSF2_ENV_ATTACK | MSF2_ENV_HOLD | MSF2_ENV_DECAY
  | MSF2_ENV_SUSTAIN | MSF2_ENV_RELEASE

record msf2_channel_state =
  cs_cc :: "u8 list"
  cs_key_pressure :: "u8 list"
  cs_pitch_bend :: int
  cs_channel_pressure :: u8
  cs_pitch_bend_range_semitones :: u8
  cs_pitch_bend_range_cents :: u8
  cs_sustain :: bool
  cs_sostenuto :: bool
  cs_soft :: bool
  cs_dirty_groups :: u8
  cs_dirty_revision :: u32
  cs_generator_offsets_q16 :: "int list"

record msf2_voice_state =
  vs_stage :: msf2_voice_stage
  vs_channel :: u8
  vs_note :: u8
  vs_velocity :: u8
  vs_exclusive_class :: u8
  vs_effective_velocity :: int
  vs_key_released :: bool
  vs_sustain_held :: bool
  vs_sostenuto_held :: bool
  vs_periodic_groups :: u8
  vs_generation :: u16
  vs_active_position :: nat
  vs_preset_index :: u32
  vs_candidate :: u32
  vs_modulation_first_terms :: "u32 list"
  vs_modulation_term_counts :: "u16 list"
  vs_modulation_note_static_counts :: "u16 list"
  vs_modulation_programs :: "u8 list"
  vs_modulation_static_sums_q16 :: "int list"
  vs_release_step :: u32
  vs_phase_increment :: u32
  vs_base_phase_increment :: u32
  vs_gain_l :: u16
  vs_gain_r :: u16
  vs_base_gain :: u16
  vs_pan :: int
  vs_note_instance :: u32
  vs_allocation_stamp :: u32
  vs_mod_lfo_phase :: u32
  vs_vib_lfo_phase :: u32
  vs_mod_lfo_wait_ticks :: u32
  vs_vib_lfo_wait_ticks :: u32
  vs_mod_env_stage_tick :: u32
  vs_mod_env_wait_ticks :: u32
  vs_mod_env_level :: u16
  vs_mod_env_release_start :: u16
  vs_mod_env_stage :: msf2_env_stage
  vs_tremolo_attenuation_q16 :: int
  vs_filter_enable :: bool
  vs_filter :: filter_coefficients
  vs_config :: msf2_runtime_config

record msf2_runtime_stats =
  st_note_ons :: u32
  st_note_offs :: u32
  st_started_voices :: u32
  st_released_voices :: u32
  st_stopped_voices :: u32
  st_stolen_voices :: u32
  st_unmapped_notes :: u32
  st_controller_voice_updates :: u32
  st_control_voice_evaluations :: u32
  st_active_voices :: nat
  st_maximum_active_voices :: nat

record msf2_preset_cache_entry =
  pe_preset_index :: int
  pe_bank :: u16
  pe_program :: u8
  pe_valid :: bool

record 'c msf2_runtime =
  rt_view :: msf2_view
  rt_channels :: "msf2_channel_state list"
  rt_voices :: "msf2_voice_state list"
  rt_free_stack :: "nat list"
  rt_voice_capacity :: nat
  rt_free_count :: nat
  rt_active_count :: nat
  rt_active_voice_indices :: "nat list"
  rt_next_note_instance :: u32
  rt_allocation_stamp :: u32
  rt_control_tick_index :: u32
  rt_pending_tick_samples :: u32
  rt_periodic_modulation_enabled :: bool
  rt_preset_cache :: "msf2_preset_cache_entry list"
  rt_command_context :: 'c
  rt_stats :: msf2_runtime_stats

type_synonym 'c command_sink = "'c \<Rightarrow> u32 list \<Rightarrow> int \<times> 'c"

definition zero_coefficients :: filter_coefficients where
  "zero_coefficients = \<lparr> fq_b0 = 0, fq_b1 = 0, fq_b2 = 0, fq_a1 = 0, fq_a2 = 0 \<rparr>"

definition zero_config :: msf2_runtime_config where
  "zero_config = \<lparr> mc_mod_lfo_delay_ticks = 0, mc_mod_lfo_step = 0, mc_vib_lfo_delay_ticks = 0, mc_vib_lfo_step = 0,
     mc_mod_lfo_to_pitch = 0, mc_vib_lfo_to_pitch = 0, mc_mod_env_to_pitch = 0, mc_mod_lfo_to_filter_fc = 0,
     mc_mod_env_to_filter_fc = 0, mc_mod_lfo_to_volume = 0, mc_initial_filter_fc = 0, mc_initial_filter_q = 0,
     mc_mod_env_delay_ticks = 0, mc_mod_env_hold_ticks = 0, mc_mod_env_attack_ticks = 0, mc_mod_env_decay_ticks = 0,
     mc_mod_env_release_ticks = 0, mc_mod_env_sustain_level = 0, mc_mod_env_attack_sub_tick = False \<rparr>"

text \<open>The voice \<open>(msf2_voice_state){0}\<close>.\<close>

definition zero_voice :: msf2_voice_state where
  "zero_voice = \<lparr> vs_stage = MSF2_VOICE_FREE, vs_channel = 0, vs_note = 0, vs_velocity = 0, vs_exclusive_class = 0,
     vs_effective_velocity = 0, vs_key_released = False, vs_sustain_held = False, vs_sostenuto_held = False,
     vs_periodic_groups = 0, vs_generation = 0, vs_active_position = 0, vs_preset_index = 0, vs_candidate = 0,
     vs_modulation_first_terms = [0, 0, 0], vs_modulation_term_counts = [0, 0, 0],
     vs_modulation_note_static_counts = [0, 0, 0], vs_modulation_programs = [0, 0, 0],
     vs_modulation_static_sums_q16 = replicate 10 0, vs_release_step = 0, vs_phase_increment = 0,
     vs_base_phase_increment = 0, vs_gain_l = 0, vs_gain_r = 0, vs_base_gain = 0, vs_pan = 0, vs_note_instance = 0,
     vs_allocation_stamp = 0, vs_mod_lfo_phase = 0, vs_vib_lfo_phase = 0, vs_mod_lfo_wait_ticks = 0,
     vs_vib_lfo_wait_ticks = 0, vs_mod_env_stage_tick = 0, vs_mod_env_wait_ticks = 0, vs_mod_env_level = 0,
     vs_mod_env_release_start = 0, vs_mod_env_stage = MSF2_ENV_NONE, vs_tremolo_attenuation_q16 = 0,
     vs_filter_enable = False, vs_filter = zero_coefficients, vs_config = zero_config \<rparr>"

definition set_voice :: "nat \<Rightarrow> msf2_voice_state \<Rightarrow> 'c msf2_runtime \<Rightarrow> 'c msf2_runtime" where
  "set_voice v x r = r\<lparr> rt_voices := (rt_voices r)[v := x] \<rparr>"

definition update_stats :: "(msf2_runtime_stats \<Rightarrow> msf2_runtime_stats) \<Rightarrow> 'c msf2_runtime \<Rightarrow> 'c msf2_runtime" where
  "update_stats f r = r\<lparr> rt_stats := f (rt_stats r) \<rparr>"

definition channel_of :: "'c msf2_runtime \<Rightarrow> msf2_voice_state \<Rightarrow> msf2_channel_state" where
  "channel_of r voice = rt_channels r ! unat (vs_channel voice)"

section \<open>Modulation sources and programs\<close>

definition source_curve_id :: "u16 \<Rightarrow> nat" where
  "source_curve_id source =
     unat ((drop_bit 10 source AND 3) OR (if source AND 0x0200 \<noteq> 0 then 4 else 0) OR (if source AND 0x0100 \<noteq> 0 then 8 else 0))"

text \<open>The native value of a source of seven bits.\<close>

definition native_value :: "u16 \<Rightarrow> u16 \<Rightarrow> msf2_channel_state \<Rightarrow> msf2_voice_state \<Rightarrow> nat" where
  "native_value source index channel voice =
     (let native =
            (if source AND 0x0080 \<noteq> 0 then unat (cs_cc channel ! unat index)
             else if index = 2 then (if vs_effective_velocity voice \<ge> 0 then nat (vs_effective_velocity voice) else unat (vs_velocity voice))
             else if index = 3 then unat (vs_note voice)
             else if index = 10 then unat (cs_key_pressure channel ! unat (vs_note voice))
             else if index = 13 then unat (cs_channel_pressure channel)
             else 0)
      in if index = 2 \<and> native = 0 then 1 else native)"

definition source_value_q16 :: "u16 \<Rightarrow> msf2_channel_state \<Rightarrow> msf2_voice_state \<Rightarrow> int option" where
  "source_value_q16 source channel voice =
     (let index = source AND 0x007f
      in if source = 0 then Some MSF2_MOD_ONE
         else if source AND 0x0080 = 0 \<and> index = 14
         then (let v = cs_pitch_bend channel * 8 in Some (if source AND 0x0100 \<noteq> 0 then - v else v))
         else if source AND 0x0080 = 0 \<and> index = 16
         then (let hundredths = uint (cs_pitch_bend_range_semitones channel) * 100 + uint (cs_pitch_bend_range_cents channel);
                   v = clamp_i32 ((hundredths * MSF2_MOD_ONE + 50) sdiv 100) 0 (127 * MSF2_MOD_ONE);
                   v1 = (if source AND 0x0100 \<noteq> 0 then 127 * MSF2_MOD_ONE - v else v)
               in Some (v1 sdiv 128))
         else (let native = native_value source index channel voice
               in if native < MSF2_MIDI_VALUE_COUNT then Some (msf2_lut_source_curve_q16 ! source_curve_id source ! native) else None))"

definition multiply_q16 :: "int \<Rightarrow> int \<Rightarrow> int" where
  "multiply_q16 a b = (let product = a * b in (product + (if product \<ge> 0 then 32768 else - 32768)) sdiv MSF2_MOD_ONE)"

definition modulation_destinations :: "u16 list list" where
  "modulation_destinations = [[13, 48, 17], [0, 5, 6, 7], [8, 10, 11]]"

definition modulation_static_offsets :: "nat list" where
  "modulation_static_offsets = [0, 3, 7]"

definition modulation_include_note_sources :: "bool list list" where
  "modulation_include_note_sources = [[True, False, False], [True, True, True, True], [True, True, True]]"

text \<open>The position of a destination in its family, the number of outputs when it has none.\<close>

definition output_index :: "nat \<Rightarrow> u16 \<Rightarrow> nat" where
  "output_index slot destination = length (takeWhile (\<lambda>d. d \<noteq> destination) (modulation_destinations ! slot))"

text \<open>One term: its output and its value, or nothing when the term is not for this family.\<close>

definition term_value ::
    "msf2_view \<Rightarrow> msf2_channel_state \<Rightarrow> msf2_voice_state \<Rightarrow> nat \<Rightarrow> nat \<Rightarrow> (nat \<times> int) option option" where
  "term_value vw channel voice slot local =
     do { term \<leftarrow> record_at vw 6 (vs_modulation_first_terms voice ! slot + of_nat local);
          destination \<leftarrow> read_u16 (vw_data vw) (term + 2);
          dependencies \<leftarrow> read_u16 (vw_data vw) (term + 10);
          let output = output_index slot destination;
          if output = length (modulation_destinations ! slot) \<or>
             (\<not> modulation_include_note_sources ! slot ! output \<and> dependencies AND 1 \<noteq> 0)
          then Some None
          else do { source \<leftarrow> read_u16 (vw_data vw) term; amount_source \<leftarrow> read_u16 (vw_data vw) (term + 6);
                    source_value \<leftarrow> source_value_q16 source channel voice;
                    amount_value \<leftarrow> source_value_q16 amount_source channel voice;
                    term_amount \<leftarrow> read_u16 (vw_data vw) (term + 4);
                    transform \<leftarrow> read_u16 (vw_data vw) (term + 8);
                    let v = multiply_q16 source_value amount_value * s16 term_amount;
                    Some (Some (output, if transform = 2 \<and> v < 0 then - v else v)) } }"

fun add_terms ::
    "msf2_view \<Rightarrow> msf2_channel_state \<Rightarrow> msf2_voice_state \<Rightarrow> nat \<Rightarrow> nat \<Rightarrow> nat list \<Rightarrow> int list \<Rightarrow> int list option" where
  "add_terms vw channel voice slot offset [] acc = Some acc"
| "add_terms vw channel voice slot offset (local # ls) acc =
     do { t \<leftarrow> term_value vw channel voice slot local;
          add_terms vw channel voice slot offset ls
            (case t of None \<Rightarrow> acc | Some (output, v) \<Rightarrow> acc[offset + output := acc ! (offset + output) + v]) }"

definition destination_sums_q16 :: "'c msf2_runtime \<Rightarrow> msf2_voice_state \<Rightarrow> nat \<Rightarrow> int list option" where
  "destination_sums_q16 r voice slot =
     (let channel = channel_of r voice;
          acc = map (\<lambda>output. cs_generator_offsets_q16 channel ! unat (modulation_destinations ! slot ! output) +
                   vs_modulation_static_sums_q16 voice ! (modulation_static_offsets ! slot + output))
                 [0..<length (modulation_destinations ! slot)]
      in if vs_modulation_programs voice ! slot = 0xff then Some acc
         else add_terms (rt_view r) channel voice slot 0
                [unat (vs_modulation_note_static_counts voice ! slot)..<unat (vs_modulation_term_counts voice ! slot)] acc)"

definition candidate_programs :: "msf2_view \<Rightarrow> u32 \<Rightarrow> u8 list option" where
  "candidate_programs vw candidate =
     do { p \<leftarrow> record_at vw 4 candidate; a \<leftarrow> byte_at (vw_data vw) p; b \<leftarrow> byte_at (vw_data vw) (p + 1);
          c \<leftarrow> byte_at (vw_data vw) (p + 2); Some [a, b, c] }"

fun cache_programs :: "msf2_view \<Rightarrow> nat list \<Rightarrow> msf2_voice_state \<Rightarrow> msf2_voice_state option" where
  "cache_programs vw [] voice = Some voice"
| "cache_programs vw (slot # ss) voice =
     (if vs_modulation_programs voice ! slot = 0xff
      then cache_programs vw ss
             (voice\<lparr> vs_modulation_first_terms := (vs_modulation_first_terms voice)[slot := 0],
                vs_modulation_term_counts := (vs_modulation_term_counts voice)[slot := 0],
                vs_modulation_note_static_counts := (vs_modulation_note_static_counts voice)[slot := 0] \<rparr>)
      else do { program \<leftarrow> record_at vw 5 (ucast (vs_modulation_programs voice ! slot));
                first \<leftarrow> read_u32 (vw_data vw) program;
                count \<leftarrow> read_u16 (vw_data vw) (program + 4);
                note_count \<leftarrow> read_u16 (vw_data vw) (program + 6);
                cache_programs vw ss
                  (voice\<lparr> vs_modulation_first_terms := (vs_modulation_first_terms voice)[slot := first],
                     vs_modulation_term_counts := (vs_modulation_term_counts voice)[slot := count],
                     vs_modulation_note_static_counts := (vs_modulation_note_static_counts voice)[slot := note_count] \<rparr>) })"

definition cache_candidate_programs :: "msf2_view \<Rightarrow> msf2_voice_state \<Rightarrow> msf2_voice_state option" where
  "cache_candidate_programs vw voice =
     do { programs \<leftarrow> candidate_programs vw (vs_candidate voice);
          cache_programs vw [0..<3] (voice\<lparr> vs_modulation_programs := programs \<rparr>) }"

fun cache_static_slots :: "msf2_view \<Rightarrow> msf2_channel_state \<Rightarrow> nat list \<Rightarrow> msf2_voice_state \<Rightarrow> msf2_voice_state option" where
  "cache_static_slots vw channel [] voice = Some voice"
| "cache_static_slots vw channel (slot # ss) voice =
     do { acc \<leftarrow> add_terms vw channel voice slot (modulation_static_offsets ! slot)
                    [0..<unat (vs_modulation_note_static_counts voice ! slot)] (vs_modulation_static_sums_q16 voice);
          cache_static_slots vw channel ss (voice\<lparr> vs_modulation_static_sums_q16 := acc \<rparr>) }"

definition cache_note_static_modulation :: "'c msf2_runtime \<Rightarrow> msf2_voice_state \<Rightarrow> msf2_voice_state option" where
  "cache_note_static_modulation r voice = cache_static_slots (rt_view r) (channel_of r voice) [0..<3] voice"

fun has_destination_loop :: "msf2_view \<Rightarrow> u32 \<Rightarrow> u16 \<Rightarrow> nat list \<Rightarrow> bool option" where
  "has_destination_loop vw first destination [] = Some False"
| "has_destination_loop vw first destination (local # ls) =
     do { term \<leftarrow> record_at vw 6 (first + of_nat local); d \<leftarrow> read_u16 (vw_data vw) (term + 2);
          if d = destination then Some True else has_destination_loop vw first destination ls }"

definition program_has_destination :: "msf2_view \<Rightarrow> msf2_voice_state \<Rightarrow> nat \<Rightarrow> u16 \<Rightarrow> bool option" where
  "program_has_destination vw voice slot destination =
     (if vs_modulation_programs voice ! slot = 0xff then Some False
      else has_destination_loop vw (vs_modulation_first_terms voice ! slot) destination
             [0..<unat (vs_modulation_term_counts voice ! slot)])"

text \<open>A disjunction that stops at the first true operand.\<close>

fun any_of :: "bool option list \<Rightarrow> bool option" where
  "any_of [] = Some False"
| "any_of (b # bs) = do { x \<leftarrow> b; if x then Some True else any_of bs }"

definition voice_periodic_groups :: "msf2_view \<Rightarrow> msf2_voice_state \<Rightarrow> u8 option" where
  "voice_periodic_groups vw voice =
     (let config = vs_config voice; has = program_has_destination vw voice
      in do { gain \<leftarrow> any_of [Some (mc_mod_lfo_to_volume config \<noteq> 0), has 0 13];
              pitch \<leftarrow> any_of [Some (mc_mod_lfo_to_pitch config \<noteq> 0), Some (mc_vib_lfo_to_pitch config \<noteq> 0),
                         Some (mc_mod_env_to_pitch config \<noteq> 0), has 1 5, has 1 6, has 1 7];
              filter \<leftarrow> any_of [Some (mc_mod_lfo_to_filter_fc config \<noteq> 0), Some (mc_mod_env_to_filter_fc config \<noteq> 0),
                          has 2 10, has 2 11];
              Some ((if gain then MSF2_CONTROL_GROUP_GAIN else 0) OR (if pitch then MSF2_CONTROL_GROUP_PITCH else 0) OR
                    (if filter then MSF2_CONTROL_GROUP_FILTER else 0)) })"

section \<open>Values sent to a voice\<close>

definition phase_with_cents :: "u32 \<Rightarrow> int \<Rightarrow> u32" where
  "phase_with_cents base cents_q16 =
     (let limit = 24000 * MSF2_MOD_ONE;
          c1 = (if cents_q16 < - limit then - limit else cents_q16);
          cents = i32 (if c1 > limit then limit else c1);
          exponent_q24 = (cents sdiv 75) * 16 + (cents smod 75 * 16) sdiv 75
      in scale_u32_by_exp2_q24 base exponent_q24 1)"

text \<open>Rounding a Q16 value to the nearest integer, halves away from zero.\<close>

definition round_q16 :: "int \<Rightarrow> int" where
  "round_q16 x = (x + (if x \<ge> 0 then 32768 else - 32768)) sdiv MSF2_MOD_ONE"

definition gains_with_modulation :: "u16 \<Rightarrow> int \<Rightarrow> int \<Rightarrow> int \<Rightarrow> u16 \<times> u16" where
  "gains_with_modulation base_gain base_pan attenuation_q16 pan_q16 =
     (let combined = base_pan * MSF2_MOD_ONE + pan_q16;
          pan = clamp_i32 (i32 (round_q16 combined)) (- 500) 500;
          a1 = (if attenuation_q16 < - 2000 * MSF2_MOD_ONE then - 2000 * MSF2_MOD_ONE else attenuation_q16);
          a2 = (if a1 > 4000 * MSF2_MOD_ONE then 4000 * MSF2_MOD_ONE else a1);
          exponent_q24 = (- (a2 * 278663)) sdiv MSF2_MOD_ONE;
          s = scale_u32_by_exp2_q24 (ucast base_gain) exponent_q24 0;
          scaled = (if s > 32767 then 32767 else s);
          position = of_int (pan + 500) :: u32
      in (panned_gain scaled (pan_sine_q30 (1000 - position)), panned_gain scaled (pan_sine_q30 position)))"

definition filter_from_cents :: "int \<Rightarrow> int \<Rightarrow> filter_coefficients" where
  "filter_from_cents cutoff_cents resonance_cb =
     lowpass_filter (clamp_i32 cutoff_cents 1500 13500) (((clamp_i32 resonance_cb 0 960 + 1) sdiv 2) * 2)"

text \<open>The cutoff in Q16 cents is clamped, then rounded.\<close>

definition filter_from_cutoff_q16 :: "int \<Rightarrow> int \<Rightarrow> filter_coefficients" where
  "filter_from_cutoff_q16 cutoff resonance_cb =
     (let c1 = (if cutoff < 1500 * MSF2_MOD_ONE then 1500 * MSF2_MOD_ONE else cutoff);
          c2 = (if c1 > 13500 * MSF2_MOD_ONE then 13500 * MSF2_MOD_ONE else c1)
      in filter_from_cents (i32 (round_q16 c2)) resonance_cb)"

section \<open>Commands and the allocator\<close>

definition emit_command :: "'c command_sink \<Rightarrow> u32 list \<Rightarrow> 'c msf2_runtime \<Rightarrow> msf2_result \<times> 'c msf2_runtime" where
  "emit_command sink words r =
     (case sink (rt_command_context r) words of
        (status, c) \<Rightarrow> (if status = 0 then MSF2_OK else MSF2_ERR_SINK, r\<lparr> rt_command_context := c \<rparr>))"

definition short_words :: "u8 \<Rightarrow> nat \<Rightarrow> u16 \<Rightarrow> u32 option \<Rightarrow> u32 list" where
  "short_words opcode voice generation v =
     [push_bit 24 (ucast opcode) OR push_bit 14 (of_nat voice) OR (if v \<noteq> None then 2 else 1), ucast generation]
     @ (case v of None \<Rightarrow> [] | Some x \<Rightarrow> [x])"

definition emit_short ::
    "'c command_sink \<Rightarrow> u8 \<Rightarrow> nat \<Rightarrow> u16 \<Rightarrow> u32 option \<Rightarrow> 'c msf2_runtime \<Rightarrow> msf2_result \<times> 'c msf2_runtime" where
  "emit_short sink opcode voice generation v r = emit_command sink (short_words opcode voice generation v) r"

definition reclaim_voice :: "nat \<Rightarrow> 'c msf2_runtime \<Rightarrow> 'c msf2_runtime" where
  "reclaim_voice v r =
     (if vs_stage (rt_voices r ! v) = MSF2_VOICE_FREE then r
      else
        (let position = vs_active_position (rt_voices r ! v);
             active_count = rt_active_count r - 1;
             replacement = rt_active_voice_indices r ! active_count;
             voices1 = (rt_voices r)[replacement := (rt_voices r ! replacement)\<lparr> vs_active_position := position \<rparr>];
             voices2 = voices1[v := (voices1 ! v)\<lparr> vs_stage := MSF2_VOICE_FREE \<rparr>]
         in r\<lparr> rt_active_count := active_count,
              rt_active_voice_indices := (rt_active_voice_indices r)[position := replacement],
              rt_voices := voices2,
              rt_free_stack := (rt_free_stack r)[rt_free_count r := v], rt_free_count := rt_free_count r + 1,
              rt_stats := (rt_stats r)\<lparr> st_active_voices := st_active_voices (rt_stats r) - 1 \<rparr> \<rparr>))"

definition activate_voice :: "nat \<Rightarrow> 'c msf2_runtime \<Rightarrow> 'c msf2_runtime" where
  "activate_voice v r =
     (let active_voices = st_active_voices (rt_stats r) + 1
      in r\<lparr> rt_voices := (rt_voices r)[v := (rt_voices r ! v)\<lparr> vs_active_position := rt_active_count r \<rparr>],
            rt_active_voice_indices := (rt_active_voice_indices r)[rt_active_count r := v],
            rt_active_count := rt_active_count r + 1,
            rt_stats := (rt_stats r)\<lparr> st_active_voices := active_voices,
              st_maximum_active_voices :=
                (if active_voices > st_maximum_active_voices (rt_stats r) then active_voices
                 else st_maximum_active_voices (rt_stats r)) \<rparr> \<rparr>)"

definition abandon_unpublished_voice :: "nat \<Rightarrow> 'c msf2_runtime \<Rightarrow> 'c msf2_runtime" where
  "abandon_unpublished_voice v r =
     r\<lparr> rt_voices := (rt_voices r)[v := (rt_voices r ! v)\<lparr> vs_stage := MSF2_VOICE_FREE \<rparr>],
        rt_free_stack := (rt_free_stack r)[rt_free_count r := v], rt_free_count := rt_free_count r + 1 \<rparr>"

definition stop_voice_fw :: "'c command_sink \<Rightarrow> nat \<Rightarrow> 'c msf2_runtime \<Rightarrow> msf2_result \<times> 'c msf2_runtime" where
  "stop_voice_fw sink v r =
     (if vs_stage (rt_voices r ! v) = MSF2_VOICE_FREE then (MSF2_OK, r)
      else case emit_short sink 0x15 v (vs_generation (rt_voices r ! v)) None r of
             (MSF2_OK, r1) \<Rightarrow>
               (MSF2_OK, set_voice v ((rt_voices r1 ! v)\<lparr> vs_stage := MSF2_VOICE_RELEASED, vs_sustain_held := False,
                            vs_sostenuto_held := False \<rparr>)
                          (update_stats (\<lambda>s. s\<lparr> st_stopped_voices := st_stopped_voices s + 1 \<rparr>) r1))
           | (e, r1) \<Rightarrow> (e, r1))"

definition release_voice_fw :: "'c command_sink \<Rightarrow> nat \<Rightarrow> 'c msf2_runtime \<Rightarrow> msf2_result \<times> 'c msf2_runtime" where
  "release_voice_fw sink v r =
     (let state = rt_voices r ! v
      in if vs_stage state = MSF2_VOICE_FREE \<or> vs_stage state = MSF2_VOICE_RELEASED then (MSF2_OK, r)
         else case emit_short sink 0x14 v (vs_generation state) (Some (vs_release_step state)) r of
                (MSF2_OK, r1) \<Rightarrow>
                  (MSF2_OK, set_voice v (state\<lparr> vs_stage := MSF2_VOICE_RELEASED, vs_sustain_held := False,
                               vs_sostenuto_held := False, vs_mod_env_stage := MSF2_ENV_RELEASE,
                               vs_mod_env_stage_tick := 0, vs_mod_env_release_start := vs_mod_env_level state \<rparr>)
                             (update_stats (\<lambda>s. s\<lparr> st_released_voices := st_released_voices s + 1 \<rparr>) r1))
              | (e, r1) \<Rightarrow> (e, r1))"

text \<open>The voice to steal: a released one before the others, then the oldest.\<close>

definition better_victim :: "msf2_voice_state \<Rightarrow> msf2_voice_state \<Rightarrow> bool" where
  "better_victim candidate selected \<longleftrightarrow>
     (vs_stage candidate = MSF2_VOICE_RELEASED \<and> vs_stage selected \<noteq> MSF2_VOICE_RELEASED) \<or>
     (vs_stage candidate = vs_stage selected \<and> vs_allocation_stamp candidate < vs_allocation_stamp selected)"

definition steal_victim :: "'c msf2_runtime \<Rightarrow> nat" where
  "steal_victim r =
     foldl (\<lambda>victim index.
         (let candidate = rt_active_voice_indices r ! index
          in if better_victim (rt_voices r ! candidate) (rt_voices r ! victim) then candidate else victim))
       (rt_active_voice_indices r ! 0) [1..<rt_active_count r]"

definition allocate_voice :: "'c msf2_runtime \<Rightarrow> nat \<times> 'c msf2_runtime" where
  "allocate_voice r =
     (if rt_free_count r \<noteq> 0
      then (rt_free_stack r ! (rt_free_count r - 1), r\<lparr> rt_free_count := rt_free_count r - 1 \<rparr>)
      else
        (let r1 = reclaim_voice (steal_victim r) r;
             r2 = r1\<lparr> rt_free_count := rt_free_count r1 - 1 \<rparr>
         in (rt_free_stack r2 ! rt_free_count r2,
             update_stats (\<lambda>s. s\<lparr> st_stolen_voices := st_stolen_voices s + 1 \<rparr>) r2)))"

end
