(* ===== verification/Msf2_Control.thy ===== *)
theory Msf2_Control
  imports Msf2_Runtime
begin

text \<open>
  The control rate of the firmware's SoundFont runtime (\<open>src/mcu/msf2.c\<close>): refreshing the parameters of a
  voice, advancing its modulation envelope and LFOs, and the ways time passes over all voices: sample by
  sample, in whole ticks, or in slices of a background job.

  The lemmas show that folding any number of elapsed ticks over a voice leaves the envelope and the LFOs
  exactly where the same number of single ticks would.
\<close>

section \<open>Refreshing a voice\<close>

definition lfo_q16 :: "u32 \<Rightarrow> int" where
  "lfo_q16 phase =
     (let x = uint (phase AND 0xffff)
      in if x < 16384 then x * 4 else if x < 49152 then 131072 - x * 4 else x * 4 - 262144)"

definition linear_level :: "u16 \<Rightarrow> u16 \<Rightarrow> u32 \<Rightarrow> u32 \<Rightarrow> u16" where
  "linear_level start target tick ticks =
     (if tick \<ge> ticks then target
      else
        (let t = (if tick = 0 then 1 else uint tick); n = (if ticks = 0 then 1 else uint ticks);
             delta = uint target - uint start;
             v = uint start + (delta * t + n div 2) sdiv n;
             v1 = (if v < 0 then 0 else v)
         in of_int (if v1 > 32767 then 32767 else v1)))"

definition env_value_q16 :: "u16 \<Rightarrow> int" where
  "env_value_q16 level = i32 ((uint level * MSF2_MOD_ONE + 16383) div 32767)"

text \<open>The inputs of a refresh: the two LFOs and the envelope, all zero when periodic modulation is off.\<close>

definition periodic_inputs :: "'c msf2_runtime \<Rightarrow> msf2_voice_state \<Rightarrow> int \<times> int \<times> int" where
  "periodic_inputs r voice =
     (if rt_periodic_modulation_enabled r
      then (if vs_mod_lfo_wait_ticks voice = 0 then lfo_q16 (vs_mod_lfo_phase voice) else 0,
            if vs_vib_lfo_wait_ticks voice = 0 then lfo_q16 (vs_vib_lfo_phase voice) else 0,
            env_value_q16 (vs_mod_env_level voice))
      else (0, 0, 0))"

definition modulated_phase :: "'c msf2_runtime \<Rightarrow> msf2_voice_state \<Rightarrow> int \<Rightarrow> int \<Rightarrow> int \<Rightarrow> u32 option" where
  "modulated_phase r voice mod_lfo vib_lfo env_q16 =
     do { acc \<leftarrow> destination_sums_q16 r voice 1;
          let offsets = cs_generator_offsets_q16 (channel_of r voice);
          let config = vs_config voice;
          Some (phase_with_cents (vs_base_phase_increment voice)
            (acc ! 0 + offsets ! 51 + offsets ! 52 +
             multiply_q16 mod_lfo (mc_mod_lfo_to_pitch config * MSF2_MOD_ONE + acc ! 1) +
             multiply_q16 vib_lfo (mc_vib_lfo_to_pitch config * MSF2_MOD_ONE + acc ! 2) +
             multiply_q16 env_q16 (mc_mod_env_to_pitch config * MSF2_MOD_ONE + acc ! 3))) }"

definition soft_attenuation :: "msf2_channel_state \<Rightarrow> int" where
  "soft_attenuation channel = (if cs_soft channel then 30 * MSF2_MOD_ONE else 0)"

definition refresh_pitch ::
    "'c command_sink \<Rightarrow> nat \<Rightarrow> int \<times> int \<times> int \<Rightarrow> 'c msf2_runtime \<Rightarrow> (msf2_result \<times> 'c msf2_runtime) option" where
  "refresh_pitch sink v inputs r =
     (case inputs of (mod_lfo, vib_lfo, env_q16) \<Rightarrow>
        (let voice = rt_voices r ! v
         in do { phase \<leftarrow> modulated_phase r voice mod_lfo vib_lfo env_q16;
                 if phase = vs_phase_increment voice then Some (MSF2_OK, r)
                 else Some (case emit_short sink 0x18 v (vs_generation voice) (Some phase) r of
                        (MSF2_OK, r1) \<Rightarrow>
                          (MSF2_OK, set_voice v (voice\<lparr> vs_phase_increment := phase \<rparr>)
                            (update_stats (\<lambda>s. s\<lparr> st_controller_voice_updates := st_controller_voice_updates s + 1 \<rparr>) r1))
                      | (e, r1) \<Rightarrow> (e, r1)) }))"

definition refresh_gain ::
    "'c command_sink \<Rightarrow> nat \<Rightarrow> int \<times> int \<times> int \<Rightarrow> 'c msf2_runtime \<Rightarrow> (msf2_result \<times> 'c msf2_runtime) option" where
  "refresh_gain sink v inputs r =
     (case inputs of (mod_lfo, vib_lfo, env_q16) \<Rightarrow>
        (let voice = rt_voices r ! v
         in do { acc \<leftarrow> destination_sums_q16 r voice 0;
                 let tremolo = i32 (- multiply_q16 mod_lfo (mc_mod_lfo_to_volume (vs_config voice) * MSF2_MOD_ONE + acc ! 0));
                 let voice1 = voice\<lparr> vs_tremolo_attenuation_q16 := tremolo \<rparr>;
                 let gains = gains_with_modulation (vs_base_gain voice) (vs_pan voice)
                   (acc ! 1 + tremolo + soft_attenuation (channel_of r voice)) (acc ! 2);
                 let r1 = set_voice v voice1 r;
                 if gains = (vs_gain_l voice, vs_gain_r voice) then Some (MSF2_OK, r1)
                 else Some (case emit_short sink 0x16 v (vs_generation voice)
                              (Some (msf2_pack_pair (uint (snd gains)) (uint (fst gains)))) r1 of
                        (MSF2_OK, r2) \<Rightarrow>
                          (MSF2_OK, set_voice v (voice1\<lparr> vs_gain_l := fst gains, vs_gain_r := snd gains \<rparr>)
                            (update_stats (\<lambda>s. s\<lparr> st_controller_voice_updates := st_controller_voice_updates s + 1 \<rparr>) r2))
                      | (e, r2) \<Rightarrow> (e, r2)) }))"

definition filter_words :: "nat \<Rightarrow> u16 \<Rightarrow> filter_coefficients \<Rightarrow> u32 list" where
  "filter_words v generation f =
     [push_bit 24 0x17 OR push_bit 14 (of_nat v) OR 4, ucast generation,
      msf2_pack_pair (fq_b1 f) (fq_b0 f), msf2_pack_pair (fq_a1 f) (fq_b2 f), ucast (of_int (fq_a2 f) :: u16) OR 0x00010000]"

definition refresh_filter ::
    "'c command_sink \<Rightarrow> nat \<Rightarrow> int \<times> int \<times> int \<Rightarrow> 'c msf2_runtime \<Rightarrow> (msf2_result \<times> 'c msf2_runtime) option" where
  "refresh_filter sink v inputs r =
     (case inputs of (mod_lfo, vib_lfo, env_q16) \<Rightarrow>
        (let voice = rt_voices r ! v; config = vs_config voice
         in do { acc \<leftarrow> destination_sums_q16 r voice 2;
                 let f = filter_from_cutoff_q16
                   (mc_initial_filter_fc config * MSF2_MOD_ONE + acc ! 0 +
                    multiply_q16 mod_lfo (mc_mod_lfo_to_filter_fc config * MSF2_MOD_ONE + acc ! 1) +
                    multiply_q16 env_q16 (mc_mod_env_to_filter_fc config * MSF2_MOD_ONE + acc ! 2))
                   (mc_initial_filter_q config);
                 if vs_filter_enable voice \<and> f = vs_filter voice then Some (MSF2_OK, r)
                 else Some (case emit_command sink (filter_words v (vs_generation voice) f) r of
                        (MSF2_OK, r1) \<Rightarrow>
                          (MSF2_OK, set_voice v (voice\<lparr> vs_filter_enable := True, vs_filter := f \<rparr>)
                            (update_stats (\<lambda>s. s\<lparr> st_controller_voice_updates := st_controller_voice_updates s + 1 \<rparr>) r1))
                      | (e, r1) \<Rightarrow> (e, r1)) }))"

text \<open>One step of an operation that stops at the first failure.\<close>

definition and_then ::
    "(msf2_result \<times> 'r) option \<Rightarrow> ('r \<Rightarrow> (msf2_result \<times> 'r) option) \<Rightarrow> (msf2_result \<times> 'r) option" where
  "and_then m f = do { x \<leftarrow> m; case x of (MSF2_OK, r) \<Rightarrow> f r | (e, r) \<Rightarrow> Some (e, r) }"

definition when_group ::
    "u8 \<Rightarrow> u8 \<Rightarrow> ('r \<Rightarrow> (msf2_result \<times> 'r) option) \<Rightarrow> 'r \<Rightarrow> (msf2_result \<times> 'r) option" where
  "when_group groups g f r = (if groups AND g \<noteq> 0 then f r else Some (MSF2_OK, r))"

definition refresh_voice ::
    "'c command_sink \<Rightarrow> nat \<Rightarrow> u8 \<Rightarrow> 'c msf2_runtime \<Rightarrow> (msf2_result \<times> 'c msf2_runtime) option" where
  "refresh_voice sink v groups r =
     (if vs_stage (rt_voices r ! v) = MSF2_VOICE_FREE then Some (MSF2_OK, r)
      else
        (let r1 = update_stats (\<lambda>s. s\<lparr> st_control_voice_evaluations := st_control_voice_evaluations s + 1 \<rparr>) r;
             inputs = periodic_inputs r1 (rt_voices r1 ! v)
         in and_then (when_group groups MSF2_CONTROL_GROUP_PITCH (refresh_pitch sink v inputs) r1) (\<lambda>r2.
            and_then (when_group groups MSF2_CONTROL_GROUP_GAIN (refresh_gain sink v inputs) r2) (\<lambda>r3.
              when_group groups MSF2_CONTROL_GROUP_FILTER (refresh_filter sink v inputs) r3))))"

section \<open>Elapsed time in a voice\<close>

definition after_wait :: "msf2_env_stage \<Rightarrow> msf2_env_stage" where
  "after_wait stage = (if stage = MSF2_ENV_DELAY then MSF2_ENV_ATTACK else MSF2_ENV_DECAY)"

definition attack_stage :: "u32 \<Rightarrow> msf2_voice_state \<Rightarrow> msf2_voice_state" where
  "attack_stage duration voice =
     (let voice1 = voice\<lparr> vs_mod_env_level := linear_level 0 32767 (vs_mod_env_stage_tick voice) duration \<rparr>
      in if vs_mod_env_stage_tick voice \<ge> duration
         then voice1\<lparr> vs_mod_env_level := 32767, vs_mod_env_stage_tick := 0,
                vs_mod_env_wait_ticks := mc_mod_env_hold_ticks (vs_config voice),
                vs_mod_env_stage := (if mc_mod_env_hold_ticks (vs_config voice) \<noteq> 0 then MSF2_ENV_HOLD else MSF2_ENV_DECAY) \<rparr>
         else voice1)"

definition decay_stage :: "u32 \<Rightarrow> msf2_voice_state \<Rightarrow> msf2_voice_state" where
  "decay_stage duration voice =
     (let voice1 = voice\<lparr> vs_mod_env_level :=
            linear_level 32767 (mc_mod_env_sustain_level (vs_config voice)) (vs_mod_env_stage_tick voice) duration \<rparr>
      in if vs_mod_env_stage_tick voice \<ge> duration
         then voice1\<lparr> vs_mod_env_level := mc_mod_env_sustain_level (vs_config voice), vs_mod_env_stage_tick := 0,
                vs_mod_env_stage := MSF2_ENV_SUSTAIN \<rparr>
         else voice1)"

text \<open>The ticks consumed in a stage with \<open>remaining\<close> ticks to go, and how many an attack or decay has to go.\<close>

definition tick_advance :: "u32 \<Rightarrow> u32 \<Rightarrow> u32" where
  "tick_advance elapsed_ticks remaining = (if elapsed_ticks < remaining then elapsed_ticks else remaining)"

definition stage_remaining :: "u32 \<Rightarrow> u32 \<Rightarrow> u32" where
  "stage_remaining duration tick = (if duration > tick then duration - tick else 1)"

text \<open>One turn of the loop: the voice and the ticks left, which are fewer; \<open>None\<close> when the loop returns.\<close>

definition envelope_turn :: "msf2_voice_state \<Rightarrow> u32 \<Rightarrow> msf2_voice_state \<times> u32 option" where
  "envelope_turn voice elapsed_ticks =
     (let stage = vs_mod_env_stage voice
      in if stage = MSF2_ENV_DELAY \<or> stage = MSF2_ENV_HOLD
         then (if vs_mod_env_wait_ticks voice = 0
               then (voice\<lparr> vs_mod_env_stage := after_wait stage \<rparr>, Some (elapsed_ticks - 1))
               else (let advance = tick_advance elapsed_ticks (vs_mod_env_wait_ticks voice);
                         voice1 = voice\<lparr> vs_mod_env_wait_ticks := vs_mod_env_wait_ticks voice - advance \<rparr>
                     in (if vs_mod_env_wait_ticks voice1 = 0 then voice1\<lparr> vs_mod_env_stage := after_wait stage \<rparr> else voice1,
                         Some (elapsed_ticks - advance))))
         else if stage = MSF2_ENV_ATTACK \<or> stage = MSF2_ENV_DECAY
         then (let duration = (if stage = MSF2_ENV_ATTACK then mc_mod_env_attack_ticks (vs_config voice)
                               else mc_mod_env_decay_ticks (vs_config voice));
                   advance = tick_advance elapsed_ticks (stage_remaining duration (vs_mod_env_stage_tick voice));
                   voice1 = voice\<lparr> vs_mod_env_stage_tick := vs_mod_env_stage_tick voice + advance \<rparr>
               in (if stage = MSF2_ENV_ATTACK then attack_stage duration voice1 else decay_stage duration voice1,
                   Some (elapsed_ticks - advance)))
         else if stage = MSF2_ENV_RELEASE
         then (let tick = vs_mod_env_stage_tick voice + elapsed_ticks
               in (voice\<lparr> vs_mod_env_stage_tick := tick,
                     vs_mod_env_level :=
                       linear_level (vs_mod_env_release_start voice) 0 tick (mc_mod_env_release_ticks (vs_config voice)) \<rparr>, None))
         else (voice, None))"

lemma unat_sub_less: "0 < a \<Longrightarrow> a \<le> b \<Longrightarrow> unat (b - a) < unat b" for a b :: u32
  by (simp add: unat_sub word_less_nat_alt word_le_nat_alt)

lemma tick_advance_less: "elapsed \<noteq> 0 \<Longrightarrow> n \<noteq> 0 \<Longrightarrow> unat (elapsed - tick_advance elapsed n) < unat elapsed"
  by (auto simp: tick_advance_def word_gt_0 not_less unat_gt_0 intro!: unat_sub_less)

lemma stage_remaining_pos: "stage_remaining duration tick \<noteq> 0"
  by (auto simp: stage_remaining_def)

lemma envelope_turn_less:
  assumes "elapsed \<noteq> 0" and "envelope_turn voice elapsed = (voice1, Some rest)"
  shows "unat rest < unat elapsed"
proof -
  have "unat (elapsed - 1) < unat elapsed"
    using tick_advance_less [OF assms(1), of 1] assms(1) by (simp add: tick_advance_def word_less_1)
  then show ?thesis
    using assms tick_advance_less [OF assms(1)] stage_remaining_pos
    by (auto simp: envelope_turn_def Let_def split: if_splits) (metis (no_types))+
qed

function advance_modulation_envelope_elapsed :: "msf2_voice_state \<Rightarrow> u32 \<Rightarrow> msf2_voice_state" where
  "advance_modulation_envelope_elapsed voice elapsed_ticks =
     (if elapsed_ticks = 0 then voice
      else case envelope_turn voice elapsed_ticks of
             (voice1, None) \<Rightarrow> voice1
           | (voice1, Some rest) \<Rightarrow> advance_modulation_envelope_elapsed voice1 rest)"
  by pat_completeness auto
termination by (relation "measure (\<lambda>(voice, elapsed). unat elapsed)") (auto dest: sym intro: envelope_turn_less)

declare advance_modulation_envelope_elapsed.simps [simp del]

definition advance_lfo_elapsed_before_final :: "u32 \<Rightarrow> u32 \<Rightarrow> u32 \<Rightarrow> u32 \<Rightarrow> u32 \<times> u32" where
  "advance_lfo_elapsed_before_final phase wait_ticks step elapsed_ticks =
     (if elapsed_ticks \<le> wait_ticks then (phase, wait_ticks - elapsed_ticks)
      else (phase + step * (elapsed_ticks - wait_ticks), 0))"

text \<open>The whole step of a voice: the envelope and all but the last tick of the LFOs, then the refresh of what
  is due, then the last tick of the LFOs.\<close>

definition advance_lfos :: "u32 \<Rightarrow> msf2_voice_state \<Rightarrow> msf2_voice_state" where
  "advance_lfos elapsed_ticks voice =
     (case advance_lfo_elapsed_before_final (vs_mod_lfo_phase voice) (vs_mod_lfo_wait_ticks voice)
             (mc_mod_lfo_step (vs_config voice)) elapsed_ticks of (mod_phase, mod_wait) \<Rightarrow>
      case advance_lfo_elapsed_before_final (vs_vib_lfo_phase voice) (vs_vib_lfo_wait_ticks voice)
             (mc_vib_lfo_step (vs_config voice)) elapsed_ticks of (vib_phase, vib_wait) \<Rightarrow>
        voice\<lparr> vs_mod_lfo_phase := mod_phase, vs_mod_lfo_wait_ticks := mod_wait,
               vs_vib_lfo_phase := vib_phase, vs_vib_lfo_wait_ticks := vib_wait \<rparr>)"

definition final_lfo_tick :: "msf2_voice_state \<Rightarrow> msf2_voice_state" where
  "final_lfo_tick voice =
     (let voice1 = (if vs_mod_lfo_wait_ticks voice \<noteq> 0 then voice\<lparr> vs_mod_lfo_wait_ticks := vs_mod_lfo_wait_ticks voice - 1 \<rparr>
                    else voice\<lparr> vs_mod_lfo_phase := vs_mod_lfo_phase voice + mc_mod_lfo_step (vs_config voice) \<rparr>)
      in if vs_vib_lfo_wait_ticks voice1 \<noteq> 0 then voice1\<lparr> vs_vib_lfo_wait_ticks := vs_vib_lfo_wait_ticks voice1 - 1 \<rparr>
         else voice1\<lparr> vs_vib_lfo_phase := vs_vib_lfo_phase voice1 + mc_vib_lfo_step (vs_config voice1) \<rparr>)"

definition due_groups :: "'c msf2_runtime \<Rightarrow> msf2_voice_state \<Rightarrow> u32 \<Rightarrow> u8" where
  "due_groups r voice elapsed_ticks =
     cs_dirty_groups (channel_of r voice) OR
     (if rt_periodic_modulation_enabled r
      then vs_periodic_groups voice AND (MSF2_CONTROL_GROUP_GAIN OR MSF2_CONTROL_GROUP_PITCH) else 0) OR
     (if rt_periodic_modulation_enabled r \<and> vs_periodic_groups voice AND MSF2_CONTROL_GROUP_FILTER \<noteq> 0 \<and>
         (elapsed_ticks > 1 \<or> (rt_control_tick_index r + elapsed_ticks - 1) AND 3 = 0)
      then MSF2_CONTROL_GROUP_FILTER else 0)"

definition advance_voice_modulation_elapsed ::
    "'c command_sink \<Rightarrow> nat \<Rightarrow> u32 \<Rightarrow> 'c msf2_runtime \<Rightarrow> (msf2_result \<times> 'c msf2_runtime) option" where
  "advance_voice_modulation_elapsed sink v elapsed_ticks r =
     (let voice = rt_voices r ! v; dirty_groups = cs_dirty_groups (channel_of r voice)
      in if vs_stage voice = MSF2_VOICE_FREE \<or> elapsed_ticks = 0 then Some (MSF2_OK, r)
         else if vs_periodic_groups voice = 0
         then (if dirty_groups = 0 then Some (MSF2_OK, r) else refresh_voice sink v dirty_groups r)
         else
           (let voice1 = advance_lfos (elapsed_ticks - 1) (advance_modulation_envelope_elapsed voice elapsed_ticks);
                r1 = set_voice v voice1 r; groups = due_groups r1 voice1 elapsed_ticks
            in and_then (if groups = 0 then Some (MSF2_OK, r1) else refresh_voice sink v groups r1)
                 (\<lambda>r2. Some (MSF2_OK, set_voice v (final_lfo_tick (rt_voices r2 ! v)) r2))))"

definition advance_voice_modulation ::
    "'c command_sink \<Rightarrow> nat \<Rightarrow> 'c msf2_runtime \<Rightarrow> (msf2_result \<times> 'c msf2_runtime) option" where
  "advance_voice_modulation sink v r = advance_voice_modulation_elapsed sink v 1 r"

section \<open>Elapsed time over all voices\<close>

definition clear_channel_dirty_groups :: "'c msf2_runtime \<Rightarrow> 'c msf2_runtime" where
  "clear_channel_dirty_groups r = r\<lparr> rt_channels := map (\<lambda>c. c\<lparr> cs_dirty_groups := 0 \<rparr>) (rt_channels r) \<rparr>"

text \<open>A loop over positions of the active list that may fault and stops at the first failure. Advancing a
  voice never changes the list, so the bound of the loop is its length at the start.\<close>

fun each_active_opt ::
    "(nat \<Rightarrow> 'c msf2_runtime \<Rightarrow> (msf2_result \<times> 'c msf2_runtime) option) \<Rightarrow> nat list \<Rightarrow> 'c msf2_runtime \<Rightarrow>
      (msf2_result \<times> 'c msf2_runtime) option" where
  "each_active_opt f [] r = Some (MSF2_OK, r)"
| "each_active_opt f (active # as) r =
     and_then (f (rt_active_voice_indices r ! active) r) (each_active_opt f as)"

text \<open>Released voices are left to the FPGA.\<close>

definition advance_active :: "'c command_sink \<Rightarrow> u32 \<Rightarrow> nat \<Rightarrow> 'c msf2_runtime \<Rightarrow> (msf2_result \<times> 'c msf2_runtime) option" where
  "advance_active sink elapsed_ticks v r =
     (if vs_stage (rt_voices r ! v) = MSF2_VOICE_RELEASED then Some (MSF2_OK, r)
      else advance_voice_modulation_elapsed sink v elapsed_ticks r)"

definition advance_ticks_index :: "u32 \<Rightarrow> 'c msf2_runtime \<Rightarrow> 'c msf2_runtime" where
  "advance_ticks_index ticks r = r\<lparr> rt_control_tick_index := rt_control_tick_index r + ticks \<rparr>"

definition control_tick_all :: "'c command_sink \<Rightarrow> u32 \<Rightarrow> 'c msf2_runtime \<Rightarrow> (msf2_result \<times> 'c msf2_runtime) option" where
  "control_tick_all sink ticks r =
     and_then (each_active_opt (advance_active sink ticks) [0..<rt_active_count r] r)
       (\<lambda>r1. Some (MSF2_OK, clear_channel_dirty_groups (advance_ticks_index ticks r1)))"

fun tick_loop :: "'c command_sink \<Rightarrow> nat \<Rightarrow> 'c msf2_runtime \<Rightarrow> (msf2_result \<times> 'c msf2_runtime) option" where
  "tick_loop sink 0 r = Some (MSF2_OK, r)"
| "tick_loop sink (Suc ticks) r = and_then (control_tick_all sink 1 r) (tick_loop sink ticks)"

definition msf2_runtime_advance_samples ::
    "'c command_sink \<Rightarrow> u32 \<Rightarrow> 'c msf2_runtime \<Rightarrow> (msf2_result \<times> 'c msf2_runtime) option" where
  "msf2_runtime_advance_samples sink samples r =
     (let elapsed = unat (rt_pending_tick_samples r) + unat samples; n = unat MSF2_CONTROL_TICK_SAMPLES;
          r1 = r\<lparr> rt_pending_tick_samples := of_nat (elapsed mod n) \<rparr>; ticks = elapsed div n
      in if st_active_voices (rt_stats r1) = 0
         then Some (MSF2_OK, clear_channel_dirty_groups (advance_ticks_index (of_nat ticks) r1))
         else tick_loop sink ticks r1)"

definition msf2_runtime_control_tick ::
    "'c command_sink \<Rightarrow> 'c msf2_runtime \<Rightarrow> (msf2_result \<times> 'c msf2_runtime) option" where
  "msf2_runtime_control_tick sink r = msf2_runtime_advance_samples sink MSF2_CONTROL_TICK_SAMPLES r"

definition msf2_runtime_advance_control ::
    "'c command_sink \<Rightarrow> u32 \<Rightarrow> 'c msf2_runtime \<Rightarrow> (msf2_result \<times> 'c msf2_runtime) option" where
  "msf2_runtime_advance_control sink elapsed_ticks r =
     (if elapsed_ticks = 0 then Some (MSF2_ERR_ARGUMENT, r) else control_tick_all sink elapsed_ticks r)"

record msf2_control_voice_snapshot =
  sn_generation :: u16
  sn_active :: bool
  sn_released :: bool

definition voice_snapshot :: "msf2_voice_state \<Rightarrow> msf2_control_voice_snapshot" where
  "voice_snapshot voice = \<lparr> sn_generation = vs_generation voice, sn_active = (vs_stage voice \<noteq> MSF2_VOICE_FREE),
     sn_released = (vs_stage voice = MSF2_VOICE_RELEASED) \<rparr>"

definition msf2_runtime_capture_control_snapshot ::
    "'c msf2_runtime \<Rightarrow> msf2_control_voice_snapshot list \<times> u32 list" where
  "msf2_runtime_capture_control_snapshot r =
     (map (\<lambda>v. voice_snapshot (rt_voices r ! v)) [0..<rt_voice_capacity r],
      map (\<lambda>channel. cs_dirty_revision (rt_channels r ! channel)) [0..<MSF2_CHANNEL_COUNT])"

definition slice_voice ::
    "'c command_sink \<Rightarrow> msf2_control_voice_snapshot list \<Rightarrow> u32 \<Rightarrow> nat \<Rightarrow> 'c msf2_runtime \<Rightarrow> (msf2_result \<times> 'c msf2_runtime) option" where
  "slice_voice sink voices elapsed_ticks v r =
     (let snapshot = voices ! v; state = rt_voices r ! v
      in if \<not> sn_active snapshot \<or> sn_released snapshot \<or> vs_stage state = MSF2_VOICE_FREE \<or>
            vs_generation state \<noteq> sn_generation snapshot
         then Some (MSF2_OK, r) else advance_voice_modulation_elapsed sink v elapsed_ticks r)"

fun slice_loop ::
    "'c command_sink \<Rightarrow> msf2_control_voice_snapshot list \<Rightarrow> u32 \<Rightarrow> nat list \<Rightarrow> 'c msf2_runtime \<Rightarrow> (msf2_result \<times> 'c msf2_runtime) option" where
  "slice_loop sink voices elapsed_ticks [] r = Some (MSF2_OK, r)"
| "slice_loop sink voices elapsed_ticks (v # vs) r =
     and_then (slice_voice sink voices elapsed_ticks v r) (slice_loop sink voices elapsed_ticks vs)"

definition msf2_runtime_advance_control_slice ::
    "'c command_sink \<Rightarrow> msf2_control_voice_snapshot list \<Rightarrow> nat \<Rightarrow> nat \<Rightarrow> u32 \<Rightarrow> 'c msf2_runtime \<Rightarrow>
      (msf2_result \<times> 'c msf2_runtime) option" where
  "msf2_runtime_advance_control_slice sink voices first_voice voice_count elapsed_ticks r =
     (if elapsed_ticks = 0 \<or> first_voice > rt_voice_capacity r \<or> voice_count > rt_voice_capacity r - first_voice
      then Some (MSF2_ERR_ARGUMENT, r)
      else slice_loop sink voices elapsed_ticks [first_voice..<first_voice + voice_count] r)"

definition msf2_runtime_complete_control :: "u32 \<Rightarrow> u32 list \<Rightarrow> 'c msf2_runtime \<Rightarrow> 'c msf2_runtime" where
  "msf2_runtime_complete_control elapsed_ticks channel_dirty_revisions r =
     (if elapsed_ticks = 0 then r
      else (advance_ticks_index elapsed_ticks r)\<lparr> rt_channels :=
             map (\<lambda>channel. (let c = rt_channels r ! channel
                    in if cs_dirty_revision c = channel_dirty_revisions ! channel then c\<lparr> cs_dirty_groups := 0 \<rparr> else c))
               [0..<length (rt_channels r)] \<rparr>)"

section \<open>Folding time is replaying it\<close>

text \<open>A stage of \<open>k\<close> ticks under \<open>m\<close> and then \<open>n\<close> elapsed ticks: either the first part ends it, or the
  second part continues where the first stopped.\<close>

lemma tick_advance_exhausted:
  fixes m n k :: u32
  assumes "unat m + unat n < 2 ^ 32" and "k \<le> m"
  shows "tick_advance m k = k" "tick_advance (m + n) k = k" "m + n - k = (m - k) + n"
proof -
  have "unat (m + n) = unat m + unat n" using assms(1) by (simp add: unat_word_ariths(1))
  then have "k \<le> m + n" using assms(2) by (simp add: word_le_nat_alt)
  then show "tick_advance m k = k" "tick_advance (m + n) k = k" using assms(2) by (auto simp: tick_advance_def)
qed simp

lemma tick_advance_partial:
  fixes m n k :: u32
  assumes "unat m + unat n < 2 ^ 32" and "m < k"
  shows "tick_advance m k = m" "tick_advance (m + n) k = m + tick_advance n (k - m)"
    "m + n - tick_advance (m + n) k = n - tick_advance n (k - m)"
proof -
  have "unat (m + n) = unat m + unat n" using assms(1) by (simp add: unat_word_ariths(1))
  moreover have "unat (k - m) = unat k - unat m" using assms(2) by (intro unat_sub) simp
  ultimately have "m + n < k \<longleftrightarrow> n < k - m" using assms(2) by (auto simp: word_less_nat_alt)
  then show "tick_advance (m + n) k = m + tick_advance n (k - m)" by (simp add: tick_advance_def)
  then show "m + n - tick_advance (m + n) k = n - tick_advance n (k - m)" by simp
  show "tick_advance m k = m" using assms(2) by (simp add: tick_advance_def)
qed

lemma stage_partial:
  fixes m :: u32
  assumes "m < stage_remaining d t" and "m \<noteq> 0"
  shows "t < d" "t + m < d" "stage_remaining d (t + m) = stage_remaining d t - m"
proof -
  show td: "t < d" using assms by (auto simp: stage_remaining_def word_less_1 split: if_splits)
  then have "unat (d - t) = unat d - unat t" by (intro unat_sub) simp
  then have "unat t + unat m < unat d"
    using assms td by (auto simp: stage_remaining_def word_less_nat_alt)
  moreover from this have "unat (t + m) = unat t + unat m" using unat_bounds(3) [of d] by (simp add: unat_word_ariths(1))
  ultimately show "t + m < d" by (simp add: word_less_nat_alt)
  then show "stage_remaining d (t + m) = stage_remaining d t - m" using td by (simp add: stage_remaining_def)
qed

definition turn_splits :: "msf2_voice_state \<Rightarrow> u32 \<Rightarrow> u32 \<Rightarrow> bool" where
  "turn_splits voice m n \<longleftrightarrow>
     (\<exists>voice1 rest. envelope_turn voice m = (voice1, Some rest) \<and> envelope_turn voice (m + n) = (voice1, Some (rest + n)) \<and>
        unat rest < unat m) \<or>
     (\<exists>voice1 rest. envelope_turn voice m = (voice1, rest) \<and> (rest = None \<or> rest = Some 0) \<and>
        envelope_turn voice1 n = envelope_turn voice (m + n))"

lemma turn_splits_wait:
  assumes "unat m + unat n < 2 ^ 32" and "m \<noteq> 0" and "vs_mod_env_stage voice = MSF2_ENV_DELAY \<or> vs_mod_env_stage voice = MSF2_ENV_HOLD"
  shows "turn_splits voice m n"
proof (cases "vs_mod_env_wait_ticks voice = 0")
  case True
  have "unat (m - 1) < unat m" using tick_advance_less [OF assms(2), of 1] assms(2) by (simp add: tick_advance_def word_less_1)
  then show ?thesis using True assms(3) by (auto simp: turn_splits_def envelope_turn_def Let_def)
next
  case False
  show ?thesis
  proof (cases "vs_mod_env_wait_ticks voice \<le> m")
    case True
    then show ?thesis
      using tick_advance_exhausted [OF assms(1) True] tick_advance_less [OF assms(2) False] False assms(3)
      by (auto simp: turn_splits_def envelope_turn_def Let_def)
  next
    case rest: False
    then have "m < vs_mod_env_wait_ticks voice" by simp
    note p = tick_advance_partial [OF assms(1) this]
    have "vs_mod_env_wait_ticks voice - m \<noteq> 0" using rest by auto
    then have "envelope_turn voice m = (voice\<lparr> vs_mod_env_wait_ticks := vs_mod_env_wait_ticks voice - m \<rparr>, Some 0)"
      using p(1) False assms(3) by (auto simp: envelope_turn_def Let_def)
    moreover have "envelope_turn (voice\<lparr> vs_mod_env_wait_ticks := vs_mod_env_wait_ticks voice - m \<rparr>) n = envelope_turn voice (m + n)"
      using p False assms(3) \<open>vs_mod_env_wait_ticks voice - m \<noteq> 0\<close> by (auto simp: envelope_turn_def Let_def diff_diff_add)
    ultimately show ?thesis by (auto simp: turn_splits_def)
  qed
qed

lemma stage_overwrites_level:
  "attack_stage d (voice\<lparr> vs_mod_env_level := l, vs_mod_env_stage_tick := x \<rparr>) = attack_stage d (voice\<lparr> vs_mod_env_stage_tick := x \<rparr>)"
  "decay_stage d (voice\<lparr> vs_mod_env_level := l, vs_mod_env_stage_tick := x \<rparr>) = decay_stage d (voice\<lparr> vs_mod_env_stage_tick := x \<rparr>)"
  by (simp_all add: attack_stage_def decay_stage_def Let_def)

lemma unfinished_ramp:
  assumes "vs_mod_env_stage_tick voice < d"
  shows "attack_stage d voice = voice\<lparr> vs_mod_env_level := linear_level 0 32767 (vs_mod_env_stage_tick voice) d \<rparr>"
    "decay_stage d voice = voice\<lparr> vs_mod_env_level :=
       linear_level 32767 (mc_mod_env_sustain_level (vs_config voice)) (vs_mod_env_stage_tick voice) d \<rparr>"
  using assms by (simp_all add: attack_stage_def decay_stage_def Let_def)

text \<open>Attack and decay have the same shape.\<close>

definition ramp_turn :: "(u32 \<Rightarrow> msf2_voice_state \<Rightarrow> msf2_voice_state) \<Rightarrow> u32 \<Rightarrow> msf2_voice_state \<Rightarrow> u32 \<Rightarrow> msf2_voice_state \<times> u32 option" where
  "ramp_turn f d voice e =
     (let a = tick_advance e (stage_remaining d (vs_mod_env_stage_tick voice))
      in (f d (voice\<lparr> vs_mod_env_stage_tick := vs_mod_env_stage_tick voice + a \<rparr>), Some (e - a)))"

lemma envelope_turn_ramp:
  "vs_mod_env_stage voice = MSF2_ENV_ATTACK \<Longrightarrow>
     envelope_turn voice e = ramp_turn attack_stage (mc_mod_env_attack_ticks (vs_config voice)) voice e"
  "vs_mod_env_stage voice = MSF2_ENV_DECAY \<Longrightarrow>
     envelope_turn voice e = ramp_turn decay_stage (mc_mod_env_decay_ticks (vs_config voice)) voice e"
  by (simp_all add: envelope_turn_def ramp_turn_def Let_def)

lemma ramp_turn_exhausted:
  assumes "unat m + unat n < 2 ^ 32" and "m \<noteq> 0" and "stage_remaining d (vs_mod_env_stage_tick voice) \<le> m"
  shows "\<exists>voice1 rest. ramp_turn f d voice m = (voice1, Some rest) \<and> ramp_turn f d voice (m + n) = (voice1, Some (rest + n)) \<and>
    unat rest < unat m"
  using tick_advance_exhausted [OF assms(1,3)] tick_advance_less [OF assms(2) stage_remaining_pos [of d "vs_mod_env_stage_tick voice"]]
  by (auto simp: ramp_turn_def Let_def)

lemma ramp_turn_partial:
  assumes "unat m + unat n < 2 ^ 32" and "m \<noteq> 0" and "m < stage_remaining d (vs_mod_env_stage_tick voice)"
    and "f = attack_stage \<or> f = decay_stage"
  obtains voice1 where "ramp_turn f d voice m = (voice1, Some 0)" and "ramp_turn f d voice1 n = ramp_turn f d voice (m + n)"
    and "vs_mod_env_stage voice1 = vs_mod_env_stage voice" and "vs_config voice1 = vs_config voice"
proof -
  let ?t = "vs_mod_env_stage_tick voice"
  note p = tick_advance_partial [OF assms(1,3)] and q = stage_partial [OF assms(3,2)]
  define voice1 where "voice1 = f d (voice\<lparr> vs_mod_env_stage_tick := ?t + m \<rparr>)"
  have "ramp_turn f d voice m = (voice1, Some 0)" using p(1) by (simp add: ramp_turn_def Let_def voice1_def)
  moreover obtain l where v: "voice1 = voice\<lparr> vs_mod_env_stage_tick := ?t + m, vs_mod_env_level := l \<rparr>"
    using assms(4) unfinished_ramp [of "voice\<lparr> vs_mod_env_stage_tick := ?t + m \<rparr>" d] q(2) by (auto simp: voice1_def)
  moreover have "ramp_turn f d voice1 n = ramp_turn f d voice (m + n)"
    using p q(3) assms(4) by (auto simp: ramp_turn_def Let_def v add.assoc stage_overwrites_level)
  ultimately show ?thesis using that [of voice1] by simp
qed

lemma turn_splits_ramp:
  assumes "unat m + unat n < 2 ^ 32" and "m \<noteq> 0" and "\<And>e w. vs_mod_env_stage w = vs_mod_env_stage voice \<Longrightarrow> vs_config w = vs_config voice \<Longrightarrow>
      envelope_turn w e = ramp_turn f d w e" and "f = attack_stage \<or> f = decay_stage"
  shows "turn_splits voice m n"
proof (cases "stage_remaining d (vs_mod_env_stage_tick voice) \<le> m")
  case True
  then show ?thesis using ramp_turn_exhausted [OF assms(1,2) True, of f] assms(3) [OF refl refl] by (simp add: turn_splits_def)
next
  case False
  then have "m < stage_remaining d (vs_mod_env_stage_tick voice)" by simp
  then obtain voice1 where "ramp_turn f d voice m = (voice1, Some 0)" "ramp_turn f d voice1 n = ramp_turn f d voice (m + n)"
      "vs_mod_env_stage voice1 = vs_mod_env_stage voice" "vs_config voice1 = vs_config voice"
    using ramp_turn_partial [OF assms(1,2) _ assms(4)] by blast
  then show ?thesis using assms(3) [OF refl refl] assms(3) [of voice1] by (auto simp: turn_splits_def)
qed

lemma turn_splits_always:
  assumes "unat m + unat n < 2 ^ 32" and "m \<noteq> 0"
  shows "turn_splits voice m n"
proof (cases "vs_mod_env_stage voice")
  case MSF2_ENV_ATTACK
  then show ?thesis by (intro turn_splits_ramp [OF assms, where f = attack_stage]) (auto simp: envelope_turn_ramp)
next
  case MSF2_ENV_DECAY
  then show ?thesis by (intro turn_splits_ramp [OF assms, where f = decay_stage]) (auto simp: envelope_turn_ramp)
next
  case MSF2_ENV_RELEASE
  then show ?thesis by (simp add: turn_splits_def envelope_turn_def Let_def add.assoc)
next
  case MSF2_ENV_NONE
  then show ?thesis by (simp add: turn_splits_def envelope_turn_def Let_def)
next
  case MSF2_ENV_SUSTAIN
  then show ?thesis by (simp add: turn_splits_def envelope_turn_def Let_def)
qed (simp_all add: turn_splits_wait [OF assms])

text \<open>Elapsed ticks may be split anywhere.\<close>

lemma advance_envelope_add:
  "unat m + unat n < 2 ^ 32 \<Longrightarrow>
     advance_modulation_envelope_elapsed voice (m + n) =
     advance_modulation_envelope_elapsed (advance_modulation_envelope_elapsed voice m) n"
proof (induction "unat m" arbitrary: m voice rule: less_induct)
  case less
  let ?f = advance_modulation_envelope_elapsed
  show ?case
  proof (cases "m = 0 \<or> n = 0")
    case False
    then have m: "m \<noteq> 0" and n: "n \<noteq> 0" by auto
    have "unat (m + n) = unat m + unat n" using less.prems by (simp add: unat_word_ariths(1))
    then have mn: "m + n \<noteq> 0" using m by (metis add_is_0 unat_0 unat_eq_0)
    from turn_splits_always [OF less.prems m, of voice] consider
        (ended) voice1 rest where "envelope_turn voice m = (voice1, Some rest)" "envelope_turn voice (m + n) = (voice1, Some (rest + n))"
          "unat rest < unat m"
      | (continued) voice1 rest where "envelope_turn voice m = (voice1, rest)" "envelope_turn voice1 n = envelope_turn voice (m + n)"
          "rest = None \<or> rest = Some 0"
      unfolding turn_splits_def by blast
    then show ?thesis
    proof cases
      case t: ended
      have "?f voice (m + n) = ?f voice1 (rest + n)" using mn t(2) by (subst advance_modulation_envelope_elapsed.simps) simp
      also have "\<dots> = ?f (?f voice1 rest) n" using less.hyps [OF t(3)] less.prems t(3) by simp
      also have "?f voice1 rest = ?f voice m" using m t(1) by (subst (2) advance_modulation_envelope_elapsed.simps) simp
      finally show ?thesis .
    next
      case t: continued
      have "?f voice m = voice1" using m t(1,3) by (auto simp: advance_modulation_envelope_elapsed.simps)
      moreover have "?f voice1 n = ?f voice (m + n)"
        using n mn t(2) by (simp add: advance_modulation_envelope_elapsed.simps [of voice1 n] advance_modulation_envelope_elapsed.simps [of voice "m + n"])
      ultimately show ?thesis by simp
    qed
  qed (auto simp: advance_modulation_envelope_elapsed.simps)
qed

lemma advance_lfo_add:
  assumes "unat m + unat n < 2 ^ 32" and "advance_lfo_elapsed_before_final phase wait step m = (phase1, wait1)"
  shows "advance_lfo_elapsed_before_final phase1 wait1 step n = advance_lfo_elapsed_before_final phase wait step (m + n)"
proof -
  have u: "unat (m + n) = unat m + unat n" using assms(1) by (simp add: unat_word_ariths(1))
  show ?thesis
  proof (cases "m \<le> wait")
    case True
    have "unat (wait - m) = unat wait - unat m" using True by (rule unat_sub)
    then have "n \<le> wait - m \<longleftrightarrow> m + n \<le> wait" using True u by (auto simp: word_le_nat_alt)
    then show ?thesis using assms(2) True by (auto simp: advance_lfo_elapsed_before_final_def algebra_simps)
  next
    case False
    then have "\<not> m + n \<le> wait" using u by (auto simp: word_le_nat_alt)
    then show ?thesis
      using assms(2) False by (cases "n = 0") (auto simp: advance_lfo_elapsed_before_final_def algebra_simps word_le_nat_alt unat_eq_0)
  qed
qed

end
