(* ===== verification/Msf2_Events.thy ===== *)
theory Msf2_Events
  imports Msf2_Control
begin

text \<open>
  The events of the firmware's SoundFont runtime (\<open>src/mcu/msf2.c\<close>): initialisation, notes, controllers,
  pressure and bend, the completion of a voice by the FPGA, and the channel-wide operations.

  An operation that sends commands takes the sink as its first argument and returns its \<open>msf2_result\<close> with the
  runtime; one that may read the image returns an option of these, as in \<open>Msf2_Control\<close>. Releasing and stopping
  a voice never change the active list, so the loops over it run over its positions at their start.
\<close>

section \<open>Channels\<close>

definition mark_channel_dirty :: "u8 \<Rightarrow> msf2_channel_state \<Rightarrow> msf2_channel_state" where
  "mark_channel_dirty groups channel =
     (if groups = 0 then channel
      else channel\<lparr> cs_dirty_groups := cs_dirty_groups channel OR groups, cs_dirty_revision := cs_dirty_revision channel + 1 \<rparr>)"

definition reset_channel_state :: msf2_channel_state where
  "reset_channel_state = \<lparr> cs_cc = (replicate 128 0)[7 := 127, 10 := 64, 11 := 127], cs_key_pressure = replicate 128 0,
     cs_pitch_bend = 0, cs_channel_pressure = 0, cs_pitch_bend_range_semitones = 2, cs_pitch_bend_range_cents = 0,
     cs_sustain = False, cs_sostenuto = False, cs_soft = False, cs_dirty_groups = 0, cs_dirty_revision = 0,
     cs_generator_offsets_q16 = replicate 61 0 \<rparr>"

definition update_channel :: "nat \<Rightarrow> (msf2_channel_state \<Rightarrow> msf2_channel_state) \<Rightarrow> 'c msf2_runtime \<Rightarrow> 'c msf2_runtime" where
  "update_channel channel f r = r\<lparr> rt_channels := (rt_channels r)[channel := f (rt_channels r ! channel)] \<rparr>"

definition channel_ok :: "u8 \<Rightarrow> bool" where
  "channel_ok channel \<longleftrightarrow> unat channel < MSF2_CHANNEL_COUNT"

section \<open>Initialisation\<close>

definition zero_stats :: msf2_runtime_stats where
  "zero_stats = \<lparr> st_note_ons = 0, st_note_offs = 0, st_started_voices = 0, st_released_voices = 0, st_stopped_voices = 0,
     st_stolen_voices = 0, st_unmapped_notes = 0, st_controller_voice_updates = 0, st_control_voice_evaluations = 0,
     st_active_voices = 0, st_maximum_active_voices = 0 \<rparr>"

definition zero_cache_entry :: msf2_preset_cache_entry where
  "zero_cache_entry = \<lparr> pe_preset_index = 0, pe_bank = 0, pe_program = 0, pe_valid = False \<rparr>"

text \<open>The arrays of voices and of free voices have the length of the capacity, as the caller provides them.\<close>

definition msf2_runtime_init :: "msf2_view \<Rightarrow> nat \<Rightarrow> 'c \<Rightarrow> msf2_result + 'c msf2_runtime" where
  "msf2_runtime_init vw voice_capacity context =
     (if voice_capacity = 0 \<or> voice_capacity > MSF2_MAX_VOICE_COUNT then Inl MSF2_ERR_ARGUMENT
      else Inr \<lparr> rt_view = vw, rt_channels = replicate MSF2_CHANNEL_COUNT reset_channel_state,
             rt_voices = replicate voice_capacity zero_voice,
             rt_free_stack = map (\<lambda>voice. voice_capacity - 1 - voice) [0..<voice_capacity],
             rt_voice_capacity = voice_capacity, rt_free_count = voice_capacity, rt_active_count = 0,
             rt_active_voice_indices = replicate MSF2_MAX_VOICE_COUNT 0, rt_next_note_instance = 0,
             rt_allocation_stamp = 0, rt_control_tick_index = 0, rt_pending_tick_samples = 0,
             rt_periodic_modulation_enabled = True, rt_preset_cache = replicate 16 zero_cache_entry,
             rt_command_context = context, rt_stats = zero_stats \<rparr>)"

section \<open>Loops over the active voices\<close>

fun each_active ::
    "(nat \<Rightarrow> 'c msf2_runtime \<Rightarrow> msf2_result \<times> 'c msf2_runtime) \<Rightarrow> nat list \<Rightarrow> 'c msf2_runtime \<Rightarrow> msf2_result \<times> 'c msf2_runtime" where
  "each_active f [] r = (MSF2_OK, r)"
| "each_active f (active # as) r =
     (case f (rt_active_voice_indices r ! active) r of (MSF2_OK, r1) \<Rightarrow> each_active f as r1 | (e, r1) \<Rightarrow> (e, r1))"

definition for_active ::
    "(nat \<Rightarrow> 'c msf2_runtime \<Rightarrow> msf2_result \<times> 'c msf2_runtime) \<Rightarrow> 'c msf2_runtime \<Rightarrow> msf2_result \<times> 'c msf2_runtime" where
  "for_active f r = each_active f [0..<rt_active_count r] r"

text \<open>The same for a loop that only updates voices.\<close>

definition update_active :: "(msf2_voice_state \<Rightarrow> msf2_voice_state) \<Rightarrow> 'c msf2_runtime \<Rightarrow> 'c msf2_runtime" where
  "update_active f r =
     fold (\<lambda>active r. (let v = rt_active_voice_indices r ! active in set_voice v (f (rt_voices r ! v)) r)) [0..<rt_active_count r] r"

section \<open>Note off and the pedals\<close>

definition oldest_instance :: "u8 \<Rightarrow> u8 \<Rightarrow> 'c msf2_runtime \<Rightarrow> u32" where
  "oldest_instance channel note r =
     fold (\<lambda>active oldest.
         (let state = rt_voices r ! (rt_active_voice_indices r ! active)
          in if vs_stage state \<noteq> MSF2_VOICE_FREE \<and> vs_stage state \<noteq> MSF2_VOICE_RELEASED \<and> vs_channel state = channel \<and>
                vs_note state = note \<and> \<not> vs_key_released state \<and> vs_note_instance state < oldest
             then vs_note_instance state else oldest)) [0..<rt_active_count r] 0xffffffff"

definition note_off_voice ::
    "'c command_sink \<Rightarrow> u8 \<Rightarrow> u32 \<Rightarrow> nat \<Rightarrow> 'c msf2_runtime \<Rightarrow> msf2_result \<times> 'c msf2_runtime" where
  "note_off_voice sink channel oldest v r =
     (let state = rt_voices r ! v
      in if vs_stage state = MSF2_VOICE_RELEASED \<or> vs_channel state \<noteq> channel \<or> vs_note_instance state \<noteq> oldest \<or> vs_key_released state
         then (MSF2_OK, r)
         else
           (let sustain = cs_sustain (rt_channels r ! unat channel); state1 = state\<lparr> vs_key_released := True \<rparr>
            in if sustain \<or> vs_sostenuto_held state
               then (MSF2_OK, set_voice v (state1\<lparr> vs_sustain_held := sustain, vs_stage := MSF2_VOICE_SUSTAIN_HELD \<rparr>) r)
               else release_voice_fw sink v (set_voice v state1 r)))"

definition msf2_runtime_note_off ::
    "'c command_sink \<Rightarrow> u8 \<Rightarrow> u8 \<Rightarrow> 'c msf2_runtime \<Rightarrow> msf2_result \<times> 'c msf2_runtime" where
  "msf2_runtime_note_off sink channel note r =
     (if \<not> channel_ok channel \<or> note > 127 then (MSF2_ERR_ARGUMENT, r)
      else
        (let r1 = update_stats (\<lambda>s. s\<lparr> st_note_offs := st_note_offs s + 1 \<rparr>) r; oldest = oldest_instance channel note r1
         in if oldest = 0xffffffff then (MSF2_OK, r1) else for_active (note_off_voice sink channel oldest) r1))"

definition release_deferred_voice ::
    "'c command_sink \<Rightarrow> u8 \<Rightarrow> nat \<Rightarrow> 'c msf2_runtime \<Rightarrow> msf2_result \<times> 'c msf2_runtime" where
  "release_deferred_voice sink channel v r =
     (let state = rt_voices r ! v
      in if vs_channel state = channel \<and> vs_key_released state \<and> vs_stage state = MSF2_VOICE_SUSTAIN_HELD \<and>
            \<not> cs_sustain (rt_channels r ! unat channel) \<and> \<not> vs_sostenuto_held state
         then release_voice_fw sink v r else (MSF2_OK, r))"

definition release_deferred_voices ::
    "'c command_sink \<Rightarrow> u8 \<Rightarrow> 'c msf2_runtime \<Rightarrow> msf2_result \<times> 'c msf2_runtime" where
  "release_deferred_voices sink channel r = for_active (release_deferred_voice sink channel) r"

section \<open>Channel-wide operations\<close>

definition all_sound_off_voice :: "'c command_sink \<Rightarrow> u8 \<Rightarrow> nat \<Rightarrow> 'c msf2_runtime \<Rightarrow> msf2_result \<times> 'c msf2_runtime" where
  "all_sound_off_voice sink channel v r =
     (if vs_channel (rt_voices r ! v) = channel then stop_voice_fw sink v r else (MSF2_OK, r))"

definition msf2_runtime_all_sound_off :: "'c command_sink \<Rightarrow> u8 \<Rightarrow> 'c msf2_runtime \<Rightarrow> msf2_result \<times> 'c msf2_runtime" where
  "msf2_runtime_all_sound_off sink channel r =
     (if \<not> channel_ok channel then (MSF2_ERR_ARGUMENT, r) else for_active (all_sound_off_voice sink channel) r)"

definition all_notes_off_voice :: "'c command_sink \<Rightarrow> u8 \<Rightarrow> nat \<Rightarrow> 'c msf2_runtime \<Rightarrow> msf2_result \<times> 'c msf2_runtime" where
  "all_notes_off_voice sink channel v r =
     (let state = rt_voices r ! v
      in if vs_channel state \<noteq> channel \<or> vs_stage state = MSF2_VOICE_FREE \<or> vs_stage state = MSF2_VOICE_RELEASED \<or> vs_key_released state
         then (MSF2_OK, r)
         else
           (let sustain = cs_sustain (rt_channels r ! unat channel);
                state1 = state\<lparr> vs_key_released := True, vs_sustain_held := sustain \<rparr>
            in if sustain \<or> vs_sostenuto_held state
               then (MSF2_OK, set_voice v (state1\<lparr> vs_stage := MSF2_VOICE_SUSTAIN_HELD \<rparr>) r)
               else release_voice_fw sink v (set_voice v state1 r)))"

definition msf2_runtime_all_notes_off :: "'c command_sink \<Rightarrow> u8 \<Rightarrow> 'c msf2_runtime \<Rightarrow> msf2_result \<times> 'c msf2_runtime" where
  "msf2_runtime_all_notes_off sink channel r =
     (if \<not> channel_ok channel then (MSF2_ERR_ARGUMENT, r) else for_active (all_notes_off_voice sink channel) r)"

definition release_all_voice :: "'c command_sink \<Rightarrow> nat \<Rightarrow> 'c msf2_runtime \<Rightarrow> msf2_result \<times> 'c msf2_runtime" where
  "release_all_voice sink v r =
     (let state = rt_voices r ! v
      in if vs_stage state = MSF2_VOICE_FREE \<or> vs_stage state = MSF2_VOICE_RELEASED then (MSF2_OK, r)
         else release_voice_fw sink v
                (set_voice v (state\<lparr> vs_key_released := True, vs_sustain_held := False, vs_sostenuto_held := False \<rparr>) r))"

definition msf2_runtime_release_all :: "'c command_sink \<Rightarrow> 'c msf2_runtime \<Rightarrow> msf2_result \<times> 'c msf2_runtime" where
  "msf2_runtime_release_all sink r = for_active (release_all_voice sink) r"

definition msf2_runtime_reset_controllers :: "'c command_sink \<Rightarrow> u8 \<Rightarrow> 'c msf2_runtime \<Rightarrow> msf2_result \<times> 'c msf2_runtime" where
  "msf2_runtime_reset_controllers sink channel r =
     (if \<not> channel_ok channel then (MSF2_ERR_ARGUMENT, r)
      else
        (let r1 = update_channel (unat channel) (\<lambda>_. mark_channel_dirty MSF2_CONTROL_GROUP_ALL reset_channel_state) r;
             r2 = update_active (\<lambda>state. if vs_channel state \<noteq> channel \<or> vs_stage state = MSF2_VOICE_FREE then state
                                         else state\<lparr> vs_sustain_held := False, vs_sostenuto_held := False \<rparr>) r1
         in release_deferred_voices sink channel r2))"

section \<open>Controllers\<close>

text \<open>What is left to do after a controller when it did not return.\<close>

definition mark_after ::
    "u8 \<Rightarrow> msf2_result \<times> 'c msf2_runtime \<Rightarrow> msf2_result \<times> 'c msf2_runtime" where
  "mark_after channel x =
     (case x of (MSF2_OK, r) \<Rightarrow> (MSF2_OK, update_channel (unat channel) (mark_channel_dirty MSF2_CONTROL_GROUP_ALL) r) | (e, r) \<Rightarrow> (e, r))"

definition sustain_change :: "'c command_sink \<Rightarrow> u8 \<Rightarrow> bool \<Rightarrow> 'c msf2_runtime \<Rightarrow> msf2_result \<times> 'c msf2_runtime" where
  "sustain_change sink channel sustain r =
     (let r1 = (if cs_sustain (rt_channels r ! unat channel) \<and> \<not> sustain
                then update_active (\<lambda>state. if vs_channel state = channel then state\<lparr> vs_sustain_held := False \<rparr> else state) r else r);
          r2 = update_channel (unat channel) (\<lambda>c. c\<lparr> cs_sustain := sustain \<rparr>) r1
      in if \<not> sustain then release_deferred_voices sink channel r2 else (MSF2_OK, r2))"

definition sostenuto_change :: "'c command_sink \<Rightarrow> u8 \<Rightarrow> bool \<Rightarrow> 'c msf2_runtime \<Rightarrow> msf2_result \<times> 'c msf2_runtime" where
  "sostenuto_change sink channel sostenuto r =
     (let before = cs_sostenuto (rt_channels r ! unat channel);
          r1 = (if \<not> before \<and> sostenuto
                then update_active (\<lambda>state. if vs_channel state = channel \<and> vs_stage state \<noteq> MSF2_VOICE_FREE \<and>
                         vs_stage state \<noteq> MSF2_VOICE_RELEASED \<and> \<not> vs_key_released state
                       then state\<lparr> vs_sostenuto_held := True \<rparr> else state) r
                else if before \<and> \<not> sostenuto
                then update_active (\<lambda>state. if vs_channel state = channel then state\<lparr> vs_sostenuto_held := False \<rparr> else state) r
                else r);
          r2 = update_channel (unat channel) (\<lambda>c. c\<lparr> cs_sostenuto := sostenuto \<rparr>) r1
      in if \<not> sostenuto then release_deferred_voices sink channel r2 else (MSF2_OK, r2))"

definition msf2_runtime_control_change ::
    "'c command_sink \<Rightarrow> u8 \<Rightarrow> u8 \<Rightarrow> u8 \<Rightarrow> 'c msf2_runtime \<Rightarrow> msf2_result \<times> 'c msf2_runtime" where
  "msf2_runtime_control_change sink channel controller v r =
     (if \<not> channel_ok channel \<or> controller > 127 \<or> v > 127 then (MSF2_ERR_ARGUMENT, r)
      else
        (let r1 = update_channel (unat channel) (\<lambda>c. c\<lparr> cs_cc := (cs_cc c)[unat controller := v] \<rparr>) r
         in if controller = 64 then mark_after channel (sustain_change sink channel (v \<ge> 64) r1)
            else if controller = 66 then mark_after channel (sostenuto_change sink channel (v \<ge> 64) r1)
            else if controller = 67
            then mark_after channel (MSF2_OK, update_channel (unat channel) (\<lambda>c. c\<lparr> cs_soft := v \<ge> 64 \<rparr>) r1)
            else if controller = 120 then msf2_runtime_all_sound_off sink channel r1
            else if controller = 121 then msf2_runtime_reset_controllers sink channel r1
            else if controller \<ge> 123 then msf2_runtime_all_notes_off sink channel r1
            else mark_after channel (MSF2_OK, r1)))"

text \<open>The setters only change a channel and mark what it drives.\<close>

definition change_channel ::
    "u8 \<Rightarrow> u8 \<Rightarrow> (msf2_channel_state \<Rightarrow> msf2_channel_state) \<Rightarrow> 'c msf2_runtime \<Rightarrow> msf2_result \<times> 'c msf2_runtime" where
  "change_channel channel groups f r = (MSF2_OK, update_channel (unat channel) (\<lambda>c. mark_channel_dirty groups (f c)) r)"

definition msf2_runtime_set_pitch_bend_range :: "u8 \<Rightarrow> u8 \<Rightarrow> u8 \<Rightarrow> 'c msf2_runtime \<Rightarrow> msf2_result \<times> 'c msf2_runtime" where
  "msf2_runtime_set_pitch_bend_range channel semitones cents r =
     (if \<not> channel_ok channel \<or> cents > 99 then (MSF2_ERR_ARGUMENT, r)
      else change_channel channel MSF2_CONTROL_GROUP_PITCH
             (\<lambda>c. c\<lparr> cs_pitch_bend_range_semitones := semitones, cs_pitch_bend_range_cents := cents \<rparr>) r)"

definition msf2_runtime_set_generator_offset :: "u8 \<Rightarrow> u8 \<Rightarrow> int \<Rightarrow> 'c msf2_runtime \<Rightarrow> msf2_result \<times> 'c msf2_runtime" where
  "msf2_runtime_set_generator_offset channel generator value_q16 r =
     (if \<not> channel_ok channel \<or> unat generator \<ge> MSF2_GENERATOR_COUNT then (MSF2_ERR_ARGUMENT, r)
      else change_channel channel MSF2_CONTROL_GROUP_ALL
             (\<lambda>c. c\<lparr> cs_generator_offsets_q16 := (cs_generator_offsets_q16 c)[unat generator := value_q16] \<rparr>) r)"

definition msf2_runtime_pitch_bend :: "u8 \<Rightarrow> int \<Rightarrow> 'c msf2_runtime \<Rightarrow> msf2_result \<times> 'c msf2_runtime" where
  "msf2_runtime_pitch_bend channel v r =
     (if \<not> channel_ok channel then (MSF2_ERR_ARGUMENT, r)
      else
        (let v1 = (if v < - 8192 then - 8192 else v); v2 = (if v1 > 8191 then 8191 else v1)
         in change_channel channel MSF2_CONTROL_GROUP_PITCH (\<lambda>c. c\<lparr> cs_pitch_bend := v2 \<rparr>) r))"

definition msf2_runtime_channel_pressure :: "u8 \<Rightarrow> u8 \<Rightarrow> 'c msf2_runtime \<Rightarrow> msf2_result \<times> 'c msf2_runtime" where
  "msf2_runtime_channel_pressure channel v r =
     (if \<not> channel_ok channel \<or> v > 127 then (MSF2_ERR_ARGUMENT, r)
      else change_channel channel MSF2_CONTROL_GROUP_ALL (\<lambda>c. c\<lparr> cs_channel_pressure := v \<rparr>) r)"

definition msf2_runtime_key_pressure :: "u8 \<Rightarrow> u8 \<Rightarrow> u8 \<Rightarrow> 'c msf2_runtime \<Rightarrow> msf2_result \<times> 'c msf2_runtime" where
  "msf2_runtime_key_pressure channel note v r =
     (if \<not> channel_ok channel \<or> note > 127 \<or> v > 127 then (MSF2_ERR_ARGUMENT, r)
      else change_channel channel MSF2_CONTROL_GROUP_ALL
             (\<lambda>c. c\<lparr> cs_key_pressure := (cs_key_pressure c)[unat note := v] \<rparr>) r)"

definition msf2_runtime_complete_voice :: "nat \<Rightarrow> 'c msf2_runtime \<Rightarrow> msf2_result \<times> 'c msf2_runtime" where
  "msf2_runtime_complete_voice v r =
     (if v \<ge> rt_voice_capacity r then (MSF2_ERR_ARGUMENT, r)
      else if vs_stage (rt_voices r ! v) = MSF2_VOICE_FREE then (MSF2_ERR_STATE, r)
      else (MSF2_OK, reclaim_voice v r))"

definition msf2_runtime_set_periodic_modulation_enabled :: "bool \<Rightarrow> 'c msf2_runtime \<Rightarrow> 'c msf2_runtime" where
  "msf2_runtime_set_periodic_modulation_enabled enabled r =
     (if rt_periodic_modulation_enabled r = enabled then r
      else r\<lparr> rt_periodic_modulation_enabled := enabled,
              rt_channels := map (mark_channel_dirty MSF2_CONTROL_GROUP_ALL) (rt_channels r) \<rparr>)"

section \<open>Note on\<close>

definition cached_preset_index :: "u16 \<Rightarrow> u16 \<Rightarrow> 'c msf2_runtime \<Rightarrow> (int \<times> 'c msf2_runtime) option" where
  "cached_preset_index program bank r =
     (let slot = unat (((ucast bank :: u32) * 131 + ucast program) AND 15); entry = rt_preset_cache r ! slot
      in if pe_valid entry \<and> ucast (pe_program entry) = program \<and> pe_bank entry = bank then Some (pe_preset_index entry, r)
         else do { preset_index \<leftarrow> msf2_find_preset (rt_view r) program bank;
                   Some (preset_index, r\<lparr> rt_preset_cache := (rt_preset_cache r)[slot :=
                     \<lparr> pe_preset_index = preset_index, pe_bank = bank, pe_program = ucast program, pe_valid = True \<rparr>] \<rparr>) })"

text \<open>The layers of a note: zone, amounts, presence and exclusive class of each.\<close>

definition exclusive_of :: "u16 list \<Rightarrow> u64 \<Rightarrow> u8" where
  "exclusive_of gen presence = (if has_generator presence 57 then of_int (clamp_i32 (amount gen 57) 0 127) else 0)"

fun decode_layers :: "msf2_view \<Rightarrow> u32 list \<Rightarrow> (msf2_result + (u32 \<times> u16 list \<times> u64) list) option" where
  "decode_layers vw [] = Some (Inr [])"
| "decode_layers vw (zone # zs) =
     do { d \<leftarrow> msf2_decode_generators vw zone;
          case d of Inl _ \<Rightarrow> Some (Inl MSF2_ERR_RECORD)
          | Inr (gen, presence) \<Rightarrow>
              do { ls \<leftarrow> decode_layers vw zs;
                   case ls of Inl e \<Rightarrow> Some (Inl e) | Inr l \<Rightarrow> Some (Inr ((zone, gen, presence) # l)) } }"

definition choke_voice ::
    "'c command_sink \<Rightarrow> u8 \<Rightarrow> u32 \<Rightarrow> nat \<Rightarrow> 'c msf2_runtime \<Rightarrow> msf2_result \<times> 'c msf2_runtime" where
  "choke_voice sink exclusive preset_index v r =
     (let old = rt_voices r ! v
      in if vs_exclusive_class old = exclusive \<and> vs_preset_index old = preset_index then release_voice_fw sink v r else (MSF2_OK, r))"

fun choke_layers ::
    "'c command_sink \<Rightarrow> u32 \<Rightarrow> (u32 \<times> u16 list \<times> u64) list \<Rightarrow> 'c msf2_runtime \<Rightarrow> msf2_result \<times> 'c msf2_runtime" where
  "choke_layers sink preset_index [] r = (MSF2_OK, r)"
| "choke_layers sink preset_index ((zone, gen, presence) # ls) r =
     (let exclusive = exclusive_of gen presence
      in case (if exclusive \<noteq> 0 then for_active (choke_voice sink exclusive preset_index) r else (MSF2_OK, r)) of
           (MSF2_OK, r1) \<Rightarrow> choke_layers sink preset_index ls r1
         | (e, r1) \<Rightarrow> (e, r1))"

definition next_note_instance :: "'c msf2_runtime \<Rightarrow> u32" where
  "next_note_instance r = (let n = rt_next_note_instance r + 1 in if n = 0 then n + 1 else n)"

definition next_generation :: "u16 \<Rightarrow> u16" where
  "next_generation previous = (let g = previous + 1 in if g = 0 then 1 else g)"

text \<open>The fields of a new voice that need no image: its identity.\<close>

definition new_voice :: "u8 \<Rightarrow> u8 \<Rightarrow> u8 \<Rightarrow> u32 \<Rightarrow> u32 \<Rightarrow> u8 \<Rightarrow> u32 \<Rightarrow> u32 \<Rightarrow> u16 \<Rightarrow> msf2_voice_state" where
  "new_voice channel note velocity preset_index candidate exclusive note_instance stamp previous_generation =
     zero_voice\<lparr> vs_stage := MSF2_VOICE_ACTIVE, vs_channel := channel, vs_note := note, vs_velocity := velocity,
       vs_generation := next_generation previous_generation, vs_preset_index := preset_index, vs_candidate := candidate,
       vs_exclusive_class := exclusive, vs_note_instance := note_instance, vs_allocation_stamp := stamp \<rparr>"

text \<open>The configuration and the modulation programs of a new voice.\<close>

definition configure_voice ::
    "'c msf2_runtime \<Rightarrow> u16 list \<Rightarrow> u64 \<Rightarrow> msf2_note_params \<Rightarrow> msf2_voice_state \<Rightarrow> msf2_voice_state option" where
  "configure_voice r gen presence params voice =
     do { voice1 \<leftarrow> cache_candidate_programs (rt_view r)
                      (voice\<lparr> vs_config := runtime_config_from_generators gen presence (vs_note voice) \<rparr>);
          let voice2 = voice1\<lparr> vs_effective_velocity :=
            (if has_generator presence 47 then clamp_i32 (amount gen 47) 0 127 else - 1) \<rparr>;
          voice3 \<leftarrow> cache_note_static_modulation r voice2;
          groups \<leftarrow> voice_periodic_groups (rt_view r) voice3;
          Some (voice3\<lparr> vs_periodic_groups := groups, vs_base_phase_increment := np_phase_inc params,
            vs_base_gain := ucast (base_gain_q14 presence gen), vs_pan := note_pan presence gen,
            vs_release_step := ceil_divide (push_bit 20 1000) (np_release_samples params) \<rparr>) }"

text \<open>The clocks of a new voice.\<close>

definition start_clocks :: "msf2_voice_state \<Rightarrow> msf2_voice_state" where
  "start_clocks voice =
     (let config = vs_config voice;
          voice1 = voice\<lparr> vs_mod_lfo_wait_ticks := mc_mod_lfo_delay_ticks config,
            vs_vib_lfo_wait_ticks := mc_vib_lfo_delay_ticks config, vs_mod_env_wait_ticks := mc_mod_env_delay_ticks config,
            vs_mod_env_stage := (if mc_mod_env_delay_ticks config \<noteq> 0 then MSF2_ENV_DELAY else MSF2_ENV_ATTACK) \<rparr>
      in if mc_mod_env_delay_ticks config = 0 \<and> mc_mod_env_attack_sub_tick config
         then voice1\<lparr> vs_mod_env_level := 32767, vs_mod_env_wait_ticks := mc_mod_env_hold_ticks config,
                vs_mod_env_stage := (if mc_mod_env_hold_ticks config \<noteq> 0 then MSF2_ENV_HOLD else MSF2_ENV_DECAY) \<rparr>
         else voice1)"

text \<open>The initial phase, gains and filter, with the channel's modulation applied.\<close>

definition initial_parameters :: "'c msf2_runtime \<Rightarrow> msf2_voice_state \<Rightarrow> msf2_voice_state option" where
  "initial_parameters r voice =
     (let channel = channel_of r voice; offsets = cs_generator_offsets_q16 channel; config = vs_config voice;
          initial_env_q16 = (if rt_periodic_modulation_enabled r then env_value_q16 (vs_mod_env_level voice) else 0)
      in do { pitch_sums \<leftarrow> destination_sums_q16 r voice 1;
              gain_sums \<leftarrow> destination_sums_q16 r voice 0;
              filter_sums \<leftarrow> destination_sums_q16 r voice 2;
              let gains = gains_with_modulation (vs_base_gain voice) (vs_pan voice)
                (gain_sums ! 1 + soft_attenuation channel) (gain_sums ! 2);
              Some (voice\<lparr>
                vs_phase_increment := phase_with_cents (vs_base_phase_increment voice)
                  (pitch_sums ! 0 + offsets ! 51 + offsets ! 52 +
                   multiply_q16 initial_env_q16 (mc_mod_env_to_pitch config * MSF2_MOD_ONE + pitch_sums ! 3)),
                vs_gain_l := fst gains, vs_gain_r := snd gains, vs_filter_enable := True,
                vs_filter := filter_from_cutoff_q16
                  (mc_initial_filter_fc config * MSF2_MOD_ONE + filter_sums ! 0 +
                   multiply_q16 initial_env_q16 (mc_mod_env_to_filter_fc config * MSF2_MOD_ONE + filter_sums ! 2))
                  (mc_initial_filter_q config) \<rparr>) })"

definition start_params :: "msf2_voice_state \<Rightarrow> msf2_note_params \<Rightarrow> msf2_note_params" where
  "start_params voice params = params\<lparr> np_phase_inc := vs_phase_increment voice, np_gain_l := vs_gain_l voice,
     np_gain_r := vs_gain_r voice, np_filter_enable := vs_filter_enable voice, np_filter := vs_filter voice \<rparr>"

text \<open>Publishing a voice: a START the sink does not accept returns the voice to the free stack.\<close>

definition publish_voice ::
    "'c command_sink \<Rightarrow> nat \<Rightarrow> msf2_note_params \<Rightarrow> 'c msf2_runtime \<Rightarrow> msf2_result \<times> 'c msf2_runtime" where
  "publish_voice sink v params r =
     (case msf2_pack_start v (vs_generation (rt_voices r ! v)) params of
        Inl e \<Rightarrow> (e, abandon_unpublished_voice v r)
      | Inr words \<Rightarrow>
          (case emit_command sink words r of
             (MSF2_OK, r1) \<Rightarrow>
               (MSF2_OK, update_stats (\<lambda>s. s\<lparr> st_started_voices := st_started_voices s + 1 \<rparr>) (activate_voice v r1))
           | (e, r1) \<Rightarrow> (e, abandon_unpublished_voice v r1)))"

text \<open>One layer of a note; the identity is the channel, key, velocity, preset and note instance.\<close>

definition start_layer ::
    "'c command_sink \<Rightarrow> u8 \<Rightarrow> u8 \<Rightarrow> u8 \<Rightarrow> u32 \<Rightarrow> u32 \<Rightarrow> u32 \<times> u16 list \<times> u64 \<Rightarrow> 'c msf2_runtime \<Rightarrow>
      (msf2_result \<times> 'c msf2_runtime) option" where
  "start_layer sink channel note velocity preset_index note_instance layer r =
     (case layer of (zone, gen, presence) \<Rightarrow>
      case allocate_voice r of (v, r1) \<Rightarrow>
        (let stamp = rt_allocation_stamp r1 + 1;
             voice = new_voice channel note velocity preset_index zone (exclusive_of gen presence) note_instance stamp
               (vs_generation (rt_voices r1 ! v));
             r2 = set_voice v voice (r1\<lparr> rt_allocation_stamp := stamp \<rparr>)
         in do { m \<leftarrow> materialize_note_decoded (rt_view r) zone note gen presence;
                 case m of Inl _ \<Rightarrow> Some (MSF2_ERR_RECORD, abandon_unpublished_voice v r2)
                 | Inr params \<Rightarrow>
                     do { voice1 \<leftarrow> configure_voice r2 gen presence params voice;
                          voice2 \<leftarrow> initial_parameters r2 (start_clocks voice1);
                          Some (publish_voice sink v (start_params voice2 params) (set_voice v voice2 r2)) } }))"

fun start_layers ::
    "'c command_sink \<Rightarrow> u8 \<Rightarrow> u8 \<Rightarrow> u8 \<Rightarrow> u32 \<Rightarrow> u32 \<Rightarrow> (u32 \<times> u16 list \<times> u64) list \<Rightarrow> nat \<Rightarrow> 'c msf2_runtime \<Rightarrow>
      (msf2_result \<times> nat \<times> 'c msf2_runtime) option" where
  "start_layers sink channel note velocity preset_index note_instance [] started r = Some (MSF2_OK, started, r)"
| "start_layers sink channel note velocity preset_index note_instance (layer # ls) started r =
     do { x \<leftarrow> start_layer sink channel note velocity preset_index note_instance layer r;
          case x of (MSF2_OK, r1) \<Rightarrow> start_layers sink channel note velocity preset_index note_instance ls (started + 1) r1
          | (e, r1) \<Rightarrow> Some (e, started, r1) }"

definition unmapped_note :: "'c msf2_runtime \<Rightarrow> 'c msf2_runtime" where
  "unmapped_note r = update_stats (\<lambda>s. s\<lparr> st_unmapped_notes := st_unmapped_notes s + 1 \<rparr>) r"

text \<open>The note of a preset that exists: the result, the layers started and the runtime.\<close>

definition note_on_preset ::
    "'c command_sink \<Rightarrow> u8 \<Rightarrow> u8 \<Rightarrow> u8 \<Rightarrow> u32 \<Rightarrow> 'c msf2_runtime \<Rightarrow> (msf2_result \<times> nat \<times> 'c msf2_runtime) option" where
  "note_on_preset sink channel note velocity preset_index r =
     do { l \<leftarrow> msf2_collect_layers (rt_view r) preset_index note velocity;
          case l of Inl _ \<Rightarrow> Some (MSF2_ERR_CAPACITY, 0, r)
          | Inr zones \<Rightarrow>
              if zones = [] then Some (MSF2_OK, 0, unmapped_note r)
              else do { d \<leftarrow> decode_layers (rt_view r) zones;
                        case d of Inl e \<Rightarrow> Some (e, 0, r)
                        | Inr layers \<Rightarrow>
                            (case choke_layers sink preset_index layers r of
                               (MSF2_OK, r1) \<Rightarrow>
                                 start_layers sink channel note velocity preset_index (next_note_instance r1) layers 0
                                   (r1\<lparr> rt_next_note_instance := next_note_instance r1 \<rparr>)
                             | (e, r1) \<Rightarrow> Some (e, 0, r1)) } }"

definition msf2_runtime_note_on ::
    "'c command_sink \<Rightarrow> u8 \<Rightarrow> u16 \<Rightarrow> u16 \<Rightarrow> u8 \<Rightarrow> u8 \<Rightarrow> 'c msf2_runtime \<Rightarrow> (msf2_result \<times> nat \<times> 'c msf2_runtime) option" where
  "msf2_runtime_note_on sink channel program bank note velocity r =
     (if \<not> channel_ok channel \<or> note > 127 \<or> velocity > 127 then Some (MSF2_ERR_ARGUMENT, 0, r)
      else if velocity = 0 then (case msf2_runtime_note_off sink channel note r of (e, r1) \<Rightarrow> Some (e, 0, r1))
      else do { x \<leftarrow> cached_preset_index program bank (update_stats (\<lambda>s. s\<lparr> st_note_ons := st_note_ons s + 1 \<rparr>) r);
                case x of (preset_index, r1) \<Rightarrow>
                  if preset_index < 0 then Some (MSF2_OK, 0, unmapped_note r1)
                  else note_on_preset sink channel note velocity (of_int preset_index) r1 })"

end
