(* ===== verification/Msf2_Safety.thy ===== *)
theory Msf2_Safety
  imports Msf2_Events Msf2_Demo "HOL-Library.Multiset"
begin

text \<open>
  Safety of the firmware's SoundFont runtime: over an image that validation accepted, and for any command sink,
  no operation reads outside the image or a table, and the allocator's bookkeeping stays consistent.
\<close>

section \<open>What most operations leave alone\<close>

text \<open>The fields of a voice that the allocator and the modulation programs rely on.\<close>

definition voice_part :: "msf2_voice_state \<Rightarrow>
    (bool \<times> nat) \<times> (u8 \<times> u8 \<times> u8 \<times> int) \<times> u32 list \<times> u16 list \<times> u16 list \<times> u8 list" where
  "voice_part x = ((vs_stage x = MSF2_VOICE_FREE, vs_active_position x),
     (vs_channel x, vs_note x, vs_velocity x, vs_effective_velocity x),
     vs_modulation_first_terms x, vs_modulation_term_counts x, vs_modulation_note_static_counts x, vs_modulation_programs x)"

definition pool_part where
  "pool_part r = ((rt_view r, rt_free_stack r, rt_voice_capacity r, rt_free_count r, rt_active_count r),
     (rt_active_voice_indices r, rt_preset_cache r, st_active_voices (rt_stats r), st_maximum_active_voices (rt_stats r)),
     map voice_part (rt_voices r))"

definition channel_state_ok :: "msf2_channel_state \<Rightarrow> bool" where
  "channel_state_ok c \<longleftrightarrow> length (cs_cc c) = 128 \<and> (\<forall>x\<in>set (cs_cc c). x \<le> 127) \<and>
     length (cs_key_pressure c) = 128 \<and> (\<forall>x\<in>set (cs_key_pressure c). x \<le> 127) \<and> cs_channel_pressure c \<le> 127 \<and>
     length (cs_generator_offsets_q16 c) = 61"

definition channels_ok :: "msf2_channel_state list \<Rightarrow> bool" where
  "channels_ok cs \<longleftrightarrow> length cs = 16 \<and> (\<forall>c\<in>set cs. channel_state_ok c)"

definition gentle :: "'c msf2_runtime \<Rightarrow> 'c msf2_runtime \<Rightarrow> bool" where
  "gentle r r' \<longleftrightarrow> pool_part r' = pool_part r \<and> (channels_ok (rt_channels r) \<longrightarrow> channels_ok (rt_channels r'))"

lemma gentle_refl [simp]: "gentle r r"
  by (simp add: gentle_def)

lemma gentle_trans: "gentle a b \<Longrightarrow> gentle b c \<Longrightarrow> gentle a c"
  by (simp add: gentle_def)

lemma gentle_set_voice [simp]: "voice_part x = voice_part (rt_voices r ! v) \<Longrightarrow> gentle r (set_voice v x r)"
  by (simp add: gentle_def pool_part_def set_voice_def map_update)
    (metis list_update_beyond list_update_id length_map not_le nth_map)

lemma gentle_update_stats:
  "(\<And>s. st_active_voices (f s) = st_active_voices s) \<Longrightarrow> (\<And>s. st_maximum_active_voices (f s) = st_maximum_active_voices s) \<Longrightarrow>
     gentle r (update_stats f r)"
  by (simp add: gentle_def pool_part_def update_stats_def)

lemma gentle_update_channel: "(\<And>c. channel_state_ok c \<Longrightarrow> channel_state_ok (f c)) \<Longrightarrow> gentle r (update_channel c f r)"
proof (cases "c < length (rt_channels r)")
  case True
  assume "\<And>c. channel_state_ok c \<Longrightarrow> channel_state_ok (f c)"
  then show ?thesis
    using True by (auto simp: gentle_def pool_part_def update_channel_def channels_ok_def dest!: subsetD [OF set_update_subset_insert])
qed (simp add: gentle_def pool_part_def update_channel_def list_update_beyond)

lemma voices_update_stats [simp]: "rt_voices (update_stats f r) = rt_voices r" "rt_channels (update_stats f r) = rt_channels r"
    "rt_view (update_stats f r) = rt_view r" "rt_active_count (update_stats f r) = rt_active_count r"
    "rt_active_voice_indices (update_stats f r) = rt_active_voice_indices r" "rt_command_context (update_stats f r) = rt_command_context r"
  by (simp_all add: update_stats_def)

lemma set_voice_simps [simp]:
  "rt_voices (set_voice v x r) = (rt_voices r)[v := x]" "rt_channels (set_voice v x r) = rt_channels r"
  "rt_view (set_voice v x r) = rt_view r" "rt_active_count (set_voice v x r) = rt_active_count r"
  "rt_active_voice_indices (set_voice v x r) = rt_active_voice_indices r" "rt_command_context (set_voice v x r) = rt_command_context r"
  by (simp_all add: set_voice_def)

text \<open>A result is a pair of a code and a runtime; only success goes on.\<close>

lemma case_result:
  "(case x of (MSF2_OK, r) \<Rightarrow> f r | (e, r) \<Rightarrow> (e, r)) = (if fst x = MSF2_OK then f (snd x) else x)"
  by (cases x; cases "fst x") simp_all

lemma case_result_opt:
  "(case x of (MSF2_OK, r) \<Rightarrow> f r | (e, r) \<Rightarrow> Some (e, r)) = (if fst x = MSF2_OK then f (snd x) else Some x)"
  by (cases x; cases "fst x") simp_all

lemma emit_command_keeps: "snd (emit_command sink w r) = r\<lparr> rt_command_context := snd (sink (rt_command_context r) w) \<rparr>"
  by (simp add: emit_command_def split: prod.split)

lemma gentle_context [simp]: "gentle r (r\<lparr> rt_command_context := c \<rparr>)"
  by (simp add: gentle_def pool_part_def)

lemma gentle_emit [simp]: "gentle r (snd (emit_command sink w r))" "gentle r (snd (emit_short sink op v g x r))"
  by (simp_all add: emit_short_def emit_command_keeps)

lemma emit_voices [simp]: "rt_voices (snd (emit_command sink w r)) = rt_voices r" "rt_voices (snd (emit_short sink op v g x r)) = rt_voices r"
  by (simp_all add: emit_short_def emit_command_keeps)

lemma gentle_sent:
  assumes "\<And>s. st_active_voices (f s) = st_active_voices s" "\<And>s. st_maximum_active_voices (f s) = st_maximum_active_voices s"
    and "voice_part x = voice_part (rt_voices r ! v)"
  shows "gentle r (set_voice v x (update_stats f (snd (emit_command sink w r))))"
proof -
  have "gentle (snd (emit_command sink w r)) (update_stats f (snd (emit_command sink w r)))"
    using assms(1,2) by (rule gentle_update_stats)
  moreover have "gentle (update_stats f (snd (emit_command sink w r))) (set_voice v x (update_stats f (snd (emit_command sink w r))))"
    using assms(3) by simp
  ultimately show ?thesis using gentle_emit(1) [of r sink w] gentle_trans by blast
qed

lemma gentle_release_voice: "gentle r (snd (release_voice_fw sink v r))"
  by (auto simp: release_voice_fw_def Let_def case_result emit_short_def voice_part_def intro!: gentle_sent)

lemma gentle_stop_voice: "gentle r (snd (stop_voice_fw sink v r))"
  by (auto simp: stop_voice_fw_def Let_def case_result emit_short_def voice_part_def intro!: gentle_sent)

lemma gentle_each_active:
  assumes "\<And>v r'. gentle r r' \<Longrightarrow> v \<in> set (take n (rt_active_voice_indices r)) \<Longrightarrow> gentle r' (snd (f v r'))"
    and "set as \<subseteq> {..<n}" and "n \<le> length (rt_active_voice_indices r)" and "gentle r r'"
  shows "gentle r (snd (each_active f as r'))"
  using assms(2,4)
proof (induction as arbitrary: r')
  case (Cons a as)
  have "rt_active_voice_indices r' = rt_active_voice_indices r" using Cons.prems(2) by (simp add: gentle_def pool_part_def)
  moreover have "rt_active_voice_indices r ! a \<in> set (take n (rt_active_voice_indices r))"
    using Cons.prems(1) assms(3) by (auto simp: in_set_conv_nth intro!: exI [of _ a])
  ultimately have "gentle r (snd (f (rt_active_voice_indices r' ! a) r'))"
    using assms(1) [OF Cons.prems(2)] Cons.prems(2) gentle_trans by metis
  then show ?case using Cons.IH Cons.prems(1) by (simp add: case_result)
qed simp

lemma gentle_fold: "(\<And>x r. gentle r (g x r)) \<Longrightarrow> gentle r (fold g xs r)"
  by (induction xs arbitrary: r) (auto intro: gentle_trans)

lemma gentle_update_active: "(\<And>x. voice_part (f x) = voice_part x) \<Longrightarrow> gentle r (update_active f r)"
  by (auto simp: update_active_def Let_def intro!: gentle_fold gentle_set_voice)

section \<open>Reading the modulation programs\<close>

definition voice_ok :: "msf2_view \<Rightarrow> msf2_voice_state \<Rightarrow> bool" where
  "voice_ok vw x \<longleftrightarrow> unat (vs_channel x) < 16 \<and> vs_note x \<le> 127 \<and> vs_velocity x \<le> 127 \<and> vs_effective_velocity x \<le> 127 \<and>
     length (vs_modulation_first_terms x) = 3 \<and> length (vs_modulation_term_counts x) = 3 \<and>
     length (vs_modulation_note_static_counts x) = 3 \<and> length (vs_modulation_programs x) = 3 \<and>
     (\<forall>slot < 3. range_fits (vs_modulation_first_terms x ! slot) (ucast (vs_modulation_term_counts x ! slot)) (section_count vw 6) \<and>
        vs_modulation_note_static_counts x ! slot \<le> vs_modulation_term_counts x ! slot)"

lemma voice_ok_part: "voice_part x = voice_part y \<Longrightarrow> voice_ok vw x = voice_ok vw y"
  by (simp add: voice_part_def voice_ok_def)

lemma zero_voice_ok [simp]: "voice_ok vw zero_voice"
  by (auto simp: voice_ok_def zero_voice_def range_fits_def less_Suc_eq numeral_3_eq_3)

lemma native_value_range:
  assumes "channel_state_ok c" and "voice_ok vw x" and "index = source AND 0x007f"
  shows "native_value source index c x < 128"
proof -
  have small: "unat y < 128" if "y \<le> 127" for y :: u8 using that by (simp add: word_le_nat_alt)
  have "index \<le> 127" using assms(3) by (simp add: word_and_le1)
  then have i: "unat index < 128" by (simp add: word_le_nat_alt)
  have "unat (cs_cc c ! unat index) < 128" "unat (cs_key_pressure c ! unat (vs_note x)) < 128" "unat (cs_channel_pressure c) < 128"
    using assms(1,2) i small by (auto simp: channel_state_ok_def voice_ok_def)
  moreover have "unat (vs_note x) < 128" "unat (vs_velocity x) < 128" "nat (vs_effective_velocity x) < 128"
    using assms(2) small by (auto simp: voice_ok_def)
  ultimately show ?thesis by (auto simp: native_value_def Let_def)
qed

lemma source_value_total: "channel_state_ok c \<Longrightarrow> voice_ok vw x \<Longrightarrow> defined (source_value_q16 source c x)"
  using native_value_range by (simp add: source_value_q16_def Let_def MSF2_MIDI_VALUE_COUNT_def)

lemma u16_u32: "unat (ucast c :: u32) = unat c" for c :: u16
  using unat_bounds(2) [of c] by (simp add: unsigned_ucast_eq take_bit_nat_eq_self)

lemma term_record:
  assumes "image_ok vw" and "voice_ok vw x" and "slot < 3" and "local < unat (vs_modulation_term_counts x ! slot)"
  obtains p where "record_at vw 6 (vs_modulation_first_terms x ! slot + of_nat local) = Some p" and "p + 12 \<le> length (vw_data vw)"
proof -
  have "vs_modulation_first_terms x ! slot + of_nat local < section_count vw 6"
    using assms by (intro range_fits_less(1) [where count = "ucast (vs_modulation_term_counts x ! slot)"]) (auto simp: voice_ok_def u16_u32)
  then show ?thesis using record_inside [OF image_okD(8) [OF assms(1)]] that by auto
qed

lemma term_value_total:
  assumes "image_ok vw" and "channel_state_ok c" and "voice_ok vw x" and "slot < 3"
    and "local < unat (vs_modulation_term_counts x ! slot)"
  shows "defined (term_value vw c x slot local)"
proof -
  obtain p where "record_at vw 6 (vs_modulation_first_terms x ! slot + of_nat local) = Some p" "p + 12 \<le> length (vw_data vw)"
    using term_record [OF assms(1,3-5)] .
  then show ?thesis
    using source_value_total [OF assms(2,3)] by (auto simp: term_value_def reads_eq Let_def intro!: definedI)
qed

lemma add_terms_total:
  assumes "image_ok vw" and "channel_state_ok c" and "voice_ok vw x" and "slot < 3"
    and "set ls \<subseteq> {..<unat (vs_modulation_term_counts x ! slot)}"
  shows "\<exists>xs. add_terms vw c x slot offset ls acc = Some xs \<and> length xs = length acc"
  using assms(5)
proof (induction ls arbitrary: acc)
  case (Cons l ls)
  obtain t where "term_value vw c x slot l = Some t"
    using term_value_total [OF assms(1-4), of l] Cons.prems by (auto elim: defined_obtain)
  then show ?case using Cons by (simp split: option.split) (metis length_list_update)
qed simp

text \<open>The image, the channels and the voices are as the operations expect them.\<close>

definition ready :: "'c msf2_runtime \<Rightarrow> bool" where
  "ready r \<longleftrightarrow> image_ok (rt_view r) \<and> channels_ok (rt_channels r) \<and> (\<forall>x\<in>set (rt_voices r). voice_ok (rt_view r) x)"

lemma ready_voice: "ready r \<Longrightarrow> v < length (rt_voices r) \<Longrightarrow> voice_ok (rt_view r) (rt_voices r ! v)"
  by (simp add: ready_def)

lemma ready_channel: "ready r \<Longrightarrow> voice_ok vw x \<Longrightarrow> channel_state_ok (channel_of r x)"
  by (simp add: ready_def channels_ok_def channel_of_def voice_ok_def)

lemma ready_gentle: "gentle r r' \<Longrightarrow> ready r \<Longrightarrow> ready r'"
proof -
  assume g: "gentle r r'" and r: "ready r"
  have m: "map voice_part (rt_voices r') = map voice_part (rt_voices r)" "rt_view r' = rt_view r"
    using g by (simp_all add: gentle_def pool_part_def)
  have "voice_ok (rt_view r) x" if "x \<in> set (rt_voices r')" for x
  proof -
    have "voice_part x \<in> set (map voice_part (rt_voices r))" using that m(1) by (metis image_eqI list.set_map)
    then obtain y where "y \<in> set (rt_voices r)" "voice_part x = voice_part y" by auto
    then show ?thesis using r voice_ok_part by (metis ready_def)
  qed
  then show ?thesis using g r m(2) by (simp add: ready_def gentle_def)
qed

lemma destination_sums_total:
  assumes "ready r" and "voice_ok (rt_view r) x" and "slot < 3"
  shows "defined (destination_sums_q16 r x slot)"
proof -
  have "\<exists>xs. add_terms (rt_view r) (channel_of r x) x slot 0
      [unat (vs_modulation_note_static_counts x ! slot)..<unat (vs_modulation_term_counts x ! slot)] acc = Some xs \<and> length xs = length acc" for acc
    using assms ready_channel [OF assms(1,2)] by (intro add_terms_total) (auto simp: ready_def)
  then show ?thesis unfolding destination_sums_q16_def Let_def by (intro defined_if) (simp, metis defined_simps(1))
qed

section \<open>The control rate never faults\<close>

definition runs :: "'c msf2_runtime \<Rightarrow> (msf2_result \<times> 'c msf2_runtime) option \<Rightarrow> bool" where
  "runs r m \<longleftrightarrow> (\<exists>e r'. m = Some (e, r') \<and> gentle r r')"

lemma runsI: "gentle r (snd x) \<Longrightarrow> runs r (Some x)"
  by (cases x) (simp add: runs_def)

lemma runs_and_then: "runs r m \<Longrightarrow> (\<And>r'. gentle r r' \<Longrightarrow> runs r' (f r')) \<Longrightarrow> runs r (and_then m f)"
  by (auto simp: runs_def and_then_def case_result_opt) (metis gentle_trans)

lemma runs_after: "gentle r r' \<Longrightarrow> runs r' m \<Longrightarrow> runs r m"
  by (auto simp: runs_def intro: gentle_trans)

lemma runs_bind: "defined a \<Longrightarrow> (\<And>x. runs r (f x)) \<Longrightarrow> runs r (a \<bind> f)"
  by (auto simp: defined_def)

lemma runs_if: "(b \<Longrightarrow> runs r x) \<Longrightarrow> (\<not> b \<Longrightarrow> runs r y) \<Longrightarrow> runs r (if b then x else y)"
  by simp

lemma runs_when: "(\<And>r. gentle r0 r \<Longrightarrow> runs r (f r)) \<Longrightarrow> gentle r0 r \<Longrightarrow> runs r (when_group groups g f r)"
  by (auto simp: when_group_def intro: runsI)

lemma refresh_pitch_runs: "ready r \<Longrightarrow> v < length (rt_voices r) \<Longrightarrow> runs r (refresh_pitch sink v inputs r)"
  using destination_sums_total [OF _ ready_voice, of r v 1]
  by (cases inputs) (auto simp: refresh_pitch_def modulated_phase_def Let_def case_result emit_short_def voice_part_def
      intro!: runs_bind runsI gentle_sent definedI)

lemma refresh_filter_runs: "ready r \<Longrightarrow> v < length (rt_voices r) \<Longrightarrow> runs r (refresh_filter sink v inputs r)"
  using destination_sums_total [OF _ ready_voice, of r v 2]
  by (cases inputs) (auto simp: refresh_filter_def Let_def case_result voice_part_def intro!: runs_bind runsI gentle_sent definedI)

lemma refresh_gain_runs:
  assumes "ready r" and "v < length (rt_voices r)"
  shows "runs r (refresh_gain sink v inputs r)"
proof -
  let ?voice = "rt_voices r ! v"
  have "runs r (let r1 = set_voice v (?voice\<lparr> vs_tremolo_attenuation_q16 := tremolo \<rparr>) r
      in if b then Some (MSF2_OK, r1)
         else Some (case emit_short sink op v g w r1 of
                (MSF2_OK, r2) \<Rightarrow>
                  (MSF2_OK, set_voice v (?voice\<lparr> vs_tremolo_attenuation_q16 := tremolo, vs_gain_l := a, vs_gain_r := c \<rparr>)
                    (update_stats (\<lambda>s. s\<lparr> st_controller_voice_updates := st_controller_voice_updates s + 1 \<rparr>) r2))
              | (e, r2) \<Rightarrow> (e, r2)))" for tremolo b op g w a c
  proof -
    let ?r1 = "set_voice v (?voice\<lparr> vs_tremolo_attenuation_q16 := tremolo \<rparr>) r"
    have "gentle r ?r1" by (simp add: voice_part_def)
    moreover have "gentle ?r1 (set_voice v (?voice\<lparr> vs_tremolo_attenuation_q16 := tremolo, vs_gain_l := a, vs_gain_r := c \<rparr>)
        (update_stats (\<lambda>s. s\<lparr> st_controller_voice_updates := st_controller_voice_updates s + 1 \<rparr>) (snd (emit_command sink x ?r1))))" for x
      using assms(2) by (intro gentle_sent) (simp_all add: voice_part_def)
    ultimately show ?thesis
      unfolding Let_def case_result emit_short_def
      by (intro runs_if runs_after [OF \<open>gentle r ?r1\<close>] runsI) simp_all
  qed
  then show ?thesis
    using destination_sums_total [OF assms(1) ready_voice [OF assms], of 0]
    by (cases inputs) (auto simp: refresh_gain_def Let_def intro!: runs_bind)
qed

lemma gentle_length: "gentle r r' \<Longrightarrow> length (rt_voices r') = length (rt_voices r)"
  by (auto simp: gentle_def pool_part_def dest: map_eq_imp_length_eq)

lemma refresh_voice_runs:
  assumes "ready r" and "v < length (rt_voices r)"
  shows "runs r (refresh_voice sink v groups r)"
proof -
  let ?r1 = "update_stats (\<lambda>s. s\<lparr> st_control_voice_evaluations := st_control_voice_evaluations s + 1 \<rparr>) r"
  have g: "gentle r ?r1" by (rule gentle_update_stats) simp_all
  have ok: "ready r'" "v < length (rt_voices r')" if "gentle ?r1 r'" for r'
    using ready_gentle [OF gentle_trans [OF g that] assms(1)] gentle_length [OF gentle_trans [OF g that]] assms(2) by simp_all
  have group: "runs r' (when_group groups b (f sink v inputs) r')" if "gentle ?r1 r'"
      "f = refresh_pitch \<or> f = refresh_gain \<or> f = refresh_filter" for r' f b inputs
  proof (rule runs_when [OF _ that(1)])
    fix q assume "gentle ?r1 q"
    then show "runs q (f sink v inputs q)"
      using that(2) refresh_pitch_runs [OF ok] refresh_gain_runs [OF ok] refresh_filter_runs [OF ok] by blast
  qed
  have "runs ?r1 (and_then (when_group groups MSF2_CONTROL_GROUP_PITCH (refresh_pitch sink v inputs) ?r1) (\<lambda>r2.
            and_then (when_group groups MSF2_CONTROL_GROUP_GAIN (refresh_gain sink v inputs) r2) (\<lambda>r3.
              when_group groups MSF2_CONTROL_GROUP_FILTER (refresh_filter sink v inputs) r3)))" for inputs
    by (intro runs_and_then group) (auto intro: gentle_trans)
  then show ?thesis unfolding refresh_voice_def Let_def by (intro runs_if) (simp_all add: runsI runs_after [OF g])
qed

lemma envelope_turn_part: "voice_part (fst (envelope_turn x n)) = voice_part x"
  by (simp add: envelope_turn_def Let_def voice_part_def attack_stage_def decay_stage_def)

lemma advance_envelope_part: "voice_part (advance_modulation_envelope_elapsed x n) = voice_part x"
proof (induction x n rule: advance_modulation_envelope_elapsed.induct)
  case (1 x n)
  show ?case
  proof (cases "n = 0")
    case False
    obtain y s where t: "envelope_turn x n = (y, s)" by (cases "envelope_turn x n")
    then show ?thesis
      using 1 False envelope_turn_part [of x n] by (subst advance_modulation_envelope_elapsed.simps) (simp split: option.split)
  qed (simp add: advance_modulation_envelope_elapsed.simps)
qed

lemma advance_lfos_part: "voice_part (advance_lfos n x) = voice_part x" "voice_part (final_lfo_tick x) = voice_part x"
  by (simp_all add: advance_lfos_def final_lfo_tick_def Let_def voice_part_def split: prod.split)

lemma advance_voice_runs:
  assumes "ready r" and "v < length (rt_voices r)"
  shows "runs r (advance_voice_modulation_elapsed sink v n r)"
proof -
  define voice1 where "voice1 = advance_lfos (n - 1) (advance_modulation_envelope_elapsed (rt_voices r ! v) n)"
  have g: "gentle r (set_voice v voice1 r)"
    by (simp add: voice1_def advance_lfos_part advance_envelope_part)
  have "runs (set_voice v voice1 r) (if groups = 0 then Some (MSF2_OK, set_voice v voice1 r) else refresh_voice sink v groups (set_voice v voice1 r))" for groups
    using ready_gentle [OF g assms(1)] assms(2) by (intro runs_if refresh_voice_runs runsI) simp_all
  then have "runs (set_voice v voice1 r) (and_then (if groups = 0 then Some (MSF2_OK, set_voice v voice1 r) else refresh_voice sink v groups (set_voice v voice1 r))
      (\<lambda>r2. Some (MSF2_OK, set_voice v (final_lfo_tick (rt_voices r2 ! v)) r2)))" for groups
    by (intro runs_and_then runsI) (simp_all add: advance_lfos_part)
  then show ?thesis
    using refresh_voice_runs [OF assms] runs_after [OF g]
    by (auto simp: advance_voice_modulation_elapsed_def Let_def voice1_def [symmetric] intro: runsI)
qed

lemma runs_each_active_opt:
  assumes "\<And>v r'. gentle r r' \<Longrightarrow> v \<in> set (take n (rt_active_voice_indices r)) \<Longrightarrow> runs r' (f v r')"
    and "set as \<subseteq> {..<n}" and "n \<le> length (rt_active_voice_indices r)" and "gentle r r'"
  shows "runs r' (each_active_opt f as r')"
  using assms(2,4)
proof (induction as arbitrary: r')
  case (Cons a as)
  have "rt_active_voice_indices r' = rt_active_voice_indices r" using Cons.prems(2) by (simp add: gentle_def pool_part_def)
  moreover have "rt_active_voice_indices r ! a \<in> set (take n (rt_active_voice_indices r))"
    using Cons.prems(1) assms(3) by (auto simp: in_set_conv_nth intro!: exI [of _ a])
  ultimately have "runs r' (f (rt_active_voice_indices r' ! a) r')" using assms(1) [OF Cons.prems(2)] by metis
  then show ?case using Cons gentle_trans [OF Cons.prems(2)] by (auto intro!: runs_and_then)
qed (simp add: runsI)

section \<open>The pool of voices\<close>

text \<open>The free stack, the active list and the voices \<open>pending\<close> between allocation and publication together hold
  every voice exactly once; the active list knows where each of its voices is; and the counters agree.\<close>

definition pool_ok :: "nat list \<Rightarrow> 'c msf2_runtime \<Rightarrow> bool" where
  "pool_ok pending r \<longleftrightarrow>
     0 < rt_voice_capacity r \<and> rt_voice_capacity r \<le> 512 \<and> length (rt_voices r) = rt_voice_capacity r \<and>
     length (rt_free_stack r) = rt_voice_capacity r \<and> length (rt_active_voice_indices r) = 512 \<and>
     rt_free_count r \<le> rt_voice_capacity r \<and> rt_active_count r \<le> 512 \<and>
     mset (take (rt_free_count r) (rt_free_stack r) @ take (rt_active_count r) (rt_active_voice_indices r) @ pending) =
       mset [0..<rt_voice_capacity r] \<and>
     (\<forall>i < rt_active_count r. vs_active_position (rt_voices r ! (rt_active_voice_indices r ! i)) = i \<and>
        vs_stage (rt_voices r ! (rt_active_voice_indices r ! i)) \<noteq> MSF2_VOICE_FREE) \<and>
     (\<forall>i < rt_free_count r. vs_stage (rt_voices r ! (rt_free_stack r ! i)) = MSF2_VOICE_FREE) \<and>
     st_active_voices (rt_stats r) = rt_active_count r \<and> rt_active_count r \<le> st_maximum_active_voices (rt_stats r)"

lemma pool_counts:
  assumes "pool_ok pending r"
  shows "rt_free_count r + rt_active_count r + length pending = rt_voice_capacity r"
proof -
  have "length (take (rt_free_count r) (rt_free_stack r) @ take (rt_active_count r) (rt_active_voice_indices r) @ pending) =
      length [0..<rt_voice_capacity r]"
    using assms by (intro mset_eq_length) (simp add: pool_ok_def)
  then show ?thesis using assms by (simp add: pool_ok_def min_absorb2)
qed

lemma pool_members:
  assumes "pool_ok pending r"
  shows "distinct (take (rt_free_count r) (rt_free_stack r) @ take (rt_active_count r) (rt_active_voice_indices r) @ pending)"
    "set (take (rt_free_count r) (rt_free_stack r) @ take (rt_active_count r) (rt_active_voice_indices r) @ pending) = {..<rt_voice_capacity r}"
proof -
  have m: "mset (take (rt_free_count r) (rt_free_stack r) @ take (rt_active_count r) (rt_active_voice_indices r) @ pending) =
      mset [0..<rt_voice_capacity r]" using assms by (simp add: pool_ok_def)
  show "distinct (take (rt_free_count r) (rt_free_stack r) @ take (rt_active_count r) (rt_active_voice_indices r) @ pending)"
    by (simp only: mset_eq_imp_distinct_iff [OF m] distinct_upt)
  show "set (take (rt_free_count r) (rt_free_stack r) @ take (rt_active_count r) (rt_active_voice_indices r) @ pending) = {..<rt_voice_capacity r}"
    by (simp only: mset_eq_setD [OF m] set_upt lessThan_atLeast0)
qed

lemma active_voice:
  assumes "pool_ok pending r" and "v \<in> set (take (rt_active_count r) (rt_active_voice_indices r))"
  shows "v < rt_voice_capacity r" "v < length (rt_voices r)" "vs_stage (rt_voices r ! v) \<noteq> MSF2_VOICE_FREE"
    "vs_active_position (rt_voices r ! v) < rt_active_count r" "rt_active_voice_indices r ! vs_active_position (rt_voices r ! v) = v"
proof -
  show "v < rt_voice_capacity r" using pool_members(2) [OF assms(1)] assms(2) by auto
  then show "v < length (rt_voices r)" using assms(1) by (simp add: pool_ok_def)
  obtain i where "i < rt_active_count r" "rt_active_voice_indices r ! i = v" using assms(2) by (auto simp: in_set_conv_nth)
  then show "vs_stage (rt_voices r ! v) \<noteq> MSF2_VOICE_FREE" "vs_active_position (rt_voices r ! v) < rt_active_count r"
      "rt_active_voice_indices r ! vs_active_position (rt_voices r ! v) = v"
    using assms(1) by (auto simp: pool_ok_def)
qed

lemma voice_part_nth:
  assumes "map voice_part xs = map voice_part ys" and "v < length xs"
  shows "vs_active_position (xs ! v) = vs_active_position (ys ! v)" "(vs_stage (xs ! v) = MSF2_VOICE_FREE) = (vs_stage (ys ! v) = MSF2_VOICE_FREE)"
proof -
  have "voice_part (xs ! v) = voice_part (ys ! v)" using assms map_eq_imp_length_eq [OF assms(1)] by (metis nth_map)
  then show "vs_active_position (xs ! v) = vs_active_position (ys ! v)"
      "(vs_stage (xs ! v) = MSF2_VOICE_FREE) = (vs_stage (ys ! v) = MSF2_VOICE_FREE)" by (simp_all add: voice_part_def)
qed

lemma nth_in_take: "i < n \<Longrightarrow> n \<le> length xs \<Longrightarrow> xs ! i \<in> set (take n xs)"
  by (auto simp: in_set_conv_nth)

lemma pool_inside:
  assumes "pool_ok pending r"
  shows "i < rt_active_count r \<Longrightarrow> rt_active_voice_indices r ! i < length (rt_voices r)"
    "i < rt_free_count r \<Longrightarrow> rt_free_stack r ! i < length (rt_voices r)"
proof -
  have s: "set (take (rt_free_count r) (rt_free_stack r)) \<union> set (take (rt_active_count r) (rt_active_voice_indices r)) \<subseteq> {..<length (rt_voices r)}"
    using pool_members(2) [OF assms] assms by (auto simp: pool_ok_def)
  have n: "rt_active_count r \<le> length (rt_active_voice_indices r)" "rt_free_count r \<le> length (rt_free_stack r)"
    using assms by (simp_all add: pool_ok_def)
  show "rt_active_voice_indices r ! i < length (rt_voices r)" if "i < rt_active_count r" using s nth_in_take [OF that n(1)] by blast
  show "rt_free_stack r ! i < length (rt_voices r)" if "i < rt_free_count r" using s nth_in_take [OF that n(2)] by blast
qed

lemma pool_gentle:
  assumes "gentle r r'" and "pool_ok pending r"
  shows "pool_ok pending r'"
proof -
  have p: "map voice_part (rt_voices r') = map voice_part (rt_voices r)" "rt_free_stack r' = rt_free_stack r"
    "rt_voice_capacity r' = rt_voice_capacity r" "rt_free_count r' = rt_free_count r" "rt_active_count r' = rt_active_count r"
    "rt_active_voice_indices r' = rt_active_voice_indices r" "st_active_voices (rt_stats r') = st_active_voices (rt_stats r)"
    "st_maximum_active_voices (rt_stats r') = st_maximum_active_voices (rt_stats r)"
    using assms(1) by (simp_all add: gentle_def pool_part_def)
  have len: "length (rt_voices r') = length (rt_voices r)" using assms(1) by (rule gentle_length)
  show ?thesis
    using assms(2) pool_inside [OF assms(2)] len voice_part_nth [OF p(1)] by (simp add: pool_ok_def p(2-8))
qed

text \<open>Removing an element by overwriting it with the last one.\<close>

lemma swap_remove:
  assumes "p < n" and "n \<le> length xs"
  shows "mset (take n xs) = add_mset (xs ! p) (mset (take (n - 1) (xs[p := xs ! (n - 1)])))"
proof -
  define ys where "ys = take (n - 1) xs"
  have ys: "take n xs = ys @ [xs ! (n - 1)]" "length ys = n - 1"
    using assms take_Suc_conv_app_nth [of "n - 1" xs] by (simp_all add: ys_def)
  have t: "take (n - 1) (xs[p := xs ! (n - 1)]) = ys[p := xs ! (n - 1)]" by (simp add: ys_def take_update_swap)
  show ?thesis
  proof (cases "p = n - 1")
    case False
    then have "p < length ys" "ys ! p = xs ! p" using assms ys(2) by (simp_all add: ys_def)
    moreover from this have "xs ! p \<in># mset ys" by (metis nth_mem_mset)
    ultimately show ?thesis using t ys(1) by (simp add: mset_update)
  qed (use t ys in \<open>simp add: list_update_beyond\<close>)
qed

lemma reclaim_pool:
  assumes "pool_ok pending r" and "v \<in> set (take (rt_active_count r) (rt_active_voice_indices r))"
  shows "pool_ok pending (reclaim_voice v r)" "rt_free_count (reclaim_voice v r) = rt_free_count r + 1"
    "rt_free_stack (reclaim_voice v r) ! rt_free_count r = v"
proof -
  let ?ac = "rt_active_count r" and ?ai = "rt_active_voice_indices r" and ?p = "vs_active_position (rt_voices r ! v)"
  let ?w = "?ai ! (?ac - 1)" and ?r = "reclaim_voice v r"
  note v = active_voice [OF assms]
  have fields: "rt_active_count ?r = ?ac - 1" "rt_active_voice_indices ?r = ?ai[?p := ?w]"
      "rt_free_stack ?r = (rt_free_stack r)[rt_free_count r := v]" "rt_free_count ?r = rt_free_count r + 1"
      "rt_voice_capacity ?r = rt_voice_capacity r" "st_active_voices (rt_stats ?r) = st_active_voices (rt_stats r) - 1"
      "st_maximum_active_voices (rt_stats ?r) = st_maximum_active_voices (rt_stats r)"
      "length (rt_voices ?r) = length (rt_voices r)"
    using v(3) by (simp_all add: reclaim_voice_def Let_def)
  have w: "?w < length (rt_voices r)" using pool_inside(1) [OF assms(1), of "?ac - 1"] v(4) by simp
  have stage: "vs_stage (rt_voices ?r ! x) = (if x = v then MSF2_VOICE_FREE else vs_stage (rt_voices r ! x))"
    and position: "vs_active_position (rt_voices ?r ! x) = (if x = ?w then ?p else vs_active_position (rt_voices r ! x))"
    if "x < length (rt_voices r)" for x
    using that v(2,3) w by (auto simp: reclaim_voice_def Let_def nth_list_update)
  have lens: "length ?ai = 512" "?ac \<le> 512" "length (rt_free_stack r) = rt_voice_capacity r" using assms(1) by (simp_all add: pool_ok_def)
  have free: "rt_free_count r < rt_voice_capacity r" using pool_counts [OF assms(1)] v(4) by linarith
  have swap: "mset (take ?ac ?ai) = add_mset v (mset (take (?ac - 1) (?ai[?p := ?w])))"
    using swap_remove [of ?p ?ac ?ai] v(4,5) lens by simp
  have distinct: "distinct (take ?ac ?ai)" using pool_members(1) [OF assms(1)] by simp
  then have out: "v \<notin> set (take (?ac - 1) (?ai[?p := ?w]))" and dist': "distinct (take (?ac - 1) (?ai[?p := ?w]))"
    using swap mset_eq_imp_distinct_iff [of "take ?ac ?ai" "v # take (?ac - 1) (?ai[?p := ?w])"] by auto
  show "rt_free_count ?r = rt_free_count r + 1" using fields by simp
  show "rt_free_stack ?r ! rt_free_count r = v" using fields free lens by simp
  have inside: "(?ai[?p := ?w]) ! i < length (rt_voices r)" if "i < ?ac - 1" for i
    using that pool_inside(1) [OF assms(1), of i] w v(4) lens by (cases "i = ?p") simp_all
  have 1: "vs_active_position (rt_voices ?r ! ((?ai[?p := ?w]) ! i)) = i \<and> vs_stage (rt_voices ?r ! ((?ai[?p := ?w]) ! i)) \<noteq> MSF2_VOICE_FREE"
    if "i < ?ac - 1" for i
  proof -
    have i: "i < ?ac" "i < length ?ai" "?ac - 1 < ?ac" using that lens by auto
    have "?ac - 1 \<le> length (?ai[?p := ?w])" using lens by simp
    then have "(?ai[?p := ?w]) ! i \<noteq> v" using out nth_in_take [OF that] by metis
    moreover have "?ai ! i \<noteq> ?w" using distinct that lens nth_eq_iff_index_eq [of "take ?ac ?ai" i "?ac - 1"] by simp
    moreover have "vs_active_position (rt_voices r ! (?ai ! i)) = i" "vs_stage (rt_voices r ! (?ai ! i)) \<noteq> MSF2_VOICE_FREE"
        "vs_stage (rt_voices r ! ?w) \<noteq> MSF2_VOICE_FREE"
      using assms(1) i by (auto simp: pool_ok_def)
    ultimately show ?thesis using inside [OF that] i stage position by (cases "i = ?p") simp_all
  qed
  have 2: "vs_stage (rt_voices ?r ! ((rt_free_stack r)[rt_free_count r := v] ! i)) = MSF2_VOICE_FREE" if "i < rt_free_count r + 1" for i
    using that stage v(2) pool_inside(2) [OF assms(1), of i] assms(1) free lens by (cases "i = rt_free_count r") (auto simp: pool_ok_def)
  have 3: "take (rt_free_count r + 1) ((rt_free_stack r)[rt_free_count r := v]) = take (rt_free_count r) (rt_free_stack r) @ [v]"
    using free lens by (simp add: take_Suc_conv_app_nth)
  show "pool_ok pending ?r"
    using assms(1) fields 1 2 3 swap free by (simp add: pool_ok_def le_diff_conv)
qed

text \<open>The voice to steal is one of the active ones.\<close>

lemma steal_victim_active:
  assumes "0 < rt_active_count r" and "rt_active_count r \<le> length (rt_active_voice_indices r)"
  shows "steal_victim r \<in> set (take (rt_active_count r) (rt_active_voice_indices r))"
proof -
  let ?S = "set (take (rt_active_count r) (rt_active_voice_indices r))"
  have "foldl (\<lambda>victim index. (let candidate = rt_active_voice_indices r ! index
          in if better_victim (rt_voices r ! candidate) (rt_voices r ! victim) then candidate else victim)) x is \<in> ?S"
    if "x \<in> ?S" "set is \<subseteq> {..<rt_active_count r}" for x "is"
    using that
  proof (induction "is" arbitrary: x)
    case (Cons i "is")
    then have "rt_active_voice_indices r ! i \<in> ?S" using nth_in_take [OF _ assms(2), of i] by simp
    then show ?case using Cons by (simp add: Let_def)
  qed simp
  then show ?thesis using nth_in_take [OF assms] by (simp add: steal_victim_def lessThan_atLeast0)
qed

lemma pop_pool:
  assumes "pool_ok [] r" and "0 < rt_free_count r"
  shows "pool_ok [rt_free_stack r ! (rt_free_count r - 1)] (r\<lparr> rt_free_count := rt_free_count r - 1 \<rparr>)"
proof -
  have "take (rt_free_count r) (rt_free_stack r) = take (rt_free_count r - 1) (rt_free_stack r) @ [rt_free_stack r ! (rt_free_count r - 1)]"
    using assms take_Suc_conv_app_nth [of "rt_free_count r - 1" "rt_free_stack r"] by (force simp: pool_ok_def)
  then have "mset (take (rt_free_count r) (rt_free_stack r)) =
      add_mset (rt_free_stack r ! (rt_free_count r - 1)) (mset (take (rt_free_count r - 1) (rt_free_stack r)))" by simp
  then show ?thesis using assms by (simp add: pool_ok_def le_diff_conv)
qed

lemma pool_ok_fields:
  assumes "pool_ok pending r" and "rt_voices r' = rt_voices r" "rt_free_stack r' = rt_free_stack r"
    "rt_voice_capacity r' = rt_voice_capacity r" "rt_free_count r' = rt_free_count r" "rt_active_count r' = rt_active_count r"
    "rt_active_voice_indices r' = rt_active_voice_indices r" "st_active_voices (rt_stats r') = st_active_voices (rt_stats r)"
    "st_maximum_active_voices (rt_stats r') = st_maximum_active_voices (rt_stats r)"
  shows "pool_ok pending r'"
  using assms by (simp add: pool_ok_def)

lemma allocate_pool:
  assumes "pool_ok [] r" and "allocate_voice r = (v, r')"
  shows "pool_ok [v] r'" "v < rt_voice_capacity r'"
proof -
  show pool: "pool_ok [v] r'"
  proof (cases "rt_free_count r = 0")
    case False
    then show ?thesis using pop_pool [OF assms(1)] assms(2) by (auto simp: allocate_voice_def)
  next
    case True
    let ?s = "reclaim_voice (steal_victim r) r"
    have "0 < rt_active_count r" using pool_counts [OF assms(1)] True assms(1) by (simp add: pool_ok_def)
    then have victim: "steal_victim r \<in> set (take (rt_active_count r) (rt_active_voice_indices r))"
      using assms(1) by (intro steal_victim_active) (simp_all add: pool_ok_def)
    note s = reclaim_pool [OF assms(1) this]
    have "pool_ok [rt_free_stack ?s ! (rt_free_count ?s - 1)] (?s\<lparr> rt_free_count := rt_free_count ?s - 1 \<rparr>)"
      using pop_pool [OF s(1)] s(2) by simp
    moreover have "v = rt_free_stack ?s ! (rt_free_count ?s - 1)" and
        "r' = update_stats (\<lambda>s. s\<lparr> st_stolen_voices := st_stolen_voices s + 1 \<rparr>) (?s\<lparr> rt_free_count := rt_free_count ?s - 1 \<rparr>)"
      using assms(2) True by (simp_all add: allocate_voice_def Let_def)
    ultimately show ?thesis by (auto simp: update_stats_def intro: pool_ok_fields)
  qed
  show "v < rt_voice_capacity r'" using pool_members(2) [OF pool] by auto
qed

text \<open>A pending voice may be rewritten, published or returned.\<close>

lemma pending_apart:
  assumes "pool_ok [v] r"
  shows "i < rt_active_count r \<Longrightarrow> v \<noteq> rt_active_voice_indices r ! i" "i < rt_free_count r \<Longrightarrow> v \<noteq> rt_free_stack r ! i"
proof -
  have d: "v \<notin> set (take (rt_free_count r) (rt_free_stack r))" "v \<notin> set (take (rt_active_count r) (rt_active_voice_indices r))"
    using pool_members(1) [OF assms] by auto
  have n: "rt_active_count r \<le> length (rt_active_voice_indices r)" "rt_free_count r \<le> length (rt_free_stack r)"
    using assms by (simp_all add: pool_ok_def)
  show "i < rt_active_count r \<Longrightarrow> v \<noteq> rt_active_voice_indices r ! i" using d(2) nth_in_take [OF _ n(1)] by metis
  show "i < rt_free_count r \<Longrightarrow> v \<noteq> rt_free_stack r ! i" using d(1) nth_in_take [OF _ n(2)] by metis
qed

lemma pending_set_voice: "pool_ok [v] r \<Longrightarrow> pool_ok [v] (set_voice v x r)"
  using pending_apart [of v r] by (simp add: pool_ok_def set_voice_def)

lemma abandon_pool:
  assumes "pool_ok [v] r"
  shows "pool_ok [] (abandon_unpublished_voice v r)"
proof -
  have free: "rt_free_count r < length (rt_free_stack r)" "v < length (rt_voices r)"
    using pool_counts [OF assms] pool_members(2) [OF assms] assms by (auto simp: pool_ok_def)
  then have "take (rt_free_count r + 1) ((rt_free_stack r)[rt_free_count r := v]) = take (rt_free_count r) (rt_free_stack r) @ [v]"
    by (simp add: take_Suc_conv_app_nth)
  moreover have "vs_stage ((rt_voices r)[v := (rt_voices r ! v)\<lparr> vs_stage := MSF2_VOICE_FREE \<rparr>] ! ((rt_free_stack r)[rt_free_count r := v] ! i)) = MSF2_VOICE_FREE"
    if "i < rt_free_count r + 1" for i
    using that free assms pending_apart(2) [OF assms, of i] by (cases "i = rt_free_count r") (auto simp: pool_ok_def)
  ultimately show ?thesis
    using assms pending_apart(1) [OF assms] free by (simp add: pool_ok_def abandon_unpublished_voice_def)
qed

lemma activate_pool:
  assumes "pool_ok [v] r" and "vs_stage (rt_voices r ! v) \<noteq> MSF2_VOICE_FREE"
  shows "pool_ok [] (activate_voice v r)"
proof -
  have n: "rt_active_count r < length (rt_active_voice_indices r)" "v < length (rt_voices r)"
    using pool_counts [OF assms(1)] pool_members(2) [OF assms(1)] assms(1) by (auto simp: pool_ok_def)
  then have "take (rt_active_count r + 1) ((rt_active_voice_indices r)[rt_active_count r := v]) =
      take (rt_active_count r) (rt_active_voice_indices r) @ [v]"
    by (simp add: take_Suc_conv_app_nth)
  moreover have "vs_active_position (xs ! ((rt_active_voice_indices r)[rt_active_count r := v] ! i)) = i"
      "vs_stage (xs ! ((rt_active_voice_indices r)[rt_active_count r := v] ! i)) \<noteq> MSF2_VOICE_FREE"
    if "i < Suc (rt_active_count r)" "xs = (rt_voices r)[v := (rt_voices r ! v)\<lparr> vs_active_position := rt_active_count r \<rparr>]" for i xs
  proof -
    have "i = rt_active_count r \<or> i < rt_active_count r \<and> v \<noteq> rt_active_voice_indices r ! i"
      using that(1) pending_apart(1) [OF assms(1), of i] by auto
    then show "vs_active_position (xs ! ((rt_active_voice_indices r)[rt_active_count r := v] ! i)) = i"
        "vs_stage (xs ! ((rt_active_voice_indices r)[rt_active_count r := v] ! i)) \<noteq> MSF2_VOICE_FREE"
      using that(2) n assms by (auto simp: pool_ok_def)
  qed
  ultimately show ?thesis
    using assms(1) pending_apart(2) [OF assms(1)] n by (simp add: pool_ok_def activate_voice_def Let_def)
qed

section \<open>The invariant\<close>

definition cache_ok :: "'c msf2_runtime \<Rightarrow> bool" where
  "cache_ok r \<longleftrightarrow> length (rt_preset_cache r) = 16 \<and>
     (\<forall>e\<in>set (rt_preset_cache r). pe_valid e \<longrightarrow> pe_preset_index e = - 1 \<or>
        0 \<le> pe_preset_index e \<and> of_int (pe_preset_index e) < section_count (rt_view r) 0)"

definition runtime_ok :: "'c msf2_runtime \<Rightarrow> bool" where
  "runtime_ok r \<longleftrightarrow> ready r \<and> pool_ok [] r \<and> cache_ok r"

lemma runtime_okD: "runtime_ok r \<Longrightarrow> ready r" "runtime_ok r \<Longrightarrow> pool_ok [] r" "runtime_ok r \<Longrightarrow> cache_ok r"
  by (simp_all add: runtime_ok_def)

lemma runtime_ok_gentle: "gentle r r' \<Longrightarrow> runtime_ok r \<Longrightarrow> runtime_ok r'"
proof -
  assume g: "gentle r r'" and r: "runtime_ok r"
  then have "rt_preset_cache r' = rt_preset_cache r" "rt_view r' = rt_view r" by (simp_all add: gentle_def pool_part_def)
  then show ?thesis using ready_gentle [OF g] pool_gentle [OF g] r by (simp add: runtime_ok_def cache_ok_def)
qed

lemma gentle_for_active:
  assumes "pool_ok [] r"
    and "\<And>v r'. gentle r r' \<Longrightarrow> v < length (rt_voices r') \<Longrightarrow> vs_stage (rt_voices r' ! v) \<noteq> MSF2_VOICE_FREE \<Longrightarrow> gentle r' (snd (f v r'))"
  shows "gentle r (snd (for_active f r))"
proof -
  have "gentle r' (snd (f v r'))" if "gentle r r'" "v \<in> set (take (rt_active_count r) (rt_active_voice_indices r))" for v r'
  proof -
    have "v \<in> set (take (rt_active_count r') (rt_active_voice_indices r'))" using that by (simp add: gentle_def pool_part_def)
    then show ?thesis using assms(2) [OF that(1)] active_voice(2,3) [OF pool_gentle [OF that(1) assms(1)]] by blast
  qed
  then show ?thesis
    using assms(1) unfolding for_active_def
    by (intro gentle_each_active [where n = "rt_active_count r"]) (auto simp: pool_ok_def)
qed

lemma gentle_note_off_voice:
  "vs_stage (rt_voices r ! v) \<noteq> MSF2_VOICE_FREE \<Longrightarrow> v < length (rt_voices r) \<Longrightarrow> gentle r (snd (note_off_voice sink channel oldest v r))"
  by (auto simp: note_off_voice_def Let_def voice_part_def intro!: gentle_trans [OF _ gentle_release_voice])

lemma gentle_all_notes_off_voice:
  "vs_stage (rt_voices r ! v) \<noteq> MSF2_VOICE_FREE \<Longrightarrow> gentle r (snd (all_notes_off_voice sink channel v r))"
  by (auto simp: all_notes_off_voice_def Let_def voice_part_def intro!: gentle_trans [OF _ gentle_release_voice])

lemma gentle_release_all_voice: "gentle r (snd (release_all_voice sink v r))"
  by (auto simp: release_all_voice_def Let_def voice_part_def intro!: gentle_trans [OF _ gentle_release_voice])

lemma gentle_note_off: "pool_ok [] r \<Longrightarrow> gentle r (snd (msf2_runtime_note_off sink channel note r))"
proof -
  assume p: "pool_ok [] r"
  let ?r1 = "update_stats (\<lambda>s. s\<lparr> st_note_offs := st_note_offs s + 1 \<rparr>) r"
  have g: "gentle r ?r1" by (rule gentle_update_stats) simp_all
  have "gentle ?r1 (snd (for_active (note_off_voice sink channel oldest) ?r1))" for oldest
    using gentle_note_off_voice by (intro gentle_for_active pool_gentle [OF g p])
  then show ?thesis using g gentle_trans by (auto simp: msf2_runtime_note_off_def Let_def)
qed

lemma gentle_release_deferred: "pool_ok [] r \<Longrightarrow> gentle r (snd (release_deferred_voices sink channel r))"
  unfolding release_deferred_voices_def
  by (intro gentle_for_active) (auto simp: release_deferred_voice_def Let_def intro: gentle_release_voice)

lemma gentle_all_sound_off: "pool_ok [] r \<Longrightarrow> gentle r (snd (msf2_runtime_all_sound_off sink channel r))"
  by (auto simp: msf2_runtime_all_sound_off_def all_sound_off_voice_def intro!: gentle_for_active gentle_stop_voice)

lemma gentle_all_notes_off: "pool_ok [] r \<Longrightarrow> gentle r (snd (msf2_runtime_all_notes_off sink channel r))"
  by (auto simp: msf2_runtime_all_notes_off_def intro!: gentle_for_active gentle_all_notes_off_voice)

lemma gentle_release_all: "pool_ok [] r \<Longrightarrow> gentle r (snd (msf2_runtime_release_all sink r))"
  by (auto simp: msf2_runtime_release_all_def intro!: gentle_for_active gentle_release_all_voice)

lemma channel_update_ok:
  "channel_state_ok c \<Longrightarrow> channel_state_ok (mark_channel_dirty g c)"
  "channel_state_ok (mark_channel_dirty g reset_channel_state)"
  "channel_state_ok c \<Longrightarrow> x \<le> 127 \<Longrightarrow> channel_state_ok (c\<lparr> cs_cc := (cs_cc c)[i := x] \<rparr>)"
  "channel_state_ok c \<Longrightarrow> x \<le> 127 \<Longrightarrow> channel_state_ok (c\<lparr> cs_key_pressure := (cs_key_pressure c)[i := x] \<rparr>)"
  "channel_state_ok c \<Longrightarrow> channel_state_ok (c\<lparr> cs_generator_offsets_q16 := (cs_generator_offsets_q16 c)[i := y] \<rparr>)"
  by (auto simp: channel_state_ok_def mark_channel_dirty_def reset_channel_state_def
      dest!: subsetD [OF set_update_subset_insert])

lemma gentle_reset_controllers:
  assumes "pool_ok [] r"
  shows "gentle r (snd (msf2_runtime_reset_controllers sink channel r))"
proof -
  let ?r1 = "update_channel (unat channel) (\<lambda>_. mark_channel_dirty MSF2_CONTROL_GROUP_ALL reset_channel_state) r"
  let ?r2 = "update_active (\<lambda>state. if vs_channel state \<noteq> channel \<or> vs_stage state = MSF2_VOICE_FREE then state
      else state\<lparr> vs_sustain_held := False, vs_sostenuto_held := False \<rparr>) ?r1"
  have "gentle r ?r1" using channel_update_ok by (intro gentle_update_channel)
  moreover have "gentle ?r1 ?r2" by (intro gentle_update_active) (simp add: voice_part_def)
  ultimately have g: "gentle r ?r2" by (rule gentle_trans)
  then show ?thesis
    using gentle_trans [OF g gentle_release_deferred [OF pool_gentle [OF g assms]]]
    by (simp add: msf2_runtime_reset_controllers_def Let_def)
qed

lemma gentle_sustain_change:
  assumes "pool_ok [] r"
  shows "gentle r (snd (sustain_change sink channel sustain r))"
proof -
  define r1 where "r1 = (if cs_sustain (rt_channels r ! unat channel) \<and> \<not> sustain
    then update_active (\<lambda>state. if vs_channel state = channel then state\<lparr> vs_sustain_held := False \<rparr> else state) r else r)"
  have "gentle r r1" by (auto simp: r1_def voice_part_def intro!: gentle_update_active)
  moreover have "gentle r1 (update_channel (unat channel) (\<lambda>c. c\<lparr> cs_sustain := sustain \<rparr>) r1)"
    by (intro gentle_update_channel) (simp add: channel_state_ok_def)
  ultimately have g: "gentle r (update_channel (unat channel) (\<lambda>c. c\<lparr> cs_sustain := sustain \<rparr>) r1)" by (rule gentle_trans)
  then show ?thesis
    using gentle_trans [OF g gentle_release_deferred [OF pool_gentle [OF g assms]]]
    unfolding sustain_change_def Let_def r1_def [symmetric] by (cases sustain) simp_all
qed

lemma gentle_sostenuto_change:
  assumes "pool_ok [] r"
  shows "gentle r (snd (sostenuto_change sink channel sostenuto r))"
proof -
  define before where "before = cs_sostenuto (rt_channels r ! unat channel)"
  define r1 where "r1 = (if \<not> before \<and> sostenuto
                then update_active (\<lambda>state. if vs_channel state = channel \<and> vs_stage state \<noteq> MSF2_VOICE_FREE \<and>
                         vs_stage state \<noteq> MSF2_VOICE_RELEASED \<and> \<not> vs_key_released state
                       then state\<lparr> vs_sostenuto_held := True \<rparr> else state) r
                else if before \<and> \<not> sostenuto
                then update_active (\<lambda>state. if vs_channel state = channel then state\<lparr> vs_sostenuto_held := False \<rparr> else state) r
                else r)"
  have "gentle r r1" by (auto simp: r1_def voice_part_def intro!: gentle_update_active)
  moreover have "gentle r1 (update_channel (unat channel) (\<lambda>c. c\<lparr> cs_sostenuto := sostenuto \<rparr>) r1)"
    by (intro gentle_update_channel) (simp add: channel_state_ok_def)
  ultimately have g: "gentle r (update_channel (unat channel) (\<lambda>c. c\<lparr> cs_sostenuto := sostenuto \<rparr>) r1)" by (rule gentle_trans)
  then show ?thesis
    using gentle_trans [OF g gentle_release_deferred [OF pool_gentle [OF g assms]]]
    unfolding sostenuto_change_def Let_def before_def [symmetric] r1_def [symmetric] by (cases sostenuto) simp_all
qed

lemma gentle_mark_after: "gentle r (snd x) \<Longrightarrow> gentle r (snd (mark_after channel x))"
  by (auto simp: mark_after_def case_result intro: gentle_trans [OF _ gentle_update_channel [OF channel_update_ok(1)]])

lemma gentle_control_change:
  assumes "pool_ok [] r"
  shows "gentle r (snd (msf2_runtime_control_change sink channel controller v r))"
proof (cases "\<not> channel_ok channel \<or> controller > 127 \<or> v > 127")
  case False
  define r1 where "r1 = update_channel (unat channel) (\<lambda>c. c\<lparr> cs_cc := (cs_cc c)[unat controller := v] \<rparr>) r"
  have g: "gentle r r1" using False channel_update_ok(3) by (auto simp: r1_def intro!: gentle_update_channel)
  note p = pool_gentle [OF g assms]
  have soft: "gentle r1 (update_channel (unat channel) (\<lambda>c. c\<lparr> cs_soft := s \<rparr>) r1)" for s
    by (intro gentle_update_channel) (simp add: channel_state_ok_def)
  have "gentle r1 (snd (if controller = 64 then mark_after channel (sustain_change sink channel (v \<ge> 64) r1)
            else if controller = 66 then mark_after channel (sostenuto_change sink channel (v \<ge> 64) r1)
            else if controller = 67
            then mark_after channel (MSF2_OK, update_channel (unat channel) (\<lambda>c. c\<lparr> cs_soft := v \<ge> 64 \<rparr>) r1)
            else if controller = 120 then msf2_runtime_all_sound_off sink channel r1
            else if controller = 121 then msf2_runtime_reset_controllers sink channel r1
            else if controller \<ge> 123 then msf2_runtime_all_notes_off sink channel r1
            else mark_after channel (MSF2_OK, r1)))"
    using soft gentle_sustain_change [OF p] gentle_sostenuto_change [OF p] gentle_all_sound_off [OF p] gentle_reset_controllers [OF p]
      gentle_all_notes_off [OF p]
    by (auto intro!: gentle_mark_after)
  then show ?thesis using False gentle_trans [OF g] by (simp add: msf2_runtime_control_change_def Let_def r1_def [symmetric])
qed (auto simp: msf2_runtime_control_change_def)

lemma gentle_setters:
  "gentle r (snd (msf2_runtime_set_pitch_bend_range channel semitones cents r))"
  "gentle r (snd (msf2_runtime_set_generator_offset channel generator value_q16 r))"
  "gentle r (snd (msf2_runtime_pitch_bend channel bend r))"
  "gentle r (snd (msf2_runtime_channel_pressure channel pressure r))"
  "gentle r (snd (msf2_runtime_key_pressure channel note pressure r))"
  by (auto simp: msf2_runtime_set_pitch_bend_range_def msf2_runtime_set_generator_offset_def msf2_runtime_pitch_bend_def
      msf2_runtime_channel_pressure_def msf2_runtime_key_pressure_def change_channel_def Let_def not_less
      intro!: gentle_update_channel channel_update_ok) (auto simp: channel_state_ok_def)

lemma gentle_periodic: "gentle r (msf2_runtime_set_periodic_modulation_enabled enabled r)"
  using channel_update_ok(1)
  by (auto simp: msf2_runtime_set_periodic_modulation_enabled_def gentle_def pool_part_def channels_ok_def)

end
