(* ===== verification/Msf2_System.thy ===== *)
theory Msf2_System
  imports Msf2_Safety
begin

text \<open>
  The firmware's SoundFont runtime as a system: the operations as events that may come in any order, and the
  invariant of \<open>Msf2_Safety\<close> for every state they lead to.
\<close>

section \<open>Elapsed time\<close>

lemma advance_active_runs: "ready r \<Longrightarrow> v < length (rt_voices r) \<Longrightarrow> runs r (advance_active sink ticks v r)"
  using advance_voice_runs by (auto simp: advance_active_def intro: runsI)

lemma gentle_clear: "gentle r (clear_channel_dirty_groups (advance_ticks_index ticks r))"
  by (auto simp: gentle_def pool_part_def clear_channel_dirty_groups_def advance_ticks_index_def channels_ok_def channel_state_ok_def)

lemma control_tick_runs:
  assumes "runtime_ok r"
  shows "runs r (control_tick_all sink ticks r)"
proof -
  have "runs r (each_active_opt (advance_active sink ticks) [0..<rt_active_count r] r)"
  proof (rule runs_each_active_opt [where r = r and n = "rt_active_count r"])
    fix v r' assume g: "gentle r r'" and v: "v \<in> set (take (rt_active_count r) (rt_active_voice_indices r))"
    show "runs r' (advance_active sink ticks v r')"
      using active_voice(2) [OF runtime_okD(2) [OF assms] v] gentle_length [OF g] ready_gentle [OF g runtime_okD(1) [OF assms]]
      by (intro advance_active_runs) simp_all
  qed (use runtime_okD(2) [OF assms] in \<open>auto simp: pool_ok_def\<close>)
  then show ?thesis unfolding control_tick_all_def by (intro runs_and_then) (simp_all add: runsI gentle_clear)
qed

lemma tick_loop_runs: "runtime_ok r \<Longrightarrow> runs r (tick_loop sink n r)"
  by (induction n arbitrary: r) (auto intro!: runsI runs_and_then control_tick_runs intro: runtime_ok_gentle)

lemma advance_samples_runs:
  assumes "runtime_ok r"
  shows "runs r (msf2_runtime_advance_samples sink samples r)"
proof -
  have g: "gentle r (r\<lparr> rt_pending_tick_samples := n \<rparr>)" for n by (simp add: gentle_def pool_part_def)
  show ?thesis
    unfolding msf2_runtime_advance_samples_def Let_def
    using gentle_trans [OF g gentle_clear]
    by (intro runs_if runsI) (simp_all add: runs_after [OF g tick_loop_runs [OF runtime_ok_gentle [OF g assms]]])
qed

lemma slice_loop_runs:
  "ready r \<Longrightarrow> set vs \<subseteq> {..<length (rt_voices r)} \<Longrightarrow> runs r (slice_loop sink voices ticks vs r)"
proof (induction vs arbitrary: r)
  case (Cons v vs)
  have "runs r (slice_voice sink voices ticks v r)"
    using Cons.prems advance_voice_runs [of r v] by (auto simp: slice_voice_def Let_def intro: runsI)
  then show ?case
    using Cons.IH Cons.prems by (auto intro!: runs_and_then simp: gentle_length ready_gentle)
qed (simp add: runsI)

lemma advance_slice_runs:
  "runtime_ok r \<Longrightarrow> runs r (msf2_runtime_advance_control_slice sink voices first_voice voice_count ticks r)"
  unfolding msf2_runtime_advance_control_slice_def
  by (intro runs_if slice_loop_runs) (auto simp: runtime_ok_def pool_ok_def intro!: runsI)

lemma gentle_complete_control: "gentle r (msf2_runtime_complete_control ticks revisions r)"
proof -
  have "channel_state_ok (c\<lparr> cs_dirty_groups := 0 \<rparr>) = channel_state_ok c" for c by (simp add: channel_state_ok_def)
  then show ?thesis
    by (auto simp: msf2_runtime_complete_control_def Let_def advance_ticks_index_def gentle_def pool_part_def channels_ok_def)
qed

section \<open>Starting a layer\<close>

lemma ready_fields:
  "ready r \<Longrightarrow> rt_view r' = rt_view r \<Longrightarrow> rt_channels r' = rt_channels r \<Longrightarrow>
     (\<And>x. x \<in> set (rt_voices r') \<Longrightarrow> voice_ok (rt_view r) x) \<Longrightarrow> ready r'"
  by (simp add: ready_def)

lemma voice_ok_position: "voice_ok vw (x\<lparr> vs_active_position := p \<rparr>) = voice_ok vw x" "voice_ok vw (x\<lparr> vs_stage := s \<rparr>) = voice_ok vw x"
  by (simp_all add: voice_ok_def)

lemma set_update_memD: "x \<in> set (xs[i := y]) \<Longrightarrow> x = y \<or> x \<in> set xs"
  using set_update_subset_insert [of xs i y] by blast

lemma reclaim_ready:
  assumes "ready r" and "pool_ok [] r" and "v \<in> set (take (rt_active_count r) (rt_active_voice_indices r))"
  shows "ready (reclaim_voice v r)" "cache_ok (reclaim_voice v r) = cache_ok r" "rt_view (reclaim_voice v r) = rt_view r"
proof -
  have v: "v < length (rt_voices r)" "vs_stage (rt_voices r ! v) \<noteq> MSF2_VOICE_FREE" "0 < rt_active_count r"
    using active_voice [OF assms(2,3)] by auto
  have w: "rt_active_voice_indices r ! (rt_active_count r - 1) < length (rt_voices r)"
    using pool_inside(1) [OF assms(2), of "rt_active_count r - 1"] v(3) by simp
  have ok: "x \<in> set (rt_voices r) \<Longrightarrow> voice_ok (rt_view r) x" for x using assms(1) by (simp add: ready_def)
  have "voice_ok (rt_view r) x" if "x \<in> set (rt_voices (reclaim_voice v r))" for x
    using that v w by (auto simp: reclaim_voice_def Let_def voice_ok_position nth_list_update ok dest!: set_update_memD)
  then show "ready (reclaim_voice v r)" using v(2) by (intro ready_fields [OF assms(1)]) (simp_all add: reclaim_voice_def Let_def)
  show "cache_ok (reclaim_voice v r) = cache_ok r" "rt_view (reclaim_voice v r) = rt_view r" by (simp_all add: reclaim_voice_def Let_def cache_ok_def)
qed

lemma allocate_ready:
  assumes "runtime_ok r" and "allocate_voice r = (v, r')"
  shows "ready r'" "cache_ok r'" "rt_view r' = rt_view r"
proof -
  have r: "ready r" "pool_ok [] r" "cache_ok r" using assms(1) by (simp_all add: runtime_ok_def)
  show "ready r'" "cache_ok r'" "rt_view r' = rt_view r"
  proof (atomize (full), cases "rt_free_count r = 0")
    case True
    let ?s = "reclaim_voice (steal_victim r) r"
    have "0 < rt_active_count r" using pool_counts [OF r(2)] True r(2) by (simp add: pool_ok_def)
    then have "steal_victim r \<in> set (take (rt_active_count r) (rt_active_voice_indices r))"
      using r(2) by (intro steal_victim_active) (simp_all add: pool_ok_def)
    note s = reclaim_ready [OF r(1,2) this]
    have r': "r' = update_stats (\<lambda>s. s\<lparr> st_stolen_voices := st_stolen_voices s + 1 \<rparr>) (?s\<lparr> rt_free_count := rt_free_count ?s - 1 \<rparr>)"
      using assms(2) True by (simp add: allocate_voice_def Let_def)
    then show "ready r' \<and> cache_ok r' \<and> rt_view r' = rt_view r"
      using s r(3) by (simp add: ready_def cache_ok_def update_stats_def)
  next
    case False
    then show "ready r' \<and> cache_ok r' \<and> rt_view r' = rt_view r"
      using assms(2) r by (auto simp: allocate_voice_def ready_def cache_ok_def)
  qed
qed

lemma materialize_total:
  assumes "image_ok vw" and "zone < section_count vw 1" and "key \<le> 127"
  shows "\<exists>params. materialize_note_decoded vw zone key gen presence = Some (Inr params)"
proof -
  obtain z where z: "msf2_get_zone vw zone = Some (Inr z)" "zone_ok vw z" using valid_zone [OF assms(1,2)] .
  obtain s where "msf2_get_sample vw (ucast (zn_sample_index z)) = Some (Inr s)"
    using valid_sample [OF assms(1)] z(2) by (auto simp: zone_ok_def)
  then show ?thesis using assms(3) z(1) by (simp add: materialize_note_decoded_def not_less)
qed

lemma voice_ok_programs:
  assumes "voice_ok vw x" and "slot < 3" and "range_fits first (ucast n) (section_count vw 6)" and "note_count \<le> n"
  shows "voice_ok vw (x\<lparr> vs_modulation_first_terms := (vs_modulation_first_terms x)[slot := first],
     vs_modulation_term_counts := (vs_modulation_term_counts x)[slot := n],
     vs_modulation_note_static_counts := (vs_modulation_note_static_counts x)[slot := note_count] \<rparr>)"
  using assms by (auto simp: voice_ok_def nth_list_update)

lemma cache_programs_total:
  assumes "image_ok vw" and "voice_ok vw x" and "set ss \<subseteq> {..<3}"
    and "\<And>slot. slot < 3 \<Longrightarrow> program_ok vw (vs_modulation_programs x ! slot)"
  shows "\<exists>y. cache_programs vw ss x = Some y \<and> voice_ok vw y \<and> vs_stage y = vs_stage x \<and> vs_channel y = vs_channel x \<and>
     vs_note y = vs_note x"
  using assms(2-)
proof (induction ss arbitrary: x)
  case (Cons slot ss)
  have slot: "slot < 3" "set ss \<subseteq> {..<3}" using Cons.prems(2) by auto
  show ?case
  proof (cases "vs_modulation_programs x ! slot = 0xff")
    case True
    then show ?thesis
      using Cons.IH [OF voice_ok_programs [OF Cons.prems(1) slot(1), of 0 0 0] slot(2)] Cons.prems(3) by (simp add: range_fits_def)
  next
    case False
    then obtain p where p: "record_at vw 5 (ucast (vs_modulation_programs x ! slot)) = Some p" "p + 12 \<le> length (vw_data vw)"
        "u16_at (vw_data vw) (p + 6) \<le> u16_at (vw_data vw) (p + 4)"
        "range_fits (u32_at (vw_data vw) p) (ucast (u16_at (vw_data vw) (p + 4))) (section_count vw 6)"
      using Cons.prems(3) [OF slot(1)] by (auto simp: program_ok_def word_le_nat_alt)
    show ?thesis
      using Cons.IH [OF voice_ok_programs [OF Cons.prems(1) slot(1) p(4,3)] slot(2)] Cons.prems(3) p False by (simp add: reads_eq)
  qed
qed simp

lemma cache_candidate_total:
  assumes "image_ok vw" and "voice_ok vw x" and "vs_candidate x < section_count vw 1"
  shows "\<exists>y. cache_candidate_programs vw x = Some y \<and> voice_ok vw y \<and> vs_stage y = vs_stage x \<and> vs_channel y = vs_channel x \<and>
     vs_note y = vs_note x"
proof -
  obtain p where p: "record_at vw 4 (vs_candidate x) = Some p" "p + 3 \<le> length (vw_data vw)"
      "\<And>k. k < 3 \<Longrightarrow> program_ok vw (vw_data vw ! (p + k))"
    using valid_references [OF assms(1,3)] by blast
  define programs where "programs = [vw_data vw ! p, vw_data vw ! (p + 1), vw_data vw ! (p + 2)]"
  have "candidate_programs vw (vs_candidate x) = Some programs"
    using p(1,2) by (simp add: candidate_programs_def reads_eq programs_def)
  moreover have "program_ok vw (programs ! slot)" if "slot < 3" for slot
    using that p(3) [of 0] p(3) [of 1] p(3) [of 2] by (auto simp: programs_def less_Suc_eq numeral_3_eq_3)
  moreover have "voice_ok vw (x\<lparr> vs_modulation_programs := programs \<rparr>)"
    using assms(2) by (simp add: voice_ok_def programs_def)
  ultimately show ?thesis
    using cache_programs_total [OF assms(1), of "x\<lparr> vs_modulation_programs := programs \<rparr>" "[0..<3]"]
    by (simp add: cache_candidate_programs_def lessThan_atLeast0)
qed

lemma cache_static_total:
  assumes "image_ok vw" and "channel_state_ok c" and "set ss \<subseteq> {..<3}" and "voice_ok vw x"
  shows "\<exists>y. cache_static_slots vw c ss x = Some y \<and> voice_part y = voice_part x"
  using assms(3,4)
proof (induction ss arbitrary: x)
  case (Cons slot ss)
  have "set [0..<unat (vs_modulation_note_static_counts x ! slot)] \<subseteq> {..<unat (vs_modulation_term_counts x ! slot)}"
    using Cons.prems by (auto simp: voice_ok_def word_le_nat_alt)
  moreover have "slot < 3" using Cons.prems(1) by simp
  ultimately obtain xs where xs: "add_terms vw c x slot (modulation_static_offsets ! slot) [0..<unat (vs_modulation_note_static_counts x ! slot)]
      (vs_modulation_static_sums_q16 x) = Some xs"
    using add_terms_total [OF assms(1,2) Cons.prems(2)] by blast
  have part: "voice_part (x\<lparr> vs_modulation_static_sums_q16 := xs \<rparr>) = voice_part x" by (simp add: voice_part_def)
  then have "voice_ok vw (x\<lparr> vs_modulation_static_sums_q16 := xs \<rparr>)" using Cons.prems(2) voice_ok_part by blast
  then show ?case using Cons.IH [of "x\<lparr> vs_modulation_static_sums_q16 := xs \<rparr>"] Cons.prems(1) xs part by simp
qed simp

lemma has_destination_total:
  assumes "image_ok vw" and "voice_ok vw x" and "slot < 3"
  shows "defined (program_has_destination vw x slot d)"
proof -
  have "defined (has_destination_loop vw (vs_modulation_first_terms x ! slot) d ls)"
    if "set ls \<subseteq> {..<unat (vs_modulation_term_counts x ! slot)}" for ls
    using that
  proof (induction ls)
    case (Cons l ls)
    obtain p where "record_at vw 6 (vs_modulation_first_terms x ! slot + of_nat l) = Some p" "p + 12 \<le> length (vw_data vw)"
      using term_record [OF assms, of l] Cons.prems by auto
    then show ?case using Cons by (auto simp: reads_eq intro!: definedI)
  qed simp
  then show ?thesis by (auto simp: program_has_destination_def lessThan_atLeast0)
qed

lemma any_of_total: "list_all defined bs \<Longrightarrow> defined (any_of bs)"
  by (induction bs) (auto intro!: definedI)

lemma periodic_groups_total:
  assumes "image_ok vw" and "voice_ok vw x"
  shows "defined (voice_periodic_groups vw x)"
  using has_destination_total [OF assms]
  by (simp add: voice_periodic_groups_def Let_def del: any_of.simps) (auto intro!: definedI any_of_total simp del: any_of.simps)

lemma clamp_velocity: "clamp_i32 x 0 127 \<le> 127"
  by (simp add: clamp_i32_def)

lemma configure_voice_total:
  assumes "ready r" and "voice_ok (rt_view r) x" and "vs_candidate x < section_count (rt_view r) 1"
  shows "\<exists>y. configure_voice r gen presence params x = Some y \<and> voice_ok (rt_view r) y \<and>
     (vs_stage y = MSF2_VOICE_FREE) = (vs_stage x = MSF2_VOICE_FREE)"
proof -
  have image: "image_ok (rt_view r)" using assms(1) by (simp add: ready_def)
  let ?x0 = "x\<lparr> vs_config := runtime_config_from_generators gen presence (vs_note x) \<rparr>"
  have "voice_ok (rt_view r) ?x0" using assms(2) by (simp add: voice_ok_def)
  then obtain a where a: "cache_candidate_programs (rt_view r) ?x0 = Some a" "voice_ok (rt_view r) a" "vs_stage a = vs_stage x"
    using cache_candidate_total [OF image, of ?x0] assms(3) by auto
  define b where "b = a\<lparr> vs_effective_velocity := (if has_generator presence 47 then clamp_i32 (amount gen 47) 0 127 else - 1) \<rparr>"
  have b: "voice_ok (rt_view r) b" "vs_stage b = vs_stage x" using a clamp_velocity by (auto simp: b_def voice_ok_def)
  obtain c where c: "cache_note_static_modulation r b = Some c" "voice_part c = voice_part b"
    using cache_static_total [OF image ready_channel [OF assms(1) b(1)] _ b(1), of "[0..<3]"]
    by (auto simp: cache_note_static_modulation_def lessThan_atLeast0)
  have okc: "voice_ok (rt_view r) c" using c(2) b(1) voice_ok_part by blast
  obtain g where g: "voice_periodic_groups (rt_view r) c = Some g"
    using periodic_groups_total [OF image okc] by (auto elim: defined_obtain)
  have stage: "(vs_stage c = MSF2_VOICE_FREE) = (vs_stage x = MSF2_VOICE_FREE)" using c(2) b(2) by (simp add: voice_part_def)
  have "voice_ok (rt_view r) (c\<lparr> vs_periodic_groups := g, vs_base_phase_increment := h, vs_base_gain := k, vs_pan := m, vs_release_step := n \<rparr>)" for h k m n
    using okc by (simp add: voice_ok_def)
  then show ?thesis using stage by (simp add: configure_voice_def a(1) b_def [symmetric] c(1) g)
qed

lemma start_clocks_part: "voice_part (start_clocks x) = voice_part x"
  by (simp add: start_clocks_def Let_def voice_part_def)

lemma initial_parameters_total:
  assumes "ready r" and "voice_ok (rt_view r) x"
  shows "\<exists>y. initial_parameters r x = Some y \<and> voice_part y = voice_part x"
proof -
  obtain a b c where "destination_sums_q16 r x 1 = Some a" "destination_sums_q16 r x 0 = Some b" "destination_sums_q16 r x 2 = Some c"
    using destination_sums_total [OF assms, of 0] destination_sums_total [OF assms, of 1] destination_sums_total [OF assms, of 2]
    by (auto elim!: defined_obtain)
  then show ?thesis by (simp add: initial_parameters_def Let_def voice_part_def)
qed

lemma set_voice_ready: "ready r \<Longrightarrow> voice_ok (rt_view r) x \<Longrightarrow> ready (set_voice v x r)"
  by (auto simp: ready_def dest!: set_update_memD)

lemma set_voice_cache [simp]: "cache_ok (set_voice v x r) = cache_ok r"
  by (simp add: cache_ok_def set_voice_def)

lemma abandon_ok:
  assumes "ready r" and "pool_ok [v] r" and "cache_ok r"
  shows "runtime_ok (abandon_unpublished_voice v r)"
proof -
  have "v < length (rt_voices r)" using pool_members(2) [OF assms(2)] assms(2) by (auto simp: pool_ok_def)
  then have "ready (abandon_unpublished_voice v r)"
    using assms(1) by (auto simp: ready_def abandon_unpublished_voice_def voice_ok_position dest!: set_update_memD)
  moreover have "cache_ok (abandon_unpublished_voice v r)" using assms(3) by (simp add: cache_ok_def abandon_unpublished_voice_def)
  ultimately show ?thesis using abandon_pool [OF assms(2)] by (simp add: runtime_ok_def)
qed

lemma activate_ok:
  assumes "ready r" and "pool_ok [v] r" and "cache_ok r" and "vs_stage (rt_voices r ! v) \<noteq> MSF2_VOICE_FREE"
  shows "runtime_ok (activate_voice v r)"
proof -
  have "v < length (rt_voices r)" using pool_members(2) [OF assms(2)] assms(2) by (auto simp: pool_ok_def)
  then have "ready (activate_voice v r)"
    using assms(1) by (auto simp: ready_def activate_voice_def Let_def voice_ok_position dest!: set_update_memD)
  moreover have "cache_ok (activate_voice v r)" using assms(3) by (simp add: cache_ok_def activate_voice_def Let_def)
  ultimately show ?thesis using activate_pool [OF assms(2,4)] by (simp add: runtime_ok_def)
qed

lemma publish_ok:
  assumes "ready r" and "pool_ok [v] r" and "cache_ok r" and "vs_stage (rt_voices r ! v) \<noteq> MSF2_VOICE_FREE"
  shows "runtime_ok (snd (publish_voice sink v params r))"
proof (cases "msf2_pack_start v (vs_generation (rt_voices r ! v)) params")
  case (Inr words)
  let ?r1 = "snd (emit_command sink words r)"
  have r1: "ready ?r1" "pool_ok [v] ?r1" "cache_ok ?r1" "vs_stage (rt_voices ?r1 ! v) \<noteq> MSF2_VOICE_FREE"
    using ready_gentle [OF gentle_emit(1) assms(1)] pool_gentle [OF gentle_emit(1) assms(2)] assms(3,4)
    by (simp_all add: emit_command_keeps cache_ok_def)
  have "runtime_ok (update_stats (\<lambda>s. s\<lparr> st_started_voices := st_started_voices s + 1 \<rparr>) (activate_voice v ?r1))"
    by (rule runtime_ok_gentle [OF gentle_update_stats activate_ok [OF r1]]) simp_all
  moreover obtain e r2 where "emit_command sink words r = (e, r2)" by (cases "emit_command sink words r")
  ultimately show ?thesis
    using Inr abandon_ok [OF r1(1-3)] by (cases e) (simp_all add: publish_voice_def)
qed (simp add: publish_voice_def abandon_ok [OF assms(1-3)])

lemma new_voice_ok:
  "unat channel < 16 \<Longrightarrow> note \<le> 127 \<Longrightarrow> velocity \<le> 127 \<Longrightarrow>
     voice_ok vw (new_voice channel note velocity preset zone exclusive instance1 stamp generation)"
  using zero_voice_ok [of vw] by (simp add: voice_ok_def new_voice_def)

lemma start_layer_ok:
  assumes "runtime_ok r" and "unat channel < 16" and "note \<le> 127" and "velocity \<le> 127"
    and "zone < section_count (rt_view r) 1"
  obtains e r' where "start_layer sink channel note velocity preset_index note_instance (zone, gen, presence) r = Some (e, r')"
    and "runtime_ok r'" and "rt_view r' = rt_view r"
proof -
  obtain v r1 where al: "allocate_voice r = (v, r1)" by (cases "allocate_voice r")
  note r1 = allocate_ready [OF assms(1) al] allocate_pool [OF runtime_okD(2) [OF assms(1)] al]
  define stamp where "stamp = rt_allocation_stamp r1 + 1"
  define voice where "voice = new_voice channel note velocity preset_index zone (exclusive_of gen presence) note_instance stamp
    (vs_generation (rt_voices r1 ! v))"
  define r1' where "r1' = r1\<lparr> rt_allocation_stamp := stamp \<rparr>"
  define r2 where "r2 = set_voice v voice r1'"
  have "gentle r1 r1'" by (simp add: gentle_def pool_part_def r1'_def)
  then have r1': "ready r1'" "pool_ok [v] r1'" "cache_ok r1'" "rt_view r1' = rt_view r"
    using ready_gentle pool_gentle r1 by (blast, blast, simp_all add: r1'_def cache_ok_def)
  have voice: "voice_ok (rt_view r) voice" using new_voice_ok [OF assms(2-4)] by (simp add: voice_def)
  have r2: "ready r2" "pool_ok [v] r2" "cache_ok r2" "rt_view r2 = rt_view r"
    using set_voice_ready [OF r1'(1)] pending_set_voice [OF r1'(2)] r1'(3,4) voice by (simp_all add: r2_def)
  have image: "image_ok (rt_view r)" using assms(1) by (simp add: runtime_ok_def ready_def)
  obtain params where params: "materialize_note_decoded (rt_view r) zone note gen presence = Some (Inr params)"
    using materialize_total [OF image assms(5,3)] by blast
  obtain y where y: "configure_voice r2 gen presence params voice = Some y" "voice_ok (rt_view r) y" "vs_stage y \<noteq> MSF2_VOICE_FREE"
    using configure_voice_total [OF r2(1), of voice gen presence params] voice r2(4) assms(5) by (auto simp: voice_def new_voice_def)
  have "voice_ok (rt_view r2) (start_clocks y)" using y(2) r2(4) voice_ok_part [OF start_clocks_part] by simp
  then obtain z where z: "initial_parameters r2 (start_clocks y) = Some z" "voice_part z = voice_part y"
    using initial_parameters_total [OF r2(1)] start_clocks_part by metis
  define r3 where "r3 = set_voice v z r2"
  have "voice_ok (rt_view r2) z" using y(2) r2(4) voice_ok_part [OF z(2)] by simp
  moreover have "v < length (rt_voices r2)" using pool_members(2) [OF r2(2)] r2(2) by (auto simp: pool_ok_def)
  ultimately have "runtime_ok (snd (publish_voice sink v (start_params z params) r3))"
    using set_voice_ready [OF r2(1)] pending_set_voice [OF r2(2)] r2(3) y(3) z(2)
    by (intro publish_ok) (simp_all add: r3_def voice_part_def)
  moreover have "rt_view (snd (publish_voice sink v (start_params z params) r3)) = rt_view r3"
    by (auto simp: publish_voice_def emit_command_def abandon_unpublished_voice_def activate_voice_def Let_def split: sum.split prod.split)
  moreover have "start_layer sink channel note velocity preset_index note_instance (zone, gen, presence) r =
      Some (publish_voice sink v (start_params z params) r3)"
    using al params y(1) z(1)
    by (simp add: start_layer_def Let_def stamp_def [symmetric] voice_def [symmetric] r1'_def [symmetric] r2_def [symmetric] r3_def)
  ultimately show ?thesis
    using that [of "fst (publish_voice sink v (start_params z params) r3)" "snd (publish_voice sink v (start_params z params) r3)"] r2(4)
    by (simp add: r3_def)
qed

section \<open>Note on\<close>

lemma start_layers_ok:
  assumes "unat channel < 16" and "note \<le> 127" and "velocity \<le> 127"
    and "runtime_ok r" and "\<forall>l\<in>set ls. fst l < section_count (rt_view r) 1"
  shows "\<exists>e n r'. start_layers sink channel note velocity preset_index note_instance ls started r = Some (e, n, r') \<and> runtime_ok r'"
  using assms(4,5)
proof (induction ls arbitrary: started r)
  case (Cons l ls)
  obtain zone gen presence where l: "l = (zone, gen, presence)" by (cases l)
  obtain e r1 where s: "start_layer sink channel note velocity preset_index note_instance l r = Some (e, r1)"
      "runtime_ok r1" "rt_view r1 = rt_view r"
    using start_layer_ok [OF Cons.prems(1) assms(1-3), of zone sink preset_index note_instance gen presence] Cons.prems(2) l by auto
  show ?case
    using s Cons.IH [of r1 "started + 1"] Cons.prems(2) by (cases e) auto
qed simp

lemma decode_layers_total:
  assumes "image_ok vw"
  shows "list_all (layer_ok vw key velocity) zones \<Longrightarrow>
    \<exists>ls. decode_layers vw zones = Some (Inr ls) \<and> (\<forall>l\<in>set ls. fst l < section_count vw 1)"
proof (induction zones)
  case (Cons zone zones)
  have "zone < section_count vw 1" using Cons.prems by (simp add: layer_ok_def)
  then show ?case using decode_generators_total [OF assms, of zone] Cons by auto
qed simp

lemma gentle_choke_layers: "pool_ok [] r \<Longrightarrow> gentle r (snd (choke_layers sink preset ls r))"
proof (induction ls arbitrary: r)
  case (Cons l ls)
  obtain zone gen presence where l: "l = (zone, gen, presence)" by (cases l)
  define x where "x = (if exclusive_of gen presence \<noteq> 0 then for_active (choke_voice sink (exclusive_of gen presence) preset) r else (MSF2_OK, r))"
  have g: "gentle r (snd x)"
    using Cons.prems by (auto simp: x_def choke_voice_def Let_def intro!: gentle_for_active gentle_release_voice)
  have "choke_layers sink preset (l # ls) r = (if fst x = MSF2_OK then choke_layers sink preset ls (snd x) else x)"
    unfolding l choke_layers.simps Let_def x_def [symmetric] by (rule case_result)
  then show ?case using g gentle_trans [OF g Cons.IH [OF pool_gentle [OF g Cons.prems]]] by simp
qed simp

lemma note_on_preset_ok:
  assumes "runtime_ok r" and "unat channel < 16" and "note \<le> 127" and "velocity \<le> 127" and "index < section_count (rt_view r) 0"
  shows "\<exists>e n r'. note_on_preset sink channel note velocity index r = Some (e, n, r') \<and> runtime_ok r'"
proof -
  have image: "image_ok (rt_view r)" using assms(1) by (simp add: runtime_ok_def ready_def)
  have unmapped: "runtime_ok (unmapped_note r)"
    unfolding unmapped_note_def by (rule runtime_ok_gentle [OF gentle_update_stats assms(1)]) simp_all
  from collect_layers_total [OF image assms(3,4,5)] show ?thesis
  proof (elim disjE exE conjE)
    fix zones assume z: "msf2_collect_layers (rt_view r) index note velocity = Some (Inr zones)"
      "list_all (layer_ok (rt_view r) note velocity) zones"
    obtain ls where ls: "decode_layers (rt_view r) zones = Some (Inr ls)" "\<forall>l\<in>set ls. fst l < section_count (rt_view r) 1"
      using decode_layers_total [OF image z(2)] by blast
    obtain e r1 where c: "choke_layers sink index ls r = (e, r1)" by (cases "choke_layers sink index ls r")
    have g: "gentle r r1" using gentle_choke_layers [OF runtime_okD(2) [OF assms(1)], of sink index ls] c by simp
    then have "gentle r (r1\<lparr> rt_next_note_instance := n \<rparr>)" for n by (simp add: gentle_def pool_part_def)
    then have "runtime_ok (r1\<lparr> rt_next_note_instance := n \<rparr>)" "runtime_ok r1" for n
      using runtime_ok_gentle assms(1) g by blast+
    moreover have "rt_view r1 = rt_view r" using g by (simp add: gentle_def pool_part_def)
    ultimately show ?thesis
      using z(1) ls c unmapped start_layers_ok [OF assms(2-4), of "r1\<lparr> rt_next_note_instance := next_note_instance r1 \<rparr>" ls]
      by (cases e) (auto simp: note_on_preset_def)
  qed (use assms(1) in \<open>simp add: note_on_preset_def\<close>)
qed

lemma cached_preset_ok:
  assumes "runtime_ok r"
  obtains i r' where "cached_preset_index program bank r = Some (i, r')" and "runtime_ok r'" and "rt_view r' = rt_view r"
    and "i = - 1 \<or> 0 \<le> i \<and> of_int i < section_count (rt_view r) 0"
proof -
  define slot where "slot = unat (((ucast bank :: u32) * 131 + ucast program) AND 15)"
  define e where "e = rt_preset_cache r ! slot"
  have image: "image_ok (rt_view r)" using assms by (simp add: runtime_ok_def ready_def)
  have "((ucast bank :: u32) * 131 + ucast program) AND 15 \<le> 15" by (rule word_and_le1)
  then have slot: "slot < 16" by (simp add: slot_def word_le_nat_alt)
  have cache: "length (rt_preset_cache r) = 16" using runtime_okD(3) [OF assms] by (simp add: cache_ok_def)
  obtain j where j: "msf2_find_preset (rt_view r) program bank = Some j" "j = - 1 \<or> 0 \<le> j \<and> of_int j < section_count (rt_view r) 0"
    using find_preset_total [OF image] .
  define r' where "r' = r\<lparr> rt_preset_cache := (rt_preset_cache r)[slot :=
      \<lparr> pe_preset_index = j, pe_bank = bank, pe_program = ucast program, pe_valid = True \<rparr>] \<rparr>"
  have "cache_ok r'" using runtime_okD(3) [OF assms] j(2) by (auto simp: cache_ok_def r'_def dest!: set_update_memD)
  moreover have "ready r'" "pool_ok [] r'" using assms by (simp_all add: runtime_ok_def ready_def pool_ok_def r'_def)
  ultimately have r': "runtime_ok r'" by (simp add: runtime_ok_def)
  show ?thesis
  proof (cases "pe_valid e \<and> ucast (pe_program e) = program \<and> pe_bank e = bank")
    case True
    have "e \<in> set (rt_preset_cache r)" using slot cache by (simp add: e_def)
    then show ?thesis
      using True assms runtime_okD(3) [OF assms] that [of "pe_preset_index e" r]
      by (auto simp: cached_preset_index_def slot_def [symmetric] e_def [symmetric] cache_ok_def)
  next
    case False
    then show ?thesis
      using that [of j r'] r' j by (auto simp: cached_preset_index_def slot_def [symmetric] e_def [symmetric] r'_def Let_def)
  qed
qed

lemma note_on_ok:
  assumes "runtime_ok r"
  shows "\<exists>e n r'. msf2_runtime_note_on sink channel program bank note velocity r = Some (e, n, r') \<and> runtime_ok r'"
proof -
  let ?r0 = "update_stats (\<lambda>s. s\<lparr> st_note_ons := st_note_ons s + 1 \<rparr>) r"
  have "runtime_ok ?r0" by (rule runtime_ok_gentle [OF gentle_update_stats assms]) simp_all
  then obtain i r1 where c0: "cached_preset_index program bank ?r0 = Some (i, r1)" "runtime_ok r1" "rt_view r1 = rt_view ?r0"
      "i = - 1 \<or> 0 \<le> i \<and> of_int i < section_count (rt_view ?r0) 0"
    by (rule cached_preset_ok)
  then have c: "cached_preset_index program bank ?r0 = Some (i, r1)" "runtime_ok r1"
      "i = - 1 \<or> 0 \<le> i \<and> of_int i < section_count (rt_view r1) 0" by simp_all
  have off: "runtime_ok (snd (msf2_runtime_note_off sink channel note r))"
    using runtime_ok_gentle [OF gentle_note_off assms] runtime_okD(2) [OF assms] by blast
  have unmapped: "runtime_ok (unmapped_note r1)"
    unfolding unmapped_note_def by (rule runtime_ok_gentle [OF gentle_update_stats c(2)]) simp_all
  have on: "\<exists>e n r'. note_on_preset sink channel note velocity (of_int i) r1 = Some (e, n, r') \<and> runtime_ok r'"
    if "channel_ok channel" "\<not> note > 127" "\<not> velocity > 127" "\<not> i < 0"
    using that c by (intro note_on_preset_ok) (auto simp: channel_ok_def MSF2_CHANNEL_COUNT_def)
  show ?thesis
    using assms off unmapped on c(1) by (auto simp: msf2_runtime_note_on_def split: prod.split)
qed

section \<open>Events in any order\<close>

datatype runtime_event =
    Note_On u8 u16 u16 u8 u8
  | Note_Off u8 u8
  | Control_Change u8 u8 u8
  | Pitch_Bend_Range u8 u8 u8
  | Generator_Offset u8 u8 int
  | Pitch_Bend u8 int
  | Channel_Pressure u8 u8
  | Key_Pressure u8 u8 u8
  | Advance_Samples u32
  | Control_Tick
  | Advance_Control u32
  | Control_Slice "msf2_control_voice_snapshot list" nat nat u32
  | Complete_Control u32 "u32 list"
  | Complete_Voice nat
  | Periodic_Modulation bool
  | All_Sound_Off u8
  | All_Notes_Off u8
  | Release_All
  | Reset_Controllers u8

text \<open>The effect of one event on the runtime; \<open>None\<close> is a read out of bounds. The result code is for the caller.\<close>

fun handle_event :: "'c command_sink \<Rightarrow> runtime_event \<Rightarrow> 'c msf2_runtime \<Rightarrow> 'c msf2_runtime option" where
  "handle_event sink (Note_On channel program bank note velocity) r =
     map_option (snd \<circ> snd) (msf2_runtime_note_on sink channel program bank note velocity r)"
| "handle_event sink (Note_Off channel note) r = Some (snd (msf2_runtime_note_off sink channel note r))"
| "handle_event sink (Control_Change channel controller v) r = Some (snd (msf2_runtime_control_change sink channel controller v r))"
| "handle_event sink (Pitch_Bend_Range channel semitones cents) r = Some (snd (msf2_runtime_set_pitch_bend_range channel semitones cents r))"
| "handle_event sink (Generator_Offset channel generator v) r = Some (snd (msf2_runtime_set_generator_offset channel generator v r))"
| "handle_event sink (Pitch_Bend channel v) r = Some (snd (msf2_runtime_pitch_bend channel v r))"
| "handle_event sink (Channel_Pressure channel v) r = Some (snd (msf2_runtime_channel_pressure channel v r))"
| "handle_event sink (Key_Pressure channel note v) r = Some (snd (msf2_runtime_key_pressure channel note v r))"
| "handle_event sink (Advance_Samples n) r = map_option snd (msf2_runtime_advance_samples sink n r)"
| "handle_event sink Control_Tick r = map_option snd (msf2_runtime_control_tick sink r)"
| "handle_event sink (Advance_Control n) r = map_option snd (msf2_runtime_advance_control sink n r)"
| "handle_event sink (Control_Slice voices first_voice n ticks) r =
     map_option snd (msf2_runtime_advance_control_slice sink voices first_voice n ticks r)"
| "handle_event sink (Complete_Control ticks revisions) r = Some (msf2_runtime_complete_control ticks revisions r)"
| "handle_event sink (Complete_Voice v) r = Some (snd (msf2_runtime_complete_voice v r))"
| "handle_event sink (Periodic_Modulation enabled) r = Some (msf2_runtime_set_periodic_modulation_enabled enabled r)"
| "handle_event sink (All_Sound_Off channel) r = Some (snd (msf2_runtime_all_sound_off sink channel r))"
| "handle_event sink (All_Notes_Off channel) r = Some (snd (msf2_runtime_all_notes_off sink channel r))"
| "handle_event sink Release_All r = Some (snd (msf2_runtime_release_all sink r))"
| "handle_event sink (Reset_Controllers channel) r = Some (snd (msf2_runtime_reset_controllers sink channel r))"

fun runtime_run :: "'c command_sink \<Rightarrow> runtime_event list \<Rightarrow> 'c msf2_runtime \<Rightarrow> 'c msf2_runtime option" where
  "runtime_run sink [] r = Some r"
| "runtime_run sink (e # es) r = do { r1 \<leftarrow> handle_event sink e r; runtime_run sink es r1 }"

lemma runs_ok: "runs r m \<Longrightarrow> runtime_ok r \<Longrightarrow> \<exists>r'. map_option snd m = Some r' \<and> runtime_ok r'"
  by (auto simp: runs_def intro: runtime_ok_gentle)

lemma complete_voice_ok:
  assumes "runtime_ok r"
  shows "runtime_ok (snd (msf2_runtime_complete_voice v r))"
proof (cases "v < rt_voice_capacity r \<and> vs_stage (rt_voices r ! v) \<noteq> MSF2_VOICE_FREE")
  case True
  note p = runtime_okD(2) [OF assms]
  have "v \<notin> set (take (rt_free_count r) (rt_free_stack r))"
    using True p by (auto simp: pool_ok_def in_set_conv_nth)
  then have "v \<in> set (take (rt_active_count r) (rt_active_voice_indices r))"
    using pool_members(2) [OF p] True by auto
  then show ?thesis
    using True reclaim_pool(1) [OF p] reclaim_ready [OF runtime_okD(1) [OF assms] p] runtime_okD(3) [OF assms]
    by (simp add: msf2_runtime_complete_voice_def runtime_ok_def)
qed (use assms in \<open>auto simp: msf2_runtime_complete_voice_def\<close>)

lemma handle_event_ok:
  assumes "runtime_ok r"
  shows "\<exists>r'. handle_event sink e r = Some r' \<and> runtime_ok r'"
proof -
  note p = runtime_okD(2) [OF assms] and g = runtime_ok_gentle [OF _ assms]
  show ?thesis
  proof (cases e)
    case (Note_On channel program bank key velocity)
    then show ?thesis using note_on_ok [OF assms, of sink channel program bank key velocity] by auto
  next
    case (Advance_Samples n)
    then show ?thesis using runs_ok [OF advance_samples_runs [OF assms] assms] by simp
  next
    case Control_Tick
    then show ?thesis using runs_ok [OF advance_samples_runs [OF assms] assms] by (simp add: msf2_runtime_control_tick_def)
  next
    case (Advance_Control n)
    have "runs r (msf2_runtime_advance_control sink n r)"
      using control_tick_runs [OF assms] by (simp add: msf2_runtime_advance_control_def runsI)
    then show ?thesis using Advance_Control runs_ok [OF _ assms] by simp
  next
    case (Control_Slice voices first_voice n ticks)
    then show ?thesis using runs_ok [OF advance_slice_runs [OF assms] assms] by simp
  next
    case (Complete_Voice v)
    then show ?thesis using complete_voice_ok [OF assms] by simp
  qed (simp_all add: g gentle_note_off [OF p] gentle_control_change [OF p] gentle_setters gentle_complete_control gentle_periodic
      gentle_all_sound_off [OF p] gentle_all_notes_off [OF p] gentle_release_all [OF p] gentle_reset_controllers [OF p])
qed

lemma runtime_run_ok: "runtime_ok r \<Longrightarrow> \<exists>r'. runtime_run sink es r = Some r' \<and> runtime_ok r'"
proof (induction es arbitrary: r)
  case (Cons e es)
  then show ?case using handle_event_ok [OF Cons.prems, of sink e] by auto
qed simp

lemma runtime_init_ok:
  assumes "msf2_view_init d = Some (Inr vw)" and "msf2_runtime_init vw capacity context = Inr r"
  shows "runtime_ok r"
proof -
  have r: "0 < capacity" "capacity \<le> 512" "r = \<lparr> rt_view = vw, rt_channels = replicate 16 reset_channel_state,
             rt_voices = replicate capacity zero_voice,
             rt_free_stack = map (\<lambda>voice. capacity - 1 - voice) [0..<capacity],
             rt_voice_capacity = capacity, rt_free_count = capacity, rt_active_count = 0,
             rt_active_voice_indices = replicate 512 0, rt_next_note_instance = 0,
             rt_allocation_stamp = 0, rt_control_tick_index = 0, rt_pending_tick_samples = 0,
             rt_periodic_modulation_enabled = True, rt_preset_cache = replicate 16 zero_cache_entry,
             rt_command_context = context, rt_stats = zero_stats \<rparr>"
    using assms(2) by (auto simp: msf2_runtime_init_def MSF2_MAX_VOICE_COUNT_def MSF2_CHANNEL_COUNT_def split: if_splits)
  have "map (\<lambda>voice. capacity - 1 - voice) [0..<capacity] = rev [0..<capacity]"
    by (auto intro!: nth_equalityI simp: rev_nth)
  then have "mset (map (\<lambda>voice. capacity - 1 - voice) [0..<capacity]) = mset [0..<capacity]" by (simp only: mset_rev)
  then have "pool_ok [] r" using r(1,2) by (simp add: pool_ok_def r(3) zero_stats_def zero_voice_def)
  moreover have "ready r"
    using view_init_ok [OF assms(1)] by (auto simp: ready_def r(3) channels_ok_def channel_state_ok_def reset_channel_state_def
        dest!: set_update_memD)
  moreover have "cache_ok r" by (simp add: cache_ok_def r(3) zero_cache_entry_def)
  ultimately show ?thesis by (simp add: runtime_ok_def)
qed

text \<open>The runtime never reads outside its image. Over any image that validation accepts, any capacity that
  initialisation accepts and any command sink, whatever the sequence of events and whatever their arguments, every
  operation completes: no read of the image, of a controller table or of a source curve is out of bounds.\<close>

theorem runtime_never_faults:
  assumes "msf2_view_init d = Some (Inr vw)" and "msf2_runtime_init vw capacity context = Inr r0"
  shows "\<exists>r. runtime_run sink es r0 = Some r"
  using runtime_run_ok [OF runtime_init_ok [OF assms]] by blast

definition demo_events :: "runtime_event list" where
  "demo_events = [Note_On 0 0 0 60 100, Control_Change 0 64 127, Note_Off 0 60, Advance_Samples 4800, Control_Change 0 64 0,
     Release_All, Complete_Voice 0]"

definition demo_runtime :: "unit msf2_runtime" where
  "demo_runtime = projr (msf2_runtime_init (demo_view demo_image) 4 ())"

lemma demo_runtime_init: "msf2_runtime_init (demo_view demo_image) 4 () = Inr demo_runtime"
  by (simp add: demo_runtime_def msf2_runtime_init_def MSF2_MAX_VOICE_COUNT_def)

theorem runtime_never_faults_witness: "\<exists>r. runtime_run (\<lambda>c w. (0, c)) demo_events demo_runtime = Some r"
  using runtime_never_faults [OF demo_accepted demo_runtime_init] .

text \<open>C33: Every voice is accounted for. In every state the runtime can reach, from an accepted image, under any
  sink and any sequence of events, the free stack and the active list together hold each voice number exactly once,
  the active voices are exactly those whose stage is not free, each knows its own position in the list, and the
  published count of active voices is the length of the list.\<close>

theorem voices_are_accounted_for:
  assumes "msf2_view_init d = Some (Inr vw)" and "msf2_runtime_init vw capacity context = Inr r0"
    and "runtime_run sink es r0 = Some r"
    and "free = take (rt_free_count r) (rt_free_stack r)" and "active = take (rt_active_count r) (rt_active_voice_indices r)"
  shows "distinct (free @ active) \<and> set (free @ active) = {..<rt_voice_capacity r} \<and>
     set active = {v. v < rt_voice_capacity r \<and> vs_stage (rt_voices r ! v) \<noteq> MSF2_VOICE_FREE} \<and>
     map (\<lambda>v. vs_active_position (rt_voices r ! v)) active = [0..<length active] \<and>
     st_active_voices (rt_stats r) = length active"
proof -
  have "runtime_ok r" using runtime_run_ok [OF runtime_init_ok [OF assms(1,2)], of sink es] assms(3) by simp
  then have p: "pool_ok [] r" by (simp add: runtime_ok_def)
  note m = pool_members [OF p, folded assms(4,5), simplified]
  have n: "rt_active_count r \<le> length (rt_active_voice_indices r)" "rt_free_count r \<le> length (rt_free_stack r)"
    using p by (simp_all add: pool_ok_def)
  have "vs_stage (rt_voices r ! v) = MSF2_VOICE_FREE" if "v \<in> set free" for v
    using that p by (auto simp: assms(4) in_set_conv_nth pool_ok_def)
  moreover have "vs_stage (rt_voices r ! v) \<noteq> MSF2_VOICE_FREE" if "v \<in> set active" for v
    using that active_voice(3) [OF p] by (simp add: assms(5))
  ultimately have s: "set active = {v. v < rt_voice_capacity r \<and> vs_stage (rt_voices r ! v) \<noteq> MSF2_VOICE_FREE}"
    using m(2) by auto
  have len: "length active = rt_active_count r" using n by (simp add: assms(5))
  have "map (\<lambda>v. vs_active_position (rt_voices r ! v)) active = [0..<length active]"
    using p n by (intro nth_equalityI) (auto simp: assms(5) pool_ok_def)
  moreover have "distinct (free @ active) \<and> set (free @ active) = {..<rt_voice_capacity r}" using m by simp
  moreover have "st_active_voices (rt_stats r) = length active" using p len by (simp add: pool_ok_def)
  ultimately show ?thesis using s by simp
qed

theorem voices_are_accounted_for_witness:
  "\<exists>r. runtime_run (\<lambda>c w. (0, c)) demo_events demo_runtime = Some r \<and>
     distinct (take (rt_free_count r) (rt_free_stack r) @ take (rt_active_count r) (rt_active_voice_indices r))"
proof -
  obtain r where r: "runtime_run (\<lambda>c w. (0, c)) demo_events demo_runtime = Some r"
    using runtime_run_ok [OF runtime_init_ok [OF demo_accepted demo_runtime_init]] by blast
  then show ?thesis using voices_are_accounted_for [OF demo_accepted demo_runtime_init r refl refl] by blast
qed

end
