(* ===== verification/Msf2_Behaviour.thy ===== *)
theory Msf2_Behaviour
  imports Msf2_System
begin

text \<open>
  What single operations of the firmware's SoundFont runtime do: coalesced time is replayed time, a note off
  releases the layers of the oldest instance of its key, the voice that is stolen; and two places where an event
  is lost.
\<close>

section \<open>Coalesced time is replayed time\<close>

text \<open>The clocks of a voice, with the configuration they follow.\<close>

definition voice_clock :: "msf2_voice_state \<Rightarrow>
    (u32 \<times> u32 \<times> u32 \<times> u32) \<times> (u32 \<times> u32 \<times> u16 \<times> u16 \<times> msf2_env_stage) \<times> (msf2_runtime_config \<times> u8 \<times> msf2_voice_stage)" where
  "voice_clock x =
     ((vs_mod_lfo_phase x, vs_vib_lfo_phase x, vs_mod_lfo_wait_ticks x, vs_vib_lfo_wait_ticks x),
      (vs_mod_env_stage_tick x, vs_mod_env_wait_ticks x, vs_mod_env_level x, vs_mod_env_release_start x, vs_mod_env_stage x),
      (vs_config x, vs_periodic_groups x, vs_stage x))"

lemma advance_zero [simp]: "advance_modulation_envelope_elapsed x 0 = x"
  by (simp add: advance_modulation_envelope_elapsed.simps)

lemma envelope_turn_clock:
  "voice_clock x = voice_clock y \<Longrightarrow> voice_clock (fst (envelope_turn x n)) = voice_clock (fst (envelope_turn y n)) \<and>
     snd (envelope_turn x n) = snd (envelope_turn y n)"
  by (auto simp: voice_clock_def envelope_turn_def Let_def attack_stage_def decay_stage_def)

lemma advance_envelope_clock:
  "voice_clock x = voice_clock y \<Longrightarrow> voice_clock (advance_modulation_envelope_elapsed x n) = voice_clock (advance_modulation_envelope_elapsed y n)"
proof (induction x n arbitrary: y rule: advance_modulation_envelope_elapsed.induct)
  case (1 x n)
  show ?case
  proof (cases "n = 0")
    case False
    obtain a s where a: "envelope_turn x n = (a, s)" by (cases "envelope_turn x n")
    obtain b t where b: "envelope_turn y n = (b, t)" by (cases "envelope_turn y n")
    have ab: "voice_clock a = voice_clock b" "s = t" using envelope_turn_clock [OF 1(2), of n] a b by simp_all
    show ?thesis
      using 1(1) [OF False a [symmetric]] False a b ab
      by (simp add: advance_modulation_envelope_elapsed.simps [of x n] advance_modulation_envelope_elapsed.simps [of y n] split: option.split)
  qed (use 1 in \<open>simp add: advance_modulation_envelope_elapsed.simps\<close>)
qed

lemma advance_lfos_clock: "voice_clock x = voice_clock y \<Longrightarrow> voice_clock (advance_lfos n x) = voice_clock (advance_lfos n y)"
  by (auto simp: voice_clock_def advance_lfos_def split: prod.split)

lemma advance_lfos_add:
  assumes "unat m + unat n < 2 ^ 32"
  shows "advance_lfos n (advance_lfos m x) = advance_lfos (m + n) x"
  using advance_lfo_add [OF assms]
  by (auto simp: advance_lfos_def split: prod.split)

lemma final_tick: "final_lfo_tick x = advance_lfos 1 x"
proof -
  have one: "1 \<le> w \<longleftrightarrow> w \<noteq> 0" for w :: u32 by (simp add: word_le_nat_alt unat_gt_0 Suc_le_eq)
  show ?thesis by (auto simp: final_lfo_tick_def advance_lfos_def advance_lfo_elapsed_before_final_def Let_def one)
qed

definition clocked :: "u32 \<Rightarrow> msf2_voice_state \<Rightarrow> msf2_voice_state" where
  "clocked n x = advance_lfos n (advance_modulation_envelope_elapsed x n)"

lemma clocked_clock: "voice_clock x = voice_clock y \<Longrightarrow> voice_clock (clocked n x) = voice_clock (clocked n y)"
  unfolding clocked_def by (intro advance_lfos_clock advance_envelope_clock)

text \<open>The envelope and the LFOs use different fields.\<close>

lemma envelope_turn_lfo:
  "envelope_turn (x\<lparr> vs_mod_lfo_phase := a, vs_mod_lfo_wait_ticks := b, vs_vib_lfo_phase := c, vs_vib_lfo_wait_ticks := d \<rparr>) n =
     (case envelope_turn x n of (y, s) \<Rightarrow>
        (y\<lparr> vs_mod_lfo_phase := a, vs_mod_lfo_wait_ticks := b, vs_vib_lfo_phase := c, vs_vib_lfo_wait_ticks := d \<rparr>, s))"
  by (simp add: envelope_turn_def Let_def attack_stage_def decay_stage_def)

lemma advance_envelope_lfo:
  "advance_modulation_envelope_elapsed (x\<lparr> vs_mod_lfo_phase := a, vs_mod_lfo_wait_ticks := b, vs_vib_lfo_phase := c, vs_vib_lfo_wait_ticks := d \<rparr>) n =
     (advance_modulation_envelope_elapsed x n)\<lparr> vs_mod_lfo_phase := a, vs_mod_lfo_wait_ticks := b, vs_vib_lfo_phase := c, vs_vib_lfo_wait_ticks := d \<rparr>"
proof (induction x n rule: advance_modulation_envelope_elapsed.induct)
  case (1 x n)
  obtain y s where y: "envelope_turn x n = (y, s)" by (cases "envelope_turn x n")
  show ?case
    using 1 [OF _ y [symmetric]] y
    by (cases "n = 0") (simp, simp add: advance_modulation_envelope_elapsed.simps [of _ n] envelope_turn_lfo split: option.split)
qed

lemma envelope_turn_keeps_lfo:
  "vs_mod_lfo_phase (fst (envelope_turn x n)) = vs_mod_lfo_phase x" "vs_mod_lfo_wait_ticks (fst (envelope_turn x n)) = vs_mod_lfo_wait_ticks x"
  "vs_vib_lfo_phase (fst (envelope_turn x n)) = vs_vib_lfo_phase x" "vs_vib_lfo_wait_ticks (fst (envelope_turn x n)) = vs_vib_lfo_wait_ticks x"
  "vs_config (fst (envelope_turn x n)) = vs_config x"
  by (simp_all add: envelope_turn_def Let_def attack_stage_def decay_stage_def)

definition lfo_part where
  "lfo_part x = (vs_mod_lfo_phase x, vs_mod_lfo_wait_ticks x, vs_vib_lfo_phase x, vs_vib_lfo_wait_ticks x, vs_config x)"

lemma advance_envelope_keeps_lfo: "lfo_part (advance_modulation_envelope_elapsed x n) = lfo_part x"
proof (induction x n rule: advance_modulation_envelope_elapsed.induct)
  case (1 x n)
  obtain y s where y: "envelope_turn x n = (y, s)" by (cases "envelope_turn x n")
  then have "lfo_part y = lfo_part x" using envelope_turn_keeps_lfo [of x n] by (simp add: lfo_part_def)
  then show ?case
    using 1 [OF _ y [symmetric]] y by (cases "n = 0") (simp, simp add: advance_modulation_envelope_elapsed.simps [of _ n] split: option.split)
qed

lemma lfo_envelope_commute:
  "advance_modulation_envelope_elapsed (advance_lfos m x) n = advance_lfos m (advance_modulation_envelope_elapsed x n)"
  using advance_envelope_keeps_lfo [of x n] by (auto simp: advance_lfos_def lfo_part_def advance_envelope_lfo split: prod.split)

lemma clocked_add: "unat m + unat n < 2 ^ 32 \<Longrightarrow> clocked n (clocked m x) = clocked (m + n) x"
  by (simp add: clocked_def lfo_envelope_commute advance_envelope_add advance_lfos_add)

lemma clocked_step: "n \<noteq> 0 \<Longrightarrow> final_lfo_tick (advance_lfos (n - 1) (advance_modulation_envelope_elapsed x n)) = clocked n x"
proof -
  assume "n \<noteq> 0"
  then have "unat (n - 1) + unat (1 :: u32) < 2 ^ 32" using unat_bounds(3) [of n] by (simp add: unat_minus_one)
  then show ?thesis using advance_lfos_add [of "n - 1" 1] by (simp add: final_tick clocked_def)
qed

lemma advance_envelope_stage:
  "vs_stage (advance_modulation_envelope_elapsed x n) = vs_stage x \<and> vs_periodic_groups (advance_modulation_envelope_elapsed x n) = vs_periodic_groups x"
proof (induction x n rule: advance_modulation_envelope_elapsed.induct)
  case (1 x n)
  obtain y s where y: "envelope_turn x n = (y, s)" by (cases "envelope_turn x n")
  have "vs_stage (fst (envelope_turn x n)) = vs_stage x \<and> vs_periodic_groups (fst (envelope_turn x n)) = vs_periodic_groups x"
    by (simp add: envelope_turn_def Let_def attack_stage_def decay_stage_def)
  then show ?case
    using 1 [OF _ y [symmetric]] y by (cases "n = 0") (simp, simp add: advance_modulation_envelope_elapsed.simps [of _ n] split: option.split)
qed

definition accepts :: "'c command_sink \<Rightarrow> bool" where
  "accepts sink \<longleftrightarrow> (\<forall>c w. fst (sink c w) = 0)"

lemma emit_accepted: "accepts sink \<Longrightarrow> emit_command sink w r = (MSF2_OK, r\<lparr> rt_command_context := snd (sink (rt_command_context r) w) \<rparr>)"
  by (simp add: accepts_def emit_command_def split: prod.split) (metis fst_conv snd_conv)

text \<open>Publishing parameters does not touch the clocks, and succeeds when the sink accepts.\<close>

definition quiet :: "nat \<Rightarrow> 'c msf2_runtime \<Rightarrow> (msf2_result \<times> 'c msf2_runtime) option \<Rightarrow> bool" where
  "quiet v r m \<longleftrightarrow> (\<forall>e r'. m = Some (e, r') \<longrightarrow> e = MSF2_OK \<and> length (rt_voices r') = length (rt_voices r) \<and>
     voice_clock (rt_voices r' ! v) = voice_clock (rt_voices r ! v))"

lemma quiet_same [simp]: "quiet v r (Some (MSF2_OK, r))"
  by (simp add: quiet_def)

lemma quiet_and_then:
  assumes "quiet v r m" and "\<And>r'. length (rt_voices r') = length (rt_voices r) \<Longrightarrow> quiet v r' (f r')"
  shows "quiet v r (and_then m f)"
proof (cases m)
  case (Some x)
  obtain e r1 where x: "x = (e, r1)" by (cases x)
  then show ?thesis using assms(1) assms(2) [of r1] Some by (simp add: quiet_def and_then_def)
qed (simp add: quiet_def and_then_def)

lemma quiet_bind: "(\<And>x. quiet v r (f x)) \<Longrightarrow> quiet v r (a \<bind> f)"
  by (cases a) (simp_all add: quiet_def)

lemma quiet_if: "quiet v r x \<Longrightarrow> quiet v r y \<Longrightarrow> quiet v r (if b then x else y)"
  by simp

lemma quiet_sent:
  assumes "accepts sink" and "v < length (rt_voices r)" and "voice_clock x = voice_clock (rt_voices r ! v)"
  shows "quiet v r (Some (case emit_command sink w r of (MSF2_OK, r1) \<Rightarrow> (MSF2_OK, set_voice v x (update_stats f r1)) | (e, r1) \<Rightarrow> (e, r1)))"
  using assms(2,3) by (simp add: quiet_def emit_accepted [OF assms(1)])

lemma quiet_from:
  "quiet v r1 m \<Longrightarrow> length (rt_voices r1) = length (rt_voices r) \<Longrightarrow> voice_clock (rt_voices r1 ! v) = voice_clock (rt_voices r ! v) \<Longrightarrow> quiet v r m"
  by (simp add: quiet_def)

lemma refresh_pitch_quiet:
  assumes "accepts sink" and "v < length (rt_voices r)"
  shows "quiet v r (refresh_pitch sink v inputs r)"
  unfolding refresh_pitch_def Let_def emit_short_def
  by (cases inputs) (simp only: prod.case, intro quiet_bind quiet_if quiet_same quiet_sent [OF assms], simp add: voice_clock_def)

lemma refresh_filter_quiet:
  assumes "accepts sink" and "v < length (rt_voices r)"
  shows "quiet v r (refresh_filter sink v inputs r)"
  unfolding refresh_filter_def Let_def
  by (cases inputs) (simp only: prod.case, intro quiet_bind quiet_if quiet_same quiet_sent [OF assms], simp add: voice_clock_def)

lemma refresh_gain_quiet:
  assumes "accepts sink" and "v < length (rt_voices r)"
  shows "quiet v r (refresh_gain sink v inputs r)"
proof -
  have "quiet v r (Some (MSF2_OK, set_voice v ((rt_voices r ! v)\<lparr> vs_tremolo_attenuation_q16 := a \<rparr>) r))" for a
    using assms(2) by (simp add: quiet_def voice_clock_def)
  moreover have "quiet v r (Some (case emit_command sink w (set_voice v ((rt_voices r ! v)\<lparr> vs_tremolo_attenuation_q16 := a \<rparr>) r) of
      (MSF2_OK, r1) \<Rightarrow> (MSF2_OK, set_voice v ((rt_voices r ! v)\<lparr> vs_tremolo_attenuation_q16 := a, vs_gain_l := b, vs_gain_r := c \<rparr>) (update_stats f r1))
    | (e, r1) \<Rightarrow> (e, r1)))" for a b c f w
    using assms by (intro quiet_from [OF quiet_sent]) (simp_all add: voice_clock_def)
  ultimately show ?thesis
    unfolding refresh_gain_def Let_def emit_short_def
    by (cases inputs) (simp only: prod.case, intro quiet_bind quiet_if)
qed

lemma refresh_voice_quiet:
  assumes "accepts sink" and "v < length (rt_voices r)"
  shows "quiet v r (refresh_voice sink v groups r)"
proof -
  let ?r1 = "update_stats (\<lambda>s. s\<lparr> st_control_voice_evaluations := st_control_voice_evaluations s + 1 \<rparr>) r"
  have group: "quiet v q (when_group groups b (f sink v inputs) q)"
    if "length (rt_voices q) = length (rt_voices r)" "f = refresh_pitch \<or> f = refresh_gain \<or> f = refresh_filter" for q b f inputs
    unfolding when_group_def
    using that(2) refresh_pitch_quiet [OF assms(1)] refresh_gain_quiet [OF assms(1)] refresh_filter_quiet [OF assms(1)] assms(2) that(1)
    by (intro quiet_if quiet_same) (elim disjE; simp only:)
  have "quiet v ?r1 (and_then (when_group groups MSF2_CONTROL_GROUP_PITCH (refresh_pitch sink v inputs) ?r1) (\<lambda>r2.
            and_then (when_group groups MSF2_CONTROL_GROUP_GAIN (refresh_gain sink v inputs) r2) (\<lambda>r3.
              when_group groups MSF2_CONTROL_GROUP_FILTER (refresh_filter sink v inputs) r3)))" for inputs
    by (intro quiet_and_then group) simp_all
  then have "quiet v r (and_then (when_group groups MSF2_CONTROL_GROUP_PITCH (refresh_pitch sink v inputs) ?r1) (\<lambda>r2.
            and_then (when_group groups MSF2_CONTROL_GROUP_GAIN (refresh_gain sink v inputs) r2) (\<lambda>r3.
              when_group groups MSF2_CONTROL_GROUP_FILTER (refresh_filter sink v inputs) r3)))" for inputs
    by (simp only: quiet_def voices_update_stats)
  then show ?thesis unfolding refresh_voice_def Let_def by simp
qed

text \<open>One advance of a voice whose parameters depend on time moves its clocks by as many ticks.\<close>

lemma advance_voice_clock:
  assumes "accepts sink" and "ready r" and "v < length (rt_voices r)" and "n \<noteq> 0"
    and "vs_stage (rt_voices r ! v) \<noteq> MSF2_VOICE_FREE" and "vs_periodic_groups (rt_voices r ! v) \<noteq> 0"
  obtains r' where "advance_voice_modulation_elapsed sink v n r = Some (MSF2_OK, r')" and "ready r'"
    and "length (rt_voices r') = length (rt_voices r)" and "voice_clock (rt_voices r' ! v) = voice_clock (clocked n (rt_voices r ! v))"
proof -
  define voice1 where "voice1 = advance_lfos (n - 1) (advance_modulation_envelope_elapsed (rt_voices r ! v) n)"
  define r1 where "r1 = set_voice v voice1 r"
  define groups where "groups = due_groups r1 voice1 n"
  define m where "m = (if groups = 0 then Some (MSF2_OK, r1) else refresh_voice sink v groups r1)"
  have len: "v < length (rt_voices r1)" "rt_voices r1 ! v = voice1" using assms(3) by (simp_all add: r1_def)
  have g: "gentle r r1" by (simp add: r1_def voice1_def advance_lfos_part advance_envelope_part)
  note ready = ready_gentle [OF g assms(2)]
  have "runs r1 m" using refresh_voice_runs [OF ready len(1)] by (auto simp: m_def intro: runsI)
  then obtain e r2 where m: "m = Some (e, r2)" "gentle r1 r2" by (auto simp: runs_def)
  have "quiet v r1 m" using refresh_voice_quiet [OF assms(1) len(1)] by (simp add: m_def)
  then have q: "e = MSF2_OK" "length (rt_voices r2) = length (rt_voices r1)" "voice_clock (rt_voices r2 ! v) = voice_clock voice1"
    using m(1) len(2) by (simp_all add: quiet_def)
  define r3 where "r3 = set_voice v (final_lfo_tick (rt_voices r2 ! v)) r2"
  have "advance_voice_modulation_elapsed sink v n r = and_then m (\<lambda>r2. Some (MSF2_OK, set_voice v (final_lfo_tick (rt_voices r2 ! v)) r2))"
    using assms(4-6) by (simp add: advance_voice_modulation_elapsed_def Let_def m_def groups_def r1_def voice1_def)
  then have "advance_voice_modulation_elapsed sink v n r = Some (MSF2_OK, r3)"
    using m q(1) by (simp add: and_then_def r3_def)
  moreover have "gentle r r3" using gentle_trans [OF g gentle_trans [OF m(2)]] by (simp add: r3_def advance_lfos_part)
  moreover have "voice_clock (rt_voices r3 ! v) = voice_clock (final_lfo_tick voice1)"
    using advance_lfos_clock [OF q(3), of 1] q(2) len(1) by (simp add: r3_def final_tick)
  moreover have "final_lfo_tick voice1 = clocked n (rt_voices r ! v)" using clocked_step [OF assms(4)] by (simp add: voice1_def)
  ultimately show ?thesis using that [of r3] ready_gentle [OF _ assms(2)] gentle_length by metis
qed

fun tick_voice :: "'c command_sink \<Rightarrow> nat \<Rightarrow> nat \<Rightarrow> 'c msf2_runtime \<Rightarrow> (msf2_result \<times> 'c msf2_runtime) option" where
  "tick_voice sink v 0 r = Some (MSF2_OK, r)"
| "tick_voice sink v (Suc n) r = and_then (advance_voice_modulation sink v r) (tick_voice sink v n)"

lemma tick_voice_clock:
  assumes "accepts sink"
  shows "ready r \<Longrightarrow> v < length (rt_voices r) \<Longrightarrow> vs_stage (rt_voices r ! v) \<noteq> MSF2_VOICE_FREE \<Longrightarrow>
    vs_periodic_groups (rt_voices r ! v) \<noteq> 0 \<Longrightarrow> n < 2 ^ 32 \<Longrightarrow>
    \<exists>r'. tick_voice sink v n r = Some (MSF2_OK, r') \<and> voice_clock (rt_voices r' ! v) = voice_clock (clocked (of_nat n) (rt_voices r ! v))"
proof (induction n arbitrary: r)
  case (Suc n)
  obtain r1 where r1: "advance_voice_modulation_elapsed sink v 1 r = Some (MSF2_OK, r1)" "ready r1"
      "length (rt_voices r1) = length (rt_voices r)" "voice_clock (rt_voices r1 ! v) = voice_clock (clocked 1 (rt_voices r ! v))"
    using advance_voice_clock [OF assms Suc.prems(1,2) _ Suc.prems(3,4), of 1] by auto
  have part: "vs_stage (clocked 1 x) = vs_stage x" "vs_periodic_groups (clocked 1 x) = vs_periodic_groups x" for x
    using advance_envelope_stage [of x 1] by (simp_all add: clocked_def advance_lfos_def split: prod.split)
  have "vs_stage (rt_voices r1 ! v) \<noteq> MSF2_VOICE_FREE" "vs_periodic_groups (rt_voices r1 ! v) \<noteq> 0"
    using r1(4) part Suc.prems(3,4) by (simp_all add: voice_clock_def)
  then obtain r2 where r2: "tick_voice sink v n r1 = Some (MSF2_OK, r2)"
      "voice_clock (rt_voices r2 ! v) = voice_clock (clocked (of_nat n) (rt_voices r1 ! v))"
    using Suc.IH [OF r1(2)] Suc.prems r1(3) by auto
  have "unat (1 :: u32) + unat (of_nat n :: u32) < 2 ^ 32" using Suc.prems(5) by (simp add: unat_of_nat)
  then have "clocked (of_nat n) (clocked 1 (rt_voices r ! v)) = clocked (of_nat (Suc n)) (rt_voices r ! v)"
    by (simp add: clocked_add)
  then show ?case
    using r1(1) r2 clocked_clock [OF r1(4), of "of_nat n"] by (simp add: and_then_def advance_voice_modulation_def)
qed (simp add: clocked_def advance_lfos_def advance_lfo_elapsed_before_final_def)

text \<open>C37: Coalesced time is replayed time. For a sounding voice whose parameters depend on time, in a runtime over a
  valid image and with a sink that accepts, folding any number of elapsed ticks into one step leaves the modulation
  envelope (stage, position, level and release start) and both LFOs (phase and delay) exactly where as many single
  ticks, each with its own publication of parameters, leave them; both always succeed.\<close>

theorem coalesced_time_is_replayed_time:
  assumes "accepts sink" and "ready r" and "v < length (rt_voices r)" and "n \<noteq> 0"
    and "vs_stage (rt_voices r ! v) \<noteq> MSF2_VOICE_FREE" and "vs_periodic_groups (rt_voices r ! v) \<noteq> 0"
  shows "\<exists>r1 r2. advance_voice_modulation_elapsed sink v n r = Some (MSF2_OK, r1) \<and>
     tick_voice sink v (unat n) r = Some (MSF2_OK, r2) \<and> voice_clock (rt_voices r1 ! v) = voice_clock (rt_voices r2 ! v)"
proof -
  obtain r1 where "advance_voice_modulation_elapsed sink v n r = Some (MSF2_OK, r1)"
      "voice_clock (rt_voices r1 ! v) = voice_clock (clocked n (rt_voices r ! v))"
    using advance_voice_clock [OF assms] by blast
  moreover have "unat n < 2 ^ 32" using unat_bounds(3) [of n] by simp
  ultimately show ?thesis using tick_voice_clock [OF assms(1-3,5,6)] by fastforce
qed

text \<open>A runtime with one sounding voice, for the examples: its vibrato and its envelope are running.\<close>

definition demo_voice :: msf2_voice_state where
  "demo_voice = zero_voice\<lparr> vs_stage := MSF2_VOICE_ACTIVE, vs_note := 60, vs_velocity := 100, vs_generation := 1,
     vs_note_instance := 1, vs_allocation_stamp := 1, vs_release_step := 7, vs_periodic_groups := MSF2_CONTROL_GROUP_PITCH,
     vs_mod_env_stage := MSF2_ENV_ATTACK, vs_config := zero_config\<lparr> mc_vib_lfo_step := 300, mc_vib_lfo_to_pitch := 50,
       mc_mod_env_attack_ticks := 700, mc_mod_env_decay_ticks := 20 \<rparr> \<rparr>"

definition demo_sounding :: "unit msf2_runtime" where
  "demo_sounding = activate_voice 0 (set_voice 0 demo_voice (snd (allocate_voice demo_runtime)))"

lemma demo_runtime_fields:
  "rt_voices demo_runtime = replicate 4 zero_voice" "rt_free_count demo_runtime = 4" "rt_free_stack demo_runtime = [3, 2, 1, 0]"
  "rt_active_count demo_runtime = 0" "rt_channels demo_runtime = replicate 16 reset_channel_state"
  "rt_voice_capacity demo_runtime = 4" "rt_active_voice_indices demo_runtime = replicate 512 0" "rt_stats demo_runtime = zero_stats"
  "rt_view demo_runtime = demo_view demo_image"
  by (simp_all add: demo_runtime_def msf2_runtime_init_def MSF2_MAX_VOICE_COUNT_def MSF2_CHANNEL_COUNT_def upt_rec)

lemma demo_allocated: "allocate_voice demo_runtime = (0, demo_runtime\<lparr> rt_free_count := 3 \<rparr>)"
  by (simp add: allocate_voice_def demo_runtime_fields)

lemma demo_sounding_ok: "pool_ok [] demo_sounding" "ready demo_sounding"
proof -
  have ok: "runtime_ok demo_runtime" by (rule runtime_init_ok [OF demo_accepted demo_runtime_init])
  note p = pending_set_voice [OF allocate_pool(1) [OF runtime_okD(2) [OF ok] demo_allocated], of demo_voice]
  have "runtime_ok demo_sounding"
    unfolding demo_sounding_def demo_allocated snd_conv
  proof (rule activate_ok [OF _ p])
    show "ready (set_voice 0 demo_voice (demo_runtime\<lparr> rt_free_count := 3 \<rparr>))"
    proof (rule set_voice_ready)
      show "ready (demo_runtime\<lparr> rt_free_count := 3 \<rparr>)" using ok by (simp add: runtime_ok_def ready_def)
      show "voice_ok (rt_view (demo_runtime\<lparr> rt_free_count := 3 \<rparr>)) demo_voice"
        using zero_voice_ok [of "rt_view demo_runtime"] by (simp add: voice_ok_def demo_voice_def)
    qed
    show "cache_ok (set_voice 0 demo_voice (demo_runtime\<lparr> rt_free_count := 3 \<rparr>))"
      using ok by (simp add: runtime_ok_def cache_ok_def set_voice_def)
    show "vs_stage (rt_voices (set_voice 0 demo_voice (demo_runtime\<lparr> rt_free_count := 3 \<rparr>)) ! 0) \<noteq> MSF2_VOICE_FREE"
      by (simp add: demo_runtime_fields demo_voice_def)
  qed
  then show "pool_ok [] demo_sounding" "ready demo_sounding" by (simp_all add: runtime_ok_def)
qed

lemma demo_sounding_fields:
  "rt_voices demo_sounding = demo_voice # replicate 3 zero_voice" "rt_active_count demo_sounding = 1"
  "rt_active_voice_indices demo_sounding = (replicate 512 0)[0 := 0]" "rt_channels demo_sounding = replicate 16 reset_channel_state"
  "rt_voice_capacity demo_sounding = 4"
  by (simp_all add: demo_sounding_def demo_allocated activate_voice_def Let_def demo_runtime_fields numeral_eq_Suc demo_voice_def zero_voice_def set_voice_def)

theorem coalesced_time_is_replayed_time_witness:
  "\<exists>r1 r2. advance_voice_modulation_elapsed (\<lambda>c w. (0, c)) 0 1000 demo_sounding = Some (MSF2_OK, r1) \<and>
     tick_voice (\<lambda>c w. (0, c)) 0 (unat (1000 :: u32)) demo_sounding = Some (MSF2_OK, r2) \<and>
     voice_clock (rt_voices r1 ! 0) = voice_clock (rt_voices r2 ! 0)"
  by (rule coalesced_time_is_replayed_time [OF _ demo_sounding_ok(2)])
    (simp_all add: accepts_def demo_sounding_fields demo_voice_def MSF2_CONTROL_GROUP_PITCH_def)

section \<open>Loops that touch each active voice once\<close>

lemma each_active_pointwise:
  assumes "\<And>v q. v < length (rt_voices r) \<Longrightarrow> length (rt_voices q) = length (rt_voices r) \<Longrightarrow> rt_channels q = rt_channels r \<Longrightarrow>
      \<exists>q'. f v q = (MSF2_OK, q') \<and> rt_voices q' = (rt_voices q)[v := h (rt_voices q ! v)] \<and> rt_channels q' = rt_channels q \<and>
        rt_active_voice_indices q' = rt_active_voice_indices q"
    and "distinct (map ((!) (rt_active_voice_indices r)) as)" and "\<forall>a\<in>set as. rt_active_voice_indices r ! a < length (rt_voices r)"
    and "rt_channels q = rt_channels r" and "rt_active_voice_indices q = rt_active_voice_indices r" and "length (rt_voices q) = length (rt_voices r)"
  shows "\<exists>q'. each_active f as q = (MSF2_OK, q') \<and> length (rt_voices q') = length (rt_voices q) \<and>
    (\<forall>v < length (rt_voices q). rt_voices q' ! v =
       (if v \<in> (!) (rt_active_voice_indices r) ` set as then h (rt_voices q ! v) else rt_voices q ! v))"
  using assms(2-)
proof (induction as arbitrary: q)
  case (Cons a as)
  let ?w = "rt_active_voice_indices r ! a"
  have w: "?w < length (rt_voices r)" using Cons.prems(2) by simp
  obtain q1 where q1: "f ?w q = (MSF2_OK, q1)" "rt_voices q1 = (rt_voices q)[?w := h (rt_voices q ! ?w)]"
      "rt_channels q1 = rt_channels q" "rt_active_voice_indices q1 = rt_active_voice_indices q"
    using assms(1) [OF w Cons.prems(5,3)] by blast
  obtain q2 where q2: "each_active f as q1 = (MSF2_OK, q2)" "length (rt_voices q2) = length (rt_voices q1)"
      "\<And>v. v < length (rt_voices q1) \<Longrightarrow> rt_voices q2 ! v =
         (if v \<in> (!) (rt_active_voice_indices r) ` set as then h (rt_voices q1 ! v) else rt_voices q1 ! v)"
    using Cons.IH [of q1] Cons.prems q1 by auto
  have "?w \<notin> (!) (rt_active_voice_indices r) ` set as" using Cons.prems(1) by auto
  then have "rt_voices q2 ! v = (if v \<in> (!) (rt_active_voice_indices r) ` set (a # as) then h (rt_voices q ! v) else rt_voices q ! v)"
    if "v < length (rt_voices q)" for v
    using that q2(3) [of v] q1(2) by (cases "v = ?w") auto
  then show ?case using q1 q2(1,2) Cons.prems(4) by simp
qed simp

lemma for_active_pointwise:
  assumes "pool_ok [] r" and "\<And>v q. v < length (rt_voices r) \<Longrightarrow> length (rt_voices q) = length (rt_voices r) \<Longrightarrow> rt_channels q = rt_channels r \<Longrightarrow>
      \<exists>q'. f v q = (MSF2_OK, q') \<and> rt_voices q' = (rt_voices q)[v := h (rt_voices q ! v)] \<and> rt_channels q' = rt_channels q \<and>
        rt_active_voice_indices q' = rt_active_voice_indices q"
  shows "\<exists>q'. for_active f r = (MSF2_OK, q') \<and> length (rt_voices q') = length (rt_voices r) \<and>
    (\<forall>v < rt_voice_capacity r. rt_voices q' ! v =
       (if vs_stage (rt_voices r ! v) \<noteq> MSF2_VOICE_FREE then h (rt_voices r ! v) else rt_voices r ! v))"
proof -
  have n: "rt_active_count r \<le> length (rt_active_voice_indices r)" "length (rt_voices r) = rt_voice_capacity r"
    using assms(1) by (simp_all add: pool_ok_def)
  have m: "map ((!) (rt_active_voice_indices r)) [0..<rt_active_count r] = take (rt_active_count r) (rt_active_voice_indices r)"
    using n(1) by (intro nth_equalityI) auto
  have "v \<in> (!) (rt_active_voice_indices r) ` set [0..<rt_active_count r] \<longleftrightarrow> vs_stage (rt_voices r ! v) \<noteq> MSF2_VOICE_FREE"
    if "v < rt_voice_capacity r" for v
  proof -
    have "vs_stage (rt_voices r ! v) = MSF2_VOICE_FREE" if "v \<in> set (take (rt_free_count r) (rt_free_stack r))"
      using that assms(1) by (auto simp: in_set_conv_nth pool_ok_def)
    moreover have "v \<in> set (take (rt_free_count r) (rt_free_stack r)) \<union> set (take (rt_active_count r) (rt_active_voice_indices r))"
      using pool_members(2) [OF assms(1)] that by auto
    ultimately show ?thesis using active_voice(3) [OF assms(1), of v] by (metis Un_iff list.set_map m)
  qed
  moreover have "distinct (map ((!) (rt_active_voice_indices r)) [0..<rt_active_count r])" using pool_members(1) [OF assms(1)] by (simp add: m)
  ultimately show ?thesis
    using each_active_pointwise [of r f h "[0..<rt_active_count r]" r] assms(2) pool_inside(1) [OF assms(1)] n(2)
    unfolding for_active_def by auto
qed

section \<open>Note off\<close>

text \<open>Releasing a voice, as a function of the voice, when the command is accepted.\<close>

definition released :: "msf2_voice_state \<Rightarrow> msf2_voice_state" where
  "released x = x\<lparr> vs_stage := MSF2_VOICE_RELEASED, vs_sustain_held := False, vs_sostenuto_held := False,
     vs_mod_env_stage := MSF2_ENV_RELEASE, vs_mod_env_stage_tick := 0, vs_mod_env_release_start := vs_mod_env_level x \<rparr>"

definition sounding :: "msf2_voice_state \<Rightarrow> bool" where
  "sounding x \<longleftrightarrow> vs_stage x \<noteq> MSF2_VOICE_FREE \<and> vs_stage x \<noteq> MSF2_VOICE_RELEASED"

definition key_down :: "u8 \<Rightarrow> msf2_voice_state \<Rightarrow> bool" where
  "key_down channel x \<longleftrightarrow> sounding x \<and> vs_channel x = channel \<and> \<not> vs_key_released x"

lemma release_accepted:
  assumes "accepts sink"
  shows "\<exists>q'. release_voice_fw sink v q = (MSF2_OK, q') \<and>
     rt_voices q' = (rt_voices q)[v := (if sounding (rt_voices q ! v) then released (rt_voices q ! v) else rt_voices q ! v)] \<and>
     rt_channels q' = rt_channels q \<and> rt_active_voice_indices q' = rt_active_voice_indices q"
  by (auto simp: release_voice_fw_def Let_def emit_short_def emit_accepted [OF assms] sounding_def released_def)

text \<open>What a note off does to a voice of the instance it ends.\<close>

definition note_ended :: "bool \<Rightarrow> msf2_voice_state \<Rightarrow> msf2_voice_state" where
  "note_ended sustain x =
     (if sustain \<or> vs_sostenuto_held x
      then x\<lparr> vs_key_released := True, vs_sustain_held := sustain, vs_stage := MSF2_VOICE_SUSTAIN_HELD \<rparr>
      else released (x\<lparr> vs_key_released := True \<rparr>))"

definition note_off_effect :: "u8 \<Rightarrow> bool \<Rightarrow> u32 \<Rightarrow> msf2_voice_state \<Rightarrow> msf2_voice_state" where
  "note_off_effect channel sustain oldest x =
     (if vs_stage x = MSF2_VOICE_RELEASED \<or> vs_channel x \<noteq> channel \<or> vs_note_instance x \<noteq> oldest \<or> vs_key_released x then x
      else if vs_stage x = MSF2_VOICE_FREE \<and> \<not> (sustain \<or> vs_sostenuto_held x) then x\<lparr> vs_key_released := True \<rparr>
      else note_ended sustain x)"

lemma note_off_voice_accepted:
  assumes "accepts sink" and "v < length (rt_voices q)"
  shows "\<exists>q'. note_off_voice sink channel oldest v q = (MSF2_OK, q') \<and>
     rt_voices q' = (rt_voices q)[v := note_off_effect channel (cs_sustain (rt_channels q ! unat channel)) oldest (rt_voices q ! v)] \<and>
     rt_channels q' = rt_channels q \<and> rt_active_voice_indices q' = rt_active_voice_indices q"
  using assms(2) release_accepted [OF assms(1), of v "set_voice v ((rt_voices q ! v)\<lparr> vs_key_released := True \<rparr>) q"]
  by (auto simp: note_off_voice_def Let_def note_off_effect_def note_ended_def sounding_def)

lemma note_off_loop:
  assumes "accepts sink" and "pool_ok [] r"
  obtains q where "for_active (note_off_voice sink channel oldest) r = (MSF2_OK, q)"
    and "\<And>v. v < rt_voice_capacity r \<Longrightarrow> rt_voices q ! v =
      (if vs_stage (rt_voices r ! v) \<noteq> MSF2_VOICE_FREE
       then note_off_effect channel (cs_sustain (rt_channels r ! unat channel)) oldest (rt_voices r ! v) else rt_voices r ! v)"
proof -
  let ?h = "note_off_effect channel (cs_sustain (rt_channels r ! unat channel)) oldest"
  have step: "\<exists>q'. note_off_voice sink channel oldest v q = (MSF2_OK, q') \<and> rt_voices q' = (rt_voices q)[v := ?h (rt_voices q ! v)] \<and>
      rt_channels q' = rt_channels q \<and> rt_active_voice_indices q' = rt_active_voice_indices q"
    if "v < length (rt_voices r)" "length (rt_voices q) = length (rt_voices r)" "rt_channels q = rt_channels r" for v q
    using note_off_voice_accepted [OF assms(1), of v q channel oldest] that by simp
  show ?thesis using for_active_pointwise [OF assms(2), of "note_off_voice sink channel oldest" ?h, OF step] that by blast
qed

lemma fold_smallest:
  fixes g :: "'a \<Rightarrow> 'b :: linorder"
  shows "fold (\<lambda>a m. if P a \<and> g a < m then g a else m) xs m = Min (insert m (g ` {a \<in> set xs. P a}))"
proof (induction xs arbitrary: m)
  case (Cons a xs)
  let ?f = "\<lambda>a m. if P a \<and> g a < m then g a else m" and ?S = "g ` {a \<in> set xs. P a}"
  have ins: "Min (insert (min m (g a)) ?S) = Min (insert m (insert (g a) ?S))"
  proof (cases "?S = {}")
    case False
    then show ?thesis by (simp add: min.assoc)
  qed (simp only: Min_singleton Min_insert finite.intros insert_not_empty simp_thms)
  have step: "?f a m = (if P a then min m (g a) else m)" by (auto simp: min_def)
  show ?case
  proof (cases "P a")
    case True
    have "fold ?f (a # xs) m = fold ?f xs (min m (g a))" using step True by (simp only: fold_simps if_True)
    also have "\<dots> = Min (insert m (insert (g a) ?S))" by (simp only: Cons.IH ins)
    also have "insert (g a) ?S = g ` {x \<in> set (a # xs). P x}" using True by auto
    finally show ?thesis .
  next
    case False
    then have "{x \<in> set (a # xs). P x} = {x \<in> set xs. P x}" by auto
    then show ?thesis using False Cons.IH [of m] by simp
  qed
qed simp

text \<open>The instances of a key that are held down; the oldest has the smallest number.\<close>

definition held_instances :: "u8 \<Rightarrow> u8 \<Rightarrow> 'c msf2_runtime \<Rightarrow> u32 set" where
  "held_instances channel key r =
     {vs_note_instance (rt_voices r ! v) | v. v < rt_voice_capacity r \<and> key_down channel (rt_voices r ! v) \<and> vs_note (rt_voices r ! v) = key}"

lemma oldest_instance_smallest:
  assumes "pool_ok [] r"
  shows "oldest_instance channel key r = Min (insert 0xffffffff (held_instances channel key r))"
proof -
  let ?x = "\<lambda>a. rt_voices r ! (rt_active_voice_indices r ! a)"
  let ?P = "\<lambda>a. key_down channel (?x a) \<and> vs_note (?x a) = key"
  have "oldest_instance channel key r =
      fold (\<lambda>a m. if ?P a \<and> vs_note_instance (?x a) < m then vs_note_instance (?x a) else m) [0..<rt_active_count r] 0xffffffff"
    unfolding oldest_instance_def Let_def by (intro fold_cong refl ext if_cong) (auto simp: key_down_def sounding_def)
  also have "\<dots> = Min (insert 0xffffffff ((\<lambda>a. vs_note_instance (?x a)) ` {a \<in> set [0..<rt_active_count r]. ?P a}))"
    by (rule fold_smallest)
  also have "(\<lambda>a. vs_note_instance (?x a)) ` {a \<in> set [0..<rt_active_count r]. ?P a} = held_instances channel key r"
  proof (intro equalityI subsetI)
    fix i assume "i \<in> (\<lambda>a. vs_note_instance (?x a)) ` {a \<in> set [0..<rt_active_count r]. ?P a}"
    then obtain a where "a < rt_active_count r" "?P a" "i = vs_note_instance (?x a)" by auto
    then show "i \<in> held_instances channel key r"
      using pool_inside(1) [OF assms] assms by (auto simp: held_instances_def pool_ok_def)
  next
    fix i assume "i \<in> held_instances channel key r"
    then obtain v where v: "v < rt_voice_capacity r" "key_down channel (rt_voices r ! v)" "vs_note (rt_voices r ! v) = key"
        "i = vs_note_instance (rt_voices r ! v)" by (auto simp: held_instances_def)
    have "v \<notin> set (take (rt_free_count r) (rt_free_stack r))"
      using v(2) assms by (auto simp: in_set_conv_nth pool_ok_def key_down_def sounding_def)
    then have "v \<in> set (take (rt_active_count r) (rt_active_voice_indices r))" using pool_members(2) [OF assms] v(1) by auto
    then obtain a where "a < rt_active_count r" "rt_active_voice_indices r ! a = v" by (auto simp: in_set_conv_nth)
    then show "i \<in> (\<lambda>a. vs_note_instance (?x a)) ` {a \<in> set [0..<rt_active_count r]. ?P a}" using v by force
  qed
  finally show ?thesis .
qed

text \<open>C38: A note off ends the oldest instance of its key. With a sink that accepts, and the pool of voices consistent,
  a valid note off succeeds; the voices it changes are exactly the layers of the oldest instance of that key and channel
  whose key is still down. Each of them is released, or held when the sustain pedal is down or sostenuto caught it;
  every other voice, repeated notes of the same key included, keeps its state.\<close>

theorem note_off_ends_oldest_instance:
  assumes "accepts sink" and "pool_ok [] r" and "channel < 16" and "key \<le> 127"
    and "oldest = Min (insert 0xffffffff (held_instances channel key r))"
  shows "\<exists>r'. msf2_runtime_note_off sink channel key r = (MSF2_OK, r') \<and>
     (\<forall>v < rt_voice_capacity r. rt_voices r' ! v =
        (if oldest \<noteq> 0xffffffff \<and> key_down channel (rt_voices r ! v) \<and> vs_note_instance (rt_voices r ! v) = oldest
         then note_ended (cs_sustain (rt_channels r ! unat channel)) (rt_voices r ! v) else rt_voices r ! v))"
proof -
  define r1 where "r1 = update_stats (\<lambda>s. s\<lparr> st_note_offs := st_note_offs s + 1 \<rparr>) r"
  have "gentle r r1" unfolding r1_def by (rule gentle_update_stats) simp_all
  then have p: "pool_ok [] r1" using pool_gentle assms(2) by blast
  have same: "rt_voices r1 = rt_voices r" "rt_channels r1 = rt_channels r" "rt_voice_capacity r1 = rt_voice_capacity r"
    by (simp_all add: r1_def update_stats_def)
  have old: "oldest_instance channel key r1 = oldest"
    using oldest_instance_smallest [OF p] assms(5) by (simp add: held_instances_def same)
  have ok: "channel_ok channel" "\<not> key > 127" using assms(3,4) by (simp add: channel_ok_def MSF2_CHANNEL_COUNT_def word_less_nat_alt, simp)
  show ?thesis
  proof (cases "oldest = 0xffffffff")
    case True
    then show ?thesis using ok old same by (simp add: msf2_runtime_note_off_def r1_def [symmetric])
  next
    case False
    let ?h = "note_off_effect channel (cs_sustain (rt_channels r ! unat channel)) oldest"
    obtain q where q: "for_active (note_off_voice sink channel oldest) r1 = (MSF2_OK, q)"
        "\<And>v. v < rt_voice_capacity r1 \<Longrightarrow> rt_voices q ! v =
          (if vs_stage (rt_voices r1 ! v) \<noteq> MSF2_VOICE_FREE then ?h (rt_voices r1 ! v) else rt_voices r1 ! v)"
      using note_off_loop [OF assms(1) p, of channel oldest, unfolded same] same by metis
    then have "rt_voices q ! v = (if key_down channel (rt_voices r ! v) \<and> vs_note_instance (rt_voices r ! v) = oldest
        then note_ended (cs_sustain (rt_channels r ! unat channel)) (rt_voices r ! v) else rt_voices r ! v)"
      if "v < rt_voice_capacity r" for v
      using that same by (auto simp: note_off_effect_def key_down_def sounding_def)
    then show ?thesis using False ok old q(1) by (simp add: msf2_runtime_note_off_def r1_def [symmetric])
  qed
qed

lemma demo_held: "held_instances 0 60 demo_sounding = {1}"
proof -
  have "v < 4 \<Longrightarrow> v = 0 \<or> v = 1 \<or> v = 2 \<or> v = 3" for v :: nat by auto
  then have "held_instances 0 60 demo_sounding = {vs_note_instance (rt_voices demo_sounding ! v) | v. v = 0}"
    unfolding held_instances_def demo_sounding_fields
    by (intro Collect_cong ex_cong1) (fastforce simp: key_down_def sounding_def demo_voice_def zero_voice_def)
  then show ?thesis by (simp add: demo_sounding_fields demo_voice_def)
qed

theorem note_off_ends_oldest_instance_witness:
  "\<exists>r'. msf2_runtime_note_off (\<lambda>c w. (0, c)) 0 60 demo_sounding = (MSF2_OK, r') \<and> vs_stage (rt_voices r' ! 0) = MSF2_VOICE_RELEASED"
proof -
  have "Min (insert 0xffffffff (held_instances 0 60 demo_sounding)) = 1" by (simp add: demo_held min_def word_le_nat_alt)
  then show ?thesis
    using note_off_ends_oldest_instance [of "\<lambda>c w. (0, c)" demo_sounding 0 60 1, OF _ demo_sounding_ok(1)]
    by (auto simp: accepts_def demo_sounding_fields demo_voice_def zero_voice_def key_down_def sounding_def note_ended_def released_def
        reset_channel_state_def dest!: spec [of _ 0])
qed

section \<open>A note off the sink refuses\<close>

definition refuses :: "'c command_sink \<Rightarrow> bool" where
  "refuses sink \<longleftrightarrow> (\<forall>c w. fst (sink c w) \<noteq> 0)"

lemma release_refused:
  assumes "refuses sink" and "sounding (rt_voices q ! v)"
  shows "\<exists>c. release_voice_fw sink v q = (MSF2_ERR_SINK, q\<lparr> rt_command_context := c \<rparr>)"
  using assms by (auto simp: release_voice_fw_def Let_def emit_short_def emit_command_def refuses_def sounding_def split: prod.split)
    (metis fst_conv)

text \<open>The voices a note off ends: their key is down, no pedal holds them, and they are of the oldest instance.\<close>

definition ending :: "u8 \<Rightarrow> u32 \<Rightarrow> 'c msf2_runtime \<Rightarrow> nat \<Rightarrow> bool" where
  "ending channel oldest r v \<longleftrightarrow> key_down channel (rt_voices r ! v) \<and> vs_note_instance (rt_voices r ! v) = oldest"

lemma note_off_voice_refused:
  assumes "refuses sink" and "v < length (rt_voices q)" and "\<not> cs_sustain (rt_channels q ! unat channel)"
    and "\<not> vs_sostenuto_held (rt_voices q ! v)" and "vs_stage (rt_voices q ! v) \<noteq> MSF2_VOICE_FREE"
  shows "\<exists>c. note_off_voice sink channel oldest v q =
    (if ending channel oldest q v
     then (MSF2_ERR_SINK, (set_voice v ((rt_voices q ! v)\<lparr> vs_key_released := True \<rparr>) q)\<lparr> rt_command_context := c \<rparr>) else (MSF2_OK, q))"
  using assms(2-5) release_refused [OF assms(1), of "set_voice v ((rt_voices q ! v)\<lparr> vs_key_released := True \<rparr>) q" v]
  by (auto simp: note_off_voice_def Let_def ending_def key_down_def sounding_def)

lemma each_active_refused:
  assumes "refuses sink" and "\<not> cs_sustain (rt_channels q ! unat channel)"
    and "\<forall>a\<in>set as. rt_active_voice_indices q ! a < length (rt_voices q) \<and> \<not> vs_sostenuto_held (rt_voices q ! (rt_active_voice_indices q ! a)) \<and>
      vs_stage (rt_voices q ! (rt_active_voice_indices q ! a)) \<noteq> MSF2_VOICE_FREE"
    and "a0 \<in> set as" and "ending channel oldest q (rt_active_voice_indices q ! a0)"
  shows "\<exists>v c. v \<in> (!) (rt_active_voice_indices q) ` set as \<and> ending channel oldest q v \<and>
    each_active (note_off_voice sink channel oldest) as q =
      (MSF2_ERR_SINK, (set_voice v ((rt_voices q ! v)\<lparr> vs_key_released := True \<rparr>) q)\<lparr> rt_command_context := c \<rparr>)"
  using assms(3,4)
proof (induction as)
  case (Cons a as)
  let ?w = "rt_active_voice_indices q ! a"
  obtain c where c: "note_off_voice sink channel oldest ?w q =
    (if ending channel oldest q ?w
     then (MSF2_ERR_SINK, (set_voice ?w ((rt_voices q ! ?w)\<lparr> vs_key_released := True \<rparr>) q)\<lparr> rt_command_context := c \<rparr>) else (MSF2_OK, q))"
    using note_off_voice_refused [OF assms(1) _ assms(2), of ?w] Cons.prems(1) by auto
  show ?case
  proof (cases "ending channel oldest q ?w")
    case True
    then show ?thesis using c by (intro exI [of _ ?w] exI [of _ c]) simp
  next
    case False
    then have "a0 \<in> set as" using Cons.prems(2) assms(5) by auto
    then show ?thesis using Cons.IH Cons.prems(1) c False by auto
  qed
qed simp

definition still_sounding :: "nat \<Rightarrow> 'c msf2_runtime \<Rightarrow> bool" where
  "still_sounding v r \<longleftrightarrow> sounding (rt_voices r ! v) \<and> vs_key_released (rt_voices r ! v)"

lemma note_off_keeps_released_key:
  assumes "accepts sink" and "pool_ok [] r" and "channel < 16" and "key \<le> 127" and "v < rt_voice_capacity r" and "still_sounding v r"
  shows "still_sounding v (snd (msf2_runtime_note_off sink channel key r))"
proof -
  define r1 where "r1 = update_stats (\<lambda>s. s\<lparr> st_note_offs := st_note_offs s + 1 \<rparr>) r"
  have "gentle r r1" unfolding r1_def by (rule gentle_update_stats) simp_all
  then have p: "pool_ok [] r1" using pool_gentle assms(2) by blast
  have same: "rt_voices r1 = rt_voices r" "rt_channels r1 = rt_channels r" "rt_voice_capacity r1 = rt_voice_capacity r"
    by (simp_all add: r1_def update_stats_def)
  have "still_sounding v (snd (for_active (note_off_voice sink channel oldest) r1))" for oldest
  proof -
    let ?h = "note_off_effect channel (cs_sustain (rt_channels r ! unat channel)) oldest"
    obtain q where "for_active (note_off_voice sink channel oldest) r1 = (MSF2_OK, q)"
        "\<And>v. v < rt_voice_capacity r1 \<Longrightarrow> rt_voices q ! v =
          (if vs_stage (rt_voices r1 ! v) \<noteq> MSF2_VOICE_FREE then ?h (rt_voices r1 ! v) else rt_voices r1 ! v)"
      using note_off_loop [OF assms(1) p, of channel oldest, unfolded same] same by metis
    then show ?thesis using assms(5,6) same by (simp add: still_sounding_def note_off_effect_def sounding_def)
  qed
  then show ?thesis using assms(6) same unfolding msf2_runtime_note_off_def Let_def r1_def [symmetric] by (simp add: still_sounding_def)
qed

lemma all_notes_off_voice_accepted:
  assumes "accepts sink" and "v < length (rt_voices q)"
  shows "\<exists>q'. all_notes_off_voice sink channel v q = (MSF2_OK, q') \<and>
     rt_voices q' = (rt_voices q)[v := (if key_down channel (rt_voices q ! v)
       then note_ended (cs_sustain (rt_channels q ! unat channel)) ((rt_voices q ! v)\<lparr> vs_sustain_held := cs_sustain (rt_channels q ! unat channel) \<rparr>)
       else rt_voices q ! v)] \<and>
     rt_channels q' = rt_channels q \<and> rt_active_voice_indices q' = rt_active_voice_indices q"
  using assms(2) release_accepted [OF assms(1), of v "set_voice v ((rt_voices q ! v)\<lparr> vs_key_released := True,
    vs_sustain_held := cs_sustain (rt_channels q ! unat channel) \<rparr>) q"]
  by (auto simp: all_notes_off_voice_def Let_def note_ended_def key_down_def sounding_def released_def)

lemma all_notes_off_keeps_released_key:
  assumes "accepts sink" and "pool_ok [] r" and "v < rt_voice_capacity r" and "still_sounding v r"
  shows "still_sounding v (snd (msf2_runtime_all_notes_off sink channel r))"
proof -
  let ?s = "cs_sustain (rt_channels r ! unat channel)"
  let ?h = "\<lambda>x. if key_down channel x then note_ended ?s (x\<lparr> vs_sustain_held := ?s \<rparr>) else x"
  have step: "\<exists>q'. all_notes_off_voice sink channel v q = (MSF2_OK, q') \<and> rt_voices q' = (rt_voices q)[v := ?h (rt_voices q ! v)] \<and>
      rt_channels q' = rt_channels q \<and> rt_active_voice_indices q' = rt_active_voice_indices q"
    if "v < length (rt_voices r)" "length (rt_voices q) = length (rt_voices r)" "rt_channels q = rt_channels r" for v q
  proof -
    have "v < length (rt_voices q)" using that by simp
    from all_notes_off_voice_accepted [OF assms(1) this, of channel] show ?thesis unfolding that(3) .
  qed
  obtain q where "for_active (all_notes_off_voice sink channel) r = (MSF2_OK, q)"
      "\<And>v. v < rt_voice_capacity r \<Longrightarrow> rt_voices q ! v =
        (if vs_stage (rt_voices r ! v) \<noteq> MSF2_VOICE_FREE then ?h (rt_voices r ! v) else rt_voices r ! v)"
    using for_active_pointwise [OF assms(2), of "all_notes_off_voice sink channel" ?h, OF step] by blast
  then show ?thesis using assms(3,4) by (simp add: msf2_runtime_all_notes_off_def still_sounding_def key_down_def)
qed

lemma used_voice_listed:
  assumes "pool_ok [] r" and "w < rt_voice_capacity r" and "vs_stage (rt_voices r ! w) \<noteq> MSF2_VOICE_FREE"
  obtains a where "a < rt_active_count r" and "rt_active_voice_indices r ! a = w"
proof -
  have "w \<notin> set (take (rt_free_count r) (rt_free_stack r))" using assms(1,3) by (auto simp: in_set_conv_nth pool_ok_def)
  then have "w \<in> set (take (rt_active_count r) (rt_active_voice_indices r))" using pool_members(2) [OF assms(1)] assms(2) by auto
  then show thesis using that by (auto simp: in_set_conv_nth)
qed

text \<open>The voice that a refused note off leaves sounding, with its key marked released.\<close>

lemma refused_note_off:
  assumes "refuses bad" and "pool_ok [] r" and "channel < 16" and "key \<le> 127"
    and "\<not> cs_sustain (rt_channels r ! unat channel)" and "\<forall>v < rt_voice_capacity r. \<not> vs_sostenuto_held (rt_voices r ! v)"
    and "oldest = Min (insert 0xffffffff (held_instances channel key r))" and "oldest \<noteq> 0xffffffff"
  obtains v r1 where "v < rt_voice_capacity r" and "key_down channel (rt_voices r ! v)"
    and "msf2_runtime_note_off bad channel key r = (MSF2_ERR_SINK, r1)" and "pool_ok [] r1"
    and "rt_voice_capacity r1 = rt_voice_capacity r" and "still_sounding v r1"
proof -
  define r0 where "r0 = update_stats (\<lambda>s. s\<lparr> st_note_offs := st_note_offs s + 1 \<rparr>) r"
  have g0: "gentle r r0" unfolding r0_def by (rule gentle_update_stats) simp_all
  then have p: "pool_ok [] r0" using pool_gentle assms(2) by blast
  have same: "rt_voices r0 = rt_voices r" "rt_channels r0 = rt_channels r" "rt_voice_capacity r0 = rt_voice_capacity r"
      "rt_active_count r0 = rt_active_count r" "rt_active_voice_indices r0 = rt_active_voice_indices r"
    by (simp_all add: r0_def update_stats_def)
  have old: "oldest_instance channel key r0 = oldest"
    using oldest_instance_smallest [OF p] assms(7) by (simp add: held_instances_def same)
  have "finite (held_instances channel key r)" by (simp add: held_instances_def)
  then have "oldest \<in> held_instances channel key r" using Min_in [of "insert 0xffffffff (held_instances channel key r)"] assms(7,8) by auto
  then obtain w where w: "w < rt_voice_capacity r" "ending channel oldest r0 w" by (auto simp: held_instances_def ending_def same)
  obtain a where a: "a < rt_active_count r0" "rt_active_voice_indices r0 ! a = w"
    using used_voice_listed [OF p, of w] w same by (auto simp: ending_def key_down_def sounding_def)
  have live: "vs_stage (rt_voices r0 ! (rt_active_voice_indices r0 ! i)) \<noteq> MSF2_VOICE_FREE" if "i < rt_active_count r0" for i
    using p that by (simp add: pool_ok_def)
  have cap: "length (rt_voices r0) = rt_voice_capacity r" using p same by (simp add: pool_ok_def)
  obtain v c where v: "v \<in> (!) (rt_active_voice_indices r0) ` set [0..<rt_active_count r0]" "ending channel oldest r0 v"
      "for_active (note_off_voice bad channel oldest) r0 =
        (MSF2_ERR_SINK, (set_voice v ((rt_voices r0 ! v)\<lparr> vs_key_released := True \<rparr>) r0)\<lparr> rt_command_context := c \<rparr>)"
    unfolding for_active_def
    using each_active_refused [OF assms(1), of r0 channel "[0..<rt_active_count r0]" a oldest] a w(2) assms(5,6) same live
      pool_inside(1) [OF p] cap
    by auto
  define r1 where "r1 = (set_voice v ((rt_voices r0 ! v)\<lparr> vs_key_released := True \<rparr>) r0)\<lparr> rt_command_context := c \<rparr>"
  have vcap: "v < rt_voice_capacity r" using v(1) pool_inside(1) [OF p] cap by auto
  have g1: "gentle r0 r1"
    unfolding r1_def by (rule gentle_trans [OF gentle_set_voice gentle_context]) (simp add: voice_part_def)
  have p1: "pool_ok [] r1" using pool_gentle [OF g1 p] .
  have cap1: "rt_voice_capacity r1 = rt_voice_capacity r" using g1 same by (simp add: gentle_def pool_part_def)
  have still: "still_sounding v r1"
    using v(2) vcap cap by (simp add: r1_def still_sounding_def ending_def key_down_def sounding_def)
  have off: "msf2_runtime_note_off bad channel key r = (MSF2_ERR_SINK, r1)"
    using v(3) old assms(3,4,8) by (simp add: msf2_runtime_note_off_def r0_def [symmetric] r1_def [symmetric] channel_ok_def
        MSF2_CHANNEL_COUNT_def word_less_nat_alt word_le_nat_alt)
  moreover have "key_down channel (rt_voices r ! v)" using v(2) same by (simp add: ending_def)
  ultimately show thesis using that vcap p1 cap1 still by blast
qed

text \<open>C39: A refused note off is lost for good. When the sink refuses the RELEASE of a note off with no pedal down, the
  operation reports the failure but has already marked the key as released. The voice goes on sounding, and neither
  repeating the note off nor an all-notes-off, with a sink that now accepts, releases it.\<close>

theorem refused_note_off_is_lost:
  assumes "refuses bad" and "accepts good" and "pool_ok [] r" and "channel < 16" and "key \<le> 127"
    and "\<not> cs_sustain (rt_channels r ! unat channel)" and "\<forall>v < rt_voice_capacity r. \<not> vs_sostenuto_held (rt_voices r ! v)"
    and "oldest = Min (insert 0xffffffff (held_instances channel key r))" and "oldest \<noteq> 0xffffffff"
  shows "\<exists>v r1. v < rt_voice_capacity r \<and> key_down channel (rt_voices r ! v) \<and>
     msf2_runtime_note_off bad channel key r = (MSF2_ERR_SINK, r1) \<and> sounding (rt_voices r1 ! v) \<and>
     (\<forall>k \<le> 127. sounding (rt_voices (snd (msf2_runtime_note_off good channel k r1)) ! v)) \<and>
     sounding (rt_voices (snd (msf2_runtime_all_notes_off good channel r1)) ! v)"
proof -
  obtain v r1 where v: "v < rt_voice_capacity r" "key_down channel (rt_voices r ! v)"
      "msf2_runtime_note_off bad channel key r = (MSF2_ERR_SINK, r1)" "pool_ok [] r1"
      "rt_voice_capacity r1 = rt_voice_capacity r" "still_sounding v r1"
    using refused_note_off [OF assms(1,3-9)] by blast
  have "sounding (rt_voices (snd (msf2_runtime_note_off good channel k r1)) ! v)" if "k \<le> 127" for k
    using note_off_keeps_released_key [OF assms(2) v(4) assms(4) that, of v] v by (simp add: still_sounding_def)
  moreover have "sounding (rt_voices (snd (msf2_runtime_all_notes_off good channel r1)) ! v)"
    using all_notes_off_keeps_released_key [OF assms(2) v(4), of v channel] v by (simp add: still_sounding_def)
  ultimately show ?thesis using v by (auto simp: still_sounding_def)
qed

theorem refused_note_off_is_lost_witness:
  "\<exists>v r1. msf2_runtime_note_off (\<lambda>c w. (1, c)) 0 60 demo_sounding = (MSF2_ERR_SINK, r1) \<and>
     sounding (rt_voices (snd (msf2_runtime_note_off (\<lambda>c w. (0, c)) 0 60 r1)) ! v)"
proof -
  have old: "Min (insert 0xffffffff (held_instances 0 60 demo_sounding)) = 1" by (simp add: demo_held min_def word_le_nat_alt)
  have "\<forall>v < rt_voice_capacity demo_sounding. \<not> vs_sostenuto_held (rt_voices demo_sounding ! v)"
    by (simp add: demo_sounding_fields nth_Cons' demo_voice_def zero_voice_def)
  then obtain v r1 where r1: "msf2_runtime_note_off (\<lambda>c w. (1, c)) 0 60 demo_sounding = (MSF2_ERR_SINK, r1)"
      "\<forall>k \<le> 127. sounding (rt_voices (snd (msf2_runtime_note_off (\<lambda>c w. (0, c)) 0 k r1)) ! v)"
    using refused_note_off_is_lost [of "\<lambda>c w. (1, c)" "\<lambda>c w. (0, c)" demo_sounding 0 60 1, OF _ _ demo_sounding_ok(1)] old
    by (auto simp: accepts_def refuses_def demo_sounding_fields reset_channel_state_def)
  then have "sounding (rt_voices (snd (msf2_runtime_note_off (\<lambda>c w. (0, c)) 0 60 r1)) ! v)" by simp
  then show ?thesis using r1(1) by blast
qed

section \<open>A reset during a control job\<close>

lemma for_active_channels:
  assumes "\<And>v q. rt_channels (snd (f v q)) = rt_channels q"
  shows "rt_channels (snd (for_active f r)) = rt_channels r"
proof -
  have "rt_channels (snd (each_active f as q)) = rt_channels q" for as q
    by (induction as arbitrary: q) (simp_all add: case_result assms)
  then show ?thesis by (simp add: for_active_def)
qed

lemma release_deferred_channels: "rt_channels (snd (release_deferred_voices sink channel r)) = rt_channels r"
  unfolding release_deferred_voices_def
  by (rule for_active_channels)
    (auto simp: release_deferred_voice_def release_voice_fw_def Let_def case_result emit_short_def emit_command_keeps)

lemma update_active_channels: "rt_channels (update_active f r) = rt_channels r"
proof -
  have "rt_channels (fold (\<lambda>active r. (let v = rt_active_voice_indices r ! active in set_voice v (f (rt_voices r ! v)) r)) as q) = rt_channels q" for as q
    by (induction as arbitrary: q) (simp_all add: Let_def)
  then show ?thesis by (simp add: update_active_def)
qed

text \<open>C40: A controller reset during a control job can be lost. The revision of a channel is meant to tell a background
  control job that the channel changed while it ran, so that its changes stay marked for the next pass. Resetting the
  controllers restarts the revision at one. When the job captured revision one, the completion of the job takes the
  reset for the state it captured and clears its marks, although some voices were refreshed before the reset.\<close>

theorem reset_during_control_job_is_lost:
  assumes "length (rt_channels r) = 16" and "channel < 16" and "cs_dirty_revision (rt_channels r ! unat channel) = 1" and "ticks \<noteq> 0"
    and "r1 = snd (msf2_runtime_reset_controllers sink channel r)"
    and "r2 = msf2_runtime_complete_control ticks (snd (msf2_runtime_capture_control_snapshot r)) r1"
  shows "cs_dirty_groups (rt_channels r1 ! unat channel) = MSF2_CONTROL_GROUP_ALL \<and> cs_dirty_groups (rt_channels r2 ! unat channel) = 0"
proof -
  have c: "unat channel < 16" "channel_ok channel" using assms(2) by (simp_all add: word_less_nat_alt channel_ok_def MSF2_CHANNEL_COUNT_def)
  have r1: "rt_channels r1 = (rt_channels r)[unat channel := mark_channel_dirty MSF2_CONTROL_GROUP_ALL reset_channel_state]"
    using c(2) by (simp add: assms(5) msf2_runtime_reset_controllers_def Let_def release_deferred_channels update_active_channels update_channel_def)
  have m: "mark_channel_dirty MSF2_CONTROL_GROUP_ALL reset_channel_state =
      reset_channel_state\<lparr> cs_dirty_groups := MSF2_CONTROL_GROUP_ALL, cs_dirty_revision := 1 \<rparr>"
    by (simp add: mark_channel_dirty_def MSF2_CONTROL_GROUP_ALL_def reset_channel_state_def)
  show ?thesis
    using c(1) assms(1,3,4) r1 m
    by (simp add: assms(6) msf2_runtime_complete_control_def msf2_runtime_capture_control_snapshot_def Let_def MSF2_CHANNEL_COUNT_def)
qed

definition demo_dirty :: "unit msf2_runtime" where
  "demo_dirty = snd (msf2_runtime_pitch_bend 3 100 demo_sounding)"

lemma demo_dirty_channels:
  "rt_channels demo_dirty = (replicate 16 reset_channel_state)[3 := reset_channel_state\<lparr> cs_pitch_bend := 100,
     cs_dirty_groups := MSF2_CONTROL_GROUP_PITCH, cs_dirty_revision := 1 \<rparr>]"
proof -
  have "mark_channel_dirty MSF2_CONTROL_GROUP_PITCH (reset_channel_state\<lparr> cs_pitch_bend := 100 \<rparr>) =
      reset_channel_state\<lparr> cs_pitch_bend := 100, cs_dirty_groups := MSF2_CONTROL_GROUP_PITCH, cs_dirty_revision := 1 \<rparr>"
    by (simp add: mark_channel_dirty_def MSF2_CONTROL_GROUP_PITCH_def reset_channel_state_def)
  then show ?thesis
    by (simp add: demo_dirty_def msf2_runtime_pitch_bend_def change_channel_def update_channel_def demo_sounding_fields(4) channel_ok_def
        MSF2_CHANNEL_COUNT_def Let_def)
qed

theorem reset_during_control_job_is_lost_witness:
  "cs_dirty_groups (rt_channels (msf2_runtime_complete_control 5 (snd (msf2_runtime_capture_control_snapshot demo_dirty))
     (snd (msf2_runtime_reset_controllers (\<lambda>c w. (0, c)) 3 demo_dirty))) ! 3) = 0"
proof -
  have u: "unat (3 :: u8) = 3" by simp
  have "length (rt_channels demo_dirty) = 16" "cs_dirty_revision (rt_channels demo_dirty ! unat (3 :: u8)) = 1"
    unfolding demo_dirty_channels u by (simp_all only: length_list_update length_replicate nth_list_update_eq) simp_all
  then show ?thesis
    using reset_during_control_job_is_lost [of demo_dirty 3 5 _ "\<lambda>c w. (0, c)", OF _ _ _ _ refl refl] unfolding u by simp
qed

text \<open>Any other change of a channel during the job stays marked.\<close>

lemma change_during_control_job_stays:
  assumes "length (rt_channels r) = 16" and "unat channel < 16" and "groups \<noteq> 0"
    and "\<And>c. cs_dirty_revision (f c) = cs_dirty_revision c" and "\<And>c. cs_dirty_groups (f c) = cs_dirty_groups c"
    and "r2 = msf2_runtime_complete_control ticks (snd (msf2_runtime_capture_control_snapshot r)) (snd (change_channel channel groups f r))"
  shows "cs_dirty_groups (rt_channels r2 ! unat channel) AND groups = groups"
proof -
  let ?c = "mark_channel_dirty groups (f (rt_channels r ! unat channel))"
  have "rt_channels r2 ! unat channel = ?c"
    using assms(1-5)
    by (cases "ticks = 0") (simp_all add: assms(6) msf2_runtime_complete_control_def msf2_runtime_capture_control_snapshot_def
        change_channel_def update_channel_def mark_channel_dirty_def MSF2_CHANNEL_COUNT_def Let_def)
  moreover have "(a OR b) AND b = b" for a b :: u8 by (auto simp: bit_eq_iff bit_simps)
  ultimately show ?thesis using assms(3) by (simp add: mark_channel_dirty_def)
qed

section \<open>The voice that is stolen\<close>

text \<open>One comparison keeps the best victim of those seen.\<close>

lemma best_of_more:
  fixes stamp :: "nat \<Rightarrow> 'b :: linorder"
  assumes "\<forall>v\<in>S. stage v = stage w \<longrightarrow> stamp w \<le> stamp v" and "(\<exists>v\<in>S. stage v = R) \<longrightarrow> stage w = R"
    and "better \<longleftrightarrow> stage c = R \<and> stage w \<noteq> R \<or> stage c = stage w \<and> stamp c < stamp w" and "w' = (if better then c else w)"
  shows "(\<forall>v\<in>insert c S. stage v = stage w' \<longrightarrow> stamp w' \<le> stamp v) \<and> ((\<exists>v\<in>insert c S. stage v = R) \<longrightarrow> stage w' = R)"
proof (cases better)
  case True
  then consider "stage c = R" "stage w \<noteq> R" | "stage c = stage w" "stamp c < stamp w" using assms(3) by blast
  then show ?thesis
  proof cases
    case 1
    then have "stage v \<noteq> R" if "v \<in> S" for v using assms(2) that by blast
    then show ?thesis using 1 True assms(4) by auto
  next
    case 2
    then have "stamp c \<le> stamp v" if "v \<in> S" "stage v = stage c" for v using assms(1) that by fastforce
    then show ?thesis using 2 True assms(2,4) by auto
  qed
next
  case False
  then show ?thesis using assms by auto
qed

lemma steal_fold:
  assumes f: "f = (\<lambda>victim index. (let candidate = rt_active_voice_indices r ! index
          in if better_victim (rt_voices r ! candidate) (rt_voices r ! victim) then candidate else victim))"
    and "S = insert x ((!) (rt_active_voice_indices r) ` set is)" and "w = foldl f x is"
  shows "(\<forall>v\<in>S. vs_stage (rt_voices r ! v) = vs_stage (rt_voices r ! w) \<longrightarrow>
      vs_allocation_stamp (rt_voices r ! w) \<le> vs_allocation_stamp (rt_voices r ! v)) \<and>
    ((\<exists>v\<in>S. vs_stage (rt_voices r ! v) = MSF2_VOICE_RELEASED) \<longrightarrow> vs_stage (rt_voices r ! w) = MSF2_VOICE_RELEASED)"
  using assms(2,3)
proof (induction "is" arbitrary: w S rule: rev_induct)
  case (snoc i "is")
  define w0 where "w0 = foldl f x is"
  let ?c = "rt_active_voice_indices r ! i" and ?S = "insert x ((!) (rt_active_voice_indices r) ` set is)"
  note IH = snoc.IH [OF refl w0_def]
  have w: "w = (if better_victim (rt_voices r ! ?c) (rt_voices r ! w0) then ?c else w0)"
    using snoc.prems(2) by (simp add: w0_def [symmetric]) (simp add: f Let_def)
  have S: "S = insert ?c ?S" using snoc.prems(1) by auto
  show ?case
    unfolding S
    by (rule best_of_more [where stage = "\<lambda>v. vs_stage (rt_voices r ! v)" and stamp = "\<lambda>v. vs_allocation_stamp (rt_voices r ! v)",
          OF conjunct1 [OF IH] conjunct2 [OF IH] _ w])
      (simp only: better_victim_def)
qed simp

text \<open>The voice that is stolen. When every voice is in use, the victim is an active voice; it is a released one
  whenever some active voice is released, and no active voice of the same stage was started before it.\<close>

theorem stolen_voice_is_oldest_of_its_stage:
  assumes "pool_ok [] r" and "rt_free_count r = 0" and "active = set (take (rt_active_count r) (rt_active_voice_indices r))"
  shows "steal_victim r \<in> active \<and> fst (allocate_voice r) = steal_victim r \<and>
     (\<forall>v\<in>active. vs_stage (rt_voices r ! v) = vs_stage (rt_voices r ! steal_victim r) \<longrightarrow>
        vs_allocation_stamp (rt_voices r ! steal_victim r) \<le> vs_allocation_stamp (rt_voices r ! v)) \<and>
     ((\<exists>v\<in>active. vs_stage (rt_voices r ! v) = MSF2_VOICE_RELEASED) \<longrightarrow>
        vs_stage (rt_voices r ! steal_victim r) = MSF2_VOICE_RELEASED)"
proof -
  have n: "0 < rt_active_count r" "rt_active_count r \<le> length (rt_active_voice_indices r)"
    using pool_counts [OF assms(1)] assms(1,2) by (simp_all add: pool_ok_def)
  have m: "map ((!) (rt_active_voice_indices r)) [0..<rt_active_count r] = take (rt_active_count r) (rt_active_voice_indices r)"
    using n(2) by (intro nth_equalityI) auto
  have "[0..<rt_active_count r] = 0 # [1..<rt_active_count r]" using n(1) by (simp add: upt_conv_Cons)
  then have S: "active = insert (rt_active_voice_indices r ! 0) ((!) (rt_active_voice_indices r) ` set [1..<rt_active_count r])"
    unfolding assms(3) m [symmetric] by simp
  have v: "steal_victim r \<in> set (take (rt_active_count r) (rt_active_voice_indices r))" by (rule steal_victim_active [OF n])
  have "fst (allocate_voice r) = steal_victim r"
    using assms(2) reclaim_pool(2,3) [OF assms(1) v] by (simp add: allocate_voice_def Let_def)
  then show ?thesis using steal_fold [OF refl S, OF steal_victim_def] v by (simp add: assms(3))
qed

text \<open>A runtime of two voices, both in use; the second was started later but is released.\<close>

definition demo_two :: "unit msf2_runtime" where
  "demo_two = projr (msf2_runtime_init (demo_view demo_image) 2 ())"

definition start_as :: "msf2_voice_state \<Rightarrow> 'c msf2_runtime \<Rightarrow> 'c msf2_runtime" where
  "start_as x r = (case allocate_voice r of (v, r1) \<Rightarrow> activate_voice v (set_voice v x r1))"

definition demo_full :: "unit msf2_runtime" where
  "demo_full = start_as (demo_voice\<lparr> vs_stage := MSF2_VOICE_RELEASED, vs_allocation_stamp := 2 \<rparr>) (start_as demo_voice demo_two)"

lemma start_as_pool:
  assumes "pool_ok [] r" and "vs_stage x \<noteq> MSF2_VOICE_FREE"
  shows "pool_ok [] (start_as x r)"
proof -
  obtain v r1 where a: "allocate_voice r = (v, r1)" by (cases "allocate_voice r")
  note p = allocate_pool [OF assms(1) a]
  have "v < length (rt_voices r1)" using p by (simp add: pool_ok_def)
  then show ?thesis using assms(2) activate_pool [OF pending_set_voice [OF p(1), of x]] by (simp add: start_as_def a)
qed

lemma demo_two_init: "msf2_runtime_init (demo_view demo_image) 2 () = Inr demo_two"
  by (simp add: demo_two_def msf2_runtime_init_def MSF2_MAX_VOICE_COUNT_def)

lemma demo_two_fields:
  "rt_voices demo_two = [zero_voice, zero_voice]" "rt_free_count demo_two = 2" "rt_free_stack demo_two = [1, 0]"
  "rt_active_count demo_two = 0" "rt_active_voice_indices demo_two = replicate 512 0"
  by (simp_all add: demo_two_def msf2_runtime_init_def MSF2_MAX_VOICE_COUNT_def upt_rec numeral_2_eq_2)

lemma demo_full_fields:
  "rt_free_count demo_full = 0" "rt_active_count demo_full = 2" "rt_active_voice_indices demo_full = (replicate 512 0)[0 := 0, 1 := 1]"
  "rt_voices demo_full = [demo_voice, demo_voice\<lparr> vs_stage := MSF2_VOICE_RELEASED, vs_allocation_stamp := 2, vs_active_position := 1 \<rparr>]"
  by (simp_all add: demo_full_def start_as_def allocate_voice_def demo_two_fields activate_voice_def Let_def set_voice_def
      demo_voice_def zero_voice_def)

theorem stolen_voice_is_oldest_of_its_stage_witness: "fst (allocate_voice demo_full) = 1"
proof -
  have pool: "pool_ok [] demo_full"
    unfolding demo_full_def
    by (intro start_as_pool runtime_okD(2) [OF runtime_init_ok [OF demo_accepted demo_two_init]]) (simp_all add: demo_voice_def)
  have "take 2 ((replicate 512 0)[0 := 0, 1 := 1]) = [0, 1 :: nat]" by (simp add: numeral_eq_Suc)
  then have active: "set (take (rt_active_count demo_full) (rt_active_voice_indices demo_full)) = {0, 1}"
    by (simp only: demo_full_fields) simp
  show ?thesis
    using stolen_voice_is_oldest_of_its_stage [OF pool demo_full_fields(1) refl] unfolding active
    by (auto simp: demo_full_fields(4) demo_voice_def)
qed

end
