(* ===== verification/Midi_Policy.thy ===== *)
theory Midi_Policy
  imports Msf2_Behaviour
begin

text \<open>
  The channel policy of the firmware (\<open>src/mcu/midi_policy.c\<close>): bank and program selection, registered and
  non-registered parameters, and the operations it hands on to the SoundFont runtime. The policy and the rest of the
  firmware share one runtime, which is a field of the policy here. Null pointers have no counterpart; the count of
  started layers that note on returns through a pointer is part of its result.

  The lemmas show that every message keeps the runtime's invariant, and that the preset cache always agrees with a
  search of the image.
\<close>

section \<open>State\<close>

record midi_channel_policy =
  mp_bank :: u16
  mp_program :: u8
  mp_rpn_msb :: u8
  mp_rpn_lsb :: u8
  mp_nrpn_msb :: u8
  mp_nrpn_generator :: int
  mp_nrpn_base :: u16
  mp_data_entry_msb :: u8
  mp_data_entry_lsb :: u8
  mp_data_entry_is_nrpn :: bool

record 'c midi_policy =
  my_runtime :: "'c msf2_runtime"
  my_channels :: "midi_channel_policy list"

definition MIDI_NRPN_SF2_MSB :: u8 where "MIDI_NRPN_SF2_MSB = 120"
definition SF2_GEN_COARSE_TUNE :: u8 where "SF2_GEN_COARSE_TUNE = 51"
definition SF2_GEN_FINE_TUNE :: u8 where "SF2_GEN_FINE_TUNE = 52"
definition MIDI_PERCUSSION_CHANNEL :: u8 where "MIDI_PERCUSSION_CHANNEL = 9"
definition MIDI_PERCUSSION_BANK :: u16 where "MIDI_PERCUSSION_BANK = 128"

definition reset_policy_channel :: midi_channel_policy where
  "reset_policy_channel = \<lparr> mp_bank = 0, mp_program = 0, mp_rpn_msb = 127, mp_rpn_lsb = 127, mp_nrpn_msb = 127,
     mp_nrpn_generator = - 1, mp_nrpn_base = 0, mp_data_entry_msb = 0, mp_data_entry_lsb = 0, mp_data_entry_is_nrpn = False \<rparr>"

text \<open>A channel after a reset: the percussion channel keeps its bank.\<close>

definition default_channel :: "u8 \<Rightarrow> midi_channel_policy" where
  "default_channel channel =
     (if channel = MIDI_PERCUSSION_CHANNEL then reset_policy_channel\<lparr> mp_bank := MIDI_PERCUSSION_BANK \<rparr> else reset_policy_channel)"

definition set_policy :: "u8 \<Rightarrow> midi_channel_policy \<Rightarrow> 'c midi_policy \<Rightarrow> 'c midi_policy" where
  "set_policy channel state p = p\<lparr> my_channels := (my_channels p)[unat channel := state] \<rparr>"

definition policy_of :: "'c midi_policy \<Rightarrow> u8 \<Rightarrow> midi_channel_policy" where
  "policy_of p channel = my_channels p ! unat channel"

text \<open>An operation of the runtime, seen from the policy.\<close>

definition on_runtime :: "('c msf2_runtime \<Rightarrow> msf2_result \<times> 'c msf2_runtime) \<Rightarrow> 'c midi_policy \<Rightarrow> msf2_result \<times> 'c midi_policy" where
  "on_runtime f p = (case f (my_runtime p) of (result, r) \<Rightarrow> (result, p\<lparr> my_runtime := r \<rparr>))"

section \<open>Data entry\<close>

definition nrpn_span :: "u8 \<Rightarrow> int" where
  "nrpn_span generator =
     (if generator = 8 \<or> generator = 5 \<or> generator = 6 \<or> generator = 7 \<or> generator = 10 \<or> generator = 11 then 6000
      else if generator = 13 then 1920
      else if generator = 17 then 1000
      else if generator = 48 then 1440
      else if generator = SF2_GEN_COARSE_TUNE then 240
      else if generator = SF2_GEN_FINE_TUNE then 198
      else 0)"

definition apply_data_entry :: "u8 \<Rightarrow> 'c midi_policy \<Rightarrow> msf2_result \<times> 'c midi_policy" where
  "apply_data_entry channel p =
     (let state = policy_of p channel;
          data14 = push_bit 7 (ucast (mp_data_entry_msb state)) OR ucast (mp_data_entry_lsb state) :: u16
      in if mp_data_entry_is_nrpn state \<and> mp_nrpn_msb state = MIDI_NRPN_SF2_MSB \<and> 0 \<le> mp_nrpn_generator state \<and>
            mp_nrpn_generator state < int MSF2_GENERATOR_COUNT
         then
           (let span = nrpn_span (of_int (mp_nrpn_generator state))
            in if span \<noteq> 0
               then on_runtime (msf2_runtime_set_generator_offset channel (of_int (mp_nrpn_generator state))
                      (i32 ((uint data14 - 8192) * span * 65536 sdiv 8192))) p
               else (MSF2_OK, p))
         else if \<not> mp_data_entry_is_nrpn state \<and> mp_rpn_msb state = 0 \<and> mp_rpn_lsb state = 0
         then on_runtime (msf2_runtime_set_pitch_bend_range channel (mp_data_entry_msb state)
                (if mp_data_entry_lsb state > 99 then 99 else mp_data_entry_lsb state)) p
         else if \<not> mp_data_entry_is_nrpn state \<and> mp_rpn_msb state = 0 \<and> mp_rpn_lsb state = 1
         then on_runtime (msf2_runtime_set_generator_offset channel SF2_GEN_FINE_TUNE
                (i32 ((uint data14 - 8192) * 100 * 65536 sdiv 8192))) p
         else if \<not> mp_data_entry_is_nrpn state \<and> mp_rpn_msb state = 0 \<and> mp_rpn_lsb state = 2
         then on_runtime (msf2_runtime_set_generator_offset channel SF2_GEN_COARSE_TUNE
                ((uint (mp_data_entry_msb state) - 64) * 100 * 65536)) p
         else (MSF2_OK, p))"

section \<open>Operations\<close>

definition midi_policy_init :: "'c msf2_runtime \<Rightarrow> 'c midi_policy" where
  "midi_policy_init r = \<lparr> my_runtime = r, my_channels =
     (replicate MSF2_CHANNEL_COUNT reset_policy_channel)[unat MIDI_PERCUSSION_CHANNEL := default_channel MIDI_PERCUSSION_CHANNEL] \<rparr>"

definition midi_policy_note_on ::
    "'c command_sink \<Rightarrow> u8 \<Rightarrow> u8 \<Rightarrow> u8 \<Rightarrow> 'c midi_policy \<Rightarrow> (msf2_result \<times> nat \<times> 'c midi_policy) option" where
  "midi_policy_note_on sink channel key velocity p =
     (if \<not> channel_ok channel then Some (MSF2_ERR_ARGUMENT, 0, p)
      else map_option (\<lambda>(result, started, r). (result, started, p\<lparr> my_runtime := r \<rparr>))
             (msf2_runtime_note_on sink channel (ucast (mp_program (policy_of p channel)))
               (if channel = MIDI_PERCUSSION_CHANNEL then MIDI_PERCUSSION_BANK else mp_bank (policy_of p channel))
               key velocity (my_runtime p)))"

definition midi_policy_note_off :: "'c command_sink \<Rightarrow> u8 \<Rightarrow> u8 \<Rightarrow> 'c midi_policy \<Rightarrow> msf2_result \<times> 'c midi_policy" where
  "midi_policy_note_off sink channel key p = on_runtime (msf2_runtime_note_off sink channel key) p"

text \<open>The fields a controller sets, for the controllers that end with success.\<close>

definition controller_state :: "u8 \<Rightarrow> u8 \<Rightarrow> u8 \<Rightarrow> midi_channel_policy \<Rightarrow> midi_channel_policy" where
  "controller_state channel controller v state =
     (if controller = 0 then
        (if channel \<noteq> MIDI_PERCUSSION_CHANNEL then state\<lparr> mp_bank := push_bit 7 (ucast v) OR (mp_bank state AND 0x007f) \<rparr> else state)
      else if controller = 32 then
        (if channel \<noteq> MIDI_PERCUSSION_CHANNEL then state\<lparr> mp_bank := (mp_bank state AND 0x3f80) OR ucast v \<rparr> else state)
      else if controller = 98 then
        state\<lparr> mp_nrpn_generator := (if v < 100 then uint (mp_nrpn_base state + ucast v) else - 1),
               mp_nrpn_base := (if v = 100 then 100 else if v = 101 then 1000 else if v = 102 then 10000
                                else if v < 100 then 0 else mp_nrpn_base state),
               mp_data_entry_is_nrpn := True \<rparr>
      else if controller = 99 then
        state\<lparr> mp_nrpn_msb := v, mp_data_entry_is_nrpn := True,
               mp_nrpn_generator := (if v \<noteq> MIDI_NRPN_SF2_MSB then - 1 else mp_nrpn_generator state) \<rparr>
      else if controller = 100 then state\<lparr> mp_rpn_lsb := v, mp_data_entry_is_nrpn := False \<rparr>
      else if controller = 101 then state\<lparr> mp_rpn_msb := v, mp_data_entry_is_nrpn := False \<rparr>
      else if controller = 121 then default_channel channel
      else state)"

text \<open>The fields set by the controllers that go on to data entry.\<close>

definition data_entry_state :: "u8 \<Rightarrow> u8 \<Rightarrow> midi_channel_policy \<Rightarrow> midi_channel_policy" where
  "data_entry_state controller v state =
     (if controller = 6 then state\<lparr> mp_data_entry_msb := v \<rparr>
      else if controller = 38 then state\<lparr> mp_data_entry_lsb := v \<rparr>
      else if controller = 96 then (if mp_data_entry_msb state < 127 then state\<lparr> mp_data_entry_msb := mp_data_entry_msb state + 1 \<rparr> else state)
      else (if mp_data_entry_msb state > 0 then state\<lparr> mp_data_entry_msb := mp_data_entry_msb state - 1 \<rparr> else state))"

definition midi_policy_control_change :: "'c command_sink \<Rightarrow> u8 \<Rightarrow> u8 \<Rightarrow> u8 \<Rightarrow> 'c midi_policy \<Rightarrow> msf2_result \<times> 'c midi_policy" where
  "midi_policy_control_change sink channel controller v p =
     (if \<not> channel_ok channel \<or> controller > 127 \<or> v > 127 then (MSF2_ERR_ARGUMENT, p)
      else
        (case on_runtime (msf2_runtime_control_change sink channel controller v) p of
           (MSF2_OK, p1) \<Rightarrow>
             if controller = 6 \<or> controller = 38 \<or> controller = 96 \<or> controller = 97
             then apply_data_entry channel (set_policy channel (data_entry_state controller v (policy_of p1 channel)) p1)
             else (MSF2_OK, set_policy channel (controller_state channel controller v (policy_of p1 channel)) p1)
         | (e, p1) \<Rightarrow> (e, p1)))"

definition midi_policy_program_change :: "u8 \<Rightarrow> u8 \<Rightarrow> 'c midi_policy \<Rightarrow> msf2_result \<times> 'c midi_policy" where
  "midi_policy_program_change channel program p =
     (if \<not> channel_ok channel \<or> program > 127 then (MSF2_ERR_ARGUMENT, p)
      else (MSF2_OK, set_policy channel ((policy_of p channel)\<lparr> mp_program := program \<rparr>) p))"

fun reset_channels :: "'c command_sink \<Rightarrow> u8 list \<Rightarrow> 'c midi_policy \<Rightarrow> msf2_result \<times> 'c midi_policy" where
  "reset_channels sink [] p = (MSF2_OK, p)"
| "reset_channels sink (channel # cs) p =
     (case on_runtime (msf2_runtime_all_sound_off sink channel) p of
        (MSF2_OK, p1) \<Rightarrow>
          (case on_runtime (msf2_runtime_reset_controllers sink channel) p1 of
             (MSF2_OK, p2) \<Rightarrow> reset_channels sink cs (set_policy channel (default_channel channel) p2)
           | (e, p2) \<Rightarrow> (e, p2))
      | (e, p1) \<Rightarrow> (e, p1))"

definition midi_policy_system_reset :: "'c command_sink \<Rightarrow> 'c midi_policy \<Rightarrow> msf2_result \<times> 'c midi_policy" where
  "midi_policy_system_reset sink p = reset_channels sink (map of_nat [0..<MSF2_CHANNEL_COUNT]) p"

definition midi_policy_release_all :: "'c command_sink \<Rightarrow> 'c midi_policy \<Rightarrow> msf2_result \<times> 'c midi_policy" where
  "midi_policy_release_all sink p = on_runtime (msf2_runtime_release_all sink) p"

section \<open>The preset cache\<close>

text \<open>Only the lookup of a note changes the cache.\<close>

definition cache_part :: "'c msf2_runtime \<Rightarrow> msf2_preset_cache_entry list \<times> msf2_view \<times> nat" where
  "cache_part r = (rt_preset_cache r, rt_view r, rt_voice_capacity r)"

lemma cache_part_gentle: "gentle r r' \<Longrightarrow> cache_part r' = cache_part r"
  by (simp add: gentle_def pool_part_def cache_part_def)

lemma cache_part_simps [simp]:
  "cache_part (set_voice v x r) = cache_part r" "cache_part (update_stats f r) = cache_part r"
  "cache_part (snd (emit_command sink w r)) = cache_part r" "cache_part (abandon_unpublished_voice v r) = cache_part r"
  "cache_part (activate_voice v r) = cache_part r" "cache_part (reclaim_voice v r) = cache_part r"
  "cache_part (r\<lparr> rt_allocation_stamp := n \<rparr>) = cache_part r" "cache_part (r\<lparr> rt_next_note_instance := n \<rparr>) = cache_part r"
  by (simp_all add: cache_part_def set_voice_def update_stats_def emit_command_keeps abandon_unpublished_voice_def
      activate_voice_def reclaim_voice_def Let_def)

lemma allocate_cache [simp]: "cache_part (snd (allocate_voice r)) = cache_part r"
proof -
  have "cache_part (q\<lparr> rt_free_count := n \<rparr>) = cache_part q" for q :: "'a msf2_runtime" and n by (simp add: cache_part_def)
  then show ?thesis by (simp add: allocate_voice_def Let_def)
qed

lemma publish_cache: "cache_part (snd (publish_voice sink v params r)) = cache_part r"
proof -
  have "cache_part (snd (case emit_command sink w r of
             (MSF2_OK, r1) \<Rightarrow> (MSF2_OK, update_stats f (activate_voice v r1))
           | (e, r1) \<Rightarrow> (e, abandon_unpublished_voice v r1))) = cache_part r" for w f
    using cache_part_simps(3) [of sink w r] by (cases "emit_command sink w r") (auto split: msf2_result.split)
  then show ?thesis by (auto simp: publish_voice_def split: sum.split)
qed

lemma start_layer_cache: "start_layer sink channel note velocity preset inst layer r = Some (e, r') \<Longrightarrow> cache_part r' = cache_part r"
proof -
  obtain zone gen presence where l: "layer = (zone, gen, presence)" by (cases layer)
  obtain v r1 where a: "allocate_voice r = (v, r1)" by (cases "allocate_voice r")
  have c: "cache_part r1 = cache_part r" using allocate_cache [of r] a by simp
  have p: "publish_voice sink v params q = (e, r') \<Longrightarrow> cache_part r' = cache_part q" for params and q
    using publish_cache [of sink v params q] by simp
  assume s: "start_layer sink channel note velocity preset inst layer r = Some (e, r')"
  then obtain m where m: "materialize_note_decoded (rt_view r) zone note gen presence = Some m"
    by (auto simp: start_layer_def l a Let_def bind_eq_Some_conv)
  show ?thesis using s c m by (cases m) (auto simp: start_layer_def l a Let_def bind_eq_Some_conv dest!: p)
qed

lemma start_layers_cache:
  "start_layers sink channel note velocity preset inst ls n r = Some (e, m, r') \<Longrightarrow> cache_part r' = cache_part r"
proof (induction ls arbitrary: n r)
  case (Cons l ls)
  obtain x where x: "start_layer sink channel note velocity preset inst l r = Some x"
    using Cons.prems by (auto simp: bind_eq_Some_conv)
  obtain e1 r1 where e1: "x = (e1, r1)" by (cases x)
  have "cache_part r1 = cache_part r" using start_layer_cache x e1 by blast
  then show ?case using Cons x e1 by (cases e1) auto
qed simp

lemma note_on_preset_cache:
  assumes "pool_ok [] r" and "note_on_preset sink channel note velocity preset r = Some (e, n, r')"
  shows "cache_part r' = cache_part r"
proof -
  have choke: "choke_layers sink preset ls r = (e1, r1) \<Longrightarrow> cache_part r1 = cache_part r" for ls e1 r1
    using cache_part_gentle [OF gentle_choke_layers [OF assms(1), of sink preset ls]] by simp
  obtain l where l: "msf2_collect_layers (rt_view r) preset note velocity = Some l"
    using assms(2) by (auto simp: note_on_preset_def bind_eq_Some_conv)
  show ?thesis
  proof (cases "\<exists>zones. l = Inr zones \<and> zones \<noteq> []")
    case True
    then obtain zones where z: "l = Inr zones" "zones \<noteq> []" by blast
    obtain d where d: "decode_layers (rt_view r) zones = Some d"
      using assms(2) l z by (auto simp: note_on_preset_def bind_eq_Some_conv)
    obtain e1 r1 where c: "choke_layers sink preset (projr d) r = (e1, r1)" by (cases "choke_layers sink preset (projr d) r")
    show ?thesis
      using assms(2) l z d choke [OF c] c by (cases d; cases e1) (auto simp: note_on_preset_def dest!: start_layers_cache)
  qed (use assms(2) l in \<open>cases l; auto simp: note_on_preset_def unmapped_note_def\<close>)
qed

text \<open>The cache never lies about a program that fits in its entries.\<close>

definition cache_true :: "'c msf2_runtime \<Rightarrow> bool" where
  "cache_true r \<longleftrightarrow> list_all (\<lambda>e. pe_valid e \<longrightarrow>
     msf2_find_preset (rt_view r) (ucast (pe_program e)) (pe_bank e) = Some (pe_preset_index e)) (rt_preset_cache r)"

lemma cache_true_part: "cache_part r' = cache_part r \<Longrightarrow> cache_true r' = cache_true r"
  by (simp add: cache_true_def cache_part_def)

lemma narrow_program [simp]: "ucast (ucast (program :: u8) :: u16) = program"
  by (rule bit_word_eqI) (simp add: bit_simps)

lemma cached_preset_true:
  assumes "runtime_ok r" and "cache_true r"
  obtains i c where "cached_preset_index (ucast (program :: u8)) bank r = Some (i, r\<lparr> rt_preset_cache := c \<rparr>)"
    and "msf2_find_preset (rt_view r) (ucast program) bank = Some i" and "cache_true (r\<lparr> rt_preset_cache := c \<rparr>)"
proof -
  define slot where "slot = unat (((ucast bank :: u32) * 131 + ucast (ucast program :: u16)) AND 15)"
  define e where "e = rt_preset_cache r ! slot"
  have "((ucast bank :: u32) * 131 + ucast (ucast program :: u16)) AND 15 \<le> 15" by (rule word_and_le1)
  then have slot: "slot < length (rt_preset_cache r)"
    using runtime_okD(3) [OF assms(1)] by (simp add: slot_def word_le_nat_alt cache_ok_def)
  obtain j where j: "msf2_find_preset (rt_view r) (ucast program) bank = Some j"
    using find_preset_total [of "rt_view r" "ucast program" bank] assms(1) by (auto simp: runtime_ok_def ready_def)
  show ?thesis
  proof (cases "pe_valid e \<and> ucast (pe_program e) = (ucast program :: u16) \<and> pe_bank e = bank")
    case True
    then have "msf2_find_preset (rt_view r) (ucast program) bank = Some (pe_preset_index e)"
      using assms(2) slot by (auto simp: cache_true_def e_def list_all_length)
    then show ?thesis
      using True that [of "pe_preset_index e" "rt_preset_cache r"] assms(2)
      by (simp add: cached_preset_index_def slot_def [symmetric] e_def [symmetric] Let_def)
  next
    case False
    let ?c = "(rt_preset_cache r)[slot := \<lparr> pe_preset_index = j, pe_bank = bank, pe_program = program, pe_valid = True \<rparr>]"
    have "cache_true (r\<lparr> rt_preset_cache := ?c \<rparr>)"
      using assms(2) j by (auto simp: cache_true_def list_all_iff dest!: set_update_memD)
    then show ?thesis
      using False j that [of j ?c]
      by (auto simp: cached_preset_index_def slot_def [symmetric] e_def [symmetric] Let_def)
  qed
qed

section \<open>Results of the runtime when the sink accepts\<close>

lemma each_active_result: "(\<And>v q. fst (f v q) = MSF2_OK) \<Longrightarrow> fst (each_active f as r) = MSF2_OK"
proof (induction as arbitrary: r)
  case (Cons a as)
  obtain q where "f (rt_active_voice_indices r ! a) r = (MSF2_OK, q)"
    using Cons.prems [of "rt_active_voice_indices r ! a" r] by (cases "f (rt_active_voice_indices r ! a) r") auto
  then show ?case using Cons by simp
qed simp

lemma accepted_results:
  assumes "accepts sink"
  shows "fst (release_voice_fw sink v r) = MSF2_OK" "fst (stop_voice_fw sink v r) = MSF2_OK"
    "fst (release_deferred_voices sink channel r) = MSF2_OK"
    "channel_ok channel \<Longrightarrow> fst (msf2_runtime_all_sound_off sink channel r) = MSF2_OK"
    "channel_ok channel \<Longrightarrow> fst (msf2_runtime_all_notes_off sink channel r) = MSF2_OK"
    "channel_ok channel \<Longrightarrow> fst (msf2_runtime_reset_controllers sink channel r) = MSF2_OK"
proof -
  show release: "fst (release_voice_fw sink v r) = MSF2_OK" for v r using release_accepted [OF assms, of v r] by auto
  show stop: "fst (stop_voice_fw sink v r) = MSF2_OK" for v r
    by (simp add: stop_voice_fw_def emit_short_def emit_accepted [OF assms])
  show deferred: "fst (release_deferred_voices sink channel r) = MSF2_OK" for r
    unfolding release_deferred_voices_def for_active_def
    by (rule each_active_result) (simp add: release_deferred_voice_def Let_def release)
  show "fst (msf2_runtime_all_sound_off sink channel r) = MSF2_OK" if "channel_ok channel"
    using that unfolding msf2_runtime_all_sound_off_def for_active_def
    by (auto intro!: each_active_result simp: all_sound_off_voice_def stop)
  show "fst (msf2_runtime_all_notes_off sink channel r) = MSF2_OK" if "channel_ok channel"
    using that unfolding msf2_runtime_all_notes_off_def for_active_def
    by (auto intro!: each_active_result simp: all_notes_off_voice_def Let_def release)
  show "fst (msf2_runtime_reset_controllers sink channel r) = MSF2_OK" if "channel_ok channel"
    using that by (simp add: msf2_runtime_reset_controllers_def Let_def deferred)
qed

lemma mark_after_result: "fst (mark_after channel x) = fst x"
  by (cases x; cases "fst x") (auto simp: mark_after_def)

lemma control_change_accepted:
  assumes "accepts sink" and "channel_ok channel" and "controller \<le> 127" and "v \<le> 127"
  shows "fst (msf2_runtime_control_change sink channel controller v r) = MSF2_OK"
  using assms accepted_results [OF assms(1)]
  by (auto simp: msf2_runtime_control_change_def Let_def mark_after_result sustain_change_def sostenuto_change_def not_less)

text \<open>Controllers that only store a value need no sink.\<close>

lemma plain_controller:
  assumes "channel_ok channel" and "controller < 120" and "controller \<noteq> 64" and "controller \<noteq> 66" and "controller \<noteq> 67" and "v \<le> 127"
  shows "msf2_runtime_control_change sink channel controller v r =
    (MSF2_OK, update_channel (unat channel) (mark_channel_dirty MSF2_CONTROL_GROUP_ALL)
       (update_channel (unat channel) (\<lambda>c. c\<lparr> cs_cc := (cs_cc c)[unat controller := v] \<rparr>) r))"
proof -
  have "\<not> controller > 127" "\<not> controller \<ge> 123" "controller \<noteq> 120" "controller \<noteq> 121"
    using assms(2) by (auto simp: not_less not_le word_less_nat_alt word_le_nat_alt)
  then show ?thesis using assms by (simp add: msf2_runtime_control_change_def Let_def mark_after_def not_less)
qed

section \<open>Messages in any order\<close>

datatype policy_event =
    Policy_Note_On u8 u8 u8
  | Policy_Note_Off u8 u8
  | Policy_Control u8 u8 u8
  | Policy_Program u8 u8
  | Policy_System_Reset
  | Policy_Release_All
  | Policy_Runtime runtime_event

text \<open>What the firmware does to the runtime without the policy; notes always go through it.\<close>

fun bypasses :: "runtime_event \<Rightarrow> bool" where
  "bypasses (Note_On channel program bank key velocity) = False"
| "bypasses e = True"

fun policy_allowed :: "policy_event \<Rightarrow> bool" where
  "policy_allowed (Policy_Runtime e) = bypasses e"
| "policy_allowed e = True"

fun policy_event_step :: "'c command_sink \<Rightarrow> policy_event \<Rightarrow> 'c midi_policy \<Rightarrow> 'c midi_policy option" where
  "policy_event_step sink (Policy_Note_On channel key velocity) p = map_option (snd \<circ> snd) (midi_policy_note_on sink channel key velocity p)"
| "policy_event_step sink (Policy_Note_Off channel key) p = Some (snd (midi_policy_note_off sink channel key p))"
| "policy_event_step sink (Policy_Control channel controller v) p = Some (snd (midi_policy_control_change sink channel controller v p))"
| "policy_event_step sink (Policy_Program channel program) p = Some (snd (midi_policy_program_change channel program p))"
| "policy_event_step sink Policy_System_Reset p = Some (snd (midi_policy_system_reset sink p))"
| "policy_event_step sink Policy_Release_All p = Some (snd (midi_policy_release_all sink p))"
| "policy_event_step sink (Policy_Runtime e) p = map_option (\<lambda>r. p\<lparr> my_runtime := r \<rparr>) (handle_event sink e (my_runtime p))"

fun policy_run :: "'c command_sink \<Rightarrow> policy_event list \<Rightarrow> 'c midi_policy \<Rightarrow> 'c midi_policy option" where
  "policy_run sink [] p = Some p"
| "policy_run sink (e # es) p = do { p1 \<leftarrow> policy_event_step sink e p; policy_run sink es p1 }"

definition policy_ok :: "msf2_view \<Rightarrow> nat \<Rightarrow> 'c midi_policy \<Rightarrow> bool" where
  "policy_ok vw n p \<longleftrightarrow> rt_view (my_runtime p) = vw \<and> rt_voice_capacity (my_runtime p) = n \<and> runtime_ok (my_runtime p) \<and> cache_true (my_runtime p) \<and> length (my_channels p) = 16"

lemma on_runtime_simps [simp]:
  "fst (on_runtime f p) = fst (f (my_runtime p))" "my_runtime (snd (on_runtime f p)) = snd (f (my_runtime p))"
  "my_channels (snd (on_runtime f p)) = my_channels p" "policy_of (snd (on_runtime f p)) = policy_of p"
  by (simp_all add: on_runtime_def policy_of_def fun_eq_iff split: prod.split)

lemma set_policy_simps [simp]:
  "my_runtime (set_policy channel x p) = my_runtime p" "length (my_channels (set_policy channel x p)) = length (my_channels p)"
  by (simp_all add: set_policy_def)

lemma policy_ok_set [simp]: "policy_ok vw n (set_policy channel x p) = policy_ok vw n p"
  by (simp add: policy_ok_def)

lemma policy_ok_gentle:
  assumes "policy_ok vw n p" and "gentle (my_runtime p) (my_runtime p')" and "length (my_channels p') = length (my_channels p)"
  shows "policy_ok vw n p'"
  using assms runtime_ok_gentle [OF assms(2)] cache_true_part [OF cache_part_gentle [OF assms(2)]] cache_part_gentle [OF assms(2)]
  by (simp add: policy_ok_def cache_part_def)

lemma policy_ok_pool: "policy_ok vw n p \<Longrightarrow> pool_ok [] (my_runtime p)"
  by (simp add: policy_ok_def runtime_ok_def)

lemma on_runtime_ok: "policy_ok vw n p \<Longrightarrow> gentle (my_runtime p) (snd (f (my_runtime p))) \<Longrightarrow> policy_ok vw n (snd (on_runtime f p))"
  by (rule policy_ok_gentle) simp_all

lemma apply_data_entry_ok: "policy_ok vw n p \<Longrightarrow> policy_ok vw n (snd (apply_data_entry channel p))"
  by (auto simp: apply_data_entry_def Let_def gentle_setters intro!: on_runtime_ok)

lemma control_change_ok:
  assumes "policy_ok vw n p"
  shows "policy_ok vw n (snd (midi_policy_control_change sink channel controller v p))"
proof -
  have "policy_ok vw n (snd (on_runtime (msf2_runtime_control_change sink channel controller v) p))"
    by (rule on_runtime_ok [OF assms]) (rule gentle_control_change [OF policy_ok_pool [OF assms]])
  then show ?thesis
    using assms by (simp add: midi_policy_control_change_def case_result apply_data_entry_ok)
qed

lemma reset_channels_ok: "policy_ok vw n p \<Longrightarrow> policy_ok vw n (snd (reset_channels sink cs p))"
proof (induction cs arbitrary: p)
  case (Cons c cs)
  have off: "policy_ok vw n (snd (on_runtime (msf2_runtime_all_sound_off sink c) p))"
    by (rule on_runtime_ok [OF Cons.prems]) (rule gentle_all_sound_off [OF policy_ok_pool [OF Cons.prems]])
  then have "policy_ok vw n (snd (on_runtime (msf2_runtime_reset_controllers sink c) (snd (on_runtime (msf2_runtime_all_sound_off sink c) p))))"
    by (rule on_runtime_ok) (simp_all add: off gentle_reset_controllers policy_ok_pool [OF off, simplified])
  then show ?case using off Cons.IH by (simp add: case_result)
qed simp

lemma runtime_result:
  "map_option (\<lambda>(result, started, r). (result, started, p\<lparr> my_runtime := r \<rparr>)) m = Some (e, n, p\<lparr> my_runtime := r' \<rparr>) \<longleftrightarrow>
     m = Some (e, n, r')"
proof -
  have "p\<lparr> my_runtime := r \<rparr> = p\<lparr> my_runtime := r' \<rparr> \<Longrightarrow> r = r'" for r
    by (drule arg_cong [where f = my_runtime]) simp
  then show ?thesis by (cases m) auto
qed

text \<open>A note on looks its preset up and goes on with it.\<close>

lemma policy_note_on_shape:
  assumes "policy_ok vw n p" and "channel_ok channel" and "key \<le> 127" and "velocity \<le> 127" and "velocity \<noteq> 0"
  obtains i c r where "r = (my_runtime p)\<lparr> rt_preset_cache := c, rt_stats := (rt_stats (my_runtime p))\<lparr>
        st_note_ons := st_note_ons (rt_stats (my_runtime p)) + 1 \<rparr> \<rparr>"
    and "msf2_find_preset (rt_view (my_runtime p)) (ucast (mp_program (policy_of p channel)))
        (if channel = MIDI_PERCUSSION_CHANNEL then MIDI_PERCUSSION_BANK else mp_bank (policy_of p channel)) = Some i"
    and "midi_policy_note_on sink channel key velocity p = map_option (\<lambda>(result, started, r). (result, started, p\<lparr> my_runtime := r \<rparr>))
        (if i < 0 then Some (MSF2_OK, 0, unmapped_note r) else note_on_preset sink channel key velocity (of_int i) r)"
    and "cache_true r" and "runtime_ok r" and "rt_view r = vw" and "rt_voice_capacity r = n"
proof -
  let ?r = "my_runtime p" and ?program = "mp_program (policy_of p channel)"
  let ?bank = "if channel = MIDI_PERCUSSION_CHANNEL then MIDI_PERCUSSION_BANK else mp_bank (policy_of p channel)"
  define r0 where "r0 = update_stats (\<lambda>s. s\<lparr> st_note_ons := st_note_ons s + 1 \<rparr>) ?r"
  have ok: "runtime_ok ?r" "cache_true ?r" using assms(1) by (simp_all add: policy_ok_def)
  have g: "gentle ?r r0" unfolding r0_def by (rule gentle_update_stats) simp_all
  then have r0: "runtime_ok r0" "cache_true r0" using ok runtime_ok_gentle cache_true_part [OF cache_part_gentle] by blast+
  then obtain i c where c: "cached_preset_index (ucast ?program) ?bank r0 = Some (i, r0\<lparr> rt_preset_cache := c \<rparr>)"
      "msf2_find_preset (rt_view r0) (ucast ?program) ?bank = Some i" "cache_true (r0\<lparr> rt_preset_cache := c \<rparr>)" by (rule cached_preset_true)
  have "runtime_ok (r0\<lparr> rt_preset_cache := c \<rparr>)"
    by (rule cached_preset_ok [OF r0(1), of "ucast ?program" ?bank]) (use c(1) in simp)
  moreover have "midi_policy_note_on sink channel key velocity p = map_option (\<lambda>(result, started, r). (result, started, p\<lparr> my_runtime := r \<rparr>))
      (if i < 0 then Some (MSF2_OK, 0, unmapped_note (r0\<lparr> rt_preset_cache := c \<rparr>))
       else note_on_preset sink channel key velocity (of_int i) (r0\<lparr> rt_preset_cache := c \<rparr>))"
    using assms(2,5) c(1) leD [OF assms(3)] leD [OF assms(4)] by (simp add: midi_policy_note_on_def msf2_runtime_note_on_def r0_def [symmetric])
  moreover have "rt_view r0 = rt_view ?r" using g by (simp add: gentle_def pool_part_def)
  ultimately show ?thesis using that [of "r0\<lparr> rt_preset_cache := c \<rparr>" c i] c assms(1)
    by (simp add: r0_def update_stats_def policy_ok_def)
qed

lemma policy_note_on_ok:
  assumes "policy_ok vw n p"
  shows "\<exists>e m p'. midi_policy_note_on sink channel key velocity p = Some (e, m, p') \<and> policy_ok vw n p' \<and> my_channels p' = my_channels p"
proof -
  let ?bank = "if channel = MIDI_PERCUSSION_CHANNEL then MIDI_PERCUSSION_BANK else mp_bank (policy_of p channel)"
  obtain e m r' where on: "msf2_runtime_note_on sink channel (ucast (mp_program (policy_of p channel))) ?bank key velocity (my_runtime p) =
      Some (e, m, r')" "runtime_ok r'" using note_on_ok [of "my_runtime p"] assms unfolding policy_ok_def by meson
  have "cache_true r' \<and> rt_view r' = vw \<and> rt_voice_capacity r' = n" if ch: "channel_ok channel"
  proof (cases "key \<le> 127 \<and> velocity \<le> 127 \<and> velocity \<noteq> 0")
    case True
    then obtain i c r where r: "midi_policy_note_on sink channel key velocity p = map_option (\<lambda>(result, started, r). (result, started, p\<lparr> my_runtime := r \<rparr>))
        (if i < 0 then Some (MSF2_OK, 0, unmapped_note r) else note_on_preset sink channel key velocity (of_int i) r)"
      "cache_true r" "runtime_ok r" "rt_view r = vw" "rt_voice_capacity r = n" using policy_note_on_shape [OF assms ch, of key velocity sink] by metis
    have "midi_policy_note_on sink channel key velocity p = Some (e, m, p\<lparr> my_runtime := r' \<rparr>)"
      using on(1) ch by (simp add: midi_policy_note_on_def)
    then have "(if i < 0 then Some (MSF2_OK, 0, unmapped_note r) else note_on_preset sink channel key velocity (of_int i) r) = Some (e, m, r')"
      unfolding r(1) runtime_result .
    moreover have "cache_part (unmapped_note r) = cache_part r" by (simp add: unmapped_note_def)
    ultimately have "cache_part r' = cache_part r"
      using note_on_preset_cache [OF runtime_okD(2) [OF r(3)], of sink channel key velocity "of_int i" e m r'] by (auto split: if_splits)
    then show ?thesis using r(2,4,5) cache_true_part by (auto simp: cache_part_def)
  next
    case False
    have "cache_part (snd (msf2_runtime_note_off sink channel key (my_runtime p))) = cache_part (my_runtime p)"
      by (rule cache_part_gentle [OF gentle_note_off [OF policy_ok_pool [OF assms]]])
    then have "cache_true (snd (msf2_runtime_note_off sink channel key (my_runtime p))) \<and>
        rt_view (snd (msf2_runtime_note_off sink channel key (my_runtime p))) = vw \<and>
        rt_voice_capacity (snd (msf2_runtime_note_off sink channel key (my_runtime p))) = n"
      using cache_true_part [of "snd (msf2_runtime_note_off sink channel key (my_runtime p))" "my_runtime p"] assms
      by (simp add: policy_ok_def cache_part_def)
    then show ?thesis
      using False on(1) assms by (auto simp: msf2_runtime_note_on_def policy_ok_def not_less split: if_splits prod.splits)
  qed
  then show ?thesis using on assms by (auto simp: midi_policy_note_on_def policy_ok_def)
qed

lemma bypass_cache:
  assumes "runtime_ok r" and "bypasses e" and "handle_event sink e r = Some r'"
  shows "cache_part r' = cache_part r"
proof -
  note p = runtime_okD(2) [OF assms(1)]
  have runs: "runs r m \<Longrightarrow> map_option snd m = Some r' \<Longrightarrow> cache_part r' = cache_part r" for m
    by (auto simp: runs_def dest: cache_part_gentle)
  show ?thesis
  proof (cases e)
    case (Advance_Samples n)
    then show ?thesis using runs [OF advance_samples_runs [OF assms(1)]] assms(3) by simp
  next
    case Control_Tick
    then show ?thesis using runs [OF advance_samples_runs [OF assms(1)]] assms(3) by (simp add: msf2_runtime_control_tick_def)
  next
    case (Advance_Control n)
    have "runs r (msf2_runtime_advance_control sink n r)"
      using control_tick_runs [OF assms(1)] by (simp add: msf2_runtime_advance_control_def runsI)
    then show ?thesis using Advance_Control runs assms(3) by simp
  next
    case (Control_Slice voices first_voice n ticks)
    then show ?thesis using runs [OF advance_slice_runs [OF assms(1)]] assms(3) by simp
  next
    case (Complete_Voice v)
    then show ?thesis using assms(3) by (auto simp: msf2_runtime_complete_voice_def)
  qed (use assms(2,3) in \<open>auto intro!: cache_part_gentle simp: gentle_note_off [OF p] gentle_control_change [OF p] gentle_setters
      gentle_complete_control gentle_periodic gentle_all_sound_off [OF p] gentle_all_notes_off [OF p] gentle_release_all [OF p]
      gentle_reset_controllers [OF p]\<close>)
qed

lemma policy_event_ok:
  assumes "policy_ok vw n p" and "policy_allowed e"
  shows "\<exists>p'. policy_event_step sink e p = Some p' \<and> policy_ok vw n p'"
proof (cases e)
  case (Policy_Note_On channel key velocity)
  then show ?thesis using policy_note_on_ok [OF assms(1)] by fastforce
next
  case (Policy_Runtime ev)
  obtain r where r: "handle_event sink ev (my_runtime p) = Some r" "runtime_ok r"
    using handle_event_ok [of "my_runtime p"] assms(1) by (auto simp: policy_ok_def)
  then have "cache_part r = cache_part (my_runtime p)" using bypass_cache [of "my_runtime p" ev sink r] assms Policy_Runtime by (simp add: policy_ok_def)
  then have "cache_true r" "rt_view r = vw" "rt_voice_capacity r = n" using assms(1) cache_true_part [of r "my_runtime p"] by (simp_all add: policy_ok_def cache_part_def)
  then show ?thesis using r assms(1) Policy_Runtime by (simp add: policy_ok_def)
qed (use assms(1) in \<open>simp_all add: midi_policy_note_off_def midi_policy_release_all_def midi_policy_system_reset_def
    control_change_ok reset_channels_ok midi_policy_program_change_def on_runtime_ok gentle_note_off gentle_release_all policy_ok_pool\<close>)

lemma policy_run_ok: "policy_ok vw n p \<Longrightarrow> list_all policy_allowed es \<Longrightarrow> \<exists>p'. policy_run sink es p = Some p' \<and> policy_ok vw n p'"
proof (induction es arbitrary: p)
  case (Cons e es)
  then show ?case using policy_event_ok [OF Cons.prems(1), of e sink] by auto
qed simp

lemma policy_init_ok:
  assumes "msf2_view_init d = Some (Inr vw)" and "msf2_runtime_init vw capacity context = Inr r"
  shows "policy_ok vw capacity (midi_policy_init r)"
proof -
  have "rt_preset_cache r = replicate 16 zero_cache_entry" "rt_view r = vw" "rt_voice_capacity r = capacity"
    using assms(2) by (auto simp: msf2_runtime_init_def split: if_splits)
  moreover from this have "cache_true r" by (simp add: cache_true_def zero_cache_entry_def list_all_iff)
  ultimately show ?thesis using runtime_init_ok [OF assms] by (simp add: policy_ok_def midi_policy_init_def MSF2_CHANNEL_COUNT_def)
qed

end
