(* ===== verification/Midi_Parameters.thy ===== *)
theory Midi_Parameters
  imports Midi_Policy
begin

text \<open>
  What the channel policy of \<open>Midi_Policy\<close> makes of the messages of a channel: the preset its notes play, and the
  parameters that registered and non-registered parameter messages set.
\<close>

section \<open>Bank and program\<close>

text \<open>What a musician expects of bank and program selection, from the messages alone: a program, and the two halves of
  a bank. A reset, of the channel or of the system, selects program and bank zero.\<close>

type_synonym selection = "u8 \<times> u8 \<times> u8"

fun select :: "u8 \<Rightarrow> policy_event \<Rightarrow> selection \<Rightarrow> selection" where
  "select channel (Policy_Program c program) (old, msb, lsb) =
     (if c = channel \<and> program \<le> 127 then (program, msb, lsb) else (old, msb, lsb))"
| "select channel (Policy_Control c controller v) (old, msb, lsb) =
     (if c \<noteq> channel \<or> v > 127 then (old, msb, lsb)
      else if controller = 0 then (old, v, lsb)
      else if controller = 32 then (old, msb, v)
      else if controller = 121 then (0, 0, 0)
      else (old, msb, lsb))"
| "select channel Policy_System_Reset s = (0, 0, 0)"
| "select channel e s = s"

definition selected :: "u8 \<Rightarrow> policy_event list \<Rightarrow> selection" where
  "selected channel es = fold (select channel) es (0, 0, 0)"

definition selected_bank :: "u8 \<Rightarrow> selection \<Rightarrow> u16" where
  "selected_bank channel s = (case s of (program, msb, lsb) \<Rightarrow> if channel = 9 then 128 else ucast msb * 128 + ucast lsb)"

text \<open>A channel of the policy holds a selection.\<close>

definition holds_selection :: "u8 \<Rightarrow> midi_channel_policy \<Rightarrow> selection \<Rightarrow> bool" where
  "holds_selection channel state s \<longleftrightarrow> (case s of (program, msb, lsb) \<Rightarrow>
     mp_program state = program \<and> msb \<le> 127 \<and> lsb \<le> 127 \<and> (channel \<noteq> 9 \<longrightarrow> mp_bank state = push_bit 7 (ucast msb) OR ucast lsb))"

lemma small_byte: "v \<le> 127 \<Longrightarrow> bit v n \<Longrightarrow> n < 7" for v :: u8
proof -
  assume "v \<le> 127" and b: "bit v n"
  then have "unat v mod 128 = unat v" by (simp add: word_le_nat_alt)
  then have "take_bit 7 v = v" by (simp add: take_bit_eq_mod word_unat_eq_iff unat_mod_distrib)
  then show "n < 7" using b by (metis bit_take_bit_iff)
qed

lemma bank_halves:
  fixes msb lsb :: u8
  assumes "msb \<le> 127" and "lsb \<le> 127"
  shows "(push_bit 7 (ucast msb) OR ucast lsb) AND 0x007f = (ucast lsb :: u16)"
    "(push_bit 7 (ucast msb) OR ucast lsb) AND 0x3f80 = (push_bit 7 (ucast msb) :: u16)"
    "push_bit 7 (ucast msb) OR ucast lsb = (ucast msb * 128 + ucast lsb :: u16)"
proof -
  note small = small_byte [OF assms(1)] small_byte [OF assms(2)]
  have k: "(0x007f :: u16) = mask 7" "(0x3f80 :: u16) = push_bit 7 (mask 7)" by (simp_all add: mask_eq_exp_minus_1)
  show "(push_bit 7 (ucast msb) OR ucast lsb) AND 0x007f = (ucast lsb :: u16)"
    unfolding k by (rule bit_word_eqI) (auto simp: bit_simps dest: small)
  show "(push_bit 7 (ucast msb) OR ucast lsb) AND 0x3f80 = (push_bit 7 (ucast msb) :: u16)"
    unfolding k by (rule bit_word_eqI) (auto simp: bit_simps dest: small)
  have "push_bit 7 (ucast msb) AND ucast lsb = (0 :: u16)" by (rule bit_word_eqI) (auto simp: bit_simps dest: small)
  then have "push_bit 7 (ucast msb) OR ucast lsb = (push_bit 7 (ucast msb) + ucast lsb :: u16)" by (rule disjunctive_add_eq_or [symmetric])
  then show "push_bit 7 (ucast msb) OR ucast lsb = (ucast msb * 128 + ucast lsb :: u16)" by (simp add: push_bit_eq_mult)
qed

lemma channel_ok_less: "channel_ok channel \<longleftrightarrow> channel < 16"
  by (simp add: channel_ok_def MSF2_CHANNEL_COUNT_def word_less_nat_alt)

lemma policy_of_set:
  "channel < 16 \<Longrightarrow> length (my_channels p) = 16 \<Longrightarrow> policy_of (set_policy c x p) channel = (if c = channel then x else policy_of p channel)"
  by (cases "c = channel") (simp_all add: policy_of_def set_policy_def nth_list_update_neq word_unat_eq_iff word_less_nat_alt)

lemma policy_of_runtime [simp]: "policy_of (p\<lparr> my_runtime := r \<rparr>) = policy_of p"
  by (simp add: policy_of_def fun_eq_iff)

lemma apply_data_entry_channels [simp]: "policy_of (snd (apply_data_entry channel p)) = policy_of p"
  by (simp add: apply_data_entry_def Let_def)

lemma reset_channels_accepted:
  assumes "accepts sink" and "list_all channel_ok cs" and "channel < 16" and "length (my_channels p) = 16"
  shows "policy_of (snd (reset_channels sink cs p)) channel = (if channel \<in> set cs then default_channel channel else policy_of p channel)"
  using assms(2,4)
proof (induction cs arbitrary: p)
  case (Cons c cs)
  then have "fst (msf2_runtime_all_sound_off sink c r) = MSF2_OK" "fst (msf2_runtime_reset_controllers sink c r) = MSF2_OK" for r
    using accepted_results [OF assms(1)] by simp_all
  then show ?case using Cons assms(3) by (simp add: case_result policy_of_set)
qed simp

lemma controller_selection:
  assumes "holds_selection channel state (program, msb, lsb)" and "v \<le> 127"
  shows "holds_selection channel (controller_state channel controller v state) (select channel (Policy_Control channel controller v) (program, msb, lsb))"
  using assms bank_halves [of msb lsb]
  by (auto simp: holds_selection_def controller_state_def MIDI_PERCUSSION_CHANNEL_def default_channel_def reset_policy_channel_def not_less)

lemma data_entry_selection:
  "controller = 6 \<or> controller = 38 \<or> controller = 96 \<or> controller = 97 \<Longrightarrow> v \<le> 127 \<Longrightarrow>
   holds_selection channel (data_entry_state controller v state) (select channel (Policy_Control channel controller v) s) = holds_selection channel state s"
  by (cases s) (auto simp: holds_selection_def data_entry_state_def not_less)

lemma selection_step:
  assumes "accepts sink" and "policy_ok vw n p" and "policy_event_step sink e p = Some p'" and "channel < 16"
    and "holds_selection channel (policy_of p channel) s"
  shows "holds_selection channel (policy_of p' channel) (select channel e s)"
proof -
  have len: "length (my_channels p) = 16" using assms(2) by (simp add: policy_ok_def)
  obtain program msb lsb where s: "s = (program, msb, lsb)" by (cases s)
  show ?thesis
  proof (cases e)
    case (Policy_Note_On c key velocity)
    obtain en nn pn where "midi_policy_note_on sink c key velocity p = Some (en, nn, pn)" "my_channels pn = my_channels p"
      using policy_note_on_ok [OF assms(2)] by blast
    then show ?thesis using assms Policy_Note_On by (auto simp: policy_of_def)
  next
    case (Policy_Control c controller v)
    show ?thesis
    proof (cases "channel_ok c \<and> controller \<le> 127 \<and> v \<le> 127")
      case True
      then have "fst (msf2_runtime_control_change sink c controller v (my_runtime p)) = MSF2_OK"
        using control_change_accepted [OF assms(1)] by simp
      then show ?thesis
        using True assms(3-) Policy_Control len controller_selection [of channel "policy_of p channel" program msb lsb v controller]
          data_entry_selection [of controller v channel "policy_of p channel" s] s
        by (auto simp: midi_policy_control_change_def case_result policy_of_set leD)
    next
      case False
      then have "c \<noteq> channel \<or> controller > 127 \<or> v > 127" using assms(4) channel_ok_less by (auto simp: not_le)
      moreover have "p' = p" using False assms(3) Policy_Control by (auto simp: midi_policy_control_change_def not_le)
      moreover have "controller > 127 \<Longrightarrow> controller \<noteq> 0 \<and> controller \<noteq> 32 \<and> controller \<noteq> 121" by auto
      ultimately show ?thesis using assms(5) Policy_Control s by auto
    qed
  next
    case (Policy_Program c new)
    show ?thesis
    proof (cases "channel_ok c \<and> new \<le> 127")
      case True
      then show ?thesis
        using assms(3-) Policy_Program len s by (auto simp: midi_policy_program_change_def policy_of_set leD holds_selection_def)
    next
      case False
      then have "c \<noteq> channel \<or> \<not> new \<le> 127" using assms(4) channel_ok_less by auto
      then show ?thesis using False assms(3,5) Policy_Program s by (auto simp: midi_policy_program_change_def not_le)
    qed
  next
    case Policy_System_Reset
    have "list_all channel_ok (map of_nat [0..<16] :: u8 list)" by (simp add: list_all_iff channel_ok_def MSF2_CHANNEL_COUNT_def unat_of_nat)
    moreover have "channel \<in> set (map of_nat [0..<16])"
      using assms(4) by (auto simp: word_less_nat_alt intro!: image_eqI [where x = "unat channel"])
    ultimately have "policy_of (snd (reset_channels sink (map of_nat [0..<16]) p)) channel = default_channel channel"
      using reset_channels_accepted [OF assms(1) _ assms(4) len] by (simp only: if_True)
    then have "policy_of p' channel = default_channel channel"
      using assms(3) Policy_System_Reset by (simp add: midi_policy_system_reset_def MSF2_CHANNEL_COUNT_def)
    then show ?thesis
      using Policy_System_Reset by (simp add: holds_selection_def default_channel_def reset_policy_channel_def MIDI_PERCUSSION_CHANNEL_def)
  next
    case (Policy_Runtime ev)
    then show ?thesis using assms(3,5) by auto
  qed (use assms(3,5) in \<open>auto simp: midi_policy_note_off_def midi_policy_release_all_def\<close>)
qed

lemma selection_run:
  "accepts sink \<Longrightarrow> policy_ok vw n p \<Longrightarrow> list_all policy_allowed es \<Longrightarrow> policy_run sink es p = Some p' \<Longrightarrow> channel < 16 \<Longrightarrow>
   holds_selection channel (policy_of p channel) s \<Longrightarrow> holds_selection channel (policy_of p' channel) (fold (select channel) es s)"
proof (induction es arbitrary: p s)
  case (Cons e es)
  obtain p1 where p1: "policy_event_step sink e p = Some p1" "policy_ok vw n p1" using policy_event_ok Cons.prems(2,3) by fastforce
  then show ?case
    using Cons.IH [of p1] Cons.prems selection_step [OF Cons.prems(1,2) p1(1) Cons.prems(5,6)] by simp
qed simp



section \<open>Registered and non-registered parameters\<close>

text \<open>Storing a controller leaves the parameters of the channel alone.\<close>

definition stored :: "u8 \<Rightarrow> u8 \<Rightarrow> u8 \<Rightarrow> 'c midi_policy \<Rightarrow> 'c midi_policy" where
  "stored channel controller v p = p\<lparr> my_runtime := update_channel (unat channel) (mark_channel_dirty MSF2_CONTROL_GROUP_ALL)
     (update_channel (unat channel) (\<lambda>c. c\<lparr> cs_cc := (cs_cc c)[unat controller := v] \<rparr>) (my_runtime p)) \<rparr>"

definition bend_range :: "u8 \<Rightarrow> 'c midi_policy \<Rightarrow> u8 \<times> u8" where
  "bend_range channel p = (let c = rt_channels (my_runtime p) ! unat channel in (cs_pitch_bend_range_semitones c, cs_pitch_bend_range_cents c))"

definition offset_of :: "u8 \<Rightarrow> nat \<Rightarrow> 'c midi_policy \<Rightarrow> int" where
  "offset_of channel generator p = cs_generator_offsets_q16 (rt_channels (my_runtime p) ! unat channel) ! generator"

text \<open>The channel has its 16 entries in the policy and in the runtime, and its 61 offsets.\<close>

definition shaped :: "u8 \<Rightarrow> 'c midi_policy \<Rightarrow> bool" where
  "shaped channel p \<longleftrightarrow> channel < 16 \<and> length (my_channels p) = 16 \<and> length (rt_channels (my_runtime p)) = 16 \<and>
     length (cs_generator_offsets_q16 (rt_channels (my_runtime p) ! unat channel)) = 61"

lemma shaped_ok: "policy_ok vw n p \<Longrightarrow> channel < 16 \<Longrightarrow> shaped channel p"
  by (auto simp: shaped_def policy_ok_def runtime_ok_def ready_def channels_ok_def channel_state_ok_def word_less_nat_alt)

lemma shaped_less: "shaped channel p \<Longrightarrow> unat channel < 16"
  by (simp add: shaped_def word_less_nat_alt)

lemma mark_dirty_fields [simp]:
  "cs_generator_offsets_q16 (mark_channel_dirty g c) = cs_generator_offsets_q16 c"
  "cs_pitch_bend_range_semitones (mark_channel_dirty g c) = cs_pitch_bend_range_semitones c"
  "cs_pitch_bend_range_cents (mark_channel_dirty g c) = cs_pitch_bend_range_cents c"
  by (simp_all add: mark_channel_dirty_def)

lemma stored_simps [simp]:
  "shaped channel (stored channel controller v p) = shaped channel p" "policy_of (stored channel controller v p) = policy_of p"
  by (auto simp: shaped_def stored_def update_channel_def policy_of_def fun_eq_iff word_less_nat_alt)

lemma set_policy_shaped [simp]: "shaped channel (set_policy channel x p) = shaped channel p"
  by (simp add: shaped_def)

lemma policy_of_shaped [simp]: "shaped channel p \<Longrightarrow> policy_of (set_policy channel x p) channel = x"
  by (simp add: shaped_def policy_of_set)

lemma policy_controller:
  assumes "shaped channel p" and "controller < 120" and "controller \<noteq> 64" and "controller \<noteq> 66" and "controller \<noteq> 67" and "v \<le> 127"
  shows "midi_policy_control_change sink channel controller v p =
    (if controller = 6 \<or> controller = 38 \<or> controller = 96 \<or> controller = 97
     then apply_data_entry channel (set_policy channel (data_entry_state controller v (policy_of p channel)) (stored channel controller v p))
     else (MSF2_OK, set_policy channel (controller_state channel controller v (policy_of p channel)) (stored channel controller v p)))"
proof -
  have ok: "channel_ok channel" using assms(1) by (simp add: shaped_def channel_ok_less)
  have small: "\<not> controller > 127" using assms(2) by (simp add: word_less_nat_alt not_less)
  show ?thesis
    using leD [OF assms(6)] ok small
    by (simp add: midi_policy_control_change_def on_runtime_def plain_controller [OF ok assms(2-6)] stored_def policy_of_def)
qed

lemma set_offset_shaped:
  assumes "shaped channel p" and "unat generator < 61"
  shows "fst (on_runtime (msf2_runtime_set_generator_offset channel generator x) p) = MSF2_OK"
    "shaped channel (snd (on_runtime (msf2_runtime_set_generator_offset channel generator x) p))"
    "offset_of channel (unat generator) (snd (on_runtime (msf2_runtime_set_generator_offset channel generator x) p)) = x"
  using assms shaped_less [OF assms(1)]
  by (auto simp: on_runtime_def msf2_runtime_set_generator_offset_def shaped_def channel_ok_less MSF2_GENERATOR_COUNT_def change_channel_def
      update_channel_def offset_of_def)

lemma set_range_shaped:
  assumes "shaped channel p" and "cents \<le> 99"
  shows "fst (on_runtime (msf2_runtime_set_pitch_bend_range channel semitones cents) p) = MSF2_OK"
    "shaped channel (snd (on_runtime (msf2_runtime_set_pitch_bend_range channel semitones cents) p))"
    "bend_range channel (snd (on_runtime (msf2_runtime_set_pitch_bend_range channel semitones cents) p)) = (semitones, cents)"
  using assms shaped_less [OF assms(1)] leD [OF assms(2)]
  by (auto simp: on_runtime_def msf2_runtime_set_pitch_bend_range_def shaped_def channel_ok_less change_channel_def
      update_channel_def bend_range_def)

lemma uint_data14:
  fixes msb lsb :: u8
  assumes "msb \<le> 127" and "lsb \<le> 127"
  shows "uint (push_bit 7 (ucast msb) OR ucast lsb :: u16) = 128 * uint msb + uint lsb"
proof -
  have "uint msb \<le> 127" "uint lsb \<le> 127" using assms by (simp_all add: word_le_def)
  moreover have "uint (ucast x :: u16) = uint x" for x :: u8 by (simp add: uint_up_ucast is_up)
  ultimately have "uint (ucast msb * 128 + ucast lsb :: u16) = 128 * uint msb + uint lsb"
    by (simp add: uint_word_ariths mod_pos_pos_trivial)
  then show ?thesis by (simp only: bank_halves(3) [OF assms])
qed

text \<open>The effect of a parameter number followed by its value.\<close>

definition select_rpn :: "u8 \<Rightarrow> u8 \<Rightarrow> policy_event list" where
  "select_rpn channel number = [Policy_Control channel 101 0, Policy_Control channel 100 number]"

definition select_nrpn :: "u8 \<Rightarrow> u8 \<Rightarrow> policy_event list" where
  "select_nrpn channel generator = [Policy_Control channel 99 120, Policy_Control channel 98 generator]"

definition enter_data :: "u8 \<Rightarrow> u8 \<Rightarrow> u8 \<Rightarrow> policy_event list" where
  "enter_data channel msb lsb = [Policy_Control channel 6 msb, Policy_Control channel 38 lsb]"

lemma policy_run_append: "policy_run sink (es @ fs) p = policy_run sink es p \<bind> policy_run sink fs"
proof (induction es arbitrary: p)
  case (Cons e es)
  then show ?case by (cases "policy_event_step sink e p") simp_all
qed simp

lemma select_rpn_run:
  assumes "shaped channel p" and "number \<le> 127"
  shows "\<exists>p'. policy_run sink (select_rpn channel number) p = Some p' \<and> shaped channel p' \<and>
     mp_rpn_msb (policy_of p' channel) = 0 \<and> mp_rpn_lsb (policy_of p' channel) = number \<and> \<not> mp_data_entry_is_nrpn (policy_of p' channel)"
  using assms by (simp add: select_rpn_def policy_controller controller_state_def)

lemma select_nrpn_run:
  assumes "shaped channel p" and "generator < 61" and "mp_nrpn_base (policy_of p channel) = 0"
  shows "\<exists>p'. policy_run sink (select_nrpn channel generator) p = Some p' \<and> shaped channel p' \<and>
     mp_nrpn_msb (policy_of p' channel) = 120 \<and> mp_nrpn_generator (policy_of p' channel) = uint generator \<and> mp_data_entry_is_nrpn (policy_of p' channel)"
proof -
  have "generator < 100" "generator \<le> 127" using assms(2) by (simp_all add: word_less_nat_alt word_le_nat_alt)
  moreover have "uint (ucast generator :: u16) = uint generator" by (simp add: uint_up_ucast is_up)
  ultimately show ?thesis
    using assms by (simp add: select_nrpn_def policy_controller controller_state_def MIDI_NRPN_SF2_MSB_def)
qed

text \<open>Entering the two halves of a value applies it twice; the second time counts.\<close>

lemma enter_data_run:
  fixes p :: "'c midi_policy"
  assumes "shaped channel p" and "msb \<le> 127" and "lsb \<le> 127"
    and "\<And>q :: 'c midi_policy. shaped channel q \<Longrightarrow> policy_of q channel = (policy_of p channel)\<lparr> mp_data_entry_msb := msb \<rparr> \<Longrightarrow>
      shaped channel (snd (apply_data_entry channel q))"
    and "\<And>q :: 'c midi_policy. shaped channel q \<Longrightarrow> policy_of q channel = (policy_of p channel)\<lparr> mp_data_entry_msb := msb, mp_data_entry_lsb := lsb \<rparr> \<Longrightarrow>
      P (snd (apply_data_entry channel q))"
  shows "\<exists>p'. policy_run sink (enter_data channel msb lsb) p = Some p' \<and> P p'"
proof -
  define q1 where "q1 = snd (midi_policy_control_change sink channel 6 msb p)"
  have e1: "q1 = snd (apply_data_entry channel (set_policy channel ((policy_of p channel)\<lparr> mp_data_entry_msb := msb \<rparr>) (stored channel 6 msb p)))"
    using assms(1,2) by (simp add: q1_def policy_controller data_entry_state_def)
  have s1: "shaped channel q1" unfolding e1 by (rule assms(4)) (use assms(1) in simp_all)
  have "policy_of q1 channel = (policy_of p channel)\<lparr> mp_data_entry_msb := msb \<rparr>" using assms(1) by (simp add: e1)
  then have "snd (midi_policy_control_change sink channel 38 lsb q1) = snd (apply_data_entry channel
      (set_policy channel ((policy_of p channel)\<lparr> mp_data_entry_msb := msb, mp_data_entry_lsb := lsb \<rparr>) (stored channel 38 lsb q1)))"
    using s1 assms(3) by (simp add: policy_controller data_entry_state_def)
  moreover have "P (snd (apply_data_entry channel
      (set_policy channel ((policy_of p channel)\<lparr> mp_data_entry_msb := msb, mp_data_entry_lsb := lsb \<rparr>) (stored channel 38 lsb q1))))"
    by (rule assms(5)) (use s1 in simp_all)
  ultimately show ?thesis by (simp add: enter_data_def q1_def)
qed

lemma nrpn_span_bounds: "0 \<le> nrpn_span g" "nrpn_span g \<le> 6000"
  by (simp_all add: nrpn_span_def)

text \<open>The offset a value means is exact: the division leaves no remainder and the narrowing loses nothing.\<close>

lemma entered_offset:
  fixes msb lsb :: u8
  assumes "msb \<le> 127" and "lsb \<le> 127" and "0 \<le> width" and "width \<le> 6000"
  shows "i32 ((uint (push_bit 7 (ucast msb) OR ucast lsb :: u16) - 8192) * width * 65536 sdiv 8192) =
    (128 * uint msb + uint lsb - 8192) * width * 8"
proof -
  define d where "d = 128 * uint msb + uint lsb - 8192"
  have "0 \<le> uint msb" "0 \<le> uint lsb" "uint msb \<le> 127" "uint lsb \<le> 127" using assms(1,2) by (simp_all add: word_le_def)
  then have d: "- 8192 \<le> d" "d \<le> 8191" by (simp_all add: d_def)
  have "x * 8192 sdiv 8192 = x" for x :: int by (simp add: signed_divide_int_def abs_mult sgn_mult mult_sgn_abs)
  moreover have "d * width * 65536 = (d * width * 8) * 8192" by simp
  ultimately have "d * width * 65536 sdiv 8192 = d * width * 8" by (simp only:)
  moreover have "in_i32 (d * width * 8)"
  proof -
    have "\<bar>d\<bar> \<le> 8192" using d by simp
    then have "\<bar>d\<bar> * width \<le> 8192 * 6000" using assms(3,4) by (intro mult_mono) simp_all
    then have "\<bar>d * width * 8\<bar> \<le> 8192 * 6000 * 8" using assms(3) by (simp add: abs_mult mult.commute)
    then show ?thesis by (simp add: in_i32_def abs_le_iff)
  qed
  ultimately show ?thesis by (simp only: uint_data14 [OF assms(1,2)] d_def [symmetric] i32_id)
qed

definition full_offset :: "u8 \<Rightarrow> u8 \<Rightarrow> int \<Rightarrow> int" where
  "full_offset msb lsb width = (128 * uint msb + uint lsb - 8192) * width * 8"

lemma apply_nrpn:
  assumes "shaped channel q" and "mp_data_entry_is_nrpn (policy_of q channel)" and "mp_nrpn_msb (policy_of q channel) = 120"
    and "mp_nrpn_generator (policy_of q channel) = uint generator" and "generator < 61" and "nrpn_span generator \<noteq> 0"
  shows "shaped channel (snd (apply_data_entry channel q))"
    "mp_data_entry_msb (policy_of q channel) \<le> 127 \<Longrightarrow> mp_data_entry_lsb (policy_of q channel) \<le> 127 \<Longrightarrow>
       offset_of channel (unat generator) (snd (apply_data_entry channel q)) =
         full_offset (mp_data_entry_msb (policy_of q channel)) (mp_data_entry_lsb (policy_of q channel)) (nrpn_span generator)"
proof -
  have g: "unat generator < 61" "uint generator < 61" using assms(5) by (simp add: word_less_nat_alt, simp add: word_less_def)
  let ?x = "i32 ((uint (push_bit 7 (ucast (mp_data_entry_msb (policy_of q channel))) OR ucast (mp_data_entry_lsb (policy_of q channel)) :: u16) - 8192) *
      nrpn_span generator * 65536 sdiv 8192)"
  have "snd (apply_data_entry channel q) = snd (on_runtime (msf2_runtime_set_generator_offset channel generator ?x) q)"
    using assms(2-4,6) g(2) by (simp add: apply_data_entry_def Let_def MIDI_NRPN_SF2_MSB_def MSF2_GENERATOR_COUNT_def)
  then show "shaped channel (snd (apply_data_entry channel q))"
    "mp_data_entry_msb (policy_of q channel) \<le> 127 \<Longrightarrow> mp_data_entry_lsb (policy_of q channel) \<le> 127 \<Longrightarrow>
       offset_of channel (unat generator) (snd (apply_data_entry channel q)) =
         full_offset (mp_data_entry_msb (policy_of q channel)) (mp_data_entry_lsb (policy_of q channel)) (nrpn_span generator)"
    using set_offset_shaped [OF assms(1) g(1)] by (simp_all add: full_offset_def entered_offset nrpn_span_bounds)
qed

lemma apply_rpn:
  assumes "shaped channel q" and "\<not> mp_data_entry_is_nrpn (policy_of q channel)" and "mp_rpn_msb (policy_of q channel) = 0"
  shows "mp_rpn_lsb (policy_of q channel) \<le> 1 \<Longrightarrow> shaped channel (snd (apply_data_entry channel q))"
    "mp_rpn_lsb (policy_of q channel) = 0 \<Longrightarrow> bend_range channel (snd (apply_data_entry channel q)) =
       (mp_data_entry_msb (policy_of q channel), min (mp_data_entry_lsb (policy_of q channel)) 99)"
    "mp_rpn_lsb (policy_of q channel) = 1 \<Longrightarrow> mp_data_entry_msb (policy_of q channel) \<le> 127 \<Longrightarrow> mp_data_entry_lsb (policy_of q channel) \<le> 127 \<Longrightarrow>
       offset_of channel 52 (snd (apply_data_entry channel q)) =
         full_offset (mp_data_entry_msb (policy_of q channel)) (mp_data_entry_lsb (policy_of q channel)) 100"
proof -
  let ?c = "if mp_data_entry_lsb (policy_of q channel) > 99 then 99 else mp_data_entry_lsb (policy_of q channel)"
  have c: "?c \<le> 99" "?c = min (mp_data_entry_lsb (policy_of q channel)) 99" by (auto simp: not_less min_def)
  have zero: "mp_rpn_lsb (policy_of q channel) = 0 \<Longrightarrow> snd (apply_data_entry channel q) =
      snd (on_runtime (msf2_runtime_set_pitch_bend_range channel (mp_data_entry_msb (policy_of q channel)) ?c) q)"
    using assms(2,3) by (simp add: apply_data_entry_def Let_def)
  have one: "mp_rpn_lsb (policy_of q channel) = 1 \<Longrightarrow> snd (apply_data_entry channel q) = snd (on_runtime (msf2_runtime_set_generator_offset channel 52
        (i32 ((uint (push_bit 7 (ucast (mp_data_entry_msb (policy_of q channel))) OR ucast (mp_data_entry_lsb (policy_of q channel)) :: u16) - 8192) *
          100 * 65536 sdiv 8192))) q)"
    using assms(2,3) by (simp add: apply_data_entry_def Let_def SF2_GEN_FINE_TUNE_def)
  show "mp_rpn_lsb (policy_of q channel) = 0 \<Longrightarrow> bend_range channel (snd (apply_data_entry channel q)) =
       (mp_data_entry_msb (policy_of q channel), min (mp_data_entry_lsb (policy_of q channel)) 99)"
    using set_range_shaped(3) [OF assms(1) c(1)] c(2) zero by simp
  have "x = 0 \<or> x = 1" if "x \<le> 1" for x :: u8 using that by (auto simp: word_le_nat_alt word_unat_eq_iff le_Suc_eq)
  then show "mp_rpn_lsb (policy_of q channel) \<le> 1 \<Longrightarrow> shaped channel (snd (apply_data_entry channel q))"
    using zero one set_range_shaped(2) [OF assms(1) c(1)] set_offset_shaped(2) [OF assms(1), of 52] by fastforce
  show "mp_rpn_lsb (policy_of q channel) = 1 \<Longrightarrow> mp_data_entry_msb (policy_of q channel) \<le> 127 \<Longrightarrow> mp_data_entry_lsb (policy_of q channel) \<le> 127 \<Longrightarrow>
       offset_of channel 52 (snd (apply_data_entry channel q)) =
         full_offset (mp_data_entry_msb (policy_of q channel)) (mp_data_entry_lsb (policy_of q channel)) 100"
  proof -
    let ?x = "i32 ((uint (push_bit 7 (ucast (mp_data_entry_msb (policy_of q channel))) OR ucast (mp_data_entry_lsb (policy_of q channel)) :: u16) - 8192) *
        100 * 65536 sdiv 8192)"
    assume a: "mp_rpn_lsb (policy_of q channel) = 1" "mp_data_entry_msb (policy_of q channel) \<le> 127" "mp_data_entry_lsb (policy_of q channel) \<le> 127"
    have "offset_of channel 52 (snd (apply_data_entry channel q)) = ?x" using one [OF a(1)] set_offset_shaped(3) [OF assms(1), of 52 ?x] by simp
    also have "\<dots> = full_offset (mp_data_entry_msb (policy_of q channel)) (mp_data_entry_lsb (policy_of q channel)) 100"
      unfolding full_offset_def by (rule entered_offset) (use a in simp_all)
    finally show ?thesis .
  qed
qed



end
