(* ===== verification/Synth_Controller.thy ===== *)
theory Synth_Controller
  imports Midi_Parameters Firmware_Commands
begin

text \<open>
  The control plane of the firmware (\<open>src/mcu/synth_controller.c\<close>, with \<open>audio_session_defaults.c\<close>,
  \<open>transport_health_policy.c\<close> and \<open>synth_runtime_diagnostics.c\<close>): it owns the image, the SoundFont runtime behind the
  channel policy, the command batch, the background control job, and the session with the FPGA.

  The static variables are the record \<open>app_synth\<close>. What the command sink touches (the batch, the start times of the voices
  and the hardware) is the context of the runtime. The board's functions are the record \<open>platform\<close>, over a hardware
  state of any type. An operation returns its \<open>int\<close> with the state; where it reads the image it returns an option,
  \<open>None\<close> being a read out of bounds. The functions of detailed diagnostic builds are left out.
\<close>

section \<open>Platform and state\<close>

record 'd platform =
  pf_write :: "'d write_fn"
  pf_enqueue :: "'d write_fn"
  pf_exchange :: "'d exchange_fn"
  pf_wait_idle :: "'d \<Rightarrow> u32 \<Rightarrow> int \<times> 'd"
  pf_delay_ms :: "'d \<Rightarrow> u32 \<Rightarrow> 'd"

definition APP_VOICE_COUNT :: nat where "APP_VOICE_COUNT = MSF2_MAX_VOICE_COUNT"
definition APP_MAX_COMMAND_PAYLOAD_WORDS :: nat where "APP_MAX_COMMAND_PAYLOAD_WORDS = 16"
definition APP_MAX_COMMAND_WORDS :: nat where "APP_MAX_COMMAND_WORDS = 1 + APP_MAX_COMMAND_PAYLOAD_WORDS"
definition APP_REGISTER_FETCH_ATTEMPT_LIMIT :: nat where "APP_REGISTER_FETCH_ATTEMPT_LIMIT = 8"
definition APP_FPGA_SESSION_RESET_POLL_LIMIT :: nat where "APP_FPGA_SESSION_RESET_POLL_LIMIT = 32"
definition APP_CONTROL_UPDATE_PERIOD_MS :: u32 where "APP_CONTROL_UPDATE_PERIOD_MS = 5"
definition APP_CONTROL_VOICE_SLICE :: nat where "APP_CONTROL_VOICE_SLICE = 16"
definition APP_COMPLETION_POLL_PERIOD_MS :: u32 where "APP_COMPLETION_POLL_PERIOD_MS = 1"
definition APP_COMPLETION_ATTEMPT_LIMIT :: nat where "APP_COMPLETION_ATTEMPT_LIMIT = 3"

definition SYNTH_REG_VERSION_VALUE :: u32 where "SYNTH_REG_VERSION_VALUE = 0x00120000"
definition SYNTH_REG_VERSION :: u16 where "SYNTH_REG_VERSION = 0x9000"
definition SYNTH_REG_COMMAND_ERROR_COUNT :: u16 where "SYNTH_REG_COMMAND_ERROR_COUNT = 0x9090"
definition SYNTH_REG_STALE_GENERATION_COUNT :: u16 where "SYNTH_REG_STALE_GENERATION_COUNT = 0x9094"
definition SYNTH_REG_RENDER_SESSION_EPOCH :: u16 where "SYNTH_REG_RENDER_SESSION_EPOCH = 0x9098"
definition SYNTH_REG_PLATFORM_STATUS :: u16 where "SYNTH_REG_PLATFORM_STATUS = 0x9040"
definition SYNTH_REG_PLATFORM_SF2_SIZE :: u16 where "SYNTH_REG_PLATFORM_SF2_SIZE = 0x9050"
definition SYNTH_REG_PLATFORM_STATUS_ERROR_PRESENT_MASK :: u32 where "SYNTH_REG_PLATFORM_STATUS_ERROR_PRESENT_MASK = 0x00000002"
definition SYNTH_REG_PLATFORM_STATUS_ASSET_LOADED_MASK :: u32 where "SYNTH_REG_PLATFORM_STATUS_ASSET_LOADED_MASK = 0x00000020"

record app_synth_diagnostics =
  ad_init_result :: int
  ad_last_spi_result :: int
  ad_flush_result :: int
  ad_session_reset_result :: int
  ad_register_attempts :: u32
  ad_version :: u32
  ad_platform_status :: u32
  ad_sf2_size :: u32
  ad_control_last_update_ms :: u32
  ad_control_maximum_interval_ms :: u32
  ad_control_completed_ticks :: u32
  ad_control_completed_jobs :: u32
  ad_control_maximum_job_duration_ms :: u32
  ad_control_voice_evaluations :: u32
  ad_controller_voice_updates :: u32
  ad_active_voices :: nat
  ad_maximum_active_voices :: nat
  ad_static_voices :: nat
  ad_periodic_gain_voices :: nat
  ad_periodic_pitch_voices :: nat
  ad_periodic_filter_voices :: nat
  ad_command_error_count :: u32
  ad_stale_generation_count :: u32
  ad_session_epoch :: u32
  ad_session_reset_count :: u32
  ad_transport_monitor_failures :: u32
  ad_fpga_disconnect_count :: u32
  ad_fpga_recovery_count :: u32
  ad_completion_polls :: u32
  ad_completion_events :: u32
  ad_completion_reclaims :: u32
  ad_completion_reclaims_before_release :: u32
  ad_completion_reclaims_after_release :: u32
  ad_completion_minimum_reclaim_age_ms :: u32
  ad_completion_generation_mismatches :: u32
  ad_completion_free_mismatches :: u32
  ad_completion_failures :: u32
  ad_completion_overflows :: u32
  ad_completion_state_errors :: u32
  ad_completion_reason_counts :: "u32 list"
  ad_stolen_voices :: u32
  ad_fpga_session_ready :: bool

record app_control_job_state =
  cj_start_millisecond :: u32
  cj_target_millisecond :: u32
  cj_elapsed_ticks :: u32
  cj_voice_cursor :: nat
  cj_active :: bool
  cj_voices :: "msf2_control_voice_snapshot list"
  cj_channel_dirty_revisions :: "u32 list"

text \<open>The part of the state that the command sink works on.\<close>

record 'd app_link =
  al_command_batch :: command_batch
  al_voice_start_millisecond :: "u32 list"
  al_current_millisecond :: u32
  al_hardware :: 'd

record 'd app_synth =
  ap_view :: msf2_view
  ap_midi :: "'d app_link midi_policy"
  ap_periodic_modulation_enabled :: bool
  ap_compressor_enabled :: bool
  ap_diagnostics :: app_synth_diagnostics
  ap_last_control_millisecond :: u32
  ap_transport_monitor_millisecond :: u32
  ap_transport_diagnostics_millisecond :: u32
  ap_transport_monitor_consecutive_failures :: u8
  ap_completion_poll_millisecond :: u32
  ap_completion_sequence :: u16
  ap_control_job :: app_control_job_state

abbreviation ap_runtime :: "'d app_synth \<Rightarrow> 'd app_link msf2_runtime" where
  "ap_runtime a \<equiv> my_runtime (ap_midi a)"

abbreviation ap_link :: "'d app_synth \<Rightarrow> 'd app_link" where
  "ap_link a \<equiv> rt_command_context (ap_runtime a)"

definition update_runtime :: "('d app_link msf2_runtime \<Rightarrow> 'd app_link msf2_runtime) \<Rightarrow> 'd app_synth \<Rightarrow> 'd app_synth" where
  "update_runtime f a = a\<lparr> ap_midi := (ap_midi a)\<lparr> my_runtime := f (ap_runtime a) \<rparr> \<rparr>"

definition update_link :: "('d app_link \<Rightarrow> 'd app_link) \<Rightarrow> 'd app_synth \<Rightarrow> 'd app_synth" where
  "update_link f = update_runtime (\<lambda>r. r\<lparr> rt_command_context := f (rt_command_context r) \<rparr>)"

definition diagnose :: "(app_synth_diagnostics \<Rightarrow> app_synth_diagnostics) \<Rightarrow> 'd app_synth \<Rightarrow> 'd app_synth" where
  "diagnose f a = a\<lparr> ap_diagnostics := f (ap_diagnostics a) \<rparr>"

definition on_hardware :: "('d \<Rightarrow> 'x \<times> 'd) \<Rightarrow> 'd app_synth \<Rightarrow> 'x \<times> 'd app_synth" where
  "on_hardware f a = (case f (al_hardware (ap_link a)) of (x, d) \<Rightarrow> (x, update_link (\<lambda>l. l\<lparr> al_hardware := d \<rparr>) a))"

text \<open>The values of the result codes.\<close>

fun result_code :: "msf2_result \<Rightarrow> int" where
  "result_code MSF2_OK = 0"
| "result_code MSF2_ERR_ARGUMENT = 1"
| "result_code MSF2_ERR_HEADER = 2"
| "result_code MSF2_ERR_PROFILE = 3"
| "result_code MSF2_ERR_CRC = 4"
| "result_code MSF2_ERR_DIRECTORY = 5"
| "result_code MSF2_ERR_RECORD = 6"
| "result_code MSF2_ERR_CAPACITY = 7"
| "result_code MSF2_ERR_SINK = 8"
| "result_code MSF2_ERR_STATE = 9"

section \<open>Commands\<close>

definition app_send_words :: "'d platform \<Rightarrow> 'd \<Rightarrow> u32 list \<Rightarrow> int \<times> 'd" where
  "app_send_words pf d words = fpga_spi_send_commands (pf_enqueue pf) words d"

definition note_start :: "u32 list \<Rightarrow> 'd app_link \<Rightarrow> 'd app_link" where
  "note_start words l =
     (let voice = unat (drop_bit 14 (words ! 0) AND 0x3ff)
      in if (ucast (drop_bit 24 (words ! 0)) :: u8) = 0x10 \<and> voice < APP_VOICE_COUNT
         then l\<lparr> al_voice_start_millisecond := (al_voice_start_millisecond l)[voice := al_current_millisecond l] \<rparr>
         else l)"

definition app_command_sink :: "'d platform \<Rightarrow> 'd app_link command_sink" where
  "app_command_sink pf l words =
     (if words = [] \<or> length words > APP_MAX_COMMAND_WORDS then (- 1, l)
      else
        (let payload_words = unat (ucast (words ! 0 AND 0xff) :: u8)
         in if payload_words > APP_MAX_COMMAND_PAYLOAD_WORDS \<or> length words \<noteq> payload_words + 1 then (- 1, l)
            else
              (let l1 = note_start words l
               in case command_batch_append (app_send_words pf) (al_command_batch l1) words (al_hardware l1) of
                    (result, batch, d) \<Rightarrow> (result, l1\<lparr> al_command_batch := batch, al_hardware := d \<rparr>))))"

definition init_batch :: "'d app_synth \<Rightarrow> 'd app_synth" where
  "init_batch = update_link (\<lambda>l. l\<lparr> al_command_batch := command_batch_init (al_command_batch l) \<rparr>)"

definition app_synth_flush_commands :: "'d platform \<Rightarrow> 'd app_synth \<Rightarrow> int \<times> 'd app_synth" where
  "app_synth_flush_commands pf a =
     (if \<not> ad_fpga_session_ready (ap_diagnostics a) then (0, init_batch a)
      else case command_batch_flush (app_send_words pf) (al_command_batch (ap_link a)) (al_hardware (ap_link a)) of
             (result, batch, d) \<Rightarrow> (result, update_link (\<lambda>l. l\<lparr> al_command_batch := batch, al_hardware := d \<rparr>) a))"

section \<open>Registers and diagnostics\<close>

definition app_read_register :: "'d platform \<Rightarrow> u16 \<Rightarrow> 'd app_synth \<Rightarrow> u32 option \<times> 'd app_synth" where
  "app_read_register pf address a =
     (case on_hardware (fpga_spi_read_register (pf_write pf) (pf_exchange pf) address APP_REGISTER_FETCH_ATTEMPT_LIMIT) a of
        (x, a1) \<Rightarrow> (x, diagnose (\<lambda>g. g\<lparr> ad_last_spi_result := (if x = None then - 1 else 0) \<rparr>) a1))"

record synth_runtime_diagnostics_snapshot =
  rd_control_voice_evaluations :: u32
  rd_controller_voice_updates :: u32
  rd_stolen_voices :: u32
  rd_active_voices :: nat
  rd_maximum_active_voices :: nat
  rd_static_voices :: nat
  rd_periodic_gain_voices :: nat
  rd_periodic_pitch_voices :: nat
  rd_periodic_filter_voices :: nat

definition synth_runtime_diagnostics_capture :: "'c msf2_runtime \<Rightarrow> synth_runtime_diagnostics_snapshot" where
  "synth_runtime_diagnostics_capture r =
     (let voices = map (\<lambda>active. vs_periodic_groups (rt_voices r ! (rt_active_voice_indices r ! active))) [0..<rt_active_count r]
      in \<lparr> rd_control_voice_evaluations = st_control_voice_evaluations (rt_stats r),
           rd_controller_voice_updates = st_controller_voice_updates (rt_stats r), rd_stolen_voices = st_stolen_voices (rt_stats r),
           rd_active_voices = st_active_voices (rt_stats r), rd_maximum_active_voices = st_maximum_active_voices (rt_stats r),
           rd_static_voices = length (filter (\<lambda>groups. groups = 0) voices),
           rd_periodic_gain_voices = length (filter (\<lambda>groups. groups AND MSF2_CONTROL_GROUP_GAIN \<noteq> 0) voices),
           rd_periodic_pitch_voices = length (filter (\<lambda>groups. groups AND MSF2_CONTROL_GROUP_PITCH \<noteq> 0) voices),
           rd_periodic_filter_voices = length (filter (\<lambda>groups. groups AND MSF2_CONTROL_GROUP_FILTER \<noteq> 0) voices) \<rparr>)"

definition app_refresh_runtime_diagnostics :: "'d app_synth \<Rightarrow> 'd app_synth" where
  "app_refresh_runtime_diagnostics a =
     (let snapshot = synth_runtime_diagnostics_capture (ap_runtime a)
      in diagnose (\<lambda>g. g\<lparr> ad_control_voice_evaluations := rd_control_voice_evaluations snapshot,
           ad_controller_voice_updates := rd_controller_voice_updates snapshot, ad_active_voices := rd_active_voices snapshot,
           ad_maximum_active_voices := rd_maximum_active_voices snapshot, ad_stolen_voices := rd_stolen_voices snapshot,
           ad_static_voices := rd_static_voices snapshot, ad_periodic_gain_voices := rd_periodic_gain_voices snapshot,
           ad_periodic_pitch_voices := rd_periodic_pitch_voices snapshot,
           ad_periodic_filter_voices := rd_periodic_filter_voices snapshot \<rparr>) a)"

section \<open>Completions\<close>

definition state_error :: "'d app_synth \<Rightarrow> int \<times> 'd app_synth" where
  "state_error a = (- 1, diagnose (\<lambda>g. g\<lparr> ad_completion_state_errors := ad_completion_state_errors g + 1 \<rparr>) a)"

definition app_consume_completion :: "completion_item \<Rightarrow> u32 \<Rightarrow> 'd app_synth \<Rightarrow> int \<times> 'd app_synth" where
  "app_consume_completion item millisecond_count a =
     (if ci_reason item \<ge> 3 then state_error a
      else
        (let reason = unat (ci_reason item); v = unat (ci_voice item);
             a1 = diagnose (\<lambda>g. g\<lparr> ad_completion_events := ad_completion_events g + 1, ad_completion_reason_counts :=
               (ad_completion_reason_counts g)[reason := ad_completion_reason_counts g ! reason + 1] \<rparr>) a
         in if v \<ge> APP_VOICE_COUNT then state_error a1
            else
              (let voice = rt_voices (ap_runtime a1) ! v
               in if vs_stage voice = MSF2_VOICE_FREE
                  then (0, diagnose (\<lambda>g. g\<lparr> ad_completion_free_mismatches := ad_completion_free_mismatches g + 1 \<rparr>) a1)
                  else if vs_generation voice \<noteq> ci_generation item
                  then (0, diagnose (\<lambda>g. g\<lparr> ad_completion_generation_mismatches := ad_completion_generation_mismatches g + 1 \<rparr>) a1)
                  else
                    (let reclaim_age = millisecond_count - al_voice_start_millisecond (ap_link a1) ! v
                     in case msf2_runtime_complete_voice v (ap_runtime a1) of (result, r) \<Rightarrow>
                          if result \<noteq> MSF2_OK then state_error (update_runtime (\<lambda>_. r) a1)
                          else (0, diagnose (\<lambda>g. (let
                              g1 = g\<lparr> ad_completion_reclaims := ad_completion_reclaims g + 1 \<rparr>;
                              g2 = (if vs_stage voice = MSF2_VOICE_RELEASED
                                    then g1\<lparr> ad_completion_reclaims_after_release := ad_completion_reclaims_after_release g1 + 1 \<rparr>
                                    else g1\<lparr> ad_completion_reclaims_before_release := ad_completion_reclaims_before_release g1 + 1 \<rparr>)
                            in if reclaim_age < ad_completion_minimum_reclaim_age_ms g2
                               then g2\<lparr> ad_completion_minimum_reclaim_age_ms := reclaim_age \<rparr> else g2))
                            (update_runtime (\<lambda>_. r) a1))))))"

section \<open>The session\<close>

definition COMPRESSOR_RELEASE_STEP_CB_Q12_20 :: u32 where
  "COMPRESSOR_RELEASE_STEP_CB_Q12_20 = (push_bit 20 1000 + 240000 - 1) div 240000"

definition audio_session_compressor_build :: "bool \<Rightarrow> u32 list" where
  "audio_session_compressor_build enabled =
     [0x20000004, push_bit 1 0x0000c000 OR (if enabled then 1 else 0), push_bit 20 20, 0, COMPRESSOR_RELEASE_STEP_CB_Q12_20]"

definition app_reset_local_session :: "'d app_synth \<Rightarrow> msf2_result \<times> 'd app_synth" where
  "app_reset_local_session a =
     (let a1 = init_batch a;
          (result, a2) = (case msf2_runtime_init (ap_view a1) APP_VOICE_COUNT (ap_link a1) of
             Inl e \<Rightarrow> (e, a1)
           | Inr r \<Rightarrow> (MSF2_OK, a1\<lparr> ap_midi := midi_policy_init
               (msf2_runtime_set_periodic_modulation_enabled (ap_periodic_modulation_enabled a1) r) \<rparr>));
          a3 = update_link (\<lambda>l. l\<lparr> al_voice_start_millisecond := replicate APP_VOICE_COUNT 0 \<rparr>)
            (a2\<lparr> ap_control_job := (ap_control_job a2)\<lparr> cj_active := False \<rparr>, ap_completion_sequence := 0 \<rparr>)
      in (result, diagnose (\<lambda>g. g\<lparr> ad_control_voice_evaluations := 0, ad_controller_voice_updates := 0, ad_control_completed_jobs := 0,
            ad_control_maximum_job_duration_ms := 0, ad_active_voices := 0, ad_maximum_active_voices := 0 \<rparr>) a3))"

definition app_mark_session_offline :: "'d app_synth \<Rightarrow> int \<times> 'd app_synth" where
  "app_mark_session_offline a =
     (if \<not> ad_fpga_session_ready (ap_diagnostics a) then (0, a)
      else
        (let a1 = diagnose (\<lambda>g. g\<lparr> ad_fpga_session_ready := False, ad_fpga_disconnect_count := ad_fpga_disconnect_count g + 1 \<rparr>) a
         in case app_reset_local_session a1 of
              (result, a2) \<Rightarrow> (if result = MSF2_OK then 0 else - result_code MSF2_ERR_SINK, a2)))"

definition session_failed :: "int \<Rightarrow> int \<Rightarrow> 'd app_synth \<Rightarrow> int \<times> 'd app_synth" where
  "session_failed result code a = (code, diagnose (\<lambda>g. g\<lparr> ad_session_reset_result := result \<rparr>) a)"

definition app_perform_render_session_reset :: "'d platform \<Rightarrow> 'd app_synth \<Rightarrow> int \<times> 'd app_synth" where
  "app_perform_render_session_reset pf a =
     (let a1 = diagnose (\<lambda>g. g\<lparr> ad_fpga_session_ready := False \<rparr>) a;
          a2 = init_batch (a1\<lparr> ap_control_job := (ap_control_job a1)\<lparr> cj_active := False \<rparr> \<rparr>)
      in case on_hardware (\<lambda>d. pf_wait_idle pf d 100000) a2 of (idle, a3) \<Rightarrow>
         if idle \<noteq> 0 then session_failed (- 1) (- 1) a3
         else
           (case on_hardware (fpga_spi_reset_session (pf_write pf) (pf_exchange pf) SYNTH_REG_RENDER_SESSION_EPOCH
                   APP_FPGA_SESSION_RESET_POLL_LIMIT APP_REGISTER_FETCH_ATTEMPT_LIMIT) a3 of
              (None, a4) \<Rightarrow> session_failed (- 1) (- 1) a4
            | (Some epoch, a4) \<Rightarrow>
                (let a5 = diagnose (\<lambda>g. g\<lparr> ad_session_reset_result := 0, ad_session_epoch := epoch \<rparr>) a4
                 in case app_reset_local_session a5 of (local_result, a6) \<Rightarrow>
                      if local_result \<noteq> MSF2_OK then session_failed (- result_code local_result) (- result_code local_result) a6
                      else
                        (case on_hardware (fpga_spi_send_commands (pf_write pf) (audio_session_compressor_build (ap_compressor_enabled a6))) a6 of
                           (sent, a7) \<Rightarrow>
                             if sent \<noteq> 0 then session_failed sent (- 1) a7
                             else (0, diagnose (\<lambda>g. g\<lparr> ad_session_reset_result := 0, ad_session_reset_count := ad_session_reset_count g + 1,
                                      ad_fpga_session_ready := True \<rparr>) a7)))))"

section \<open>Initialisation\<close>

definition zero_diagnostics :: app_synth_diagnostics where
  "zero_diagnostics = \<lparr> ad_init_result = - result_code MSF2_ERR_SINK, ad_last_spi_result = - 1, ad_flush_result = - 1,
     ad_session_reset_result = - 1, ad_register_attempts = 0, ad_version = 0, ad_platform_status = 0, ad_sf2_size = 0,
     ad_control_last_update_ms = 0, ad_control_maximum_interval_ms = 0, ad_control_completed_ticks = 0, ad_control_completed_jobs = 0,
     ad_control_maximum_job_duration_ms = 0, ad_control_voice_evaluations = 0, ad_controller_voice_updates = 0, ad_active_voices = 0,
     ad_maximum_active_voices = 0, ad_static_voices = 0, ad_periodic_gain_voices = 0, ad_periodic_pitch_voices = 0,
     ad_periodic_filter_voices = 0, ad_command_error_count = 0, ad_stale_generation_count = 0, ad_session_epoch = 0,
     ad_session_reset_count = 0, ad_transport_monitor_failures = 0, ad_fpga_disconnect_count = 0, ad_fpga_recovery_count = 0,
     ad_completion_polls = 0, ad_completion_events = 0, ad_completion_reclaims = 0, ad_completion_reclaims_before_release = 0,
     ad_completion_reclaims_after_release = 0, ad_completion_minimum_reclaim_age_ms = 0xffffffff,
     ad_completion_generation_mismatches = 0, ad_completion_free_mismatches = 0, ad_completion_failures = 0,
     ad_completion_overflows = 0, ad_completion_state_errors = 0, ad_completion_reason_counts = [0, 0, 0], ad_stolen_voices = 0,
     ad_fpga_session_ready = False \<rparr>"

definition init_failed :: "msf2_result \<Rightarrow> 'd app_synth \<Rightarrow> int \<times> 'd app_synth" where
  "init_failed result a = (- result_code result, diagnose (\<lambda>g. g\<lparr> ad_init_result := - result_code result \<rparr>) a)"

text \<open>One attempt to find the FPGA: what was read, when the attempt is to be repeated, or the result to return.\<close>

datatype probe = Found | Again | Refused msf2_result

definition probe_fpga :: "'d platform \<Rightarrow> 'd app_synth \<Rightarrow> probe \<times> 'd app_synth" where
  "probe_fpga pf a =
     (case app_read_register pf SYNTH_REG_VERSION a of
        (None, a1) \<Rightarrow> (Again, a1)
      | (Some version, a1) \<Rightarrow>
          (let a2 = diagnose (\<lambda>g. g\<lparr> ad_version := version \<rparr>) a1
           in if version \<noteq> SYNTH_REG_VERSION_VALUE then (Refused MSF2_ERR_PROFILE, a2)
              else case app_read_register pf SYNTH_REG_PLATFORM_STATUS a2 of
                     (None, a3) \<Rightarrow> (Again, a3)
                   | (Some platform_status, a3) \<Rightarrow>
                       (let a4 = diagnose (\<lambda>g. g\<lparr> ad_platform_status := platform_status \<rparr>) a3
                        in if platform_status AND SYNTH_REG_PLATFORM_STATUS_ERROR_PRESENT_MASK \<noteq> 0 then (Refused MSF2_ERR_SINK, a4)
                           else if platform_status AND SYNTH_REG_PLATFORM_STATUS_ASSET_LOADED_MASK = 0 then (Again, a4)
                           else case app_read_register pf SYNTH_REG_PLATFORM_SF2_SIZE a4 of
                                  (None, a5) \<Rightarrow> (Again, a5)
                                | (Some sf2_size, a5) \<Rightarrow>
                                    (let a6 = diagnose (\<lambda>g. g\<lparr> ad_sf2_size := sf2_size \<rparr>) a5
                                     in if sf2_size \<noteq> ucast (vw_source_size_bytes (ap_view a6)) then (Refused MSF2_ERR_PROFILE, a6)
                                        else (Found, a6)))))"

text \<open>The loop over the attempts; \<open>left\<close> of the 30000 are left. \<open>Inl\<close> is the code to return.\<close>

fun find_fpga :: "'d platform \<Rightarrow> nat \<Rightarrow> 'd app_synth \<Rightarrow> (int + unit) \<times> 'd app_synth" where
  "find_fpga pf 0 a = (Inl (ad_init_result (ap_diagnostics a)), a)"
| "find_fpga pf (Suc left) a =
     (case probe_fpga pf (diagnose (\<lambda>g. g\<lparr> ad_register_attempts := of_nat (30000 - left) \<rparr>) a) of
        (Found, a1) \<Rightarrow> (Inr (), a1)
      | (Refused result, a1) \<Rightarrow> (case init_failed result a1 of (code, a2) \<Rightarrow> (Inl code, a2))
      | (Again, a1) \<Rightarrow> find_fpga pf left (snd (on_hardware (\<lambda>d. ((), pf_delay_ms pf d 1)) a1)))"

definition read_counters :: "'d platform \<Rightarrow> 'd app_synth \<Rightarrow> msf2_result \<times> 'd app_synth" where
  "read_counters pf a =
     (case app_read_register pf SYNTH_REG_COMMAND_ERROR_COUNT a of
        (None, a1) \<Rightarrow> (MSF2_ERR_SINK, a1)
      | (Some errors, a1) \<Rightarrow>
          (let a2 = diagnose (\<lambda>g. g\<lparr> ad_command_error_count := errors \<rparr>) a1
           in case app_read_register pf SYNTH_REG_STALE_GENERATION_COUNT a2 of
                (None, a3) \<Rightarrow> (MSF2_ERR_SINK, a3)
              | (Some stale, a3) \<Rightarrow> (MSF2_OK, diagnose (\<lambda>g. g\<lparr> ad_stale_generation_count := stale \<rparr>) a3)))"

definition app_synth_init :: "'d platform \<Rightarrow> u8 list \<Rightarrow> 'd app_synth \<Rightarrow> (int \<times> 'd app_synth) option" where
  "app_synth_init pf app_msf2_image a =
     (let a1 = init_batch (a\<lparr> ap_diagnostics := zero_diagnostics \<rparr>)
      in do { v \<leftarrow> msf2_view_init app_msf2_image;
              Some (case v of
                 Inl result \<Rightarrow> init_failed result a1
               | Inr vw \<Rightarrow>
                   (let a2 = a1\<lparr> ap_view := vw \<rparr>
                    in if vw_source_size_bytes vw > 0xffffffff then init_failed MSF2_ERR_PROFILE a2
                       else case find_fpga pf 30000 a2 of
                              (Inl code, a3) \<Rightarrow> (code, a3)
                            | (Inr _, a3) \<Rightarrow>
                                (case app_perform_render_session_reset pf a3 of (reset, a4) \<Rightarrow>
                                   if reset \<noteq> 0 then init_failed MSF2_ERR_SINK a4
                                   else case read_counters pf a4 of (result, a5) \<Rightarrow>
                                     (let a6 = update_link (\<lambda>l. l\<lparr> al_current_millisecond := 0 \<rparr>)
                                        (a5\<lparr> ap_last_control_millisecond := 0, ap_transport_monitor_millisecond := 0,
                                          ap_transport_diagnostics_millisecond := 0, ap_transport_monitor_consecutive_failures := 0,
                                          ap_completion_poll_millisecond := 0 \<rparr>)
                                      in (- result_code result, diagnose (\<lambda>g. g\<lparr> ad_fpga_session_ready := result = MSF2_OK,
                                           ad_init_result := - result_code result \<rparr>) a6))))) })"

section \<open>Debugging and settings\<close>

definition app_fpga_debug_read_register :: "'d platform \<Rightarrow> u16 \<Rightarrow> 'd app_synth \<Rightarrow> u32 option \<times> 'd app_synth" where
  "app_fpga_debug_read_register pf address a =
     (case app_synth_flush_commands pf a of (flushed, a1) \<Rightarrow>
        if flushed \<noteq> 0 then (None, a1)
        else case on_hardware (\<lambda>d. pf_wait_idle pf d 100000) a1 of (idle, a2) \<Rightarrow>
          if idle \<noteq> 0 then (None, a2) else app_read_register pf address a2)"

definition app_fpga_debug_flush :: "'d platform \<Rightarrow> 'd app_synth \<Rightarrow> int \<times> 'd app_synth" where
  "app_fpga_debug_flush pf a =
     (case app_synth_flush_commands pf a of (flushed, a1) \<Rightarrow>
        if flushed \<noteq> 0 then (- 1, a1)
        else case on_hardware (\<lambda>d. pf_wait_idle pf d 100000) a1 of (idle, a2) \<Rightarrow>
          if idle \<noteq> 0 then (- 1, a2)
          else case on_hardware (fpga_spi_flush (pf_write pf)) a2 of (result, a3) \<Rightarrow>
            (result, diagnose (\<lambda>g. g\<lparr> ad_flush_result := result \<rparr>) a3))"

definition app_synth_toggle_periodic_modulation :: "'d app_synth \<Rightarrow> bool \<times> 'd app_synth" where
  "app_synth_toggle_periodic_modulation a =
     (let enabled = (\<not> ap_periodic_modulation_enabled a)
      in (enabled, update_runtime (msf2_runtime_set_periodic_modulation_enabled enabled) (a\<lparr> ap_periodic_modulation_enabled := enabled \<rparr>)))"

definition app_synth_set_compressor_enabled :: "'d platform \<Rightarrow> bool \<Rightarrow> 'd app_synth \<Rightarrow> int \<times> 'd app_synth" where
  "app_synth_set_compressor_enabled pf enabled a =
     (if \<not> ad_fpga_session_ready (ap_diagnostics a) then (- 1, a)
      else case app_command_sink pf (ap_link a) (audio_session_compressor_build enabled) of (result, l) \<Rightarrow>
        (let a1 = update_link (\<lambda>_. l) a
         in if result \<noteq> 0 then (result, a1) else (0, a1\<lparr> ap_compressor_enabled := enabled \<rparr>)))"

section \<open>The background control job\<close>

definition start_control_job :: "u32 \<Rightarrow> u32 \<Rightarrow> 'd app_synth \<Rightarrow> 'd app_synth" where
  "start_control_job millisecond_count elapsed_ticks a =
     (case msf2_runtime_capture_control_snapshot (ap_runtime a) of (voices, revisions) \<Rightarrow>
        a\<lparr> ap_control_job := \<lparr> cj_start_millisecond = millisecond_count, cj_target_millisecond = millisecond_count,
             cj_elapsed_ticks = elapsed_ticks, cj_voice_cursor = (if rt_active_count (ap_runtime a) = 0 then APP_VOICE_COUNT else 0),
             cj_active = True, cj_voices = voices, cj_channel_dirty_revisions = revisions \<rparr> \<rparr>)"

definition finish_control_job :: "u32 \<Rightarrow> 'd app_synth \<Rightarrow> 'd app_synth" where
  "finish_control_job millisecond_count a =
     (let job = ap_control_job a; ticks = cj_elapsed_ticks job; duration = millisecond_count - cj_start_millisecond job;
          a1 = update_runtime (msf2_runtime_complete_control ticks (cj_channel_dirty_revisions job)) a;
          a2 = diagnose (\<lambda>g. g\<lparr> ad_control_last_update_ms := cj_target_millisecond job,
             ad_control_maximum_interval_ms := (if ticks > ad_control_maximum_interval_ms g then ticks else ad_control_maximum_interval_ms g),
             ad_control_completed_ticks := ad_control_completed_ticks g + ticks, ad_control_completed_jobs := ad_control_completed_jobs g + 1,
             ad_control_maximum_job_duration_ms := (if duration > ad_control_maximum_job_duration_ms g then duration
                                                    else ad_control_maximum_job_duration_ms g) \<rparr>)
             (a1\<lparr> ap_last_control_millisecond := cj_target_millisecond job \<rparr>)
      in (app_refresh_runtime_diagnostics a2)\<lparr> ap_control_job := job\<lparr> cj_active := False \<rparr> \<rparr>)"

text \<open>One slice of the job, and what follows when it was the last.\<close>

definition run_control_job :: "'d platform \<Rightarrow> u32 \<Rightarrow> 'd app_synth \<Rightarrow> (int \<times> 'd app_synth) option" where
  "run_control_job pf millisecond_count a =
     (let job = ap_control_job a; rest = APP_VOICE_COUNT - cj_voice_cursor job;
          slice_count = (if rest > APP_CONTROL_VOICE_SLICE then APP_CONTROL_VOICE_SLICE else rest)
      in do { (result, r) \<leftarrow> (if slice_count = 0 then Some (MSF2_OK, ap_runtime a)
                else msf2_runtime_advance_control_slice (app_command_sink pf) (cj_voices job) (cj_voice_cursor job) slice_count
                       (cj_elapsed_ticks job) (ap_runtime a));
              let a1 = update_runtime (\<lambda>_. r) a;
              Some (if result \<noteq> MSF2_OK then (- result_code result, a1)
                    else
                      (let cursor = cj_voice_cursor job + slice_count; a2 = a1\<lparr> ap_control_job := job\<lparr> cj_voice_cursor := cursor \<rparr> \<rparr>
                       in if cursor \<noteq> APP_VOICE_COUNT then (0, a2) else (0, finish_control_job millisecond_count a2))) })"

definition app_synth_service :: "'d platform \<Rightarrow> u32 \<Rightarrow> 'd app_synth \<Rightarrow> (int \<times> 'd app_synth) option" where
  "app_synth_service pf millisecond_count a =
     (if \<not> ad_fpga_session_ready (ap_diagnostics a)
      then Some (0, a\<lparr> ap_control_job := (ap_control_job a)\<lparr> cj_active := False \<rparr>, ap_last_control_millisecond := millisecond_count \<rparr>)
      else if cj_active (ap_control_job a) then run_control_job pf millisecond_count a
      else
        (let elapsed_ticks = millisecond_count - ap_last_control_millisecond a
         in if elapsed_ticks < APP_CONTROL_UPDATE_PERIOD_MS then Some (0, a)
            else run_control_job pf millisecond_count (start_control_job millisecond_count elapsed_ticks a)))"

section \<open>Polling for completions\<close>

text \<open>The items of a batch; a state error stops the loop.\<close>

fun consume_completions :: "completion_item list \<Rightarrow> u32 \<Rightarrow> 'd app_synth \<Rightarrow> bool \<times> 'd app_synth" where
  "consume_completions [] millisecond_count a = (True, a)"
| "consume_completions (item # items) millisecond_count a =
     (case app_consume_completion item millisecond_count a of (result, a1) \<Rightarrow>
        if result \<noteq> 0 then (False, a1) else consume_completions items millisecond_count a1)"

definition add_completion_failures :: "u32 \<Rightarrow> 'd app_synth \<Rightarrow> 'd app_synth" where
  "add_completion_failures n = diagnose (\<lambda>g. g\<lparr> ad_completion_failures := ad_completion_failures g + n \<rparr>)"

definition app_synth_service_completions :: "'d platform \<Rightarrow> u32 \<Rightarrow> 'd app_synth \<Rightarrow> int \<times> 'd app_synth" where
  "app_synth_service_completions pf millisecond_count a =
     (let a1 = update_link (\<lambda>l. l\<lparr> al_current_millisecond := millisecond_count \<rparr>) a
      in if \<not> ad_fpga_session_ready (ap_diagnostics a1) then (0, a1)
         else if millisecond_count - ap_completion_poll_millisecond a1 < APP_COMPLETION_POLL_PERIOD_MS then (0, a1)
         else if ba_word_count (al_command_batch (ap_link a1)) \<noteq> 0 then (0, a1)
         else case on_hardware (\<lambda>d. pf_wait_idle pf d 100000) a1 of (idle, a2) \<Rightarrow>
           if idle \<noteq> 0 then app_mark_session_offline (add_completion_failures 1 a2)
           else
             (let a3 = diagnose (\<lambda>g. g\<lparr> ad_completion_polls := ad_completion_polls g + 1 \<rparr>)
                (a2\<lparr> ap_completion_poll_millisecond := millisecond_count \<rparr>)
              in case on_hardware (\<lambda>d. case fpga_spi_read_completions_retry (pf_exchange pf) (ap_completion_sequence a3)
                        APP_COMPLETION_ATTEMPT_LIMIT d of (x, failed, d1) \<Rightarrow> ((x, failed), d1)) a3 of
                   ((x, failed_attempts), a4) \<Rightarrow>
                     (let a5 = add_completion_failures (of_nat failed_attempts) a4
                      in case x of
                           None \<Rightarrow> app_mark_session_offline a5
                         | Some batch \<Rightarrow>
                             if cb_session_epoch batch \<noteq> ad_session_epoch (ap_diagnostics a5)
                             then app_perform_render_session_reset pf (add_completion_failures 1 a5)
                             else if cb_overflow batch \<noteq> 0
                             then app_perform_render_session_reset pf
                                    (diagnose (\<lambda>g. g\<lparr> ad_completion_overflows := ad_completion_overflows g + 1 \<rparr>) a5)
                             else case consume_completions (take (unat (cb_count batch)) (cb_items batch)) millisecond_count a5 of
                                    (False, a6) \<Rightarrow> app_perform_render_session_reset pf a6
                                  | (True, a6) \<Rightarrow> (0, app_refresh_runtime_diagnostics
                                      (a6\<lparr> ap_completion_sequence := ap_completion_sequence a6 + ucast (cb_count batch) \<rparr>)))))"

section \<open>Watching the transport\<close>

datatype transport_health_result = TRANSPORT_HEALTH_OK | TRANSPORT_HEALTH_STALE_WARNING | TRANSPORT_HEALTH_COMMAND_FAULT

datatype fpga_session_observation =
    FPGA_SESSION_UNREACHABLE
  | FPGA_SESSION_LOADING
  | FPGA_SESSION_READY
  | FPGA_SESSION_PLATFORM_FAULT
  | FPGA_SESSION_INCOMPATIBLE

definition transport_health_classify :: "u32 \<Rightarrow> u32 \<Rightarrow> u32 \<Rightarrow> u32 \<Rightarrow> transport_health_result" where
  "transport_health_classify previous_command_errors previous_stale_generations command_errors stale_generations =
     (if command_errors \<noteq> previous_command_errors then TRANSPORT_HEALTH_COMMAND_FAULT
      else if stale_generations \<noteq> previous_stale_generations then TRANSPORT_HEALTH_STALE_WARNING
      else TRANSPORT_HEALTH_OK)"

definition fpga_session_classify :: "int \<Rightarrow> u32 \<Rightarrow> u32 \<Rightarrow> int \<Rightarrow> u32 \<Rightarrow> fpga_session_observation" where
  "fpga_session_classify version_read_result version expected_version status_read_result platform_status =
     (if version_read_result \<noteq> 0 \<or> status_read_result \<noteq> 0 then FPGA_SESSION_UNREACHABLE
      else if version \<noteq> expected_version then FPGA_SESSION_INCOMPATIBLE
      else if platform_status AND 0x00000002 \<noteq> 0 then FPGA_SESSION_PLATFORM_FAULT
      else if platform_status AND 0x00000020 = 0 then FPGA_SESSION_LOADING
      else FPGA_SESSION_READY)"

text \<open>The version and the status of the FPGA; a register that could not be read counts as zero with the result -1.\<close>

definition observe_fpga :: "'d platform \<Rightarrow> 'd app_synth \<Rightarrow> fpga_session_observation \<times> 'd app_synth" where
  "observe_fpga pf a =
     (let (version_read, a1) = (if ad_fpga_session_ready (ap_diagnostics a) then (Some SYNTH_REG_VERSION_VALUE, a)
                                else app_read_register pf SYNTH_REG_VERSION a);
          version_result = (if version_read = None then - 1 else 0 :: int); version = (case version_read of None \<Rightarrow> 0 | Some x \<Rightarrow> x);
          (status_read, a2) = (if version_result = 0 then app_read_register pf SYNTH_REG_PLATFORM_STATUS a1 else (None, a1));
          status_result = (if status_read = None then - 1 else 0 :: int); platform_status = (case status_read of None \<Rightarrow> 0 | Some x \<Rightarrow> x)
      in (fpga_session_classify version_result version SYNTH_REG_VERSION_VALUE status_result platform_status,
          diagnose (\<lambda>g. g\<lparr> ad_last_spi_result := (if version_result \<noteq> 0 then version_result else status_result),
             ad_version := (if version_result = 0 then version else ad_version g),
             ad_platform_status := (if status_result = 0 then platform_status else ad_platform_status g) \<rparr>) a2))"

text \<open>The error counters, after the session was found or restored.\<close>

definition check_counters :: "'d platform \<Rightarrow> u32 \<Rightarrow> bool \<Rightarrow> 'd app_synth \<Rightarrow> int \<times> 'd app_synth" where
  "check_counters pf millisecond_count recovered_session a =
     (case app_read_register pf SYNTH_REG_COMMAND_ERROR_COUNT (a\<lparr> ap_transport_diagnostics_millisecond := millisecond_count \<rparr>) of
        (None, a1) \<Rightarrow> (0, a1)
      | (Some command_errors, a1) \<Rightarrow>
          (case app_read_register pf SYNTH_REG_STALE_GENERATION_COUNT a1 of
             (None, a2) \<Rightarrow> (0, a2)
           | (Some stale_generations, a2) \<Rightarrow>
               (let health = transport_health_classify (ad_command_error_count (ap_diagnostics a2)) (ad_stale_generation_count (ap_diagnostics a2))
                      command_errors stale_generations;
                    a3 = diagnose (\<lambda>g. g\<lparr> ad_command_error_count := command_errors, ad_stale_generation_count := stale_generations \<rparr>) a2
                in if recovered_session then (0, diagnose (\<lambda>g. g\<lparr> ad_fpga_recovery_count := ad_fpga_recovery_count g + 1 \<rparr>) a3)
                   else if health = TRANSPORT_HEALTH_COMMAND_FAULT then (- result_code MSF2_ERR_SINK, a3)
                   else (0, a3))))"

definition note_monitor_failure :: "'d app_synth \<Rightarrow> 'd app_synth" where
  "note_monitor_failure = diagnose (\<lambda>g. g\<lparr> ad_transport_monitor_failures := ad_transport_monitor_failures g + 1 \<rparr>)"

definition restore_session :: "'d platform \<Rightarrow> u32 \<Rightarrow> 'd app_synth \<Rightarrow> int \<times> 'd app_synth" where
  "restore_session pf millisecond_count a =
     (case app_read_register pf SYNTH_REG_PLATFORM_SF2_SIZE a of
        (None, a1) \<Rightarrow> (0, note_monitor_failure a1)
      | (Some sf2_size, a1) \<Rightarrow>
          (let a2 = diagnose (\<lambda>g. g\<lparr> ad_sf2_size := sf2_size \<rparr>) a1
           in if sf2_size \<noteq> ucast (vw_source_size_bytes (ap_view a2)) then (- result_code MSF2_ERR_PROFILE, a2)
              else case app_perform_render_session_reset pf a2 of (reset, a3) \<Rightarrow>
                if reset \<noteq> 0 then (0, a3)
                else check_counters pf millisecond_count True (a3\<lparr> ap_last_control_millisecond := millisecond_count \<rparr>)))"

definition app_synth_monitor_transport :: "'d platform \<Rightarrow> u32 \<Rightarrow> 'd app_synth \<Rightarrow> int \<times> 'd app_synth" where
  "app_synth_monitor_transport pf millisecond_count a =
     (if millisecond_count - ap_transport_monitor_millisecond a < 100 then (0, a)
      else if ba_word_count (al_command_batch (ap_link a)) \<noteq> 0 then (0, a)
      else case on_hardware (\<lambda>d. pf_wait_idle pf d 1000) a of (idle, a1) \<Rightarrow>
        if idle \<noteq> 0 then (0, a1)
        else case observe_fpga pf (a1\<lparr> ap_transport_monitor_millisecond := millisecond_count \<rparr>) of (observation, a2) \<Rightarrow>
          (let unreachable = (observation = FPGA_SESSION_UNREACHABLE);
               failures = (if unreachable then ap_transport_monitor_consecutive_failures a2 + 1 else 0);
               a3 = (if unreachable then note_monitor_failure a2 else a2)\<lparr> ap_transport_monitor_consecutive_failures := failures \<rparr>
           in if unreachable \<and> failures < 2 then (0, a3)
              else if unreachable \<or> observation = FPGA_SESSION_LOADING then app_mark_session_offline a3
              else if observation = FPGA_SESSION_PLATFORM_FAULT \<or> observation = FPGA_SESSION_INCOMPATIBLE
              then (- result_code MSF2_ERR_PROFILE, a3)
              else if ad_fpga_session_ready (ap_diagnostics a3)
              then (if millisecond_count - ap_transport_diagnostics_millisecond a3 < 500 then (0, a3)
                    else check_counters pf millisecond_count False a3)
              else restore_session pf millisecond_count a3))"

section \<open>MIDI\<close>

definition on_midi :: "('d app_link midi_policy \<Rightarrow> msf2_result \<times> 'd app_link midi_policy) \<Rightarrow> 'd app_synth \<Rightarrow> int \<times> 'd app_synth" where
  "on_midi f a = (case f (ap_midi a) of (result, m) \<Rightarrow> (- result_code result, a\<lparr> ap_midi := m \<rparr>))"

definition app_midi_note_on :: "'d platform \<Rightarrow> u8 \<Rightarrow> u8 \<Rightarrow> u8 \<Rightarrow> 'd app_synth \<Rightarrow> (int \<times> 'd app_synth) option" where
  "app_midi_note_on pf channel key velocity a =
     (if \<not> channel_ok channel then Some (- result_code MSF2_ERR_ARGUMENT, a)
      else map_option (\<lambda>(result, started_layers, m). (if result \<noteq> MSF2_OK then - result_code result else int started_layers, a\<lparr> ap_midi := m \<rparr>))
             (midi_policy_note_on (app_command_sink pf) channel key velocity (ap_midi a)))"

definition app_midi_note_off :: "'d platform \<Rightarrow> u8 \<Rightarrow> u8 \<Rightarrow> 'd app_synth \<Rightarrow> int \<times> 'd app_synth" where
  "app_midi_note_off pf channel key = on_midi (midi_policy_note_off (app_command_sink pf) channel key)"

definition app_midi_control_change :: "'d platform \<Rightarrow> u8 \<Rightarrow> u8 \<Rightarrow> u8 \<Rightarrow> 'd app_synth \<Rightarrow> int \<times> 'd app_synth" where
  "app_midi_control_change pf channel controller v a =
     (if \<not> channel_ok channel \<or> controller > 127 \<or> v > 127 then (- result_code MSF2_ERR_ARGUMENT, a)
      else on_midi (midi_policy_control_change (app_command_sink pf) channel controller v) a)"

definition app_midi_program_change :: "u8 \<Rightarrow> u8 \<Rightarrow> 'd app_synth \<Rightarrow> 'd app_synth" where
  "app_midi_program_change channel program a = snd (on_midi (midi_policy_program_change channel program) a)"

definition app_midi_pitch_bend :: "u8 \<Rightarrow> u8 \<Rightarrow> u8 \<Rightarrow> 'd app_synth \<Rightarrow> int \<times> 'd app_synth" where
  "app_midi_pitch_bend channel lsb msb =
     (let unsigned_value = push_bit 7 (uint (msb AND 0x7f)) OR uint (lsb AND 0x7f)
      in on_midi (on_runtime (msf2_runtime_pitch_bend channel (i16 (unsigned_value - 8192)))))"

definition app_midi_channel_pressure :: "u8 \<Rightarrow> u8 \<Rightarrow> 'd app_synth \<Rightarrow> int \<times> 'd app_synth" where
  "app_midi_channel_pressure channel pressure = on_midi (on_runtime (msf2_runtime_channel_pressure channel pressure))"

definition app_midi_key_pressure :: "u8 \<Rightarrow> u8 \<Rightarrow> u8 \<Rightarrow> 'd app_synth \<Rightarrow> int \<times> 'd app_synth" where
  "app_midi_key_pressure channel key pressure = on_midi (on_runtime (msf2_runtime_key_pressure channel key pressure))"

definition app_midi_system_reset :: "'d platform \<Rightarrow> 'd app_synth \<Rightarrow> int \<times> 'd app_synth" where
  "app_midi_system_reset pf = on_midi (midi_policy_system_reset (app_command_sink pf))"

fun sound_off_channels :: "'c command_sink \<Rightarrow> u8 list \<Rightarrow> 'c midi_policy \<Rightarrow> msf2_result \<times> 'c midi_policy" where
  "sound_off_channels sink [] p = (MSF2_OK, p)"
| "sound_off_channels sink (channel # cs) p =
     (case on_runtime (msf2_runtime_all_sound_off sink channel) p of
        (MSF2_OK, p1) \<Rightarrow> sound_off_channels sink cs p1
      | (e, p1) \<Rightarrow> (e, p1))"

definition app_midi_all_sound_off :: "'d platform \<Rightarrow> 'd app_synth \<Rightarrow> int \<times> 'd app_synth" where
  "app_midi_all_sound_off pf = on_midi (sound_off_channels (app_command_sink pf) (map of_nat [0..<MSF2_CHANNEL_COUNT]))"

definition app_midi_release_all :: "'d platform \<Rightarrow> 'd app_synth \<Rightarrow> int \<times> 'd app_synth" where
  "app_midi_release_all pf = on_midi (midi_policy_release_all (app_command_sink pf))"

end
