(* ===== verification/Synth_Session.thy ===== *)
theory Synth_Session
  imports Synth_Controller
begin

text \<open>
  What the control plane keeps, whatever the platform does: the invariant of the runtime and of the control job over any
  sequence of calls, the effect of a session reset, the completions of voices, and the progress of the control job.
\<close>

section \<open>The invariant\<close>

definition job_ok :: "app_control_job_state \<Rightarrow> bool" where
  "job_ok job \<longleftrightarrow> (cj_active job \<longrightarrow> length (cj_voices job) = 512 \<and> length (cj_channel_dirty_revisions job) = 16 \<and>
     cj_voice_cursor job \<le> 512 \<and> cj_elapsed_ticks job \<noteq> 0)"

definition accepted_view :: "msf2_view \<Rightarrow> bool" where
  "accepted_view vw \<longleftrightarrow> (\<exists>d. msf2_view_init d = Some (Inr vw))"

definition app_ok :: "'d app_synth \<Rightarrow> bool" where
  "app_ok a \<longleftrightarrow> accepted_view (ap_view a) \<and> policy_ok (ap_view a) 512 (ap_midi a) \<and> job_ok (ap_control_job a)"

text \<open>An update that leaves alone what the invariant speaks of.\<close>

lemma app_ok_policy: "app_ok a \<Longrightarrow> policy_ok (ap_view a) 512 (ap_midi a)"
  by (simp add: app_ok_def)

lemma policy_ok_context: "policy_ok vw n (p\<lparr> my_runtime := (my_runtime p)\<lparr> rt_command_context := c \<rparr> \<rparr>) = policy_ok vw n p"
  by (simp add: policy_ok_def runtime_ok_def ready_def pool_ok_def cache_ok_def cache_true_def)

lemma app_ok_simps [simp]:
  "app_ok (update_link f a) = app_ok a" "app_ok (diagnose g a) = app_ok a" "app_ok (init_batch a) = app_ok a"
  "app_ok (a\<lparr> ap_last_control_millisecond := t \<rparr>) = app_ok a" "app_ok (a\<lparr> ap_transport_monitor_millisecond := t \<rparr>) = app_ok a"
  "app_ok (a\<lparr> ap_transport_diagnostics_millisecond := t \<rparr>) = app_ok a"
  "app_ok (a\<lparr> ap_transport_monitor_consecutive_failures := n \<rparr>) = app_ok a" "app_ok (a\<lparr> ap_completion_poll_millisecond := t \<rparr>) = app_ok a"
  "app_ok (a\<lparr> ap_completion_sequence := s \<rparr>) = app_ok a" "app_ok (a\<lparr> ap_compressor_enabled := b \<rparr>) = app_ok a"
  "app_ok (a\<lparr> ap_periodic_modulation_enabled := b \<rparr>) = app_ok a" "app_ok (a\<lparr> ap_diagnostics := g' \<rparr>) = app_ok a"
  by (simp_all add: app_ok_def update_link_def update_runtime_def diagnose_def init_batch_def policy_ok_context)

lemma app_ok_idle [simp]: "app_ok a \<Longrightarrow> app_ok (a\<lparr> ap_control_job := job\<lparr> cj_active := False \<rparr> \<rparr>)"
  by (simp add: app_ok_def job_ok_def)

lemma app_ok_hardware [simp]: "app_ok (snd (on_hardware f a)) = app_ok a"
  by (simp add: on_hardware_def split: prod.split)

lemma app_ok_read_register [simp]: "app_ok (snd (app_read_register pf address a)) = app_ok a"
proof -
  obtain x a1 where "on_hardware (fpga_spi_read_register (pf_write pf) (pf_exchange pf) address APP_REGISTER_FETCH_ATTEMPT_LIMIT) a = (x, a1)"
    by fastforce
  moreover from this have "app_ok a1 = app_ok a"
    using app_ok_hardware [of "fpga_spi_read_register (pf_write pf) (pf_exchange pf) address APP_REGISTER_FETCH_ATTEMPT_LIMIT" a] by simp
  ultimately show ?thesis by (simp add: app_read_register_def)
qed

lemma app_ok_flush [simp]: "app_ok (snd (app_synth_flush_commands pf a)) = app_ok a"
  by (simp add: app_synth_flush_commands_def split: prod.split)

lemma app_ok_refresh [simp]: "app_ok (app_refresh_runtime_diagnostics a) = app_ok a"
  by (simp add: app_refresh_runtime_diagnostics_def Let_def)

lemma app_ok_errors [simp]: "app_ok (snd (state_error a)) = app_ok a" "app_ok (snd (session_failed r c a)) = app_ok a" "app_ok (snd (init_failed e a)) = app_ok a"
  by (simp_all add: state_error_def session_failed_def init_failed_def)

lemma app_ok_midi: "app_ok a \<Longrightarrow> policy_ok (ap_view a) 512 m \<Longrightarrow> app_ok (a\<lparr> ap_midi := m \<rparr>)"
  by (simp add: app_ok_def)

lemma app_ok_on_midi: "app_ok a \<Longrightarrow> policy_ok (ap_view a) 512 (snd (f (ap_midi a))) \<Longrightarrow> app_ok (snd (on_midi f a))"
  by (cases "f (ap_midi a)") (simp add: on_midi_def app_ok_midi)

lemma app_ok_runtime:
  assumes "app_ok a" and "gentle (ap_runtime a) (f (ap_runtime a))"
  shows "app_ok (update_runtime f a)"
  using assms policy_ok_gentle [OF app_ok_policy [OF assms(1)], of "(ap_midi a)\<lparr> my_runtime := f (ap_runtime a) \<rparr>"]
  by (simp add: update_runtime_def app_ok_midi)

lemma ap_view_simps [simp]:
  "ap_view (update_link f a) = ap_view a" "ap_view (diagnose g a) = ap_view a" "ap_view (init_batch a) = ap_view a"
  by (simp_all add: update_link_def update_runtime_def diagnose_def init_batch_def)

lemma my_runtime_init [simp]: "my_runtime (midi_policy_init r) = r"
  by (simp add: midi_policy_init_def)

lemma update_link_simps [simp]:
  "ap_diagnostics (update_link f a) = ap_diagnostics a" "ap_control_job (update_link f a) = ap_control_job a"
  "ap_compressor_enabled (update_link f a) = ap_compressor_enabled a" "ap_link (update_link f a) = f (ap_link a)"
  "ap_periodic_modulation_enabled (update_link f a) = ap_periodic_modulation_enabled a"
  "ap_last_control_millisecond (update_link f a) = ap_last_control_millisecond a"
  by (simp_all add: update_link_def update_runtime_def)

lemma diagnose_simps [simp]:
  "ap_diagnostics (diagnose g a) = g (ap_diagnostics a)" "ap_control_job (diagnose g a) = ap_control_job a"
  "ap_compressor_enabled (diagnose g a) = ap_compressor_enabled a" "ap_midi (diagnose g a) = ap_midi a"
  "ap_periodic_modulation_enabled (diagnose g a) = ap_periodic_modulation_enabled a"
  "ap_last_control_millisecond (diagnose g a) = ap_last_control_millisecond a"
  by (simp_all add: diagnose_def)

lemma on_hardware_eq:
  "on_hardware f a = (fst (f (al_hardware (ap_link a))), update_link (\<lambda>l. l\<lparr> al_hardware := snd (f (al_hardware (ap_link a))) \<rparr>) a)"
  by (simp add: on_hardware_def split: prod.split)

section \<open>Resetting the session\<close>

text \<open>A fresh session: the runtime just initialised, no control job, no command waiting, no voice in use.\<close>

definition fresh_session :: "'d app_synth \<Rightarrow> bool" where
  "fresh_session a \<longleftrightarrow> app_ok a \<and> rt_active_count (ap_runtime a) = 0 \<and> rt_free_count (ap_runtime a) = 512 \<and>
     list_all (\<lambda>v. vs_stage v = MSF2_VOICE_FREE) (rt_voices (ap_runtime a)) \<and> ba_word_count (al_command_batch (ap_link a)) = 0 \<and>
     \<not> cj_active (ap_control_job a) \<and> ap_completion_sequence a = 0 \<and> rt_control_tick_index (ap_runtime a) = 0 \<and>
     rt_periodic_modulation_enabled (ap_runtime a) = ap_periodic_modulation_enabled a"

lemma reset_local_session:
  assumes "accepted_view (ap_view a)"
  shows "fst (app_reset_local_session a) = MSF2_OK" "fresh_session (snd (app_reset_local_session a))"
    "ap_view (snd (app_reset_local_session a)) = ap_view a" "ap_compressor_enabled (snd (app_reset_local_session a)) = ap_compressor_enabled a"
    "ad_fpga_session_ready (ap_diagnostics (snd (app_reset_local_session a))) = ad_fpga_session_ready (ap_diagnostics a)"
    "al_hardware (ap_link (snd (app_reset_local_session a))) = al_hardware (ap_link a)"
    "ad_session_epoch (ap_diagnostics (snd (app_reset_local_session a))) = ad_session_epoch (ap_diagnostics a)"
    "ap_periodic_modulation_enabled (snd (app_reset_local_session a)) = ap_periodic_modulation_enabled a"
proof -
  obtain d where d: "msf2_view_init d = Some (Inr (ap_view a))" using assms by (auto simp: accepted_view_def)
  define l where "l = ap_link (init_batch a)"
  have l: "al_hardware l = al_hardware (ap_link a)" "ba_word_count (al_command_batch l) = 0"
    by (simp_all add: l_def init_batch_def update_link_def update_runtime_def command_batch_init_def)
  obtain r where r: "msf2_runtime_init (ap_view a) APP_VOICE_COUNT l = Inr r"
    by (simp add: msf2_runtime_init_def APP_VOICE_COUNT_def MSF2_MAX_VOICE_COUNT_def)
  then have f: "rt_active_count r = 0" "rt_free_count r = 512" "rt_voices r = replicate 512 zero_voice" "rt_command_context r = l"
      "rt_control_tick_index r = 0" "rt_periodic_modulation_enabled r"
    by (auto simp: msf2_runtime_init_def APP_VOICE_COUNT_def MSF2_MAX_VOICE_COUNT_def split: if_splits)
  define r1 where "r1 = msf2_runtime_set_periodic_modulation_enabled (ap_periodic_modulation_enabled a) r"
  have g: "gentle r r1" unfolding r1_def by (rule gentle_periodic)
  have f1: "rt_active_count r1 = 0" "rt_free_count r1 = 512" "rt_voices r1 = replicate 512 zero_voice" "rt_command_context r1 = l"
      "rt_control_tick_index r1 = 0" "rt_periodic_modulation_enabled r1 = ap_periodic_modulation_enabled a"
    using f by (simp_all add: r1_def msf2_runtime_set_periodic_modulation_enabled_def)
  have "policy_ok (ap_view a) 512 (midi_policy_init r)"
    using policy_init_ok [OF d r] by (simp add: APP_VOICE_COUNT_def MSF2_MAX_VOICE_COUNT_def)
  then have ok: "policy_ok (ap_view a) 512 (midi_policy_init r1)"
    by (rule policy_ok_gentle) (simp_all add: midi_policy_init_def g)
  have view: "ap_view (init_batch a) = ap_view a" "ap_periodic_modulation_enabled (init_batch a) = ap_periodic_modulation_enabled a"
    by (simp_all add: init_batch_def update_link_def update_runtime_def)
  define a2 where "a2 = (init_batch a)\<lparr> ap_midi := midi_policy_init r1 \<rparr>"
  have e: "app_reset_local_session a = (MSF2_OK, diagnose (\<lambda>g. g\<lparr> ad_control_voice_evaluations := 0, ad_controller_voice_updates := 0,
        ad_control_completed_jobs := 0, ad_control_maximum_job_duration_ms := 0, ad_active_voices := 0, ad_maximum_active_voices := 0 \<rparr>)
      (update_link (\<lambda>l. l\<lparr> al_voice_start_millisecond := replicate APP_VOICE_COUNT 0 \<rparr>)
        (a2\<lparr> ap_control_job := (ap_control_job a2)\<lparr> cj_active := False \<rparr>, ap_completion_sequence := 0 \<rparr>)))"
    unfolding app_reset_local_session_def Let_def l_def [symmetric] view r sum.case prod.case r1_def [symmetric] a2_def ..
  have "accepted_view (ap_view a2)" "policy_ok (ap_view a2) 512 (ap_midi a2)" using assms ok view by (simp_all add: a2_def)
  then have a2: "app_ok (a2\<lparr> ap_control_job := (ap_control_job a2)\<lparr> cj_active := False \<rparr>, ap_completion_sequence := 0 \<rparr>)"
    by (simp add: app_ok_def job_ok_def)
  show "fst (app_reset_local_session a) = MSF2_OK" by (simp add: e)
  have run: "ap_runtime a2 = r1" by (simp add: a2_def midi_policy_init_def)
  show "fresh_session (snd (app_reset_local_session a))"
    using a2 f1 l(2) by (simp add: e fresh_session_def run) (simp add: diagnose_def update_link_def update_runtime_def run a2_def zero_voice_def list_all_iff view)
  show "ap_view (snd (app_reset_local_session a)) = ap_view a" "ap_compressor_enabled (snd (app_reset_local_session a)) = ap_compressor_enabled a"
    "ad_fpga_session_ready (ap_diagnostics (snd (app_reset_local_session a))) = ad_fpga_session_ready (ap_diagnostics a)"
    "al_hardware (ap_link (snd (app_reset_local_session a))) = al_hardware (ap_link a)"
    "ad_session_epoch (ap_diagnostics (snd (app_reset_local_session a))) = ad_session_epoch (ap_diagnostics a)"
    "ap_periodic_modulation_enabled (snd (app_reset_local_session a)) = ap_periodic_modulation_enabled a"
    using l f1(4) by (simp_all add: e diagnose_def update_link_def update_runtime_def a2_def init_batch_def midi_policy_init_def)
qed

lemma fresh_ok: "fresh_session a \<Longrightarrow> app_ok a"
  by (simp add: fresh_session_def)

lemma mark_offline_ok: "app_ok a \<Longrightarrow> app_ok (snd (app_mark_session_offline a))"
  using reset_local_session(2) [of "diagnose (\<lambda>g. g\<lparr> ad_fpga_session_ready := False, ad_fpga_disconnect_count := ad_fpga_disconnect_count g + 1 \<rparr>) a"]
  by (auto simp: app_mark_session_offline_def Let_def fresh_ok app_ok_def [of a] split: prod.split)

text \<open>The outcome of a reset: success leaves a fresh session that is ready; failure leaves a session that is not.\<close>

lemma fresh_simps [simp]:
  "fresh_session (diagnose g a) = fresh_session a" "fresh_session (update_link (\<lambda>l. l\<lparr> al_hardware := d \<rparr>) a) = fresh_session a"
  by (simp_all add: fresh_session_def diagnose_def update_link_def update_runtime_def app_ok_def policy_ok_context)

definition offline_session :: "'d app_synth \<Rightarrow> bool" where
  "offline_session a \<longleftrightarrow> \<not> ad_fpga_session_ready (ap_diagnostics a) \<and> \<not> cj_active (ap_control_job a) \<and>
     ba_word_count (al_command_batch (ap_link a)) = 0"

lemma fresh_offline: "fresh_session a \<Longrightarrow> \<not> ad_fpga_session_ready (ap_diagnostics a) \<Longrightarrow> offline_session a"
  by (simp add: fresh_session_def offline_session_def)

lemma session_failed_offline: "offline_session a \<Longrightarrow> offline_session (snd (session_failed r c a))"
  by (simp add: offline_session_def session_failed_def)

lemma offline_hardware: "offline_session (update_link (\<lambda>l. l\<lparr> al_hardware := d \<rparr>) a) = offline_session a"
  by (simp add: offline_session_def)

lemma session_reset_cases:
  assumes "accepted_view (ap_view a)"
  obtains (success) a' where "app_perform_render_session_reset pf a = (0, a')" "fresh_session a'" "ad_fpga_session_ready (ap_diagnostics a')"
    "ap_view a' = ap_view a" "ap_compressor_enabled a' = ap_compressor_enabled a"
  | (failed) a' code where "app_perform_render_session_reset pf a = (code, a')" "code \<noteq> 0" "offline_session a'" "ap_view a' = ap_view a"
    "app_ok a \<Longrightarrow> app_ok a'"
proof -
  define a2 where "a2 = init_batch ((diagnose (\<lambda>g. g\<lparr> ad_fpga_session_ready := False \<rparr>) a)\<lparr> ap_control_job := (ap_control_job a)\<lparr> cj_active := False \<rparr> \<rparr>)"
  have a2: "offline_session a2" "ap_view a2 = ap_view a" "ap_compressor_enabled a2 = ap_compressor_enabled a" "app_ok a \<Longrightarrow> app_ok a2"
    by (simp_all add: a2_def offline_session_def) (simp_all add: init_batch_def command_batch_init_def)
  obtain idle a3 where w: "on_hardware (\<lambda>d. pf_wait_idle pf d 100000) a2 = (idle, a3)" by fastforce
  then have a3: "offline_session a3" "ap_view a3 = ap_view a" "ap_compressor_enabled a3 = ap_compressor_enabled a" "app_ok a \<Longrightarrow> app_ok a3"
    using a2 by (auto simp: on_hardware_eq offline_hardware)
  obtain x a4 where e: "on_hardware (fpga_spi_reset_session (pf_write pf) (pf_exchange pf) SYNTH_REG_RENDER_SESSION_EPOCH
      APP_FPGA_SESSION_RESET_POLL_LIMIT APP_REGISTER_FETCH_ATTEMPT_LIMIT) a3 = (x, a4)" by fastforce
  then have a4: "offline_session a4" "ap_view a4 = ap_view a" "ap_compressor_enabled a4 = ap_compressor_enabled a" "app_ok a \<Longrightarrow> app_ok a4"
    using a3 by (auto simp: on_hardware_eq offline_hardware)
  note unfolded = app_perform_render_session_reset_def Let_def a2_def [symmetric] diagnose_simps w prod.case e
  have fail: "thesis" if "app_perform_render_session_reset pf a = session_failed r c a'" "c \<noteq> 0" "offline_session a'" "ap_view a' = ap_view a" "app_ok a \<Longrightarrow> app_ok a'" for r c a'
    using that session_failed_offline [of a' r c] by (intro failed [of c "snd (session_failed r c a')"]) (auto simp: session_failed_def)
  show thesis
  proof (cases "idle = 0 \<and> x \<noteq> None")
    case False
    then show thesis
      by (cases "idle = 0") (auto simp: unfolded intro: fail a3 a4)
  next
    case True
    then obtain epoch where epoch: "idle = 0" "x = Some epoch" by auto
    define a5 where "a5 = diagnose (\<lambda>g. g\<lparr> ad_session_reset_result := 0, ad_session_epoch := epoch \<rparr>) a4"
    have "accepted_view (ap_view a5)" using a4 assms by (simp add: a5_def)
    note reset = reset_local_session [OF this]
    obtain a6 where a6: "app_reset_local_session a5 = (MSF2_OK, a6)" using reset(1) by (cases "app_reset_local_session a5") auto
    have f6: "fresh_session a6" "ap_view a6 = ap_view a" "ap_compressor_enabled a6 = ap_compressor_enabled a" "offline_session a6"
      using reset a4 a6 fresh_offline [of a6] by (simp_all add: a5_def offline_session_def)
    obtain sent a7 where s: "on_hardware (fpga_spi_send_commands (pf_write pf) (audio_session_compressor_build (ap_compressor_enabled a6))) a6 = (sent, a7)"
      by fastforce
    then have f7: "fresh_session a7" "ap_view a7 = ap_view a" "ap_compressor_enabled a7 = ap_compressor_enabled a" "offline_session a7"
      using f6 by (auto simp: on_hardware_eq offline_hardware)
    have "app_perform_render_session_reset pf a = (if sent \<noteq> 0 then session_failed sent (- 1) a7 else
        (0, diagnose (\<lambda>g. g\<lparr> ad_session_reset_result := 0, ad_session_reset_count := ad_session_reset_count g + 1, ad_fpga_session_ready := True \<rparr>) a7))"
      by (simp add: unfolded epoch a5_def [symmetric] a6 s)
    then show thesis using fail [of sent "- 1" a7] success f7 fresh_ok by (cases "sent = 0") auto
  qed
qed

lemma session_reset_ok: "app_ok a \<Longrightarrow> app_ok (snd (app_perform_render_session_reset pf a))"
  by (rule session_reset_cases [of a pf]) (auto simp: app_ok_def [of a] fresh_ok)

section \<open>Calls in any order\<close>

lemma policy_step_app:
  assumes "app_ok a" and "policy_allowed e"
  obtains m where "policy_event_step sink e (ap_midi a) = Some m" and "app_ok (a\<lparr> ap_midi := m \<rparr>)"
  using policy_event_ok [OF app_ok_policy [OF assms(1)] assms(2), of sink] app_ok_midi [OF assms(1)] by blast

lemma consume_completion_ok: "app_ok a \<Longrightarrow> app_ok (snd (app_consume_completion item t a))"
proof -
  assume a: "app_ok a"
  have "app_ok (update_runtime (\<lambda>_. snd (msf2_runtime_complete_voice v (ap_runtime a1))) a1)" if "app_ok a1" for v and a1 :: "'a app_synth"
    by (rule policy_step_app [OF that, of "Policy_Runtime (Complete_Voice v)" "\<lambda>c w. (0, c)"]) (simp_all add: update_runtime_def)
  from this [of "diagnose g a" v for g v] show ?thesis
    using a by (simp add: app_consume_completion_def Let_def case_prod_unfold)
qed

lemma consume_completions_ok: "app_ok a \<Longrightarrow> app_ok (snd (consume_completions items t a))"
  by (induction items arbitrary: a) (simp_all add: case_prod_unfold consume_completion_ok)

lemma service_completions_ok:
  assumes "app_ok a"
  shows "app_ok (snd (app_synth_service_completions pf t a))"
  using assms
  by (simp add: app_synth_service_completions_def Let_def on_hardware_eq add_completion_failures_def case_prod_unfold
      mark_offline_ok session_reset_ok consume_completions_ok split: option.split bool.split)

lemma observe_ok [simp]: "app_ok (snd (observe_fpga pf a)) = app_ok a"
  by (simp add: observe_fpga_def Let_def case_prod_unfold)

lemma check_counters_ok [simp]: "app_ok (snd (check_counters pf t b a)) = app_ok a"
  by (simp add: check_counters_def Let_def case_prod_unfold split: option.split)

lemma restore_session_ok: "app_ok a \<Longrightarrow> app_ok (snd (restore_session pf t a))"
  by (simp add: restore_session_def Let_def note_monitor_failure_def case_prod_unfold session_reset_ok split: option.split)

lemma monitor_transport_ok: "app_ok a \<Longrightarrow> app_ok (snd (app_synth_monitor_transport pf t a))"
  by (simp add: app_synth_monitor_transport_def Let_def on_hardware_eq note_monitor_failure_def case_prod_unfold
      mark_offline_ok restore_session_ok)

lemma job_ok_idle [simp]: "job_ok (job\<lparr> cj_active := False \<rparr>)"
  by (simp add: job_ok_def)

lemma app_ok_job: "app_ok a \<Longrightarrow> job_ok job \<Longrightarrow> app_ok (a\<lparr> ap_control_job := job \<rparr>)"
  by (simp add: app_ok_def)

lemma finish_job_ok: "app_ok a \<Longrightarrow> app_ok (finish_control_job t a)"
  by (simp add: finish_control_job_def Let_def app_ok_job app_ok_runtime gentle_complete_control)

lemma start_job_ok:
  assumes "app_ok a" and "ticks \<noteq> 0"
  shows "app_ok (start_control_job t ticks a)" "cj_active (ap_control_job (start_control_job t ticks a))"
  using assms app_ok_policy [OF assms(1)]
  by (auto simp: start_control_job_def msf2_runtime_capture_control_snapshot_def policy_ok_def job_ok_def APP_VOICE_COUNT_def
      MSF2_MAX_VOICE_COUNT_def MSF2_CHANNEL_COUNT_def intro!: app_ok_job)

lemma slice_runs:
  assumes "app_ok a"
  obtains result r where "msf2_runtime_advance_control_slice sink voices first n ticks (ap_runtime a) = Some (result, r)"
    and "app_ok (update_runtime (\<lambda>_. r) a)"
proof -
  have "runtime_ok (ap_runtime a)" using app_ok_policy [OF assms] by (simp add: policy_ok_def)
  from advance_slice_runs [OF this] obtain result r where
    "msf2_runtime_advance_control_slice sink voices first n ticks (ap_runtime a) = Some (result, r)" "gentle (ap_runtime a) r"
    unfolding runs_def by blast
  then show thesis using that app_ok_runtime [OF assms, of "\<lambda>_. r"] by simp
qed

lemma cj_active_runtime [simp]: "ap_control_job (update_runtime f a) = ap_control_job a"
  by (simp add: update_runtime_def)

text \<open>A slice keeps the count of control ticks.\<close>

definition same_tick :: "'c msf2_runtime \<Rightarrow> (msf2_result \<times> 'c msf2_runtime) option \<Rightarrow> bool" where
  "same_tick r m \<longleftrightarrow> (\<forall>e r'. m = Some (e, r') \<longrightarrow> rt_control_tick_index r' = rt_control_tick_index r)"

lemma tick_simps [simp]:
  "rt_control_tick_index (set_voice v x r) = rt_control_tick_index r" "rt_control_tick_index (update_stats f r) = rt_control_tick_index r"
  "rt_control_tick_index (snd (emit_command sink w r)) = rt_control_tick_index r"
  "rt_control_tick_index (snd (emit_short sink op v g y r)) = rt_control_tick_index r"
  by (simp_all add: set_voice_def update_stats_def emit_short_def emit_command_keeps)

lemma same_tick_some: "same_tick r (Some x) \<longleftrightarrow> rt_control_tick_index (snd x) = rt_control_tick_index r"
  by (cases x) (simp add: same_tick_def)

lemma same_tick_bind: "(\<And>x. same_tick r (f x)) \<Longrightarrow> same_tick r (m \<bind> f)"
  by (cases m) (simp_all add: same_tick_def)

lemma same_tick_if: "same_tick r x \<Longrightarrow> same_tick r y \<Longrightarrow> same_tick r (if b then x else y)"
  by simp

lemma same_tick_and_then: "same_tick r m \<Longrightarrow> (\<And>r'. same_tick r' (f r')) \<Longrightarrow> same_tick r (and_then m f)"
  by (auto simp: same_tick_def and_then_def case_result_opt bind_eq_Some_conv split: if_splits)

lemma same_tick_after: "rt_control_tick_index r' = rt_control_tick_index r \<Longrightarrow> same_tick r' m \<Longrightarrow> same_tick r m"
  by (simp add: same_tick_def)

lemma refresh_same_tick:
  "same_tick r (refresh_pitch sink v inputs r)" "same_tick r (refresh_gain sink v inputs r)" "same_tick r (refresh_filter sink v inputs r)"
  by (cases inputs; auto simp: refresh_pitch_def refresh_gain_def refresh_filter_def Let_def case_result same_tick_some intro!: same_tick_bind same_tick_if)+

lemma refresh_voice_same_tick: "same_tick r (refresh_voice sink v groups r)"
proof -
  let ?r1 = "update_stats (\<lambda>s. s\<lparr> st_control_voice_evaluations := st_control_voice_evaluations s + 1 \<rparr>) r"
  have "same_tick r' (when_group groups b (refresh_pitch sink v inputs) r')" "same_tick r' (when_group groups b (refresh_gain sink v inputs) r')"
    "same_tick r' (when_group groups b (refresh_filter sink v inputs) r')" for r' b inputs
    by (simp_all add: when_group_def refresh_same_tick same_tick_some)
  then show ?thesis unfolding refresh_voice_def Let_def
    by (intro same_tick_if same_tick_after [where r' = ?r1 and r = r] same_tick_and_then) (simp_all add: same_tick_some)
qed

lemma slice_same_tick: "same_tick r (msf2_runtime_advance_control_slice sink voices first n ticks r)"
proof -
  have voice: "same_tick r (advance_voice_modulation_elapsed sink v ticks r)" for v and r :: "'a msf2_runtime"
    unfolding advance_voice_modulation_elapsed_def Let_def
    by (intro same_tick_if same_tick_and_then same_tick_after [OF _ refresh_voice_same_tick]) (simp_all add: same_tick_some)
  have "same_tick r (slice_loop sink voices ticks vs r)" for vs and r :: "'a msf2_runtime"
  proof (induction vs arbitrary: r)
    case (Cons v vs)
    have "same_tick r (slice_voice sink voices ticks v r)" by (simp add: slice_voice_def Let_def voice same_tick_some)
    then show ?case using Cons by (simp add: same_tick_and_then)
  qed (simp add: same_tick_some)
  then show ?thesis by (simp add: msf2_runtime_advance_control_slice_def same_tick_some)
qed

definition next_slice :: "app_control_job_state \<Rightarrow> nat" where
  "next_slice job = min 16 (512 - cj_voice_cursor job)"

text \<open>What a service call does with a job: its next slice, and the end of the job when that was the last.\<close>

lemma run_job_shape:
  fixes a :: "'d app_synth"
  assumes "app_ok a"
  defines "job \<equiv> (ap_control_job a)\<lparr> cj_voice_cursor := cj_voice_cursor (ap_control_job a) + next_slice (ap_control_job a) \<rparr>"
  obtains result r a1 where
    "run_control_job pf t a = Some (if result \<noteq> MSF2_OK then (- result_code result, update_runtime (\<lambda>_. r) a)
       else (0, if cj_voice_cursor job \<noteq> 512 then a1 else finish_control_job t a1))"
    "a1 = (update_runtime (\<lambda>_. r) a)\<lparr> ap_control_job := job \<rparr>" "app_ok a1" "app_ok (update_runtime (\<lambda>_. r) a)"
    "rt_control_tick_index r = rt_control_tick_index (ap_runtime a)"
proof -
  let ?job = "ap_control_job a"
  let ?n = "next_slice ?job"
  have n: "(if APP_VOICE_COUNT - cj_voice_cursor ?job > APP_CONTROL_VOICE_SLICE then APP_CONTROL_VOICE_SLICE else APP_VOICE_COUNT - cj_voice_cursor ?job) = ?n"
    by (simp add: next_slice_def APP_VOICE_COUNT_def MSF2_MAX_VOICE_COUNT_def APP_CONTROL_VOICE_SLICE_def min_def)
  obtain result r where r: "(if ?n = 0 then Some (MSF2_OK, ap_runtime a)
      else msf2_runtime_advance_control_slice (app_command_sink pf) (cj_voices ?job) (cj_voice_cursor ?job) ?n (cj_elapsed_ticks ?job) (ap_runtime a)) =
      Some (result, r)" and ok: "app_ok (update_runtime (\<lambda>_. r) a)" and tick: "rt_control_tick_index r = rt_control_tick_index (ap_runtime a)"
  proof (cases "?n = 0")
    case True
    show thesis by (rule that [of MSF2_OK "ap_runtime a"]) (use True assms in \<open>simp_all add: update_runtime_def app_ok_midi app_ok_policy\<close>)
  next
    case False
    obtain result r where "msf2_runtime_advance_control_slice (app_command_sink pf) (cj_voices ?job) (cj_voice_cursor ?job) ?n
        (cj_elapsed_ticks ?job) (ap_runtime a) = Some (result, r)" "app_ok (update_runtime (\<lambda>_. r) a)" by (rule slice_runs [OF assms(1)])
    then show thesis using that False slice_same_tick [of "ap_runtime a" "app_command_sink pf" "cj_voices ?job"] by (simp add: same_tick_def)
  qed
  have "job_ok job" using assms(1) by (auto simp: job_def app_ok_def job_ok_def next_slice_def)
  note next_ok = app_ok_job [OF ok this]
  have "run_control_job pf t a = Some (if result \<noteq> MSF2_OK then (- result_code result, update_runtime (\<lambda>_. r) a)
       else (0, if cj_voice_cursor job \<noteq> 512 then (update_runtime (\<lambda>_. r) a)\<lparr> ap_control_job := job \<rparr>
         else finish_control_job t ((update_runtime (\<lambda>_. r) a)\<lparr> ap_control_job := job \<rparr>)))"
    unfolding run_control_job_def Let_def n r by (simp add: job_def APP_VOICE_COUNT_def MSF2_MAX_VOICE_COUNT_def)
  then show thesis using that [OF _ refl] next_ok ok tick by blast
qed

lemma run_job_ok:
  assumes "app_ok a"
  shows "\<exists>code a'. run_control_job pf t a = Some (code, a') \<and> app_ok a'"
  by (rule run_job_shape [OF assms, of pf t]) (auto simp: finish_job_ok)

lemma service_ok:
  assumes "app_ok a"
  shows "\<exists>code a'. app_synth_service pf t a = Some (code, a') \<and> app_ok a'"
proof -
  have "elapsed \<noteq> 0" if "\<not> elapsed < APP_CONTROL_UPDATE_PERIOD_MS" for elapsed :: u32
    using that by (auto simp: APP_CONTROL_UPDATE_PERIOD_MS_def)
  then have "\<not> t - ap_last_control_millisecond a < APP_CONTROL_UPDATE_PERIOD_MS \<Longrightarrow>
      \<exists>code a'. run_control_job pf t (start_control_job t (t - ap_last_control_millisecond a) a) = Some (code, a') \<and> app_ok a'"
    by (intro run_job_ok start_job_ok(1) assms)
  then show ?thesis
    using assms run_job_ok [OF assms] by (simp add: app_synth_service_def Let_def)
qed

datatype app_call =
    App_Note_On u8 u8 u8
  | App_Note_Off u8 u8
  | App_Control_Change u8 u8 u8
  | App_Program_Change u8 u8
  | App_Pitch_Bend u8 u8 u8
  | App_Channel_Pressure u8 u8
  | App_Key_Pressure u8 u8 u8
  | App_System_Reset
  | App_All_Sound_Off
  | App_Release_All
  | App_Flush
  | App_Service u32
  | App_Service_Completions u32
  | App_Monitor_Transport u32
  | App_Session_Reset
  | App_Toggle_Periodic_Modulation
  | App_Set_Compressor bool
  | App_Debug_Read u16
  | App_Debug_Flush

text \<open>The effect of a call; \<open>None\<close> is a read out of bounds. The result is for the caller.\<close>

fun app_call_step :: "'d platform \<Rightarrow> app_call \<Rightarrow> 'd app_synth \<Rightarrow> 'd app_synth option" where
  "app_call_step pf (App_Note_On channel key velocity) a = map_option snd (app_midi_note_on pf channel key velocity a)"
| "app_call_step pf (App_Note_Off channel key) a = Some (snd (app_midi_note_off pf channel key a))"
| "app_call_step pf (App_Control_Change channel controller v) a = Some (snd (app_midi_control_change pf channel controller v a))"
| "app_call_step pf (App_Program_Change channel program) a = Some (app_midi_program_change channel program a)"
| "app_call_step pf (App_Pitch_Bend channel lsb msb) a = Some (snd (app_midi_pitch_bend channel lsb msb a))"
| "app_call_step pf (App_Channel_Pressure channel pressure) a = Some (snd (app_midi_channel_pressure channel pressure a))"
| "app_call_step pf (App_Key_Pressure channel key pressure) a = Some (snd (app_midi_key_pressure channel key pressure a))"
| "app_call_step pf App_System_Reset a = Some (snd (app_midi_system_reset pf a))"
| "app_call_step pf App_All_Sound_Off a = Some (snd (app_midi_all_sound_off pf a))"
| "app_call_step pf App_Release_All a = Some (snd (app_midi_release_all pf a))"
| "app_call_step pf App_Flush a = Some (snd (app_synth_flush_commands pf a))"
| "app_call_step pf (App_Service t) a = map_option snd (app_synth_service pf t a)"
| "app_call_step pf (App_Service_Completions t) a = Some (snd (app_synth_service_completions pf t a))"
| "app_call_step pf (App_Monitor_Transport t) a = Some (snd (app_synth_monitor_transport pf t a))"
| "app_call_step pf App_Session_Reset a = Some (snd (app_perform_render_session_reset pf a))"
| "app_call_step pf App_Toggle_Periodic_Modulation a = Some (snd (app_synth_toggle_periodic_modulation a))"
| "app_call_step pf (App_Set_Compressor enabled) a = Some (snd (app_synth_set_compressor_enabled pf enabled a))"
| "app_call_step pf (App_Debug_Read address) a = Some (snd (app_fpga_debug_read_register pf address a))"
| "app_call_step pf App_Debug_Flush a = Some (snd (app_fpga_debug_flush pf a))"

fun app_run :: "'d platform \<Rightarrow> app_call list \<Rightarrow> 'd app_synth \<Rightarrow> 'd app_synth option" where
  "app_run pf [] a = Some a"
| "app_run pf (e # es) a = do { a1 \<leftarrow> app_call_step pf e a; app_run pf es a1 }"

lemma policy_call_ok:
  assumes "app_ok a" and "policy_allowed e" and "policy_event_step sink e (ap_midi a) = Some (snd (f (ap_midi a)))"
  shows "app_ok (snd (on_midi f a))"
  using policy_step_app [OF assms(1,2), of sink] assms(3) by (auto simp: on_midi_def case_prod_unfold)

lemma sound_off_channels_ok: "policy_ok vw n p \<Longrightarrow> policy_ok vw n (snd (sound_off_channels sink cs p))"
proof (induction cs arbitrary: p)
  case (Cons c cs)
  have "policy_ok vw n (snd (on_runtime (msf2_runtime_all_sound_off sink c) p))"
    by (rule on_runtime_ok [OF Cons.prems]) (rule gentle_all_sound_off [OF policy_ok_pool [OF Cons.prems]])
  then show ?case using Cons.IH by (simp add: case_result)
qed simp

lemma note_on_call_ok:
  assumes "app_ok a"
  shows "\<exists>code a'. app_midi_note_on pf channel key velocity a = Some (code, a') \<and> app_ok a'"
proof -
  obtain e m p' where "midi_policy_note_on (app_command_sink pf) channel key velocity (ap_midi a) = Some (e, m, p')" "policy_ok (ap_view a) 512 p'"
    using policy_note_on_ok [OF app_ok_policy [OF assms]] by blast
  then show ?thesis using assms by (simp add: app_midi_note_on_def app_ok_midi)
qed

lemma app_call_ok:
  assumes "app_ok a"
  shows "\<exists>a'. app_call_step pf e a = Some a' \<and> app_ok a'"
proof (cases e)
  case (App_Note_On channel key velocity)
  then show ?thesis using note_on_call_ok [OF assms] by fastforce
next
  case (App_Service t)
  then show ?thesis using service_ok [OF assms] by fastforce
next
  case (App_Control_Change channel controller v)
  have "app_ok (snd (on_midi (midi_policy_control_change (app_command_sink pf) channel controller v) a))"
    by (rule app_ok_on_midi [OF assms]) (rule control_change_ok [OF app_ok_policy [OF assms]])
  then show ?thesis using assms App_Control_Change by (simp add: app_midi_control_change_def)
next
  case (App_Set_Compressor enabled)
  then show ?thesis using assms by (simp add: app_synth_set_compressor_enabled_def case_prod_unfold Let_def)
next
  case (App_Debug_Read address)
  then show ?thesis using assms by (simp add: app_fpga_debug_read_register_def on_hardware_eq case_prod_unfold)
next
  case App_Debug_Flush
  then show ?thesis using assms by (simp add: app_fpga_debug_flush_def on_hardware_eq case_prod_unfold)
next
  case App_Toggle_Periodic_Modulation
  then show ?thesis using assms by (simp add: app_synth_toggle_periodic_modulation_def Let_def app_ok_runtime gentle_periodic)
qed (use assms app_ok_policy [OF assms] in \<open>simp_all add: app_midi_note_off_def app_midi_program_change_def app_midi_pitch_bend_def
    app_midi_channel_pressure_def app_midi_key_pressure_def app_midi_system_reset_def app_midi_all_sound_off_def app_midi_release_all_def
    midi_policy_note_off_def midi_policy_program_change_def midi_policy_system_reset_def midi_policy_release_all_def Let_def
    app_ok_on_midi on_runtime_ok gentle_note_off gentle_release_all gentle_setters policy_ok_pool reset_channels_ok sound_off_channels_ok
    service_completions_ok monitor_transport_ok session_reset_ok\<close>)

lemma app_run_ok: "app_ok a \<Longrightarrow> \<exists>a'. app_run pf es a = Some a' \<and> app_ok a'"
proof (induction es arbitrary: a)
  case (Cons e es)
  then show ?case using app_call_ok [OF Cons.prems, of pf e] by auto
qed simp

end
