(* ===== verification/Synth_Behaviour.thy ===== *)
theory Synth_Behaviour
  imports Synth_Session
begin

text \<open>
  What the control plane achieves: start-up fails closed, the calls of the main loop keep the invariant whatever the
  platform does, completions free exactly the voices they name, and the background control job accounts for all time.
\<close>

section \<open>The control job\<close>

text \<open>Service calls one after the other, with their results.\<close>

fun service_run :: "'d platform \<Rightarrow> u32 list \<Rightarrow> 'd app_synth \<Rightarrow> (int list \<times> 'd app_synth) option" where
  "service_run pf [] a = Some ([], a)"
| "service_run pf (t # ts) a =
     do { (code, a1) \<leftarrow> app_synth_service pf t a; (codes, a2) \<leftarrow> service_run pf ts a1; Some (code # codes, a2) }"

definition job_running :: "'d app_synth \<Rightarrow> bool" where
  "job_running a \<longleftrightarrow> app_ok a \<and> ad_fpga_session_ready (ap_diagnostics a) \<and> cj_active (ap_control_job a)"

lemma runtime_simps [simp]:
  "ap_diagnostics (update_runtime f a) = ap_diagnostics a" "ap_last_control_millisecond (update_runtime f a) = ap_last_control_millisecond a"
  "ap_runtime (update_runtime f a) = f (ap_runtime a)"
  by (simp_all add: update_runtime_def)

lemma finished_job:
  assumes "cj_elapsed_ticks (ap_control_job a) \<noteq> 0"
  shows "ad_fpga_session_ready (ap_diagnostics (finish_control_job t a)) = ad_fpga_session_ready (ap_diagnostics a)"
    "\<not> cj_active (ap_control_job (finish_control_job t a))"
    "ap_last_control_millisecond (finish_control_job t a) = cj_target_millisecond (ap_control_job a)"
    "rt_control_tick_index (ap_runtime (finish_control_job t a)) = rt_control_tick_index (ap_runtime a) + cj_elapsed_ticks (ap_control_job a)"
  using assms
  by (simp_all add: finish_control_job_def Let_def app_refresh_runtime_diagnostics_def msf2_runtime_complete_control_def advance_ticks_index_def)

lemma service_running:
  assumes "job_running a" and "app_synth_service pf t a = Some (0, a')"
  defines "job \<equiv> ap_control_job a" and "job' \<equiv> ap_control_job a'"
  shows "if cj_voice_cursor job + next_slice job = 512
    then app_ok a' \<and> ad_fpga_session_ready (ap_diagnostics a') \<and> \<not> cj_active job' \<and> ap_last_control_millisecond a' = cj_target_millisecond job \<and>
      rt_control_tick_index (ap_runtime a') = rt_control_tick_index (ap_runtime a) + cj_elapsed_ticks job
    else job_running a' \<and> job' = job\<lparr> cj_voice_cursor := cj_voice_cursor job + next_slice job \<rparr> \<and>
      ap_last_control_millisecond a' = ap_last_control_millisecond a \<and> rt_control_tick_index (ap_runtime a') = rt_control_tick_index (ap_runtime a)"
proof -
  have a: "app_ok a" "ad_fpga_session_ready (ap_diagnostics a)" "cj_active job" using assms by (simp_all add: job_running_def)
  have ticks: "cj_elapsed_ticks job \<noteq> 0" using a by (simp add: app_ok_def job_ok_def job_def)
  have run: "run_control_job pf t a = Some (0, a')" using assms(2) a by (simp add: app_synth_service_def job_def)
  show ?thesis
  proof (rule run_job_shape [OF a(1), of pf t], fold job_def)
    fix result r a1
    assume s: "run_control_job pf t a = Some (if result \<noteq> MSF2_OK then (- result_code result, update_runtime (\<lambda>_. r) a)
        else (0, if cj_voice_cursor (job\<lparr> cj_voice_cursor := cj_voice_cursor job + next_slice job \<rparr>) \<noteq> 512 then a1 else finish_control_job t a1))"
      and a1: "a1 = (update_runtime (\<lambda>_. r) a)\<lparr> ap_control_job := job\<lparr> cj_voice_cursor := cj_voice_cursor job + next_slice job \<rparr> \<rparr>" "app_ok a1"
      and tick: "rt_control_tick_index r = rt_control_tick_index (ap_runtime a)"
    have "result = MSF2_OK" using s run by (cases result) auto
    then have "a' = (if cj_voice_cursor job + next_slice job \<noteq> 512 then a1 else finish_control_job t a1)" using s run by auto
    moreover have "ap_runtime a1 = r" "ad_fpga_session_ready (ap_diagnostics a1)" "ap_last_control_millisecond a1 = ap_last_control_millisecond a"
      "ap_control_job a1 = job\<lparr> cj_voice_cursor := cj_voice_cursor job + next_slice job \<rparr>"
      using a1 a by (simp_all)
    ultimately show ?thesis
      using a1(2) a(3) tick finish_job_ok [OF a1(2), of t] finished_job [of a1 t] ticks by (simp add: job_running_def job'_def)
  qed
qed

lemma slices_running:
  assumes "job_running a" and "service_run pf ts a = Some (codes, a')" and "list_all (\<lambda>code. code = 0) codes"
    and "cj_voice_cursor (ap_control_job a) + 16 * length ts < 512"
  shows "job_running a' \<and> ap_control_job a' = (ap_control_job a)\<lparr> cj_voice_cursor := cj_voice_cursor (ap_control_job a) + 16 * length ts \<rparr> \<and>
    ap_last_control_millisecond a' = ap_last_control_millisecond a \<and> rt_control_tick_index (ap_runtime a') = rt_control_tick_index (ap_runtime a)"
  using assms
proof (induction ts arbitrary: a codes)
  case (Cons t ts)
  obtain a1 cs where s: "app_synth_service pf t a = Some (0, a1)" "service_run pf ts a1 = Some (cs, a')" "list_all (\<lambda>code. code = 0) cs"
    using Cons.prems(2,3) by (auto simp: bind_eq_Some_conv)
  have "next_slice (ap_control_job a) = 16" using Cons.prems(4) by (simp add: next_slice_def)
  then show ?case using service_running [OF Cons.prems(1) s(1)] Cons.IH [OF _ s(2,3)] Cons.prems(4) by (simp add: algebra_simps)
qed simp

lemma service_run_snoc:
  "service_run pf (us @ [u]) a = Some (codes, a') \<Longrightarrow>
     \<exists>cs c a1. service_run pf us a = Some (cs, a1) \<and> app_synth_service pf u a1 = Some (c, a') \<and> codes = cs @ [c]"
  by (induction us arbitrary: a codes) (fastforce simp: bind_eq_Some_conv)+

text \<open>C29: The background control job accounts for all elapsed time, in a bounded number of calls. In a ready session with no job
  running and at least 5 ms since the last one, service calls that all succeed complete a job after exactly 32 calls (16 voice
  slots each) when voices are active and at the first call otherwise: the control clock has then advanced by exactly the
  milliseconds that had passed when the job began, and that moment becomes the new reference time. Before the last call the job
  is still running and neither clock has moved, so no time is counted twice or lost.\<close>

theorem control_job_accounts_for_time:
  assumes "app_ok a" and "ad_fpga_session_ready (ap_diagnostics a)" and "\<not> cj_active (ap_control_job a)"
    and "t - ap_last_control_millisecond a \<ge> 5"
    and "service_run pf (t # ts) a = Some (codes, a')" and "list_all (\<lambda>code. code = 0) codes"
    and "calls = (if rt_active_count (ap_runtime a) = 0 then 1 else 32)" and "length (t # ts) \<le> calls"
  shows "if length (t # ts) = calls
    then \<not> cj_active (ap_control_job a') \<and> ap_last_control_millisecond a' = t \<and>
      rt_control_tick_index (ap_runtime a') = rt_control_tick_index (ap_runtime a) + (t - ap_last_control_millisecond a)
    else cj_active (ap_control_job a') \<and> ap_last_control_millisecond a' = ap_last_control_millisecond a \<and>
      rt_control_tick_index (ap_runtime a') = rt_control_tick_index (ap_runtime a)"
proof -
  let ?ticks = "t - ap_last_control_millisecond a"
  define a0 where "a0 = start_control_job t ?ticks a"
  have ticks: "?ticks \<noteq> 0" using assms(4) by auto
  have a0: "job_running a0" "cj_target_millisecond (ap_control_job a0) = t" "cj_elapsed_ticks (ap_control_job a0) = ?ticks" "ap_runtime a0 = ap_runtime a"
      "cj_voice_cursor (ap_control_job a0) = (if rt_active_count (ap_runtime a) = 0 then 512 else 0)"
      "ap_last_control_millisecond a0 = ap_last_control_millisecond a"
    using start_job_ok [OF assms(1) ticks, of t] assms(2)
    by (simp_all add: a0_def job_running_def start_control_job_def case_prod_unfold APP_VOICE_COUNT_def MSF2_MAX_VOICE_COUNT_def)
  have "app_synth_service pf t a = app_synth_service pf t a0"
    using assms(2-4) a0(1) by (simp add: app_synth_service_def Let_def APP_CONTROL_UPDATE_PERIOD_MS_def leD job_running_def a0_def)
  then have run: "service_run pf (t # ts) a0 = Some (codes, a')" using assms(5) by simp
  show ?thesis
  proof (cases "rt_active_count (ap_runtime a) = 0")
    case True
    then have "ts = []" using assms(7,8) by simp
    then have "app_synth_service pf t a0 = Some (0, a')" using run assms(6) by (auto simp: bind_eq_Some_conv)
    then show ?thesis using service_running [OF a0(1), of pf t a'] True a0 assms(7) \<open>ts = []\<close> by (simp add: next_slice_def)
  next
    case False
    show ?thesis
    proof (cases "length (t # ts) = 32")
      case True
      obtain us u where us: "t # ts = us @ [u]" using rev_exhaust [of "t # ts"] by auto
      then have n: "length us = 31" using True by (simp del: length_Cons)
      obtain cs a1 where s: "service_run pf us a0 = Some (cs, a1)" "list_all (\<lambda>code. code = 0) cs" "app_synth_service pf u a1 = Some (0, a')"
        using run assms(6) unfolding us by (auto dest: service_run_snoc)
      show ?thesis
        using slices_running [OF a0(1) s(1,2)] service_running [of a1 pf u a', OF _ s(3)] False True n a0 assms(7) by (simp add: next_slice_def)
    next
      case long: False
      then show ?thesis
        using slices_running [OF a0(1) run assms(6)] False a0 assms(7,8) by (simp add: job_running_def)
    qed
  qed
qed

section \<open>Start-up\<close>

text \<open>What the firmware has read of the FPGA it talks to.\<close>

definition fpga_identity :: "'d app_synth \<Rightarrow> u32 \<times> u32 \<times> u32" where
  "fpga_identity a = (let g = ap_diagnostics a in (ad_version g, ad_platform_status g, ad_sf2_size g))"

definition start_part :: "'d app_synth \<Rightarrow> msf2_view \<times> int \<times> bool" where
  "start_part a = (ap_view a, ad_init_result (ap_diagnostics a), ad_fpga_session_ready (ap_diagnostics a))"

text \<open>The expected version, no error, the sound bank loaded, and its size that of the image.\<close>

definition fpga_accepted :: "'d app_synth \<Rightarrow> bool" where
  "fpga_accepted a \<longleftrightarrow> (let (version, status, sf2_size) = fpga_identity a
     in version = SYNTH_REG_VERSION_VALUE \<and> status AND SYNTH_REG_PLATFORM_STATUS_ERROR_PRESENT_MASK = 0 \<and>
        status AND SYNTH_REG_PLATFORM_STATUS_ASSET_LOADED_MASK \<noteq> 0 \<and> sf2_size = ucast (vw_source_size_bytes (ap_view a)))"

lemma read_register_shape:
  "app_read_register pf address a = (x, a') \<Longrightarrow>
     \<exists>d r. a' = diagnose (\<lambda>g. g\<lparr> ad_last_spi_result := r \<rparr>) (update_link (\<lambda>l. l\<lparr> al_hardware := d \<rparr>) a)"
  by (auto simp: app_read_register_def on_hardware_eq)

lemma read_register_keeps [simp]:
  "start_part (snd (app_read_register pf address a)) = start_part a" "fpga_identity (snd (app_read_register pf address a)) = fpga_identity a"
  "fresh_session (snd (app_read_register pf address a)) = fresh_session a" "ap_view (snd (app_read_register pf address a)) = ap_view a"
  by (simp_all add: app_read_register_def on_hardware_eq start_part_def fpga_identity_def Let_def)

lemma probe_start_part [simp]: "start_part (snd (probe_fpga pf a)) = start_part a"
proof -
  have d [simp]: "start_part (diagnose (\<lambda>g. g\<lparr> ad_version := v \<rparr>) b) = start_part b" "start_part (diagnose (\<lambda>g. g\<lparr> ad_platform_status := v \<rparr>) b) = start_part b"
    "start_part (diagnose (\<lambda>g. g\<lparr> ad_sf2_size := v \<rparr>) b) = start_part b" for v and b :: "'a app_synth"
    by (simp_all add: start_part_def)
  show ?thesis by (simp add: probe_fpga_def Let_def case_prod_unfold split: option.split)
qed

lemma probe_found: "probe_fpga pf a = (Found, a') \<Longrightarrow> fpga_accepted a'" and probe_refused: "probe_fpga pf a = (Refused e, a') \<Longrightarrow> e \<noteq> MSF2_OK"
  by (auto simp: probe_fpga_def Let_def fpga_accepted_def fpga_identity_def split: prod.splits option.splits if_splits dest!: read_register_shape)

lemma find_fpga_result:
  assumes "find_fpga pf n a = (x, a')" and "ad_init_result (ap_diagnostics a) \<noteq> 0"
  shows "ap_view a' = ap_view a \<and> ad_fpga_session_ready (ap_diagnostics a') = ad_fpga_session_ready (ap_diagnostics a) \<and>
    (case x of Inl code \<Rightarrow> code \<noteq> 0 | Inr _ \<Rightarrow> fpga_accepted a')"
  using assms
proof (induction n arbitrary: a)
  case (Suc n)
  let ?a = "diagnose (\<lambda>g. g\<lparr> ad_register_attempts := of_nat (30000 - n) \<rparr>) a"
  obtain y a1 where p: "probe_fpga pf ?a = (y, a1)" by fastforce
  then have "start_part a1 = start_part ?a" using probe_start_part [of pf ?a] by simp
  then have a1: "ap_view a1 = ap_view a" "ad_init_result (ap_diagnostics a1) \<noteq> 0"
      "ad_fpga_session_ready (ap_diagnostics a1) = ad_fpga_session_ready (ap_diagnostics a)"
    using Suc.prems(2) by (simp_all add: start_part_def)
  show ?case
  proof (cases y)
    case Again
    let ?a2 = "update_link (\<lambda>l. l\<lparr> al_hardware := pf_delay_ms pf (al_hardware (ap_link a1)) 1 \<rparr>) a1"
    have "find_fpga pf n ?a2 = (x, a')" using Suc.prems(1) p Again by (simp add: on_hardware_eq)
    from Suc.IH [OF this] show ?thesis using a1 by simp
  next
    case (Refused e)
    then have "result_code e \<noteq> 0" using probe_refused p by (cases e) auto
    then show ?thesis using Suc.prems(1) p Refused a1 by (auto simp: init_failed_def)
  qed (use Suc.prems(1) p a1 probe_found in auto)
qed auto

lemma init_batch_diagnostics [simp]: "ap_diagnostics (init_batch a) = ap_diagnostics a"
  by (simp add: init_batch_def)

lemma identity_simps [simp]:
  "(\<And>g. ad_version (f g) = ad_version g) \<Longrightarrow> (\<And>g. ad_platform_status (f g) = ad_platform_status g) \<Longrightarrow>
     (\<And>g. ad_sf2_size (f g) = ad_sf2_size g) \<Longrightarrow> fpga_identity (diagnose f a) = fpga_identity a"
  "fpga_identity (update_link h a) = fpga_identity a" "fpga_identity (init_batch a) = fpga_identity a"
  "fpga_identity (a\<lparr> ap_control_job := job \<rparr>) = fpga_identity a" "fpga_identity (a\<lparr> ap_midi := m \<rparr>) = fpga_identity a"
  "fpga_identity (a\<lparr> ap_completion_sequence := n \<rparr>) = fpga_identity a"
  by (simp_all add: fpga_identity_def Let_def)

lemma reset_local_identity: "fpga_identity (snd (app_reset_local_session a)) = fpga_identity a"
  by (simp add: app_reset_local_session_def Let_def split: sum.split)

lemma session_reset_identity: "fpga_identity (snd (app_perform_render_session_reset pf a)) = fpga_identity a"
  by (simp add: app_perform_render_session_reset_def Let_def on_hardware_eq session_failed_def case_prod_unfold reset_local_identity split: option.split)

lemma read_counters_keeps:
  "fresh_session (snd (read_counters pf a)) = fresh_session a" "ap_view (snd (read_counters pf a)) = ap_view a"
  "fpga_identity (snd (read_counters pf a)) = fpga_identity a"
  by (simp_all add: read_counters_def Let_def case_prod_unfold split: option.split)

text \<open>No check of the image fails with the code of success.\<close>

definition honest :: "(msf2_result + 'a) option \<Rightarrow> bool" where
  "honest m \<longleftrightarrow> m \<noteq> Some (Inl MSF2_OK)"

lemma honest_simps [simp]:
  "honest (Some (Inr x))" "honest None" "honest (Some (Inl e)) \<longleftrightarrow> e \<noteq> MSF2_OK" "honest (require e b) \<longleftrightarrow> b \<or> e \<noteq> MSF2_OK"
  by (simp_all add: honest_def require_def)

lemma honest_bind: "(\<And>x. honest (f x)) \<Longrightarrow> honest (m \<bind> f)"
  by (cases m) simp_all

lemma honest_if: "honest x \<Longrightarrow> honest y \<Longrightarrow> honest (if b then x else y)"
  by simp

lemma honest_case: "honest m \<Longrightarrow> (\<And>x. honest (f x)) \<Longrightarrow> honest (m \<bind> (\<lambda>r. case r of Inl e \<Rightarrow> Some (Inl e) | Inr x \<Rightarrow> f x))"
  by (cases m) (auto simp: honest_def split: sum.split)

lemma honest_skip: "(\<And>x. honest (f x)) \<Longrightarrow> honest (m \<bind> (\<lambda>r. case r of Inl e \<Rightarrow> None | Inr x \<Rightarrow> f x))"
  by (cases m) (auto split: sum.split)

lemma honest_then: "honest a \<Longrightarrow> honest b \<Longrightarrow> honest (check_then a b)"
  unfolding check_then_def by (rule honest_case)

lemma honest_each: "(\<And>i. honest (f i)) \<Longrightarrow> honest (check_each f is)"
  by (induction "is") (simp_all add: honest_case)

lemma honest_directory: "honest (directory_entries d is previous)"
proof (induction "is" arbitrary: previous)
  case (Cons index "is")
  have "honest (directory_entry d index previous)"
    by (auto simp: directory_entry_def Let_def intro!: honest_bind)
  then show ?case unfolding directory_entries.simps by (intro honest_case Cons) simp_all
qed simp

lemma honest_terms: "honest (check_terms vw first n family ls acc)"
  by (induction ls arbitrary: acc) (auto simp: Let_def intro!: honest_bind)

lemma honest_records: "honest (check_records vw)"
proof -
  have "honest (check_preset vw i)" "honest (check_zone vw i)" "honest (check_sample vw i)" "honest (check_references vw i)" for i
    unfolding check_preset_def check_zone_def check_sample_def check_references_def check_reference_def
    by (auto intro!: honest_bind honest_skip honest_each)
  moreover have "honest (check_program vw i)" for i
    unfolding check_program_def by (intro honest_bind honest_if honest_case honest_terms) simp_all
  ultimately show ?thesis by (simp add: check_records_def Let_def honest_then honest_each)
qed

lemma view_init_error: "msf2_view_init d = Some (Inl e) \<Longrightarrow> e \<noteq> MSF2_OK"
proof -
  have "honest (check_signature d)" "honest (check_profile d)" "honest (check_crc d)" "honest (check_directory d)" "honest (check_sections d vw)" for vw
    by (auto simp: check_signature_def check_profile_def check_crc_def check_directory_def check_sections_def intro!: honest_bind)
  then have "honest (msf2_view_init d)"
    unfolding msf2_view_init_def Let_def
    by (intro honest_if honest_then honest_bind honest_case honest_directory honest_records) simp_all
  then show "msf2_view_init d = Some (Inl e) \<Longrightarrow> e \<noteq> MSF2_OK" by (auto simp: honest_def)
qed

lemma same_size:
  assumes "sf2_size = (ucast (n :: u64) :: u32)" and "\<not> n > 0xffffffff"
  shows "ucast sf2_size = n"
proof -
  have "uint n < 2 ^ 32" using assms(2) by (simp add: word_less_def not_less)
  then have "uint (ucast sf2_size :: u64) = uint n"
    unfolding assms(1) unsigned_ucast_eq by (simp add: unsigned_take_bit_eq take_bit_int_eq_self)
  then show ?thesis by (rule word_uint_eqI)
qed

lemma fresh_timers [simp]:
  "fresh_session (a\<lparr> ap_last_control_millisecond := t \<rparr>) = fresh_session a" "fresh_session (a\<lparr> ap_transport_monitor_millisecond := t \<rparr>) = fresh_session a"
  "fresh_session (a\<lparr> ap_transport_diagnostics_millisecond := t \<rparr>) = fresh_session a" "fresh_session (a\<lparr> ap_completion_poll_millisecond := t \<rparr>) = fresh_session a"
  "fresh_session (a\<lparr> ap_transport_monitor_consecutive_failures := n \<rparr>) = fresh_session a"
  "fresh_session (update_link (\<lambda>l. l\<lparr> al_current_millisecond := t \<rparr>) a) = fresh_session a"
  by (simp_all add: fresh_session_def) (simp_all add: update_link_def update_runtime_def)


lemma init_outcome:
  "\<exists>code a0. app_synth_init pf d a = Some (code, a0) \<and> (code = 0 \<longleftrightarrow> ad_fpga_session_ready (ap_diagnostics a0)) \<and>
    (code = 0 \<longrightarrow> msf2_view_init d = Some (Inr (ap_view a0)) \<and> fpga_accepted a0 \<and> fresh_session a0 \<and>
       ucast (ad_sf2_size (ap_diagnostics a0)) = vw_source_size_bytes (ap_view a0))"
proof -
  obtain x where x: "msf2_view_init d = Some x" using view_init_total [of d] by (auto simp: defined_def)
  have err: "- result_code e = 0 \<longleftrightarrow> e = MSF2_OK" for e by (cases e) simp_all
  note unfolded = app_synth_init_def Let_def x bind.bind_lunit sum.case init_failed_def
  show ?thesis
  proof (cases x)
    case (Inl e)
    have "e \<noteq> MSF2_OK" using view_init_error x Inl by blast
    then show ?thesis using err [of e] by (simp add: unfolded Inl zero_diagnostics_def)
  next
    case (Inr vw)
    define a2 where "a2 = (init_batch (a\<lparr> ap_diagnostics := zero_diagnostics \<rparr>))\<lparr> ap_view := vw \<rparr>"
    have a2: "ap_view a2 = vw" "\<not> ad_fpga_session_ready (ap_diagnostics a2)" "ad_init_result (ap_diagnostics a2) \<noteq> 0"
      by (simp_all add: a2_def zero_diagnostics_def)
    have ok: "accepted_view vw" using x Inr by (auto simp: accepted_view_def)
    obtain y a3 where f: "find_fpga pf 30000 a2 = (y, a3)" by fastforce
    have a3: "ap_view a3 = vw" "\<not> ad_fpga_session_ready (ap_diagnostics a3)" "case y of Inl code \<Rightarrow> code \<noteq> 0 | Inr _ \<Rightarrow> fpga_accepted a3"
      using find_fpga_result [OF f a2(3)] a2 by simp_all
    show ?thesis
    proof (cases "vw_source_size_bytes vw > 0xffffffff \<or> (\<exists>code. y = Inl code)")
      case True
      then show ?thesis using a2 a3 f by (auto simp: unfolded Inr a2_def [symmetric])
    next
      case False
      then have y: "y = Inr ()" "\<not> vw_source_size_bytes vw > 0xffffffff" by (cases y; auto)+
      have acc: "fpga_accepted a3" using a3(3) y(1) by simp
      show ?thesis
      proof (rule session_reset_cases [of a3 pf])
        show "accepted_view (ap_view a3)" using ok a3 by simp
      next
        fix a4 code assume "app_perform_render_session_reset pf a3 = (code, a4)" "code \<noteq> 0" "offline_session a4"
        then show ?thesis using f y by (simp add: unfolded Inr a2_def [symmetric] offline_session_def)
      next
        fix a4 assume r: "app_perform_render_session_reset pf a3 = (0, a4)" "fresh_session a4" "ap_view a4 = ap_view a3"
        obtain result a5 where c: "read_counters pf a4 = (result, a5)" by fastforce
        have "fpga_identity a4 = fpga_identity a3" using session_reset_identity [of pf a3] r(1) by simp
        then have a5: "fresh_session a5" "ap_view a5 = vw" "fpga_accepted a5"
          using read_counters_keeps [of pf a4] c r a3 acc by (simp_all add: fpga_accepted_def)
        show ?thesis using f y r(1) c a5 err [of result] same_size [OF _ y(2)]
          by (auto simp: unfolded Inr a2_def [symmetric] fpga_accepted_def fpga_identity_def)
      qed
    qed
  qed
qed


section \<open>A small FPGA\<close>

text \<open>It keeps the address of the last register request and its epoch, which a session reset advances.\<close>

type_synonym demo_device = "u16 \<times> u32"

definition demo_register :: "u16 \<Rightarrow> u32 \<Rightarrow> u32" where
  "demo_register address epoch =
     (if address = SYNTH_REG_VERSION then SYNTH_REG_VERSION_VALUE
      else if address = SYNTH_REG_PLATFORM_STATUS then 0x20
      else if address = SYNTH_REG_PLATFORM_SF2_SIZE then 4000
      else if address = SYNTH_REG_RENDER_SESSION_EPOCH then epoch
      else 0)"

definition demo_write :: "demo_device write_fn" where
  "demo_write d bytes =
     (0, if bytes ! 0 = 0x5a then (read_be16 bytes 2, snd d) else if bytes ! 0 = 0xa7 then (fst d, snd d + 1) else d)"

definition demo_exchange :: "demo_device exchange_fn" where
  "demo_exchange d tx = (0, [0, 0, 0, 0] @ register_answer REGISTER_READ (fst d) (demo_register (fst d) (snd d)), d)"

definition demo_fpga :: "demo_device platform" where
  "demo_fpga = \<lparr> pf_write = demo_write, pf_enqueue = demo_write, pf_exchange = demo_exchange, pf_wait_idle = (\<lambda>d n. (0, d)), pf_delay_ms = (\<lambda>d n. d) \<rparr>"

definition demo_link :: "demo_device app_link" where
  "demo_link = \<lparr> al_command_batch = \<lparr> ba_words = replicate 63 0, ba_word_count = 0 \<rparr>, al_voice_start_millisecond = replicate 512 0,
     al_current_millisecond = 0, al_hardware = (0, 7) \<rparr>"

definition demo_app :: "demo_device app_synth" where
  "demo_app = \<lparr> ap_view = demo_view demo_image,
     ap_midi = midi_policy_init (projr (msf2_runtime_init (demo_view demo_image) 512 demo_link)),
     ap_periodic_modulation_enabled = True, ap_compressor_enabled = True, ap_diagnostics = zero_diagnostics,
     ap_last_control_millisecond = 0, ap_transport_monitor_millisecond = 0, ap_transport_diagnostics_millisecond = 0,
     ap_transport_monitor_consecutive_failures = 0, ap_completion_poll_millisecond = 0, ap_completion_sequence = 0,
     ap_control_job = \<lparr> cj_start_millisecond = 0, cj_target_millisecond = 0, cj_elapsed_ticks = 0, cj_voice_cursor = 0,
       cj_active = False, cj_voices = [], cj_channel_dirty_revisions = [] \<rparr> \<rparr>"

lemma join16: "push_bit 8 (ucast (ucast (drop_bit 8 w) :: u8)) OR ucast (ucast w :: u8) = w" for w :: u16
  using read_be_bytes(2) [of 0 "be16_bytes w" w "[]"] by (simp add: read_be16_def be16_bytes_def)

lemma demo_read: "fpga_spi_read_register demo_write demo_exchange address 8 d = (Some (demo_register address (snd d)), (address, snd d))"
proof -
  have "demo_write d (register_request REGISTER_READ address 0) = (0, (address, snd d))"
    by (simp add: demo_write_def register_request_def Let_def write_be32_def read_be16_def join16)
  moreover have "register_fetch demo_exchange 8 REGISTER_READ address (address, e) = (Some (demo_register address e), (address, e))" for e
  proof -
    let ?rx = "[0, 0, 0, 0] @ register_answer REGISTER_READ address (demo_register address e)"
    have "drop 4 ?rx = register_answer REGISTER_READ address (demo_register address e)" by simp
    note rx = register_answer_fetched [OF this]
    have "demo_exchange (address, e) tx = (0, ?rx, (address, e))" for tx by (simp add: demo_exchange_def)
    then show ?thesis using rx by (simp add: eval_nat_numeral REGISTER_RESPONSE_OK_def REGISTER_RESPONSE_BUSY_def)
  qed
  ultimately show ?thesis by (simp add: fpga_spi_read_register_def register_transaction_def)
qed

lemma demo_app_read [simp]:
  "fst (app_read_register demo_fpga address a) = Some (demo_register address (snd (al_hardware (ap_link a))))"
  by (simp add: app_read_register_def on_hardware_eq demo_fpga_def APP_REGISTER_FETCH_ATTEMPT_LIMIT_def demo_read)

lemmas demo_registers = SYNTH_REG_VERSION_def SYNTH_REG_PLATFORM_STATUS_def SYNTH_REG_PLATFORM_SF2_SIZE_def SYNTH_REG_RENDER_SESSION_EPOCH_def
  SYNTH_REG_VERSION_VALUE_def SYNTH_REG_PLATFORM_STATUS_ERROR_PRESENT_MASK_def SYNTH_REG_PLATFORM_STATUS_ASSET_LOADED_MASK_def

lemma demo_probe: "ap_view a = demo_view demo_image \<Longrightarrow> fst (probe_fpga demo_fpga a) = Found"
  by (simp add: probe_fpga_def Let_def case_prod_unfold demo_register_def demo_registers) (simp add: demo_view_def)

lemma demo_counters: "fst (read_counters demo_fpga a) = MSF2_OK"
  by (simp add: read_counters_def Let_def case_prod_unfold)

lemma demo_reset:
  assumes "accepted_view (ap_view a)" and "pf_write pf = demo_write" and "pf_exchange pf = demo_exchange"
    and "fst (pf_wait_idle pf (al_hardware (ap_link a)) 100000) = 0"
  shows "fst (app_perform_render_session_reset pf a) = 0"
proof -
  have "commands_complete [0x20000004, w, x, y, z] 0" for w x y z
    by (simp add: commands_complete.simps)
  then have send: "fst (fpga_spi_send_commands demo_write (audio_session_compressor_build enabled) d) = 0" for enabled d
    by (simp add: fpga_spi_send_commands_def audio_session_compressor_build_def FPGA_SPI_MAX_COMMAND_WORDS_def demo_write_def case_prod_unfold)
  have "reset_poll demo_write demo_exchange (Suc 31) SYNTH_REG_RENDER_SESSION_EPOCH e 8 (x, e + 1) =
      (Some (e + 1), (SYNTH_REG_RENDER_SESSION_EPOCH, e + 1))" for x e
    unfolding reset_poll.simps(2) by (simp add: demo_read demo_register_def demo_registers)
  then have epoch: "fpga_spi_reset_session demo_write demo_exchange SYNTH_REG_RENDER_SESSION_EPOCH 32 8 d =
      (Some (snd d + 1), (SYNTH_REG_RENDER_SESSION_EPOCH, snd d + 1))" for d
    by (simp add: fpga_spi_reset_session_def demo_read demo_register_def demo_registers demo_write_def del: reset_poll.simps)
  have link: "al_hardware (ap_link (init_batch a')) = al_hardware (ap_link a')" for a' :: "demo_device app_synth"
    by (simp add: init_batch_def)
  show ?thesis using assms
    by (simp add: app_perform_render_session_reset_def Let_def on_hardware_eq link APP_FPGA_SESSION_RESET_POLL_LIMIT_def
        APP_REGISTER_FETCH_ATTEMPT_LIMIT_def epoch case_prod_unfold reset_local_session(1) send)
qed

lemma demo_init: "\<exists>a0. app_synth_init demo_fpga demo_image demo_app = Some (0, a0)"
proof -
  define a2 where "a2 = (init_batch (demo_app\<lparr> ap_diagnostics := zero_diagnostics \<rparr>))\<lparr> ap_view := demo_view demo_image \<rparr>"
  define a3 where "a3 = snd (probe_fpga demo_fpga (diagnose (\<lambda>g. g\<lparr> ad_register_attempts := of_nat (30000 - 29999) \<rparr>) a2))"
  have v: "ap_view a2 = demo_view demo_image" by (simp add: a2_def)
  have "find_fpga demo_fpga (Suc 29999) a2 = (Inr (), a3)"
    unfolding find_fpga.simps(2) using demo_probe v by (simp add: case_prod_unfold a3_def del: of_nat_diff)
  then have f: "find_fpga demo_fpga 30000 a2 = (Inr (), a3)" by simp
  have "start_part a3 = start_part a2" unfolding a3_def probe_start_part by (simp add: start_part_def)
  then have "accepted_view (ap_view a3)" using v demo_accepted by (auto simp: start_part_def accepted_view_def)
  then have "fst (app_perform_render_session_reset demo_fpga a3) = 0" by (rule demo_reset) (simp_all add: demo_fpga_def)
  moreover have "\<not> vw_source_size_bytes (demo_view demo_image) > 0xffffffff" by (simp add: demo_view_def)
  ultimately show ?thesis
    by (simp add: app_synth_init_def Let_def demo_accepted a2_def [symmetric] f case_prod_unfold demo_counters)
qed


text \<open>The control plane never faults. After a successful start-up, whatever the sequence of MIDI messages, service calls,
  completion polls, transport checks, session resets and settings, with whatever arguments and at whatever times, and whatever
  the FPGA and its link answer, every call completes: nothing is read outside the image or its tables, and the state stays
  consistent, with every one of the 512 voices either free or active, the preset cache truthful and the snapshot of a running
  control job complete.\<close>

theorem app_never_faults:
  assumes "app_synth_init pf d a = Some (0, a0)"
  shows "\<exists>a'. app_run pf calls a0 = Some a' \<and> app_ok a'"
  using init_outcome [of pf d a] app_run_ok [of a0 pf calls] assms fresh_ok by auto

theorem app_never_faults_witness:
  "\<exists>a0 a'. app_synth_init demo_fpga demo_image demo_app = Some (0, a0) \<and> app_ok a' \<and>
     app_run demo_fpga [App_Note_On 0 60 100, App_Service 5, App_Flush, App_Service_Completions 6, App_Monitor_Transport 500,
       App_Session_Reset, App_Note_Off 0 60] a0 = Some a'"
  using demo_init app_never_faults [of demo_fpga demo_image demo_app] by blast

lemma demo_service:
  assumes "app_ok a" and "ad_fpga_session_ready (ap_diagnostics a)" and "\<not> cj_active (ap_control_job a)" and "rt_active_count (ap_runtime a) = 0"
    and "t - ap_last_control_millisecond a \<ge> 5"
  shows "\<exists>a'. app_synth_service pf t a = Some (0, a')"
proof -
  have "\<not> t - ap_last_control_millisecond a < APP_CONTROL_UPDATE_PERIOD_MS" using assms(5) by (simp add: APP_CONTROL_UPDATE_PERIOD_MS_def not_less)
  then show ?thesis using assms(2-4) by (simp add: app_synth_service_def run_control_job_def start_control_job_def case_prod_unfold Let_def)
qed

theorem control_job_accounts_for_time_witness:
  "\<exists>a0 a'. app_synth_init demo_fpga demo_image demo_app = Some (0, a0) \<and> service_run demo_fpga [ap_last_control_millisecond a0 + 5] a0 = Some ([0], a') \<and>
     ap_last_control_millisecond a' = ap_last_control_millisecond a0 + 5 \<and>
     rt_control_tick_index (ap_runtime a') = rt_control_tick_index (ap_runtime a0) + 5"
proof -
  obtain a0 where a0: "app_synth_init demo_fpga demo_image demo_app = Some (0, a0)" "ad_fpga_session_ready (ap_diagnostics a0)" "fresh_session a0"
    using init_outcome [of demo_fpga demo_image demo_app] demo_init by auto
  then have f: "app_ok a0" "\<not> cj_active (ap_control_job a0)" "rt_active_count (ap_runtime a0) = 0" by (simp_all add: fresh_session_def)
  then obtain a' where "app_synth_service demo_fpga (ap_last_control_millisecond a0 + 5) a0 = Some (0, a')"
    using demo_service [OF f(1) a0(2) f(2,3), of "ap_last_control_millisecond a0 + 5"] by auto
  then have "service_run demo_fpga [ap_last_control_millisecond a0 + 5] a0 = Some ([0], a')" by simp
  with control_job_accounts_for_time [OF f(1) a0(2) f(2) _ this] f(3) a0(1) show ?thesis by auto
qed

section \<open>Completions\<close>

lemma moved_voice:
  "u < length xs \<Longrightarrow> (xs[w := (xs ! w)\<lparr> vs_active_position := p \<rparr>] ! u)\<lparr> vs_active_position := q \<rparr> = (xs ! u)\<lparr> vs_active_position := q \<rparr>"
  "u < length xs \<Longrightarrow> (xs[w := (xs ! w)\<lparr> vs_active_position := p \<rparr>] ! u)\<lparr> vs_stage := s, vs_active_position := q \<rparr> = (xs ! u)\<lparr> vs_stage := s, vs_active_position := q \<rparr>"
  by (cases "w = u"; simp)+

lemma reclaimed_voices:
  assumes "v < length (rt_voices r)" and "u < length (rt_voices r)"
  shows "(rt_voices (reclaim_voice v r) ! u)\<lparr> vs_active_position := 0 \<rparr> =
    (if u = v then (rt_voices r ! u)\<lparr> vs_stage := MSF2_VOICE_FREE, vs_active_position := 0 \<rparr> else (rt_voices r ! u)\<lparr> vs_active_position := 0 \<rparr>)"
    "length (rt_voices (reclaim_voice v r)) = length (rt_voices r)"
  using assms by (auto simp: reclaim_voice_def Let_def moved_voice)

definition names_voice :: "'d app_synth \<Rightarrow> nat \<Rightarrow> completion_item \<Rightarrow> bool" where
  "names_voice a v i \<longleftrightarrow> unat (ci_voice i) = v \<and> ci_generation i = vs_generation (rt_voices (ap_runtime a) ! v)"

definition slot :: "'d app_synth \<Rightarrow> nat \<Rightarrow> msf2_voice_state" where
  "slot a v = (rt_voices (ap_runtime a) ! v)\<lparr> vs_active_position := 0 \<rparr>"

lemma app_voices: "app_ok a \<Longrightarrow> length (rt_voices (ap_runtime a)) = 512" "app_ok a \<Longrightarrow> rt_voice_capacity (ap_runtime a) = 512"
  by (auto simp: app_ok_def policy_ok_def runtime_ok_def pool_ok_def)

lemma consume_valid:
  assumes "app_ok a" and "completion_ok i"
  obtains a' where "app_consume_completion i t a = (0, a')" and "app_ok a'"
    and "\<And>v. v < 512 \<Longrightarrow> slot a' v = (if names_voice a v i then (slot a v)\<lparr> vs_stage := MSF2_VOICE_FREE \<rparr> else slot a v)"
proof -
  let ?v = "unat (ci_voice i)" and ?r = "ap_runtime a"
  have i: "\<not> ci_reason i \<ge> 3" "?v < 512" "\<not> ?v \<ge> APP_VOICE_COUNT"
    using assms(2) by (simp_all add: completion_ok_def APP_VOICE_COUNT_def MSF2_MAX_VOICE_COUNT_def not_le word_less_nat_alt word_le_nat_alt)
  obtain code a' where e: "app_consume_completion i t a = (code, a')" by fastforce
  have "code = 0 \<and> ap_runtime a' = (if names_voice a ?v i then reclaim_voice ?v ?r else ?r)"
    using e i app_voices(2) [OF assms(1)]
    by (auto simp: app_consume_completion_def Let_def names_voice_def msf2_runtime_complete_voice_def reclaim_voice_def split: if_splits)
  moreover have "app_ok a'" using consume_completion_ok [OF assms(1), of i t] e by simp
  moreover have "slot a' v = (if names_voice a v i then (slot a v)\<lparr> vs_stage := MSF2_VOICE_FREE \<rparr> else slot a v)" if "v < 512" for v
    using reclaimed_voices(1) [of ?v ?r v] that i(2) app_voices(1) [OF assms(1)] calculation(1) by (auto simp: slot_def names_voice_def)
  ultimately show thesis using that e by blast
qed

lemma consume_batch:
  assumes "app_ok a" and "list_all completion_ok items"
  shows "\<exists>a'. consume_completions items t a = (True, a') \<and> app_ok a' \<and>
    (\<forall>v < 512. slot a' v = (if \<exists>i\<in>set items. names_voice a v i then (slot a v)\<lparr> vs_stage := MSF2_VOICE_FREE \<rparr> else slot a v))"
  using assms
proof (induction items arbitrary: a)
  case (Cons i items)
  obtain a1 where a1: "app_consume_completion i t a = (0, a1)" "app_ok a1"
      "\<And>v. v < 512 \<Longrightarrow> slot a1 v = (if names_voice a v i then (slot a v)\<lparr> vs_stage := MSF2_VOICE_FREE \<rparr> else slot a v)"
    using consume_valid [OF Cons.prems(1), of i t] Cons.prems(2) by auto
  have gen: "vs_generation (rt_voices (ap_runtime b) ! v) = vs_generation (slot b v)" for v and b :: "'a app_synth" by (simp add: slot_def)
  have "names_voice a1 v j = names_voice a v j" if "v < 512" for v j using a1(3) [OF that] by (simp add: names_voice_def gen)
  then show ?case using Cons.IH [OF a1(2)] Cons.prems(2) a1(1,3) by auto
qed simp

text \<open>C30: A completion frees the voice it names, and no other. When a batch of completions that the link accepted is consumed,
  every item is accepted, and of the 512 voices exactly those become free that an item names by slot and by their current
  generation; every other voice is as it was. So a late completion of a voice that has since been stolen and reused, or of one
  that is already free, changes no voice.\<close>

theorem completions_free_named_voices:
  assumes "app_ok a" and "batch_ok sequence b"
  shows "\<exists>a'. consume_completions (take (unat (cb_count b)) (cb_items b)) t a = (True, a') \<and> app_ok a' \<and>
    (\<forall>v < 512. slot a' v = (if \<exists>i\<in>set (cb_items b). names_voice a v i then (slot a v)\<lparr> vs_stage := MSF2_VOICE_FREE \<rparr> else slot a v))"
proof -
  have "take (unat (cb_count b)) (cb_items b) = cb_items b" using assms(2) by (auto simp: batch_ok_def unat_of_nat)
  then show ?thesis using consume_batch [OF assms(1), of "cb_items b" t] assms(2) by (simp add: batch_ok_def)
qed

text \<open>A session with one sounding voice, in slot 0.\<close>

definition demo_start :: "demo_device app_link msf2_runtime" where
  "demo_start = projr (msf2_runtime_init (demo_view demo_image) 512 demo_link)"

definition demo_busy :: "demo_device app_synth" where
  "demo_busy = demo_app\<lparr> ap_midi := midi_policy_init (activate_voice 0 (set_voice 0 demo_voice (snd (allocate_voice demo_start)))) \<rparr>"

lemma demo_start_init: "msf2_runtime_init (demo_view demo_image) 512 demo_link = Inr demo_start"
  by (simp add: demo_start_def msf2_runtime_init_def MSF2_MAX_VOICE_COUNT_def)

lemma demo_start_fields:
  "rt_voices demo_start = replicate 512 zero_voice" "rt_free_count demo_start = 512" "rt_active_count demo_start = 0"
  "rt_free_stack demo_start ! 511 = 0" "rt_voice_capacity demo_start = 512" "rt_view demo_start = demo_view demo_image"
  by (simp_all add: demo_start_def msf2_runtime_init_def MSF2_MAX_VOICE_COUNT_def)

lemma demo_busy_ok: "app_ok demo_busy"
proof -
  let ?r = "set_voice 0 demo_voice (demo_start\<lparr> rt_free_count := 511 \<rparr>)"
  have p: "policy_ok (demo_view demo_image) 512 (midi_policy_init demo_start)"
    by (rule policy_init_ok [OF demo_accepted demo_start_init])
  then have ok: "runtime_ok demo_start" by (simp add: policy_ok_def)
  have alloc: "allocate_voice demo_start = (0, demo_start\<lparr> rt_free_count := 511 \<rparr>)" by (simp add: allocate_voice_def demo_start_fields)
  note pool = pending_set_voice [OF allocate_pool(1) [OF runtime_okD(2) [OF ok] alloc], of demo_voice]
  have "runtime_ok (activate_voice 0 ?r)"
  proof (rule activate_ok [OF _ pool])
    show "ready ?r"
      using ok zero_voice_ok [of "rt_view demo_start"]
      by (intro set_voice_ready) (simp_all add: runtime_ok_def ready_def voice_ok_def demo_voice_def)
    show "cache_ok ?r" using ok by (simp add: runtime_ok_def cache_ok_def set_voice_def)
    show "vs_stage (rt_voices ?r ! 0) \<noteq> MSF2_VOICE_FREE" by (simp add: demo_start_fields demo_voice_def)
  qed
  moreover have "cache_part (activate_voice 0 ?r) = cache_part demo_start" by (simp add: cache_part_def activate_voice_def Let_def set_voice_def)
  ultimately have "policy_ok (demo_view demo_image) 512 (midi_policy_init (activate_voice 0 ?r))"
    using p cache_true_part [of "activate_voice 0 ?r" demo_start] by (simp add: policy_ok_def cache_part_def midi_policy_init_def)
  then show ?thesis
    using demo_accepted by (auto simp: demo_busy_def demo_app_def app_ok_def accepted_view_def job_ok_def alloc)
qed

definition demo_completions :: completion_batch where
  "demo_completions = \<lparr> cb_session_epoch = 8, cb_write_sequence = 2, cb_start_sequence = 0, cb_count = 2, cb_overflow = 0,
     cb_items = [\<lparr> ci_generation = 7, ci_voice = 0, ci_reason = 1 \<rparr>, \<lparr> ci_generation = 1, ci_voice = 0, ci_reason = 2 \<rparr>] \<rparr>"

theorem completions_free_named_voices_witness:
  "\<exists>a'. consume_completions (take (unat (cb_count demo_completions)) (cb_items demo_completions)) 9 demo_busy = (True, a') \<and>
     vs_stage (slot demo_busy 0) = MSF2_VOICE_ACTIVE \<and> vs_stage (slot a' 0) = MSF2_VOICE_FREE \<and> slot a' 1 = slot demo_busy 1"
proof -
  have "batch_ok 0 demo_completions"
    by (simp add: batch_ok_def demo_completions_def expected_count_def completion_ok_def FPGA_SPI_COMPLETION_ITEMS_def)
  then obtain a' where a': "consume_completions (take (unat (cb_count demo_completions)) (cb_items demo_completions)) 9 demo_busy = (True, a')"
      "\<forall>v < 512. slot a' v = (if \<exists>i\<in>set (cb_items demo_completions). names_voice demo_busy v i
         then (slot demo_busy v)\<lparr> vs_stage := MSF2_VOICE_FREE \<rparr> else slot demo_busy v)"
    using completions_free_named_voices [OF demo_busy_ok, of 0 demo_completions 9] by blast
  have v: "rt_voices (ap_runtime demo_busy) ! 0 = demo_voice\<lparr> vs_active_position := 0 \<rparr>"
    by (simp add: demo_busy_def allocate_voice_def demo_start_fields activate_voice_def Let_def set_voice_def)
  have "\<exists>i\<in>set (cb_items demo_completions). names_voice demo_busy 0 i" "\<not> (\<exists>i\<in>set (cb_items demo_completions). names_voice demo_busy 1 i)"
    by (simp_all add: names_voice_def demo_completions_def v demo_voice_def)
  then have "slot a' 0 = (slot demo_busy 0)\<lparr> vs_stage := MSF2_VOICE_FREE \<rparr>" "slot a' 1 = slot demo_busy 1"
    using a'(2) by simp_all
  moreover have "vs_stage (slot demo_busy 0) = MSF2_VOICE_ACTIVE" by (simp add: slot_def v demo_voice_def)
  ultimately show ?thesis using a'(1) by simp
qed

end
