(* ===== verification/Counter_Ring.thy ===== *)
theory Counter_Ring
  imports Prelude
begin

text \<open>
  Rings indexed by free-running 32-bit counters: the number of entries is a power of two, the low bits of
  a counter are the index, and the difference of two counters is the number of entries between them, also
  after they have wrapped. The queue between the cores and the capture ring of the firmware use them.
\<close>

definition ring_index :: "nat \<Rightarrow> u32 \<Rightarrow> nat" where
  "ring_index c n = unat n mod c"

lemma ring_index_mask: "unat (n AND mask k) = ring_index (2 ^ k) n" for n :: u32
proof -
  have "unat (n AND mask k) = take_bit k (unat n)"
    unfolding take_bit_eq_mask [symmetric] by (rule unsigned_take_bit_eq)
  then show ?thesis by (simp add: ring_index_def take_bit_eq_mod)
qed

lemma ring_index_less [simp]: "0 < c \<Longrightarrow> ring_index c n < c"
  by (simp add: ring_index_def)

lemma ring_index_add:
  assumes "c dvd 2 ^ 32"
  shows "ring_index c (r + of_nat k) = (ring_index c r + k) mod c"
proof -
  have "unat (r + of_nat k) mod c = ((unat r + k mod 2 ^ 32) mod 2 ^ 32) mod c"
    by (simp add: unat_word_ariths(1) unat_of_nat)
  also have "\<dots> = (unat r + k mod 2 ^ 32) mod c" using assms by (rule mod_mod_cancel)
  also have "\<dots> = (unat r + k) mod c"
    using mod_mod_cancel [OF assms, of k] by (metis mod_add_right_eq)
  finally show ?thesis by (simp add: ring_index_def mod_add_left_eq)
qed

lemma ring_index_distance: "c dvd 2 ^ 32 \<Longrightarrow> ring_index c w = (ring_index c r + unat (w - r)) mod c"
  using ring_index_add [of c r "unat (w - r)"] by simp

lemma unat_advance: "unat (w - r) < 2 ^ 31 \<Longrightarrow> unat (w + 1 - r) = Suc (unat (w - r))" for w r :: u32
proof -
  assume "unat (w - r) < 2 ^ 31"
  moreover have "w + 1 - r = (w - r) + 1" by simp
  ultimately show ?thesis by (simp only: unat_word_ariths(1)) simp
qed

lemma unat_behind: "unat (v - r) \<le> unat (w - r) \<Longrightarrow> unat (w - v) = unat (w - r) - unat (v - r)" for w v r :: u32
proof -
  assume "unat (v - r) \<le> unat (w - r)"
  then have "unat ((w - r) - (v - r)) = unat (w - r) - unat (v - r)" by (intro unat_sub) (simp add: word_le_nat_alt)
  then show ?thesis by simp
qed

lemma ring_list_drop: "k \<le> n \<Longrightarrow> ring_list xs ((h + k) mod length xs) (n - k) = drop k (ring_list xs h n)"
proof (rule nth_equalityI)
  fix i assume "k \<le> n" "i < length (ring_list xs ((h + k) mod length xs) (n - k))"
  then show "ring_list xs ((h + k) mod length xs) (n - k) ! i = drop k (ring_list xs h n) ! i"
    by (simp add: ring_list_nth mod_add_left_eq add.assoc)
qed simp

lemma ring_list_Suc: "ring_list xs h (Suc n) = ring_list xs h n @ [xs ! ((h + n) mod length xs)]"
  by (simp add: ring_list_def)

end
