(* ===== verification/Midi_Ingress.thy ===== *)
theory Midi_Ingress
  imports Counter_Ring
begin

text \<open>
  The lock-free queue between the two cores of the firmware, \<open>src/mcu/midi_ingress_queue.c\<close>: the USB
  core pushes MIDI packets, the control core pops or discards them. The counters are 32-bit and wrap; their
  low eight bits index the ring. Each function is the composition of its accesses to shared memory,
  and the same accesses are the steps of the interleaving below, so that the queue is shown correct for
  every schedule of one producer and one consumer. Release and acquire order the accesses of a core as
  written, which is the order of the steps.
\<close>

section \<open>The queue\<close>

definition MIDI_INGRESS_QUEUE_CAPACITY :: u32 where "MIDI_INGRESS_QUEUE_CAPACITY = 256"

record midi_ingress_queue =
  iq_packets :: "u32 list"
  iq_write_count :: u32
  iq_read_count :: u32
  iq_high_water :: u32
  iq_overflow_count :: u32

definition midi_ingress_queue_init :: "midi_ingress_queue \<Rightarrow> midi_ingress_queue" where
  "midi_ingress_queue_init q =
     q\<lparr> iq_write_count := 0, iq_read_count := 0, iq_high_water := 0, iq_overflow_count := 0 \<rparr>"

definition pack_packet :: "u8 list \<Rightarrow> u32" where
  "pack_packet p =
     ucast (p ! 0) OR push_bit 8 (ucast (p ! 1)) OR push_bit 16 (ucast (p ! 2)) OR push_bit 24 (ucast (p ! 3))"

definition unpack_packet :: "u32 \<Rightarrow> u8 list" where
  "unpack_packet packed =
     [ucast packed, ucast (drop_bit 8 packed), ucast (drop_bit 16 packed), ucast (drop_bit 24 packed)]"

definition slot_index :: "u32 \<Rightarrow> nat" where
  "slot_index count = unat (count AND (MIDI_INGRESS_QUEUE_CAPACITY - 1))"

text \<open>The accesses of a push: the depth seen, the packet stored, the count published, the high water mark.\<close>

definition push_depth :: "midi_ingress_queue \<Rightarrow> u32" where
  "push_depth q = iq_write_count q - iq_read_count q"

definition push_overflow :: "midi_ingress_queue \<Rightarrow> midi_ingress_queue" where
  "push_overflow q = q\<lparr> iq_overflow_count := iq_overflow_count q + 1 \<rparr>"

definition push_store :: "u32 \<Rightarrow> u8 list \<Rightarrow> midi_ingress_queue \<Rightarrow> midi_ingress_queue" where
  "push_store w packet q = q\<lparr> iq_packets := (iq_packets q)[slot_index w := pack_packet packet] \<rparr>"

definition push_publish :: "u32 \<Rightarrow> midi_ingress_queue \<Rightarrow> midi_ingress_queue" where
  "push_publish w q = q\<lparr> iq_write_count := w + 1 \<rparr>"

definition push_high_water :: "u32 \<Rightarrow> midi_ingress_queue \<Rightarrow> midi_ingress_queue" where
  "push_high_water depth q =
     (if depth + 1 > iq_high_water q then q\<lparr> iq_high_water := depth + 1 \<rparr> else q)"

definition midi_ingress_queue_push :: "midi_ingress_queue \<Rightarrow> u8 list \<Rightarrow> bool \<times> midi_ingress_queue" where
  "midi_ingress_queue_push q packet =
     (let w = iq_write_count q; depth = push_depth q
      in if depth = MIDI_INGRESS_QUEUE_CAPACITY then (False, push_overflow q)
         else (True, push_high_water depth (push_publish w (push_store w packet q))))"

text \<open>The accesses of a pop: the packet read, the count published.\<close>

definition pop_read :: "u32 \<Rightarrow> midi_ingress_queue \<Rightarrow> u32" where
  "pop_read r q = iq_packets q ! slot_index r"

definition pop_publish :: "u32 \<Rightarrow> midi_ingress_queue \<Rightarrow> midi_ingress_queue" where
  "pop_publish r q = q\<lparr> iq_read_count := r + 1 \<rparr>"

definition midi_ingress_queue_pop :: "midi_ingress_queue \<Rightarrow> u8 list option \<times> midi_ingress_queue" where
  "midi_ingress_queue_pop q =
     (let r = iq_read_count q
      in if r = iq_write_count q then (None, q)
         else (Some (unpack_packet (pop_read r q)), pop_publish r q))"

definition midi_ingress_queue_depth :: "midi_ingress_queue \<Rightarrow> u32" where
  "midi_ingress_queue_depth q = iq_write_count q - iq_read_count q"

definition midi_ingress_queue_full :: "midi_ingress_queue \<Rightarrow> bool" where
  "midi_ingress_queue_full q \<longleftrightarrow> midi_ingress_queue_depth q = MIDI_INGRESS_QUEUE_CAPACITY"

definition discard_publish :: "u32 \<Rightarrow> midi_ingress_queue \<Rightarrow> midi_ingress_queue" where
  "discard_publish w q = q\<lparr> iq_read_count := w \<rparr>"

definition midi_ingress_queue_discard_all :: "midi_ingress_queue \<Rightarrow> u32 \<times> midi_ingress_queue" where
  "midi_ingress_queue_discard_all q =
     (let r = iq_read_count q; w = iq_write_count q in (w - r, discard_publish w q))"

section \<open>One producer, one consumer\<close>

text \<open>Where each core is inside its function, with the values it has loaded.\<close>

datatype producer_pc = P_Idle | P_Loaded "u8 list" u32 u32 | P_Stored "u8 list" u32 u32 | P_Published u32
datatype consumer_pc = C_Idle | C_Loaded u32 | C_Read u32 u32 | C_Discard u32 u32

text \<open>\<open>sp_pushed\<close> are the packets whose push published them, \<open>sp_taken\<close> the packets taken out, each with
  whether a pop returned it or it was discarded.\<close>

record spsc =
  sp_queue :: midi_ingress_queue
  sp_producer :: producer_pc
  sp_consumer :: consumer_pc
  sp_pushed :: "u8 list list"
  sp_taken :: "(u8 list \<times> bool) list"

definition iq_contents :: "midi_ingress_queue \<Rightarrow> u8 list list" where
  "iq_contents q =
     map unpack_packet (ring_list (iq_packets q) (slot_index (iq_read_count q)) (unat (midi_ingress_queue_depth q)))"

inductive spsc_step :: "spsc \<Rightarrow> spsc \<Rightarrow> bool" where
  push_begin:
    "sp_producer s = P_Idle \<Longrightarrow> length packet = 4 \<Longrightarrow> push_depth (sp_queue s) \<noteq> MIDI_INGRESS_QUEUE_CAPACITY \<Longrightarrow>
     spsc_step s (s\<lparr> sp_producer := P_Loaded packet (iq_write_count (sp_queue s)) (push_depth (sp_queue s)) \<rparr>)"
| push_refused:
    "sp_producer s = P_Idle \<Longrightarrow> push_depth (sp_queue s) = MIDI_INGRESS_QUEUE_CAPACITY \<Longrightarrow>
     spsc_step s (s\<lparr> sp_queue := push_overflow (sp_queue s) \<rparr>)"
| push_stores:
    "sp_producer s = P_Loaded packet w depth \<Longrightarrow>
     spsc_step s (s\<lparr> sp_queue := push_store w packet (sp_queue s), sp_producer := P_Stored packet w depth \<rparr>)"
| push_publishes:
    "sp_producer s = P_Stored packet w depth \<Longrightarrow>
     spsc_step s (s\<lparr> sp_queue := push_publish w (sp_queue s), sp_producer := P_Published depth,
                     sp_pushed := sp_pushed s @ [packet] \<rparr>)"
| push_marks:
    "sp_producer s = P_Published depth \<Longrightarrow>
     spsc_step s (s\<lparr> sp_queue := push_high_water depth (sp_queue s), sp_producer := P_Idle \<rparr>)"
| pop_begin:
    "sp_consumer s = C_Idle \<Longrightarrow> iq_read_count (sp_queue s) \<noteq> iq_write_count (sp_queue s) \<Longrightarrow>
     spsc_step s (s\<lparr> sp_consumer := C_Loaded (iq_read_count (sp_queue s)) \<rparr>)"
| pop_reads:
    "sp_consumer s = C_Loaded r \<Longrightarrow>
     spsc_step s (s\<lparr> sp_consumer := C_Read r (pop_read r (sp_queue s)) \<rparr>)"
| pop_publishes:
    "sp_consumer s = C_Read r packed \<Longrightarrow>
     spsc_step s (s\<lparr> sp_queue := pop_publish r (sp_queue s), sp_consumer := C_Idle,
                     sp_taken := sp_taken s @ [(unpack_packet packed, True)] \<rparr>)"
| discard_begin:
    "sp_consumer s = C_Idle \<Longrightarrow>
     spsc_step s (s\<lparr> sp_consumer := C_Discard (iq_read_count (sp_queue s)) (iq_write_count (sp_queue s)) \<rparr>)"
| discard_publishes:
    "sp_consumer s = C_Discard r w \<Longrightarrow>
     spsc_step s (s\<lparr> sp_queue := discard_publish w (sp_queue s), sp_consumer := C_Idle,
                     sp_taken := sp_taken s @ map (\<lambda>p. (p, False)) (take (unat (w - r)) (iq_contents (sp_queue s))) \<rparr>)"

inductive spsc_reachable :: "spsc \<Rightarrow> bool" where
  spsc_start:
    "length (iq_packets q) = 256 \<Longrightarrow>
     spsc_reachable \<lparr> sp_queue = midi_ingress_queue_init q, sp_producer = P_Idle, sp_consumer = C_Idle,
                      sp_pushed = [], sp_taken = [] \<rparr>"
| spsc_run: "spsc_reachable s \<Longrightarrow> spsc_step s s' \<Longrightarrow> spsc_reachable s'"

section \<open>Counters and slots\<close>

lemma unpack_pack: "length p = 4 \<Longrightarrow> unpack_packet (pack_packet p) = p"
proof -
  assume "length p = 4"
  then obtain a b c d where p: "p = [a, b, c, d]" by (auto simp: length_Suc_conv numeral_eq_Suc)
  let ?w = "ucast a OR push_bit 8 (ucast b) OR push_bit 16 (ucast c) OR push_bit 24 (ucast d) :: u32"
  have "bit (ucast ?w :: u8) n = bit a n" "bit (ucast (drop_bit 8 ?w) :: u8) n = bit b n"
    "bit (ucast (drop_bit 16 ?w) :: u8) n = bit c n" "bit (ucast (drop_bit 24 ?w) :: u8) n = bit d n" if "n < 8" for n
    using that by (auto simp: bit_simps bit_beyond)
  then have "[ucast ?w, ucast (drop_bit 8 ?w), ucast (drop_bit 16 ?w), ucast (drop_bit 24 ?w)] = p"
    unfolding p by (intro arg_cong2 [where f = Cons] bit_word_eqI) simp_all
  moreover have "pack_packet p = ?w" by (simp add: p pack_packet_def)
  ultimately show ?thesis by (simp only: unpack_packet_def)
qed

lemma slot_index_ring: "slot_index c = ring_index 256 c"
proof -
  have "c AND (MIDI_INGRESS_QUEUE_CAPACITY - 1) = c AND mask 8"
    by (simp add: MIDI_INGRESS_QUEUE_CAPACITY_def mask_eq_exp_minus_1)
  then show ?thesis unfolding slot_index_def using ring_index_mask [of c 8] by simp
qed

lemma slot_index_less [simp]: "slot_index c < 256"
  by (simp add: slot_index_ring)

lemma slot_index_distance: "slot_index w = (slot_index r + unat (w - r)) mod 256"
  using ring_index_distance [of 256 w r] by (simp add: slot_index_ring)

section \<open>The accesses\<close>

abbreviation iq_size :: "midi_ingress_queue \<Rightarrow> nat" where
  "iq_size q \<equiv> unat (midi_ingress_queue_depth q)"

lemma iq_distance: "slot_index (iq_write_count q) = (slot_index (iq_read_count q) + iq_size q) mod 256"
  unfolding midi_ingress_queue_depth_def by (rule slot_index_distance)

lemma push_store_outside:
  assumes "length (iq_packets q) = 256" and "iq_size q < 256"
  shows "iq_contents (push_store (iq_write_count q) p q) = iq_contents q"
    and "iq_size q \<noteq> 0 \<Longrightarrow> pop_read (iq_read_count q) (push_store (iq_write_count q) p q) = pop_read (iq_read_count q) q"
proof -
  have d: "iq_size (push_store v p q) = iq_size q" for v by (simp add: push_store_def midi_ingress_queue_depth_def)
  show "iq_contents (push_store (iq_write_count q) p q) = iq_contents q"
    using ring_list_update_outside [of "iq_size q" "iq_size q" "iq_packets q" "slot_index (iq_read_count q)" "pack_packet p"] assms d
    by (simp add: iq_contents_def iq_distance) (simp add: push_store_def iq_distance)
  assume "iq_size q \<noteq> 0"
  then have "slot_index (iq_write_count q) \<noteq> slot_index (iq_read_count q)"
    using ring_index_inj [of "iq_size q" 256 0 "slot_index (iq_read_count q)"] assms(2) by (auto simp: iq_distance)
  then show "pop_read (iq_read_count q) (push_store (iq_write_count q) p q) = pop_read (iq_read_count q) q"
    by (simp add: pop_read_def push_store_def)
qed

lemma push_publish_appends:
  assumes "length (iq_packets q) = 256" and "iq_size q < 256"
    and "iq_packets q ! slot_index (iq_write_count q) = pack_packet p" and "length p = 4"
  shows "iq_contents (push_publish (iq_write_count q) q) = iq_contents q @ [p]"
    and "iq_size (push_publish (iq_write_count q) q) = Suc (iq_size q)"
proof -
  show s: "iq_size (push_publish (iq_write_count q) q) = Suc (iq_size q)"
    using unat_advance [of "iq_write_count q" "iq_read_count q"] assms(2) by (simp add: push_publish_def midi_ingress_queue_depth_def)
  have "ring_list (iq_packets q) (slot_index (iq_read_count q)) (Suc (iq_size q)) =
      ring_list (iq_packets q) (slot_index (iq_read_count q)) (iq_size q) @ [pack_packet p]"
    using ring_list_Suc [of "iq_packets q" "slot_index (iq_read_count q)" "iq_size q"] assms(1,3) by (simp only: iq_distance)
  moreover have "iq_packets (push_publish (iq_write_count q) q) = iq_packets q"
    "iq_read_count (push_publish (iq_write_count q) q) = iq_read_count q"
    by (simp_all add: push_publish_def)
  ultimately show "iq_contents (push_publish (iq_write_count q) q) = iq_contents q @ [p]"
    by (simp only: iq_contents_def s map_append list.map unpack_pack [OF assms(4)])
qed

lemma discard_publish_drops:
  assumes "length (iq_packets q) = 256" and "unat (v - iq_read_count q) \<le> iq_size q"
  shows "iq_contents (discard_publish v q) = drop (unat (v - iq_read_count q)) (iq_contents q)"
    and "iq_size (discard_publish v q) = iq_size q - unat (v - iq_read_count q)"
proof -
  show s: "iq_size (discard_publish v q) = iq_size q - unat (v - iq_read_count q)"
    using unat_behind [of v "iq_read_count q" "iq_write_count q"] assms(2)
    by (simp add: discard_publish_def midi_ingress_queue_depth_def)
  show "iq_contents (discard_publish v q) = drop (unat (v - iq_read_count q)) (iq_contents q)"
  proof -
    have "slot_index (iq_read_count (discard_publish v q)) =
        (slot_index (iq_read_count q) + unat (v - iq_read_count q)) mod length (iq_packets q)"
    proof -
      have "iq_read_count (discard_publish v q) = v" by (simp add: discard_publish_def)
      then show ?thesis using slot_index_distance [of v "iq_read_count q"] assms(1) by simp
    qed
    moreover have "iq_packets (discard_publish v q) = iq_packets q" by (simp add: discard_publish_def)
    ultimately show ?thesis
      unfolding iq_contents_def s
      using ring_list_drop [OF assms(2), of "iq_packets q" "slot_index (iq_read_count q)"] by (simp only: drop_map)
  qed
qed

lemma pop_publish_discards: "pop_publish r q = discard_publish (r + 1) q"
  by (simp add: pop_publish_def discard_publish_def)

lemma pop_takes_first:
  assumes "length (iq_packets q) = 256" and "iq_size q \<noteq> 0"
  shows "iq_contents q = unpack_packet (pop_read (iq_read_count q) q) # iq_contents (pop_publish (iq_read_count q) q)"
    and "iq_size (pop_publish (iq_read_count q) q) = iq_size q - 1"
proof -
  have one: "unat (iq_read_count q + 1 - iq_read_count q) = 1" by simp
  have "unat (iq_read_count q + 1 - iq_read_count q) \<le> iq_size q" unfolding one using assms(2) by simp
  note d = discard_publish_drops [OF assms(1) this, folded pop_publish_discards, unfolded one]
  have "iq_contents q = unpack_packet (pop_read (iq_read_count q) q) # tl (iq_contents q)"
  proof (cases "iq_size q")
    case (Suc n)
    then show ?thesis
      unfolding iq_contents_def Suc using assms(1) by (simp add: ring_list_pop pop_read_def)
  qed (use assms(2) in simp)
  then show "iq_contents q = unpack_packet (pop_read (iq_read_count q) q) # iq_contents (pop_publish (iq_read_count q) q)"
    unfolding d(1) by (simp add: drop_Suc)
  show "iq_size (pop_publish (iq_read_count q) q) = iq_size q - 1" by (rule d(2))
qed

section \<open>Every schedule\<close>

fun producer_inv :: "midi_ingress_queue \<Rightarrow> producer_pc \<Rightarrow> bool" where
  "producer_inv q (P_Loaded p w depth) \<longleftrightarrow> length p = 4 \<and> w = iq_write_count q \<and> iq_size q < 256"
| "producer_inv q (P_Stored p w depth) \<longleftrightarrow> length p = 4 \<and> w = iq_write_count q \<and> iq_size q < 256 \<and>
     iq_packets q ! slot_index w = pack_packet p"
| "producer_inv q _ \<longleftrightarrow> True"

fun consumer_inv :: "midi_ingress_queue \<Rightarrow> consumer_pc \<Rightarrow> bool" where
  "consumer_inv q (C_Loaded r) \<longleftrightarrow> r = iq_read_count q \<and> iq_size q \<noteq> 0"
| "consumer_inv q (C_Read r packed) \<longleftrightarrow> r = iq_read_count q \<and> iq_size q \<noteq> 0 \<and> packed = pop_read r q"
| "consumer_inv q (C_Discard r w) \<longleftrightarrow> r = iq_read_count q \<and> unat (w - r) \<le> iq_size q"
| "consumer_inv q C_Idle \<longleftrightarrow> True"

definition spsc_inv :: "spsc \<Rightarrow> bool" where
  "spsc_inv s \<longleftrightarrow> length (iq_packets (sp_queue s)) = 256 \<and> iq_size (sp_queue s) \<le> 256 \<and>
     sp_pushed s = map fst (sp_taken s) @ iq_contents (sp_queue s) \<and>
     producer_inv (sp_queue s) (sp_producer s) \<and> consumer_inv (sp_queue s) (sp_consumer s)"

text \<open>Accesses that leave the counters and slots alone.\<close>

lemma counters_only:
  assumes "iq_packets q' = iq_packets q" "iq_write_count q' = iq_write_count q" "iq_read_count q' = iq_read_count q"
  shows "midi_ingress_queue_depth q' = midi_ingress_queue_depth q" "iq_contents q' = iq_contents q"
    "producer_inv q' p = producer_inv q p" "consumer_inv q' c = consumer_inv q c"
proof -
  show d: "midi_ingress_queue_depth q' = midi_ingress_queue_depth q" using assms by (simp add: midi_ingress_queue_depth_def)
  show "iq_contents q' = iq_contents q" using assms d by (simp add: iq_contents_def)
  show "producer_inv q' p = producer_inv q p" using assms d by (cases p) simp_all
  show "consumer_inv q' c = consumer_inv q c" using assms d by (cases c) (simp_all add: pop_read_def)
qed

lemma push_overflow_same: "iq_packets (push_overflow q) = iq_packets q" "iq_write_count (push_overflow q) = iq_write_count q"
    "iq_read_count (push_overflow q) = iq_read_count q"
  by (simp_all add: push_overflow_def)

lemma push_high_water_same: "iq_packets (push_high_water d q) = iq_packets q" "iq_write_count (push_high_water d q) = iq_write_count q"
    "iq_read_count (push_high_water d q) = iq_read_count q"
  by (simp_all add: push_high_water_def)

lemma store_step:
  fixes p :: "u8 list" and q :: midi_ingress_queue
  assumes "length (iq_packets q) = 256" "iq_size q < 256" "consumer_inv q c"
  defines "q' \<equiv> push_store (iq_write_count q) p q"
  shows "length (iq_packets q') = 256" "iq_size q' = iq_size q" "iq_contents q' = iq_contents q" "iq_write_count q' = iq_write_count q"
    "iq_packets q' ! slot_index (iq_write_count q) = pack_packet p" "consumer_inv q' c"
proof -
  show "length (iq_packets q') = 256" "iq_size q' = iq_size q" "iq_write_count q' = iq_write_count q"
    "iq_packets q' ! slot_index (iq_write_count q) = pack_packet p"
    using assms(1) by (simp_all add: q'_def push_store_def midi_ingress_queue_depth_def)
  show "iq_contents q' = iq_contents q" unfolding q'_def by (rule push_store_outside [OF assms(1,2)])
  have "iq_read_count q' = iq_read_count q" "midi_ingress_queue_depth q' = midi_ingress_queue_depth q"
    by (simp_all add: q'_def push_store_def midi_ingress_queue_depth_def)
  then show "consumer_inv q' c"
    using assms(3) push_store_outside(2) [OF assms(1,2), of p] by (cases c) (simp_all add: q'_def)
qed

lemma publish_step:
  assumes "length (iq_packets q) = 256" "producer_inv q (P_Stored p w depth)" "consumer_inv q c"
  defines "q' \<equiv> push_publish w q"
  shows "length (iq_packets q') = 256" "iq_size q' \<le> 256" "iq_contents q' = iq_contents q @ [p]" "consumer_inv q' c"
proof -
  have w: "w = iq_write_count q" "length p = 4" "iq_size q < 256" "iq_packets q ! slot_index (iq_write_count q) = pack_packet p"
    using assms(2) by auto
  have "q' = push_publish (iq_write_count q) q" by (simp only: q'_def w(1))
  note a = push_publish_appends [OF assms(1) w(3,4,2), folded this]
  show "length (iq_packets q') = 256" using assms(1) by (simp add: q'_def push_publish_def)
  show "iq_size q' \<le> 256" using a(2) w(3) by simp
  show "iq_contents q' = iq_contents q @ [p]" by (rule a(1))
  have "iq_read_count q' = iq_read_count q" "iq_packets q' = iq_packets q" by (simp_all add: q'_def push_publish_def)
  then show "consumer_inv q' c" using assms(3) a(2) by (cases c) (simp_all add: pop_read_def)
qed

lemma take_step:
  assumes "length (iq_packets q) = 256" "iq_size q \<le> 256" "producer_inv q p" "unat (v - iq_read_count q) \<le> iq_size q"
  defines "q' \<equiv> discard_publish v q"
  shows "length (iq_packets q') = 256" "iq_size q' \<le> 256" "producer_inv q' p"
    "iq_contents q = take (unat (v - iq_read_count q)) (iq_contents q) @ iq_contents q'"
proof -
  note d = discard_publish_drops [OF assms(1,4), folded q'_def]
  show "length (iq_packets q') = 256" using assms(1) by (simp add: q'_def discard_publish_def)
  show "iq_size q' \<le> 256" using assms(2) d(2) by simp
  have "iq_write_count q' = iq_write_count q" "iq_packets q' = iq_packets q" by (simp_all add: q'_def discard_publish_def)
  then show "producer_inv q' p" using assms(3) d(2) by (cases p) (simp_all add: le_less_trans [OF diff_le_self])
  show "iq_contents q = take (unat (v - iq_read_count q)) (iq_contents q) @ iq_contents q'" unfolding d(1) by simp
qed

lemma spsc_step_inv: "spsc_step s s' \<Longrightarrow> spsc_inv s \<Longrightarrow> spsc_inv s'"
proof (induction rule: spsc_step.induct)
  case (push_begin s packet)
  have "iq_size (sp_queue s) \<noteq> 256"
  proof
    assume "iq_size (sp_queue s) = 256"
    then have "unat (push_depth (sp_queue s)) = unat MIDI_INGRESS_QUEUE_CAPACITY"
      by (simp add: push_depth_def midi_ingress_queue_depth_def MIDI_INGRESS_QUEUE_CAPACITY_def)
    then show False using push_begin.hyps by (simp add: word_unat_eq_iff)
  qed
  then show ?case using push_begin by (simp add: spsc_inv_def)
next
  case (push_refused s)
  then show ?case by (simp add: spsc_inv_def push_overflow_same counters_only [OF push_overflow_same])
next
  case (push_stores s packet w depth)
  then have p: "length packet = 4" "w = iq_write_count (sp_queue s)" "iq_size (sp_queue s) < 256"
    and q: "length (iq_packets (sp_queue s)) = 256" "consumer_inv (sp_queue s) (sp_consumer s)"
    by (simp_all add: spsc_inv_def)
  show ?case
    using store_step [OF q(1) p(3) q(2), of packet] push_stores p by (simp add: spsc_inv_def)
next
  case (push_publishes s packet w depth)
  then have q: "length (iq_packets (sp_queue s)) = 256" "producer_inv (sp_queue s) (P_Stored packet w depth)"
    "consumer_inv (sp_queue s) (sp_consumer s)"
    by (auto simp: spsc_inv_def)
  show ?case using publish_step [OF q] push_publishes by (simp add: spsc_inv_def)
next
  case (push_marks s depth)
  then show ?case by (simp add: spsc_inv_def push_high_water_same counters_only [OF push_high_water_same])
next
  case (pop_begin s)
  then show ?case by (simp add: spsc_inv_def midi_ingress_queue_depth_def unat_eq_zero)
next
  case (pop_reads s r)
  then show ?case by (simp add: spsc_inv_def)
next
  case (pop_publishes s r packed)
  then have r: "r = iq_read_count (sp_queue s)" "iq_size (sp_queue s) \<noteq> 0" "packed = pop_read r (sp_queue s)"
    and q: "length (iq_packets (sp_queue s)) = 256" "iq_size (sp_queue s) \<le> 256" "producer_inv (sp_queue s) (sp_producer s)"
    by (simp_all add: spsc_inv_def)
  have "unat (r + 1 - iq_read_count (sp_queue s)) \<le> iq_size (sp_queue s)" using r(1,2) by simp
  note t = take_step [OF q this, folded pop_publish_discards]
  show ?case using t(1-3) pop_takes_first(1) [OF q(1) r(2)] pop_publishes r by (simp add: spsc_inv_def)
next
  case (discard_begin s)
  then show ?case by (simp add: spsc_inv_def midi_ingress_queue_depth_def)
next
  case (discard_publishes s r w)
  then have r: "r = iq_read_count (sp_queue s)" "unat (w - iq_read_count (sp_queue s)) \<le> iq_size (sp_queue s)"
    and q: "length (iq_packets (sp_queue s)) = 256" "iq_size (sp_queue s) \<le> 256" "producer_inv (sp_queue s) (sp_producer s)"
    by (auto simp: spsc_inv_def)
  note t = take_step [OF q r(2)]
  have "map fst (map (\<lambda>p. (p, False)) xs) = xs" for xs :: "u8 list list" by (simp add: comp_def)
  then show ?case using t(1-3) t(4) [symmetric] discard_publishes r(1) by (simp add: spsc_inv_def)
qed

lemma spsc_reachable_inv: "spsc_reachable s \<Longrightarrow> spsc_inv s"
proof (induction rule: spsc_reachable.induct)
  case (spsc_start q)
  then show ?case
    by (simp add: spsc_inv_def midi_ingress_queue_init_def midi_ingress_queue_depth_def iq_contents_def)
qed (rule spsc_step_inv)

text \<open>C21: The queue between the cores loses, repeats and reorders nothing, under every interleaving of the
  accesses of one producer and one consumer and however often the 32-bit counters wrap: the packets pushed
  are those taken out, in order, followed by those the ring holds; the ring never holds more than 256; a
  packet a pop has read is the oldest one even if a push is writing at that moment; and a push is refused
  only when 256 packets wait.\<close>

theorem midi_ingress_fifo:
  assumes "spsc_reachable s"
  shows "sp_pushed s = map fst (sp_taken s) @ iq_contents (sp_queue s) \<and>
    length (iq_contents (sp_queue s)) = unat (midi_ingress_queue_depth (sp_queue s)) \<and>
    length (iq_contents (sp_queue s)) \<le> 256 \<and>
    (\<forall>r packed. sp_consumer s = C_Read r packed \<longrightarrow> iq_contents (sp_queue s) \<noteq> [] \<and> unpack_packet packed = hd (iq_contents (sp_queue s))) \<and>
    (midi_ingress_queue_full (sp_queue s) \<longrightarrow> length (iq_contents (sp_queue s)) = 256)"
proof -
  have inv: "spsc_inv s" by (rule spsc_reachable_inv [OF assms])
  have len: "length (iq_contents (sp_queue s)) = iq_size (sp_queue s)" by (simp add: iq_contents_def)
  have "iq_contents (sp_queue s) \<noteq> [] \<and> unpack_packet packed = hd (iq_contents (sp_queue s))"
    if "sp_consumer s = C_Read r packed" for r packed
    using inv that pop_takes_first(1) [of "sp_queue s"] by (auto simp: spsc_inv_def)
  moreover have "midi_ingress_queue_full (sp_queue s) \<longrightarrow> iq_size (sp_queue s) = 256"
    by (simp add: midi_ingress_queue_full_def MIDI_INGRESS_QUEUE_CAPACITY_def)
  ultimately show ?thesis using inv len by (auto simp: spsc_inv_def)
qed

text \<open>A push that is still writing its second packet while the first one is read.\<close>

definition spsc_begin :: spsc where
  "spsc_begin = \<lparr> sp_queue = \<lparr> iq_packets = replicate 256 0, iq_write_count = 0, iq_read_count = 0, iq_high_water = 0,
       iq_overflow_count = 0 \<rparr>, sp_producer = P_Idle, sp_consumer = C_Idle, sp_pushed = [], sp_taken = [] \<rparr>"

lemma spsc_example:
  "\<exists>s. spsc_reachable s \<and> sp_pushed s = [[9, 0x90, 60, 100]] \<and> sp_producer s = P_Stored [9, 0x80, 60, 0] 1 1 \<and>
     (\<exists>r packed. sp_consumer s = C_Read r packed \<and> unpack_packet packed = [9, 0x90, 60, 100]) \<and> sp_taken s = []"
proof -
  let ?p = "[9, 0x90, 60, 100] :: u8 list" and ?p2 = "[9, 0x80, 60, 0] :: u8 list"
  let ?q0 = "sp_queue spsc_begin"
  let ?q1 = "push_store 0 ?p ?q0"
  let ?q2 = "push_publish 0 ?q1"
  let ?q3 = "push_high_water 0 ?q2"
  have c0: "iq_write_count ?q0 = 0" "push_depth ?q0 = 0" by (simp_all add: spsc_begin_def push_depth_def)
  have q3: "iq_write_count ?q3 = 1" "iq_read_count ?q3 = 0" "iq_packets ?q3 = (replicate 256 0)[slot_index 0 := pack_packet ?p]"
    by (simp_all add: push_high_water_def push_publish_def push_store_def spsc_begin_def)
  have "spsc_reachable spsc_begin"
    using spsc_start [of ?q0] by (simp add: spsc_begin_def midi_ingress_queue_init_def)
  from spsc_run [OF this push_begin [of _ ?p]]
  have "spsc_reachable (spsc_begin\<lparr> sp_producer := P_Loaded ?p 0 0 \<rparr>)"
    by (simp add: spsc_begin_def push_depth_def MIDI_INGRESS_QUEUE_CAPACITY_def)
  from spsc_run [OF this push_stores [of _ ?p 0 0]]
  have "spsc_reachable (spsc_begin\<lparr> sp_queue := ?q1, sp_producer := P_Stored ?p 0 0 \<rparr>)" by simp
  from spsc_run [OF this push_publishes [of _ ?p 0 0]]
  have "spsc_reachable (spsc_begin\<lparr> sp_queue := ?q2, sp_producer := P_Published 0, sp_pushed := [?p] \<rparr>)"
    by (simp add: spsc_begin_def)
  from spsc_run [OF this push_marks [of _ 0]]
  have "spsc_reachable (spsc_begin\<lparr> sp_queue := ?q3, sp_producer := P_Idle, sp_pushed := [?p] \<rparr>)" by (simp add: spsc_begin_def)
  from spsc_run [OF this push_begin [of _ ?p2]]
  have "spsc_reachable (spsc_begin\<lparr> sp_queue := ?q3, sp_producer := P_Loaded ?p2 1 1, sp_pushed := [?p] \<rparr>)"
    using q3 by (simp add: push_depth_def MIDI_INGRESS_QUEUE_CAPACITY_def spsc_begin_def)
  from spsc_run [OF this pop_begin]
  have "spsc_reachable (spsc_begin\<lparr> sp_queue := ?q3, sp_producer := P_Loaded ?p2 1 1, sp_consumer := C_Loaded 0, sp_pushed := [?p] \<rparr>)"
    using q3 by (simp add: spsc_begin_def)
  from spsc_run [OF this push_stores [of _ ?p2 1 1]]
  have "spsc_reachable (spsc_begin\<lparr> sp_queue := push_store 1 ?p2 ?q3, sp_producer := P_Stored ?p2 1 1, sp_consumer := C_Loaded 0,
      sp_pushed := [?p] \<rparr>)"
    by (simp add: spsc_begin_def)
  from spsc_run [OF this pop_reads [of _ 0]]
  have r: "spsc_reachable (spsc_begin\<lparr> sp_queue := push_store 1 ?p2 ?q3, sp_producer := P_Stored ?p2 1 1,
      sp_consumer := C_Read 0 (pop_read 0 (push_store 1 ?p2 ?q3)), sp_pushed := [?p] \<rparr>)"
    by (simp add: spsc_begin_def)
  have "slot_index 0 = 0" "slot_index 1 = 1" by (simp_all add: slot_index_ring ring_index_def)
  then have "pop_read 0 (push_store 1 ?p2 ?q3) = pack_packet ?p" 
    using q3(3) by (simp add: pop_read_def push_store_def [of 1])
  then have "unpack_packet (pop_read 0 (push_store 1 ?p2 ?q3)) = ?p" using unpack_pack [of ?p] by simp
  with r show ?thesis by (intro exI conjI) (auto simp: spsc_begin_def)
qed

theorem midi_ingress_fifo_witness:
  "\<exists>s. spsc_reachable s \<and> sp_producer s = P_Stored [9, 0x80, 60, 0] 1 1 \<and> iq_contents (sp_queue s) = [[9, 0x90, 60, 100]]"
proof -
  obtain s where s: "spsc_reachable s" "sp_pushed s = [[9, 0x90, 60, 100]]" "sp_producer s = P_Stored [9, 0x80, 60, 0] 1 1"
    "sp_taken s = []"
    using spsc_example by blast
  show ?thesis using midi_ingress_fifo [OF s(1)] s by auto
qed

end
