(* ===== verification/Midi_Sysex.thy ===== *)
theory Midi_Sysex
  imports Prelude "HOL-Library.Sublist"
begin

text \<open>
  The recogniser of the reset command in a stream of USB MIDI packets,
  \<open>src/mcu/midi_sysex_reset.c\<close>. It keeps only how many bytes of the message have matched; the lemmas show
  that this number is the length of the longest beginning of the message the stream ends with, so the
  recogniser decides exactly whether the message was just received.
\<close>

section \<open>The recogniser\<close>

datatype midi_sysex_action = MIDI_SYSEX_ACTION_NONE | MIDI_SYSEX_ACTION_RESET_SESSION

record midi_sysex_reset_parser =
  mp_match_index :: nat

definition reset_session_message :: "u8 list" where
  "reset_session_message = [0xf0, 0x7d, 0x4d, 0x42, 0x01, 0x01, 0xf7]"

definition midi_sysex_reset_parser_init :: midi_sysex_reset_parser where
  "midi_sysex_reset_parser_init = \<lparr> mp_match_index = 0 \<rparr>"

definition consume_byte :: "midi_sysex_reset_parser \<Rightarrow> u8 \<Rightarrow> midi_sysex_action \<times> midi_sysex_reset_parser" where
  "consume_byte parser v =
     (if v = reset_session_message ! mp_match_index parser
      then (let parser1 = parser\<lparr> mp_match_index := mp_match_index parser + 1 \<rparr>
            in if mp_match_index parser1 = length reset_session_message
               then (MIDI_SYSEX_ACTION_RESET_SESSION, parser1\<lparr> mp_match_index := 0 \<rparr>)
               else (MIDI_SYSEX_ACTION_NONE, parser1))
      else (MIDI_SYSEX_ACTION_NONE,
            parser\<lparr> mp_match_index := (if v = reset_session_message ! 0 then 1 else 0) \<rparr>))"

text \<open>The loop over the bytes of a packet from \<open>index\<close> on.\<close>

fun consume_bytes :: "u8 \<Rightarrow> nat \<Rightarrow> u8 list \<Rightarrow> midi_sysex_reset_parser \<Rightarrow> midi_sysex_action \<times> midi_sysex_reset_parser" where
  "consume_bytes cin index [] parser = (MIDI_SYSEX_ACTION_NONE, parser)"
| "consume_bytes cin index (v # vs) parser =
     (case consume_byte parser v of
        (action, parser1) \<Rightarrow>
          if action \<noteq> MIDI_SYSEX_ACTION_NONE
          then (if cin = 0x05 \<and> index = 0 then (action, parser1)
                else consume_bytes cin (index + 1) vs (parser1\<lparr> mp_match_index := 0 \<rparr>))
          else consume_bytes cin (index + 1) vs parser1)"

definition packet_bytes :: "u8 list \<Rightarrow> nat \<Rightarrow> u8 list" where
  "packet_bytes packet byte_count = map (\<lambda>index. packet ! (index + 1)) [0..<byte_count]"

definition sysex_byte_count :: "u8 \<Rightarrow> nat option" where
  "sysex_byte_count cin =
     (if cin = 0x04 then Some 3 else if cin = 0x05 then Some 1 else if cin = 0x06 then Some 2
      else if cin = 0x07 then Some 3 else None)"

definition midi_sysex_reset_process_usb_packet ::
    "midi_sysex_reset_parser \<Rightarrow> u8 list \<Rightarrow> midi_sysex_action \<times> midi_sysex_reset_parser" where
  "midi_sysex_reset_process_usb_packet parser packet =
     (let cin = packet ! 0 AND 0x0f
      in case sysex_byte_count cin of
           Some byte_count \<Rightarrow> consume_bytes cin 0 (packet_bytes packet byte_count) parser
         | None \<Rightarrow>
             if cin = 0x0f then (MIDI_SYSEX_ACTION_NONE, parser)
             else (MIDI_SYSEX_ACTION_NONE, parser\<lparr> mp_match_index := 0 \<rparr>))"

section \<open>The longest beginning of the message\<close>

text \<open>The stream ends with the first \<open>k\<close> bytes of the message and with no longer proper beginning of it.\<close>

definition longest_match :: "u8 list \<Rightarrow> nat \<Rightarrow> bool" where
  "longest_match h k \<longleftrightarrow> k < 7 \<and> suffix (take k reset_session_message) h \<and>
     (\<forall>j. k < j \<and> j < 7 \<longrightarrow> \<not> suffix (take j reset_session_message) h)"

lemma length_message: "length reset_session_message = 7"
  by (simp add: reset_session_message_def)

lemma first_byte_once: "j < 7 \<Longrightarrow> reset_session_message ! j = reset_session_message ! 0 \<longleftrightarrow> j = 0"
proof -
  have "\<forall>j < 7. (reset_session_message ! j = reset_session_message ! 0) = (j = 0)" by code_simp
  then show "j < 7 \<Longrightarrow> reset_session_message ! j = reset_session_message ! 0 \<longleftrightarrow> j = 0" by blast
qed

lemma last_byte_once: "j < 6 \<Longrightarrow> reset_session_message ! j \<noteq> reset_session_message ! 6"
proof -
  have "\<forall>j < 6. reset_session_message ! j \<noteq> reset_session_message ! 6" by code_simp
  then show "j < 6 \<Longrightarrow> reset_session_message ! j \<noteq> reset_session_message ! 6" by blast
qed

lemma suffix_take_Suc:
  "j < 7 \<Longrightarrow> suffix (take (Suc j) reset_session_message) (h @ [v]) \<longleftrightarrow>
     suffix (take j reset_session_message) h \<and> v = reset_session_message ! j"
  by (auto simp: take_Suc_conv_app_nth length_message)

text \<open>Two beginnings the stream ends with: the shorter one is empty, as the first byte does not recur.\<close>

lemma shorter_match_empty:
  assumes "suffix (take j reset_session_message) h" "suffix (take k reset_session_message) h" "j < k" "k \<le> 7"
  shows "j = 0"
proof (rule ccontr)
  assume j: "j \<noteq> 0"
  have l: "length (take j reset_session_message) = j" "length (take k reset_session_message) = k"
    using assms(3,4) by (simp_all add: length_message)
  have "suffix (take j reset_session_message) (take k reset_session_message)"
    by (rule suffix_length_suffix [OF assms(1,2)]) (use assms(3) l in linarith)
  then obtain g where g: "take k reset_session_message = g @ take j reset_session_message" by (auto simp: suffix_def)
  have "length g + j = k" using arg_cong [OF g, of length] l by (simp only: length_append)
  then have "length g = k - j" by simp
  then have "take k reset_session_message ! (k - j) = take j reset_session_message ! 0"
    using nth_append_length_plus [of g "take j reset_session_message" 0] by (simp only: g [symmetric] add_0_right)
  then have "reset_session_message ! (k - j) = reset_session_message ! 0" using j assms(3) by simp
  then show False using first_byte_once [of "k - j"] j assms(3,4) by simp
qed

lemma consume_byte_match:
  assumes "longest_match h (mp_match_index parser)" and "consume_byte parser v = (action, parser1)"
  shows "longest_match (h @ [v]) (mp_match_index parser1) \<and>
    (action = MIDI_SYSEX_ACTION_RESET_SESSION \<longleftrightarrow> suffix reset_session_message (h @ [v])) \<and>
    (action = MIDI_SYSEX_ACTION_RESET_SESSION \<longrightarrow> mp_match_index parser1 = 0)"
proof -
  let ?k = "mp_match_index parser" and ?m = reset_session_message
  have k: "?k < 7" "suffix (take ?k ?m) h" "\<And>j. ?k < j \<Longrightarrow> j < 7 \<Longrightarrow> \<not> suffix (take j ?m) h"
    using assms(1) by (auto simp: longest_match_def)
  have full: "suffix ?m (h @ [v]) \<longleftrightarrow> ?k = 6 \<and> v = ?m ! 6"
  proof -
    have "suffix ?m (h @ [v]) \<longleftrightarrow> suffix (take 6 ?m) h \<and> v = ?m ! 6"
      using suffix_take_Suc [of 6 h v] by (simp add: length_message)
    moreover have "suffix (take 6 ?m) h \<longleftrightarrow> ?k = 6" using k(1,2) k(3) [of 6] by (cases "?k = 6") auto
    ultimately show ?thesis by blast
  qed
  have longer: "\<not> suffix (take (Suc j) ?m) (h @ [v])" if "?k < j" "j < 7" for j
    using k(3) that suffix_take_Suc by blast
  show ?thesis
  proof (cases "v = ?m ! ?k")
    case True
    then have grow: "suffix (take (Suc ?k) ?m) (h @ [v])" using k(1,2) suffix_take_Suc by blast
    show ?thesis
    proof (cases "?k = 6")
      case six: True
      have "\<not> suffix (take j ?m) (h @ [v])" if "0 < j" "j < 7" for j
      proof -
        obtain i where i: "j = Suc i" "i < 6" using \<open>0 < j\<close> \<open>j < 7\<close> by (cases j) simp_all
        then show ?thesis using suffix_take_Suc [of i h v] last_byte_once [of i] True six by simp
      qed
      then show ?thesis using assms(2) True six full by (auto simp: consume_byte_def Let_def length_message longest_match_def)
    next
      case False
      have "\<not> suffix (take j ?m) (h @ [v])" if "Suc ?k < j" "j < 7" for j
      proof -
        obtain i where "j = Suc i" "?k < i" "i < 7" using \<open>Suc ?k < j\<close> \<open>j < 7\<close> by (cases j) simp_all
        then show ?thesis using longer [of i] by simp
      qed
      then show ?thesis
        using assms(2) True False grow full k(1) by (auto simp: consume_byte_def Let_def length_message longest_match_def)
    qed
  next
    case False
    have empty: "j = 0 \<and> v = ?m ! 0" if "suffix (take (Suc j) ?m) (h @ [v])" "j < 7" for j
    proof -
      have j: "suffix (take j ?m) h" "v = ?m ! j" using that suffix_take_Suc by blast+
      then have "j < ?k" using k(3) [of j] that(2) False by (cases j ?k rule: linorder_cases) auto
      then show ?thesis using shorter_match_empty [OF j(1) k(2)] k(1) j(2) by auto
    qed
    have one: "suffix (take 1 ?m) (h @ [v]) \<longleftrightarrow> v = ?m ! 0" using suffix_take_Suc [of 0 h v] by simp
    have "\<not> suffix (take j ?m) (h @ [v])" if "1 < j \<or> 0 < j \<and> v \<noteq> ?m ! 0" "j < 7" for j
      using empty [of "j - 1"] that by (cases j) auto
    moreover have "\<not> suffix ?m (h @ [v])" using full False by auto
    ultimately show ?thesis using assms(2) False one by (auto simp: consume_byte_def longest_match_def simp del: suffix_snoc)
  qed
qed

lemma consume_bytes_match:
  assumes "longest_match h (mp_match_index parser)" and "consume_bytes cin index vs parser = (action, parser1)"
    and "cin = 0x05 \<and> index = 0 \<longrightarrow> length vs \<le> 1"
  shows "longest_match (h @ vs) (mp_match_index parser1) \<and>
    (action = MIDI_SYSEX_ACTION_RESET_SESSION \<longleftrightarrow>
      cin = 0x05 \<and> index = 0 \<and> vs \<noteq> [] \<and> suffix reset_session_message (h @ [hd vs]))"
  using assms
proof (induction vs arbitrary: h parser index)
  case (Cons v vs)
  obtain a p where b: "consume_byte parser v = (a, p)" by (cases "consume_byte parser v")
  note m = consume_byte_match [OF Cons.prems(1) b]
  show ?case
  proof (cases "cin = 0x05 \<and> index = 0")
    case True
    then have "vs = []" using Cons.prems(3) by simp
    then show ?thesis using Cons.prems(2) b m True by (cases a) auto
  next
    case False
    have p0: "a \<noteq> MIDI_SYSEX_ACTION_NONE \<Longrightarrow> p\<lparr> mp_match_index := 0 \<rparr> = p" using m by (cases a) auto
    have "consume_bytes cin (index + 1) vs p = (action, parser1)"
      using Cons.prems(2) b False p0 by (auto split: if_splits)
    then show ?thesis using Cons.IH [of "h @ [v]" p "index + 1"] m False by auto
  qed
qed simp

section \<open>Packets\<close>

text \<open>The bytes of the system-exclusive stream the packets spell: real-time packets pass through it, any
  other packet ends it.\<close>

definition extend_stream :: "u8 list \<Rightarrow> u8 list \<Rightarrow> u8 list" where
  "extend_stream packet h =
     (case sysex_byte_count (packet ! 0 AND 0x0f) of
        Some n \<Rightarrow> h @ packet_bytes packet n
      | None \<Rightarrow> if packet ! 0 AND 0x0f = 0x0f then h else [])"

definition after_packets :: "u8 list list \<Rightarrow> midi_sysex_reset_parser" where
  "after_packets ps = fold (\<lambda>p s. snd (midi_sysex_reset_process_usb_packet s p)) ps midi_sysex_reset_parser_init"

lemma longest_match_Nil: "longest_match [] 0"
proof -
  have "\<not> suffix (take j reset_session_message) []" if "0 < j" "j < 7" for j
    using that by (simp add: reset_session_message_def)
  then show ?thesis by (auto simp: longest_match_def)
qed

lemma process_packet_match:
  assumes "longest_match h (mp_match_index s)" and "midi_sysex_reset_process_usb_packet s packet = (action, s1)"
  shows "longest_match (extend_stream packet h) (mp_match_index s1) \<and>
    (action = MIDI_SYSEX_ACTION_RESET_SESSION \<longleftrightarrow>
      packet ! 0 AND 0x0f = 0x05 \<and> suffix reset_session_message (h @ [packet ! 1]))"
proof (cases "sysex_byte_count (packet ! 0 AND 0x0f)")
  case None
  then show ?thesis
    using assms longest_match_Nil
    by (auto simp: midi_sysex_reset_process_usb_packet_def extend_stream_def sysex_byte_count_def Let_def split: if_splits)
next
  case (Some n)
  let ?cin = "packet ! 0 AND 0x0f"
  have c: "consume_bytes ?cin 0 (packet_bytes packet n) s = (action, s1)"
    using assms(2) Some by (simp add: midi_sysex_reset_process_usb_packet_def Let_def)
  have n: "0 < n" "?cin = 0x05 \<longrightarrow> n = 1" using Some by (auto simp: sysex_byte_count_def split: if_splits)
  then have "packet_bytes packet n \<noteq> []" "hd (packet_bytes packet n) = packet ! 1" "?cin = 0x05 \<longrightarrow> length (packet_bytes packet n) \<le> 1"
    by (simp_all add: packet_bytes_def hd_map upt_conv_Cons)
  then show ?thesis using consume_bytes_match [OF assms(1) c] Some by (simp add: extend_stream_def)
qed

lemma after_packets_match: "longest_match (fold extend_stream ps []) (mp_match_index (after_packets ps))"
proof -
  have "longest_match (fold extend_stream ps h)
      (mp_match_index (fold (\<lambda>p s. snd (midi_sysex_reset_process_usb_packet s p)) ps s))"
    if "longest_match h (mp_match_index s)" for h s
    using that
  proof (induction ps arbitrary: h s)
    case (Cons p ps)
    have "longest_match (extend_stream p h) (mp_match_index (snd (midi_sysex_reset_process_usb_packet s p)))"
      using process_packet_match [OF Cons.prems] by (metis prod.collapse)
    then show ?case using Cons.IH by simp
  qed simp
  then show ?thesis
    using longest_match_Nil by (simp add: after_packets_def midi_sysex_reset_parser_init_def)
qed

text \<open>C22: The recogniser, which remembers only a count, answers exactly as one that remembers the whole
  stream: after any packets, a packet triggers the session reset if and only if it is a one-byte
  end-of-exclusive packet whose byte completes the reset message as the last seven bytes of the
  system-exclusive stream, with real-time packets allowed in between and none of the message seen before
  another kind of packet.\<close>

theorem sysex_reset_exact:
  "fst (midi_sysex_reset_process_usb_packet (after_packets ps) packet) = MIDI_SYSEX_ACTION_RESET_SESSION \<longleftrightarrow>
     packet ! 0 AND 0x0f = 0x05 \<and> suffix reset_session_message (fold extend_stream ps [] @ [packet ! 1])"
  using process_packet_match [OF after_packets_match, of ps packet] by (metis prod.collapse)

end
