(* ===== verification/Firmware_Audio.thy ===== *)
theory Firmware_Audio
  imports Counter_Ring
begin

text \<open>
  The firmware's audio path from the FPGA to USB: \<open>src/mcu/i2s_clock_monitor.c\<close> judges the external clock,
  \<open>src/mcu/i2s_capture.c\<close> reads the ring the DMA engine fills, \<open>src/mcu/usb_audio_rate_match.c\<close> plans
  each packet and \<open>fill_usb_audio_packet\<close> of \<open>src/mcu/main.c\<close> puts it together. Of the DMA channel the
  state keeps what the code sets and reads: the position of its write address in the ring and the number of
  transfers left; \<open>dma_store\<close> is what the channel does with one frame, and the interrupt handler of the code
  reloads it. The programming of the PIO and of the pins is not modelled.
\<close>

section \<open>The clock monitor\<close>

definition I2S_CLOCK_WINDOW_US :: u32 where "I2S_CLOCK_WINDOW_US = 16000"
definition I2S_CLOCK_FRAME_TOLERANCE :: u32 where "I2S_CLOCK_FRAME_TOLERANCE = 10"
definition I2S_CLOCK_STOPPED_US :: u32 where "I2S_CLOCK_STOPPED_US = 4000"

record i2s_clock_monitor =
  cm_previous_frame_count :: u32
  cm_window_frame_count :: u32
  cm_window_elapsed_us :: u32
  cm_stopped_elapsed_us :: u32
  cm_initialized :: bool
  cm_valid :: bool
  cm_seen_valid :: bool
  cm_recovery_pending :: bool

definition i2s_clock_monitor_init :: "u32 \<Rightarrow> i2s_clock_monitor" where
  "i2s_clock_monitor_init frame_count =
     \<lparr> cm_previous_frame_count = frame_count, cm_window_frame_count = 0, cm_window_elapsed_us = 0,
       cm_stopped_elapsed_us = 0, cm_initialized = True, cm_valid = False, cm_seen_valid = False,
       cm_recovery_pending = False \<rparr>"

text \<open>No frame since the last observation.\<close>

definition monitor_stopped :: "i2s_clock_monitor \<Rightarrow> u32 \<Rightarrow> i2s_clock_monitor" where
  "monitor_stopped m elapsed_us =
     (let m1 = m\<lparr> cm_window_frame_count := 0, cm_window_elapsed_us := 0,
                 cm_stopped_elapsed_us :=
                   (if elapsed_us \<ge> I2S_CLOCK_STOPPED_US - cm_stopped_elapsed_us m then I2S_CLOCK_STOPPED_US
                    else cm_stopped_elapsed_us m + elapsed_us) \<rparr>
      in if cm_stopped_elapsed_us m1 \<ge> I2S_CLOCK_STOPPED_US
         then m1\<lparr> cm_recovery_pending := (cm_seen_valid m1 \<or> cm_recovery_pending m1), cm_valid := False \<rparr>
         else m1)"

text \<open>Frames have arrived: the window grows, and is judged when it is long enough.\<close>

definition monitor_running :: "i2s_clock_monitor \<Rightarrow> u32 \<Rightarrow> u32 \<Rightarrow> i2s_clock_monitor" where
  "monitor_running m elapsed_frames elapsed_us =
     (let m1 = m\<lparr> cm_stopped_elapsed_us := 0,
                 cm_window_frame_count := cm_window_frame_count m + elapsed_frames,
                 cm_window_elapsed_us := cm_window_elapsed_us m + elapsed_us \<rparr>
      in if cm_window_elapsed_us m1 \<ge> I2S_CLOCK_WINDOW_US
         then (let expected_frames = (cm_window_elapsed_us m1 * 48 + 500) div 1000;
                   valid = (cm_window_frame_count m1 \<ge> expected_frames - I2S_CLOCK_FRAME_TOLERANCE \<and>
                            cm_window_frame_count m1 \<le> expected_frames + I2S_CLOCK_FRAME_TOLERANCE)
               in m1\<lparr> cm_valid := valid, cm_seen_valid := (valid \<or> cm_seen_valid m1),
                      cm_window_frame_count := 0, cm_window_elapsed_us := 0 \<rparr>)
         else m1)"

definition i2s_clock_monitor_advance_us :: "i2s_clock_monitor \<Rightarrow> u32 \<Rightarrow> u32 \<Rightarrow> i2s_clock_monitor" where
  "i2s_clock_monitor_advance_us m frame_count elapsed_us =
     (if elapsed_us = 0 then m
      else if \<not> cm_initialized m then i2s_clock_monitor_init frame_count
      else
        (let elapsed_frames = frame_count - cm_previous_frame_count m;
             m1 = m\<lparr> cm_previous_frame_count := frame_count \<rparr>
         in if elapsed_frames = 0 then monitor_stopped m1 elapsed_us
            else monitor_running m1 elapsed_frames elapsed_us))"

definition i2s_clock_monitor_advance :: "i2s_clock_monitor \<Rightarrow> u32 \<Rightarrow> u32 \<Rightarrow> i2s_clock_monitor" where
  "i2s_clock_monitor_advance m frame_count elapsed_ms = i2s_clock_monitor_advance_us m frame_count (elapsed_ms * 1000)"

definition i2s_clock_monitor_tick :: "i2s_clock_monitor \<Rightarrow> u32 \<Rightarrow> i2s_clock_monitor" where
  "i2s_clock_monitor_tick m frame_count = i2s_clock_monitor_advance m frame_count 1"

definition i2s_clock_monitor_valid :: "i2s_clock_monitor \<Rightarrow> bool" where
  "i2s_clock_monitor_valid m \<longleftrightarrow> cm_valid m"

definition i2s_clock_monitor_recovery_ready :: "i2s_clock_monitor \<Rightarrow> bool" where
  "i2s_clock_monitor_recovery_ready m \<longleftrightarrow> cm_valid m \<and> cm_recovery_pending m"

section \<open>The capture ring\<close>

definition I2S_RING_FRAME_COUNT :: u32 where "I2S_RING_FRAME_COUNT = 2048"

record i2s_capture =
  ca_ring :: "u32 list"
  ca_dma_index :: nat
  ca_transfer_count :: u32
  ca_completed_count :: u32
  ca_read_count :: u32
  ca_monitor :: i2s_clock_monitor
  ca_clock_valid :: bool
  ca_resync_pending :: bool
  ca_rx_stalls :: u32
  ca_overruns :: u32
  ca_lost_frames :: u32

definition capture_index :: "u32 \<Rightarrow> nat" where
  "capture_index n = unat (n AND (I2S_RING_FRAME_COUNT - 1))"

definition capture_write_count :: "i2s_capture \<Rightarrow> u32" where
  "capture_write_count c = ca_completed_count c + I2S_RING_FRAME_COUNT - ca_transfer_count c"

text \<open>The DMA channel: while transfers are left it stores a frame at its write address, which wraps at the end
  of the ring; with none left the frame stays in the receive FIFO.\<close>

definition dma_store :: "u32 \<Rightarrow> i2s_capture \<Rightarrow> i2s_capture" where
  "dma_store frame c =
     (if ca_transfer_count c = 0 then c
      else c\<lparr> ca_ring := (ca_ring c)[ca_dma_index c := frame],
              ca_dma_index := (ca_dma_index c + 1) mod 2048, ca_transfer_count := ca_transfer_count c - 1 \<rparr>)"

definition i2s_capture_dma_irq :: "i2s_capture \<Rightarrow> i2s_capture" where
  "i2s_capture_dma_irq c =
     c\<lparr> ca_completed_count := ca_completed_count c + I2S_RING_FRAME_COUNT, ca_transfer_count := I2S_RING_FRAME_COUNT \<rparr>"

text \<open>A frame is stored, and when it was the last of a block the handler runs before the next one.\<close>

definition capture_produce :: "u32 \<Rightarrow> i2s_capture \<Rightarrow> i2s_capture" where
  "capture_produce frame c =
     (let c1 = dma_store frame c in if ca_transfer_count c1 = 0 then i2s_capture_dma_irq c1 else c1)"

text \<open>The restart keeps the count of frames and points the channel at the start of the ring.\<close>

definition i2s_capture_restart_hardware :: "i2s_capture \<Rightarrow> i2s_capture" where
  "i2s_capture_restart_hardware c =
     (let producer_count = ca_completed_count c + I2S_RING_FRAME_COUNT - ca_transfer_count c
      in c\<lparr> ca_completed_count := producer_count, ca_read_count := producer_count,
            ca_dma_index := 0, ca_transfer_count := I2S_RING_FRAME_COUNT,
            ca_monitor := i2s_clock_monitor_init producer_count,
            ca_clock_valid := False, ca_resync_pending := False \<rparr>)"

definition i2s_capture_advance_us :: "u32 \<Rightarrow> i2s_capture \<Rightarrow> i2s_capture" where
  "i2s_capture_advance_us elapsed_us c =
     (let m = i2s_clock_monitor_advance_us (ca_monitor c) (capture_write_count c) elapsed_us; c1 = c\<lparr> ca_monitor := m \<rparr>
      in if i2s_clock_monitor_recovery_ready m then c1\<lparr> ca_resync_pending := True, ca_clock_valid := False \<rparr>
         else if \<not> ca_resync_pending c1 then c1\<lparr> ca_clock_valid := i2s_clock_monitor_valid m \<rparr>
         else c1)"

definition i2s_capture_advance_ms :: "u32 \<Rightarrow> i2s_capture \<Rightarrow> i2s_capture" where
  "i2s_capture_advance_ms elapsed_ms = i2s_capture_advance_us (elapsed_ms * 1000)"

definition i2s_capture_tick_1ms :: "i2s_capture \<Rightarrow> i2s_capture" where
  "i2s_capture_tick_1ms = i2s_capture_advance_ms 1"

text \<open>\<open>stalled\<close> is the PIO's sticky flag for a full receive FIFO, which the task clears.\<close>

definition i2s_capture_task :: "bool \<Rightarrow> i2s_capture \<Rightarrow> i2s_capture" where
  "i2s_capture_task stalled c =
     (let c1 = (if stalled then c\<lparr> ca_rx_stalls := ca_rx_stalls c + 1 \<rparr> else c)
      in if ca_resync_pending c1 then i2s_capture_restart_hardware c1 else c1)"

definition i2s_capture_request_resync :: "i2s_capture \<Rightarrow> i2s_capture" where
  "i2s_capture_request_resync c = c\<lparr> ca_clock_valid := False, ca_resync_pending := True \<rparr>"

definition i2s_capture_available :: "i2s_capture \<Rightarrow> nat \<times> i2s_capture" where
  "i2s_capture_available c =
     (let available = capture_write_count c - ca_read_count c
      in if available > I2S_RING_FRAME_COUNT
         then (let lost = available - I2S_RING_FRAME_COUNT
               in (unat I2S_RING_FRAME_COUNT,
                   c\<lparr> ca_read_count := ca_read_count c + lost, ca_overruns := ca_overruns c + 1,
                      ca_lost_frames := ca_lost_frames c + lost \<rparr>))
         else (unat available, c))"

text \<open>A packed frame as the pair of 16-bit samples.\<close>

definition unpack_frame :: "u32 \<Rightarrow> int \<times> int" where
  "unpack_frame packed = (s16 (ucast (drop_bit 16 packed)), s16 (ucast packed))"

fun capture_copy :: "nat \<Rightarrow> i2s_capture \<Rightarrow> (int \<times> int) list \<times> i2s_capture" where
  "capture_copy 0 c = ([], c)"
| "capture_copy (Suc n) c =
     (case capture_copy n (c\<lparr> ca_read_count := ca_read_count c + 1 \<rparr>) of
        (samples, c1) \<Rightarrow> (unpack_frame (ca_ring c ! capture_index (ca_read_count c)) # samples, c1))"

definition i2s_capture_read :: "nat \<Rightarrow> i2s_capture \<Rightarrow> (int \<times> int) list \<times> i2s_capture" where
  "i2s_capture_read frame_count c =
     (case i2s_capture_available c of
        (available, c1) \<Rightarrow> capture_copy (if frame_count > available then available else frame_count) c1)"

definition i2s_capture_discard :: "i2s_capture \<Rightarrow> i2s_capture" where
  "i2s_capture_discard c = c\<lparr> ca_read_count := capture_write_count c \<rparr>"

definition i2s_capture_reset_diagnostics :: "i2s_capture \<Rightarrow> i2s_capture" where
  "i2s_capture_reset_diagnostics c = c\<lparr> ca_rx_stalls := 0, ca_overruns := 0, ca_lost_frames := 0 \<rparr>"

section \<open>Packets\<close>

definition APP_USB_AUDIO_NOMINAL_FRAMES :: nat where "APP_USB_AUDIO_NOMINAL_FRAMES = 48"
definition APP_USB_AUDIO_MAX_FRAMES :: nat where "APP_USB_AUDIO_MAX_FRAMES = 49"
definition APP_USB_AUDIO_TARGET_FRAMES :: nat where "APP_USB_AUDIO_TARGET_FRAMES = 96"
definition APP_USB_AUDIO_ADJUST_MARGIN :: nat where "APP_USB_AUDIO_ADJUST_MARGIN = 24"

record usb_audio_stream_state =
  us_started :: bool
  us_resync_pending :: bool

datatype usb_audio_packet_action = PACKET_SILENCE | PACKET_DISCARD_AND_SILENCE | PACKET_CAPTURE

definition app_usb_audio_packet_frames :: "nat \<Rightarrow> nat" where
  "app_usb_audio_packet_frames available_frames =
     (if available_frames > APP_USB_AUDIO_TARGET_FRAMES + APP_USB_AUDIO_ADJUST_MARGIN then APP_USB_AUDIO_MAX_FRAMES
      else if available_frames < APP_USB_AUDIO_TARGET_FRAMES - APP_USB_AUDIO_ADJUST_MARGIN \<and>
              available_frames \<ge> APP_USB_AUDIO_NOMINAL_FRAMES - 1 then APP_USB_AUDIO_NOMINAL_FRAMES - 1
      else APP_USB_AUDIO_NOMINAL_FRAMES)"

definition app_usb_audio_stream_reset :: "usb_audio_stream_state \<Rightarrow> usb_audio_stream_state" where
  "app_usb_audio_stream_reset s = s\<lparr> us_started := False, us_resync_pending := True \<rparr>"

definition app_usb_audio_stream_plan ::
    "usb_audio_stream_state \<Rightarrow> bool \<Rightarrow> nat \<Rightarrow> usb_audio_packet_action \<times> nat \<times> usb_audio_stream_state" where
  "app_usb_audio_stream_plan s clock_valid available_frames =
     (if \<not> clock_valid
      then (PACKET_DISCARD_AND_SILENCE, APP_USB_AUDIO_NOMINAL_FRAMES, s\<lparr> us_started := False, us_resync_pending := False \<rparr>)
      else if us_resync_pending s
      then (PACKET_DISCARD_AND_SILENCE, APP_USB_AUDIO_NOMINAL_FRAMES, s\<lparr> us_started := False, us_resync_pending := False \<rparr>)
      else if \<not> us_started s \<and> available_frames < APP_USB_AUDIO_TARGET_FRAMES
      then (PACKET_SILENCE, APP_USB_AUDIO_NOMINAL_FRAMES, s)
      else
        (let s1 = s\<lparr> us_started := True \<rparr>
         in if available_frames < APP_USB_AUDIO_NOMINAL_FRAMES - 1
            then (PACKET_DISCARD_AND_SILENCE, APP_USB_AUDIO_NOMINAL_FRAMES, s1\<lparr> us_started := False \<rparr>)
            else (PACKET_CAPTURE, app_usb_audio_packet_frames available_frames, s1)))"

text \<open>The counters of a build without \<open>APP_ENABLE_DETAILED_DIAGNOSTICS\<close>; the detailed ones are only written.\<close>

record usb_audio_diagnostics =
  ud_startup_silence_packets :: u32
  ud_discard_packets :: u32
  ud_clock_invalid_packets :: u32
  ud_resync_packets :: u32
  ud_underflow_packets :: u32

record usb_audio =
  ua_capture :: i2s_capture
  ua_stream :: usb_audio_stream_state
  ua_diagnostics :: usb_audio_diagnostics

definition fill_usb_audio_silence :: "(int \<times> int) list" where
  "fill_usb_audio_silence = replicate APP_USB_AUDIO_NOMINAL_FRAMES (0, 0)"

definition note_discard :: "bool \<Rightarrow> usb_audio_stream_state \<Rightarrow> nat \<Rightarrow> usb_audio_diagnostics \<Rightarrow> usb_audio_diagnostics" where
  "note_discard clock_valid was available d =
     (let d1 = d\<lparr> ud_discard_packets := ud_discard_packets d + 1 \<rparr>
      in if \<not> clock_valid then d1\<lparr> ud_clock_invalid_packets := ud_clock_invalid_packets d1 + 1 \<rparr>
         else if us_resync_pending was then d1\<lparr> ud_resync_packets := ud_resync_packets d1 + 1 \<rparr>
         else if us_started was \<and> available < APP_USB_AUDIO_NOMINAL_FRAMES - 1
         then d1\<lparr> ud_underflow_packets := ud_underflow_packets d1 + 1 \<rparr> else d1)"

definition fill_usb_audio_packet :: "usb_audio \<Rightarrow> (int \<times> int) list \<times> usb_audio" where
  "fill_usb_audio_packet u =
     (case i2s_capture_available (ua_capture u) of
        (available, c) \<Rightarrow>
          (let clock_valid = ca_clock_valid c
           in case app_usb_audio_stream_plan (ua_stream u) clock_valid available of
                (action, requested, s) \<Rightarrow>
                  (let u1 = u\<lparr> ua_capture := c, ua_stream := s \<rparr>
                   in case action of
                        PACKET_DISCARD_AND_SILENCE \<Rightarrow>
                          (fill_usb_audio_silence,
                           u1\<lparr> ua_diagnostics := note_discard clock_valid (ua_stream u) available (ua_diagnostics u1),
                               ua_capture := i2s_capture_discard c \<rparr>)
                      | PACKET_SILENCE \<Rightarrow>
                          (fill_usb_audio_silence,
                           u1\<lparr> ua_diagnostics := (ua_diagnostics u1)\<lparr> ud_startup_silence_packets :=
                                 ud_startup_silence_packets (ua_diagnostics u1) + 1 \<rparr> \<rparr>)
                      | PACKET_CAPTURE \<Rightarrow>
                          (case i2s_capture_read requested c of
                             (samples, c1) \<Rightarrow> (samples, u1\<lparr> ua_capture := c1 \<rparr>)))))"

section \<open>Frames pass through the ring in order\<close>

definition ca_size :: "i2s_capture \<Rightarrow> nat" where
  "ca_size c = unat (capture_write_count c - ca_read_count c)"

definition ca_contents :: "i2s_capture \<Rightarrow> u32 list" where
  "ca_contents c = ring_list (ca_ring c) (ring_index 2048 (ca_read_count c)) (ca_size c)"

definition capture_ok :: "i2s_capture \<Rightarrow> bool" where
  "capture_ok c \<longleftrightarrow> length (ca_ring c) = 2048 \<and> ca_size c \<le> 2048 \<and> ca_transfer_count c \<noteq> 0 \<and>
     ca_dma_index c = capture_index (capture_write_count c)"

lemma length_ca_contents [simp]: "length (ca_contents c) = ca_size c"
  by (simp add: ca_contents_def)

lemma capture_index_ring: "capture_index n = ring_index 2048 n"
proof -
  have "n AND (I2S_RING_FRAME_COUNT - 1) = n AND mask 11" by (simp add: I2S_RING_FRAME_COUNT_def mask_eq_exp_minus_1)
  then show ?thesis unfolding capture_index_def using ring_index_mask [of n 11] by simp
qed

lemma capture_index_Suc: "capture_index (n + 1) = (capture_index n + 1) mod 2048"
  using ring_index_add [of 2048 n 1] by (simp add: capture_index_ring)

lemma produce_write_count:
  "ca_transfer_count c \<noteq> 0 \<Longrightarrow> capture_write_count (capture_produce f c) = capture_write_count c + 1"
  by (auto simp: capture_produce_def dma_store_def i2s_capture_dma_irq_def capture_write_count_def I2S_RING_FRAME_COUNT_def Let_def)

lemma produce_fields:
  assumes "ca_transfer_count c \<noteq> 0"
  shows "ca_ring (capture_produce f c) = (ca_ring c)[ca_dma_index c := f]"
    "ca_dma_index (capture_produce f c) = (ca_dma_index c + 1) mod 2048"
    "ca_transfer_count (capture_produce f c) \<noteq> 0" "ca_read_count (capture_produce f c) = ca_read_count c"
    "ca_clock_valid (capture_produce f c) = ca_clock_valid c"
  using assms by (auto simp: capture_produce_def dma_store_def i2s_capture_dma_irq_def I2S_RING_FRAME_COUNT_def Let_def)

lemma capture_produce_appends:
  assumes "capture_ok c" and "ca_size c < 2048"
  shows "capture_ok (capture_produce f c) \<and> ca_contents (capture_produce f c) = ca_contents c @ [f] \<and>
    ca_size (capture_produce f c) = Suc (ca_size c) \<and> ca_clock_valid (capture_produce f c) = ca_clock_valid c"
proof -
  have busy: "ca_transfer_count c \<noteq> 0" using assms(1) by (simp add: capture_ok_def)
  note fields = produce_fields [OF busy, of f] produce_write_count [OF busy, of f]
  have s: "ca_size (capture_produce f c) = Suc (ca_size c)"
    using unat_advance [of "capture_write_count c" "ca_read_count c"] assms(2) by (simp add: ca_size_def fields)
  have i: "ca_dma_index c = (ring_index 2048 (ca_read_count c) + ca_size c) mod length (ca_ring c)"
    using ring_index_distance [of 2048 "capture_write_count c" "ca_read_count c"] assms(1)
    by (simp add: capture_index_ring ca_size_def capture_ok_def)
  have "ring_list (ca_ring (capture_produce f c)) (ring_index 2048 (ca_read_count c)) (Suc (ca_size c)) =
      ring_list (ca_ring c) (ring_index 2048 (ca_read_count c)) (ca_size c) @ [f]"
    using ring_list_push [of "ca_size c" "ca_ring c" "ring_index 2048 (ca_read_count c)" f] assms
    by (simp add: fields(1) i capture_ok_def)
  then have "ca_contents (capture_produce f c) = ca_contents c @ [f]" by (simp only: ca_contents_def s fields(4))
  then show ?thesis using s assms fields by (simp add: capture_ok_def capture_index_Suc)
qed

lemma capture_produce_all:
  "capture_ok c \<Longrightarrow> ca_size c + length fs \<le> 2048 \<Longrightarrow>
     capture_ok (fold capture_produce fs c) \<and> ca_contents (fold capture_produce fs c) = ca_contents c @ fs \<and>
     ca_size (fold capture_produce fs c) = ca_size c + length fs \<and>
     ca_clock_valid (fold capture_produce fs c) = ca_clock_valid c"
  by (induction fs arbitrary: c) (simp_all add: capture_produce_appends)

lemma capture_copy_takes:
  "capture_ok c \<Longrightarrow> n \<le> ca_size c \<Longrightarrow> capture_copy n c = (samples, c1) \<Longrightarrow>
     samples = map unpack_frame (take n (ca_contents c)) \<and> capture_ok c1 \<and> ca_contents c1 = drop n (ca_contents c) \<and>
     ca_size c1 = ca_size c - n \<and> ca_clock_valid c1 = ca_clock_valid c"
proof (induction n arbitrary: c samples)
  case (Suc n)
  let ?c = "c\<lparr> ca_read_count := ca_read_count c + 1 \<rparr>"
  have size: "ca_size ?c = ca_size c - 1"
    using unat_behind [of "ca_read_count c + 1" "ca_read_count c" "capture_write_count c"] Suc.prems(2) by (simp add: ca_size_def capture_write_count_def)
  obtain m where m: "ca_size c = Suc m" using Suc.prems(2) by (cases "ca_size c") simp_all
  have i: "ring_index 2048 (ca_read_count c + 1) = (ring_index 2048 (ca_read_count c) + 1) mod 2048"
    using ring_index_add [of 2048 "ca_read_count c" 1] by simp
  have first: "ca_contents c = ca_ring c ! capture_index (ca_read_count c) # ca_contents ?c"
    using ring_list_pop [of "ring_index 2048 (ca_read_count c)" "ca_ring c" m] Suc.prems(1) m size
    by (simp add: ca_contents_def capture_ok_def i capture_index_ring)
  obtain rest where rest: "capture_copy n ?c = (rest, c1)" and s: "samples = unpack_frame (ca_ring c ! capture_index (ca_read_count c)) # rest"
    using Suc.prems(3) by (auto split: prod.splits)
  have "capture_ok ?c" using Suc.prems(1) size by (auto simp: capture_ok_def capture_write_count_def)
  then show ?case using Suc.IH [of ?c rest] rest s first size Suc.prems(2) by simp
qed (simp add: capture_ok_def)

lemma available_in_ring: "capture_ok c \<Longrightarrow> i2s_capture_available c = (ca_size c, c)"
  by (simp add: i2s_capture_available_def capture_ok_def ca_size_def I2S_RING_FRAME_COUNT_def word_less_nat_alt not_less)

section \<open>The packet rate follows the source\<close>

definition usb_playing :: "usb_audio \<Rightarrow> bool" where
  "usb_playing u \<longleftrightarrow> capture_ok (ua_capture u) \<and> ca_clock_valid (ua_capture u) \<and> us_started (ua_stream u) \<and>
     \<not> us_resync_pending (ua_stream u)"

text \<open>Frames arrive, then the host asks for a packet.\<close>

definition usb_interval :: "u32 list \<Rightarrow> usb_audio \<Rightarrow> (int \<times> int) list \<times> usb_audio" where
  "usb_interval fs u = fill_usb_audio_packet (u\<lparr> ua_capture := fold capture_produce fs (ua_capture u) \<rparr>)"

fun usb_intervals :: "u32 list list \<Rightarrow> usb_audio \<Rightarrow> (int \<times> int) list list \<times> usb_audio" where
  "usb_intervals [] u = ([], u)"
| "usb_intervals (fs # fss) u =
     (case usb_interval fs u of
        (packet, u1) \<Rightarrow> (case usb_intervals fss u1 of (packets, u2) \<Rightarrow> (packet # packets, u2)))"

lemmas usb_audio_sizes = APP_USB_AUDIO_NOMINAL_FRAMES_def APP_USB_AUDIO_MAX_FRAMES_def APP_USB_AUDIO_TARGET_FRAMES_def
  APP_USB_AUDIO_ADJUST_MARGIN_def

lemma packet_frames_range:
  assumes "47 \<le> a"
  shows "app_usb_audio_packet_frames a \<le> a" "app_usb_audio_packet_frames a \<in> {47, 48, 49}"
    "a = b + p \<Longrightarrow> p \<in> {47, 48, 49} \<Longrightarrow> min b 24 \<le> a - app_usb_audio_packet_frames a \<and> a - app_usb_audio_packet_frames a \<le> max b 72"
  using assms by (auto simp: app_usb_audio_packet_frames_def usb_audio_sizes)

lemma usb_interval_playing:
  assumes "usb_playing u" and "length fs \<in> {47, 48, 49}" and "ca_size (ua_capture u) \<le> 1999"
    and "usb_interval fs u = (packet, u1)"
  shows "usb_playing u1 \<and> ua_diagnostics u1 = ua_diagnostics u \<and> length packet \<in> {47, 48, 49} \<and>
    packet @ map unpack_frame (ca_contents (ua_capture u1)) = map unpack_frame (ca_contents (ua_capture u) @ fs) \<and>
    min (ca_size (ua_capture u)) 24 \<le> ca_size (ua_capture u1) \<and> ca_size (ua_capture u1) \<le> max (ca_size (ua_capture u)) 72"
proof -
  let ?c = "fold capture_produce fs (ua_capture u)"
  let ?a = "ca_size (ua_capture u) + length fs"
  let ?n = "app_usb_audio_packet_frames ?a"
  have c: "capture_ok ?c" "ca_contents ?c = ca_contents (ua_capture u) @ fs" "ca_size ?c = ?a" "ca_clock_valid ?c"
    using capture_produce_all [of "ua_capture u" fs] assms(1,2,3) by (auto simp: usb_playing_def)
  have a: "47 \<le> ?a" using assms(2) by auto
  have plan: "app_usb_audio_stream_plan (ua_stream u) True ?a = (PACKET_CAPTURE, ?n, ua_stream u)"
    using assms(1) a by (simp add: app_usb_audio_stream_plan_def usb_playing_def usb_audio_sizes Let_def)
  obtain samples c1 where copy: "capture_copy ?n ?c = (samples, c1)" by (cases "capture_copy ?n ?c")
  have read: "i2s_capture_read ?n ?c = (samples, c1)"
    using copy packet_frames_range(1) [OF a] by (simp add: i2s_capture_read_def available_in_ring [OF c(1)] c(3) not_less)
  have res: "packet = samples" "ua_capture u1 = c1" "ua_stream u1 = ua_stream u" "ua_diagnostics u1 = ua_diagnostics u"
    using assms(4) plan c read by (auto simp: usb_interval_def fill_usb_audio_packet_def available_in_ring [OF c(1)] Let_def)
  have "?n \<le> ca_size ?c" using packet_frames_range(1) [OF a] c(3) by simp
  note t = capture_copy_takes [OF c(1) this copy]
  have len: "length samples = ?n" using t packet_frames_range(1) [OF a] c(3) by simp
  have "samples @ map unpack_frame (ca_contents c1) = map unpack_frame (ca_contents ?c)"
    using t by (simp only: map_append [symmetric] append_take_drop_id)
  then have order: "packet @ map unpack_frame (ca_contents (ua_capture u1)) = map unpack_frame (ca_contents (ua_capture u) @ fs)"
    by (simp only: res c(2))
  have size: "ca_size (ua_capture u1) = ?a - ?n" using t c(3) res(2) by simp
  have playing: "usb_playing u1" using t c(4) assms(1) res(2,3) by (simp add: usb_playing_def)
  have "length packet = ?n" using len res(1) by simp
  then show ?thesis
    using order size playing res(4) packet_frames_range(2) [OF a] packet_frames_range(3) [OF a refl assms(2)] by simp
qed

text \<open>C23: No audio frame is lost, repeated or altered on its way to USB while the clocks drift. Once the
  stream plays, if between two packets the source delivers 47, 48 or 49 frames, every packet carries
  captured frames, 47 to 49 of them; the frames of all packets followed by those still in the ring are
  exactly the frames that were in the ring followed by those delivered, in order; and the fill stays
  between the smaller of its start and 24 and the larger of its start and 72, for ever and however often
  the 32-bit counters wrap, without a single underflow or discard.\<close>

theorem usb_audio_lossless:
  assumes "usb_playing u" and "ca_size (ua_capture u) \<le> 1999" and "\<forall>fs \<in> set fss. length fs \<in> {47, 48, 49}"
    and "usb_intervals fss u = (packets, u1)"
  shows "concat packets @ map unpack_frame (ca_contents (ua_capture u1)) =
      map unpack_frame (ca_contents (ua_capture u) @ concat fss) \<and>
    list_all (\<lambda>p. length p \<in> {47, 48, 49}) packets \<and> length packets = length fss \<and> usb_playing u1 \<and>
    ua_diagnostics u1 = ua_diagnostics u \<and> min (ca_size (ua_capture u)) 24 \<le> ca_size (ua_capture u1) \<and>
    ca_size (ua_capture u1) \<le> max (ca_size (ua_capture u)) 72"
  using assms
proof (induction fss arbitrary: u packets)
  case (Cons fs fss)
  obtain packet u' where i: "usb_interval fs u = (packet, u')" by (cases "usb_interval fs u")
  obtain rest where r: "usb_intervals fss u' = (rest, u1)" "packets = packet # rest"
    using Cons.prems(4) i by (auto split: prod.splits)
  have step: "usb_playing u' \<and> ua_diagnostics u' = ua_diagnostics u \<and> length packet \<in> {47, 48, 49} \<and>
      packet @ map unpack_frame (ca_contents (ua_capture u')) = map unpack_frame (ca_contents (ua_capture u) @ fs) \<and>
      min (ca_size (ua_capture u)) 24 \<le> ca_size (ua_capture u') \<and> ca_size (ua_capture u') \<le> max (ca_size (ua_capture u)) 72"
    using usb_interval_playing [OF Cons.prems(1) _ Cons.prems(2) i] Cons.prems(3) by simp
  have IH: "concat rest @ map unpack_frame (ca_contents (ua_capture u1)) = map unpack_frame (ca_contents (ua_capture u') @ concat fss) \<and>
      list_all (\<lambda>p. length p \<in> {47, 48, 49}) rest \<and> length rest = length fss \<and> usb_playing u1 \<and>
      ua_diagnostics u1 = ua_diagnostics u' \<and> min (ca_size (ua_capture u')) 24 \<le> ca_size (ua_capture u1) \<and>
      ca_size (ua_capture u1) \<le> max (ca_size (ua_capture u')) 72"
    using Cons.prems step r by (intro Cons.IH) auto
  have "concat packets @ map unpack_frame (ca_contents (ua_capture u1)) =
      packet @ map unpack_frame (ca_contents (ua_capture u')) @ map unpack_frame (concat fss)"
    using IH r(2) by simp
  also have "\<dots> = map unpack_frame (ca_contents (ua_capture u) @ fs) @ map unpack_frame (concat fss)" using step by simp
  finally show ?case using IH step r(2) by auto
qed simp

definition demo_usb :: usb_audio where
  "demo_usb = \<lparr> ua_capture = \<lparr> ca_ring = replicate 2048 0, ca_dma_index = 2047, ca_transfer_count = 1,
       ca_completed_count = 0xfffff800, ca_read_count = 0xffffffff, ca_monitor = i2s_clock_monitor_init 0,
       ca_clock_valid = True, ca_resync_pending = False, ca_rx_stalls = 0, ca_overruns = 0, ca_lost_frames = 0 \<rparr>,
     ua_stream = \<lparr> us_started = True, us_resync_pending = False \<rparr>,
     ua_diagnostics = \<lparr> ud_startup_silence_packets = 0, ud_discard_packets = 0, ud_clock_invalid_packets = 0,
       ud_resync_packets = 0, ud_underflow_packets = 0 \<rparr> \<rparr>"

theorem usb_audio_lossless_witness:
  "usb_playing demo_usb \<and>
   (\<exists>packets u. usb_intervals [replicate 48 7, replicate 49 8] demo_usb = (packets, u) \<and>
     concat packets @ map unpack_frame (ca_contents (ua_capture u)) = map unpack_frame (replicate 48 7 @ replicate 49 8))"
proof -
  have p: "usb_playing demo_usb" "ca_size (ua_capture demo_usb) = 0"
    by (simp_all add: usb_playing_def capture_ok_def ca_size_def capture_write_count_def capture_index_def I2S_RING_FRAME_COUNT_def demo_usb_def)
  then have "length (ca_contents (ua_capture demo_usb)) = 0" by simp
  then have e: "ca_contents (ua_capture demo_usb) = []" by (simp only: length_0_conv)
  obtain packets u where i: "usb_intervals [replicate 48 7, replicate 49 8] demo_usb = (packets, u)" by (rule prod.exhaust)
  show ?thesis using usb_audio_lossless [OF p(1) _ _ i] p e i by simp
qed

section \<open>The judgement of the clock\<close>

text \<open>Observations of the main loop: how many frames have arrived since the last one, and after how long.\<close>

fun observe :: "(u32 \<times> u32) list \<Rightarrow> u32 \<Rightarrow> i2s_clock_monitor \<Rightarrow> i2s_clock_monitor" where
  "observe [] count m = m"
| "observe ((frames, us) # os) count m = observe os (count + frames) (i2s_clock_monitor_advance_us m (count + frames) us)"

definition frames_of :: "(u32 \<times> u32) list \<Rightarrow> nat" where "frames_of os = (\<Sum>x\<leftarrow>os. unat (fst x))"
definition us_of :: "(u32 \<times> u32) list \<Rightarrow> nat" where "us_of os = (\<Sum>x\<leftarrow>os. unat (snd x))"

lemma observe_append: "observe (xs @ ys) count m = observe ys (count + of_nat (frames_of xs)) (observe xs count m)"
  by (induction xs count m rule: observe.induct) (simp_all add: frames_of_def add.assoc)

lemma advance_accumulates:
  assumes "cm_initialized m" "frames \<noteq> 0" "us \<noteq> 0" "unat (cm_window_elapsed_us m) + unat us < 16000"
  shows "i2s_clock_monitor_advance_us m (cm_previous_frame_count m + frames) us =
    m\<lparr> cm_previous_frame_count := cm_previous_frame_count m + frames, cm_stopped_elapsed_us := 0,
       cm_window_frame_count := cm_window_frame_count m + frames, cm_window_elapsed_us := cm_window_elapsed_us m + us \<rparr>"
  using assms
  by (simp add: i2s_clock_monitor_advance_us_def monitor_running_def Let_def I2S_CLOCK_WINDOW_US_def word_le_nat_alt
      unat_word_ariths(1) not_le)

lemma observe_accumulates:
  assumes "cm_initialized m" "cm_previous_frame_count m = count" "\<forall>x \<in> set os. fst x \<noteq> 0 \<and> snd x \<noteq> 0"
    and "unat (cm_window_elapsed_us m) + us_of os < 16000"
  shows "let m' = observe os count m
    in cm_initialized m' \<and> cm_previous_frame_count m' = count + of_nat (frames_of os) \<and>
      cm_window_frame_count m' = cm_window_frame_count m + of_nat (frames_of os) \<and>
      cm_window_elapsed_us m' = cm_window_elapsed_us m + of_nat (us_of os) \<and> cm_seen_valid m' = cm_seen_valid m"
  using assms
proof (induction os arbitrary: count m)
  case (Cons o1 os)
  obtain frames us where o1: "o1 = (frames, us)" by (cases o1)
  let ?m = "i2s_clock_monitor_advance_us m (count + frames) us"
  have u: "unat (cm_window_elapsed_us m) + unat us < 16000" using Cons.prems(4) o1 by (simp add: us_of_def)
  have m: "?m = m\<lparr> cm_previous_frame_count := count + frames, cm_stopped_elapsed_us := 0,
       cm_window_frame_count := cm_window_frame_count m + frames, cm_window_elapsed_us := cm_window_elapsed_us m + us \<rparr>"
    using advance_accumulates [OF Cons.prems(1) _ _ u, of frames] Cons.prems(2,3) o1 by simp
  have w: "unat (cm_window_elapsed_us m + us) = unat (cm_window_elapsed_us m) + unat us"
    using u by (simp add: unat_word_ariths(1))
  have "let m' = observe os (count + frames) ?m
      in cm_initialized m' \<and> cm_previous_frame_count m' = (count + frames) + of_nat (frames_of os) \<and>
        cm_window_frame_count m' = cm_window_frame_count ?m + of_nat (frames_of os) \<and>
        cm_window_elapsed_us m' = cm_window_elapsed_us ?m + of_nat (us_of os) \<and> cm_seen_valid m' = cm_seen_valid ?m"
    using Cons.prems w o1 by (intro Cons.IH) (simp_all add: m us_of_def)
  then show ?case using o1 by (simp add: Let_def m frames_of_def us_of_def add.assoc)
qed (simp add: frames_of_def us_of_def)

lemma expected_frames_nat:
  assumes "unat (T :: u32) < 2 ^ 26" "16000 \<le> unat T"
  defines "E \<equiv> (T * 48 + 500) div 1000"
  shows "unat E = (48 * unat T + 500) div 1000" "unat (E - 10) = unat E - 10" "unat (E + 10) = unat E + 10"
proof -
  have "unat (T * 48 + 500) = 48 * unat T + 500" using assms(1) by (simp add: unat_word_ariths(1,2) mult.commute)
  then show e: "unat E = (48 * unat T + 500) div 1000" unfolding E_def by (simp add: unat_div)
  have b: "10 \<le> unat E" "unat E < 2 ^ 31" unfolding e using assms(1,2) by simp_all
  then show "unat (E - 10) = unat E - 10" using unat_sub [of 10 E] by (simp add: word_le_nat_alt)
  show "unat (E + 10) = unat E + 10" using b(2) by (simp add: unat_word_ariths(1))
qed

text \<open>The clock is judged by its true rate. From any moment the measuring window is empty, whatever the
  intervals at which the main loop looks and even when the 32-bit frame counter wraps meanwhile, the first
  look that completes 16 ms declares the clock valid if and only if the frames counted differ from
  48 per millisecond of the time really elapsed by at most 10, and starts a new window.\<close>

theorem clock_monitor_judges_window:
  assumes "cm_initialized m" and "cm_previous_frame_count m = count" and "cm_window_frame_count m = 0" and "cm_window_elapsed_us m = 0"
    and "\<forall>x \<in> set (os @ [(frames, us)]). fst x \<noteq> 0 \<and> snd x \<noteq> 0" and "us_of os < 16000"
  defines "T \<equiv> us_of (os @ [(frames, us)])" and "F \<equiv> frames_of (os @ [(frames, us)])"
  assumes "16000 \<le> T" and "T < 2 ^ 26" and "F < 2 ^ 32"
  shows "(i2s_clock_monitor_valid (observe (os @ [(frames, us)]) count m) \<longleftrightarrow>
      \<bar>int F - int ((48 * T + 500) div 1000)\<bar> \<le> 10) \<and>
    cm_window_frame_count (observe (os @ [(frames, us)]) count m) = 0 \<and>
    cm_window_elapsed_us (observe (os @ [(frames, us)]) count m) = 0"
proof -
  let ?m = "observe os count m"
  have m: "cm_initialized ?m" "cm_previous_frame_count ?m = count + of_nat (frames_of os)"
    "cm_window_frame_count ?m = of_nat (frames_of os)" "cm_window_elapsed_us ?m = of_nat (us_of os)"
    using observe_accumulates [OF assms(1,2), of os] assms(3-6) by (simp_all add: Let_def)
  have pos: "frames \<noteq> 0" "us \<noteq> 0" using assms(5) by simp_all
  let ?W = "of_nat (us_of os) + us" and ?G = "of_nat (frames_of os) + frames"
  have W: "unat ?W = T" using assms(6) assms(10) by (simp add: T_def us_of_def unat_word_ariths(1) unat_of_nat)
  have G: "unat ?G = F" using assms(11) by (simp add: F_def frames_of_def unat_word_ariths(1) unat_of_nat)
  let ?E = "(?W * 48 + 500) div 1000"
  have E: "unat ?E = (48 * T + 500) div 1000" "unat (?E - 10) = unat ?E - 10" "unat (?E + 10) = unat ?E + 10"
    using expected_frames_nat [of ?W] W assms(9,10) by simp_all
  have long: "I2S_CLOCK_WINDOW_US \<le> ?W" using W assms(9) by (simp add: I2S_CLOCK_WINDOW_US_def word_le_nat_alt)
  have eq: "observe (os @ [(frames, us)]) count m = i2s_clock_monitor_advance_us ?m (count + of_nat (frames_of os) + frames) us"
    by (simp add: observe_append)
  have r: "cm_valid (observe (os @ [(frames, us)]) count m) \<longleftrightarrow> ?E - 10 \<le> ?G \<and> ?G \<le> ?E + 10"
    "cm_window_frame_count (observe (os @ [(frames, us)]) count m) = 0" "cm_window_elapsed_us (observe (os @ [(frames, us)]) count m) = 0"
    unfolding eq using m pos long
    by (simp_all add: i2s_clock_monitor_advance_us_def monitor_running_def Let_def I2S_CLOCK_FRAME_TOLERANCE_def)
  have "10 \<le> unat ?E" unfolding E(1) using assms(9) by simp
  then have "?E - 10 \<le> ?G \<and> ?G \<le> ?E + 10 \<longleftrightarrow> \<bar>int F - int ((48 * T + 500) div 1000)\<bar> \<le> 10"
    unfolding word_le_nat_alt E(2,3) G unfolding E(1) by linarith
  then show ?thesis using r by (simp add: i2s_clock_monitor_valid_def)
qed

theorem clock_monitor_judges_window_witness:
  "i2s_clock_monitor_valid (observe (replicate 15 (48, 1000) @ [(53, 1000)]) 0xfffffff0 (i2s_clock_monitor_init 0xfffffff0)) \<and>
   \<not> i2s_clock_monitor_valid (observe (replicate 15 (47, 1000) @ [(47, 1000)]) 0xfffffff0 (i2s_clock_monitor_init 0xfffffff0))"
proof -
  have s: "us_of (replicate 15 (48, 1000)) = 15000" "us_of (replicate 15 (48, 1000) @ [(53, 1000)]) = 16000"
    "frames_of (replicate 15 (48, 1000) @ [(53, 1000)]) = 773"
    "us_of (replicate 15 (47, 1000)) = 15000" "us_of (replicate 15 (47, 1000) @ [(47, 1000)]) = 16000"
    "frames_of (replicate 15 (47, 1000) @ [(47, 1000)]) = 752"
    by (simp_all add: us_of_def frames_of_def sum_list_replicate)
  show ?thesis
    using clock_monitor_judges_window [of "i2s_clock_monitor_init 0xfffffff0" "0xfffffff0" "replicate 15 (48, 1000)" 53 1000]
      clock_monitor_judges_window [of "i2s_clock_monitor_init 0xfffffff0" "0xfffffff0" "replicate 15 (47, 1000)" 47 1000]
    by (simp add: s) (simp add: i2s_clock_monitor_init_def)
qed

section \<open>A clock is published only after the hardware was restarted\<close>

datatype capture_op = Store u32 | DmaIrq | Advance u32 | Task bool | RequestResync | Read nat | Discard | ResetDiagnostics

fun capture_step :: "capture_op \<Rightarrow> i2s_capture \<Rightarrow> i2s_capture" where
  "capture_step (Store f) c = dma_store f c"
| "capture_step DmaIrq c = i2s_capture_dma_irq c"
| "capture_step (Advance us) c = i2s_capture_advance_us us c"
| "capture_step (Task stalled) c = i2s_capture_task stalled c"
| "capture_step RequestResync c = i2s_capture_request_resync c"
| "capture_step (Read n) c = snd (i2s_capture_read n c)"
| "capture_step Discard c = i2s_capture_discard c"
| "capture_step ResetDiagnostics c = i2s_capture_reset_diagnostics c"

definition published_ok :: "i2s_capture \<Rightarrow> bool" where
  "published_ok c \<longleftrightarrow> (ca_clock_valid c \<longrightarrow>
     cm_valid (ca_monitor c) \<and> \<not> cm_recovery_pending (ca_monitor c) \<and> \<not> ca_resync_pending c)"

lemma capture_copy_same:
  "ca_clock_valid (snd (capture_copy n c)) = ca_clock_valid c" "ca_monitor (snd (capture_copy n c)) = ca_monitor c"
  "ca_resync_pending (snd (capture_copy n c)) = ca_resync_pending c"
  by (induction n arbitrary: c) (simp_all add: case_prod_beta)

lemma capture_step_published: "published_ok c \<Longrightarrow> published_ok (capture_step op c)"
proof (cases op)
  case (Advance us)
  assume "published_ok c"
  then show ?thesis
    using Advance by (auto simp: published_ok_def i2s_capture_advance_us_def Let_def i2s_clock_monitor_recovery_ready_def
        i2s_clock_monitor_valid_def)
next
  case (Read n)
  assume "published_ok c"
  then show ?thesis
    using Read by (auto simp: published_ok_def i2s_capture_read_def i2s_capture_available_def Let_def capture_copy_same)
qed (simp_all add: published_ok_def dma_store_def i2s_capture_dma_irq_def Let_def i2s_capture_task_def i2s_capture_restart_hardware_def
    i2s_capture_request_resync_def i2s_capture_discard_def i2s_capture_reset_diagnostics_def)

text \<open>The first values of the static variables, with the channel set up for its first block.\<close>

definition i2s_capture_init :: "u32 list \<Rightarrow> i2s_capture" where
  "i2s_capture_init ring =
     \<lparr> ca_ring = ring, ca_dma_index = 0, ca_transfer_count = I2S_RING_FRAME_COUNT, ca_completed_count = 0, ca_read_count = 0,
       ca_monitor = i2s_clock_monitor_init 0, ca_clock_valid = False, ca_resync_pending = False, ca_rx_stalls = 0,
       ca_overruns = 0, ca_lost_frames = 0 \<rparr>"

text \<open>The firmware never reports a valid clock across an interruption. After any sequence of stored frames,
  DMA interrupts, timer observations, background tasks, resynchronisation requests, reads and discards, the
  clock is published as valid only when the monitor's last window was good, no interruption of a previously
  good clock is waiting for the hardware to be restarted, and no restart is pending.\<close>

theorem clock_published_only_restarted:
  "let c = fold capture_step ops (i2s_capture_init ring)
   in ca_clock_valid c = False \<or>
     cm_valid (ca_monitor c) \<and> cm_recovery_pending (ca_monitor c) = False \<and> ca_resync_pending c = False"
proof -
  have "published_ok (fold capture_step ops c)" if "published_ok c" for c
    using that by (induction ops arbitrary: c) (simp_all add: capture_step_published)
  then have "published_ok (fold capture_step ops (i2s_capture_init ring))"
    by (simp add: published_ok_def i2s_capture_init_def)
  then show ?thesis by (auto simp: published_ok_def Let_def)
qed

section \<open>What a restart does to the ring\<close>

lemma restart_write_count: "capture_write_count (i2s_capture_restart_hardware c) = capture_write_count c"
  by (simp add: i2s_capture_restart_hardware_def capture_write_count_def I2S_RING_FRAME_COUNT_def Let_def)

lemma restart_fields:
  "ca_transfer_count (i2s_capture_restart_hardware c) \<noteq> 0" "ca_dma_index (i2s_capture_restart_hardware c) = 0"
  "ca_read_count (i2s_capture_restart_hardware c) = capture_write_count c"
  "ca_ring (i2s_capture_restart_hardware c) = ca_ring c"
  by (simp_all add: i2s_capture_restart_hardware_def capture_write_count_def I2S_RING_FRAME_COUNT_def Let_def)

lemma capture_index_zero_iff: "capture_index n = 0 \<longleftrightarrow> 2048 dvd unat n"
  by (simp add: capture_index_ring ring_index_def dvd_eq_mod_eq_0)

text \<open>The ring is in order after a restart exactly when the count of frames was at a multiple of its size.\<close>

lemma restart_ok_iff:
  "length (ca_ring c) = 2048 \<Longrightarrow> capture_ok (i2s_capture_restart_hardware c) \<longleftrightarrow> 2048 dvd unat (capture_write_count c)"
  by (auto simp: capture_ok_def ca_size_def restart_fields restart_write_count capture_index_zero_iff [symmetric])

text \<open>C24: A restart of the capture hardware points the DMA channel at the start of the ring but keeps the running
  count of frames, from which the reader derives its index. So the first frame captured after a restart
  reaches the reader only when the count was a multiple of 2048; at any other count the reader gets what
  the ring held at its own index before the restart, and the ring invariant does not hold any more.\<close>

theorem restart_reads_stale_frame:
  assumes "length (ca_ring c) = 2048"
  shows "fst (i2s_capture_read 1 (capture_produce f (i2s_capture_restart_hardware c))) =
      [unpack_frame (if 2048 dvd unat (capture_write_count c) then f else ca_ring c ! capture_index (capture_write_count c))] \<and>
    (capture_ok (i2s_capture_restart_hardware c) \<longleftrightarrow> 2048 dvd unat (capture_write_count c))"
proof -
  let ?r = "i2s_capture_restart_hardware c" and ?w = "capture_write_count c"
  let ?p = "capture_produce f ?r"
  note r = restart_fields [of c]
  note p = produce_fields [OF r(1), of f] produce_write_count [OF r(1), of f, unfolded restart_write_count]
  have av: "i2s_capture_available ?p = (1, ?p)"
    by (simp add: i2s_capture_available_def p r I2S_RING_FRAME_COUNT_def Let_def)
  have "fst (i2s_capture_read 1 ?p) = [unpack_frame (ca_ring ?p ! capture_index ?w)]"
    by (simp add: i2s_capture_read_def av p r)
  moreover have "capture_index ?w < 2048" by (simp add: capture_index_ring)
  ultimately show ?thesis
    using restart_ok_iff [OF assms] assms by (simp add: p r nth_list_update capture_index_zero_iff [symmetric])
qed

definition demo_capture :: i2s_capture where
  "demo_capture = (i2s_capture_init (replicate 2048 9))\<lparr> ca_dma_index := 5, ca_transfer_count := 2043 \<rparr>"

theorem restart_reads_stale_frame_witness:
  "capture_ok demo_capture \<and> \<not> capture_ok (i2s_capture_restart_hardware demo_capture) \<and>
   fst (i2s_capture_read 1 (capture_produce 7 (i2s_capture_restart_hardware demo_capture))) = [unpack_frame 9]"
proof -
  have w: "capture_write_count demo_capture = 5"
    by (simp add: demo_capture_def i2s_capture_init_def capture_write_count_def I2S_RING_FRAME_COUNT_def)
  have i: "capture_index 5 = 5" by (simp add: capture_index_def I2S_RING_FRAME_COUNT_def)
  have ring: "ca_ring demo_capture = replicate 2048 9" by (simp add: demo_capture_def i2s_capture_init_def)
  have "capture_ok demo_capture" unfolding capture_ok_def w i
    by (simp add: ca_size_def w i ring) (simp add: demo_capture_def i2s_capture_init_def)
  then show ?thesis using restart_reads_stale_frame [of demo_capture 7] by (simp add: w i ring)
qed

end
