(* ===== verification/Control_Core.thy ===== *)
theory Control_Core
  imports Synth_Behaviour Midi_Ingress Midi_Sysex Firmware_Audio
begin

text \<open>
  The two cores of the firmware (\<open>src/mcu/main.c\<close>): core 0 takes USB-MIDI packets into the ingress queue, core 1 runs the
  control loop, which watches the FPGA, polls completions, dispatches MIDI, advances the control job, flushes commands and
  serves the debug console. An error of the loop is latched.

  One turn of either loop is one step; \<open>Midi_Ingress\<close> shows that the finer interleaving of the queue operations does not
  matter. The clocks, the packets TinyUSB has ready and the character of the UART are arguments. What is only printed
  (the text of the console, the event counters and the timing of diagnostic builds) and the watchdog are left out.
\<close>

section \<open>State\<close>

definition APP_USB_MIDI_PACKET_BUDGET :: nat where "APP_USB_MIDI_PACKET_BUDGET = 8"
definition APP_CONTROL_MIDI_PACKET_BUDGET :: nat where "APP_CONTROL_MIDI_PACKET_BUDGET = 16"
definition APP_CONTROL_MIDI_TIME_BUDGET_US :: u32 where "APP_CONTROL_MIDI_TIME_BUDGET_US = 1000"

record 'd control_core =
  co_app :: "'d app_synth"
  co_usb_midi_ingress :: midi_ingress_queue
  co_usb_midi_sysex_parser :: midi_sysex_reset_parser
  co_usb_midi_panic_active :: bool
  co_usb_midi_offline_discard_count :: u32
  co_control_fault :: int
  co_capture :: i2s_capture
  co_command_flush_millisecond :: u32
  co_observed_session_resets :: u32

abbreviation session_ready :: "'d control_core \<Rightarrow> bool" where
  "session_ready c \<equiv> ad_fpga_session_ready (ap_diagnostics (co_app c))"

definition on_app :: "('d app_synth \<Rightarrow> int \<times> 'd app_synth) \<Rightarrow> 'd control_core \<Rightarrow> int \<times> 'd control_core" where
  "on_app f c = (case f (co_app c) of (result, a) \<Rightarrow> (result, c\<lparr> co_app := a \<rparr>))"

section \<open>MIDI\<close>

definition app_operator_panic :: "'d platform \<Rightarrow> 'd control_core \<Rightarrow> int \<times> 'd control_core" where
  "app_operator_panic pf c =
     (case midi_ingress_queue_discard_all (co_usb_midi_ingress c) of (discarded, q1) \<Rightarrow>
      case app_perform_render_session_reset pf (co_app c) of (result, a) \<Rightarrow>
      case midi_ingress_queue_discard_all q1 of (later, q2) \<Rightarrow>
        (let c1 = c\<lparr> co_usb_midi_panic_active := True, co_usb_midi_sysex_parser := midi_sysex_reset_parser_init, co_app := a,
               co_usb_midi_ingress := q2,
               co_usb_midi_offline_discard_count := co_usb_midi_offline_discard_count c + (discarded + later) \<rparr>
         in (result, if result = 0
                     then c1\<lparr> co_capture := i2s_capture_request_resync (co_capture c1), co_usb_midi_panic_active := False \<rparr>
                     else c1)))"

definition dispatch_midi_packet :: "'d platform \<Rightarrow> u8 list \<Rightarrow> 'd control_core \<Rightarrow> (int \<times> 'd control_core) option" where
  "dispatch_midi_packet pf packet c =
     (case midi_sysex_reset_process_usb_packet (co_usb_midi_sysex_parser c) packet of (sysex_action, parser) \<Rightarrow>
        (let c1 = c\<lparr> co_usb_midi_sysex_parser := parser \<rparr>; status = packet ! 1; channel = status AND 0x0f;
             data_1 = packet ! 2 AND 0x7f; data_2 = packet ! 3 AND 0x7f; kind = status AND 0xf0
         in if sysex_action = MIDI_SYSEX_ACTION_RESET_SESSION then Some (app_operator_panic pf c1)
            else if status = 0xff then Some (on_app (app_midi_system_reset pf) c1)
            else if kind = 0x80 \<or> (kind = 0x90 \<and> data_2 = 0) then Some (on_app (app_midi_note_off pf channel data_1) c1)
            else if kind = 0x90
            then map_option (\<lambda>(result, a). (result, c1\<lparr> co_app := a \<rparr>)) (app_midi_note_on pf channel data_1 data_2 (co_app c1))
            else if kind = 0xa0 then Some (on_app (app_midi_key_pressure channel data_1 data_2) c1)
            else if kind = 0xb0 then Some (on_app (app_midi_control_change pf channel data_1 data_2) c1)
            else if kind = 0xc0 then Some (0, c1\<lparr> co_app := app_midi_program_change channel data_1 (co_app c1) \<rparr>)
            else if kind = 0xd0 then Some (on_app (app_midi_channel_pressure channel data_1) c1)
            else if kind = 0xe0 then Some (on_app (app_midi_pitch_bend channel data_1 data_2) c1)
            else Some (0, c1)))"

text \<open>Core 0: at most eight packets per turn, none while the queue is full; the packets that stay with TinyUSB are returned.\<close>

fun ingress_loop :: "nat \<Rightarrow> u8 list list \<Rightarrow> 'd control_core \<Rightarrow> u8 list list \<times> 'd control_core" where
  "ingress_loop 0 packets c = (packets, c)"
| "ingress_loop (Suc budget) [] c = ([], c)"
| "ingress_loop (Suc budget) (packet # packets) c =
     (if midi_ingress_queue_full (co_usb_midi_ingress c) then (packet # packets, c)
      else if co_usb_midi_panic_active c
      then ingress_loop budget packets (c\<lparr> co_usb_midi_offline_discard_count := co_usb_midi_offline_discard_count c + 1 \<rparr>)
      else case midi_ingress_queue_push (co_usb_midi_ingress c) packet of (accepted, q) \<Rightarrow>
        if accepted then ingress_loop budget packets (c\<lparr> co_usb_midi_ingress := q \<rparr>)
        else (packets, c\<lparr> co_usb_midi_ingress := q \<rparr>))"

definition service_usb_midi_ingress :: "u8 list list \<Rightarrow> 'd control_core \<Rightarrow> u8 list list \<times> 'd control_core" where
  "service_usb_midi_ingress = ingress_loop APP_USB_MIDI_PACKET_BUDGET"

text \<open>\<open>elapsed n\<close>: the microseconds since the start of the batch when \<open>n\<close> packets of its budget are left.\<close>

fun control_midi_loop :: "'d platform \<Rightarrow> (nat \<Rightarrow> u32) \<Rightarrow> nat \<Rightarrow> 'd control_core \<Rightarrow> (int \<times> 'd control_core) option" where
  "control_midi_loop pf elapsed 0 c = Some (0, c)"
| "control_midi_loop pf elapsed (Suc budget) c =
     (case midi_ingress_queue_pop (co_usb_midi_ingress c) of
        (None, q) \<Rightarrow> Some (0, c\<lparr> co_usb_midi_ingress := q \<rparr>)
      | (Some packet, q) \<Rightarrow>
          do { (result, c1) \<leftarrow> dispatch_midi_packet pf packet (c\<lparr> co_usb_midi_ingress := q \<rparr>);
               if result < 0 then Some (result, c1)
               else if elapsed budget \<ge> APP_CONTROL_MIDI_TIME_BUDGET_US then Some (0, c1)
               else control_midi_loop pf elapsed budget c1 })"

definition service_control_midi :: "'d platform \<Rightarrow> (nat \<Rightarrow> u32) \<Rightarrow> 'd control_core \<Rightarrow> (int \<times> 'd control_core) option" where
  "service_control_midi pf elapsed = control_midi_loop pf elapsed APP_CONTROL_MIDI_PACKET_BUDGET"

text \<open>The loop that pops until the queue is empty.\<close>

lemma counter_decreases: "r \<noteq> w \<Longrightarrow> unat (w - (r + 1)) < unat (w - r)" for r w :: u32
  using unat_minus_one [of "w - r"] by (simp add: diff_diff_eq unat_gt_0)

function discard_loop :: "midi_ingress_queue \<Rightarrow> u32 \<Rightarrow> midi_ingress_queue \<times> u32" where
  "discard_loop q discarded =
     (case midi_ingress_queue_pop q of (None, q1) \<Rightarrow> (q1, discarded) | (Some packet, q1) \<Rightarrow> discard_loop q1 (discarded + 1))"
  by pat_completeness auto

termination
  by (relation "measure (\<lambda>(q, discarded). unat (iq_write_count q - iq_read_count q))")
    (auto simp: midi_ingress_queue_pop_def Let_def pop_publish_def counter_decreases split: if_splits)

declare discard_loop.simps [simp del]

definition discard_offline_control_midi :: "'d control_core \<Rightarrow> 'd control_core" where
  "discard_offline_control_midi c =
     (case discard_loop (co_usb_midi_ingress c) (co_usb_midi_offline_discard_count c) of
        (q, discarded) \<Rightarrow> c\<lparr> co_usb_midi_ingress := q, co_usb_midi_offline_discard_count := discarded \<rparr>)"

section \<open>Console\<close>

text \<open>The registers that the command \<open>d\<close> reads, in order.\<close>

definition dumped_registers :: "u16 list" where
  "dumped_registers = [0x9010, 0x9044, 0x9048, 0x9058, 0x905c, 0x9014, 0x901c, 0x9024, 0x9028, 0x902c, 0x9030, 0x9034, 0x9038,
     0x9088, 0x908c, 0x910c, 0x9118, 0x9120, 0x9124, 0x9128, 0x9160, 0x9164, 0x9168, 0x916c]"

definition debug_uart_read_register :: "'d platform \<Rightarrow> u16 \<Rightarrow> 'd control_core \<Rightarrow> 'd control_core" where
  "debug_uart_read_register pf address c = c\<lparr> co_app := snd (app_fpga_debug_read_register pf address (co_app c)) \<rparr>"

definition debug_uart_dump_fpga :: "'d platform \<Rightarrow> 'd control_core \<Rightarrow> 'd control_core" where
  "debug_uart_dump_fpga pf = fold (debug_uart_read_register pf) dumped_registers"

definition debug_uart_operator_command :: "'d platform \<Rightarrow> char \<Rightarrow> 'd control_core \<Rightarrow> 'd control_core option" where
  "debug_uart_operator_command pf ch c =
     (if ch = CHR ''a'' then Some (snd (app_operator_panic pf c))
      else if ch = CHR ''l'' then Some (snd (on_app (app_midi_release_all pf) c))
      else if ch = CHR ''n'' then map_option (\<lambda>(result, a). c\<lparr> co_app := a \<rparr>) (app_midi_note_on pf 0 60 100 (co_app c))
      else if ch = CHR ''o'' then Some (snd (on_app (app_midi_note_off pf 0 60) c))
      else if ch = CHR ''f'' then Some (snd (on_app (app_fpga_debug_flush pf) c))
      else Some c)"

definition debug_uart_handle_character :: "'d platform \<Rightarrow> char \<Rightarrow> 'd control_core \<Rightarrow> 'd control_core option" where
  "debug_uart_handle_character pf ch c =
     (if ch = CHR ''s'' then Some (c\<lparr> co_app := app_refresh_runtime_diagnostics (co_app c) \<rparr>)
      else if ch = CHR ''v'' then Some (debug_uart_read_register pf SYNTH_REG_VERSION c)
      else if ch = CHR ''p'' then Some (debug_uart_read_register pf SYNTH_REG_PLATFORM_STATUS c)
      else if ch = CHR ''z'' then Some (debug_uart_read_register pf SYNTH_REG_PLATFORM_SF2_SIZE c)
      else if ch = CHR ''c'' then Some (debug_uart_read_register pf 0x9034 c)
      else if ch = CHR ''d'' then Some (debug_uart_dump_fpga pf c)
      else if ch = CHR ''e'' then Some (debug_uart_read_register pf SYNTH_REG_COMMAND_ERROR_COUNT c)
      else if ch = CHR ''g'' then Some (debug_uart_read_register pf SYNTH_REG_STALE_GENERATION_COUNT c)
      else if ch = CHR ''h'' then Some (debug_uart_read_register pf SYNTH_REG_RENDER_SESSION_EPOCH c)
      else if ch = CHR ''x'' then Some (c\<lparr> co_app := snd (app_synth_toggle_periodic_modulation (co_app c)) \<rparr>)
      else if ch = CHR ''k''
      then Some (snd (on_app (app_synth_set_compressor_enabled pf (\<not> ap_compressor_enabled (co_app c))) c))
      else debug_uart_operator_command pf ch c)"

text \<open>At most one character per turn.\<close>

definition debug_console_service :: "'d platform \<Rightarrow> char option \<Rightarrow> 'd control_core \<Rightarrow> 'd control_core option" where
  "debug_console_service pf input c = (case input of None \<Rightarrow> Some c | Some ch \<Rightarrow> debug_uart_handle_character pf ch c)"

section \<open>The control loop\<close>

definition latch :: "int \<Rightarrow> 'd control_core \<Rightarrow> 'd control_core" where
  "latch result c = (if result \<noteq> 0 then c\<lparr> co_control_fault := result \<rparr> else c)"

definition note_session_resets :: "'d control_core \<Rightarrow> 'd control_core" where
  "note_session_resets c =
     (let session_resets = ad_session_reset_count (ap_diagnostics (co_app c))
      in if session_resets \<noteq> co_observed_session_resets c
         then c\<lparr> co_observed_session_resets := session_resets, co_capture := i2s_capture_request_resync (co_capture c) \<rparr> else c)"

definition flush_commands :: "'d platform \<Rightarrow> u32 \<Rightarrow> 'd control_core \<Rightarrow> int \<times> 'd control_core" where
  "flush_commands pf millisecond_count c =
     (if millisecond_count \<noteq> co_command_flush_millisecond c
      then on_app (app_synth_flush_commands pf) (c\<lparr> co_command_flush_millisecond := millisecond_count \<rparr>) else (0, c))"

text \<open>The stages of a turn without a fault; each runs only when those before it returned zero.\<close>

definition control_turn :: "'d platform \<Rightarrow> u32 \<Rightarrow> (nat \<Rightarrow> u32) \<Rightarrow> 'd control_core \<Rightarrow> 'd control_core option" where
  "control_turn pf millisecond_count elapsed c =
     (case on_app (app_synth_monitor_transport pf millisecond_count) c of (result, c1) \<Rightarrow>
      case (if result = 0 \<and> session_ready c1
            then on_app (app_synth_service_completions pf millisecond_count) (note_session_resets c1)
            else (result, latch result (note_session_resets c1))) of (result, c2) \<Rightarrow>
      do { (result, c3) \<leftarrow> (if result = 0 \<and> session_ready c2 then service_control_midi pf elapsed c2
              else Some (if result = 0 then (0, discard_offline_control_midi c2) else (result, c2)));
           (result, c4) \<leftarrow> (if result = 0 \<and> session_ready c3
              then map_option (\<lambda>(result, a). (result, c3\<lparr> co_app := a \<rparr>)) (app_synth_service pf millisecond_count (co_app c3))
              else Some (result, c3));
           let (result, c5) = (if result = 0 then flush_commands pf millisecond_count c4 else (result, c4));
           Some (latch result c5) })"

definition control_iteration :: "'d platform \<Rightarrow> u32 \<Rightarrow> (nat \<Rightarrow> u32) \<Rightarrow> char option \<Rightarrow> 'd control_core \<Rightarrow> 'd control_core option" where
  "control_iteration pf millisecond_count elapsed input c =
     do { c1 \<leftarrow> (if co_control_fault c = 0 then control_turn pf millisecond_count elapsed c else Some c);
          debug_console_service pf input c1 }"

text \<open>The two cores, turn by turn.\<close>

datatype core_event =
    Core0_Turn "u8 list list"
  | Core1_Turn u32 "nat \<Rightarrow> u32" "char option"

fun core_step :: "'d platform \<Rightarrow> core_event \<Rightarrow> 'd control_core \<Rightarrow> 'd control_core option" where
  "core_step pf (Core0_Turn packets) c = Some (snd (service_usb_midi_ingress packets c))"
| "core_step pf (Core1_Turn t elapsed input) c = control_iteration pf t elapsed input c"

fun core_run :: "'d platform \<Rightarrow> core_event list \<Rightarrow> 'd control_core \<Rightarrow> 'd control_core option" where
  "core_run pf [] c = Some c"
| "core_run pf (e # es) c = do { c1 \<leftarrow> core_step pf e c; core_run pf es c1 }"

text \<open>The state in which core 1 starts, after a successful initialisation.\<close>

definition core_start :: "'d app_synth \<Rightarrow> i2s_capture \<Rightarrow> midi_ingress_queue \<Rightarrow> u32 \<Rightarrow> 'd control_core" where
  "core_start a capture q millisecond_count = \<lparr> co_app = a, co_usb_midi_ingress = midi_ingress_queue_init q,
     co_usb_midi_sysex_parser = midi_sysex_reset_parser_init, co_usb_midi_panic_active = False, co_usb_midi_offline_discard_count = 0,
     co_control_fault = 0, co_capture = i2s_capture_request_resync capture, co_command_flush_millisecond = millisecond_count,
     co_observed_session_resets = ad_session_reset_count (ap_diagnostics a) \<rparr>"

section \<open>The loop never faults\<close>

abbreviation core_ok :: "'d control_core \<Rightarrow> bool" where
  "core_ok c \<equiv> app_ok (co_app c)"

definition goes_on :: "('x \<times> 'd control_core) option \<Rightarrow> bool" where
  "goes_on m \<longleftrightarrow> (\<exists>x c. m = Some (x, c) \<and> core_ok c)"

lemma goes_on_some [simp]: "goes_on (Some x) = core_ok (snd x)"
  by (cases x) (simp add: goes_on_def)

lemma on_app_ok [simp]: "co_app (snd (on_app f c)) = snd (f (co_app c))" "fst (on_app f c) = fst (f (co_app c))"
  by (simp_all add: on_app_def split: prod.split)

lemma call_ok: "app_ok a \<Longrightarrow> app_call_step pf e a = Some a' \<Longrightarrow> app_ok a'"
  using app_call_ok [of a pf e] by simp

lemma calls_ok:
  assumes "app_ok a"
  shows "app_ok (snd (app_midi_note_off pf channel key a))" "app_ok (snd (app_midi_control_change pf channel controller v a))"
    "app_ok (app_midi_program_change channel program a)" "app_ok (snd (app_midi_pitch_bend channel lsb msb a))"
    "app_ok (snd (app_midi_channel_pressure channel pressure a))" "app_ok (snd (app_midi_key_pressure channel key pressure a))"
    "app_ok (snd (app_midi_system_reset pf a))" "app_ok (snd (app_midi_release_all pf a))"
    "app_ok (snd (app_synth_monitor_transport pf t a))" "app_ok (snd (app_synth_service_completions pf t a))"
    "app_ok (snd (app_perform_render_session_reset pf a))" "app_ok (snd (app_synth_toggle_periodic_modulation a))"
    "app_ok (snd (app_synth_set_compressor_enabled pf enabled a))" "app_ok (snd (app_fpga_debug_read_register pf address a))"
    "app_ok (snd (app_fpga_debug_flush pf a))"
  using call_ok [OF assms, of pf "App_Note_Off channel key"] call_ok [OF assms, of pf "App_Control_Change channel controller v"]
    call_ok [OF assms, of pf "App_Program_Change channel program"] call_ok [OF assms, of pf "App_Pitch_Bend channel lsb msb"]
    call_ok [OF assms, of pf "App_Channel_Pressure channel pressure"] call_ok [OF assms, of pf "App_Key_Pressure channel key pressure"]
    call_ok [OF assms, of pf App_System_Reset] call_ok [OF assms, of pf App_Release_All] call_ok [OF assms, of pf "App_Monitor_Transport t"]
    call_ok [OF assms, of pf "App_Service_Completions t"] call_ok [OF assms, of pf App_Session_Reset]
    call_ok [OF assms, of pf App_Toggle_Periodic_Modulation] call_ok [OF assms, of pf "App_Set_Compressor enabled"]
    call_ok [OF assms, of pf "App_Debug_Read address"] call_ok [OF assms, of pf App_Debug_Flush]
  by simp_all

lemma panic_ok: "core_ok c \<Longrightarrow> core_ok (snd (app_operator_panic pf c))"
  by (simp add: app_operator_panic_def Let_def case_prod_unfold calls_ok)

lemma goes_on_if: "(b \<Longrightarrow> goes_on x) \<Longrightarrow> (\<not> b \<Longrightarrow> goes_on y) \<Longrightarrow> goes_on (if b then x else y)"
  by simp

lemma goes_on_note_on:
  "core_ok c \<Longrightarrow> goes_on (map_option (\<lambda>(result, a). (result, c\<lparr> co_app := a \<rparr>)) (app_midi_note_on pf channel key velocity (co_app c)))"
  using note_on_call_ok [of "co_app c" pf channel key velocity] by (auto simp: goes_on_def)

lemma goes_on_service:
  "core_ok c \<Longrightarrow> goes_on (map_option (\<lambda>(result, a). (result, c\<lparr> co_app := a \<rparr>)) (app_synth_service pf t (co_app c)))"
  using service_ok [of "co_app c" pf t] by (auto simp: goes_on_def)

lemma dispatch_ok: "core_ok c \<Longrightarrow> goes_on (dispatch_midi_packet pf packet c)"
  unfolding dispatch_midi_packet_def Let_def case_prod_unfold
  by (intro goes_on_if) (simp_all add: calls_ok panic_ok goes_on_note_on [where c = "c\<lparr> co_usb_midi_sysex_parser := p \<rparr>" for p, simplified, unfolded case_prod_unfold])

lemma control_midi_ok: "core_ok c \<Longrightarrow> goes_on (control_midi_loop pf elapsed budget c)"
proof (induction budget arbitrary: c)
  case (Suc budget)
  obtain x q where q: "midi_ingress_queue_pop (co_usb_midi_ingress c) = (x, q)" by fastforce
  show ?case
  proof (cases x)
    case (Some packet)
    obtain result c1 where d: "dispatch_midi_packet pf packet (c\<lparr> co_usb_midi_ingress := q \<rparr>) = Some (result, c1)" "core_ok c1"
      using dispatch_ok [of "c\<lparr> co_usb_midi_ingress := q \<rparr>" pf packet] Suc.prems by (auto simp: goes_on_def)
    then show ?thesis using Suc.IH [OF d(2)] by (simp add: q Some)
  qed (use Suc.prems q in simp)
qed simp

lemma latch_simps [simp]: "co_app (latch result c) = co_app c" "co_usb_midi_ingress (latch result c) = co_usb_midi_ingress c"
  by (simp_all add: latch_def)

lemma note_resets_app [simp]: "co_app (note_session_resets c) = co_app c" "co_usb_midi_ingress (note_session_resets c) = co_usb_midi_ingress c"
    "co_usb_midi_sysex_parser (note_session_resets c) = co_usb_midi_sysex_parser c" "co_control_fault (note_session_resets c) = co_control_fault c"
    "co_usb_midi_offline_discard_count (note_session_resets c) = co_usb_midi_offline_discard_count c"
    "co_command_flush_millisecond (note_session_resets c) = co_command_flush_millisecond c"
  by (simp_all add: note_session_resets_def Let_def)

lemma discard_app [simp]: "co_app (discard_offline_control_midi c) = co_app c"
  by (simp add: discard_offline_control_midi_def split: prod.split)

lemma flush_ok: "core_ok c \<Longrightarrow> core_ok (snd (flush_commands pf t c))"
  by (simp add: flush_commands_def)

lemma goes_on_bind:
  assumes "goes_on m" and "\<And>x c. core_ok c \<Longrightarrow> \<exists>c'. f (x, c) = Some c' \<and> core_ok c'"
  shows "\<exists>c'. m \<bind> f = Some c' \<and> core_ok c'"
  using assms unfolding goes_on_def by fastforce

lemma control_turn_ok:
  assumes "core_ok c"
  shows "\<exists>c'. control_turn pf t elapsed c = Some c' \<and> core_ok c'"
proof -
  have midi: "goes_on (if result = 0 \<and> session_ready c2 then service_control_midi pf elapsed c2
      else Some (if result = 0 then (0, discard_offline_control_midi c2) else (result, c2)))" if "core_ok c2" for result and c2 :: "'a control_core"
    using that by (simp add: service_control_midi_def control_midi_ok)
  have service: "goes_on (if result = 0 \<and> session_ready c3
      then map_option (\<lambda>(result, a). (result, c3\<lparr> co_app := a \<rparr>)) (app_synth_service pf t (co_app c3)) else Some (result, c3))"
      if "core_ok c3" for result and c3 :: "'a control_core"
    using that by (simp add: goes_on_service)
  show ?thesis
    unfolding control_turn_def Let_def case_prod_unfold
    using assms by (intro goes_on_bind midi [unfolded case_prod_unfold] service [unfolded case_prod_unfold]) (simp_all add: calls_ok flush_ok)
qed

lemma read_register_app: "core_ok c \<Longrightarrow> core_ok (debug_uart_read_register pf address c)"
  by (simp add: debug_uart_read_register_def calls_ok)

lemma dump_ok: "core_ok c \<Longrightarrow> core_ok (fold (debug_uart_read_register pf) addresses c)"
  by (induction addresses arbitrary: c) (simp_all add: read_register_app)

lemma console_ok:
  assumes "core_ok c"
  shows "\<exists>c'. debug_console_service pf input c = Some c' \<and> core_ok c'"
proof -
  have "\<exists>c'. map_option (\<lambda>(result, a). c\<lparr> co_app := a \<rparr>) (app_midi_note_on pf 0 60 100 (co_app c)) = Some c' \<and> core_ok c'"
    using note_on_call_ok [OF assms, of pf 0 60 100] by auto
  then show ?thesis
    using assms by (simp add: debug_console_service_def debug_uart_handle_character_def debug_uart_operator_command_def debug_uart_dump_fpga_def calls_ok panic_ok
        read_register_app dump_ok split: option.split)
qed

lemma control_iteration_ok:
  assumes "core_ok c"
  shows "\<exists>c'. control_iteration pf t elapsed input c = Some c' \<and> core_ok c'"
proof -
  obtain c1 where "(if co_control_fault c = 0 then control_turn pf t elapsed c else Some c) = Some c1" "core_ok c1"
    using control_turn_ok [OF assms, of pf t elapsed] assms by (cases "co_control_fault c = 0") auto
  then show ?thesis using console_ok [of c1 pf input] by (simp add: control_iteration_def)
qed

lemma ingress_app [simp]: "co_app (snd (ingress_loop budget packets c)) = co_app c" 
  by (induction budget packets c rule: ingress_loop.induct) (simp_all split: prod.split)

lemma core_step_ok: "core_ok c \<Longrightarrow> \<exists>c'. core_step pf e c = Some c' \<and> core_ok c'"
  by (cases e) (simp_all add: service_usb_midi_ingress_def control_iteration_ok)

lemma core_run_ok: "core_ok c \<Longrightarrow> \<exists>c'. core_run pf es c = Some c' \<and> core_ok c'"
proof (induction es arbitrary: c)
  case (Cons e es)
  then show ?case using core_step_ok [OF Cons.prems, of pf e] by auto
qed simp

text \<open>C25: The firmware never faults. After a successful start-up, whatever packets arrive over USB, whatever their bytes, at whatever
  times the cores run, whatever is typed on the debug console and whatever the FPGA and its link answer, every turn of both cores
  completes: MIDI dispatch, the transport monitor, completion polling, the control job, the command flush and the console read
  nothing outside the image or its tables, and the state of the synthesizer stays consistent.\<close>

theorem firmware_never_faults:
  assumes "app_synth_init pf d a = Some (0, a0)"
  shows "\<exists>c. core_run pf events (core_start a0 capture q t) = Some c \<and> app_ok (co_app c)"
proof -
  have "app_ok a0" using init_outcome [of pf d a] assms fresh_ok by auto
  then show ?thesis by (intro core_run_ok) (simp add: core_start_def)
qed

definition demo_queue :: midi_ingress_queue where
  "demo_queue = \<lparr> iq_packets = replicate 256 0, iq_write_count = 0, iq_read_count = 0, iq_high_water = 0, iq_overflow_count = 0 \<rparr>"

theorem firmware_never_faults_witness:
  "\<exists>a0 c. app_synth_init demo_fpga demo_image demo_app = Some (0, a0) \<and> app_ok (co_app c) \<and>
     core_run demo_fpga [Core0_Turn [[0x09, 0x90, 60, 100], [0x08, 0x80, 60, 0]], Core1_Turn 5 (\<lambda>n. 0) (Some (CHR ''a'')), Core1_Turn 6 (\<lambda>n. 2000) None]
       (core_start a0 demo_capture demo_queue 0) = Some c"
  using demo_init firmware_never_faults [of demo_fpga demo_image demo_app] by blast

section \<open>Faults are final\<close>

definition silent :: "core_event \<Rightarrow> bool" where
  "silent e \<longleftrightarrow> (case e of Core0_Turn packets \<Rightarrow> True | Core1_Turn t elapsed input \<Rightarrow> input = None)"

lemma ingress_keeps [simp]:
  "co_control_fault (snd (ingress_loop budget packets c)) = co_control_fault c"
  by (induction budget packets c rule: ingress_loop.induct) (simp_all split: prod.split)

lemma console_fault: "debug_console_service pf input c = Some c' \<Longrightarrow> co_control_fault c' = co_control_fault c"
proof -
  have [simp]: "co_control_fault (snd (on_app f c)) = co_control_fault c" for f and c :: "'a control_core"
    by (simp add: on_app_def split: prod.split)
  have [simp]: "co_control_fault (fold (debug_uart_read_register pf) rs c) = co_control_fault c" for rs and c :: "'a control_core"
    by (induction rs arbitrary: c) (simp_all add: debug_uart_read_register_def)
  have "co_control_fault (snd (app_operator_panic pf c)) = co_control_fault c"
    by (simp add: app_operator_panic_def Let_def case_prod_unfold)
  then show "debug_console_service pf input c = Some c' \<Longrightarrow> co_control_fault c' = co_control_fault c"
    by (auto simp: debug_console_service_def debug_uart_handle_character_def debug_uart_operator_command_def debug_uart_dump_fpga_def debug_uart_read_register_def
        split: option.splits if_splits)
qed

lemma faulted_step:
  assumes "co_control_fault c \<noteq> 0" and "core_step pf e c = Some c'"
  shows "co_control_fault c' = co_control_fault c" "silent e \<Longrightarrow> co_app c' = co_app c"
proof -
  show "co_control_fault c' = co_control_fault c"
  proof (cases e)
    case (Core1_Turn t elapsed input)
    then have "debug_console_service pf input c = Some c'" using assms by (simp add: control_iteration_def)
    then show ?thesis by (rule console_fault)
  qed (use assms(2) in \<open>auto simp: service_usb_midi_ingress_def\<close>)
  show "silent e \<Longrightarrow> co_app c' = co_app c"
    using assms by (cases e) (auto simp: service_usb_midi_ingress_def control_iteration_def silent_def debug_console_service_def)
qed

lemma faulted_run:
  "co_control_fault c \<noteq> 0 \<Longrightarrow> core_run pf es c = Some c' \<Longrightarrow>
     co_control_fault c' = co_control_fault c \<and> (list_all silent es \<longrightarrow> co_app c' = co_app c)"
proof (induction es arbitrary: c)
  case (Cons e es)
  obtain c1 where c1: "core_step pf e c = Some c1" "core_run pf es c1 = Some c'" using Cons.prems(2) by (auto simp: bind_eq_Some_conv)
  show ?case using faulted_step [OF Cons.prems(1) c1(1)] Cons.IH [OF _ c1(2)] Cons.prems(1) by simp
qed simp

lemma turn_with_midi_error:
  assumes "co_control_fault c = 0"
    and "app_synth_monitor_transport pf t (co_app c) = (0, a1)" and "ad_fpga_session_ready (ap_diagnostics a1)"
    and "app_synth_service_completions pf t a1 = (0, a2)" and "ad_fpga_session_ready (ap_diagnostics a2)"
    and "midi_ingress_queue_pop (co_usb_midi_ingress c) = (Some packet, q)"
    and "dispatch_midi_packet pf packet ((note_session_resets (c\<lparr> co_app := a1 \<rparr>))\<lparr> co_app := a2, co_usb_midi_ingress := q \<rparr>) = Some (result, c2)"
    and "result < 0"
  shows "control_turn pf t elapsed c = Some (c2\<lparr> co_control_fault := result \<rparr>)"
proof -
  let ?c1 = "(note_session_resets (c\<lparr> co_app := a1 \<rparr>))\<lparr> co_app := a2 \<rparr>"
  have one: "on_app (app_synth_monitor_transport pf t) c = (0, c\<lparr> co_app := a1 \<rparr>)" using assms(2) by (simp add: on_app_def)
  have two: "on_app (app_synth_service_completions pf t) (note_session_resets (c\<lparr> co_app := a1 \<rparr>)) = (0, ?c1)" using assms(4) by (simp add: on_app_def)
  have "16 = Suc (15 :: nat)" by simp
  then have "service_control_midi pf elapsed ?c1 = Some (result, c2)"
    using assms(6-8) unfolding service_control_midi_def APP_CONTROL_MIDI_PACKET_BUDGET_def by (simp only: control_midi_loop.simps) simp
  then show ?thesis using assms(3,5,8) by (simp add: control_turn_def one two latch_def)
qed

text \<open>C27: One failed MIDI packet silences the synthesizer until reboot. When, in a turn without a fault and with the session ready, the
  dispatch of the first packet fails, as the System Exclusive reset does when its session reset fails, the error is latched, and
  nothing that happens afterwards clears it, a successful operator reset from the console included; without console input the
  synthesizer never changes again, so no later packet is dispatched and no control job runs.\<close>

theorem midi_error_is_final:
  assumes "co_control_fault c = 0"
    and "app_synth_monitor_transport pf t (co_app c) = (0, a1)" and "ad_fpga_session_ready (ap_diagnostics a1)"
    and "app_synth_service_completions pf t a1 = (0, a2)" and "ad_fpga_session_ready (ap_diagnostics a2)"
    and "midi_ingress_queue_pop (co_usb_midi_ingress c) = (Some packet, q)"
    and "dispatch_midi_packet pf packet ((note_session_resets (c\<lparr> co_app := a1 \<rparr>))\<lparr> co_app := a2, co_usb_midi_ingress := q \<rparr>) = Some (result, c2)"
    and "result < 0"
    and "core_run pf (Core1_Turn t elapsed input # events) c = Some c'"
  shows "co_control_fault c' = result \<and> (input = None \<and> list_all silent events \<longrightarrow> co_app c' = co_app c2)"
proof -
  obtain c3 where c3: "debug_console_service pf input (c2\<lparr> co_control_fault := result \<rparr>) = Some c3" "core_run pf events c3 = Some c'"
    using assms(9) turn_with_midi_error [OF assms(1-8), of elapsed] assms(1) by (auto simp: control_iteration_def bind_eq_Some_conv)
  have "co_control_fault c3 = result" using console_fault [OF c3(1)] by simp
  moreover have "co_app c3 = co_app c2" if "input = None"
  proof -
    have "c3 = c2\<lparr> co_control_fault := result \<rparr>" using c3(1) that by (simp add: debug_console_service_def)
    then show ?thesis by simp
  qed
  ultimately show ?thesis using faulted_run [of c3 pf events c'] c3(2) assms(8) by auto
qed

text \<open>An FPGA that misses its first deadline, and a session that is about to receive the last byte of a SysEx reset.\<close>

definition demo_slow :: "demo_device platform" where
  "demo_slow = demo_fpga\<lparr> pf_wait_idle := (\<lambda>d n. if snd d = 7 then (- 1, (fst d, 8)) else (0, d)) \<rparr>"

definition demo_ready :: "demo_device app_synth" where
  "demo_ready = diagnose (\<lambda>g. g\<lparr> ad_fpga_session_ready := True \<rparr>) demo_busy"

definition demo_pushed :: "u8 list \<Rightarrow> midi_ingress_queue" where
  "demo_pushed packet = demo_queue\<lparr> iq_packets := (replicate 256 0)[0 := pack_packet packet], iq_write_count := 1 \<rparr>"

definition demo_away :: "demo_device control_core" where
  "demo_away = (core_start demo_busy demo_capture demo_queue 0)\<lparr> co_usb_midi_ingress := demo_pushed [0x09, 0x90, 60, 100] \<rparr>"

definition demo_resetting :: "demo_device control_core" where
  "demo_resetting = (core_start demo_ready demo_capture demo_queue 0)\<lparr> co_usb_midi_ingress := demo_pushed [0x05, 0xf7, 0, 0],
     co_usb_midi_sysex_parser := \<lparr> mp_match_index = 6 \<rparr> \<rparr>"

lemma hardware_init_batch [simp]: "al_hardware (ap_link (init_batch a)) = al_hardware (ap_link a)"
  by (simp add: init_batch_def)

lemma slow_reset:
  assumes "snd (al_hardware (ap_link a)) = 7"
  shows "fst (app_perform_render_session_reset demo_slow a) = - 1" "snd (al_hardware (ap_link (snd (app_perform_render_session_reset demo_slow a)))) = 8"
  using assms by (simp_all add: app_perform_render_session_reset_def Let_def on_hardware_eq demo_slow_def session_failed_def)

lemma reset_ready:
  assumes "fst (app_perform_render_session_reset pf a) = 0" and "accepted_view (ap_view a)"
  shows "ad_fpga_session_ready (ap_diagnostics (snd (app_perform_render_session_reset pf a)))"
  by (rule session_reset_cases [OF assms(2), of pf]) (use assms(1) in auto)

lemma demo_ready_ok: "app_ok demo_ready" "snd (al_hardware (ap_link demo_ready)) = 7"
proof -
  show "app_ok demo_ready" using demo_busy_ok by (simp add: demo_ready_def)
  have "rt_command_context demo_start = demo_link" by (simp add: demo_start_def msf2_runtime_init_def MSF2_MAX_VOICE_COUNT_def)
  then show "snd (al_hardware (ap_link demo_ready)) = 7"
    by (simp add: demo_ready_def diagnose_def demo_busy_def activate_voice_def Let_def set_voice_def allocate_voice_def demo_start_fields demo_link_def)
qed

theorem midi_error_is_final_witness:
  "\<exists>c'. core_run demo_slow [Core1_Turn 0 (\<lambda>n. 0) None, Core1_Turn 0 (\<lambda>n. 0) (Some (CHR ''a''))] demo_resetting = Some c' \<and>
     co_control_fault c' = - 1 \<and> session_ready c' \<and> \<not> co_usb_midi_panic_active c'"
proof -
  let ?a2 = "update_link (\<lambda>l. l\<lparr> al_current_millisecond := 0 \<rparr>) demo_ready"
  have one: "app_synth_monitor_transport demo_slow 0 (co_app demo_resetting) = (0, demo_ready)"
    by (simp add: demo_resetting_def core_start_def app_synth_monitor_transport_def demo_ready_def diagnose_def demo_busy_def demo_app_def)
  have ready: "ad_fpga_session_ready (ap_diagnostics demo_ready)" "ad_fpga_session_ready (ap_diagnostics ?a2)" by (simp_all add: demo_ready_def)
  have two: "app_synth_service_completions demo_slow 0 demo_ready = (0, ?a2)"
    using ready by (simp add: app_synth_service_completions_def Let_def APP_COMPLETION_POLL_PERIOD_MS_def)
      (simp add: update_link_def update_runtime_def demo_ready_def diagnose_def demo_busy_def demo_app_def)
  let ?q = "demo_queue\<lparr> iq_packets := (replicate 256 0)[0 := pack_packet [0x05, 0xf7, 0, 0]], iq_write_count := 1, iq_read_count := 1 \<rparr>"
  have pop: "midi_ingress_queue_pop (co_usb_midi_ingress demo_resetting) = (Some [0x05, 0xf7, 0, 0], ?q)"
    by (simp add: demo_resetting_def demo_pushed_def midi_ingress_queue_pop_def Let_def pop_read_def pop_publish_def demo_queue_def slot_index_def
        unpack_pack)
  define cm where "cm = (note_session_resets (demo_resetting\<lparr> co_app := demo_ready \<rparr>))\<lparr> co_app := ?a2, co_usb_midi_ingress := ?q \<rparr>"
  have sysex: "midi_sysex_reset_process_usb_packet (co_usb_midi_sysex_parser cm) [0x05, 0xf7, 0, 0] =
      (MIDI_SYSEX_ACTION_RESET_SESSION, \<lparr> mp_match_index = 0 \<rparr>)"
    by (simp add: cm_def demo_resetting_def midi_sysex_reset_process_usb_packet_def sysex_byte_count_def Let_def packet_bytes_def
        consume_byte_def reset_session_message_def)
  define cp where "cp = cm\<lparr> co_usb_midi_sysex_parser := \<lparr> mp_match_index = 0 \<rparr> \<rparr>"
  define c2 where "c2 = snd (app_operator_panic demo_slow cp)"
  have "snd (al_hardware (ap_link (co_app cp))) = 7" using demo_ready_ok(2) by (simp add: cp_def cm_def)
  note slow = slow_reset [OF this]
  have "dispatch_midi_packet demo_slow [0x05, 0xf7, 0, 0] cm = Some (- 1, c2)"
    using slow(1) by (simp add: dispatch_midi_packet_def sysex cp_def [symmetric] c2_def app_operator_panic_def Let_def case_prod_unfold)
  note dispatched = this [unfolded cm_def]
  have app: "core_ok demo_resetting" using demo_ready_ok(1) by (simp add: demo_resetting_def core_start_def)
  obtain c' where run: "core_run demo_slow [Core1_Turn 0 (\<lambda>n. 0) None, Core1_Turn 0 (\<lambda>n. 0) (Some (CHR ''a''))] demo_resetting = Some c'"
    using core_run_ok [of demo_resetting demo_slow "[Core1_Turn 0 (\<lambda>n. 0) None, Core1_Turn 0 (\<lambda>n. 0) (Some (CHR ''a''))]"] app by blast
  have fault: "co_control_fault demo_resetting = 0" by (simp add: demo_resetting_def core_start_def)
  have "co_control_fault c' = - 1"
    using midi_error_is_final [OF fault one ready(1) two ready(2) pop dispatched _ run] by simp
  moreover have "c' = snd (app_operator_panic demo_slow (c2\<lparr> co_control_fault := - 1 \<rparr>))"
    using run turn_with_midi_error [OF fault one ready(1) two ready(2) pop dispatched, of "\<lambda>n. 0"] fault
    by (simp add: control_iteration_def debug_console_service_def debug_uart_handle_character_def debug_uart_operator_command_def)
  moreover have "session_ready (snd (app_operator_panic demo_slow c)) \<and> \<not> co_usb_midi_panic_active (snd (app_operator_panic demo_slow c))"
    if "co_app c = co_app c2" for c
  proof -
    have ok: "app_ok (co_app c)" using that panic_ok [of cp demo_slow] demo_ready_ok(1) by (simp add: c2_def cp_def cm_def)
    have hw: "snd (al_hardware (ap_link (co_app c))) = 8"
      using slow(2) by (simp add: that c2_def app_operator_panic_def Let_def case_prod_unfold)
    have "fst (app_perform_render_session_reset demo_slow (co_app c)) = 0"
      by (rule demo_reset) (use ok hw in \<open>simp_all add: app_ok_def demo_slow_def demo_fpga_def\<close>)
    moreover have "accepted_view (ap_view (co_app c))" using ok by (simp add: app_ok_def)
    ultimately have "ad_fpga_session_ready (ap_diagnostics (snd (app_perform_render_session_reset demo_slow (co_app c))))"
      using reset_ready by blast
    then show ?thesis
      using \<open>fst (app_perform_render_session_reset demo_slow (co_app c)) = 0\<close> by (simp add: app_operator_panic_def Let_def case_prod_unfold)
  qed
  ultimately show ?thesis using run by auto
qed

section \<open>Events while offline\<close>

lemma discard_loop_all: "discard_loop q n = (q\<lparr> iq_read_count := iq_write_count q \<rparr>, n + (iq_write_count q - iq_read_count q))"
proof (induction q n rule: discard_loop.induct)
  case (1 q n)
  then show ?case
    by (subst discard_loop.simps) (auto simp: midi_ingress_queue_pop_def Let_def pop_publish_def)
qed

text \<open>C26: What is played while the FPGA is away is never played late. In a turn whose transport check finds or leaves the session
  offline, the ingress queue is emptied without dispatching a packet: the discarded packets are counted, the SysEx recogniser and
  the MIDI state are as the check left them, no command waits, and no fault is latched.\<close>

theorem offline_midi_is_dropped:
  assumes "co_control_fault c = 0"
    and "app_synth_monitor_transport pf t (co_app c) = (0, a1)" and "\<not> ad_fpga_session_ready (ap_diagnostics a1)"
    and "control_turn pf t elapsed c = Some c'"
  shows "co_usb_midi_ingress c' = (co_usb_midi_ingress c)\<lparr> iq_read_count := iq_write_count (co_usb_midi_ingress c) \<rparr> \<and>
    co_usb_midi_offline_discard_count c' = co_usb_midi_offline_discard_count c + midi_ingress_queue_depth (co_usb_midi_ingress c) \<and>
    co_usb_midi_sysex_parser c' = co_usb_midi_sysex_parser c \<and> co_control_fault c' = 0 \<and>
    co_app c' = (if t = co_command_flush_millisecond c then a1 else init_batch a1)"
proof -
  have one: "on_app (app_synth_monitor_transport pf t) c = (0, c\<lparr> co_app := a1 \<rparr>)" using assms(2) by (simp add: on_app_def)
  have flush: "flush_commands pf t b = (0, if t = co_command_flush_millisecond b then b
      else b\<lparr> co_command_flush_millisecond := t, co_app := init_batch (co_app b) \<rparr>)" if "\<not> session_ready b" for b
    using that by (simp add: flush_commands_def on_app_def app_synth_flush_commands_def)
  let ?b = "discard_offline_control_midi (note_session_resets (c\<lparr> co_app := a1 \<rparr>))"
  have "\<not> session_ready ?b" using assms(3) by simp
  note flushed = flush [OF this]
  have "c' = (if t = co_command_flush_millisecond ?b then ?b else ?b\<lparr> co_command_flush_millisecond := t, co_app := init_batch (co_app ?b) \<rparr>)"
    using assms(3,4) by (simp add: control_turn_def one latch_def flushed)
  then show ?thesis
    using assms(1) by (simp add: discard_offline_control_midi_def discard_loop_all midi_ingress_queue_depth_def)
qed

theorem offline_midi_is_dropped_witness:
  "\<exists>c'. control_turn demo_fpga 0 (\<lambda>n. 0) demo_away = Some c' \<and> iq_read_count (co_usb_midi_ingress c') = 1 \<and>
     co_usb_midi_offline_discard_count c' = 1 \<and> co_app c' = demo_busy"
proof -
  obtain c' where c': "control_turn demo_fpga 0 (\<lambda>n. 0) demo_away = Some c'"
    using control_turn_ok [of demo_away demo_fpga 0 "\<lambda>n. 0"] demo_busy_ok by (auto simp: demo_away_def core_start_def)
  have "app_synth_monitor_transport demo_fpga 0 (co_app demo_away) = (0, demo_busy)"
    by (simp add: demo_away_def core_start_def app_synth_monitor_transport_def demo_busy_def demo_app_def)
  moreover have "\<not> ad_fpga_session_ready (ap_diagnostics demo_busy)" "co_control_fault demo_away = 0"
    by (simp_all add: demo_busy_def demo_app_def zero_diagnostics_def demo_away_def core_start_def)
  ultimately show ?thesis
    using offline_midi_is_dropped [of demo_away demo_fpga 0 demo_busy "\<lambda>n. 0" c'] c'
    by (simp add: demo_away_def core_start_def demo_pushed_def demo_queue_def midi_ingress_queue_init_def midi_ingress_queue_depth_def)
qed

end
